(* ===== verification/VSF_Prelude.thy ===== *)
theory VSF_Prelude
  imports Main "HOL-Library.Word"
begin

text \<open>
  Shared vocabulary of the development: the machine integer types of the target (32-bit, as the
  default configuration of \<open>src/source\<close> has them), the error codes the components return, and
  the generic lemmas on words, alignment, ring buffers and byte blocks that the component theories
  use.

  Conventions used by every component theory:
  \<^item> a leading \<open>__\<close> of a C name is written \<open>p_\<close> (an Isabelle name cannot start with an
    underscore); every other name is the one of the source;
  \<^item> a violated \<open>VSF_ASSERT\<close> stops the program; where an assertion depends on more than a
    pointer being non-null, the operation returns an \<open>option\<close> and \<open>None\<close> is that stop;
  \<^item> objects are records passed and returned by value, so the null checks of an operation on its
    own object have no counterpart;
  \<^item> the enter/leave pairs of a protected region (interrupts or the scheduler masked) are the
    points where an operation may be interleaved with others; an operation is one step where its
    updates lie in one region, and is split in several where they do not and it matters.
\<close>

type_synonym u8 = "8 word"
type_synonym u16 = "16 word"
type_synonym u32 = "32 word"
type_synonym u64 = "64 word"

text \<open>The error codes of \<open>utilities/compiler/__common/__type.h\<close> that the components use.\<close>

datatype vsf_err_t =
    VSF_ERR_NONE
  | VSF_ERR_NOT_READY
  | VSF_ERR_NOT_AVAILABLE
  | VSF_ERR_NOT_ENOUGH_RESOURCES
  | VSF_ERR_OVERRUN
  | VSF_ERR_FAIL

named_theorems word_nat \<open>reading word comparisons and additions as natural numbers\<close>
named_theorems ring_simps \<open>contents of a ring buffer after an update\<close>
named_theorems blk_simps \<open>reading and writing blocks of a byte list\<close>

section \<open>Words\<close>

lemmas word_nat_base [word_nat] = word_less_nat_alt word_le_nat_alt unat_eq_zero

lemma unat_inc: "a < b \<Longrightarrow> unat (a + 1) = unat a + 1"
  for a b :: "'a::len word"
proof -
  assume "a < b"
  then have "unat a < unat b" by (simp add: word_less_nat_alt)
  moreover have "unat b < 2 ^ LENGTH('a)" by simp
  ultimately have "unat a + unat (1 :: 'a word) < 2 ^ LENGTH('a)"
    unfolding unat_1 by linarith
  then have "unat (a + 1) = unat a + unat (1 :: 'a word)" by (rule unat_add_lem [THEN iffD1])
  then show ?thesis by simp
qed

lemma unat_dec: "0 < a \<Longrightarrow> unat (a - 1) = unat a - 1"
  for a :: "'a::len word"
  by (metis unat_minus_one word_neq_0_conv)

lemma unat_add_small: "unat a + unat b < 2 ^ LENGTH('a) \<Longrightarrow> unat (a + b) = unat a + unat b"
  for a b :: "'a::len word"
  by (rule unat_add_lem [THEN iffD1])

lemma unat_sub_small: "b \<le> a \<Longrightarrow> unat (a - b) = unat a - unat b"
  for a b :: "'a::len word"
  by (rule unat_sub)

lemma unat_min_word: "unat (min a b) = min (unat a) (unat b)"
  for a b :: "'a::len word"
  by (simp add: min_def word_le_nat_alt)

lemma unat_pos_iff [word_nat]: "0 < a \<longleftrightarrow> 0 < unat a"
  for a :: "'a::len word"
  by (simp add: word_less_nat_alt)

lemma unat_u8_less [simp]: "unat (a :: u8) < 256"
  using unsigned_less [of a, where ?'a = nat] by simp

lemma unat_u16_less [simp]: "unat (a :: u16) < 65536"
  using unsigned_less [of a, where ?'a = nat] by simp

lemma unat_u32_less [simp]: "unat (a :: u32) < 4294967296"
  using unsigned_less [of a, where ?'a = nat] by simp

section \<open>Blocks of bytes\<close>

text \<open>
  \<open>memcpy\<close> out of and into a byte array: \<open>n\<close> bytes read at an offset, and a block written at one.
\<close>

definition blk_read :: "'a list \<Rightarrow> nat \<Rightarrow> nat \<Rightarrow> 'a list" where
  "blk_read xs off n = take n (drop off xs)"

definition blk_write :: "'a list \<Rightarrow> nat \<Rightarrow> 'a list \<Rightarrow> 'a list" where
  "blk_write xs off ys = take off xs @ ys @ drop (off + length ys) xs"

lemma length_blk_write [blk_simps]:
  "off + length ys \<le> length xs \<Longrightarrow> length (blk_write xs off ys) = length xs"
  by (simp add: blk_write_def)

lemma length_blk_read [blk_simps]:
  "off + n \<le> length xs \<Longrightarrow> length (blk_read xs off n) = n"
  by (simp add: blk_read_def)

lemma blk_read_write_same [blk_simps]:
  "off + length ys \<le> length xs \<Longrightarrow> n = length ys \<Longrightarrow> blk_read (blk_write xs off ys) off n = ys"
  by (simp add: blk_read_def blk_write_def)

lemma blk_read_write_other [blk_simps]:
  assumes "off + length ys \<le> length xs" "p + n \<le> off \<or> off + length ys \<le> p"
  shows "blk_read (blk_write xs off ys) p n = blk_read xs p n"
proof (rule nth_equalityI)
  show "length (blk_read (blk_write xs off ys) p n) = length (blk_read xs p n)"
    using assms(1) by (simp add: blk_read_def length_blk_write)
next
  fix i assume "i < length (blk_read (blk_write xs off ys) p n)"
  then have "i < n" "p + i < length xs"
    using assms(1) by (auto simp: blk_read_def length_blk_write)
  with assms show "blk_read (blk_write xs off ys) p n ! i = blk_read xs p n ! i"
    by (auto simp: blk_read_def blk_write_def nth_append length_blk_write)
qed

text \<open>Slots of one size at different indices do not overlap, and lie inside the array.\<close>

lemma slot_disjoint: "i \<noteq> j \<Longrightarrow> z * i + z \<le> z * j \<or> z * j + z \<le> z * i"
  for i j z :: nat
proof (cases "i < j")
  case True
  then have "z * Suc i \<le> z * j" by (intro mult_le_mono) auto
  then show ?thesis by simp
next
  case False
  assume "i \<noteq> j"
  with False have "z * Suc j \<le> z * i" by (intro mult_le_mono) auto
  then show ?thesis by simp
qed

lemma slot_inside: "i < d \<Longrightarrow> z * i + z \<le> z * d"
  for i d z :: nat
proof -
  assume "i < d"
  then have "z * Suc i \<le> z * d" by (intro mult_le_mono) auto
  then show ?thesis by simp
qed

end
