(* ===== verification/VSF_Ring.thy ===== *)
theory VSF_Ring
  imports VSF_Prelude
begin

text \<open>
  The arithmetic and the contents of ring buffers, shared by \<open>vsf_fifo\<close>, \<open>vsf_rng_buf\<close> and the
  array event queue, and the contract of a bounded queue: the locale \<open>bounded_queue\<close>, whose
  lemmas (any sequence of operations is first-in first-out, nothing is lost or made up) hold of
  every interpretation.
\<close>

section \<open>Ring positions\<close>

definition ring_next :: "nat \<Rightarrow> nat \<Rightarrow> nat" where
  "ring_next d i = (if d \<le> i + 1 then 0 else i + 1)"

lemma ring_next_mod: "i < d \<Longrightarrow> ring_next d i = (i + 1) mod d"
  by (auto simp: ring_next_def mod_Suc)

lemma ring_next_less [simp]: "0 < d \<Longrightarrow> ring_next d i < d"
  by (auto simp: ring_next_def)

text \<open>The contents of a ring: \<open>n\<close> cells from position \<open>t\<close>, read by \<open>get\<close>.\<close>

definition ring_list :: "(nat \<Rightarrow> 'a) \<Rightarrow> nat \<Rightarrow> nat \<Rightarrow> nat \<Rightarrow> 'a list" where
  "ring_list get d t n = map (\<lambda>i. get ((t + i) mod d)) [0..<n]"

lemma length_ring_list [simp]: "length (ring_list get d t n) = n"
  by (simp add: ring_list_def)

lemma ring_list_0 [simp]: "ring_list get d t 0 = []"
  by (simp add: ring_list_def)

lemma ring_list_Suc: "ring_list get d t (Suc n) = ring_list get d t n @ [get ((t + n) mod d)]"
  by (simp add: ring_list_def)

lemma nth_ring_list [simp]: "i < n \<Longrightarrow> ring_list get d t n ! i = get ((t + i) mod d)"
  by (simp add: ring_list_def)

lemma ring_list_Cons:
  "ring_list get d t (Suc n) = get (t mod d) # ring_list get d ((t + 1) mod d) n"
proof (rule nth_equalityI)
  fix i assume "i < length (ring_list get d t (Suc n))"
  then show "ring_list get d t (Suc n) ! i = (get (t mod d) # ring_list get d ((t + 1) mod d) n) ! i"
    by (cases i) (simp_all add: mod_add_left_eq mod_Suc_eq)
qed simp

text \<open>Two positions of the window coincide only for the same offset.\<close>

lemma ring_pos_inj:
  "i < d \<Longrightarrow> j < d \<Longrightarrow> (t + i) mod d = (t + j) mod d \<Longrightarrow> i = j"
  for i j t d :: nat
proof (induct i j rule: linorder_wlog)
  case (le i j)
  then have "(t + j) mod d = (t + i) mod d" by simp
  with le(1) have "d dvd (t + j) - (t + i)"
    using mod_eq_dvd_iff_nat [of "t + i" "t + j" d] by simp
  then have "d dvd j - i" by simp
  with le show ?case using nat_dvd_not_less [of "j - i" d] by (cases "i = j") auto
qed auto

text \<open>A write just behind the window does not change the window.\<close>

lemma ring_list_cong:
  assumes "\<And>i. i < n \<Longrightarrow> g ((t + i) mod d) = h ((t + i) mod d)"
  shows "ring_list g d t n = ring_list h d t n"
  using assms by (simp add: ring_list_def)

lemma ring_list_outside [ring_simps]:
  assumes "n < d" "\<And>p. p < d \<Longrightarrow> p \<noteq> (t + n) mod d \<Longrightarrow> g p = h p"
  shows "ring_list g d t n = ring_list h d t n"
proof (rule ring_list_cong)
  fix i assume "i < n"
  with assms(1) have "(t + i) mod d \<noteq> (t + n) mod d"
    using ring_pos_inj [of i d n t] by auto
  moreover have "(t + i) mod d < d" using assms(1) by simp
  ultimately show "g ((t + i) mod d) = h ((t + i) mod d)" by (intro assms(2))
qed

text \<open>A run of cells that does not wrap is a block; blocks read from and written behind the window.\<close>

lemma ring_list_mod [simp]: "ring_list g d (t mod d) n = ring_list g d t n"
  by (simp add: ring_list_def mod_add_left_eq)

lemma ring_mod_skip: "j \<le> n \<Longrightarrow> ((h + j) mod d + (n - j)) mod d = (h + n) mod d"
  for h j n d :: nat
  by (subst mod_add_left_eq) simp

lemma ring_list_append: "ring_list g d t (n + k) = ring_list g d t n @ ring_list g d (t + n) k"
  by (induction k) (simp_all add: ring_list_Suc add.assoc)

lemma ring_list_straight:
  assumes "t + k \<le> d" "length xs = d"
  shows "ring_list ((!) xs) d t k = blk_read xs t k"
  using assms by (intro nth_equalityI) (simp_all add: blk_read_def)

lemma ring_list_split:
  assumes "k \<le> n" "t + k \<le> d" "length xs = d"
  shows "ring_list ((!) xs) d t n = blk_read xs t k @ ring_list ((!) xs) d ((t + k) mod d) (n - k)"
  using ring_list_append [of "(!) xs" d t k "n - k"] assms by (simp add: ring_list_straight)

lemma nth_blk_write_other:
  "off + length ys \<le> length xs \<Longrightarrow> p < off \<or> off + length ys \<le> p \<Longrightarrow> blk_write xs off ys ! p = xs ! p"
  by (auto simp: blk_write_def nth_append)

lemma ring_list_write:
  assumes "n + k \<le> d" "t + k \<le> d" "t = (h + n) mod d" "length xs = d" "length ys = k"
  shows "ring_list ((!) (blk_write xs t ys)) d h (n + k) = ring_list ((!) xs) d h n @ ys"
proof -
  let ?b = "blk_write xs t ys"
  have len: "length ?b = d" using assms by (simp add: length_blk_write)
  have "ring_list ((!) ?b) d (h + n) k = ring_list ((!) ?b) d t k" using assms(3) by simp
  also have "\<dots> = ys" using assms(1,2,4,5) len by (simp add: ring_list_straight blk_simps)
  finally have "ring_list ((!) ?b) d (h + n) k = ys" .
  moreover have "ring_list ((!) ?b) d h n = ring_list ((!) xs) d h n"
  proof (rule ring_list_cong)
    fix i assume i: "i < n"
    have "(h + i) mod d < t \<or> t + k \<le> (h + i) mod d"
    proof (rule ccontr)
      assume "\<not> ?thesis"
      then have j: "(h + i) mod d = t + ((h + i) mod d - t)" "(h + i) mod d - t < k" by linarith+
      define j where "j = (h + i) mod d - t"
      note j = j [folded j_def]
      then have "(h + i) mod d = (t + j) mod d" using assms(2) by simp
      also have "\<dots> = (h + (n + j)) mod d" by (simp add: assms(3) mod_add_left_eq add.assoc)
      finally have "i = n + j" using i j(2) assms(1) by (intro ring_pos_inj [of i d "n + j" h]) auto
      with i show False by simp
    qed
    with assms show "?b ! ((h + i) mod d) = xs ! ((h + i) mod d)"
      by (intro nth_blk_write_other) simp_all
  qed
  ultimately show ?thesis by (simp add: ring_list_append)
qed

section \<open>The contract of a bounded queue\<close>

text \<open>
  \<open>push x s\<close> and \<open>pop s\<close> answer as the code does: whether the item was accepted, and the item
  taken out, if any.
\<close>

locale bounded_queue =
  fixes invar :: "'s \<Rightarrow> bool"
    and contents :: "'s \<Rightarrow> 'a list"
    and cap :: "'s \<Rightarrow> nat"
    and valid :: "'s \<Rightarrow> 'a \<Rightarrow> bool"
    and push :: "'a \<Rightarrow> 's \<Rightarrow> bool \<times> 's"
    and pop :: "'s \<Rightarrow> 'a option \<times> 's"
  assumes push_fits: "invar s \<Longrightarrow> valid s x \<Longrightarrow> length (contents s) < cap s \<Longrightarrow>
      fst (push x s) \<and> invar (snd (push x s)) \<and> contents (snd (push x s)) = contents s @ [x]"
    and push_full: "invar s \<Longrightarrow> cap s \<le> length (contents s) \<Longrightarrow> push x s = (False, s)"
    and pop_first: "invar s \<Longrightarrow> contents s = x # xs \<Longrightarrow>
      fst (pop s) = Some x \<and> invar (snd (pop s)) \<and> contents (snd (pop s)) = xs"
    and pop_empty: "invar s \<Longrightarrow> contents s = [] \<Longrightarrow> pop s = (None, s)"
    and cap_push: "invar s \<Longrightarrow> valid s x \<Longrightarrow> cap (snd (push x s)) = cap s"
    and cap_pop: "invar s \<Longrightarrow> cap (snd (pop s)) = cap s"
    and valid_push: "invar s \<Longrightarrow> valid s x \<Longrightarrow> valid (snd (push x s)) = valid s"
    and valid_pop: "invar s \<Longrightarrow> valid (snd (pop s)) = valid s"
    and within_cap: "invar s \<Longrightarrow> length (contents s) \<le> cap s"
begin

text \<open>
  A client performs a sequence of operations: \<open>Some x\<close> pushes \<open>x\<close>, \<open>None\<close> pops. The run
  collects the accepted and the delivered items.
\<close>

fun run :: "'a option list \<Rightarrow> 's \<Rightarrow> 'a list \<times> 'a list \<times> 's" where
  "run [] s = ([], [], s)"
| "run (Some x # ops) s =
     (let (ok, s') = push x s; (ins, outs, s'') = run ops s'
      in ((if ok then x # ins else ins), outs, s''))"
| "run (None # ops) s =
     (let (r, s') = pop s; (ins, outs, s'') = run ops s'
      in (ins, (case r of None \<Rightarrow> outs | Some x \<Rightarrow> x # outs), s''))"

lemma push_cases:
  assumes "invar s" "valid s x"
  obtains (ok) s' where "push x s = (True, s')" "invar s'" "contents s' = contents s @ [x]"
    | (no) "push x s = (False, s)" "length (contents s) = cap s"
proof (cases "length (contents s) < cap s")
  case True
  with push_fits [OF assms] show ?thesis using ok by (cases "push x s") simp
next
  case False
  with push_full [OF assms(1)] within_cap [OF assms(1)] show ?thesis using no by simp
qed

lemma pop_cases:
  assumes "invar s"
  obtains (some) x s' where "pop s = (Some x, s')" "invar s'" "contents s = x # contents s'"
    | (none) "pop s = (None, s)" "contents s = []"
proof (cases "contents s")
  case Nil
  with pop_empty [OF assms] show ?thesis using none by simp
next
  case (Cons x xs)
  with pop_first [OF assms] show ?thesis using some by (cases "pop s") simp
qed

text \<open>Every item delivered was accepted, in the same order, and the rest is still queued.\<close>

lemma run_fifo:
  "invar s \<Longrightarrow> \<forall>x. Some x \<in> set ops \<longrightarrow> valid s x \<Longrightarrow> run ops s = (ins, outs, s') \<Longrightarrow>
     invar s' \<and> contents s @ ins = outs @ contents s'"
proof (induction ops s arbitrary: ins outs s' rule: run.induct)
  case (1 s)
  then show ?case by simp
next
  case (2 x ops s)
  from "2.prems" have x: "valid s x" by simp
  have v: "\<forall>y. Some y \<in> set ops \<longrightarrow> valid (snd (push x s)) y"
    using "2.prems" x by (simp add: valid_push)
  from \<open>invar s\<close> x show ?case
  proof (cases rule: push_cases)
    case (ok s1)
    obtain i o1 s2 where r: "run ops s1 = (i, o1, s2)" by (metis prod_cases3)
    with "2.IH" [of "(True, s1)" True s1] ok v
    have "invar s2 \<and> contents s1 @ i = o1 @ contents s2" by simp
    with r ok "2.prems"(3) show ?thesis by simp
  next
    case no
    obtain i o1 s2 where r: "run ops s = (i, o1, s2)" by (metis prod_cases3)
    with "2.IH" [of "(False, s)" False s] no v \<open>invar s\<close>
    have "invar s2 \<and> contents s @ i = o1 @ contents s2" by simp
    with r no "2.prems"(3) show ?thesis by simp
  qed
next
  case (3 ops s)
  have v: "\<forall>y. Some y \<in> set ops \<longrightarrow> valid (snd (pop s)) y"
    using "3.prems" by (simp add: valid_pop)
  from \<open>invar s\<close> show ?case
  proof (cases rule: pop_cases)
    case (some x s1)
    obtain i o1 s2 where r: "run ops s1 = (i, o1, s2)" by (metis prod_cases3)
    with "3.IH" [of "(Some x, s1)" "Some x" s1] some v
    have "invar s2 \<and> contents s1 @ i = o1 @ contents s2" by simp
    with r some "3.prems"(3) show ?thesis by simp
  next
    case none
    obtain i o1 s2 where r: "run ops s = (i, o1, s2)" by (metis prod_cases3)
    with "3.IH" [of "(None, s)" None s] none v \<open>invar s\<close>
    have "invar s2 \<and> contents s @ i = o1 @ contents s2" by simp
    with r none "3.prems"(3) show ?thesis by simp
  qed
qed

end

end
