(* ===== verification/VSF_Fifo.thy ===== *)
theory VSF_Fifo
  imports VSF_Ring
begin

text \<open>
  The byte fifo of \<open>src/source/service/fifo/vsf_fifo.c\<close>: a ring of fixed-size items with 8-bit
  indices (the default \<open>vsf_fifo_index_t\<close>). The theory has the operations as the code has them, the
  interpretation of the bounded-queue contract on them, and an interleaving model of one producer
  and one consumer that are switched between the protected regions of push and pop.
\<close>

section \<open>Data and operations\<close>

text \<open>
  \<open>vsf_fifo_t\<close>: the indices, and the item memory behind \<open>nodes\<close> as bytes.
\<close>

record vsf_fifo_t =
  fifo_head :: u8
  fifo_tail :: u8
  fifo_number :: u8
  fifo_depth :: u8
  fifo_nodes :: "u8 list"

text \<open>\<open>fifo_depth\<close> is an \<open>uint_fast8_t\<close> argument, 32 bits wide on the target, stored in 8 bits.\<close>

definition vsf_fifo_init :: "u32 \<Rightarrow> vsf_fifo_t \<Rightarrow> vsf_fifo_t" where
  "vsf_fifo_init d f =
     f\<lparr>fifo_head := 0, fifo_tail := 0, fifo_number := 0, fifo_depth := ucast d\<rparr>"

text \<open>
  \<open>vsf_fifo_push\<close> and \<open>vsf_fifo_pop\<close> are a check inside a protected region, the transfer and the
  move of the index outside of it, and the update of the count inside a second region.
\<close>

definition fifo_has_room :: "vsf_fifo_t \<Rightarrow> bool" where
  "fifo_has_room f = (fifo_number f < fifo_depth f)"

definition fifo_has_item :: "vsf_fifo_t \<Rightarrow> bool" where
  "fifo_has_item f = (0 < fifo_number f)"

definition fifo_next :: "u8 \<Rightarrow> u8 \<Rightarrow> u8" where
  "fifo_next d i = (let i' = i + 1 in if d \<le> i' then 0 else i')"

definition fifo_push_transfer :: "u8 list option \<Rightarrow> nat \<Rightarrow> vsf_fifo_t \<Rightarrow> vsf_fifo_t" where
  "fifo_push_transfer item item_size f =
     (let f = (case item of
                 None \<Rightarrow> f
               | Some bytes \<Rightarrow>
                   f\<lparr>fifo_nodes := blk_write (fifo_nodes f) (item_size * unat (fifo_head f))
                                     (take item_size bytes)\<rparr>)
      in f\<lparr>fifo_head := fifo_next (fifo_depth f) (fifo_head f)\<rparr>)"

definition fifo_push_commit :: "vsf_fifo_t \<Rightarrow> vsf_fifo_t" where
  "fifo_push_commit f = f\<lparr>fifo_number := fifo_number f + 1\<rparr>"

definition fifo_pop_transfer :: "nat \<Rightarrow> vsf_fifo_t \<Rightarrow> u8 list \<times> vsf_fifo_t" where
  "fifo_pop_transfer item_size f =
     (blk_read (fifo_nodes f) (item_size * unat (fifo_tail f)) item_size,
      f\<lparr>fifo_tail := fifo_next (fifo_depth f) (fifo_tail f)\<rparr>)"

definition fifo_pop_commit :: "vsf_fifo_t \<Rightarrow> vsf_fifo_t" where
  "fifo_pop_commit f = f\<lparr>fifo_number := fifo_number f - 1\<rparr>"

text \<open>
  \<open>item = None\<close> is the NULL item of the zero-copy use: the caller has written the slot itself.
\<close>

definition vsf_fifo_push ::
  "u8 list option \<Rightarrow> nat \<Rightarrow> vsf_fifo_t \<Rightarrow> (bool \<times> vsf_fifo_t) option" where
  "vsf_fifo_push item item_size f =
     (if \<not> (0 < item_size \<and> 0 < fifo_depth f) then None
      else if fifo_has_room f
      then Some (True, fifo_push_commit (fifo_push_transfer item item_size f))
      else Some (False, f))"

text \<open>
  The result of a successful pop carries the item; \<open>wanted = False\<close> is the NULL destination, to
  which nothing is copied.
\<close>

definition vsf_fifo_pop ::
  "bool \<Rightarrow> nat \<Rightarrow> vsf_fifo_t \<Rightarrow> (bool \<times> u8 list option \<times> vsf_fifo_t) option" where
  "vsf_fifo_pop wanted item_size f =
     (if \<not> (0 < item_size \<and> 0 < fifo_depth f) then None
      else if fifo_has_item f
      then let (bytes, f') = fifo_pop_transfer item_size f
           in Some (True, (if wanted then Some bytes else None), fifo_pop_commit f')
      else Some (False, None, f))"

text \<open>The addresses are offsets in \<open>nodes\<close>; the inner \<open>None\<close> is NULL.\<close>

definition vsf_fifo_get_head :: "nat \<Rightarrow> vsf_fifo_t \<Rightarrow> nat option option" where
  "vsf_fifo_get_head item_size f =
     (if \<not> (0 < item_size \<and> 0 < fifo_depth f) then None
      else if fifo_has_room f then Some (Some (item_size * unat (fifo_head f)))
      else Some None)"

definition vsf_fifo_get_tail :: "nat \<Rightarrow> vsf_fifo_t \<Rightarrow> nat option option" where
  "vsf_fifo_get_tail item_size f =
     (if \<not> (0 < item_size \<and> 0 < fifo_depth f) then None
      else if fifo_has_item f then Some (Some (item_size * unat (fifo_tail f)))
      else Some None)"

definition vsf_fifo_get_number :: "vsf_fifo_t \<Rightarrow> u8" where
  "vsf_fifo_get_number f = fifo_number f"

section \<open>Invariant and contents\<close>

text \<open>
  \<open>fifo_ring z n f\<close>: with items of \<open>z\<close> bytes the ring holds \<open>n\<close> items, the head is \<open>n\<close> slots
  after the tail. Between the regions of an operation \<open>n\<close> differs from \<open>number\<close>.
\<close>

definition fifo_ring :: "nat \<Rightarrow> nat \<Rightarrow> vsf_fifo_t \<Rightarrow> bool" where
  "fifo_ring z n f \<longleftrightarrow> 0 < z \<and> fifo_head f < fifo_depth f \<and> fifo_tail f < fifo_depth f
     \<and> n \<le> unat (fifo_depth f) \<and> length (fifo_nodes f) = z * unat (fifo_depth f)
     \<and> unat (fifo_head f) = (unat (fifo_tail f) + n) mod unat (fifo_depth f)"

definition fifo_slot :: "nat \<Rightarrow> vsf_fifo_t \<Rightarrow> nat \<Rightarrow> u8 list" where
  "fifo_slot z f i = blk_read (fifo_nodes f) (z * i) z"

definition fifo_items :: "nat \<Rightarrow> nat \<Rightarrow> vsf_fifo_t \<Rightarrow> u8 list list" where
  "fifo_items z n f = ring_list (fifo_slot z f) (unat (fifo_depth f)) (unat (fifo_tail f)) n"

definition fifo_wf :: "nat \<Rightarrow> vsf_fifo_t \<Rightarrow> bool" where
  "fifo_wf z f = fifo_ring z (unat (fifo_number f)) f"

definition fifo_contents :: "nat \<Rightarrow> vsf_fifo_t \<Rightarrow> u8 list list" where
  "fifo_contents z f = fifo_items z (unat (fifo_number f)) f"

lemma length_fifo_items [simp]: "length (fifo_items z n f) = n"
  by (simp add: fifo_items_def)

lemma length_fifo_contents [simp]: "length (fifo_contents z f) = unat (fifo_number f)"
  by (simp add: fifo_contents_def)

lemma unat_fifo_next: "i < d \<Longrightarrow> unat (fifo_next d i) = (unat i + 1) mod unat d"
  by (auto simp: fifo_next_def Let_def word_le_nat_alt unat_inc mod_Suc word_less_nat_alt)

lemma fifo_ring_depth: "fifo_ring z n f \<Longrightarrow> 0 < unat (fifo_depth f)"
  by (auto simp: fifo_ring_def word_nat)

text \<open>The transfer of a push appends, the transfer of a pop takes the first item.\<close>

lemma fifo_push_transfer_ring:
  assumes "fifo_ring z n f" "n < unat (fifo_depth f)" "length x = z"
  shows "fifo_ring z (n + 1) (fifo_push_transfer (Some x) z f)"
    and "fifo_items z (n + 1) (fifo_push_transfer (Some x) z f) = fifo_items z n f @ [x]"
proof -
  let ?f = "fifo_push_transfer (Some x) z f" and ?d = "unat (fifo_depth f)"
    and ?h = "unat (fifo_head f)" and ?t = "unat (fifo_tail f)"
  note R = assms(1) [unfolded fifo_ring_def]
  have d: "0 < ?d" by (rule fifo_ring_depth [OF assms(1)])
  have inside: "z * ?h + length x \<le> length (fifo_nodes f)"
    using R assms(3) slot_inside [of ?h ?d z] by (simp add: word_less_nat_alt)
  have nxt: "unat (fifo_next (fifo_depth f) (fifo_head f)) = (?h + 1) mod ?d"
    using R by (simp add: unat_fifo_next)
  have "(?h + 1) mod ?d = (?t + (n + 1)) mod ?d" using R by (simp add: mod_Suc_eq)
  with R nxt inside d assms(2,3) show "fifo_ring z (n + 1) ?f"
    by (simp add: fifo_ring_def fifo_push_transfer_def word_less_nat_alt blk_simps)
  have same: "fifo_slot z ?f ?h = x"
    using inside assms(3) by (simp add: fifo_slot_def fifo_push_transfer_def blk_simps)
  have other: "fifo_slot z ?f p = fifo_slot z f p" if "p \<noteq> ?h" for p
    using inside assms(3) slot_disjoint [OF that, of z]
    by (simp add: fifo_slot_def fifo_push_transfer_def blk_read_write_other)
  have "ring_list (fifo_slot z ?f) ?d ?t n = ring_list (fifo_slot z f) ?d ?t n"
    using assms(2) R other by (intro ring_list_outside) simp_all
  with same R show "fifo_items z (n + 1) ?f = fifo_items z n f @ [x]"
    by (simp add: fifo_items_def ring_list_Suc fifo_push_transfer_def)
qed

lemma fifo_pop_transfer_ring:
  assumes "fifo_ring z (Suc n) f" "fifo_pop_transfer z f = (x, f')"
  shows "fifo_ring z n f'" and "fifo_items z (Suc n) f = x # fifo_items z n f'"
proof -
  let ?d = "unat (fifo_depth f)" and ?t = "unat (fifo_tail f)"
  note R = assms(1) [unfolded fifo_ring_def]
  have d: "0 < ?d" by (rule fifo_ring_depth [OF assms(1)])
  have f': "f' = f\<lparr>fifo_tail := fifo_next (fifo_depth f) (fifo_tail f)\<rparr>"
    and x: "x = fifo_slot z f ?t"
    using assms(2) by (simp_all add: fifo_pop_transfer_def fifo_slot_def)
  have nxt: "unat (fifo_next (fifo_depth f) (fifo_tail f)) = (?t + 1) mod ?d"
    using R by (simp add: unat_fifo_next)
  have "((?t + 1) mod ?d + n) mod ?d = (?t + Suc n) mod ?d" by (simp add: mod_add_left_eq)
  with R nxt d show "fifo_ring z n f'"
    by (simp add: fifo_ring_def f' word_less_nat_alt)
  have "fifo_slot z f' = fifo_slot z f" by (simp add: f' fifo_slot_def fun_eq_iff)
  moreover have "?t mod ?d = ?t" using R by (simp add: word_less_nat_alt)
  ultimately show "fifo_items z (Suc n) f = x # fifo_items z n f'"
    using nxt by (simp add: fifo_items_def ring_list_Cons x f')
qed

lemma fifo_push_transfer_frame [simp]:
  "fifo_depth (fifo_push_transfer item z f) = fifo_depth f"
  "fifo_number (fifo_push_transfer item z f) = fifo_number f"
  "fifo_tail (fifo_push_transfer item z f) = fifo_tail f"
  by (simp_all add: fifo_push_transfer_def Let_def split: option.split)

lemma fifo_pop_transfer_frame:
  assumes "fifo_pop_transfer z f = (x, f')"
  shows "fifo_depth f' = fifo_depth f" "fifo_number f' = fifo_number f"
    "fifo_head f' = fifo_head f" "fifo_nodes f' = fifo_nodes f"
  using assms by (auto simp: fifo_pop_transfer_def)

text \<open>The updates of the count alone change neither the ring nor the items.\<close>

lemma fifo_commit_ring [simp]:
  "fifo_ring z n (fifo_push_commit f) = fifo_ring z n f"
  "fifo_ring z n (fifo_pop_commit f) = fifo_ring z n f"
  "fifo_items z n (fifo_push_commit f) = fifo_items z n f"
  "fifo_items z n (fifo_pop_commit f) = fifo_items z n f"
  by (simp_all add: fifo_ring_def fifo_items_def fifo_slot_def [abs_def] fifo_push_commit_def
      fifo_pop_commit_def)

lemma fifo_commit_fields [simp]:
  "fifo_depth (fifo_push_commit f) = fifo_depth f"
  "fifo_depth (fifo_pop_commit f) = fifo_depth f"
  "fifo_number (fifo_push_commit f) = fifo_number f + 1"
  "fifo_number (fifo_pop_commit f) = fifo_number f - 1"
  by (simp_all add: fifo_push_commit_def fifo_pop_commit_def)

lemma fifo_has_room_iff: "fifo_has_room f \<longleftrightarrow> unat (fifo_number f) < unat (fifo_depth f)"
  by (simp add: fifo_has_room_def word_less_nat_alt)

lemma fifo_has_item_iff: "fifo_has_item f \<longleftrightarrow> 0 < unat (fifo_number f)"
  by (simp add: fifo_has_item_def word_nat)

lemma unat_number_inc: "fifo_has_room f \<Longrightarrow> unat (fifo_number f + 1) = unat (fifo_number f) + 1"
  unfolding fifo_has_room_def by (rule unat_inc)

lemma unat_number_dec: "fifo_has_item f \<Longrightarrow> unat (fifo_number f - 1) = unat (fifo_number f) - 1"
  unfolding fifo_has_item_def by (rule unat_dec)

section \<open>The bounded-queue contract\<close>

lemma fifo_wf_depth: "fifo_wf z f \<Longrightarrow> 0 < z \<and> 0 < fifo_depth f"
  using fifo_ring_depth [of z _ f] by (auto simp: fifo_wf_def fifo_ring_def word_nat)

lemma push_room:
  assumes "fifo_wf z f" "length x = z" "fifo_has_room f"
  obtains f' where "vsf_fifo_push (Some x) z f = Some (True, f')" "fifo_wf z f'"
    "fifo_contents z f' = fifo_contents z f @ [x]" "fifo_depth f' = fifo_depth f"
proof -
  let ?f = "fifo_push_commit (fifo_push_transfer (Some x) z f)"
  have "unat (fifo_number f) < unat (fifo_depth f)" using assms(3) by (simp add: fifo_has_room_iff)
  note T = fifo_push_transfer_ring [OF assms(1) [unfolded fifo_wf_def] this assms(2)]
  show ?thesis
  proof (rule that)
    show "vsf_fifo_push (Some x) z f = Some (True, ?f)"
      using fifo_wf_depth [OF assms(1)] assms(3) by (simp add: vsf_fifo_push_def)
    show "fifo_wf z ?f" using T(1) by (simp add: fifo_wf_def unat_number_inc [OF assms(3)])
    show "fifo_contents z ?f = fifo_contents z f @ [x]"
      using T(2) by (simp add: fifo_contents_def unat_number_inc [OF assms(3)])
  qed simp
qed

lemma pop_item:
  assumes "fifo_wf z f" "fifo_has_item f"
  obtains x f' where "\<forall>w. vsf_fifo_pop w z f = Some (True, (if w then Some x else None), f')"
    "fifo_wf z f'" "fifo_contents z f = x # fifo_contents z f'" "fifo_depth f' = fifo_depth f"
proof -
  obtain x f1 where t: "fifo_pop_transfer z f = (x, f1)" by fastforce
  obtain n where n: "unat (fifo_number f) = Suc n"
    using assms(2) by (auto simp: fifo_has_item_iff gr0_conv_Suc)
  note F = fifo_pop_transfer_frame [OF t]
  note T = fifo_pop_transfer_ring [OF assms(1) [unfolded fifo_wf_def n] t]
  have n': "unat (fifo_number f1 - 1) = n"
    using n F(2) unat_number_dec [OF assms(2)] by simp
  show ?thesis
  proof (rule that)
    show "\<forall>w. vsf_fifo_pop w z f = Some (True, (if w then Some x else None), fifo_pop_commit f1)"
      using fifo_wf_depth [OF assms(1)] assms(2) t by (simp add: vsf_fifo_pop_def)
    show "fifo_wf z (fifo_pop_commit f1)" using T(1) n' by (simp add: fifo_wf_def)
    show "fifo_contents z f = x # fifo_contents z (fifo_pop_commit f1)"
      using T(2) n n' by (simp add: fifo_contents_def)
    show "fifo_depth (fifo_pop_commit f1) = fifo_depth f" using F by simp
  qed
qed

lemma push_no_room:
  assumes "fifo_wf z f" "\<not> fifo_has_room f"
  shows "vsf_fifo_push item z f = Some (False, f)"
  using assms fifo_wf_depth [OF assms(1)] by (simp add: vsf_fifo_push_def)

lemma pop_no_item:
  assumes "fifo_wf z f" "\<not> fifo_has_item f"
  shows "vsf_fifo_pop w z f = Some (False, None, f)"
  using assms fifo_wf_depth [OF assms(1)] by (simp add: vsf_fifo_pop_def)

lemma contents_empty_iff: "fifo_contents z f = [] \<longleftrightarrow> \<not> fifo_has_item f"
  by (metis fifo_has_item_iff length_fifo_contents length_greater_0_conv)

text \<open>What a client sees of a push and of a pop with a destination buffer.\<close>

definition fifo_put :: "nat \<Rightarrow> u8 list \<Rightarrow> vsf_fifo_t \<Rightarrow> bool \<times> vsf_fifo_t" where
  "fifo_put z x f = the (vsf_fifo_push (Some x) z f)"

definition fifo_take :: "nat \<Rightarrow> vsf_fifo_t \<Rightarrow> u8 list option \<times> vsf_fifo_t" where
  "fifo_take z f = (case the (vsf_fifo_pop True z f) of (ok, item, f') \<Rightarrow> (item, f'))"

interpretation fifo: bounded_queue "fifo_wf z" "fifo_contents z" "\<lambda>f. unat (fifo_depth f)"
  "\<lambda>f x. length x = z" "fifo_put z" "fifo_take z"
  for z
proof (unfold_locales, goal_cases)
  case (1 s x)
  then have "fifo_has_room s" by (simp add: fifo_has_room_iff)
  with 1 obtain f' where "vsf_fifo_push (Some x) z s = Some (True, f')" "fifo_wf z f'"
    "fifo_contents z f' = fifo_contents z s @ [x]" using push_room by metis
  then show ?case by (simp add: fifo_put_def)
next
  case (2 s x)
  then have "\<not> fifo_has_room s" by (simp add: fifo_has_room_iff)
  with 2 show ?case by (simp add: fifo_put_def push_no_room)
next
  case (3 s x xs)
  then have "fifo_has_item s" using contents_empty_iff [of z s] by simp
  with 3(1) obtain y f' where "\<forall>w. vsf_fifo_pop w z s = Some (True, (if w then Some y else None), f')"
    "fifo_wf z f'" "fifo_contents z s = y # fifo_contents z f'" using pop_item by blast
  with 3 show ?case by (simp add: fifo_take_def)
next
  case (4 s)
  then have "\<not> fifo_has_item s" by (simp add: contents_empty_iff)
  with 4 show ?case by (simp add: fifo_take_def pop_no_item)
next
  case (5 s x)
  then show ?case
    by (cases "fifo_has_room s")
      (metis fifo_put_def option.sel push_room snd_conv, simp add: fifo_put_def push_no_room)
next
  case (6 s)
  then show ?case
    using pop_item [of z s] pop_no_item [of z s True]
    by (cases "fifo_has_item s") (fastforce simp: fifo_take_def)+
next
  case (9 s)
  then show ?case by (simp add: fifo_wf_def fifo_ring_def)
qed simp_all

text \<open>A fifo after \<open>vsf_fifo_init\<close> is empty, provided its depth fits the index type.\<close>

lemma fifo_init_wf:
  assumes "0 < z" "0 < d" "d < 256" "length (fifo_nodes f) = z * d"
  shows "fifo_wf z (vsf_fifo_init (of_nat d) f)" "fifo_contents z (vsf_fifo_init (of_nat d) f) = []"
proof -
  have "unat (ucast (of_nat d :: u32) :: u8) = d"
    using assms(3) by (simp add: unsigned_ucast_eq take_bit_nat_eq_self unsigned_of_nat)
  with assms show "fifo_wf z (vsf_fifo_init (of_nat d) f)"
    by (simp add: fifo_wf_def fifo_ring_def vsf_fifo_init_def word_less_nat_alt)
  show "fifo_contents z (vsf_fifo_init (of_nat d) f) = []"
    by (simp add: fifo_contents_def fifo_items_def vsf_fifo_init_def)
qed

section \<open>One producer and one consumer\<close>

text \<open>
  The two sides run in different contexts (a task and an interrupt handler, say) and are switched
  at the borders of the protected regions. Each side is at one of three points of its operation;
  \<open>spsc_in\<close> and \<open>spsc_out\<close> record the items handed over so far.
\<close>

datatype fifo_pc = Idle | Checked | Transferred

record spsc =
  spsc_fifo :: vsf_fifo_t
  spsc_p :: fifo_pc
  spsc_c :: fifo_pc
  spsc_in :: "u8 list list"
  spsc_out :: "u8 list list"

inductive spsc_step :: "nat \<Rightarrow> spsc \<Rightarrow> spsc \<Rightarrow> bool" for z where
  push_check: "spsc_p s = Idle \<Longrightarrow> fifo_has_room (spsc_fifo s) \<Longrightarrow>
     spsc_step z s (s\<lparr>spsc_p := Checked\<rparr>)"
| push_full: "spsc_p s = Idle \<Longrightarrow> \<not> fifo_has_room (spsc_fifo s) \<Longrightarrow> spsc_step z s s"
| push_transfer: "spsc_p s = Checked \<Longrightarrow> length x = z \<Longrightarrow>
     spsc_step z s (s\<lparr>spsc_p := Transferred, spsc_in := spsc_in s @ [x],
        spsc_fifo := fifo_push_transfer (Some x) z (spsc_fifo s)\<rparr>)"
| push_commit: "spsc_p s = Transferred \<Longrightarrow>
     spsc_step z s (s\<lparr>spsc_p := Idle, spsc_fifo := fifo_push_commit (spsc_fifo s)\<rparr>)"
| pop_check: "spsc_c s = Idle \<Longrightarrow> fifo_has_item (spsc_fifo s) \<Longrightarrow>
     spsc_step z s (s\<lparr>spsc_c := Checked\<rparr>)"
| pop_empty: "spsc_c s = Idle \<Longrightarrow> \<not> fifo_has_item (spsc_fifo s) \<Longrightarrow> spsc_step z s s"
| pop_transfer: "spsc_c s = Checked \<Longrightarrow> fifo_pop_transfer z (spsc_fifo s) = (x, f') \<Longrightarrow>
     spsc_step z s (s\<lparr>spsc_c := Transferred, spsc_out := spsc_out s @ [x], spsc_fifo := f'\<rparr>)"
| pop_commit: "spsc_c s = Transferred \<Longrightarrow>
     spsc_step z s (s\<lparr>spsc_c := Idle, spsc_fifo := fifo_pop_commit (spsc_fifo s)\<rparr>)"

definition spsc_start :: "vsf_fifo_t \<Rightarrow> spsc" where
  "spsc_start f = \<lparr>spsc_fifo = f, spsc_p = Idle, spsc_c = Idle, spsc_in = [], spsc_out = []\<rparr>"

text \<open>
  The ring holds \<open>number\<close> items, one more after the transfer of a push and one fewer after the
  transfer of a pop.
\<close>

definition spsc_count :: "spsc \<Rightarrow> nat" where
  "spsc_count s = unat (fifo_number (spsc_fifo s)) + (if spsc_p s = Transferred then 1 else 0)
      - (if spsc_c s = Transferred then 1 else 0)"

definition spsc_inv :: "nat \<Rightarrow> spsc \<Rightarrow> bool" where
  "spsc_inv z s \<longleftrightarrow> fifo_ring z (spsc_count s) (spsc_fifo s)
     \<and> spsc_in s = spsc_out s @ fifo_items z (spsc_count s) (spsc_fifo s)
     \<and> unat (fifo_number (spsc_fifo s)) \<le> unat (fifo_depth (spsc_fifo s))
     \<and> (spsc_p s \<noteq> Idle \<longrightarrow> fifo_has_room (spsc_fifo s))
     \<and> (spsc_c s \<noteq> Idle \<longrightarrow> fifo_has_item (spsc_fifo s))"

lemma spsc_inv_start: "fifo_wf z f \<Longrightarrow> fifo_contents z f = [] \<Longrightarrow> spsc_inv z (spsc_start f)"
  by (simp add: spsc_inv_def spsc_start_def spsc_count_def fifo_wf_def fifo_contents_def
      fifo_ring_def)

text \<open>The transfers, on the shared state of the two sides.\<close>

lemma spsc_inv_push_transfer:
  assumes "spsc_inv z s" "spsc_p s = Checked" "length x = z"
  shows "spsc_inv z (s\<lparr>spsc_p := Transferred, spsc_in := spsc_in s @ [x],
      spsc_fifo := fifo_push_transfer (Some x) z (spsc_fifo s)\<rparr>)"
proof -
  let ?f = "spsc_fifo s" and ?n = "spsc_count s"
  have I: "fifo_ring z ?n ?f" "fifo_has_room ?f" using assms by (simp_all add: spsc_inv_def)
  then have "?n < unat (fifo_depth ?f)" using assms(2) by (auto simp: spsc_count_def fifo_has_room_iff)
  note T = fifo_push_transfer_ring [OF I(1) this assms(3)]
  have c: "spsc_c s = Transferred \<Longrightarrow> 0 < unat (fifo_number ?f)"
    using assms(1) by (auto simp: spsc_inv_def fifo_has_item_iff)
  have "spsc_count (s\<lparr>spsc_p := Transferred, spsc_in := spsc_in s @ [x],
      spsc_fifo := fifo_push_transfer (Some x) z ?f\<rparr>) = ?n + 1"
    using c assms(2) by (auto simp: spsc_count_def)
  with T assms show ?thesis by (simp add: spsc_inv_def fifo_has_room_def fifo_has_item_def)
qed

lemma spsc_inv_pop_transfer:
  assumes "spsc_inv z s" "spsc_c s = Checked" "fifo_pop_transfer z (spsc_fifo s) = (x, f')"
  shows "spsc_inv z (s\<lparr>spsc_c := Transferred, spsc_out := spsc_out s @ [x], spsc_fifo := f'\<rparr>)"
proof -
  let ?s = "s\<lparr>spsc_c := Transferred, spsc_out := spsc_out s @ [x], spsc_fifo := f'\<rparr>"
  note F = fifo_pop_transfer_frame [OF assms(3)]
  have "0 < unat (fifo_number (spsc_fifo s))"
    using assms(1,2) by (auto simp: spsc_inv_def fifo_has_item_iff)
  then have n: "spsc_count s = Suc (spsc_count ?s)" using assms(2) F(2) by (auto simp: spsc_count_def)
  have "fifo_ring z (Suc (spsc_count ?s)) (spsc_fifo s)" using assms(1) n by (simp add: spsc_inv_def)
  note T = fifo_pop_transfer_ring [OF this assms(3)]
  with n assms F show ?thesis by (simp add: spsc_inv_def fifo_has_room_def fifo_has_item_def)
qed

lemma spsc_inv_push_commit:
  assumes "spsc_inv z s" "spsc_p s = Transferred"
  shows "spsc_inv z (s\<lparr>spsc_p := Idle, spsc_fifo := fifo_push_commit (spsc_fifo s)\<rparr>)"
proof -
  have "fifo_has_room (spsc_fifo s)" using assms by (simp add: spsc_inv_def)
  note n = unat_number_inc [OF this] this [unfolded fifo_has_room_iff]
  have "spsc_count (s\<lparr>spsc_p := Idle, spsc_fifo := fifo_push_commit (spsc_fifo s)\<rparr>) = spsc_count s"
    using n assms(2) by (simp add: spsc_count_def)
  with n assms show ?thesis by (simp add: spsc_inv_def fifo_has_item_iff)
qed

lemma spsc_inv_pop_commit:
  assumes "spsc_inv z s" "spsc_c s = Transferred"
  shows "spsc_inv z (s\<lparr>spsc_c := Idle, spsc_fifo := fifo_pop_commit (spsc_fifo s)\<rparr>)"
proof -
  have "fifo_has_item (spsc_fifo s)" using assms by (simp add: spsc_inv_def)
  note n = unat_number_dec [OF this] this [unfolded fifo_has_item_iff]
  have "spsc_count (s\<lparr>spsc_c := Idle, spsc_fifo := fifo_pop_commit (spsc_fifo s)\<rparr>) = spsc_count s"
    using n assms(2) by (auto simp: spsc_count_def)
  with n assms show ?thesis by (auto simp: spsc_inv_def fifo_has_room_iff)
qed

lemma spsc_inv_step: "spsc_step z s s' \<Longrightarrow> spsc_inv z s \<Longrightarrow> spsc_inv z s'"
proof (induction rule: spsc_step.induct)
  case (push_check s)
  then show ?case by (simp add: spsc_inv_def spsc_count_def)
next
  case (pop_check s)
  then show ?case by (simp add: spsc_inv_def spsc_count_def)
qed (simp_all add: spsc_inv_push_transfer spsc_inv_pop_transfer spsc_inv_push_commit
      spsc_inv_pop_commit)

lemma spsc_inv_reach: "(spsc_step z)\<^sup>*\<^sup>* s s' \<Longrightarrow> spsc_inv z s \<Longrightarrow> spsc_inv z s'"
  by (induction rule: rtranclp_induct) (auto intro: spsc_inv_step)

text \<open>A fifo of two slots of two bytes, one of them in use.\<close>

definition fifo_example :: vsf_fifo_t where
  "fifo_example = \<lparr>fifo_head = 0, fifo_tail = 1, fifo_number = 1, fifo_depth = 2,
     fifo_nodes = [1, 2, 3, 4]\<rparr>"

lemma fifo_example_wf: "fifo_wf 2 fifo_example"
  by (simp add: fifo_wf_def fifo_ring_def fifo_example_def word_less_nat_alt)

lemma fifo_example_contents: "fifo_contents 2 fifo_example = [[3, 4]]"
  by (simp add: fifo_contents_def fifo_items_def fifo_example_def ring_list_def fifo_slot_def
      blk_read_def)

section \<open>Properties\<close>

text \<open>
  Functional behaviour of push on every branch: on a well-formed fifo with a free slot the item
  is accepted and becomes the last of the contents, the invariant is kept; on a full one the call
  answers false and nothing changes. The indices never leave the ring, though they are 8-bit.
\<close>

theorem fifo_push_spec:
  assumes "fifo_wf z f" "length x = z"
  shows "\<exists>f'. vsf_fifo_push (Some x) z f = Some (unat (fifo_number f) < unat (fifo_depth f), f')
    \<and> fifo_wf z f' \<and> fifo_depth f' = fifo_depth f
    \<and> fifo_contents z f' =
        (if unat (fifo_number f) < unat (fifo_depth f) then fifo_contents z f @ [x]
         else fifo_contents z f)"
proof (cases "fifo_has_room f")
  case True
  from push_room [OF assms True] True show ?thesis by (metis fifo_has_room_iff)
next
  case False
  with assms show ?thesis by (simp add: push_no_room fifo_has_room_iff)
qed

theorem fifo_push_spec_witness:
  "\<exists>f'. vsf_fifo_push (Some [9, 8]) 2 fifo_example = Some (True, f') \<and> fifo_wf 2 f'
     \<and> fifo_contents 2 f' = [[3, 4], [9, 8]]"
proof -
  have "length [9, 8 :: u8] = 2" by simp
  from fifo_push_spec [OF fifo_example_wf this] show ?thesis by (auto simp: fifo_example_contents) (simp add: fifo_example_def)
qed

text \<open>
  Functional behaviour of pop on every branch: on a non-empty fifo the first item is delivered
  (and copied out when the caller gives a buffer) and leaves the contents; on an empty one the call
  answers false and nothing changes.
\<close>

theorem fifo_pop_spec:
  assumes "fifo_wf z f"
  shows "case fifo_contents z f of
      [] \<Rightarrow> vsf_fifo_pop w z f = Some (False, None, f)
    | x # xs \<Rightarrow> \<exists>f'. vsf_fifo_pop w z f = Some (True, (if w then Some x else None), f')
                  \<and> fifo_wf z f' \<and> fifo_contents z f' = xs \<and> fifo_depth f' = fifo_depth f"
proof (cases "fifo_has_item f")
  case True
  from assms True show ?thesis by (rule pop_item) simp
next
  case False
  then have "fifo_contents z f = []" by (simp add: contents_empty_iff)
  with assms False show ?thesis by (simp add: pop_no_item)
qed

theorem fifo_pop_spec_witness:
  "\<exists>f'. vsf_fifo_pop True 2 fifo_example = Some (True, Some [3, 4], f') \<and> fifo_contents 2 f' = []"
proof -
  from fifo_pop_spec [OF fifo_example_wf, of True] show ?thesis by (auto simp: fifo_example_contents)
qed

text \<open>
  C1. First-in first-out over any sequence of operations, from the contract: with \<open>ins\<close> the items
  whose push answered true and \<open>outs\<close> the items pop delivered, what was queued before followed by
  \<open>ins\<close> is \<open>outs\<close> followed by what is queued now.
\<close>

theorem fifo_run_fifo:
  assumes "fifo_wf z f" "\<forall>x. Some x \<in> set ops \<longrightarrow> length x = z"
    and "fifo.run z ops f = (ins, outs, f')"
  shows "fifo_wf z f' \<and> fifo_contents z f @ ins = outs @ fifo_contents z f'"
  using assms by (rule fifo.run_fifo)

theorem fifo_run_fifo_witness:
  "\<exists>ins outs f'. fifo.run 2 [Some [9, 8], None, Some [7, 6]] fifo_example = (ins, outs, f')
     \<and> [[3, 4]] @ ins = outs @ fifo_contents 2 f'"
proof -
  obtain ins outs f' where r: "fifo.run 2 [Some [9, 8], None, Some [7, 6]] fifo_example = (ins, outs, f')"
    by (metis prod_cases3)
  from fifo_run_fifo [OF fifo_example_wf _ r] fifo_example_contents r show ?thesis by simp
qed

text \<open>
  C2. One producer and one consumer, interleaved at the borders of the protected regions in any
  order: at every reachable point the items taken out are a prefix of the items put in, the rest
  is intact in the ring, and the count never exceeds the depth.
\<close>

theorem fifo_spsc_safe:
  assumes "fifo_wf z f" "fifo_contents z f = []" "(spsc_step z)\<^sup>*\<^sup>* (spsc_start f) s"
  shows "spsc_in s = spsc_out s @ fifo_items z (spsc_count s) (spsc_fifo s)
    \<and> unat (fifo_number (spsc_fifo s)) \<le> unat (fifo_depth (spsc_fifo s))"
  using spsc_inv_reach [OF assms(3) spsc_inv_start [OF assms(1,2)]] by (simp add: spsc_inv_def)

theorem fifo_spsc_safe_witness:
  "let f0 = vsf_fifo_init (of_nat 1) (fifo_example\<lparr>fifo_nodes := [0]\<rparr>);
       s = \<lparr>spsc_fifo = fifo_push_transfer (Some [5]) 1 f0, spsc_p = Transferred, spsc_c = Idle,
            spsc_in = [[5]], spsc_out = []\<rparr>
   in spsc_in s = fifo_items 1 (spsc_count s) (spsc_fifo s)"
proof -
  define f0 where "f0 = vsf_fifo_init (of_nat 1) (fifo_example\<lparr>fifo_nodes := [0]\<rparr>)"
  have wf: "fifo_wf 1 f0" "fifo_contents 1 f0 = []"
    unfolding f0_def by (rule fifo_init_wf; simp)+
  have "spsc_step 1 (spsc_start f0) ((spsc_start f0)\<lparr>spsc_p := Checked\<rparr>)"
    by (rule spsc_step.push_check)
      (simp_all add: spsc_start_def f0_def vsf_fifo_init_def fifo_has_room_def)
  moreover have "spsc_step 1 ((spsc_start f0)\<lparr>spsc_p := Checked\<rparr>)
      (\<lparr>spsc_fifo = fifo_push_transfer (Some [5]) 1 f0, spsc_p = Transferred, spsc_c = Idle,
        spsc_in = [[5]], spsc_out = []\<rparr>)"
    using spsc_step.push_transfer [of "(spsc_start f0)\<lparr>spsc_p := Checked\<rparr>" "[5]" 1]
    by (simp add: spsc_start_def)
  ultimately have "(spsc_step 1)\<^sup>*\<^sup>* (spsc_start f0)
      (\<lparr>spsc_fifo = fifo_push_transfer (Some [5]) 1 f0, spsc_p = Transferred, spsc_c = Idle,
        spsc_in = [[5]], spsc_out = []\<rparr>)"
    by (meson converse_rtranclp_into_rtranclp r_into_rtranclp)
  from fifo_spsc_safe [OF wf this] show ?thesis by (simp add: f0_def Let_def)
qed

text \<open>
  The limit of the protection: with one slot left, a push that is interrupted by another push
  between its two protected regions leaves the count above the depth, though both answer true. A
  fifo with several producers needs a lock of its own around the call.
\<close>

theorem fifo_two_producers_overrun:
  assumes "fifo_wf z f" "unat (fifo_number f) + 1 = unat (fifo_depth f)" "unat (fifo_depth f) < 255"
    and "length x = z" "length y = z"
    and "vsf_fifo_push (Some y) z f = Some (ok, f1)"
  shows "fifo_has_room f \<and> ok
    \<and> unat (fifo_number (fifo_push_commit (fifo_push_transfer (Some x) z f1)))
        = unat (fifo_depth f1) + 1"
proof -
  have room: "fifo_has_room f" using assms(2) by (simp add: fifo_has_room_iff)
  from push_room [OF assms(1,5) room] assms(6) have ok: ok "fifo_depth f1 = fifo_depth f"
    by (metis option.inject prod.inject)+
  have f1: "f1 = fifo_push_commit (fifo_push_transfer (Some y) z f)"
    using assms(6) room fifo_wf_depth [OF assms(1)] by (simp add: vsf_fifo_push_def)
  have "unat (fifo_number f + 1) = unat (fifo_depth f)" using unat_number_inc [OF room] assms(2) by simp
  then have "unat (fifo_number f + 1 + 1) = unat (fifo_depth f) + 1"
    using assms(3) by (intro trans [OF unat_add_small]) (simp_all add: algebra_simps)
  with ok room show ?thesis by (simp add: f1)
qed

theorem fifo_two_producers_overrun_witness:
  "\<exists>ok f1. vsf_fifo_push (Some [7, 7]) 2 fifo_example = Some (ok, f1)
     \<and> unat (fifo_number (fifo_push_commit (fifo_push_transfer (Some [9, 9]) 2 f1))) = 3"
proof -
  have "fifo_has_room fifo_example" by (simp add: fifo_has_room_def fifo_example_def)
  then obtain f1 where r: "vsf_fifo_push (Some [7, 7]) 2 fifo_example = Some (True, f1)"
    and d: "fifo_depth f1 = fifo_depth fifo_example"
    using push_room [OF fifo_example_wf, of "[7, 7]"] by auto
  have "unat (fifo_number (fifo_push_commit (fifo_push_transfer (Some [9, 9]) 2 f1)))
      = unat (fifo_depth f1) + 1"
    by (rule conjunct2 [OF conjunct2 [OF fifo_two_producers_overrun [OF fifo_example_wf _ _ _ _ r]]])
      (simp_all add: fifo_example_def)
  with r d show ?thesis by (auto simp: fifo_example_def)
qed

end
