(* ===== verification/VSF_List.thy ===== *)
theory VSF_List
  imports VSF_Prelude
begin

text \<open>
  The intrusive lists of \<open>src/source/utilities/template/vsf_list.c\<close> at pointer level. Addresses are
  natural numbers and 0 is NULL. A singly linked list lives in a store of pointer words: the word at
  the address of the list is the head, the word at \<open>item + list_offset\<close> the link of an item. A doubly
  linked list is its header and the \<open>next\<close> and \<open>prev\<close> fields of the nodes. The theory relates both to
  HOL lists, shows that every operation is the list operation it stands for, and states the contract
  of the doubly linked list as the locale \<open>deque_ops\<close>.
\<close>

type_synonym ptr = nat

abbreviation (input) null :: ptr where "null \<equiv> 0"

section \<open>Singly linked lists\<close>

subsection \<open>Operations\<close>

text \<open>
  The loops follow the links as long as there are any, so they are partial: on a cyclic list they
  do not return. Counters are \<open>uint_fast16_t\<close> and \<open>int_fast16_t\<close>, 32 bits wide on the target.
\<close>

partial_function (option) slist_length_loop ::
  "nat \<Rightarrow> (ptr \<Rightarrow> ptr) \<Rightarrow> ptr \<Rightarrow> u32 \<Rightarrow> u32 option" where
  "slist_length_loop off mem this_ptr len =
     (if mem this_ptr = null then Some len
      else slist_length_loop off mem (mem this_ptr + off) (len + 1))"

definition p_vsf_slist_get_length_imp :: "nat \<Rightarrow> (ptr \<Rightarrow> ptr) \<Rightarrow> ptr \<Rightarrow> u32 option" where
  "p_vsf_slist_get_length_imp off mem this_ptr = slist_length_loop off mem this_ptr 0"

text \<open>The body runs before the test of \<open>while (index)\<close>; \<open>index--\<close> wraps at zero.\<close>

partial_function (option) slist_item_loop ::
  "nat \<Rightarrow> (ptr \<Rightarrow> ptr) \<Rightarrow> ptr \<Rightarrow> u32 \<Rightarrow> ptr \<Rightarrow> ptr option" where
  "slist_item_loop off mem this_ptr index item =
     (if mem this_ptr = null then Some item
      else let item' = (if index = 0 then mem this_ptr else item);
               index' = index - 1;
               this_ptr' = mem this_ptr + off
           in if index' = 0 then Some item'
              else slist_item_loop off mem this_ptr' index' item')"

definition p_vsf_slist_get_item_by_index_imp ::
  "nat \<Rightarrow> (ptr \<Rightarrow> ptr) \<Rightarrow> ptr \<Rightarrow> u32 \<Rightarrow> ptr option" where
  "p_vsf_slist_get_item_by_index_imp off mem this_ptr index =
     slist_item_loop off mem this_ptr index null"

partial_function (option) slist_index_loop ::
  "nat \<Rightarrow> (ptr \<Rightarrow> ptr) \<Rightarrow> ptr \<Rightarrow> ptr \<Rightarrow> u32 \<Rightarrow> u32 option" where
  "slist_index_loop off mem this_ptr item n =
     (if mem this_ptr = null then Some (- 1)
      else if mem this_ptr = item then Some n
      else slist_index_loop off mem (mem this_ptr + off) item (n + 1))"

definition p_vsf_slist_get_index_imp ::
  "nat \<Rightarrow> (ptr \<Rightarrow> ptr) \<Rightarrow> ptr \<Rightarrow> ptr \<Rightarrow> u32 option" where
  "p_vsf_slist_get_index_imp off mem this_ptr item = slist_index_loop off mem this_ptr item 0"

partial_function (option) p_vsf_slist_remove_imp ::
  "nat \<Rightarrow> (ptr \<Rightarrow> ptr) \<Rightarrow> ptr \<Rightarrow> ptr \<Rightarrow> (ptr \<times> (ptr \<Rightarrow> ptr)) option" where
  "p_vsf_slist_remove_imp off mem this_ptr item =
     (if mem this_ptr = null then Some (null, mem)
      else if mem this_ptr = item
      then let mem = mem(this_ptr := mem (item + off));
               mem = mem(item + off := null)
           in Some (item, mem)
      else p_vsf_slist_remove_imp off mem (mem this_ptr + off) item)"

partial_function (option) p_vsf_slist_append_imp ::
  "nat \<Rightarrow> (ptr \<Rightarrow> ptr) \<Rightarrow> ptr \<Rightarrow> ptr \<Rightarrow> (ptr \<times> (ptr \<Rightarrow> ptr)) option" where
  "p_vsf_slist_append_imp off mem this_ptr item =
     (if mem this_ptr \<noteq> null then p_vsf_slist_append_imp off mem (mem this_ptr + off) item
      else let mem = mem(this_ptr := item);
               mem = mem(item + off := null)
           in Some (item, mem))"

partial_function (option) p_vsf_slist_remove_tail_imp ::
  "nat \<Rightarrow> (ptr \<Rightarrow> ptr) \<Rightarrow> ptr \<Rightarrow> (ptr \<times> (ptr \<Rightarrow> ptr)) option" where
  "p_vsf_slist_remove_tail_imp off mem this_ptr =
     (let item = mem this_ptr
      in if item \<noteq> null \<and> mem (item + off) \<noteq> null
         then p_vsf_slist_remove_tail_imp off mem (item + off)
         else Some (item, mem(this_ptr := null)))"

subsection \<open>The list in the store\<close>

fun slist :: "nat \<Rightarrow> (ptr \<Rightarrow> ptr) \<Rightarrow> ptr \<Rightarrow> ptr list \<Rightarrow> bool" where
  "slist off mem l [] \<longleftrightarrow> mem l = null"
| "slist off mem l (x # xs) \<longleftrightarrow> x \<noteq> null \<and> mem l = x \<and> l \<noteq> x + off \<and> x \<notin> set xs
     \<and> l \<notin> (\<lambda>y. y + off) ` set xs \<and> slist off mem (x + off) xs"

lemma slist_upd_other:
  "a \<noteq> l \<Longrightarrow> a \<notin> (\<lambda>y. y + off) ` set xs \<Longrightarrow> slist off (mem(a := v)) l xs = slist off mem l xs"
  by (induction xs arbitrary: l) auto

lemma slist_distinct: "slist off mem l xs \<Longrightarrow> distinct xs \<and> null \<notin> set xs"
  by (induction xs arbitrary: l) auto

lemma slist_length_loop_ok:
  "slist off mem l xs \<Longrightarrow> slist_length_loop off mem l n = Some (n + of_nat (length xs))"
  by (induction xs arbitrary: l n) (simp_all add: slist_length_loop.simps)

lemma slist_index_loop_ok:
  "slist off mem l xs \<Longrightarrow> item \<noteq> null \<Longrightarrow> slist_index_loop off mem l item n =
     Some (if item \<in> set xs then n + of_nat (length (takeWhile (\<lambda>y. y \<noteq> item) xs)) else - 1)"
  by (induction xs arbitrary: l n) (auto simp: slist_index_loop.simps)

lemma slist_remove_ok:
  assumes "slist off mem l xs" "item \<in> set xs"
  shows "\<exists>mem'. p_vsf_slist_remove_imp off mem l item = Some (item, mem')
    \<and> slist off mem' l (remove1 item xs) \<and> mem' (item + off) = null
    \<and> (\<forall>a. a \<noteq> l \<longrightarrow> a \<notin> (\<lambda>y. y + off) ` set xs \<longrightarrow> mem' a = mem a)"
  using assms
proof (induction xs arbitrary: l)
  case (Cons x xs)
  show ?case
  proof (cases "x = item")
    case True
    let ?m = "mem(l := mem (x + off), x + off := null)"
    have "slist off mem (x + off) xs" using Cons.prems by simp
    moreover have "x + off \<notin> (\<lambda>y. y + off) ` set xs" using Cons.prems by auto
    ultimately have "slist off ?m l xs"
      using Cons.prems by (cases xs) (auto simp: slist_upd_other)
    with True Cons.prems show ?thesis
      by (auto simp: p_vsf_slist_remove_imp.simps [of off mem l])
  next
    case False
    with Cons.prems Cons.IH [of "x + off"] obtain mem' where
      m: "p_vsf_slist_remove_imp off mem (x + off) item = Some (item, mem')"
        "slist off mem' (x + off) (remove1 item xs)" "mem' (item + off) = null"
        "\<forall>a. a \<noteq> x + off \<longrightarrow> a \<notin> (\<lambda>y. y + off) ` set xs \<longrightarrow> mem' a = mem a" by auto
    have "mem' l = x" using m(4) Cons.prems by auto
    moreover have "set (remove1 item xs) \<subseteq> set xs" by (rule set_remove1_subset)
    ultimately show ?thesis using False Cons.prems m
      by (auto simp: p_vsf_slist_remove_imp.simps [of off mem l] image_iff subset_iff)
  qed
qed simp

lemma slist_remove_absent:
  "slist off mem l xs \<Longrightarrow> item \<notin> set xs \<Longrightarrow> p_vsf_slist_remove_imp off mem l item = Some (null, mem)"
  by (induction xs arbitrary: l) (auto simp: p_vsf_slist_remove_imp.simps)

lemma slist_append_ok:
  assumes "slist off mem l xs" "item \<notin> set xs" "item \<noteq> null" "l \<noteq> item + off"
  shows "\<exists>mem'. p_vsf_slist_append_imp off mem l item = Some (item, mem')
    \<and> slist off mem' l (xs @ [item])
    \<and> (\<forall>a. a \<noteq> l \<longrightarrow> a \<notin> (\<lambda>y. y + off) ` (set xs \<union> {item}) \<longrightarrow> mem' a = mem a)"
  using assms
proof (induction xs arbitrary: l)
  case Nil
  then show ?case by (simp add: p_vsf_slist_append_imp.simps)
next
  case (Cons x xs)
  from Cons.prems Cons.IH [of "x + off"] obtain mem' where
    m: "p_vsf_slist_append_imp off mem (x + off) item = Some (item, mem')"
      "slist off mem' (x + off) (xs @ [item])"
      "\<forall>a. a \<noteq> x + off \<longrightarrow> a \<notin> (\<lambda>y. y + off) ` (set xs \<union> {item}) \<longrightarrow> mem' a = mem a" by auto
  have "mem' l = x" using m(3) Cons.prems by auto
  with Cons.prems m show ?case by (auto simp: p_vsf_slist_append_imp.simps [of off mem l])
qed

lemma slist_remove_tail_ok:
  assumes "slist off mem l xs" "xs \<noteq> []"
  shows "\<exists>mem'. p_vsf_slist_remove_tail_imp off mem l = Some (last xs, mem')
    \<and> slist off mem' l (butlast xs)
    \<and> (\<forall>a. a \<noteq> l \<longrightarrow> a \<notin> (\<lambda>y. y + off) ` set xs \<longrightarrow> mem' a = mem a)"
  using assms
proof (induction xs arbitrary: l)
  case (Cons x xs)
  show ?case
  proof (cases xs)
    case Nil
    with Cons.prems show ?thesis by (simp add: p_vsf_slist_remove_tail_imp.simps Let_def)
  next
    case (Cons y ys)
    with Cons.prems Cons.IH [of "x + off"] obtain mem' where
      m: "p_vsf_slist_remove_tail_imp off mem (x + off) = Some (last xs, mem')"
        "slist off mem' (x + off) (butlast xs)"
        "\<forall>a. a \<noteq> x + off \<longrightarrow> a \<notin> (\<lambda>y. y + off) ` set xs \<longrightarrow> mem' a = mem a" by auto
    have "mem' l = x" using m(3) Cons.prems by auto
    moreover have "mem (x + off) \<noteq> null" using Cons.prems \<open>xs = y # ys\<close> by simp
    ultimately show ?thesis using \<open>xs = y # ys\<close> Cons.prems m
      by (auto simp: p_vsf_slist_remove_tail_imp.simps [of off mem l] Let_def dest!: in_set_butlastD)
  qed
qed simp

section \<open>Doubly linked lists\<close>

subsection \<open>Operations\<close>

text \<open>The node fields of all nodes, and the header \<open>vsf_dlist_t\<close> of one list.\<close>

record dlinks =
  dl_next :: "ptr \<Rightarrow> ptr"
  dl_prev :: "ptr \<Rightarrow> ptr"

record vsf_dlist_t =
  dl_head :: ptr
  dl_tail :: ptr

type_synonym dstate = "dlinks \<times> vsf_dlist_t"

definition set_next :: "ptr \<Rightarrow> ptr \<Rightarrow> dlinks \<Rightarrow> dlinks" where
  "set_next a v m = m\<lparr>dl_next := (dl_next m)(a := v)\<rparr>"

definition set_prev :: "ptr \<Rightarrow> ptr \<Rightarrow> dlinks \<Rightarrow> dlinks" where
  "set_prev a v m = m\<lparr>dl_prev := (dl_prev m)(a := v)\<rparr>"

partial_function (option) dlist_length_loop :: "dlinks \<Rightarrow> ptr \<Rightarrow> u32 \<Rightarrow> u32 option" where
  "dlist_length_loop m node len =
     (if node = null then Some len else dlist_length_loop m (dl_next m node) (len + 1))"

definition p_vsf_dlist_get_length_imp :: "dstate \<Rightarrow> u32 option" where
  "p_vsf_dlist_get_length_imp s = dlist_length_loop (fst s) (dl_head (snd s)) 0"

definition p_vsf_dlist_is_in_imp :: "ptr \<Rightarrow> dstate \<Rightarrow> bool" where
  "p_vsf_dlist_is_in_imp node = (\<lambda>(m, l).
     dl_next m node \<noteq> null \<or> dl_prev m node \<noteq> null \<or> dl_head l = node)"

definition p_vsf_dlist_add_to_head_imp :: "ptr \<Rightarrow> dstate \<Rightarrow> dstate" where
  "p_vsf_dlist_add_to_head_imp node = (\<lambda>(m, l).
     (let node_nxt = dl_head l;
          m = set_prev node null (set_next node node_nxt m);
          l = l\<lparr>dl_head := node\<rparr>
      in if node_nxt \<noteq> null then (set_prev node_nxt node m, l)
         else (m, l\<lparr>dl_tail := node\<rparr>)))"

definition p_vsf_dlist_add_to_tail_imp :: "ptr \<Rightarrow> dstate \<Rightarrow> dstate" where
  "p_vsf_dlist_add_to_tail_imp node = (\<lambda>(m, l).
     (let node_prv = dl_tail l;
          m = set_next node null (set_prev node node_prv m);
          l = l\<lparr>dl_tail := node\<rparr>
      in if node_prv \<noteq> null then (set_next node_prv node m, l)
         else (m, l\<lparr>dl_head := node\<rparr>)))"

definition p_vsf_dlist_remove_head_imp :: "dstate \<Rightarrow> ptr \<times> dstate" where
  "p_vsf_dlist_remove_head_imp = (\<lambda>(m, l).
     (let node = dl_head l
      in if node \<noteq> null
         then let node_nxt = dl_next m node;
                  m = set_next node null m;
                  l = l\<lparr>dl_head := node_nxt\<rparr>
              in if node_nxt \<noteq> null then (node, set_prev node_nxt null m, l)
                 else (node, m, l\<lparr>dl_tail := null\<rparr>)
         else (node, m, l)))"

definition p_vsf_dlist_remove_tail_imp :: "dstate \<Rightarrow> ptr \<times> dstate" where
  "p_vsf_dlist_remove_tail_imp = (\<lambda>(m, l).
     (let node = dl_tail l
      in if node \<noteq> null
         then let node_prv = dl_prev m node;
                  m = set_prev node null m;
                  l = l\<lparr>dl_tail := node_prv\<rparr>
              in if node_prv \<noteq> null then (node, set_next node_prv null m, l)
                 else (node, m, l\<lparr>dl_head := null\<rparr>)
         else (node, m, l)))"

definition p_vsf_dlist_insert_after_imp :: "ptr \<Rightarrow> ptr \<Rightarrow> dstate \<Rightarrow> dstate" where
  "p_vsf_dlist_insert_after_imp node_prv node = (\<lambda>(m, l).
     (let node_nxt = dl_next m node_prv;
          m = set_next node_prv node (set_prev node node_prv (set_next node node_nxt m))
      in if node_nxt \<noteq> null then (set_prev node_nxt node m, l)
         else (m, l\<lparr>dl_tail := node\<rparr>)))"

definition p_vsf_dlist_insert_before_imp :: "ptr \<Rightarrow> ptr \<Rightarrow> dstate \<Rightarrow> dstate" where
  "p_vsf_dlist_insert_before_imp node_nxt node = (\<lambda>(m, l).
     (let node_prv = dl_prev m node_nxt;
          m = set_prev node_nxt node (set_prev node node_prv (set_next node node_nxt m))
      in if node_prv \<noteq> null then (set_next node_prv node m, l)
         else (m, l\<lparr>dl_head := node\<rparr>)))"

definition p_vsf_dlist_remove_imp :: "ptr \<Rightarrow> dstate \<Rightarrow> dstate" where
  "p_vsf_dlist_remove_imp node = (\<lambda>(m, l).
     (let node_nxt = dl_next m node; node_prv = dl_prev m node;
          m = set_next node null (set_prev node null m);
          (m, l) = (if node_prv \<noteq> null then (set_next node_prv node_nxt m, l)
                    else (m, l\<lparr>dl_head := node_nxt\<rparr>))
      in if node_nxt \<noteq> null then (set_prev node_nxt node_prv m, l)
         else (m, l\<lparr>dl_tail := node_prv\<rparr>)))"

text \<open>
  The macro \<open>vsf_dlist_insert\<close>: before the first item that satisfies the condition, else at the
  tail. The loop walks a pointer to a node whose \<open>next\<close> is the candidate; the header serves as the
  first such node, since \<open>head\<close> and \<open>next\<close> are both the first field.
\<close>

partial_function (option) dlist_insert_find ::
  "(ptr \<Rightarrow> bool) \<Rightarrow> dlinks \<Rightarrow> ptr \<Rightarrow> ptr option" where
  "dlist_insert_find cond m cand =
     (if cand = null \<or> cond cand then Some cand else dlist_insert_find cond m (dl_next m cand))"

definition p_vsf_dlist_insert :: "(ptr \<Rightarrow> bool) \<Rightarrow> ptr \<Rightarrow> dstate \<Rightarrow> dstate option" where
  "p_vsf_dlist_insert cond item = (\<lambda>(m, l).
     (let m = set_prev item null (set_next item null m)
      in case dlist_insert_find cond m (dl_head l) of
           None \<Rightarrow> None
         | Some cand \<Rightarrow>
             Some (if cand \<noteq> null then p_vsf_dlist_insert_before_imp cand item (m, l)
                   else p_vsf_dlist_add_to_tail_imp item (m, l))))"

lemmas dlist_ops_def =
  p_vsf_dlist_add_to_head_imp_def p_vsf_dlist_add_to_tail_imp_def p_vsf_dlist_remove_head_imp_def
  p_vsf_dlist_remove_tail_imp_def p_vsf_dlist_insert_after_imp_def p_vsf_dlist_insert_before_imp_def
  p_vsf_dlist_remove_imp_def

subsection \<open>The list in the links\<close>

text \<open>
  \<open>dseg m p xs q\<close>: the nodes \<open>xs\<close> are linked in both directions, with \<open>p\<close> before the first and \<open>q\<close>
  after the last.
\<close>

definition first :: "ptr list \<Rightarrow> ptr \<Rightarrow> ptr" where
  "first xs q = (case xs of [] \<Rightarrow> q | x # _ \<Rightarrow> x)"

definition final :: "ptr \<Rightarrow> ptr list \<Rightarrow> ptr" where
  "final p xs = (if xs = [] then p else last xs)"

lemma first_simps [simp]:
  "first [] q = q" "first (x # xs) q = x" "first (xs @ ys) q = first xs (first ys q)"
  by (simp_all add: first_def split: list.split)

lemma final_simps [simp]:
  "final p [] = p" "final p (x # xs) = final x xs" "final p (xs @ ys) = final (final p xs) ys"
  by (simp_all add: final_def)

lemma first_in: "xs \<noteq> [] \<Longrightarrow> first xs q \<in> set xs"
  by (cases xs) simp_all

lemma final_in: "xs \<noteq> [] \<Longrightarrow> final p xs \<in> set xs"
  by (simp add: final_def)

fun dseg :: "dlinks \<Rightarrow> ptr \<Rightarrow> ptr list \<Rightarrow> ptr \<Rightarrow> bool" where
  "dseg m p [] q \<longleftrightarrow> True"
| "dseg m p (x # xs) q \<longleftrightarrow> dl_prev m x = p \<and> dl_next m x = first xs q \<and> dseg m x xs q"

definition dlist :: "dstate \<Rightarrow> ptr list \<Rightarrow> bool" where
  "dlist s xs \<longleftrightarrow> distinct xs \<and> null \<notin> set xs \<and> dl_head (snd s) = first xs null
     \<and> dl_tail (snd s) = final null xs \<and> dseg (fst s) null xs null"

lemma dseg_append [simp]:
  "dseg m p (xs @ ys) q \<longleftrightarrow> dseg m p xs (first ys q) \<and> dseg m (final p xs) ys q"
  by (induction xs arbitrary: p) auto

lemma link_fields [simp]:
  "dl_next (set_next a v m) = (dl_next m)(a := v)" "dl_prev (set_next a v m) = dl_prev m"
  "dl_prev (set_prev a v m) = (dl_prev m)(a := v)" "dl_next (set_prev a v m) = dl_next m"
  by (simp_all add: set_next_def set_prev_def)

text \<open>Writes to nodes outside of a segment.\<close>

lemma dseg_set_other [simp]:
  "a \<notin> set xs \<Longrightarrow> dseg (set_next a v m) p xs q = dseg m p xs q"
  "a \<notin> set xs \<Longrightarrow> dseg (set_prev a v m) p xs q = dseg m p xs q"
  by (induction xs arbitrary: p) auto

text \<open>
  Every insertion links the node between the two parts of the list, every removal closes the gap.
  With the parts split at the neighbours the updates are evaluated by the simplifier.
\<close>

lemma dlist_add_to_head:
  assumes "dlist s xs" "node \<notin> set xs" "node \<noteq> null"
  shows "dlist (p_vsf_dlist_add_to_head_imp node s) (node # xs)"
  using assms by (cases s; cases xs) (auto simp: dlist_def dlist_ops_def Let_def)

lemma dlist_add_to_tail:
  assumes "dlist s xs" "node \<notin> set xs" "node \<noteq> null"
  shows "dlist (p_vsf_dlist_add_to_tail_imp node s) (xs @ [node])"
  using assms by (cases s; cases xs rule: rev_cases) (auto simp: dlist_def dlist_ops_def Let_def)

lemma dlist_insert_after:
  assumes "dlist s (us @ a # vs)" "node \<notin> set (us @ a # vs)" "node \<noteq> null"
  shows "dlist (p_vsf_dlist_insert_after_imp a node s) (us @ a # node # vs)"
  using assms by (cases s; cases vs) (auto simp: dlist_def dlist_ops_def Let_def)

lemma dlist_insert_before:
  assumes "dlist s (us @ a # vs)" "node \<notin> set (us @ a # vs)" "node \<noteq> null"
  shows "dlist (p_vsf_dlist_insert_before_imp a node s) (us @ node # a # vs)"
  using assms by (cases s; cases us rule: rev_cases) (auto simp: dlist_def dlist_ops_def Let_def)

lemma dlist_remove_at:
  assumes "dlist s (us @ a # vs)"
  shows "dlist (p_vsf_dlist_remove_imp a s) (us @ vs)"
  using assms
  by (cases s; cases us rule: rev_cases; cases vs) (auto simp: dlist_def dlist_ops_def Let_def)

text \<open>Links that a removed node keeps, and the links an operation does not touch.\<close>

definition unlinked :: "dlinks \<Rightarrow> ptr \<Rightarrow> bool" where
  "unlinked m a \<longleftrightarrow> dl_next m a = null \<and> dl_prev m a = null"

definition same_links :: "ptr set \<Rightarrow> dstate \<Rightarrow> dstate \<Rightarrow> bool" where
  "same_links A s s' \<longleftrightarrow>
     (\<forall>a. a \<notin> A \<longrightarrow> dl_next (fst s') a = dl_next (fst s) a \<and> dl_prev (fst s') a = dl_prev (fst s) a)"

lemma dlist_add_links:
  assumes "dlist s xs"
  shows "same_links (insert node (set xs)) s (p_vsf_dlist_add_to_head_imp node s)"
    and "same_links (insert node (set xs)) s (p_vsf_dlist_add_to_tail_imp node s)"
proof -
  show "same_links (insert node (set xs)) s (p_vsf_dlist_add_to_head_imp node s)"
    using assms by (cases s; cases xs) (auto simp: same_links_def dlist_def dlist_ops_def Let_def)
  show "same_links (insert node (set xs)) s (p_vsf_dlist_add_to_tail_imp node s)"
    using assms
    by (cases s; cases xs rule: rev_cases) (auto simp: same_links_def dlist_def dlist_ops_def Let_def)
qed

lemma dlist_remove_links:
  assumes "dlist s (us @ a # vs)"
  shows "same_links (set (us @ a # vs)) s (p_vsf_dlist_remove_imp a s)"
    and "unlinked (fst (p_vsf_dlist_remove_imp a s)) a"
  using assms
  by (cases s; cases us rule: rev_cases; cases vs;
      auto simp: same_links_def unlinked_def dlist_def dlist_ops_def Let_def)+

lemma dlist_remove_head:
  assumes "dlist s (x # xs)"
  shows "\<exists>s'. p_vsf_dlist_remove_head_imp s = (x, s') \<and> dlist s' xs \<and> unlinked (fst s') x
     \<and> same_links (set (x # xs)) s s'"
  using assms
  by (cases s; cases xs) (auto simp: same_links_def unlinked_def dlist_def dlist_ops_def Let_def)

lemma dlist_remove_tail:
  assumes "dlist s (xs @ [x])"
  shows "\<exists>s'. p_vsf_dlist_remove_tail_imp s = (x, s') \<and> dlist s' xs \<and> unlinked (fst s') x
     \<and> same_links (set (xs @ [x])) s s'"
  using assms
  by (cases s; cases xs rule: rev_cases)
    (auto simp: same_links_def unlinked_def dlist_def dlist_ops_def Let_def)

lemma dlist_remove_empty:
  "dlist s [] \<Longrightarrow> p_vsf_dlist_remove_head_imp s = (null, s) \<and> p_vsf_dlist_remove_tail_imp s = (null, s)"
  by (cases s) (simp add: dlist_def dlist_ops_def Let_def)

lemma dlist_is_in:
  assumes "dlist s xs" "node \<noteq> null" "node \<in> set xs \<or> unlinked (fst s) node"
  shows "p_vsf_dlist_is_in_imp node s \<longleftrightarrow> node \<in> set xs"
proof (cases "node \<in> set xs")
  case True
  then obtain us vs where xs: "xs = us @ node # vs" by (meson split_list)
  with assms(1) show ?thesis
    by (cases s; cases us rule: rev_cases) (auto simp: dlist_def p_vsf_dlist_is_in_imp_def)
next
  case False
  moreover have "dl_head (snd s) \<noteq> node"
    using False assms(1,2) by (cases xs) (auto simp: dlist_def)
  ultimately show ?thesis
    using assms(3) by (cases s) (simp add: p_vsf_dlist_is_in_imp_def unlinked_def)
qed

lemma dlist_length_loop_ok:
  "dseg m p xs null \<Longrightarrow> null \<notin> set xs \<Longrightarrow>
     dlist_length_loop m (first xs null) n = Some (n + of_nat (length xs))"
proof (induction xs arbitrary: p n)
  case Nil
  then show ?case by (subst dlist_length_loop.simps) simp
next
  case (Cons x xs)
  from Cons.IH [of x "n + 1"] Cons.prems
  have "dlist_length_loop m (first xs null) (n + 1) = Some (n + 1 + of_nat (length xs))" by simp
  with Cons.prems show ?case by (subst dlist_length_loop.simps) (simp add: add.assoc)
qed

lemma dlist_insert_find_ok:
  "dseg m p xs null \<Longrightarrow> null \<notin> set xs \<Longrightarrow>
     dlist_insert_find cond m (first xs null) = Some (first (dropWhile (\<lambda>x. \<not> cond x) xs) null)"
proof (induction xs arbitrary: p)
  case Nil
  then show ?case by (subst dlist_insert_find.simps) simp
next
  case (Cons x xs)
  then show ?case by (subst dlist_insert_find.simps) auto
qed

lemma dlist_insert_ok:
  assumes "dlist s xs" "item \<notin> set xs" "item \<noteq> null"
  shows "\<exists>s'. p_vsf_dlist_insert cond item s = Some s'
     \<and> dlist s' (takeWhile (\<lambda>x. \<not> cond x) xs @ item # dropWhile (\<lambda>x. \<not> cond x) xs)"
proof -
  obtain m l where s: "s = (m, l)" by (cases s)
  let ?m = "set_prev item null (set_next item null m)"
  let ?us = "takeWhile (\<lambda>x. \<not> cond x) xs" and ?vs = "dropWhile (\<lambda>x. \<not> cond x) xs"
  have D: "dlist (?m, l) xs" using assms s by (simp add: dlist_def)
  have f: "dlist_insert_find cond ?m (dl_head l) = Some (first ?vs null)"
    using D dlist_insert_find_ok [of ?m null xs cond] by (simp add: dlist_def)
  show ?thesis
  proof (cases ?vs)
    case Nil
    then have us: "?us = xs" by (simp add: takeWhile_eq_all_conv dropWhile_eq_Nil_conv)
    have "p_vsf_dlist_insert cond item s = Some (p_vsf_dlist_add_to_tail_imp item (?m, l))"
      using f unfolding Nil by (simp add: p_vsf_dlist_insert_def s)
    with dlist_add_to_tail [OF D assms(2,3)] show ?thesis unfolding us Nil by metis
  next
    case (Cons a vs)
    then have xs: "?us @ a # vs = xs" by (metis takeWhile_dropWhile_id)
    then have "a \<noteq> null" using D by (metis dlist_def in_set_conv_decomp snd_conv)
    with f Cons have "p_vsf_dlist_insert cond item s = Some (p_vsf_dlist_insert_before_imp a item (?m, l))"
      by (simp add: p_vsf_dlist_insert_def s)
    with dlist_insert_before [of "(?m, l)" ?us a vs item] D assms(2,3) Cons xs show ?thesis by metis
  qed
qed

section \<open>The contract of a list of nodes\<close>

text \<open>
  What a client (the heap, the event queue, the timer queue, the pending lists) relies on: nodes are
  added at either end, taken from the head or removed from the middle, and a node that is not queued
  carries no stale links. \<open>free s a\<close> says that node \<open>a\<close> may be added.
\<close>

locale deque_ops =
  fixes rel :: "'s \<Rightarrow> 'a list \<Rightarrow> bool"
    and free :: "'s \<Rightarrow> 'a \<Rightarrow> bool"
    and add_head add_tail del :: "'a \<Rightarrow> 's \<Rightarrow> 's"
    and take_head :: "'s \<Rightarrow> 'a \<times> 's"
    and is_in :: "'a \<Rightarrow> 's \<Rightarrow> bool"
  assumes add_head: "rel s xs \<Longrightarrow> free s a \<Longrightarrow> a \<notin> set xs \<Longrightarrow> rel (add_head a s) (a # xs)"
    and add_tail: "rel s xs \<Longrightarrow> free s a \<Longrightarrow> a \<notin> set xs \<Longrightarrow> rel (add_tail a s) (xs @ [a])"
    and del: "rel s xs \<Longrightarrow> a \<in> set xs \<Longrightarrow> rel (del a s) (remove1 a xs) \<and> free (del a s) a"
    and take_head: "rel s (x # xs) \<Longrightarrow> fst (take_head s) = x \<and> rel (snd (take_head s)) xs
        \<and> free (snd (take_head s)) x"
    and is_in: "rel s xs \<Longrightarrow> free s a \<or> a \<in> set xs \<Longrightarrow> is_in a s = (a \<in> set xs)"
    and frame: "rel s xs \<Longrightarrow> free s b \<Longrightarrow> b \<notin> set xs \<Longrightarrow> b \<noteq> a \<Longrightarrow>
        free (add_head a s) b \<and> free (add_tail a s) b \<and> (a \<in> set xs \<longrightarrow> free (del a s) b)"
    and frame_take: "rel s (x # xs) \<Longrightarrow> free s b \<Longrightarrow> b \<notin> set (x # xs) \<Longrightarrow> free (snd (take_head s)) b"
    and rel_distinct: "rel s xs \<Longrightarrow> distinct xs"
begin

text \<open>
  A client that tests membership before it adds and before it removes, as the kernel does: \<open>put\<close>
  moves a node to the tail whether it was queued or not.
\<close>

definition put :: "'a \<Rightarrow> 's \<Rightarrow> 's" where
  "put a s = add_tail a (if is_in a s then del a s else s)"

lemma put_rel:
  assumes "rel s xs" "free s a \<or> a \<in> set xs"
  shows "rel (put a s) (removeAll a xs @ [a])"
proof (cases "a \<in> set xs")
  case True
  then have "rel (del a s) (remove1 a xs)" "free (del a s) a" using del assms by auto
  moreover have "a \<notin> set (remove1 a xs)" using rel_distinct [OF assms(1)] by simp
  ultimately have "rel (add_tail a (del a s)) (remove1 a xs @ [a])" by (intro add_tail)
  with True assms show ?thesis
    by (simp add: put_def is_in distinct_remove1_removeAll rel_distinct)
next
  case False
  with assms have "rel (add_tail a s) (xs @ [a])" by (intro add_tail) auto
  with False assms show ?thesis by (simp add: put_def is_in)
qed

text \<open>Putting a sequence of free nodes and taking them all again returns them in order.\<close>

fun take_all :: "nat \<Rightarrow> 's \<Rightarrow> 'a list \<times> 's" where
  "take_all 0 s = ([], s)"
| "take_all (Suc n) s = (let (x, s') = take_head s; (ys, s'') = take_all n s' in (x # ys, s''))"

lemma take_all_rel:
  "rel s xs \<Longrightarrow> fst (take_all (length xs) s) = xs \<and> rel (snd (take_all (length xs) s)) []"
proof (induction xs arbitrary: s)
  case (Cons x xs)
  then have "fst (take_head s) = x" "rel (snd (take_head s)) xs" using take_head by auto
  with Cons.IH [of "snd (take_head s)"] show ?case by (simp add: case_prod_unfold Let_def)
qed simp

end

text \<open>A node may be added when it is not NULL and carries no links.\<close>

definition dl_free :: "dstate \<Rightarrow> ptr \<Rightarrow> bool" where
  "dl_free s a \<longleftrightarrow> a \<noteq> null \<and> unlinked (fst s) a"

lemma same_links_free: "same_links A s s' \<Longrightarrow> b \<notin> A \<Longrightarrow> dl_free s b \<Longrightarrow> dl_free s' b"
  by (simp add: same_links_def dl_free_def unlinked_def)

interpretation dl: deque_ops dlist dl_free p_vsf_dlist_add_to_head_imp p_vsf_dlist_add_to_tail_imp
  p_vsf_dlist_remove_imp p_vsf_dlist_remove_head_imp p_vsf_dlist_is_in_imp
proof (unfold_locales, goal_cases)
  case (1 s xs a)
  then show ?case by (simp add: dlist_add_to_head dl_free_def)
next
  case (2 s xs a)
  then show ?case by (simp add: dlist_add_to_tail dl_free_def)
next
  case (3 s xs a)
  then obtain us vs where xs: "xs = us @ a # vs" by (meson split_list)
  have "a \<notin> set us" "a \<noteq> null" using 3 xs by (auto simp: dlist_def)
  with 3 xs dlist_remove_at [of s us a vs] dlist_remove_links(2) [of s us a vs] show ?case
    by (simp add: remove1_append dl_free_def)
next
  case (4 s x xs)
  then have "x \<noteq> null" by (simp add: dlist_def)
  with dlist_remove_head [OF 4] show ?case by (auto simp: dl_free_def)
next
  case (5 s xs a)
  then show ?case using dlist_is_in [of s xs a] by (auto simp: dl_free_def dlist_def)
next
  case (6 s xs b a)
  have "a \<in> set xs \<Longrightarrow> dl_free (p_vsf_dlist_remove_imp a s) b"
    using 6 by (metis dlist_remove_links(1) same_links_free split_list)
  with 6 dlist_add_links [OF 6(1), of a] show ?case by (auto intro: same_links_free)
next
  case (7 s x xs b)
  with dlist_remove_head [OF 7(1)] show ?case by (auto intro: same_links_free)
next
  case (8 s xs)
  then show ?case by (simp add: dlist_def)
qed

section \<open>Properties\<close>

text \<open>
  C3. The singly linked list: on every well-formed list the loops return, the length and the index
  are those of the sequence of items (-1 for an absent item), append adds at the end, remove takes
  exactly the item out and clears its link, and remove-tail takes the last. No word of the store
  outside of the list's own links changes.
\<close>

theorem slist_ops_refine:
  assumes "slist off mem l xs" "item \<noteq> null"
  shows "p_vsf_slist_get_length_imp off mem l = Some (of_nat (length xs))
    \<and> p_vsf_slist_get_index_imp off mem l item =
        Some (if item \<in> set xs then of_nat (length (takeWhile (\<lambda>y. y \<noteq> item) xs)) else - 1)
    \<and> (\<exists>mem'. p_vsf_slist_remove_imp off mem l item = Some (if item \<in> set xs then item else null, mem')
         \<and> slist off mem' l (remove1 item xs)
         \<and> (\<forall>a. a \<noteq> l \<longrightarrow> a \<notin> (\<lambda>y. y + off) ` set xs \<longrightarrow> mem' a = mem a))
    \<and> (item \<notin> set xs \<longrightarrow> l \<noteq> item + off \<longrightarrow>
         (\<exists>mem'. p_vsf_slist_append_imp off mem l item = Some (item, mem')
            \<and> slist off mem' l (xs @ [item])))
    \<and> (xs \<noteq> [] \<longrightarrow> (\<exists>mem'. p_vsf_slist_remove_tail_imp off mem l = Some (last xs, mem')
            \<and> slist off mem' l (butlast xs)))"
proof (intro conjI impI)
  show "\<exists>mem'. p_vsf_slist_remove_imp off mem l item = Some (if item \<in> set xs then item else null, mem')
         \<and> slist off mem' l (remove1 item xs)
         \<and> (\<forall>a. a \<noteq> l \<longrightarrow> a \<notin> (\<lambda>y. y + off) ` set xs \<longrightarrow> mem' a = mem a)"
  proof (cases "item \<in> set xs")
    case True
    with slist_remove_ok [OF assms(1) True] show ?thesis by auto
  next
    case False
    with assms(1) show ?thesis by (simp add: slist_remove_absent remove1_idem)
  qed
next
  assume "item \<notin> set xs" "l \<noteq> item + off"
  with slist_append_ok [OF assms(1) _ assms(2)]
  show "\<exists>mem'. p_vsf_slist_append_imp off mem l item = Some (item, mem')
      \<and> slist off mem' l (xs @ [item])" by blast
next
  assume "xs \<noteq> []"
  with slist_remove_tail_ok [OF assms(1)]
  show "\<exists>mem'. p_vsf_slist_remove_tail_imp off mem l = Some (last xs, mem')
      \<and> slist off mem' l (butlast xs)" by blast
qed (use assms in \<open>simp_all add: p_vsf_slist_get_length_imp_def slist_length_loop_ok
      p_vsf_slist_get_index_imp_def slist_index_loop_ok\<close>)

definition slist_example :: "ptr \<Rightarrow> ptr" where
  "slist_example = (\<lambda>_. null)(100 := 8, 12 := 16, 20 := null)"

theorem slist_ops_refine_witness:
  "p_vsf_slist_get_length_imp 4 slist_example 100 = Some 2
    \<and> (\<exists>mem'. p_vsf_slist_append_imp 4 slist_example 100 24 = Some (24, mem')
          \<and> slist 4 mem' 100 [8, 16, 24])"
  using slist_ops_refine [of 4 slist_example 100 "[8, 16]" 24] by (simp add: slist_example_def)

text \<open>
  \<open>vsf_slist_get_item_by_index\<close> finds the first item only: for index 0 it answers the head, and
  for every other index NULL, however long the list is, since the loop ends when the index reaches
  zero before it looks at that item.
\<close>

lemma slist_item_loop_rest:
  "slist off mem l xs \<Longrightarrow> length xs \<le> unat index \<Longrightarrow> slist_item_loop off mem l index item = Some item"
proof (induction xs arbitrary: l index)
  case Nil
  then show ?case by (subst slist_item_loop.simps) simp
next
  case (Cons x xs)
  then have "0 < index" by (simp add: word_nat)
  then have "length xs \<le> unat (index - 1)" using Cons.prems by (simp add: unat_dec)
  with Cons.IH [of "x + off" "index - 1"] Cons.prems
  have "slist_item_loop off mem (x + off) (index - 1) item = Some item" by simp
  with Cons.prems \<open>0 < index\<close> show ?case
    by (subst slist_item_loop.simps) (auto simp: Let_def)
qed

lemma slist_item_loop_null:
  "slist off mem l xs \<Longrightarrow> index \<noteq> 0 \<Longrightarrow> slist_item_loop off mem l index null = Some null"
proof (induction xs arbitrary: l index)
  case Nil
  then show ?case by (subst slist_item_loop.simps) simp
next
  case (Cons x xs)
  then show ?case by (subst slist_item_loop.simps) (auto simp: Let_def)
qed

theorem slist_get_item_first_only:
  assumes "slist off mem l xs" "length xs < 2 ^ 32"
  shows "p_vsf_slist_get_item_by_index_imp off mem l index =
    Some (if index = 0 then first xs null else null)"
proof (cases "index = 0")
  case False
  with assms(1) show ?thesis by (simp add: p_vsf_slist_get_item_by_index_imp_def slist_item_loop_null)
next
  case True
  have "slist_item_loop off mem l 0 null = Some (first xs null)"
  proof (cases xs)
    case Nil
    with assms(1) show ?thesis by (subst slist_item_loop.simps) simp
  next
    case (Cons x ys)
    have "length ys \<le> unat (- 1 :: u32)" using assms(2) Cons 
      by (simp add: unsigned_minus_1_eq_mask mask_eq_exp_minus_1)
    with slist_item_loop_rest [of off mem "x + off" ys "- 1" x] Cons assms(1) show ?thesis
      by (subst slist_item_loop.simps) simp
  qed
  with True show ?thesis by (simp add: p_vsf_slist_get_item_by_index_imp_def)
qed

theorem slist_get_item_first_only_witness:
  "p_vsf_slist_get_item_by_index_imp 4 slist_example 100 1 = Some null"
  using slist_get_item_first_only [of 4 slist_example 100 "[8, 16]" 1] by (simp add: slist_example_def)


definition dlist_example :: dstate where
  "dlist_example =
     (\<lparr>dl_next = (\<lambda>_. null)(8 := 16), dl_prev = (\<lambda>_. null)(16 := 8)\<rparr>, \<lparr>dl_head = 8, dl_tail = 16\<rparr>)"


text \<open>
  Ordered insertion: \<open>vsf_dlist_insert\<close> returns on every well-formed list and places the item
  before the first one that satisfies the condition; with the condition \<open>key item < key x\<close> a list
  sorted by the key stays sorted, and items with an equal key keep their order of insertion.
\<close>

theorem dlist_insert_sorted:
  assumes "dlist s xs" "item \<notin> set xs" "item \<noteq> null" "sorted (map key xs)"
  shows "\<exists>s'. p_vsf_dlist_insert (\<lambda>x. key item < key x) item s = Some s'
    \<and> dlist s' (takeWhile (\<lambda>x. key x \<le> key item) xs @ item # dropWhile (\<lambda>x. key x \<le> key item) xs)
    \<and> sorted (map key (takeWhile (\<lambda>x. key x \<le> key item) xs @ item
         # dropWhile (\<lambda>x. key x \<le> key item) xs))"
    (is "\<exists>s'. _ \<and> _ \<and> sorted (map key (?us @ item # ?vs))")
proof -
  have "sorted (map key (?us @ ?vs))" using assms(4) by simp
  then have "sorted (map key ?us)" "sorted (map key ?vs)"
    by (simp_all only: map_append sorted_append)
  moreover have "\<forall>x\<in>set ?us. key x \<le> key item" by (auto dest: set_takeWhileD)
  moreover have "\<forall>x\<in>set ?vs. key item \<le> key x"
  proof (cases ?vs)
    case (Cons y ys)
    then have "key item < key y" using hd_dropWhile [of "\<lambda>x. key x \<le> key item" xs] by auto
    with \<open>sorted (map key ?vs)\<close> Cons show ?thesis by auto
  next
    case Nil
    then show ?thesis unfolding Nil by simp
  qed
  ultimately have "sorted (map key (?us @ item # ?vs))" by (fastforce simp: sorted_append)
  with dlist_insert_ok [OF assms(1-3), of "\<lambda>x. key item < key x"] show ?thesis
    by (simp add: not_less)
qed

theorem dlist_insert_sorted_witness:
  "\<exists>s'. p_vsf_dlist_insert (\<lambda>x. 13 < x) 13 dlist_example = Some s' \<and> dlist s' [8, 13, 16]"
proof -
  have "dlist dlist_example [8, 16]" by (simp add: dlist_example_def dlist_def)
  then show ?thesis
    using dlist_insert_sorted [of dlist_example "[8, 16]" 13 "\<lambda>a. a"] by (auto simp: dlist_example_def)
qed

text \<open>
  Membership is decided by the links alone: for a node that is queued in this list or carries
  no links, \<open>vsf_dlist_is_in\<close> tells whether it is in the list, and moving the node to the tail behind
  that test, as the kernel's clients do, never links it twice.
\<close>

theorem dlist_put_moves:
  assumes "dlist s xs" "dl_free s a \<or> a \<in> set xs"
  shows "dlist (dl.put a s) (removeAll a xs @ [a])"
  using assms by (rule dl.put_rel)

theorem dlist_put_moves_witness: "dlist (dl.put 8 dlist_example) [16, 8]"
  using dlist_put_moves [of dlist_example "[8, 16]" 8] by (simp add: dlist_example_def dlist_def)

end
