(* ===== verification/VSF_Rng_Buf.thy ===== *)
theory VSF_Rng_Buf
  imports VSF_Ring
begin

text \<open>
  The ring buffer of \<open>src/source/utilities/template/vsf_queue.c\<close> with its peek cursor, and the typed
  queue that the macro \<open>implement_vsf_rng_buf\<close> of \<open>vsf_queue.h\<close> generates over it. Indices are
  \<open>uint16_t\<close>, the intermediate counts \<open>uint_fast16_t\<close> (32 bits on the target), and the index an
  operation returns is an \<open>int32_t\<close> with -1 for "none".
\<close>

section \<open>Operations on the indices\<close>

record vsf_rng_buf_t =
  rb_head :: u16
  rb_tail :: u16
  rb_length :: u16
  rb_peek :: u16
  rb_peek_cnt :: u16
  rb_buffer_item_cnt :: u16

definition p_vsf_rng_buf_init_ex :: "u32 \<Rightarrow> bool \<Rightarrow> vsf_rng_buf_t" where
  "p_vsf_rng_buf_init_ex cnt is_init_as_full =
     \<lparr>rb_head = 0, rb_tail = 0, rb_length = (if is_init_as_full then ucast cnt else 0),
      rb_peek = 0, rb_peek_cnt = 0, rb_buffer_item_cnt = ucast cnt\<rparr>"

text \<open>The reset of an index that has reached the end of the buffer.\<close>

definition rb_wrap :: "vsf_rng_buf_t \<Rightarrow> u16 \<Rightarrow> u16" where
  "rb_wrap q i = (if rb_buffer_item_cnt q \<le> i then 0 else i)"

definition p_vsf_rng_buf_send_one :: "vsf_rng_buf_t \<Rightarrow> int \<times> vsf_rng_buf_t" where
  "p_vsf_rng_buf_send_one q =
     (if rb_head q = rb_tail q \<and> 0 < rb_length q then (- 1, q)
      else (uint (rb_tail q),
            q\<lparr>rb_length := rb_length q + 1, rb_tail := rb_wrap q (rb_tail q + 1)\<rparr>))"

definition p_vsf_rng_buf_get_one :: "vsf_rng_buf_t \<Rightarrow> int \<times> vsf_rng_buf_t" where
  "p_vsf_rng_buf_get_one q =
     (if rb_head q = rb_tail q \<and> rb_length q = 0 then (- 1, q)
      else let head = rb_head q + 1
           in (uint (rb_head q),
               q\<lparr>rb_length := rb_length q - 1, rb_peek := head, rb_peek_cnt := 0,
                 rb_head := rb_wrap q head\<rparr>))"

definition p_vsf_rng_buf_item_count :: "vsf_rng_buf_t \<Rightarrow> u32" where
  "p_vsf_rng_buf_item_count q = ucast (rb_length q)"

definition rb_send_count :: "u16 \<Rightarrow> vsf_rng_buf_t \<Rightarrow> u32" where
  "rb_send_count item_cnt q =
     (let space_left = ucast (rb_buffer_item_cnt q) - ucast (rb_length q);
          written = ucast (rb_buffer_item_cnt q) - ucast (rb_tail q);
          written = min (ucast item_cnt) written
      in min written space_left)"

text \<open>The result carries the index and the updated \<open>*item_cnt_ptr\<close>.\<close>

definition p_vsf_rng_buf_send_multiple :: "u16 \<Rightarrow> vsf_rng_buf_t \<Rightarrow> int \<times> u16 \<times> vsf_rng_buf_t" where
  "p_vsf_rng_buf_send_multiple item_cnt q =
     (if rb_head q = rb_tail q \<and> 0 < rb_length q then (- 1, item_cnt, q)
      else let written = rb_send_count item_cnt q
           in (uint (rb_tail q), ucast written,
               q\<lparr>rb_length := ucast (ucast (rb_length q) + written),
                 rb_tail := rb_wrap q (ucast (ucast (rb_tail q) + written))\<rparr>))"

definition rb_get_count :: "u16 \<Rightarrow> vsf_rng_buf_t \<Rightarrow> u32" where
  "rb_get_count item_cnt q =
     (let rd = ucast (rb_buffer_item_cnt q) - ucast (rb_head q);
          rd = min (ucast item_cnt) rd
      in min (ucast (rb_length q)) rd)"

definition p_vsf_rng_buf_get_multiple :: "u16 \<Rightarrow> vsf_rng_buf_t \<Rightarrow> int \<times> u16 \<times> vsf_rng_buf_t" where
  "p_vsf_rng_buf_get_multiple item_cnt q =
     (if rb_head q = rb_tail q \<and> rb_length q = 0 then (- 1, item_cnt, q)
      else let rd = rb_get_count item_cnt q;
               head = ucast (ucast (rb_head q) + rd)
           in (uint (rb_head q), ucast rd,
               q\<lparr>rb_length := ucast (ucast (rb_length q) - rd), rb_peek := head, rb_peek_cnt := 0,
                 rb_head := rb_wrap q head\<rparr>))"

definition p_vsf_rng_buf_peek_one :: "vsf_rng_buf_t \<Rightarrow> int \<times> vsf_rng_buf_t" where
  "p_vsf_rng_buf_peek_one q =
     (if rb_peek q = rb_tail q \<and> rb_peek_cnt q \<noteq> 0 then (- 1, q)
      else (uint (rb_peek q),
            q\<lparr>rb_peek_cnt := rb_peek_cnt q + 1, rb_peek := rb_wrap q (rb_peek q + 1)\<rparr>))"

definition p_vsf_rng_buf_reset_peek :: "vsf_rng_buf_t \<Rightarrow> vsf_rng_buf_t" where
  "p_vsf_rng_buf_reset_peek q = q\<lparr>rb_peek := rb_head q, rb_peek_cnt := 0\<rparr>"

definition p_vsf_rng_buf_get_all_peeked :: "vsf_rng_buf_t \<Rightarrow> vsf_rng_buf_t" where
  "p_vsf_rng_buf_get_all_peeked q =
     q\<lparr>rb_head := rb_peek q, rb_length := rb_length q - rb_peek_cnt q, rb_peek_cnt := 0\<rparr>"

definition p_vsf_rng_buf_item_count_peekable :: "vsf_rng_buf_t \<Rightarrow> u32" where
  "p_vsf_rng_buf_item_count_peekable q = ucast (rb_length q) - ucast (rb_peek_cnt q)"

definition rb_peek_count :: "u16 \<Rightarrow> vsf_rng_buf_t \<Rightarrow> u32" where
  "rb_peek_count item_cnt q =
     (let item_left = ucast (rb_length q) - ucast (rb_peek_cnt q);
          peeked = ucast (rb_buffer_item_cnt q) - ucast (rb_peek q);
          peeked = min (ucast item_cnt) peeked
      in min item_left peeked)"

definition p_vsf_rng_buf_peek_multiple :: "u16 \<Rightarrow> vsf_rng_buf_t \<Rightarrow> int \<times> u16 \<times> vsf_rng_buf_t" where
  "p_vsf_rng_buf_peek_multiple item_cnt q =
     (if rb_peek q = rb_tail q \<and> rb_peek_cnt q \<noteq> 0 then (- 1, item_cnt, q)
      else let peeked = rb_peek_count item_cnt q
           in (uint (rb_peek q), ucast peeked,
               q\<lparr>rb_peek_cnt := ucast (ucast (rb_peek_cnt q) + peeked),
                 rb_peek := rb_wrap q (ucast (ucast (rb_peek q) + peeked))\<rparr>))"

section \<open>The typed queue\<close>

text \<open>
  \<open>vsf_rng_buf_t\<close> with the item buffer. \<open>None\<close> in the results of the typed operations is the false
  or -1 they answer; the item count of a multiple transfer is given by the length of the list.
\<close>

record 'a rng_queue =
  rq_base :: vsf_rng_buf_t
  rq_buffer :: "'a list"

text \<open>\<open>bytes\<close> is the size of the buffer in bytes, \<open>z\<close> that of an item; \<open>None\<close> is the failed assertion.\<close>

definition rq_init :: "nat \<Rightarrow> nat \<Rightarrow> bool \<Rightarrow> 'a list \<Rightarrow> 'a rng_queue option" where
  "rq_init z bytes full buffer =
     (if bytes < z then None
      else Some \<lparr>rq_base = p_vsf_rng_buf_init_ex (of_nat (bytes div z)) full, rq_buffer = buffer\<rparr>)"

definition rq_send_one :: "'a \<Rightarrow> 'a rng_queue \<Rightarrow> bool \<times> 'a rng_queue" where
  "rq_send_one item q =
     (let (index, b) = p_vsf_rng_buf_send_one (rq_base q); q = q\<lparr>rq_base := b\<rparr>
      in if index < 0 then (False, q)
         else (True, q\<lparr>rq_buffer := (rq_buffer q)[nat index := item]\<rparr>))"

definition rq_get_one :: "'a rng_queue \<Rightarrow> 'a option \<times> 'a rng_queue" where
  "rq_get_one q =
     (let (index, b) = p_vsf_rng_buf_get_one (rq_base q); q = q\<lparr>rq_base := b\<rparr>
      in if index < 0 then (None, q) else (Some (rq_buffer q ! nat index), q))"

definition rq_send_multiple :: "'a list \<Rightarrow> 'a rng_queue \<Rightarrow> u16 option \<times> 'a rng_queue" where
  "rq_send_multiple items q =
     (if items = [] then (None, q)
      else let (index, n, b) = p_vsf_rng_buf_send_multiple (of_nat (length items)) (rq_base q);
               q = q\<lparr>rq_base := b\<rparr>
           in if index < 0 then (None, q)
              else (Some n, q\<lparr>rq_buffer := blk_write (rq_buffer q) (nat index) (take (unat n) items)\<rparr>))"

definition rq_get_multiple :: "u16 \<Rightarrow> 'a rng_queue \<Rightarrow> 'a list option \<times> 'a rng_queue" where
  "rq_get_multiple cnt q =
     (if cnt = 0 then (None, q)
      else let (index, n, b) = p_vsf_rng_buf_get_multiple cnt (rq_base q); q = q\<lparr>rq_base := b\<rparr>
           in if index < 0 then (None, q)
              else (Some (blk_read (rq_buffer q) (nat index) (unat n)), q))"

text \<open>Peeking hands out a position in the buffer (and how many items lie there).\<close>

definition rq_peek_one :: "'a rng_queue \<Rightarrow> nat option \<times> 'a rng_queue" where
  "rq_peek_one q =
     (let (index, b) = p_vsf_rng_buf_peek_one (rq_base q); q = q\<lparr>rq_base := b\<rparr>
      in if index < 0 then (None, q) else (Some (nat index), q))"

definition rq_peek_multiple :: "u16 \<Rightarrow> 'a rng_queue \<Rightarrow> (nat \<times> u16) option \<times> 'a rng_queue" where
  "rq_peek_multiple cnt q =
     (if cnt = 0 then (None, q)
      else let (index, n, b) = p_vsf_rng_buf_peek_multiple cnt (rq_base q); q = q\<lparr>rq_base := b\<rparr>
           in if index < 0 then (None, q) else (Some (nat index, n), q))"

definition rq_reset_peek :: "'a rng_queue \<Rightarrow> 'a rng_queue" where
  "rq_reset_peek q = q\<lparr>rq_base := p_vsf_rng_buf_reset_peek (rq_base q)\<rparr>"

definition rq_get_all_peeked :: "'a rng_queue \<Rightarrow> 'a rng_queue" where
  "rq_get_all_peeked q = q\<lparr>rq_base := p_vsf_rng_buf_get_all_peeked (rq_base q)\<rparr>"

section \<open>Invariant and contents\<close>

definition rb_ok :: "vsf_rng_buf_t \<Rightarrow> bool" where
  "rb_ok q \<longleftrightarrow> rb_head q < rb_buffer_item_cnt q \<and> rb_tail q < rb_buffer_item_cnt q
     \<and> rb_length q \<le> rb_buffer_item_cnt q
     \<and> unat (rb_tail q) = (unat (rb_head q) + unat (rb_length q)) mod unat (rb_buffer_item_cnt q)"

definition rq_ok :: "'a rng_queue \<Rightarrow> bool" where
  "rq_ok q \<longleftrightarrow> rb_ok (rq_base q) \<and> length (rq_buffer q) = unat (rb_buffer_item_cnt (rq_base q))"

definition rq_contents :: "'a rng_queue \<Rightarrow> 'a list" where
  "rq_contents q = ring_list ((!) (rq_buffer q)) (unat (rb_buffer_item_cnt (rq_base q)))
     (unat (rb_head (rq_base q))) (unat (rb_length (rq_base q)))"

abbreviation rq_cap :: "'a rng_queue \<Rightarrow> nat" where
  "rq_cap q \<equiv> unat (rb_buffer_item_cnt (rq_base q))"

lemma length_rq_contents [simp]: "length (rq_contents q) = unat (rb_length (rq_base q))"
  by (simp add: rq_contents_def)

lemma unat_ucast_u16_u32 [simp]: "unat (ucast (x :: u16) :: u32) = unat x"
  by (simp add: unsigned_ucast_eq take_bit_nat_eq_self less_trans [OF unat_u16_less])

lemma unat_ucast_u32_u16: "unat (y :: u32) < 65536 \<Longrightarrow> unat (ucast y :: u16) = unat y"
  by (simp add: unsigned_ucast_eq take_bit_nat_eq_self)

lemma ring_full_iff:
  "h < d \<Longrightarrow> n \<le> d \<Longrightarrow> h = (h + n) mod d \<and> 0 < n \<longleftrightarrow> n = d"
  for h n d :: nat
  by (cases "h + n < d") (auto simp: mod_if not_less)

lemma rb_full_iff:
  "rb_ok q \<Longrightarrow> rb_head q = rb_tail q \<and> 0 < rb_length q \<longleftrightarrow> unat (rb_length q) = unat (rb_buffer_item_cnt q)"
  using ring_full_iff [of "unat (rb_head q)" "unat (rb_buffer_item_cnt q)" "unat (rb_length q)"]
  by (simp add: rb_ok_def word_less_nat_alt word_le_nat_alt word_unat_eq_iff)

lemma rb_empty_iff:
  "rb_ok q \<Longrightarrow> rb_head q = rb_tail q \<and> rb_length q = 0 \<longleftrightarrow> unat (rb_length q) = 0"
  by (auto simp: rb_ok_def word_unat_eq_iff word_less_nat_alt)

lemma unat_rb_wrap:
  "i < rb_buffer_item_cnt q \<Longrightarrow> unat (rb_wrap q (i + 1)) = (unat i + 1) mod unat (rb_buffer_item_cnt q)"
  by (auto simp: rb_wrap_def word_le_nat_alt word_less_nat_alt unat_inc mod_Suc)

lemma unat_rb_wrap_add:
  assumes "unat i + k \<le> unat (rb_buffer_item_cnt q)" "unat j = unat i + k" "0 < unat (rb_buffer_item_cnt q)"
  shows "unat (rb_wrap q j) = (unat i + k) mod unat (rb_buffer_item_cnt q)"
  using assms by (cases "unat i + k = unat (rb_buffer_item_cnt q)")
    (auto simp: rb_wrap_def word_le_nat_alt)

lemma rb_ok_cnt: "rb_ok q \<Longrightarrow> 0 < unat (rb_buffer_item_cnt q)"
  by (auto simp: rb_ok_def word_less_nat_alt)

lemma nat_uint_unat [simp]: "nat (uint x) = unat x"
  by simp

subsection \<open>One item\<close>

lemma rq_send_one_room:
  assumes "rq_ok q" "unat (rb_length (rq_base q)) < rq_cap q"
  shows "\<exists>q'. rq_send_one x q = (True, q') \<and> rq_ok q' \<and> rq_contents q' = rq_contents q @ [x]
    \<and> rq_cap q' = rq_cap q"
proof -
  let ?b = "rq_base q" and ?d = "rq_cap q"
  let ?b' = "?b\<lparr>rb_length := rb_length ?b + 1, rb_tail := rb_wrap ?b (rb_tail ?b + 1)\<rparr>"
  let ?q = "\<lparr>rq_base = ?b', rq_buffer = (rq_buffer q)[unat (rb_tail ?b) := x]\<rparr>"
  have ok: "rb_ok ?b" and len: "length (rq_buffer q) = ?d" using assms(1) by (auto simp: rq_ok_def)
  note O = ok [unfolded rb_ok_def]
  have d: "0 < ?d" by (rule rb_ok_cnt [OF ok])
  have n: "unat (rb_length ?b + 1) = unat (rb_length ?b) + 1"
    using assms(2) by (intro unat_inc [of _ "rb_buffer_item_cnt ?b"]) (simp add: word_less_nat_alt)
  have t: "unat (rb_wrap ?b (rb_tail ?b + 1)) = (unat (rb_tail ?b) + 1) mod ?d"
    using O by (intro unat_rb_wrap) simp
  have "\<not> (rb_head ?b = rb_tail ?b \<and> 0 < rb_length ?b)" using rb_full_iff [OF ok] assms(2) by simp
  then have "p_vsf_rng_buf_send_one ?b = (uint (rb_tail ?b), ?b')"
    unfolding p_vsf_rng_buf_send_one_def by (simp only: if_False)
  then have "rq_send_one x q = (True, ?q)" by (simp add: rq_send_one_def not_less)
  moreover have "rq_ok ?q" using O n t d assms(2) len
    by (simp add: rq_ok_def rb_ok_def word_less_nat_alt word_le_nat_alt mod_Suc_eq)
  moreover have "ring_list ((!) ((rq_buffer q)[unat (rb_tail ?b) := x])) ?d (unat (rb_head ?b))
      (unat (rb_length ?b)) = rq_contents q"
    unfolding rq_contents_def using assms(2) O by (intro ring_list_outside) simp_all
  then have "rq_contents ?q = rq_contents q @ [x]"
    using O len d by (simp add: rq_contents_def n ring_list_Suc word_less_nat_alt)
  ultimately show ?thesis by simp
qed

lemma rq_get_one_item:
  assumes "rq_ok q" "rq_contents q = x # xs"
  shows "\<exists>q'. rq_get_one q = (Some x, q') \<and> rq_ok q' \<and> rq_contents q' = xs \<and> rq_cap q' = rq_cap q"
proof -
  let ?b = "rq_base q" and ?d = "rq_cap q"
  let ?b' = "?b\<lparr>rb_length := rb_length ?b - 1, rb_peek := rb_head ?b + 1, rb_peek_cnt := 0,
      rb_head := rb_wrap ?b (rb_head ?b + 1)\<rparr>"
  have ok: "rb_ok ?b" using assms(1) by (auto simp: rq_ok_def)
  note O = ok [unfolded rb_ok_def]
  have d: "0 < ?d" by (rule rb_ok_cnt [OF ok])
  have n: "unat (rb_length ?b) = Suc (length xs)"
    using length_rq_contents [of q] assms(2) by simp
  then have n': "unat (rb_length ?b - 1) = length xs" by (simp add: unat_dec word_nat)
  have h: "unat (rb_wrap ?b (rb_head ?b + 1)) = (unat (rb_head ?b) + 1) mod ?d"
    using O by (intro unat_rb_wrap) simp
  have "\<not> (rb_head ?b = rb_tail ?b \<and> rb_length ?b = 0)" using rb_empty_iff [OF ok] n by simp
  then have "p_vsf_rng_buf_get_one ?b = (uint (rb_head ?b), ?b')"
    unfolding p_vsf_rng_buf_get_one_def by (simp only: if_False Let_def)
  moreover have "rq_contents q = rq_buffer q ! unat (rb_head ?b)
      # ring_list ((!) (rq_buffer q)) ?d (unat (rb_wrap ?b (rb_head ?b + 1))) (length xs)"
    using O n h by (simp add: rq_contents_def ring_list_Cons word_less_nat_alt)
  ultimately have "rq_get_one q = (Some x, q\<lparr>rq_base := ?b'\<rparr>)"
    "rq_contents (q\<lparr>rq_base := ?b'\<rparr>) = xs"
    using assms(2) n' by (simp_all add: rq_get_one_def rq_contents_def not_less)
  moreover have "((unat (rb_head ?b) + 1) mod ?d + length xs) mod ?d
      = (unat (rb_head ?b) + Suc (length xs)) mod ?d" by (simp add: mod_add_left_eq)
  then have "rq_ok (q\<lparr>rq_base := ?b'\<rparr>)" using O n n' h d assms(1)
    by (simp add: rq_ok_def rb_ok_def word_less_nat_alt word_le_nat_alt)
  ultimately show ?thesis by simp
qed

lemma rq_send_one_full:
  "rq_ok q \<Longrightarrow> unat (rb_length (rq_base q)) = rq_cap q \<Longrightarrow> rq_send_one x q = (False, q)"
  using rb_full_iff [of "rq_base q"] by (simp add: rq_send_one_def p_vsf_rng_buf_send_one_def rq_ok_def)

lemma rq_get_one_empty:
  "rq_ok q \<Longrightarrow> rq_contents q = [] \<Longrightarrow> rq_get_one q = (None, q)"
proof -
  assume "rq_ok q" "rq_contents q = []"
  then have "rb_ok (rq_base q)" "unat (rb_length (rq_base q)) = 0"
    using length_rq_contents [of q] by (simp_all add: rq_ok_def)
  with rb_empty_iff [of "rq_base q"] show ?thesis
    by (simp add: rq_get_one_def p_vsf_rng_buf_get_one_def)
qed

lemma rq_len_le: "rq_ok q \<Longrightarrow> unat (rb_length (rq_base q)) \<le> rq_cap q"
  by (simp add: rq_ok_def rb_ok_def word_le_nat_alt)

interpretation rq: bounded_queue rq_ok rq_contents rq_cap "\<lambda>_ _. True" rq_send_one rq_get_one
proof (unfold_locales, goal_cases)
  case (1 s x)
  then show ?case using rq_send_one_room [of s x] by auto
next
  case (2 s x)
  then show ?case using rq_send_one_full [of s x] rq_len_le [of s] by simp
next
  case (3 s x xs)
  then show ?case using rq_get_one_item [of s x xs] by auto
next
  case (4 s)
  then show ?case by (rule rq_get_one_empty)
next
  case (5 s x)
  then show ?case using rq_send_one_room [of s x] rq_send_one_full [of s x] rq_len_le [of s]
    by (cases "unat (rb_length (rq_base s)) < rq_cap s") auto
next
  case (6 s)
  then show ?case using rq_get_one_item [of s] rq_get_one_empty [of s]
    by (cases "rq_contents s") fastforce+
next
  case (9 s)
  then show ?case by (simp add: rq_len_le)
qed simp_all

subsection \<open>Several items\<close>

lemma unat_rb_send_count:
  assumes "rb_ok q"
  shows "unat (rb_send_count c q) = min (min (unat c) (unat (rb_buffer_item_cnt q) - unat (rb_tail q)))
     (unat (rb_buffer_item_cnt q) - unat (rb_length q))"
  using assms
  by (simp add: rb_send_count_def Let_def unat_min_word unat_sub_small rb_ok_def word_less_nat_alt
      word_le_nat_alt)

lemma unat_rb_get_count:
  assumes "rb_ok q"
  shows "unat (rb_get_count c q) = min (unat (rb_length q))
     (min (unat c) (unat (rb_buffer_item_cnt q) - unat (rb_head q)))"
  using assms
  by (simp add: rb_get_count_def Let_def unat_min_word unat_sub_small rb_ok_def word_less_nat_alt
      word_le_nat_alt)

text \<open>Adding a count that stays within 16 bits to an index, in 32-bit arithmetic.\<close>

lemma unat_ucast_small: "unat (k :: u32) \<le> unat (c :: u16) \<Longrightarrow> unat (ucast k :: u16) = unat k"
  by (rule unat_ucast_u32_u16) (rule le_less_trans [OF _ unat_u16_less])

lemma unat_of_nat_u16: "k \<le> unat (c :: u16) \<Longrightarrow> unat (of_nat k :: u16) = k"
  using le_less_trans [OF _ unat_u16_less [of c], of k]
  by (simp add: unsigned_of_nat take_bit_nat_eq_self)

lemma unat_ucast_add:
  assumes "unat (i :: u16) + unat (k :: u32) \<le> unat (c :: u16)"
  shows "unat (ucast (ucast i + k) :: u16) = unat i + unat k"
proof -
  have "unat i + unat k < 65536" by (rule le_less_trans [OF assms unat_u16_less])
  then have "unat (ucast i + k) = unat i + unat k" by (subst unat_add_small) simp_all
  with assms show ?thesis by (simp add: unat_ucast_small)
qed

lemma unat_ucast_diff:
  assumes "unat (k :: u32) \<le> unat (i :: u16)"
  shows "unat (ucast (ucast i - k) :: u16) = unat i - unat k"
proof -
  have "unat (ucast i - k) = unat i - unat k"
    using assms by (subst unat_sub_small) (simp_all add: word_le_nat_alt)
  moreover have "unat i - unat k < 65536" by (rule le_less_trans [OF diff_le_self]) simp
  ultimately show ?thesis by (simp add: unat_ucast_u32_u16)
qed

lemma rq_send_multiple_room:
  assumes "rq_ok q" "unat (rb_length (rq_base q)) < rq_cap q" "items \<noteq> []" "length items < 65536"
    and k: "k = min (min (length items) (rq_cap q - unat (rb_tail (rq_base q))))
                  (rq_cap q - unat (rb_length (rq_base q)))"
  shows "\<exists>q'. rq_send_multiple items q = (Some (of_nat k), q') \<and> rq_ok q' \<and> rq_cap q' = rq_cap q
    \<and> rq_contents q' = rq_contents q @ take k items"
proof -
  let ?b = "rq_base q" and ?d = "rq_cap q" and ?c = "of_nat (length items) :: u16"
  let ?w = "rb_send_count ?c ?b" and ?t = "unat (rb_tail ?b)" and ?n = "unat (rb_length ?b)"
  let ?b' = "?b\<lparr>rb_length := ucast (ucast (rb_length ?b) + ?w),
      rb_tail := rb_wrap ?b (ucast (ucast (rb_tail ?b) + ?w))\<rparr>"
  let ?buf = "blk_write (rq_buffer q) ?t (take k items)"
  have ok: "rb_ok ?b" and len: "length (rq_buffer q) = ?d" using assms(1) by (auto simp: rq_ok_def)
  note O = ok [unfolded rb_ok_def]
  have d: "0 < ?d" by (rule rb_ok_cnt [OF ok])
  have c: "unat ?c = length items" using assms(4) by (simp add: unsigned_of_nat take_bit_nat_eq_self)
  have w: "unat ?w = k" using unat_rb_send_count [OF ok, of ?c] c k by simp
  have td: "?t < ?d" using O by (simp add: word_less_nat_alt)
  have kb: "?t + k \<le> ?d" "?n + k \<le> ?d" "k \<le> length items"
    using k td assms(2) by auto
  note small = unat_ucast_small [where c = "rb_buffer_item_cnt ?b"]
    unat_of_nat_u16 [where c = "rb_buffer_item_cnt ?b"] unat_ucast_add [where c = "rb_buffer_item_cnt ?b"]
  have wn: "(ucast ?w :: u16) = of_nat k" using w kb by (simp add: word_unat_eq_iff small)
  have n': "unat (rb_length ?b') = ?n + k" using kb w by (simp add: small)
  have "unat (ucast (ucast (rb_tail ?b) + ?w) :: u16) = ?t + k" using kb w by (simp add: small)
  then have t': "unat (rb_tail ?b') = (?t + k) mod ?d"
    using kb d by (simp add: unat_rb_wrap_add)
  have "\<not> (rb_head ?b = rb_tail ?b \<and> 0 < rb_length ?b)" using rb_full_iff [OF ok] assms(2) by simp
  then have "p_vsf_rng_buf_send_multiple ?c ?b = (uint (rb_tail ?b), of_nat k, ?b')"
    unfolding p_vsf_rng_buf_send_multiple_def wn [symmetric] by (simp only: if_False Let_def)
  moreover have "unat (of_nat k :: u16) = k" using kb by (simp add: small)
  ultimately have "rq_send_multiple items q = (Some (of_nat k), \<lparr>rq_base = ?b', rq_buffer = ?buf\<rparr>)"
    using assms(3) by (simp add: rq_send_multiple_def not_less)
  moreover have "rq_ok \<lparr>rq_base = ?b', rq_buffer = ?buf\<rparr>"
  proof -
    have "unat (rb_tail ?b') = (unat (rb_head ?b) + (?n + k)) mod ?d"
      using t' O by (simp add: mod_add_left_eq add.assoc [symmetric])
    with O n' kb d len t' show ?thesis
      by (simp add: rq_ok_def rb_ok_def word_less_nat_alt word_le_nat_alt length_blk_write)
  qed
  moreover have "rq_contents \<lparr>rq_base = ?b', rq_buffer = ?buf\<rparr> = rq_contents q @ take k items"
    using ring_list_write [of ?n k ?d ?t "unat (rb_head ?b)" "rq_buffer q" "take k items"] kb O n' len
    by (simp add: rq_contents_def)
  ultimately show ?thesis by auto
qed

lemma rq_get_multiple_items:
  assumes "rq_ok q" "0 < unat (rb_length (rq_base q))" "c \<noteq> 0"
    and k: "k = min (unat (rb_length (rq_base q)))
                  (min (unat c) (rq_cap q - unat (rb_head (rq_base q))))"
  shows "\<exists>q'. rq_get_multiple c q = (Some (take k (rq_contents q)), q') \<and> rq_ok q'
    \<and> rq_cap q' = rq_cap q \<and> rq_contents q' = drop k (rq_contents q)"
proof -
  let ?b = "rq_base q" and ?d = "rq_cap q"
  let ?w = "rb_get_count c ?b" and ?h = "unat (rb_head ?b)" and ?n = "unat (rb_length ?b)"
  let ?b' = "?b\<lparr>rb_length := ucast (ucast (rb_length ?b) - ?w),
      rb_peek := ucast (ucast (rb_head ?b) + ?w), rb_peek_cnt := 0,
      rb_head := rb_wrap ?b (ucast (ucast (rb_head ?b) + ?w))\<rparr>"
  have ok: "rb_ok ?b" and len: "length (rq_buffer q) = ?d" using assms(1) by (auto simp: rq_ok_def)
  note O = ok [unfolded rb_ok_def]
  have d: "0 < ?d" by (rule rb_ok_cnt [OF ok])
  have w: "unat ?w = k" using unat_rb_get_count [OF ok, of c] k by simp
  have hd: "?h < ?d" using O by (simp add: word_less_nat_alt)
  have kb: "?h + k \<le> ?d" "k \<le> ?n" using k hd by auto
  note small = unat_ucast_small [where c = "rb_buffer_item_cnt ?b"]
    unat_ucast_add [where c = "rb_buffer_item_cnt ?b"]
  have wn: "unat (ucast ?w :: u16) = k" using w kb by (simp add: small)
  have n': "unat (rb_length ?b') = ?n - k" using kb w by (simp add: unat_ucast_diff)
  have "unat (ucast (ucast (rb_head ?b) + ?w) :: u16) = ?h + k" using kb w by (simp add: small)
  then have h': "unat (rb_head ?b') = (?h + k) mod ?d" using kb d by (simp add: unat_rb_wrap_add)
  have "\<not> (rb_head ?b = rb_tail ?b \<and> rb_length ?b = 0)" using rb_empty_iff [OF ok] assms(2) by simp
  then have "p_vsf_rng_buf_get_multiple c ?b = (uint (rb_head ?b), ucast ?w, ?b')"
    unfolding p_vsf_rng_buf_get_multiple_def by (simp only: if_False Let_def)
  moreover have R: "rq_contents q = blk_read (rq_buffer q) ?h k
      @ ring_list ((!) (rq_buffer q)) ?d ((?h + k) mod ?d) (?n - k)"
    unfolding rq_contents_def using ring_list_split [of k ?n ?h ?d "rq_buffer q"] kb len by simp
  moreover have "length (blk_read (rq_buffer q) ?h k) = k" using kb len by (simp add: length_blk_read)
  ultimately have "rq_get_multiple c q = (Some (take k (rq_contents q)), q\<lparr>rq_base := ?b'\<rparr>)"
    using assms(3) wn by (simp add: rq_get_multiple_def not_less)
  moreover have "rq_contents (q\<lparr>rq_base := ?b'\<rparr>) = drop k (rq_contents q)"
    using R \<open>length (blk_read (rq_buffer q) ?h k) = k\<close> h' n' by (simp add: rq_contents_def)
  moreover have "rq_ok (q\<lparr>rq_base := ?b'\<rparr>)"
  proof -
    have "((?h + k) mod ?d + (?n - k)) mod ?d = (?h + ?n) mod ?d" using kb by (intro ring_mod_skip)
    moreover have "?n - k \<le> ?d" by (rule le_trans [OF diff_le_self rq_len_le [OF assms(1)]])
    ultimately show ?thesis using O n' h' d len
      by (simp add: rq_ok_def rb_ok_def word_less_nat_alt word_le_nat_alt)
  qed
  ultimately show ?thesis by auto
qed

subsection \<open>Peeking\<close>

text \<open>The peek cursor is \<open>peek_cnt\<close> items behind the head and not past the last item.\<close>

definition rb_peek_ok :: "vsf_rng_buf_t \<Rightarrow> bool" where
  "rb_peek_ok q \<longleftrightarrow> rb_peek q < rb_buffer_item_cnt q \<and> rb_peek_cnt q \<le> rb_length q
     \<and> unat (rb_peek q) = (unat (rb_head q) + unat (rb_peek_cnt q)) mod unat (rb_buffer_item_cnt q)"

lemma rb_peek_ok_reset: "rb_ok q \<Longrightarrow> rb_peek_ok (p_vsf_rng_buf_reset_peek q)"
  by (simp add: rb_peek_ok_def rb_ok_def p_vsf_rng_buf_reset_peek_def word_less_nat_alt)

lemma unat_rb_peek_count:
  assumes "rb_peek_ok q"
  shows "unat (rb_peek_count c q) = min (unat (rb_length q) - unat (rb_peek_cnt q))
     (min (unat c) (unat (rb_buffer_item_cnt q) - unat (rb_peek q)))"
  using assms
  by (simp add: rb_peek_count_def Let_def unat_min_word unat_sub_small rb_peek_ok_def
      word_less_nat_alt word_le_nat_alt)

lemma rb_peek_not_all:
  assumes "rb_ok q" "rb_peek_ok q" "unat (rb_peek_cnt q) < unat (rb_length q)"
  shows "\<not> (rb_peek q = rb_tail q \<and> rb_peek_cnt q \<noteq> 0)"
proof
  assume a: "rb_peek q = rb_tail q \<and> rb_peek_cnt q \<noteq> 0"
  let ?d = "unat (rb_buffer_item_cnt q)" and ?h = "unat (rb_head q)"
    and ?p = "unat (rb_peek_cnt q)" and ?n = "unat (rb_length q)"
  have "(?h + ?p) mod ?d = (?h + ?n mod ?d) mod ?d"
    using a assms(1,2) by (simp add: rb_ok_def rb_peek_ok_def mod_add_right_eq)
  then have "?p = ?n mod ?d" using assms rb_ok_cnt [OF assms(1)]
    by (intro ring_pos_inj [of ?p ?d "?n mod ?d" ?h]) (auto simp: rb_ok_def word_le_nat_alt)
  moreover have "?n \<le> ?d" using assms(1) by (simp add: rb_ok_def word_le_nat_alt)
  ultimately have "?p = 0" using assms(3) by (cases "?n = ?d") auto
  with a show False by (simp add: unat_eq_zero)
qed

lemma rq_peek_multiple_items:
  assumes "rq_ok q" "rb_peek_ok (rq_base q)" "c \<noteq> 0"
    and "unat (rb_peek_cnt (rq_base q)) < unat (rb_length (rq_base q))"
    and k: "k = min (unat (rb_length (rq_base q)) - unat (rb_peek_cnt (rq_base q)))
                  (min (unat c) (rq_cap q - unat (rb_peek (rq_base q))))"
  shows "\<exists>i q'. rq_peek_multiple c q = (Some (i, of_nat k), q')
    \<and> blk_read (rq_buffer q) i k = take k (drop (unat (rb_peek_cnt (rq_base q))) (rq_contents q))
    \<and> rq_ok q' \<and> rb_peek_ok (rq_base q') \<and> rq_contents q' = rq_contents q \<and> rq_cap q' = rq_cap q
    \<and> unat (rb_peek_cnt (rq_base q')) = unat (rb_peek_cnt (rq_base q)) + k"
proof -
  let ?b = "rq_base q" and ?d = "rq_cap q" and ?p = "unat (rb_peek (rq_base q))"
  let ?w = "rb_peek_count c ?b" and ?h = "unat (rb_head ?b)" and ?n = "unat (rb_length ?b)"
    and ?j = "unat (rb_peek_cnt ?b)"
  let ?b' = "?b\<lparr>rb_peek_cnt := ucast (ucast (rb_peek_cnt ?b) + ?w),
      rb_peek := rb_wrap ?b (ucast (ucast (rb_peek ?b) + ?w))\<rparr>"
  have ok: "rb_ok ?b" and len: "length (rq_buffer q) = ?d" using assms(1) by (auto simp: rq_ok_def)
  note O = ok [unfolded rb_ok_def] and P = assms(2) [unfolded rb_peek_ok_def]
  have d: "0 < ?d" by (rule rb_ok_cnt [OF ok])
  have w: "unat ?w = k" using unat_rb_peek_count [OF assms(2), of c] k by simp
  have pd: "?p < ?d" using P by (simp add: word_less_nat_alt)
  have nd: "?n \<le> ?d" using O by (simp add: word_le_nat_alt)
  have kb: "?p + k \<le> ?d" "?j + k \<le> ?n" using k pd assms(4) by auto
  note small = unat_ucast_small [where c = "rb_buffer_item_cnt ?b"]
    unat_of_nat_u16 [where c = "rb_buffer_item_cnt ?b"] unat_ucast_add [where c = "rb_buffer_item_cnt ?b"]
  have wn: "(ucast ?w :: u16) = of_nat k" using w kb by (simp add: word_unat_eq_iff small)
  have j': "unat (rb_peek_cnt ?b') = ?j + k" using w kb nd by (simp add: small)
  have "unat (ucast (ucast (rb_peek ?b) + ?w) :: u16) = ?p + k" using kb w by (simp add: small)
  then have p': "unat (rb_peek ?b') = (?p + k) mod ?d" using kb d by (simp add: unat_rb_wrap_add)
  have "p_vsf_rng_buf_peek_multiple c ?b = (uint (rb_peek ?b), of_nat k, ?b')"
    using rb_peek_not_all [OF ok assms(2,4)]
    unfolding p_vsf_rng_buf_peek_multiple_def wn [symmetric] by (simp only: if_False Let_def)
  then have "rq_peek_multiple c q = (Some (?p, of_nat k), q\<lparr>rq_base := ?b'\<rparr>)"
    using assms(3) by (simp add: rq_peek_multiple_def not_less)
  moreover have "blk_read (rq_buffer q) ?p k = take k (drop ?j (rq_contents q))"
  proof -
    have pm: "?p = (?h + ?j) mod ?d" using P by simp
    have "ring_list ((!) (rq_buffer q)) ?d ?h ?n
        = ring_list ((!) (rq_buffer q)) ?d ?h (?j + k + (?n - (?j + k)))" using kb by simp
    then have "take k (drop ?j (rq_contents q)) = ring_list ((!) (rq_buffer q)) ?d ?p k"
      unfolding rq_contents_def ring_list_append pm by simp
    also have "\<dots> = blk_read (rq_buffer q) ?p k" using kb len by (simp add: ring_list_straight)
    finally show ?thesis by simp
  qed
  moreover have "rb_peek_ok ?b'"
  proof -
    have "unat (rb_peek ?b') = (?h + (?j + k)) mod ?d"
      using p' P by (simp add: mod_add_left_eq add.assoc)
    with j' p' kb d show ?thesis
      unfolding rb_peek_ok_def by (simp add: word_less_nat_alt word_le_nat_alt)
  qed
  ultimately show ?thesis using j' assms(1)
    by (auto simp: rq_ok_def rb_ok_def rq_contents_def)
qed

lemma rq_get_all_peeked_items:
  assumes "rq_ok q" "rb_peek_ok (rq_base q)"
  shows "rq_ok (rq_get_all_peeked q)"
    and "rq_contents (rq_get_all_peeked q) = drop (unat (rb_peek_cnt (rq_base q))) (rq_contents q)"
    and "rb_peek_ok (rq_base (rq_get_all_peeked q))"
proof -
  let ?b = "rq_base q" and ?d = "rq_cap q" and ?h = "unat (rb_head (rq_base q))"
    and ?n = "unat (rb_length (rq_base q))" and ?j = "unat (rb_peek_cnt (rq_base q))"
  have ok: "rb_ok ?b" and len: "length (rq_buffer q) = ?d" using assms(1) by (auto simp: rq_ok_def)
  note O = ok [unfolded rb_ok_def] and P = assms(2) [unfolded rb_peek_ok_def]
  have j: "?j \<le> ?n" using P by (simp add: word_le_nat_alt)
  have n': "unat (rb_length ?b - rb_peek_cnt ?b) = ?n - ?j" using P by (simp add: unat_sub_small)
  have "((?h + ?j) mod ?d + (?n - ?j)) mod ?d = (?h + ?n) mod ?d" using j by (rule ring_mod_skip)
  moreover have "?n - ?j \<le> ?d" by (rule le_trans [OF diff_le_self rq_len_le [OF assms(1)]])
  ultimately show "rq_ok (rq_get_all_peeked q)" using O P n' len
    by (simp add: rq_get_all_peeked_def p_vsf_rng_buf_get_all_peeked_def rq_ok_def rb_ok_def
        word_less_nat_alt word_le_nat_alt)
  have pm: "unat (rb_peek ?b) = (?h + ?j) mod ?d" using P by simp
  have "rq_contents q = ring_list ((!) (rq_buffer q)) ?d ?h (?j + (?n - ?j))"
    using j by (simp add: rq_contents_def)
  then show "rq_contents (rq_get_all_peeked q) = drop ?j (rq_contents q)"
    unfolding ring_list_append
    by (simp add: rq_contents_def rq_get_all_peeked_def p_vsf_rng_buf_get_all_peeked_def n' pm)
  show "rb_peek_ok (rq_base (rq_get_all_peeked q))"
    using P by (simp add: rq_get_all_peeked_def p_vsf_rng_buf_get_all_peeked_def rb_peek_ok_def
        word_less_nat_alt)
qed

text \<open>A queue of four bytes: the items 30, 40, 10 starting at index 2, wrapping.\<close>

definition rq_example :: "u8 rng_queue" where
  "rq_example = \<lparr>rq_base = \<lparr>rb_head = 2, rb_tail = 1, rb_length = 3, rb_peek = 2, rb_peek_cnt = 0,
      rb_buffer_item_cnt = 4\<rparr>, rq_buffer = [10, 20, 30, 40]\<rparr>"

lemma rq_example_ok: "rq_ok rq_example" "rq_contents rq_example = [30, 40, 10]"
  by (simp_all add: rq_ok_def rb_ok_def rq_example_def rq_contents_def ring_list_def upt_rec)

section \<open>Properties\<close>

text \<open>
  C5. The typed ring buffer is a bounded queue: over any sequence of sends and gets of single items,
  what was queued followed by the accepted items is the delivered items followed by what is queued,
  and the 16-bit indices and the count stay consistent.
\<close>

theorem rng_buf_run_fifo:
  assumes "rq_ok q" "rq.run ops q = (ins, outs, q')"
  shows "rq_ok q' \<and> rq_contents q @ ins = outs @ rq_contents q'"
  using rq.run_fifo [OF assms(1) _ assms(2)] by simp

theorem rng_buf_run_fifo_witness:
  "\<exists>ins outs q'. rq.run [None, Some 5, Some 6, None] rq_example = (ins, outs, q')
     \<and> [30, 40, 10] @ ins = outs @ rq_contents q'"
proof -
  obtain ins outs q' where r: "rq.run [None, Some 5, Some 6, None] rq_example = (ins, outs, q')"
    by (metis prod_cases3)
  from rng_buf_run_fifo [OF rq_example_ok(1) r] r show ?thesis by (simp add: rq_example_ok)
qed

text \<open>
  Sending several items: on a queue that is not full exactly the first \<open>k\<close> items are appended,
  \<open>k\<close> being the items given, the cells up to the end of the buffer and the free cells, whichever is
  least, and \<open>k\<close> is the number answered; a full queue answers -1 and is unchanged.
\<close>

theorem rng_buf_send_multiple_spec:
  assumes "rq_ok q" "items \<noteq> []" "length items < 65536"
    and "k = min (min (length items) (rq_cap q - unat (rb_tail (rq_base q))))
               (rq_cap q - unat (rb_length (rq_base q)))"
  shows "\<exists>q'. rq_send_multiple items q =
        ((if unat (rb_length (rq_base q)) < rq_cap q then Some (of_nat k) else None), q')
    \<and> rq_ok q' \<and> rq_contents q' = rq_contents q @ take k items \<and> rq_cap q' = rq_cap q"
proof (cases "unat (rb_length (rq_base q)) < rq_cap q")
  case True
  from rq_send_multiple_room [OF assms(1) True assms(2-4)] True show ?thesis by auto
next
  case False
  then have full: "unat (rb_length (rq_base q)) = rq_cap q" using rq_len_le [OF assms(1)] by simp
  then have "rq_send_multiple items q = (None, q)"
    using rb_full_iff [of "rq_base q"] assms(1,2)
    by (simp add: rq_send_multiple_def p_vsf_rng_buf_send_multiple_def rq_ok_def)
  moreover have "k = 0" using assms(4) full by simp
  ultimately show ?thesis using False assms(1) by simp
qed

theorem rng_buf_send_multiple_spec_witness:
  "\<exists>q'. rq_send_multiple [7, 8, 9] rq_example = (Some 1, q') \<and> rq_contents q' = [30, 40, 10, 7]"
  using rng_buf_send_multiple_spec [OF rq_example_ok(1), of "[7, 8, 9]" 1]
  by (auto simp: rq_example_ok) (auto simp: rq_example_def)

text \<open>
  Peeking and committing is getting: after a reset of the cursor, one peek of several items
  followed by \<open>get_all_peeked\<close> hands out the same items as one get of several items, and leaves the
  same contents.
\<close>

theorem rng_buf_peek_commit_is_get:
  assumes "rq_ok q" "rq_contents q \<noteq> []" "c \<noteq> 0"
  shows "\<exists>i k q1 xs q2. rq_peek_multiple c (rq_reset_peek q) = (Some (i, k), q1)
    \<and> rq_get_multiple c q = (Some xs, q2)
    \<and> blk_read (rq_buffer q1) i (unat k) = xs
    \<and> rq_ok (rq_get_all_peeked q1) \<and> rq_ok q2
    \<and> rq_contents (rq_get_all_peeked q1) = rq_contents q2"
proof -
  let ?r = "rq_reset_peek q"
  have r: "rq_ok ?r" "rq_contents ?r = rq_contents q" "rq_cap ?r = rq_cap q"
    "rb_peek_cnt (rq_base ?r) = 0" "rb_peek (rq_base ?r) = rb_head (rq_base q)"
    "rb_length (rq_base ?r) = rb_length (rq_base q)" "rq_buffer ?r = rq_buffer q"
    using assms(1)
    by (simp_all add: rq_reset_peek_def p_vsf_rng_buf_reset_peek_def rq_ok_def rb_ok_def rq_contents_def)
  have p: "rb_peek_ok (rq_base ?r)"
    using assms(1) by (simp add: rq_reset_peek_def rb_peek_ok_reset rq_ok_def)
  have n: "0 < unat (rb_length (rq_base q))" using assms(2) by (metis length_greater_0_conv length_rq_contents)
  let ?k = "min (unat (rb_length (rq_base q))) (min (unat c) (rq_cap q - unat (rb_head (rq_base q))))"
  obtain q2 where g: "rq_get_multiple c q = (Some (take ?k (rq_contents q)), q2)" "rq_ok q2"
    "rq_contents q2 = drop ?k (rq_contents q)"
    using rq_get_multiple_items [OF assms(1) n assms(3) refl] by blast
  obtain i q1 where h: "rq_peek_multiple c ?r = (Some (i, of_nat ?k), q1)"
    "blk_read (rq_buffer q) i ?k = take ?k (rq_contents q)" "rq_ok q1" "rb_peek_ok (rq_base q1)"
    "rq_contents q1 = rq_contents q" "unat (rb_peek_cnt (rq_base q1)) = ?k"
    using rq_peek_multiple_items [OF r(1) p assms(3) _ refl] r n by auto
  have k: "unat (of_nat ?k :: u16) = ?k" by (rule unat_of_nat_u16 [of _ "rb_length (rq_base q)"]) simp
  have "rq_buffer (snd (rq_peek_multiple c ?r)) = rq_buffer q"
    using r(7) by (simp add: rq_peek_multiple_def Let_def split: prod.split)
  then have b: "rq_buffer q1 = rq_buffer q" by (simp add: h(1))
  show ?thesis
  proof (intro exI conjI)
    show "rq_peek_multiple c ?r = (Some (i, of_nat ?k), q1)" by (rule h(1))
    show "rq_get_multiple c q = (Some (take ?k (rq_contents q)), q2)" by (rule g(1))
    show "blk_read (rq_buffer q1) i (unat (of_nat ?k :: u16)) = take ?k (rq_contents q)"
      unfolding k b by (rule h(2))
    show "rq_contents (rq_get_all_peeked q1) = rq_contents q2"
      unfolding rq_get_all_peeked_items(2) [OF h(3,4)] h(5,6) g(3) ..
  qed (rule g(2) rq_get_all_peeked_items(1) [OF h(3,4)])+
qed

theorem rng_buf_peek_commit_is_get_witness:
  "\<exists>i k q1 xs q2. rq_peek_multiple 9 (rq_reset_peek rq_example) = (Some (i, k), q1)
    \<and> rq_get_multiple 9 rq_example = (Some xs, q2)
    \<and> rq_contents (rq_get_all_peeked q1) = rq_contents q2"
proof -
  have "rq_contents rq_example \<noteq> []" "(9 :: u16) \<noteq> 0" by (simp_all add: rq_example_ok)
  from rng_buf_peek_commit_is_get [OF rq_example_ok(1) this] show ?thesis by blast
qed

text \<open>
  The peek cursor at the end of the buffer: getting the item of the last cell sets the cursor to
  the head before the head wraps, so the cursor points behind the buffer and the next peek answers
  that index.
\<close>

theorem rng_buf_peek_out_of_range:
  assumes "rq_ok q" "rq_contents q \<noteq> []" "unat (rb_head (rq_base q)) + 1 = rq_cap q"
    and "rq_get_one q = (r, q')" "rq_peek_one q' = (p, q'')"
  shows "p = Some (rq_cap q)"
proof -
  let ?b = "rq_base q"
  have ok: "rb_ok ?b" using assms(1) by (simp add: rq_ok_def)
  have "unat (rb_length ?b) \<noteq> 0" using assms(2) by (metis length_0_conv length_rq_contents)
  then have "\<not> (rb_head ?b = rb_tail ?b \<and> rb_length ?b = 0)" using rb_empty_iff [OF ok] by simp
  then have g: "rb_peek (rq_base q') = rb_head ?b + 1" "rb_peek_cnt (rq_base q') = 0"
    using assms(4) unfolding rq_get_one_def p_vsf_rng_buf_get_one_def
    by (auto simp: Let_def split: if_splits)
  have "unat (rb_head ?b + 1) = rq_cap q"
    using assms(3) ok by (simp add: rb_ok_def unat_inc [of _ "rb_buffer_item_cnt ?b"])
  with g assms(5) show ?thesis by (auto simp: rq_peek_one_def p_vsf_rng_buf_peek_one_def)
qed

definition rq_example_last :: "u8 rng_queue" where
  "rq_example_last = \<lparr>rq_base = \<lparr>rb_head = 3, rb_tail = 1, rb_length = 2, rb_peek = 3, rb_peek_cnt = 0,
      rb_buffer_item_cnt = 4\<rparr>, rq_buffer = [10, 20, 30, 40]\<rparr>"

theorem rng_buf_peek_out_of_range_witness:
  "fst (rq_peek_one (snd (rq_get_one rq_example_last))) = Some 4"
proof -
  have q: "rq_ok rq_example_last" "rq_contents rq_example_last \<noteq> []"
    "unat (rb_head (rq_base rq_example_last)) + 1 = rq_cap rq_example_last"
    by (simp_all add: rq_ok_def rb_ok_def rq_example_last_def rq_contents_def ring_list_def upt_rec)
  obtain r q' p q'' where g: "rq_get_one rq_example_last = (r, q')" "rq_peek_one q' = (p, q'')"
    by (metis surj_pair)
  from rng_buf_peek_out_of_range [OF q g] g show ?thesis by (simp add: rq_example_last_def)
qed

text \<open>
  Peeking an empty queue: the peek is not refused but hands out a cell, and committing it makes
  the 16-bit count wrap to 65535.
\<close>

theorem rng_buf_peek_empty_underflow:
  assumes "rq_ok q" "rq_contents q = []"
  shows "\<exists>i q1. rq_peek_one (rq_reset_peek q) = (Some i, q1)
    \<and> rb_length (rq_base (rq_get_all_peeked q1)) = 65535"
proof -
  have "rb_length (rq_base q) = 0" using assms(2) length_rq_contents [of q] by (simp add: unat_eq_zero)
  then show ?thesis
    by (simp add: rq_peek_one_def rq_reset_peek_def p_vsf_rng_buf_reset_peek_def not_less
        p_vsf_rng_buf_peek_one_def rq_get_all_peeked_def p_vsf_rng_buf_get_all_peeked_def)
qed

theorem rng_buf_peek_empty_underflow_witness:
  "\<exists>i q1. rq_peek_one (rq_reset_peek \<lparr>rq_base = p_vsf_rng_buf_init_ex 2 False, rq_buffer = [1, 2 :: u8]\<rparr>)
      = (Some i, q1) \<and> rb_length (rq_base (rq_get_all_peeked q1)) = 65535"
  by (rule rng_buf_peek_empty_underflow)
    (simp_all add: rq_ok_def rb_ok_def p_vsf_rng_buf_init_ex_def rq_contents_def)

end
