(* ===== verification/VSF_Arch.thy ===== *)
theory VSF_Arch
  imports VSF_Prelude
begin

text \<open>
  The bit operations of \<open>src/source/hal/arch/vsf_arch_abstraction.c\<close>. The portable routines of the
  file are modelled (the compilers' builtins that replace some of them are not under \<open>src/\<close>).
  \<open>uintalu_t\<close> is a word of any length, \<open>__optimal_bit_sz\<close> its length, so both branches of the
  32-bit routines, for machines with words of 32 bits and more and for narrower ones, are covered.
\<close>

unbundle bit_operations_syntax

section \<open>Most significant bit\<close>

text \<open>\<open>while (a > 0) { c++; a >>= 1; }\<close>\<close>

function arch_msb_loop :: "'a::len word \<Rightarrow> int \<Rightarrow> int" where
  "arch_msb_loop a c = (if 0 < a then arch_msb_loop (drop_bit 1 a) (c + 1) else c)"
  by pat_completeness auto

lemma unat_drop_bit_1: "unat (drop_bit (Suc 0) a) = unat a div 2"
  for a :: "'a::len word"
proof -
  have "unat (drop_bit (Suc 0) a) = drop_bit (Suc 0) (unat a)" by (rule unat_drop_bit_eq)
  then show ?thesis by (simp add: drop_bit_eq_div)
qed

termination arch_msb_loop
  by (relation "measure (\<lambda>(a, c). unat a)") (auto simp: unat_drop_bit_1 word_less_nat_alt)

declare arch_msb_loop.simps [simp del]

definition p_vsf_arch_msb :: "'a::len word \<Rightarrow> int" where
  "p_vsf_arch_msb a = arch_msb_loop a (- 1)"

text \<open>The words of a 32-bit value on a narrower machine, lowest first.\<close>

definition alu_words :: "u32 \<Rightarrow> 'a::len word list" where
  "alu_words a = map (\<lambda>i. ucast (drop_bit (i * LENGTH('a)) a)) [0..<(32 + LENGTH('a) - 1) div LENGTH('a)]"

fun msb32_words :: "'a::len word list \<Rightarrow> int \<Rightarrow> int" where
  "msb32_words [] index = index"
| "msb32_words (w # ws) index =
     (let temp = p_vsf_arch_msb w; index = index - int LENGTH('a)
      in if 0 \<le> temp then index + temp + 1 else msb32_words ws index)"

definition vsf_msb32 :: "'a::len itself \<Rightarrow> u32 \<Rightarrow> int" where
  "vsf_msb32 _ a =
     (if 32 \<le> LENGTH('a) then p_vsf_arch_msb (ucast a :: 'a word)
      else msb32_words (rev (alu_words a :: 'a word list)) 31)"

subsection \<open>What it computes\<close>

text \<open>\<open>top_bit a c\<close>: \<open>c\<close> is the index of the highest set bit of \<open>a\<close>, -1 for none.\<close>

definition top_bit :: "'a::len word \<Rightarrow> int \<Rightarrow> bool" where
  "top_bit a c \<longleftrightarrow> (if a = 0 then c = - 1 else 0 \<le> c \<and> bit a (nat c) \<and> (\<forall>j. bit a j \<longrightarrow> j \<le> nat c))"

lemma bit_drop_bit_1: "bit (drop_bit (Suc 0) a) j = bit a (Suc j)"
  for a :: "'a::len word"
  by (simp add: bit_drop_bit_eq)

lemma arch_msb_loop_top:
  "a \<noteq> 0 \<Longrightarrow> \<exists>k. arch_msb_loop a c = c + 1 + int k \<and> bit a k \<and> (\<forall>j. bit a j \<longrightarrow> j \<le> k)"
  for a :: "'a::len word"
proof (induction a c rule: arch_msb_loop.induct)
  case (1 a c)
  have pos: "0 < a" using "1.prems" by (simp add: word_neq_0_conv)
  show ?case
  proof (cases "drop_bit (Suc 0) a = 0")
    case True
    then have hi: "\<not> bit a (Suc j)" for j by (metis bit_drop_bit_1 bit_0_eq bot_apply bot_bool_def)
    then have "bit a 0" using "1.prems" by (metis bit_eqI bit_0_eq bot_apply bot_bool_def not0_implies_Suc)
    moreover have "\<forall>j. bit a j \<longrightarrow> j \<le> 0" using hi by (metis le0 not0_implies_Suc order_refl)
    moreover have "arch_msb_loop a c = c + 1"
      using pos True by (simp add: arch_msb_loop.simps [of a] arch_msb_loop.simps [of 0])
    ultimately show ?thesis by force
  next
    case False
    from "1.IH" [OF pos] False obtain k where
      k: "arch_msb_loop (drop_bit 1 a) (c + 1) = c + 1 + 1 + int k" "bit a (Suc k)"
        "\<forall>j. bit a (Suc j) \<longrightarrow> j \<le> k"
      by (auto simp: bit_drop_bit_1)
    have "\<forall>j. bit a j \<longrightarrow> j \<le> Suc k" using k(3) by (metis Suc_le_mono le0 not0_implies_Suc)
    moreover have "arch_msb_loop a c = c + 1 + int (Suc k)"
      using k(1) pos by (simp add: arch_msb_loop.simps [of a])
    ultimately show ?thesis using k(2) by blast
  qed
qed

lemma arch_msb_top: "top_bit a (p_vsf_arch_msb a)"
proof (cases "a = 0")
  case True
  then show ?thesis by (simp add: top_bit_def p_vsf_arch_msb_def arch_msb_loop.simps)
next
  case False
  from arch_msb_loop_top [OF False, of "- 1"] False show ?thesis
    by (auto simp: top_bit_def p_vsf_arch_msb_def)
qed

lemma top_bit_unique:
  assumes "top_bit a c" "top_bit a d"
  shows "c = d"
proof (cases "a = 0")
  case True
  with assms show ?thesis by (simp add: top_bit_def)
next
  case False
  with assms have "nat c \<le> nat d" "nat d \<le> nat c" "0 \<le> c" "0 \<le> d" by (auto simp: top_bit_def)
  then show ?thesis by linarith
qed

text \<open>The highest set bit bounds the value from both sides.\<close>

lemma top_bit_bounds:
  assumes "top_bit a c" "a \<noteq> 0"
  shows "2 ^ nat c \<le> unat a" "unat a < 2 ^ (nat c + 1)"
proof -
  have b: "bit (unat a) (nat c)" "\<forall>j. bit (unat a) j \<longrightarrow> j \<le> nat c"
    using assms by (auto simp: top_bit_def bit_unsigned_iff)
  show "2 ^ nat c \<le> unat a"
  proof (rule ccontr)
    assume "\<not> ?thesis"
    then have "take_bit (nat c) (unat a) = unat a" by (simp add: take_bit_nat_eq_self)
    with b(1) show False by (metis bit_take_bit_iff less_irrefl)
  qed
  have "take_bit (nat c + 1) (unat a) = unat a"
    using b(2) by (intro bit_eqI) (auto simp: bit_take_bit_iff)
  then show "unat a < 2 ^ (nat c + 1)" by (metis take_bit_nat_less_exp)
qed

text \<open>A list of words, lowest first, read as bits.\<close>

definition words_bit :: "'a::len word list \<Rightarrow> nat \<Rightarrow> bool" where
  "words_bit ws n \<longleftrightarrow> n div LENGTH('a) < length ws \<and> bit (ws ! (n div LENGTH('a))) (n mod LENGTH('a))"

lemma words_bit_snoc:
  "words_bit (ws @ [w]) n \<longleftrightarrow> words_bit ws n
     \<or> n div LENGTH('a) = length ws \<and> bit w (n mod LENGTH('a))"
  for w :: "'a::len word"
  by (auto simp: words_bit_def nth_append)

lemma msb32_words_top:
  fixes ws :: "'a::len word list"
  shows "let r = msb32_words (rev ws) (int (length ws * LENGTH('a)) - 1)
     in (if \<exists>n. words_bit ws n then 0 \<le> r \<and> words_bit ws (nat r) \<and> (\<forall>n. words_bit ws n \<longrightarrow> n \<le> nat r)
         else r = - 1)"
proof (induction ws rule: rev_induct)
  case Nil
  then show ?case by (simp add: words_bit_def)
next
  case (snoc w ws)
  let ?L = "LENGTH('a)" and ?t = "p_vsf_arch_msb w"
  let ?r = "msb32_words (rev (ws @ [w])) (int (length (ws @ [w]) * ?L) - 1)"
  have L: "0 < ?L" by simp
  have top: "top_bit w ?t" by (rule arch_msb_top)
  show ?case
  proof (cases "w = 0")
    case True
    then have "?t = - 1" using top by (simp add: top_bit_def)
    then have "?r = msb32_words (rev ws) (int (length ws * ?L) - 1)" by (simp add: algebra_simps)
    moreover have "words_bit (ws @ [w]) n = words_bit ws n" for n using True by (simp add: words_bit_snoc)
    ultimately show ?thesis using snoc.IH by presburger
  next
    case False
    with top have t: "0 \<le> ?t" "bit w (nat ?t)" "\<forall>j. bit w j \<longrightarrow> j \<le> nat ?t"
      by (auto simp: top_bit_def)
    then have lt: "nat ?t < ?L" using bit_imp_le_length by blast
    have r: "?r = int (length ws * ?L + nat ?t)" using t(1) by (simp add: algebra_simps)
    have dm: "(length ws * ?L + nat ?t) div ?L = length ws" "(length ws * ?L + nat ?t) mod ?L = nat ?t"
      using lt by simp_all
    have "n \<le> length ws * ?L + nat ?t" if "words_bit (ws @ [w]) n" for n
    proof (cases "n div ?L = length ws")
      case True
      with that have "bit w (n mod ?L)" by (simp add: words_bit_def)
      with t(3) have "n mod ?L \<le> nat ?t" by blast
      then show ?thesis using True div_mult_mod_eq [of n ?L] by simp
    next
      case False
      with that have "n div ?L < length ws" by (simp add: words_bit_def less_Suc_eq)
      then have "n < length ws * ?L" by (simp add: div_less_iff_less_mult)
      then show ?thesis by simp
    qed
    moreover have "words_bit (ws @ [w]) (length ws * ?L + nat ?t)"
      unfolding words_bit_snoc dm using t(2) by simp
    ultimately show ?thesis unfolding r Let_def nat_int by auto
  qed
qed

lemma length_alu_words:
  assumes "LENGTH('a::len) dvd 32"
  shows "length (alu_words a :: 'a word list) = 32 div LENGTH('a)"
proof -
  let ?L = "LENGTH('a)"
  obtain m where m: "32 = ?L * m" using assms by (rule dvdE)
  have L: "0 < ?L" by simp
  have "(32 + ?L - 1) div ?L = m"
  proof (rule div_nat_eqI)
    show "?L * m \<le> 32 + ?L - 1" using m L by linarith
    show "32 + ?L - 1 < ?L * Suc m" using m L unfolding mult_Suc_right by linarith
  qed
  moreover have "32 div ?L = m" using m L by (metis nonzero_mult_div_cancel_left less_numeral_extra(3))
  ultimately show ?thesis by (simp add: alu_words_def)
qed

lemma words_bit_alu_words:
  assumes "LENGTH('a::len) dvd 32"
  shows "words_bit (alu_words a :: 'a word list) n = bit (a :: u32) n"
proof -
  let ?L = "LENGTH('a)"
  define m where "m = 32 div ?L"
  have m: "32 = ?L * m" using assms by (simp add: m_def)
  have L: "0 < ?L" by simp
  have len: "length (alu_words a :: 'a word list) = m" using length_alu_words [OF assms] by (simp add: m_def)
  then have len': "(32 + ?L - 1) div ?L = m" by (simp add: alu_words_def)
  show ?thesis
  proof (cases "n div ?L < m")
    case True
    have "bit (alu_words a ! (n div ?L) :: 'a word) (n mod ?L) = bit a (n div ?L * ?L + n mod ?L)"
      using True len' by (simp add: alu_words_def bit_ucast_iff bit_drop_bit_eq)
    with True len show ?thesis by (simp add: words_bit_def)
  next
    case False
    then have "32 \<le> n" using m L by (metis div_less_iff_less_mult mult.commute not_less)
    then have "\<not> bit a n" using bit_imp_le_length [of a n] by auto
    with False len show ?thesis by (simp add: words_bit_def)
  qed
qed

lemma vsf_msb32_top:
  assumes "32 \<le> LENGTH('a::len) \<or> LENGTH('a) dvd 32"
  shows "top_bit a (vsf_msb32 TYPE('a) a)"
proof (cases "32 \<le> LENGTH('a)")
  case True
  have b: "bit (ucast a :: 'a word) j = bit a j" for j
    using True bit_imp_le_length [of a j] by (auto simp: bit_ucast_iff)
  then have "(ucast a :: 'a word) = 0 \<longleftrightarrow> a = 0"
    by (metis bit_0_eq bit_eqI bot_apply bot_bool_def)
  then have "top_bit (ucast a :: 'a word) c = top_bit a c" for c unfolding top_bit_def b by simp
  with arch_msb_top [of "ucast a :: 'a word"] True show ?thesis by (simp add: vsf_msb32_def)
next
  case False
  with assms have d: "LENGTH('a) dvd 32" by simp
  let ?ws = "alu_words a :: 'a word list"
  have "length ?ws * LENGTH('a) = 32"
    using d by (simp add: length_alu_words)
  then have r: "vsf_msb32 TYPE('a) a = msb32_words (rev ?ws) (int (length ?ws * LENGTH('a)) - 1)"
    using False by (simp add: vsf_msb32_def)
  have "a = 0 \<longleftrightarrow> \<not> (\<exists>n. bit a n)" by (metis bit_0_eq bit_eqI bot_apply bot_bool_def)
  with msb32_words_top [of ?ws, folded r, unfolded Let_def words_bit_alu_words [OF d]] show ?thesis
    by (auto simp: top_bit_def split: if_splits)
qed

section \<open>Leading zeros and lowest bits\<close>

text \<open>
  \<open>do { if (a & bitmask) break; a <<= 1; } while (--num);\<close> with \<open>num\<close> starting at the word length:
  the value of \<open>num\<close> when the loop ends.
\<close>

fun arch_clz_loop :: "nat \<Rightarrow> 'a::len word \<Rightarrow> nat" where
  "arch_clz_loop 0 a = 0"
| "arch_clz_loop (Suc num) a =
     (if a AND push_bit (LENGTH('a) - 1) 1 \<noteq> 0 then Suc num else arch_clz_loop num (push_bit 1 a))"

definition p_vsf_arch_clz :: "'a::len word \<Rightarrow> nat" where
  "p_vsf_arch_clz a = LENGTH('a) - arch_clz_loop LENGTH('a) a"

fun clz32_words :: "'a::len word list \<Rightarrow> nat \<Rightarrow> nat" where
  "clz32_words [] num = num"
| "clz32_words (w # ws) num =
     (let temp = p_vsf_arch_clz w
      in if temp < LENGTH('a) then num + temp else clz32_words ws (num + LENGTH('a)))"

text \<open>The assertion of the wide branch is the case \<open>None\<close>.\<close>

definition vsf_clz32 :: "'a::len itself \<Rightarrow> u32 \<Rightarrow> nat option" where
  "vsf_clz32 _ a =
     (if 32 \<le> LENGTH('a)
      then let num = p_vsf_arch_clz (ucast a :: 'a word)
           in if LENGTH('a) - 32 \<le> num then Some (num - (LENGTH('a) - 32)) else None
      else Some (clz32_words (rev (alu_words a :: 'a word list)) 0))"

definition p_vsf_arch_ffs :: "'a::len word \<Rightarrow> int" where
  "p_vsf_arch_ffs a = p_vsf_arch_msb (a AND (- a))"

definition p_vsf_arch_ffz :: "'a::len word \<Rightarrow> int" where
  "p_vsf_arch_ffz a = p_vsf_arch_ffs (NOT a)"

fun ffs32_words :: "'a::len word list \<Rightarrow> int \<Rightarrow> int" where
  "ffs32_words [] index = - 1"
| "ffs32_words (w # ws) index =
     (let temp = p_vsf_arch_ffs w
      in if 0 \<le> temp then index + temp else ffs32_words ws (index + int LENGTH('a)))"

definition vsf_ffs32 :: "'a::len itself \<Rightarrow> u32 \<Rightarrow> int" where
  "vsf_ffs32 _ a =
     (if 32 \<le> LENGTH('a) then p_vsf_arch_ffs (ucast a :: 'a word)
      else ffs32_words (alu_words a :: 'a word list) 0)"

definition vsf_ffz32 :: "'a::len itself \<Rightarrow> u32 \<Rightarrow> int" where
  "vsf_ffz32 t a = vsf_ffs32 t (NOT a)"

section \<open>Byte order\<close>

definition bswap_16 :: "u32 \<Rightarrow> u32" where
  "bswap_16 v = push_bit 8 (v AND 0xFF) OR drop_bit 8 (v AND 0xFF00)"

definition bswap_32 :: "u32 \<Rightarrow> u32" where
  "bswap_32 v = push_bit 16 (bswap_16 v) OR bswap_16 (drop_bit 16 v)"

definition bswap_64 :: "u64 \<Rightarrow> u64" where
  "bswap_64 v = push_bit 32 (ucast (bswap_32 (ucast v))) OR ucast (bswap_32 (ucast (drop_bit 32 v)))"

subsection \<open>What they compute\<close>

text \<open>The lowest set bit survives alone in \<open>a & -a\<close>.\<close>

lemma odd_and_minus: "odd b \<Longrightarrow> b AND - b = 1"
  for b :: "'a::len word"
proof -
  assume b: "odd b"
  then have "even (NOT b)" by (simp add: even_not_iff)
  then have "NOT b + 1 = NOT b OR 1" by (simp add: or_one_eq)
  then have "- b = NOT b OR 1" by (simp add: minus_eq_not_plus_1)
  then have "b AND - b = b AND 1" by (auto simp: bit_eq_iff bit_simps)
  also have "\<dots> = 1" using b by (simp add: and_one_eq mod_2_eq_odd)
  finally show ?thesis .
qed

lemma and_minus_lowest:
  fixes a :: "'a::len word"
  assumes "bit a k" "\<forall>j<k. \<not> bit a j"
  shows "a AND - a = push_bit k 1"
proof -
  define b where "b = drop_bit k a"
  have a: "a = push_bit k b"
  proof (rule bit_eqI)
    fix n assume "possible_bit TYPE('a word) n"
    with assms(2) show "bit a n = bit (push_bit k b) n"
      by (cases "n < k") (auto simp: b_def bit_push_bit_iff bit_drop_bit_eq not_less)
  qed
  have "odd b" using assms(1) by (simp add: b_def bit_iff_odd_drop_bit)
  then have "push_bit k (b AND - b) = push_bit k 1" by (simp add: odd_and_minus)
  then show ?thesis unfolding a by (simp add: push_bit_and push_bit_minus)
qed

definition low_bit :: "'a::len word \<Rightarrow> int \<Rightarrow> bool" where
  "low_bit a c \<longleftrightarrow> (if a = 0 then c = - 1 else 0 \<le> c \<and> bit a (nat c) \<and> (\<forall>j. bit a j \<longrightarrow> nat c \<le> j))"

lemma word_has_bit: "a \<noteq> 0 \<longleftrightarrow> (\<exists>n. bit a n)"
  for a :: "'a::len word"
  by (metis bit_0_eq bit_eqI bot_apply bot_bool_def)

lemma lowest_set: "a \<noteq> 0 \<Longrightarrow> \<exists>k. bit a k \<and> (\<forall>j<k. \<not> bit a j)"
  for a :: "'a::len word"
  using exists_least_iff [of "bit a"] by (simp add: word_has_bit)

lemma arch_ffs_low: "low_bit a (p_vsf_arch_ffs a)"
proof (cases "a = 0")
  case True
  then show ?thesis using arch_msb_top [of "0 :: 'a word"] by (simp add: low_bit_def p_vsf_arch_ffs_def top_bit_def)
next
  case False
  from lowest_set [OF this] obtain k where k: "bit a k" "\<forall>j<k. \<not> bit a j" by blast
  then have "k < LENGTH('a)" using bit_imp_le_length by blast
  then have "top_bit (push_bit k 1 :: 'a word) (int k)"
    by (auto simp: top_bit_def bit_simps word_has_bit)
  moreover have "top_bit (push_bit k 1 :: 'a word) (p_vsf_arch_ffs a)"
    using arch_msb_top [of "a AND - a"] and_minus_lowest [OF k] by (simp add: p_vsf_arch_ffs_def)
  ultimately have "p_vsf_arch_ffs a = int k" using top_bit_unique by blast
  with k False show ?thesis by (auto simp: low_bit_def not_less [symmetric])
qed

lemma ffs32_words_low:
  fixes ws :: "'a::len word list"
  shows "let r = ffs32_words ws i
     in (if \<exists>n. words_bit ws n
         then \<exists>k. r = i + int k \<and> words_bit ws k \<and> (\<forall>n. words_bit ws n \<longrightarrow> k \<le> n) else r = - 1)"
proof (induction ws arbitrary: i)
  case Nil
  then show ?case by (simp add: words_bit_def)
next
  case (Cons w ws)
  let ?L = "LENGTH('a)" and ?t = "p_vsf_arch_ffs w"
  have low: "low_bit w ?t" by (rule arch_ffs_low)
  have wb: "words_bit (w # ws) n \<longleftrightarrow> (if n < ?L then bit w n else words_bit ws (n - ?L))" for n
  proof (cases "n < ?L")
    case False
    then obtain m where "n = ?L + m" by (metis le_Suc_ex not_less)
    moreover have "(?L + m) div ?L = Suc (m div ?L)" using div_add_self1 [of ?L m] by simp
    ultimately show ?thesis by (simp add: words_bit_def)
  qed (simp add: words_bit_def)
  show ?case
  proof (cases "w = 0")
    case True
    then have r: "ffs32_words (w # ws) i = ffs32_words ws (i + int ?L)"
      using low by (simp add: low_bit_def)
    have wb': "words_bit (w # ws) n \<longleftrightarrow> ?L \<le> n \<and> words_bit ws (n - ?L)" for n
      unfolding wb by (simp add: True not_less)
    then have ex: "(\<exists>n. words_bit (w # ws) n) \<longleftrightarrow> (\<exists>n. words_bit ws n)"
      by (metis add_diff_cancel_left' le_add1)
    show ?thesis
    proof (cases "\<exists>n. words_bit ws n")
      case True
      with Cons.IH [of "i + int ?L"] obtain k where k: "ffs32_words ws (i + int ?L) = i + int ?L + int k"
        "words_bit ws k" "\<forall>n. words_bit ws n \<longrightarrow> k \<le> n" by (auto simp: Let_def)
      then have "words_bit (w # ws) (?L + k)" "\<forall>n. words_bit (w # ws) n \<longrightarrow> ?L + k \<le> n"
        by (auto simp: wb')
      with k(1) r have "\<exists>k. ffs32_words (w # ws) i = i + int k \<and> words_bit (w # ws) k
          \<and> (\<forall>n. words_bit (w # ws) n \<longrightarrow> k \<le> n)" by (intro exI [of _ "?L + k"]) simp
      with ex True show ?thesis unfolding Let_def by simp
    next
      case False
      with Cons.IH [of "i + int ?L"] r ex show ?thesis by (simp add: Let_def)
    qed
  next
    case False
    with low have t: "0 \<le> ?t" "bit w (nat ?t)" "\<forall>j. bit w j \<longrightarrow> nat ?t \<le> j" by (auto simp: low_bit_def)
    then have lt: "nat ?t < ?L" using bit_imp_le_length by blast
    have "ffs32_words (w # ws) i = i + int (nat ?t)" using t(1) by simp
    moreover have "words_bit (w # ws) (nat ?t)" "\<forall>n. words_bit (w # ws) n \<longrightarrow> nat ?t \<le> n"
      using t lt by (auto simp: wb)
    ultimately have "\<exists>k. ffs32_words (w # ws) i = i + int k \<and> words_bit (w # ws) k
          \<and> (\<forall>n. words_bit (w # ws) n \<longrightarrow> k \<le> n)" by blast
    with \<open>words_bit (w # ws) (nat ?t)\<close> show ?thesis unfolding Let_def by auto
  qed
qed

lemma vsf_ffs32_low:
  assumes "32 \<le> LENGTH('a::len) \<or> LENGTH('a) dvd 32"
  shows "low_bit a (vsf_ffs32 TYPE('a) a)"
proof (cases "32 \<le> LENGTH('a)")
  case True
  have b: "bit (ucast a :: 'a word) j = bit a j" for j
    using True bit_imp_le_length [of a j] by (auto simp: bit_ucast_iff)
  then have "(ucast a :: 'a word) = 0 \<longleftrightarrow> a = 0"
    by (metis bit_0_eq bit_eqI bot_apply bot_bool_def)
  then have "low_bit (ucast a :: 'a word) c = low_bit a c" for c unfolding low_bit_def b by simp
  with arch_ffs_low [of "ucast a :: 'a word"] True show ?thesis by (simp add: vsf_ffs32_def)
next
  case False
  with assms have d: "LENGTH('a) dvd 32" by simp
  from False have r: "vsf_ffs32 TYPE('a) a = ffs32_words (alu_words a :: 'a word list) 0"
    by (simp add: vsf_ffs32_def)
  show ?thesis
    using ffs32_words_low [of "alu_words a :: 'a word list" 0, folded r, unfolded Let_def words_bit_alu_words [OF d]]
      word_has_bit [of a]
    by (auto simp: low_bit_def split: if_splits)
qed

text \<open>The loop of \<open>__vsf_arch_clz\<close>, for a word whose highest set bit is \<open>k\<close>.\<close>

lemma top_mask: "(a AND push_bit (LENGTH('a) - 1) 1 \<noteq> 0) = bit a (LENGTH('a) - 1)"
  for a :: "'a::len word"
  by (auto simp: word_has_bit bit_simps)

lemma arch_clz_loop_0: "arch_clz_loop num 0 = 0"
  by (induction num) simp_all

lemma arch_clz_loop_top:
  fixes a :: "'a::len word"
  assumes "bit a k" "\<forall>j. bit a j \<longrightarrow> j \<le> k" "LENGTH('a) - 1 - k < num"
  shows "arch_clz_loop num a = num - (LENGTH('a) - 1 - k)"
  using assms
proof (induction num arbitrary: a k)
  case (Suc num)
  have k: "k < LENGTH('a)" using Suc.prems(1) bit_imp_le_length by blast
  show ?case
  proof (cases "k = LENGTH('a) - 1")
    case True
    then have "bit a (LENGTH('a) - 1)" using Suc.prems(1) by simp
    then show ?thesis unfolding arch_clz_loop.simps top_mask using True by simp
  next
    case False
    then have nb: "\<not> bit a (LENGTH('a) - 1)" using Suc.prems(2) k by fastforce
    have "bit (push_bit 1 a) (Suc k)" using Suc.prems(1) k False by (simp only: bit_push_bit_iff) simp
    moreover have "\<forall>j. bit (push_bit 1 a) j \<longrightarrow> j \<le> Suc k"
      using Suc.prems(2) by (simp only: bit_push_bit_iff) force
    moreover have "LENGTH('a) - 1 - Suc k < num" using Suc.prems(3) k False by linarith
    ultimately have "arch_clz_loop num (push_bit 1 a) = num - (LENGTH('a) - 1 - Suc k)"
      by (rule Suc.IH)
    moreover have "num - (LENGTH('a) - 1 - Suc k) = Suc num - (LENGTH('a) - 1 - k)"
      using k False Suc.prems(3) by linarith
    ultimately show ?thesis unfolding arch_clz_loop.simps top_mask using nb by simp
  qed
qed simp

lemma arch_clz_msb: "int (p_vsf_arch_clz a) = int LENGTH('a) - 1 - p_vsf_arch_msb a"
  for a :: "'a::len word"
proof (cases "a = 0")
  case True
  then show ?thesis using arch_msb_top [of a] by (simp add: p_vsf_arch_clz_def arch_clz_loop_0 top_bit_def)
next
  case False
  let ?k = "nat (p_vsf_arch_msb a)"
  have t: "0 \<le> p_vsf_arch_msb a" "bit a ?k" "\<forall>j. bit a j \<longrightarrow> j \<le> ?k"
    using arch_msb_top [of a] False by (auto simp: top_bit_def)
  then have k: "?k < LENGTH('a)" using bit_imp_le_length by blast
  have "arch_clz_loop LENGTH('a) a = LENGTH('a) - (LENGTH('a) - 1 - ?k)"
    by (rule arch_clz_loop_top) (use t k in auto)
  with t(1) k show ?thesis by (simp add: p_vsf_arch_clz_def)
qed

lemma clz32_words_msb:
  fixes ws :: "'a::len word list"
  shows "int (clz32_words ws num) = int num + int (length ws * LENGTH('a)) - 1
     - msb32_words ws (int (length ws * LENGTH('a)) - 1)"
proof (induction ws arbitrary: num)
  case (Cons w ws)
  have m: "- 1 \<le> p_vsf_arch_msb w" using arch_msb_top [of w] by (auto simp: top_bit_def split: if_splits)
  show ?case
  proof (cases "0 \<le> p_vsf_arch_msb w")
    case True
    with arch_clz_msb [of w] show ?thesis by (simp add: Let_def algebra_simps)
  next
    case False
    with m have "p_vsf_arch_msb w = - 1" by simp
    with arch_clz_msb [of w] Cons.IH [of "num + LENGTH('a)"] show ?thesis
      by (simp add: Let_def algebra_simps)
  qed
qed simp

lemma vsf_clz32_msb:
  assumes "32 \<le> LENGTH('a::len) \<or> LENGTH('a) dvd 32"
  shows "\<exists>n. vsf_clz32 TYPE('a) a = Some n \<and> int n = 31 - vsf_msb32 TYPE('a) a"
proof (cases "32 \<le> LENGTH('a)")
  case True
  have "vsf_msb32 TYPE('a) a < 32"
    using vsf_msb32_top [OF assms, of a] bit_imp_le_length [of a "nat (vsf_msb32 TYPE('a) a)"]
    by (auto simp: top_bit_def split: if_splits)
  moreover have "int (p_vsf_arch_clz (ucast a :: 'a word)) = int LENGTH('a) - 1 - vsf_msb32 TYPE('a) a"
    using True by (simp add: vsf_msb32_def arch_clz_msb)
  ultimately show ?thesis using True by (auto simp: vsf_clz32_def Let_def)
next
  case False
  with assms have d: "LENGTH('a) dvd 32" by simp
  have l: "length (rev (alu_words a :: 'a word list)) * LENGTH('a) = 32"
    using d by (simp add: length_alu_words)
  from clz32_words_msb [of "rev (alu_words a :: 'a word list)" 0, unfolded l] False show ?thesis
    by (simp add: vsf_clz32_def vsf_msb32_def)
qed

section \<open>Properties\<close>

text \<open>
  The bit searches agree with their meaning on machines with words of 8, 16, 32 or more bits:
  \<open>vsf_msb32\<close> is the index of the highest and \<open>vsf_ffs32\<close> of the lowest set bit (-1 for 0),
  \<open>vsf_clz32\<close> counts the zeros above the highest one, and \<open>vsf_ffz32\<close> finds the lowest clear bit.
\<close>

theorem bit_search_correct:
  assumes "32 \<le> LENGTH('a::len) \<or> LENGTH('a) dvd 32"
  shows "top_bit a (vsf_msb32 TYPE('a) a) \<and> low_bit a (vsf_ffs32 TYPE('a) a)
    \<and> low_bit (NOT a) (vsf_ffz32 TYPE('a) a)
    \<and> (\<exists>n. vsf_clz32 TYPE('a) a = Some n \<and> int n = 31 - vsf_msb32 TYPE('a) a)"
  using vsf_msb32_top [OF assms] vsf_ffs32_low [OF assms] vsf_clz32_msb [OF assms]
  by (simp add: vsf_ffz32_def)

theorem bit_search_correct_witness:
  "top_bit (0x1200 :: u32) (vsf_msb32 TYPE(16) 0x1200) \<and> low_bit (0x1200 :: u32) (vsf_ffs32 TYPE(8) 0x1200)"
  using bit_search_correct [where ?'a = 16, of "0x1200"] bit_search_correct [where ?'a = 8, of "0x1200"]
  by simp

lemma bit_bswap_16:
  "bit (bswap_16 v) n \<longleftrightarrow> (if n < 8 then bit v (n + 8) else n < 16 \<and> bit v (n - 8))"
proof -
  have e: "(0xFF :: u32) = mask 8" "(0xFF00 :: u32) = push_bit 8 (mask 8)"
    by (simp_all add: mask_eq_exp_minus_1 push_bit_eq_mult)
  show ?thesis unfolding bswap_16_def e by (auto simp: bit_simps ac_simps)
qed

definition swap_index :: "nat \<Rightarrow> nat" where
  "swap_index n = (if n < 8 then n + 24 else if n < 16 then n + 8 else if n < 24 then n - 8 else n - 24)"

lemma bit_bswap_32: "n < 32 \<Longrightarrow> bit (bswap_32 v) n \<longleftrightarrow> bit v (swap_index n)"
  by (auto simp: bswap_32_def bit_or_iff bit_push_bit_iff bit_bswap_16 bit_drop_bit_eq swap_index_def
      ac_simps)

lemma bit_bswap_64:
  "n < 64 \<Longrightarrow> bit (bswap_64 v) n \<longleftrightarrow> bit v (if n < 32 then 32 + swap_index n else swap_index (n - 32))"
  by (auto simp: bswap_64_def bit_or_iff bit_push_bit_iff bit_ucast_iff bit_bswap_32 bit_drop_bit_eq
      swap_index_def split: if_splits dest: bit_imp_le_length)

lemma swap_index_props: "n < 32 \<Longrightarrow> swap_index n < 32 \<and> swap_index (swap_index n) = n"
  by (auto simp: swap_index_def)

text \<open>
  Byte swapping reverses the order of the bytes (bit \<open>n\<close> of the result is the bit of the byte at
  the other end), so swapping twice gives the value back: the conversions between the byte order of
  the CPU and the opposite one are their own inverse.
\<close>

theorem bswap_involution:
  "drop_bit 24 (bswap_32 v) = take_bit 8 v
    \<and> take_bit 8 (drop_bit 16 (bswap_32 v)) = take_bit 8 (drop_bit 8 v)
    \<and> take_bit 8 (drop_bit 8 (bswap_32 v)) = take_bit 8 (drop_bit 16 v)
    \<and> take_bit 8 (bswap_32 v) = drop_bit 24 v
    \<and> bswap_32 (bswap_32 v) = v \<and> bswap_64 (bswap_64 w) = w"
proof (intro conjI)
  have b: "bit (bswap_32 v) n \<longleftrightarrow> n < 32 \<and> bit v (swap_index n)" for n
    using bit_imp_le_length [of "bswap_32 v" n] bit_bswap_32 [of n v] by auto
  have v: "bit v n \<Longrightarrow> n < 32" for n using bit_imp_le_length [of v n] by simp
  show "drop_bit 24 (bswap_32 v) = take_bit 8 v" "take_bit 8 (bswap_32 v) = drop_bit 24 v"
    by (rule bit_eqI; auto simp: bit_drop_bit_eq bit_take_bit_iff b swap_index_def ac_simps dest: v)+
  show "take_bit 8 (drop_bit 16 (bswap_32 v)) = take_bit 8 (drop_bit 8 v)"
    "take_bit 8 (drop_bit 8 (bswap_32 v)) = take_bit 8 (drop_bit 16 v)"
    by (rule bit_eqI; auto simp: bit_drop_bit_eq bit_take_bit_iff b swap_index_def)+
next
  show "bswap_32 (bswap_32 v) = v"
    by (rule bit_eqI) (simp add: bit_bswap_32 swap_index_props)
  show "bswap_64 (bswap_64 w) = w"
  proof (rule bit_eqI)
    fix n assume "possible_bit TYPE(u64) n"
    then have n: "n < 64" by simp
    show "bit (bswap_64 (bswap_64 w)) n = bit w n"
    proof (cases "n < 32")
      case True
      with swap_index_props [of n] n show ?thesis by (simp add: bit_bswap_64)
    next
      case False
      then have "n - 32 < 32" using n by simp
      from swap_index_props [OF this] n False show ?thesis by (simp add: bit_bswap_64)
    qed
  qed
qed

end
