(* ===== verification/VSF_Heap.thy ===== *)
theory VSF_Heap
  imports VSF_List VSF_Arch
begin

text \<open>
  The allocator of \<open>src/source/service/heap/vsf_heap.c\<close> in its default configuration (blocks aligned
  to 4 bytes, 16-bit block offsets, no magic words, no leak tracing, statistics on). A block starts
  with its memory control block, 12 bytes: the offsets to the next and from the previous block in
  units of 4 bytes, and the node that links it in a free list while it is free. Addresses and sizes
  inside the allocator are natural numbers; the sizes that a caller passes are 32-bit words, as the
  rounding of the size can wrap. The free lists are the doubly linked lists of \<open>VSF_List\<close>, on the
  links of the blocks themselves.
\<close>

section \<open>State\<close>

text \<open>
  The header fields of every block are kept apart from the bytes of the memory: \<open>hp_lnext\<close> and
  \<open>hp_lprev\<close> are \<open>linear.next\<close> and \<open>linear.prev\<close>, \<open>hp_links\<close> the \<open>node\<close> members.
\<close>

record vsf_heap_t =
  hp_links :: dlinks
  hp_freelist :: "vsf_dlist_t list"
  hp_lnext :: "ptr \<Rightarrow> nat"
  hp_lprev :: "ptr \<Rightarrow> nat"
  hp_bytes :: "ptr \<Rightarrow> u8"
  hp_used_size :: u32
  hp_max_used_size :: u32
  hp_all_size :: u32

abbreviation (input) mcb_bytes :: nat where "mcb_bytes \<equiv> 12"

text \<open>A value stored in an offset field, \<open>uint16_t\<close>.\<close>

definition off16 :: "nat \<Rightarrow> nat" where
  "off16 v = v mod 65536"

definition set_lnext :: "ptr \<Rightarrow> nat \<Rightarrow> vsf_heap_t \<Rightarrow> vsf_heap_t" where
  "set_lnext a v h = h\<lparr>hp_lnext := (hp_lnext h)(a := off16 v)\<rparr>"

definition set_lprev :: "ptr \<Rightarrow> nat \<Rightarrow> vsf_heap_t \<Rightarrow> vsf_heap_t" where
  "set_lprev a v h = h\<lparr>hp_lprev := (hp_lprev h)(a := off16 v)\<rparr>"

section \<open>Blocks\<close>

definition p_vsf_heap_mcb_init :: "ptr \<Rightarrow> vsf_heap_t \<Rightarrow> vsf_heap_t" where
  "p_vsf_heap_mcb_init mcb h =
     h\<lparr>hp_links := set_prev mcb null (set_next mcb null (hp_links h)),
       hp_lnext := (hp_lnext h)(mcb := 0), hp_lprev := (hp_lprev h)(mcb := 0),
       hp_bytes := (\<lambda>i. if mcb \<le> i \<and> i < mcb + mcb_bytes then 0 else hp_bytes h i)\<rparr>"

definition p_vsf_heap_calc_unaligned_size :: "nat \<Rightarrow> nat \<Rightarrow> nat" where
  "p_vsf_heap_calc_unaligned_size buffer alignment =
     (let unaligned_size = buffer AND (alignment - 1)
      in if unaligned_size \<noteq> 0 then alignment - unaligned_size else unaligned_size)"

definition mcb_get_size :: "vsf_heap_t \<Rightarrow> ptr \<Rightarrow> nat" where
  "mcb_get_size h mcb = hp_lnext h mcb * 4"

definition p_vsf_heap_mcb_set_next :: "ptr \<Rightarrow> ptr \<Rightarrow> vsf_heap_t \<Rightarrow> vsf_heap_t" where
  "p_vsf_heap_mcb_set_next mcb mcb_next h =
     (let margin_size = (mcb_next - mcb) div 4
      in set_lnext mcb margin_size (set_lprev mcb_next margin_size h))"

definition p_vsf_heap_mcb_get_next :: "vsf_heap_t \<Rightarrow> ptr \<Rightarrow> ptr" where
  "p_vsf_heap_mcb_get_next h mcb = mcb + mcb_get_size h mcb"

definition p_vsf_heap_mcb_get_prev :: "vsf_heap_t \<Rightarrow> ptr \<Rightarrow> ptr" where
  "p_vsf_heap_mcb_get_prev h mcb = mcb - hp_lprev h mcb * 4"

text \<open>The index of the free list for a size.\<close>

definition vsf_heap_get_freelist :: "nat \<Rightarrow> u32 \<Rightarrow> bool \<Rightarrow> nat" where
  "vsf_heap_get_freelist freelist_num sz is_alloc =
     (let sz = (if is_alloc
                then let freelist_size = push_bit (nat (vsf_msb32 TYPE(32) sz)) 1
                     in if freelist_size < sz then push_bit 1 freelist_size else sz
                else sz);
          msb = vsf_msb32 TYPE(32) sz
      in if msb < 5 then 0
         else let msb = nat (msb - 4) in if freelist_num \<le> msb then freelist_num - 1 else msb)"

definition mcb_freelist :: "vsf_heap_t \<Rightarrow> ptr \<Rightarrow> nat" where
  "mcb_freelist h mcb =
     vsf_heap_get_freelist (length (hp_freelist h)) (of_nat (mcb_get_size h mcb)) False"

definition p_vsf_heap_mcb_is_allocated :: "vsf_heap_t \<Rightarrow> ptr \<Rightarrow> bool" where
  "p_vsf_heap_mcb_is_allocated h mcb =
     (\<not> p_vsf_dlist_is_in_imp mcb (hp_links h, hp_freelist h ! mcb_freelist h mcb))"

definition set_freelist :: "nat \<Rightarrow> dstate \<Rightarrow> vsf_heap_t \<Rightarrow> vsf_heap_t" where
  "set_freelist b = (\<lambda>(m, l) h. h\<lparr>hp_links := m, hp_freelist := (hp_freelist h)[b := l]\<rparr>)"

definition p_vsf_heap_mcb_remove_from_freelist :: "ptr \<Rightarrow> vsf_heap_t \<Rightarrow> vsf_heap_t" where
  "p_vsf_heap_mcb_remove_from_freelist mcb h =
     (let b = mcb_freelist h mcb
      in set_freelist b (p_vsf_dlist_remove_imp mcb (hp_links h, hp_freelist h ! b)) h)"

definition p_vsf_heap_mcb_add_to_freelist :: "ptr \<Rightarrow> vsf_heap_t \<Rightarrow> vsf_heap_t" where
  "p_vsf_heap_mcb_add_to_freelist mcb h =
     (let b = mcb_freelist h mcb
      in set_freelist b (p_vsf_dlist_add_to_head_imp mcb (hp_links h, hp_freelist h ! b)) h)"

definition p_vsf_heap_get_mcb :: "ptr \<Rightarrow> ptr" where
  "p_vsf_heap_get_mcb buffer =
     (let addr = buffer - mcb_bytes; unaligned_size = p_vsf_heap_calc_unaligned_size addr 4
      in if unaligned_size \<noteq> 0 then addr - (4 - unaligned_size) else addr)"

definition p_vsf_heap_mcb_truncate :: "ptr \<Rightarrow> nat \<Rightarrow> vsf_heap_t \<Rightarrow> vsf_heap_t" where
  "p_vsf_heap_mcb_truncate mcb buf_end h =
     (let buf_end = (buf_end + 3) div 4 * 4;
          margin_size = mcb + mcb_get_size h mcb - buf_end
      in if mcb_bytes < margin_size
         then let mcb_next = buf_end;
                  h = p_vsf_heap_mcb_init mcb_next h;
                  margin_size = (mcb_next - mcb) div 4;
                  h = set_lnext mcb_next (hp_lnext h mcb - margin_size) h;
                  h = set_lnext mcb margin_size h;
                  h = set_lprev mcb_next margin_size h;
                  margin_size = hp_lnext h mcb_next;
                  mcb = p_vsf_heap_mcb_get_next h mcb_next;
                  h = set_lprev mcb margin_size h
              in p_vsf_heap_mcb_add_to_freelist mcb_next h
         else h)"

section \<open>Allocation\<close>

text \<open>
  The loop around \<open>fix_alignment\<close>: the position of the buffer in the block and the bytes left there,
  \<open>Some None\<close> when the block does not fit. The buffer moves on by the alignment while the gap in front
  of its header is too small for a block of its own.
\<close>

partial_function (option) mcb_fit ::
  "nat \<Rightarrow> ptr \<Rightarrow> nat \<Rightarrow> ptr \<Rightarrow> nat \<Rightarrow> (ptr \<times> nat) option option" where
  "mcb_fit alignment mcb sz buffer buffer_size =
     (if sz \<le> buffer_size
      then let margin_size = p_vsf_heap_get_mcb buffer - mcb
           in if margin_size = 0 then Some (Some (buffer, buffer_size))
              else if margin_size \<le> mcb_bytes
              then (if buffer_size < alignment then Some None
                    else mcb_fit alignment mcb sz (buffer + alignment) (buffer_size - alignment))
              else Some (Some (buffer, buffer_size))
      else Some None)"

definition mcb_place :: "vsf_heap_t \<Rightarrow> ptr \<Rightarrow> nat \<Rightarrow> nat \<Rightarrow> (ptr \<times> nat) option option" where
  "mcb_place h mcb sz alignment =
     (let buffer_size = mcb_get_size h mcb - mcb_bytes; buffer = mcb + mcb_bytes;
          unaligned_size = (if alignment \<noteq> 0 then p_vsf_heap_calc_unaligned_size buffer alignment else 0)
      in if unaligned_size \<noteq> 0
         then (if buffer_size < unaligned_size then Some None
               else mcb_fit alignment mcb sz (buffer + unaligned_size) (buffer_size - unaligned_size))
         else mcb_fit alignment mcb sz buffer buffer_size)"

text \<open>The part behind the test \<open>buffer_size >= size\<close>.\<close>

definition mcb_carve :: "ptr \<Rightarrow> nat \<Rightarrow> ptr \<Rightarrow> nat \<Rightarrow> vsf_heap_t \<Rightarrow> vsf_heap_t" where
  "mcb_carve mcb sz buffer buffer_size h =
     (let mcb_new = p_vsf_heap_get_mcb buffer;
          margin_size = mcb_new - mcb;
          (temp_size, h) =
            (if margin_size = 0
             then (hp_lprev h mcb, p_vsf_heap_mcb_remove_from_freelist mcb h)
             else let h = p_vsf_heap_mcb_remove_from_freelist mcb h;
                      h = set_lnext mcb (margin_size div 4) h;
                      temp_size = hp_lnext h mcb
                  in (temp_size, p_vsf_heap_mcb_add_to_freelist mcb h));
          h = p_vsf_heap_mcb_init mcb_new h;
          h = set_lprev mcb_new temp_size h;
          h = set_lnext mcb_new ((buffer - mcb_new + buffer_size) div 4) h;
          mcb = p_vsf_heap_mcb_get_next h mcb_new;
          h = set_lprev mcb (hp_lnext h mcb_new) h;
          h = p_vsf_heap_mcb_truncate mcb_new (buffer + sz) h;
          h = h\<lparr>hp_used_size := hp_used_size h + of_nat (mcb_get_size h mcb_new)\<rparr>
      in h\<lparr>hp_max_used_size := max (hp_max_used_size h) (hp_used_size h)\<rparr>)"

definition p_vsf_heap_mcb_malloc ::
  "ptr \<Rightarrow> nat \<Rightarrow> nat \<Rightarrow> vsf_heap_t \<Rightarrow> (ptr \<times> vsf_heap_t) option" where
  "p_vsf_heap_mcb_malloc mcb sz alignment h =
     (case mcb_place h mcb sz alignment of
        None \<Rightarrow> None
      | Some None \<Rightarrow> Some (null, h)
      | Some (Some (buffer, buffer_size)) \<Rightarrow> Some (buffer, mcb_carve mcb sz buffer buffer_size h))"

text \<open>The loop over the blocks of one free list, from \<open>mcb\<close> on.\<close>

partial_function (option) p_vsf_heap_freelist_malloc ::
  "nat \<Rightarrow> nat \<Rightarrow> ptr \<Rightarrow> vsf_heap_t \<Rightarrow> (ptr \<times> vsf_heap_t) option" where
  "p_vsf_heap_freelist_malloc sz alignment mcb h =
     (if mcb = null then Some (null, h)
      else case p_vsf_heap_mcb_malloc mcb sz alignment h of
             None \<Rightarrow> None
           | Some (buffer, h) \<Rightarrow>
               if buffer = null
               then p_vsf_heap_freelist_malloc sz alignment (dl_next (hp_links h) mcb) h
               else Some (buffer, h))"

fun freelists_malloc :: "nat \<Rightarrow> nat \<Rightarrow> nat list \<Rightarrow> vsf_heap_t \<Rightarrow> (ptr \<times> vsf_heap_t) option" where
  "freelists_malloc sz alignment [] h = Some (null, h)"
| "freelists_malloc sz alignment (b # bs) h =
     (let mcb = dl_head (hp_freelist h ! b)
      in if mcb \<noteq> null
         then case p_vsf_heap_freelist_malloc sz alignment mcb h of
                None \<Rightarrow> None
              | Some (buffer, h) \<Rightarrow>
                  if buffer \<noteq> null then Some (buffer, h) else freelists_malloc sz alignment bs h
         else freelists_malloc sz alignment bs h)"

text \<open>The size rounded up to 4 bytes, in 32-bit arithmetic.\<close>

definition round4 :: "u32 \<Rightarrow> u32" where
  "round4 sz = (sz + 3) AND NOT 3"

definition p_vsf_heap_malloc_aligned ::
  "u32 \<Rightarrow> u32 \<Rightarrow> vsf_heap_t \<Rightarrow> (ptr \<times> vsf_heap_t) option" where
  "p_vsf_heap_malloc_aligned sz alignment h =
     (let freelist_size = of_nat mcb_bytes + alignment - 1 + sz;
          freelist_num = length (hp_freelist h);
          freelist = vsf_heap_get_freelist freelist_num freelist_size True
      in if alignment \<noteq> 0 \<and> alignment AND (alignment - 1) \<noteq> 0 then None
         else freelists_malloc (unat (round4 sz)) (unat alignment) [freelist..<freelist_num] h)"

section \<open>Release\<close>

definition mcb_merge_next :: "ptr \<Rightarrow> vsf_heap_t \<Rightarrow> vsf_heap_t" where
  "mcb_merge_next mcb h =
     (if hp_lnext h mcb \<noteq> 0
      then let mcb_tmp = p_vsf_heap_mcb_get_next h mcb
           in if \<not> p_vsf_heap_mcb_is_allocated h mcb_tmp
              then let h = p_vsf_heap_mcb_remove_from_freelist mcb_tmp h;
                       h = set_lnext mcb (hp_lnext h mcb + hp_lnext h mcb_tmp) h
                   in set_lprev (p_vsf_heap_mcb_get_next h mcb) (hp_lnext h mcb) h
              else h
      else h)"

definition mcb_merge_prev :: "ptr \<Rightarrow> vsf_heap_t \<Rightarrow> ptr \<times> vsf_heap_t" where
  "mcb_merge_prev mcb h =
     (if hp_lprev h mcb \<noteq> 0
      then let mcb_tmp = p_vsf_heap_mcb_get_prev h mcb
           in if \<not> p_vsf_heap_mcb_is_allocated h mcb_tmp
              then let h = p_vsf_heap_mcb_remove_from_freelist mcb_tmp h;
                       h = set_lnext mcb_tmp (hp_lnext h mcb_tmp + hp_lnext h mcb) h
                   in (mcb_tmp, set_lprev (p_vsf_heap_mcb_get_next h mcb_tmp) (hp_lnext h mcb_tmp) h)
              else (mcb, h)
      else (mcb, h))"

definition p_vsf_heap_mcb_free :: "ptr \<Rightarrow> vsf_heap_t \<Rightarrow> vsf_heap_t" where
  "p_vsf_heap_mcb_free mcb h =
     (let mcb_size = mcb_get_size h mcb;
          h = mcb_merge_next mcb h;
          (mcb, h) = mcb_merge_prev mcb h;
          h = p_vsf_heap_mcb_add_to_freelist mcb h
      in h\<lparr>hp_used_size := hp_used_size h - of_nat mcb_size\<rparr>)"

definition p_vsf_heap_free :: "ptr \<Rightarrow> vsf_heap_t \<Rightarrow> vsf_heap_t option" where
  "p_vsf_heap_free buffer h =
     (let mcb = p_vsf_heap_get_mcb buffer
      in if buffer \<noteq> null \<and> p_vsf_heap_mcb_is_allocated h mcb then Some (p_vsf_heap_mcb_free mcb h)
         else None)"

definition p_vsf_heap_size :: "ptr \<Rightarrow> vsf_heap_t \<Rightarrow> nat option" where
  "p_vsf_heap_size buffer h =
     (let mcb = p_vsf_heap_get_mcb buffer
      in if buffer \<noteq> null \<and> p_vsf_heap_mcb_is_allocated h mcb
         then Some (mcb_get_size h mcb - (buffer - mcb)) else None)"

section \<open>Reallocation\<close>

text \<open>The statistics after a block changed its size in place.\<close>

definition resize_statistics :: "nat \<Rightarrow> ptr \<Rightarrow> vsf_heap_t \<Rightarrow> vsf_heap_t" where
  "resize_statistics mcb_size mcb h =
     (let h = h\<lparr>hp_used_size := hp_used_size h - of_nat mcb_size + of_nat (mcb_get_size h mcb)\<rparr>
      in h\<lparr>hp_max_used_size := max (hp_max_used_size h) (hp_used_size h)\<rparr>)"

definition copy_bytes :: "ptr \<Rightarrow> ptr \<Rightarrow> nat \<Rightarrow> vsf_heap_t \<Rightarrow> vsf_heap_t" where
  "copy_bytes dst src n h =
     h\<lparr>hp_bytes := (\<lambda>i. if dst \<le> i \<and> i < dst + n then hp_bytes h (src + (i - dst)) else hp_bytes h i)\<rparr>"

definition p_vsf_heap_realloc_aligned ::
  "ptr \<Rightarrow> u32 \<Rightarrow> u32 \<Rightarrow> vsf_heap_t \<Rightarrow> (ptr \<times> vsf_heap_t) option" where
  "p_vsf_heap_realloc_aligned buffer sz alignment h =
     (if buffer = null \<or> alignment \<noteq> 0
         \<and> \<not> (4 \<le> alignment \<and> alignment AND (alignment - 1) = 0 \<and> buffer AND (unat alignment - 1) = 0)
      then None
      else
        let mcb = p_vsf_heap_get_mcb buffer;
            mcb_size = mcb_get_size h mcb;
            memory_size = mcb_size - (buffer - mcb)
        in if unat sz \<le> memory_size
           then Some (buffer, resize_statistics mcb_size mcb (p_vsf_heap_mcb_truncate mcb (buffer + unat sz) h))
           else
             let mcb_next = p_vsf_heap_mcb_get_next h mcb; next_size = mcb_get_size h mcb_next
             in if p_vsf_heap_mcb_is_allocated h mcb_next \<or> memory_size + next_size < unat sz
                then case p_vsf_heap_malloc_aligned sz alignment h of
                       None \<Rightarrow> None
                     | Some (new_buffer, h) \<Rightarrow>
                         let h = (if new_buffer \<noteq> null
                                  then copy_bytes new_buffer buffer (min memory_size (unat sz)) h else h)
                         in Some (new_buffer, p_vsf_heap_mcb_free mcb h)
                else
                  let h = p_vsf_heap_mcb_remove_from_freelist mcb_next h;
                      h = set_lnext mcb (hp_lnext h mcb + hp_lnext h mcb_next) h;
                      mcb_next = p_vsf_heap_mcb_get_next h mcb_next;
                      h = set_lprev mcb_next (hp_lnext h mcb) h;
                      h = p_vsf_heap_mcb_truncate mcb (buffer + unat sz) h
                  in Some (buffer, resize_statistics mcb_size mcb h))"

section \<open>Set-up and inspection\<close>

definition p_vsf_heap_add_buffer :: "ptr \<Rightarrow> nat \<Rightarrow> vsf_heap_t \<Rightarrow> vsf_heap_t option" where
  "p_vsf_heap_add_buffer buffer sz h =
     (if buffer = null \<or> sz = 0 then None
      else
        let unaligned_size = p_vsf_heap_calc_unaligned_size buffer 4;
            buffer = buffer + unaligned_size;
            sz = (sz - unaligned_size) div 4 * 4;
            offset = (sz - mcb_bytes) div 4 * 4
        in if \<not> (2 * mcb_bytes < sz \<and> sz div 2 ^ 18 = 0) then None
           else
             let mcb = buffer + offset;
                 h = p_vsf_heap_mcb_init mcb h;
                 offset = offset div 4;
                 h = set_lprev mcb offset h;
                 mcb = buffer;
                 h = p_vsf_heap_mcb_init mcb h;
                 h = set_lnext mcb offset h;
                 b = vsf_heap_get_freelist (length (hp_freelist h)) (of_nat (offset * 4)) False;
                 h = set_freelist b (p_vsf_dlist_add_to_tail_imp mcb (hp_links h, hp_freelist h ! b)) h
             in Some (h\<lparr>hp_all_size := hp_all_size h + of_nat sz\<rparr>))"

text \<open>The walk over one free list that \<open>__vsf_heap_is_free\<close> and \<open>__vsf_heap_statistics\<close> share.\<close>

partial_function (option) freelist_blocks :: "dlinks \<Rightarrow> ptr \<Rightarrow> ptr list option" where
  "freelist_blocks m mcb =
     (if mcb = null then Some []
      else Option.bind (freelist_blocks m (dl_next m mcb)) (\<lambda>xs. Some (mcb # xs)))"

fun heap_is_free_loop :: "ptr \<Rightarrow> vsf_dlist_t list \<Rightarrow> vsf_heap_t \<Rightarrow> bool option" where
  "heap_is_free_loop buffer [] h = Some False"
| "heap_is_free_loop buffer (l # ls) h =
     (case freelist_blocks (hp_links h) (dl_head l) of
        None \<Rightarrow> None
      | Some xs \<Rightarrow>
          if \<exists>x\<in>set xs. x \<le> buffer \<and> buffer < x + mcb_get_size h x then Some True
          else heap_is_free_loop buffer ls h)"

definition p_vsf_heap_is_free :: "ptr \<Rightarrow> vsf_heap_t \<Rightarrow> bool option" where
  "p_vsf_heap_is_free buffer h = heap_is_free_loop buffer (hp_freelist h) h"

text \<open>The largest free block: of the last list that is not empty.\<close>

fun largest_free_loop :: "vsf_dlist_t list \<Rightarrow> vsf_heap_t \<Rightarrow> nat option" where
  "largest_free_loop [] h = Some 0"
| "largest_free_loop (l # ls) h =
     (if dl_head l = null then largest_free_loop ls h
      else case freelist_blocks (hp_links h) (dl_head l) of
             None \<Rightarrow> None
           | Some xs \<Rightarrow> Some (foldl (\<lambda>m x. max m (mcb_get_size h x)) 0 xs))"

definition p_vsf_heap_statistics :: "vsf_heap_t \<Rightarrow> (u32 \<times> u32 \<times> u32 \<times> nat) option" where
  "p_vsf_heap_statistics h =
     (case largest_free_loop (rev (hp_freelist h)) h of
        None \<Rightarrow> None
      | Some largest \<Rightarrow> Some (hp_all_size h, hp_used_size h, hp_max_used_size h, largest))"

end
