(* ===== verification/VSF_Heap_Layout.thy ===== *)
theory VSF_Heap_Layout
  imports VSF_Heap
begin

text \<open>
  The invariant of the allocator. The memory handed to the heap is described by a layout, the
  sequence of its blocks in the order of their addresses; the layout determines every offset field,
  and the free lists hold exactly the free blocks, each in the list for its size. The lemmas say how
  the primitive steps of the allocator change layout and free lists.
\<close>

section \<open>Layouts\<close>

text \<open>
  \<open>Blk n used\<close> is a block of \<open>n\<close> units of 4 bytes, \<open>Gap g\<close> the block that ends a region, followed by
  memory that does not belong to the heap up to the next region, \<open>g\<close> bytes in all.
\<close>

datatype blk = Blk (units: nat) (in_use: bool) | Gap nat

fun width :: "blk \<Rightarrow> nat" where
  "width (Blk n u) = 4 * n"
| "width (Gap g) = g"

fun blk_ok :: "blk \<Rightarrow> bool" where
  "blk_ok (Blk n u) \<longleftrightarrow> 3 \<le> n"
| "blk_ok (Gap g) \<longleftrightarrow> mcb_bytes \<le> g \<and> 4 dvd g"

fun blk_next :: "blk \<Rightarrow> nat" where
  "blk_next (Blk n u) = n"
| "blk_next (Gap g) = 0"

definition end_addr :: "ptr \<Rightarrow> blk list \<Rightarrow> ptr" where
  "end_addr a xs = a + sum_list (map width xs)"

definition end_prev :: "nat \<Rightarrow> blk list \<Rightarrow> nat" where
  "end_prev p xs = (if xs = [] then p else blk_next (last xs))"

lemma end_addr_simps [simp]:
  "end_addr a [] = a" "end_addr a (b # xs) = end_addr (a + width b) xs"
  "end_addr a (xs @ ys) = end_addr (end_addr a xs) ys"
  by (simp_all add: end_addr_def)

lemma end_prev_simps [simp]:
  "end_prev p [] = p" "end_prev p (b # xs) = end_prev (blk_next b) xs"
  "end_prev p (xs @ ys) = end_prev (end_prev p xs) ys"
  by (simp_all add: end_prev_def)

lemma end_addr_le: "a \<le> end_addr a xs"
  by (simp add: end_addr_def)

text \<open>The blocks with their addresses.\<close>

fun entries :: "ptr \<Rightarrow> blk list \<Rightarrow> (ptr \<times> blk) list" where
  "entries a [] = []"
| "entries a (b # xs) = (a, b) # entries (a + width b) xs"

lemma entries_append [simp]: "entries a (xs @ ys) = entries a xs @ entries (end_addr a xs) ys"
  by (induction xs arbitrary: a) simp_all

definition heads :: "ptr \<Rightarrow> blk list \<Rightarrow> ptr set" where
  "heads a xs = fst ` set (entries a xs)"

definition frees :: "ptr \<Rightarrow> blk list \<Rightarrow> ptr set" where
  "frees a xs = {x. \<exists>n. (x, Blk n False) \<in> set (entries a xs)}"

definition lives :: "ptr \<Rightarrow> blk list \<Rightarrow> (ptr \<times> nat) set" where
  "lives a xs = {(x, n). (x, Blk n True) \<in> set (entries a xs)}"

lemma heads_simps [simp]:
  "heads a [] = {}" "heads a (b # xs) = insert a (heads (a + width b) xs)"
  "heads a (xs @ ys) = heads a xs \<union> heads (end_addr a xs) ys"
  by (auto simp: heads_def image_Un)

lemma frees_simps [simp]:
  "frees a [] = {}"
  "frees a (Blk n False # xs) = insert a (frees (a + 4 * n) xs)"
  "frees a (Blk n True # xs) = frees (a + 4 * n) xs"
  "frees a (Gap g # xs) = frees (a + g) xs"
  "frees a (xs @ ys) = frees a xs \<union> frees (end_addr a xs) ys"
  by (auto simp: frees_def)

lemma lives_simps [simp]:
  "lives a [] = {}"
  "lives a (Blk n True # xs) = insert (a, n) (lives (a + 4 * n) xs)"
  "lives a (Blk n False # xs) = lives (a + 4 * n) xs"
  "lives a (Gap g # xs) = lives (a + g) xs"
  "lives a (xs @ ys) = lives a xs \<union> lives (end_addr a xs) ys"
  by (auto simp: lives_def)

lemma frees_heads: "frees a xs \<subseteq> heads a xs"
  by (force simp: frees_def heads_def)

lemma blk_ok_width: "blk_ok b \<Longrightarrow> 12 \<le> width b"
  by (cases b) auto

lemma heads_bounds:
  assumes "\<forall>b\<in>set xs. blk_ok b" "x \<in> heads a xs"
  shows "a \<le> x \<and> x + 12 \<le> end_addr a xs"
  using assms
proof (induction xs arbitrary: a)
  case (Cons b xs)
  then have w: "12 \<le> width b" by (simp add: blk_ok_width)
  show ?case
  proof (cases "x = a")
    case True
    with w show ?thesis using end_addr_le [of "a + width b" xs] by simp
  next
    case False
    with Cons have "a + width b \<le> x \<and> x + 12 \<le> end_addr (a + width b) xs" by simp
    then show ?thesis by simp
  qed
qed simp

text \<open>\<open>seg nx pv p a xs\<close>: the offset fields of the blocks \<open>xs\<close> from address \<open>a\<close>, with \<open>p\<close> before it.\<close>

fun seg :: "(ptr \<Rightarrow> nat) \<Rightarrow> (ptr \<Rightarrow> nat) \<Rightarrow> nat \<Rightarrow> ptr \<Rightarrow> blk list \<Rightarrow> bool" where
  "seg nx pv p a [] \<longleftrightarrow> True"
| "seg nx pv p a (b # xs) \<longleftrightarrow>
     nx a = blk_next b \<and> pv a = p \<and> seg nx pv (blk_next b) (a + width b) xs"

lemma seg_append [simp]:
  "seg nx pv p a (xs @ ys) \<longleftrightarrow> seg nx pv p a xs \<and> seg nx pv (end_prev p xs) (end_addr a xs) ys"
  by (induction xs arbitrary: a p) auto

lemma seg_cong:
  "\<forall>x\<in>heads a xs. nx' x = nx x \<and> pv' x = pv x \<Longrightarrow> seg nx' pv' p a xs = seg nx pv p a xs"
  by (induction xs arbitrary: a p) auto

text \<open>The total of the adjacent blocks of a region fits the 16-bit offset fields.\<close>

fun fits :: "nat \<Rightarrow> blk list \<Rightarrow> bool" where
  "fits s [] \<longleftrightarrow> s < 65536"
| "fits s (Blk n u # xs) \<longleftrightarrow> s < 65536 \<and> fits (s + n) xs"
| "fits s (Gap g # xs) \<longleftrightarrow> s < 65536 \<and> fits 0 xs"

lemma fits_less: "fits s xs \<Longrightarrow> s < 65536"
  by (cases "(s, xs)" rule: fits.cases) auto

lemma fits_merge: "fits s (us @ Blk (n + m) u # vs) \<longleftrightarrow> fits s (us @ Blk n v # Blk m w # vs)"
proof (induction s us rule: fits.induct)
  case (1 s)
  show ?case using fits_less [of "s + n + m" vs] by (auto simp: add.assoc dest: fits_less)
qed auto

lemma fits_use: "fits s (us @ Blk n u # vs) \<longleftrightarrow> fits s (us @ Blk n v # vs)"
  by (induction s us rule: fits.induct) auto

lemma fits_units: "fits s (us @ Blk n u # vs) \<Longrightarrow> n < 65536"
  by (induction s us rule: fits.induct) (auto dest: fits_less)

section \<open>Free lists\<close>

text \<open>
  \<open>bkt num sz\<close> is the list for a free block of \<open>sz\<close> bytes. \<open>free_lists m ls sz F U\<close>: the headers \<open>ls\<close>
  over the links \<open>m\<close> hold exactly the blocks \<open>F\<close>, each once and in the list for its size, and the
  blocks \<open>U\<close> are not linked.
\<close>

definition bkt :: "nat \<Rightarrow> nat \<Rightarrow> nat" where
  "bkt num sz = vsf_heap_get_freelist num (of_nat sz) False"

lemma bkt_less: "0 < num \<Longrightarrow> bkt num sz < num"
  by (auto simp: bkt_def vsf_heap_get_freelist_def Let_def)

definition free_lists ::
  "dlinks \<Rightarrow> vsf_dlist_t list \<Rightarrow> (ptr \<Rightarrow> nat) \<Rightarrow> ptr set \<Rightarrow> ptr set \<Rightarrow> bool" where
  "free_lists m ls sz F U \<longleftrightarrow> ls \<noteq> [] \<and> null \<notin> F
     \<and> (\<exists>L. (\<forall>b<length ls. dlist (m, ls ! b) (L b)
              \<and> set (L b) = {x \<in> F. bkt (length ls) (sz x) = b}))
     \<and> (\<forall>x\<in>U. x \<notin> F \<and> unlinked m x)"

lemma dlist_cong_links:
  assumes "dlist (m, l) xs"
    and "\<forall>x\<in>set xs. dl_next m' x = dl_next m x \<and> dl_prev m' x = dl_prev m x"
  shows "dlist (m', l) xs"
proof -
  have "dseg m p xs q \<Longrightarrow> \<forall>x\<in>set xs. dl_next m' x = dl_next m x \<and> dl_prev m' x = dl_prev m x
      \<Longrightarrow> dseg m' p xs q" for p q
    by (induction xs arbitrary: p) auto
  with assms show ?thesis by (simp add: dlist_def)
qed

lemma unlinked_cong:
  "unlinked m x \<Longrightarrow> dl_next m' x = dl_next m x \<Longrightarrow> dl_prev m' x = dl_prev m x \<Longrightarrow> unlinked m' x"
  by (simp add: unlinked_def)

lemma free_lists_is_in:
  assumes "free_lists m ls sz F U" "x \<in> F \<union> U" "x \<noteq> null"
  shows "p_vsf_dlist_is_in_imp x (m, ls ! bkt (length ls) (sz x)) \<longleftrightarrow> x \<in> F"
proof -
  let ?b = "bkt (length ls) (sz x)"
  obtain xs where d: "dlist (m, ls ! ?b) xs" and xs: "set xs = {y \<in> F. bkt (length ls) (sz y) = ?b}"
    using assms(1) bkt_less [of "length ls" "sz x"] by (auto simp: free_lists_def)
  have in_xs: "x \<in> set xs \<longleftrightarrow> x \<in> F" using xs by auto
  have "x \<in> set xs \<or> unlinked (fst (m, ls ! ?b)) x"
    using assms(1,2) in_xs by (auto simp: free_lists_def)
  then show ?thesis using dlist_is_in [OF d assms(3)] in_xs by simp
qed

text \<open>A change to one list, which touches only the links of its own nodes and of \<open>x\<close>.\<close>

lemma free_lists_update:
  assumes FL: "free_lists m ls sz F U" and b: "b < length ls"
    and ys: "dlist (m', l') ys" "set ys = {y \<in> F'. bkt (length ls) (sz y) = b}"
    and links: "same_links (insert x {y \<in> F. bkt (length ls) (sz y) = b}) (m, ls ! b) (m', l')"
    and F': "\<forall>y. bkt (length ls) (sz y) \<noteq> b \<longrightarrow> (y \<in> F' \<longleftrightarrow> y \<in> F)" "null \<notin> F'"
    and x: "bkt (length ls) (sz x) = b"
    and U': "\<forall>y\<in>U'. y \<notin> F' \<and> (y = x \<and> unlinked m' x \<or> y \<noteq> x \<and> y \<in> U)"
  shows "free_lists m' (ls[b := l']) sz F' U'"
proof -
  from FL obtain L where L: "\<forall>c<length ls. dlist (m, ls ! c) (L c)
      \<and> set (L c) = {y \<in> F. bkt (length ls) (sz y) = c}"
    and FU: "\<forall>y\<in>U. y \<notin> F \<and> unlinked m y" by (auto simp: free_lists_def)
  have "dlist (m', (ls[b := l']) ! c) ((L(b := ys)) c)
      \<and> set ((L(b := ys)) c) = {y \<in> F'. bkt (length ls) (sz y) = c}" if c: "c < length ls" for c
  proof (cases "c = b")
    case True
    with ys b show ?thesis by simp
  next
    case False
    have "\<forall>y\<in>set (L c). y \<notin> insert x {y \<in> F. bkt (length ls) (sz y) = b}"
      using L c False x by auto
    then have "\<forall>y\<in>set (L c). dl_next m' y = dl_next m y \<and> dl_prev m' y = dl_prev m y"
      using links by (simp add: same_links_def)
    with L c have "dlist (m', ls ! c) (L c)" by (blast intro: dlist_cong_links)
    moreover have "set (L c) = {y \<in> F'. bkt (length ls) (sz y) = c}" using L c False F'(1) by auto
    ultimately show ?thesis using False by simp
  qed
  moreover have "unlinked m' y" if "y \<in> U'" for y
  proof (cases "y = x")
    case False
    with U' that FU have "y \<notin> insert x {y \<in> F. bkt (length ls) (sz y) = b}" "unlinked m y" by auto
    then show ?thesis using links by (auto simp: same_links_def intro: unlinked_cong)
  qed (use U' that in auto)
  ultimately show ?thesis using FL F'(2) U' unfolding free_lists_def length_list_update
    by (intro conjI exI [of _ "L(b := ys)"] ballI) auto
qed

lemma free_lists_remove:
  assumes FL: "free_lists m ls sz F U" and "x \<in> F" and b: "b = bkt (length ls) (sz x)"
    and r: "p_vsf_dlist_remove_imp x (m, ls ! b) = (m', l')"
  shows "free_lists m' (ls[b := l']) sz (F - {x}) (insert x U)"
proof -
  have bl: "b < length ls" using FL b by (auto simp: free_lists_def intro: bkt_less)
  obtain xs where d: "dlist (m, ls ! b) xs" and xs: "set xs = {y \<in> F. bkt (length ls) (sz y) = b}"
    using FL bl by (auto simp: free_lists_def)
  have "x \<in> set xs" using assms(2) b xs by simp
  then obtain us vs where s: "xs = us @ x # vs" by (meson split_list)
  have dist: "distinct xs" using d by (simp add: dlist_def)
  note R = dlist_remove_at [OF d [unfolded s], unfolded r]
    dlist_remove_links [OF d [unfolded s], unfolded r]
  have same: "set xs = insert x {y \<in> F. bkt (length ls) (sz y) = b}" using xs assms(2) b by auto
  show ?thesis
  proof (rule free_lists_update [OF FL bl R(1)])
    show "set (us @ vs) = {y \<in> F - {x}. bkt (length ls) (sz y) = b}" using s dist xs by auto
    show "same_links (insert x {y \<in> F. bkt (length ls) (sz y) = b}) (m, ls ! b) (m', l')"
      using R(2) s same by simp
    show "\<forall>y\<in>insert x U. y \<notin> F - {x} \<and> (y = x \<and> unlinked m' x \<or> y \<noteq> x \<and> y \<in> U)"
      using FL R(3) by (auto simp: free_lists_def)
  qed (use FL b in \<open>auto simp: free_lists_def\<close>)
qed

lemma free_lists_add:
  assumes FL: "free_lists m ls sz F U" and "x \<in> U" "x \<noteq> null" and b: "b = bkt (length ls) (sz x)"
    and r: "p_vsf_dlist_add_to_head_imp x (m, ls ! b) = (m', l')
        \<or> p_vsf_dlist_add_to_tail_imp x (m, ls ! b) = (m', l')"
  shows "free_lists m' (ls[b := l']) sz (insert x F) (U - {x})"
proof -
  have bl: "b < length ls" using FL b by (auto simp: free_lists_def intro: bkt_less)
  obtain xs where d: "dlist (m, ls ! b) xs" and xs: "set xs = {y \<in> F. bkt (length ls) (sz y) = b}"
    using FL bl by (auto simp: free_lists_def)
  have xF: "x \<notin> F" using FL assms(2) by (auto simp: free_lists_def)
  with xs have nx: "x \<notin> set xs" by auto
  from r obtain ys where ys: "dlist (m', l') ys" "set ys = insert x (set xs)"
  proof
    assume h: "p_vsf_dlist_add_to_head_imp x (m, ls ! b) = (m', l')"
    from dlist_add_to_head [OF d nx assms(3), unfolded h] show ?thesis using that by simp
  next
    assume h: "p_vsf_dlist_add_to_tail_imp x (m, ls ! b) = (m', l')"
    from dlist_add_to_tail [OF d nx assms(3), unfolded h] show ?thesis using that by simp
  qed
  have links: "same_links (insert x (set xs)) (m, ls ! b) (m', l')"
    using r dlist_add_links [OF d, of x] by auto
  show ?thesis
  proof (rule free_lists_update [OF FL bl ys(1)])
    show "set ys = {y \<in> insert x F. bkt (length ls) (sz y) = b}" using ys(2) xs b by auto
    show "same_links (insert x {y \<in> F. bkt (length ls) (sz y) = b}) (m, ls ! b) (m', l')"
      using links xs by simp
    show "\<forall>y\<in>U - {x}. y \<notin> insert x F \<and> (y = x \<and> unlinked m' x \<or> y \<noteq> x \<and> y \<in> U)"
      using FL by (auto simp: free_lists_def)
  qed (use FL b assms(3) in \<open>auto simp: free_lists_def\<close>)
qed

text \<open>Sizes of blocks that are not free do not matter; a header that is cleared is not linked.\<close>

lemma free_lists_sz:
  assumes "free_lists m ls sz F U" "\<forall>x\<in>F. sz' x = sz x"
  shows "free_lists m ls sz' F U"
proof -
  have "{x \<in> F. bkt (length ls) (sz' x) = b} = {x \<in> F. bkt (length ls) (sz x) = b}" for b
    using assms(2) by auto
  with assms(1) show ?thesis unfolding free_lists_def by simp
qed

lemma free_lists_clear:
  assumes "free_lists m ls sz F U" "x \<notin> F"
  shows "free_lists (set_prev x null (set_next x null m)) ls sz F (insert x U)"
proof -
  from assms obtain L where L: "\<forall>b<length ls. dlist (m, ls ! b) (L b)
      \<and> set (L b) = {x \<in> F. bkt (length ls) (sz x) = b}" by (auto simp: free_lists_def)
  have "dlist (set_prev x null (set_next x null m), ls ! b) (L b)" if "b < length ls" for b
  proof (rule dlist_cong_links)
    show "dlist (m, ls ! b) (L b)" using L that by simp
    have "x \<notin> set (L b)" using L that assms(2) by simp
    then show "\<forall>y\<in>set (L b). dl_next (set_prev x null (set_next x null m)) y = dl_next m y
        \<and> dl_prev (set_prev x null (set_next x null m)) y = dl_prev m y" by auto
  qed
  with L have "\<exists>L. \<forall>b<length ls. dlist (set_prev x null (set_next x null m), ls ! b) (L b)
      \<and> set (L b) = {x \<in> F. bkt (length ls) (sz x) = b}" by blast
  moreover have "\<forall>y\<in>insert x U. y \<notin> F \<and> unlinked (set_prev x null (set_next x null m)) y"
    using assms by (auto simp: free_lists_def unlinked_def)
  ultimately show ?thesis using assms(1) unfolding free_lists_def by blast
qed

lemma free_lists_mono: "free_lists m ls sz F U \<Longrightarrow> U' \<subseteq> U \<Longrightarrow> free_lists m ls sz F U'"
  by (auto simp: free_lists_def)

section \<open>The invariant\<close>

definition layout_ok :: "ptr \<Rightarrow> blk list \<Rightarrow> bool" where
  "layout_ok a xs \<longleftrightarrow> 0 < a \<and> 4 dvd a \<and> (\<forall>b\<in>set xs. blk_ok b) \<and> end_prev 0 xs = 0 \<and> fits 0 xs"

definition heap_lay :: "vsf_heap_t \<Rightarrow> ptr \<Rightarrow> blk list \<Rightarrow> bool" where
  "heap_lay h a xs \<longleftrightarrow> layout_ok a xs \<and> seg (hp_lnext h) (hp_lprev h) 0 a xs
     \<and> free_lists (hp_links h) (hp_freelist h) (\<lambda>x. hp_lnext h x * 4) (frees a xs)
         (heads a xs - frees a xs)"

text \<open>The bytes in use, as the statistics count them.\<close>

fun used_bytes :: "blk list \<Rightarrow> nat" where
  "used_bytes [] = 0"
| "used_bytes (Blk n u # xs) = (if u then 4 * n else 0) + used_bytes xs"
| "used_bytes (Gap g # xs) = used_bytes xs"

lemma used_bytes_append [simp]: "used_bytes (xs @ ys) = used_bytes xs + used_bytes ys"
  by (induction xs rule: used_bytes.induct) simp_all

definition heap_wf :: "vsf_heap_t \<Rightarrow> ptr \<Rightarrow> blk list \<Rightarrow> bool" where
  "heap_wf h a xs \<longleftrightarrow> heap_lay h a xs \<and> hp_used_size h = of_nat (used_bytes xs)"

text \<open>Positions of the blocks around a block of the layout.\<close>

lemma around:
  assumes "layout_ok a (us @ Blk n u # vs)" "x = end_addr a us"
  shows "\<forall>y\<in>heads a us. a \<le> y \<and> y + 12 \<le> x" "\<forall>y\<in>heads (x + 4 * n) vs. x + 4 * n \<le> y"
    "3 \<le> n" "0 < x" "4 dvd x" "n < 65536"
proof -
  have ok: "\<forall>b\<in>set us. blk_ok b" "\<forall>b\<in>set vs. blk_ok b" and "3 \<le> n"
    using assms(1) by (auto simp: layout_ok_def)
  with assms(2) heads_bounds show "\<forall>y\<in>heads a us. a \<le> y \<and> y + 12 \<le> x"
    "\<forall>y\<in>heads (x + 4 * n) vs. x + 4 * n \<le> y" "3 \<le> n" by blast+
  have "0 < a" "4 dvd a" using assms(1) by (auto simp: layout_ok_def)
  moreover have "4 dvd sum_list (map width us)"
    using ok(1) by (induction us) (auto intro!: dvd_add elim: blk_ok.elims)
  ultimately show "0 < x" "4 dvd x" using assms(2) by (auto simp: end_addr_def)
  show "n < 65536" using assms(1) fits_units [of 0 us n u vs] by (simp add: layout_ok_def)
qed

lemma layout_use: "layout_ok a (us @ Blk n u # vs) \<longleftrightarrow> layout_ok a (us @ Blk n v # vs)"
  using fits_use [of 0 us n u vs v] by (auto simp: layout_ok_def)

lemma layout_split:
  "3 \<le> k \<Longrightarrow> 3 \<le> m \<Longrightarrow> layout_ok a (us @ Blk k v # Blk m w # vs) \<longleftrightarrow> layout_ok a (us @ Blk (k + m) u # vs)"
  using fits_merge [of 0 us k m u vs v w] by (cases vs) (auto simp: layout_ok_def)

subsection \<open>Offset fields\<close>

lemma seg_relink:
  "seg nx pv p e vs \<Longrightarrow> \<forall>b\<in>set vs. blk_ok b \<Longrightarrow> seg nx (pv(e := q)) q e vs"
proof (cases vs)
  case (Cons v ws)
  assume s: "seg nx pv p e vs" and ok: "\<forall>b\<in>set vs. blk_ok b"
  have w: "12 \<le> width v" using ok Cons by (simp add: blk_ok_width)
  have "\<forall>y\<in>heads (e + width v) ws. e + width v \<le> y" using ok Cons heads_bounds by auto
  with w have "\<forall>y\<in>heads (e + width v) ws. y \<noteq> e" by fastforce
  then have "seg nx (pv(e := q)) (blk_next v) (e + width v) ws = seg nx pv (blk_next v) (e + width v) ws"
    by (intro seg_cong) auto
  with s Cons show ?thesis by simp
qed simp

lemma seg_split:
  assumes "layout_ok a (us @ Blk (k + m) u # vs)" "seg nx pv p a (us @ Blk (k + m) u # vs)"
    and "0 < k" "0 < m" and x: "x = end_addr a us"
    and nx': "nx' = nx(x := k, x + 4 * k := m)"
    and pv': "pv' = pv(x + 4 * k := k, x + 4 * (k + m) := m)"
  shows "seg nx' pv' p a (us @ Blk k v # Blk m w # vs)"
proof -
  note A = around [OF assms(1) x]
  let ?e = "x + 4 * (k + m)"
  have S: "seg nx pv p a us" "pv x = end_prev p us" "seg nx pv (k + m) ?e vs"
    using assms(2) x by simp_all
  have "seg nx' pv' p a us = seg nx pv p a us"
    by (rule seg_cong) (use A(1) in \<open>fastforce simp: nx' pv'\<close>)
  moreover have "seg nx' pv' m ?e vs = seg nx (pv(?e := m)) m ?e vs"
  proof (rule seg_cong)
    show "\<forall>y\<in>heads ?e vs. nx' y = nx y \<and> pv' y = (pv(?e := m)) y"
      using A(2) assms(3,4) by (fastforce simp: nx' pv')
  qed
  moreover have "seg nx (pv(?e := m)) m ?e vs"
    using S(3) assms(1) by (intro seg_relink) (auto simp: layout_ok_def)
  ultimately show ?thesis using S x assms(3,4) by (simp add: nx' pv' algebra_simps)
qed

lemma seg_merge:
  assumes "layout_ok a (us @ Blk (k + m) u # vs)" "seg nx pv p a (us @ Blk k v # Blk m w # vs)"
    and "0 < k" "0 < m" and x: "x = end_addr a us"
    and nx': "nx' = nx(x := k + m)" and pv': "pv' = pv(x + 4 * (k + m) := k + m)"
  shows "seg nx' pv' p a (us @ Blk (k + m) u # vs)"
proof -
  note A = around [OF assms(1) x]
  let ?e = "x + 4 * (k + m)"
  have S: "seg nx pv p a us" "pv x = end_prev p us" "seg nx pv m ?e vs"
    using assms(2) x by (simp_all add: algebra_simps)
  have "seg nx' pv' p a us = seg nx pv p a us"
    by (rule seg_cong) (use A(1) in \<open>fastforce simp: nx' pv'\<close>)
  moreover have "seg nx' pv' (k + m) ?e vs = seg nx pv' (k + m) ?e vs"
    by (rule seg_cong) (use A(2) assms(3) in \<open>fastforce simp: nx'\<close>)
  moreover have "seg nx pv' (k + m) ?e vs"
    unfolding pv' using S(3) assms(1) by (intro seg_relink) (auto simp: layout_ok_def)
  ultimately show ?thesis using S x assms(3,4) by (simp add: nx' pv')
qed

subsection \<open>Steps of the allocator\<close>

lemma mcb_freelist_bkt: "mcb_freelist h x = bkt (length (hp_freelist h)) (hp_lnext h x * 4)"
  by (simp add: mcb_freelist_def bkt_def mcb_get_size_def)

lemma off16_id [simp]: "v < 65536 \<Longrightarrow> off16 v = v"
  by (simp add: off16_def)

lemma heap_fields [simp]:
  "hp_lnext (set_lnext x v h) = (hp_lnext h)(x := off16 v)" "hp_lprev (set_lnext x v h) = hp_lprev h"
  "hp_lprev (set_lprev x v h) = (hp_lprev h)(x := off16 v)" "hp_lnext (set_lprev x v h) = hp_lnext h"
  "hp_links (set_lnext x v h) = hp_links h" "hp_links (set_lprev x v h) = hp_links h"
  "hp_freelist (set_lnext x v h) = hp_freelist h" "hp_freelist (set_lprev x v h) = hp_freelist h"
  "hp_bytes (set_lnext x v h) = hp_bytes h" "hp_bytes (set_lprev x v h) = hp_bytes h"
  "hp_used_size (set_lnext x v h) = hp_used_size h" "hp_used_size (set_lprev x v h) = hp_used_size h"
  by (simp_all add: set_lnext_def set_lprev_def)

lemma init_fields [simp]:
  "hp_lnext (p_vsf_heap_mcb_init x h) = (hp_lnext h)(x := 0)"
  "hp_lprev (p_vsf_heap_mcb_init x h) = (hp_lprev h)(x := 0)"
  "hp_links (p_vsf_heap_mcb_init x h) = set_prev x null (set_next x null (hp_links h))"
  "hp_freelist (p_vsf_heap_mcb_init x h) = hp_freelist h"
  "hp_used_size (p_vsf_heap_mcb_init x h) = hp_used_size h"
  by (simp_all add: p_vsf_heap_mcb_init_def)

lemma list_step_fields [simp]:
  "hp_lnext (p_vsf_heap_mcb_remove_from_freelist x h) = hp_lnext h"
  "hp_lprev (p_vsf_heap_mcb_remove_from_freelist x h) = hp_lprev h"
  "hp_bytes (p_vsf_heap_mcb_remove_from_freelist x h) = hp_bytes h"
  "hp_used_size (p_vsf_heap_mcb_remove_from_freelist x h) = hp_used_size h"
  "length (hp_freelist (p_vsf_heap_mcb_remove_from_freelist x h)) = length (hp_freelist h)"
  "hp_lnext (p_vsf_heap_mcb_add_to_freelist x h) = hp_lnext h"
  "hp_lprev (p_vsf_heap_mcb_add_to_freelist x h) = hp_lprev h"
  "hp_bytes (p_vsf_heap_mcb_add_to_freelist x h) = hp_bytes h"
  "hp_used_size (p_vsf_heap_mcb_add_to_freelist x h) = hp_used_size h"
  "length (hp_freelist (p_vsf_heap_mcb_add_to_freelist x h)) = length (hp_freelist h)"
  by (simp_all add: p_vsf_heap_mcb_remove_from_freelist_def p_vsf_heap_mcb_add_to_freelist_def
      set_freelist_def Let_def case_prod_unfold)

text \<open>The free lists after a block was taken out of or put in its list.\<close>

abbreviation fl :: "vsf_heap_t \<Rightarrow> ptr set \<Rightarrow> ptr set \<Rightarrow> bool" where
  "fl h F U \<equiv> free_lists (hp_links h) (hp_freelist h) (\<lambda>x. hp_lnext h x * 4) F U"

lemma fl_remove:
  assumes "fl h F U" "x \<in> F"
  shows "fl (p_vsf_heap_mcb_remove_from_freelist x h) (F - {x}) (insert x U)"
proof -
  let ?b = "mcb_freelist h x"
  obtain m l where r: "p_vsf_dlist_remove_imp x (hp_links h, hp_freelist h ! ?b) = (m, l)" by fastforce
  from free_lists_remove [OF assms mcb_freelist_bkt r] r show ?thesis
    by (simp add: p_vsf_heap_mcb_remove_from_freelist_def set_freelist_def Let_def)
qed

lemma fl_add:
  assumes "fl h F U" "x \<in> U" "x \<noteq> null"
  shows "fl (p_vsf_heap_mcb_add_to_freelist x h) (insert x F) (U - {x})"
proof -
  let ?b = "mcb_freelist h x"
  obtain m l where r: "p_vsf_dlist_add_to_head_imp x (hp_links h, hp_freelist h ! ?b) = (m, l)" by fastforce
  from free_lists_add [OF assms mcb_freelist_bkt disjI1 [OF r]] r show ?thesis
    by (simp add: p_vsf_heap_mcb_add_to_freelist_def set_freelist_def Let_def)
qed

lemma fl_clear:
  "fl h F U \<Longrightarrow> x \<notin> F \<Longrightarrow> fl (p_vsf_heap_mcb_init x h) F (insert x U)"
  unfolding init_fields by (rule free_lists_sz [OF free_lists_clear]) auto

lemma fl_set_lnext: "fl h F U \<Longrightarrow> x \<notin> F \<Longrightarrow> fl (set_lnext x v h) F U"
  unfolding heap_fields by (erule free_lists_sz) auto

lemma fl_set_lprev [simp]: "fl (set_lprev x v h) F U = fl h F U"
  by simp

lemma lay_remove:
  assumes L: "heap_lay h a (us @ Blk n False # vs)" and x: "x = end_addr a us"
  shows "heap_lay (p_vsf_heap_mcb_remove_from_freelist x h) a (us @ Blk n True # vs)"
proof -
  have ok: "layout_ok a (us @ Blk n False # vs)" using L by (simp add: heap_lay_def)
  note A = around [OF ok x]
  have nx: "x \<notin> heads a us" "x \<notin> heads (x + 4 * n) vs" using A by fastforce+
  let ?F = "frees a us \<union> frees (x + 4 * n) vs" and ?H = "insert x (heads a us \<union> heads (x + 4 * n) vs)"
  have xF: "x \<notin> ?F" using nx frees_heads by blast
  have "fl h (insert x ?F) (?H - insert x ?F)" using L x by (simp add: heap_lay_def insert_commute)
  from fl_remove [OF this, of x]
  have "fl (p_vsf_heap_mcb_remove_from_freelist x h) ?F (?H - ?F)"
    using xF by (simp add: insert_absorb Diff_insert0 insert_Diff_if) (erule free_lists_mono, auto)
  with L ok x layout_use [of a us n False vs True] show ?thesis by (simp add: heap_lay_def)
qed

lemma lay_add:
  assumes L: "heap_lay h a (us @ Blk n True # vs)" and x: "x = end_addr a us"
  shows "heap_lay (p_vsf_heap_mcb_add_to_freelist x h) a (us @ Blk n False # vs)"
proof -
  have ok: "layout_ok a (us @ Blk n True # vs)" using L by (simp add: heap_lay_def)
  note A = around [OF ok x]
  have nx: "x \<notin> heads a us" "x \<notin> heads (x + 4 * n) vs" using A by fastforce+
  let ?F = "frees a us \<union> frees (x + 4 * n) vs" and ?H = "insert x (heads a us \<union> heads (x + 4 * n) vs)"
  have xF: "x \<notin> ?F" using nx frees_heads by blast
  have "fl h ?F (?H - ?F)" using L x by (simp add: heap_lay_def)
  from fl_add [OF this, of x] xF A(4)
  have "fl (p_vsf_heap_mcb_add_to_freelist x h) (insert x ?F) (?H - ?F - {x})" by simp
  moreover have "?H - ?F - {x} = ?H - insert x ?F" by auto
  ultimately show ?thesis using L ok x layout_use [of a us n True vs False]
    by (simp add: heap_lay_def insert_commute)
qed

text \<open>
  A block in use is cut in two, or two are joined; \<open>y\<close> is the header of the second. The headers that
  change are those of the two blocks and the back offset of the block behind them.
\<close>

lemma lay_split:
  assumes L: "heap_lay h a (us @ Blk (k + m) True # vs)" and km: "3 \<le> k" "3 \<le> m"
    and x: "x = end_addr a us" and y: "y = x + 4 * k"
    and nx: "hp_lnext h' = (hp_lnext h)(x := k, y := m)"
    and pv: "hp_lprev h' = (hp_lprev h)(y := k, x + 4 * (k + m) := m)"
    and lk: "hp_links h' = set_prev y null (set_next y null (hp_links h))"
    and fr: "hp_freelist h' = hp_freelist h"
  shows "heap_lay h' a (us @ Blk k True # Blk m True # vs)"
proof -
  have ok: "layout_ok a (us @ Blk (k + m) True # vs)" using L by (simp add: heap_lay_def)
  note A = around [OF ok x]
  have H: "x \<notin> heads a us" "x \<notin> heads (x + 4 * (k + m)) vs" "y \<notin> heads a us"
    "y \<notin> heads (x + 4 * (k + m)) vs"
    using A(1,2,3) km y by fastforce+
  let ?F = "frees a us \<union> frees (x + 4 * (k + m)) vs"
    and ?H = "heads a us \<union> heads (x + 4 * (k + m)) vs"
  have xF: "x \<notin> ?F" "y \<notin> ?F" using H frees_heads by blast+
  have "fl h ?F (insert x ?H - ?F)" using L x by (simp add: heap_lay_def)
  from free_lists_clear [OF this xF(2)]
  have "fl h' ?F (insert y (insert x ?H - ?F))"
    unfolding lk fr nx using xF by (auto intro: free_lists_sz)
  moreover have "insert y (insert x ?H - ?F) = insert x (insert y ?H) - ?F" using xF by auto
  moreover have "seg (hp_lnext h') (hp_lprev h') 0 a (us @ Blk k True # Blk m True # vs)"
    using L ok km x nx pv y by (intro seg_split [of a us k m True vs "hp_lnext h" "hp_lprev h"])
      (simp_all add: heap_lay_def)
  moreover have "layout_ok a (us @ Blk k True # Blk m True # vs)" using ok layout_split [OF km] by blast
  ultimately show ?thesis using x y
    by (simp add: heap_lay_def algebra_simps insert_commute)
qed

lemma lay_merge:
  assumes L: "heap_lay h a (us @ Blk k True # Blk m True # vs)" and km: "3 \<le> k" "3 \<le> m"
    and x: "x = end_addr a us"
    and nx: "hp_lnext h' = (hp_lnext h)(x := k + m)"
    and pv: "hp_lprev h' = (hp_lprev h)(x + 4 * (k + m) := k + m)"
    and lk: "hp_links h' = hp_links h" and fr: "hp_freelist h' = hp_freelist h"
  shows "heap_lay h' a (us @ Blk (k + m) True # vs)"
proof -
  have ok: "layout_ok a (us @ Blk (k + m) True # vs)"
    using L layout_split [OF km] unfolding heap_lay_def by blast
  note A = around [OF ok x]
  have H: "x \<notin> heads a us" "x \<notin> heads (x + 4 * (k + m)) vs" using A(1,2,3) by fastforce+
  let ?F = "frees a us \<union> frees (x + 4 * (k + m)) vs"
    and ?H = "heads a us \<union> heads (x + 4 * (k + m)) vs"
  have xF: "x \<notin> ?F" using H frees_heads by blast
  have "fl h ?F (insert x (insert (x + 4 * k) ?H) - ?F)"
    using L x by (simp add: heap_lay_def algebra_simps)
  then have "fl h' ?F (insert x (insert (x + 4 * k) ?H) - ?F)"
    unfolding lk fr nx using xF by (auto intro: free_lists_sz)
  then have "fl h' ?F (insert x ?H - ?F)" by (rule free_lists_mono) auto
  moreover have "seg (hp_lnext h') (hp_lprev h') 0 a (us @ Blk (k + m) True # vs)"
    using L ok km x nx pv by (intro seg_merge [of a us k m True vs "hp_lnext h" "hp_lprev h"])
      (simp_all add: heap_lay_def)
  ultimately show ?thesis using ok x by (simp add: heap_lay_def)
qed

text \<open>A block in use may have its own links cleared.\<close>

lemma lay_clear:
  assumes L: "heap_lay h a (us @ Blk n True # vs)" and x: "x = end_addr a us"
    and "hp_lnext h' = hp_lnext h" "hp_lprev h' = hp_lprev h" "hp_freelist h' = hp_freelist h"
    and lk: "hp_links h' = set_prev x null (set_next x null (hp_links h))"
  shows "heap_lay h' a (us @ Blk n True # vs)"
proof -
  have ok: "layout_ok a (us @ Blk n True # vs)" using L by (simp add: heap_lay_def)
  note A = around [OF ok x]
  have "x \<notin> heads a us" "x \<notin> heads (x + 4 * n) vs" using A by fastforce+
  then have xF: "x \<notin> frees a (us @ Blk n True # vs)" using frees_heads x by auto
  let ?xs = "us @ Blk n True # vs"
  have "insert x (heads a ?xs - frees a ?xs) = heads a ?xs - frees a ?xs" using x xF by auto
  moreover have "fl h (frees a ?xs) (heads a ?xs - frees a ?xs)" using L by (simp add: heap_lay_def)
  ultimately have "fl h' (frees a ?xs) (heads a ?xs - frees a ?xs)"
    using free_lists_clear [OF _ xF] unfolding assms(3-6) by metis
  with L assms(3,4) show ?thesis by (simp add: heap_lay_def)
qed

subsection \<open>Which blocks are free\<close>

lemma lay_is_allocated:
  assumes "heap_lay h a xs" "x \<in> heads a xs"
  shows "p_vsf_heap_mcb_is_allocated h x \<longleftrightarrow> x \<notin> frees a xs"
proof -
  have "0 < a" "\<forall>b\<in>set xs. blk_ok b" using assms(1) by (auto simp: heap_lay_def layout_ok_def)
  then have "x \<noteq> null" using heads_bounds [of xs x a] assms(2) by auto
  with free_lists_is_in [of "hp_links h" "hp_freelist h" _ "frees a xs" _ x] assms show ?thesis
    by (auto simp: p_vsf_heap_mcb_is_allocated_def mcb_freelist_bkt heap_lay_def)
qed

lemma lay_fields:
  assumes "heap_lay h a (us @ Blk n u # vs)" "x = end_addr a us"
  shows "hp_lnext h x = n" "hp_lprev h x = end_prev 0 us"
  using assms by (simp_all add: heap_lay_def)

lemma lay_block_behind:
  assumes "heap_lay h a (us @ Blk n u # vs)"
  obtains v ws where "vs = v # ws"
proof (cases vs)
  case Nil
  with assms have "n = 0 \<and> 3 \<le> n" by (auto simp: heap_lay_def layout_ok_def)
  then show ?thesis by auto
qed (use that in auto)

end
