(* ===== verification/VSF_Heap_Correct.thy ===== *)
theory VSF_Heap_Correct
  imports VSF_Heap_Layout
begin

text \<open>
  Correctness of the allocator's operations over the layout of \<open>VSF_Heap_Layout\<close>: what allocation,
  release, reallocation and the addition of memory do to the blocks, that the buffers handed out are
  aligned, big enough and disjoint from every other one, and that the searches end.
\<close>

section \<open>Cutting the end off a block\<close>

lemma truncate_keep:
  "x + mcb_get_size h x - (buf_end + 3) div 4 * 4 \<le> mcb_bytes \<Longrightarrow> p_vsf_heap_mcb_truncate x buf_end h = h"
  by (simp add: p_vsf_heap_mcb_truncate_def Let_def)

lemma truncate_cut:
  assumes L: "heap_lay h a (us @ Blk n True # vs)" and x: "x = end_addr a us"
    and k: "(buf_end + 3) div 4 * 4 = x + 4 * k" "3 \<le> k" "k + 3 < n"
  shows "heap_lay (p_vsf_heap_mcb_truncate x buf_end h) a (us @ Blk k True # Blk (n - k) False # vs)
    \<and> hp_bytes (p_vsf_heap_mcb_truncate x buf_end h) =
        (\<lambda>i. if x + 4 * k \<le> i \<and> i < x + 4 * k + 12 then 0 else hp_bytes h i)
    \<and> hp_used_size (p_vsf_heap_mcb_truncate x buf_end h) = hp_used_size h"
proof -
  let ?m = "n - k" and ?y = "x + 4 * k"
  have n: "n = k + ?m" "3 \<le> ?m" using k by auto
  have ok: "layout_ok a (us @ Blk n True # vs)" using L by (simp add: heap_lay_def)
  note A = around [OF ok x]
  have nx: "hp_lnext h x = n" by (rule lay_fields [OF L x])
  define h1 where "h1 = set_lprev ?y k (set_lnext x k (set_lnext ?y ?m (p_vsf_heap_mcb_init ?y h)))"
  define h2 where "h2 = set_lprev (x + 4 * (k + ?m)) ?m h1"
  have "k < 65536" "?m < 65536" using A(6) n by linarith+
  then have f: "hp_lnext h2 = (hp_lnext h)(x := k, ?y := ?m)"
    "hp_lprev h2 = (hp_lprev h)(?y := k, x + 4 * (k + ?m) := ?m)"
    "hp_links h2 = set_prev ?y null (set_next ?y null (hp_links h))"
    "hp_freelist h2 = hp_freelist h" "hp_lnext h1 ?y = ?m"
    using k by (auto simp: h2_def h1_def fun_eq_iff)
  have "heap_lay h2 a (us @ Blk k True # Blk ?m True # vs)"
    by (rule lay_split [of h a us k ?m vs x ?y]) (use L n x k f in auto)
  then have "heap_lay (p_vsf_heap_mcb_add_to_freelist ?y h2) a ((us @ [Blk k True]) @ Blk ?m False # vs)"
    by (intro lay_add) (simp_all add: x)
  moreover have "p_vsf_heap_mcb_truncate x buf_end h = p_vsf_heap_mcb_add_to_freelist ?y h2"
  proof -
    have "(?y - x) div 4 = k" by simp
    moreover have "mcb_get_size h x = 4 * n" by (simp add: mcb_get_size_def nx)
    moreover have "mcb_bytes < x + 4 * n - ?y" using k by simp
    moreover have e: "x + 4 * k + ?m * 4 = x + 4 * n" using n by simp
    ultimately show ?thesis using f(5) nx k
      unfolding p_vsf_heap_mcb_truncate_def k(1) Let_def p_vsf_heap_mcb_get_next_def
      by (simp add: mcb_get_size_def h2_def h1_def [symmetric] fun_upd_def e)
  qed
  ultimately show ?thesis by (auto simp: h2_def h1_def p_vsf_heap_mcb_init_def)
qed

section \<open>Release\<close>

lemma merge_next_lay:
  assumes L: "heap_lay h a (us @ Blk n True # vs)" and x: "x = end_addr a us"
  shows "\<exists>n' vs'. heap_lay (mcb_merge_next x h) a (us @ Blk n' True # vs')
    \<and> lives (x + 4 * n') vs' = lives (x + 4 * n) vs \<and> used_bytes vs' = used_bytes vs
    \<and> hp_bytes (mcb_merge_next x h) = hp_bytes h \<and> hp_used_size (mcb_merge_next x h) = hp_used_size h"
proof -
  have ok: "layout_ok a (us @ Blk n True # vs)" using L by (simp add: heap_lay_def)
  note A = around [OF ok x]
  have nx: "hp_lnext h x = n" by (rule lay_fields [OF L x])
  let ?y = "x + 4 * n"
  have gn: "p_vsf_heap_mcb_get_next h x = ?y" by (simp add: p_vsf_heap_mcb_get_next_def mcb_get_size_def nx)
  obtain v ws where vs: "vs = v # ws" using L by (rule lay_block_behind)
  have yh: "?y \<in> heads a (us @ Blk n True # vs)" using x vs by simp
  have al: "p_vsf_heap_mcb_is_allocated h ?y \<longleftrightarrow> (\<nexists>m. v = Blk m False)"
  proof -
    have "?y \<notin> frees (?y + width v) ws"
      using A(2) vs ok frees_heads heads_bounds [of ws ?y "?y + width v"] blk_ok_width [of v]
      by (fastforce simp: layout_ok_def)
    moreover have "?y \<notin> frees a us" using A(1) frees_heads by fastforce
    ultimately show ?thesis
      using lay_is_allocated [OF L yh] x vs by (cases v; cases "in_use v") auto
  qed
  show ?thesis
  proof (cases "\<exists>m. v = Blk m False")
    case False
    then have "mcb_merge_next x h = h" using al gn by (simp add: mcb_merge_next_def)
    with L show ?thesis by (intro exI [of _ n] exI [of _ vs]) simp
  next
    case True
    then obtain m where v: "v = Blk m False" by blast
    let ?h = "p_vsf_heap_mcb_remove_from_freelist ?y h"
    have L1: "heap_lay ?h a (us @ Blk n True # Blk m True # ws)"
      using lay_remove [of h a "us @ [Blk n True]" m ws ?y] L vs v x by simp
    have ok': "layout_ok a (us @ Blk n True # Blk m True # ws)" using L1 by (simp add: heap_lay_def)
    have m: "3 \<le> m" using ok' by (simp add: layout_ok_def)
    have nm: "n + m < 65536"
      using ok' layout_split [OF A(3) m] around(6) x by blast
    have nxy: "hp_lnext h ?y = m" using lay_fields(1) [of h a "us @ [Blk n True]" m False ws] L vs v x by simp
    let ?h2 = "set_lprev (x + 4 * (n + m)) (n + m) (set_lnext x (n + m) ?h)"
    have "heap_lay ?h2 a (us @ Blk (n + m) True # ws)"
      by (rule lay_merge [OF L1 A(3) m x]) (use nm in simp_all)
    moreover have "mcb_merge_next x h = ?h2"
      using al True gn nx nxy nm A(3)
      by (simp add: mcb_merge_next_def p_vsf_heap_mcb_get_next_def mcb_get_size_def Let_def algebra_simps)
    ultimately show ?thesis using vs v
      by (intro exI [of _ "n + m"] exI [of _ ws]) (simp add: algebra_simps)
  qed
qed

lemma merge_prev_lay:
  assumes L: "heap_lay h a (us @ Blk n True # vs)" and x: "x = end_addr a us"
    and r: "mcb_merge_prev x h = (x', h')"
  shows "\<exists>us' n'. heap_lay h' a (us' @ Blk n' True # vs) \<and> x' = end_addr a us'
    \<and> x' + 4 * n' = x + 4 * n \<and> lives a us' = lives a us \<and> used_bytes us' = used_bytes us
    \<and> hp_bytes h' = hp_bytes h \<and> hp_used_size h' = hp_used_size h"
proof (cases "\<exists>ts k. us = ts @ [Blk k False]")
  case False
  have "x' = x \<and> h' = h"
  proof (cases us rule: rev_cases)
    case Nil
    then show ?thesis using r lay_fields(2) [OF L x] by (simp add: mcb_merge_prev_def)
  next
    case (snoc ts b)
    show ?thesis
    proof (cases b)
      case (Gap g)
      with snoc show ?thesis using r lay_fields(2) [OF L x] by (simp add: mcb_merge_prev_def)
    next
      case (Blk k u)
      with False snoc have b: "b = Blk k True" by (cases u) auto
      let ?y = "end_addr a ts"
      have L': "heap_lay h a (ts @ Blk k True # (Blk n True # vs))" using L snoc b by simp
      then have ok: "layout_ok a (ts @ Blk k True # (Blk n True # vs))" by (simp add: heap_lay_def)
      note A = around [OF ok refl]
      have "?y \<notin> frees a (ts @ Blk k True # (Blk n True # vs))"
        using A(1,2,3) frees_heads by fastforce
      then have "p_vsf_heap_mcb_is_allocated h ?y" using lay_is_allocated [OF L', of ?y] by simp
      moreover have "p_vsf_heap_mcb_get_prev h x = ?y"
        using lay_fields(2) [OF L x] snoc b x by (simp add: p_vsf_heap_mcb_get_prev_def)
      ultimately show ?thesis using r by (simp add: mcb_merge_prev_def split: if_splits)
    qed
  qed
  with L x show ?thesis by blast
next
  case True
  then obtain ts k where us: "us = ts @ [Blk k False]" by blast
  let ?y = "end_addr a ts"
  have L': "heap_lay h a (ts @ Blk k False # (Blk n True # vs))" using L us by simp
  then have ok: "layout_ok a (ts @ Blk k False # (Blk n True # vs))" by (simp add: heap_lay_def)
  note A = around [OF ok refl]
  have n: "3 \<le> n" using ok by (simp add: layout_ok_def)
  have xy: "x = ?y + 4 * k" using x us by simp
  have nx: "hp_lnext h ?y = k" "hp_lnext h x = n" "hp_lprev h x = k"
    using lay_fields [OF L' refl] lay_fields [OF L x] us by simp_all
  have "\<not> p_vsf_heap_mcb_is_allocated h ?y" using lay_is_allocated [OF L', of ?y] by simp
  moreover have "p_vsf_heap_mcb_get_prev h x = ?y" using nx xy by (simp add: p_vsf_heap_mcb_get_prev_def)
  moreover have L1: "heap_lay (p_vsf_heap_mcb_remove_from_freelist ?y h) a (ts @ Blk k True # Blk n True # vs)"
    by (rule lay_remove [OF L' refl])
  have kn: "k + n < 65536"
    using L1 layout_split [OF A(3) n] around(6) by (metis heap_lay_def)
  let ?h2 = "set_lprev (?y + 4 * (k + n)) (k + n) (set_lnext ?y (k + n) (p_vsf_heap_mcb_remove_from_freelist ?y h))"
  have "heap_lay ?h2 a (ts @ Blk (k + n) True # vs)"
    by (rule lay_merge [OF L1 A(3) n refl]) (use kn in simp_all)
  moreover have "mcb_merge_prev x h = (?y, ?h2)"
    using calculation nx A(3) kn
    by (simp add: mcb_merge_prev_def p_vsf_heap_mcb_get_next_def mcb_get_size_def Let_def algebra_simps)
  ultimately show ?thesis using r us xy
    by (intro exI [of _ ts] exI [of _ "k + n"]) (auto simp: algebra_simps)
qed

lemma mcb_free_lay:
  assumes L: "heap_lay h a (us @ Blk n True # vs)" and x: "x = end_addr a us"
  shows "\<exists>us' n' vs'. heap_lay (p_vsf_heap_mcb_free x h) a (us' @ Blk n' False # vs')
    \<and> lives a us' = lives a us \<and> used_bytes us' = used_bytes us
    \<and> lives (end_addr a us' + 4 * n') vs' = lives (x + 4 * n) vs \<and> used_bytes vs' = used_bytes vs
    \<and> hp_bytes (p_vsf_heap_mcb_free x h) = hp_bytes h
    \<and> hp_used_size (p_vsf_heap_mcb_free x h) = hp_used_size h - of_nat (4 * n)"
proof -
  let ?h1 = "mcb_merge_next x h"
  obtain n1 vs1 where 1: "heap_lay ?h1 a (us @ Blk n1 True # vs1)"
    "lives (x + 4 * n1) vs1 = lives (x + 4 * n) vs" "used_bytes vs1 = used_bytes vs"
    "hp_bytes ?h1 = hp_bytes h" "hp_used_size ?h1 = hp_used_size h"
    using merge_next_lay [OF L x] by blast
  obtain x2 h2 where r: "mcb_merge_prev x ?h1 = (x2, h2)" by fastforce
  obtain us2 n2 where 2: "heap_lay h2 a (us2 @ Blk n2 True # vs1)" "x2 = end_addr a us2"
    "x2 + 4 * n2 = x + 4 * n1" "lives a us2 = lives a us" "used_bytes us2 = used_bytes us"
    "hp_bytes h2 = hp_bytes ?h1" "hp_used_size h2 = hp_used_size ?h1"
    using merge_prev_lay [OF 1(1) x r] by blast
  define h3 where "h3 = p_vsf_heap_mcb_add_to_freelist x2 h2"
  have 3: "heap_lay h3 a (us2 @ Blk n2 False # vs1)" unfolding h3_def by (rule lay_add [OF 2(1,2)])
  have f: "p_vsf_heap_mcb_free x h = h3\<lparr>hp_used_size := hp_used_size h3 - of_nat (4 * n)\<rparr>"
    using r lay_fields(1) [OF L x]
    by (simp add: p_vsf_heap_mcb_free_def Let_def mcb_get_size_def h3_def mult.commute)
  have "heap_lay (p_vsf_heap_mcb_free x h) a (us2 @ Blk n2 False # vs1)"
    using 3 unfolding f heap_lay_def by simp
  moreover have "hp_used_size (p_vsf_heap_mcb_free x h) = hp_used_size h - of_nat (4 * n)"
    using f 1(5) 2(7) by (simp add: h3_def)
  moreover have "hp_bytes (p_vsf_heap_mcb_free x h) = hp_bytes h" using f 1(4) 2(6) by (simp add: h3_def)
  moreover have "lives (end_addr a us2 + 4 * n2) vs1 = lives (x + 4 * n) vs" using 1(2) 2(2,3) by simp
  ultimately show ?thesis using 1(3) 2(4,5) by blast
qed

text \<open>The block of a buffer: its header lies 12 to 15 bytes before it.\<close>

lemma and_pow2: "y AND (2 ^ e - 1) = y mod 2 ^ e"
  for y :: nat
  using take_bit_eq_mask [of e y] take_bit_eq_mod [of e y] mask_eq_exp_minus_1 [of e, where ?'a = nat]
  by simp

lemma calc_unaligned_pow2:
  "p_vsf_heap_calc_unaligned_size y (2 ^ e) = (if y mod 2 ^ e = 0 then 0 else 2 ^ e - y mod 2 ^ e)"
  unfolding p_vsf_heap_calc_unaligned_size_def Let_def and_pow2 by simp

lemma calc_unaligned4: "p_vsf_heap_calc_unaligned_size y 4 = (if y mod 4 = 0 then 0 else 4 - y mod 4)"
  using calc_unaligned_pow2 [of y 2] by simp

lemma get_mcb_eq:
  assumes "12 \<le> y"
  shows "p_vsf_heap_get_mcb y = (y - 12) div 4 * 4"
proof -
  have "(y - 12) div 4 * 4 = (y - 12) - (y - 12) mod 4" by (simp add: minus_mod_eq_div_mult)
  moreover have "(y - 12) mod 4 < 4" by simp
  ultimately show ?thesis
    by (auto simp: p_vsf_heap_get_mcb_def Let_def calc_unaligned4)
qed

lemma get_mcb_block:
  assumes "4 dvd x" "x + 12 \<le> y" "y < x + 16"
  shows "p_vsf_heap_get_mcb y = x"
proof -
  obtain q where q: "x = 4 * q" using assms(1) by (rule dvdE)
  have "(y - 12) div 4 = q" by (rule div_nat_eqI) (use assms q in auto)
  with get_mcb_eq [of y] assms q show ?thesis by simp
qed

section \<open>Allocation\<close>

lemma mcb_fit_ends:
  assumes "4 dvd x" "4 dvd b" "x + 12 \<le> b" "b = x + 12 \<or> 0 < al \<and> 4 dvd al" "al = 0 \<or> al dvd b"
  shows "\<exists>r. mcb_fit al x sz b s = Some r \<and> (\<forall>b' s'. r = Some (b', s') \<longrightarrow>
      b' + s' = b + s \<and> sz \<le> s' \<and> 4 dvd b' \<and> (al = 0 \<or> al dvd b') \<and> (b' = x + 12 \<or> x + 28 \<le> b'))"
  using assms
proof (induction s arbitrary: b rule: less_induct)
  case (less s)
  have d: "4 dvd b - 12 - x" using less.prems(1-3) by (intro dvd_diff_nat) auto
  have mcb: "p_vsf_heap_get_mcb b = b - 12"
    using less.prems(2,3) by (intro get_mcb_block) (auto intro: dvd_diff_nat)
  show ?case
  proof (cases "sz \<le> s \<and> b - 12 - x \<noteq> 0 \<and> b - 12 - x \<le> 12")
    case False
    then consider "\<not> sz \<le> s" | "sz \<le> s" "b = x + 12" | "sz \<le> s" "12 < b - 12 - x"
      using less.prems(3) by linarith
    then show ?thesis
    proof cases
      case 3
      then have "b - 12 - x = 4 * ((b - 12 - x) div 4)" using d by simp
      with 3(2) have "16 \<le> b - 12 - x" by presburger
      with 3 mcb less.prems show ?thesis by (subst mcb_fit.simps) auto
    qed (use mcb less.prems in \<open>subst mcb_fit.simps, auto\<close>)+
  next
    case True
    then have al: "0 < al" "4 dvd al" using less.prems(3,4) by auto
    show ?thesis
    proof (cases "s < al")
      case True
      with \<open>sz \<le> s \<and> _\<close> mcb show ?thesis by (subst mcb_fit.simps) simp
    next
      case False
      have "\<exists>r. mcb_fit al x sz (b + al) (s - al) = Some r \<and> (\<forall>b' s'. r = Some (b', s') \<longrightarrow>
          b' + s' = b + al + (s - al) \<and> sz \<le> s' \<and> 4 dvd b' \<and> (al = 0 \<or> al dvd b')
          \<and> (b' = x + 12 \<or> x + 28 \<le> b'))"
        by (rule less.IH) (use False al less.prems in auto)
      moreover have "mcb_fit al x sz b s = mcb_fit al x sz (b + al) (s - al)"
        using True False mcb by (subst mcb_fit.simps) simp
      ultimately show ?thesis using False by simp
    qed
  qed
qed

lemma mcb_place_ends:
  assumes "4 dvd x" "hp_lnext h x = n" "3 \<le> n" "al = 0 \<or> al = 2 ^ e"
  shows "\<exists>r. mcb_place h x sz al = Some r \<and> (\<forall>b s. r = Some (b, s) \<longrightarrow>
      b + s = x + 4 * n \<and> sz \<le> s \<and> 4 dvd b \<and> (al = 0 \<or> al dvd b) \<and> (b = x + 12 \<or> x + 28 \<le> b))"
proof -
  let ?b = "x + 12" and ?s = "4 * n - 12"
  have bs: "?b + ?s = x + 4 * n" using assms(3) by simp
  have sz: "mcb_get_size h x - mcb_bytes = ?s" by (simp add: mcb_get_size_def assms(2) mult.commute)
  have d4: "4 dvd ?b" using assms(1) by simp
  show ?thesis
  proof (cases "al = 0 \<or> ?b mod al = 0")
    case True
    then have "mcb_place h x sz al = mcb_fit al x sz ?b ?s"
      using assms(4) by (auto simp: mcb_place_def sz Let_def calc_unaligned_pow2)
    with mcb_fit_ends [of x ?b al sz ?s] True assms(1) d4 bs show ?thesis by auto
  next
    case False
    with assms(4) have al: "al = 2 ^ e" "0 < al" by auto
    define u where "u = al - ?b mod al"
    have "2 \<le> e"
    proof (rule ccontr)
      assume "\<not> ?thesis"
      then have "e = 0 \<or> e = 1" by linarith
      then have "al dvd 4" using al(1) by auto
      with d4 False show False by (meson dvd_imp_mod_0 dvd_trans)
    qed
    then have al4: "4 dvd al" using al(1) le_imp_power_dvd [of 2 e 2] by simp
    have lt: "?b mod al < al" using al(2) by simp
    have "?b = al * (?b div al) + ?b mod al" by simp
    then have "?b + u = al * (?b div al) + al" unfolding u_def using lt by linarith
    then have du: "al dvd ?b + u" by simp
    then have p: "4 dvd ?b + u" using al4 by (meson dvd_trans)
    have c: "p_vsf_heap_calc_unaligned_size ?b al = u" "al \<noteq> 0"
      using False al by (simp_all add: calc_unaligned_pow2 u_def)
    have "u \<noteq> 0" unfolding u_def using lt by linarith
    note c = c this
    show ?thesis
    proof (cases "?s < u")
      case True
      with c show ?thesis by (simp add: mcb_place_def sz Let_def)
    next
      case le: False
      have "mcb_place h x sz al = mcb_fit al x sz (?b + u) (?s - u)"
        using c le by (simp add: mcb_place_def sz Let_def)
      moreover have "\<exists>r. mcb_fit al x sz (?b + u) (?s - u) = Some r \<and> (\<forall>b s. r = Some (b, s) \<longrightarrow>
          b + s = ?b + u + (?s - u) \<and> sz \<le> s \<and> 4 dvd b \<and> (al = 0 \<or> al dvd b) \<and> (b = x + 12 \<or> x + 28 \<le> b))"
        by (rule mcb_fit_ends) (use assms(1) p al al4 du in auto)
      moreover have "?b + u + (?s - u) = x + 4 * n" using le bs by linarith
      ultimately show ?thesis by metis
    qed
  qed
qed

text \<open>The header of the new block is written; what is left of the old block stays free.\<close>

lemma carve_front:
  assumes L: "heap_lay h a (us @ Blk n False # vs)" and x: "x = end_addr a us"
    and n: "n = k + m" "3 \<le> k" "3 \<le> m" and y: "y = x + 4 * k"
    and h1: "h1 = p_vsf_heap_mcb_add_to_freelist x (set_lnext x k (p_vsf_heap_mcb_remove_from_freelist x h))"
    and h2: "h2 = set_lprev (y + 4 * m) m (set_lnext y m (set_lprev y k (p_vsf_heap_mcb_init y h1)))"
  shows "heap_lay h2 a (us @ Blk k False # Blk m True # vs)"
proof -
  have ok: "layout_ok a (us @ Blk n False # vs)" using L by (simp add: heap_lay_def)
  note A = around [OF ok x]
  have km: "k < 65536" "m < 65536" using A(6) n by linarith+
  have H: "x \<notin> heads a us" "x \<notin> heads (x + 4 * n) vs" "y \<notin> heads a us" "y \<notin> heads (x + 4 * n) vs"
    using A(1,2,3) n y by fastforce+
  let ?F = "frees a us \<union> frees (x + 4 * n) vs" and ?H = "heads a us \<union> heads (x + 4 * n) vs"
  have xF: "x \<notin> ?F" "y \<notin> insert x ?F" using H frees_heads n y by fastforce+
  have "fl h (insert x ?F) (insert x ?H - insert x ?F)" using L x by (simp add: heap_lay_def insert_commute)
  from fl_remove [OF this, of x]
  have "fl (p_vsf_heap_mcb_remove_from_freelist x h) ?F (insert x (insert x ?H - insert x ?F))"
    using xF by (simp add: Diff_insert0)
  from fl_add [OF fl_set_lnext [OF this xF(1), of k], of x] A(4)
  have "fl h1 (insert x ?F) (insert x (insert x ?H - insert x ?F) - {x})" unfolding h1 by simp
  from fl_set_lnext [OF fl_clear [OF this xF(2)] xF(2), of m]
  have "fl h2 (insert x ?F) (insert y (insert x (insert x ?H - insert x ?F) - {x}))"
    unfolding h2 by simp
  then have f: "fl h2 (insert x ?F) (insert x (insert y ?H) - insert x ?F)"
    by (rule free_lists_mono) auto
  have "hp_lnext h2 = (hp_lnext h)(x := k, y := m)" "hp_lprev h2 = (hp_lprev h)(y := k, x + 4 * (k + m) := m)"
    using km y by (auto simp: h2 h1 fun_eq_iff algebra_simps)
  with L ok x n y have "seg (hp_lnext h2) (hp_lprev h2) 0 a (us @ Blk k False # Blk m True # vs)"
    by (intro seg_split [of a us k m False vs "hp_lnext h" "hp_lprev h"]) (simp_all add: heap_lay_def)
  moreover have "layout_ok a (us @ Blk k False # Blk m True # vs)"
    using ok layout_split [OF n(2,3)] n(1) by blast
  ultimately show ?thesis using f x y n(1)
    by (simp add: heap_lay_def algebra_simps insert_commute)
qed

lemma carve_whole:
  assumes L: "heap_lay h a (us @ Blk n False # vs)" and x: "x = end_addr a us"
    and h2: "h2 = set_lprev (x + 4 * n) n (set_lnext x n (set_lprev x (hp_lprev h x)
        (p_vsf_heap_mcb_init x (p_vsf_heap_mcb_remove_from_freelist x h))))"
  shows "heap_lay h2 a (us @ Blk n True # vs)"
proof -
  let ?h1 = "p_vsf_heap_mcb_remove_from_freelist x h"
  have L1: "heap_lay ?h1 a (us @ Blk n True # vs)" by (rule lay_remove [OF L x])
  have ok: "layout_ok a (us @ Blk n True # vs)" using L1 by (simp add: heap_lay_def)
  note A = around [OF ok x]
  obtain v ws where vs: "vs = v # ws" using L by (rule lay_block_behind)
  have "hp_lprev h (x + 4 * n) = n" using L x vs by (simp add: heap_lay_def)
  moreover have "hp_lnext h x = n" "hp_lprev h x = end_prev 0 us" using lay_fields [OF L x] by simp_all
  moreover have "end_prev 0 us < 65536"
  proof (cases us rule: rev_cases)
    case (snoc ts b)
    then show ?thesis using ok fits_units [of 0 ts "units b" "in_use b" "Blk n True # vs"]
      by (cases b) (auto simp: layout_ok_def)
  qed simp
  ultimately show ?thesis
    by (intro lay_clear [OF L1 x]) (use A(6) in \<open>auto simp: h2 fun_eq_iff\<close>)
qed

lemma carve_lay:
  assumes L: "heap_lay h a (us @ Blk n False # vs)" and x: "x = end_addr a us"
    and b: "b + s = x + 4 * n" "sz \<le> s" "4 dvd b" "b = x + 12 \<or> x + 28 \<le> b" and sz: "4 dvd sz"
    and h': "h' = mcb_carve x sz b s h"
  shows "\<exists>us' n' vs'. heap_lay h' a (us' @ Blk n' True # vs') \<and> b = end_addr a us' + 12
    \<and> sz + 12 \<le> 4 * n' \<and> lives a us' = lives a us \<and> used_bytes us' = used_bytes us
    \<and> lives (end_addr a us' + 4 * n') vs' = lives (x + 4 * n) vs \<and> used_bytes vs' = used_bytes vs
    \<and> (\<forall>i. i < x \<or> x + 4 * n \<le> i \<longrightarrow> hp_bytes h' i = hp_bytes h i)
    \<and> hp_used_size h' = hp_used_size h + of_nat (4 * n')"
proof -
  have ok: "layout_ok a (us @ Blk n False # vs)" using L by (simp add: heap_lay_def)
  note A = around [OF ok x]
  let ?y = "b - 12"
  define k where "k = (?y - x) div 4"
  define m where "m = n - k"
  have xb: "x + 12 \<le> b" using b(4) by auto
  have d: "4 dvd ?y - x" using A(5) b(3) xb by (intro dvd_diff_nat) auto
  then have y: "?y = x + 4 * k" using xb by (simp add: k_def)
  have k: "k = 0 \<or> 4 \<le> k" using b(4) y xb by linarith
  have m: "3 \<le> m" "n = k + m" using b(1) y xb by (simp_all add: m_def)
  have mcb: "p_vsf_heap_get_mcb b = ?y"
    using xb b(3) by (intro get_mcb_block) (auto intro: dvd_diff_nat)
  have bs: "(b - ?y + s) div 4 = m" using b(1) y m(2) xb by simp
  have nxx: "hp_lnext h x = n" by (rule lay_fields [OF L x])
  have m16: "m < 65536" "k < 65536" using A(6) m by linarith+
  \<comment> \<open>the heap before the block is truncated\<close>
  define t where "t = (if k = 0 then hp_lprev h x else k)"
  define h1 where "h1 = (if k = 0 then p_vsf_heap_mcb_remove_from_freelist x h
    else p_vsf_heap_mcb_add_to_freelist x (set_lnext x k (p_vsf_heap_mcb_remove_from_freelist x h)))"
  define h2 where "h2 = set_lprev (?y + 4 * m) m (set_lnext ?y m (set_lprev ?y t (p_vsf_heap_mcb_init ?y h1)))"
  define us2 where "us2 = (if k = 0 then us else us @ [Blk k False])"
  have L2: "heap_lay h2 a (us2 @ Blk m True # vs)"
  proof (cases "k = 0")
    case True
    then have "?y = x" "m = n" using y m by simp_all
    with True have "h2 = set_lprev (x + 4 * n) n (set_lnext x n (set_lprev x (hp_lprev h x)
        (p_vsf_heap_mcb_init x (p_vsf_heap_mcb_remove_from_freelist x h))))"
      by (simp add: h2_def h1_def t_def)
    from carve_whole [OF L x this] True \<open>m = n\<close> show ?thesis by (simp add: us2_def)
  next
    case False
    with k have "3 \<le> k" by simp
    with carve_front [OF L x m(2) this m(1) y refl, of h2] False show ?thesis
      by (simp add: us2_def h2_def h1_def t_def)
  qed
  have y2: "?y = end_addr a us2" using y x by (simp add: us2_def)
  have us2: "lives a us2 = lives a us" "used_bytes us2 = used_bytes us" by (simp_all add: us2_def)
  have b2: "hp_bytes h2 = (\<lambda>i. if ?y \<le> i \<and> i < ?y + 12 then 0 else hp_bytes h i)"
    "hp_used_size h2 = hp_used_size h"
    by (auto simp: h2_def h1_def p_vsf_heap_mcb_init_def fun_eq_iff)
  \<comment> \<open>truncation to the size asked for\<close>
  define h3 where "h3 = p_vsf_heap_mcb_truncate ?y (b + sz) h2"
  obtain q where q: "sz = 4 * q" using sz by (rule dvdE)
  obtain p where p: "b = 4 * p" using b(3) by (rule dvdE)
  have be: "(b + sz + 3) div 4 * 4 = ?y + 4 * (q + 3)"
  proof -
    have "b + sz + 3 = 4 * (p + q) + 3" using p q by simp
    then have "(b + sz + 3) div 4 = p + q" by simp
    then show ?thesis using p xb by simp
  qed
  have qm: "q + 3 \<le> m" using b(1,2) q y m(2) xb by linarith
  have "\<exists>n' vs'. heap_lay h3 a (us2 @ Blk n' True # vs') \<and> sz + 12 \<le> 4 * n'
      \<and> lives (?y + 4 * n') vs' = lives (x + 4 * n) vs \<and> used_bytes vs' = used_bytes vs
      \<and> (\<forall>i. i < x \<or> x + 4 * n \<le> i \<longrightarrow> hp_bytes h3 i = hp_bytes h i) \<and> hp_used_size h3 = hp_used_size h"
  proof (cases "q + 3 + 3 < m")
    case True
    note T = truncate_cut [OF L2 y2 be _ True]
    have "lives (?y + 4 * (q + 3)) (Blk (m - (q + 3)) False # vs) = lives (x + 4 * n) vs"
      using True y m(2) by (simp add: algebra_simps)
    moreover have "\<forall>i. i < x \<or> x + 4 * n \<le> i \<longrightarrow> hp_bytes h3 i = hp_bytes h i"
      using T b2(1) y m(2) True by (auto simp: h3_def)
    ultimately show ?thesis using T q b2 unfolding h3_def
      by (intro exI [of _ "q + 3"] exI [of _ "Blk (m - (q + 3)) False # vs"]) simp
  next
    case False
    have "mcb_get_size h2 ?y = 4 * m"
      using lay_fields(1) [OF L2 y2] by (simp add: mcb_get_size_def)
    then have "h3 = h2" unfolding h3_def using False be by (intro truncate_keep) simp
    moreover have "\<forall>i. i < x \<or> x + 4 * n \<le> i \<longrightarrow> hp_bytes h2 i = hp_bytes h i"
      using b2(1) y m xb by auto
    moreover have "?y + 4 * m = x + 4 * n" using y m(2) by simp
    ultimately show ?thesis using L2 b2(2) qm q by (intro exI [of _ m] exI [of _ vs]) simp
  qed
  then obtain n' vs' where R: "heap_lay h3 a (us2 @ Blk n' True # vs')" "sz + 12 \<le> 4 * n'"
    "lives (?y + 4 * n') vs' = lives (x + 4 * n) vs" "used_bytes vs' = used_bytes vs"
    "\<forall>i. i < x \<or> x + 4 * n \<le> i \<longrightarrow> hp_bytes h3 i = hp_bytes h i" "hp_used_size h3 = hp_used_size h" by blast
  have "h' = h3\<lparr>hp_used_size := hp_used_size h3 + of_nat (mcb_get_size h3 ?y),
      hp_max_used_size := max (hp_max_used_size h3) (hp_used_size h3 + of_nat (mcb_get_size h3 ?y))\<rparr>"
    using mcb bs y m16 unfolding h' mcb_carve_def h3_def h2_def h1_def t_def
    by (simp add: Let_def p_vsf_heap_mcb_get_next_def mcb_get_size_def mult.commute)
  moreover have "mcb_get_size h3 ?y = 4 * n'" using lay_fields(1) [OF R(1) y2] by (simp add: mcb_get_size_def)
  ultimately have "heap_lay h' a (us2 @ Blk n' True # vs')" "hp_bytes h' = hp_bytes h3"
    "hp_used_size h' = hp_used_size h + of_nat (4 * n')"
    using R(1,6) by (simp_all add: heap_lay_def)
  moreover have "b = end_addr a us2 + 12" using y2 xb by simp
  ultimately show ?thesis using R us2 y2 by (intro exI [of _ us2] exI [of _ n'] exI [of _ vs']) simp
qed

subsection \<open>Searching the free lists\<close>

lemma entries_split:
  "(x, b) \<in> set (entries a xs) \<Longrightarrow> \<exists>us vs. xs = us @ b # vs \<and> x = end_addr a us"
proof (induction xs arbitrary: a)
  case (Cons c xs)
  show ?case
  proof (cases "(x, b) = (a, c)")
    case True
    then show ?thesis by (intro exI [of _ "[]"] exI [of _ xs]) simp
  next
    case False
    with Cons.prems have "(x, b) \<in> set (entries (a + width c) xs)" by auto
    from Cons.IH [OF this] obtain us vs where "xs = us @ b # vs" "x = end_addr (a + width c) us" by blast
    then show ?thesis by (intro exI [of _ "c # us"] exI [of _ vs]) simp
  qed
qed simp

lemma frees_split: "x \<in> frees a xs \<Longrightarrow> \<exists>us n vs. xs = us @ Blk n False # vs \<and> x = end_addr a us"
  unfolding frees_def using entries_split by blast

lemma lives_split: "(x, n) \<in> lives a xs \<Longrightarrow> \<exists>us vs. xs = us @ Blk n True # vs \<and> x = end_addr a us"
  unfolding lives_def using entries_split by blast

lemma lives_bounds: "(z, l) \<in> lives a xs \<Longrightarrow> a \<le> z \<and> z + 4 * l \<le> end_addr a xs"
  using lives_split [of z l a xs] end_addr_le by fastforce

text \<open>
  What a successful allocation does: one more block in use, which holds the buffer, the bytes of
  all other blocks in use unchanged.
\<close>

definition allocated :: "vsf_heap_t \<Rightarrow> ptr \<Rightarrow> blk list \<Rightarrow> nat \<Rightarrow> nat \<Rightarrow> ptr \<Rightarrow> vsf_heap_t \<Rightarrow> bool" where
  "allocated h a xs sz al b h' \<longleftrightarrow> (\<exists>xs' n. heap_lay h' a xs' \<and> 12 < b
     \<and> lives a xs' = insert (b - 12, n) (lives a xs) \<and> b - 12 \<notin> fst ` lives a xs
     \<and> sz + 12 \<le> 4 * n \<and> (al = 0 \<or> al dvd b) \<and> used_bytes xs' = used_bytes xs + 4 * n
     \<and> hp_used_size h' = hp_used_size h + of_nat (4 * n)
     \<and> (\<forall>z l i. (z, l) \<in> lives a xs \<longrightarrow> z \<le> i \<longrightarrow> i < z + 4 * l \<longrightarrow> hp_bytes h' i = hp_bytes h i))"

lemma mcb_malloc_ok:
  assumes L: "heap_lay h a xs" and "x \<in> frees a xs" and al: "al = 0 \<or> al = 2 ^ e" and sz: "4 dvd sz"
  shows "\<exists>b h'. p_vsf_heap_mcb_malloc x sz al h = Some (b, h')
    \<and> (b = null \<and> h' = h \<or> allocated h a xs sz al b h')"
proof -
  obtain us n vs where xs: "xs = us @ Blk n False # vs" and x: "x = end_addr a us"
    using frees_split [OF assms(2)] by blast
  note L = L [unfolded xs]
  have ok: "layout_ok a (us @ Blk n False # vs)" using L by (simp add: heap_lay_def)
  note A = around [OF ok x]
  obtain r where r: "mcb_place h x sz al = Some r"
    and R: "\<And>b s. r = Some (b, s) \<Longrightarrow> b + s = x + 4 * n \<and> sz \<le> s \<and> 4 dvd b \<and> (al = 0 \<or> al dvd b)
        \<and> (b = x + 12 \<or> x + 28 \<le> b)"
    using mcb_place_ends [OF A(5) lay_fields(1) [OF L x] A(3) al, of sz] by blast
  show ?thesis
  proof (cases r)
    case None
    with r show ?thesis by (simp add: p_vsf_heap_mcb_malloc_def)
  next
    case (Some bs)
    obtain b s where bs: "bs = (b, s)" by fastforce
    let ?h = "mcb_carve x sz b s h"
    note R = R [OF Some [unfolded bs]]
    obtain us' n' vs' where C: "heap_lay ?h a (us' @ Blk n' True # vs')" "b = end_addr a us' + 12"
      "sz + 12 \<le> 4 * n'" "lives a us' = lives a us" "used_bytes us' = used_bytes us"
      "lives (end_addr a us' + 4 * n') vs' = lives (x + 4 * n) vs" "used_bytes vs' = used_bytes vs"
      "\<forall>i. i < x \<or> x + 4 * n \<le> i \<longrightarrow> hp_bytes ?h i = hp_bytes h i"
      "hp_used_size ?h = hp_used_size h + of_nat (4 * n')"
      using carve_lay [OF L x, of b s sz ?h] R sz by auto
    have lv: "lives a xs = lives a us \<union> lives (x + 4 * n) vs" using xs x by simp
    have bytes: "hp_bytes ?h i = hp_bytes h i" if "(z, l) \<in> lives a xs" "z \<le> i" "i < z + 4 * l" for z l i
      using that lv C(8) lives_bounds [of z l a us] lives_bounds [of z l "x + 4 * n" vs] x by fastforce
    have ok': "layout_ok a (us' @ Blk n' True # vs')" using C(1) by (simp add: heap_lay_def)
    note A' = around [OF ok' refl]
    have "end_addr a us' \<notin> fst ` lives a us'"
    proof
      assume "end_addr a us' \<in> fst ` lives a us'"
      then have "end_addr a us' \<in> heads a us'" by (force simp: lives_def heads_def)
      with A'(1) show False by fastforce
    qed
    moreover have "end_addr a us' \<notin> fst ` lives (end_addr a us' + 4 * n') vs'"
      using lives_bounds A'(3) by fastforce
    ultimately have "b - 12 \<notin> fst ` lives a xs" using C(2,4,6) lv by auto
    moreover have "lives a (us' @ Blk n' True # vs') = insert (b - 12, n') (lives a xs)"
      using C(2,4,6) lv by auto
    moreover have "12 < b" using C(2) A'(4) by simp
    ultimately have "allocated h a xs sz al b ?h"
      unfolding allocated_def using C R bytes xs
      by (intro exI [of _ "us' @ Blk n' True # vs'"] exI [of _ n']) auto
    with r Some bs show ?thesis by (simp add: p_vsf_heap_mcb_malloc_def)
  qed
qed

lemma freelist_malloc_ok:
  assumes L: "heap_lay h a xs" and al: "al = 0 \<or> al = 2 ^ e" and sz: "4 dvd sz"
    and D: "dlist (hp_links h, l) (ps @ qs)" and "set qs \<subseteq> frees a xs"
  shows "\<exists>b h'. p_vsf_heap_freelist_malloc sz al (first qs null) h = Some (b, h')
    \<and> (b = null \<and> h' = h \<or> allocated h a xs sz al b h')"
  using D assms(5)
proof (induction qs arbitrary: ps)
  case Nil
  then show ?case by (subst p_vsf_heap_freelist_malloc.simps) simp
next
  case (Cons q qs)
  have q: "q \<noteq> null" "dl_next (hp_links h) q = first qs null" using Cons.prems(1) by (auto simp: dlist_def)
  obtain b h' where m: "p_vsf_heap_mcb_malloc q sz al h = Some (b, h')"
    "b = null \<and> h' = h \<or> allocated h a xs sz al b h'"
    using mcb_malloc_ok [OF L _ al sz, of q] Cons.prems(2) by auto
  show ?case
  proof (cases "b = null")
    case True
    with m(2) have "h' = h" by (auto simp: allocated_def)
    with m True q Cons.IH [of "ps @ [q]"] Cons.prems show ?thesis
      by (subst p_vsf_heap_freelist_malloc.simps) simp
  next
    case False
    with m q show ?thesis by (subst p_vsf_heap_freelist_malloc.simps) simp
  qed
qed

lemma freelists_malloc_ok:
  assumes L: "heap_lay h a xs" and al: "al = 0 \<or> al = 2 ^ e" and sz: "4 dvd sz"
    and "\<forall>b\<in>set bs. b < length (hp_freelist h)"
  shows "\<exists>b h'. freelists_malloc sz al bs h = Some (b, h')
    \<and> (b = null \<and> h' = h \<or> b \<noteq> null \<and> allocated h a xs sz al b h')"
  using assms(4)
proof (induction bs)
  case (Cons c bs)
  have "fl h (frees a xs) (heads a xs - frees a xs)" using L by (simp add: heap_lay_def)
  then obtain qs where D: "dlist (hp_links h, hp_freelist h ! c) qs" and q: "set qs \<subseteq> frees a xs"
    using Cons.prems by (auto simp: free_lists_def)
  have hd: "dl_head (hp_freelist h ! c) = first qs null" using D by (simp add: dlist_def)
  obtain b h' where m: "p_vsf_heap_freelist_malloc sz al (first qs null) h = Some (b, h')"
    "b = null \<and> h' = h \<or> allocated h a xs sz al b h'"
    using freelist_malloc_ok [OF L al sz, of "hp_freelist h ! c" "[]" qs] D q by auto
  show ?case
  proof (cases "first qs null = null \<or> b = null")
    case True
    with m have "freelists_malloc sz al (c # bs) h = freelists_malloc sz al bs h"
      using hd by (auto simp: allocated_def Let_def)
    with Cons show ?thesis by simp
  next
    case False
    with m hd have "freelists_malloc sz al (c # bs) h = Some (b, h')" by simp
    with m(2) False show ?thesis by blast
  qed
qed simp

subsection \<open>Sizes as the caller passes them\<close>

lemma unat_round4: "unat (round4 sz) = unat (sz + 3) div 4 * 4"
proof -
  have m: "(3 :: u32) = mask 2" by (simp add: mask_eq_exp_minus_1)
  have "round4 sz = push_bit 2 (drop_bit 2 (sz + 3))"
    unfolding round4_def m
  proof (rule bit_eqI)
    fix n assume n: "possible_bit TYPE(u32) n"
    show "bit (sz + mask 2 AND NOT (mask 2)) n = bit (push_bit 2 (drop_bit 2 (sz + mask 2))) n"
    proof (cases "n < 2")
      case False
      then obtain j where "n = 2 + j" using le_Suc_ex not_less by blast
      with n show ?thesis by (simp add: bit_simps)
    qed (simp add: bit_simps)
  qed
  then have "unat (round4 sz) = take_bit LENGTH(32) (push_bit 2 (drop_bit 2 (unat (sz + 3))))"
    by (simp only: unsigned_push_bit_eq unat_drop_bit_eq)
  then have "unat (round4 sz) = take_bit 32 (unat (sz + 3) div 4 * 4)"
    by (simp add: push_bit_eq_mult drop_bit_eq_div)
  moreover have "unat (sz + 3) div 4 * 4 \<le> unat (sz + 3)" by simp
  then have "unat (sz + 3) div 4 * 4 < 2 ^ 32" by (rule le_less_trans) simp
  ultimately show ?thesis by (simp add: take_bit_nat_eq_self)
qed

lemma round4_big_enough: "unat sz + 3 < 2 ^ 32 \<Longrightarrow> unat sz \<le> unat (round4 sz)"
  by (simp add: unat_round4 unat_add_small)

lemma unat_pow2: "e < 32 \<Longrightarrow> unat (2 ^ e :: u32) = 2 ^ e"
proof -
  assume "e < 32"
  then have "(2 :: nat) ^ e < 2 ^ 32" by (intro power_strict_increasing) auto
  then have "unat (of_nat (2 ^ e) :: u32) = 2 ^ e"
    using \<open>e < 32\<close> by (simp only: unsigned_of_nat) (simp add: take_bit_nat_eq_self)
  then show ?thesis by simp
qed

lemma pow2_check: "(2 ^ e :: u32) AND (2 ^ e - 1) = 0"
  by (rule bit_eqI) (auto simp: bit_simps mask_eq_exp_minus_1 [symmetric] bit_exp_iff)

lemma get_freelist_less: "0 < num \<Longrightarrow> vsf_heap_get_freelist num sz c < num"
  by (auto simp: vsf_heap_get_freelist_def Let_def)

lemma malloc_aligned_ok:
  assumes L: "heap_lay h a xs" and al: "alignment = 0 \<or> e < 32 \<and> alignment = 2 ^ e"
  shows "\<exists>b h'. p_vsf_heap_malloc_aligned sz alignment h = Some (b, h')
    \<and> (b = null \<and> h' = h \<or> b \<noteq> null \<and> allocated h a xs (unat (round4 sz)) (unat alignment) b h')"
proof -
  have "unat alignment = 0 \<or> unat alignment = 2 ^ e"
    using al by (auto simp: unat_pow2)
  moreover have "4 dvd unat (round4 sz)" by (simp add: unat_round4)
  moreover have "alignment = 0 \<or> alignment AND (alignment - 1) = 0" using al pow2_check [of e] by auto
  ultimately show ?thesis
    using freelists_malloc_ok [OF L, of "unat alignment" e "unat (round4 sz)"
        "[vsf_heap_get_freelist (length (hp_freelist h)) (of_nat mcb_bytes + alignment - 1 + sz) True..<length (hp_freelist h)]"]
    by (auto simp: p_vsf_heap_malloc_aligned_def Let_def)
qed

section \<open>Blocks in use\<close>

lemma lives_disjoint:
  assumes "(x, n) \<in> lives a xs" "(y, m) \<in> lives a xs" "x \<noteq> y"
  shows "x + 4 * n \<le> y \<or> y + 4 * m \<le> x"
proof -
  obtain us vs where xs: "xs = us @ Blk n True # vs" "x = end_addr a us" using lives_split [OF assms(1)] by blast
  then have "(y, m) \<in> lives a us \<or> (y, m) \<in> lives (x + 4 * n) vs" using assms(2,3) by auto
  then show ?thesis using lives_bounds xs(2) by blast
qed

lemma live_block:
  assumes L: "heap_lay h a xs" and lv: "(x, n) \<in> lives a xs"
  shows "p_vsf_heap_mcb_is_allocated h x" "hp_lnext h x = n" "0 < x" "4 dvd x" "3 \<le> n"
proof -
  obtain us vs where xs: "xs = us @ Blk n True # vs" and x: "x = end_addr a us"
    using lives_split [OF lv] by blast
  have ok: "layout_ok a (us @ Blk n True # vs)" using L xs by (simp add: heap_lay_def)
  note A = around [OF ok x]
  have "x \<notin> frees a xs" using A(1,2,3) frees_heads xs x by fastforce
  then show "p_vsf_heap_mcb_is_allocated h x" using lay_is_allocated [OF L, of x] xs x by simp
  show "hp_lnext h x = n" using lay_fields [of h a us n True vs x] L xs x by simp
  show "0 < x" "4 dvd x" "3 \<le> n" using A by auto
qed

lemma mcb_free_ok:
  assumes L: "heap_lay h a xs" and lv: "(x, n) \<in> lives a xs"
  shows "\<exists>xs'. heap_lay (p_vsf_heap_mcb_free x h) a xs' \<and> lives a xs' = lives a xs - {(x, n)}
    \<and> used_bytes xs = used_bytes xs' + 4 * n
    \<and> hp_bytes (p_vsf_heap_mcb_free x h) = hp_bytes h
    \<and> hp_used_size (p_vsf_heap_mcb_free x h) = hp_used_size h - of_nat (4 * n)"
proof -
  obtain us vs where xs: "xs = us @ Blk n True # vs" and x: "x = end_addr a us"
    using lives_split [OF lv] by blast
  have ok: "layout_ok a (us @ Blk n True # vs)" using L xs by (simp add: heap_lay_def)
  note A = around [OF ok x]
  obtain us' n' vs' where F: "heap_lay (p_vsf_heap_mcb_free x h) a (us' @ Blk n' False # vs')"
    "lives a us' = lives a us" "used_bytes us' = used_bytes us"
    "lives (end_addr a us' + 4 * n') vs' = lives (x + 4 * n) vs" "used_bytes vs' = used_bytes vs"
    "hp_bytes (p_vsf_heap_mcb_free x h) = hp_bytes h"
    "hp_used_size (p_vsf_heap_mcb_free x h) = hp_used_size h - of_nat (4 * n)"
    using mcb_free_lay [OF L [unfolded xs] x] by blast
  have "(x, n) \<notin> lives a us" "(x, n) \<notin> lives (x + 4 * n) vs"
    using lives_bounds [of x n a us] lives_bounds [of x n "x + 4 * n" vs] A(3) x by fastforce+
  then have "lives a (us' @ Blk n' False # vs') = lives a xs - {(x, n)}" using F(2,4) xs x by auto
  with F xs show ?thesis by (intro exI [of _ "us' @ Blk n' False # vs'"]) simp
qed

text \<open>The bytes of every block in use are the same in both heaps.\<close>

definition bytes_kept :: "ptr \<Rightarrow> blk list \<Rightarrow> vsf_heap_t \<Rightarrow> vsf_heap_t \<Rightarrow> bool" where
  "bytes_kept a xs h h' \<longleftrightarrow>
     (\<forall>z l i. (z, l) \<in> lives a xs \<longrightarrow> z \<le> i \<longrightarrow> i < z + 4 * l \<longrightarrow> hp_bytes h' i = hp_bytes h i)"

lemma allocated_wf:
  assumes "allocated h a xs sz al b h'" "heap_wf h a xs"
  shows "\<exists>xs' n. heap_wf h' a xs' \<and> 12 < b \<and> (al = 0 \<or> al dvd b)
    \<and> lives a xs' = insert (b - 12, n) (lives a xs) \<and> b - 12 \<notin> fst ` lives a xs
    \<and> sz + 12 \<le> 4 * n \<and> bytes_kept a xs h h'"
  using assms unfolding allocated_def heap_wf_def bytes_kept_def
  by (elim exE conjE) (intro exI conjI; assumption?; simp)

section \<open>Adding memory\<close>

lemma fits_append_gap: "fits s (ys @ [Gap g]) \<Longrightarrow> fits 0 zs \<Longrightarrow> fits s (ys @ Gap g # zs)"
  by (induction s ys rule: fits.induct) auto

lemma fits_append_closed:
  assumes "fits 0 ys" "end_prev 0 ys = 0" "\<forall>b\<in>set ys. blk_ok b" "fits 0 zs"
  shows "fits 0 (ys @ zs)"
proof (cases ys rule: rev_cases)
  case (snoc ts b)
  with assms show ?thesis by (cases b) (auto simp: fits_append_gap)
qed (use assms in simp)

lemma add_buffer_ok:
  assumes L: "heap_lay h a ys" and b: "end_addr a ys = b" "4 dvd b" "0 < b"
    and lo: "\<forall>y\<in>heads a ys. y < b"
    and sz: "28 \<le> sz" "sz < 2 ^ 18" and off: "off = sz div 4 - 3"
  shows "\<exists>h'. p_vsf_heap_add_buffer b sz h = Some h' \<and> heap_lay h' a (ys @ [Blk off False, Gap 12])
    \<and> hp_used_size h' = hp_used_size h"
proof -
  define q where "q = sz div 4"
  have q: "7 \<le> q" "q < 65536" using sz by (simp_all add: q_def)
  have o: "off = q - 3" "4 \<le> off" "off < 65536" using off q by (auto simp: q_def)
  define t where "t = b + off * 4"
  define h1 where "h1 = set_lnext b off (p_vsf_heap_mcb_init b (set_lprev t off (p_vsf_heap_mcb_init t h)))"
  define c where "c = vsf_heap_get_freelist (length (hp_freelist h)) (of_nat (off * 4)) False"
  obtain m l where r: "p_vsf_dlist_add_to_tail_imp b (hp_links h1, hp_freelist h1 ! c) = (m, l)" by fastforce
  define h2 where "h2 = h1\<lparr>hp_links := m, hp_freelist := (hp_freelist h1)[c := l],
      hp_all_size := hp_all_size h1 + of_nat (q * 4)\<rparr>"
  have f1: "hp_lnext h1 = (hp_lnext h)(t := 0, b := off)" "hp_lprev h1 = (hp_lprev h)(t := off, b := 0)"
    "hp_freelist h1 = hp_freelist h" using o by (auto simp: h1_def)
  have "p_vsf_heap_calc_unaligned_size b 4 = 0" using b(2) by (simp add: calc_unaligned4)
  moreover have "2 * mcb_bytes < q * 4 \<and> q * 4 div 2 ^ 18 = 0" using q by auto
  moreover have "(q * 4 - mcb_bytes) div 4 = off" using o q by simp
  moreover have "vsf_heap_get_freelist (length (hp_freelist h)) (of_nat off * 4) False = c"
    by (simp add: c_def)
  ultimately have "p_vsf_heap_add_buffer b sz h = Some h2"
    using b(3) sz r unfolding p_vsf_heap_add_buffer_def Let_def set_freelist_def h2_def
    by (simp add: q_def [symmetric] t_def [symmetric] h1_def [symmetric] f1)
  moreover have "heap_lay h2 a (ys @ [Blk off False, Gap 12])"
  proof -
    let ?F = "frees a ys" and ?H = "heads a ys"
    have ok: "layout_ok a ys" using L by (simp add: heap_lay_def)
    have nh: "b \<notin> ?H" "t \<notin> ?H" using lo t_def by fastforce+
    then have nF: "b \<notin> ?F" "t \<notin> ?F" using frees_heads by blast+
    have "fl h ?F (?H - ?F)" using L by (simp add: heap_lay_def)
    from fl_clear [OF this nF(2)] have "fl (set_lprev t off (p_vsf_heap_mcb_init t h)) ?F (insert t (?H - ?F))"
      by simp
    from fl_set_lnext [OF fl_clear [OF this nF(1)] nF(1)]
    have F1: "fl h1 ?F (insert b (insert t (?H - ?F)))" unfolding h1_def .
    have cb: "c = bkt (length (hp_freelist h1)) (hp_lnext h1 b * 4)" by (simp add: c_def bkt_def f1)
    have b0: "b \<noteq> null" using b(3) by simp
    have "fl h2 (insert b ?F) (insert b (insert t (?H - ?F)) - {b})"
      using free_lists_add [OF F1 _ b0 cb disjI2 [OF r]] by (simp add: h2_def)
    moreover have "insert b (insert t (?H - ?F)) - {b} = insert b (insert t ?H) - insert b ?F"
      using nF o by (auto simp: t_def)
    moreover have "seg (hp_lnext h2) (hp_lprev h2) 0 a ys = seg (hp_lnext h) (hp_lprev h) 0 a ys"
      by (rule seg_cong) (use nh in \<open>auto simp: h2_def f1\<close>)
    moreover have "layout_ok a (ys @ [Blk off False, Gap 12])"
      using ok o fits_append_closed [of ys "[Blk off False, Gap 12]"] by (auto simp: layout_ok_def)
    ultimately show ?thesis using L ok b(1) o
      by (simp add: heap_lay_def layout_ok_def h2_def f1 t_def insert_commute mult.commute)
  qed
  moreover have "hp_used_size h2 = hp_used_size h" by (simp add: h2_def h1_def)
  ultimately show ?thesis by blast
qed

text \<open>A heap without memory, and one with a region of 200 bytes at address 4096.\<close>

definition heap_empty :: vsf_heap_t where
  "heap_empty = \<lparr>hp_links = \<lparr>dl_next = (\<lambda>_. null), dl_prev = (\<lambda>_. null)\<rparr>,
     hp_freelist = replicate 20 \<lparr>dl_head = null, dl_tail = null\<rparr>, hp_lnext = (\<lambda>_. 0), hp_lprev = (\<lambda>_. 0),
     hp_bytes = (\<lambda>_. 0), hp_used_size = 0, hp_max_used_size = 0, hp_all_size = 0\<rparr>"

lemma heap_empty_wf: "0 < a \<Longrightarrow> 4 dvd a \<Longrightarrow> heap_wf heap_empty a []"
  unfolding heap_wf_def heap_lay_def layout_ok_def free_lists_def
  by (simp add: heap_empty_def dlist_def exI [of _ "\<lambda>_. []"])

definition heap_example :: vsf_heap_t where
  "heap_example = the (p_vsf_heap_add_buffer 4096 200 heap_empty)"

lemma heap_example_wf: "heap_wf heap_example 4096 [Blk 47 False, Gap 12]"
proof -
  have "heap_lay heap_empty 4096 []" "hp_used_size heap_empty = 0"
    using heap_empty_wf [of 4096] by (simp_all add: heap_wf_def)
  with add_buffer_ok [of heap_empty 4096 "[]" 4096 200 47] show ?thesis
    by (auto simp: heap_example_def heap_wf_def)
qed

text \<open>The same heap with its one block in use.\<close>

definition heap_example_used :: vsf_heap_t where
  "heap_example_used = (p_vsf_heap_mcb_remove_from_freelist 4096 heap_example)\<lparr>hp_used_size := 188\<rparr>"

lemma heap_example_used_wf: "heap_wf heap_example_used 4096 [Blk 47 True, Gap 12]"
  using lay_remove [of heap_example 4096 "[]" 47 "[Gap 12]" 4096] heap_example_wf
  by (simp add: heap_wf_def heap_lay_def heap_example_used_def)

section \<open>When allocation succeeds\<close>

text \<open>Without alignment a block is refused only if it is too small.\<close>

lemma mcb_malloc_fits:
  assumes "hp_lnext h x = n" "4 dvd x" "sz + 12 \<le> 4 * n"
  shows "\<exists>h'. p_vsf_heap_mcb_malloc x sz 0 h = Some (x + 12, h')"
proof -
  have "p_vsf_heap_get_mcb (x + 12) = x" using assms(2) by (intro get_mcb_block) auto
  with assms have "mcb_fit 0 x sz (x + 12) (4 * n - 12) = Some (Some (x + 12, 4 * n - 12))"
    by (subst mcb_fit.simps) simp
  then have "mcb_place h x sz 0 = Some (Some (x + 12, 4 * n - 12))"
    using assms(1) by (simp add: mcb_place_def mcb_get_size_def mult.commute)
  then show ?thesis by (simp add: p_vsf_heap_mcb_malloc_def)
qed

lemma freelist_malloc_finds:
  assumes L: "heap_lay h a xs" and sz: "4 dvd sz" and D: "dlist (hp_links h, l) (ps @ qs)"
    and Q: "set qs \<subseteq> frees a xs" and x: "x \<in> set qs" "sz + 12 \<le> 4 * hp_lnext h x"
  shows "\<exists>b h'. p_vsf_heap_freelist_malloc sz 0 (first qs null) h = Some (b, h') \<and> b \<noteq> null"
  using D Q x(1)
proof (induction qs arbitrary: ps)
  case (Cons q qs)
  have q: "q \<noteq> null" "dl_next (hp_links h) q = first qs null" using Cons.prems(1) by (auto simp: dlist_def)
  obtain b h' where m: "p_vsf_heap_mcb_malloc q sz 0 h = Some (b, h')" "b = null \<longrightarrow> h' = h"
    using mcb_malloc_ok [OF L _ disjI1 [OF refl] sz, of q] Cons.prems(2) by (auto simp: allocated_def)
  show ?case
  proof (cases "b = null")
    case False
    with m q show ?thesis by (subst p_vsf_heap_freelist_malloc.simps) simp
  next
    case True
    have "q \<noteq> x"
    proof
      assume "q = x"
      moreover obtain us n vs where "xs = us @ Blk n False # vs" "q = end_addr a us"
        using frees_split [of q a xs] Cons.prems(2) by auto
      then have "4 dvd q" using L around(5) by (auto simp: heap_lay_def)
      ultimately show False using mcb_malloc_fits [OF refl, of q sz h] x(2) m True by auto
    qed
    with Cons.prems have "x \<in> set qs" by simp
    with Cons.IH [of "ps @ [q]"] Cons.prems
    have "\<exists>b h'. p_vsf_heap_freelist_malloc sz 0 (first qs null) h = Some (b, h') \<and> b \<noteq> null" by simp
    with m True q show ?thesis by (subst p_vsf_heap_freelist_malloc.simps) simp
  qed
qed simp

lemma freelists_malloc_finds:
  assumes L: "heap_lay h a xs" and sz: "4 dvd sz" and x: "x \<in> frees a xs" "sz + 12 \<le> 4 * hp_lnext h x"
    and c: "mcb_freelist h x \<in> set bs" and "\<forall>b\<in>set bs. b < length (hp_freelist h)"
  shows "\<exists>b h'. freelists_malloc sz 0 bs h = Some (b, h') \<and> b \<noteq> null"
  using c assms(6)
proof (induction bs)
  case (Cons c bs)
  have F: "fl h (frees a xs) (heads a xs - frees a xs)" using L by (simp add: heap_lay_def)
  then obtain qs where D: "dlist (hp_links h, hp_freelist h ! c) qs"
    and q: "set qs = {y \<in> frees a xs. bkt (length (hp_freelist h)) (hp_lnext h y * 4) = c}"
    using Cons.prems by (auto simp: free_lists_def)
  have hd: "dl_head (hp_freelist h ! c) = first qs null" using D by (simp add: dlist_def)
  obtain b h' where m: "p_vsf_heap_freelist_malloc sz 0 (first qs null) h = Some (b, h')"
    "b = null \<longrightarrow> h' = h"
    using freelist_malloc_ok [OF L disjI1 [OF refl] sz, of "hp_freelist h ! c" "[]" qs] D q
    by (auto simp: allocated_def)
  show ?case
  proof (cases "first qs null = null \<or> b = null")
    case True
    then have e: "freelists_malloc sz 0 (c # bs) h = freelists_malloc sz 0 bs h"
      using m hd by (auto simp: Let_def)
    have "mcb_freelist h x \<noteq> c"
    proof
      assume "mcb_freelist h x = c"
      then have "x \<in> set qs" using q x(1) by (simp add: mcb_freelist_bkt)
      moreover have "set qs \<subseteq> frees a xs" "dlist (hp_links h, hp_freelist h ! c) ([] @ qs)" using q D by auto
      ultimately have "b \<noteq> null"
        using freelist_malloc_finds [OF L sz _ _ _ x(2), of "hp_freelist h ! c" "[]" qs] m(1) by auto
      with True have "first qs null = null" by simp
      moreover have "first qs null \<in> set qs" using \<open>x \<in> set qs\<close> by (intro first_in) auto
      moreover have "null \<notin> set qs" using D by (simp add: dlist_def)
      ultimately show False by simp
    qed
    with Cons e show ?thesis by simp
  next
    case False
    with m hd show ?thesis by simp
  qed
qed simp

section \<open>Reallocation\<close>

text \<open>A block in use shrinks to its new size, keeping the bytes up to it.\<close>

lemma shrink_ok:
  assumes L: "heap_lay h a (us @ Blk n True # vs)" and x: "x = end_addr a us" and sz: "sz + 12 \<le> 4 * n"
    and h': "h' = p_vsf_heap_mcb_truncate x (x + 12 + sz) h"
  shows "\<exists>n' vs'. heap_lay h' a (us @ Blk n' True # vs') \<and> sz + 12 \<le> 4 * n'
    \<and> lives (x + 4 * n') vs' = lives (x + 4 * n) vs \<and> used_bytes vs' = used_bytes vs
    \<and> (\<forall>i. i < x + 12 + sz \<or> x + 4 * n \<le> i \<longrightarrow> hp_bytes h' i = hp_bytes h i)
    \<and> hp_used_size h' = hp_used_size h"
proof -
  have ok: "layout_ok a (us @ Blk n True # vs)" using L by (simp add: heap_lay_def)
  note A = around [OF ok x]
  obtain p where p: "x = 4 * p" using A(5) by (rule dvdE)
  define k where "k = (sz + 15) div 4"
  have "x + 12 + sz + 3 = 4 * p + (sz + 15)" by (simp add: p)
  then have "(x + 12 + sz + 3) div 4 = p + k" unfolding k_def by simp
  then have be: "(x + 12 + sz + 3) div 4 * 4 = x + 4 * k" by (simp add: p)
  have k: "3 \<le> k" "k \<le> n" "sz + 12 \<le> 4 * k" using sz by (auto simp: k_def)
  show ?thesis
  proof (cases "k + 3 < n")
    case True
    note T = truncate_cut [OF L x be k(1) True, folded h']
    have "lives (x + 4 * k) (Blk (n - k) False # vs) = lives (x + 4 * n) vs"
      using True by (simp add: algebra_simps)
    moreover have "\<forall>i. i < x + 12 + sz \<or> x + 4 * n \<le> i \<longrightarrow> hp_bytes h' i = hp_bytes h i"
      using T k True by auto
    ultimately show ?thesis using T k
      by (intro exI [of _ k] exI [of _ "Blk (n - k) False # vs"]) simp
  next
    case False
    have "mcb_get_size h x = 4 * n" using lay_fields(1) [OF L x] by (simp add: mcb_get_size_def)
    then have "h' = h" unfolding h' using False be by (intro truncate_keep) simp
    then show ?thesis using L sz by (intro exI [of _ n] exI [of _ vs]) simp
  qed
qed

text \<open>
  The outcome of a reallocation of the buffer of block \<open>(x, n)\<close>: a buffer of the new size that starts
  with the bytes of the old one, all other blocks unchanged.
\<close>

definition reallocated ::
  "vsf_heap_t \<Rightarrow> ptr \<Rightarrow> blk list \<Rightarrow> ptr \<Rightarrow> nat \<Rightarrow> nat \<Rightarrow> ptr \<Rightarrow> vsf_heap_t \<Rightarrow> bool" where
  "reallocated h a xs x n sz b h' \<longleftrightarrow> (\<exists>xs' n'. heap_wf h' a xs' \<and> 12 < b
     \<and> lives a xs' = insert (b - 12, n') (lives a xs - {(x, n)}) \<and> sz + 12 \<le> 4 * n'
     \<and> (\<forall>i < min sz (4 * n - 12). hp_bytes h' (b + i) = hp_bytes h (x + 12 + i))
     \<and> (\<forall>z l i. (z, l) \<in> lives a xs - {(x, n)} \<longrightarrow> z \<le> i \<longrightarrow> i < z + 4 * l \<longrightarrow>
          hp_bytes h' i = hp_bytes h i))"

lemma shrink_reallocated:
  assumes L: "heap_lay h a (us @ Blk n True # vs)" and x: "x = end_addr a us" and sz: "sz + 12 \<le> 4 * n"
    and lv: "lives a xs = lives a us \<union> insert (x, n0) (lives (x + 4 * n) vs)" and n0: "n0 \<le> n"
    and new: "(x, n0) \<notin> lives a us" "(x, n0) \<notin> lives (x + 4 * n) vs"
    and ub: "used_bytes xs = used_bytes us + 4 * n0 + used_bytes vs"
    and h0: "hp_bytes h = hp_bytes h0" "hp_used_size h = of_nat (used_bytes xs)"
    and h': "h' = resize_statistics (4 * n0) x (p_vsf_heap_mcb_truncate x (x + 12 + sz) h)"
  shows "reallocated h0 a xs x n0 sz (x + 12) h'"
proof -
  define h1 where "h1 = p_vsf_heap_mcb_truncate x (x + 12 + sz) h"
  obtain n' vs' where S: "heap_lay h1 a (us @ Blk n' True # vs')" "sz + 12 \<le> 4 * n'"
    "lives (x + 4 * n') vs' = lives (x + 4 * n) vs" "used_bytes vs' = used_bytes vs"
    "\<forall>i. i < x + 12 + sz \<or> x + 4 * n \<le> i \<longrightarrow> hp_bytes h1 i = hp_bytes h i" "hp_used_size h1 = hp_used_size h"
    using shrink_ok [OF L x sz h1_def] by blast
  have ok: "layout_ok a (us @ Blk n True # vs)" using L by (simp add: heap_lay_def)
  have x0: "0 < x" by (rule around(4) [OF ok x])
  have "mcb_get_size h1 x = 4 * n'" using lay_fields(1) [OF S(1) x] by (simp add: mcb_get_size_def)
  then have u: "hp_used_size h' = of_nat (used_bytes (us @ Blk n' True # vs'))"
    "hp_bytes h' = hp_bytes h1" "heap_lay h' a (us @ Blk n' True # vs')"
    using S ub h0(2) by (simp_all add: h' h1_def [symmetric] resize_statistics_def heap_lay_def)
  have "lives a xs - {(x, n0)} = lives a us \<union> lives (x + 4 * n) vs" using lv new by auto
  moreover have "hp_bytes h1 i = hp_bytes h0 i"
    if "(z, l) \<in> lives a us \<union> lives (x + 4 * n) vs" "z \<le> i" "i < z + 4 * l" for z l i
    using that S(5) h0(1) lives_bounds [of z l a us] lives_bounds [of z l "x + 4 * n" vs] x by fastforce
  ultimately show ?thesis unfolding reallocated_def using u S x x0 h0(1)
    by (intro exI [of _ "us @ Blk n' True # vs'"] exI [of _ n']) (auto simp: heap_wf_def)
qed

section \<open>Properties\<close>

text \<open>
  C6. Allocation: on a well-formed heap and with no alignment or a power of two, the search ends. It
  answers NULL and changes nothing, or a buffer that is aligned and lies in a new block of at least
  the rounded size, and leaves every block in use as it was, its bytes included; the invariant and
  the statistics are kept.
\<close>

theorem heap_malloc_spec:
  assumes "heap_wf h a xs" "alignment = 0 \<or> e < 32 \<and> alignment = 2 ^ e"
  shows "\<exists>b h'. p_vsf_heap_malloc_aligned sz alignment h = Some (b, h')
    \<and> (b = null \<and> h' = h \<or>
       (\<exists>xs' n. heap_wf h' a xs' \<and> 12 < b \<and> (unat alignment = 0 \<or> unat alignment dvd b)
          \<and> lives a xs' = insert (b - 12, n) (lives a xs) \<and> b - 12 \<notin> fst ` lives a xs
          \<and> unat (round4 sz) + 12 \<le> 4 * n \<and> bytes_kept a xs h h'))"
proof -
  have L: "heap_lay h a xs" using assms(1) by (simp add: heap_wf_def)
  obtain b h' where "p_vsf_heap_malloc_aligned sz alignment h = Some (b, h')"
    "b = null \<and> h' = h \<or> b \<noteq> null \<and> allocated h a xs (unat (round4 sz)) (unat alignment) b h'"
    using malloc_aligned_ok [OF L assms(2)] by blast
  with allocated_wf assms(1) show ?thesis by blast
qed

theorem heap_malloc_spec_witness:
  "\<exists>b h'. p_vsf_heap_malloc_aligned 50 16 heap_example = Some (b, h')"
  using heap_malloc_spec [OF heap_example_wf, of 16 4 50] by auto



text \<open>
  A second release of the same buffer, or the release of any address whose block is free, is
  stopped by the assertion instead of corrupting the free lists.
\<close>

theorem heap_double_free_stopped:
  assumes "heap_wf h a xs" "x \<in> frees a xs" "x + 12 \<le> buffer" "buffer < x + 16"
  shows "p_vsf_heap_free buffer h = None"
proof -
  have L: "heap_lay h a xs" using assms(1) by (simp add: heap_wf_def)
  obtain us n vs where xs: "xs = us @ Blk n False # vs" "x = end_addr a us"
    using frees_split [OF assms(2)] by blast
  have ok: "layout_ok a (us @ Blk n False # vs)" using L xs by (simp add: heap_lay_def)
  have "p_vsf_heap_get_mcb buffer = x" using around(5) [OF ok xs(2)] assms(3,4) by (rule get_mcb_block)
  moreover have "\<not> p_vsf_heap_mcb_is_allocated h x"
    using lay_is_allocated [OF L, of x] assms(2) frees_heads by blast
  ultimately show ?thesis by (simp add: p_vsf_heap_free_def Let_def)
qed

theorem heap_double_free_stopped_witness: "p_vsf_heap_free 4108 heap_example = None"
  by (rule heap_double_free_stopped [OF heap_example_wf, of 4096]) simp_all

text \<open>
  When allocation succeeds: a request without alignment is served whenever some free block of
  sufficient size lies in the list for the rounded-up request or in a later one.
\<close>

theorem heap_malloc_succeeds:
  assumes "heap_wf h a xs" "x \<in> frees a xs" "unat (round4 sz) + 12 \<le> 4 * hp_lnext h x"
    and "vsf_heap_get_freelist (length (hp_freelist h)) (11 + sz) True \<le> mcb_freelist h x"
  shows "\<exists>b h'. p_vsf_heap_malloc_aligned sz 0 h = Some (b, h') \<and> b \<noteq> null"
proof -
  have L: "heap_lay h a xs" using assms(1) by (simp add: heap_wf_def)
  then have "0 < length (hp_freelist h)" by (auto simp: heap_lay_def free_lists_def)
  then have "mcb_freelist h x < length (hp_freelist h)" by (simp add: mcb_freelist_bkt bkt_less)
  with freelists_malloc_finds [OF L _ assms(2,3),
      of "[vsf_heap_get_freelist (length (hp_freelist h)) (11 + sz) True..<length (hp_freelist h)]"] assms(4)
  show ?thesis by (simp add: p_vsf_heap_malloc_aligned_def Let_def unat_round4)
qed

theorem heap_malloc_succeeds_witness:
  "\<exists>b h'. p_vsf_heap_malloc_aligned 20 0 heap_example = Some (b, h') \<and> b \<noteq> null"
proof -
  have n: "hp_lnext heap_example 4096 = 47"
    using heap_example_wf by (simp add: heap_wf_def heap_lay_def)
  have "length (hp_freelist heap_example) = 20"
    by (simp add: heap_example_def p_vsf_heap_add_buffer_def heap_empty_def Let_def set_freelist_def
        calc_unaligned4 case_prod_unfold set_lnext_def set_lprev_def p_vsf_heap_mcb_init_def)
  then show ?thesis
    by (intro heap_malloc_succeeds [OF heap_example_wf, of 4096])
      (simp_all add: n round4_def mcb_freelist_def mcb_get_size_def vsf_heap_get_freelist_def
        vsf_msb32_def p_vsf_arch_msb_def arch_msb_loop.simps)
qed

lemma huge_sizes:
  "4294967293 \<le> unat sz \<Longrightarrow> sz = 4294967293 \<or> sz = 4294967294 \<or> sz = (4294967295 :: u32)"
proof -
  assume "4294967293 \<le> unat sz"
  then have "unat sz = 4294967293 \<or> unat sz = 4294967294 \<or> unat sz = 4294967295"
    using unat_u32_less [of sz] by presburger
  then show ?thesis by (auto simp: word_unat_eq_iff)
qed

lemma small_request_lists:
  "vsf_heap_get_freelist l 8 True = 0" "vsf_heap_get_freelist l 9 True = 0"
  "vsf_heap_get_freelist l 10 True = 0"
  by (simp_all add: vsf_heap_get_freelist_def vsf_msb32_def p_vsf_arch_msb_def arch_msb_loop.simps)

text \<open>
  A request within 3 bytes of the largest 32-bit number: rounding it up wraps to zero, so the
  allocation succeeds on every heap with a free block, and what it hands out need not hold a single
  byte.
\<close>

theorem heap_malloc_huge_wraps:
  assumes "heap_wf h a xs" "frees a xs \<noteq> {}" "4294967293 \<le> unat sz"
  shows "round4 sz = 0 \<and> (\<exists>b h'. p_vsf_heap_malloc_aligned sz 0 h = Some (b, h') \<and> b \<noteq> null)"
proof -
  let ?l = "length (hp_freelist h)"
  have L: "heap_lay h a xs" using assms(1) by (simp add: heap_wf_def)
  obtain x where x: "x \<in> frees a xs" using assms(2) by blast
  obtain us n vs where xs: "xs = us @ Blk n False # vs" "x = end_addr a us" using frees_split [OF x] by blast
  have ok: "layout_ok a (us @ Blk n False # vs)" using L xs by (simp add: heap_lay_def)
  have n: "3 \<le> hp_lnext h x" using around(3) [OF ok xs(2)] lay_fields(1) [of h a us n False vs x] L xs by simp
  have r: "round4 sz = 0" using huge_sizes [OF assms(3)] by (auto simp: round4_def)
  have "0 < ?l" using L by (auto simp: heap_lay_def free_lists_def)
  then have "mcb_freelist h x < ?l" by (simp add: mcb_freelist_bkt bkt_less)
  moreover have "11 + sz = 8 \<or> 11 + sz = 9 \<or> 11 + sz = 10" using huge_sizes [OF assms(3)] by auto
  then have "vsf_heap_get_freelist ?l (11 + sz) True = 0" using small_request_lists [of ?l] by metis
  ultimately show ?thesis
    using freelists_malloc_finds [OF L _ x, of 0 "[0..<?l]"] n r
    by (simp add: p_vsf_heap_malloc_aligned_def Let_def)
qed

theorem heap_malloc_huge_wraps_witness:
  "\<exists>b h'. p_vsf_heap_malloc_aligned 4294967295 0 heap_example = Some (b, h') \<and> b \<noteq> null"
  using heap_malloc_huge_wraps [OF heap_example_wf, of 4294967295] by simp

text \<open>The two ways a block is resized where it is.\<close>

lemma realloc_in_place:
  assumes W: "heap_wf h a xs" and lv: "(x, n) \<in> lives a xs" and sz: "unat sz + 12 \<le> 4 * n"
  shows "reallocated h a xs x n (unat sz) (x + 12)
    (resize_statistics (4 * n) x (p_vsf_heap_mcb_truncate x (x + 12 + unat sz) h))"
proof -
  obtain us vs where xs: "xs = us @ Blk n True # vs" and x: "x = end_addr a us"
    using lives_split [OF lv] by blast
  have L: "heap_lay h a (us @ Blk n True # vs)" using W xs by (simp add: heap_wf_def)
  have "3 \<le> n" using live_block(5) [of h a xs] W lv by (simp add: heap_wf_def)
  then have "(x, n) \<notin> lives a us" "(x, n) \<notin> lives (x + 4 * n) vs"
    using lives_bounds [of x n a us] lives_bounds [of x n "x + 4 * n" vs] x by fastforce+
  then show ?thesis using W xs x sz
    by (intro shrink_reallocated [OF L x]) (auto simp: heap_wf_def)
qed

lemma realloc_grow:
  assumes W: "heap_wf h a xs" and lv: "(x, n) \<in> lives a xs"
    and free: "\<not> p_vsf_heap_mcb_is_allocated h (x + 4 * n)"
    and m: "m = hp_lnext h (x + 4 * n)" and sz: "unat sz + 12 \<le> 4 * (n + m)"
    and h1: "h1 = set_lprev (x + 4 * (n + m)) (n + m)
        (set_lnext x (n + m) (p_vsf_heap_mcb_remove_from_freelist (x + 4 * n) h))"
  shows "reallocated h a xs x n (unat sz) (x + 12)
    (resize_statistics (4 * n) x (p_vsf_heap_mcb_truncate x (x + 12 + unat sz) h1))" and "n + m < 65536"
proof -
  obtain us vs where xs: "xs = us @ Blk n True # vs" and x: "x = end_addr a us"
    using lives_split [OF lv] by blast
  have L: "heap_lay h a (us @ Blk n True # vs)" using W xs by (simp add: heap_wf_def)
  have ok: "layout_ok a (us @ Blk n True # vs)" using L by (simp add: heap_lay_def)
  note A = around [OF ok x]
  obtain v ws where vs: "vs = v # ws" using L by (rule lay_block_behind)
  let ?y = "x + 4 * n"
  have "?y \<in> frees a xs" using free lay_is_allocated [OF L, of ?y] xs x vs by auto
  then obtain us' m' vs' where s: "xs = us' @ Blk m' False # vs'" "?y = end_addr a us'"
    using frees_split by blast
  have "?y \<notin> frees (?y + width v) ws" "?y \<notin> frees a us"
    using A(1) vs ok frees_heads heads_bounds [of ws ?y "?y + width v"] blk_ok_width [of v]
    by (fastforce simp: layout_ok_def)+
  then have "\<exists>k. v = Blk k False" using \<open>?y \<in> frees a xs\<close> xs x vs by (cases v; cases "in_use v") auto
  then obtain k where v: "v = Blk k False" ..
  have "hp_lnext h ?y = k" using lay_fields(1) [of h a "us @ [Blk n True]" k False ws] L vs v x by simp
  then have k: "k = m" using m by simp
  have L1: "heap_lay (p_vsf_heap_mcb_remove_from_freelist ?y h) a (us @ Blk n True # Blk m True # ws)"
    using lay_remove [of h a "us @ [Blk n True]" m ws ?y] L vs v x k by simp
  have m3: "3 \<le> m" using L1 by (simp add: heap_lay_def layout_ok_def)
  have ok': "layout_ok a (us @ Blk (n + m) True # ws)"
    using L1 layout_split [OF A(3) m3] unfolding heap_lay_def by blast
  show nm: "n + m < 65536" using around(6) [OF ok' x] .
  have L2: "heap_lay h1 a (us @ Blk (n + m) True # ws)"
    unfolding h1 by (rule lay_merge [OF L1 A(3) m3 x]) (use nm in simp_all)
  have e: "lives (x + 4 * n) vs = lives (x + 4 * (n + m)) ws" using vs v k by (simp add: algebra_simps)
  have "(x, n) \<notin> lives a us" "(x, n) \<notin> lives (x + 4 * (n + m)) ws"
    using lives_bounds [of x n a us] lives_bounds [of x n "x + 4 * (n + m)" ws] x A(3) by fastforce+
  moreover have "hp_bytes h1 = hp_bytes h" "hp_used_size h1 = hp_used_size h" by (simp_all add: h1)
  ultimately show "reallocated h a xs x n (unat sz) (x + 12)
      (resize_statistics (4 * n) x (p_vsf_heap_mcb_truncate x (x + 12 + unat sz) h1))"
    using W xs x sz e vs v by (intro shrink_reallocated [OF L2 x]) (auto simp: heap_wf_def)
qed

lemma realloc_move:
  assumes W: "heap_wf h a xs" and lv: "(x, n) \<in> lives a xs" and sz: "4 * n < unat sz + 12" "unat sz + 3 < 2 ^ 32"
    and al: "allocated h a xs (unat (round4 sz)) al b h1"
  shows "reallocated h a xs x n (unat sz) b
    (p_vsf_heap_mcb_free x (copy_bytes b (x + 12) (4 * n - 12) h1))"
proof -
  obtain xs1 m where A: "heap_lay h1 a xs1" "12 < b" "lives a xs1 = insert (b - 12, m) (lives a xs)"
    "b - 12 \<notin> fst ` lives a xs" "unat (round4 sz) + 12 \<le> 4 * m" "used_bytes xs1 = used_bytes xs + 4 * m"
    "hp_used_size h1 = hp_used_size h + of_nat (4 * m)"
    and kept: "\<And>z l i. (z, l) \<in> lives a xs \<Longrightarrow> z \<le> i \<Longrightarrow> i < z + 4 * l \<Longrightarrow> hp_bytes h1 i = hp_bytes h i"
    using al unfolding allocated_def by blast
  define h2 where "h2 = copy_bytes b (x + 12) (4 * n - 12) h1"
  have L2: "heap_lay h2 a xs1" using A(1) by (simp add: h2_def copy_bytes_def heap_lay_def)
  have lv1: "(x, n) \<in> lives a xs1" using A(3) lv by simp
  obtain xs2 where F: "heap_lay (p_vsf_heap_mcb_free x h2) a xs2" "lives a xs2 = lives a xs1 - {(x, n)}"
    "used_bytes xs1 = used_bytes xs2 + 4 * n" "hp_bytes (p_vsf_heap_mcb_free x h2) = hp_bytes h2"
    "hp_used_size (p_vsf_heap_mcb_free x h2) = hp_used_size h2 - of_nat (4 * n)"
    using mcb_free_ok [OF L2 lv1] by blast
  have bm: "(b - 12, m) \<in> lives a xs1" using A(3) by simp
  have szm: "unat sz + 12 \<le> 4 * m" using A(5) round4_big_enough [OF sz(2)] by simp
  have far: "z + 4 * l \<le> b - 12 \<or> b - 12 + 4 * m \<le> z" if "(z, l) \<in> lives a xs" for z l
    using lives_disjoint [OF _ bm, of z l] that A(3,4) by force
  have "hp_bytes h2 i = hp_bytes h i" if "(z, l) \<in> lives a xs" "z \<le> i" "i < z + 4 * l" for z l i
    using far [OF that(1)] that kept [OF that] szm sz(1) A(2) by (auto simp: h2_def copy_bytes_def)
  moreover have "hp_bytes h2 (b + i) = hp_bytes h (x + 12 + i)" if "i < 4 * n - 12" for i
  proof -
    have "b \<le> b + i" "b + i < b + (4 * n - 12)" using that by linarith+
    then show ?thesis using that kept [OF lv, of "x + 12 + i"] by (simp add: h2_def copy_bytes_def)
  qed
  moreover have "hp_used_size (p_vsf_heap_mcb_free x h2) = of_nat (used_bytes xs2)"
  proof -
    have "used_bytes xs + 4 * m = used_bytes xs2 + 4 * n" using A(6) F(3) by simp
    then have "(of_nat (used_bytes xs) + of_nat (4 * m) :: u32) = of_nat (used_bytes xs2) + of_nat (4 * n)"
      by (metis of_nat_add)
    then show ?thesis using W F(5) A(7) by (simp add: h2_def copy_bytes_def heap_wf_def)
  qed
  moreover have "lives a xs2 = insert (b - 12, m) (lives a xs - {(x, n)})"
    using F(2) A(3,4) lv by force
  ultimately show ?thesis unfolding reallocated_def h2_def [symmetric] using F(1,4) A(2) szm
    by (intro exI [of _ xs2] exI [of _ m]) (auto simp: heap_wf_def)
qed

lemma realloc_aligned_ok:
  assumes W: "heap_wf h a xs" and lv: "(x, n) \<in> lives a xs" and sz: "unat sz + 3 < 2 ^ 32"
    and al: "alignment = 0 \<or> 2 \<le> e \<and> e < 32 \<and> alignment = 2 ^ e \<and> 2 ^ e dvd x + 12"
  shows "\<exists>b h'. p_vsf_heap_realloc_aligned (x + 12) sz alignment h = Some (b, h')
    \<and> (reallocated h a xs x n (unat sz) b h' \<and> (unat alignment = 0 \<or> unat alignment dvd b)
       \<or> b = null \<and> (\<exists>xs'. heap_wf h' a xs' \<and> lives a xs' = lives a xs - {(x, n)}))"
proof -
  have L: "heap_lay h a xs" using W by (simp add: heap_wf_def)
  note B = live_block [OF L lv]
  have mcb: "p_vsf_heap_get_mcb (x + 12) = x" using B(4) by (intro get_mcb_block) auto
  have g: "mcb_get_size h x = 4 * n" "p_vsf_heap_mcb_get_next h x = x + 4 * n"
    using B(2) by (simp_all add: mcb_get_size_def p_vsf_heap_mcb_get_next_def)
  have asrt: "\<not> (alignment \<noteq> 0 \<and> \<not> (4 \<le> alignment \<and> alignment AND (alignment - 1) = 0
      \<and> (x + 12) AND (unat alignment - 1) = 0))"
  proof -
    have "4 \<le> (2 ^ e :: u32)" if "2 \<le> e" "e < 32"
      using that power_increasing [of 2 e "2 :: nat"] by (simp add: word_le_nat_alt unat_pow2)
    then show ?thesis using al pow2_check [of e] and_pow2 [of "x + 12" e] by (auto simp: unat_pow2 dvd_imp_mod_0)
  qed
  have dv: "unat alignment = 0 \<or> unat alignment dvd x + 12" using al by (auto simp: unat_pow2)
  have d12: "x + 12 - x = 12" by simp
  define m where "m = hp_lnext h (x + 4 * n)"
  define hg where "hg = set_lnext x (hp_lnext (p_vsf_heap_mcb_remove_from_freelist (x + 4 * n) h) x
      + hp_lnext (p_vsf_heap_mcb_remove_from_freelist (x + 4 * n) h) (x + 4 * n))
      (p_vsf_heap_mcb_remove_from_freelist (x + 4 * n) h)"
  have E: "p_vsf_heap_realloc_aligned (x + 12) sz alignment h =
     (if unat sz \<le> 4 * n - 12
      then Some (x + 12, resize_statistics (4 * n) x (p_vsf_heap_mcb_truncate x (x + 12 + unat sz) h))
      else if p_vsf_heap_mcb_is_allocated h (x + 4 * n) \<or> 4 * n - 12 + m * 4 < unat sz
      then case p_vsf_heap_malloc_aligned sz alignment h of
             None \<Rightarrow> None
           | Some (nb, h1) \<Rightarrow> Some (nb, p_vsf_heap_mcb_free x
               (if nb \<noteq> null then copy_bytes nb (x + 12) (min (4 * n - 12) (unat sz)) h1 else h1))
      else Some (x + 12, resize_statistics (4 * n) x (p_vsf_heap_mcb_truncate x (x + 12 + unat sz)
             (set_lprev (p_vsf_heap_mcb_get_next hg (x + 4 * n)) (hp_lnext hg x) hg))))"
    using asrt unfolding p_vsf_heap_realloc_aligned_def Let_def mcb g d12 hg_def
    by (simp add: m_def mcb_get_size_def [of h "x + 4 * n"] del: de_Morgan_conj)
  consider (shrink) "unat sz \<le> 4 * n - 12"
    | (move) "4 * n - 12 < unat sz" "p_vsf_heap_mcb_is_allocated h (x + 4 * n) \<or> 4 * n - 12 + m * 4 < unat sz"
    | (grow) "4 * n - 12 < unat sz" "\<not> p_vsf_heap_mcb_is_allocated h (x + 4 * n)" "unat sz \<le> 4 * n - 12 + m * 4"
    by linarith
  then show ?thesis
  proof cases
    case shrink
    then have "unat sz + 12 \<le> 4 * n" using B(5) by linarith
    from realloc_in_place [OF W lv this] shrink dv show ?thesis unfolding E by simp
  next
    case grow
    have "unat sz + 12 \<le> 4 * (n + m)" using grow(3) B(5) by presburger
    note G = realloc_grow [OF W lv grow(2) m_def this refl]
    have "hg = set_lnext x (n + m) (p_vsf_heap_mcb_remove_from_freelist (x + 4 * n) h)"
      using B(2) by (simp add: hg_def m_def)
    moreover from this have "p_vsf_heap_mcb_get_next hg (x + 4 * n) = x + 4 * (n + m)" "hp_lnext hg x = n + m"
      using G(2) B(5) m_def by (simp_all add: p_vsf_heap_mcb_get_next_def mcb_get_size_def algebra_simps)
    ultimately show ?thesis using G(1) grow dv unfolding E by simp
  next
    case move
    have "alignment = 0 \<or> e < 32 \<and> alignment = 2 ^ e" using al by blast
    from malloc_aligned_ok [OF L this, of sz] obtain b h1 where
      M: "p_vsf_heap_malloc_aligned sz alignment h = Some (b, h1)"
        "b = null \<and> h1 = h \<or> b \<noteq> null \<and> allocated h a xs (unat (round4 sz)) (unat alignment) b h1" by blast
    have mn: "min (4 * n - 12) (unat sz) = 4 * n - 12" "4 * n < unat sz + 12" using move(1) by auto
    show ?thesis
    proof (cases "b = null")
      case True
      with M(2) have "h1 = h" by blast
      with True M(1) move have "p_vsf_heap_realloc_aligned (x + 12) sz alignment h = Some (null, p_vsf_heap_mcb_free x h)"
        unfolding E by simp
      moreover obtain xs' where "heap_wf (p_vsf_heap_mcb_free x h) a xs'" "lives a xs' = lives a xs - {(x, n)}"
        using mcb_free_ok [OF L lv] W by (auto simp: heap_wf_def)
      ultimately show ?thesis by blast
    next
      case False
      with M(2) have A: "allocated h a xs (unat (round4 sz)) (unat alignment) b h1" by blast
      then have "unat alignment = 0 \<or> unat alignment dvd b" unfolding allocated_def by blast
      with realloc_move [OF W lv mn(2) sz A] False M(1) move mn(1) show ?thesis unfolding E by simp
    qed
  qed
qed

text \<open>
  C8. Reallocation of a buffer in use, in every branch (shrinking, growing into the free block behind,
  moving): the result is an aligned buffer of the new size that starts with the bytes of the old one, and no
  other block changes; or it is NULL, and then the old buffer has been released.
\<close>

theorem heap_realloc_spec:
  assumes "heap_wf h a xs" "(x, n) \<in> lives a xs" "unat sz + 3 < 2 ^ 32"
    and "alignment = 0 \<or> 2 \<le> e \<and> e < 32 \<and> alignment = 2 ^ e \<and> 2 ^ e dvd x + 12"
  shows "\<exists>b h'. p_vsf_heap_realloc_aligned (x + 12) sz alignment h = Some (b, h')
    \<and> (reallocated h a xs x n (unat sz) b h' \<and> (unat alignment = 0 \<or> unat alignment dvd b)
       \<or> b = null \<and> (\<exists>xs'. heap_wf h' a xs' \<and> lives a xs' = lives a xs - {(x, n)}))"
  by (rule realloc_aligned_ok [OF assms])

theorem heap_realloc_spec_witness:
  "\<exists>b h'. p_vsf_heap_realloc_aligned 4108 60 0 heap_example_used = Some (b, h')"
  using heap_realloc_spec [OF heap_example_used_wf, of 4096 47 60 0] by auto

lemma malloc_exhausted:
  assumes "heap_lay h a xs" "frees a xs = {}"
  shows "p_vsf_heap_malloc_aligned sz 0 h = Some (null, h)"
proof -
  have "dl_head (hp_freelist h ! b) = null" if "b < length (hp_freelist h)" for b
    using assms that by (auto simp: heap_lay_def free_lists_def dlist_def)
  then have "freelists_malloc k 0 bs h = Some (null, h)" if "\<forall>b\<in>set bs. b < length (hp_freelist h)" for bs k
    using that by (induction bs) auto
  then show ?thesis by (simp add: p_vsf_heap_malloc_aligned_def Let_def)
qed

text \<open>
  A reallocation that cannot be served loses the old buffer: when the block behind is in use and no
  new block is found, the answer is NULL and the block of the old buffer is no longer in use, though
  the caller still holds the only pointer to it.
\<close>

theorem heap_realloc_failure_frees:
  assumes W: "heap_wf h a xs" and lv: "(x, n) \<in> lives a xs" and big: "4 * n < unat sz + 12"
    and nxt: "p_vsf_heap_mcb_is_allocated h (x + 4 * n)"
    and fail: "p_vsf_heap_malloc_aligned sz 0 h = Some (null, h)"
  shows "\<exists>h' xs'. p_vsf_heap_realloc_aligned (x + 12) sz 0 h = Some (null, h')
    \<and> heap_wf h' a xs' \<and> lives a xs' = lives a xs - {(x, n)}"
proof -
  have L: "heap_lay h a xs" using W by (simp add: heap_wf_def)
  note B = live_block [OF L lv]
  have mcb: "p_vsf_heap_get_mcb (x + 12) = x" using B(4) by (intro get_mcb_block) auto
  have "\<not> unat sz \<le> n * 4 - 12" using big B(5) by linarith
  then have "p_vsf_heap_realloc_aligned (x + 12) sz 0 h = Some (null, p_vsf_heap_mcb_free x h)"
    using B(2) mcb nxt fail
    by (simp add: p_vsf_heap_realloc_aligned_def Let_def mcb_get_size_def p_vsf_heap_mcb_get_next_def
        mult.commute not_le)
  with mcb_free_ok [OF L lv] W show ?thesis by (auto simp: heap_wf_def)
qed

theorem heap_realloc_failure_frees_witness:
  "\<exists>h' xs'. p_vsf_heap_realloc_aligned 4108 400 0 heap_example_used = Some (null, h')
    \<and> heap_wf h' 4096 xs' \<and> lives 4096 xs' = {}"
proof -
  have L: "heap_lay heap_example_used 4096 [Blk 47 True, Gap 12]"
    using heap_example_used_wf by (simp add: heap_wf_def)
  have "p_vsf_heap_mcb_is_allocated heap_example_used (4096 + 4 * 47)"
    using lay_is_allocated [OF L, of 4284] by simp
  moreover have "p_vsf_heap_malloc_aligned 400 0 heap_example_used = Some (null, heap_example_used)"
    by (rule malloc_exhausted [OF L]) simp
  ultimately show ?thesis
    using heap_realloc_failure_frees [OF heap_example_used_wf, of 4096 47 400] by simp
qed

end
