(* ===== verification/VSF_Heap_Api.thy ===== *)
theory VSF_Heap_Api
  imports VSF_Heap_Correct
begin

text \<open>
  The default heap of \<open>src/source/service/heap/vsf_heap.c\<close>: the functions an application calls, on one
  heap with \<open>VSF_HEAP_CFG_FREELIST_NUM\<close> (20) free lists, in the configuration for bare metal (no heap
  of the architecture). Buffers are aligned to \<open>VSF_HEAP_ALIGN\<close>, two machine words of 4 bytes.
\<close>

section \<open>Operations\<close>

abbreviation (input) VSF_HEAP_ALIGN :: u32 where "VSF_HEAP_ALIGN \<equiv> 8"

definition vsf_heap_init :: "vsf_heap_t \<Rightarrow> vsf_heap_t" where
  "vsf_heap_init h = h\<lparr>hp_freelist := replicate 20 \<lparr>dl_head = null, dl_tail = null\<rparr>,
     hp_used_size := 0, hp_max_used_size := 0, hp_all_size := 0\<rparr>"

definition vsf_heap_add_buffer :: "ptr \<Rightarrow> nat \<Rightarrow> vsf_heap_t \<Rightarrow> vsf_heap_t option" where
  "vsf_heap_add_buffer buffer sz h = p_vsf_heap_add_buffer buffer sz h"

definition vsf_heap_add_memory :: "ptr \<times> nat \<Rightarrow> vsf_heap_t \<Rightarrow> vsf_heap_t option" where
  "vsf_heap_add_memory mem h = vsf_heap_add_buffer (fst mem) (snd mem) h"

definition vsf_heap_malloc_aligned_imp :: "u32 \<Rightarrow> u32 \<Rightarrow> vsf_heap_t \<Rightarrow> (ptr \<times> vsf_heap_t) option" where
  "vsf_heap_malloc_aligned_imp sz alignment h = p_vsf_heap_malloc_aligned sz alignment h"

definition vsf_heap_malloc_imp :: "u32 \<Rightarrow> vsf_heap_t \<Rightarrow> (ptr \<times> vsf_heap_t) option" where
  "vsf_heap_malloc_imp sz h = vsf_heap_malloc_aligned_imp sz VSF_HEAP_ALIGN h"

definition vsf_heap_free_imp :: "ptr \<Rightarrow> vsf_heap_t \<Rightarrow> vsf_heap_t option" where
  "vsf_heap_free_imp buffer h = (if buffer \<noteq> null then p_vsf_heap_free buffer h else Some h)"

definition vsf_heap_realloc_aligned_imp ::
  "ptr \<Rightarrow> u32 \<Rightarrow> u32 \<Rightarrow> vsf_heap_t \<Rightarrow> (ptr \<times> vsf_heap_t) option" where
  "vsf_heap_realloc_aligned_imp buffer sz alignment h =
     (if buffer = null
      then if 0 < sz then vsf_heap_malloc_aligned_imp sz alignment h else Some (null, h)
      else if sz = 0
      then case vsf_heap_free_imp buffer h of None \<Rightarrow> None | Some h \<Rightarrow> Some (null, h)
      else p_vsf_heap_realloc_aligned buffer sz alignment h)"

definition vsf_heap_realloc_imp :: "ptr \<Rightarrow> u32 \<Rightarrow> vsf_heap_t \<Rightarrow> (ptr \<times> vsf_heap_t) option" where
  "vsf_heap_realloc_imp buffer sz h = vsf_heap_realloc_aligned_imp buffer sz VSF_HEAP_ALIGN h"

definition vsf_heap_size :: "ptr \<Rightarrow> vsf_heap_t \<Rightarrow> nat option" where
  "vsf_heap_size buffer h = p_vsf_heap_size buffer h"

definition vsf_heap_is_free :: "ptr \<Rightarrow> vsf_heap_t \<Rightarrow> bool option" where
  "vsf_heap_is_free buffer h = p_vsf_heap_is_free buffer h"

definition vsf_heap_statistics :: "vsf_heap_t \<Rightarrow> (u32 \<times> u32 \<times> u32 \<times> nat) option" where
  "vsf_heap_statistics h = p_vsf_heap_statistics h"

text \<open>Storing a sequence of bytes, \<open>memset\<close> and \<open>memcpy\<close> from outside the heap.\<close>

definition put_bytes :: "ptr \<Rightarrow> u8 list \<Rightarrow> vsf_heap_t \<Rightarrow> vsf_heap_t" where
  "put_bytes p bs h =
     h\<lparr>hp_bytes := (\<lambda>i. if p \<le> i \<and> i < p + length bs then bs ! (i - p) else hp_bytes h i)\<rparr>"

definition vsf_heap_calloc :: "u32 \<Rightarrow> u32 \<Rightarrow> vsf_heap_t \<Rightarrow> (ptr \<times> vsf_heap_t) option" where
  "vsf_heap_calloc n sz h =
     (let sz = sz * n
      in case vsf_heap_malloc_imp sz h of
           None \<Rightarrow> None
         | Some (buff, h) \<Rightarrow> Some (buff, if buff \<noteq> null then put_bytes buff (replicate (unat sz) 0) h else h))"

text \<open>The string is the sequence of its characters before the final zero; \<open>None\<close> is the null pointer.\<close>

definition vsf_heap_strdup :: "u8 list option \<Rightarrow> vsf_heap_t \<Rightarrow> (ptr \<times> vsf_heap_t) option" where
  "vsf_heap_strdup str h =
     (case str of
        None \<Rightarrow> Some (null, h)
      | Some str \<Rightarrow>
          (case vsf_heap_malloc_imp (of_nat (length str) + 1) h of
             None \<Rightarrow> None
           | Some (new_str, h) \<Rightarrow>
               Some (new_str, if new_str \<noteq> null
                              then put_bytes (new_str + length str) [0] (put_bytes new_str str h) else h)))"

section \<open>The contract of an allocator\<close>

text \<open>
  What a client relies on: \<open>rep s L\<close> says that the buffers in use are exactly those of \<open>L\<close>, given by
  address and usable size. A program of a client keeps byte strings in buffers of its own.
\<close>

datatype heap_op = Keep "u8 list" | Drop nat

locale allocator =
  fixes rep :: "'s \<Rightarrow> (ptr \<times> nat) set \<Rightarrow> bool"
    and bytes :: "'s \<Rightarrow> ptr \<Rightarrow> u8"
    and malloc :: "u32 \<Rightarrow> 's \<Rightarrow> (ptr \<times> 's) option"
    and free :: "ptr \<Rightarrow> 's \<Rightarrow> 's option"
    and poke :: "ptr \<Rightarrow> u8 list \<Rightarrow> 's \<Rightarrow> 's"
  assumes malloc: "rep s L \<Longrightarrow> unat sz + 3 < 2 ^ 32 \<Longrightarrow> \<exists>b s'. malloc sz s = Some (b, s')
      \<and> (b = null \<and> s' = s \<or> (\<exists>n. b \<noteq> null \<and> b \<notin> fst ` L \<and> unat sz \<le> n \<and> rep s' (insert (b, n) L)
          \<and> (\<forall>c m i. (c, m) \<in> L \<longrightarrow> c \<le> i \<longrightarrow> i < c + m \<longrightarrow> bytes s' i = bytes s i)))"
    and free: "rep s L \<Longrightarrow> (b, n) \<in> L \<Longrightarrow>
      \<exists>s'. free b s = Some s' \<and> rep s' (L - {(b, n)})
        \<and> (\<forall>c m i. (c, m) \<in> L - {(b, n)} \<longrightarrow> c \<le> i \<longrightarrow> i < c + m \<longrightarrow> bytes s' i = bytes s i)"
    and apart: "rep s L \<Longrightarrow> (b, n) \<in> L \<Longrightarrow> (c, m) \<in> L \<Longrightarrow> (b, n) \<noteq> (c, m) \<Longrightarrow> b + n \<le> c \<or> c + m \<le> b"
    and poke_rep: "rep s L \<Longrightarrow> (b, n) \<in> L \<Longrightarrow> b \<le> p \<Longrightarrow> p + length bs \<le> b + n \<Longrightarrow> rep (poke p bs s) L"
    and poke_bytes: "bytes (poke p bs s) i = (if p \<le> i \<and> i < p + length bs then bs ! (i - p) else bytes s i)"
begin

fun run :: "heap_op list \<Rightarrow> (ptr \<times> u8 list) list \<Rightarrow> 's \<Rightarrow> ((ptr \<times> u8 list) list \<times> 's) option" where
  "run [] held s = Some (held, s)"
| "run (Keep bs # ops) held s =
     (case malloc (of_nat (length bs)) s of
        None \<Rightarrow> None
      | Some (b, s) \<Rightarrow> if b = null then run ops held s else run ops (held @ [(b, bs)]) (poke b bs s))"
| "run (Drop k # ops) held s =
     (if k < length held
      then case free (fst (held ! k)) s of
             None \<Rightarrow> None
           | Some s \<Rightarrow> run ops (take k held @ drop (Suc k) held) s
      else run ops held s)"

definition stored :: "'s \<Rightarrow> (ptr \<times> nat) set \<Rightarrow> ptr \<Rightarrow> u8 list \<Rightarrow> bool" where
  "stored s L b bs \<longleftrightarrow>
     (\<exists>n. (b, n) \<in> L \<and> length bs \<le> n) \<and> (\<forall>i < length bs. bytes s (b + i) = bs ! i)"

definition holds :: "(ptr \<times> u8 list) list \<Rightarrow> 's \<Rightarrow> (ptr \<times> nat) set \<Rightarrow> bool" where
  "holds held s L \<longleftrightarrow> rep s L \<and> distinct (map fst held) \<and> (\<forall>(b, bs) \<in> set held. stored s L b bs)"

lemma stored_other:
  assumes c: "stored s L c cs" and b: "b \<notin> fst ` L" "length bs \<le> n" "rep s' (insert (b, n) L)"
    and kept: "\<forall>c m i. (c, m) \<in> L \<longrightarrow> c \<le> i \<longrightarrow> i < c + m \<longrightarrow> bytes s' i = bytes s i"
  shows "stored (poke b bs s') (insert (b, n) L) c cs"
proof -
  obtain k where k: "(c, k) \<in> L" "length cs \<le> k" "\<forall>i < length cs. bytes s (c + i) = cs ! i"
    using c unfolding stored_def by blast
  have "(c, k) \<noteq> (b, n)" using k(1) b(1) by force
  then have far: "c + k \<le> b \<or> b + n \<le> c" using apart [OF b(3)] k(1) by blast
  have "bytes (poke b bs s') (c + i) = cs ! i" if "i < length cs" for i
  proof -
    have "bytes s' (c + i) = cs ! i" using kept k that by force
    moreover have "\<not> (b \<le> c + i \<and> c + i < b + length bs)" using far that k(2) b(2) by linarith
    ultimately show ?thesis by (auto simp: poke_bytes)
  qed
  with k show ?thesis unfolding stored_def by blast
qed

lemma holds_keep:
  assumes H: "holds held s L" and b: "b \<notin> fst ` L" "length bs \<le> n" "rep s' (insert (b, n) L)"
    and kept: "\<forall>c m i. (c, m) \<in> L \<longrightarrow> c \<le> i \<longrightarrow> i < c + m \<longrightarrow> bytes s' i = bytes s i"
  shows "holds (held @ [(b, bs)]) (poke b bs s') (insert (b, n) L)"
proof -
  have "rep (poke b bs s') (insert (b, n) L)" using poke_rep [OF b(3), of b n b bs] b(2) by simp
  moreover have "b \<notin> fst ` set held" using H b(1) by (force simp: holds_def stored_def)
  moreover have "stored (poke b bs s') (insert (b, n) L) b bs" using b(2) by (auto simp: stored_def poke_bytes)
  moreover have "\<forall>(c, cs) \<in> set held. stored (poke b bs s') (insert (b, n) L) c cs"
    using H stored_other [OF _ b kept] by (auto simp: holds_def)
  ultimately show ?thesis using H by (simp add: holds_def)
qed

lemma holds_drop:
  assumes H: "holds (us @ (b, bs) # vs) s L" and n: "(b, n) \<in> L" and s': "rep s' (L - {(b, n)})"
      "\<forall>c m i. (c, m) \<in> L - {(b, n)} \<longrightarrow> c \<le> i \<longrightarrow> i < c + m \<longrightarrow> bytes s' i = bytes s i"
  shows "holds (us @ vs) s' (L - {(b, n)})"
proof -
  have "stored s' (L - {(b, n)}) c cs" if "(c, cs) \<in> set (us @ vs)" for c cs
  proof -
    have "stored s L c cs" using H that by (auto simp: holds_def)
    then obtain k where k: "(c, k) \<in> L" "length cs \<le> k" "\<forall>i < length cs. bytes s (c + i) = cs ! i"
      unfolding stored_def by blast
    moreover have "c \<noteq> b" using H that by (auto simp: holds_def image_iff)
    ultimately have "(c, k) \<in> L - {(b, n)}" by simp
    then show ?thesis using s'(2) k by (fastforce simp: stored_def)
  qed
  then show ?thesis using H s'(1) by (auto simp: holds_def)
qed

lemma run_holds:
  assumes "holds held s L" "\<forall>bs. Keep bs \<in> set ops \<longrightarrow> length bs + 3 < 2 ^ 32"
  shows "\<exists>held' s' L'. run ops held s = Some (held', s') \<and> holds held' s' L'"
  using assms
proof (induction ops arbitrary: held s L)
  case (Cons oper ops)
  have rest: "\<forall>bs. Keep bs \<in> set ops \<longrightarrow> length bs + 3 < 2 ^ 32" using Cons.prems(2) by simp
  have rep: "rep s L" using Cons.prems(1) by (simp add: holds_def)
  show ?case
  proof (cases oper)
    case (Keep bs)
    have len: "length bs + 3 < 2 ^ 32" using Cons.prems(2) Keep by simp
    then have u: "unat (of_nat (length bs) :: u32) = length bs" by (simp add: unat_of_nat)
    obtain b s' where M: "malloc (of_nat (length bs)) s = Some (b, s')"
      "b = null \<and> s' = s \<or> (\<exists>n. b \<noteq> null \<and> b \<notin> fst ` L \<and> length bs \<le> n \<and> rep s' (insert (b, n) L)
          \<and> (\<forall>c m i. (c, m) \<in> L \<longrightarrow> c \<le> i \<longrightarrow> i < c + m \<longrightarrow> bytes s' i = bytes s i))"
      using malloc [OF rep, of "of_nat (length bs)"] len unfolding u by blast
    show ?thesis
    proof (cases "b = null")
      case True
      with M Cons.IH [OF Cons.prems(1) rest] Keep show ?thesis by simp
    next
      case False
      then obtain n where "b \<notin> fst ` L" "length bs \<le> n" "rep s' (insert (b, n) L)"
        "\<forall>c m i. (c, m) \<in> L \<longrightarrow> c \<le> i \<longrightarrow> i < c + m \<longrightarrow> bytes s' i = bytes s i" using M(2) by blast
      from Cons.IH [OF holds_keep [OF Cons.prems(1) this] rest] M(1) False Keep show ?thesis by simp
    qed
  next
    case (Drop k)
    show ?thesis
    proof (cases "k < length held")
      case True
      obtain b bs where kb: "held ! k = (b, bs)" by fastforce
      then have held: "held = take k held @ (b, bs) # drop (Suc k) held" using id_take_nth_drop [OF True] by simp
      then have H: "holds (take k held @ (b, bs) # drop (Suc k) held) s L" using Cons.prems(1) by simp
      then obtain n where n: "(b, n) \<in> L" by (auto simp: holds_def stored_def)
      from free [OF rep n] obtain s' where "free b s = Some s'" "rep s' (L - {(b, n)})"
        "\<forall>c m i. (c, m) \<in> L - {(b, n)} \<longrightarrow> c \<le> i \<longrightarrow> i < c + m \<longrightarrow> bytes s' i = bytes s i" by blast
      with Cons.IH [OF holds_drop [OF H n this(2,3)] rest] True Drop kb show ?thesis by simp
    qed (use Cons.IH [OF Cons.prems(1) rest] Drop in simp)
  qed
qed auto

end

section \<open>The default heap is an allocator\<close>

definition usable :: "ptr \<times> nat \<Rightarrow> ptr \<times> nat" where
  "usable = (\<lambda>(x, n). (x + 12, 4 * n - 12))"

definition heap_rep :: "ptr \<Rightarrow> vsf_heap_t \<Rightarrow> (ptr \<times> nat) set \<Rightarrow> bool" where
  "heap_rep a h L \<longleftrightarrow> (\<exists>xs. heap_wf h a xs \<and> L = usable ` lives a xs) \<and> (\<forall>b \<in> fst ` L. 8 dvd b)"

lemma lives_units: "heap_wf h a xs \<Longrightarrow> (x, n) \<in> lives a xs \<Longrightarrow> 3 \<le> n"
  using live_block(5) [of h a xs x n] by (simp add: heap_wf_def)

lemma lives_size: "heap_wf h a xs \<Longrightarrow> (x, n) \<in> lives a xs \<Longrightarrow> hp_lnext h x = n"
  using live_block(2) [of h a xs x n] by (simp add: heap_wf_def)

lemma usable_remove:
  assumes "heap_wf h a xs" "(x, n) \<in> lives a xs"
  shows "usable ` (lives a xs - {(x, n)}) = usable ` lives a xs - {(x + 12, 4 * n - 12)}"
proof -
  have "p = q" if "usable p = usable q" "p \<in> lives a xs" "q \<in> lives a xs" for p q
    using that lives_units [OF assms(1), of "fst p" "snd p"] lives_units [OF assms(1), of "fst q" "snd q"]
    by (cases p; cases q) (simp add: usable_def)
  then have "inj_on usable (lives a xs)" by (simp add: inj_on_def)
  then show ?thesis using assms(2) by (simp add: inj_on_image_set_diff [of _ "lives a xs"] usable_def)
qed

lemma heap_rep_malloc:
  assumes "heap_rep a h L" "unat sz + 3 < 2 ^ 32"
  shows "\<exists>b h'. vsf_heap_malloc_imp sz h = Some (b, h')
    \<and> (b = null \<and> h' = h \<or> (\<exists>n. b \<noteq> null \<and> b \<notin> fst ` L \<and> unat sz \<le> n \<and> heap_rep a h' (insert (b, n) L)
        \<and> (\<forall>c m i. (c, m) \<in> L \<longrightarrow> c \<le> i \<longrightarrow> i < c + m \<longrightarrow> hp_bytes h' i = hp_bytes h i)))"
proof -
  obtain xs where xs: "heap_wf h a xs" "L = usable ` lives a xs" "\<forall>b \<in> fst ` L. 8 dvd b"
    using assms(1) unfolding heap_rep_def by blast
  have L: "heap_lay h a xs" using xs(1) by (simp add: heap_wf_def)
  have al: "(8 :: u32) = 0 \<or> (3 :: nat) < 32 \<and> (8 :: u32) = 2 ^ 3" by simp
  obtain b h' where M: "vsf_heap_malloc_imp sz h = Some (b, h')"
    "b = null \<and> h' = h \<or> b \<noteq> null \<and> allocated h a xs (unat (round4 sz)) (unat (8 :: u32)) b h'"
    using malloc_aligned_ok [OF L al, of sz]
    unfolding vsf_heap_malloc_imp_def vsf_heap_malloc_aligned_imp_def by blast
  show ?thesis
  proof (cases "b = null")
    case False
    with M(2) have "allocated h a xs (unat (round4 sz)) (unat (8 :: u32)) b h'" by blast
    from allocated_wf [OF this xs(1)] obtain xs' n where A: "heap_wf h' a xs'" "12 < b" "8 dvd b"
      "lives a xs' = insert (b - 12, n) (lives a xs)" "b - 12 \<notin> fst ` lives a xs"
      "unat (round4 sz) + 12 \<le> 4 * n" "bytes_kept a xs h h'" by auto
    have "insert (b, 4 * n - 12) L = usable ` lives a xs'" using A(2,4) xs(2) by (simp add: usable_def)
    moreover have "\<forall>c \<in> fst ` insert (b, 4 * n - 12) L. 8 dvd c" using A(3) xs(3) by simp
    ultimately have "heap_rep a h' (insert (b, 4 * n - 12) L)" using A(1) unfolding heap_rep_def by blast
    moreover have "b \<notin> fst ` L" using A(2,5) xs(2) by (force simp: usable_def)
    moreover have "unat sz \<le> 4 * n - 12" using A(6) round4_big_enough [OF assms(2)] by linarith
    moreover have "hp_bytes h' i = hp_bytes h i" if "(c, m) \<in> L" "c \<le> i" "i < c + m" for c m i
      using that A(7) xs(2) lives_units [OF xs(1)] by (fastforce simp: bytes_kept_def usable_def)
    ultimately show ?thesis using M(1) False by blast
  qed (use M in auto)
qed

lemma heap_rep_free:
  assumes "heap_rep a h L" "(b, n) \<in> L"
  shows "\<exists>h'. vsf_heap_free_imp b h = Some h' \<and> heap_rep a h' (L - {(b, n)}) \<and> hp_bytes h' = hp_bytes h"
proof -
  obtain xs where xs: "heap_wf h a xs" "L = usable ` lives a xs" "\<forall>b \<in> fst ` L. 8 dvd b"
    using assms(1) unfolding heap_rep_def by blast
  obtain x k where x: "(x, k) \<in> lives a xs" "b = x + 12" "n = 4 * k - 12"
    using assms(2) xs(2) by (auto simp: usable_def)
  have L: "heap_lay h a xs" using xs(1) by (simp add: heap_wf_def)
  note B = live_block [OF L x(1)]
  have "vsf_heap_free_imp b h = Some (p_vsf_heap_mcb_free x h)"
    using B get_mcb_block [of x "x + 12"] x(2) by (simp add: vsf_heap_free_imp_def p_vsf_heap_free_def Let_def)
  moreover obtain xs' where "heap_wf (p_vsf_heap_mcb_free x h) a xs'" "lives a xs' = lives a xs - {(x, k)}"
    "hp_bytes (p_vsf_heap_mcb_free x h) = hp_bytes h"
    using mcb_free_ok [OF L x(1)] xs(1) by (auto simp: heap_wf_def)
  moreover from this(2) have "usable ` lives a xs' = L - {(b, n)}"
    using usable_remove [OF xs(1) x(1)] xs(2) x(2,3) by simp
  moreover have "\<forall>c \<in> fst ` (L - {(b, n)}). 8 dvd c" using xs(3) by blast
  ultimately show ?thesis unfolding heap_rep_def by metis
qed

interpretation heap: allocator "heap_rep a" hp_bytes vsf_heap_malloc_imp vsf_heap_free_imp put_bytes for a
proof (unfold_locales, goal_cases)
  case 1 then show ?case by (rule heap_rep_malloc)
next
  case 2 then show ?case using heap_rep_free by metis
next
  case (3 h L b n c m)
  then obtain xs where xs: "heap_wf h a xs" "L = usable ` lives a xs" unfolding heap_rep_def by blast
  then obtain x k y l where "(x, k) \<in> lives a xs" "(y, l) \<in> lives a xs" "(x, k) \<noteq> (y, l)"
    "b = x + 12" "n = 4 * k - 12" "c = y + 12" "m = 4 * l - 12"
    using 3(2-4) by (auto simp: usable_def)
  moreover have "x \<noteq> y" using calculation(1-3) lives_size [OF xs(1)] by metis
  ultimately show ?case using lives_disjoint [of x k a xs y l] lives_units [OF xs(1)] by force
next
  case 4 then show ?case by (simp add: heap_rep_def put_bytes_def heap_wf_def heap_lay_def)
next
  case 5 then show ?case by (simp add: put_bytes_def)
qed

section \<open>Properties\<close>

lemma heap_init_rep:
  assumes "0 < b" "4 dvd b" "28 \<le> sz" "sz < 2 ^ 18"
  shows "\<exists>h'. vsf_heap_add_buffer b sz (vsf_heap_init h) = Some h' \<and> heap_rep b h' {}"
proof -
  have L: "heap_lay (vsf_heap_init h) b []"
    unfolding heap_lay_def layout_ok_def free_lists_def using assms
    by (simp add: vsf_heap_init_def dlist_def exI [of _ "\<lambda>_. []"])
  obtain h' where h': "p_vsf_heap_add_buffer b sz (vsf_heap_init h) = Some h'"
    "heap_lay h' b [Blk (sz div 4 - 3) False, Gap 12]" "hp_used_size h' = 0"
    using add_buffer_ok [OF L _ assms(2,1) _ assms(3,4) refl] by (auto simp: vsf_heap_init_def)
  then have "heap_wf h' b [Blk (sz div 4 - 3) False, Gap 12]" by (simp add: heap_wf_def)
  then show ?thesis using h'(1) unfolding heap_rep_def vsf_heap_add_buffer_def
    by (intro exI [of _ h'] conjI exI [of _ "[Blk (sz div 4 - 3) False, Gap 12]"]) auto
qed

text \<open>
  C9. An application on the default heap: after initialization with one region of memory, any program
  that allocates buffers, fills them and frees them in any order runs without a failed assertion, and
  at the end every buffer it still holds is in use and contains the bytes that were stored there.
\<close>

theorem heap_client_contents:
  assumes "0 < b" "4 dvd b" "28 \<le> sz" "sz < 2 ^ 18" "\<forall>bs. Keep bs \<in> set ops \<longrightarrow> length bs + 3 < 2 ^ 32"
  shows "\<exists>h1 held h' L. vsf_heap_add_buffer b sz (vsf_heap_init h) = Some h1
    \<and> allocator.run vsf_heap_malloc_imp vsf_heap_free_imp put_bytes ops [] h1 = Some (held, h')
    \<and> heap_rep b h' L \<and> distinct (map fst held)
    \<and> (\<forall>(p, bs) \<in> set held. (\<exists>n. (p, n) \<in> L \<and> length bs \<le> n)
         \<and> (\<forall>i < length bs. hp_bytes h' (p + i) = bs ! i))"
proof -
  obtain h1 where h1: "vsf_heap_add_buffer b sz (vsf_heap_init h) = Some h1" "heap_rep b h1 {}"
    using heap_init_rep [OF assms(1-4)] by blast
  have "heap.holds b [] h1 {}" using h1(2) by (simp add: heap.holds_def)
  from heap.run_holds [OF this assms(5)] h1(1) show ?thesis
    unfolding heap.holds_def heap.stored_def by blast
qed

theorem heap_client_contents_witness:
  "\<exists>h1 held h' L. vsf_heap_add_buffer 4096 200 (vsf_heap_init heap_empty) = Some h1
    \<and> allocator.run vsf_heap_malloc_imp vsf_heap_free_imp put_bytes [Keep [1, 2, 3], Keep [4], Drop 0] [] h1
      = Some (held, h') \<and> heap_rep 4096 h' L"
  using heap_client_contents [of 4096 200 "[Keep [1, 2, 3], Keep [4], Drop 0]" heap_empty] by auto

text \<open>
  \<open>vsf_heap_calloc\<close>: when the product of the arguments fits in 32 bits, the answer is NULL with the
  heap unchanged, or a new buffer of that many bytes, all of them zero.
\<close>

theorem heap_calloc_spec:
  assumes "heap_rep a h L" "unat n * unat sz + 3 < 2 ^ 32"
  shows "\<exists>b h'. vsf_heap_calloc n sz h = Some (b, h')
    \<and> (b = null \<and> h' = h \<or> (\<exists>k. b \<noteq> null \<and> unat n * unat sz \<le> k \<and> heap_rep a h' (insert (b, k) L)
        \<and> (\<forall>i < unat n * unat sz. hp_bytes h' (b + i) = 0)))"
proof -
  have u: "unat (sz * n) = unat n * unat sz" using assms(2)
    by (simp add: unat_word_ariths mult.commute)
  then have "unat (sz * n) + 3 < 2 ^ 32" using assms(2) by simp
  from heap_rep_malloc [OF assms(1) this] obtain b h1 where M: "vsf_heap_malloc_imp (sz * n) h = Some (b, h1)"
    "b = null \<and> h1 = h \<or> (\<exists>k. b \<noteq> null \<and> unat n * unat sz \<le> k \<and> heap_rep a h1 (insert (b, k) L))"
    unfolding u by blast
  moreover have "heap_rep a (put_bytes b (replicate (unat (sz * n)) 0) h1) (insert (b, k) L)"
    if "unat n * unat sz \<le> k" "heap_rep a h1 (insert (b, k) L)" for k
    using heap.poke_rep [OF that(2), of b k b] that(1) u by simp
  ultimately show ?thesis using u by (auto simp: vsf_heap_calloc_def Let_def put_bytes_def)
qed

theorem heap_calloc_spec_witness:
  "\<exists>b h'. vsf_heap_calloc 4 5 heap_example = Some (b, h')"
proof -
  have "heap_rep 4096 heap_example {}" using heap_example_wf by (auto simp: heap_rep_def usable_def intro!: exI)
  from heap_calloc_spec [OF this, of 4 5] show ?thesis by auto
qed

text \<open>A product that wraps is not noticed: 65536 elements of 65536 bytes are a request for no byte.\<close>

lemma heap_calloc_overflow: "vsf_heap_calloc 65536 65536 h = vsf_heap_calloc 1 0 h"
proof -
  have e: "(65536 :: u32) * 65536 = 0 * 1" by (simp add: word_unat_eq_iff)
  show ?thesis unfolding vsf_heap_calloc_def e ..
qed

text \<open>
  \<open>vsf_heap_strdup\<close> on a string: the answer is NULL with the heap unchanged, or a new buffer that
  holds the characters followed by a zero.
\<close>

theorem heap_strdup_spec:
  assumes "heap_rep a h L" "length str + 4 < 2 ^ 32"
  shows "\<exists>b h'. vsf_heap_strdup (Some str) h = Some (b, h')
    \<and> (b = null \<and> h' = h \<or> (\<exists>k. b \<noteq> null \<and> length str < k \<and> heap_rep a h' (insert (b, k) L)
        \<and> (\<forall>i \<le> length str. hp_bytes h' (b + i) = (str @ [0]) ! i)))"
proof -
  have u: "unat (of_nat (length str) + 1 :: u32) = length str + 1"
    using assms(2) by (simp add: unat_word_ariths unat_of_nat)
  then have "unat (of_nat (length str) + 1 :: u32) + 3 < 2 ^ 32" using assms(2) by simp
  from heap_rep_malloc [OF assms(1) this] obtain b h1 where
    M: "vsf_heap_malloc_imp (of_nat (length str) + 1) h = Some (b, h1)"
    "b = null \<and> h1 = h \<or> (\<exists>k. b \<noteq> null \<and> length str + 1 \<le> k \<and> heap_rep a h1 (insert (b, k) L))"
    unfolding u by blast
  have R: "heap_rep a (put_bytes (b + length str) [0] (put_bytes b str h1)) (insert (b, k) L)"
    if "length str + 1 \<le> k" "heap_rep a h1 (insert (b, k) L)" for k
    using heap.poke_rep [OF heap.poke_rep [OF that(2), of b k b str], of b k "b + length str" "[0]"] that(1) by simp
  have "hp_bytes (put_bytes (b + length str) [0] (put_bytes b str h1)) (b + i) = (str @ [0]) ! i"
    if "i \<le> length str" for i using that by (auto simp: put_bytes_def nth_append)
  with M R show ?thesis by (auto simp: vsf_heap_strdup_def Suc_le_eq)
qed

theorem heap_strdup_spec_witness:
  "\<exists>b h'. vsf_heap_strdup (Some [104, 105]) heap_example = Some (b, h')"
proof -
  have "heap_rep 4096 heap_example {}" using heap_example_wf by (auto simp: heap_rep_def usable_def intro!: exI)
  from heap_strdup_spec [OF this, of "[104, 105]"] show ?thesis by auto
qed

end
