(* ===== verification/VSF_Systimer.thy ===== *)
theory VSF_Systimer
  imports VSF_Prelude
begin

text \<open>
  The system timer of \<open>src/source/hal/arch/vsf_arch_abstraction.c\<close>, implemented with a normal timer
  (\<open>VSF_SYSTIMER_IMPL_WITH_NORMAL_TIMER\<close>, the default of Cortex-M) and in tick mode. The functions of
  the target below it are those that \<open>__vsf_arch_interface.h\<close> documents, on a timer that counts up to
  its reload value, sets a pending bit and starts again from 0. Ticks are 64 bits wide; they are
  natural numbers here, and the conversions between time and ticks are taken modulo 2 to the 64.
\<close>

section \<open>State\<close>

text \<open>
  The members of \<open>__systimer\<close>, the static variable \<open>__ticks_prev\<close> of \<open>vsf_systimer_get\<close>, and the timer
  of the target: its counter, its reload register, its pending bit and whether it runs.
\<close>

record systimer =
  st_tick :: nat
  st_base :: nat
  st_unit :: nat
  st_max_tick_per_round :: nat
  st_reload :: nat
  st_enabled :: bool
  st_ticks_prev :: nat
  hw_count :: nat
  hw_reload :: nat
  hw_pending :: bool
  hw_running :: bool
  hw_int :: bool

section \<open>The timer of the target\<close>

definition vsf_systimer_low_level_disable :: "systimer \<Rightarrow> bool \<times> systimer" where
  "vsf_systimer_low_level_disable t = (hw_pending t, t\<lparr>hw_running := False\<rparr>)"

definition vsf_systimer_get_tick_elapsed :: "systimer \<Rightarrow> nat" where
  "vsf_systimer_get_tick_elapsed t = hw_count t"

definition vsf_systimer_low_level_init :: "nat \<Rightarrow> systimer \<Rightarrow> systimer" where
  "vsf_systimer_low_level_init ticks t =
     t\<lparr>hw_running := False, hw_reload := ticks, hw_count := 0, hw_pending := False, hw_int := True\<rparr>"

text \<open>One tick of the clock.\<close>

definition hw_advance :: "systimer \<Rightarrow> systimer" where
  "hw_advance t =
     (if \<not> hw_running t then t
      else if hw_reload t \<le> Suc (hw_count t) then t\<lparr>hw_count := 0, hw_pending := True\<rparr>
      else t\<lparr>hw_count := Suc (hw_count t)\<rparr>)"

section \<open>The system timer\<close>

definition p_vsf_systimer_enabled :: "systimer \<Rightarrow> systimer" where
  "p_vsf_systimer_enabled t = t\<lparr>hw_running := True, st_enabled := True\<rparr>"

definition p_vsf_systimer_disabled :: "systimer \<Rightarrow> bool \<times> systimer" where
  "p_vsf_systimer_disabled t =
     (let (pending, t) = vsf_systimer_low_level_disable t in (pending, t\<lparr>st_enabled := False\<rparr>))"

definition vsf_systimer_get :: "systimer \<Rightarrow> nat \<times> systimer" where
  "vsf_systimer_get t =
     (let ticks = st_base t;
          elapsed = vsf_systimer_get_tick_elapsed t;
          (ticks, elapsed) = (if hw_pending t then (ticks + st_reload t, vsf_systimer_get_tick_elapsed t)
                              else (ticks, elapsed));
          ticks = ticks + elapsed;
          ticks = (if ticks < st_ticks_prev t then st_ticks_prev t + 1 else ticks)
      in (ticks, t\<lparr>st_ticks_prev := ticks\<rparr>))"

definition p_vsf_systimer_now :: "systimer \<Rightarrow> nat \<times> systimer" where
  "p_vsf_systimer_now t = (let (tick, t) = vsf_systimer_get t in (tick, t\<lparr>st_tick := tick\<rparr>))"

definition p_vsf_systimer_set_target :: "nat \<Rightarrow> systimer \<Rightarrow> bool \<times> systimer" where
  "p_vsf_systimer_set_target tick_cnt t =
     (if tick_cnt = 0 then (False, t)
      else
        let (pending, t) = p_vsf_systimer_disabled t;
            elapsed = vsf_systimer_get_tick_elapsed t;
            elapsed = (if pending then elapsed + st_reload t else elapsed);
            t = t\<lparr>st_base := st_base t + elapsed\<rparr>;
            t = t\<lparr>st_reload := tick_cnt, hw_reload := tick_cnt\<rparr>;
            t = t\<lparr>hw_count := 0, hw_pending := False, hw_int := True\<rparr>
        in (True, p_vsf_systimer_enabled t))"

text \<open>The interrupt handler; the tick is what \<open>vsf_systimer_evthandler\<close> is called with.\<close>

definition vsf_systimer_ovf_evt_handler :: "systimer \<Rightarrow> nat \<times> systimer" where
  "vsf_systimer_ovf_evt_handler t =
     p_vsf_systimer_now (t\<lparr>hw_int := False, hw_pending := False, st_base := st_base t + st_reload t\<rparr>)"

definition vsf_systimer_init :: "nat \<Rightarrow> nat \<Rightarrow> systimer \<Rightarrow> systimer" where
  "vsf_systimer_init freq bits t =
     (let u = freq div 1000000;
          t = t\<lparr>st_unit := (if u = 0 then 1 else u), st_max_tick_per_round := 2 ^ bits - 1\<rparr>
      in vsf_systimer_low_level_init (st_max_tick_per_round t) t)"

definition vsf_systimer_set_idle :: "systimer \<Rightarrow> systimer" where
  "vsf_systimer_set_idle t =
     (let (_, t) = p_vsf_systimer_now t in snd (p_vsf_systimer_set_target (st_max_tick_per_round t) t))"

definition vsf_systimer_start :: "systimer \<Rightarrow> systimer" where
  "vsf_systimer_start t = snd (p_vsf_systimer_set_target (st_max_tick_per_round t) t)"

definition vsf_systimer_set :: "nat \<Rightarrow> systimer \<Rightarrow> bool \<times> systimer" where
  "vsf_systimer_set due t =
     (let max_tick_per_round = st_max_tick_per_round t;
          (current, t) = p_vsf_systimer_now t
      in if current < due
         then let tick_cnt = due - current;
                  tick_cnt = (if max_tick_per_round < tick_cnt
                              then min max_tick_per_round (tick_cnt div 2) else tick_cnt)
              in p_vsf_systimer_set_target tick_cnt t
         else (False, t))"

definition vsf_systimer_is_due :: "nat \<Rightarrow> systimer \<Rightarrow> bool \<times> systimer" where
  "vsf_systimer_is_due due t = (let (tick, t) = p_vsf_systimer_now t in (due \<le> tick, t))"

definition vsf_systimer_us_to_tick :: "systimer \<Rightarrow> u32 \<Rightarrow> nat" where
  "vsf_systimer_us_to_tick t time_us = (unat time_us * st_unit t) mod 2 ^ 64"

definition vsf_systimer_ms_to_tick :: "systimer \<Rightarrow> u32 \<Rightarrow> nat" where
  "vsf_systimer_ms_to_tick t time_ms = (unat time_ms * st_unit t * 1000) mod 2 ^ 64"

definition vsf_systimer_tick_to_us :: "systimer \<Rightarrow> nat \<Rightarrow> nat" where
  "vsf_systimer_tick_to_us t ticks = ticks div st_unit t"

definition vsf_systimer_tick_to_ms :: "systimer \<Rightarrow> nat \<Rightarrow> nat" where
  "vsf_systimer_tick_to_ms t ticks = vsf_systimer_tick_to_us t ticks div 1000"

section \<open>The time that the timer stands for\<close>

definition hw_time :: "systimer \<Rightarrow> nat" where
  "hw_time t = st_base t + (if hw_pending t then st_reload t else 0) + hw_count t"

text \<open>The registers agree with the software, and no reading has been ahead of the time.\<close>

definition systimer_ok :: "systimer \<Rightarrow> bool" where
  "systimer_ok t \<longleftrightarrow> hw_reload t = st_reload t \<and> 0 < st_reload t \<and> hw_count t < st_reload t
     \<and> hw_running t \<and> st_ticks_prev t \<le> hw_time t \<and> 0 < st_max_tick_per_round t \<and> 0 < st_unit t"

lemma systimer_get_ok:
  assumes "systimer_ok t"
  shows "vsf_systimer_get t = (hw_time t, t\<lparr>st_ticks_prev := hw_time t\<rparr>)"
  using assms
  by (auto simp: vsf_systimer_get_def vsf_systimer_get_tick_elapsed_def systimer_ok_def hw_time_def Let_def
      split: if_splits)

lemma systimer_now_ok:
  assumes "systimer_ok t"
  shows "p_vsf_systimer_now t = (hw_time t, t\<lparr>st_ticks_prev := hw_time t, st_tick := hw_time t\<rparr>)"
  using assms by (simp add: p_vsf_systimer_now_def systimer_get_ok)

lemma systimer_read_ok:
  assumes "systimer_ok t"
  shows "systimer_ok (t\<lparr>st_ticks_prev := hw_time t, st_tick := v\<rparr>)"
    and "systimer_ok (t\<lparr>st_ticks_prev := hw_time t\<rparr>)"
    and "hw_time (t\<lparr>st_ticks_prev := u, st_tick := v\<rparr>) = hw_time t" and "hw_time (t\<lparr>st_ticks_prev := u\<rparr>) = hw_time t"
  using assms by (simp_all add: systimer_ok_def hw_time_def)

lemma set_target_time:
  assumes "p_vsf_systimer_set_target n t = (r, t')"
  shows "hw_time t' = hw_time t" and "0 < n \<Longrightarrow> r"
    and "0 < n \<Longrightarrow> st_reload t' = n \<and> hw_count t' = 0 \<and> \<not> hw_pending t' \<and> hw_int t'"
    and "0 < n \<Longrightarrow> systimer_ok t \<Longrightarrow> systimer_ok t'"
  using assms
  by (auto simp: p_vsf_systimer_set_target_def p_vsf_systimer_disabled_def vsf_systimer_low_level_disable_def
      vsf_systimer_get_tick_elapsed_def p_vsf_systimer_enabled_def hw_time_def systimer_ok_def Let_def
      split: if_splits)

lemma advance_ok:
  assumes "systimer_ok t" "\<not> (hw_pending t \<and> Suc (hw_count t) = st_reload t)"
  shows "systimer_ok (hw_advance t)" "hw_time (hw_advance t) = Suc (hw_time t)"
  using assms by (auto simp: systimer_ok_def hw_advance_def hw_time_def)

lemma ovf_ok:
  assumes "systimer_ok t" "hw_pending t"
  shows "\<exists>t'. vsf_systimer_ovf_evt_handler t = (hw_time t, t') \<and> systimer_ok t' \<and> hw_time t' = hw_time t \<and> \<not> hw_pending t'"
proof -
  define u where "u = t\<lparr>hw_int := False, hw_pending := False, st_base := st_base t + st_reload t\<rparr>"
  have u: "systimer_ok u" "hw_time u = hw_time t" "\<not> hw_pending u"
    using assms by (simp_all add: u_def systimer_ok_def hw_time_def)
  have "vsf_systimer_ovf_evt_handler t = (hw_time u, u\<lparr>st_ticks_prev := hw_time u, st_tick := hw_time u\<rparr>)"
    using systimer_now_ok [OF u(1)] by (simp add: vsf_systimer_ovf_evt_handler_def u_def)
  then show ?thesis using systimer_read_ok [OF u(1)] u by auto
qed

lemma set_ok:
  assumes "systimer_ok t" "vsf_systimer_set due t = (r, t')"
  shows "systimer_ok t'" "hw_time t' = hw_time t" "r \<longleftrightarrow> hw_time t < due"
    and "hw_time t < due \<Longrightarrow> \<not> hw_pending t' \<and> hw_count t' = 0 \<and> hw_time t + st_reload t' \<le> due
      \<and> (due - hw_time t \<le> st_max_tick_per_round t \<longrightarrow> hw_time t + st_reload t' = due)"
proof -
  define u where "u = t\<lparr>st_ticks_prev := hw_time t, st_tick := hw_time t\<rparr>"
  define n where "n = (if st_max_tick_per_round t < due - hw_time t
      then min (st_max_tick_per_round t) ((due - hw_time t) div 2) else due - hw_time t)"
  have u: "systimer_ok u" "hw_time u = hw_time t" using systimer_read_ok [OF assms(1)] by (simp_all add: u_def)
  have eq: "vsf_systimer_set due t = (if hw_time t < due then p_vsf_systimer_set_target n u else (False, u))"
    using systimer_now_ok [OF assms(1)]
    by (simp add: vsf_systimer_set_def u_def [symmetric] n_def [symmetric] Let_def)
  have n: "hw_time t < due \<Longrightarrow> 0 < n \<and> hw_time t + n \<le> due" "\<not> st_max_tick_per_round t < due - hw_time t \<Longrightarrow> n = due - hw_time t"
    using assms(1) by (auto simp: n_def systimer_ok_def)
  show "systimer_ok t'" "hw_time t' = hw_time t" "r \<longleftrightarrow> hw_time t < due"
    using assms(2) eq u n(1) set_target_time [of n u] by (auto split: if_splits)
  show "\<not> hw_pending t' \<and> hw_count t' = 0 \<and> hw_time t + st_reload t' \<le> due
      \<and> (due - hw_time t \<le> st_max_tick_per_round t \<longrightarrow> hw_time t + st_reload t' = due)" if "hw_time t < due"
    using assms(2) eq u n that set_target_time(3) [of n u] by (auto split: if_splits)
qed

section \<open>Runs\<close>

text \<open>
  The steps of the timer: a tick of the clock (while at most one overflow is waiting), the interrupt,
  and the calls of the kernel.
\<close>

inductive systimer_step :: "systimer \<Rightarrow> nat \<Rightarrow> systimer \<Rightarrow> bool" where
  clock: "\<not> (hw_pending t \<and> Suc (hw_count t) = st_reload t) \<Longrightarrow> systimer_step t 1 (hw_advance t)"
| overflow: "hw_pending t \<Longrightarrow> systimer_step t 0 (snd (vsf_systimer_ovf_evt_handler t))"
| set_due: "systimer_step t 0 (snd (vsf_systimer_set d t))"
| set_idle: "systimer_step t 0 (vsf_systimer_set_idle t)"
| get_tick: "systimer_step t 0 (snd (vsf_systimer_get t))"
| is_due: "systimer_step t 0 (snd (vsf_systimer_is_due d t))"

inductive systimer_run :: "systimer \<Rightarrow> nat \<Rightarrow> systimer \<Rightarrow> bool" where
  start: "systimer_run t 0 t"
| more: "systimer_run t n u \<Longrightarrow> systimer_step u m v \<Longrightarrow> systimer_run t (n + m) v"

lemma step_ok:
  assumes "systimer_step t n t'" "systimer_ok t"
  shows "systimer_ok t' \<and> hw_time t' = hw_time t + n"
  using assms
proof (cases rule: systimer_step.cases)
  case clock
  then show ?thesis using advance_ok assms(2) by simp
next
  case overflow
  then show ?thesis using ovf_ok [OF assms(2)] by auto
next
  case (set_due d)
  then show ?thesis using set_ok [OF assms(2)] by (metis add_0_right prod.collapse)
next
  case set_idle
  let ?u = "t\<lparr>st_ticks_prev := hw_time t, st_tick := hw_time t\<rparr>"
  have m: "0 < st_max_tick_per_round ?u" using assms(2) by (simp add: systimer_ok_def)
  have "t' = snd (p_vsf_systimer_set_target (st_max_tick_per_round ?u) ?u)"
    using set_idle systimer_now_ok [OF assms(2)] by (simp add: vsf_systimer_set_idle_def)
  then have s: "p_vsf_systimer_set_target (st_max_tick_per_round ?u) ?u =
      (fst (p_vsf_systimer_set_target (st_max_tick_per_round ?u) ?u), t')" by (metis prod.collapse)
  show ?thesis using set_target_time(1,4) [OF s] m systimer_read_ok [OF assms(2)] set_idle(1) by simp
next
  case get_tick
  then show ?thesis using systimer_get_ok [OF assms(2)] systimer_read_ok [OF assms(2)] by simp
next
  case (is_due d)
  then show ?thesis using systimer_now_ok [OF assms(2)] systimer_read_ok [OF assms(2)]
    by (simp add: vsf_systimer_is_due_def)
qed

lemma run_ok: "systimer_run t n t' \<Longrightarrow> systimer_ok t \<Longrightarrow> systimer_ok t' \<and> hw_time t' = hw_time t + n"
  by (induction rule: systimer_run.induct) (auto dest: step_ok)

section \<open>Properties\<close>

definition systimer_example :: systimer where
  "systimer_example = vsf_systimer_start (vsf_systimer_init 48000000 24
     \<lparr>st_tick = 0, st_base = 0, st_unit = 0, st_max_tick_per_round = 0, st_reload = 0, st_enabled = False,
      st_ticks_prev = 0, hw_count = 0, hw_reload = 0, hw_pending = False, hw_running = False, hw_int = False\<rparr>)"

lemma systimer_example_ok: "systimer_ok systimer_example" "hw_time systimer_example = 0"
  by (simp_all add: systimer_example_def vsf_systimer_start_def vsf_systimer_init_def systimer_ok_def hw_time_def
      vsf_systimer_low_level_init_def p_vsf_systimer_set_target_def p_vsf_systimer_disabled_def
      vsf_systimer_low_level_disable_def vsf_systimer_get_tick_elapsed_def p_vsf_systimer_enabled_def Let_def)



text \<open>
  A deadline is not missed: \<open>vsf_systimer_set\<close> succeeds exactly when the due tick is in the future.
  Then the next overflow comes no later than the due tick, and at the due tick if that is within one
  round of the counter; when it fails, the tick is due already.
\<close>

theorem systimer_set_deadline:
  assumes "systimer_ok t" "vsf_systimer_set d t = (r, t')"
  shows "(r \<longleftrightarrow> hw_time t < d) \<and> hw_time t' = hw_time t
    \<and> (r \<longrightarrow> \<not> hw_pending t' \<and> hw_count t' = 0 \<and> hw_time t + st_reload t' \<le> d
         \<and> (d - hw_time t \<le> st_max_tick_per_round t \<longrightarrow> hw_time t + st_reload t' = d))
    \<and> (\<not> r \<longrightarrow> fst (vsf_systimer_is_due d t'))"
proof -
  note S = set_ok [OF assms]
  have "fst (vsf_systimer_is_due d t') \<longleftrightarrow> d \<le> hw_time t'"
    using systimer_now_ok [OF S(1)] by (simp add: vsf_systimer_is_due_def)
  with S show ?thesis by auto
qed

theorem systimer_set_deadline_witness:
  "\<exists>t'. vsf_systimer_set 5 systimer_example = (True, t') \<and> hw_time systimer_example + st_reload t' = 5"
proof -
  obtain r t' where s: "vsf_systimer_set 5 systimer_example = (r, t')" by fastforce
  have "st_max_tick_per_round systimer_example = 2 ^ 24 - 1"
    by (simp add: systimer_example_def vsf_systimer_start_def vsf_systimer_init_def
      vsf_systimer_low_level_init_def p_vsf_systimer_set_target_def p_vsf_systimer_disabled_def
      vsf_systimer_low_level_disable_def p_vsf_systimer_enabled_def Let_def)
  with systimer_set_deadline [OF systimer_example_ok(1) s] s systimer_example_ok(2) show ?thesis by auto
qed

text \<open>Converting a time to ticks and back gives the time, as long as the product fits in 64 bits.\<close>

lemma systimer_conversion_roundtrip:
  assumes "0 < st_unit t" "st_unit t * 1000 < 2 ^ 32"
  shows "vsf_systimer_tick_to_us t (vsf_systimer_us_to_tick t us) = unat us"
    and "vsf_systimer_tick_to_ms t (vsf_systimer_ms_to_tick t ms) = unat ms"
proof -
  have b: "unat us * st_unit t < 2 ^ 32 * 2 ^ 32" "unat ms * (st_unit t * 1000) < 2 ^ 32 * 2 ^ 32"
    by (rule mult_strict_mono; use assms unat_u32_less in simp)+
  then have "(unat us * st_unit t) mod 2 ^ 64 = unat us * st_unit t" by simp
  then show "vsf_systimer_tick_to_us t (vsf_systimer_us_to_tick t us) = unat us"
    using assms(1) unfolding vsf_systimer_us_to_tick_def vsf_systimer_tick_to_us_def by simp
  have "(unat ms * st_unit t * 1000) mod 2 ^ 64 = unat ms * st_unit t * 1000" using b(2) by (simp add: mult.assoc)
  moreover have "unat ms * st_unit t * 1000 div st_unit t div 1000 = unat ms"
  proof -
    have "unat ms * st_unit t * 1000 = (unat ms * 1000) * st_unit t" by simp
    then show ?thesis using assms(1) by (simp only: div_mult_self_is_m)
  qed
  ultimately show "vsf_systimer_tick_to_ms t (vsf_systimer_ms_to_tick t ms) = unat ms"
    unfolding vsf_systimer_ms_to_tick_def vsf_systimer_tick_to_us_def vsf_systimer_tick_to_ms_def by simp
qed

end
