(* ===== verification/VSF_Kernel.thy ===== *)
theory VSF_Kernel
  imports VSF_List VSF_Systimer "HOL-Library.Monad_Syntax"
begin

text \<open>
  The tasks and event queues of the kernel in its default configuration, with preemption and dynamic
  priorities (\<open>src/source/kernel/vsf_evtq_list.c\<close> and the event queue functions of \<open>vsf_os.c\<close> and
  \<open>vsf_eda.c\<close>). An intrusive list is the list of the objects that it links; the pointer operations of
  \<open>VSF_List\<close> implement the operations on that list as long as a node is enqueued while it is in no list
  and removed from the list that it is in, and an operation that breaks this rule is an error here.
  An event queue is named by its index in the array of queues, which is its priority, and a task by
  its address. The pool of event nodes is the number of free nodes. A function of the application
  that the kernel calls is an argument. \<open>None\<close> is a failed assertion, a null pointer that is followed
  or a broken list.
\<close>

section \<open>Intrusive lists\<close>

definition dlq_enqueue :: "ptr \<Rightarrow> ptr list \<Rightarrow> ptr list option" where
  "dlq_enqueue x xs = (if x \<in> set xs then None else Some (xs @ [x]))"

definition dlq_remove :: "ptr \<Rightarrow> ptr list \<Rightarrow> ptr list option" where
  "dlq_remove x xs = (if x \<in> set xs then Some (remove1 x xs) else None)"

text \<open>Insertion before the first item that satisfies the condition, at the end when there is none.\<close>

definition dlq_insert :: "(ptr \<Rightarrow> bool) \<Rightarrow> ptr \<Rightarrow> ptr list \<Rightarrow> ptr list option" where
  "dlq_insert P x xs =
     (if x \<in> set xs then None
      else Some (takeWhile (\<lambda>y. \<not> P y) xs @ x # dropWhile (\<lambda>y. \<not> P y) xs))"

section \<open>Data\<close>

datatype vsf_err_t =
    VSF_ERR_NONE | VSF_ERR_FAIL | VSF_ERR_NOT_READY | VSF_ERR_NOT_AVAILABLE | VSF_ERR_OVERRUN
  | VSF_ERR_NOT_ENOUGH_RESOURCES

type_synonym vsf_evt_t = int

definition VSF_EVT_INVALID :: vsf_evt_t where [simp]: "VSF_EVT_INVALID = - 1"
definition VSF_EVT_NONE :: vsf_evt_t where [simp]: "VSF_EVT_NONE = 0"
definition VSF_EVT_YIELD :: vsf_evt_t where [simp]: "VSF_EVT_YIELD = 1"
definition VSF_EVT_INIT :: vsf_evt_t where [simp]: "VSF_EVT_INIT = 257"
definition VSF_EVT_RETURN :: vsf_evt_t where [simp]: "VSF_EVT_RETURN = 260"
definition VSF_EVT_TIMER :: vsf_evt_t where [simp]: "VSF_EVT_TIMER = 261"
definition VSF_EVT_SYNC :: vsf_evt_t where [simp]: "VSF_EVT_SYNC = 262"
definition VSF_EVT_SYNC_CANCEL :: vsf_evt_t where [simp]: "VSF_EVT_SYNC_CANCEL = 263"
definition VSF_EVT_MESSAGE :: vsf_evt_t where [simp]: "VSF_EVT_MESSAGE = 265"
definition VSF_KERNEL_EVT_CALLBACK_TIMER :: vsf_evt_t where [simp]: "VSF_KERNEL_EVT_CALLBACK_TIMER = 266"
definition VSF_KERNEL_EVT_CALLBACK_TIMER_ADD :: vsf_evt_t where [simp]: "VSF_KERNEL_EVT_CALLBACK_TIMER_ADD = 267"
definition VSF_KERNEL_EVT_QUEUE_SEND_NOTIFY :: vsf_evt_t where [simp]: "VSF_KERNEL_EVT_QUEUE_SEND_NOTIFY = 268"
definition VSF_KERNEL_EVT_QUEUE_RECV_NOTIFY :: vsf_evt_t where [simp]: "VSF_KERNEL_EVT_QUEUE_RECV_NOTIFY = 269"

text \<open>The members of a task that the kernel uses; \<open>due\<close> belongs to a task with a timer.\<close>

record vsf_eda_t =
  priority :: nat
  cur_priority :: nat
  new_priority :: nat
  is_ready :: bool
  evt_list :: "(vsf_evt_t \<times> ptr) list"
  is_new_prio :: bool
  is_to_exit :: bool
  is_limitted :: bool
  is_sync_got :: bool
  is_to_set_due :: bool
  is_timed :: bool
  due :: nat

record vsf_evtq_t =
  rdy_list :: "ptr list"
  cur_eda :: ptr
  cur_evt :: vsf_evt_t
  cur_msg :: ptr

text \<open>
  \<open>cur_evtq\<close> is \<open>__vsf_eda_evtq_cur\<close>, \<open>swi_pending\<close> the triggered software interrupts and \<open>swi_prio\<close> the
  priority of each, \<open>ended\<close> the tasks whose \<open>on_terminate\<close> was called, in that order. The
  other fields are those of \<open>__vsf_eda\<close>: the address of the kernel task and the timers, tasks in \<open>timq\<close>
  and callback timers in the other two queues, with their due ticks in \<open>cb_due\<close>.
\<close>

record kernel =
  edas :: "ptr \<Rightarrow> vsf_eda_t"
  evtqs :: "vsf_evtq_t list"
  cur_evtq :: "nat option"
  node_cnt :: nat
  swi_pending :: "nat set"
  swi_prio :: "nat \<Rightarrow> nat"
  ended :: "ptr list"
  ktask :: ptr
  systimer :: systimer
  timq :: "ptr list"
  callback_timq :: "ptr list"
  callback_timq_done :: "ptr list"
  cb_due :: "ptr \<Rightarrow> nat"
  pre_tick :: nat
  processing :: bool

definition upd_eda :: "ptr \<Rightarrow> (vsf_eda_t \<Rightarrow> vsf_eda_t) \<Rightarrow> 'a kernel_scheme \<Rightarrow> 'a kernel_scheme" where
  "upd_eda p f k = k\<lparr>edas := (edas k)(p := f (edas k p))\<rparr>"

definition upd_evtq :: "nat \<Rightarrow> (vsf_evtq_t \<Rightarrow> vsf_evtq_t) \<Rightarrow> 'a kernel_scheme \<Rightarrow> 'a kernel_scheme" where
  "upd_evtq q f k = k\<lparr>evtqs := (evtqs k)[q := f (evtqs k ! q)]\<rparr>"

section \<open>Event queues of the operating system\<close>

text \<open>\<open>None\<close> is the null pointer.\<close>

definition p_vsf_os_evtq_get :: "nat \<Rightarrow> 'a kernel_scheme \<Rightarrow> nat option" where
  "p_vsf_os_evtq_get prio k = (if prio < length (evtqs k) then Some prio else None)"

definition p_vsf_os_evtq_set_priority :: "nat \<Rightarrow> nat \<Rightarrow> 'a kernel_scheme \<Rightarrow> 'a kernel_scheme option" where
  "p_vsf_os_evtq_set_priority q prio k =
     (if q < length (evtqs k) then Some (k\<lparr>swi_prio := (swi_prio k)(q := prio)\<rparr>) else None)"

definition p_vsf_os_evtq_init :: "nat \<Rightarrow> 'a kernel_scheme \<Rightarrow> 'a kernel_scheme option" where
  "p_vsf_os_evtq_init q k =
     (if q < length (evtqs k) then p_vsf_os_evtq_set_priority q q k else None)"

definition p_vsf_os_evtq_activate :: "nat \<Rightarrow> 'a kernel_scheme \<Rightarrow> 'a kernel_scheme option" where
  "p_vsf_os_evtq_activate q k =
     (if q < length (evtqs k) then Some (k\<lparr>swi_pending := insert q (swi_pending k)\<rparr>) else None)"

definition p_vsf_os_alloc_evt_node :: "'a kernel_scheme \<Rightarrow> 'a kernel_scheme option" where
  "p_vsf_os_alloc_evt_node k = (if node_cnt k = 0 then None else Some (k\<lparr>node_cnt := node_cnt k - 1\<rparr>))"

definition p_vsf_os_free_evt_node :: "'a kernel_scheme \<Rightarrow> 'a kernel_scheme" where
  "p_vsf_os_free_evt_node k = k\<lparr>node_cnt := node_cnt k + 1\<rparr>"

definition vsf_eda_get_cur :: "'a kernel_scheme \<Rightarrow> ptr" where
  "vsf_eda_get_cur k = (case cur_evtq k of None \<Rightarrow> null | Some q \<Rightarrow> cur_eda (evtqs k ! q))"

definition p_vsf_eda_get_valid_eda :: "ptr \<Rightarrow> 'a kernel_scheme \<Rightarrow> ptr" where
  "p_vsf_eda_get_valid_eda p k = (if p = null then vsf_eda_get_cur k else p)"

definition p_vsf_eda_on_terminate :: "ptr \<Rightarrow> 'a kernel_scheme \<Rightarrow> 'a kernel_scheme" where
  "p_vsf_eda_on_terminate p k = k\<lparr>ended := ended k @ [p]\<rparr>"

definition vsf_irq_enter :: "'a kernel_scheme \<Rightarrow> nat option \<times> 'a kernel_scheme" where
  "vsf_irq_enter k = (cur_evtq k, k\<lparr>cur_evtq := None\<rparr>)"

definition vsf_irq_leave :: "nat option \<Rightarrow> 'a kernel_scheme \<Rightarrow> 'a kernel_scheme" where
  "vsf_irq_leave ctx k = k\<lparr>cur_evtq := ctx\<rparr>"

section \<open>Priorities\<close>

definition evtq_remove :: "nat \<Rightarrow> ptr \<Rightarrow> 'a kernel_scheme \<Rightarrow> 'a kernel_scheme option" where
  "evtq_remove q p k = do {
     xs \<leftarrow> dlq_remove p (rdy_list (evtqs k ! q));
     Some (upd_evtq q (\<lambda>q. q\<lparr>rdy_list := xs\<rparr>) k)}"

definition evtq_enqueue :: "nat \<Rightarrow> ptr \<Rightarrow> 'a kernel_scheme \<Rightarrow> 'a kernel_scheme option" where
  "evtq_enqueue q p k = do {
     xs \<leftarrow> dlq_enqueue p (rdy_list (evtqs k ! q));
     Some (upd_evtq q (\<lambda>q. q\<lparr>rdy_list := xs\<rparr>) k)}"

definition p_vsf_eda_update_priotiry :: "ptr \<Rightarrow> nat \<Rightarrow> 'a kernel_scheme \<Rightarrow> 'a kernel_scheme option" where
  "p_vsf_eda_update_priotiry p prio k = do {
     k \<leftarrow> (if is_ready (edas k p)
          then do {
            q \<leftarrow> p_vsf_os_evtq_get (cur_priority (edas k p)) k;
            k \<leftarrow> evtq_remove q p k;
            q \<leftarrow> p_vsf_os_evtq_get prio k;
            k \<leftarrow> evtq_enqueue q p k;
            (if evt_list (edas k p) \<noteq> [] then p_vsf_os_evtq_activate q k else Some k)}
          else Some k);
     Some (upd_eda p (\<lambda>e. e\<lparr>cur_priority := prio\<rparr>) k)}"

definition p_vsf_eda_get_cur_priority :: "ptr \<Rightarrow> 'a kernel_scheme \<Rightarrow> nat" where
  "p_vsf_eda_get_cur_priority p k =
     (if is_new_prio (edas k p) then new_priority (edas k p) else cur_priority (edas k p))"

definition p_vsf_eda_set_priority :: "ptr \<Rightarrow> nat \<Rightarrow> 'a kernel_scheme \<Rightarrow> 'a kernel_scheme option" where
  "p_vsf_eda_set_priority p prio k =
     (if p = null then None
      else if cur_priority (edas k p) \<noteq> prio
      then do {
        q \<leftarrow> p_vsf_os_evtq_get (cur_priority (edas k p)) k;
        (if cur_eda (evtqs k ! q) \<noteq> p \<and> \<not> is_new_prio (edas k p)
         then p_vsf_eda_update_priotiry p prio k
         else let k = upd_eda p (\<lambda>e. e\<lparr>is_new_prio := True, new_priority := prio\<rparr>) k
              in if cur_priority (edas k p) < prio then p_vsf_os_evtq_set_priority q prio k else Some k)}
      else Some k)"

section \<open>Event queues\<close>

definition vsf_evtq_on_eda_init :: "ptr \<Rightarrow> 'a kernel_scheme \<Rightarrow> 'a kernel_scheme" where
  "vsf_evtq_on_eda_init p =
     upd_eda p (\<lambda>e. e\<lparr>cur_priority := priority e, evt_list := [], is_ready := False\<rparr>)"

definition vsf_evtq_on_eda_fini :: "ptr \<Rightarrow> 'a kernel_scheme \<Rightarrow> 'a kernel_scheme option" where
  "vsf_evtq_on_eda_fini p k = do {
     q \<leftarrow> p_vsf_os_evtq_get (cur_priority (edas k p)) k;
     (if cur_eda (evtqs k ! q) = p then Some (upd_eda p (\<lambda>e. e\<lparr>is_to_exit := True\<rparr>) k)
      else do {
        k \<leftarrow> (if is_ready (edas k p)
             then do {
               k \<leftarrow> evtq_remove q p k;
               Some (upd_eda p (\<lambda>e. e\<lparr>is_ready := False\<rparr>) k)}
             else Some k);
        let n = length (evt_list (edas k p));
        let k = upd_eda p (\<lambda>e. e\<lparr>evt_list := []\<rparr>) ((p_vsf_os_free_evt_node ^^ n) k);
        Some (p_vsf_eda_on_terminate p k)})}"

definition vsf_evtq_init :: "nat \<Rightarrow> 'a kernel_scheme \<Rightarrow> 'a kernel_scheme option" where
  "vsf_evtq_init q k =
     p_vsf_os_evtq_init q
       (upd_evtq q (\<lambda>_. \<lparr>rdy_list = [], cur_eda = null, cur_evt = VSF_EVT_INVALID, cur_msg = null\<rparr>) k)"

definition p_vsf_evtq_post ::
  "ptr \<Rightarrow> vsf_evt_t \<Rightarrow> ptr \<Rightarrow> bool \<Rightarrow> 'a kernel_scheme \<Rightarrow> (vsf_err_t \<times> 'a kernel_scheme) option" where
  "p_vsf_evtq_post eda evt msg force k =
     (if eda = null then None
      else do {
        k \<leftarrow> p_vsf_os_alloc_evt_node k;
        (if is_limitted (edas k eda) \<and> is_ready (edas k eda) \<and> \<not> force
         then Some (VSF_ERR_FAIL, p_vsf_os_free_evt_node k)
         else do {
           let k = upd_eda eda (\<lambda>e. e\<lparr>evt_list := evt_list e @ [(evt, msg)]\<rparr>) k;
           q \<leftarrow> p_vsf_os_evtq_get (cur_priority (edas k eda)) k;
           k \<leftarrow> (if \<not> is_ready (edas k eda)
                then evtq_enqueue q eda (upd_eda eda (\<lambda>e. e\<lparr>is_ready := True\<rparr>) k)
                else Some k);
           k \<leftarrow> p_vsf_os_evtq_activate q k;
           Some (VSF_ERR_NONE, k)})})"

definition vsf_evtq_post_evt_ex ::
  "ptr \<Rightarrow> vsf_evt_t \<Rightarrow> bool \<Rightarrow> 'a kernel_scheme \<Rightarrow> (vsf_err_t \<times> 'a kernel_scheme) option" where
  "vsf_evtq_post_evt_ex p evt force k = p_vsf_evtq_post p evt null force k"

definition vsf_evtq_post_evt ::
  "ptr \<Rightarrow> vsf_evt_t \<Rightarrow> 'a kernel_scheme \<Rightarrow> (vsf_err_t \<times> 'a kernel_scheme) option" where
  "vsf_evtq_post_evt p evt k = vsf_evtq_post_evt_ex p evt False k"

definition vsf_evtq_post_msg :: "ptr \<Rightarrow> ptr \<Rightarrow> 'a kernel_scheme \<Rightarrow> (vsf_err_t \<times> 'a kernel_scheme) option" where
  "vsf_evtq_post_msg p msg k = p_vsf_evtq_post p VSF_EVT_MESSAGE msg False k"

definition vsf_evtq_post_evt_msg ::
  "ptr \<Rightarrow> vsf_evt_t \<Rightarrow> ptr \<Rightarrow> 'a kernel_scheme \<Rightarrow> (vsf_err_t \<times> 'a kernel_scheme) option" where
  "vsf_evtq_post_evt_msg p evt msg k = p_vsf_evtq_post p evt msg False k"

definition vsf_evtq_is_empty :: "nat \<Rightarrow> 'a kernel_scheme \<Rightarrow> bool" where
  "vsf_evtq_is_empty q k \<longleftrightarrow> rdy_list (evtqs k ! q) = []"

text \<open>The loop over the events of the current task, from the first to the last of the snapshot.\<close>

fun clean_evts :: "vsf_evt_t \<Rightarrow> (vsf_evt_t \<times> ptr) list \<Rightarrow> (vsf_evt_t \<times> ptr) list \<times> nat" where
  "clean_evts evt [] = ([], 0)"
| "clean_evts evt ((node_evt, msg) # ns) =
     (let (rest, freed) = clean_evts evt ns
      in if VSF_EVT_NONE = evt \<or> node_evt = evt then (rest, freed + 1) else ((node_evt, msg) # rest, freed))"

definition vsf_evtq_clean_evt :: "vsf_evt_t \<Rightarrow> 'a kernel_scheme \<Rightarrow> 'a kernel_scheme option" where
  "vsf_evtq_clean_evt evt k =
     (let eda = vsf_eda_get_cur k
      in if eda = null then None
         else let (rest, freed) = clean_evts evt (evt_list (edas k eda))
              in Some (upd_eda eda (\<lambda>e. e\<lparr>evt_list := rest\<rparr>) ((p_vsf_os_free_evt_node ^^ freed) k)))"

section \<open>Posting\<close>

definition vsf_eda_post_evt ::
  "ptr \<Rightarrow> vsf_evt_t \<Rightarrow> 'a kernel_scheme \<Rightarrow> (vsf_err_t \<times> 'a kernel_scheme) option" where
  "vsf_eda_post_evt p evt k = (if p = null then None else vsf_evtq_post_evt p evt k)"

definition p_vsf_eda_post_evt_ex ::
  "ptr \<Rightarrow> vsf_evt_t \<Rightarrow> bool \<Rightarrow> 'a kernel_scheme \<Rightarrow> (vsf_err_t \<times> 'a kernel_scheme) option" where
  "p_vsf_eda_post_evt_ex p evt force k = (if p = null then None else vsf_evtq_post_evt_ex p evt force k)"

definition vsf_eda_post_msg :: "ptr \<Rightarrow> ptr \<Rightarrow> 'a kernel_scheme \<Rightarrow> (vsf_err_t \<times> 'a kernel_scheme) option" where
  "vsf_eda_post_msg p msg k = (if p = null \<or> odd msg then None else vsf_evtq_post_msg p msg k)"

definition vsf_eda_post_evt_msg ::
  "ptr \<Rightarrow> vsf_evt_t \<Rightarrow> ptr \<Rightarrow> 'a kernel_scheme \<Rightarrow> (vsf_err_t \<times> 'a kernel_scheme) option" where
  "vsf_eda_post_evt_msg p evt msg k = vsf_evtq_post_evt_msg p evt msg k"

definition p_vsf_eda_yield :: "'a kernel_scheme \<Rightarrow> (vsf_err_t \<times> 'a kernel_scheme) option" where
  "p_vsf_eda_yield k = (let p = vsf_eda_get_cur k in if p = null then None else vsf_eda_post_evt p VSF_EVT_YIELD k)"

end
