(* ===== verification/VSF_Timer.thy ===== *)
theory VSF_Timer
  imports VSF_Kernel
begin

text \<open>
  The timers of the kernel, \<open>src/source/kernel/__eda/vsf_eda_timer.c\<close> with the queues of
  \<open>vsf_timq_dlist.h\<close>, in tickless mode over the system timer of \<open>VSF_Systimer\<close>, and the handler of the
  kernel task in \<open>vsf_eda.c\<close>. Callback timers are named by their addresses.
\<close>

section \<open>Timers of tasks\<close>

definition vsf_systimer_get_tick :: "'a kernel_scheme \<Rightarrow> nat \<times> 'a kernel_scheme" where
  "vsf_systimer_get_tick k = (let (n, t) = vsf_systimer_get (systimer k) in (n, k\<lparr>systimer := t\<rparr>))"

definition p_vsf_systimer_is_due :: "nat \<Rightarrow> 'a kernel_scheme \<Rightarrow> bool \<times> 'a kernel_scheme" where
  "p_vsf_systimer_is_due d k = (let (b, t) = vsf_systimer_is_due d (systimer k) in (b, k\<lparr>systimer := t\<rparr>))"

definition p_vsf_systimer_wakeup :: "'a kernel_scheme \<Rightarrow> 'a kernel_scheme option" where
  "p_vsf_systimer_wakeup k =
     (if \<not> processing k
      then do {
        (err, k) \<leftarrow> vsf_eda_post_evt (ktask k) VSF_EVT_TIMER (k\<lparr>processing := True\<rparr>);
        Some (if err \<noteq> VSF_ERR_NONE then k\<lparr>processing := False\<rparr> else k)}
      else Some k)"

definition vsf_systimer_evthandler :: "'a kernel_scheme \<Rightarrow> 'a kernel_scheme option" where
  "vsf_systimer_evthandler k = p_vsf_systimer_wakeup k"

definition p_vsf_systimer_update :: "bool \<Rightarrow> 'a kernel_scheme \<Rightarrow> 'a kernel_scheme option" where
  "p_vsf_systimer_update force k =
     (case timq k of
        [] \<Rightarrow> Some (k\<lparr>systimer := vsf_systimer_set_idle (systimer k)\<rparr>)
      | teda # _ \<Rightarrow>
          let d = due (edas k teda)
          in if force \<or> d \<noteq> pre_tick k
             then let (ok, t) = vsf_systimer_set d (systimer k);
                      k = k\<lparr>pre_tick := d, systimer := t\<rparr>
                  in if \<not> ok then p_vsf_systimer_wakeup k else Some k
             else Some k)"

definition p_vsf_teda_timer_enqueue :: "ptr \<Rightarrow> nat \<Rightarrow> 'a kernel_scheme \<Rightarrow> 'a kernel_scheme option" where
  "p_vsf_teda_timer_enqueue p d k =
     (if p = null \<or> is_timed (edas k p) then None
      else do {
        let k = upd_eda p (\<lambda>e. e\<lparr>due := d\<rparr>) k;
        xs \<leftarrow> dlq_insert (\<lambda>y. due (edas k p) \<le> due (edas k y)) p (timq k);
        Some (upd_eda p (\<lambda>e. e\<lparr>is_timed := True\<rparr>) (k\<lparr>timq := xs\<rparr>))})"

definition p_vsf_teda_set_timer_imp :: "ptr \<Rightarrow> nat \<Rightarrow> 'a kernel_scheme \<Rightarrow> 'a kernel_scheme option" where
  "p_vsf_teda_set_timer_imp p d k = do {
     k \<leftarrow> p_vsf_teda_timer_enqueue p d k;
     p_vsf_systimer_update False k}"

definition p_vsf_systimer_init :: "nat \<Rightarrow> nat \<Rightarrow> 'a kernel_scheme \<Rightarrow> 'a kernel_scheme" where
  "p_vsf_systimer_init freq bits k =
     k\<lparr>processing := False, timq := [], callback_timq := [], callback_timq_done := [],
       systimer := vsf_systimer_init freq bits (systimer k)\<rparr>"

definition p_vsf_systimer_start :: "'a kernel_scheme \<Rightarrow> 'a kernel_scheme" where
  "p_vsf_systimer_start k = k\<lparr>systimer := vsf_systimer_start (systimer k)\<rparr>"

definition vsf_systimer_get_duration :: "nat \<Rightarrow> nat \<Rightarrow> nat" where
  "vsf_systimer_get_duration from_time to_time = to_time - from_time"

definition vsf_systimer_get_elapsed :: "nat \<Rightarrow> 'a kernel_scheme \<Rightarrow> nat \<times> 'a kernel_scheme" where
  "vsf_systimer_get_elapsed from_time k =
     (let (now, k) = vsf_systimer_get_tick k in (vsf_systimer_get_duration from_time now, k))"

definition vsf_teda_set_due_ex :: "ptr \<Rightarrow> nat \<Rightarrow> 'a kernel_scheme \<Rightarrow> 'a kernel_scheme option" where
  "vsf_teda_set_due_ex p d k = p_vsf_teda_set_timer_imp p d k"

definition vsf_teda_set_timer_ex :: "ptr \<Rightarrow> nat \<Rightarrow> 'a kernel_scheme \<Rightarrow> 'a kernel_scheme option" where
  "vsf_teda_set_timer_ex p n k =
     (if n = 0 then None
      else let (now, k) = vsf_systimer_get_tick k in vsf_teda_set_due_ex p (now + n) k)"

definition vsf_teda_set_timer :: "nat \<Rightarrow> 'a kernel_scheme \<Rightarrow> 'a kernel_scheme option" where
  "vsf_teda_set_timer n k =
     (let p = vsf_eda_get_cur k in if p = null then None else vsf_teda_set_timer_ex p n k)"

definition p_vsf_teda_cancel_timer :: "ptr \<Rightarrow> 'a kernel_scheme \<Rightarrow> 'a kernel_scheme option" where
  "p_vsf_teda_cancel_timer p k =
     (let p = p_vsf_eda_get_valid_eda p k
      in if p = null then None
         else do {
           k \<leftarrow> (if is_timed (edas k p)
                then do {
                  xs \<leftarrow> dlq_remove p (timq k);
                  Some (upd_eda p (\<lambda>e. e\<lparr>is_timed := False\<rparr>) (k\<lparr>timq := xs\<rparr>))}
                else Some k);
           Some (upd_eda p (\<lambda>e. e\<lparr>is_to_set_due := False\<rparr>) k)})"

definition vsf_teda_cancel_timer :: "'a kernel_scheme \<Rightarrow> 'a kernel_scheme option" where
  "vsf_teda_cancel_timer k = do {
     k \<leftarrow> p_vsf_teda_cancel_timer null k;
     vsf_evtq_clean_evt VSF_EVT_TIMER k}"

section \<open>Callback timers\<close>

definition vsf_callback_timer_init :: "ptr \<Rightarrow> 'a kernel_scheme \<Rightarrow> 'a kernel_scheme" where
  "vsf_callback_timer_init timer k = k\<lparr>cb_due := (cb_due k)(timer := 0)\<rparr>"

definition vsf_callback_timer_add_due :: "ptr \<Rightarrow> nat \<Rightarrow> 'a kernel_scheme \<Rightarrow> 'a kernel_scheme option" where
  "vsf_callback_timer_add_due timer d k =
     (if timer = null \<or> d = 0 \<or> cb_due k timer \<noteq> 0 then None
      else do {
        let k = k\<lparr>cb_due := (cb_due k)(timer := d)\<rparr>;
        xs \<leftarrow> dlq_insert (\<lambda>y. cb_due k timer \<le> cb_due k y) timer (callback_timq k);
        let k = k\<lparr>callback_timq := xs\<rparr>;
        (if hd xs = timer
         then do {
           k \<leftarrow> p_vsf_teda_cancel_timer (ktask k) k;
           p_vsf_teda_set_timer_imp (ktask k) (cb_due k timer) k}
         else Some k)})"

definition vsf_callback_timer_add :: "ptr \<Rightarrow> nat \<Rightarrow> 'a kernel_scheme \<Rightarrow> 'a kernel_scheme option" where
  "vsf_callback_timer_add timer n k =
     (let (now, k) = vsf_systimer_get_tick k in vsf_callback_timer_add_due timer (n + now) k)"

definition vsf_callback_timer_remove :: "ptr \<Rightarrow> 'a kernel_scheme \<Rightarrow> 'a kernel_scheme option" where
  "vsf_callback_timer_remove timer k =
     (if timer = null then None
      else if cb_due k timer \<noteq> 0
      then do {
        xs \<leftarrow> dlq_remove timer (callback_timq k);
        Some (k\<lparr>cb_due := (cb_due k)(timer := 0), callback_timq := xs\<rparr>)}
      else Some k)"

definition vsf_callback_timer_add_due_isr ::
  "ptr \<Rightarrow> nat \<Rightarrow> 'a kernel_scheme \<Rightarrow> (vsf_err_t \<times> 'a kernel_scheme) option" where
  "vsf_callback_timer_add_due_isr timer d k =
     (if timer = null \<or> cb_due k timer \<noteq> 0 then None
      else vsf_eda_post_evt_msg (ktask k) VSF_KERNEL_EVT_CALLBACK_TIMER_ADD timer
             (k\<lparr>cb_due := (cb_due k)(timer := d)\<rparr>))"

definition vsf_callback_timer_add_isr ::
  "ptr \<Rightarrow> nat \<Rightarrow> 'a kernel_scheme \<Rightarrow> (vsf_err_t \<times> 'a kernel_scheme) option" where
  "vsf_callback_timer_add_isr timer n k =
     (let (now, k) = vsf_systimer_get_tick k in vsf_callback_timer_add_due_isr timer (n + now) k)"

definition vsf_callback_timer_remove_isr :: "ptr \<Rightarrow> 'a kernel_scheme \<Rightarrow> 'a kernel_scheme option" where
  "vsf_callback_timer_remove_isr timer k = vsf_callback_timer_remove timer k"

section \<open>The kernel task\<close>

text \<open>The inner loop of \<open>VSF_EVT_TIMER\<close>: the callback timers that are due move to the done queue.\<close>

partial_function (option) callback_expire :: "'a kernel_scheme \<Rightarrow> 'a kernel_scheme option" where
  "callback_expire k =
     (case callback_timq k of
        [] \<Rightarrow> Some k
      | timer # rest \<Rightarrow>
          let (b, k) = p_vsf_systimer_is_due (cb_due k timer) k
          in if b
             then Option.bind (dlq_enqueue timer (callback_timq_done k))
                    (\<lambda>xs. callback_expire (k\<lparr>callback_timq := rest, callback_timq_done := xs\<rparr>))
             else Some k)"

text \<open>What is done with a timer that was taken from the queue.\<close>

definition timer_fire :: "ptr \<Rightarrow> ptr \<Rightarrow> 'a kernel_scheme \<Rightarrow> 'a kernel_scheme option" where
  "timer_fire eda teda k =
     (if teda = ktask k
      then do {
        k \<leftarrow> callback_expire k;
        k \<leftarrow> (case callback_timq k of
               [] \<Rightarrow> Some k
             | timer # _ \<Rightarrow> p_vsf_teda_timer_enqueue eda (cb_due k timer) k);
        (_, k) \<leftarrow> vsf_eda_post_evt teda VSF_KERNEL_EVT_CALLBACK_TIMER k;
        Some k}
      else do {
        (_, k) \<leftarrow> vsf_eda_post_evt teda VSF_EVT_TIMER k;
        Some k})"

partial_function (option) timer_expire :: "ptr \<Rightarrow> 'a kernel_scheme \<Rightarrow> 'a kernel_scheme option" where
  "timer_expire eda k =
     (case timq k of
        [] \<Rightarrow> Some k
      | teda # rest \<Rightarrow>
          let (b, k) = p_vsf_systimer_is_due (due (edas k teda)) k
          in if b
             then Option.bind (timer_fire eda teda (upd_eda teda (\<lambda>e. e\<lparr>is_timed := False\<rparr>) (k\<lparr>timq := rest\<rparr>)))
                    (timer_expire eda)
             else Some k)"

partial_function (option) callback_run ::
  "(ptr \<Rightarrow> 'a kernel_scheme \<Rightarrow> 'a kernel_scheme option) \<Rightarrow> 'a kernel_scheme \<Rightarrow> 'a kernel_scheme option" where
  "callback_run on_timer k =
     (case callback_timq_done k of
        [] \<Rightarrow> Some k
      | timer # rest \<Rightarrow>
          Option.bind (on_timer timer (k\<lparr>callback_timq_done := rest, cb_due := (cb_due k)(timer := 0)\<rparr>))
            (callback_run on_timer))"

definition p_vsf_kernel_evt_timer :: "ptr \<Rightarrow> 'a kernel_scheme \<Rightarrow> 'a kernel_scheme option" where
  "p_vsf_kernel_evt_timer eda k = do {
     k \<leftarrow> timer_expire eda k;
     p_vsf_systimer_update True (k\<lparr>processing := False\<rparr>)}"

definition p_vsf_kernel_evt_callback_timer_add ::
  "(ptr \<Rightarrow> 'a kernel_scheme \<Rightarrow> 'a kernel_scheme option) \<Rightarrow> ptr \<Rightarrow> 'a kernel_scheme \<Rightarrow> 'a kernel_scheme option" where
  "p_vsf_kernel_evt_callback_timer_add on_timer timer k =
     (if timer = null then None
      else
        let (now, k) = vsf_systimer_get_tick k; d = cb_due k timer
        in if d \<le> now then on_timer timer (k\<lparr>cb_due := (cb_due k)(timer := 0)\<rparr>)
           else vsf_callback_timer_add timer (d - now) (k\<lparr>cb_due := (cb_due k)(timer := 0)\<rparr>))"

end
