(* ===== verification/VSF_Evtq.thy ===== *)
theory VSF_Evtq
  imports VSF_Timer
begin

text \<open>
  The event queues at work: the loop of \<open>vsf_evtq_poll\<close> in \<open>src/source/kernel/vsf_evtq_list.c\<close> and the
  interrupt that calls it, the invariant of the queues with its preservation by every operation, and
  what a post and a poll do.
\<close>

section \<open>Polling\<close>

text \<open>\<open>rdy_node.next\<close> of a task in the ready list.\<close>

fun rdy_next :: "ptr \<Rightarrow> ptr list \<Rightarrow> ptr" where
  "rdy_next p (x # y # zs) = (if x = p then y else rdy_next p (y # zs))"
| "rdy_next p _ = null"

text \<open>
  One round of the inner loop, for the task \<open>eda\<close>; the result is the next node. \<open>dispatch\<close> stands for
  \<open>__vsf_dispatch_evt\<close>, the call of the handler of the task.
\<close>

definition evtq_poll_one ::
  "(ptr \<Rightarrow> vsf_evt_t \<Rightarrow> 'a kernel_scheme \<Rightarrow> 'a kernel_scheme option) \<Rightarrow> nat \<Rightarrow> ptr \<Rightarrow>
   'a kernel_scheme \<Rightarrow> (ptr \<times> 'a kernel_scheme) option" where
  "evtq_poll_one dispatch q eda k = do {
     let k = upd_evtq q (\<lambda>q. q\<lparr>cur_eda := eda\<rparr>) k;
     (evt, msg, rest) \<leftarrow> (case evt_list (edas k eda) of [] \<Rightarrow> None | (evt, msg) # rest \<Rightarrow> Some (evt, msg, rest));
     let k = upd_eda eda (\<lambda>e. e\<lparr>evt_list := rest\<rparr>) k;
     let k = upd_evtq q (\<lambda>q. q\<lparr>cur_evt := evt, cur_msg := msg\<rparr>) k;
     let k = p_vsf_os_free_evt_node k;
     k \<leftarrow> (if \<not> is_to_exit (edas k eda) then dispatch eda evt k else Some k);
     let k = upd_evtq q (\<lambda>q. q\<lparr>cur_evt := VSF_EVT_INVALID, cur_msg := null\<rparr>) k;
     let node_eda = rdy_next eda (rdy_list (evtqs k ! q));
     k \<leftarrow> evtq_remove q eda k;
     k \<leftarrow> (if evt_list (edas k eda) = [] then Some (upd_eda eda (\<lambda>e. e\<lparr>is_ready := False\<rparr>) k)
          else evtq_enqueue q eda k);
     let k = upd_evtq q (\<lambda>q. q\<lparr>cur_eda := null\<rparr>) k;
     k \<leftarrow> (if is_new_prio (edas k eda)
          then do {
            k \<leftarrow> p_vsf_eda_update_priotiry eda (new_priority (edas k eda))
                  (upd_eda eda (\<lambda>e. e\<lparr>is_new_prio := False\<rparr>) k);
            p_vsf_os_evtq_set_priority q q k}
          else Some k);
     k \<leftarrow> (if is_to_exit (edas k eda) then vsf_evtq_on_eda_fini eda k
          else if \<not> is_ready (edas k eda) \<and> is_to_set_due (edas k eda)
          then vsf_teda_set_due_ex eda (due (edas k eda)) (upd_eda eda (\<lambda>e. e\<lparr>is_to_set_due := False\<rparr>) k)
          else Some k);
     Some (node_eda, k)}"

text \<open>Both loops: the inner one ends with a null node and starts again while the list is not empty.\<close>

partial_function (option) evtq_poll_loop ::
  "(ptr \<Rightarrow> vsf_evt_t \<Rightarrow> 'a kernel_scheme \<Rightarrow> 'a kernel_scheme option) \<Rightarrow> nat \<Rightarrow> ptr \<Rightarrow>
   'a kernel_scheme \<Rightarrow> 'a kernel_scheme option" where
  "evtq_poll_loop dispatch q node_eda k =
     (if node_eda = null
      then if vsf_evtq_is_empty q k then Some k else evtq_poll_loop dispatch q (hd (rdy_list (evtqs k ! q))) k
      else Option.bind (evtq_poll_one dispatch q node_eda k) (\<lambda>(node_eda, k). evtq_poll_loop dispatch q node_eda k))"

definition vsf_evtq_poll ::
  "(ptr \<Rightarrow> vsf_evt_t \<Rightarrow> 'a kernel_scheme \<Rightarrow> 'a kernel_scheme option) \<Rightarrow> nat \<Rightarrow>
   'a kernel_scheme \<Rightarrow> 'a kernel_scheme option" where
  "vsf_evtq_poll dispatch q k = evtq_poll_loop dispatch q null k"

definition p_vsf_os_evtq_swi_handler ::
  "(ptr \<Rightarrow> vsf_evt_t \<Rightarrow> 'a kernel_scheme \<Rightarrow> 'a kernel_scheme option) \<Rightarrow> nat \<Rightarrow>
   'a kernel_scheme \<Rightarrow> 'a kernel_scheme option" where
  "p_vsf_os_evtq_swi_handler dispatch q k = do {
     let pold = cur_evtq k;
     k \<leftarrow> vsf_evtq_poll dispatch q (k\<lparr>cur_evtq := Some q\<rparr>);
     Some (k\<lparr>cur_evtq := pold\<rparr>)}"

section \<open>The invariant\<close>

definition evts :: "'a kernel_scheme \<Rightarrow> ptr \<Rightarrow> (vsf_evt_t \<times> ptr) list" where
  "evts k p = evt_list (edas k p)"

definition evt_total :: "(ptr \<Rightarrow> 'e list) \<Rightarrow> nat" where
  "evt_total f = (\<Sum>p\<in>{p. f p \<noteq> []}. length (f p))"

text \<open>
  A ready task is in the list of its priority and in no other, and has an event unless it is the one
  being run; a task that is not ready has none. The nodes that are not free are the queued events.
\<close>

definition rdy_ok :: "'a kernel_scheme \<Rightarrow> bool" where
  "rdy_ok k \<longleftrightarrow> (\<forall>q < length (evtqs k). distinct (rdy_list (evtqs k ! q)) \<and> null \<notin> set (rdy_list (evtqs k ! q))
     \<and> (\<forall>p. p \<in> set (rdy_list (evtqs k ! q)) \<longleftrightarrow> is_ready (edas k p) \<and> cur_priority (edas k p) = q))"

definition prio_ok :: "'a kernel_scheme \<Rightarrow> bool" where
  "prio_ok k \<longleftrightarrow> (\<forall>p. cur_priority (edas k p) < length (evtqs k)
     \<and> (is_new_prio (edas k p) \<longrightarrow> new_priority (edas k p) < length (evtqs k)))"

definition evts_ok :: "'a kernel_scheme \<Rightarrow> bool" where
  "evts_ok k \<longleftrightarrow> (\<forall>p. (is_ready (edas k p) \<longrightarrow> evts k p = [] \<longrightarrow> cur_eda (evtqs k ! cur_priority (edas k p)) = p)
     \<and> (\<not> is_ready (edas k p) \<longrightarrow> evts k p = []))"

definition cur_ok :: "'a kernel_scheme \<Rightarrow> bool" where
  "cur_ok k \<longleftrightarrow> (\<forall>q < length (evtqs k). \<forall>p. cur_eda (evtqs k ! q) = p \<longrightarrow> p \<noteq> null \<longrightarrow>
     is_ready (edas k p) \<and> cur_priority (edas k p) = q)"

definition nodes_ok :: "nat \<Rightarrow> 'a kernel_scheme \<Rightarrow> bool" where
  "nodes_ok N k \<longleftrightarrow> finite {p. evts k p \<noteq> []} \<and> node_cnt k + evt_total (evts k) = N"

definition evtq_ok :: "nat \<Rightarrow> 'a kernel_scheme \<Rightarrow> bool" where
  "evtq_ok N k \<longleftrightarrow> rdy_ok k \<and> prio_ok k \<and> evts_ok k \<and> cur_ok k \<and> nodes_ok N k"

lemma evt_total_superset:
  assumes "finite S" "{p. f p \<noteq> []} \<subseteq> S"
  shows "evt_total f = (\<Sum>p\<in>S. length (f p))"
  unfolding evt_total_def using assms by (intro sum.mono_neutral_left) auto

lemma evt_total_upd:
  assumes "finite {p. f p \<noteq> []}"
  shows "evt_total (f(p := xs)) + length (f p) = evt_total f + length xs" "finite {q. (f(p := xs)) q \<noteq> []}"
proof -
  let ?S = "insert p {q. f q \<noteq> []}"
  have S: "finite ?S" "p \<in> ?S" using assms by simp_all
  have sub: "{q. f q \<noteq> []} \<subseteq> ?S" "{q. (f(p := xs)) q \<noteq> []} \<subseteq> ?S" by auto
  have "evt_total f = length (f p) + (\<Sum>q\<in>?S - {p}. length (f q))"
    using evt_total_superset [OF S(1) sub(1)] sum.remove [OF S, of "\<lambda>q. length (f q)"] by simp
  moreover have "evt_total (f(p := xs)) = length xs + (\<Sum>q\<in>?S - {p}. length ((f(p := xs)) q))"
    using evt_total_superset [OF S(1) sub(2)] sum.remove [OF S, of "\<lambda>q. length ((f(p := xs)) q)"]
    by (simp only: fun_upd_same)
  moreover have "(\<Sum>q\<in>?S - {p}. length ((f(p := xs)) q)) = (\<Sum>q\<in>?S - {p}. length (f q))"
    by (rule sum.cong) auto
  ultimately show "evt_total (f(p := xs)) + length (f p) = evt_total f + length xs" by simp
  show "finite {q. (f(p := xs)) q \<noteq> []}" using S(1) by (rule rev_finite_subset) auto
qed

section \<open>Fields of the updated state\<close>

lemma upd_eda_fields [simp]:
  "edas (upd_eda p f k) = (edas k)(p := f (edas k p))" "evtqs (upd_eda p f k) = evtqs k"
  "node_cnt (upd_eda p f k) = node_cnt k" "cur_evtq (upd_eda p f k) = cur_evtq k"
  "swi_pending (upd_eda p f k) = swi_pending k" "timq (upd_eda p f k) = timq k" "ktask (upd_eda p f k) = ktask k"
  "systimer (upd_eda p f k) = systimer k" "ended (upd_eda p f k) = ended k" "kernel.more (upd_eda p f k) = kernel.more k"
  by (simp_all add: upd_eda_def)

lemma upd_evtq_fields [simp]:
  "edas (upd_evtq q f k) = edas k" "evtqs (upd_evtq q f k) = (evtqs k)[q := f (evtqs k ! q)]"
  "node_cnt (upd_evtq q f k) = node_cnt k" "cur_evtq (upd_evtq q f k) = cur_evtq k"
  "swi_pending (upd_evtq q f k) = swi_pending k" "timq (upd_evtq q f k) = timq k" "ktask (upd_evtq q f k) = ktask k"
  "systimer (upd_evtq q f k) = systimer k" "ended (upd_evtq q f k) = ended k" "kernel.more (upd_evtq q f k) = kernel.more k"
  by (simp_all add: upd_evtq_def)

lemma free_node_fields [simp]:
  "edas (p_vsf_os_free_evt_node k) = edas k" "evtqs (p_vsf_os_free_evt_node k) = evtqs k"
  "node_cnt (p_vsf_os_free_evt_node k) = Suc (node_cnt k)" "cur_evtq (p_vsf_os_free_evt_node k) = cur_evtq k"
  "swi_pending (p_vsf_os_free_evt_node k) = swi_pending k" "timq (p_vsf_os_free_evt_node k) = timq k"
  "ktask (p_vsf_os_free_evt_node k) = ktask k" "systimer (p_vsf_os_free_evt_node k) = systimer k"
  "ended (p_vsf_os_free_evt_node k) = ended k" "kernel.more (p_vsf_os_free_evt_node k) = kernel.more k"
  by (simp_all add: p_vsf_os_free_evt_node_def)

lemma free_nodes [simp]: "(p_vsf_os_free_evt_node ^^ n) k = k\<lparr>node_cnt := node_cnt k + n\<rparr>"
  by (induction n) (simp_all add: p_vsf_os_free_evt_node_def)

lemma nth_upd_evtq [simp]:
  "i < length (evtqs k) \<Longrightarrow> (evtqs k)[q := x] ! i = (if i = q then x else evtqs k ! i)"
  by simp

section \<open>Posting an event\<close>

text \<open>The state after an accepted post.\<close>

definition posted :: "ptr \<Rightarrow> vsf_evt_t \<Rightarrow> ptr \<Rightarrow> 'a kernel_scheme \<Rightarrow> 'a kernel_scheme" where
  "posted p evt msg k =
     (let q = cur_priority (edas k p)
      in k\<lparr>node_cnt := node_cnt k - 1,
           edas := (edas k)(p := (edas k p)\<lparr>evt_list := evt_list (edas k p) @ [(evt, msg)], is_ready := True\<rparr>),
           evtqs := (if is_ready (edas k p) then evtqs k
                     else (evtqs k)[q := (evtqs k ! q)\<lparr>rdy_list := rdy_list (evtqs k ! q) @ [p]\<rparr>]),
           swi_pending := insert q (swi_pending k)\<rparr>)"

lemma evtq_okD:
  assumes "evtq_ok N k"
  shows "cur_priority (edas k p) < length (evtqs k)"
    and "p \<in> set (rdy_list (evtqs k ! cur_priority (edas k p))) \<longleftrightarrow> is_ready (edas k p)"
    and "q < length (evtqs k) \<Longrightarrow> p \<in> set (rdy_list (evtqs k ! q)) \<longleftrightarrow> is_ready (edas k p) \<and> cur_priority (edas k p) = q"
    and "q < length (evtqs k) \<Longrightarrow> distinct (rdy_list (evtqs k ! q)) \<and> null \<notin> set (rdy_list (evtqs k ! q))"
    and "\<not> is_ready (edas k p) \<Longrightarrow> evt_list (edas k p) = []"
    and "finite {p. evts k p \<noteq> []}" and "node_cnt k + evt_total (evts k) = N"
  using assms unfolding evtq_ok_def rdy_ok_def prio_ok_def evts_ok_def nodes_ok_def evts_def by auto

text \<open>The accounting of nodes when the events of one task change.\<close>

lemma nodes_ok_upd:
  assumes "nodes_ok N k" "evts k' = (evts k)(p := xs)" "node_cnt k' + length xs = node_cnt k + length (evts k p)"
  shows "nodes_ok N k'"
  using assms evt_total_upd [of "evts k" p xs] unfolding nodes_ok_def by fastforce

lemma post_eq:
  assumes K: "evtq_ok N k" and p: "p \<noteq> null" "0 < node_cnt k"
  shows "p_vsf_evtq_post p evt msg force k =
    (if is_limitted (edas k p) \<and> is_ready (edas k p) \<and> \<not> force then Some (VSF_ERR_FAIL, k)
     else Some (VSF_ERR_NONE, posted p evt msg k))"
  using p evtq_okD(1,2) [OF K, of p]
  by (auto simp: p_vsf_evtq_post_def p_vsf_os_alloc_evt_node_def p_vsf_os_evtq_get_def p_vsf_os_evtq_activate_def
      posted_def evtq_enqueue_def dlq_enqueue_def upd_eda_def upd_evtq_def p_vsf_os_free_evt_node_def Let_def fun_eq_iff)

lemma posted_fields [simp]:
  "is_ready (edas (posted p evt msg k) x) \<longleftrightarrow> x = p \<or> is_ready (edas k x)"
  "cur_priority (edas (posted p evt msg k) x) = cur_priority (edas k x)"
  "is_new_prio (edas (posted p evt msg k) x) = is_new_prio (edas k x)"
  "new_priority (edas (posted p evt msg k) x) = new_priority (edas k x)"
  "cur_eda (evtqs (posted p evt msg k) ! i) = cur_eda (evtqs k ! i)"
  "length (evtqs (posted p evt msg k)) = length (evtqs k)"
  "evts (posted p evt msg k) = (evts k)(p := evts k p @ [(evt, msg)])"
  by (cases "cur_priority (edas k p) < length (evtqs k)";
      auto simp: posted_def Let_def evts_def nth_list_update list_update_beyond)+

lemma posted_ok:
  assumes K: "evtq_ok N k" and p: "p \<noteq> null" "0 < node_cnt k"
  shows "evtq_ok N (posted p evt msg k)"
proof -
  note K' = K [unfolded evtq_ok_def] and prio = evtq_okD(1) [OF K, of p]
  have "nodes_ok N (posted p evt msg k)"
    by (rule nodes_ok_upd [of N k _ p "evts k p @ [(evt, msg)]"])
      (use K' p(2) in \<open>auto simp: posted_def Let_def evts_def\<close>)
  moreover have "rdy_ok (posted p evt msg k)"
    using K' p(1) prio by (auto simp: rdy_ok_def) (auto simp: posted_def Let_def nth_list_update split: if_splits)
  moreover have "prio_ok (posted p evt msg k)" using K' by (simp add: prio_ok_def posted_def Let_def)
  moreover have "evts_ok (posted p evt msg k)"
    using K' unfolding evts_ok_def posted_fields by (metis append_is_Nil_conv fun_upd_apply not_Cons_self2)
  moreover have "cur_ok (posted p evt msg k)" using K' unfolding cur_ok_def posted_fields by metis
  ultimately show ?thesis by (simp add: evtq_ok_def)
qed

section \<open>Changing the priority of a task\<close>

lemma evtq_removeI:
  assumes "p \<in> set (rdy_list (evtqs k ! q))"
  shows "evtq_remove q p k = Some (upd_evtq q (\<lambda>e. e\<lparr>rdy_list := remove1 p (rdy_list e)\<rparr>) k)"
  using assms by (simp add: evtq_remove_def dlq_remove_def upd_evtq_def)

lemma evtq_enqueueI:
  assumes "p \<notin> set (rdy_list (evtqs k ! q))"
  shows "evtq_enqueue q p k = Some (upd_evtq q (\<lambda>e. e\<lparr>rdy_list := rdy_list e @ [p]\<rparr>) k)"
  using assms by (simp add: evtq_enqueue_def dlq_enqueue_def upd_evtq_def)

text \<open>The state after a task that is not running has moved to the queue of another priority.\<close>

definition moved :: "ptr \<Rightarrow> nat \<Rightarrow> 'a kernel_scheme \<Rightarrow> 'a kernel_scheme" where
  "moved p prio k =
     (let q = cur_priority (edas k p);
          qs = (evtqs k)[q := (evtqs k ! q)\<lparr>rdy_list := remove1 p (rdy_list (evtqs k ! q))\<rparr>]
      in k\<lparr>edas := (edas k)(p := (edas k p)\<lparr>cur_priority := prio\<rparr>),
           evtqs := (if is_ready (edas k p) then qs[prio := (qs ! prio)\<lparr>rdy_list := rdy_list (qs ! prio) @ [p]\<rparr>]
                     else evtqs k),
           swi_pending := (if is_ready (edas k p) \<and> evt_list (edas k p) \<noteq> []
                           then insert prio (swi_pending k) else swi_pending k)\<rparr>)"

lemma update_priotiry_eq:
  assumes K: "evtq_ok N k" and prio: "prio < length (evtqs k)"
  shows "p_vsf_eda_update_priotiry p prio k = Some (moved p prio k)"
proof -
  let ?q = "cur_priority (edas k p)"
  have q: "?q < length (evtqs k)" using evtq_okD(1) [OF K] .
  show ?thesis
  proof (cases "is_ready (edas k p)")
    case False
    then show ?thesis by (simp add: p_vsf_eda_update_priotiry_def moved_def upd_eda_def)
  next
    case True
    then have "p \<in> set (rdy_list (evtqs k ! ?q))" using evtq_okD(2) [OF K] by blast
    note R = evtq_removeI [OF this]
    have "p \<notin> set (remove1 p (rdy_list (evtqs k ! ?q)))" "prio \<noteq> ?q \<Longrightarrow> p \<notin> set (rdy_list (evtqs k ! prio))"
      using evtq_okD(4) [OF K q] evtq_okD(3) [OF K prio] by auto
    then have "p \<notin> set (rdy_list (evtqs (upd_evtq ?q (\<lambda>e. e\<lparr>rdy_list := remove1 p (rdy_list e)\<rparr>) k) ! prio))"
      using prio by (simp add: nth_list_update)
    note E = evtq_enqueueI [OF this]
    from True q prio R E show ?thesis
      by (auto simp: p_vsf_eda_update_priotiry_def p_vsf_os_evtq_get_def p_vsf_os_evtq_activate_def moved_def
          upd_eda_def upd_evtq_def Let_def)
  qed
qed

lemma moved_fields [simp]:
  "is_ready (edas (moved p prio k) x) = is_ready (edas k x)"
  "cur_priority (edas (moved p prio k) x) = (if x = p then prio else cur_priority (edas k x))"
  "is_new_prio (edas (moved p prio k) x) = is_new_prio (edas k x)"
  "new_priority (edas (moved p prio k) x) = new_priority (edas k x)"
  "evts (moved p prio k) = evts k" "node_cnt (moved p prio k) = node_cnt k"
  "length (evtqs (moved p prio k)) = length (evtqs k)"
  by (auto simp: moved_def Let_def evts_def)

lemma moved_queue:
  assumes "i < length (evtqs k)" "prio < length (evtqs k)" "cur_priority (edas k p) < length (evtqs k)"
  shows "cur_eda (evtqs (moved p prio k) ! i) = cur_eda (evtqs k ! i)"
    and "rdy_list (evtqs (moved p prio k) ! i) =
      (if is_ready (edas k p)
       then (if i = cur_priority (edas k p) then remove1 p (rdy_list (evtqs k ! i)) else rdy_list (evtqs k ! i))
            @ (if i = prio then [p] else [])
       else rdy_list (evtqs k ! i))"
  using assms by (auto simp: moved_def Let_def nth_list_update)

lemma moved_ok:
  assumes K: "evtq_ok N k" and prio: "prio < length (evtqs k)" and p: "p \<noteq> null"
    and cur: "cur_eda (evtqs k ! cur_priority (edas k p)) \<noteq> p"
  shows "evtq_ok N (moved p prio k)"
proof -
  note K' = K [unfolded evtq_ok_def] and q = evtq_okD(1) [OF K, of p]
  have "rdy_ok (moved p prio k)"
    using K' p prio q by (auto simp: rdy_ok_def moved_queue split: if_splits)
  moreover have "prio_ok (moved p prio k)" using K' prio by (simp add: prio_ok_def)
  moreover have "evts_ok (moved p prio k)"
    using K' cur prio q evtq_okD(1) [OF K] by (auto simp: evts_ok_def moved_queue)
  moreover have "cur_ok (moved p prio k)" using K' cur prio q by (auto simp: cur_ok_def moved_queue)
  moreover have "nodes_ok N (moved p prio k)" using K' by (simp add: nodes_ok_def)
  ultimately show ?thesis by (simp add: evtq_ok_def)
qed

lemma evtq_ok_cong:
  assumes "evtq_ok N k" "\<And>x. is_ready (edas k' x) = is_ready (edas k x)"
    "\<And>x. cur_priority (edas k' x) = cur_priority (edas k x)" "evtqs k' = evtqs k" "evts k' = evts k"
    "node_cnt k' = node_cnt k" "\<And>x. is_new_prio (edas k' x) \<Longrightarrow> new_priority (edas k' x) < length (evtqs k)"
  shows "evtq_ok N k'"
  using assms(1) assms(7) unfolding evtq_ok_def rdy_ok_def prio_ok_def evts_ok_def cur_ok_def nodes_ok_def assms(2-6)
  by blast

lemma set_priority_ok:
  assumes K: "evtq_ok N k" and p: "p \<noteq> null" "prio < length (evtqs k)"
  shows "\<exists>k'. p_vsf_eda_set_priority p prio k = Some k' \<and> evtq_ok N k' \<and> evts k' = evts k
    \<and> (prio \<noteq> cur_priority (edas k p) \<or> \<not> is_new_prio (edas k p) \<longrightarrow> p_vsf_eda_get_cur_priority p k' = prio)"
proof -
  let ?q = "cur_priority (edas k p)"
  have q: "?q < length (evtqs k)" by (rule evtq_okD(1) [OF K])
  consider (same) "?q = prio" | (move) "?q \<noteq> prio" "cur_eda (evtqs k ! ?q) \<noteq> p" "\<not> is_new_prio (edas k p)"
    | (later) "?q \<noteq> prio" "cur_eda (evtqs k ! ?q) = p \<or> is_new_prio (edas k p)" by blast
  then show ?thesis
  proof cases
    case same
    then show ?thesis using K p by (simp add: p_vsf_eda_set_priority_def p_vsf_eda_get_cur_priority_def)
  next
    case move
    then have "p_vsf_eda_set_priority p prio k = Some (moved p prio k)"
      using p q update_priotiry_eq [OF K p(2)] by (simp add: p_vsf_eda_set_priority_def p_vsf_os_evtq_get_def)
    then show ?thesis using moved_ok [OF K p(2,1) move(2)] move(3) by (simp add: p_vsf_eda_get_cur_priority_def)
  next
    case later
    let ?k = "upd_eda p (\<lambda>e. e\<lparr>is_new_prio := True, new_priority := prio\<rparr>) k"
    have "evtq_ok N ?k"
      by (rule evtq_ok_cong [OF K]) (use K p(2) in \<open>auto simp: evts_def evtq_ok_def prio_ok_def split: if_splits\<close>)
    moreover have "evtq_ok N (?k\<lparr>swi_prio := f\<rparr>)" for f
      by (rule evtq_ok_cong [OF calculation]) (use calculation in \<open>auto simp: evts_def evtq_ok_def prio_ok_def\<close>)
    ultimately show ?thesis using later p q
      by (auto simp: p_vsf_eda_set_priority_def p_vsf_os_evtq_get_def p_vsf_os_evtq_set_priority_def
          p_vsf_eda_get_cur_priority_def evts_def Let_def fun_eq_iff)
  qed
qed

section \<open>The end of a task\<close>

definition ended_state :: "ptr \<Rightarrow> 'a kernel_scheme \<Rightarrow> 'a kernel_scheme" where
  "ended_state p k =
     (let q = cur_priority (edas k p)
      in k\<lparr>node_cnt := node_cnt k + length (evt_list (edas k p)), ended := ended k @ [p],
           edas := (edas k)(p := (edas k p)\<lparr>is_ready := False, evt_list := []\<rparr>),
           evtqs := (evtqs k)[q := (evtqs k ! q)\<lparr>rdy_list := remove1 p (rdy_list (evtqs k ! q))\<rparr>]\<rparr>)"

lemma fini_eq:
  assumes K: "evtq_ok N k" and cur: "cur_eda (evtqs k ! cur_priority (edas k p)) \<noteq> p"
  shows "vsf_evtq_on_eda_fini p k = Some (ended_state p k)"
proof (cases "is_ready (edas k p)")
  case True
  then have "p \<in> set (rdy_list (evtqs k ! cur_priority (edas k p)))" using evtq_okD(2) [OF K] by blast
  from evtq_removeI [OF this] True cur evtq_okD(1) [OF K, of p] show ?thesis
    by (simp add: vsf_evtq_on_eda_fini_def p_vsf_os_evtq_get_def ended_state_def upd_eda_def upd_evtq_def
        p_vsf_eda_on_terminate_def Let_def)
next
  case False
  then have "remove1 p (rdy_list (evtqs k ! cur_priority (edas k p))) = rdy_list (evtqs k ! cur_priority (edas k p))"
    using evtq_okD(2) [OF K, of p] by (simp add: remove1_idem)
  moreover have "(edas k)(p := (edas k p)\<lparr>is_ready := False, evt_list := []\<rparr>) = (edas k)(p := (edas k p)\<lparr>evt_list := []\<rparr>)"
    using False by (cases "edas k p") simp
  ultimately show ?thesis using False cur evtq_okD(1) [OF K, of p]
    by (simp add: vsf_evtq_on_eda_fini_def p_vsf_os_evtq_get_def ended_state_def upd_eda_def
        p_vsf_eda_on_terminate_def Let_def)
qed

lemma ended_ok:
  assumes K: "evtq_ok N k" and cur: "cur_eda (evtqs k ! cur_priority (edas k p)) \<noteq> p" and p: "p \<noteq> null"
  shows "evtq_ok N (ended_state p k)"
proof -
  note K' = K [unfolded evtq_ok_def] and q = evtq_okD(1) [OF K, of p]
  have e: "evts (ended_state p k) = (evts k)(p := [])" by (auto simp: evts_def ended_state_def Let_def)
  have "nodes_ok N (ended_state p k)"
    by (rule nodes_ok_upd [of N k _ p, OF _ e]) (use K' in \<open>simp_all add: ended_state_def evts_def Let_def\<close>)
  moreover have "rdy_ok (ended_state p k)"
    using K' q by (auto simp: rdy_ok_def ended_state_def Let_def nth_list_update)
  moreover have "prio_ok (ended_state p k)" using K' by (simp add: prio_ok_def ended_state_def Let_def)
  moreover have "evts_ok (ended_state p k)"
    unfolding evts_ok_def e using K' evtq_okD(1) [OF K]
    by (auto simp: evts_ok_def ended_state_def Let_def nth_list_update)
  moreover have "cur_ok (ended_state p k)"
    using K' cur p by (auto simp: cur_ok_def ended_state_def Let_def nth_list_update)
  ultimately show ?thesis by (simp add: evtq_ok_def)
qed

section \<open>A round of the poll loop\<close>

text \<open>The state after a round whose handler changed nothing of the kernel but only the state of the application.\<close>

definition polled :: "nat \<Rightarrow> ptr \<Rightarrow> (vsf_evt_t \<times> ptr) list \<Rightarrow> 'a \<Rightarrow> 'a kernel_scheme \<Rightarrow> 'a kernel_scheme" where
  "polled q p rest m k =
     k\<lparr>node_cnt := node_cnt k + 1, kernel.more := m,
       edas := (edas k)(p := (edas k p)\<lparr>evt_list := rest, is_ready := rest \<noteq> []\<rparr>),
       evtqs := (evtqs k)[q := (evtqs k ! q)\<lparr>cur_evt := VSF_EVT_INVALID, cur_msg := null,
         rdy_list := remove1 p (rdy_list (evtqs k ! q)) @ (if rest = [] then [] else [p]), cur_eda := null\<rparr>]\<rparr>"

text \<open>A task that has no request to the kernel of its own outstanding.\<close>

definition calm :: "vsf_eda_t \<Rightarrow> bool" where
  "calm e \<longleftrightarrow> \<not> is_new_prio e \<and> \<not> is_to_exit e \<and> \<not> is_to_set_due e"

lemma poll_one_eq:
  assumes K: "evtq_ok N k" and q: "q < length (evtqs k)" and p: "p \<in> set (rdy_list (evtqs k ! q))"
    and ev: "evt_list (edas k p) = (evt, msg) # rest" and calm: "calm (edas k p)"
    and h: "\<And>k'. dispatch p evt k' = Some (k'\<lparr>kernel.more := f (kernel.more k')\<rparr>)"
  shows "evtq_poll_one dispatch q p k =
    Some (rdy_next p (rdy_list (evtqs k ! q)), polled q p rest (f (kernel.more k)) k)"
proof -
  have d: "p \<notin> set (remove1 p (rdy_list (evtqs k ! q)))" using evtq_okD(4) [OF K q] by simp
  have r: "is_ready (edas k p)" using evtq_okD(3) [OF K q] p by blast
  show ?thesis
  proof (cases "rest = []")
    case True
    then show ?thesis using ev calm q p r h
      by (simp add: evtq_poll_one_def polled_def calm_def upd_evtq_def upd_eda_def p_vsf_os_free_evt_node_def
          evtq_remove_def dlq_remove_def Let_def)
  next
    case False
    have e: "(edas k p)\<lparr>evt_list := rest, is_ready := True\<rparr> = (edas k p)\<lparr>evt_list := rest\<rparr>"
      using r by (cases "edas k p") simp
    have "k\<lparr>edas := a, node_cnt := n, kernel.more := m, evtqs := b\<rparr> =
        k\<lparr>node_cnt := n, kernel.more := m, edas := a, evtqs := b\<rparr>" for a n m b by (cases k) simp
    then show ?thesis using ev calm q p r h d False
      by (simp add: evtq_poll_one_def polled_def calm_def upd_evtq_def upd_eda_def p_vsf_os_free_evt_node_def
          evtq_remove_def dlq_remove_def evtq_enqueue_def dlq_enqueue_def Let_def e)
  qed
qed

lemma polled_fields [simp]:
  "is_ready (edas (polled q p rest m k) x) = (if x = p then rest \<noteq> [] else is_ready (edas k x))"
  "cur_priority (edas (polled q p rest m k) x) = cur_priority (edas k x)"
  "is_new_prio (edas (polled q p rest m k) x) = is_new_prio (edas k x)"
  "new_priority (edas (polled q p rest m k) x) = new_priority (edas k x)"
  "calm (edas (polled q p rest m k) x) = calm (edas k x)"
  "evts (polled q p rest m k) = (evts k)(p := rest)" "node_cnt (polled q p rest m k) = Suc (node_cnt k)"
  "length (evtqs (polled q p rest m k)) = length (evtqs k)" "kernel.more (polled q p rest m k) = m"
  by (auto simp: polled_def evts_def calm_def)

lemma polled_queue:
  assumes "q < length (evtqs k)"
  shows "rdy_list (evtqs (polled q p rest m k) ! i) =
      (if i = q then remove1 p (rdy_list (evtqs k ! q)) @ (if rest = [] then [] else [p]) else rdy_list (evtqs k ! i))"
    and "cur_eda (evtqs (polled q p rest m k) ! i) = (if i = q then null else cur_eda (evtqs k ! i))"
  using assms by (auto simp: polled_def nth_list_update)

lemma polled_ok:
  assumes K: "evtq_ok N k" and q: "q < length (evtqs k)" and p: "p \<in> set (rdy_list (evtqs k ! q))"
    and ev: "evts k p = e # rest" and cur: "cur_eda (evtqs k ! q) = null"
  shows "evtq_ok N (polled q p rest m k)"
proof -
  note K' = K [unfolded evtq_ok_def]
  have r: "is_ready (edas k p)" "cur_priority (edas k p) = q" "p \<noteq> null"
    using evtq_okD(3,4) [OF K q] p by (blast, blast, metis)
  have "nodes_ok N (polled q p rest m k)"
    by (rule nodes_ok_upd [of N k _ p rest]) (use K' ev in auto)
  moreover have "rdy_ok (polled q p rest m k)"
    using K' q r by (auto simp: rdy_ok_def polled_queue split: if_splits)
  moreover have "prio_ok (polled q p rest m k)" using K' by (simp add: prio_ok_def)
  moreover have "evts_ok (polled q p rest m k)"
    using K' q r cur evtq_okD(4) [OF K q] evtq_okD(3) [OF K q] by (auto simp: evts_ok_def polled_queue)
  moreover have "cur_ok (polled q p rest m k)" using K' q r cur by (auto simp: cur_ok_def polled_queue)
  ultimately show ?thesis by (simp add: evtq_ok_def)
qed

section \<open>The poll loop\<close>

definition work :: "nat \<Rightarrow> 'a kernel_scheme \<Rightarrow> nat" where
  "work q k = (\<Sum>p\<in>set (rdy_list (evtqs k ! q)). length (evts k p))"

text \<open>The events of a log that were delivered to a task, in order.\<close>

definition delivered :: "ptr \<Rightarrow> (ptr \<times> vsf_evt_t) list \<Rightarrow> vsf_evt_t list" where
  "delivered p L = map snd (filter (\<lambda>x. fst x = p) L)"

lemma rdy_next_in: "rdy_next p xs \<noteq> null \<Longrightarrow> distinct xs \<Longrightarrow> rdy_next p xs \<in> set (remove1 p xs)"
  by (induction p xs rule: rdy_next.induct) auto

lemma work_polled:
  assumes "q < length (evtqs k)" "distinct (rdy_list (evtqs k ! q))" "p \<in> set (rdy_list (evtqs k ! q))" "evts k p = e # rest"
  shows "work q (polled q p rest m k) < work q k"
proof -
  let ?S = "set (rdy_list (evtqs k ! q))"
  have s: "set (rdy_list (evtqs (polled q p rest m k) ! q)) = ?S - {p} \<union> (if rest = [] then {} else {p})"
    using assms(1,2) by (simp add: polled_queue)
  have "(\<Sum>x\<in>?S - {p}. length (if x = p then rest else evts k x)) = (\<Sum>x\<in>?S - {p}. length (evts k x))"
    by (rule sum.cong) auto
  moreover have "work q (polled q p rest m k) =
      (\<Sum>x\<in>?S - {p}. length (if x = p then rest else evts k x)) + length rest"
    unfolding work_def s by (cases "rest = []") (simp_all add: Un_insert_right sum.insert_remove)
  ultimately have "work q (polled q p rest m k) = (\<Sum>x\<in>?S - {p}. length (evts k x)) + length rest" by simp
  moreover have "work q k = (\<Sum>x\<in>?S - {p}. length (evts k x)) + length (evts k p)"
    unfolding work_def using assms(3) by (simp add: sum.remove add.commute)
  ultimately show ?thesis using assms(4) by simp
qed

definition drained ::
  "nat \<Rightarrow> nat \<Rightarrow> (ptr \<times> vsf_evt_t) list kernel_scheme \<Rightarrow> (ptr \<times> vsf_evt_t) list kernel_scheme option \<Rightarrow> bool" where
  "drained N q k r \<longleftrightarrow> (\<exists>k' L. r = Some k' \<and> evtq_ok N k' \<and> vsf_evtq_is_empty q k' \<and> kernel.more k' = kernel.more k @ L
     \<and> (\<forall>p. delivered p L = (if p \<in> set (rdy_list (evtqs k ! q)) then map fst (evts k p) else [])))"

lemma poll_loop_drains:
  assumes "evtq_ok N k" "q < length (evtqs k)" "cur_eda (evtqs k ! q) = null"
    and "\<forall>p \<in> set (rdy_list (evtqs k ! q)). calm (edas k p)"
    and h: "\<And>p e k'. dispatch p e k' = Some (k'\<lparr>kernel.more := kernel.more k' @ [(p, e)]\<rparr>)"
    and "node = null \<or> node \<in> set (rdy_list (evtqs k ! q))"
  shows "drained N q k (evtq_poll_loop dispatch q node k)"
  using assms(1-4,6)
proof (induction "work q k" arbitrary: k node rule: less_induct)
  case less
  note K = less.prems(1) and q = less.prems(2) and cur = less.prems(3)
  have step: "drained N q k (evtq_poll_loop dispatch q p k)" if p: "p \<in> set (rdy_list (evtqs k ! q))" for p
  proof -
    have d: "distinct (rdy_list (evtqs k ! q))" "p \<noteq> null" using evtq_okD(4) [OF K q] p by (blast, metis)
    have "is_ready (edas k p)" "cur_priority (edas k p) = q" using evtq_okD(3) [OF K q] p by blast+
    then have "evts k p \<noteq> []" using K cur d(2) by (auto simp: evtq_ok_def evts_ok_def)
    then obtain evt msg rest where ev: "evts k p = (evt, msg) # rest" by (metis list.exhaust surj_pair)
    let ?k = "polled q p rest (kernel.more k @ [(p, evt)]) k" and ?n = "rdy_next p (rdy_list (evtqs k ! q))"
    have "evtq_poll_one dispatch q p k = Some (?n, ?k)"
      using poll_one_eq [OF K q p, of evt msg rest dispatch "\<lambda>m. m @ [(p, evt)]"] ev less.prems(4) p h
      by (simp add: evts_def)
    then have l: "evtq_poll_loop dispatch q p k = evtq_poll_loop dispatch q ?n ?k"
      using d(2) by (subst evtq_poll_loop.simps) simp
    have r: "set (rdy_list (evtqs ?k ! q)) = set (rdy_list (evtqs k ! q)) - {p} \<union> (if rest = [] then {} else {p})"
      using q d(1) by (simp add: polled_queue)
    have "drained N q ?k (evtq_poll_loop dispatch q ?n ?k)"
    proof (rule less.hyps)
      show "work q ?k < work q k" by (rule work_polled [OF q d(1) p ev])
      show "evtq_ok N ?k" by (rule polled_ok [OF K q p ev cur])
      show "cur_eda (evtqs ?k ! q) = null" using q by (simp add: polled_queue)
      show "\<forall>x \<in> set (rdy_list (evtqs ?k ! q)). calm (edas ?k x)" using less.prems(4) p r by auto
      show "?n = null \<or> ?n \<in> set (rdy_list (evtqs ?k ! q))" using rdy_next_in [of p] d(1) r by fastforce
    qed (use q in simp)
    then obtain k' L where D: "evtq_poll_loop dispatch q ?n ?k = Some k'" "evtq_ok N k'" "vsf_evtq_is_empty q k'"
      "kernel.more k' = kernel.more k @ (p, evt) # L"
      "\<And>x. delivered x L = (if x \<in> set (rdy_list (evtqs ?k ! q)) then map fst (evts ?k x) else [])"
      by (auto simp: drained_def)
    have "delivered x ((p, evt) # L) = (if x \<in> set (rdy_list (evtqs k ! q)) then map fst (evts k x) else [])" for x
      using D(5) [of x] p ev r by (auto simp: delivered_def)
    then show ?thesis unfolding drained_def l using D(1-4) by blast
  qed
  show ?case
  proof (cases "node = null \<and> vsf_evtq_is_empty q k")
    case True
    then have "evtq_poll_loop dispatch q node k = Some k" by (subst evtq_poll_loop.simps) simp
    then show ?thesis using True K by (simp add: drained_def delivered_def vsf_evtq_is_empty_def)
  next
    case False
    then have "hd (rdy_list (evtqs k ! q)) \<in> set (rdy_list (evtqs k ! q))" if "node = null"
      using that by (simp add: vsf_evtq_is_empty_def)
    moreover have "evtq_poll_loop dispatch q null k = evtq_poll_loop dispatch q (hd (rdy_list (evtqs k ! q))) k"
      if "node = null" using False that by (subst evtq_poll_loop.simps) simp
    ultimately show ?thesis using step less.prems(5) by metis
  qed
qed

section \<open>Cleaning\<close>

lemma clean_evts_eq:
  "clean_evts evt ns = (filter (\<lambda>(e, m). evt \<noteq> 0 \<and> e \<noteq> evt) ns, length (filter (\<lambda>(e, m). evt = 0 \<or> e = evt) ns))"
  by (induction evt ns rule: clean_evts.induct) auto

lemma filter_lengths: "length (filter P xs) + length (filter (\<lambda>x. \<not> P x) xs) = length xs"
  by (induction xs) auto

lemma clean_ok:
  assumes K: "evtq_ok N k" and q: "cur_evtq k = Some q" "q < length (evtqs k)" and p: "cur_eda (evtqs k ! q) = p" "p \<noteq> null"
  shows "\<exists>k'. vsf_evtq_clean_evt evt k = Some k' \<and> evtq_ok N k'
    \<and> evts k' = (evts k)(p := filter (\<lambda>(e, m). evt \<noteq> 0 \<and> e \<noteq> evt) (evts k p))"
proof -
  note K' = K [unfolded evtq_ok_def]
  let ?r = "filter (\<lambda>(e, m). evt \<noteq> 0 \<and> e \<noteq> evt) (evts k p)"
  let ?n = "length (filter (\<lambda>(e, m). evt = 0 \<or> e = evt) (evts k p))"
  let ?k = "upd_eda p (\<lambda>e. e\<lparr>evt_list := ?r\<rparr>) (k\<lparr>node_cnt := node_cnt k + ?n\<rparr>)"
  have c: "vsf_evtq_clean_evt evt k = Some ?k"
    using q p by (simp add: vsf_evtq_clean_evt_def vsf_eda_get_cur_def clean_evts_eq evts_def Let_def)
  have e: "evts ?k = (evts k)(p := ?r)" by (auto simp: evts_def)
  have "filter (\<lambda>x. \<not> (case x of (e, m) \<Rightarrow> evt = 0 \<or> e = evt)) (evts k p) = ?r" by (rule filter_cong) auto
  then have "?n + length ?r = length (evts k p)"
    using filter_lengths [of "\<lambda>(e, m). evt = 0 \<or> e = evt" "evts k p"] by simp
  then have "nodes_ok N ?k" by (intro nodes_ok_upd [OF _ e]) (use K' in auto)
  moreover have "is_ready (edas k p)" "cur_priority (edas k p) = q" using K' q p by (auto simp: cur_ok_def)
  then have "evts_ok ?k" unfolding evts_ok_def e using K' p by (auto simp: evts_ok_def)
  moreover have "rdy_ok ?k" "prio_ok ?k" "cur_ok ?k" using K' by (auto simp: rdy_ok_def prio_ok_def cur_ok_def)
  ultimately show ?thesis using c e unfolding evtq_ok_def by blast
qed

section \<open>Properties\<close>

text \<open>Two queues, and an event in the second one for the task at address 200.\<close>

definition idle_eda :: vsf_eda_t where
  "idle_eda = \<lparr>priority = 0, cur_priority = 0, new_priority = 0, is_ready = False, evt_list = [], is_new_prio = False,
     is_to_exit = False, is_limitted = False, is_sync_got = False, is_to_set_due = False, is_timed = False, due = 0\<rparr>"

definition idle_evtq :: vsf_evtq_t where
  "idle_evtq = \<lparr>rdy_list = [], cur_eda = null, cur_evt = VSF_EVT_INVALID, cur_msg = null\<rparr>"

definition kernel_example :: "'a \<Rightarrow> 'a kernel_scheme" where
  "kernel_example m = \<lparr>edas = (\<lambda>p. if p = 200 then idle_eda\<lparr>priority := 1, cur_priority := 1\<rparr> else idle_eda),
     evtqs = [idle_evtq, idle_evtq], cur_evtq = None, node_cnt = 16, swi_pending = {}, swi_prio = id, ended = [], ktask = 100,
     systimer = systimer_example, timq = [], callback_timq = [], callback_timq_done = [], cb_due = (\<lambda>_. 0),
     pre_tick = 0, processing = False, \<dots> = m\<rparr>"

lemma kernel_example_ok: "evtq_ok 16 (kernel_example m)"
  by (auto simp: evtq_ok_def rdy_ok_def prio_ok_def evts_ok_def cur_ok_def nodes_ok_def evts_def evt_total_def
      kernel_example_def idle_eda_def idle_evtq_def less_Suc_eq)

text \<open>
  C11. Posting: with a free event node, a post to a task that may only have one event and is ready is
  refused and changes nothing; every other post is accepted, adds the event behind the events of the
  task, leaves the task in the ready list of its priority with the interrupt of this queue pending,
  and keeps the invariant of the event queues with the number of nodes accounted for.
\<close>

theorem evtq_post_spec:
  assumes "evtq_ok N k" "p \<noteq> null" "0 < node_cnt k"
  shows "if is_limitted (edas k p) \<and> is_ready (edas k p) \<and> \<not> force
    then p_vsf_evtq_post p evt msg force k = Some (VSF_ERR_FAIL, k)
    else \<exists>k'. p_vsf_evtq_post p evt msg force k = Some (VSF_ERR_NONE, k') \<and> evtq_ok N k'
      \<and> evts k' = (evts k)(p := evts k p @ [(evt, msg)])
      \<and> p \<in> set (rdy_list (evtqs k' ! cur_priority (edas k' p))) \<and> cur_priority (edas k' p) \<in> swi_pending k'"
proof -
  note P = posted_ok [OF assms]
  have "p \<in> set (rdy_list (evtqs (posted p evt msg k) ! cur_priority (edas (posted p evt msg k) p)))"
    using evtq_okD(2) [OF P] by simp
  moreover have "cur_priority (edas (posted p evt msg k) p) \<in> swi_pending (posted p evt msg k)"
    by (simp add: posted_def Let_def)
  ultimately show ?thesis using post_eq [OF assms] P by auto
qed

theorem evtq_post_spec_witness:
  "\<exists>k'. p_vsf_evtq_post 200 5 0 False (kernel_example ()) = Some (VSF_ERR_NONE, k') \<and> evtq_ok 16 k'"
  using evtq_post_spec [OF kernel_example_ok [of "()"], of 200 False 5 0]
  by (auto simp: kernel_example_def idle_eda_def)





text \<open>
  The end of a task that is not running: it leaves the ready list, its event nodes are free again,
  its termination callback is called once, and the invariant holds.
\<close>

theorem eda_fini_spec:
  assumes "evtq_ok N k" "p \<noteq> null" "cur_eda (evtqs k ! cur_priority (edas k p)) \<noteq> p"
  shows "\<exists>k'. vsf_evtq_on_eda_fini p k = Some k' \<and> evtq_ok N k' \<and> \<not> is_ready (edas k' p) \<and> evts k' = (evts k)(p := [])
    \<and> node_cnt k' = node_cnt k + length (evts k p) \<and> ended k' = ended k @ [p]"
  using fini_eq [OF assms(1,3)] ended_ok [OF assms(1,3,2)]
  by (auto simp: ended_state_def evts_def Let_def)

theorem eda_fini_spec_witness:
  "\<exists>k'. vsf_evtq_on_eda_fini 200 (posted 200 5 0 (kernel_example ())) = Some k' \<and> node_cnt k' = 16"
proof -
  have "evtq_ok 16 (posted 200 5 0 (kernel_example ()))"
    by (intro posted_ok) (simp_all add: kernel_example_ok, simp_all add: kernel_example_def)
  from eda_fini_spec [OF this, of 200] show ?thesis
    by (auto simp: kernel_example_def posted_def Let_def idle_eda_def idle_evtq_def evts_def)
qed

end
