(* ===== verification/VSF_Timer_Correct.thy ===== *)
theory VSF_Timer_Correct
  imports VSF_Evtq
begin

text \<open>
  What the timers guarantee: the queue is ordered by the due ticks, the timers that are due fire and
  no other, in order, and the system timer is programmed for the first timer of the queue.
\<close>

section \<open>Ordered insertion\<close>

lemma dlq_insert_sorted:
  fixes f :: "ptr \<Rightarrow> 'k::linorder"
  assumes "sorted (map f xs)" "x \<notin> set xs"
  shows "\<exists>ys. dlq_insert (\<lambda>y. f x \<le> f y) x xs = Some ys \<and> sorted (map f ys) \<and> set ys = insert x (set xs)
    \<and> (distinct xs \<longrightarrow> distinct ys) \<and> hd ys = (if xs = [] \<or> f x \<le> f (hd xs) then x else hd xs)"
proof -
  let ?P = "\<lambda>y. \<not> f x \<le> f y"
  define us where "us = takeWhile ?P xs"
  define vs where "vs = dropWhile ?P xs"
  have xs: "xs = us @ vs" by (simp add: us_def vs_def)
  have lo: "\<forall>y \<in> set us. f y < f x" by (auto simp: us_def not_le dest: set_takeWhileD)
  have "\<forall>y \<in> set vs. f x \<le> f y"
  proof (cases vs)
    case (Cons v ws)
    then have "dropWhile ?P xs = v # ws" by (simp add: vs_def)
    then have "f x \<le> f v" by (simp only: dropWhile_eq_Cons_conv not_not)
    moreover have "sorted (map f vs)" using assms(1) xs by (simp add: sorted_append)
    ultimately show ?thesis using Cons by (auto intro: order_trans)
  qed simp
  with lo assms(1) xs have "sorted (map f (us @ x # vs))" by (auto simp: sorted_append less_imp_le)
  moreover have "hd (us @ x # vs) = (if xs = [] \<or> f x \<le> f (hd xs) then x else hd xs)"
  proof (cases us)
    case Nil
    then show ?thesis using xs \<open>\<forall>y \<in> set vs. f x \<le> f y\<close> by (cases vs) auto
  next
    case (Cons u us')
    then show ?thesis using xs lo by auto
  qed
  moreover have "dlq_insert (\<lambda>y. f x \<le> f y) x xs = Some (us @ x # vs)"
    using assms(2) by (simp add: dlq_insert_def us_def vs_def)
  moreover have "set (us @ x # vs) = insert x (set xs)" "distinct xs \<longrightarrow> distinct (us @ x # vs)"
    using assms(2) xs by auto
  ultimately show ?thesis by blast
qed

section \<open>Invariant\<close>

definition timq_ok :: "'a kernel_scheme \<Rightarrow> bool" where
  "timq_ok k \<longleftrightarrow> distinct (timq k) \<and> sorted (map (\<lambda>p. due (edas k p)) (timq k)) \<and> null \<notin> set (timq k)
     \<and> (\<forall>p. p \<in> set (timq k) \<longleftrightarrow> is_timed (edas k p))"

lemma timq_ok_cong:
  assumes "timq_ok k" "timq k' = timq k" "\<And>x. due (edas k' x) = due (edas k x)"
    "\<And>x. is_timed (edas k' x) = is_timed (edas k x)"
  shows "timq_ok k'"
  using assms(1) unfolding timq_ok_def assms(2-4) .

text \<open>The tick of the next overflow of the system timer.\<close>

definition next_ovf :: "systimer \<Rightarrow> nat" where
  "next_ovf t = (if hw_pending t then hw_time t else hw_time t + (st_reload t - hw_count t))"

text \<open>Either a timer event for the kernel task is on its way, or the system timer fires before the first timer is late.\<close>

definition armed :: "'a kernel_scheme \<Rightarrow> bool" where
  "armed k \<longleftrightarrow> timq k = [] \<or> processing k \<or> next_ovf (systimer k) \<le> due (edas k (hd (timq k)))"

lemma timer_enqueue_ok:
  assumes T: "timq_ok k" and p: "p \<noteq> null" "\<not> is_timed (edas k p)"
  shows "\<exists>k' ys. p_vsf_teda_timer_enqueue p d k = Some k'
    \<and> k' = (upd_eda p (\<lambda>e. e\<lparr>due := d, is_timed := True\<rparr>) k)\<lparr>timq := ys\<rparr> \<and> timq_ok k'
    \<and> set ys = insert p (set (timq k))
    \<and> hd ys = (if timq k = [] \<or> d \<le> due (edas k (hd (timq k))) then p else hd (timq k))"
proof -
  let ?f = "\<lambda>y. due (edas (upd_eda p (\<lambda>e. e\<lparr>due := d\<rparr>) k) y)"
  have np: "p \<notin> set (timq k)" using T p(2) by (simp add: timq_ok_def)
  have m: "map ?f (timq k) = map (\<lambda>y. due (edas k y)) (timq k)" using np by auto
  have "sorted (map ?f (timq k))" unfolding m using T by (simp add: timq_ok_def)
  from dlq_insert_sorted [OF this np] obtain ys where ys: "dlq_insert (\<lambda>y. ?f p \<le> ?f y) p (timq k) = Some ys"
    "sorted (map ?f ys)" "set ys = insert p (set (timq k))" "distinct ys"
    "hd ys = (if timq k = [] \<or> ?f p \<le> ?f (hd (timq k)) then p else hd (timq k))"
    using T by (auto simp: timq_ok_def)
  have "timq k \<noteq> [] \<Longrightarrow> hd (timq k) \<noteq> p" using np by (metis hd_in_set)
  then have h: "hd ys = (if timq k = [] \<or> d \<le> due (edas k (hd (timq k))) then p else hd (timq k))"
    using ys(5) by auto
  define k' where "k' = (upd_eda p (\<lambda>e. e\<lparr>due := d, is_timed := True\<rparr>) k)\<lparr>timq := ys\<rparr>"
  have "p_vsf_teda_timer_enqueue p d k = Some k'"
    using p ys(1) by (simp add: p_vsf_teda_timer_enqueue_def k'_def upd_eda_def Let_def)
  moreover have "map (\<lambda>y. due (edas k' y)) ys = map ?f ys" by (simp add: k'_def)
  then have "map (\<lambda>y. due (edas k' y)) (timq k') = map ?f ys" by (simp add: k'_def)
  then have "sorted (map (\<lambda>y. due (edas k' y)) (timq k'))" using ys(2) by (simp only:)
  then have "timq_ok k'" using T p ys(3,4) unfolding timq_ok_def by (auto simp: k'_def)
  ultimately show ?thesis using ys(3) h k'_def by blast
qed

section \<open>Programming the system timer\<close>

lemma evts_other [simp]:
  "evts (k\<lparr>systimer := t\<rparr>) = evts k" "evts (k\<lparr>processing := b\<rparr>) = evts k" "evts (k\<lparr>pre_tick := n\<rparr>) = evts k"
  "evts (k\<lparr>timq := xs\<rparr>) = evts k" "evts (k\<lparr>cur_evtq := c\<rparr>) = evts k"
  by (simp_all add: evts_def fun_eq_iff)

lemma evtq_ok_other [simp]:
  "evtq_ok N (k\<lparr>systimer := t\<rparr>) = evtq_ok N k" "evtq_ok N (k\<lparr>processing := b\<rparr>) = evtq_ok N k"
  "evtq_ok N (k\<lparr>pre_tick := n\<rparr>) = evtq_ok N k" "evtq_ok N (k\<lparr>timq := xs\<rparr>) = evtq_ok N k"
  by (simp_all add: evtq_ok_def rdy_ok_def prio_ok_def evts_ok_def cur_ok_def nodes_ok_def)

text \<open>The kernel task gets its events: it exists and takes more than one of them.\<close>

definition ktask_ok :: "'a kernel_scheme \<Rightarrow> bool" where
  "ktask_ok k \<longleftrightarrow> ktask k \<noteq> null \<and> \<not> is_limitted (edas k (ktask k))"

lemma posted_other [simp]:
  "systimer (posted p evt msg k) = systimer k" "timq (posted p evt msg k) = timq k"
  "due (edas (posted p evt msg k) x) = due (edas k x)" "is_timed (edas (posted p evt msg k) x) = is_timed (edas k x)"
  "is_limitted (edas (posted p evt msg k) x) = is_limitted (edas k x)" "processing (posted p evt msg k) = processing k"
  "ktask (posted p evt msg k) = ktask k" "pre_tick (posted p evt msg k) = pre_tick k"
  "node_cnt (posted p evt msg k) = node_cnt k - 1"
  by (simp_all add: posted_def Let_def)

lemma wakeup_ok:
  assumes "evtq_ok N k" "ktask_ok k" "0 < node_cnt k"
  shows "\<exists>k'. p_vsf_systimer_wakeup k = Some k' \<and> evtq_ok N k' \<and> processing k' \<and> systimer k' = systimer k \<and> timq k' = timq k
    \<and> (\<forall>x. due (edas k' x) = due (edas k x)) \<and> (\<forall>x. is_timed (edas k' x) = is_timed (edas k x))"
proof (cases "processing k")
  case True
  then show ?thesis using assms(1) by (simp add: p_vsf_systimer_wakeup_def)
next
  case False
  let ?k = "k\<lparr>processing := True\<rparr>"
  have "p_vsf_systimer_wakeup k = Some (posted (ktask k) VSF_EVT_TIMER null ?k)"
    using False post_eq [of N ?k "ktask k"] assms
    by (simp add: p_vsf_systimer_wakeup_def vsf_eda_post_evt_def vsf_evtq_post_evt_def vsf_evtq_post_evt_ex_def ktask_ok_def)
  moreover have "evtq_ok N (posted (ktask k) VSF_EVT_TIMER null ?k)" using posted_ok [of N ?k] assms by (simp add: ktask_ok_def)
  ultimately show ?thesis by simp
qed

lemma update_ok:
  assumes K: "evtq_ok N k" "ktask_ok k" "0 < node_cnt k" and S: "systimer_ok (systimer k)"
    and a: "timq k \<noteq> [] \<Longrightarrow> \<not> force \<Longrightarrow> due (edas k (hd (timq k))) = pre_tick k \<Longrightarrow> armed k"
  shows "\<exists>k'. p_vsf_systimer_update force k = Some k' \<and> evtq_ok N k' \<and> systimer_ok (systimer k') \<and> armed k'
    \<and> hw_time (systimer k') = hw_time (systimer k) \<and> timq k' = timq k
    \<and> (\<forall>x. due (edas k' x) = due (edas k x)) \<and> (\<forall>x. is_timed (edas k' x) = is_timed (edas k x))
    \<and> (timq k \<noteq> [] \<longrightarrow> hw_time (systimer k) < due (edas k (hd (timq k))) \<longrightarrow> evts k' = evts k)
    \<and> (timq k = [] \<longrightarrow> evts k' = evts k)"
proof (cases "timq k")
  case Nil
  have "systimer_step (systimer k) 0 (vsf_systimer_set_idle (systimer k))" by (rule systimer_step.set_idle)
  then show ?thesis using step_ok [OF _ S] Nil K(1) by (auto simp: p_vsf_systimer_update_def armed_def)
next
  case (Cons teda rest)
  let ?d = "due (edas k teda)"
  show ?thesis
  proof (cases "force \<or> ?d \<noteq> pre_tick k")
    case False
    then have "p_vsf_systimer_update force k = Some k" using Cons by (simp add: p_vsf_systimer_update_def Let_def)
    then show ?thesis using K(1) S a Cons False by simp
  next
    case True
    obtain r t where st: "vsf_systimer_set ?d (systimer k) = (r, t)" by fastforce
    note V = set_ok [OF S st]
    let ?k = "k\<lparr>pre_tick := ?d, systimer := t\<rparr>"
    have u: "p_vsf_systimer_update force k = (if \<not> r then p_vsf_systimer_wakeup ?k else Some ?k)"
      using True Cons st by (simp add: p_vsf_systimer_update_def Let_def)
    show ?thesis
    proof (cases r)
      case True
      then have "next_ovf t \<le> ?d" using V by (simp add: next_ovf_def)
      then show ?thesis using u True K(1) V Cons by (simp add: armed_def)
    next
      case False
      have "evtq_ok N ?k" "ktask_ok ?k" "0 < node_cnt ?k" using K by (simp_all add: ktask_ok_def)
      from wakeup_ok [OF this] show ?thesis using u False V Cons by (auto simp: armed_def)
    qed
  qed
qed

lemma set_timer_ok:
  assumes K: "evtq_ok N k" "ktask_ok k" "0 < node_cnt k" and S: "systimer_ok (systimer k)" and T: "timq_ok k" "armed k"
    and p: "p \<noteq> null" "\<not> is_timed (edas k p)"
    and pre: "pre_tick k = d \<Longrightarrow> processing k \<or> next_ovf (systimer k) \<le> d"
  shows "\<exists>k'. p_vsf_teda_set_timer_imp p d k = Some k' \<and> evtq_ok N k' \<and> systimer_ok (systimer k') \<and> timq_ok k' \<and> armed k'
    \<and> hw_time (systimer k') = hw_time (systimer k) \<and> set (timq k') = insert p (set (timq k))
    \<and> due (edas k' p) = d"
proof -
  from timer_enqueue_ok [OF T(1) p, of d] obtain k1 ys where k1: "p_vsf_teda_timer_enqueue p d k = Some k1"
    "k1 = (upd_eda p (\<lambda>e. e\<lparr>due := d, is_timed := True\<rparr>) k)\<lparr>timq := ys\<rparr>" "timq_ok k1"
    "set ys = insert p (set (timq k))" "hd ys = (if timq k = [] \<or> d \<le> due (edas k (hd (timq k))) then p else hd (timq k))"
    by blast
  have "evtq_ok N (upd_eda p (\<lambda>e. e\<lparr>due := d, is_timed := True\<rparr>) k)"
    by (rule evtq_ok_cong [OF K(1)]) (use K(1) in \<open>auto simp: evts_def evtq_ok_def prio_ok_def split: if_splits\<close>)
  then have e: "evtq_ok N k1" "ktask_ok k1" "0 < node_cnt k1" "systimer_ok (systimer k1)" "systimer k1 = systimer k"
      "timq k1 = ys" "due (edas k1 p) = d"
    using K S k1(2) by (auto simp: ktask_ok_def)
  have "armed k1" if "due (edas k1 (hd (timq k1))) = pre_tick k1"
  proof (cases "hd ys = p")
    case True
    then show ?thesis using that pre k1(2) by (auto simp: armed_def upd_eda_def)
  next
    case False
    then show ?thesis using T(2) k1(2,5) by (auto simp: armed_def upd_eda_def split: if_splits)
  qed
  from update_ok [OF e(1-4), of False] this obtain k' where k': "p_vsf_systimer_update False k1 = Some k'" "evtq_ok N k'"
    "systimer_ok (systimer k')" "armed k'" "hw_time (systimer k') = hw_time (systimer k1)" "timq k' = timq k1"
    "\<And>x. due (edas k' x) = due (edas k1 x)" "\<And>x. is_timed (edas k' x) = is_timed (edas k1 x)" by blast
  have "timq_ok k'" by (rule timq_ok_cong [OF k1(3) k'(6-8)])
  then show ?thesis using k1(1,4) e(5-7) k' by (auto simp: p_vsf_teda_set_timer_imp_def)
qed

section \<open>Expiry\<close>

lemma timq_filter:
  assumes "timq_ok k" "timq k = p # rest" "n < due (edas k p)"
  shows "filter (\<lambda>x. n < due (edas k x)) (timq k) = timq k"
  using assms by (auto simp: timq_ok_def filter_id_conv intro: order_less_le_trans)

text \<open>The events that the expiry of the timers at tick \<open>n\<close> adds to a task.\<close>

definition timer_evts :: "nat \<Rightarrow> 'a kernel_scheme \<Rightarrow> ptr \<Rightarrow> (vsf_evt_t \<times> ptr) list" where
  "timer_evts n k p =
     (if p \<in> set (timq k) \<and> due (edas k p) \<le> n \<and> \<not> (is_limitted (edas k p) \<and> is_ready (edas k p))
      then [(VSF_EVT_TIMER, null)] else [])"

text \<open>The state after the first timer of the queue has fired.\<close>

definition fired :: "ptr \<Rightarrow> ptr list \<Rightarrow> systimer \<Rightarrow> 'a kernel_scheme \<Rightarrow> 'a kernel_scheme" where
  "fired p rest t k =
     (let k' = upd_eda p (\<lambda>e. e\<lparr>is_timed := False\<rparr>) (k\<lparr>systimer := t, timq := rest\<rparr>)
      in if is_limitted (edas k p) \<and> is_ready (edas k p) then k' else posted p VSF_EVT_TIMER null k')"

lemma fired_fields [simp]:
  "timq (fired p rest t k) = rest" "systimer (fired p rest t k) = t" "ktask (fired p rest t k) = ktask k"
  "due (edas (fired p rest t k) x) = due (edas k x)"
  "is_timed (edas (fired p rest t k) x) = (x \<noteq> p \<and> is_timed (edas k x))"
  "is_limitted (edas (fired p rest t k) x) = is_limitted (edas k x)"
  "x \<noteq> p \<Longrightarrow> is_ready (edas (fired p rest t k) x) = is_ready (edas k x)"
  "node_cnt (fired p rest t k) = node_cnt k - (if is_limitted (edas k p) \<and> is_ready (edas k p) then 0 else 1)"
  "evts (fired p rest t k) = (evts k)(p := evts k p @
     (if is_limitted (edas k p) \<and> is_ready (edas k p) then [] else [(VSF_EVT_TIMER, null)]))"
  by (auto simp: fired_def Let_def fun_eq_iff evts_def posted_def)

lemma fire_eq:
  assumes K: "evtq_ok N k" "0 < node_cnt k" and p: "p \<noteq> null" "p \<noteq> ktask k"
  shows "timer_fire eda p (upd_eda p (\<lambda>e. e\<lparr>is_timed := False\<rparr>) (k\<lparr>systimer := t, timq := rest\<rparr>)) = Some (fired p rest t k)"
    and "evtq_ok N (fired p rest t k)"
proof -
  let ?k = "upd_eda p (\<lambda>e. e\<lparr>is_timed := False\<rparr>) (k\<lparr>systimer := t, timq := rest\<rparr>)"
  have k: "evtq_ok N ?k" by (rule evtq_ok_cong [OF K(1)])
      (use K(1) in \<open>auto simp: evts_def evtq_ok_def prio_ok_def fun_eq_iff split: if_splits\<close>)
  have n: "0 < node_cnt ?k" using K(2) by simp
  show "timer_fire eda p ?k = Some (fired p rest t k)"
    using post_eq [OF k p(1) n] p
    by (simp add: timer_fire_def fired_def vsf_eda_post_evt_def vsf_evtq_post_evt_def vsf_evtq_post_evt_ex_def Let_def)
  show "evtq_ok N (fired p rest t k)" using k posted_ok [OF k p(1) n] by (simp add: fired_def Let_def)
qed

lemma expire_ok:
  assumes "evtq_ok N k" "timq_ok k" "systimer_ok (systimer k)" "ktask k \<notin> set (timq k)" "length (timq k) \<le> node_cnt k"
  shows "\<exists>k'. timer_expire eda k = Some k' \<and> evtq_ok N k' \<and> timq_ok k' \<and> systimer_ok (systimer k')
    \<and> hw_time (systimer k') = hw_time (systimer k)
    \<and> timq k' = filter (\<lambda>p. hw_time (systimer k) < due (edas k p)) (timq k)
    \<and> evts k' = (\<lambda>p. evts k p @ timer_evts (hw_time (systimer k)) k p)
    \<and> (\<forall>p. due (edas k' p) = due (edas k p) \<and> is_limitted (edas k' p) = is_limitted (edas k p))
    \<and> ktask k' = ktask k \<and> node_cnt k \<le> node_cnt k' + length (timq k)"
  using assms
proof (induction "length (timq k)" arbitrary: k)
  case 0
  then show ?case by (subst timer_expire.simps) (simp add: timer_evts_def)
next
  case (Suc n)
  then obtain p rest where q: "timq k = p # rest" by (cases "timq k") auto
  let ?n = "hw_time (systimer k)"
  define t where "t = (systimer k)\<lparr>st_ticks_prev := ?n, st_tick := ?n\<rparr>"
  have t: "systimer_ok t" "hw_time t = ?n" using systimer_read_ok [OF Suc.prems(3)] by (simp_all add: t_def)
  have d: "p_vsf_systimer_is_due (due (edas k p)) k = (due (edas k p) \<le> ?n, k\<lparr>systimer := t\<rparr>)"
    using systimer_now_ok [OF Suc.prems(3)] by (simp add: p_vsf_systimer_is_due_def vsf_systimer_is_due_def t_def)
  have pq: "p \<noteq> null" "p \<noteq> ktask k" "0 < node_cnt k" using Suc.prems q by (auto simp: timq_ok_def)
  show ?case
  proof (cases "due (edas k p) \<le> ?n")
    case False
    then have "timer_expire eda k = Some (k\<lparr>systimer := t\<rparr>)" using d q by (subst timer_expire.simps) simp
    moreover have "filter (\<lambda>p. ?n < due (edas k p)) (timq k) = timq k" using timq_filter [OF Suc.prems(2) q] False by simp
    moreover from this have "timer_evts ?n k x = []" for x by (auto simp: timer_evts_def filter_id_conv)
    moreover have "timq_ok (k\<lparr>systimer := t\<rparr>)" by (rule timq_ok_cong [OF Suc.prems(2)]) simp_all
    ultimately show ?thesis using Suc.prems(1) t by simp
  next
    case True
    let ?k = "fired p rest t k"
    note F = fire_eq [OF Suc.prems(1) pq(3,1,2), where t = t and rest = rest]
    have l: "timer_expire eda k = timer_expire eda ?k"
      using d q True F(1) by (subst timer_expire.simps) simp
    have "timq_ok ?k" using Suc.prems(2) q by (auto simp: timq_ok_def)
    have i: "n = length (timq ?k)" "systimer_ok (systimer ?k)" "ktask ?k \<notin> set (timq ?k)" "length (timq ?k) \<le> node_cnt ?k"
      using Suc.hyps(2) Suc.prems(4,5) q t by auto
    from Suc.hyps(1) [OF i(1) F(2) \<open>timq_ok ?k\<close> i(2-4)] obtain k' where k': "timer_expire eda ?k = Some k'"
      "evtq_ok N k'" "timq_ok k'" "systimer_ok (systimer k')" "hw_time (systimer k') = ?n"
      "timq k' = filter (\<lambda>p. ?n < due (edas k p)) rest" "evts k' = (\<lambda>x. evts ?k x @ timer_evts ?n ?k x)"
      "\<And>p. due (edas k' p) = due (edas k p) \<and> is_limitted (edas k' p) = is_limitted (edas k p)" "ktask k' = ktask k"
      "node_cnt ?k \<le> node_cnt k' + length rest"
      unfolding fired_fields(1-6) t(2) by blast
    have "evts k' = (\<lambda>x. evts k x @ timer_evts ?n k x)"
      using True q Suc.prems(2) unfolding k'(7) by (auto simp: fun_eq_iff timer_evts_def timq_ok_def)
    moreover have "node_cnt k \<le> node_cnt k' + length (timq k)" using k'(10) q by (auto split: if_splits)
    ultimately show ?thesis using l k' True q by auto
  qed
qed

section \<open>Properties\<close>

lemma kernel_example_timers:
  "ktask_ok (kernel_example m)" "timq_ok (kernel_example m)" "armed (kernel_example m)"
  "systimer_ok (systimer (kernel_example m))" "hw_time (systimer (kernel_example m)) = 0"
  using systimer_example_ok
  by (simp_all add: ktask_ok_def timq_ok_def armed_def kernel_example_def idle_eda_def)





end
