(* ===== verification/VSF_Wake.thy ===== *)
theory VSF_Wake
  imports VSF_Timer_Correct
begin

text \<open>
  What the synchronisation objects rely on in the kernel: waking a task that waits. The contract is a
  locale over an abstract kernel; \<open>__vsf_eda_post_evt_ex\<close> with \<open>force\<close> set fulfils it.
\<close>

section \<open>Contract\<close>

fun wake_all :: "(ptr \<Rightarrow> 'k \<Rightarrow> 'k option) \<Rightarrow> ptr list \<Rightarrow> 'k \<Rightarrow> 'k option" where
  "wake_all wake [] k = Some k"
| "wake_all wake (p # ps) k = Option.bind (wake p k) (wake_all wake ps)"

text \<open>
  \<open>inv\<close> is the invariant of the kernel, \<open>room\<close> its free event nodes, \<open>view\<close> its tasks, \<open>effect\<close> what waking
  does to a task, and \<open>frame\<close> the part of the kernel that stays as it is.
\<close>

locale waker =
  fixes wake :: "ptr \<Rightarrow> 'k \<Rightarrow> 'k option" and inv :: "'k \<Rightarrow> bool" and room :: "'k \<Rightarrow> nat"
    and view :: "'k \<Rightarrow> ptr \<Rightarrow> 't" and effect :: "'t \<Rightarrow> 't" and frame :: "'k \<Rightarrow> 'f"
  assumes wake_law: "inv k \<Longrightarrow> p \<noteq> null \<Longrightarrow> 0 < room k \<Longrightarrow>
    \<exists>k'. wake p k = Some k' \<and> inv k' \<and> room k = Suc (room k') \<and> view k' = (view k)(p := effect (view k p)) \<and> frame k' = frame k"
begin

lemma wake_all_law:
  assumes "inv k" "null \<notin> set ps" "distinct ps" "length ps \<le> room k"
  shows "\<exists>k'. wake_all wake ps k = Some k' \<and> inv k' \<and> room k = length ps + room k' \<and> frame k' = frame k
    \<and> view k' = (\<lambda>p. if p \<in> set ps then effect (view k p) else view k p)"
  using assms
proof (induction ps arbitrary: k)
  case (Cons p ps)
  then obtain k1 where k1: "wake p k = Some k1" "inv k1" "room k = Suc (room k1)" "frame k1 = frame k"
    "view k1 = (view k)(p := effect (view k p))" using wake_law [of k p] by auto
  with Cons.IH [of k1] Cons.prems obtain k' where k': "wake_all wake ps k1 = Some k'" "inv k'" "room k1 = length ps + room k'"
    "frame k' = frame k" "view k' = (\<lambda>x. if x \<in> set ps then effect (view k1 x) else view k1 x)" by auto
  then have "view k' = (\<lambda>x. if x \<in> set (p # ps) then effect (view k x) else view k x)"
    using k1(5) Cons.prems(3) by (auto simp: fun_eq_iff)
  then show ?case using k1 k' by auto
qed auto

end

section \<open>The kernel fulfils it\<close>

text \<open>The flag is set and the event is posted, whether or not the task is limited to one event.\<close>

definition wake :: "vsf_evt_t \<Rightarrow> ptr \<Rightarrow> 'a kernel_scheme \<Rightarrow> 'a kernel_scheme option" where
  "wake evt p k = map_option snd (p_vsf_eda_post_evt_ex p evt True (upd_eda p (\<lambda>e. e\<lparr>is_sync_got := True\<rparr>) k))"

definition woken :: "vsf_evt_t \<Rightarrow> vsf_eda_t \<Rightarrow> vsf_eda_t" where
  "woken evt e = e\<lparr>is_sync_got := True, evt_list := evt_list e @ [(evt, null)], is_ready := True\<rparr>"

lemma woken_fields [simp]:
  "is_sync_got (woken evt e)" "evt_list (woken evt e) = evt_list e @ [(evt, null)]" "is_ready (woken evt e)"
  "cur_priority (woken evt e) = cur_priority e" "priority (woken evt e) = priority e"
  "is_new_prio (woken evt e) = is_new_prio e" "new_priority (woken evt e) = new_priority e"
  "is_limitted (woken evt e) = is_limitted e" "is_timed (woken evt e) = is_timed e" "due (woken evt e) = due e"
  by (simp_all add: woken_def)

definition wake_frame :: "'a kernel_scheme \<Rightarrow> nat option \<times> ptr list \<times> ptr list \<times> systimer \<times> 'a" where
  "wake_frame k = (cur_evtq k, map cur_eda (evtqs k), timq k, systimer k, kernel.more k)"

lemma wake_eq:
  assumes K: "evtq_ok N k" and p: "p \<noteq> null" "0 < node_cnt k"
  defines "k1 \<equiv> upd_eda p (\<lambda>e. e\<lparr>is_sync_got := True\<rparr>) k"
  shows "p_vsf_eda_post_evt_ex p evt True k1 = Some (VSF_ERR_NONE, posted p evt null k1)"
    and "wake evt p k = Some (posted p evt null k1)" and "evtq_ok N (posted p evt null k1)"
    and "edas (posted p evt null k1) = (edas k)(p := woken evt (edas k p))"
proof -
  have k1: "evtq_ok N k1" unfolding k1_def by (rule evtq_ok_cong [OF K])
      (use K in \<open>auto simp: evts_def evtq_ok_def prio_ok_def split: if_splits\<close>)
  show "p_vsf_eda_post_evt_ex p evt True k1 = Some (VSF_ERR_NONE, posted p evt null k1)"
    using post_eq [OF k1 p(1), of evt null True] p(2) p(1)
    by (simp add: p_vsf_eda_post_evt_ex_def vsf_evtq_post_evt_ex_def k1_def)
  then show "wake evt p k = Some (posted p evt null k1)" by (simp add: wake_def k1_def)
  show "evtq_ok N (posted p evt null k1)" by (rule posted_ok [OF k1 p(1)]) (use p(2) in \<open>simp add: k1_def\<close>)
  show "edas (posted p evt null k1) = (edas k)(p := woken evt (edas k p))"
    by (simp add: posted_def Let_def k1_def woken_def)
qed

lemma posted_frame [simp]: "wake_frame (posted p evt msg k) = wake_frame k"
  using posted_fields(5,6) [of p evt msg k]
  by (auto simp: wake_frame_def intro!: nth_equalityI) (simp_all add: posted_def Let_def)

lemma upd_eda_frame [simp]: "wake_frame (upd_eda p f k) = wake_frame k"
  by (simp add: wake_frame_def)

interpretation ipc: waker "wake evt" "evtq_ok N" node_cnt edas "woken evt" wake_frame for evt N
proof unfold_locales
  fix k :: "'a kernel_scheme" and p :: ptr
  assume a: "evtq_ok N k" "p \<noteq> null" "0 < node_cnt k"
  show "\<exists>k'. wake evt p k = Some k' \<and> evtq_ok N k' \<and> node_cnt k = Suc (node_cnt k')
      \<and> edas k' = (edas k)(p := woken evt (edas k p)) \<and> wake_frame k' = wake_frame k"
    using wake_eq(2-4) [OF a, of evt] a(3) by auto
qed

end
