(* ===== verification/VSF_Sync.thy ===== *)
theory VSF_Sync
  imports VSF_Wake
begin

text \<open>
  The synchronisation objects of the kernel, \<open>src/source/kernel/__eda/vsf_eda_sync.c\<close>: semaphores,
  mutexes, triggers and critical sections are all a \<open>vsf_sync_t\<close>. An operation runs between
  \<open>vsf_protect_sched\<close> and \<open>vsf_unprotect_sched\<close> and is one step here.
\<close>

section \<open>Data\<close>

text \<open>The bit fields \<open>cur\<close> and \<open>max\<close> are 15 bits wide; \<open>eda_owner\<close> belongs to \<open>vsf_sync_owner_t\<close>.\<close>

record vsf_sync_t =
  cur :: nat
  has_owner :: bool
  max_cnt :: nat
  manual_rst :: bool
  pending_list :: "ptr list"
  eda_owner :: ptr

datatype vsf_sync_reason_t = VSF_SYNC_TIMEOUT | VSF_SYNC_GET | VSF_SYNC_PENDING | VSF_SYNC_FAIL | VSF_SYNC_CANCEL

section \<open>Operations\<close>

text \<open>The due tick is only recorded; the timer is set by \<open>vsf_evtq_poll\<close> when the task is no longer ready.\<close>

definition p_vsf_eda_sync_set_timeout :: "ptr \<Rightarrow> int \<Rightarrow> 'a kernel_scheme \<Rightarrow> (ptr \<times> 'a kernel_scheme) option" where
  "p_vsf_eda_sync_set_timeout eda timeout k =
     (let eda = p_vsf_eda_get_valid_eda eda k
      in if 0 < timeout
         then if eda = null then None
              else let k = upd_eda eda (\<lambda>e. e\<lparr>is_limitted := True\<rparr>) k;
                       k = upd_eda eda (\<lambda>e. e\<lparr>is_to_set_due := True\<rparr>) k;
                       (now, k) = vsf_systimer_get_tick k
                   in Some (eda, upd_eda eda (\<lambda>e. e\<lparr>due := now + nat timeout\<rparr>) k)
         else Some (eda, k))"

definition p_vsf_eda_sync_pend ::
  "vsf_sync_t \<Rightarrow> ptr \<Rightarrow> int \<Rightarrow> 'a kernel_scheme \<Rightarrow> (vsf_sync_t \<times> 'a kernel_scheme) option" where
  "p_vsf_eda_sync_pend sync eda timeout k =
     (let eda = p_vsf_eda_get_valid_eda eda k
      in if eda = null then None
         else do {
           xs \<leftarrow> dlq_enqueue eda (pending_list sync);
           (_, k) \<leftarrow> p_vsf_eda_sync_set_timeout eda timeout k;
           Some (sync\<lparr>pending_list := xs\<rparr>, k)})"

definition p_vsf_eda_sync_get_eda_pending :: "vsf_sync_t \<Rightarrow> ptr \<times> vsf_sync_t" where
  "p_vsf_eda_sync_get_eda_pending sync =
     (case pending_list sync of [] \<Rightarrow> (null, sync) | eda # rest \<Rightarrow> (eda, sync\<lparr>pending_list := rest\<rparr>))"

definition p_vsf_eda_sync_get_reason ::
  "vsf_sync_t \<Rightarrow> vsf_evt_t \<Rightarrow> bool \<Rightarrow> 'a kernel_scheme \<Rightarrow> (vsf_sync_reason_t \<times> vsf_sync_t \<times> 'a kernel_scheme) option" where
  "p_vsf_eda_sync_get_reason sync evt dequeue_eda k =
     (let eda = vsf_eda_get_cur k
      in if eda = null then None
         else if evt = VSF_EVT_TIMER
         then if is_sync_got (edas k eda) then Some (VSF_SYNC_PENDING, sync, k)
              else do {
                sync \<leftarrow> (if dequeue_eda
                        then do {
                          xs \<leftarrow> dlq_remove eda (pending_list sync);
                          Some (sync\<lparr>pending_list := xs\<rparr>)}
                        else Some sync);
                Some (VSF_SYNC_TIMEOUT, sync, upd_eda eda (\<lambda>e. e\<lparr>is_limitted := False\<rparr>) k)}
         else do {
           k \<leftarrow> p_vsf_teda_cancel_timer eda k;
           (if evt = VSF_EVT_SYNC
            then Some (VSF_SYNC_GET, sync, upd_eda eda (\<lambda>e. e\<lparr>is_sync_got := False, is_limitted := False\<rparr>) k)
            else if evt = VSF_EVT_SYNC_CANCEL
            then Some (VSF_SYNC_CANCEL, sync, upd_eda eda (\<lambda>e. e\<lparr>is_sync_got := False, is_limitted := False\<rparr>) k)
            else None)})"

definition vsf_eda_sync_get_reason ::
  "vsf_sync_t \<Rightarrow> vsf_evt_t \<Rightarrow> 'a kernel_scheme \<Rightarrow> (vsf_sync_reason_t \<times> vsf_sync_t \<times> 'a kernel_scheme) option" where
  "vsf_eda_sync_get_reason sync evt k = p_vsf_eda_sync_get_reason sync evt True k"

definition vsf_eda_sync_init :: "nat \<Rightarrow> nat \<Rightarrow> vsf_sync_t \<Rightarrow> vsf_sync_t" where
  "vsf_eda_sync_init cur_value max_value sync =
     (let sync = sync\<lparr>cur := cur_value mod 2 ^ 15, has_owner := odd (cur_value div 2 ^ 15),
                      max_cnt := max_value mod 2 ^ 15, manual_rst := odd (max_value div 2 ^ 15),
                      pending_list := []\<rparr>
      in if has_owner sync then sync\<lparr>eda_owner := null\<rparr> else sync)"

text \<open>The message is the address of the object; the kernel task increases it when it gets the message.\<close>

definition vsf_eda_sync_increase_isr :: "ptr \<Rightarrow> 'a kernel_scheme \<Rightarrow> (vsf_err_t \<times> 'a kernel_scheme) option" where
  "vsf_eda_sync_increase_isr pthis k = (if pthis = null then None else vsf_eda_post_msg (ktask k) pthis k)"

text \<open>The owner of a mutex gives up the priority that it inherited.\<close>

definition sync_restore_priority :: "ptr \<Rightarrow> 'a kernel_scheme \<Rightarrow> 'a kernel_scheme option" where
  "sync_restore_priority eda k =
     (if eda = null then None
      else if cur_priority (edas k eda) \<noteq> priority (edas k eda)
      then p_vsf_eda_set_priority eda (priority (edas k eda)) k
      else if is_new_prio (edas k eda)
      then if new_priority (edas k eda) \<le> priority (edas k eda) then None
           else do {
             let k = upd_eda eda (\<lambda>e. e\<lparr>is_new_prio := False\<rparr>) k;
             evtq \<leftarrow> p_vsf_os_evtq_get (priority (edas k eda)) k;
             p_vsf_os_evtq_set_priority evtq (priority (edas k eda)) k}
      else Some k)"

partial_function (option) sync_increase_loop ::
  "bool \<Rightarrow> vsf_sync_t \<Rightarrow> 'a kernel_scheme \<Rightarrow> (vsf_sync_t \<times> 'a kernel_scheme) option" where
  "sync_increase_loop manual sync k =
     (if 0 < cur sync
      then
        let (eda_pending, sync) = p_vsf_eda_sync_get_eda_pending sync
        in if eda_pending \<noteq> null
           then
             let k = upd_eda eda_pending (\<lambda>e. e\<lparr>is_sync_got := True\<rparr>) k;
                 sync = (if \<not> manual then sync\<lparr>cur := cur sync - 1\<rparr> else sync);
                 sync = (if has_owner sync then sync\<lparr>eda_owner := eda_pending\<rparr> else sync)
             in Option.bind (p_vsf_eda_post_evt_ex eda_pending VSF_EVT_SYNC True k)
                  (\<lambda>(err, k). if err \<noteq> VSF_ERR_NONE then None else sync_increase_loop manual sync k)
           else Some (sync, k)
      else Some (sync, k))"

definition p_vsf_eda_sync_increase_ex ::
  "vsf_sync_t \<Rightarrow> ptr \<Rightarrow> bool \<Rightarrow> 'a kernel_scheme \<Rightarrow> (vsf_err_t \<times> vsf_sync_t \<times> 'a kernel_scheme) option" where
  "p_vsf_eda_sync_increase_ex sync eda manual k =
     (if max_cnt sync \<le> cur sync then Some (VSF_ERR_OVERRUN, sync, k)
      else do {
        let sync = sync\<lparr>cur := (cur sync + 1) mod 2 ^ 15\<rparr>;
        (sync, k) \<leftarrow> (if has_owner sync
          then do {
            k \<leftarrow> sync_restore_priority (p_vsf_eda_get_valid_eda eda k) k;
            Some (sync\<lparr>eda_owner := null\<rparr>, k)}
          else Some (sync, k));
        (sync, k) \<leftarrow> sync_increase_loop manual sync k;
        Some (VSF_ERR_NONE, sync, k)})"

definition vsf_eda_sync_increase_ex ::
  "vsf_sync_t \<Rightarrow> ptr \<Rightarrow> 'a kernel_scheme \<Rightarrow> (vsf_err_t \<times> vsf_sync_t \<times> 'a kernel_scheme) option" where
  "vsf_eda_sync_increase_ex sync eda k = p_vsf_eda_sync_increase_ex sync eda (manual_rst sync) k"

definition vsf_eda_sync_increase ::
  "vsf_sync_t \<Rightarrow> 'a kernel_scheme \<Rightarrow> (vsf_err_t \<times> vsf_sync_t \<times> 'a kernel_scheme) option" where
  "vsf_eda_sync_increase sync k = vsf_eda_sync_increase_ex sync null k"

definition vsf_eda_sync_force_reset :: "vsf_sync_t \<Rightarrow> vsf_sync_t" where
  "vsf_eda_sync_force_reset sync = sync\<lparr>cur := 0\<rparr>"

definition p_vsf_eda_sync_decrease_ex ::
  "vsf_sync_t \<Rightarrow> int \<Rightarrow> ptr \<Rightarrow> bool \<Rightarrow> 'a kernel_scheme \<Rightarrow> (vsf_err_t \<times> vsf_sync_t \<times> 'a kernel_scheme) option" where
  "p_vsf_eda_sync_decrease_ex sync timeout eda manual k =
     (let eda = p_vsf_eda_get_valid_eda eda k
      in if 0 < cur sync \<and> pending_list sync = []
         then
           let sync = (if \<not> manual then sync\<lparr>cur := cur sync - 1\<rparr> else sync)
           in if has_owner sync
              then if eda_owner sync \<noteq> null \<or> cur sync \<noteq> 0 then None
                   else Some (VSF_ERR_NONE, sync\<lparr>eda_owner := eda\<rparr>, k)
              else Some (VSF_ERR_NONE, sync, k)
         else if timeout \<noteq> 0
         then do {
           (sync, k) \<leftarrow> (if has_owner sync
             then if eda = null then None
                  else do {
                    let cur_prio = p_vsf_eda_get_cur_priority eda k;
                    xs \<leftarrow> dlq_insert (\<lambda>p. cur_priority (edas k p) < cur_prio) eda (pending_list sync);
                    (_, k) \<leftarrow> p_vsf_eda_sync_set_timeout eda timeout k;
                    Some (sync\<lparr>pending_list := xs\<rparr>, k)}
             else p_vsf_eda_sync_pend sync eda timeout k);
           k \<leftarrow> (if has_owner sync
             then if eda_owner sync = null then None
                  else if cur_priority (edas k (eda_owner sync)) < cur_priority (edas k eda)
                  then p_vsf_eda_set_priority (eda_owner sync) (cur_priority (edas k eda)) k
                  else Some k
             else Some k);
           Some (VSF_ERR_NOT_READY, sync, k)}
         else Some (VSF_ERR_NOT_READY, sync, k))"

definition vsf_eda_sync_decrease_ex ::
  "vsf_sync_t \<Rightarrow> int \<Rightarrow> ptr \<Rightarrow> 'a kernel_scheme \<Rightarrow> (vsf_err_t \<times> vsf_sync_t \<times> 'a kernel_scheme) option" where
  "vsf_eda_sync_decrease_ex sync timeout eda k = p_vsf_eda_sync_decrease_ex sync timeout eda (manual_rst sync) k"

definition vsf_eda_sync_decrease ::
  "vsf_sync_t \<Rightarrow> int \<Rightarrow> 'a kernel_scheme \<Rightarrow> (vsf_err_t \<times> vsf_sync_t \<times> 'a kernel_scheme) option" where
  "vsf_eda_sync_decrease sync timeout k = vsf_eda_sync_decrease_ex sync timeout null k"

partial_function (option) vsf_eda_sync_cancel ::
  "vsf_sync_t \<Rightarrow> 'a kernel_scheme \<Rightarrow> (vsf_sync_t \<times> 'a kernel_scheme) option" where
  "vsf_eda_sync_cancel sync k =
     (let (eda, sync) = p_vsf_eda_sync_get_eda_pending sync
      in if eda \<noteq> null
         then Option.bind (p_vsf_eda_post_evt_ex eda VSF_EVT_SYNC_CANCEL True (upd_eda eda (\<lambda>e. e\<lparr>is_sync_got := True\<rparr>) k))
                (\<lambda>(_, k). vsf_eda_sync_cancel sync k)
         else Some (sync, k))"

section \<open>The loops\<close>

lemma increase_loop_stop: "cur s = 0 \<or> pending_list s = [] \<Longrightarrow> sync_increase_loop manual s k = Some (s, k)"
  by (subst sync_increase_loop.simps) (auto simp: p_vsf_eda_sync_get_eda_pending_def)

lemma increase_loop_step:
  assumes K: "evtq_ok N k" "0 < node_cnt k" and p: "pending_list s = p # ps" "p \<noteq> null" "0 < cur s"
    and w: "wake VSF_EVT_SYNC p k = Some k'"
  shows "sync_increase_loop manual s k =
    sync_increase_loop manual (s\<lparr>cur := cur s - (if manual then 0 else 1), pending_list := ps,
      eda_owner := (if has_owner s then p else eda_owner s)\<rparr>) k'"
proof -
  have "p_vsf_eda_post_evt_ex p VSF_EVT_SYNC True (upd_eda p (\<lambda>e. e\<lparr>is_sync_got := True\<rparr>) k) = Some (VSF_ERR_NONE, k')"
    using wake_eq(1,2) [OF K(1) p(2) K(2)] w by simp
  then have "sync_increase_loop manual s k =
      (let s' = (if \<not> manual then s\<lparr>pending_list := ps, cur := cur s - 1\<rparr> else s\<lparr>pending_list := ps\<rparr>);
           s' = (if has_owner s' then s'\<lparr>eda_owner := p\<rparr> else s')
       in sync_increase_loop manual s' k')"
    using p by (subst sync_increase_loop.simps) (simp add: p_vsf_eda_sync_get_eda_pending_def Let_def)
  moreover have "(let s' = (if \<not> manual then s\<lparr>pending_list := ps, cur := cur s - 1\<rparr> else s\<lparr>pending_list := ps\<rparr>)
      in if has_owner s' then s'\<lparr>eda_owner := p\<rparr> else s') =
      s\<lparr>cur := cur s - (if manual then 0 else 1), pending_list := ps, eda_owner := (if has_owner s then p else eda_owner s)\<rparr>"
    by (cases s) (simp add: Let_def)
  ultimately show ?thesis by (simp only: Let_def)
qed

lemma increase_loop_manual:
  assumes "evtq_ok N k" "0 < cur s" "\<not> has_owner s" "null \<notin> set (pending_list s)" "distinct (pending_list s)"
    "length (pending_list s) \<le> node_cnt k"
  shows "sync_increase_loop True s k = map_option (Pair (s\<lparr>pending_list := []\<rparr>)) (wake_all (wake VSF_EVT_SYNC) (pending_list s) k)"
  using assms
proof (induction "pending_list s" arbitrary: s k)
  case Nil
  then show ?case by (cases s) (simp add: increase_loop_stop)
next
  case (Cons p ps)
  note l = Cons.hyps(2) [symmetric]
  have p: "p \<noteq> null" "0 < node_cnt k" using Cons.prems(4,6) l by auto
  from ipc.wake_law [OF Cons.prems(1) p, of VSF_EVT_SYNC] obtain k' where
    w: "wake VSF_EVT_SYNC p k = Some k'" "evtq_ok N k'" "node_cnt k = Suc (node_cnt k')" by auto
  have "s\<lparr>cur := cur s - (if True then 0 else 1), pending_list := ps, eda_owner := (if has_owner s then p else eda_owner s)\<rparr> =
      s\<lparr>pending_list := ps\<rparr>" using Cons.prems(3) by (cases s) simp
  then have "sync_increase_loop True s k = sync_increase_loop True (s\<lparr>pending_list := ps\<rparr>) k'"
    using increase_loop_step [OF Cons.prems(1) p(2) l p(1) Cons.prems(2) w(1), of True] by simp
  also have "\<dots> = map_option (Pair (s\<lparr>pending_list := []\<rparr>)) (wake_all (wake VSF_EVT_SYNC) ps k')"
    using Cons.hyps(1) [of "s\<lparr>pending_list := ps\<rparr>" k'] Cons.prems w l by simp
  finally show ?case using w(1) by (simp add: l)
qed

lemma cancel_eq:
  assumes "evtq_ok N k" "null \<notin> set (pending_list s)" "distinct (pending_list s)" "length (pending_list s) \<le> node_cnt k"
  shows "vsf_eda_sync_cancel s k = map_option (Pair (s\<lparr>pending_list := []\<rparr>)) (wake_all (wake VSF_EVT_SYNC_CANCEL) (pending_list s) k)"
  using assms
proof (induction "pending_list s" arbitrary: s k)
  case Nil
  then show ?case by (subst vsf_eda_sync_cancel.simps) (simp add: p_vsf_eda_sync_get_eda_pending_def)
next
  case (Cons p ps)
  note l = Cons.hyps(2) [symmetric]
  have p: "p \<noteq> null" "0 < node_cnt k" using Cons.prems(2,4) l by auto
  from ipc.wake_law [OF Cons.prems(1) p, of VSF_EVT_SYNC_CANCEL] obtain k' where
    w: "wake VSF_EVT_SYNC_CANCEL p k = Some k'" "evtq_ok N k'" "node_cnt k = Suc (node_cnt k')" by auto
  have "p_vsf_eda_post_evt_ex p VSF_EVT_SYNC_CANCEL True (upd_eda p (\<lambda>e. e\<lparr>is_sync_got := True\<rparr>) k) = Some (VSF_ERR_NONE, k')"
    using wake_eq(1,2) [OF Cons.prems(1) p] w by simp
  then have "vsf_eda_sync_cancel s k = vsf_eda_sync_cancel (s\<lparr>pending_list := ps\<rparr>) k'"
    using p l by (subst vsf_eda_sync_cancel.simps) (simp add: p_vsf_eda_sync_get_eda_pending_def)
  also have "\<dots> = map_option (Pair (s\<lparr>pending_list := []\<rparr>)) (wake_all (wake VSF_EVT_SYNC_CANCEL) ps k')"
    using Cons.hyps(1) [of "s\<lparr>pending_list := ps\<rparr>" k'] Cons.prems w l by simp
  finally show ?case using w(1) by (simp add: l)
qed

section \<open>Invariant\<close>

text \<open>
  A task that waits is not marked as served, and no task waits while the object is available.
\<close>

definition sync_ok :: "vsf_sync_t \<Rightarrow> 'a kernel_scheme \<Rightarrow> bool" where
  "sync_ok s k \<longleftrightarrow> distinct (pending_list s) \<and> null \<notin> set (pending_list s) \<and> cur s \<le> max_cnt s \<and> max_cnt s < 2 ^ 15
     \<and> (0 < cur s \<longrightarrow> pending_list s = []) \<and> (\<forall>p \<in> set (pending_list s). \<not> is_sync_got (edas k p))"

text \<open>The tasks that an increase serves.\<close>

definition served :: "vsf_sync_t \<Rightarrow> ptr list" where
  "served s = (if manual_rst s then pending_list s else take 1 (pending_list s))"

lemma increase_ok:
  assumes K: "evtq_ok N k" and S: "sync_ok s k" and o: "\<not> has_owner s" and c: "cur s < max_cnt s"
    and n: "length (served s) \<le> node_cnt k"
  shows "\<exists>s' k'. vsf_eda_sync_increase s k = Some (VSF_ERR_NONE, s', k') \<and> evtq_ok N k' \<and> sync_ok s' k'
    \<and> pending_list s' = drop (length (served s)) (pending_list s)
    \<and> cur s' = (if manual_rst s \<or> pending_list s = [] then cur s + 1 else cur s)
    \<and> edas k' = (\<lambda>p. if p \<in> set (served s) then woken VSF_EVT_SYNC (edas k p) else edas k p)"
proof -
  let ?s = "s\<lparr>cur := cur s + 1\<rparr>"
  have i: "vsf_eda_sync_increase s k = Option.bind (sync_increase_loop (manual_rst s) ?s k) (\<lambda>(s, k). Some (VSF_ERR_NONE, s, k))"
    using o c S
    by (simp add: vsf_eda_sync_increase_def vsf_eda_sync_increase_ex_def p_vsf_eda_sync_increase_ex_def sync_ok_def)
  have d: "null \<notin> set (pending_list s)" "distinct (pending_list s)" using S by (auto simp: sync_ok_def)
  consider (none) "pending_list s = []" | (manual) "manual_rst s" | (auto) p ps where "pending_list s = p # ps" "\<not> manual_rst s"
    by (metis list.exhaust)
  then show ?thesis
  proof cases
    case none
    then show ?thesis using i K S c by (auto simp: increase_loop_stop served_def sync_ok_def)
  next
    case manual
    have "length (pending_list s) \<le> node_cnt k" using n manual by (simp add: served_def)
    from ipc.wake_all_law [OF K d this, of VSF_EVT_SYNC] obtain k' where
      w: "wake_all (wake VSF_EVT_SYNC) (pending_list s) k = Some k'" "evtq_ok N k'"
        "edas k' = (\<lambda>p. if p \<in> set (pending_list s) then woken VSF_EVT_SYNC (edas k p) else edas k p)" by blast
    have "sync_increase_loop (manual_rst s) ?s k = Some (?s\<lparr>pending_list := []\<rparr>, k')"
      using increase_loop_manual [OF K, of ?s] manual o d \<open>length (pending_list s) \<le> node_cnt k\<close> w(1) by simp
    moreover have "sync_ok (?s\<lparr>pending_list := []\<rparr>) k'" using S c by (simp add: sync_ok_def)
    ultimately show ?thesis using i manual w by (simp add: served_def)
  next
    case (auto p ps)
    then have p: "p \<noteq> null" "0 < node_cnt k" "cur s = 0" "served s = [p]"
      using S n by (auto simp: sync_ok_def served_def)
    from ipc.wake_law [OF K p(1,2), of VSF_EVT_SYNC] obtain k' where
      w: "wake VSF_EVT_SYNC p k = Some k'" "evtq_ok N k'" "edas k' = (edas k)(p := woken VSF_EVT_SYNC (edas k p))" by auto
    have "sync_increase_loop False ?s k = Some (s\<lparr>pending_list := ps\<rparr>, k')"
      using increase_loop_step [OF K p(2), of ?s p ps k' False] auto p w o
      by (cases s) (simp add: increase_loop_stop)
    then show ?thesis using i auto p w S by (auto simp: sync_ok_def)
  qed
qed

lemma set_timeout_ok:
  assumes K: "evtq_ok N k" and p: "p \<noteq> null"
  shows "\<exists>k'. p_vsf_eda_sync_set_timeout p timeout k = Some (p, k') \<and> evtq_ok N k' \<and> evts k' = evts k
    \<and> (\<forall>x. is_sync_got (edas k' x) = is_sync_got (edas k x) \<and> cur_priority (edas k' x) = cur_priority (edas k x)
         \<and> is_new_prio (edas k' x) = is_new_prio (edas k x) \<and> new_priority (edas k' x) = new_priority (edas k x))
    \<and> evtqs k' = evtqs k
    \<and> (0 < timeout \<longrightarrow> is_to_set_due (edas k' p) \<and> is_limitted (edas k' p)
         \<and> due (edas k' p) = fst (vsf_systimer_get (systimer k)) + nat timeout)"
proof (cases "0 < timeout")
  case False
  then show ?thesis using K p by (simp add: p_vsf_eda_sync_set_timeout_def p_vsf_eda_get_valid_eda_def)
next
  case True
  obtain n t where g: "vsf_systimer_get (systimer k) = (n, t)" by fastforce
  let ?k = "upd_eda p (\<lambda>e. e\<lparr>is_limitted := True, is_to_set_due := True, due := n + nat timeout\<rparr>) (k\<lparr>systimer := t\<rparr>)"
  have "p_vsf_eda_sync_set_timeout p timeout k = Some (p, ?k)"
    using True p g by (simp add: p_vsf_eda_sync_set_timeout_def p_vsf_eda_get_valid_eda_def vsf_systimer_get_tick_def upd_eda_def)
  moreover have "evtq_ok N ?k" by (rule evtq_ok_cong [OF K])
      (use K in \<open>auto simp: evts_def evtq_ok_def prio_ok_def fun_eq_iff split: if_splits\<close>)
  moreover have "evts ?k = evts k" by (auto simp: evts_def)
  ultimately show ?thesis using True g by auto
qed

lemma valid_eda [simp]: "p \<noteq> null \<Longrightarrow> p_vsf_eda_get_valid_eda p k = p"
  by (simp add: p_vsf_eda_get_valid_eda_def)

lemma pend_ok:
  assumes K: "evtq_ok N k" and S: "sync_ok s k" "cur s = 0" and p: "p \<noteq> null" "p \<notin> set (pending_list s)" "\<not> is_sync_got (edas k p)"
  shows "\<exists>k'. p_vsf_eda_sync_pend s p timeout k = Some (s\<lparr>pending_list := pending_list s @ [p]\<rparr>, k') \<and> evtq_ok N k'
    \<and> sync_ok (s\<lparr>pending_list := pending_list s @ [p]\<rparr>) k' \<and> evts k' = evts k
    \<and> (0 < timeout \<longrightarrow> is_to_set_due (edas k' p) \<and> is_limitted (edas k' p)
         \<and> due (edas k' p) = fst (vsf_systimer_get (systimer k)) + nat timeout)"
proof -
  from set_timeout_ok [OF K p(1), of timeout] obtain k' where k': "p_vsf_eda_sync_set_timeout p timeout k = Some (p, k')"
    "evtq_ok N k'" "evts k' = evts k" "\<And>x. is_sync_got (edas k' x) = is_sync_got (edas k x)"
    "0 < timeout \<longrightarrow> is_to_set_due (edas k' p) \<and> is_limitted (edas k' p)
       \<and> due (edas k' p) = fst (vsf_systimer_get (systimer k)) + nat timeout"
    by blast
  then show ?thesis using S p by (auto simp: p_vsf_eda_sync_pend_def dlq_enqueue_def sync_ok_def)
qed

section \<open>Mutexes\<close>

text \<open>A mutex has an owner exactly while it is taken.\<close>

definition mutex_ok :: "vsf_sync_t \<Rightarrow> 'a kernel_scheme \<Rightarrow> bool" where
  "mutex_ok s k \<longleftrightarrow> sync_ok s k \<and> has_owner s \<and> \<not> manual_rst s \<and> max_cnt s = 1 \<and> (eda_owner s = null \<longleftrightarrow> cur s = 1)"

text \<open>A deferred change of the priority of a task at its own priority is an inherited one.\<close>

definition boost_ok :: "vsf_eda_t \<Rightarrow> bool" where
  "boost_ok e \<longleftrightarrow> (is_new_prio e \<longrightarrow> cur_priority e = priority e \<longrightarrow> priority e < new_priority e)"

lemma set_priority_got:
  assumes "p_vsf_eda_set_priority p prio k = Some k'"
  shows "is_sync_got (edas k' x) = is_sync_got (edas k x)"
  using assms
  by (auto simp: p_vsf_eda_set_priority_def p_vsf_eda_update_priotiry_def p_vsf_os_evtq_get_def p_vsf_os_evtq_activate_def
      p_vsf_os_evtq_set_priority_def evtq_remove_def evtq_enqueue_def Let_def split: if_splits bind_splits)

lemma restore_priority_ok:
  assumes K: "evtq_ok N k" and p: "p \<noteq> null" "priority (edas k p) < length (evtqs k)" "boost_ok (edas k p)"
  shows "\<exists>k'. sync_restore_priority p k = Some k' \<and> evtq_ok N k' \<and> evts k' = evts k
    \<and> p_vsf_eda_get_cur_priority p k' = priority (edas k p) \<and> (\<forall>x. is_sync_got (edas k' x) = is_sync_got (edas k x))"
proof -
  let ?b = "priority (edas k p)"
  consider (moved) "cur_priority (edas k p) \<noteq> ?b" | (deferred) "cur_priority (edas k p) = ?b" "is_new_prio (edas k p)"
    | (same) "cur_priority (edas k p) = ?b" "\<not> is_new_prio (edas k p)" by blast
  then show ?thesis
  proof cases
    case moved
    then show ?thesis using set_priority_ok [OF K p(1,2)] p(1) set_priority_got by (fastforce simp: sync_restore_priority_def)
  next
    case deferred
    let ?k = "(upd_eda p (\<lambda>e. e\<lparr>is_new_prio := False\<rparr>) k)\<lparr>swi_prio := (swi_prio k)(?b := ?b)\<rparr>"
    have f: "swi_prio (upd_eda p f k) = swi_prio k" for f by (simp add: upd_eda_def)
    have "sync_restore_priority p k = Some ?k"
      using deferred p by (simp add: sync_restore_priority_def boost_ok_def p_vsf_os_evtq_get_def p_vsf_os_evtq_set_priority_def f)
    moreover have "evtq_ok N ?k" by (rule evtq_ok_cong [OF K])
        (use K in \<open>auto simp: evts_def evtq_ok_def prio_ok_def fun_eq_iff split: if_splits\<close>)
    moreover have "evts ?k = evts k" by (auto simp: evts_def)
    ultimately show ?thesis using deferred by (simp add: p_vsf_eda_get_cur_priority_def)
  next
    case same
    then show ?thesis using K p by (simp add: sync_restore_priority_def p_vsf_eda_get_cur_priority_def)
  qed
qed

lemma nodes_same: "evtq_ok N k \<Longrightarrow> evtq_ok N k' \<Longrightarrow> evts k' = evts k \<Longrightarrow> node_cnt k' = node_cnt k"
  by (simp add: evtq_ok_def nodes_ok_def)

lemma dlq_insert_set:
  assumes "x \<notin> set xs"
  obtains ys where "dlq_insert P x xs = Some ys" "set ys = insert x (set xs)" "distinct xs \<longrightarrow> distinct ys"
proof -
  define us vs where "us = takeWhile (\<lambda>y. \<not> P y) xs" and "vs = dropWhile (\<lambda>y. \<not> P y) xs"
  have xs: "xs = us @ vs" by (simp add: us_def vs_def)
  have "dlq_insert P x xs = Some (us @ x # vs)" using assms by (simp add: dlq_insert_def us_def vs_def)
  moreover have "set (us @ x # vs) = insert x (set xs)" "distinct xs \<longrightarrow> distinct (us @ x # vs)" using assms xs by auto
  ultimately show ?thesis using that by blast
qed

text \<open>Leaving a mutex: it goes to the first task that waits, or becomes free.\<close>

lemma mutex_leave_ok:
  assumes K: "evtq_ok N k" "0 < node_cnt k" and M: "mutex_ok s k" "cur s = 0"
    and p: "p \<noteq> null" "priority (edas k p) < length (evtqs k)" "boost_ok (edas k p)" "p \<notin> set (pending_list s)"
  shows "\<exists>s' k'. vsf_eda_sync_increase_ex s p k = Some (VSF_ERR_NONE, s', k') \<and> evtq_ok N k' \<and> mutex_ok s' k'
    \<and> p_vsf_eda_get_cur_priority p k' = priority (edas k p)
    \<and> (case pending_list s of
         [] \<Rightarrow> eda_owner s' = null \<and> pending_list s' = [] \<and> evts k' = evts k
       | q # ps \<Rightarrow> eda_owner s' = q \<and> pending_list s' = ps \<and> evts k' = (evts k)(q := evts k q @ [(VSF_EVT_SYNC, null)]))"
proof -
  from restore_priority_ok [OF K(1) p(1-3)] obtain k1 where k1: "sync_restore_priority p k = Some k1" "evtq_ok N k1"
    "evts k1 = evts k" "p_vsf_eda_get_cur_priority p k1 = priority (edas k p)" "\<And>x. is_sync_got (edas k1 x) = is_sync_got (edas k x)"
    by blast
  let ?s = "s\<lparr>cur := 1, eda_owner := null\<rparr>"
  have h: "has_owner s" "\<not> manual_rst s" "max_cnt s = 1" using M(1) by (auto simp: mutex_ok_def)
  have n: "0 < node_cnt k1" using nodes_same [OF K(1) k1(2,3)] K(2) by simp
  have i: "vsf_eda_sync_increase_ex s p k = Option.bind (sync_increase_loop False ?s k1) (\<lambda>(s, k). Some (VSF_ERR_NONE, s, k))"
    using h M(2) k1(1) p(1) by (simp add: vsf_eda_sync_increase_ex_def p_vsf_eda_sync_increase_ex_def)
  show ?thesis
  proof (cases "pending_list s")
    case Nil
    then have "sync_increase_loop False ?s k1 = Some (?s, k1)" by (simp add: increase_loop_stop)
    moreover have "mutex_ok ?s k1" using M h Nil by (simp add: mutex_ok_def sync_ok_def)
    ultimately show ?thesis using i k1 Nil by simp
  next
    case (Cons q ps)
    have q: "q \<noteq> null" "q \<noteq> p" "distinct (q # ps)" "null \<notin> set ps" "\<forall>x \<in> set (q # ps). \<not> is_sync_got (edas k x)"
      using M(1) Cons p(4) by (auto simp: mutex_ok_def sync_ok_def)
    from ipc.wake_law [OF k1(2) q(1) n, of VSF_EVT_SYNC] obtain k' where w: "wake VSF_EVT_SYNC q k1 = Some k'" "evtq_ok N k'"
      "edas k' = (edas k1)(q := woken VSF_EVT_SYNC (edas k1 q))" by auto
    let ?s' = "s\<lparr>cur := 0, pending_list := ps, eda_owner := q\<rparr>"
    have "sync_increase_loop False ?s k1 = Some (?s', k')"
      using increase_loop_step [OF k1(2) n, of ?s q ps k' False] Cons q w(1) h
      by (cases s) (simp add: increase_loop_stop)
    moreover have "mutex_ok ?s' k'" using M h q w(3) k1(5) by (auto simp: mutex_ok_def sync_ok_def)
    moreover have "p_vsf_eda_get_cur_priority p k' = priority (edas k p)"
      using k1(4) q(2) w(3) by (auto simp: p_vsf_eda_get_cur_priority_def split: if_splits)
    moreover have "evts k' = (evts k)(q := evts k q @ [(VSF_EVT_SYNC, null)])"
      unfolding k1(3) [symmetric] using w(3) by (auto simp: evts_def)
    ultimately show ?thesis using i w(2) Cons by simp
  qed
qed

text \<open>Entering a mutex that is taken: the task waits before those of lower priority, and the owner inherits its priority.\<close>

lemma mutex_wait_ok:
  assumes K: "evtq_ok N k" and M: "mutex_ok s k" "cur s = 0" and t: "timeout \<noteq> 0"
    and p: "p \<noteq> null" "p \<notin> set (pending_list s)" "\<not> is_sync_got (edas k p)"
  shows "\<exists>s' k'. vsf_eda_sync_decrease_ex s timeout p k = Some (VSF_ERR_NOT_READY, s', k') \<and> evtq_ok N k' \<and> mutex_ok s' k'
    \<and> evts k' = evts k \<and> eda_owner s' = eda_owner s
    \<and> dlq_insert (\<lambda>x. cur_priority (edas k x) < p_vsf_eda_get_cur_priority p k) p (pending_list s) = Some (pending_list s')
    \<and> (cur_priority (edas k (eda_owner s)) < cur_priority (edas k p)
       \<longrightarrow> p_vsf_eda_get_cur_priority (eda_owner s) k' = cur_priority (edas k p))"
proof -
  have h: "has_owner s" "eda_owner s \<noteq> null" "\<not> manual_rst s" using M by (auto simp: mutex_ok_def)
  let ?P = "\<lambda>x. cur_priority (edas k x) < p_vsf_eda_get_cur_priority p k"
  obtain xs where ins: "dlq_insert ?P p (pending_list s) = Some xs" and xs: "set xs = insert p (set (pending_list s))" "distinct xs"
    using dlq_insert_set [OF p(2), of ?P] M(1) by (auto simp: mutex_ok_def sync_ok_def)
  from set_timeout_ok [OF K p(1), of timeout] obtain k1 where k1: "p_vsf_eda_sync_set_timeout p timeout k = Some (p, k1)"
    "evtq_ok N k1" "evts k1 = evts k" "\<And>x. is_sync_got (edas k1 x) = is_sync_got (edas k x)"
    "\<And>x. cur_priority (edas k1 x) = cur_priority (edas k x)" "evtqs k1 = evtqs k" by blast
  let ?s = "s\<lparr>pending_list := xs\<rparr>" and ?o = "eda_owner s"
  have m: "mutex_ok ?s k'" if "\<And>x. is_sync_got (edas k' x) = is_sync_got (edas k x)" for k'
    using M p xs that by (auto simp: mutex_ok_def sync_ok_def)
  show ?thesis
  proof (cases "cur_priority (edas k ?o) < cur_priority (edas k p)")
    case False
    then have "vsf_eda_sync_decrease_ex s timeout p k = Some (VSF_ERR_NOT_READY, ?s, k1)"
      using h M(2) t p ins k1(1,5) by (simp add: vsf_eda_sync_decrease_ex_def p_vsf_eda_sync_decrease_ex_def)
    then show ?thesis using False k1 m [of k1] ins by simp
  next
    case True
    have l: "cur_priority (edas k p) < length (evtqs k1)" using evtq_okD(1) [OF K] k1(6) by simp
    have ne: "cur_priority (edas k p) \<noteq> cur_priority (edas k1 ?o)" using True k1(5) by simp
    from set_priority_ok [OF k1(2) h(2) l] ne obtain k' where k': "p_vsf_eda_set_priority ?o (cur_priority (edas k p)) k1 = Some k'"
      "evtq_ok N k'" "evts k' = evts k1" "p_vsf_eda_get_cur_priority ?o k' = cur_priority (edas k p)" by blast
    then have "vsf_eda_sync_decrease_ex s timeout p k = Some (VSF_ERR_NOT_READY, ?s, k')"
      using True h M(2) t p ins k1(1,5) by (simp add: vsf_eda_sync_decrease_ex_def p_vsf_eda_sync_decrease_ex_def)
    moreover have "mutex_ok ?s k'" by (rule m) (simp add: set_priority_got [OF k'(1)] k1(4))
    ultimately show ?thesis using k' k1(3) ins by simp
  qed
qed

section \<open>Properties\<close>

definition sync_example :: vsf_sync_t where
  "sync_example = \<lparr>cur = 0, has_owner = False, max_cnt = 2, manual_rst = False, pending_list = [200, 100], eda_owner = null\<rparr>"

definition mutex_example :: vsf_sync_t where
  "mutex_example = \<lparr>cur = 0, has_owner = True, max_cnt = 1, manual_rst = False, pending_list = [200], eda_owner = 300\<rparr>"

lemma sync_examples_ok:
  "sync_ok sync_example (kernel_example m)" "mutex_ok mutex_example (kernel_example m)"
  "edas (kernel_example m) 300 = idle_eda" "length (evtqs (kernel_example m)) = 2" "node_cnt (kernel_example m) = 16"
  by (simp_all add: sync_ok_def mutex_ok_def sync_example_def mutex_example_def kernel_example_def idle_eda_def)

text \<open>
  C16. Increasing an object without an owner: at its maximum it reports an overrun and nothing changes.
  Otherwise the first task that waits gets the object (every waiting task, for an object with manual
  reset): it gets \<open>VSF_EVT_SYNC\<close> behind its events and is marked as served, and the tasks behind it keep
  waiting in their order. The count grows only when no task takes the unit, or with manual reset.
\<close>

theorem sync_increase_spec:
  assumes "evtq_ok N k" "sync_ok s k" "\<not> has_owner s" "length (served s) \<le> node_cnt k"
  shows "if cur s = max_cnt s then vsf_eda_sync_increase s k = Some (VSF_ERR_OVERRUN, s, k)
    else \<exists>s' k'. vsf_eda_sync_increase s k = Some (VSF_ERR_NONE, s', k') \<and> evtq_ok N k' \<and> sync_ok s' k'
      \<and> pending_list s = served s @ pending_list s'
      \<and> cur s' = (if manual_rst s \<or> pending_list s = [] then cur s + 1 else cur s)
      \<and> (\<forall>p. evts k' p = evts k p @ (if p \<in> set (served s) then [(VSF_EVT_SYNC, null)] else []))
      \<and> (\<forall>p \<in> set (served s). is_sync_got (edas k' p))"
proof (cases "cur s = max_cnt s")
  case True
  then show ?thesis by (simp add: vsf_eda_sync_increase_def vsf_eda_sync_increase_ex_def p_vsf_eda_sync_increase_ex_def)
next
  case False
  with assms(2) have c: "cur s < max_cnt s" by (simp add: sync_ok_def)
  have "pending_list s = served s @ drop (length (served s)) (pending_list s)" by (cases "pending_list s") (simp_all add: served_def)
  with increase_ok [OF assms(1-3) c assms(4)] False show ?thesis by (fastforce simp: evts_def)
qed

theorem sync_increase_spec_witness:
  "\<exists>s' k'. vsf_eda_sync_increase sync_example (kernel_example ()) = Some (VSF_ERR_NONE, s', k')
    \<and> pending_list s' = [100] \<and> evts k' 200 = [(VSF_EVT_SYNC, null)]"
  using sync_increase_spec [OF kernel_example_ok [of "()"] sync_examples_ok(1)]
  by (auto simp: sync_example_def served_def sync_examples_ok(5) evts_def kernel_example_def idle_eda_def)

text \<open>
  Decreasing an object without an owner: a unit that is there is taken (or left, with manual
  reset). Otherwise the answer is \<open>VSF_ERR_NOT_READY\<close>: with the timeout 0 nothing changes, with another
  timeout the task waits behind the others, and with a positive one it is limited to one event and its
  timer is to be set for the time now plus the timeout.
\<close>

theorem sync_decrease_spec:
  assumes "evtq_ok N k" "sync_ok s k" "\<not> has_owner s" "p \<noteq> null" "p \<notin> set (pending_list s)" "\<not> is_sync_got (edas k p)"
  shows "if 0 < cur s
    then vsf_eda_sync_decrease_ex s timeout p k =
      Some (VSF_ERR_NONE, s\<lparr>cur := (if manual_rst s then cur s else cur s - 1)\<rparr>, k)
    else if timeout = 0 then vsf_eda_sync_decrease_ex s timeout p k = Some (VSF_ERR_NOT_READY, s, k)
    else \<exists>s' k'. vsf_eda_sync_decrease_ex s timeout p k = Some (VSF_ERR_NOT_READY, s', k') \<and> evtq_ok N k' \<and> sync_ok s' k'
      \<and> s' = s\<lparr>pending_list := pending_list s @ [p]\<rparr> \<and> evts k' = evts k
      \<and> (0 < timeout \<longrightarrow> is_to_set_due (edas k' p) \<and> is_limitted (edas k' p)
           \<and> due (edas k' p) = fst (vsf_systimer_get (systimer k)) + nat timeout)"
proof (cases "0 < cur s")
  case True
  then have "pending_list s = []" using assms(2) by (simp add: sync_ok_def)
  then show ?thesis using True assms(3)
    by (cases s) (simp add: vsf_eda_sync_decrease_ex_def p_vsf_eda_sync_decrease_ex_def)
next
  case False
  then show ?thesis using pend_ok [OF assms(1,2) _ assms(4-6), of timeout] assms(3,4)
    by (auto simp: vsf_eda_sync_decrease_ex_def p_vsf_eda_sync_decrease_ex_def)
qed

theorem sync_decrease_spec_witness:
  "\<exists>k'. vsf_eda_sync_decrease_ex sync_example 7 300 (kernel_example ()) =
      Some (VSF_ERR_NOT_READY, sync_example\<lparr>pending_list := [200, 100, 300]\<rparr>, k')
    \<and> due (edas k' 300) = fst (vsf_systimer_get systimer_example) + 7"
  using sync_decrease_spec [OF kernel_example_ok [of "()"] sync_examples_ok(1), of 300 7]
  by (auto simp: sync_example_def sync_examples_ok(3) idle_eda_def) (auto simp: kernel_example_def)





text \<open>Cancelling: every task that waits gets \<open>VSF_EVT_SYNC_CANCEL\<close> once, and none waits any longer.\<close>

lemma sync_cancel_spec:
  assumes "evtq_ok N k" "sync_ok s k" "length (pending_list s) \<le> node_cnt k"
  shows "\<exists>k'. vsf_eda_sync_cancel s k = Some (s\<lparr>pending_list := []\<rparr>, k') \<and> evtq_ok N k'
    \<and> (\<forall>p. evts k' p = evts k p @ (if p \<in> set (pending_list s) then [(VSF_EVT_SYNC_CANCEL, null)] else []))"
proof -
  have d: "null \<notin> set (pending_list s)" "distinct (pending_list s)" using assms(2) by (auto simp: sync_ok_def)
  from ipc.wake_all_law [OF assms(1) d assms(3), of VSF_EVT_SYNC_CANCEL] cancel_eq [OF assms(1) d assms(3)]
  show ?thesis by (auto simp: evts_def)
qed

end
