(* ===== verification/VSF_Eda_Queue.thy ===== *)
theory VSF_Eda_Queue
  imports VSF_Sync
begin

text \<open>
  The queue of the kernel, \<open>src/source/kernel/__eda/vsf_eda_queue.c\<close>, with its interrupt functions and
  one sender at a time (\<open>VSF_KERNEL_CFG_QUEUE_MULTI_TX_EN\<close> is not defined anywhere), and the backend of
  \<open>vsf_eda_slist_queue.c\<close>. The functions of the backend are members of the queue.
\<close>

section \<open>Data\<close>

text \<open>
  The results of \<open>op.enqueue\<close> and \<open>op.dequeue\<close> are not used by the queue; \<open>dequeue\<close> also gives the node
  that it stores in its argument.
\<close>

record 'b vsf_eda_queue_op_t =
  op_enqueue :: "ptr \<Rightarrow> 'b \<Rightarrow> 'b"
  op_dequeue :: "'b \<Rightarrow> ptr \<times> 'b"

record 'b vsf_eda_queue_t =
  use_as_sync :: vsf_sync_t
  queue_op :: "'b vsf_eda_queue_op_t"
  eda_rx :: ptr
  readable_cnt :: nat
  backend :: 'b

text \<open>The 16 bits of \<open>cur_union\<close> and of \<open>max_union\<close>.\<close>

definition cur_value :: "'b vsf_eda_queue_t \<Rightarrow> nat" where
  "cur_value q = cur (use_as_sync q) + (if has_owner (use_as_sync q) then 2 ^ 15 else 0)"

definition max_value :: "'b vsf_eda_queue_t \<Rightarrow> nat" where
  "max_value q = max_cnt (use_as_sync q) + (if manual_rst (use_as_sync q) then 2 ^ 15 else 0)"

definition set_cur_value :: "nat \<Rightarrow> 'b vsf_eda_queue_t \<Rightarrow> 'b vsf_eda_queue_t" where
  "set_cur_value n q =
     q\<lparr>use_as_sync := (use_as_sync q)\<lparr>cur := n mod 2 ^ 15, has_owner := odd (n div 2 ^ 15)\<rparr>\<rparr>"

text \<open>
  \<open>eda_tx\<close> is in a union with \<open>vsf_sync_t\<close> and overlaps the head of \<open>pending_list\<close>: it is the address of the
  list node inside of the first task that waits, \<open>on_terminate\<close>, \<open>fn\<close> and \<open>return_value\<close> behind its start.
\<close>

definition eda_tx :: "'b vsf_eda_queue_t \<Rightarrow> ptr" where
  "eda_tx q = (case pending_list (use_as_sync q) of [] \<Rightarrow> null | p # _ \<Rightarrow> p + 12)"

section \<open>Operations\<close>

definition p_vsf_eda_queue_dequeue :: "'b vsf_eda_queue_t \<Rightarrow> ptr option \<times> 'b vsf_eda_queue_t" where
  "p_vsf_eda_queue_dequeue q =
     (if 0 < readable_cnt q
      then let q = q\<lparr>readable_cnt := readable_cnt q - 1\<rparr>;
               q = set_cur_value ((cur_value q + 65535) mod 2 ^ 16) q;
               (node, b) = op_dequeue (queue_op q) (backend q)
           in (Some node, q\<lparr>backend := b\<rparr>)
      else (None, q))"

definition p_vsf_eda_queue_enqueue :: "ptr \<Rightarrow> bool \<Rightarrow> 'b vsf_eda_queue_t \<Rightarrow> bool \<times> 'b vsf_eda_queue_t" where
  "p_vsf_eda_queue_enqueue node readable q =
     (if cur_value q < max_value q
      then let q = set_cur_value (cur_value q + 1) q;
               q = (if readable then q\<lparr>readable_cnt := (readable_cnt q + 1) mod 2 ^ 16\<rparr> else q)
           in (True, q\<lparr>backend := op_enqueue (queue_op q) node (backend q)\<rparr>)
      else (False, q))"

text \<open>
  For \<open>tx\<close> the pointer to the list node is used as a pointer to a task: the store to its flags goes to
  another place of the task, which ends the model.
\<close>

definition p_vsf_eda_queue_notify ::
  "bool \<Rightarrow> 'b vsf_eda_queue_t \<Rightarrow> 'a kernel_scheme \<Rightarrow> ('b vsf_eda_queue_t \<times> 'a kernel_scheme) option" where
  "p_vsf_eda_queue_notify tx q k =
     (let eda = (if tx then eda_tx q else eda_rx q)
      in if eda \<noteq> null
         then if tx then None
              else do {
                let q = q\<lparr>eda_rx := null\<rparr>;
                let k = upd_eda eda (\<lambda>e. e\<lparr>is_sync_got := True\<rparr>) k;
                (_, k) \<leftarrow> vsf_evtq_post_evt_ex eda VSF_EVT_SYNC True k;
                Some (q, k)}
         else Some (q, k))"

definition vsf_eda_queue_init :: "nat \<Rightarrow> 'b vsf_eda_queue_t \<Rightarrow> 'b vsf_eda_queue_t option" where
  "vsf_eda_queue_init max_v q =
     (if max_v = 0 then None
      else Some (q\<lparr>eda_rx := null, readable_cnt := 0, use_as_sync := vsf_eda_sync_init 0 max_v (use_as_sync q)\<rparr>))"

text \<open>What a send does after its first protected region.\<close>

definition queue_send_finish ::
  "bool \<Rightarrow> int \<Rightarrow> ptr \<Rightarrow> 'b vsf_eda_queue_t \<Rightarrow> 'a kernel_scheme \<Rightarrow> (vsf_err_t \<times> 'b vsf_eda_queue_t \<times> 'a kernel_scheme) option" where
  "queue_send_finish is_enqueued timeout eda q k =
     (if is_enqueued
      then do {
        (q, k) \<leftarrow> p_vsf_eda_queue_notify False q k;
        Some (VSF_ERR_NONE, q, k)}
      else if timeout \<noteq> 0
      then do {
        (sync, k) \<leftarrow> p_vsf_eda_sync_pend (use_as_sync q) eda timeout k;
        Some (VSF_ERR_NOT_READY, q\<lparr>use_as_sync := sync\<rparr>, k)}
      else Some (VSF_ERR_NOT_READY, q, k))"

definition vsf_eda_queue_send_ex ::
  "ptr \<Rightarrow> int \<Rightarrow> ptr \<Rightarrow> 'b vsf_eda_queue_t \<Rightarrow> 'a kernel_scheme \<Rightarrow> (vsf_err_t \<times> 'b vsf_eda_queue_t \<times> 'a kernel_scheme) option" where
  "vsf_eda_queue_send_ex node timeout eda q k =
     (if node = null then None
      else let (is_enqueued, q) = p_vsf_eda_queue_enqueue node True q
           in queue_send_finish is_enqueued timeout eda q k)"

definition vsf_eda_queue_send ::
  "ptr \<Rightarrow> int \<Rightarrow> 'b vsf_eda_queue_t \<Rightarrow> 'a kernel_scheme \<Rightarrow> (vsf_err_t \<times> 'b vsf_eda_queue_t \<times> 'a kernel_scheme) option" where
  "vsf_eda_queue_send node timeout q k = vsf_eda_queue_send_ex node timeout null q k"

definition vsf_eda_queue_send_get_reason ::
  "vsf_evt_t \<Rightarrow> ptr \<Rightarrow> 'b vsf_eda_queue_t \<Rightarrow> 'a kernel_scheme \<Rightarrow>
   (vsf_sync_reason_t \<times> 'b vsf_eda_queue_t \<times> 'a kernel_scheme) option" where
  "vsf_eda_queue_send_get_reason evt node q k = do {
     (reason, sync, k) \<leftarrow> vsf_eda_sync_get_reason (use_as_sync q) evt k;
     let q = q\<lparr>use_as_sync := sync\<rparr>;
     (if reason = VSF_SYNC_GET
      then let (is_enqueued, q) = p_vsf_eda_queue_enqueue node True q
           in if is_enqueued
              then do {
                (q, k) \<leftarrow> p_vsf_eda_queue_notify False q k;
                Some (reason, q, k)}
              else None
      else Some (reason, q, k))}"

text \<open>What a receive does after its first protected region; the node is the result besides the error.\<close>

definition queue_recv_finish ::
  "ptr option \<Rightarrow> int \<Rightarrow> ptr \<Rightarrow> 'b vsf_eda_queue_t \<Rightarrow> 'a kernel_scheme \<Rightarrow>
   (vsf_err_t \<times> 'b vsf_eda_queue_t \<times> 'a kernel_scheme) option" where
  "queue_recv_finish dequeued timeout eda q k =
     (if dequeued \<noteq> None
      then do {
        (q, k) \<leftarrow> p_vsf_eda_queue_notify True q k;
        Some (VSF_ERR_NONE, q, k)}
      else if timeout \<noteq> 0
      then if eda_rx q \<noteq> null then None
           else do {
             (rx, k) \<leftarrow> p_vsf_eda_sync_set_timeout eda timeout k;
             Some (VSF_ERR_NOT_READY, q\<lparr>eda_rx := rx\<rparr>, k)}
      else Some (VSF_ERR_NOT_READY, q, k))"

definition vsf_eda_queue_recv_ex ::
  "int \<Rightarrow> ptr \<Rightarrow> 'b vsf_eda_queue_t \<Rightarrow> 'a kernel_scheme \<Rightarrow>
   (vsf_err_t \<times> ptr option \<times> 'b vsf_eda_queue_t \<times> 'a kernel_scheme) option" where
  "vsf_eda_queue_recv_ex timeout eda q k =
     (let (dequeued, q) = p_vsf_eda_queue_dequeue q
      in do {
        (err, q, k) \<leftarrow> queue_recv_finish dequeued timeout eda q k;
        Some (err, dequeued, q, k)})"

definition vsf_eda_queue_recv ::
  "int \<Rightarrow> 'b vsf_eda_queue_t \<Rightarrow> 'a kernel_scheme \<Rightarrow>
   (vsf_err_t \<times> ptr option \<times> 'b vsf_eda_queue_t \<times> 'a kernel_scheme) option" where
  "vsf_eda_queue_recv timeout q k = vsf_eda_queue_recv_ex timeout null q k"

definition vsf_eda_queue_recv_get_reason ::
  "vsf_evt_t \<Rightarrow> 'b vsf_eda_queue_t \<Rightarrow> 'a kernel_scheme \<Rightarrow>
   (vsf_sync_reason_t \<times> ptr option \<times> 'b vsf_eda_queue_t \<times> 'a kernel_scheme) option" where
  "vsf_eda_queue_recv_get_reason evt q k = do {
     (reason, sync, k) \<leftarrow> p_vsf_eda_sync_get_reason (use_as_sync q) evt False k;
     let q = q\<lparr>use_as_sync := sync\<rparr>;
     (if reason = VSF_SYNC_GET
      then let (dequeued, q) = p_vsf_eda_queue_dequeue q
           in if dequeued \<noteq> None
              then do {
                (q, k) \<leftarrow> p_vsf_eda_queue_notify True q k;
                Some (reason, dequeued, q, k)}
              else Some (VSF_SYNC_PENDING, None, q, k)
      else if reason = VSF_SYNC_TIMEOUT then Some (reason, None, q\<lparr>eda_rx := null\<rparr>, k)
      else Some (reason, None, q, k))}"

definition vsf_eda_queue_get_cnt :: "'b vsf_eda_queue_t \<Rightarrow> nat" where
  "vsf_eda_queue_get_cnt q = cur_value q"

definition vsf_eda_queue_cancel ::
  "'b vsf_eda_queue_t \<Rightarrow> 'a kernel_scheme \<Rightarrow> ('b vsf_eda_queue_t \<times> 'a kernel_scheme) option" where
  "vsf_eda_queue_cancel q k = do {
     (sync, k) \<leftarrow> vsf_eda_sync_cancel (use_as_sync q) k;
     let q = q\<lparr>use_as_sync := sync\<rparr>;
     (if eda_rx q \<noteq> null
      then do {
        let eda = eda_rx q;
        (_, k) \<leftarrow> p_vsf_eda_post_evt_ex eda VSF_EVT_SYNC_CANCEL True k;
        Some (q\<lparr>eda_rx := null\<rparr>, k)}
      else Some (q, k))}"

definition p_vsf_eda_queue_notify_for_isr ::
  "bool \<Rightarrow> 'b vsf_eda_queue_t \<Rightarrow> 'a kernel_scheme \<Rightarrow> ('b vsf_eda_queue_t \<times> 'a kernel_scheme) option" where
  "p_vsf_eda_queue_notify_for_isr tx q k =
     (let q = (if \<not> tx then q\<lparr>readable_cnt := (readable_cnt q + 1) mod 2 ^ 16\<rparr> else q)
      in p_vsf_eda_queue_notify tx q k)"

text \<open>The message to the kernel task is the address of the queue, \<open>pthis\<close>.\<close>

definition vsf_eda_queue_send_isr ::
  "ptr \<Rightarrow> ptr \<Rightarrow> 'b vsf_eda_queue_t \<Rightarrow> 'a kernel_scheme \<Rightarrow> (vsf_err_t \<times> 'b vsf_eda_queue_t \<times> 'a kernel_scheme) option" where
  "vsf_eda_queue_send_isr pthis node q k =
     (if node = null then None
      else let (is_enqueued, q) = p_vsf_eda_queue_enqueue node False q
           in if \<not> is_enqueued then Some (VSF_ERR_NOT_READY, q, k)
              else do {
                (err, k) \<leftarrow> vsf_eda_post_evt_msg (ktask k) VSF_KERNEL_EVT_QUEUE_SEND_NOTIFY pthis k;
                Some (err, q, k)})"

definition vsf_eda_queue_recv_isr ::
  "ptr \<Rightarrow> 'b vsf_eda_queue_t \<Rightarrow> 'a kernel_scheme \<Rightarrow> (vsf_err_t \<times> ptr option \<times> 'b vsf_eda_queue_t \<times> 'a kernel_scheme) option" where
  "vsf_eda_queue_recv_isr pthis q k =
     (let (dequeued, q) = p_vsf_eda_queue_dequeue q
      in if dequeued = None then Some (VSF_ERR_NOT_READY, None, q, k)
         else do {
           (err, k) \<leftarrow> vsf_eda_post_evt_msg (ktask k) VSF_KERNEL_EVT_QUEUE_RECV_NOTIFY pthis k;
           Some (err, dequeued, q, k)})"

section \<open>The singly linked backend\<close>

text \<open>\<open>sq_next\<close> holds the link of every node; a node and its link have the same address.\<close>

record slist_queue =
  sq_next :: "ptr \<Rightarrow> ptr"
  sq_head :: ptr
  sq_tail :: ptr

definition p_vsf_eda_slist_queue_enqueue :: "ptr \<Rightarrow> slist_queue \<Rightarrow> slist_queue" where
  "p_vsf_eda_slist_queue_enqueue node s =
     (let s = s\<lparr>sq_next := (sq_next s)(node := null)\<rparr>;
          host_tail = sq_tail s;
          s = s\<lparr>sq_tail := node\<rparr>
      in if host_tail \<noteq> null then s\<lparr>sq_next := (sq_next s)(host_tail := node)\<rparr> else s\<lparr>sq_head := node\<rparr>)"

definition p_vsf_eda_slist_queue_dequeue :: "slist_queue \<Rightarrow> ptr \<times> slist_queue" where
  "p_vsf_eda_slist_queue_dequeue s =
     (let node = sq_head s
      in if node \<noteq> null
         then let s = s\<lparr>sq_head := sq_next s node\<rparr>;
                  s = (if sq_head s = null then s\<lparr>sq_tail := null\<rparr> else s)
              in (node, s\<lparr>sq_next := (sq_next s)(node := null)\<rparr>)
         else (null, s))"

definition slist_queue_op :: "slist_queue vsf_eda_queue_op_t" where
  "slist_queue_op = \<lparr>op_enqueue = p_vsf_eda_slist_queue_enqueue, op_dequeue = p_vsf_eda_slist_queue_dequeue\<rparr>"

definition vsf_eda_slist_queue_init :: "nat \<Rightarrow> slist_queue vsf_eda_queue_t \<Rightarrow> slist_queue vsf_eda_queue_t option" where
  "vsf_eda_slist_queue_init max_v q =
     vsf_eda_queue_init max_v (q\<lparr>queue_op := slist_queue_op, backend := (backend q)\<lparr>sq_head := null, sq_tail := null\<rparr>\<rparr>)"

section \<open>The contract of a backend\<close>

text \<open>\<open>holds b xs\<close>: the backend \<open>b\<close> holds the nodes \<open>xs\<close>, the oldest first.\<close>

locale queue_backend =
  fixes op :: "'b vsf_eda_queue_op_t" and holds :: "'b \<Rightarrow> ptr list \<Rightarrow> bool"
  assumes enq_law: "holds b xs \<Longrightarrow> x \<noteq> null \<Longrightarrow> x \<notin> set xs \<Longrightarrow> holds (op_enqueue op x b) (xs @ [x])"
    and deq_law: "holds b (x # xs) \<Longrightarrow> \<exists>b'. op_dequeue op b = (x, b') \<and> holds b' xs"

text \<open>
  The queue holds \<open>xs\<close>: its count is the number of nodes, at most that many are readable, and a
  receiver waits only while none is.
\<close>

definition queue_core :: "('b \<Rightarrow> ptr list \<Rightarrow> bool) \<Rightarrow> 'b vsf_eda_queue_t \<Rightarrow> ptr list \<Rightarrow> bool" where
  "queue_core holds q xs \<longleftrightarrow> holds (backend q) xs \<and> cur_value q = length xs \<and> readable_cnt q \<le> length xs
     \<and> length xs \<le> max_value q \<and> max_value q < 2 ^ 16 \<and> pending_list (use_as_sync q) = []"

definition queue_ok :: "('b \<Rightarrow> ptr list \<Rightarrow> bool) \<Rightarrow> 'b vsf_eda_queue_t \<Rightarrow> ptr list \<Rightarrow> bool" where
  "queue_ok holds q xs \<longleftrightarrow> queue_core holds q xs \<and> (eda_rx q \<noteq> null \<longrightarrow> readable_cnt q = 0)"

lemma bits16: "m < 2 ^ 16 \<Longrightarrow> m mod 2 ^ 15 + (if odd (m div 2 ^ 15) then 2 ^ 15 else 0) = (m :: nat)"
proof (cases "m < 2 ^ 15")
  case False
  assume "m < 2 ^ 16"
  with False have "m div 2 ^ 15 = 1" "m mod 2 ^ 15 = m - 2 ^ 15" by (simp_all add: div_nat_eqI le_mod_geq)
  with False show ?thesis by simp
qed simp

lemma cur_value_set [simp]: "n < 2 ^ 16 \<Longrightarrow> cur_value (set_cur_value n q) = n"
  using bits16 [of n] by (simp add: cur_value_def set_cur_value_def)

lemma set_cur_value_fields [simp]:
  "max_value (set_cur_value n q) = max_value q" "queue_op (set_cur_value n q) = queue_op q"
  "eda_rx (set_cur_value n q) = eda_rx q" "readable_cnt (set_cur_value n q) = readable_cnt q"
  "backend (set_cur_value n q) = backend q" "pending_list (use_as_sync (set_cur_value n q)) = pending_list (use_as_sync q)"
  by (simp_all add: max_value_def set_cur_value_def)

lemma value_upd [simp]:
  "cur_value (q\<lparr>readable_cnt := n\<rparr>) = cur_value q" "cur_value (q\<lparr>backend := b\<rparr>) = cur_value q" "cur_value (q\<lparr>eda_rx := p\<rparr>) = cur_value q"
  "max_value (q\<lparr>readable_cnt := n\<rparr>) = max_value q" "max_value (q\<lparr>backend := b\<rparr>) = max_value q" "max_value (q\<lparr>eda_rx := p\<rparr>) = max_value q"
  by (simp_all add: cur_value_def max_value_def)

lemma core_rx [simp]: "queue_core holds (q\<lparr>eda_rx := p\<rparr>) xs = queue_core holds q xs"
  by (simp add: queue_core_def)

context queue_backend
begin

lemma enqueue_ok:
  assumes Q: "queue_core holds q xs" "queue_op q = op" and x: "x \<noteq> null" "x \<notin> set xs"
  shows "\<exists>q'. p_vsf_eda_queue_enqueue x r q = (length xs < max_value q, q') \<and> queue_op q' = op \<and> eda_rx q' = eda_rx q
    \<and> max_value q' = max_value q \<and> queue_core holds q' (if length xs < max_value q then xs @ [x] else xs)
    \<and> readable_cnt q' = (if length xs < max_value q \<and> r then readable_cnt q + 1 else readable_cnt q)"
  using Q enq_law [of "backend q" xs x] x by (auto simp: p_vsf_eda_queue_enqueue_def queue_core_def Let_def)

lemma dequeue_ok:
  assumes Q: "queue_core holds q xs" "queue_op q = op"
  shows "\<exists>q'. p_vsf_eda_queue_dequeue q = (if 0 < readable_cnt q then Some (hd xs) else None, q') \<and> queue_op q' = op
    \<and> eda_rx q' = eda_rx q \<and> max_value q' = max_value q \<and> queue_core holds q' (if 0 < readable_cnt q then tl xs else xs)
    \<and> readable_cnt q' = readable_cnt q - 1 \<and> (0 < readable_cnt q \<longrightarrow> xs \<noteq> [])"
proof (cases "0 < readable_cnt q")
  case False
  then show ?thesis using Q by (simp add: p_vsf_eda_queue_dequeue_def)
next
  case True
  then obtain y ys where xs: "xs = y # ys" using Q by (cases xs) (auto simp: queue_core_def)
  then have "holds (backend q) (y # ys)" using Q(1) by (simp add: queue_core_def)
  from deq_law [OF this] obtain b where b: "op_dequeue op (backend q) = (y, b)" "holds b ys" by blast
  have "(cur_value q + 65535) mod 65536 = length ys" using Q xs by (simp add: queue_core_def mod_if)
  then show ?thesis using True Q b xs by (auto simp: p_vsf_eda_queue_dequeue_def queue_core_def)
qed

lemma notify_rx_ok:
  assumes "queue_core holds q xs" "evtq_ok N k" "0 < node_cnt k"
  shows "\<exists>q' k'. p_vsf_eda_queue_notify False q k = Some (q', k') \<and> queue_ok holds q' xs \<and> evtq_ok N k' \<and> queue_op q' = queue_op q
    \<and> max_value q' = max_value q \<and> readable_cnt q' = readable_cnt q
    \<and> evts k' = (if eda_rx q = null then evts k else (evts k)(eda_rx q := evts k (eda_rx q) @ [(VSF_EVT_SYNC, null)]))"
proof (cases "eda_rx q = null")
  case True
  then show ?thesis using assms by (simp add: p_vsf_eda_queue_notify_def queue_ok_def)
next
  case False
  let ?k = "posted (eda_rx q) VSF_EVT_SYNC null (upd_eda (eda_rx q) (\<lambda>e. e\<lparr>is_sync_got := True\<rparr>) k)"
  note W = wake_eq [OF assms(2) False assms(3), of VSF_EVT_SYNC]
  have "p_vsf_eda_queue_notify False q k = Some (q\<lparr>eda_rx := null\<rparr>, ?k)"
    using False W(1) by (simp add: p_vsf_eda_queue_notify_def p_vsf_eda_post_evt_ex_def Let_def)
  moreover have "evts ?k = (evts k)(eda_rx q := evts k (eda_rx q) @ [(VSF_EVT_SYNC, null)])"
    using W(4) by (auto simp: evts_def)
  ultimately show ?thesis using assms(1) W(3) False by (simp add: queue_ok_def)
qed

lemma send_ok:
  assumes Q: "queue_ok holds q xs" "queue_op q = op" and K: "evtq_ok N k" "0 < node_cnt k" and x: "x \<noteq> null" "x \<notin> set xs"
  shows "if length xs < max_value q
    then \<exists>q' k'. vsf_eda_queue_send_ex x 0 eda q k = Some (VSF_ERR_NONE, q', k') \<and> queue_ok holds q' (xs @ [x])
      \<and> queue_op q' = op \<and> max_value q' = max_value q \<and> evtq_ok N k' \<and> readable_cnt q' = readable_cnt q + 1
      \<and> evts k' = (if eda_rx q = null then evts k else (evts k)(eda_rx q := evts k (eda_rx q) @ [(VSF_EVT_SYNC, null)]))
    else vsf_eda_queue_send_ex x 0 eda q k = Some (VSF_ERR_NOT_READY, q, k)"
proof (cases "length xs < max_value q")
  case True
  with enqueue_ok [OF _ Q(2) x, of True] Q(1) obtain q1 where q1: "p_vsf_eda_queue_enqueue x True q = (True, q1)"
    "queue_op q1 = op" "eda_rx q1 = eda_rx q" "max_value q1 = max_value q" "queue_core holds q1 (xs @ [x])"
    "readable_cnt q1 = readable_cnt q + 1"
    by (auto simp: queue_ok_def)
  from notify_rx_ok [OF q1(5) K] True q1 x show ?thesis
    by (auto simp: vsf_eda_queue_send_ex_def queue_send_finish_def)
next
  case False
  then show ?thesis using Q x
    by (simp add: vsf_eda_queue_send_ex_def p_vsf_eda_queue_enqueue_def queue_send_finish_def queue_ok_def queue_core_def)
qed

lemma recv_ok:
  assumes Q: "queue_ok holds q xs" "queue_op q = op" and K: "evtq_ok N k"
    and e: "timeout \<noteq> 0 \<Longrightarrow> readable_cnt q = 0 \<Longrightarrow> eda \<noteq> null \<and> eda_rx q = null"
  shows "\<exists>err q' k'. vsf_eda_queue_recv_ex timeout eda q k = Some (err, if 0 < readable_cnt q then Some (hd xs) else None, q', k')
    \<and> err = (if 0 < readable_cnt q then VSF_ERR_NONE else VSF_ERR_NOT_READY)
    \<and> queue_ok holds q' (if 0 < readable_cnt q then tl xs else xs) \<and> queue_op q' = op \<and> max_value q' = max_value q
    \<and> evtq_ok N k' \<and> evts k' = evts k \<and> (0 < readable_cnt q \<longrightarrow> xs \<noteq> [])
    \<and> (0 = readable_cnt q \<longrightarrow> timeout \<noteq> 0 \<longrightarrow> eda_rx q' = eda)"
proof -
  have "queue_core holds q xs" using Q(1) by (simp add: queue_ok_def)
  from dequeue_ok [OF this Q(2)] obtain q1 where q1: "p_vsf_eda_queue_dequeue q = (if 0 < readable_cnt q then Some (hd xs) else None, q1)"
    "queue_op q1 = op" "eda_rx q1 = eda_rx q" "max_value q1 = max_value q" "queue_core holds q1 (if 0 < readable_cnt q then tl xs else xs)"
    "readable_cnt q1 = readable_cnt q - 1" "0 < readable_cnt q \<longrightarrow> xs \<noteq> []" by (elim exE conjE) (rule that; assumption)
  show ?thesis
  proof (cases "0 < readable_cnt q")
    case True
    then have "eda_rx q = null" using Q(1) by (auto simp: queue_ok_def)
    then have "p_vsf_eda_queue_notify True q1 k = Some (q1, k)" "queue_ok holds q1 (tl xs)"
      using q1 True by (auto simp: p_vsf_eda_queue_notify_def eda_tx_def queue_core_def queue_ok_def)
    then show ?thesis using True q1 K by (simp add: vsf_eda_queue_recv_ex_def queue_recv_finish_def)
  next
    case False
    then have z: "queue_ok holds q1 xs" using q1 by (simp add: queue_ok_def)
    show ?thesis
    proof (cases "timeout = 0")
      case True
      then show ?thesis using False q1 K z by (simp add: vsf_eda_queue_recv_ex_def queue_recv_finish_def)
    next
      case t: False
      then have "eda \<noteq> null" using e False by blast
      from set_timeout_ok [OF K this, of timeout] obtain k' where "p_vsf_eda_sync_set_timeout eda timeout k = Some (eda, k')"
        "evtq_ok N k'" "evts k' = evts k" by blast
      then show ?thesis using t False q1 e z
        by (simp add: vsf_eda_queue_recv_ex_def queue_recv_finish_def queue_ok_def)
    qed
  qed
qed

lemma send_isr_ok:
  assumes Q: "queue_ok holds q xs" "queue_op q = op" and K: "evtq_ok N k" "0 < node_cnt k" "ktask_ok k" and x: "x \<noteq> null" "x \<notin> set xs"
  shows "if length xs < max_value q
    then \<exists>q' k'. vsf_eda_queue_send_isr pthis x q k = Some (VSF_ERR_NONE, q', k') \<and> queue_ok holds q' (xs @ [x])
      \<and> queue_op q' = op \<and> max_value q' = max_value q \<and> evtq_ok N k' \<and> ktask_ok k'
    else vsf_eda_queue_send_isr pthis x q k = Some (VSF_ERR_NOT_READY, q, k)"
proof (cases "length xs < max_value q")
  case True
  with enqueue_ok [OF _ Q(2) x, of False] Q(1) obtain q1 where q1: "p_vsf_eda_queue_enqueue x False q = (True, q1)"
    "queue_op q1 = op" "max_value q1 = max_value q" "queue_ok holds q1 (xs @ [x])"
    by (auto simp: queue_ok_def)
  moreover have "p_vsf_evtq_post (ktask k) VSF_KERNEL_EVT_QUEUE_SEND_NOTIFY pthis False k =
      Some (VSF_ERR_NONE, posted (ktask k) VSF_KERNEL_EVT_QUEUE_SEND_NOTIFY pthis k)"
    using post_eq [OF K(1) _ K(2)] K(3) by (simp add: ktask_ok_def)
  ultimately show ?thesis using True x K posted_ok [OF K(1) _ K(2)]
    by (simp add: vsf_eda_queue_send_isr_def vsf_eda_post_evt_msg_def vsf_evtq_post_evt_msg_def ktask_ok_def)
next
  case False
  then show ?thesis using Q x
    by (simp add: vsf_eda_queue_send_isr_def p_vsf_eda_queue_enqueue_def queue_ok_def queue_core_def)
qed

lemma notify_isr_ok:
  assumes Q: "queue_ok holds q xs" and r: "readable_cnt q < cur_value q" and K: "evtq_ok N k" "0 < node_cnt k"
  shows "\<exists>q' k'. p_vsf_eda_queue_notify_for_isr False q k = Some (q', k') \<and> queue_ok holds q' xs \<and> evtq_ok N k'
    \<and> queue_op q' = queue_op q \<and> max_value q' = max_value q"
proof -
  have "queue_core holds (q\<lparr>readable_cnt := (readable_cnt q + 1) mod 65536\<rparr>) xs"
    using Q r by (simp add: queue_ok_def queue_core_def)
  from notify_rx_ok [OF this K] show ?thesis by (auto simp: p_vsf_eda_queue_notify_for_isr_def)
qed

text \<open>A receive that is interrupted by a send between its two protected regions.\<close>

lemma lost_wakeup:
  assumes Q: "queue_ok holds q []" "queue_op q = op" "0 < max_value q" "eda_rx q = null" and K: "evtq_ok N k" "0 < node_cnt k"
    and x: "x \<noteq> null" "eda \<noteq> null" "timeout \<noteq> 0"
  shows "\<exists>q1 k1 q2 k2. p_vsf_eda_queue_dequeue q = (None, q) \<and> vsf_eda_queue_send_ex x 0 sender q k = Some (VSF_ERR_NONE, q1, k1)
    \<and> queue_recv_finish None timeout eda q1 k1 = Some (VSF_ERR_NOT_READY, q2, k2)
    \<and> eda_rx q2 = eda \<and> readable_cnt q2 = 1 \<and> evts k2 = evts k"
proof -
  have r: "readable_cnt q = 0" "queue_core holds q []" using Q(1) by (auto simp: queue_ok_def queue_core_def)
  from enqueue_ok [OF r(2) Q(2) x(1), of True] Q(3) r(1) obtain q1 where q1: "p_vsf_eda_queue_enqueue x True q = (True, q1)"
    "eda_rx q1 = eda_rx q" "readable_cnt q1 = 1" by auto
  then have s: "vsf_eda_queue_send_ex x 0 sender q k = Some (VSF_ERR_NONE, q1, k)"
    using x(1) Q(4) by (simp add: vsf_eda_queue_send_ex_def queue_send_finish_def p_vsf_eda_queue_notify_def)
  from set_timeout_ok [OF K(1) x(2), of timeout] obtain k2 where "p_vsf_eda_sync_set_timeout eda timeout k = Some (eda, k2)"
    "evts k2 = evts k" by blast
  then show ?thesis using r(1) s q1 Q(4) x(3)
    by (simp add: p_vsf_eda_queue_dequeue_def queue_recv_finish_def)
qed

end

section \<open>The singly linked backend fulfils the contract\<close>

fun sq_path :: "(ptr \<Rightarrow> ptr) \<Rightarrow> ptr \<Rightarrow> ptr list \<Rightarrow> bool" where
  "sq_path nx h [] \<longleftrightarrow> h = null"
| "sq_path nx h (x # xs) \<longleftrightarrow> h = x \<and> x \<noteq> null \<and> sq_path nx (nx x) xs"

definition sq_holds :: "slist_queue \<Rightarrow> ptr list \<Rightarrow> bool" where
  "sq_holds s xs \<longleftrightarrow> distinct xs \<and> sq_path (sq_next s) (sq_head s) xs \<and> sq_tail s = (if xs = [] then null else last xs)"

lemma sq_path_other: "x \<notin> set xs \<Longrightarrow> sq_path (nx(x := y)) h xs = sq_path nx h xs"
  by (induction xs arbitrary: h) auto

lemma sq_path_null: "sq_path nx h xs \<Longrightarrow> null \<notin> set xs"
  by (induction xs arbitrary: h) auto

lemma sq_path_append:
  assumes "sq_path nx h xs" "xs \<noteq> []" "distinct xs" "x \<notin> set xs" "x \<noteq> null"
  shows "sq_path (nx(x := null, last xs := x)) h (xs @ [x])"
  using assms
proof (induction xs arbitrary: h)
  case (Cons y ys)
  show ?case
  proof (cases "ys = []")
    case False
    then have "last ys \<noteq> y" "y \<noteq> x" using Cons.prems by auto
    then show ?thesis using Cons False by simp
  qed (use Cons.prems in auto)
qed simp

lemma sq_path_inj: "sq_path nx h xs \<Longrightarrow> sq_path nx h ys \<Longrightarrow> xs = ys"
proof (induction xs arbitrary: h ys)
  case Nil
  then show ?case by (cases ys) auto
next
  case (Cons x xs)
  then show ?case by (cases ys) auto
qed

interpretation sq: queue_backend slist_queue_op sq_holds
proof unfold_locales
  fix b xs x assume a: "sq_holds b xs" "x \<noteq> null" "x \<notin> set xs"
  show "sq_holds (op_enqueue slist_queue_op x b) (xs @ [x])"
  proof (cases "xs = []")
    case True
    then show ?thesis using a by (simp add: slist_queue_op_def p_vsf_eda_slist_queue_enqueue_def sq_holds_def Let_def)
  next
    case False
    have "last xs \<noteq> null" using a(1) False sq_path_null [of "sq_next b" "sq_head b" xs] last_in_set [OF False]
      by (metis sq_holds_def)
    then show ?thesis using a False sq_path_append [of "sq_next b" "sq_head b" xs x]
      by (simp add: slist_queue_op_def p_vsf_eda_slist_queue_enqueue_def sq_holds_def Let_def)
  qed
next
  fix b x xs assume a: "sq_holds b (x # xs)"
  then have "sq_path (sq_next b) (sq_next b x) xs" "x \<notin> set xs" by (simp_all add: sq_holds_def)
  moreover from this have "sq_next b x = null \<longleftrightarrow> xs = []" by (cases xs) auto
  ultimately show "\<exists>b'. op_dequeue slist_queue_op b = (x, b') \<and> sq_holds b' xs"
    using a by (auto simp: slist_queue_op_def p_vsf_eda_slist_queue_dequeue_def sq_holds_def Let_def sq_path_other)
qed

section \<open>Runs\<close>

text \<open>
  Sends and receives of tasks, sends of interrupts and the notifications of the kernel task, in any
  order; the last two components are the nodes that were accepted and those that were received.
\<close>

inductive queue_step :: "slist_queue vsf_eda_queue_t \<times> 'a kernel_scheme \<times> ptr list \<times> ptr list \<Rightarrow>
    slist_queue vsf_eda_queue_t \<times> 'a kernel_scheme \<times> ptr list \<times> ptr list \<Rightarrow> bool" where
  send: "x \<noteq> null \<Longrightarrow> sq_holds (backend q) xs \<Longrightarrow> x \<notin> set xs \<Longrightarrow> 0 < node_cnt k \<Longrightarrow>
    vsf_eda_queue_send_ex x 0 eda q k = Some (err, q', k') \<Longrightarrow>
    queue_step (q, k, ins, outs) (q', k', if err = VSF_ERR_NONE then ins @ [x] else ins, outs)"
| send_isr: "x \<noteq> null \<Longrightarrow> sq_holds (backend q) xs \<Longrightarrow> x \<notin> set xs \<Longrightarrow> 0 < node_cnt k \<Longrightarrow> ktask_ok k \<Longrightarrow>
    vsf_eda_queue_send_isr pthis x q k = Some (err, q', k') \<Longrightarrow>
    queue_step (q, k, ins, outs) (q', k', if err = VSF_ERR_NONE then ins @ [x] else ins, outs)"
| notify: "readable_cnt q < cur_value q \<Longrightarrow> 0 < node_cnt k \<Longrightarrow> p_vsf_eda_queue_notify_for_isr False q k = Some (q', k') \<Longrightarrow>
    queue_step (q, k, ins, outs) (q', k', ins, outs)"
| recv: "eda \<noteq> null \<Longrightarrow> eda_rx q = null \<Longrightarrow> vsf_eda_queue_recv_ex timeout eda q k = Some (err, r, q', k') \<Longrightarrow>
    queue_step (q, k, ins, outs) (q', k', ins, outs @ (case r of None \<Rightarrow> [] | Some x \<Rightarrow> [x]))"

definition queue_run_ok :: "nat \<Rightarrow> nat \<Rightarrow> slist_queue vsf_eda_queue_t \<times> 'a kernel_scheme \<times> ptr list \<times> ptr list \<Rightarrow> bool" where
  "queue_run_ok N m = (\<lambda>(q, k, ins, outs). \<exists>xs. queue_ok sq_holds q xs \<and> queue_op q = slist_queue_op \<and> max_value q = m
     \<and> evtq_ok N k \<and> ins = outs @ xs)"

lemma queue_step_ok:
  assumes "queue_step s s'" "queue_run_ok N m s"
  shows "queue_run_ok N m s'"
  using assms
proof (induction rule: queue_step.induct)
  case (send x q xs k eda err q' k' ins outs)
  then obtain ys where ys: "queue_ok sq_holds q ys" "queue_op q = slist_queue_op" "max_value q = m" "evtq_ok N k" "ins = outs @ ys"
    by (auto simp: queue_run_ok_def)
  then have "ys = xs" using send.hyps(2) sq_path_inj by (auto simp: queue_ok_def queue_core_def sq_holds_def)
  then show ?case using sq.send_ok [OF ys(1,2,4) send.hyps(4,1), of eda] send.hyps(3,5) ys
    by (auto simp: queue_run_ok_def split: if_splits)
next
  case (send_isr x q xs k pthis err q' k' ins outs)
  then obtain ys where ys: "queue_ok sq_holds q ys" "queue_op q = slist_queue_op" "max_value q = m" "evtq_ok N k" "ins = outs @ ys"
    by (auto simp: queue_run_ok_def)
  then have "ys = xs" using send_isr.hyps(2) sq_path_inj by (auto simp: queue_ok_def queue_core_def sq_holds_def)
  then show ?case using sq.send_isr_ok [OF ys(1,2,4) send_isr.hyps(4,5,1), of pthis] send_isr.hyps(3,6) ys
    by (auto simp: queue_run_ok_def split: if_splits)
next
  case (notify q k q' k' ins outs)
  then show ?case using sq.notify_isr_ok [of q _ N k] by (fastforce simp: queue_run_ok_def)
next
  case (recv eda q timeout k err r q' k' ins outs)
  then obtain ys where ys: "queue_ok sq_holds q ys" "queue_op q = slist_queue_op" "max_value q = m" "evtq_ok N k" "ins = outs @ ys"
    by (auto simp: queue_run_ok_def)
  show ?case using sq.recv_ok [OF ys(1,2,4), of timeout eda] recv.hyps ys
    by (auto simp: queue_run_ok_def split: if_splits)
qed

lemma queue_reach_ok: "queue_step\<^sup>*\<^sup>* s s' \<Longrightarrow> queue_run_ok N m s \<Longrightarrow> queue_run_ok N m s'"
  by (induction rule: rtranclp_induct) (auto intro: queue_step_ok)

lemma slist_queue_init_ok:
  assumes "vsf_eda_slist_queue_init m q0 = Some q" "m < 2 ^ 16"
  shows "queue_ok sq_holds q []" "queue_op q = slist_queue_op" "max_value q = m" "eda_rx q = null" "0 < m"
proof -
  have i: "vsf_eda_sync_init 0 m (use_as_sync q0) =
      (use_as_sync q0)\<lparr>cur := 0, has_owner := False, max_cnt := m mod 2 ^ 15, manual_rst := odd (m div 2 ^ 15), pending_list := []\<rparr>"
    by (simp add: vsf_eda_sync_init_def)
  have m: "0 < m" and q: "q = q0\<lparr>queue_op := slist_queue_op, backend := (backend q0)\<lparr>sq_head := null, sq_tail := null\<rparr>,
      eda_rx := null, readable_cnt := 0, use_as_sync := vsf_eda_sync_init 0 m (use_as_sync q0)\<rparr>"
    using assms(1) by (simp_all add: vsf_eda_slist_queue_init_def vsf_eda_queue_init_def split: if_splits)
  have v: "max_value q = m" unfolding q max_value_def i using bits16 [OF assms(2)] by simp
  have "cur_value q = 0" "readable_cnt q = 0" "pending_list (use_as_sync q) = []" "sq_head (backend q) = null" "sq_tail (backend q) = null"
      "eda_rx q = null" "queue_op q = slist_queue_op"
    unfolding q cur_value_def i by simp_all
  then show "queue_ok sq_holds q []" "queue_op q = slist_queue_op" "max_value q = m" "eda_rx q = null" "0 < m"
    using m v assms(2) by (simp_all add: queue_ok_def queue_core_def sq_holds_def)
qed

section \<open>Properties\<close>

definition queue_memory :: "slist_queue vsf_eda_queue_t" where
  "queue_memory = \<lparr>use_as_sync = sync_example, queue_op = slist_queue_op, eda_rx = null, readable_cnt = 0,
     backend = \<lparr>sq_next = (\<lambda>_. null), sq_head = null, sq_tail = null\<rparr>\<rparr>"

definition queue_example :: "slist_queue vsf_eda_queue_t" where
  "queue_example = the (vsf_eda_slist_queue_init 1 queue_memory)"

lemma queue_example_init: "vsf_eda_slist_queue_init 1 queue_memory = Some queue_example"
  by (simp add: queue_example_def vsf_eda_slist_queue_init_def vsf_eda_queue_init_def)



text \<open>
  The check and the wait of a receive are two protected regions. When a send comes between them, the
  receiver waits although a node is readable, and no event is on its way to it.
\<close>

theorem eda_queue_lost_wakeup:
  assumes "queue_ok sq_holds q []" "queue_op q = slist_queue_op" "0 < max_value q" "eda_rx q = null"
    and "evtq_ok N k" "0 < node_cnt k" "x \<noteq> null" "eda \<noteq> null" "timeout \<noteq> 0"
  shows "\<exists>q1 k1 q2 k2. p_vsf_eda_queue_dequeue q = (None, q) \<and> vsf_eda_queue_send_ex x 0 sender q k = Some (VSF_ERR_NONE, q1, k1)
    \<and> queue_recv_finish None timeout eda q1 k1 = Some (VSF_ERR_NOT_READY, q2, k2)
    \<and> eda_rx q2 = eda \<and> readable_cnt q2 = 1 \<and> evts k2 = evts k"
  by (rule sq.lost_wakeup) (fact assms)+

theorem eda_queue_lost_wakeup_witness:
  "\<exists>q1 k1 q2 k2. vsf_eda_queue_send_ex 500 0 200 queue_example (kernel_example ()) = Some (VSF_ERR_NONE, q1, k1)
    \<and> queue_recv_finish None (- 1) 100 q1 k1 = Some (VSF_ERR_NOT_READY, q2, k2) \<and> eda_rx q2 = 100 \<and> readable_cnt q2 = 1"
proof -
  note I = slist_queue_init_ok [OF queue_example_init]
  have n: "0 < node_cnt (kernel_example ())" by (simp add: sync_examples_ok)
  from eda_queue_lost_wakeup [OF I(1,2) _ I(4) kernel_example_ok n, of 500 100 "- 1" 200] I(3) show ?thesis by auto
qed

text \<open>
  A sender that waits cannot be served: when a send to a full queue waits, the next receive takes the
  address of its list node for the address of the task and leaves the defined behaviour.
\<close>

theorem eda_queue_sender_wait_breaks:
  assumes "queue_ok sq_holds q xs" "queue_op q = slist_queue_op" "length xs = max_value q" "0 < readable_cnt q"
    and "evtq_ok N k" "x \<noteq> null" "p \<noteq> null" "\<not> is_sync_got (edas k p)" "timeout \<noteq> 0"
  shows "\<exists>q1 k1. vsf_eda_queue_send_ex x timeout p q k = Some (VSF_ERR_NOT_READY, q1, k1)
    \<and> pending_list (use_as_sync q1) = [p] \<and> vsf_eda_queue_recv_ex timeout' eda q1 k1 = None"
proof -
  have c: "queue_core sq_holds q xs" "pending_list (use_as_sync q) = []" using assms(1) by (simp_all add: queue_ok_def queue_core_def)
  from set_timeout_ok [OF assms(5,7), of timeout] obtain k1 where "p_vsf_eda_sync_set_timeout p timeout k = Some (p, k1)" by blast
  then have "p_vsf_eda_sync_pend (use_as_sync q) p timeout k = Some ((use_as_sync q)\<lparr>pending_list := [p]\<rparr>, k1)"
    using c assms(7) by (simp add: p_vsf_eda_sync_pend_def dlq_enqueue_def)
  then have "vsf_eda_queue_send_ex x timeout p q k =
      Some (VSF_ERR_NOT_READY, q\<lparr>use_as_sync := (use_as_sync q)\<lparr>pending_list := [p]\<rparr>\<rparr>, k1)"
    using assms(3,6,9) c(1)
    by (simp add: vsf_eda_queue_send_ex_def p_vsf_eda_queue_enqueue_def queue_send_finish_def queue_core_def)
  moreover have "vsf_eda_queue_recv_ex timeout' eda (q\<lparr>use_as_sync := (use_as_sync q)\<lparr>pending_list := [p]\<rparr>\<rparr>) k1 = None"
    using assms(4) by (simp add: vsf_eda_queue_recv_ex_def p_vsf_eda_queue_dequeue_def queue_recv_finish_def
        p_vsf_eda_queue_notify_def eda_tx_def set_cur_value_def split_beta Let_def)
  ultimately show ?thesis by auto
qed

theorem eda_queue_sender_wait_breaks_witness:
  "\<exists>q k q1 k1. vsf_eda_queue_send_ex 500 0 200 queue_example (kernel_example ()) = Some (VSF_ERR_NONE, q, k)
    \<and> vsf_eda_queue_send_ex 600 (- 1) 300 q (kernel_example ()) = Some (VSF_ERR_NOT_READY, q1, k1)
    \<and> vsf_eda_queue_recv_ex 0 100 q1 k1 = None"
proof -
  note I = slist_queue_init_ok [OF queue_example_init]
  have n: "0 < node_cnt (kernel_example ())" by (simp add: sync_examples_ok)
  from sq.send_ok [OF I(1,2) kernel_example_ok n, of 500 200] I(3) obtain q k where
    q: "vsf_eda_queue_send_ex 500 0 200 queue_example (kernel_example ()) = Some (VSF_ERR_NONE, q, k)" "0 < readable_cnt q"
    and Q: "queue_ok sq_holds q [500]" "queue_op q = slist_queue_op" "max_value q = 1" by auto
  from eda_queue_sender_wait_breaks [OF Q(1,2) _ q(2) kernel_example_ok [of "()"], of 600 300 "- 1" 0 100] Q(3) q(1) show ?thesis
    by (auto simp: sync_examples_ok idle_eda_def)
qed

end
