(* ===== verification/VSF_Bmpevt.thy ===== *)
theory VSF_Bmpevt
  imports VSF_Sync
begin

text \<open>
  The bitmap events of the kernel, \<open>src/source/kernel/__eda/vsf_eda_bmpevt.c\<close>. The tasks that wait are
  asked one after the other, with an event, whether their condition holds. The operations of an adapter
  are functions on the kernel.
\<close>

unbundle bit_operations_syntax

section \<open>Data\<close>

definition VSF_EVT_SYNC_POLL :: vsf_evt_t where [simp]: "VSF_EVT_SYNC_POLL = 264"

datatype bmpevt_op = VSF_BMPEVT_OR | VSF_BMPEVT_AND

record vsf_bmpevt_pender_t =
  pender_mask :: u32
  pender_op :: bmpevt_op
  eda_pending :: ptr

text \<open>A missing function is \<open>None\<close>.\<close>

record 'k vsf_bmpevt_adapter_op_t =
  adapter_init :: "('k \<Rightarrow> 'k option) option"
  adapter_reset :: "('k \<Rightarrow> 'k option) option"

text \<open>A missing adapter is \<open>None\<close>; \<open>adapter_count\<close> is 5 bits wide.\<close>

record 'k vsf_bmpevt_t =
  auto_reset :: u32
  adapters :: "'k vsf_bmpevt_adapter_op_t option list"
  bmp_pending_list :: "ptr list"
  bmp_value :: u32
  cancelled_value :: u32
  adapter_count :: nat
  is_cancelling :: bool
  is_polling :: bool
  is_to_repoll :: bool

section \<open>Operations\<close>

text \<open>The loops over the adapters, from adapter \<open>i\<close> on; \<open>n\<close> adapters are left.\<close>

fun bmpevt_init_loop :: "'k vsf_bmpevt_adapter_op_t option list \<Rightarrow> nat \<Rightarrow> nat \<Rightarrow> 'k \<Rightarrow> 'k option" where
  "bmpevt_init_loop ads i 0 k = Some k"
| "bmpevt_init_loop ads i (Suc n) k =
     (if length ads \<le> i then None
      else do {
        k \<leftarrow> (case ads ! i of None \<Rightarrow> Some k
             | Some ad \<Rightarrow> (case adapter_init ad of None \<Rightarrow> Some k | Some f \<Rightarrow> f k));
        bmpevt_init_loop ads (i + 1) n k})"

fun bmpevt_reset_loop :: "u32 \<Rightarrow> 'k vsf_bmpevt_adapter_op_t option list \<Rightarrow> nat \<Rightarrow> nat \<Rightarrow> 'k \<Rightarrow> 'k option" where
  "bmpevt_reset_loop msk ads i 0 k = Some k"
| "bmpevt_reset_loop msk ads i (Suc n) k =
     (if length ads \<le> i then None
      else do {
        k \<leftarrow> (case ads ! i of None \<Rightarrow> Some k
             | Some ad \<Rightarrow> if bit msk i then (case adapter_reset ad of None \<Rightarrow> Some k | Some f \<Rightarrow> f k) else Some k);
        bmpevt_reset_loop msk ads (i + 1) n k})"

definition vsf_eda_bmpevt_init :: "nat \<Rightarrow> 'k vsf_bmpevt_t \<Rightarrow> 'k \<Rightarrow> ('k vsf_bmpevt_t \<times> 'k) option" where
  "vsf_eda_bmpevt_init count b k =
     (if 32 < count then None
      else do {
        let b = b\<lparr>bmp_pending_list := [], is_cancelling := False, is_polling := False, is_to_repoll := False,
                  bmp_value := 0, cancelled_value := 0, adapter_count := count mod 32\<rparr>;
        k \<leftarrow> bmpevt_init_loop (adapters b) 0 (adapter_count b) k;
        Some (b, k)})"

definition vsf_eda_bmpevt_reset :: "u32 \<Rightarrow> 'k vsf_bmpevt_t \<Rightarrow> 'k \<Rightarrow> ('k vsf_bmpevt_t \<times> 'k) option" where
  "vsf_eda_bmpevt_reset msk b k = do {
     let msk = msk AND bmp_value b;
     let b = b\<lparr>bmp_value := bmp_value b AND NOT msk\<rparr>;
     k \<leftarrow> bmpevt_reset_loop msk (adapters b) 0 (adapter_count b) k;
     Some (b, k)}"

definition p_vsf_eda_bmpevt_remove_pender :: "vsf_bmpevt_pender_t \<Rightarrow> 'k vsf_bmpevt_t \<Rightarrow> 'k vsf_bmpevt_t option" where
  "p_vsf_eda_bmpevt_remove_pender pender b =
     (if eda_pending pender = null then None
      else do {
        xs \<leftarrow> dlq_remove (eda_pending pender) (bmp_pending_list b);
        Some (b\<lparr>bmp_pending_list := xs\<rparr>)})"

definition p_vsf_eda_bmpevt_poll :: "vsf_bmpevt_pender_t \<Rightarrow> 'k vsf_bmpevt_t \<Rightarrow> 'k \<Rightarrow> (bool \<times> 'k vsf_bmpevt_t \<times> 'k) option" where
  "p_vsf_eda_bmpevt_poll pender b k =
     (let cur_mask = bmp_value b AND pender_mask pender;
          ok = (if pender_op pender = VSF_BMPEVT_AND then cur_mask = pender_mask pender else cur_mask \<noteq> 0)
      in if ok
         then do {
           (b, k) \<leftarrow> vsf_eda_bmpevt_reset (cur_mask AND auto_reset b) b k;
           Some (True, b, k)}
         else Some (False, b, k))"

text \<open>The loop over the nodes: the event goes to the first task that accepts it; the result tells if there is one.\<close>

fun bmpevt_post_walk :: "vsf_evt_t \<Rightarrow> ptr list \<Rightarrow> 'a kernel_scheme \<Rightarrow> (bool \<times> 'a kernel_scheme) option" where
  "bmpevt_post_walk evt [] k = Some (False, k)"
| "bmpevt_post_walk evt (eda # rest) k = do {
     (err, k) \<leftarrow> vsf_eda_post_evt eda evt k;
     (if err = VSF_ERR_NONE then Some (True, k) else bmpevt_post_walk evt rest k)}"

text \<open>\<open>is_to_repoll\<close> does not change during the loop of one step, so that it is looked at once.\<close>

partial_function (option) p_vsf_eda_bmpevt_post_evt ::
  "ptr \<Rightarrow> vsf_evt_t \<Rightarrow> 'a kernel_scheme vsf_bmpevt_t \<Rightarrow> 'a kernel_scheme \<Rightarrow>
   ('a kernel_scheme vsf_bmpevt_t \<times> 'a kernel_scheme) option" where
  "p_vsf_eda_bmpevt_post_evt node evt b k =
     (let is_poll_event = (evt = VSF_EVT_SYNC_POLL);
          nodes = dropWhile (\<lambda>x. x \<noteq> node) (bmp_pending_list b);
          head = (case bmp_pending_list b of [] \<Rightarrow> null | x # _ \<Rightarrow> x)
      in if node \<noteq> null \<and> is_poll_event \<and> is_to_repoll b
         then p_vsf_eda_bmpevt_post_evt head evt (b\<lparr>is_to_repoll := False\<rparr>) k
         else Option.bind (if node = null then Some (False, k) else bmpevt_post_walk evt nodes k)
           (\<lambda>(accepted, k).
              if accepted \<or> \<not> is_poll_event then Some (b, k)
              else if is_to_repoll b then p_vsf_eda_bmpevt_post_evt head evt (b\<lparr>is_to_repoll := False\<rparr>) k
              else Some (b\<lparr>is_polling := False\<rparr>, k)))"

definition bmp_head :: "'k vsf_bmpevt_t \<Rightarrow> ptr" where
  "bmp_head b = (case bmp_pending_list b of [] \<Rightarrow> null | x # _ \<Rightarrow> x)"

definition p_vsf_eda_bmpevt_cancel_start ::
  "'a kernel_scheme vsf_bmpevt_t \<Rightarrow> 'a kernel_scheme \<Rightarrow> ('a kernel_scheme vsf_bmpevt_t \<times> 'a kernel_scheme) option" where
  "p_vsf_eda_bmpevt_cancel_start b k =
     p_vsf_eda_bmpevt_post_evt (bmp_head b) VSF_EVT_SYNC_CANCEL (b\<lparr>is_cancelling := True\<rparr>) k"

definition p_vsf_eda_bmpevt_poll_start ::
  "'a kernel_scheme vsf_bmpevt_t \<Rightarrow> 'a kernel_scheme \<Rightarrow> ('a kernel_scheme vsf_bmpevt_t \<times> 'a kernel_scheme) option" where
  "p_vsf_eda_bmpevt_poll_start b k =
     (if is_polling b then Some (b\<lparr>is_to_repoll := True\<rparr>, k)
      else p_vsf_eda_bmpevt_post_evt (bmp_head b) VSF_EVT_SYNC_POLL (b\<lparr>is_polling := True\<rparr>) k)"

definition vsf_eda_bmpevt_cancel ::
  "u32 \<Rightarrow> 'a kernel_scheme vsf_bmpevt_t \<Rightarrow> 'a kernel_scheme \<Rightarrow> ('a kernel_scheme vsf_bmpevt_t \<times> 'a kernel_scheme) option" where
  "vsf_eda_bmpevt_cancel msk b k = p_vsf_eda_bmpevt_cancel_start (b\<lparr>cancelled_value := cancelled_value b OR msk\<rparr>) k"

definition vsf_eda_bmpevt_set ::
  "u32 \<Rightarrow> 'a kernel_scheme vsf_bmpevt_t \<Rightarrow> 'a kernel_scheme \<Rightarrow> ('a kernel_scheme vsf_bmpevt_t \<times> 'a kernel_scheme) option" where
  "vsf_eda_bmpevt_set msk b k = p_vsf_eda_bmpevt_poll_start (b\<lparr>bmp_value := bmp_value b OR msk\<rparr>) k"

definition vsf_eda_bmpevt_pend ::
  "vsf_bmpevt_pender_t \<Rightarrow> int \<Rightarrow> 'a kernel_scheme vsf_bmpevt_t \<Rightarrow> 'a kernel_scheme \<Rightarrow>
   (vsf_err_t \<times> vsf_bmpevt_pender_t \<times> 'a kernel_scheme vsf_bmpevt_t \<times> 'a kernel_scheme) option" where
  "vsf_eda_bmpevt_pend pender timeout b k =
     (if timeout = 0
      then do {
        (ok, b, k) \<leftarrow> p_vsf_eda_bmpevt_poll pender b k;
        Some (if ok then VSF_ERR_NONE else VSF_ERR_NOT_READY, pender, b, k)}
      else
        let eda = vsf_eda_get_cur k; pender = pender\<lparr>eda_pending := eda\<rparr>
        in if eda = null then None
           else if pender_mask pender AND cancelled_value b \<noteq> 0 then Some (VSF_ERR_FAIL, pender, b, k)
           else do {
             xs \<leftarrow> dlq_enqueue eda (bmp_pending_list b);
             (_, k) \<leftarrow> p_vsf_eda_sync_set_timeout eda timeout k;
             (b, k) \<leftarrow> p_vsf_eda_bmpevt_poll_start (b\<lparr>bmp_pending_list := xs\<rparr>) k;
             Some (VSF_ERR_NOT_READY, pender, b, k)})"

text \<open>
  \<open>pending_node.next\<close> is read after the task may have been removed from the list, which has set it to
  null. The condition of a cancellation is written with \<open>&&\<close>.
\<close>

definition vsf_eda_bmpevt_poll ::
  "vsf_bmpevt_pender_t \<Rightarrow> vsf_evt_t \<Rightarrow> 'a kernel_scheme vsf_bmpevt_t \<Rightarrow> 'a kernel_scheme \<Rightarrow>
   (vsf_sync_reason_t \<times> 'a kernel_scheme vsf_bmpevt_t \<times> 'a kernel_scheme) option" where
  "vsf_eda_bmpevt_poll pender evt b k =
     (let eda = eda_pending pender
      in if eda \<noteq> vsf_eda_get_cur k then None
         else do {
           (reason, b, k) \<leftarrow>
             (if evt = VSF_EVT_TIMER
              then do {
                b \<leftarrow> p_vsf_eda_bmpevt_remove_pender pender b;
                Some (VSF_SYNC_TIMEOUT, b, k)}
              else if evt = VSF_EVT_SYNC_CANCEL
              then do {
                (reason, nxt, b) \<leftarrow>
                  (if cancelled_value b \<noteq> 0 \<and> pender_mask pender \<noteq> 0
                   then do {
                     b \<leftarrow> p_vsf_eda_bmpevt_remove_pender pender b;
                     Some (VSF_SYNC_CANCEL, null, b)}
                   else Some (VSF_SYNC_PENDING, rdy_next eda (bmp_pending_list b), b));
                (b, k) \<leftarrow> p_vsf_eda_bmpevt_post_evt nxt evt b k;
                Some (reason, b, k)}
              else if evt = VSF_EVT_SYNC_POLL
              then do {
                (ok, b, k) \<leftarrow> p_vsf_eda_bmpevt_poll pender b k;
                (reason, nxt, b) \<leftarrow>
                  (if ok
                   then do {
                     b \<leftarrow> p_vsf_eda_bmpevt_remove_pender pender b;
                     Some (VSF_SYNC_GET, null, b)}
                   else Some (VSF_SYNC_PENDING, rdy_next eda (bmp_pending_list b), b));
                (b, k) \<leftarrow> p_vsf_eda_bmpevt_post_evt nxt evt b k;
                Some (reason, b, k)}
              else None);
           (if reason \<noteq> VSF_SYNC_PENDING
            then do {
              k \<leftarrow> p_vsf_teda_cancel_timer eda k;
              Some (reason, b, upd_eda eda (\<lambda>e. e\<lparr>is_limitted := False\<rparr>) k)}
            else Some (reason, b, k))})"

section \<open>Posting\<close>

lemma post_null:
  assumes "\<not> is_to_repoll b"
  shows "p_vsf_eda_bmpevt_post_evt null evt b k = Some (if evt = VSF_EVT_SYNC_POLL then b\<lparr>is_polling := False\<rparr> else b, k)"
  using assms by (subst p_vsf_eda_bmpevt_post_evt.simps) simp

lemma post_first:
  assumes K: "evtq_ok N k" "0 < node_cnt k" and p: "bmp_pending_list b = p # ps" "p \<noteq> null" "\<not> (is_limitted (edas k p) \<and> is_ready (edas k p))"
    and r: "\<not> is_to_repoll b"
  shows "p_vsf_eda_bmpevt_post_evt p evt b k = Some (b, posted p evt null k)"
  using post_eq [OF K(1) p(2) K(2), of evt null False] p r
  by (subst p_vsf_eda_bmpevt_post_evt.simps)
    (simp add: vsf_eda_post_evt_def vsf_evtq_post_evt_def vsf_evtq_post_evt_ex_def Let_def)

text \<open>Setting bits asks the first task that waits.\<close>

lemma set_asks_first:
  assumes K: "evtq_ok N k" "0 < node_cnt k" and p: "bmp_pending_list b = p # ps" "p \<noteq> null" "\<not> (is_limitted (edas k p) \<and> is_ready (edas k p))"
    and r: "\<not> is_to_repoll b" "\<not> is_polling b"
  shows "vsf_eda_bmpevt_set msk b k =
    Some (b\<lparr>bmp_value := bmp_value b OR msk, is_polling := True\<rparr>, posted p VSF_EVT_SYNC_POLL null k)"
  using post_first [OF K, of "b\<lparr>bmp_value := bmp_value b OR msk, is_polling := True\<rparr>" p ps] p r
  by (simp add: vsf_eda_bmpevt_set_def p_vsf_eda_bmpevt_poll_start_def bmp_head_def)

section \<open>Conditions\<close>

definition pender_holds :: "vsf_bmpevt_pender_t \<Rightarrow> u32 \<Rightarrow> bool" where
  "pender_holds pender v \<longleftrightarrow>
     (case pender_op pender of
        VSF_BMPEVT_AND \<Rightarrow> \<forall>i < 32. bit (pender_mask pender) i \<longrightarrow> bit v i
      | VSF_BMPEVT_OR \<Rightarrow> \<exists>i < 32. bit (pender_mask pender) i \<and> bit v i)"

lemma poll_condition:
  "(if pender_op pender = VSF_BMPEVT_AND then v AND pender_mask pender = pender_mask pender
    else v AND pender_mask pender \<noteq> 0) \<longleftrightarrow> pender_holds pender v"
  by (cases "pender_op pender") (auto simp: pender_holds_def bit_eq_iff bit_and_iff bit_imp_le_length)

lemma poll_eq:
  assumes "adapter_count b = 0"
  shows "p_vsf_eda_bmpevt_poll pender b k =
    Some (pender_holds pender (bmp_value b),
      if pender_holds pender (bmp_value b)
      then b\<lparr>bmp_value := bmp_value b AND NOT (pender_mask pender AND auto_reset b)\<rparr> else b, k)"
proof -
  have "bmp_value b AND NOT (bmp_value b AND pender_mask pender AND auto_reset b AND bmp_value b) =
      bmp_value b AND NOT (pender_mask pender AND auto_reset b)"
    by (auto simp: bit_eq_iff bit_simps)
  then show ?thesis using assms
    by (simp add: p_vsf_eda_bmpevt_poll_def vsf_eda_bmpevt_reset_def Let_def poll_condition and.assoc)
qed

lemma cancel_timer_evts:
  assumes "p_vsf_teda_cancel_timer p k = Some k'"
  shows "evts k' = evts k"
  using assms by (auto simp: p_vsf_teda_cancel_timer_def evts_def fun_eq_iff Let_def split: bind_splits if_splits)

lemma cancel_timer_ok:
  assumes "timq_ok k" "p \<noteq> null"
  shows "\<exists>k'. p_vsf_teda_cancel_timer p k = Some k'"
  using assms by (auto simp: p_vsf_teda_cancel_timer_def dlq_remove_def timq_ok_def Let_def)

section \<open>Properties\<close>

text \<open>
  C20. The condition of a task that waits, for an object without adapters: with \<open>VSF_BMPEVT_AND\<close> it
  holds when all bits of its mask are set, with \<open>VSF_BMPEVT_OR\<close> when one of them is. When it holds, the
  bits of the mask that are reset automatically are cleared and no other bit changes; when it does not, nothing changes.
\<close>

theorem bmpevt_poll_spec:
  assumes "adapter_count b = 0"
  shows "\<exists>b'. p_vsf_eda_bmpevt_poll pender b k = Some (pender_holds pender (bmp_value b), b', k)
    \<and> (\<forall>i. bit (bmp_value b') i \<longleftrightarrow> bit (bmp_value b) i
         \<and> \<not> (pender_holds pender (bmp_value b) \<and> bit (pender_mask pender) i \<and> bit (auto_reset b) i))
    \<and> bmp_pending_list b' = bmp_pending_list b"
  using assms by (auto simp: poll_eq bit_simps dest: bit_imp_le_length)

definition bmpevt_example :: "unit kernel_scheme vsf_bmpevt_t" where
  "bmpevt_example = \<lparr>auto_reset = 0, adapters = [], bmp_pending_list = [200, 100], bmp_value = 5, cancelled_value = 0,
     adapter_count = 0, is_cancelling = False, is_polling = True, is_to_repoll = False\<rparr>"

definition pender_example :: "ptr \<Rightarrow> vsf_bmpevt_pender_t" where
  "pender_example p = \<lparr>pender_mask = 1, pender_op = VSF_BMPEVT_OR, eda_pending = p\<rparr>"

lemma pender_example_holds: "pender_holds (pender_example p) 5"
  unfolding pender_holds_def by (auto simp: pender_example_def intro: exI [of _ 0])

theorem bmpevt_poll_spec_witness:
  "\<exists>b'. p_vsf_eda_bmpevt_poll (pender_example 200) bmpevt_example (kernel_example ()) = Some (True, b', kernel_example ())"
  using bmpevt_poll_spec [of bmpevt_example "pender_example 200" "kernel_example ()"] pender_example_holds
  by (auto simp: bmpevt_example_def)

text \<open>
  A task that is served is taken out of the list before its successor is looked up: when the first
  of two tasks that wait finds its condition true, the search ends with it. The second is still in the
  list, its condition holds too, no event is posted to it, and the object is not polling any more.
\<close>

theorem bmpevt_second_not_asked:
  assumes "adapter_count b = 0" "auto_reset b = 0" "\<not> is_to_repoll b" "bmp_pending_list b = p # q # ps" "p \<noteq> null"
    and "vsf_eda_get_cur k = p" "timq_ok k"
    and "eda_pending pender = p" "pender_holds pender (bmp_value b)" "eda_pending pender' = q" "pender_holds pender' (bmp_value b)"
  shows "\<exists>b' k'. vsf_eda_bmpevt_poll pender VSF_EVT_SYNC_POLL b k = Some (VSF_SYNC_GET, b', k')
    \<and> bmp_pending_list b' = q # ps \<and> \<not> is_polling b' \<and> pender_holds pender' (bmp_value b') \<and> evts k' = evts k"
proof -
  let ?b = "b\<lparr>bmp_pending_list := q # ps\<rparr>"
  have v: "b\<lparr>bmp_value := bmp_value b AND NOT (pender_mask pender AND auto_reset b)\<rparr> = b" using assms(2) by (cases b) simp
  obtain k1 where k1: "p_vsf_teda_cancel_timer p k = Some k1" using cancel_timer_ok [OF assms(7,5)] by blast
  have "p_vsf_eda_bmpevt_remove_pender pender b = Some ?b"
    using assms(4,5,8) by (simp add: p_vsf_eda_bmpevt_remove_pender_def dlq_remove_def)
  moreover have "p_vsf_eda_bmpevt_post_evt null VSF_EVT_SYNC_POLL ?b k = Some (?b\<lparr>is_polling := False\<rparr>, k)"
    using post_null [of ?b VSF_EVT_SYNC_POLL k] assms(3) by simp
  ultimately have "vsf_eda_bmpevt_poll pender VSF_EVT_SYNC_POLL b k =
      Some (VSF_SYNC_GET, ?b\<lparr>is_polling := False\<rparr>, upd_eda p (\<lambda>e. e\<lparr>is_limitted := False\<rparr>) k1)"
    using assms(6,8,9) k1 poll_eq [OF assms(1), of pender k] v by (simp add: vsf_eda_bmpevt_poll_def)
  moreover have "evts (upd_eda p (\<lambda>e. e\<lparr>is_limitted := False\<rparr>) k1) = evts k"
    using cancel_timer_evts [OF k1] by (auto simp: evts_def fun_eq_iff)
  ultimately show ?thesis using assms(11) by simp
qed

theorem bmpevt_second_not_asked_witness:
  "\<exists>b' k'. vsf_eda_bmpevt_poll (pender_example 200) VSF_EVT_SYNC_POLL bmpevt_example
      ((kernel_example ())\<lparr>cur_evtq := Some 1, evtqs := [idle_evtq, idle_evtq\<lparr>cur_eda := 200\<rparr>]\<rparr>) = Some (VSF_SYNC_GET, b', k')
    \<and> bmp_pending_list b' = [100] \<and> \<not> is_polling b' \<and> pender_holds (pender_example 100) (bmp_value b')"
proof -
  let ?k = "(kernel_example ())\<lparr>cur_evtq := Some 1, evtqs := [idle_evtq, idle_evtq\<lparr>cur_eda := 200\<rparr>]\<rparr>"
  have "vsf_eda_get_cur ?k = 200" "timq_ok ?k" "bmp_value bmpevt_example = 5" "eda_pending (pender_example 200) = 200"
    "eda_pending (pender_example 100) = 100" "bmp_pending_list bmpevt_example = [200, 100]" "adapter_count bmpevt_example = 0"
    "auto_reset bmpevt_example = 0" "\<not> is_to_repoll bmpevt_example"
    by (simp_all add: vsf_eda_get_cur_def timq_ok_def kernel_example_def idle_eda_def bmpevt_example_def pender_example_def)
  with bmpevt_second_not_asked [of bmpevt_example 200 100 "[]" ?k "pender_example 200" "pender_example 100"]
  show ?thesis using pender_example_holds by auto
qed

text \<open>A cancellation of some bits also cancels a task that waits for others.\<close>

lemma bmpevt_cancel_other_bits:
  assumes "pender_mask pender AND cancelled_value b = 0" "pender_mask pender \<noteq> 0" "cancelled_value b \<noteq> 0"
    and "\<not> is_to_repoll b" "eda_pending pender = p" "p \<in> set (bmp_pending_list b)" "p \<noteq> null" "vsf_eda_get_cur k = p" "timq_ok k"
  shows "\<exists>b' k'. vsf_eda_bmpevt_poll pender VSF_EVT_SYNC_CANCEL b k = Some (VSF_SYNC_CANCEL, b', k')
    \<and> bmp_pending_list b' = remove1 p (bmp_pending_list b)"
proof -
  obtain k1 where k1: "p_vsf_teda_cancel_timer p k = Some k1" using cancel_timer_ok [OF assms(9,7)] by blast
  have "p_vsf_eda_bmpevt_remove_pender pender b = Some (b\<lparr>bmp_pending_list := remove1 p (bmp_pending_list b)\<rparr>)"
    using assms(5-7) by (simp add: p_vsf_eda_bmpevt_remove_pender_def dlq_remove_def)
  then show ?thesis using assms(2-5,8) k1 post_null [of "b\<lparr>bmp_pending_list := remove1 p (bmp_pending_list b)\<rparr>" VSF_EVT_SYNC_CANCEL k]
    by (simp add: vsf_eda_bmpevt_poll_def)
qed

end
