(* ===== verification/VSF_Frame.thy ===== *)
theory VSF_Frame
  imports VSF_Wake
begin

text \<open>
  Starting and ending of tasks and the calls between event handlers, \<open>src/source/kernel/vsf_eda.c\<close>, with
  the allocation of call frames in \<open>vsf_os.c\<close>. Sub-calls post their events (\<open>VSF_KERNEL_CFG_EDA_FAST_SUB_CALL\<close>
  is off by default). A handler is a number, its code; calling it is left to the function \<open>run\<close>.
\<close>

section \<open>Data\<close>

record vsf_eda_feature_t =
  is_use_frame :: bool
  is_stack_owner :: bool
  is_subcall_has_return_value :: bool
  user_bits :: nat

record p_vsf_eda_frame_t =
  f_func :: nat
  f_feature :: vsf_eda_feature_t
  f_local_size :: nat
  f_param :: nat

text \<open>
  The members of a task for calls. The union \<open>fn\<close> is a pointer to the first frame, whose links lead
  over \<open>fn_frames\<close> to \<open>fn_base\<close>; without frames it is \<open>fn_base\<close> itself, a handler or null. It is \<open>fn_freed\<close> when
  it still points to a frame that has been freed.
\<close>

record eda_call =
  fn_frames :: "p_vsf_eda_frame_t list"
  fn_base :: nat
  fn_freed :: bool
  feature :: vsf_eda_feature_t
  return_value :: nat

text \<open>\<open>frame_cnt\<close> is the number of frames that can still be allocated.\<close>

record call_kernel = kernel +
  calls :: "ptr \<Rightarrow> eda_call"
  frame_cnt :: nat

definition no_feature :: vsf_eda_feature_t where
  "no_feature = \<lparr>is_use_frame = False, is_stack_owner = False, is_subcall_has_return_value = False, user_bits = 0\<rparr>"

definition upd_call :: "ptr \<Rightarrow> (eda_call \<Rightarrow> eda_call) \<Rightarrow> 'a call_kernel_scheme \<Rightarrow> 'a call_kernel_scheme" where
  "upd_call p f k = k\<lparr>calls := (calls k)(p := f (calls k p))\<rparr>"

section \<open>Frames\<close>

text \<open>The size of local variables is rounded up to words of 4 bytes and kept in 16 bits; the memory is cleared.\<close>

definition vsf_eda_new_frame :: "nat \<Rightarrow> 'a call_kernel_scheme \<Rightarrow> p_vsf_eda_frame_t option \<times> 'a call_kernel_scheme" where
  "vsf_eda_new_frame local_size k =
     (if frame_cnt k = 0 then (None, k)
      else (Some \<lparr>f_func = 0, f_feature = no_feature, f_local_size = ((local_size + 3) div 4 * 4) mod 2 ^ 16, f_param = 0\<rparr>,
            k\<lparr>frame_cnt := frame_cnt k - 1\<rparr>))"

definition vsf_eda_free_frame :: "'a call_kernel_scheme \<Rightarrow> 'a call_kernel_scheme" where
  "vsf_eda_free_frame k = k\<lparr>frame_cnt := frame_cnt k + 1\<rparr>"

text \<open>The outer \<open>None\<close>: something that is not a frame is taken for one.\<close>

definition p_vsf_eda_pop_frame :: "eda_call \<Rightarrow> (p_vsf_eda_frame_t option \<times> eda_call) option" where
  "p_vsf_eda_pop_frame c =
     (case fn_frames c of
        f # fs \<Rightarrow> Some (Some f, c\<lparr>fn_frames := fs\<rparr>)
      | [] \<Rightarrow> if fn_base c = 0 \<and> \<not> fn_freed c then Some (None, c) else None)"

definition p_vsf_eda_push_frame :: "p_vsf_eda_frame_t \<Rightarrow> eda_call \<Rightarrow> eda_call" where
  "p_vsf_eda_push_frame f c = c\<lparr>fn_frames := f # fn_frames c\<rparr>"

text \<open>A value that is not null, whatever it is, counts as a frame: \<open>Some None\<close>.\<close>

definition p_vsf_eda_peek_frame :: "eda_call \<Rightarrow> p_vsf_eda_frame_t option option" where
  "p_vsf_eda_peek_frame c =
     (case fn_frames c of
        f # _ \<Rightarrow> Some (Some f)
      | [] \<Rightarrow> if fn_base c = 0 \<and> \<not> fn_freed c then None else Some None)"

section \<open>Calling the handler\<close>

datatype handler_kind = Pure_handler | Param_handler | Task_handler

definition p_vsf_dispatch_evt ::
  "(handler_kind \<Rightarrow> nat \<Rightarrow> ptr \<Rightarrow> vsf_evt_t \<Rightarrow> 'a call_kernel_scheme \<Rightarrow> 'a call_kernel_scheme option) \<Rightarrow> ptr \<Rightarrow> vsf_evt_t \<Rightarrow>
   'a call_kernel_scheme \<Rightarrow> 'a call_kernel_scheme option" where
  "p_vsf_dispatch_evt run p evt k =
     (if p = null then None
      else if is_use_frame (feature (calls k p))
      then (case fn_frames (calls k p) of
              [] \<Rightarrow> None
            | f # _ \<Rightarrow>
                if is_subcall_has_return_value (feature (calls k p)) then run Task_handler (f_func f) p evt k
                else if f_func f = 0 then None
                else if f_param f = 0 \<and> f_local_size f = 0 then run Pure_handler (f_func f) p evt k
                else run Param_handler (f_func f) p evt k)
      else if fn_frames (calls k p) \<noteq> [] \<or> fn_freed (calls k p) \<or> fn_base (calls k p) = 0 then None
      else run Pure_handler (fn_base (calls k p)) p evt k)"

section \<open>The end of a task\<close>

fun fini_frames :: "p_vsf_eda_frame_t list \<Rightarrow> eda_call \<Rightarrow> 'a call_kernel_scheme \<Rightarrow> (eda_call \<times> 'a call_kernel_scheme) option" where
  "fini_frames [] c k =
     (if \<not> is_use_frame (feature c) then Some (c, k)
      else if fn_base c = 0 \<and> \<not> fn_freed c then Some (c, k) else None)"
| "fini_frames (f # fs) c k =
     (if \<not> is_use_frame (feature c) then Some (c, k)
      else fini_frames fs (c\<lparr>fn_frames := fs, feature := f_feature f\<rparr>) (vsf_eda_free_frame k))"

definition vsf_eda_fini :: "ptr \<Rightarrow> 'a call_kernel_scheme \<Rightarrow> (vsf_err_t \<times> 'a call_kernel_scheme) option" where
  "vsf_eda_fini p k =
     (let p = p_vsf_eda_get_valid_eda p k
      in if p = null then None
         else do {
           k \<leftarrow> p_vsf_teda_cancel_timer p k;
           (c, k) \<leftarrow> fini_frames (fn_frames (calls k p)) (calls k p) k;
           k \<leftarrow> vsf_evtq_on_eda_fini p (upd_call p (\<lambda>_. c) k);
           Some (VSF_ERR_NONE, k)})"

section \<open>Return\<close>

text \<open>The result tells whether the task has ended.\<close>

definition p_vsf_eda_return :: "nat \<Rightarrow> 'a call_kernel_scheme \<Rightarrow> (bool \<times> 'a call_kernel_scheme) option" where
  "p_vsf_eda_return v k =
     (let p = vsf_eda_get_cur k
      in if p = null then None
         else
           let k = upd_call p (\<lambda>c. c\<lparr>return_value := v\<rparr>) k
           in if is_use_frame (feature (calls k p))
              then do {
                (popped, c) \<leftarrow> p_vsf_eda_pop_frame (calls k p);
                f \<leftarrow> popped;
                let c = c\<lparr>feature := f_feature f\<rparr>;
                let k = vsf_eda_free_frame (upd_call p (\<lambda>_. c) k);
                (if is_use_frame (feature c)
                 then (case fn_frames c of
                         [] \<Rightarrow> if fn_base c \<noteq> 0 \<or> fn_freed c then None
                              else do {
                                (_, k) \<leftarrow> vsf_eda_fini p k;
                                Some (True, k)}
                       | g # gs \<Rightarrow>
                           let k = (if p_vsf_eda_peek_frame (c\<lparr>fn_frames := gs\<rparr>) = None \<and> \<not> is_use_frame (f_feature g)
                                    then vsf_eda_free_frame
                                      (upd_call p (\<lambda>c. c\<lparr>feature := f_feature g, fn_frames := [], fn_freed := True\<rparr>) k)
                                    else k)
                           in do {
                             (_, k) \<leftarrow> vsf_eda_post_evt p VSF_EVT_RETURN k;
                             Some (False, k)})
                 else do {
                   (_, k) \<leftarrow> vsf_eda_post_evt p VSF_EVT_RETURN k;
                   Some (False, k)})}
              else do {
                (_, k) \<leftarrow> vsf_eda_fini p k;
                Some (True, k)})"

definition vsf_eda_get_return_value :: "'a call_kernel_scheme \<Rightarrow> nat option" where
  "vsf_eda_get_return_value k = (let p = vsf_eda_get_cur k in if p = null then None else Some (return_value (calls k p)))"

definition vsf_eda_get_cur_evt :: "'a kernel_scheme \<Rightarrow> vsf_evt_t option" where
  "vsf_eda_get_cur_evt k = (case cur_evtq k of None \<Rightarrow> None | Some q \<Rightarrow> Some (cur_evt (evtqs k ! q)))"

definition vsf_eda_get_cur_msg :: "'a kernel_scheme \<Rightarrow> ptr option" where
  "vsf_eda_get_cur_msg k = (case cur_evtq k of None \<Rightarrow> None | Some q \<Rightarrow> Some (cur_msg (evtqs k ! q)))"

definition vsf_eda_set_user_value :: "nat \<Rightarrow> 'a call_kernel_scheme \<Rightarrow> 'a call_kernel_scheme option" where
  "vsf_eda_set_user_value v k =
     (let p = vsf_eda_get_cur k
      in if p = null then None else Some (upd_call p (\<lambda>c. c\<lparr>feature := (feature c)\<lparr>user_bits := v mod 2 ^ 5\<rparr>\<rparr>) k))"

definition vsf_eda_polling_state_get :: "ptr \<Rightarrow> 'a call_kernel_scheme \<Rightarrow> bool option" where
  "vsf_eda_polling_state_get p k = (if p = null then None else Some (user_bits (feature (calls k p)) \<noteq> 0))"

definition vsf_eda_polling_state_set :: "ptr \<Rightarrow> bool \<Rightarrow> 'a call_kernel_scheme \<Rightarrow> 'a call_kernel_scheme option" where
  "vsf_eda_polling_state_set p st k =
     (if p = null then None
      else Some (upd_call p (\<lambda>c. c\<lparr>feature := (feature c)\<lparr>user_bits := (if st then 1 else 0)\<rparr>\<rparr>) k))"

definition vsf_eda_is_stack_owner :: "ptr \<Rightarrow> 'a call_kernel_scheme \<Rightarrow> bool option" where
  "vsf_eda_is_stack_owner p k = (if p = null then None else Some (is_stack_owner (feature (calls k p))))"

definition vsf_eda_get_user_value :: "'a call_kernel_scheme \<Rightarrow> nat option" where
  "vsf_eda_get_user_value k =
     (let p = vsf_eda_get_cur k in if p = null then None else Some (user_bits (feature (calls k p))))"

text \<open>The value of \<open>user_bits\<close> has 5 bits, \<open>VSF_KERNEL_CFG_EDA_USER_BITLEN\<close>.\<close>

section \<open>Calls\<close>

definition p_vsf_eda_ensure_frame_used :: "ptr \<Rightarrow> nat \<Rightarrow> 'a call_kernel_scheme \<Rightarrow> vsf_err_t \<times> 'a call_kernel_scheme" where
  "p_vsf_eda_ensure_frame_used p param k =
     (if \<not> is_use_frame (feature (calls k p))
      then let (f, k) = vsf_eda_new_frame 0 k
           in case f of
                None \<Rightarrow> (VSF_ERR_NOT_ENOUGH_RESOURCES, k)
              | Some f \<Rightarrow>
                  let c = calls k p;
                      f = f\<lparr>f_feature := feature c, f_func := fn_base c, f_param := param\<rparr>;
                      c = c\<lparr>feature := (feature c)\<lparr>is_use_frame := True\<rparr>, fn_frames := [], fn_base := 0\<rparr>
                  in (VSF_ERR_NONE, upd_call p (\<lambda>_. p_vsf_eda_push_frame f c) k)
      else (VSF_ERR_NONE, k))"

definition upd_top :: "(p_vsf_eda_frame_t \<Rightarrow> p_vsf_eda_frame_t) \<Rightarrow> eda_call \<Rightarrow> eda_call" where
  "upd_top g c = (case fn_frames c of [] \<Rightarrow> c | f # fs \<Rightarrow> c\<lparr>fn_frames := g f # fs\<rparr>)"

definition vsf_eda_target_set :: "nat \<Rightarrow> 'a call_kernel_scheme \<Rightarrow> (vsf_err_t \<times> 'a call_kernel_scheme) option" where
  "vsf_eda_target_set param k =
     (let p = vsf_eda_get_cur k
      in if p = null then None
         else let (err, k) = p_vsf_eda_ensure_frame_used p param k
              in if err = VSF_ERR_NONE
                 then if fn_frames (calls k p) = [] then None
                      else Some (err, upd_call p (upd_top (\<lambda>f. f\<lparr>f_param := param\<rparr>)) k)
                 else Some (err, k))"

definition vsf_eda_target_get :: "'a call_kernel_scheme \<Rightarrow> nat option" where
  "vsf_eda_target_get k =
     (let p = vsf_eda_get_cur k
      in if p = null then None
         else if is_use_frame (feature (calls k p))
         then (case fn_frames (calls k p) of [] \<Rightarrow> None | f # _ \<Rightarrow> Some (f_param f))
         else Some 0)"

definition p_vsf_eda_call_eda_ex_prepare ::
  "nat \<Rightarrow> nat \<Rightarrow> vsf_eda_feature_t \<Rightarrow> nat \<Rightarrow> bool \<Rightarrow> 'a call_kernel_scheme \<Rightarrow> (vsf_err_t \<times> 'a call_kernel_scheme) option" where
  "p_vsf_eda_call_eda_ex_prepare func param st_feature st_local_size is_sub_call k =
     (let p = vsf_eda_get_cur k
      in if func = 0 \<or> p = null then None
         else do {
           (err, k) \<leftarrow>
             (if is_sub_call
              then let (f, k) = vsf_eda_new_frame st_local_size k
                   in case f of
                        None \<Rightarrow> None
                      | Some f \<Rightarrow> Some (VSF_ERR_NONE, upd_call p (p_vsf_eda_push_frame f) k)
              else Some (p_vsf_eda_ensure_frame_used p 0 k));
           (if err \<noteq> VSF_ERR_NONE then Some (err, k)
            else if fn_frames (calls k p) = [] then None
            else
              let c = calls k p;
                  c = upd_top (\<lambda>f. f\<lparr>f_func := func, f_feature := feature c, f_local_size := st_local_size\<rparr>) c;
                  c = c\<lparr>feature := st_feature\<lparr>is_use_frame := True\<rparr>\<rparr>
              in Some (VSF_ERR_NONE, upd_call p (\<lambda>_. upd_top (\<lambda>f. f\<lparr>f_param := param\<rparr>) c) k))})"

definition p_vsf_eda_call_eda_prepare ::
  "nat \<Rightarrow> nat \<Rightarrow> nat \<Rightarrow> 'a call_kernel_scheme \<Rightarrow> (vsf_err_t \<times> 'a call_kernel_scheme) option" where
  "p_vsf_eda_call_eda_prepare evthandler param local_size k =
     p_vsf_eda_call_eda_ex_prepare evthandler param no_feature (local_size mod 2 ^ 16) True k"

definition p_vsf_eda_call_eda_ex ::
  "nat \<Rightarrow> nat \<Rightarrow> vsf_eda_feature_t \<Rightarrow> nat \<Rightarrow> bool \<Rightarrow> 'a call_kernel_scheme \<Rightarrow> (vsf_err_t \<times> 'a call_kernel_scheme) option" where
  "p_vsf_eda_call_eda_ex func param st_feature st_local_size is_sub_call k = do {
     (err, k) \<leftarrow> p_vsf_eda_call_eda_ex_prepare func param st_feature st_local_size is_sub_call k;
     (if err = VSF_ERR_NONE
      then do {
        (e, k) \<leftarrow> vsf_eda_post_evt (vsf_eda_get_cur k) VSF_EVT_INIT k;
        (if e \<noteq> VSF_ERR_NONE then None else Some (err, k))}
      else Some (err, k))}"

definition p_vsf_eda_go_to_ex :: "nat \<Rightarrow> nat \<Rightarrow> 'a call_kernel_scheme \<Rightarrow> (vsf_err_t \<times> 'a call_kernel_scheme) option" where
  "p_vsf_eda_go_to_ex evthandler param k = p_vsf_eda_call_eda_ex evthandler param no_feature 0 False k"

definition p_vsf_eda_call_eda :: "nat \<Rightarrow> nat \<Rightarrow> nat \<Rightarrow> 'a call_kernel_scheme \<Rightarrow> (vsf_err_t \<times> 'a call_kernel_scheme) option" where
  "p_vsf_eda_call_eda evthandler param local_size k =
     p_vsf_eda_call_eda_ex evthandler param no_feature (local_size mod 2 ^ 16) True k"

definition vsf_eda_set_evthandler :: "ptr \<Rightarrow> nat \<Rightarrow> 'a call_kernel_scheme \<Rightarrow> 'a call_kernel_scheme option" where
  "vsf_eda_set_evthandler p evthandler k =
     (if p = null \<or> evthandler = 0 then None
      else if is_use_frame (feature (calls k p))
      then if fn_frames (calls k p) = [] then None
           else Some (upd_call p (upd_top (\<lambda>f. f\<lparr>f_func := evthandler\<rparr>)) k)
      else Some (upd_call p (\<lambda>c. c\<lparr>fn_frames := [], fn_base := evthandler, fn_freed := False\<rparr>) k))"

definition vsf_eda_go_to :: "nat \<Rightarrow> 'a call_kernel_scheme \<Rightarrow> (vsf_err_t \<times> 'a call_kernel_scheme) option" where
  "vsf_eda_go_to evthandler k =
     (let p = vsf_eda_get_cur k
      in if p = null then None
         else do {
           k \<leftarrow> vsf_eda_set_evthandler p evthandler k;
           (err, k) \<leftarrow> vsf_eda_post_evt p VSF_EVT_INIT k;
           (if err \<noteq> VSF_ERR_NONE then None else Some (err, k))})"

section \<open>Starting a task\<close>

text \<open>The priority \<open>None\<close> is \<open>vsf_prio_inherit\<close>.\<close>

definition p_vsf_eda_init_member ::
  "ptr \<Rightarrow> nat option \<Rightarrow> vsf_eda_feature_t \<Rightarrow> 'a call_kernel_scheme \<Rightarrow> 'a call_kernel_scheme option" where
  "p_vsf_eda_init_member p prio feat k = do {
     prio \<leftarrow> (case prio of None \<Rightarrow> cur_evtq k | Some prio \<Rightarrow> Some prio);
     let k = upd_eda p (\<lambda>e. e\<lparr>priority := prio\<rparr>) k;
     let k = upd_eda p (\<lambda>e. e\<lparr>is_new_prio := False, is_to_exit := False, is_limitted := False, is_sync_got := False,
                              is_to_set_due := False, is_timed := False\<rparr>) k;
     let k = upd_call p (\<lambda>c. c\<lparr>feature := feat\<rparr>) k;
     Some (vsf_evtq_on_eda_init p k)}"

definition p_vsf_eda_init ::
  "ptr \<Rightarrow> nat option \<Rightarrow> vsf_eda_feature_t \<Rightarrow> 'a call_kernel_scheme \<Rightarrow> (vsf_err_t \<times> 'a call_kernel_scheme) option" where
  "p_vsf_eda_init p prio feat k =
     (if p = null then None
      else do {
        k \<leftarrow> p_vsf_eda_init_member p prio feat k;
        vsf_eda_post_evt p VSF_EVT_INIT k})"

record vsf_eda_cfg_t =
  cfg_func :: nat
  cfg_priority :: "nat option"
  cfg_feature :: vsf_eda_feature_t
  cfg_local_size :: nat
  cfg_target :: nat

definition vsf_eda_start :: "ptr \<Rightarrow> vsf_eda_cfg_t \<Rightarrow> 'a call_kernel_scheme \<Rightarrow> (vsf_err_t \<times> 'a call_kernel_scheme) option" where
  "vsf_eda_start p cfg k =
     (if p = null \<or> cfg_func cfg = 0 then None
      else
        let k = upd_call p (\<lambda>c. c\<lparr>fn_frames := [], fn_base := cfg_func cfg, fn_freed := False\<rparr>) k;
            cfg = (if cfg_target cfg \<noteq> 0 \<or> is_subcall_has_return_value (cfg_feature cfg)
                   then cfg\<lparr>cfg_feature := (cfg_feature cfg)\<lparr>is_use_frame := True\<rparr>\<rparr> else cfg)
        in if \<not> is_use_frame (cfg_feature cfg) then p_vsf_eda_init p (cfg_priority cfg) (cfg_feature cfg) k
           else
             let (f, k) = vsf_eda_new_frame (cfg_local_size cfg) k
             in case f of
                  None \<Rightarrow> None
                | Some f \<Rightarrow> do {
                    let f = f\<lparr>f_func := cfg_func cfg, f_param := cfg_target cfg, f_feature := cfg_feature cfg\<rparr>;
                    k \<leftarrow> p_vsf_eda_init_member p (cfg_priority cfg) (cfg_feature cfg) k;
                    let k = upd_call p (\<lambda>c. c\<lparr>fn_frames := [f], fn_base := 0\<rparr>) k;
                    vsf_eda_post_evt p VSF_EVT_INIT k})"

text \<open>The kernel task gets the handler of the kernel, \<open>kernel_fn\<close>.\<close>

definition vsf_kernel_start ::
  "nat \<Rightarrow> nat \<Rightarrow> nat \<Rightarrow> nat \<Rightarrow> 'a call_kernel_scheme \<Rightarrow> (vsf_err_t \<times> 'a call_kernel_scheme) option" where
  "vsf_kernel_start kernel_fn highest_prio freq bits k = do {
     let k = p_vsf_systimer_init freq bits k;
     let k = upd_call (ktask k) (\<lambda>c. c\<lparr>fn_frames := [], fn_base := kernel_fn, fn_freed := False\<rparr>) k;
     (err, k) \<leftarrow> p_vsf_eda_init (ktask k) (Some highest_prio) no_feature k;
     Some (err, if err = VSF_ERR_NONE then p_vsf_systimer_start k else k)}"

section \<open>Calls and the event queues\<close>

lemma upd_call_fields [simp]:
  "calls (upd_call p f k) = (calls k)(p := f (calls k p))" "frame_cnt (upd_call p f k) = frame_cnt k"
  "edas (upd_call p f k) = edas k" "evtqs (upd_call p f k) = evtqs k" "cur_evtq (upd_call p f k) = cur_evtq k"
  "node_cnt (upd_call p f k) = node_cnt k"
  by (simp_all add: upd_call_def)

lemma free_frame_fields [simp]:
  "calls (vsf_eda_free_frame k) = calls k" "frame_cnt (vsf_eda_free_frame k) = Suc (frame_cnt k)"
  "edas (vsf_eda_free_frame k) = edas k" "evtqs (vsf_eda_free_frame k) = evtqs k"
  "cur_evtq (vsf_eda_free_frame k) = cur_evtq k" "node_cnt (vsf_eda_free_frame k) = node_cnt k"
  by (simp_all add: vsf_eda_free_frame_def)

text \<open>The invariant of the event queues does not depend on the frames.\<close>

lemma evtq_ok_frames:
  assumes "evtq_ok N k" "edas k' = edas k" "evtqs k' = evtqs k" "node_cnt k' = node_cnt k"
  shows "evtq_ok N k'"
  by (rule evtq_ok_cong [OF assms(1)]) (use assms in \<open>auto simp: evts_def evtq_ok_def prio_ok_def fun_eq_iff\<close>)

lemma same_queues:
  assumes "edas k0 = edas k" "evtqs k0 = evtqs k" "cur_evtq k0 = cur_evtq k"
  shows "vsf_eda_get_cur k0 = vsf_eda_get_cur k" "evts k0 = evts k"
  using assms by (simp_all add: vsf_eda_get_cur_def evts_def fun_eq_iff split: option.splits)

text \<open>A post to the current task, with what it changes.\<close>

lemma post_cur:
  fixes k :: "'a call_kernel_scheme"
  assumes "evtq_ok N k" "p \<noteq> null" "0 < node_cnt k" "\<not> is_limitted (edas k p)"
  shows "\<exists>k'. vsf_eda_post_evt p evt k = Some (VSF_ERR_NONE, k') \<and> evtq_ok N k' \<and> calls k' = calls k
    \<and> frame_cnt k' = frame_cnt k \<and> evts k' = (evts k)(p := evts k p @ [(evt, null)]) \<and> vsf_eda_get_cur k' = vsf_eda_get_cur k
    \<and> Suc (node_cnt k') = node_cnt k \<and> is_limitted (edas k' p) = is_limitted (edas k p)"
proof (intro exI conjI)
  show "vsf_eda_post_evt p evt k = Some (VSF_ERR_NONE, posted p evt null k)"
    using post_eq [OF assms(1-3), of evt null False] assms(2,4)
    by (simp add: vsf_eda_post_evt_def vsf_evtq_post_evt_def vsf_evtq_post_evt_ex_def)
  show "evtq_ok N (posted p evt null k)" by (rule posted_ok [OF assms(1-3)])
  show "vsf_eda_get_cur (posted p evt null k) = vsf_eda_get_cur k"
    by (simp add: vsf_eda_get_cur_def split: option.splits) (simp add: posted_def Let_def)
qed (use assms in \<open>simp_all add: posted_def Let_def evts_def fun_eq_iff\<close>)

lemma call_upd_order: "c\<lparr>feature := a, fn_frames := b\<rparr> = c\<lparr>fn_frames := b, feature := a\<rparr>"
  by (cases c) simp

lemma call_eda_eq:
  fixes k :: "'a call_kernel_scheme" and evthandler param local_size :: nat
  assumes K: "evtq_ok N k" and p: "vsf_eda_get_cur k = p" "p \<noteq> null" "0 < node_cnt k" "\<not> is_limitted (edas k p)"
    and h: "evthandler \<noteq> 0" "0 < frame_cnt k"
  defines "f \<equiv> \<lparr>f_func = evthandler, f_feature = feature (calls k p), f_local_size = local_size mod 2 ^ 16, f_param = param\<rparr>"
  shows "\<exists>k'. p_vsf_eda_call_eda evthandler param local_size k = Some (VSF_ERR_NONE, k') \<and> evtq_ok N k'
    \<and> calls k' = (calls k)(p := (calls k p)\<lparr>fn_frames := f # fn_frames (calls k p), feature := no_feature\<lparr>is_use_frame := True\<rparr>\<rparr>)
    \<and> Suc (frame_cnt k') = frame_cnt k \<and> Suc (node_cnt k') = node_cnt k \<and> \<not> is_limitted (edas k' p)
    \<and> evts k' = (evts k)(p := evts k p @ [(VSF_EVT_INIT, null)]) \<and> vsf_eda_get_cur k' = p"
proof -
  define k0 where "k0 = upd_call p (\<lambda>c. c\<lparr>fn_frames := f # fn_frames c, feature := no_feature\<lparr>is_use_frame := True\<rparr>\<rparr>)
    (k\<lparr>frame_cnt := frame_cnt k - 1\<rparr>)"
  have F: "edas k0 = edas k" "evtqs k0 = evtqs k" "node_cnt k0 = node_cnt k" "cur_evtq k0 = cur_evtq k"
    "calls k0 = (calls k)(p := (calls k p)\<lparr>fn_frames := f # fn_frames (calls k p), feature := no_feature\<lparr>is_use_frame := True\<rparr>\<rparr>)"
    "Suc (frame_cnt k0) = frame_cnt k" using h by (simp_all add: k0_def)
  then have g: "vsf_eda_get_cur k0 = p" "evts k0 = evts k" using same_queues [OF F(1,2,4)] p(1) by simp_all
  have "p_vsf_eda_call_eda_ex_prepare evthandler param no_feature (local_size mod 2 ^ 16) True k = Some (VSF_ERR_NONE, k0)"
    using p h by (simp add: call_upd_order p_vsf_eda_call_eda_ex_prepare_def vsf_eda_new_frame_def p_vsf_eda_push_frame_def upd_top_def
        k0_def f_def upd_call_def Let_def)
  moreover obtain k' where "vsf_eda_post_evt p VSF_EVT_INIT k0 = Some (VSF_ERR_NONE, k')" "evtq_ok N k'" "calls k' = calls k0"
    "frame_cnt k' = frame_cnt k0" "evts k' = (evts k0)(p := evts k0 p @ [(VSF_EVT_INIT, null)])"
    "vsf_eda_get_cur k' = vsf_eda_get_cur k0" "Suc (node_cnt k') = node_cnt k0" "is_limitted (edas k' p) = is_limitted (edas k0 p)"
    using post_cur [OF evtq_ok_frames [OF K F(1-3)], of p VSF_EVT_INIT] p F by auto
  ultimately show ?thesis using F g p by (simp add: p_vsf_eda_call_eda_def p_vsf_eda_call_eda_ex_def)
qed

text \<open>
  A task whose only frame was made for it by \<open>vsf_eda_target_set\<close>; the other states of calls the code
  can return to are sound.
\<close>

definition forced_frame :: "eda_call \<Rightarrow> bool" where
  "forced_frame c = (is_use_frame (feature c) \<and> fn_base c = 0 \<and> \<not> fn_freed c
     \<and> (case fn_frames c of [f] \<Rightarrow> \<not> is_use_frame (f_feature f) | _ \<Rightarrow> False))"

definition call_ok :: "eda_call \<Rightarrow> bool" where
  "call_ok c = (\<not> fn_freed c \<and> (is_use_frame (feature c) \<longrightarrow> fn_frames c \<noteq> []))"

lemma return_eq:
  fixes k :: "'a call_kernel_scheme"
  assumes K: "evtq_ok N k" and p: "vsf_eda_get_cur k = p" "p \<noteq> null" "0 < node_cnt k" "\<not> is_limitted (edas k p)"
    and c: "calls k p = c\<lparr>fn_frames := f # fn_frames c, feature := no_feature\<lparr>is_use_frame := True\<rparr>\<rparr>"
      "f_feature f = feature c" "call_ok c"
  shows "\<exists>k'. p_vsf_eda_return v k = Some (False, k') \<and> evtq_ok N k'
    \<and> calls k' = (calls k)(p := if forced_frame c
        then c\<lparr>return_value := v, feature := f_feature (hd (fn_frames c)), fn_frames := [], fn_freed := True\<rparr>
        else c\<lparr>return_value := v\<rparr>)
    \<and> frame_cnt k' = (if forced_frame c then frame_cnt k + 2 else frame_cnt k + 1)
    \<and> evts k' = (evts k)(p := evts k p @ [(VSF_EVT_RETURN, null)]) \<and> vsf_eda_get_cur k' = p"
proof -
  define c1 where "c1 = c\<lparr>return_value := v\<rparr>"
  define c2 where "c2 = (if forced_frame c then c1\<lparr>feature := f_feature (hd (fn_frames c)), fn_frames := [], fn_freed := True\<rparr> else c1)"
  define k0 where "k0 = (k\<lparr>calls := (calls k)(p := c2), frame_cnt := frame_cnt k + (if forced_frame c then 2 else 1)\<rparr>)"
  have F: "edas k0 = edas k" "evtqs k0 = evtqs k" "node_cnt k0 = node_cnt k" "cur_evtq k0 = cur_evtq k" by (simp_all add: k0_def)
  then have g: "vsf_eda_get_cur k0 = p" "evts k0 = evts k" using same_queues [OF F(1,2,4)] p(1) by simp_all
  obtain k' where k': "vsf_eda_post_evt p VSF_EVT_RETURN k0 = Some (VSF_ERR_NONE, k')" "evtq_ok N k'" "calls k' = calls k0"
    "frame_cnt k' = frame_cnt k0" "evts k' = (evts k0)(p := evts k0 p @ [(VSF_EVT_RETURN, null)])" "vsf_eda_get_cur k' = vsf_eda_get_cur k0"
    using post_cur [OF evtq_ok_frames [OF K F(1-3)], of p VSF_EVT_RETURN] p F by auto
  have "c\<lparr>fn_frames := fn_frames c, feature := feature c, return_value := v\<rparr> = c1" by (cases c) (simp add: c1_def)
  then have "p_vsf_eda_return v k = Option.bind (vsf_eda_post_evt p VSF_EVT_RETURN k0) (\<lambda>(_, k). Some (False, k))"
    using p(1,2) c by (auto simp: p_vsf_eda_return_def c1_def c2_def k0_def p_vsf_eda_pop_frame_def p_vsf_eda_peek_frame_def
        forced_frame_def call_ok_def upd_call_def vsf_eda_free_frame_def Let_def split: list.splits)
  then show ?thesis using k' g p by (auto simp: k0_def c2_def c1_def)
qed

lemma fini_frames_all:
  assumes "is_use_frame (feature c)" "fn_frames c = fs" "\<forall>f \<in> set fs. is_use_frame (f_feature f)" "fn_base c = 0" "\<not> fn_freed c"
  shows "\<exists>c'. fini_frames fs c k = Some (c', k\<lparr>frame_cnt := frame_cnt k + length fs\<rparr>) \<and> fn_frames c' = []"
  using assms
proof (induction fs arbitrary: c k)
  case (Cons f fs)
  from Cons.IH [of "c\<lparr>fn_frames := fs, feature := f_feature f\<rparr>" "vsf_eda_free_frame k"] Cons.prems
  show ?case by (simp add: vsf_eda_free_frame_def)
qed (auto intro!: exI [of _ c])

section \<open>Properties\<close>

text \<open>
  C21. A call and its return: \<open>__vsf_eda_call_eda\<close> posts \<open>VSF_EVT_INIT\<close> to the running task and every event of the
  task then goes to the callee, with its frame when it has a parameter or local variables. In every later
  state that has the same frames, \<open>__vsf_eda_return\<close> posts \<open>VSF_EVT_RETURN\<close>, frees the frame and leaves the
  caller with the handler, frames and features it had before the call and the return value, provided
  the caller does not run on a frame that was only made by \<open>vsf_eda_target_set\<close>.
\<close>

theorem eda_call_return:
  fixes k :: "'a call_kernel_scheme"
  assumes "evtq_ok N k" "vsf_eda_get_cur k = p" "p \<noteq> null" "0 < node_cnt k" "\<not> is_limitted (edas k p)"
    and "evthandler \<noteq> 0" "0 < frame_cnt k" "call_ok (calls k p)" "\<not> forced_frame (calls k p)"
  shows "\<exists>k1. p_vsf_eda_call_eda evthandler param local_size k = Some (VSF_ERR_NONE, k1) \<and> evtq_ok N k1
    \<and> evts k1 = (evts k)(p := evts k p @ [(VSF_EVT_INIT, null)]) \<and> Suc (frame_cnt k1) = frame_cnt k
    \<and> (\<forall>run evt. p_vsf_dispatch_evt run p evt k1 =
          run (if param = 0 \<and> local_size mod 2 ^ 16 = 0 then Pure_handler else Param_handler) evthandler p evt k1)
    \<and> (\<forall>k2 :: 'a call_kernel_scheme. evtq_ok N k2 \<and> vsf_eda_get_cur k2 = p \<and> 0 < node_cnt k2 \<and> \<not> is_limitted (edas k2 p)
          \<and> calls k2 p = calls k1 p \<longrightarrow>
        (\<exists>k3. p_vsf_eda_return v k2 = Some (False, k3) \<and> evtq_ok N k3 \<and> frame_cnt k3 = Suc (frame_cnt k2)
          \<and> calls k3 = (calls k2)(p := (calls k p)\<lparr>return_value := v\<rparr>)
          \<and> evts k3 = (evts k2)(p := evts k2 p @ [(VSF_EVT_RETURN, null)])))"
proof -
  define f where "f = \<lparr>f_func = evthandler, f_feature = feature (calls k p), f_local_size = local_size mod 2 ^ 16, f_param = param\<rparr>"
  obtain k1 where k1: "p_vsf_eda_call_eda evthandler param local_size k = Some (VSF_ERR_NONE, k1)" "evtq_ok N k1"
    "calls k1 = (calls k)(p := (calls k p)\<lparr>fn_frames := f # fn_frames (calls k p), feature := no_feature\<lparr>is_use_frame := True\<rparr>\<rparr>)"
    "Suc (frame_cnt k1) = frame_cnt k" "evts k1 = (evts k)(p := evts k p @ [(VSF_EVT_INIT, null)])"
    using call_eda_eq [OF assms(1-7), of param local_size, folded f_def] by (elim exE conjE) (rule that; assumption)
  have "p_vsf_dispatch_evt run p evt k1 =
      run (if param = 0 \<and> local_size mod 2 ^ 16 = 0 then Pure_handler else Param_handler) evthandler p evt k1" for run evt
    using assms(3,6) by (simp add: p_vsf_dispatch_evt_def k1(3) no_feature_def f_def)
  moreover have "\<exists>k3. p_vsf_eda_return v k2 = Some (False, k3) \<and> evtq_ok N k3 \<and> frame_cnt k3 = Suc (frame_cnt k2)
      \<and> calls k3 = (calls k2)(p := (calls k p)\<lparr>return_value := v\<rparr>) \<and> evts k3 = (evts k2)(p := evts k2 p @ [(VSF_EVT_RETURN, null)])"
    if a: "evtq_ok N k2" "vsf_eda_get_cur k2 = p" "0 < node_cnt k2" "\<not> is_limitted (edas k2 p)" "calls k2 p = calls k1 p" for k2
  proof -
    have "calls k2 p = (calls k p)\<lparr>fn_frames := f # fn_frames (calls k p), feature := no_feature\<lparr>is_use_frame := True\<rparr>\<rparr>"
      using a(5) k1(3) by simp
    from return_eq [OF a(1,2) assms(3) a(3,4) this _ assms(8)] assms(9) show ?thesis by (auto simp: f_def)
  qed
  ultimately show ?thesis using k1 by blast
qed

definition call_example :: "eda_call \<Rightarrow> call_kernel" where
  "call_example c = (kernel_example \<lparr>calls = (\<lambda>_. c), frame_cnt = 4\<rparr>)
     \<lparr>edas := (\<lambda>p. if p = 200 then idle_eda\<lparr>priority := 1, cur_priority := 1, is_ready := True\<rparr> else idle_eda),
      evtqs := [idle_evtq, idle_evtq\<lparr>rdy_list := [200], cur_eda := 200, cur_evt := 5\<rparr>], cur_evtq := Some 1\<rparr>"

lemma call_example_ok:
  "evtq_ok 16 (call_example c)" "vsf_eda_get_cur (call_example c) = 200" "node_cnt (call_example c) = 16"
  "\<not> is_limitted (edas (call_example c) 200)" "frame_cnt (call_example c) = 4" "calls (call_example c) p = c"
  by (auto simp: evtq_ok_def rdy_ok_def prio_ok_def evts_ok_def cur_ok_def nodes_ok_def evts_def evt_total_def
      call_example_def kernel_example_def idle_eda_def idle_evtq_def vsf_eda_get_cur_def less_Suc_eq)

definition plain_call :: "nat \<Rightarrow> eda_call" where
  "plain_call h = \<lparr>fn_frames = [], fn_base = h, fn_freed = False, feature = no_feature, return_value = 0\<rparr>"

theorem eda_call_return_witness:
  "\<exists>k1. p_vsf_eda_call_eda 9 3 0 (call_example (plain_call 7)) = Some (VSF_ERR_NONE, k1) \<and> frame_cnt k1 = 3
    \<and> (\<forall>run evt. p_vsf_dispatch_evt run 200 evt k1 = run Param_handler 9 200 evt k1)"
proof -
  have "call_ok (plain_call 7)" "\<not> forced_frame (plain_call 7)"
    by (simp_all add: call_ok_def forced_frame_def plain_call_def no_feature_def)
  then show ?thesis
    using eda_call_return [OF call_example_ok(1,2), of "plain_call 7" 9 3 0] by (simp add: call_example_ok) metis
qed

text \<open>
  A sub-call of a task after \<open>vsf_eda_target_set\<close>: the task was started without frames, so a frame is made
  for the target. The return of the sub-call frees this frame too, but \<open>fn\<close> still points to it, and the
  \<open>VSF_EVT_RETURN\<close> that is posted cannot be dispatched: the freed frame is called as an event handler.
\<close>

theorem eda_target_call_dangles:
  fixes k :: "'a call_kernel_scheme"
  assumes "evtq_ok N k" "vsf_eda_get_cur k = p" "p \<noteq> null" "1 < node_cnt k" "\<not> is_limitted (edas k p)"
    and "evthandler \<noteq> 0" "1 < frame_cnt k" "calls k p = plain_call h"
  shows "\<exists>k1 k2 k3. vsf_eda_target_set target k = Some (VSF_ERR_NONE, k1)
    \<and> p_vsf_eda_call_eda evthandler param local_size k1 = Some (VSF_ERR_NONE, k2)
    \<and> p_vsf_eda_return v k2 = Some (False, k3) \<and> frame_cnt k3 = frame_cnt k
    \<and> evts k3 = (evts k)(p := evts k p @ [(VSF_EVT_INIT, null), (VSF_EVT_RETURN, null)])
    \<and> p_vsf_dispatch_evt run p VSF_EVT_RETURN k3 = None"
proof -
  define g where "g = \<lparr>f_func = h, f_feature = no_feature, f_local_size = 0, f_param = target\<rparr>"
  define c where "c = (plain_call h)\<lparr>fn_base := 0, fn_frames := [g], feature := no_feature\<lparr>is_use_frame := True\<rparr>\<rparr>"
  define k1 where "k1 = upd_call p (\<lambda>_. c) (k\<lparr>frame_cnt := frame_cnt k - 1\<rparr>)"
  have F: "edas k1 = edas k" "evtqs k1 = evtqs k" "node_cnt k1 = node_cnt k" "cur_evtq k1 = cur_evtq k" "calls k1 p = c"
    "Suc (frame_cnt k1) = frame_cnt k" using assms(7) by (simp_all add: k1_def)
  have 1: "vsf_eda_target_set target k = Some (VSF_ERR_NONE, k1)"
    using assms(2,3,7,8) by (simp add: vsf_eda_target_set_def p_vsf_eda_ensure_frame_used_def vsf_eda_new_frame_def upd_top_def
        p_vsf_eda_push_frame_def k1_def c_def g_def plain_call_def no_feature_def upd_call_def Let_def)
  note same = same_queues [OF F(1,2,4)]
  define f where "f = \<lparr>f_func = evthandler, f_feature = feature c, f_local_size = local_size mod 2 ^ 16, f_param = param\<rparr>"
  obtain k2 where k2: "p_vsf_eda_call_eda evthandler param local_size k1 = Some (VSF_ERR_NONE, k2)" "evtq_ok N k2"
    "calls k2 p = c\<lparr>fn_frames := f # fn_frames c, feature := no_feature\<lparr>is_use_frame := True\<rparr>\<rparr>" "Suc (frame_cnt k2) = frame_cnt k1"
    "0 < node_cnt k2" "\<not> is_limitted (edas k2 p)" "evts k2 = (evts k)(p := evts k p @ [(VSF_EVT_INIT, null)])" "vsf_eda_get_cur k2 = p"
    using call_eda_eq [OF evtq_ok_frames [OF assms(1) F(1-3)], of p evthandler param local_size] assms(2-7) same F f_def by auto
  have c: "call_ok c" "forced_frame c" by (simp_all add: c_def call_ok_def forced_frame_def g_def no_feature_def plain_call_def)
  obtain k3 where k3: "p_vsf_eda_return v k2 = Some (False, k3)" "frame_cnt k3 = frame_cnt k2 + 2"
    "calls k3 p = c\<lparr>return_value := v, feature := no_feature, fn_frames := [], fn_freed := True\<rparr>"
    "evts k3 = (evts k2)(p := evts k2 p @ [(VSF_EVT_RETURN, null)])"
    using return_eq [OF k2(2,8) assms(3) k2(5,6,3) _ c(1), of v] c by (auto simp: f_def c_def g_def)
  have "p_vsf_dispatch_evt run p VSF_EVT_RETURN k3 = None" using assms(3) by (simp add: p_vsf_dispatch_evt_def k3 no_feature_def)
  then show ?thesis using 1 k2 k3 F by auto
qed

theorem eda_target_call_dangles_witness:
  "\<exists>k1 k2 k3. vsf_eda_target_set 1 (call_example (plain_call 7)) = Some (VSF_ERR_NONE, k1)
    \<and> p_vsf_eda_call_eda 9 0 0 k1 = Some (VSF_ERR_NONE, k2) \<and> p_vsf_eda_return 0 k2 = Some (False, k3)
    \<and> p_vsf_dispatch_evt (\<lambda>_ _ _ _ k. Some k) 200 VSF_EVT_RETURN k3 = None"
  using eda_target_call_dangles [OF call_example_ok(1,2), of "plain_call 7" 9 7 1 0 0 0 "\<lambda>_ _ _ _ k. Some k"]
  by (simp add: call_example_ok) blast

text \<open>
  The end of a task that runs on frames, none of them made by \<open>vsf_eda_target_set\<close>, gives every frame back.
\<close>

lemma eda_fini_frees_frames:
  fixes k :: "'a call_kernel_scheme"
  assumes "evtq_ok N k" "p \<noteq> null" "cur_eda (evtqs k ! cur_priority (edas k p)) \<noteq> p" "\<not> is_timed (edas k p)"
    and "is_use_frame (feature (calls k p))" "\<forall>f \<in> set (fn_frames (calls k p)). is_use_frame (f_feature f)"
      "fn_base (calls k p) = 0" "\<not> fn_freed (calls k p)"
  shows "\<exists>k'. vsf_eda_fini p k = Some (VSF_ERR_NONE, k') \<and> evtq_ok N k'
    \<and> frame_cnt k' = frame_cnt k + length (fn_frames (calls k p)) \<and> fn_frames (calls k' p) = [] \<and> ended k' = ended k @ [p]"
proof -
  define k0 where "k0 = upd_eda p (\<lambda>e. e\<lparr>is_to_set_due := False\<rparr>) k"
  define n where "n = frame_cnt k + length (fn_frames (calls k p))"
  have k0: "calls k0 = calls k" "frame_cnt k0 = frame_cnt k" "ended k0 = ended k" by (simp_all add: k0_def upd_eda_def)
  obtain c where c: "fini_frames (fn_frames (calls k p)) (calls k p) k0 = Some (c, k0\<lparr>frame_cnt := n\<rparr>)" "fn_frames c = []"
    using fini_frames_all [OF assms(5) refl assms(6-8), of k0] unfolding k0 n_def by blast
  define k1 where "k1 = upd_call p (\<lambda>_. c) (k0\<lparr>frame_cnt := n\<rparr>)"
  have cur: "cur_eda (evtqs k1 ! cur_priority (edas k1 p)) \<noteq> p" using assms(3) by (simp add: k1_def k0_def)
  have k1: "evtq_ok N k1" by (rule evtq_ok_cong [OF assms(1)])
      (use assms(1) in \<open>auto simp: k1_def k0_def evts_def evtq_ok_def prio_ok_def fun_eq_iff split: if_splits\<close>)
  have "p_vsf_teda_cancel_timer p k = Some k0"
    using assms(2,4) by (simp add: p_vsf_teda_cancel_timer_def p_vsf_eda_get_valid_eda_def k0_def)
  then have "vsf_eda_fini p k = map_option (Pair VSF_ERR_NONE) (vsf_evtq_on_eda_fini p k1)"
    using assms(2) c(1) k0 by (simp add: vsf_eda_fini_def p_vsf_eda_get_valid_eda_def k1_def map_conv_bind_option comp_def)
  with fini_eq [OF k1 cur] ended_ok [OF k1 cur assms(2)] c(2) k0 show ?thesis
    by (auto simp: ended_state_def Let_def k1_def upd_call_def n_def)
qed

end
