(* ===== verification/VSF_Evtq_Array.thy ===== *)
theory VSF_Evtq_Array
  imports VSF_Kernel VSF_Ring
begin

text \<open>
  The event queues of a kernel without dynamic priorities, \<open>src/source/kernel/vsf_evtq_array.c\<close>: one ring of
  event nodes for each priority and a count of events in each task. The functions have the names of
  the list implementation in the source; here they end in \<open>_array\<close>.
\<close>

section \<open>Data\<close>

record array_evt_node =
  node_eda :: ptr
  node_evt :: vsf_evt_t
  node_msg :: ptr

text \<open>\<open>nodes\<close> has \<open>2 ^ bitsize\<close> elements.\<close>

record array_evtq =
  bitsize :: nat
  nodes :: "array_evt_node list"
  head :: nat
  tail :: nat
  a_cur_eda :: ptr
  a_cur_evt :: vsf_evt_t
  a_cur_msg :: ptr

record array_eda =
  a_priority :: nat
  evt_cnt :: nat
  a_is_to_exit :: bool
  a_is_limitted :: bool

record array_kernel =
  a_edas :: "ptr \<Rightarrow> array_eda"
  a_evtqs :: "array_evtq list"
  a_cur_evtq :: "nat option"
  a_swi_pending :: "nat set"
  a_ended :: "ptr list"

definition upd_aeda :: "ptr \<Rightarrow> (array_eda \<Rightarrow> array_eda) \<Rightarrow> 'a array_kernel_scheme \<Rightarrow> 'a array_kernel_scheme" where
  "upd_aeda p f k = k\<lparr>a_edas := (a_edas k)(p := f (a_edas k p))\<rparr>"

definition upd_aevtq :: "nat \<Rightarrow> (array_evtq \<Rightarrow> array_evtq) \<Rightarrow> 'a array_kernel_scheme \<Rightarrow> 'a array_kernel_scheme" where
  "upd_aevtq q f k = k\<lparr>a_evtqs := (a_evtqs k)[q := f (a_evtqs k ! q)]\<rparr>"

section \<open>Operations\<close>

definition vsf_evtq_on_eda_init_array :: "ptr \<Rightarrow> 'a array_kernel_scheme \<Rightarrow> 'a array_kernel_scheme" where
  "vsf_evtq_on_eda_init_array p = upd_aeda p (\<lambda>e. e\<lparr>evt_cnt := 0\<rparr>)"

definition p_vsf_eda_terminate_array :: "ptr \<Rightarrow> 'a array_kernel_scheme \<Rightarrow> (bool \<times> 'a array_kernel_scheme) option" where
  "p_vsf_eda_terminate_array p k =
     (if p = null then None
      else if evt_cnt (a_edas k p) = 0 then Some (True, k\<lparr>a_ended := a_ended k @ [p]\<rparr>)
      else Some (False, k))"

definition vsf_evtq_on_eda_fini_array :: "ptr \<Rightarrow> 'a array_kernel_scheme \<Rightarrow> 'a array_kernel_scheme option" where
  "vsf_evtq_on_eda_fini_array p k = do {
     (term, k) \<leftarrow> p_vsf_eda_terminate_array p k;
     Some (if \<not> term then upd_aeda p (\<lambda>e. e\<lparr>a_is_to_exit := True\<rparr>) k else k)}"

definition vsf_evtq_init_array :: "nat \<Rightarrow> 'a array_kernel_scheme \<Rightarrow> 'a array_kernel_scheme option" where
  "vsf_evtq_init_array q k =
     (if q < length (a_evtqs k)
      then Some (upd_aevtq q (\<lambda>Q. Q\<lparr>a_cur_eda := null, a_cur_evt := VSF_EVT_INVALID, a_cur_msg := null, head := 0, tail := 0\<rparr>) k)
      else None)"

text \<open>A full queue fails the assertion behind the test.\<close>

definition p_vsf_evtq_post_array ::
  "ptr \<Rightarrow> vsf_evt_t \<Rightarrow> ptr \<Rightarrow> bool \<Rightarrow> 'a array_kernel_scheme \<Rightarrow> (vsf_err_t \<times> 'a array_kernel_scheme) option" where
  "p_vsf_evtq_post_array eda evt msg force k =
     (let q = a_priority (a_edas k eda)
      in if eda = null \<or> length (a_evtqs k) \<le> q then None
         else if evt_cnt (a_edas k eda) \<noteq> 0 \<and> a_is_limitted (a_edas k eda) \<and> \<not> force then Some (VSF_ERR_FAIL, k)
         else
           let Q = a_evtqs k ! q;
               t = tail Q;
               tail_next = (t + 1) mod 2 ^ bitsize Q
           in if tail_next = head Q \<or> length (nodes Q) \<le> t then None
              else
                let Q = Q\<lparr>tail := tail_next, nodes := (nodes Q)[t := \<lparr>node_eda = eda, node_evt = evt, node_msg = msg\<rparr>]\<rparr>;
                    k = upd_aevtq q (\<lambda>_. Q) k;
                    k = upd_aeda eda (\<lambda>e. e\<lparr>evt_cnt := (evt_cnt e + 1) mod 2 ^ 8\<rparr>) k
                in Some (VSF_ERR_NONE, k\<lparr>a_swi_pending := insert q (a_swi_pending k)\<rparr>))"

definition vsf_evtq_post_evt_ex_array ::
  "ptr \<Rightarrow> vsf_evt_t \<Rightarrow> bool \<Rightarrow> 'a array_kernel_scheme \<Rightarrow> (vsf_err_t \<times> 'a array_kernel_scheme) option" where
  "vsf_evtq_post_evt_ex_array p evt force k = p_vsf_evtq_post_array p evt null force k"

definition vsf_evtq_post_evt_array ::
  "ptr \<Rightarrow> vsf_evt_t \<Rightarrow> 'a array_kernel_scheme \<Rightarrow> (vsf_err_t \<times> 'a array_kernel_scheme) option" where
  "vsf_evtq_post_evt_array p evt k = vsf_evtq_post_evt_ex_array p evt False k"

definition vsf_evtq_post_msg_array ::
  "ptr \<Rightarrow> ptr \<Rightarrow> 'a array_kernel_scheme \<Rightarrow> (vsf_err_t \<times> 'a array_kernel_scheme) option" where
  "vsf_evtq_post_msg_array p msg k = p_vsf_evtq_post_array p VSF_EVT_MESSAGE msg False k"

definition vsf_evtq_post_evt_msg_array ::
  "ptr \<Rightarrow> vsf_evt_t \<Rightarrow> ptr \<Rightarrow> 'a array_kernel_scheme \<Rightarrow> (vsf_err_t \<times> 'a array_kernel_scheme) option" where
  "vsf_evtq_post_evt_msg_array p evt msg k = p_vsf_evtq_post_array p evt msg False k"

definition vsf_evtq_is_empty_array :: "nat \<Rightarrow> 'a array_kernel_scheme \<Rightarrow> bool" where
  "vsf_evtq_is_empty_array q k = (head (a_evtqs k ! q) = tail (a_evtqs k ! q))"

text \<open>The loop of \<open>vsf_evtq_clean_evt\<close> over the used nodes, \<open>n\<close> of them from position \<open>i\<close>.\<close>

fun clean_nodes :: "ptr \<Rightarrow> vsf_evt_t \<Rightarrow> nat \<Rightarrow> nat \<Rightarrow> nat \<Rightarrow> array_evt_node list \<Rightarrow> array_evt_node list" where
  "clean_nodes eda evt sz i 0 ns = ns"
| "clean_nodes eda evt sz i (Suc n) ns =
     clean_nodes eda evt sz ((i + 1) mod sz) n
       (if node_eda (ns ! i) = eda \<and> (evt = VSF_EVT_NONE \<or> node_evt (ns ! i) = evt)
        then ns[i := (ns ! i)\<lparr>node_eda := null\<rparr>] else ns)"

definition used_nodes :: "array_evtq \<Rightarrow> nat" where
  "used_nodes Q = (tail Q + 2 ^ bitsize Q - head Q) mod 2 ^ bitsize Q"

definition vsf_evtq_clean_evt_array :: "vsf_evt_t \<Rightarrow> 'a array_kernel_scheme \<Rightarrow> 'a array_kernel_scheme option" where
  "vsf_evtq_clean_evt_array evt k = do {
     c \<leftarrow> a_cur_evtq k;
     let eda = a_cur_eda (a_evtqs k ! c);
     (if eda = null \<or> length (a_evtqs k) \<le> a_priority (a_edas k eda) then None
      else Some (upd_aevtq (a_priority (a_edas k eda))
        (\<lambda>Q. Q\<lparr>nodes := clean_nodes eda evt (2 ^ bitsize Q) (head Q) (used_nodes Q) (nodes Q)\<rparr>) k))}"

definition evtq_poll_one_array ::
  "(ptr \<Rightarrow> vsf_evt_t \<Rightarrow> 'a array_kernel_scheme \<Rightarrow> 'a array_kernel_scheme option) \<Rightarrow> nat \<Rightarrow>
   'a array_kernel_scheme \<Rightarrow> 'a array_kernel_scheme option" where
  "evtq_poll_one_array dispatch q k =
     (let n = nodes (a_evtqs k ! q) ! head (a_evtqs k ! q);
          k = upd_aevtq q (\<lambda>Q. Q\<lparr>head := (head Q + 1) mod 2 ^ bitsize Q\<rparr>) k;
          eda = node_eda n
      in if eda = null then Some k
         else do {
           k \<leftarrow> (if \<not> a_is_to_exit (a_edas k eda)
                then dispatch eda (node_evt n)
                  (upd_aevtq q (\<lambda>Q. Q\<lparr>a_cur_eda := eda, a_cur_evt := node_evt n, a_cur_msg := node_msg n\<rparr>) k)
                else Some k);
           let k = upd_aevtq q (\<lambda>Q. Q\<lparr>a_cur_eda := null, a_cur_evt := VSF_EVT_INVALID, a_cur_msg := null\<rparr>) k;
           let k = upd_aeda eda (\<lambda>e. e\<lparr>evt_cnt := (evt_cnt e + 255) mod 2 ^ 8\<rparr>) k;
           (if a_is_to_exit (a_edas k eda)
            then map_option snd (p_vsf_eda_terminate_array eda k)
            else Some k)})"

partial_function (option) vsf_evtq_poll_array ::
  "(ptr \<Rightarrow> vsf_evt_t \<Rightarrow> 'a array_kernel_scheme \<Rightarrow> 'a array_kernel_scheme option) \<Rightarrow> nat \<Rightarrow>
   'a array_kernel_scheme \<Rightarrow> 'a array_kernel_scheme option" where
  "vsf_evtq_poll_array dispatch q k =
     (if vsf_evtq_is_empty_array q k then Some k
      else Option.bind (evtq_poll_one_array dispatch q k) (vsf_evtq_poll_array dispatch q))"

section \<open>Rings of nodes\<close>

definition array_wf :: "array_evtq \<Rightarrow> bool" where
  "array_wf Q \<longleftrightarrow> length (nodes Q) = 2 ^ bitsize Q \<and> head Q < 2 ^ bitsize Q \<and> tail Q < 2 ^ bitsize Q \<and> bitsize Q \<le> 8"

definition queued :: "array_evtq \<Rightarrow> array_evt_node list" where
  "queued Q = ring_list ((!) (nodes Q)) (2 ^ bitsize Q) (head Q) (used_nodes Q)"

definition evt_count :: "ptr \<Rightarrow> array_evt_node list \<Rightarrow> nat" where
  "evt_count p ns = length (filter (\<lambda>n. node_eda n = p) ns)"

lemma ring_dist:
  fixes h d t :: nat
  assumes "h < d" "t < d"
  shows "(t + d - h) mod d = (if h \<le> t then t - h else t + d - h)"
proof (cases "h \<le> t")
  case True
  then have "(t + d - h) mod d = (t - h + d) mod d" by simp
  also have "\<dots> = t - h" using assms by (simp only: mod_add_self2) simp
  finally show ?thesis using True by simp
qed (use assms in simp)

lemma used_nodes_eq:
  assumes "array_wf Q"
  shows "used_nodes Q = (if head Q \<le> tail Q then tail Q - head Q else tail Q + 2 ^ bitsize Q - head Q)"
    and "used_nodes Q < 2 ^ bitsize Q" and "(head Q + used_nodes Q) mod 2 ^ bitsize Q = tail Q"
proof -
  have w: "head Q < 2 ^ bitsize Q" "tail Q < 2 ^ bitsize Q" using assms by (simp_all add: array_wf_def)
  show u: "used_nodes Q = (if head Q \<le> tail Q then tail Q - head Q else tail Q + 2 ^ bitsize Q - head Q)"
    using ring_dist [OF w] by (simp add: used_nodes_def)
  show "used_nodes Q < 2 ^ bitsize Q" by (simp add: used_nodes_def)
  show "(head Q + used_nodes Q) mod 2 ^ bitsize Q = tail Q" unfolding u using w by auto
qed

lemma queued_empty: "array_wf Q \<Longrightarrow> queued Q = [] \<longleftrightarrow> head Q = tail Q"
  using used_nodes_eq(1) [of Q] by (auto simp: queued_def ring_list_def array_wf_def)

lemma queued_pop:
  assumes W: "array_wf Q" and "head Q \<noteq> tail Q"
  defines "Q' \<equiv> Q\<lparr>head := (head Q + 1) mod 2 ^ bitsize Q\<rparr>"
  shows "array_wf Q'" "queued Q = nodes Q ! head Q # queued Q'"
proof -
  show W': "array_wf Q'" using W by (simp add: array_wf_def Q'_def)
  have "used_nodes Q = Suc (used_nodes Q')"
    using used_nodes_eq(1) [OF W] used_nodes_eq(1) [OF W'] assms(2) W
    by (auto simp: Q'_def array_wf_def mod_Suc split: if_splits)
  then show "queued Q = nodes Q ! head Q # queued Q'"
    using W by (simp add: queued_def ring_list_Cons Q'_def array_wf_def)
qed

lemma queued_push:
  fixes n :: array_evt_node
  assumes W: "array_wf Q" and "(tail Q + 1) mod 2 ^ bitsize Q \<noteq> head Q"
  defines "Q' \<equiv> Q\<lparr>tail := (tail Q + 1) mod 2 ^ bitsize Q, nodes := (nodes Q)[tail Q := n]\<rparr>"
  shows "array_wf Q'" "queued Q' = queued Q @ [n]"
proof -
  show W': "array_wf Q'" using W by (simp add: array_wf_def Q'_def)
  have u: "used_nodes Q' = Suc (used_nodes Q)" 
    using used_nodes_eq(1) [OF W] used_nodes_eq(1) [OF W'] assms(2) W
    by (auto simp: Q'_def array_wf_def mod_Suc split: if_splits)
  have t: "(head Q + used_nodes Q) mod 2 ^ bitsize Q = tail Q" and b: "bitsize Q' = bitsize Q" "head Q' = head Q" 
    using used_nodes_eq(3) [OF W] by (simp_all add: Q'_def)
  have "ring_list ((!) (nodes Q')) (2 ^ bitsize Q) (head Q) (used_nodes Q) = queued Q"
    unfolding queued_def by (rule ring_list_outside [OF used_nodes_eq(2) [OF W]]) (simp add: Q'_def t)
  moreover have "nodes Q' ! tail Q = n" using W by (simp add: Q'_def array_wf_def)
  ultimately show "queued Q' = queued Q @ [n]" unfolding queued_def u b ring_list_Suc t by (simp add: queued_def)
qed

lemma queued_length: "array_wf Q \<Longrightarrow> length (queued Q) < 256"
proof -
  assume W: "array_wf Q"
  then have "(2 :: nat) ^ bitsize Q \<le> 2 ^ 8" by (intro power_increasing) (simp_all add: array_wf_def)
  then show ?thesis using used_nodes_eq(2) [OF W] by (simp add: queued_def)
qed

section \<open>The poll loop\<close>

text \<open>What the handlers get from a list of nodes, and the tasks that end with it.\<close>

definition handled :: "(ptr \<Rightarrow> array_eda) \<Rightarrow> array_evt_node list \<Rightarrow> (ptr \<times> vsf_evt_t) list" where
  "handled E ns = map (\<lambda>n. (node_eda n, node_evt n)) (filter (\<lambda>n. node_eda n \<noteq> null \<and> \<not> a_is_to_exit (E (node_eda n))) ns)"

definition consumed :: "array_evt_node list \<Rightarrow> (ptr \<Rightarrow> array_eda) \<Rightarrow> ptr \<Rightarrow> array_eda" where
  "consumed ns E p = (if p = null then E p else (E p)\<lparr>evt_cnt := evt_cnt (E p) - evt_count p ns\<rparr>)"

definition ends :: "(ptr \<Rightarrow> array_eda) \<Rightarrow> array_evt_node list \<Rightarrow> ptr \<Rightarrow> nat" where
  "ends E ns p = (if p \<noteq> null \<and> a_is_to_exit (E p) \<and> evt_cnt (E p) = evt_count p ns \<and> 0 < evt_count p ns then 1 else 0)"

definition array_ready :: "nat \<Rightarrow> 'a array_kernel_scheme \<Rightarrow> bool" where
  "array_ready q k \<longleftrightarrow> q < length (a_evtqs k) \<and> array_wf (a_evtqs k ! q)
     \<and> (\<forall>p. p \<noteq> null \<longrightarrow> evt_count p (queued (a_evtqs k ! q)) \<le> evt_cnt (a_edas k p) \<and> evt_cnt (a_edas k p) < 256)"

lemma evt_count_Cons [simp]: "evt_count p (n # ns) = (if node_eda n = p then Suc (evt_count p ns) else evt_count p ns)"
  and evt_count_Nil [simp]: "evt_count p [] = 0"
  by (simp_all add: evt_count_def)

definition polled_array :: "nat \<Rightarrow> (ptr \<times> vsf_evt_t) list array_kernel_scheme \<Rightarrow> (ptr \<times> vsf_evt_t) list array_kernel_scheme \<Rightarrow> bool" where
  "polled_array q k k' \<longleftrightarrow> (\<forall>i. i \<noteq> q \<longrightarrow> a_evtqs k' ! i = a_evtqs k ! i) \<and> length (a_evtqs k') = length (a_evtqs k)
     \<and> array_wf (a_evtqs k' ! q) \<and> queued (a_evtqs k' ! q) = []
     \<and> array_kernel.more k' = array_kernel.more k @ handled (a_edas k) (queued (a_evtqs k ! q))
     \<and> a_edas k' = consumed (queued (a_evtqs k ! q)) (a_edas k)
     \<and> (\<forall>p. count_list (a_ended k') p = count_list (a_ended k) p + ends (a_edas k) (queued (a_evtqs k ! q)) p)"

lemma poll_one_array:
  assumes R: "array_ready q k" and ne: "head (a_evtqs k ! q) \<noteq> tail (a_evtqs k ! q)"
    and h: "\<And>p e k'. dispatch p e k' = Some (k'\<lparr>array_kernel.more := array_kernel.more k' @ [(p, e)]\<rparr>)"
  obtains n ns k1 where "queued (a_evtqs k ! q) = n # ns" "evtq_poll_one_array dispatch q k = Some k1" "array_ready q k1"
    "queued (a_evtqs k1 ! q) = ns" "\<And>i. i \<noteq> q \<Longrightarrow> a_evtqs k1 ! i = a_evtqs k ! i" "length (a_evtqs k1) = length (a_evtqs k)"
    "array_kernel.more k1 = array_kernel.more k @ handled (a_edas k) [n]" "a_edas k1 = consumed [n] (a_edas k)"
    "\<And>p. count_list (a_ended k1) p = count_list (a_ended k) p
       + (if p = node_eda n \<and> p \<noteq> null \<and> a_is_to_exit (a_edas k p) \<and> evt_cnt (a_edas k p) = 1 then 1 else 0)"
proof -
  define Q where "Q = a_evtqs k ! q"
  define n where "n = nodes Q ! head Q"
  define Q1 where "Q1 = Q\<lparr>head := (head Q + 1) mod 2 ^ bitsize Q\<rparr>"
  have q: "q < length (a_evtqs k)" and W: "array_wf Q" using R by (simp_all add: array_ready_def Q_def)
  note P = queued_pop [OF W ne [folded Q_def], folded Q1_def n_def]
  have c: "evt_count p (queued Q) \<le> evt_cnt (a_edas k p)" "evt_cnt (a_edas k p) < 256" if "p \<noteq> null" for p
    using R that by (auto simp: array_ready_def Q_def)
  define p where "p = node_eda n"
  define Q2 where "Q2 = (if p = null then Q1 else Q1\<lparr>a_cur_eda := null, a_cur_evt := VSF_EVT_INVALID, a_cur_msg := null\<rparr>)"
  define k1 where "k1 = k\<lparr>a_evtqs := (a_evtqs k)[q := Q2], a_edas := consumed [n] (a_edas k),
    array_kernel.more := array_kernel.more k @ handled (a_edas k) [n],
    a_ended := a_ended k @ (if p \<noteq> null \<and> a_is_to_exit (a_edas k p) \<and> evt_cnt (a_edas k p) = 1 then [p] else [])\<rparr>"
  have Q2: "array_wf Q2" "queued Q2 = queued Q1" using P(1)
    by (simp_all add: Q2_def array_wf_def queued_def used_nodes_def)
  have minus: "(evt_cnt (a_edas k p) + 255) mod 256 = evt_cnt (a_edas k p) - 1" if "p \<noteq> null"
    using c [OF that] P(2) by (simp add: p_def mod_if)
  have E: "consumed [n] (a_edas k) = (if p = null then a_edas k
      else (a_edas k)(p := (a_edas k p)\<lparr>evt_cnt := evt_cnt (a_edas k p) - 1\<rparr>))"
    by (auto simp: consumed_def p_def fun_eq_iff)
  have "evtq_poll_one_array dispatch q k = Some k1"
    using q minus c [of p] P(2) unfolding k1_def E Q2_def
    by (auto simp: evtq_poll_one_array_def Let_def Q_def [symmetric] n_def [symmetric] p_def [symmetric] Q1_def h upd_aevtq_def
        upd_aeda_def p_vsf_eda_terminate_array_def handled_def)
  moreover have "evt_count x (queued Q2) \<le> evt_cnt (consumed [n] (a_edas k) x)" "evt_cnt (consumed [n] (a_edas k) x) < 256"
    if "x \<noteq> null" for x using c [OF that] P(2) Q2(2) that by (auto simp: consumed_def p_def split: if_splits)
  then have "array_ready q k1" using q Q2(1) by (simp add: array_ready_def k1_def)
  moreover have "count_list (a_ended k1) x = count_list (a_ended k) x
      + (if x = p \<and> x \<noteq> null \<and> a_is_to_exit (a_edas k x) \<and> evt_cnt (a_edas k x) = 1 then 1 else 0)" for x
    by (auto simp: k1_def)
  moreover have "queued (a_evtqs k1 ! q) = queued Q1" "array_kernel.more k1 = array_kernel.more k @ handled (a_edas k) [n]"
    "a_edas k1 = consumed [n] (a_edas k)" "length (a_evtqs k1) = length (a_evtqs k)" "\<And>i. i \<noteq> q \<Longrightarrow> a_evtqs k1 ! i = a_evtqs k ! i"
    using q Q2(2) by (simp_all add: k1_def)
  ultimately show ?thesis using that [of n "queued Q1" k1] P(2) unfolding Q_def p_def by blast
qed

lemma handled_Cons: "handled E (n # ns) = handled E [n] @ handled E ns"
  by (simp add: handled_def)

lemma handled_consumed: "handled (consumed ms E) ns = handled E ns"
  by (induction ns) (auto simp: handled_def consumed_def)

lemma consumed_Cons: "consumed ns (consumed [n] E) = consumed (n # ns) E"
  by (auto simp: consumed_def fun_eq_iff)

lemma poll_loop_array:
  assumes "array_ready q k"
    and h: "\<And>p e k'. dispatch p e k' = Some (k'\<lparr>array_kernel.more := array_kernel.more k' @ [(p, e)]\<rparr>)"
  shows "\<exists>k'. vsf_evtq_poll_array dispatch q k = Some k' \<and> polled_array q k k'"
  using assms(1)
proof (induction "length (queued (a_evtqs k ! q))" arbitrary: k)
  case 0
  then have "vsf_evtq_is_empty_array q k" using queued_empty by (auto simp: array_ready_def vsf_evtq_is_empty_array_def)
  then have "vsf_evtq_poll_array dispatch q k = Some k" by (subst vsf_evtq_poll_array.simps) simp
  then show ?case using 0 by (auto simp: polled_array_def array_ready_def handled_def consumed_def ends_def fun_eq_iff)
next
  case (Suc l)
  have ne: "head (a_evtqs k ! q) \<noteq> tail (a_evtqs k ! q)"
    using Suc.hyps(2) Suc.prems queued_empty [of "a_evtqs k ! q"] by (auto simp: array_ready_def)
  obtain n ns k1 where k1: "queued (a_evtqs k ! q) = n # ns" "evtq_poll_one_array dispatch q k = Some k1" "array_ready q k1"
    "queued (a_evtqs k1 ! q) = ns" "\<And>i. i \<noteq> q \<Longrightarrow> a_evtqs k1 ! i = a_evtqs k ! i" "length (a_evtqs k1) = length (a_evtqs k)"
    "array_kernel.more k1 = array_kernel.more k @ handled (a_edas k) [n]" "a_edas k1 = consumed [n] (a_edas k)"
    "\<And>p. count_list (a_ended k1) p = count_list (a_ended k) p
       + (if p = node_eda n \<and> p \<noteq> null \<and> a_is_to_exit (a_edas k p) \<and> evt_cnt (a_edas k p) = 1 then 1 else 0)"
    using poll_one_array [OF Suc.prems ne, of dispatch, OF h] by blast
  obtain k' where k': "vsf_evtq_poll_array dispatch q k1 = Some k'" "polled_array q k1 k'"
    using Suc.hyps(1) [of k1] Suc.hyps(2) k1 by auto
  have "vsf_evtq_poll_array dispatch q k = Some k'"
    using ne k1(2) k'(1) by (subst vsf_evtq_poll_array.simps) (simp add: vsf_evtq_is_empty_array_def)
  moreover have "count_list (a_ended k') p = count_list (a_ended k) p + ends (a_edas k) (n # ns) p" for p
  proof -
    have "evt_count p (n # ns) \<le> evt_cnt (a_edas k p)" if "p \<noteq> null"
      using Suc.prems that k1(1) by (auto simp: array_ready_def)
    then show ?thesis using k'(2) k1(4,8,9) by (auto simp: polled_array_def ends_def consumed_def)
  qed
  then have "polled_array q k k'" using k'(2) k1
    by (auto simp: polled_array_def handled_Cons [of _ n ns] handled_consumed consumed_Cons)
  ultimately show ?case by blast
qed

section \<open>The invariant\<close>

definition array_ok :: "'a array_kernel_scheme \<Rightarrow> bool" where
  "array_ok k \<longleftrightarrow> (\<forall>q < length (a_evtqs k). array_wf (a_evtqs k ! q)
       \<and> (\<forall>p. p \<noteq> null \<longrightarrow> a_priority (a_edas k p) \<noteq> q \<longrightarrow> evt_count p (queued (a_evtqs k ! q)) = 0))
     \<and> (\<forall>p. p \<noteq> null \<longrightarrow> a_priority (a_edas k p) < length (a_evtqs k)
       \<and> evt_cnt (a_edas k p) = evt_count p (queued (a_evtqs k ! a_priority (a_edas k p))))"

lemma evt_count_le: "evt_count p ns \<le> length ns"
  by (simp add: evt_count_def)

lemma array_ok_ready:
  assumes "array_ok k" "q < length (a_evtqs k)"
  shows "array_ready q k"
  unfolding array_ready_def
proof (intro conjI allI impI)
  fix p assume p: "p \<noteq> null"
  let ?Q = "a_evtqs k ! a_priority (a_edas k p)"
  have w: "array_wf ?Q" "evt_cnt (a_edas k p) = evt_count p (queued ?Q)" using assms(1) p by (auto simp: array_ok_def)
  then show "evt_cnt (a_edas k p) < 256" using queued_length [of ?Q] evt_count_le [of p "queued ?Q"] by linarith
  show "evt_count p (queued (a_evtqs k ! q)) \<le> evt_cnt (a_edas k p)"
    using assms p w(2) by (cases "a_priority (a_edas k p) = q") (auto simp: array_ok_def)
qed (use assms in \<open>auto simp: array_ok_def\<close>)

lemma polled_array_ok:
  assumes "array_ok k" "q < length (a_evtqs k)" "polled_array q k k'"
  shows "array_ok k'" "\<And>p. p \<noteq> null \<Longrightarrow> a_priority (a_edas k p) = q \<Longrightarrow> evt_cnt (a_edas k' p) = 0"
proof -
  have E: "a_edas k' = consumed (queued (a_evtqs k ! q)) (a_edas k)" using assms(3) by (simp add: polled_array_def)
  have Q: "queued (a_evtqs k' ! i) = (if i = q then [] else queued (a_evtqs k ! i))"
    "i < length (a_evtqs k) \<Longrightarrow> array_wf (a_evtqs k' ! i)" for i
    using assms unfolding polled_array_def array_ok_def by metis+
  have P: "a_priority (a_edas k' p) = a_priority (a_edas k p)" for p by (simp add: E consumed_def)
  have C: "evt_cnt (a_edas k' p) = evt_count p (queued (a_evtqs k' ! a_priority (a_edas k p)))" if "p \<noteq> null" for p
    using assms(1,2) that unfolding Q E consumed_def array_ok_def by auto
  show "array_ok k'" unfolding array_ok_def P
    using assms(1,3) Q C by (auto simp: array_ok_def polled_array_def)
  show "\<And>p. p \<noteq> null \<Longrightarrow> a_priority (a_edas k p) = q \<Longrightarrow> evt_cnt (a_edas k' p) = 0" using C Q by simp
qed

lemma array_post_ok:
  assumes K: "array_ok k" and p: "p \<noteq> null"
  defines "q \<equiv> a_priority (a_edas k p)"
  assumes room: "(tail (a_evtqs k ! q) + 1) mod 2 ^ bitsize (a_evtqs k ! q) \<noteq> head (a_evtqs k ! q)"
    and ok: "evt_cnt (a_edas k p) = 0 \<or> \<not> a_is_limitted (a_edas k p) \<or> force"
  shows "\<exists>k'. p_vsf_evtq_post_array p evt msg force k = Some (VSF_ERR_NONE, k') \<and> array_ok k' \<and> q \<in> a_swi_pending k'
    \<and> queued (a_evtqs k' ! q) = queued (a_evtqs k ! q) @ [\<lparr>node_eda = p, node_evt = evt, node_msg = msg\<rparr>]"
proof -
  let ?n = "\<lparr>node_eda = p, node_evt = evt, node_msg = msg\<rparr>"
  define Q where "Q = a_evtqs k ! q"
  define Q' where "Q' = Q\<lparr>tail := (tail Q + 1) mod 2 ^ bitsize Q, nodes := (nodes Q)[tail Q := ?n]\<rparr>"
  have q: "q < length (a_evtqs k)" "array_wf Q" using K p by (auto simp: array_ok_def q_def Q_def)
  note P = queued_push [OF q(2) room [folded Q_def], of ?n, folded Q'_def]
  define k' where "k' = (upd_aeda p (\<lambda>e. e\<lparr>evt_cnt := (evt_cnt e + 1) mod 2 ^ 8\<rparr>) (upd_aevtq q (\<lambda>_. Q') k))
    \<lparr>a_swi_pending := insert q (a_swi_pending k)\<rparr>"
  have "p_vsf_evtq_post_array p evt msg force k = Some (VSF_ERR_NONE, k')"
    using p q room ok unfolding p_vsf_evtq_post_array_def q_def [symmetric] Let_def Q_def [symmetric]
    by (auto simp: k'_def Q'_def array_wf_def Q_def upd_aeda_def upd_aevtq_def)
  moreover have "array_ok k'"
  proof -
    have c: "evt_cnt (a_edas k p) = evt_count p (queued Q)" using K p by (simp add: array_ok_def Q_def q_def)
    have "evt_count p (queued Q') < 256"
      using queued_length [OF P(1)] evt_count_le [of p "queued Q'"] by linarith
    then have "(evt_cnt (a_edas k p) + 1) mod 256 = evt_count p (queued Q')"
      unfolding c using P(2) by (simp add: evt_count_def)
    then show ?thesis using K q P p unfolding array_ok_def k'_def upd_aeda_def upd_aevtq_def
      by (auto simp: nth_list_update evt_count_def q_def Q_def)
  qed
  ultimately show ?thesis using q(1) P(2) by (auto simp: k'_def upd_aeda_def upd_aevtq_def Q_def)
qed

section \<open>Cleaning\<close>

lemma length_clean_nodes [simp]: "length (clean_nodes eda evt d i n ns) = length ns"
  by (induction n arbitrary: i ns) simp_all

lemma nth_clean_nodes_outside:
  assumes "i < d" "\<And>j. j < n \<Longrightarrow> (i + j) mod d \<noteq> l"
  shows "clean_nodes eda evt d i n ns ! l = ns ! l"
  using assms
proof (induction n arbitrary: i ns)
  case (Suc n)
  have "((i + 1) mod d + j) mod d \<noteq> l" if "j < n" for j
    using Suc.prems(2) [of "Suc j"] that by (simp add: mod_Suc_eq mod_add_left_eq)
  moreover have "i \<noteq> l" using Suc.prems(2) [of 0] Suc.prems(1) by simp
  ultimately show ?case using Suc.IH [of "(i + 1) mod d"] Suc.prems(1) by simp
qed simp

definition cleaned :: "ptr \<Rightarrow> vsf_evt_t \<Rightarrow> array_evt_node \<Rightarrow> array_evt_node" where
  "cleaned eda evt n = (if node_eda n = eda \<and> (evt = VSF_EVT_NONE \<or> node_evt n = evt) then n\<lparr>node_eda := null\<rparr> else n)"

lemma ring_list_clean:
  assumes "i < d" "n \<le> d" "length ns = d"
  shows "ring_list ((!) (clean_nodes eda evt d i n ns)) d i n = map (cleaned eda evt) (ring_list ((!) ns) d i n)"
  using assms
proof (induction n arbitrary: i ns)
  case (Suc n)
  define ms where "ms = ns[i := cleaned eda evt (ns ! i)]"
  have ms: "clean_nodes eda evt d i (Suc n) ns = clean_nodes eda evt d ((i + 1) mod d) n ms"
    by (auto simp: ms_def cleaned_def)
  have out: "((i + 1) mod d + j) mod d \<noteq> i" if "j < n" for j
    using ring_pos_inj [of 0 d "Suc j" i] that Suc.prems by (auto simp: mod_add_left_eq mod_Suc_eq)
  have "clean_nodes eda evt d ((i + 1) mod d) n ms ! i = cleaned eda evt (ns ! i)"
    using nth_clean_nodes_outside [OF _ out, of n eda evt ms] Suc.prems by (simp add: ms_def)
  moreover have "ring_list ((!) ms) d ((i + 1) mod d) n = ring_list ((!) ns) d ((i + 1) mod d) n"
    by (rule ring_list_cong) (metis ms_def nth_list_update_neq out)
  ultimately show ?case
    using Suc.IH [of "(i + 1) mod d" ms] Suc.prems unfolding ms ring_list_Cons by (simp add: ms_def)
qed simp

lemma evt_count_cleaned:
  assumes "x \<noteq> null" "p \<noteq> null"
  shows "evt_count x (map (cleaned p VSF_EVT_NONE) ns) = (if x = p then 0 else evt_count x ns)"
  by (induction ns) (use assms in \<open>auto simp: cleaned_def\<close>)

lemma queued_clean:
  assumes "array_wf Q"
  shows "queued (Q\<lparr>nodes := clean_nodes eda evt (2 ^ bitsize Q) (head Q) (used_nodes Q) (nodes Q)\<rparr>)
    = map (cleaned eda evt) (queued Q)"
  using assms used_nodes_eq(2) [OF assms] ring_list_clean [of "head Q" "2 ^ bitsize Q" "used_nodes Q" "nodes Q" eda evt]
  by (simp add: queued_def array_wf_def used_nodes_def)

section \<open>Properties\<close>


definition array_example :: "(ptr \<times> vsf_evt_t) list array_kernel_scheme" where
  "array_example = \<lparr>a_edas = (\<lambda>p. \<lparr>a_priority = 0, evt_cnt = (if p = 200 then 1 else 0), a_is_to_exit = False, a_is_limitted = False\<rparr>),
     a_evtqs = [\<lparr>bitsize = 1, nodes = [\<lparr>node_eda = 200, node_evt = 7, node_msg = null\<rparr>, \<lparr>node_eda = 100, node_evt = 3, node_msg = null\<rparr>],
       head = 0, tail = 1, a_cur_eda = null, a_cur_evt = VSF_EVT_INVALID, a_cur_msg = null\<rparr>],
     a_cur_evtq = None, a_swi_pending = {0}, a_ended = [], \<dots> = []\<rparr>"


text \<open>
  Cleaning the events of a task takes them out of the queue but not out of its count: after the next
  poll the task, which has no event any more, still counts them. A limited task with such a count
  refuses every event, and the end of the task is never reported.
\<close>

theorem evtq_array_clean_keeps_count:
  assumes K: "array_ok k" and cur: "a_cur_evtq k = Some c" "a_cur_eda (a_evtqs k ! c) = p" "p \<noteq> null"
    and h: "\<And>p e k'. dispatch p e k' = Some (k'\<lparr>array_kernel.more := array_kernel.more k' @ [(p, e)]\<rparr>)"
  shows "\<exists>k1 k2. vsf_evtq_clean_evt_array VSF_EVT_NONE k = Some k1
    \<and> vsf_evtq_poll_array dispatch (a_priority (a_edas k p)) k1 = Some k2
    \<and> vsf_evtq_is_empty_array (a_priority (a_edas k p)) k2 \<and> evt_cnt (a_edas k2 p) = evt_cnt (a_edas k p)"
proof -
  define q where "q = a_priority (a_edas k p)"
  define Q where "Q = a_evtqs k ! q"
  define Q1 where "Q1 = Q\<lparr>nodes := clean_nodes p VSF_EVT_NONE (2 ^ bitsize Q) (head Q) (used_nodes Q) (nodes Q)\<rparr>"
  define k1 where "k1 = upd_aevtq q (\<lambda>_. Q1) k"
  have q: "q < length (a_evtqs k)" "array_wf Q" using K cur(3) by (auto simp: array_ok_def q_def Q_def)
  have Q1: "array_wf Q1" "queued Q1 = map (cleaned p VSF_EVT_NONE) (queued Q)"
    using q(2) queued_clean [OF q(2)] by (simp_all add: array_wf_def Q1_def)
  have c: "evt_count x (queued Q1) = (if x = p then 0 else evt_count x (queued Q))" if "x \<noteq> null" for x
    unfolding Q1 by (rule evt_count_cleaned [OF that cur(3)])
  have "array_ready q k" by (rule array_ok_ready [OF K q(1)])
  then have "array_ready q k1" using q(1) Q1(1) c by (auto simp: array_ready_def k1_def upd_aevtq_def Q_def)
  from poll_loop_array [OF this, of dispatch] h obtain k2 where
    k2: "vsf_evtq_poll_array dispatch q k1 = Some k2" "polled_array q k1 k2" by auto
  have "vsf_evtq_clean_evt_array VSF_EVT_NONE k = Some k1"
    using cur q by (simp add: vsf_evtq_clean_evt_array_def k1_def Q1_def q_def Q_def upd_aevtq_def)
  moreover have "evt_cnt (a_edas k2 p) = evt_cnt (a_edas k p)"
    using k2(2) c [of p] cur(3) q(1) by (simp add: polled_array_def k1_def upd_aevtq_def consumed_def)
  moreover have "vsf_evtq_is_empty_array q k2"
    using k2(2) queued_empty by (auto simp: polled_array_def vsf_evtq_is_empty_array_def)
  ultimately show ?thesis using k2(1) by (auto simp: q_def)
qed

end
