(* ===== verification/VSF_Json.thy ===== *)
theory VSF_Json
  imports VSF_Prelude "HOL-Library.Monad_Syntax"
begin

text \<open>
  The JSON reader and writer of \<open>src/source/service/json/vsf_json.c\<close>. A pointer into a text is the rest of
  the text up to the terminating zero, which is not an element of the list; the empty list is a
  pointer to the zero. \<open>None\<close> is a null pointer or, as the result of an operation, a null pointer that is
  followed, an access behind the zero or a loop that does not end. Floating point numbers
  are left out.
\<close>

section \<open>Characters\<close>

abbreviation "QUOTE \<equiv> CHR 0x22"
abbreviation "BSLASH \<equiv> CHR 0x5C"

definition isspace :: "char \<Rightarrow> bool" where
  "isspace c = (c = CHR 0x20 \<or> c = CHR 0x09 \<or> c = CHR 0x0A \<or> c = CHR 0x0B \<or> c = CHR 0x0C \<or> c = CHR 0x0D)"

definition isdigit :: "char \<Rightarrow> bool" where
  "isdigit c = (48 \<le> (of_char c :: nat) \<and> (of_char c :: nat) \<le> 57)"

definition isalnum :: "char \<Rightarrow> bool" where
  "isalnum c = (isdigit c \<or> (65 \<le> (of_char c :: nat) \<and> (of_char c :: nat) \<le> 90)
     \<or> (97 \<le> (of_char c :: nat) \<and> (of_char c :: nat) \<le> 122))"

text \<open>\<open>deref s\<close> is the character at \<open>s\<close>.\<close>

definition deref :: "string \<Rightarrow> char" where
  "deref s = (case s of [] \<Rightarrow> CHR 0x00 | c # _ \<Rightarrow> c)"

section \<open>Reading\<close>

definition vsf_json_token_match :: "string \<Rightarrow> string \<Rightarrow> bool" where
  "vsf_json_token_match json tok =
     (take (length tok) json = tok \<and> \<not> isalnum (deref (drop (length tok) json)))"

datatype vsf_json_type_t =
    VSF_JSON_TYPE_INVALID | VSF_JSON_TYPE_OBJECT | VSF_JSON_TYPE_ARRAY | VSF_JSON_TYPE_STRING | VSF_JSON_TYPE_NUMBER
  | VSF_JSON_TYPE_BOOLEAN | VSF_JSON_TYPE_NULL

definition vsf_json_get_type :: "string \<Rightarrow> vsf_json_type_t" where
  "vsf_json_get_type json =
     (let ch = deref json
      in if ch = CHR ''{'' then VSF_JSON_TYPE_OBJECT
         else if ch = CHR ''['' then VSF_JSON_TYPE_ARRAY
         else if ch = QUOTE then VSF_JSON_TYPE_STRING
         else if isdigit ch then VSF_JSON_TYPE_NUMBER
         else if vsf_json_token_match json ''true'' \<or> vsf_json_token_match json ''false'' then VSF_JSON_TYPE_BOOLEAN
         else if vsf_json_token_match json ''null'' then VSF_JSON_TYPE_NULL
         else VSF_JSON_TYPE_INVALID)"

definition vsf_json_skip_space :: "string \<Rightarrow> string option" where
  "vsf_json_skip_space json = (let s = dropWhile isspace json in if s = [] then None else Some s)"

record vsf_json_enumerator_t =
  e_ptr :: "string option"
  e_type :: vsf_json_type_t
  e_first :: bool

definition vsf_json_enumerate_start ::
  "vsf_json_enumerator_t \<Rightarrow> string \<Rightarrow> vsf_json_type_t \<times> vsf_json_enumerator_t" where
  "vsf_json_enumerate_start e json =
     (let t = vsf_json_get_type json
      in if t \<noteq> VSF_JSON_TYPE_OBJECT \<and> t \<noteq> VSF_JSON_TYPE_ARRAY then (VSF_JSON_TYPE_INVALID, e)
         else
           let e = \<lparr>e_ptr = vsf_json_skip_space (tl json), e_type = t, e_first = True\<rparr>
           in (if e_ptr e = None then VSF_JSON_TYPE_INVALID else t, e))"

text \<open>
  The loop of \<open>vsf_json_enumerate_next\<close>: \<open>Some None\<close> is the return of the null pointer, \<open>Some (Some cur)\<close> the jump
  to \<open>exit\<close>. A number of levels that does not fit an \<open>int\<close> needs a text of two gigabytes.
\<close>

definition enum_comma :: "string \<Rightarrow> string option option" where
  "enum_comma cs = map_option Some (vsf_json_skip_space cs)"

definition enum_check :: "string \<Rightarrow> string option option" where
  "enum_check cs = do {
     cur \<leftarrow> vsf_json_skip_space cs;
     (if deref cur = CHR '','' then enum_comma (tl cur) else Some None)}"

fun enum_scan :: "bool \<Rightarrow> int \<Rightarrow> int \<Rightarrow> string \<Rightarrow> string option option" where
  "enum_scan str brace square [] = Some (Some [])"
| "enum_scan str brace square (c # cs) =
     (if c = QUOTE then enum_scan (\<not> str) brace square cs
      else if c = BSLASH
      then if \<not> str then Some None else (case cs of [] \<Rightarrow> None | _ # cs \<Rightarrow> enum_scan str brace square cs)
      else if c = CHR ''{'' then enum_scan str (if str then brace else brace + 1) square cs
      else if c = CHR ''['' then enum_scan str brace (if str then square else square + 1) cs
      else if c = CHR '',''
      then if \<not> str \<and> brace = 0 \<and> square = 0 then enum_comma cs else enum_scan str brace square cs
      else if c = CHR ''}''
      then if str then enum_scan str brace square cs
           else if brace - 1 < 0 then Some None
           else if brace - 1 = 0 \<and> square = 0 then enum_check cs
           else enum_scan str (brace - 1) square cs
      else if c = CHR '']''
      then if str then enum_scan str brace square cs
           else if square - 1 < 0 then Some None
           else if brace = 0 \<and> square - 1 = 0 then enum_check cs
           else enum_scan str brace (square - 1) cs
      else enum_scan str brace square cs)"

definition vsf_json_enumerate_next ::
  "vsf_json_enumerator_t \<Rightarrow> (string option \<times> vsf_json_enumerator_t) option" where
  "vsf_json_enumerate_next e = do {
     cur \<leftarrow> e_ptr e;
     (let exit_at = (\<lambda>e cur. if deref cur = CHR ''}'' \<or> deref cur = CHR '']'' then (None, e)
                             else (Some cur, e\<lparr>e_ptr := Some cur\<rparr>))
      in if e_first e
         then let e = e\<lparr>e_first := False\<rparr>
              in Some (if deref cur = CHR '','' then (None, e) else exit_at e cur)
         else do {
           r \<leftarrow> enum_scan False 0 0 cur;
           Some (case r of None \<Rightarrow> (None, e) | Some cur \<Rightarrow> exit_at e cur)})}"

partial_function (option) num_of_entry_loop :: "vsf_json_enumerator_t \<Rightarrow> nat \<Rightarrow> nat option" where
  "num_of_entry_loop e n = do {
     (cur, e) \<leftarrow> vsf_json_enumerate_next e;
     (if cur \<noteq> None then num_of_entry_loop e (n + 1) else Some n)}"

definition vsf_json_num_of_entry :: "string \<Rightarrow> nat option" where
  "vsf_json_num_of_entry json =
     (let (t, e) = vsf_json_enumerate_start \<lparr>e_ptr = None, e_type = VSF_JSON_TYPE_INVALID, e_first = False\<rparr> json
      in if t \<noteq> VSF_JSON_TYPE_INVALID then num_of_entry_loop e 0 else Some 0)"

definition vsf_json_isdiv :: "char \<Rightarrow> bool" where
  "vsf_json_isdiv ch = (ch = CHR ''/'' \<or> ch = BSLASH)"

text \<open>\<open>strtoul\<close> with base 0 and a 32-bit result.\<close>

definition digit_value :: "char \<Rightarrow> nat" where
  "digit_value c = (if isdigit c then of_char c - 48
     else if 65 \<le> (of_char c :: nat) \<and> (of_char c :: nat) \<le> 90 then of_char c - 55
     else if 97 \<le> (of_char c :: nat) \<and> (of_char c :: nat) \<le> 122 then of_char c - 87 else 36)"

fun read_digits :: "nat \<Rightarrow> nat \<Rightarrow> string \<Rightarrow> nat \<times> string" where
  "read_digits base n [] = (n, [])"
| "read_digits base n (c # cs) = (if digit_value c < base then read_digits base (n * base + digit_value c) cs else (n, c # cs))"

definition strtoul :: "string \<Rightarrow> nat \<times> string" where
  "strtoul s =
     (let t = dropWhile isspace s;
          neg = (deref t = CHR ''-'');
          t = (if deref t = CHR ''-'' \<or> deref t = CHR ''+'' then tl t else t);
          hex = (deref t = CHR ''0'' \<and> (deref (tl t) = CHR ''x'' \<or> deref (tl t) = CHR ''X'') \<and> digit_value (deref (tl (tl t))) < 16);
          (n, rest) = (if hex then read_digits 16 0 (tl (tl t)) else if deref t = CHR ''0'' then read_digits 8 0 t
                       else read_digits 10 0 t)
      in if \<not> isdigit (deref t) then (0, s)
         else if 2 ^ 32 \<le> n then (2 ^ 32 - 1, rest)
         else (if neg then (2 ^ 32 - n) mod 2 ^ 32 else n, rest))"

text \<open>The inner loop of \<open>vsf_json_get\<close>; \<open>Some None\<close> is the return of the null pointer, otherwise the loop ends with
  the new values of \<open>json\<close> and \<open>key\<close>.\<close>

partial_function (option) json_get_entry ::
  "nat \<Rightarrow> nat \<Rightarrow> string \<Rightarrow> vsf_json_enumerator_t \<Rightarrow> (string option \<times> string) option option" where
  "json_get_entry idx curidx key e = do {
     (cur, e) \<leftarrow> vsf_json_enumerate_next e;
     (case cur of
        None \<Rightarrow> Some None
      | Some cur \<Rightarrow>
          if e_type e = VSF_JSON_TYPE_ARRAY
          then if curidx = idx then Some (Some (Some cur, if key \<noteq> [] then tl key else key))
               else json_get_entry idx (curidx + 1) key e
          else if deref cur \<noteq> QUOTE then Some None
          else
            let cur = tl cur
            in if take idx cur = take idx key \<and> deref (drop idx cur) = QUOTE
               then
                 let key = drop idx key; key = (if key \<noteq> [] then tl key else key)
                 in do {
                   cur \<leftarrow> vsf_json_skip_space (drop (idx + 1) cur);
                   (if deref cur \<noteq> CHR '':'' then Some None
                    else Some (Some (vsf_json_skip_space (tl cur), key)))}
               else json_get_entry idx curidx key e)}"

partial_function (option) json_get_loop :: "string option \<Rightarrow> string \<Rightarrow> string option option" where
  "json_get_loop json key =
     (if key = [] then Some json
      else do {
        j \<leftarrow> json;
        (let (t, e) = vsf_json_enumerate_start \<lparr>e_ptr = None, e_type = VSF_JSON_TYPE_INVALID, e_first = False\<rparr> j
         in if t = VSF_JSON_TYPE_INVALID then Some None
            else do {
              r \<leftarrow> (if e_type e = VSF_JSON_TYPE_ARRAY
                   then let (idx, key) = strtoul key in json_get_entry idx 0 key e
                   else json_get_entry (length (takeWhile (\<lambda>c. \<not> vsf_json_isdiv c) key)) 0 key e);
              (case r of None \<Rightarrow> Some None | Some (json, key) \<Rightarrow> json_get_loop json key)})})"

definition vsf_json_get :: "string \<Rightarrow> string \<Rightarrow> string option option" where
  "vsf_json_get json key =
     json_get_loop (Some json) (if vsf_json_isdiv (deref key) then tl key else key)"

text \<open>
  \<open>cap\<close> is the length of the buffer for the result, or \<open>None\<close> when there is no buffer. The result is the
  return value and what has been written to the buffer, without the zero. The assertions fail when the
  buffer is too small.
\<close>

definition json_full :: "int option \<Rightarrow> string \<Rightarrow> bool" where
  "json_full cap out = (case cap of None \<Rightarrow> False | Some len \<Rightarrow> len \<le> int (length out))"

definition json_string_end :: "int option \<Rightarrow> string \<Rightarrow> (int \<times> string) option" where
  "json_string_end cap out = (if json_full cap out then None else Some (int (length out) + 1, out))"

definition json_unescape :: "char \<Rightarrow> string option" where
  "json_unescape ch =
     (if ch = QUOTE then Some [QUOTE] else if ch = BSLASH then Some [BSLASH] else if ch = CHR ''/'' then Some ''/''
      else if ch = CHR ''b'' then Some [CHR 0x08] else if ch = CHR ''f'' then Some [CHR 0x0C]
      else if ch = CHR ''n'' then Some [CHR 0x0A] else if ch = CHR ''r'' then Some [CHR 0x0D]
      else if ch = CHR ''t'' then Some [CHR 0x09] else if ch = CHR ''u'' then Some [] else None)"

fun json_string_loop :: "int option \<Rightarrow> string \<Rightarrow> string \<Rightarrow> (int \<times> string) option" where
  "json_string_loop cap out [] = None"
| "json_string_loop cap out (ch # cs) =
     (if ch = BSLASH
      then if json_full cap out then None
           else (case cs of
                   [] \<Rightarrow> Some (- 1, out)
                 | ch # cs \<Rightarrow>
                     (case json_unescape ch of
                        None \<Rightarrow> Some (- 1, out)
                      | Some s \<Rightarrow> if ch = QUOTE then json_string_end cap (out @ s) else json_string_loop cap (out @ s) cs))
      else if ch = QUOTE then json_string_end cap out
      else if json_full cap out then None
      else json_string_loop cap (out @ [ch]) cs)"

definition vsf_json_get_string :: "string \<Rightarrow> int option \<Rightarrow> (int \<times> string) option" where
  "vsf_json_get_string json cap = (if deref json \<noteq> QUOTE then Some (- 1, []) else json_string_loop cap [] (tl json))"

definition vsf_json_get_boolean :: "string \<Rightarrow> int \<times> bool option" where
  "vsf_json_get_boolean json =
     (if vsf_json_token_match json ''true'' then (1, Some True)
      else if vsf_json_token_match json ''false'' then (1, Some False)
      else (- 1, None))"

section \<open>Writing\<close>

text \<open>The union of \<open>param\<close> and \<open>len\<close> is two fields; the first is used with a writer, the second without.\<close>

record 'p vsf_json_constructor_t =
  c_write_str :: "('p \<Rightarrow> string \<Rightarrow> int \<times> 'p) option"
  c_param :: 'p
  c_len :: nat
  c_first :: bool
  c_result :: bool

definition vsf_json_constructor_init ::
  "'p \<Rightarrow> ('p \<Rightarrow> string \<Rightarrow> int \<times> 'p) option \<Rightarrow> 'p vsf_json_constructor_t" where
  "vsf_json_constructor_init param write_str =
     \<lparr>c_write_str = write_str, c_param = param, c_len = 0, c_first = True, c_result = True\<rparr>"

definition vsf_json_write_str :: "'p vsf_json_constructor_t \<Rightarrow> string \<Rightarrow> int \<times> 'p vsf_json_constructor_t" where
  "vsf_json_write_str c buf =
     (case c_write_str c of
        Some w \<Rightarrow>
          let (ret, p) = w (c_param c) buf; c = c\<lparr>c_param := p\<rparr>
          in (ret, if ret < 0 then c\<lparr>c_result := False\<rparr> else c)
      | None \<Rightarrow> (0, c\<lparr>c_len := (c_len c + length buf) mod 2 ^ 32\<rparr>))"

text \<open>A negative result is returned at once.\<close>

definition json_then :: "int \<times> 'c \<Rightarrow> ('c \<Rightarrow> int \<times> 'c) \<Rightarrow> int \<times> 'c" where
  "json_then r f = (case r of (ret, c) \<Rightarrow> if ret < 0 then (ret, c) else f c)"

definition vsf_json_set_token :: "'p vsf_json_constructor_t \<Rightarrow> string \<Rightarrow> int \<times> 'p vsf_json_constructor_t" where
  "vsf_json_set_token c token = vsf_json_write_str c token"

definition vsf_json_set_key :: "'p vsf_json_constructor_t \<Rightarrow> string option \<Rightarrow> int \<times> 'p vsf_json_constructor_t" where
  "vsf_json_set_key c key =
     json_then (if c_first c then (0, c\<lparr>c_first := False\<rparr>) else vsf_json_write_str c '','') (\<lambda>c.
       case key of
         None \<Rightarrow> (0, c)
       | Some key \<Rightarrow>
           json_then (vsf_json_write_str c [QUOTE]) (\<lambda>c.
           json_then (vsf_json_set_token c key) (\<lambda>c.
           json_then (vsf_json_write_str c [QUOTE]) (\<lambda>c.
           json_then (vsf_json_write_str c '':'') (\<lambda>c. (0, c))))))"

text \<open>What is written for one character of a string; the form feed gets the letter of the backspace.\<close>

definition json_escape :: "char \<Rightarrow> string" where
  "json_escape ch =
     (if ch = QUOTE then [BSLASH, QUOTE] else if ch = BSLASH then [BSLASH, BSLASH] else if ch = CHR ''/'' then [BSLASH, CHR ''/'']
      else if ch = CHR 0x08 then [BSLASH, CHR ''b''] else if ch = CHR 0x0C then [BSLASH, CHR ''b'']
      else if ch = CHR 0x0A then [BSLASH, CHR ''n''] else if ch = CHR 0x0D then [BSLASH, CHR ''r'']
      else if ch = CHR 0x09 then [BSLASH, CHR ''t''] else [ch])"

fun set_string_loop :: "'p vsf_json_constructor_t \<Rightarrow> string \<Rightarrow> int \<times> 'p vsf_json_constructor_t" where
  "set_string_loop c [] = (0, c)"
| "set_string_loop c (ch # cs) = json_then (vsf_json_write_str c (json_escape ch)) (\<lambda>c. set_string_loop c cs)"

definition nonpos :: "int \<times> 'c \<Rightarrow> int \<times> 'c" where
  "nonpos r = (if fst r < 0 then fst r else 0, snd r)"

definition vsf_json_set_string ::
  "'p vsf_json_constructor_t \<Rightarrow> string option \<Rightarrow> string \<Rightarrow> int \<times> 'p vsf_json_constructor_t" where
  "vsf_json_set_string c key v =
     json_then (vsf_json_set_key c key) (\<lambda>c.
     json_then (vsf_json_write_str c [QUOTE]) (\<lambda>c.
     json_then (set_string_loop c v) (\<lambda>c. nonpos (vsf_json_write_str c [QUOTE]))))"

text \<open>The decimal numeral that \<open>snprintf\<close> makes; it fits the buffer of 64 characters.\<close>

fun nat_decimal :: "nat \<Rightarrow> string" where
  "nat_decimal n = (if n < 10 then [] else nat_decimal (n div 10)) @ [char_of (48 + n mod 10)]"

declare nat_decimal.simps [simp del]

definition int_decimal :: "int \<Rightarrow> string" where
  "int_decimal i = (if i < 0 then CHR ''-'' # nat_decimal (nat (- i)) else nat_decimal (nat i))"

definition vsf_json_set_integer ::
  "'p vsf_json_constructor_t \<Rightarrow> string option \<Rightarrow> int \<Rightarrow> int \<times> 'p vsf_json_constructor_t" where
  "vsf_json_set_integer c key v =
     json_then (vsf_json_set_key c key) (\<lambda>c. nonpos (vsf_json_write_str c (int_decimal v)))"

definition vsf_json_set_boolean ::
  "'p vsf_json_constructor_t \<Rightarrow> string option \<Rightarrow> bool \<Rightarrow> int \<times> 'p vsf_json_constructor_t" where
  "vsf_json_set_boolean c key v =
     (let (ret, c) = vsf_json_set_key c key
      in if ret < 0 then (- 1, c) else vsf_json_set_token c (if v then ''true'' else ''false''))"

definition vsf_json_set_null ::
  "'p vsf_json_constructor_t \<Rightarrow> string option \<Rightarrow> int \<times> 'p vsf_json_constructor_t" where
  "vsf_json_set_null c key =
     (let (ret, c) = vsf_json_set_key c key in if ret < 0 then (- 1, c) else vsf_json_set_token c ''null'')"

text \<open>The macros; \<open>body\<close> are the statements between the brackets.\<close>

definition json_set_container ::
  "string \<Rightarrow> string \<Rightarrow> string option \<Rightarrow> ('p vsf_json_constructor_t \<Rightarrow> 'p vsf_json_constructor_t) \<Rightarrow>
   'p vsf_json_constructor_t \<Rightarrow> 'p vsf_json_constructor_t" where
  "json_set_container op cl key body c =
     (let (len, c) = vsf_json_set_key c key
      in if len < 0 then c
         else let (len, c) = vsf_json_write_str (c\<lparr>c_first := True\<rparr>) op
              in if len < 0 then c else snd (vsf_json_write_str (body c) cl))"

definition vsf_json_set_object ::
  "string option \<Rightarrow> ('p vsf_json_constructor_t \<Rightarrow> 'p vsf_json_constructor_t) \<Rightarrow>
   'p vsf_json_constructor_t \<Rightarrow> 'p vsf_json_constructor_t" where
  "vsf_json_set_object key body c = json_set_container ''{'' ''}'' key body c"

definition vsf_json_set_array ::
  "string option \<Rightarrow> ('p vsf_json_constructor_t \<Rightarrow> 'p vsf_json_constructor_t) \<Rightarrow>
   'p vsf_json_constructor_t \<Rightarrow> 'p vsf_json_constructor_t" where
  "vsf_json_set_array key body c = json_set_container ''['' '']'' key body c"

text \<open>A memory buffer: what has been written to it and the bytes that are left.\<close>

record vsf_mem_t =
  mem_text :: string
  mem_size :: int

definition vsf_json_constructor_buffer_write_str :: "vsf_mem_t \<Rightarrow> string \<Rightarrow> int \<times> vsf_mem_t" where
  "vsf_json_constructor_buffer_write_str m str =
     (if mem_size m < int (length str) + 1 then (- 1, m)
      else (int (length str), m\<lparr>mem_text := mem_text m @ str, mem_size := mem_size m - int (length str)\<rparr>))"

end
