(* ===== verification/VSF_Json_Correct.thy ===== *)
theory VSF_Json_Correct
  imports VSF_Json
begin

text \<open>
  What is written with the constructor functions of \<open>vsf_json.c\<close> can be read back: the text of a document,
  the entries that the enumerator finds in it, and the lookup of a value by its path.
\<close>

section \<open>Documents\<close>

datatype json_val =
    JString string | JInteger int | JBoolean bool | JNull | JObject "(string \<times> json_val) list" | JArray "json_val list"

text \<open>The calls that write a document.\<close>

function (sequential) json_set :: "string option \<Rightarrow> json_val \<Rightarrow> 'p vsf_json_constructor_t \<Rightarrow> 'p vsf_json_constructor_t"
  and json_set_fields :: "(string \<times> json_val) list \<Rightarrow> 'p vsf_json_constructor_t \<Rightarrow> 'p vsf_json_constructor_t"
  and json_set_elems :: "json_val list \<Rightarrow> 'p vsf_json_constructor_t \<Rightarrow> 'p vsf_json_constructor_t" where
  "json_set key (JString s) c = snd (vsf_json_set_string c key s)"
| "json_set key (JInteger i) c = snd (vsf_json_set_integer c key i)"
| "json_set key (JBoolean b) c = snd (vsf_json_set_boolean c key b)"
| "json_set key JNull c = snd (vsf_json_set_null c key)"
| "json_set key (JObject kvs) c = vsf_json_set_object key (json_set_fields kvs) c"
| "json_set key (JArray vs) c = vsf_json_set_array key (json_set_elems vs) c"
| "json_set_fields [] c = c"
| "json_set_fields ((k, v) # kvs) c = json_set_fields kvs (json_set (Some k) v c)"
| "json_set_elems [] c = c"
| "json_set_elems (v # vs) c = json_set_elems vs (json_set None v c)"
  by pat_completeness auto
termination by lexicographic_order

text \<open>The text of a document.\<close>

definition json_string_text :: "string \<Rightarrow> string" where
  "json_string_text s = QUOTE # concat (map json_escape s) @ [QUOTE]"

definition json_key_text :: "string option \<Rightarrow> string" where
  "json_key_text key = (case key of None \<Rightarrow> [] | Some k \<Rightarrow> QUOTE # k @ [QUOTE, CHR '':''])"

fun json_text :: "json_val \<Rightarrow> string"
  and json_fields_text :: "bool \<Rightarrow> (string \<times> json_val) list \<Rightarrow> string"
  and json_elems_text :: "bool \<Rightarrow> json_val list \<Rightarrow> string" where
  "json_text (JString s) = json_string_text s"
| "json_text (JInteger i) = int_decimal i"
| "json_text (JBoolean b) = (if b then ''true'' else ''false'')"
| "json_text JNull = ''null''"
| "json_text (JObject kvs) = ''{'' @ json_fields_text True kvs @ ''}''"
| "json_text (JArray vs) = ''['' @ json_elems_text True vs @ '']''"
| "json_fields_text first [] = []"
| "json_fields_text first ((k, v) # kvs) =
     (if first then [] else '','') @ json_key_text (Some k) @ json_text v @ json_fields_text False kvs"
| "json_elems_text first [] = []"
| "json_elems_text first (v # vs) = (if first then [] else '','') @ json_text v @ json_elems_text False vs"

text \<open>Keys are written as they are, so they must not need an escape; objects and arrays must not be empty.\<close>

definition plain_key :: "string \<Rightarrow> bool" where
  "plain_key k = (k \<noteq> [] \<and> (\<forall>c \<in> set k. c \<noteq> QUOTE \<and> c \<noteq> BSLASH \<and> c \<noteq> CHR ''/''))"

fun json_ok :: "json_val \<Rightarrow> bool"
  and json_fields_ok :: "(string \<times> json_val) list \<Rightarrow> bool"
  and json_elems_ok :: "json_val list \<Rightarrow> bool" where
  "json_ok (JObject kvs) = (kvs \<noteq> [] \<and> json_fields_ok kvs)"
| "json_ok (JArray vs) = (vs \<noteq> [] \<and> json_elems_ok vs)"
| "json_ok v = True"
| "json_fields_ok [] = True"
| "json_fields_ok ((k, v) # kvs) = (plain_key k \<and> json_ok v \<and> json_fields_ok kvs)"
| "json_elems_ok [] = True"
| "json_elems_ok (v # vs) = (json_ok v \<and> json_elems_ok vs)"

section \<open>Writing\<close>

text \<open>
  A constructor that counts, or writes to a memory buffer with room for more than \<open>n\<close> characters, and its
  state after a text has been written.
\<close>

definition json_room :: "vsf_mem_t vsf_json_constructor_t \<Rightarrow> nat \<Rightarrow> bool" where
  "json_room c n = (c_write_str c = None \<and> c_len c < 2 ^ 32
     \<or> c_write_str c = Some vsf_json_constructor_buffer_write_str \<and> int n < mem_size (c_param c))"

definition json_emit :: "string \<Rightarrow> vsf_mem_t vsf_json_constructor_t \<Rightarrow> vsf_mem_t vsf_json_constructor_t" where
  "json_emit t c =
     (if c_write_str c = None then c\<lparr>c_len := (c_len c + length t) mod 2 ^ 32\<rparr>
      else c\<lparr>c_param := (c_param c)\<lparr>mem_text := mem_text (c_param c) @ t, mem_size := mem_size (c_param c) - int (length t)\<rparr>\<rparr>)"

lemma json_emit_fields [simp]:
  "c_write_str (json_emit t c) = c_write_str c" "c_first (json_emit t c) = c_first c" "c_result (json_emit t c) = c_result c"
  by (simp_all add: json_emit_def)

lemma json_emit_append: "json_emit t (json_emit s c) = json_emit (s @ t) c"
  by (simp add: json_emit_def mod_simps add.assoc)

lemma json_emit_first: "json_emit t (c\<lparr>c_first := b\<rparr>) = (json_emit t c)\<lparr>c_first := b\<rparr>"
  by (simp add: json_emit_def)

lemma json_room_emit [simp]: "json_room c (length t + n) \<Longrightarrow> json_room (json_emit t c) n"
  by (auto simp: json_room_def json_emit_def)

lemma json_emit_Nil:
  assumes "json_room c n"
  shows "json_emit [] c = c"
proof -
  have "m\<lparr>mem_text := mem_text m, mem_size := mem_size m\<rparr> = m" for m :: vsf_mem_t by (cases m) simp
  then show ?thesis using assms by (cases c) (auto simp: json_emit_def json_room_def)
qed

lemma json_room_first [simp]: "json_room (c\<lparr>c_first := b\<rparr>) n = json_room c n"
  by (simp add: json_room_def)

lemma json_room_mono: "json_room c n \<Longrightarrow> m \<le> n \<Longrightarrow> json_room c m"
  by (auto simp: json_room_def)

lemma write_str_emit:
  assumes "json_room c (length t)"
  shows "\<exists>r \<ge> 0. vsf_json_write_str c t = (r, json_emit t c)"
  using assms by (auto simp: json_room_def vsf_json_write_str_def json_emit_def vsf_json_constructor_buffer_write_str_def)

lemma json_then_emit:
  assumes "json_room c (length t)"
  shows "json_then (vsf_json_write_str c t) f = f (json_emit t c)"
  using write_str_emit [OF assms] by (auto simp: json_then_def)

lemma not_first: "\<not> c_first c \<Longrightarrow> c\<lparr>c_first := False\<rparr> = c"
  by (cases c) simp

definition json_pre :: "bool \<Rightarrow> string option \<Rightarrow> string" where
  "json_pre first key = (if first then [] else '','') @ json_key_text key"

lemma set_key_emit:
  assumes "json_room c (length (json_pre (c_first c) key))"
  shows "vsf_json_set_key c key = (0, (json_emit (json_pre (c_first c) key) c)\<lparr>c_first := False\<rparr>)"
proof -
  note r = json_room_mono [OF assms]
  show ?thesis
    by (cases "c_first c"; cases key)
      (simp_all add: json_emit_Nil [OF assms] vsf_json_set_key_def vsf_json_set_token_def json_then_emit r json_pre_def json_key_text_def json_emit_append
        json_emit_first not_first json_then_def [of "(0, _)"])
qed

lemma set_key_then:
  assumes "json_room c (length (json_pre (c_first c) key))"
  shows "json_then (vsf_json_set_key c key) f = f ((json_emit (json_pre (c_first c) key) c)\<lparr>c_first := False\<rparr>)"
  by (simp add: set_key_emit [OF assms] json_then_def)

lemma set_string_loop_emit:
  assumes "json_room c (length (concat (map json_escape s)))"
  shows "set_string_loop c s = (0, json_emit (concat (map json_escape s)) c)"
  using assms
proof (induction s arbitrary: c)
  case (Cons ch s)
  then show ?case using json_then_emit [OF json_room_mono [OF Cons.prems], of "json_escape ch"]
    by (simp add: json_emit_append)
qed (simp add: json_emit_Nil)

lemma snd_write_str:
  assumes "json_room c (length t)"
  shows "snd (vsf_json_write_str c t) = json_emit t c" "snd (nonpos (vsf_json_write_str c t)) = json_emit t c"
  using write_str_emit [OF assms] by (auto simp: nonpos_def)

text \<open>Each call writes the comma and the key, where they belong, and the text of its value.\<close>

definition json_wrote :: "string option \<Rightarrow> string \<Rightarrow> vsf_mem_t vsf_json_constructor_t \<Rightarrow> vsf_mem_t vsf_json_constructor_t" where
  "json_wrote key t c = (json_emit (json_pre (c_first c) key @ t) c)\<lparr>c_first := False\<rparr>"

lemma json_set_string_emit:
  assumes "json_room c (length (json_pre (c_first c) key @ json_string_text s))"
  shows "snd (vsf_json_set_string c key s) = json_wrote key (json_string_text s) c"
proof -
  note r = json_room_mono [OF assms]
  show ?thesis
    by (simp add: vsf_json_set_string_def set_key_then r json_then_emit set_string_loop_emit json_then_def [of "(0, _)"] snd_write_str
        json_emit_append json_emit_first json_string_text_def json_wrote_def)
qed

lemma json_set_scalar_emit:
  assumes "json_room c (length (json_pre (c_first c) key @ json_text v))"
    and "\<forall>kvs. v \<noteq> JObject kvs" "\<forall>vs. v \<noteq> JArray vs"
  shows "json_set key v c = json_wrote key (json_text v) c"
proof -
  note r = json_room_mono [OF assms(1)]
  show ?thesis
  proof (cases v)
    case (JString s)
    then show ?thesis using json_set_string_emit [of c key s] assms(1) by simp
  qed (use assms(2,3) r in \<open>auto simp: json_then_def [of "(0, _)"] vsf_json_set_integer_def vsf_json_set_boolean_def vsf_json_set_null_def set_key_then
      set_key_emit vsf_json_set_token_def snd_write_str json_emit_append json_emit_first json_wrote_def Let_def\<close>)
qed

lemma json_set_container_emit:
  assumes "json_room c (length (json_pre (c_first c) key @ op @ t @ cl))"
    and "\<And>c. c_first c \<Longrightarrow> json_room c (length t) \<Longrightarrow> body c = (json_emit t c)\<lparr>c_first := False\<rparr>"
  shows "json_set_container op cl key body c = json_wrote key (op @ t @ cl) c"
proof -
  note r = json_room_mono [OF assms(1)]
  define c1 where "c1 = (json_emit (json_pre (c_first c) key) c)\<lparr>c_first := True\<rparr>"
  have "vsf_json_set_key c key = (0, c1\<lparr>c_first := False\<rparr>)" by (simp add: set_key_emit r c1_def)
  moreover obtain k where "vsf_json_write_str c1 op = (k, json_emit op c1)" "0 \<le> k"
    using write_str_emit [of c1 op] r by (auto simp: c1_def)
  moreover have "body (json_emit op c1) = (json_emit t (json_emit op c1))\<lparr>c_first := False\<rparr>"
    by (rule assms(2)) (simp_all add: c1_def r)
  moreover have "c1\<lparr>c_first := False, c_first := True\<rparr> = c1" by (simp add: c1_def)
  ultimately show ?thesis
    by (simp add: json_set_container_def snd_write_str r json_emit_append json_emit_first c1_def json_wrote_def)
qed

lemma first_id: "c\<lparr>c_first := c_first c\<rparr> = c"
  by (cases c) simp

lemma json_set_emit:
  "json_ok v \<Longrightarrow> json_room c (length (json_pre (c_first c) key @ json_text v)) \<Longrightarrow> json_set key v c = json_wrote key (json_text v) c"
  "json_fields_ok kvs \<Longrightarrow> json_room c (length (json_fields_text (c_first c) kvs)) \<Longrightarrow>
     json_set_fields kvs c = (json_emit (json_fields_text (c_first c) kvs) c)\<lparr>c_first := c_first c \<and> kvs = []\<rparr>"
  "json_elems_ok vs \<Longrightarrow> json_room c (length (json_elems_text (c_first c) vs)) \<Longrightarrow>
     json_set_elems vs c = (json_emit (json_elems_text (c_first c) vs) c)\<lparr>c_first := c_first c \<and> vs = []\<rparr>"
proof (induction v and kvs and vs arbitrary: c key and c and c rule: json_ok_json_fields_ok_json_elems_ok.induct)
  case (1 kvs)
  have "json_set_fields kvs c = (json_emit (json_fields_text True kvs) c)\<lparr>c_first := False\<rparr>"
    if "c_first c" "json_room c (length (json_fields_text True kvs))" for c using 1 that by simp
  then show ?case using json_set_container_emit [of c key "''{''" "json_fields_text True kvs" "''}''" "json_set_fields kvs"] "1.prems"
    by (simp add: vsf_json_set_object_def)
next
  case (2 vs)
  have "json_set_elems vs c = (json_emit (json_elems_text True vs) c)\<lparr>c_first := False\<rparr>"
    if "c_first c" "json_room c (length (json_elems_text True vs))" for c using 2 that by simp
  then show ?case using json_set_container_emit [of c key "''[''" "json_elems_text True vs" "'']''" "json_set_elems vs"] "2.prems"
    by (simp add: vsf_json_set_array_def)
next
  case (5 k v kvs)
  note r = json_room_mono [OF "5.prems"(2)]
  have "json_set (Some k) v c = json_wrote (Some k) (json_text v) c" by (rule "5.IH"(1)) (use "5.prems" r in \<open>simp_all add: json_pre_def\<close>)
  moreover have "json_set_fields kvs (json_wrote (Some k) (json_text v) c)
      = (json_emit (json_fields_text False kvs) (json_wrote (Some k) (json_text v) c))\<lparr>c_first := False\<rparr>"
    using "5.IH"(2) [of "json_wrote (Some k) (json_text v) c"] "5.prems" r by (simp add: json_wrote_def json_pre_def)
  ultimately show ?case by (simp add: json_wrote_def json_pre_def json_emit_append json_emit_first)
next
  case (7 v vs)
  note r = json_room_mono [OF "7.prems"(2)]
  have "json_set None v c = json_wrote None (json_text v) c"
    by (rule "7.IH"(1)) (use "7.prems" r in \<open>simp_all add: json_pre_def json_key_text_def\<close>)
  moreover have "json_set_elems vs (json_wrote None (json_text v) c)
      = (json_emit (json_elems_text False vs) (json_wrote None (json_text v) c))\<lparr>c_first := False\<rparr>"
    using "7.IH"(2) [of "json_wrote None (json_text v) c"] "7.prems" r by (simp add: json_wrote_def json_pre_def json_key_text_def)
  ultimately show ?case by (simp add: json_wrote_def json_pre_def json_key_text_def json_emit_append json_emit_first)
qed ((rule json_set_scalar_emit; simp) | simp add: json_emit_Nil first_id)+

section \<open>Strings\<close>

definition clean_char :: "char \<Rightarrow> bool" where
  "clean_char c = (c \<noteq> QUOTE \<and> c \<noteq> CHR 0x0C)"

lemma string_loop_clean:
  assumes "\<forall>c \<in> set s. clean_char c" "\<not> json_full cap (out @ s)"
  shows "json_string_loop cap out (concat (map json_escape s) @ rest) = json_string_loop cap (out @ s) rest"
  using assms
proof (induction s arbitrary: out)
  case (Cons c s)
  have "\<not> json_full cap out" using Cons.prems(2) by (auto simp: json_full_def split: option.splits)
  then have "json_string_loop cap out (json_escape c @ cs) = json_string_loop cap (out @ [c]) cs" for cs
    using Cons.prems(1) by (simp add: json_escape_def clean_char_def json_unescape_def)
  then show ?case using Cons.IH [of "out @ [c]"] Cons.prems by simp
qed simp

lemma get_string_clean:
  assumes "\<forall>c \<in> set s. clean_char c" "\<not> json_full cap s"
  shows "vsf_json_get_string (json_string_text s @ rest) cap = Some (int (length s) + 1, s)"
  using string_loop_clean [of s cap "[]"] assms
  by (simp add: vsf_json_get_string_def json_string_text_def deref_def json_string_end_def)

section \<open>The enumerator on a text\<close>

lemma scan_string: "enum_scan True b q (concat (map json_escape s) @ QUOTE # rest) = enum_scan False b q rest"
proof (induction s)
  case (Cons c s)
  have "enum_scan True b q (json_escape c @ cs) = enum_scan True b q cs" for cs by (simp add: json_escape_def)
  then show ?case using Cons by simp
qed simp

lemma scan_key:
  assumes "plain_key k"
  shows "enum_scan False b q (json_key_text (Some k) @ rest) = enum_scan False b q rest"
proof -
  have "enum_scan True b q (k @ QUOTE # rest) = enum_scan False b q rest" if "\<forall>c \<in> set k. c \<noteq> QUOTE \<and> c \<noteq> BSLASH" for rest
    using that by (induction k) simp_all
  then show ?thesis using assms by (simp add: json_key_text_def plain_key_def)
qed

lemma nat_decimal_eqs:
  "n < 10 \<Longrightarrow> nat_decimal n = [char_of (48 + n)]"
  "\<not> n < 10 \<Longrightarrow> nat_decimal n = nat_decimal (n div 10) @ [char_of (48 + n mod 10)]"
  by (subst nat_decimal.simps; simp)+

lemma nat_decimal_ne: "nat_decimal n \<noteq> []"
  by (cases "n < 10") (simp_all add: nat_decimal_eqs)

lemma nat_decimal_digits: "\<forall>c \<in> set (nat_decimal n). isdigit c"
proof (induction n rule: nat_decimal.induct)
  case (1 n)
  have "n mod 10 < 10" by simp
  then have "isdigit (char_of (48 + n mod 10))" by (simp add: isdigit_def)
  then show ?case using 1 by (subst nat_decimal.simps) (auto split: if_splits)
qed

definition dull :: "char \<Rightarrow> bool" where
  "dull c = (c \<notin> {QUOTE, BSLASH, CHR ''{'', CHR ''['', CHR '','', CHR ''}'', CHR '']''})"

lemma scan_dull: "\<forall>c \<in> set s. dull c \<Longrightarrow> enum_scan str b q (s @ rest) = enum_scan str b q rest"
  by (induction s) (simp_all add: dull_def)

lemma digit_dull: "isdigit c \<Longrightarrow> dull c"
  by (auto simp: isdigit_def dull_def)

lemma scan_scalar:
  assumes "\<forall>kvs. v \<noteq> JObject kvs" "\<forall>vs. v \<noteq> JArray vs"
  shows "enum_scan False b q (json_text v @ rest) = enum_scan False b q rest"
proof (cases v)
  case (JString s)
  then show ?thesis using scan_string [of b q s rest] by (simp add: json_string_text_def)
next
  case (JInteger i)
  have "\<forall>c \<in> set (int_decimal i). dull c"
    using nat_decimal_digits digit_dull by (auto simp: int_decimal_def dull_def)
  then show ?thesis using JInteger scan_dull by simp
qed (use assms in auto)

lemma scan_value:
  "json_ok v \<Longrightarrow> 0 \<le> b \<Longrightarrow> 0 \<le> q \<Longrightarrow> 0 < b \<or> 0 < q \<Longrightarrow> enum_scan False b q (json_text v @ rest) = enum_scan False b q rest"
  "json_fields_ok kvs \<Longrightarrow> 0 \<le> b \<Longrightarrow> 0 \<le> q \<Longrightarrow> 0 < b \<or> 0 < q \<Longrightarrow>
     enum_scan False b q (json_fields_text first kvs @ rest) = enum_scan False b q rest"
  "json_elems_ok vs \<Longrightarrow> 0 \<le> b \<Longrightarrow> 0 \<le> q \<Longrightarrow> 0 < b \<or> 0 < q \<Longrightarrow>
     enum_scan False b q (json_elems_text first vs @ rest) = enum_scan False b q rest"
proof (induction v and kvs and vs arbitrary: b q rest and b q rest first and b q rest first
    rule: json_ok_json_fields_ok_json_elems_ok.induct)
  case (5 k v kvs)
  then show ?case using scan_key [of k b q] by auto
next
  case (7 v vs)
  then show ?case by auto
qed ((rule scan_scalar; simp; fail) | (auto; fail))+

lemma scan_top:
  assumes "json_ok v"
  shows "enum_scan False 0 0 (json_text v @ rest) = enum_scan False 0 0 rest
       \<or> enum_scan False 0 0 (json_text v @ rest) = enum_check rest"
proof (cases v)
  case (JObject kvs)
  then show ?thesis using assms scan_value(2) [of kvs 1 0] by simp
next
  case (JArray vs)
  then show ?thesis using assms scan_value(3) [of vs 0 1] by simp
qed (rule disjI1, rule scan_scalar; simp)+

text \<open>An entry of a container, as the enumerator sees it.\<close>

definition entry_ok :: "string \<Rightarrow> bool" where
  "entry_ok t \<longleftrightarrow> t \<noteq> [] \<and> \<not> isspace (hd t) \<and> hd t \<notin> set '',}]''
     \<and> (\<forall>r. r \<noteq> [] \<longrightarrow> \<not> isspace (hd r) \<longrightarrow> enum_scan False 0 0 (t @ CHR '','' # r) = Some (Some r))
     \<and> (\<forall>x r. x \<in> set ''}]'' \<longrightarrow> enum_scan False 0 0 (t @ x # r) = Some None)"

lemma skip_space_id: "r \<noteq> [] \<Longrightarrow> \<not> isspace (hd r) \<Longrightarrow> vsf_json_skip_space r = Some r"
  by (cases r) (simp_all add: vsf_json_skip_space_def)

lemma json_text_hd:
  assumes "json_ok v"
  shows "json_text v \<noteq> [] \<and> \<not> isspace (hd (json_text v)) \<and> hd (json_text v) \<notin> set '',}]''"
proof (cases v)
  case (JInteger i)
  obtain c cs where "nat_decimal (nat \<bar>i\<bar>) = c # cs" "isdigit c"
    using nat_decimal_ne nat_decimal_digits [of "nat \<bar>i\<bar>"] by (cases "nat_decimal (nat \<bar>i\<bar>)") auto
  moreover from this(2) have "\<not> isspace c" "c \<notin> set '',}]''" by (auto simp: isdigit_def isspace_def)
  ultimately show ?thesis using JInteger by (auto simp: int_decimal_def isspace_def)
qed (simp_all add: json_string_text_def isspace_def)

lemma entry_value: "json_ok v \<Longrightarrow> entry_ok (json_text v)"
  and entry_field: "json_ok v \<Longrightarrow> plain_key k \<Longrightarrow> entry_ok (json_key_text (Some k) @ json_text v)"
proof -
  assume v: "json_ok v"
  have c: "enum_scan False 0 0 (json_text v @ CHR '','' # r) = Some (Some r)" if "r \<noteq> []" "\<not> isspace (hd r)" for r
    using scan_top [OF v, of "CHR '','' # r"] skip_space_id [of r] that
    by (auto simp: enum_check_def enum_comma_def vsf_json_skip_space_def isspace_def deref_def)
  have d: "enum_scan False 0 0 (json_text v @ x # r) = Some None" if "x \<in> set ''}]''" for x r
    using scan_top [OF v, of "x # r"] that
    by (auto simp: enum_check_def vsf_json_skip_space_def isspace_def deref_def)
  show "entry_ok (json_text v)" using json_text_hd [OF v] c d by (simp add: entry_ok_def)
  assume "plain_key k"
  then show "entry_ok (json_key_text (Some k) @ json_text v)" using scan_key [of k 0 0] c d
    by (simp add: entry_ok_def) (simp add: json_key_text_def isspace_def)
qed

fun join_entries :: "string list \<Rightarrow> string" where
  "join_entries [] = []"
| "join_entries (t # ts) = t @ (if ts = [] then [] else CHR '','' # join_entries ts)"

definition entries_of :: "json_val \<Rightarrow> string list" where
  "entries_of v = (case v of JObject kvs \<Rightarrow> map (\<lambda>(k, v). json_key_text (Some k) @ json_text v) kvs
     | JArray vs \<Rightarrow> map json_text vs | _ \<Rightarrow> [])"

lemma fields_join: "json_fields_text first kvs =
    (if first \<or> kvs = [] then [] else '','') @ join_entries (map (\<lambda>(k, v). json_key_text (Some k) @ json_text v) kvs)"
  by (induction kvs arbitrary: first) auto

lemma elems_join: "json_elems_text first vs = (if first \<or> vs = [] then [] else '','') @ join_entries (map json_text vs)"
  by (induction vs arbitrary: first) auto

lemma entries_ok:
  assumes "json_ok v"
  shows "\<forall>t \<in> set (entries_of v). entry_ok t"
proof -
  have f: "\<forall>t \<in> set (map (\<lambda>(k, v). json_key_text (Some k) @ json_text v) kvs). entry_ok t" if "json_fields_ok kvs" for kvs
    using that by (induction kvs) (auto simp: entry_field)
  have g: "\<forall>t \<in> set (map json_text vs). entry_ok t" if "json_elems_ok vs" for vs
    using that by (induction vs) (auto simp: entry_value)
  show ?thesis
  proof (cases v)
    case (JObject kvs)
    then show ?thesis using f [of kvs] assms by (simp add: entries_of_def)
  next
    case (JArray vs)
    then show ?thesis using g [of vs] assms by (simp add: entries_of_def)
  qed (simp_all add: entries_of_def)
qed

section \<open>The enumerator on the entries\<close>

text \<open>The text from an entry to the end, and the enumerator at this entry.\<close>

definition from_entry :: "string list \<Rightarrow> char \<Rightarrow> string \<Rightarrow> string" where
  "from_entry ts x rest = join_entries ts @ x # rest"

abbreviation enum_at :: "string \<Rightarrow> vsf_json_type_t \<Rightarrow> vsf_json_enumerator_t" where
  "enum_at s ty \<equiv> \<lparr>e_ptr = Some s, e_type = ty, e_first = False\<rparr>"

lemma from_entry_hd:
  assumes "ts \<noteq> []" "\<forall>t \<in> set ts. entry_ok t"
  shows "from_entry ts x rest \<noteq> []" "\<not> isspace (hd (from_entry ts x rest))" "deref (from_entry ts x rest) \<notin> set '',}]''"
    "hd (from_entry ts x rest) \<notin> set '',}]''"
  using assms by (cases ts; cases "hd ts"; auto simp: from_entry_def entry_ok_def deref_def)+

lemma enum_next_first:
  assumes "ts \<noteq> []" "\<forall>t \<in> set ts. entry_ok t"
  shows "vsf_json_enumerate_next \<lparr>e_ptr = Some (from_entry ts x rest), e_type = ty, e_first = True\<rparr>
    = Some (Some (from_entry ts x rest), enum_at (from_entry ts x rest) ty)"
  using from_entry_hd(3) [OF assms, of x rest] by (simp add: vsf_json_enumerate_next_def Let_def)

lemma enum_next_at:
  assumes "\<forall>t' \<in> set (t # ts). entry_ok t'" "x \<in> set ''}]''"
  shows "vsf_json_enumerate_next (enum_at (from_entry (t # ts) x rest) ty) =
    Some (if ts = [] then (None, enum_at (from_entry (t # ts) x rest) ty)
          else (Some (from_entry ts x rest), enum_at (from_entry ts x rest) ty))"
proof (cases "ts = []")
  case True
  then show ?thesis using assms by (auto simp: vsf_json_enumerate_next_def Let_def from_entry_def entry_ok_def)
next
  case False
  then have h: "from_entry ts x rest \<noteq> []" "\<not> isspace (hd (from_entry ts x rest))" "deref (from_entry ts x rest) \<notin> set '',}]''"
    using from_entry_hd [of ts x rest] assms(1) by auto
  then have "enum_scan False 0 0 (from_entry (t # ts) x rest) = Some (Some (from_entry ts x rest))"
    using assms(1) False by (simp add: entry_ok_def from_entry_def)
  then show ?thesis using False h(3) by (simp add: vsf_json_enumerate_next_def Let_def)
qed

lemma num_of_entry_from:
  assumes "\<forall>t' \<in> set (t # ts). entry_ok t'" "x \<in> set ''}]''"
  shows "num_of_entry_loop (enum_at (from_entry (t # ts) x rest) ty) n = Some (n + length ts)"
  using assms
proof (induction ts arbitrary: t n)
  case Nil
  then show ?case using enum_next_at [of t "[]" x] by (subst num_of_entry_loop.simps) simp
next
  case (Cons u ts)
  then show ?case using enum_next_at [of t "u # ts" x] by (subst num_of_entry_loop.simps) simp
qed

text \<open>The text of a container and the start of its enumeration.\<close>

definition container_type :: "json_val \<Rightarrow> vsf_json_type_t" where
  "container_type v = (case v of JObject _ \<Rightarrow> VSF_JSON_TYPE_OBJECT | _ \<Rightarrow> VSF_JSON_TYPE_ARRAY)"

lemma container_start:
  assumes "json_ok v" "entries_of v \<noteq> []"
  obtains x where "x \<in> set ''}]''" "\<And>e rest. vsf_json_enumerate_start e (json_text v @ rest) =
    (container_type v, \<lparr>e_ptr = Some (from_entry (entries_of v) x rest), e_type = container_type v, e_first = True\<rparr>)"
proof -
  obtain op x where x: "x \<in> set ''}]''" "op \<in> {CHR ''{'', CHR ''[''}" "container_type v = (if op = CHR ''{'' then VSF_JSON_TYPE_OBJECT else VSF_JSON_TYPE_ARRAY)"
    "\<And>rest. json_text v @ rest = op # from_entry (entries_of v) x rest"
    using assms(2) by (cases v) (force simp: entries_of_def container_type_def fields_join elems_join from_entry_def)+
  have "vsf_json_skip_space (from_entry (entries_of v) x rest) = Some (from_entry (entries_of v) x rest)" for rest
    using skip_space_id from_entry_hd(1,2) [OF assms(2) entries_ok [OF assms(1)]] by blast
  then have "vsf_json_enumerate_start e (json_text v @ rest) =
    (container_type v, \<lparr>e_ptr = Some (from_entry (entries_of v) x rest), e_type = container_type v, e_first = True\<rparr>)" for e rest
    unfolding x(3,4) using x(2) by (auto simp: vsf_json_enumerate_start_def vsf_json_get_type_def deref_def Let_def)
  then show ?thesis using that x(1) by blast
qed

lemma num_of_entry_text:
  assumes "json_ok v" "entries_of v \<noteq> []"
  shows "vsf_json_num_of_entry (json_text v @ rest) = Some (length (entries_of v))"
proof -
  obtain x where x: "x \<in> set ''}]''" "\<And>e rest. vsf_json_enumerate_start e (json_text v @ rest) =
    (container_type v, \<lparr>e_ptr = Some (from_entry (entries_of v) x rest), e_type = container_type v, e_first = True\<rparr>)"
    using container_start [OF assms] by blast
  obtain t ts where ts: "entries_of v = t # ts" using assms(2) by (cases "entries_of v") auto
  have "num_of_entry_loop \<lparr>e_ptr = Some (from_entry (entries_of v) x rest), e_type = container_type v, e_first = True\<rparr> 0
      = Some (length (entries_of v))"
    using num_of_entry_from [of t ts x rest "container_type v" 1] enum_next_first [of "t # ts" x rest] entries_ok [OF assms(1)] x(1)
    by (subst num_of_entry_loop.simps) (simp add: ts)
  then show ?thesis by (simp add: vsf_json_num_of_entry_def x(2) container_type_def split: json_val.splits)
qed

section \<open>Lookup\<close>

lemma digit_value_char: "d < 10 \<Longrightarrow> digit_value (char_of (48 + d)) = d" for d :: nat
  by (simp add: digit_value_def isdigit_def)

lemma read_decimal: "read_digits 10 0 (nat_decimal n @ r) = read_digits 10 n r"
proof (induction n arbitrary: r rule: nat_decimal.induct)
  case (1 n)
  have d: "digit_value (char_of (48 + n mod 10)) = n mod 10" by (rule digit_value_char) simp
  show ?case using 1 [of "char_of (48 + n mod 10) # r"] d by (cases "n < 10") (simp_all add: nat_decimal_eqs)
qed

lemma nat_decimal_hd: "nat_decimal n = c # cs \<Longrightarrow> isdigit c \<and> (0 < n \<longrightarrow> c \<noteq> CHR ''0'')"
proof (induction n arbitrary: c cs rule: nat_decimal.induct)
  case (1 n)
  have digit: "isdigit c" using nat_decimal_digits [of n] "1.prems" by simp
  have "c \<noteq> CHR ''0''" if "0 < n"
  proof (cases "n < 10")
    case True
    then have "c = char_of (48 + n)" using "1.prems" by (simp add: nat_decimal_eqs)
    then have "(of_char c :: nat) = 48 + n" using True by simp
    then show ?thesis using that by auto
  next
    case False
    then obtain ds where "nat_decimal (n div 10) = c # ds"
      using "1.prems" nat_decimal_ne [of "n div 10"] by (cases "nat_decimal (n div 10)") (simp_all add: nat_decimal_eqs(2) [of n])
    then show ?thesis using 1(1) [OF False] False by auto
  qed
  then show ?case using digit by blast
qed

lemma strtoul_decimal:
  assumes "n < 2 ^ 32" "r = [] \<or> (\<exists>t. r = CHR ''/'' # t)"
  shows "strtoul (nat_decimal n @ r) = (n, r)"
proof -
  obtain c cs where c: "nat_decimal n = c # cs" using nat_decimal_ne by (cases "nat_decimal n") auto
  have h: "isdigit c" "0 < n \<longrightarrow> c \<noteq> CHR ''0''" using nat_decimal_hd [OF c] by auto
  then have p: "\<not> isspace c" "c \<noteq> CHR ''-''" "c \<noteq> CHR ''+''" by (auto simp: isdigit_def isspace_def)
  have r: "read_digits b m r = (m, r)" if "b \<le> 16" for b m using assms(2) that by (auto simp: digit_value_def isdigit_def)
  show ?thesis
  proof (cases "n = 0")
    case True
    moreover have "char_of (48 :: nat) = CHR ''0''" by code_simp
    ultimately have "c = CHR ''0''" "cs = []" using c by (simp_all add: nat_decimal_eqs)
    moreover have "digit_value (CHR ''0'') = 0" by (simp add: digit_value_def isdigit_def)
    moreover have "deref r \<noteq> CHR ''x''" "deref r \<noteq> CHR ''X''" using assms(2) by (auto simp: deref_def)
    ultimately show ?thesis using p h c r [of 8 0] True by (simp add: strtoul_def deref_def)
  next
    case False
    then have "read_digits 10 0 (c # cs @ r) = (n, r)" using read_decimal [of n r] r [of 10 n] c by simp
    then show ?thesis using False p h c assms(1) by (simp add: strtoul_def deref_def)
  qed
qed

text \<open>A step of a path: the key of a field or the index of an element.\<close>

datatype json_step = Key string | Index nat

fun json_find :: "json_step list \<Rightarrow> json_val \<Rightarrow> json_val option" where
  "json_find [] v = Some v"
| "json_find (Key k # ss) (JObject kvs) = Option.bind (map_of kvs k) (json_find ss)"
| "json_find (Index n # ss) (JArray vs) = (if n < length vs then json_find ss (vs ! n) else None)"
| "json_find (_ # _) _ = None"

definition step_text :: "json_step \<Rightarrow> string" where
  "step_text s = (case s of Key k \<Rightarrow> k | Index n \<Rightarrow> nat_decimal n)"

fun path_text :: "json_step list \<Rightarrow> string" where
  "path_text [] = []"
| "path_text (s # ss) = step_text s @ (if ss = [] then [] else CHR ''/'' # path_text ss)"

definition step_ok :: "json_step \<Rightarrow> bool" where
  "step_ok s = (case s of Key k \<Rightarrow> plain_key k | Index n \<Rightarrow> n < 2 ^ 32)"

lemma key_match:
  assumes "plain_key k" "plain_key k'" "take (length k) (k' @ QUOTE # z) = k" "deref (drop (length k) (k' @ QUOTE # z)) = QUOTE"
  shows "k' = k"
proof -
  have q: "QUOTE \<notin> set k" "QUOTE \<notin> set k'" using assms(1,2) by (auto simp: plain_key_def)
  consider "length k < length k'" | "length k' < length k" | "length k = length k'" by linarith
  then show ?thesis
  proof cases
    case 1
    then have "deref (drop (length k) (k' @ QUOTE # z)) = k' ! length k" by (simp add: deref_def Cons_nth_drop_Suc [symmetric])
    then show ?thesis using assms(4) q(2) 1 by (metis nth_mem)
  next
    case 2
    then have "k ! length k' = QUOTE" by (metis assms(3) nth_append_length nth_take)
    then show ?thesis using q(1) 2 by (metis nth_mem)
  qed (use assms(3) in simp)
qed

lemma get_entry_field:
  assumes "map_of kvs k = Some v" "plain_key k" "json_fields_ok kvs" "x \<in> set ''}]''"
    and "ts = map (\<lambda>(k, v). json_key_text (Some k) @ json_text v) kvs"
    and "vsf_json_enumerate_next e = Some (Some (from_entry ts x rest), enum_at (from_entry ts x rest) VSF_JSON_TYPE_OBJECT)"
  shows "\<exists>rest'. json_get_entry (length k) 0 (k @ r) e = Some (Some (Some (json_text v @ rest'), tl r))"
  using assms
proof (induction kvs arbitrary: e ts)
  case (Cons kv kvs)
  obtain k' v' where kv: "kv = (k', v')" by fastforce
  define us where "us = map (\<lambda>(k, v). json_key_text (Some k) @ json_text v) kvs"
  define z where "z = CHR '':'' # json_text v' @ (if us = [] then [] else CHR '','' # join_entries us) @ x # rest"
  have ts: "ts = (json_key_text (Some k') @ json_text v') # us" using Cons.prems(5) by (simp add: kv us_def)
  then have cur: "from_entry ts x rest = QUOTE # k' @ QUOTE # z"
    by (simp add: from_entry_def json_key_text_def z_def)
  have ok: "plain_key k'" "json_ok v'" "json_fields_ok kvs" using Cons.prems(3) by (simp_all add: kv)
  show ?case
  proof (cases "k' = k")
    case True
    have "vsf_json_skip_space z = Some z" by (simp add: z_def skip_space_id isspace_def)
    moreover have "vsf_json_skip_space (tl z) = Some (tl z)"
      using json_text_hd [OF ok(2)] by (intro skip_space_id) (simp_all add: z_def)
    ultimately have "json_get_entry (length k) 0 (k @ r) e = Some (Some (Some (tl z), tl r))"
      using True Cons.prems(6) unfolding cur by (subst json_get_entry.simps) (simp add: deref_def z_def)
    moreover have "v' = v" using True Cons.prems(1) by (simp add: kv)
    ultimately show ?thesis by (simp add: z_def)
  next
    case False
    have "\<not> (take (length k) (k' @ QUOTE # z) = k \<and> deref (drop (length k) (k' @ QUOTE # z)) = QUOTE)"
      using key_match [OF Cons.prems(2) ok(1)] False by blast
    then have step: "json_get_entry (length k) 0 (k @ r) e
        = json_get_entry (length k) 0 (k @ r) (enum_at (from_entry ts x rest) VSF_JSON_TYPE_OBJECT)"
      using Cons.prems(6) unfolding cur by (subst json_get_entry.simps) (auto simp: deref_def)
    have m: "map_of kvs k = Some v" using Cons.prems(1) False by (simp add: kv)
    then have "us \<noteq> []" by (auto simp: us_def)
    moreover have "\<forall>t \<in> set ts. entry_ok t"
      using entries_ok [of "JObject (kv # kvs)"] Cons.prems(3,5) by (simp add: entries_of_def)
    ultimately have "vsf_json_enumerate_next (enum_at (from_entry ts x rest) VSF_JSON_TYPE_OBJECT)
        = Some (Some (from_entry us x rest), enum_at (from_entry us x rest) VSF_JSON_TYPE_OBJECT)"
      using enum_next_at [of "json_key_text (Some k') @ json_text v'" us x rest] Cons.prems(4) ts by simp
    from Cons.IH [OF m Cons.prems(2) ok(3) Cons.prems(4) us_def this] show ?thesis using step by simp
  qed
qed simp

lemma get_entry_elem:
  assumes "n < length vs" "json_elems_ok vs" "x \<in> set ''}]''" "ts = map json_text vs"
    and "vsf_json_enumerate_next e = Some (Some (from_entry ts x rest), enum_at (from_entry ts x rest) VSF_JSON_TYPE_ARRAY)"
  shows "\<exists>rest'. json_get_entry (m + n) m r e = Some (Some (Some (json_text (vs ! n) @ rest'), tl r))"
  using assms
proof (induction vs arbitrary: e ts n m)
  case (Cons v vs)
  define us where "us = map json_text vs"
  have ts: "ts = json_text v # us" using Cons.prems(4) by (simp add: us_def)
  show ?case
  proof (cases n)
    case 0
    then have "json_get_entry (m + n) m r e = Some (Some (Some (from_entry ts x rest), tl r))"
      using Cons.prems(5) by (subst json_get_entry.simps) simp
    then show ?thesis using 0 ts by (auto simp: from_entry_def)
  next
    case (Suc l)
    then have step: "json_get_entry (m + n) m r e = json_get_entry (Suc m + l) (Suc m) r (enum_at (from_entry ts x rest) VSF_JSON_TYPE_ARRAY)"
      using Cons.prems(5) by (subst json_get_entry.simps) simp
    have "\<forall>t \<in> set ts. entry_ok t" using entries_ok [of "JArray (v # vs)"] Cons.prems(2,4) by (simp add: entries_of_def)
    moreover have "us \<noteq> []" using Cons.prems(1) Suc by (auto simp: us_def)
    ultimately have "vsf_json_enumerate_next (enum_at (from_entry ts x rest) VSF_JSON_TYPE_ARRAY)
        = Some (Some (from_entry us x rest), enum_at (from_entry us x rest) VSF_JSON_TYPE_ARRAY)"
      using enum_next_at [of "json_text v" us x rest] Cons.prems(3) ts by simp
    from Cons.IH [OF _ _ Cons.prems(3) us_def this, of l "Suc m"] show ?thesis using step Suc Cons.prems(1,2) by simp
  qed
qed simp

lemma fields_ok_map_of: "json_fields_ok kvs \<Longrightarrow> map_of kvs k = Some v \<Longrightarrow> json_ok v"
  by (induction kvs) (auto split: if_splits)

lemma elems_ok_nth: "json_elems_ok vs \<Longrightarrow> n < length vs \<Longrightarrow> json_ok (vs ! n)"
  by (induction vs arbitrary: n) (auto simp: nth_Cons split: nat.splits)

lemma digit_not_div: "isdigit c \<Longrightarrow> \<not> vsf_json_isdiv c"
  by (auto simp: isdigit_def vsf_json_isdiv_def)

lemma step_text_plain:
  assumes "step_ok s"
  shows "step_text s \<noteq> []" "\<And>c. c \<in> set (step_text s) \<Longrightarrow> \<not> vsf_json_isdiv c"
proof -
  show "step_text s \<noteq> []" using assms nat_decimal_ne by (cases s) (simp_all add: step_ok_def step_text_def plain_key_def)
  show "\<not> vsf_json_isdiv c" if "c \<in> set (step_text s)" for c
  proof (cases s)
    case (Key k)
    then show ?thesis using assms that by (auto simp: step_ok_def step_text_def plain_key_def vsf_json_isdiv_def)
  next
    case (Index n)
    then show ?thesis using that nat_decimal_digits [of n] digit_not_div by (auto simp: step_text_def)
  qed
qed

lemma takeWhile_key:
  assumes "\<And>c. c \<in> set k \<Longrightarrow> \<not> vsf_json_isdiv c" "r = [] \<or> (\<exists>t. r = CHR ''/'' # t)"
  shows "takeWhile (\<lambda>c. \<not> vsf_json_isdiv c) (k @ r) = k"
proof -
  have "takeWhile (\<lambda>c. \<not> vsf_json_isdiv c) (k @ r) = k @ takeWhile (\<lambda>c. \<not> vsf_json_isdiv c) r"
    by (rule takeWhile_append2) (rule assms(1))
  then show ?thesis using assms(2) by (auto simp: vsf_json_isdiv_def)
qed

lemma path_text_hd: "\<forall>p \<in> set path. step_ok p \<Longrightarrow> \<not> vsf_json_isdiv (deref (path_text path))"
proof (cases path)
  case (Cons p ps)
  assume "\<forall>p \<in> set path. step_ok p"
  then have "step_ok p" using Cons by simp
  then obtain c cs where "step_text p = c # cs" "\<not> vsf_json_isdiv c"
    using step_text_plain [of p] by (cases "step_text p") auto
  then show ?thesis using Cons by (simp add: deref_def)
qed (simp add: deref_def vsf_json_isdiv_def)

lemma get_path:
  assumes "json_ok v" "json_find path v = Some w" "\<forall>s \<in> set path. step_ok s"
  shows "\<exists>rest'. json_get_loop (Some (json_text v @ rest)) (path_text path) = Some (Some (json_text w @ rest'))"
  using assms
proof (induction path arbitrary: v rest)
  case Nil
  then show ?case by (subst json_get_loop.simps) auto
next
  case (Cons s ss)
  define r where "r = (if ss = [] then [] else CHR ''/'' # path_text ss)"
  have r: "path_text (s # ss) = step_text s @ r" "tl r = path_text ss" "r = [] \<or> (\<exists>t. r = CHR ''/'' # t)" by (auto simp: r_def)
  have s: "step_ok s" "step_text s \<noteq> []" using Cons.prems(3) step_text_plain by auto
  have ne: "entries_of v \<noteq> []" using Cons.prems(1,2) by (cases v; cases s) (auto simp: entries_of_def)
  obtain x where x: "x \<in> set ''}]''" "\<And>e rest. vsf_json_enumerate_start e (json_text v @ rest) =
    (container_type v, \<lparr>e_ptr = Some (from_entry (entries_of v) x rest), e_type = container_type v, e_first = True\<rparr>)"
    using container_start [OF Cons.prems(1) ne] by blast
  note nf = enum_next_first [OF ne entries_ok [OF Cons.prems(1)], of x rest "container_type v"]
  have "\<exists>u rest'. json_ok u \<and> json_find ss u = Some w
    \<and> json_get_loop (Some (json_text v @ rest)) (path_text (s # ss)) = json_get_loop (Some (json_text u @ rest')) (path_text ss)"
  proof (cases s)
    case (Key k)
    then obtain kvs u where v: "v = JObject kvs" "map_of kvs k = Some u" "json_find ss u = Some w"
      using Cons.prems(2) by (cases v) (auto simp: bind_eq_Some_conv)
    have ct: "container_type v = VSF_JSON_TYPE_OBJECT" by (simp add: v(1) container_type_def)
    have k: "plain_key k" "step_text s = k" "json_fields_ok kvs" using s(1) Key v(1) Cons.prems(1) by (simp_all add: step_ok_def step_text_def)
    have "takeWhile (\<lambda>c. \<not> vsf_json_isdiv c) (k @ r) = k"
      by (rule takeWhile_key [OF _ r(3)]) (use step_text_plain(2) [OF s(1)] k(2) in simp)
    moreover obtain rest' where "json_get_entry (length k) 0 (k @ r)
        \<lparr>e_ptr = Some (from_entry (entries_of v) x rest), e_type = container_type v, e_first = True\<rparr>
        = Some (Some (Some (json_text u @ rest'), tl r))"
      using get_entry_field [OF v(2) k(1,3) x(1) refl, of _ rest r] nf by (auto simp: v(1) entries_of_def container_type_def)
    ultimately have "json_get_loop (Some (json_text v @ rest)) (k @ r) = json_get_loop (Some (json_text u @ rest')) (tl r)"
      using k(2) s(2) by (subst json_get_loop.simps) (simp add: x(2) ct)
    then show ?thesis using fields_ok_map_of [OF k(3) v(2)] v(3) r(1,2) k(2) by metis
  next
    case (Index n)
    then obtain vs where v: "v = JArray vs" "n < length vs" "json_find ss (vs ! n) = Some w"
      using Cons.prems(2) by (cases v) (auto split: if_splits)
    have ct: "container_type v = VSF_JSON_TYPE_ARRAY" by (simp add: v(1) container_type_def)
    have k: "n < 2 ^ 32" "step_text s = nat_decimal n" "json_elems_ok vs"
      using s(1) Index v(1) Cons.prems(1) by (simp_all add: step_ok_def step_text_def)
    obtain rest' where "json_get_entry n 0 r
        \<lparr>e_ptr = Some (from_entry (entries_of v) x rest), e_type = container_type v, e_first = True\<rparr>
        = Some (Some (Some (json_text (vs ! n) @ rest'), tl r))"
      using get_entry_elem [OF v(2) k(3) x(1) refl, of _ rest 0 r] nf by (auto simp: v(1) entries_of_def container_type_def)
    then have "json_get_loop (Some (json_text v @ rest)) (nat_decimal n @ r)
        = json_get_loop (Some (json_text (vs ! n) @ rest')) (tl r)"
      using k(2) s(2) strtoul_decimal [OF k(1) r(3)] by (subst json_get_loop.simps) (simp add: x(2) ct)
    then show ?thesis using elems_ok_nth [OF k(3) v(2)] v(3) r(1,2) k(2) by metis
  qed
  then show ?case using Cons.IH Cons.prems(3) by (metis list.set_intros(2))
qed

section \<open>Properties\<close>

text \<open>The calls that write a document into a buffer of \<open>room\<close> bytes, and those that only count.\<close>

definition json_written :: "json_val \<Rightarrow> int \<Rightarrow> vsf_mem_t vsf_json_constructor_t" where
  "json_written v room =
     json_set None v (vsf_json_constructor_init \<lparr>mem_text = [], mem_size = room\<rparr> (Some vsf_json_constructor_buffer_write_str))"

definition json_counted :: "json_val \<Rightarrow> vsf_mem_t vsf_json_constructor_t" where
  "json_counted v = json_set None v (vsf_json_constructor_init \<lparr>mem_text = [], mem_size = 0\<rparr> None)"

lemma json_written_text:
  assumes "json_ok v" "int (length (json_text v)) < room"
  shows "c_result (json_written v room)" "mem_text (c_param (json_written v room)) = json_text v"
proof -
  have c: "json_written v room = json_wrote None (json_text v)
      (vsf_json_constructor_init \<lparr>mem_text = [], mem_size = room\<rparr> (Some vsf_json_constructor_buffer_write_str))"
    unfolding json_written_def by (rule json_set_emit(1) [OF assms(1)])
      (use assms(2) in \<open>simp add: json_room_def vsf_json_constructor_init_def json_pre_def json_key_text_def\<close>)
  show "c_result (json_written v room)" "mem_text (c_param (json_written v room)) = json_text v"
    by (simp_all add: c json_wrote_def json_emit_def vsf_json_constructor_init_def json_pre_def json_key_text_def)
qed

lemma json_counted_len:
  assumes "json_ok v" "length (json_text v) < 2 ^ 32"
  shows "c_len (json_counted v) = length (json_text v)"
proof -
  have "json_counted v = json_wrote None (json_text v) (vsf_json_constructor_init \<lparr>mem_text = [], mem_size = 0\<rparr> None)"
    unfolding json_counted_def by (rule json_set_emit(1) [OF assms(1)]) (simp add: json_room_def vsf_json_constructor_init_def)
  then show ?thesis
    using assms(2) by (simp add: json_wrote_def json_emit_def vsf_json_constructor_init_def json_pre_def json_key_text_def)
qed

lemma get_string_path:
  assumes "json_ok v" "json_find path v = Some (JString s)" "\<forall>p \<in> set path. step_ok p"
    and "\<forall>c \<in> set s. clean_char c" "int (length s) < cap"
  shows "\<exists>p. vsf_json_get (json_text v) (path_text path) = Some (Some p)
    \<and> vsf_json_get_string p (Some cap) = Some (int (length s) + 1, s)"
proof -
  obtain rest where "json_get_loop (Some (json_text v)) (path_text path) = Some (Some (json_string_text s @ rest))"
    using get_path [OF assms(1-3), of "[]"] by auto
  then have "vsf_json_get (json_text v) (path_text path) = Some (Some (json_string_text s @ rest))"
    using path_text_hd [OF assms(3)] by (simp add: vsf_json_get_def)
  moreover have "vsf_json_get_string (json_string_text s @ rest) (Some cap) = Some (int (length s) + 1, s)"
    by (rule get_string_clean [OF assms(4)]) (use assms(5) in \<open>simp add: json_full_def\<close>)
  ultimately show ?thesis by blast
qed


definition json_example :: json_val where
  "json_example = JObject [(''id'', JInteger 7), (''list'', JArray [JNull, JObject [(''name'', JString ''a/b'')]])]"


text \<open>
  An escaped quote ends the reading of a string: of a string with a quote, written by \<open>vsf_json_set_string\<close>,
  \<open>vsf_json_get_string\<close> returns the part up to and including the first quote, and no error.
\<close>

theorem json_string_quote_truncated:
  assumes "\<forall>c \<in> set a. clean_char c" "int (length a) + 1 < cap"
  shows "vsf_json_get_string (json_string_text (a @ QUOTE # b) @ rest) (Some cap) = Some (int (length a) + 2, a @ [QUOTE])"
proof -
  have "json_escape QUOTE = [BSLASH, QUOTE]" "\<not> json_full (Some cap) a" "\<not> json_full (Some cap) (a @ [QUOTE])"
    using assms(2) by (simp_all add: json_escape_def json_full_def)
  then show ?thesis using string_loop_clean [of a "Some cap" "[]"] assms(1)
    by (simp add: vsf_json_get_string_def json_string_text_def deref_def json_unescape_def json_string_end_def)
qed

theorem json_string_quote_truncated_witness:
  "vsf_json_get_string (json_string_text [CHR ''a'', QUOTE, CHR ''b'']) (Some 9) = Some (3, [CHR ''a'', QUOTE])"
  using json_string_quote_truncated [of "''a''" 9 "''b''" "[]"] by (simp add: clean_char_def)

text \<open>A form feed is written with the escape of a backspace and read back as one.\<close>

theorem json_form_feed: "vsf_json_get_string (json_string_text [CHR 0x0C]) None = Some (2, [CHR 0x08])"
  by (simp add: vsf_json_get_string_def json_string_text_def json_escape_def deref_def json_unescape_def json_string_end_def
      json_full_def)

text \<open>
  After an empty object the next field is written without a comma, because the macro leaves the flag
  for the first entry set.
\<close>

theorem json_empty_object_no_comma:
  "mem_text (c_param (json_written (JObject [(''a'', JObject []), (''b'', JNull)]) 64))
     = ''{'' @ json_key_text (Some ''a'') @ ''{}'' @ json_key_text (Some ''b'') @ ''null}''"
  by (simp add: json_written_def vsf_json_set_object_def json_set_container_def vsf_json_set_key_def json_then_def
      vsf_json_write_str_def vsf_json_constructor_init_def vsf_json_constructor_buffer_write_str_def vsf_json_set_token_def
      vsf_json_set_null_def json_key_text_def)

text \<open>
  On a text that ends inside of an array the enumerator stays at the end of the text and answers with it
  again and again: \<open>vsf_json_num_of_entry\<close> does not return.
\<close>

theorem json_truncated_no_progress:
  "vsf_json_enumerate_next (enum_at [] ty) = Some (Some [], enum_at [] ty)"
  by (simp add: vsf_json_enumerate_next_def Let_def deref_def)

end
