(* ===== verification/VSF_Stream.thy ===== *)
theory VSF_Stream
  imports VSF_Ring "HOL-Library.Monad_Syntax"
begin

text \<open>
  The streams of \<open>src/source/service/simple_stream/vsf_simple_stream.c\<close>: a buffer of bytes with a terminal for the
  writer and one for the reader, which are told about connections, data and room. The buffer is
  behind an interface, \<open>vsf_stream_op_t\<close>; its contract is the locale \<open>stream_backend\<close>, and what holds of every
  stream is shown there. The calls of the event handlers of the terminals are left to the function \<open>run\<close>.
\<close>

section \<open>Data\<close>

text \<open>
  A write gets the bytes, or \<open>None\<close> when they are in the buffer already, and their number; a read gives
  the bytes. \<open>get_rbuf\<close> gives the bytes from the returned pointer on, \<open>get_wbuf\<close> the offset of its pointer.
\<close>

record 's vsf_stream_op_t =
  op_init :: "'s \<Rightarrow> 's option"
  op_fini :: "'s \<Rightarrow> 's option"
  op_write :: "u8 list option \<Rightarrow> nat \<Rightarrow> 's \<Rightarrow> (nat \<times> 's) option"
  op_read :: "nat \<Rightarrow> 's \<Rightarrow> (u8 list \<times> 's) option"
  get_buff_length :: "'s \<Rightarrow> nat"
  get_data_length :: "'s \<Rightarrow> nat"
  get_avail_length :: "'s \<Rightarrow> nat"
  get_wbuf :: "'s \<Rightarrow> (nat option \<times> nat) \<times> 's"
  get_rbuf :: "'s \<Rightarrow> u8 list"

datatype vsf_stream_evt_t = VSF_STREAM_ON_CONNECT | VSF_STREAM_ON_DISCONNECT | VSF_STREAM_ON_IN | VSF_STREAM_ON_OUT

datatype stream_term = VSF_STREAM_TERM_TX | VSF_STREAM_TERM_RX

record vsf_stream_terminal_t =
  has_evthandler :: bool
  threshold :: nat
  ready :: bool
  data_notified :: bool

record 's vsf_stream_t =
  s_buf :: 's
  is_ticktock_read :: bool
  is_ticktock_write :: bool
  tx :: vsf_stream_terminal_t
  rx :: vsf_stream_terminal_t

type_synonym ('s, 'a) stream_handler =
  "stream_term \<Rightarrow> vsf_stream_evt_t \<Rightarrow> ('s, 'a) vsf_stream_t_scheme \<Rightarrow> ('s, 'a) vsf_stream_t_scheme option"

definition term_of :: "stream_term \<Rightarrow> ('s, 'a) vsf_stream_t_scheme \<Rightarrow> vsf_stream_terminal_t" where
  "term_of t s = (case t of VSF_STREAM_TERM_TX \<Rightarrow> tx s | VSF_STREAM_TERM_RX \<Rightarrow> rx s)"

definition upd_term ::
  "stream_term \<Rightarrow> (vsf_stream_terminal_t \<Rightarrow> vsf_stream_terminal_t) \<Rightarrow> ('s, 'a) vsf_stream_t_scheme \<Rightarrow> ('s, 'a) vsf_stream_t_scheme" where
  "upd_term t f s = (case t of VSF_STREAM_TERM_TX \<Rightarrow> s\<lparr>tx := f (tx s)\<rparr> | VSF_STREAM_TERM_RX \<Rightarrow> s\<lparr>rx := f (rx s)\<rparr>)"

definition other_term :: "stream_term \<Rightarrow> stream_term" where
  "other_term t = (case t of VSF_STREAM_TERM_TX \<Rightarrow> VSF_STREAM_TERM_RX | VSF_STREAM_TERM_RX \<Rightarrow> VSF_STREAM_TERM_TX)"

section \<open>Operations\<close>

definition p_vsf_stream_on_write ::
  "'s vsf_stream_op_t \<Rightarrow> ('s, 'a) stream_handler \<Rightarrow> ('s, 'a) vsf_stream_t_scheme \<Rightarrow> ('s, 'a) vsf_stream_t_scheme option" where
  "p_vsf_stream_on_write op run s =
     (let data_len = get_data_length op (s_buf s);
          s = s\<lparr>tx := (tx s)\<lparr>data_notified := False\<rparr>\<rparr>
      in if ready (rx s) \<and> threshold (rx s) \<le> data_len \<and> \<not> data_notified (rx s) \<and> has_evthandler (rx s)
         then run VSF_STREAM_TERM_RX VSF_STREAM_ON_IN (s\<lparr>rx := (rx s)\<lparr>data_notified := True\<rparr>\<rparr>)
         else Some s)"

definition p_vsf_stream_on_read ::
  "'s vsf_stream_op_t \<Rightarrow> ('s, 'a) stream_handler \<Rightarrow> ('s, 'a) vsf_stream_t_scheme \<Rightarrow> ('s, 'a) vsf_stream_t_scheme option" where
  "p_vsf_stream_on_read op run s =
     (let avail_len = get_avail_length op (s_buf s);
          s = s\<lparr>rx := (rx s)\<lparr>data_notified := False\<rparr>\<rparr>
      in if ready (tx s) \<and> threshold (tx s) \<le> avail_len \<and> \<not> data_notified (tx s) \<and> has_evthandler (tx s)
         then run VSF_STREAM_TERM_TX VSF_STREAM_ON_OUT (s\<lparr>tx := (tx s)\<lparr>data_notified := True\<rparr>\<rparr>)
         else Some s)"

definition vsf_stream_read ::
  "'s vsf_stream_op_t \<Rightarrow> ('s, 'a) stream_handler \<Rightarrow> nat \<Rightarrow> ('s, 'a) vsf_stream_t_scheme \<Rightarrow>
   (u8 list \<times> ('s, 'a) vsf_stream_t_scheme) option" where
  "vsf_stream_read op run n s = do {
     (bs, b) \<leftarrow> op_read op n (s_buf s);
     s \<leftarrow> p_vsf_stream_on_read op run (s\<lparr>s_buf := b\<rparr>);
     Some (bs, s)}"

definition vsf_stream_write ::
  "'s vsf_stream_op_t \<Rightarrow> ('s, 'a) stream_handler \<Rightarrow> u8 list option \<Rightarrow> nat \<Rightarrow> ('s, 'a) vsf_stream_t_scheme \<Rightarrow>
   (nat \<times> ('s, 'a) vsf_stream_t_scheme) option" where
  "vsf_stream_write op run buf n s = do {
     (count, b) \<leftarrow> op_write op buf n (s_buf s);
     s \<leftarrow> p_vsf_stream_on_write op run (s\<lparr>s_buf := b\<rparr>);
     Some (count, s)}"

definition vsf_stream_set_tx_threshold ::
  "'s vsf_stream_op_t \<Rightarrow> ('s, 'a) stream_handler \<Rightarrow> nat \<Rightarrow> ('s, 'a) vsf_stream_t_scheme \<Rightarrow> ('s, 'a) vsf_stream_t_scheme option" where
  "vsf_stream_set_tx_threshold op run n s = p_vsf_stream_on_read op run (s\<lparr>tx := (tx s)\<lparr>threshold := n\<rparr>\<rparr>)"

definition vsf_stream_set_rx_threshold ::
  "'s vsf_stream_op_t \<Rightarrow> ('s, 'a) stream_handler \<Rightarrow> nat \<Rightarrow> ('s, 'a) vsf_stream_t_scheme \<Rightarrow> ('s, 'a) vsf_stream_t_scheme option" where
  "vsf_stream_set_rx_threshold op run n s = p_vsf_stream_on_write op run (s\<lparr>rx := (rx s)\<lparr>threshold := n\<rparr>\<rparr>)"

definition vsf_stream_get_buff_size :: "'s vsf_stream_op_t \<Rightarrow> ('s, 'a) vsf_stream_t_scheme \<Rightarrow> nat" where
  "vsf_stream_get_buff_size op s = get_buff_length op (s_buf s)"

definition vsf_stream_get_data_size :: "'s vsf_stream_op_t \<Rightarrow> ('s, 'a) vsf_stream_t_scheme \<Rightarrow> nat" where
  "vsf_stream_get_data_size op s = get_data_length op (s_buf s)"

definition vsf_stream_get_free_size :: "'s vsf_stream_op_t \<Rightarrow> ('s, 'a) vsf_stream_t_scheme \<Rightarrow> nat" where
  "vsf_stream_get_free_size op s = get_avail_length op (s_buf s)"

definition vsf_stream_get_wbuf ::
  "'s vsf_stream_op_t \<Rightarrow> ('s, 'a) vsf_stream_t_scheme \<Rightarrow> (nat option \<times> nat) \<times> ('s, 'a) vsf_stream_t_scheme" where
  "vsf_stream_get_wbuf op s =
     (let ((p, n), b) = get_wbuf op (s_buf s);
          s = s\<lparr>s_buf := b\<rparr>;
          half = vsf_stream_get_buff_size op s div 2
      in ((p, if is_ticktock_write s \<and> half < n then half else n), s))"

definition vsf_stream_get_rbuf :: "'s vsf_stream_op_t \<Rightarrow> ('s, 'a) vsf_stream_t_scheme \<Rightarrow> u8 list" where
  "vsf_stream_get_rbuf op s =
     (let bs = get_rbuf op (s_buf s);
          half = vsf_stream_get_buff_size op s div 2
      in if is_ticktock_read s \<and> half < length bs then take half bs else bs)"

definition p_vsf_stream_connect_terminal ::
  "('s, 'a) stream_handler \<Rightarrow> stream_term \<Rightarrow> ('s, 'a) vsf_stream_t_scheme \<Rightarrow> ('s, 'a) vsf_stream_t_scheme option" where
  "p_vsf_stream_connect_terminal run t s =
     (if \<not> ready (term_of t s)
      then do {
        s \<leftarrow> (if ready (term_of (other_term t) s)
             then do {
               s \<leftarrow> (if has_evthandler (term_of (other_term t) s) then run (other_term t) VSF_STREAM_ON_CONNECT s else Some s);
               (if has_evthandler (term_of t s) then run t VSF_STREAM_ON_CONNECT s else Some s)}
             else Some s);
        Some (upd_term t (\<lambda>x. x\<lparr>ready := True\<rparr>) s)}
      else Some s)"

definition vsf_stream_connect_rx ::
  "('s, 'a) stream_handler \<Rightarrow> ('s, 'a) vsf_stream_t_scheme \<Rightarrow> ('s, 'a) vsf_stream_t_scheme option" where
  "vsf_stream_connect_rx run s = p_vsf_stream_connect_terminal run VSF_STREAM_TERM_RX s"

definition vsf_stream_connect_tx ::
  "('s, 'a) stream_handler \<Rightarrow> ('s, 'a) vsf_stream_t_scheme \<Rightarrow> ('s, 'a) vsf_stream_t_scheme option" where
  "vsf_stream_connect_tx run s = p_vsf_stream_connect_terminal run VSF_STREAM_TERM_TX s"

definition vsf_stream_is_rx_connected :: "('s, 'a) vsf_stream_t_scheme \<Rightarrow> bool" where
  "vsf_stream_is_rx_connected s = ready (rx s)"

definition vsf_stream_is_tx_connected :: "('s, 'a) vsf_stream_t_scheme \<Rightarrow> bool" where
  "vsf_stream_is_tx_connected s = ready (tx s)"

definition p_vsf_stream_disconnect_terminal ::
  "('s, 'a) stream_handler \<Rightarrow> stream_term \<Rightarrow> ('s, 'a) vsf_stream_t_scheme \<Rightarrow> ('s, 'a) vsf_stream_t_scheme option" where
  "p_vsf_stream_disconnect_terminal run t s = do {
     s \<leftarrow> (if ready (term_of t s) \<and> ready (term_of (other_term t) s) \<and> has_evthandler (term_of (other_term t) s)
          then run (other_term t) VSF_STREAM_ON_DISCONNECT s else Some s);
     Some (upd_term t (\<lambda>x. x\<lparr>ready := False\<rparr>) s)}"

definition vsf_stream_disconnect_rx ::
  "('s, 'a) stream_handler \<Rightarrow> ('s, 'a) vsf_stream_t_scheme \<Rightarrow> ('s, 'a) vsf_stream_t_scheme option" where
  "vsf_stream_disconnect_rx run s = p_vsf_stream_disconnect_terminal run VSF_STREAM_TERM_RX s"

definition vsf_stream_disconnect_tx ::
  "('s, 'a) stream_handler \<Rightarrow> ('s, 'a) vsf_stream_t_scheme \<Rightarrow> ('s, 'a) vsf_stream_t_scheme option" where
  "vsf_stream_disconnect_tx run s = p_vsf_stream_disconnect_terminal run VSF_STREAM_TERM_TX s"

definition vsf_stream_init ::
  "'s vsf_stream_op_t \<Rightarrow> ('s, 'a) vsf_stream_t_scheme \<Rightarrow> ('s, 'a) vsf_stream_t_scheme option" where
  "vsf_stream_init op s = do {
     let s = s\<lparr>tx := (tx s)\<lparr>ready := False, data_notified := False\<rparr>, rx := (rx s)\<lparr>ready := False, data_notified := False\<rparr>\<rparr>;
     b \<leftarrow> op_init op (s_buf s);
     Some (s\<lparr>s_buf := b\<rparr>)}"

definition vsf_stream_fini ::
  "'s vsf_stream_op_t \<Rightarrow> ('s, 'a) stream_handler \<Rightarrow> ('s, 'a) vsf_stream_t_scheme \<Rightarrow> ('s, 'a) vsf_stream_t_scheme option" where
  "vsf_stream_fini op run s = do {
     s \<leftarrow> (if ready (tx s) then vsf_stream_disconnect_tx run s else Some s);
     s \<leftarrow> (if ready (rx s) then vsf_stream_disconnect_rx run s else Some s);
     b \<leftarrow> op_fini op (s_buf s);
     Some (s\<lparr>s_buf := b\<rparr>)}"

section \<open>Adapter\<close>

text \<open>
  An adapter moves what is written to its stream \<open>stream_tx\<close> into \<open>stream_rx\<close>; it is the reader of the first and the
  writer of the second. Its loop without a callback of the user, on the pair of the streams:
\<close>

partial_function (option) adapter_loop ::
  "'s vsf_stream_op_t \<Rightarrow> 't vsf_stream_op_t \<Rightarrow> ('s, 'a) stream_handler \<Rightarrow> ('t, 'b) stream_handler \<Rightarrow> nat \<Rightarrow> nat \<Rightarrow> nat \<Rightarrow>
   ('s, 'a) vsf_stream_t_scheme \<Rightarrow> ('t, 'b) vsf_stream_t_scheme \<Rightarrow>
   (nat \<times> ('s, 'a) vsf_stream_t_scheme \<times> ('t, 'b) vsf_stream_t_scheme) option" where
  "adapter_loop opt opr runt runr threshold_tx threshold_rx all_size st sr =
     (if threshold_tx < vsf_stream_get_data_size opt st \<and> threshold_rx < vsf_stream_get_free_size opr sr
      then do {
        let bs = vsf_stream_get_rbuf opt st;
        (rx_size, sr) \<leftarrow> vsf_stream_write opr runr (Some bs) (length bs) sr;
        (_, st) \<leftarrow> vsf_stream_read opt runt rx_size st;
        (if rx_size < length bs then Some (all_size + rx_size, st, sr)
         else adapter_loop opt opr runt runr threshold_tx threshold_rx (all_size + rx_size) st sr)}
      else Some (all_size, st, sr))"

record vsf_stream_adapter_t =
  threshold_tx :: nat
  threshold_rx :: nat

text \<open>\<open>from_tx\<close> tells that the event comes from the stream \<open>stream_tx\<close>.\<close>

definition vsf_stream_adapter_evthandler ::
  "'s vsf_stream_op_t \<Rightarrow> 't vsf_stream_op_t \<Rightarrow> ('s, 'a) stream_handler \<Rightarrow> ('t, 'b) stream_handler \<Rightarrow> vsf_stream_adapter_t \<Rightarrow>
   bool \<Rightarrow> vsf_stream_evt_t \<Rightarrow> ('s, 'a) vsf_stream_t_scheme \<Rightarrow> ('t, 'b) vsf_stream_t_scheme \<Rightarrow>
   (nat \<times> ('s, 'a) vsf_stream_t_scheme \<times> ('t, 'b) vsf_stream_t_scheme) option" where
  "vsf_stream_adapter_evthandler opt opr runt runr a from_tx evt st sr =
     (if evt = VSF_STREAM_ON_DISCONNECT \<or> \<not> from_tx \<and> evt = VSF_STREAM_ON_CONNECT then Some (0, st, sr)
      else do {
        (all_size, st, sr) \<leftarrow> adapter_loop opt opr runt runr (threshold_tx a - 1) (threshold_rx a - 1) 0 st sr;
        Some (all_size, if from_tx \<and> data_notified (rx st) then st\<lparr>rx := (rx st)\<lparr>data_notified := False\<rparr>\<rparr> else st, sr)})"

section \<open>The contract of a buffer\<close>

text \<open>Handlers that leave the buffer of the stream alone.\<close>

definition quiet :: "('s, 'a) stream_handler \<Rightarrow> bool" where
  "quiet run \<longleftrightarrow> (\<forall>t e s. \<exists>s'. run t e s = Some s' \<and> s_buf s' = s_buf s)"

text \<open>What a client of a stream does, and the bytes that were accepted and taken out.\<close>

datatype stream_cmd = Put "u8 list" | Get nat

fun stream_run ::
  "'s vsf_stream_op_t \<Rightarrow> ('s, 'a) stream_handler \<Rightarrow> stream_cmd list \<Rightarrow> ('s, 'a) vsf_stream_t_scheme \<Rightarrow>
   (u8 list \<times> u8 list \<times> ('s, 'a) vsf_stream_t_scheme) option" where
  "stream_run op run [] s = Some ([], [], s)"
| "stream_run op run (Put bs # cs) s = do {
     (n, s) \<leftarrow> vsf_stream_write op run (Some bs) (length bs) s;
     (ins, outs, s) \<leftarrow> stream_run op run cs s;
     Some (take n bs @ ins, outs, s)}"
| "stream_run op run (Get n # cs) s = do {
     (bs, s) \<leftarrow> vsf_stream_read op run n s;
     (ins, outs, s) \<leftarrow> stream_run op run cs s;
     Some (ins, bs @ outs, s)}"

lemma on_write_quiet:
  assumes "quiet run"
  shows "\<exists>s'. p_vsf_stream_on_write op run s = Some s' \<and> s_buf s' = s_buf s"
  using assms [unfolded quiet_def, rule_format, of VSF_STREAM_TERM_RX VSF_STREAM_ON_IN]
  by (fastforce simp: p_vsf_stream_on_write_def Let_def)

lemma on_read_quiet:
  assumes "quiet run"
  shows "\<exists>s'. p_vsf_stream_on_read op run s = Some s' \<and> s_buf s' = s_buf s"
  using assms [unfolded quiet_def, rule_format, of VSF_STREAM_TERM_TX VSF_STREAM_ON_OUT]
  by (fastforce simp: p_vsf_stream_on_read_def Let_def)

locale stream_backend =
  fixes op :: "'s vsf_stream_op_t" and inv :: "'s \<Rightarrow> bool" and contents :: "'s \<Rightarrow> u8 list" and cap :: "'s \<Rightarrow> nat"
  assumes write_law: "inv b \<Longrightarrow> \<exists>b'. op_write op (Some bs) (length bs) b = Some (min (length bs) (cap b - length (contents b)), b')
      \<and> inv b' \<and> cap b' = cap b \<and> contents b' = contents b @ take (cap b - length (contents b)) bs"
    and read_law: "inv b \<Longrightarrow> \<exists>b'. op_read op n b = Some (take n (contents b), b') \<and> inv b' \<and> cap b' = cap b
      \<and> contents b' = drop n (contents b)"
    and data_law: "inv b \<Longrightarrow> get_data_length op b = length (contents b)"
    and avail_law: "inv b \<Longrightarrow> get_avail_length op b = cap b - length (contents b)"
    and rbuf_law: "inv b \<Longrightarrow> \<exists>n. get_rbuf op b = take n (contents b) \<and> 0 < n"
    and size_law: "inv b \<Longrightarrow> length (contents b) \<le> cap b \<and> 2 \<le> get_buff_length op b"
begin

lemma stream_write_ok:
  assumes "inv (s_buf s)" "quiet run"
  shows "\<exists>s'. vsf_stream_write op run (Some bs) (length bs) s = Some (min (length bs) (cap (s_buf s) - length (contents (s_buf s))), s')
    \<and> inv (s_buf s') \<and> cap (s_buf s') = cap (s_buf s)
    \<and> contents (s_buf s') = contents (s_buf s) @ take (cap (s_buf s) - length (contents (s_buf s))) bs"
proof -
  obtain b where b: "op_write op (Some bs) (length bs) (s_buf s) = Some (min (length bs) (cap (s_buf s) - length (contents (s_buf s))), b)"
    "inv b" "cap b = cap (s_buf s)" "contents b = contents (s_buf s) @ take (cap (s_buf s) - length (contents (s_buf s))) bs"
    using write_law [OF assms(1), of bs] by (elim exE conjE) (rule that; assumption)
  obtain s' where "p_vsf_stream_on_write op run (s\<lparr>s_buf := b\<rparr>) = Some s'" "s_buf s' = b"
    using on_write_quiet [OF assms(2), of op "s\<lparr>s_buf := b\<rparr>"] by auto
  then show ?thesis using b by (simp add: vsf_stream_write_def)
qed

lemma stream_read_ok:
  assumes "inv (s_buf s)" "quiet run"
  shows "\<exists>s'. vsf_stream_read op run n s = Some (take n (contents (s_buf s)), s') \<and> inv (s_buf s') \<and> cap (s_buf s') = cap (s_buf s)
    \<and> contents (s_buf s') = drop n (contents (s_buf s))"
proof -
  obtain b where b: "op_read op n (s_buf s) = Some (take n (contents (s_buf s)), b)" "inv b" "cap b = cap (s_buf s)"
    "contents b = drop n (contents (s_buf s))"
    using read_law [OF assms(1), of n] by (elim exE conjE) (rule that; assumption)
  obtain s' where "p_vsf_stream_on_read op run (s\<lparr>s_buf := b\<rparr>) = Some s'" "s_buf s' = b"
    using on_read_quiet [OF assms(2), of op "s\<lparr>s_buf := b\<rparr>"] by auto
  then show ?thesis using b by (simp add: vsf_stream_read_def)
qed

lemma stream_run_ok:
  assumes "inv (s_buf s)" "quiet run"
  shows "\<exists>ins outs s'. stream_run op run cs s = Some (ins, outs, s') \<and> inv (s_buf s')
    \<and> contents (s_buf s) @ ins = outs @ contents (s_buf s')"
  using assms(1)
proof (induction cs arbitrary: s)
  case (Cons c cs)
  show ?case
  proof (cases c)
    case (Put bs)
    let ?n = "cap (s_buf s) - length (contents (s_buf s))"
    obtain s1 where s1: "vsf_stream_write op run (Some bs) (length bs) s = Some (min (length bs) ?n, s1)" "inv (s_buf s1)"
      "contents (s_buf s1) = contents (s_buf s) @ take ?n bs"
      using stream_write_ok [OF Cons.prems assms(2), of bs] by (elim exE conjE) (rule that; assumption)
    obtain ins outs s' where "stream_run op run cs s1 = Some (ins, outs, s')" "inv (s_buf s')"
      "contents (s_buf s1) @ ins = outs @ contents (s_buf s')" using Cons.IH [OF s1(2)] by blast
    moreover have "take (min (length bs) ?n) bs = take ?n bs" by (simp add: min_def)
    ultimately show ?thesis using s1 Put by auto
  next
    case (Get n)
    obtain s1 where s1: "vsf_stream_read op run n s = Some (take n (contents (s_buf s)), s1)" "inv (s_buf s1)"
      "contents (s_buf s1) = drop n (contents (s_buf s))"
      using stream_read_ok [OF Cons.prems assms(2), of n] by (elim exE conjE) (rule that; assumption)
    obtain ins outs s' where r: "stream_run op run cs s1 = Some (ins, outs, s')" "inv (s_buf s')"
      "contents (s_buf s1) @ ins = outs @ contents (s_buf s')" using Cons.IH [OF s1(2)] by blast
    have "contents (s_buf s) @ ins = (take n (contents (s_buf s)) @ outs) @ contents (s_buf s')"
      using r(3) s1(3) by (metis append_assoc append_take_drop_id)
    then show ?thesis using s1 r Get by auto
  qed
qed simp

lemma stream_rbuf_ok:
  assumes "inv (s_buf s)" "contents (s_buf s) \<noteq> []"
  shows "\<exists>n. vsf_stream_get_rbuf op s = take n (contents (s_buf s)) \<and> 0 < n \<and> n \<le> length (contents (s_buf s))"
proof -
  obtain n where n: "get_rbuf op (s_buf s) = take n (contents (s_buf s))" "0 < n" using rbuf_law [OF assms(1)] by blast
  let ?h = "vsf_stream_get_buff_size op s div 2" and ?c = "contents (s_buf s)"
  have h: "0 < ?h" using size_law [OF assms(1)] by (simp add: vsf_stream_get_buff_size_def)
  define m where "m = (if is_ticktock_read s \<and> ?h < min n (length ?c) then ?h else min n (length ?c))"
  have "vsf_stream_get_rbuf op s = take m ?c" by (auto simp: vsf_stream_get_rbuf_def n(1) Let_def min_def m_def)
  moreover have "0 < m \<and> m \<le> length ?c" using h n(2) assms(2) by (auto simp: m_def)
  ultimately show ?thesis by blast
qed

end

text \<open>An adapter between two streams.\<close>

locale stream_pair = src: stream_backend opt invt ct capt + dst: stream_backend opr invr cr capr
  for opt :: "'s vsf_stream_op_t" and invt ct capt and opr :: "'t vsf_stream_op_t" and invr cr capr
begin

lemma adapter_loop_ok:
  assumes "invt (s_buf st)" "invr (s_buf sr)" "quiet runt" "quiet runr"
  shows "\<exists>k st' sr'. adapter_loop opt opr runt runr ht hr all_size st sr = Some (all_size + k, st', sr') \<and> invt (s_buf st') \<and> invr (s_buf sr')
    \<and> ct (s_buf st) = take k (ct (s_buf st)) @ ct (s_buf st') \<and> cr (s_buf sr') = cr (s_buf sr) @ take k (ct (s_buf st))
    \<and> k \<le> length (ct (s_buf st)) \<and> (length (ct (s_buf st')) \<le> ht \<or> capr (s_buf sr') - length (cr (s_buf sr')) \<le> hr)"
  using assms(1,2)
proof (induction "length (ct (s_buf st))" arbitrary: st sr all_size rule: less_induct)
  case less
  let ?t = "ct (s_buf st)" and ?r = "cr (s_buf sr)"
  define room where "room = capr (s_buf sr) - length ?r"
  have sizes: "vsf_stream_get_data_size opt st = length ?t" "vsf_stream_get_free_size opr sr = room"
    using src.data_law [OF less.prems(1)] dst.avail_law [OF less.prems(2)]
    by (simp_all add: vsf_stream_get_data_size_def vsf_stream_get_free_size_def room_def)
  show ?case
  proof (cases "ht < length ?t \<and> hr < room")
    case False
    then have "adapter_loop opt opr runt runr ht hr all_size st sr = Some (all_size, st, sr)"
      by (subst adapter_loop.simps) (auto simp: sizes)
    then show ?thesis using False less.prems by (intro exI [of _ 0] exI [of _ st] exI [of _ sr]) (auto simp: room_def)
  next
    case True
    then have "?t \<noteq> []" by auto
    then obtain m where m: "vsf_stream_get_rbuf opt st = take m ?t" "0 < m" "m \<le> length ?t"
      using src.stream_rbuf_ok [OF less.prems(1)] by blast
    define n where "n = min m room"
    have n: "0 < n" "n \<le> length ?t" "min (length (take m ?t)) room = n" "take room (take m ?t) = take n ?t"
      using m(2,3) True by (simp_all add: n_def min_def)
    obtain sr1 where sr1: "vsf_stream_write opr runr (Some (take m ?t)) (length (take m ?t)) sr = Some (n, sr1)" "invr (s_buf sr1)"
      "capr (s_buf sr1) = capr (s_buf sr)" "cr (s_buf sr1) = ?r @ take n ?t"
      using dst.stream_write_ok [OF less.prems(2) assms(4), of "take m ?t", folded room_def, unfolded n] by (elim exE conjE) (rule that; assumption)
    obtain st1 where st1: "vsf_stream_read opt runt n st = Some (take n ?t, st1)" "invt (s_buf st1)" "ct (s_buf st1) = drop n ?t"
      using src.stream_read_ok [OF less.prems(1) assms(3), of n] by (elim exE conjE) (rule that; assumption)
    have loop: "adapter_loop opt opr runt runr ht hr all_size st sr =
        (if n < m then Some (all_size + n, st1, sr1) else adapter_loop opt opr runt runr ht hr (all_size + n) st1 sr1)"
      using True sr1(1) st1(1) m(1,3) by (subst adapter_loop.simps) (simp add: sizes min_def)
    show ?thesis
    proof (cases "n < m")
      case True
      then have "capr (s_buf sr1) - length (cr (s_buf sr1)) = 0" using sr1(3,4) n(2) by (simp add: n_def room_def)
      then show ?thesis using True loop sr1 st1 n(2) by (intro exI [of _ n] exI [of _ st1] exI [of _ sr1]) simp
    next
      case False
      have "length (ct (s_buf st1)) < length ?t" using st1(3) n(1,2) by simp
      from less.hyps [OF this st1(2) sr1(2), of "all_size + n"] obtain k st' sr' where
        r: "adapter_loop opt opr runt runr ht hr (all_size + n) st1 sr1 = Some (all_size + n + k, st', sr')" "invt (s_buf st')" "invr (s_buf sr')"
        "ct (s_buf st1) = take k (ct (s_buf st1)) @ ct (s_buf st')" "cr (s_buf sr') = cr (s_buf sr1) @ take k (ct (s_buf st1))"
        "k \<le> length (ct (s_buf st1))" "length (ct (s_buf st')) \<le> ht \<or> capr (s_buf sr') - length (cr (s_buf sr')) \<le> hr"
        by (elim exE conjE) (rule that; assumption)
      have k: "take (n + k) ?t = take n ?t @ take k (ct (s_buf st1))" by (simp add: st1(3) take_add)
      moreover have "?t = take n ?t @ ct (s_buf st1)" by (simp add: st1(3))
      ultimately have "?t = take (n + k) ?t @ ct (s_buf st')" using r(4) by (metis append_assoc)
      moreover have "cr (s_buf sr') = ?r @ take (n + k) ?t" using r(5) sr1(4) k by simp
      moreover have "n + k \<le> length ?t" using r(6) st1(3) n(2) by simp
      ultimately show ?thesis using loop False r(1-3,7)
        by (intro exI [of _ "n + k"] exI [of _ st'] exI [of _ sr']) (simp add: add.assoc)
    qed
  qed
qed

end

end
