(* ===== verification/VSF_Byte_Stream.thy ===== *)
theory VSF_Byte_Stream
  imports VSF_Stream
begin

unbundle bit_operations_syntax

text \<open>
  Two buffers for streams: the byte fifo of \<open>src/source/service/simple_stream/fifo_stream/vsf_fifo_stream.c\<close>, which keeps
  one byte free, and the memory stream of \<open>mem_stream/vsf_mem_stream.c\<close>, which counts its data and moves back to the
  start of the buffer when it is empty. Both fulfil the contract of \<open>VSF_Stream\<close>.
\<close>

section \<open>Blocks of a ring that wrap\<close>

definition ring_write :: "u8 list \<Rightarrow> nat \<Rightarrow> u8 list \<Rightarrow> u8 list" where
  "ring_write xs t ys =
     (let n = length xs - t
      in if n < length ys then blk_write (blk_write xs t (take n ys)) 0 (drop n ys) else blk_write xs t ys)"

definition ring_read :: "u8 list \<Rightarrow> nat \<Rightarrow> nat \<Rightarrow> u8 list" where
  "ring_read xs t k =
     (let n = length xs - t in if n < k then blk_read xs t n @ blk_read xs 0 (k - n) else blk_read xs t k)"

lemma ring_write_ok:
  assumes "n + length ys \<le> d" "t = (h + n) mod d" "length xs = d" "0 < d"
  shows "length (ring_write xs t ys) = d" "ring_list ((!) (ring_write xs t ys)) d h (n + length ys) = ring_list ((!) xs) d h n @ ys"
proof -
  have t: "t < d" using assms(2,4) by simp
  show "length (ring_write xs t ys) = d" using assms(1,3) t by (simp add: ring_write_def Let_def length_blk_write)
  show "ring_list ((!) (ring_write xs t ys)) d h (n + length ys) = ring_list ((!) xs) d h n @ ys"
  proof (cases "d - t < length ys")
    case False
    then show ?thesis using ring_list_write [of n "length ys" d t h xs ys] assms t by (simp add: ring_write_def Let_def)
  next
    case True
    define a where "a = d - t"
    define zs where "zs = blk_write xs t (take a ys)"
    have a: "a < length ys" "t + a = d" using True t by (simp_all add: a_def)
    have z: "length zs = d" "ring_list ((!) zs) d h (n + a) = ring_list ((!) xs) d h n @ take a ys"
      using ring_list_write [of n a d t h xs "take a ys"] assms a by (simp_all add: zs_def length_blk_write)
    have "(h + (n + a)) mod d = (t + a) mod d" unfolding assms(2) by (simp add: mod_add_left_eq add.assoc)
    then have "0 = (h + (n + a)) mod d" using a(2) by simp
    from ring_list_write [OF _ _ this z(1), of "length ys - a" "drop a ys"] show ?thesis
      using z(2) a assms(1,3) by (simp add: ring_write_def Let_def zs_def a_def)
  qed
qed

lemma ring_read_ok:
  assumes "k \<le> n" "n \<le> d" "t < d" "length xs = d"
  shows "ring_read xs t k = take k (ring_list ((!) xs) d t n)"
proof -
  have "take k (ring_list ((!) xs) d t n) = ring_list ((!) xs) d t k"
    using ring_list_append [of "(!) xs" d t k "n - k"] assms(1) by simp
  moreover have "ring_read xs t k = ring_list ((!) xs) d t k"
  proof (cases "d - t < k")
    case True
    then show ?thesis using ring_list_split [of "d - t" k t d xs] ring_list_straight [of 0 "k - (d - t)" d xs] assms
      by (simp add: ring_read_def Let_def)
  qed (use ring_list_straight [of t k d xs] assms in \<open>simp add: ring_read_def Let_def\<close>)
  ultimately show ?thesis by simp
qed

lemma ring_read_min:
  assumes "n \<le> d" "t < d" "length xs = d"
  shows "ring_read xs t (min k n) = take k (ring_list ((!) xs) d t n)"
  using ring_read_ok [of "min k n" n d t xs] assms by (simp add: min_def)

lemma ring_list_drop:
  assumes "k \<le> n"
  shows "drop k (ring_list g d t n) = ring_list g d ((t + k) mod d) (n - k)"
  using ring_list_append [of g d t k "n - k"] assms by simp

section \<open>The byte fifo\<close>

record vsf_byte_fifo_t =
  bf_buffer :: "u8 list"
  bf_size :: nat
  bf_head :: nat
  bf_tail :: nat

definition vsf_byte_fifo_init :: "vsf_byte_fifo_t \<Rightarrow> vsf_byte_fifo_t" where
  "vsf_byte_fifo_init f = f\<lparr>bf_head := 0, bf_tail := 0\<rparr>"

definition vsf_byte_fifo_get_buff_length :: "vsf_byte_fifo_t \<Rightarrow> nat" where
  "vsf_byte_fifo_get_buff_length f = bf_size f"

definition vsf_byte_fifo_get_data_length :: "vsf_byte_fifo_t \<Rightarrow> nat" where
  "vsf_byte_fifo_get_data_length f =
     (if bf_tail f \<le> bf_head f then bf_head f - bf_tail f else bf_size f - (bf_tail f - bf_head f))"

definition vsf_byte_fifo_get_avail_length :: "vsf_byte_fifo_t \<Rightarrow> nat" where
  "vsf_byte_fifo_get_avail_length f =
     (let len = bf_size f - vsf_byte_fifo_get_data_length f in if 0 < len then len - 1 else len)"

text \<open>\<open>memcpy\<close> of the bytes, in two parts when the end of the buffer is between them.\<close>

definition vsf_byte_fifo_write :: "u8 list option \<Rightarrow> nat \<Rightarrow> vsf_byte_fifo_t \<Rightarrow> nat \<times> vsf_byte_fifo_t" where
  "vsf_byte_fifo_write buf n f =
     (let avail = vsf_byte_fifo_get_avail_length f;
          n = (if avail < n then avail else n);
          tmp32 = bf_size f - bf_head f
      in if tmp32 < n
         then
           let f = (case buf of None \<Rightarrow> f
                    | Some bs \<Rightarrow> f\<lparr>bf_buffer := blk_write (blk_write (bf_buffer f) (bf_head f) (take tmp32 bs)) 0
                                    (take (n - tmp32) (drop tmp32 bs))\<rparr>)
           in (n, f\<lparr>bf_head := n - tmp32\<rparr>)
         else
           let f = (case buf of None \<Rightarrow> f | Some bs \<Rightarrow> f\<lparr>bf_buffer := blk_write (bf_buffer f) (bf_head f) (take n bs)\<rparr>);
               h = bf_head f + n
           in (n, f\<lparr>bf_head := (if h = bf_size f then 0 else h)\<rparr>))"

definition vsf_byte_fifo_get_rbuf :: "vsf_byte_fifo_t \<Rightarrow> u8 list" where
  "vsf_byte_fifo_get_rbuf f =
     blk_read (bf_buffer f) (bf_tail f) (min (bf_size f - bf_tail f) (vsf_byte_fifo_get_data_length f))"

definition vsf_byte_fifo_get_wbuf :: "vsf_byte_fifo_t \<Rightarrow> nat option \<times> nat" where
  "vsf_byte_fifo_get_wbuf f =
     (Some (bf_head f), min (bf_size f - bf_head f) (vsf_byte_fifo_get_avail_length f))"

definition vsf_byte_fifo_peek :: "nat \<Rightarrow> vsf_byte_fifo_t \<Rightarrow> u8 list" where
  "vsf_byte_fifo_peek n f =
     (let avail = vsf_byte_fifo_get_data_length f;
          n = (if avail < n then avail else n);
          tmp32 = bf_size f - bf_tail f
      in if tmp32 < n then blk_read (bf_buffer f) (bf_tail f) tmp32 @ blk_read (bf_buffer f) 0 (n - tmp32)
         else blk_read (bf_buffer f) (bf_tail f) n)"

definition vsf_byte_fifo_read :: "nat \<Rightarrow> vsf_byte_fifo_t \<Rightarrow> u8 list \<times> vsf_byte_fifo_t" where
  "vsf_byte_fifo_read n f =
     (let bs = vsf_byte_fifo_peek n f;
          ret = length bs;
          tmp32 = bf_size f - bf_tail f
      in if ret = 0 then ([], f)
         else if tmp32 < ret then (bs, f\<lparr>bf_tail := ret - tmp32\<rparr>)
         else (bs, f\<lparr>bf_tail := (if bf_tail f + ret = bf_size f then 0 else bf_tail f + ret)\<rparr>))"

definition vsf_fifo_stream_op :: "vsf_byte_fifo_t vsf_stream_op_t" where
  "vsf_fifo_stream_op = \<lparr>op_init = (\<lambda>f. Some (vsf_byte_fifo_init f)), op_fini = (\<lambda>f. Some (vsf_byte_fifo_init f)),
     op_write = (\<lambda>buf n f. Some (vsf_byte_fifo_write buf n f)), op_read = (\<lambda>n f. Some (vsf_byte_fifo_read n f)),
     get_buff_length = vsf_byte_fifo_get_buff_length, get_data_length = vsf_byte_fifo_get_data_length,
     get_avail_length = vsf_byte_fifo_get_avail_length, get_wbuf = (\<lambda>f. (vsf_byte_fifo_get_wbuf f, f)),
     get_rbuf = vsf_byte_fifo_get_rbuf\<rparr>"

section \<open>The memory stream\<close>

text \<open>\<open>align\<close> is the alignment before the initialization and one less, the mask, behind it.\<close>

record vsf_mem_stream_t =
  ms_buffer :: "u8 list"
  ms_size :: nat
  align :: nat
  is_writing :: bool
  data_size :: nat
  rpos :: nat
  wpos :: nat

definition p_vsf_mem_stream_init :: "vsf_mem_stream_t \<Rightarrow> vsf_mem_stream_t option" where
  "p_vsf_mem_stream_init m =
     (let m = m\<lparr>is_writing := False, rpos := 0, wpos := 0, data_size := 0\<rparr>;
          a = (if align m = 0 then 1 else align m)
      in if a AND (a - 1) \<noteq> 0 then None else Some (m\<lparr>align := a - 1\<rparr>))"

definition p_vsf_mem_stream_get_buff_length :: "vsf_mem_stream_t \<Rightarrow> nat" where
  "p_vsf_mem_stream_get_buff_length m = ms_size m"

definition p_vsf_mem_stream_get_data_length :: "vsf_mem_stream_t \<Rightarrow> nat" where
  "p_vsf_mem_stream_get_data_length m = data_size m"

definition p_vsf_mem_stream_get_avail_length :: "vsf_mem_stream_t \<Rightarrow> nat" where
  "p_vsf_mem_stream_get_avail_length m =
     (if wpos m AND align m \<noteq> 0 then 0 else ms_size m - p_vsf_mem_stream_get_data_length m)"

definition p_vsf_mem_stream_get_wbuf :: "vsf_mem_stream_t \<Rightarrow> (nat option \<times> nat) \<times> vsf_mem_stream_t" where
  "p_vsf_mem_stream_get_wbuf m =
     (let avail_len = p_vsf_mem_stream_get_avail_length m; wlen = ms_size m - wpos m
      in ((if 0 < avail_len then Some (wpos m) else None, min wlen avail_len), m\<lparr>is_writing := True\<rparr>))"

definition p_vsf_mem_stream_get_rbuf :: "vsf_mem_stream_t \<Rightarrow> u8 list" where
  "p_vsf_mem_stream_get_rbuf m =
     (let data_len = p_vsf_mem_stream_get_data_length m; rlen = ms_size m - rpos m
      in blk_read (ms_buffer m) (rpos m) (min rlen data_len))"

definition p_vsf_mem_stream_write :: "u8 list option \<Rightarrow> nat \<Rightarrow> vsf_mem_stream_t \<Rightarrow> (nat \<times> vsf_mem_stream_t) option" where
  "p_vsf_mem_stream_write buf n m =
     (let avail_len = p_vsf_mem_stream_get_avail_length m;
          wsize = min avail_len n
      in if wpos m AND align m \<noteq> 0 then None
         else
           let m = m\<lparr>is_writing := True\<rparr>;
               m = (case buf of None \<Rightarrow> m
                    | Some bs \<Rightarrow>
                        let curlen = min wsize (ms_size m - wpos m);
                            mem = blk_write (ms_buffer m) (wpos m) (take curlen bs);
                            mem = (if 0 < wsize - curlen then blk_write mem 0 (take (wsize - curlen) (drop curlen bs)) else mem)
                        in m\<lparr>ms_buffer := mem\<rparr>);
               m = m\<lparr>data_size := data_size m + wsize, wpos := (wpos m + wsize) mod ms_size m\<rparr>
           in Some (wsize, m\<lparr>is_writing := False\<rparr>))"

text \<open>
  A read computes the length and copies the data before it enters the protected region, where the data
  is removed: \<open>mem_stream_fetch\<close> is the first part, with the length and the number of bytes, and
  \<open>mem_stream_remove\<close> the second.
\<close>

definition mem_stream_fetch :: "nat \<Rightarrow> vsf_mem_stream_t \<Rightarrow> (nat \<times> u8 list) option" where
  "mem_stream_fetch n m =
     (let data_len = p_vsf_mem_stream_get_data_length m;
          rsize = min data_len n;
          rsize = (if n < data_len then rsize - (rsize AND align m) else rsize);
          curlen = min rsize (ms_size m - rpos m)
      in if rpos m AND align m \<noteq> 0 then None
         else Some (data_len, blk_read (ms_buffer m) (rpos m) curlen @ blk_read (ms_buffer m) 0 (rsize - curlen)))"

definition mem_stream_remove :: "nat \<Rightarrow> nat \<Rightarrow> nat \<Rightarrow> vsf_mem_stream_t \<Rightarrow> vsf_mem_stream_t" where
  "mem_stream_remove n data_len rsize m =
     (let m = m\<lparr>data_size := data_size m - rsize\<rparr>
      in if n < data_len \<or> is_writing m then m\<lparr>rpos := (rpos m + rsize) mod ms_size m\<rparr> else m\<lparr>rpos := 0, wpos := 0\<rparr>)"

definition p_vsf_mem_stream_read :: "nat \<Rightarrow> vsf_mem_stream_t \<Rightarrow> (u8 list \<times> vsf_mem_stream_t) option" where
  "p_vsf_mem_stream_read n m = do {
     (data_len, bs) \<leftarrow> mem_stream_fetch n m;
     Some (bs, mem_stream_remove n data_len (length bs) m)}"

definition vsf_mem_stream_op :: "vsf_mem_stream_t vsf_stream_op_t" where
  "vsf_mem_stream_op = \<lparr>op_init = p_vsf_mem_stream_init, op_fini = p_vsf_mem_stream_init,
     op_write = p_vsf_mem_stream_write, op_read = p_vsf_mem_stream_read, get_buff_length = p_vsf_mem_stream_get_buff_length,
     get_data_length = p_vsf_mem_stream_get_data_length, get_avail_length = p_vsf_mem_stream_get_avail_length,
     get_wbuf = p_vsf_mem_stream_get_wbuf, get_rbuf = p_vsf_mem_stream_get_rbuf\<rparr>"

section \<open>The byte fifo fulfils the contract\<close>

definition bf_ok :: "vsf_byte_fifo_t \<Rightarrow> bool" where
  "bf_ok f \<longleftrightarrow> 2 \<le> bf_size f \<and> length (bf_buffer f) = bf_size f \<and> bf_head f < bf_size f \<and> bf_tail f < bf_size f"

definition bf_contents :: "vsf_byte_fifo_t \<Rightarrow> u8 list" where
  "bf_contents f = ring_list ((!) (bf_buffer f)) (bf_size f) (bf_tail f) (vsf_byte_fifo_get_data_length f)"

definition bf_cap :: "vsf_byte_fifo_t \<Rightarrow> nat" where
  "bf_cap f = bf_size f - 1"

lemma bf_data:
  assumes "bf_ok f"
  shows "vsf_byte_fifo_get_data_length f < bf_size f" "bf_head f = (bf_tail f + vsf_byte_fifo_get_data_length f) mod bf_size f"
    "vsf_byte_fifo_get_avail_length f = bf_size f - 1 - vsf_byte_fifo_get_data_length f"
  using assms by (auto simp: bf_ok_def vsf_byte_fifo_get_data_length_def vsf_byte_fifo_get_avail_length_def Let_def)

lemma bf_data_eq:
  assumes "bf_tail f < bf_size f" "bf_head f = (bf_tail f + m) mod bf_size f" "m < bf_size f"
  shows "vsf_byte_fifo_get_data_length f = m"
proof (cases "bf_tail f + m < bf_size f")
  case False
  then have "bf_head f = bf_tail f + m - bf_size f" using assms by (simp add: mod_if)
  then show ?thesis using assms False by (simp add: vsf_byte_fifo_get_data_length_def)
qed (use assms in \<open>simp add: vsf_byte_fifo_get_data_length_def\<close>)

lemma bf_write:
  assumes f: "bf_ok f" and n: "n = min (length bs) (bf_cap f - length (bf_contents f))"
  shows "vsf_byte_fifo_write (Some bs) (length bs) f
    = (n, f\<lparr>bf_buffer := ring_write (bf_buffer f) (bf_head f) (take n bs), bf_head := (bf_head f + n) mod bf_size f\<rparr>)"
proof -
  have a: "vsf_byte_fifo_get_avail_length f = bf_cap f - length (bf_contents f)" "length (bf_buffer f) = bf_size f" "bf_head f < bf_size f"
    using bf_data(3) [OF f] f by (simp_all add: bf_cap_def bf_contents_def bf_ok_def)
  have n': "(if bf_cap f - length (bf_contents f) < length bs then bf_cap f - length (bf_contents f) else length bs) = n"
    by (simp add: n min_def)
  have "length (take n bs) = n" "n < bf_size f" using n f by (auto simp: bf_cap_def bf_ok_def min_def)
  moreover have "take (n - (bf_size f - bf_head f)) (drop (bf_size f - bf_head f) bs) = drop (bf_size f - bf_head f) (take n bs)"
    by (simp add: drop_take)
  ultimately show ?thesis using a(2,3)
    by (auto simp: vsf_byte_fifo_write_def Let_def a(1) n' ring_write_def min_def mod_if)
qed

lemma bf_read:
  assumes f: "bf_ok f"
  shows "vsf_byte_fifo_read n f = (take n (bf_contents f), f\<lparr>bf_tail := (bf_tail f + min n (length (bf_contents f))) mod bf_size f\<rparr>)"
proof -
  let ?d = "vsf_byte_fifo_get_data_length f"
  have l: "length (bf_contents f) = ?d" by (simp add: bf_contents_def)
  have w: "length (bf_buffer f) = bf_size f" "bf_tail f < bf_size f" using f by (simp_all add: bf_ok_def)
  have "vsf_byte_fifo_peek n f = ring_read (bf_buffer f) (bf_tail f) (min n ?d)"
    by (auto simp: vsf_byte_fifo_peek_def Let_def ring_read_def w(1) min_def)
  also have "\<dots> = take n (bf_contents f)"
    using ring_read_min [of ?d "bf_size f" "bf_tail f" "bf_buffer f" n] bf_data(1) [OF f] w by (simp add: bf_contents_def)
  finally have p: "vsf_byte_fifo_peek n f = take n (bf_contents f)" .
  define r where "r = min n ?d"
  define bs where "bs = take n (bf_contents f)"
  have len: "length bs = r" by (simp add: bs_def r_def l min.commute)
  have "r < bf_size f" using bf_data(1) [OF f] by (auto simp: r_def min_def)
  then have t: "(bf_tail f + r) mod bf_size f =
      (if bf_size f - bf_tail f < r then r - (bf_size f - bf_tail f) else if bf_tail f + r = bf_size f then 0 else bf_tail f + r)"
    using w(2) by (auto simp: mod_if)
  have "f\<lparr>bf_tail := bf_tail f\<rparr> = f" by (cases f) simp
  moreover have "bs = []" if "r = 0" using len that by simp
  ultimately show ?thesis using w(2)
    unfolding l r_def [symmetric] t bs_def [symmetric] vsf_byte_fifo_read_def p [folded bs_def] Let_def len by auto
qed

interpretation fifo_stream: stream_backend vsf_fifo_stream_op bf_ok bf_contents bf_cap
proof unfold_locales
  fix f and bs :: "u8 list" assume f: "bf_ok f"
  let ?d = "vsf_byte_fifo_get_data_length f"
  have l: "length (bf_contents f) = ?d" by (simp add: bf_contents_def)
  have w: "length (bf_buffer f) = bf_size f" "bf_tail f < bf_size f" "bf_head f < bf_size f" "2 \<le> bf_size f" using f by (simp_all add: bf_ok_def)
  note D = bf_data [OF f]
  define n where "n = min (length bs) (bf_cap f - length (bf_contents f))"
  define f' where "f' = f\<lparr>bf_buffer := ring_write (bf_buffer f) (bf_head f) (take n bs), bf_head := (bf_head f + n) mod bf_size f\<rparr>"
  have n: "length (take n bs) = n" "?d + n < bf_size f" "take n bs = take (bf_cap f - length (bf_contents f)) bs"
    using D(1) l w(4) by (auto simp: n_def bf_cap_def min_def)
  note R = ring_write_ok [OF _ D(2) w(1), of "take n bs", unfolded n(1)]
  have ok: "bf_ok f'" using R(1) n(2) w by (simp add: bf_ok_def f'_def)
  have "vsf_byte_fifo_get_data_length f' = ?d + n"
    by (rule bf_data_eq) (use w n(2) D(2) in \<open>simp_all add: f'_def mod_add_left_eq add.assoc\<close>)
  then have "bf_contents f' = bf_contents f @ take n bs" using R(2) n(2) w by (simp add: bf_contents_def f'_def)
  then show "\<exists>f'. op_write vsf_fifo_stream_op (Some bs) (length bs) f = Some (min (length bs) (bf_cap f - length (bf_contents f)), f')
      \<and> bf_ok f' \<and> bf_cap f' = bf_cap f \<and> bf_contents f' = bf_contents f @ take (bf_cap f - length (bf_contents f)) bs"
    using ok bf_write [OF f n_def] n(3) by (intro exI [of _ f']) (simp add: vsf_fifo_stream_op_def f'_def bf_cap_def n_def)
next
  fix f n assume f: "bf_ok f"
  let ?d = "vsf_byte_fifo_get_data_length f"
  have l: "length (bf_contents f) = ?d" by (simp add: bf_contents_def)
  have w: "length (bf_buffer f) = bf_size f" "bf_tail f < bf_size f" "2 \<le> bf_size f" using f by (simp_all add: bf_ok_def)
  note D = bf_data [OF f]
  define k where "k = min n ?d"
  have k: "k \<le> ?d" by (simp add: k_def)
  define f' where "f' = f\<lparr>bf_tail := (bf_tail f + k) mod bf_size f\<rparr>"
  have ok: "bf_ok f'" using f w by (simp add: bf_ok_def f'_def)
  have "vsf_byte_fifo_get_data_length f' = ?d - k"
    by (rule bf_data_eq) (use w D(1,2) ring_mod_skip [OF k] k in \<open>simp_all add: f'_def\<close>)
  then have "bf_contents f' = drop n (bf_contents f)"
    using ring_list_drop [of k ?d "(!) (bf_buffer f)" "bf_size f" "bf_tail f"] by (simp add: bf_contents_def f'_def k_def min_def split: if_splits)
  then show "\<exists>f'. op_read vsf_fifo_stream_op n f = Some (take n (bf_contents f), f') \<and> bf_ok f' \<and> bf_cap f' = bf_cap f
      \<and> bf_contents f' = drop n (bf_contents f)"
    using ok bf_read [OF f, of n] l by (intro exI [of _ f']) (simp add: vsf_fifo_stream_op_def f'_def bf_cap_def k_def)
next
  fix f assume f: "bf_ok f"
  let ?d = "vsf_byte_fifo_get_data_length f"
  have w: "length (bf_buffer f) = bf_size f" "bf_tail f < bf_size f" "2 \<le> bf_size f" using f by (simp_all add: bf_ok_def)
  note D = bf_data [OF f]
  show "get_data_length vsf_fifo_stream_op f = length (bf_contents f)" by (simp add: vsf_fifo_stream_op_def bf_contents_def)
  show "get_avail_length vsf_fifo_stream_op f = bf_cap f - length (bf_contents f)"
    using D(3) by (simp add: vsf_fifo_stream_op_def bf_contents_def bf_cap_def)
  have "blk_read (bf_buffer f) (bf_tail f) (min (bf_size f - bf_tail f) ?d) = take (bf_size f - bf_tail f) (bf_contents f)"
    using ring_read_min [of ?d "bf_size f" "bf_tail f" "bf_buffer f" "bf_size f - bf_tail f"] D(1) w
    by (simp add: ring_read_def bf_contents_def)
  then show "\<exists>n. get_rbuf vsf_fifo_stream_op f = take n (bf_contents f) \<and> 0 < n"
    using w(2) by (intro exI [of _ "bf_size f - bf_tail f"]) (simp add: vsf_fifo_stream_op_def vsf_byte_fifo_get_rbuf_def)
  show "length (bf_contents f) \<le> bf_cap f \<and> 2 \<le> get_buff_length vsf_fifo_stream_op f"
    using D(1) w(3) by (simp add: bf_contents_def bf_cap_def vsf_fifo_stream_op_def vsf_byte_fifo_get_buff_length_def)
qed

section \<open>The memory stream fulfils the contract\<close>

text \<open>A stream of bytes: after the initialization the mask of the alignment is 0.\<close>

definition ms_ok :: "vsf_mem_stream_t \<Rightarrow> bool" where
  "ms_ok m \<longleftrightarrow> 2 \<le> ms_size m \<and> length (ms_buffer m) = ms_size m \<and> align m = 0 \<and> rpos m < ms_size m
     \<and> data_size m \<le> ms_size m \<and> wpos m = (rpos m + data_size m) mod ms_size m"

definition ms_contents :: "vsf_mem_stream_t \<Rightarrow> u8 list" where
  "ms_contents m = ring_list ((!) (ms_buffer m)) (ms_size m) (rpos m) (data_size m)"

lemma ms_write:
  assumes m: "ms_ok m" and n: "n = min (length bs) (ms_size m - length (ms_contents m))"
  shows "p_vsf_mem_stream_write (Some bs) (length bs) m = Some (n, m\<lparr>ms_buffer := ring_write (ms_buffer m) (wpos m) (take n bs),
    data_size := data_size m + n, wpos := (wpos m + n) mod ms_size m, is_writing := False\<rparr>)"
proof -
  have l: "length (ms_contents m) = data_size m" by (simp add: ms_contents_def)
  have w: "align m = 0" "length (ms_buffer m) = ms_size m" using m by (simp_all add: ms_ok_def)
  have n': "min (ms_size m - data_size m) (length bs) = n" "length (take n bs) = n" using n l by (simp_all add: min.commute)
  have avail: "p_vsf_mem_stream_get_avail_length m = ms_size m - data_size m"
    by (simp add: p_vsf_mem_stream_get_avail_length_def p_vsf_mem_stream_get_data_length_def w(1))
  have "n \<le> length bs" using n by simp
  then show ?thesis unfolding p_vsf_mem_stream_write_def Let_def avail n'(1)
    by (cases "n \<le> ms_size m - wpos m") (simp_all add: w ring_write_def n'(2) drop_take Let_def)
qed

lemma ms_fetch:
  assumes m: "ms_ok m"
  shows "mem_stream_fetch n m = Some (data_size m, take n (ms_contents m))"
proof -
  have w: "align m = 0" "length (ms_buffer m) = ms_size m" "rpos m < ms_size m" "data_size m \<le> ms_size m" using m by (simp_all add: ms_ok_def)
  let ?r = "min n (data_size m)"
  let ?c = "min ?r (ms_size m - rpos m)"
  have "blk_read (ms_buffer m) (rpos m) ?c @ blk_read (ms_buffer m) 0 (?r - ?c) = ring_read (ms_buffer m) (rpos m) ?r"
    by (auto simp: ring_read_def Let_def w(2) min_def blk_read_def)
  also have "\<dots> = take n (ms_contents m)" using ring_read_min [OF w(4,3,2), of n] by (simp add: ms_contents_def)
  finally show ?thesis
    by (cases "n < data_size m") (simp_all add: mem_stream_fetch_def p_vsf_mem_stream_get_data_length_def w(1) Let_def)
qed

interpretation mem_stream: stream_backend vsf_mem_stream_op ms_ok ms_contents ms_size
proof unfold_locales
  fix m and bs :: "u8 list" assume m: "ms_ok m"
  have w: "2 \<le> ms_size m" "align m = 0" "length (ms_buffer m) = ms_size m" "rpos m < ms_size m" "data_size m \<le> ms_size m"
    "wpos m = (rpos m + data_size m) mod ms_size m" using m by (simp_all add: ms_ok_def)
  have l: "length (ms_contents m) = data_size m" by (simp add: ms_contents_def)
  define n where "n = min (length bs) (ms_size m - length (ms_contents m))"
  define m' where "m' = m\<lparr>ms_buffer := ring_write (ms_buffer m) (wpos m) (take n bs),
    data_size := data_size m + n, wpos := (wpos m + n) mod ms_size m, is_writing := False\<rparr>"
  have n: "length (take n bs) = n" "data_size m + n \<le> ms_size m" "take n bs = take (ms_size m - length (ms_contents m)) bs"
    using l w(5) by (auto simp: n_def min_def)
  note R = ring_write_ok [OF _ w(6,3), of "take n bs", unfolded n(1)]
  have ok: "ms_ok m'" using R(1) n(2) w by (simp add: ms_ok_def m'_def mod_add_left_eq add.assoc)
  have "ms_contents m' = ms_contents m @ take n bs" using R(2) n(2) w(1) by (simp add: ms_contents_def m'_def)
  then show "\<exists>m'. op_write vsf_mem_stream_op (Some bs) (length bs) m = Some (min (length bs) (ms_size m - length (ms_contents m)), m')
      \<and> ms_ok m' \<and> ms_size m' = ms_size m \<and> ms_contents m' = ms_contents m @ take (ms_size m - length (ms_contents m)) bs"
    using ok ms_write [OF m n_def] n(3) by (intro exI [of _ m']) (simp add: vsf_mem_stream_op_def m'_def n_def)
next
  fix m n assume m: "ms_ok m"
  have w: "2 \<le> ms_size m" "align m = 0" "length (ms_buffer m) = ms_size m" "rpos m < ms_size m" "data_size m \<le> ms_size m"
    "wpos m = (rpos m + data_size m) mod ms_size m" using m by (simp_all add: ms_ok_def)
  have l: "length (ms_contents m) = data_size m" by (simp add: ms_contents_def)
  define k where "k = min n (data_size m)"
  have k: "length (take n (ms_contents m)) = k" "k \<le> data_size m" "n < data_size m \<or> k = data_size m" by (auto simp: k_def l)
  define m' where "m' = mem_stream_remove n (data_size m) k m"
  have "drop n (ms_contents m) = drop k (ms_contents m)" by (simp add: k_def l min_def)
  then have d: "drop n (ms_contents m) = ring_list ((!) (ms_buffer m)) (ms_size m) ((rpos m + k) mod ms_size m) (data_size m - k)"
    using ring_list_drop [OF k(2)] by (simp add: ms_contents_def)
  have "ms_ok m' \<and> ms_size m' = ms_size m \<and> ms_contents m' = drop n (ms_contents m)"
    unfolding d using w k(2,3) ring_mod_skip [OF k(2), of "rpos m" "ms_size m"]
    by (auto simp: m'_def mem_stream_remove_def Let_def ms_ok_def ms_contents_def)
  then show "\<exists>m'. op_read vsf_mem_stream_op n m = Some (take n (ms_contents m), m') \<and> ms_ok m' \<and> ms_size m' = ms_size m
      \<and> ms_contents m' = drop n (ms_contents m)"
    using ms_fetch [OF m, of n] k(1) by (intro exI [of _ m']) (simp add: vsf_mem_stream_op_def p_vsf_mem_stream_read_def m'_def)
next
  fix m assume m: "ms_ok m"
  have w: "2 \<le> ms_size m" "align m = 0" "length (ms_buffer m) = ms_size m" "rpos m < ms_size m" "data_size m \<le> ms_size m"
    using m by (simp_all add: ms_ok_def)
  show "get_data_length vsf_mem_stream_op m = length (ms_contents m)"
    by (simp add: vsf_mem_stream_op_def p_vsf_mem_stream_get_data_length_def ms_contents_def)
  show "get_avail_length vsf_mem_stream_op m = ms_size m - length (ms_contents m)" using w(2)
    by (simp add: vsf_mem_stream_op_def p_vsf_mem_stream_get_avail_length_def p_vsf_mem_stream_get_data_length_def ms_contents_def)
  have "blk_read (ms_buffer m) (rpos m) (min (ms_size m - rpos m) (data_size m)) = take (ms_size m - rpos m) (ms_contents m)"
    using ring_read_min [OF w(5,4,3), of "ms_size m - rpos m"] by (simp add: ring_read_def w(3) ms_contents_def)
  then show "\<exists>n. get_rbuf vsf_mem_stream_op m = take n (ms_contents m) \<and> 0 < n" using w(4)
    by (intro exI [of _ "ms_size m - rpos m"])
      (simp add: vsf_mem_stream_op_def p_vsf_mem_stream_get_rbuf_def p_vsf_mem_stream_get_data_length_def)
  show "length (ms_contents m) \<le> ms_size m \<and> 2 \<le> get_buff_length vsf_mem_stream_op m"
    using w(1,5) by (simp add: ms_contents_def vsf_mem_stream_op_def p_vsf_mem_stream_get_buff_length_def)
qed

interpretation fifo_to_mem: stream_pair vsf_fifo_stream_op bf_ok bf_contents bf_cap vsf_mem_stream_op ms_ok ms_contents ms_size ..


section \<open>Properties\<close>

text \<open>
  C24. A stream is a queue of bytes, over the byte fifo and over the memory stream: any sequence of writes and reads of its
  client runs to its end without a failed assertion, and the bytes that were in the stream followed by those that the writes accepted
  are the bytes that the reads gave followed by those that are left, in this order. The event handlers of the
  terminals may do anything but touch the buffer.
\<close>

theorem stream_run_fifo:
  assumes "bf_ok (s_buf sf)" "quiet runf" "ms_ok (s_buf sm)" "quiet runm"
  shows "(\<exists>ins outs s'. stream_run vsf_fifo_stream_op runf cs sf = Some (ins, outs, s') \<and> bf_ok (s_buf s')
      \<and> bf_contents (s_buf sf) @ ins = outs @ bf_contents (s_buf s'))
    \<and> (\<exists>ins outs s'. stream_run vsf_mem_stream_op runm cs sm = Some (ins, outs, s') \<and> ms_ok (s_buf s')
      \<and> ms_contents (s_buf sm) @ ins = outs @ ms_contents (s_buf s'))"
  using fifo_stream.stream_run_ok [OF assms(1,2), of cs] mem_stream.stream_run_ok [OF assms(3,4), of cs] by blast

definition idle_term :: vsf_stream_terminal_t where
  "idle_term = \<lparr>has_evthandler = False, threshold = 0, ready = True, data_notified = False\<rparr>"

definition demo_stream :: "'s \<Rightarrow> 's vsf_stream_t" where
  "demo_stream b = \<lparr>s_buf = b, is_ticktock_read = False, is_ticktock_write = False, tx = idle_term, rx = idle_term\<rparr>"

definition demo_fifo :: "u8 list \<Rightarrow> vsf_byte_fifo_t" where
  "demo_fifo bs = \<lparr>bf_buffer = bs @ [0], bf_size = length bs + 1, bf_head = length bs, bf_tail = 0\<rparr>"

definition demo_mem :: "u8 list \<Rightarrow> nat \<Rightarrow> vsf_mem_stream_t" where
  "demo_mem bs k = \<lparr>ms_buffer = bs @ replicate k 0, ms_size = length bs + k, align = 0, is_writing = False,
     data_size = length bs, rpos = 0, wpos = length bs\<rparr>"

lemma quiet_Some: "quiet (\<lambda>t e. Some)"
  by (simp add: quiet_def)

theorem stream_run_fifo_witness:
  "(\<exists>ins outs s'. stream_run vsf_fifo_stream_op (\<lambda>t e. Some) [Put [3, 4, 5], Get 2] (demo_stream (demo_fifo [1, 2])) = Some (ins, outs, s')
      \<and> bf_ok (s_buf s') \<and> [1, 2] @ ins = outs @ bf_contents (s_buf s'))
    \<and> (\<exists>ins outs s'. stream_run vsf_mem_stream_op (\<lambda>t e. Some) [Put [3, 4, 5], Get 2] (demo_stream (demo_mem [1, 2] 2)) = Some (ins, outs, s')
      \<and> ms_ok (s_buf s') \<and> [1, 2] @ ins = outs @ ms_contents (s_buf s'))"
proof -
  have f: "bf_ok (s_buf (demo_stream (demo_fifo [1, 2])))" "bf_contents (s_buf (demo_stream (demo_fifo [1, 2]))) = [1, 2]"
    by (code_simp, code_simp)
  have m: "ms_ok (s_buf (demo_stream (demo_mem [1, 2] 2)))" "ms_contents (s_buf (demo_stream (demo_mem [1, 2] 2))) = [1, 2]"
    by (code_simp, code_simp)
  show ?thesis using stream_run_fifo [OF f(1) quiet_Some m(1) quiet_Some, of "[Put [3, 4, 5], Get 2]"] unfolding f(2) m(2) .
qed



text \<open>
  A read of the whole memory stream that is interrupted by a write between the copy of the data and its protected
  region: the reader gets what was there, but the positions go back to the start of the buffer although the
  stream is not empty, and its contents is now what stands there, in general the bytes that have been read already,
  instead of those that were written. (The length that decides it is read outside of the region.)
\<close>

theorem mem_stream_read_race:
  assumes "ms_ok m" "data_size m \<le> n" "length bs \<le> ms_size m - data_size m"
  shows "\<exists>m'. mem_stream_fetch n m = Some (data_size m, ms_contents m) \<and> p_vsf_mem_stream_write (Some bs) (length bs) m = Some (length bs, m')
    \<and> ms_contents m' = ms_contents m @ bs
    \<and> ms_contents (mem_stream_remove n (data_size m) (data_size m) m') = take (length bs) (ms_buffer m')"
proof -
  have w: "2 \<le> ms_size m" "length (ms_buffer m) = ms_size m" "data_size m \<le> ms_size m" "wpos m = (rpos m + data_size m) mod ms_size m"
    using assms(1) by (simp_all add: ms_ok_def)
  have l: "length (ms_contents m) = data_size m" by (simp add: ms_contents_def)
  define m' where "m' = m\<lparr>ms_buffer := ring_write (ms_buffer m) (wpos m) bs, data_size := data_size m + length bs,
    wpos := (wpos m + length bs) mod ms_size m, is_writing := False\<rparr>"
  have W: "p_vsf_mem_stream_write (Some bs) (length bs) m = Some (length bs, m')"
    using ms_write [OF assms(1), of "length bs" bs] assms(3) l by (simp add: m'_def)
  note R = ring_write_ok [OF _ w(4,2), of bs]
  have "length (ms_buffer m') = ms_size m" "ms_contents m' = ms_contents m @ bs"
    using R assms(3) w(1,3) by (simp_all add: m'_def ms_contents_def)
  moreover from this have "ms_contents (mem_stream_remove n (data_size m) (data_size m) m') = take (length bs) (ms_buffer m')"
    using assms(2,3) ring_list_straight [of 0 "length bs" "ms_size m" "ms_buffer m'"] w(1)
    by (simp add: mem_stream_remove_def ms_contents_def m'_def blk_read_def)
  ultimately show ?thesis using W ms_fetch [OF assms(1), of n] assms(2) l by (intro exI [of _ m']) simp
qed

theorem mem_stream_read_race_witness:
  "\<exists>m'. mem_stream_fetch 8 (demo_mem [1, 2] 2) = Some (2, [1, 2]) \<and> p_vsf_mem_stream_write (Some [3]) 1 (demo_mem [1, 2] 2) = Some (1, m')
    \<and> ms_contents m' = [1, 2, 3] \<and> ms_contents (mem_stream_remove 8 2 2 m') = [1]"
proof -
  have m: "ms_ok (demo_mem [1, 2] 2)" "ms_contents (demo_mem [1, 2] 2) = [1, 2]" "data_size (demo_mem [1, 2] 2) = 2" "ms_size (demo_mem [1, 2] 2) = 4"
    by (code_simp, code_simp, code_simp, code_simp)
  have b: "\<forall>m'. p_vsf_mem_stream_write (Some [3]) 1 (demo_mem [1, 2] 2) = Some (1, m') \<longrightarrow> take 1 (ms_buffer m') = [1]"
    by (simp add: p_vsf_mem_stream_write_def p_vsf_mem_stream_get_avail_length_def p_vsf_mem_stream_get_data_length_def demo_mem_def blk_write_def)
  show ?thesis using mem_stream_read_race [OF m(1), of 8 "[3]"] b unfolding m(2-4) by auto
qed

end
