(* ===== verification/VSF_Dynarr.thy ===== *)
theory VSF_Dynarr
  imports VSF_Heap_Api "HOL-Library.Monad_Syntax"
begin

unbundle bit_operations_syntax

text \<open>
  The dynamic arrays of \<open>src/source/service/dynarr/vsf_dynarr.c\<close> and the stacks of \<open>service/dynstack/vsf_dynstack.c\<close>, on the
  default heap. The items are in buffers of \<open>2 ^ item_num_per_buf_bitlen\<close> items, the addresses of the buffers in
  tables of \<open>2 ^ buf_num_per_table_bitlen\<close> entries, and the tables in a linked list; buffers and tables are
  blocks of the heap. An assertion that fails for lack of memory is the error that is returned behind it, as
  in a build without assertions.
\<close>

section \<open>Dynamic arrays\<close>

text \<open>A table with its address; an entry that has not been written yet is \<open>None\<close>.\<close>

record vsf_dynarr_table_t =
  t_addr :: ptr
  t_buffer :: "nat \<rightharpoonup> ptr"

record vsf_dynarr_t =
  item_size :: nat
  item_num_per_buf_bitlen :: nat
  buf_num_per_table_bitlen :: nat
  table_list :: "vsf_dynarr_table_t list"
  da_length :: nat

abbreviation (input) item_num_per_buf :: "('a) vsf_dynarr_t_scheme \<Rightarrow> nat" where
  "item_num_per_buf d \<equiv> 2 ^ item_num_per_buf_bitlen d"

abbreviation (input) buf_num_per_table :: "('a) vsf_dynarr_t_scheme \<Rightarrow> nat" where
  "buf_num_per_table d \<equiv> 2 ^ buf_num_per_table_bitlen d"

definition buf_num_of :: "('a) vsf_dynarr_t_scheme \<Rightarrow> nat \<Rightarrow> nat" where
  "buf_num_of d sz = ((sz + item_num_per_buf d - 1) mod 2 ^ 32) div item_num_per_buf d"

definition p_vsf_dynarr_get_buf_num :: "('a) vsf_dynarr_t_scheme \<Rightarrow> nat" where
  "p_vsf_dynarr_get_buf_num d = buf_num_of d (da_length d)"

text \<open>The position in the list of tables.\<close>

definition p_vsf_dynarr_get_table :: "('a) vsf_dynarr_t_scheme \<Rightarrow> nat \<Rightarrow> nat option" where
  "p_vsf_dynarr_get_table d buf_idx =
     (let table_idx = buf_idx div buf_num_per_table d
      in if buf_idx < p_vsf_dynarr_get_buf_num d \<and> table_idx < length (table_list d) then Some table_idx else None)"

definition vsf_dynarr_get_size :: "('a) vsf_dynarr_t_scheme \<Rightarrow> nat" where
  "vsf_dynarr_get_size d = da_length d"

text \<open>
  The loop that adds buffers. The table is given by its position plus 1, where 0 is the head of the list, that
  the code treats as a table without entries; \<open>set_next\<close> makes the new table its only successor.
\<close>

definition dynarr_table_size :: "('a) vsf_dynarr_t_scheme \<Rightarrow> nat" where
  "dynarr_table_size d = 4 + 4 * buf_num_per_table d"

definition dynarr_buffer_size :: "('a) vsf_dynarr_t_scheme \<Rightarrow> nat" where
  "dynarr_buffer_size d = buf_num_per_table d * item_size d"

definition dynarr_set_buffer :: "nat \<Rightarrow> nat \<Rightarrow> ptr \<Rightarrow> ('a) vsf_dynarr_t_scheme \<Rightarrow> ('a) vsf_dynarr_t_scheme option" where
  "dynarr_set_buffer table i p d =
     (if 0 < table \<and> table \<le> length (table_list d)
      then let t = table_list d ! (table - 1)
           in Some (d\<lparr>table_list := (table_list d)[table - 1 := t\<lparr>t_buffer := (t_buffer t)(i \<mapsto> p)\<rparr>]\<rparr>)
      else None)"

fun dynarr_grow ::
  "nat \<Rightarrow> nat \<Rightarrow> nat \<Rightarrow> ('a) vsf_dynarr_t_scheme \<Rightarrow> vsf_heap_t \<Rightarrow> (vsf_err_t \<times> ('a) vsf_dynarr_t_scheme \<times> vsf_heap_t) option" where
  "dynarr_grow 0 buf_idx table d h = Some (VSF_ERR_NONE, d, h)"
| "dynarr_grow (Suc buf_num_diff) buf_idx table d h = do {
     (buf_idx, table_tmp, h) \<leftarrow>
       (if buf_idx = buf_num_per_table d
        then do {(p, h) \<leftarrow> vsf_heap_malloc_imp (of_nat (dynarr_table_size d)) h; Some (0, Some p, h)}
        else Some (buf_idx, None, h));
     (if table_tmp = Some null then Some (VSF_ERR_NOT_ENOUGH_RESOURCES, d, h)
      else do {
        (buf_new, h) \<leftarrow> vsf_heap_malloc_imp (of_nat (dynarr_buffer_size d)) h;
        (if buf_new = null
         then do {
           h \<leftarrow> (case table_tmp of None \<Rightarrow> Some h | Some p \<Rightarrow> vsf_heap_free_imp p h);
           Some (VSF_ERR_NOT_ENOUGH_RESOURCES, d, h)}
         else do {
           let (table, d) = (case table_tmp of None \<Rightarrow> (table, d)
             | Some p \<Rightarrow> (table + 1, d\<lparr>table_list := take table (table_list d) @ [\<lparr>t_addr = p, t_buffer = Map.empty\<rparr>]\<rparr>));
           d \<leftarrow> dynarr_set_buffer table buf_idx buf_new d;
           dynarr_grow buf_num_diff (buf_idx + 1) table (d\<lparr>da_length := da_length d + item_num_per_buf d\<rparr>) h})})}"

text \<open>
  The loop that removes buffers: first those behind \<open>buf_idx\<close> in the table; when the end of the table is
  reached, the tables behind it are cut off, their buffers are freed and they are freed themselves.
\<close>

fun dynarr_free_bufs :: "vsf_dynarr_table_t \<Rightarrow> nat \<Rightarrow> nat \<Rightarrow> vsf_heap_t \<Rightarrow> vsf_heap_t option" where
  "dynarr_free_bufs t i 0 h = Some h"
| "dynarr_free_bufs t i (Suc k) h = do {
     p \<leftarrow> t_buffer t i;
     h \<leftarrow> vsf_heap_free_imp p h;
     dynarr_free_bufs t (i + 1) k h}"

fun dynarr_free_tables :: "nat \<Rightarrow> nat \<Rightarrow> vsf_dynarr_table_t list \<Rightarrow> vsf_heap_t \<Rightarrow> vsf_heap_t option" where
  "dynarr_free_tables per_table buf_num_diff ts h =
     (if buf_num_diff = 0 then Some h
      else case ts of [] \<Rightarrow> None
      | t # ts \<Rightarrow> do {
          let k = min buf_num_diff per_table;
          h \<leftarrow> dynarr_free_bufs t 0 k h;
          h \<leftarrow> vsf_heap_free_imp (t_addr t) h;
          dynarr_free_tables per_table (buf_num_diff - k) ts h})"

declare dynarr_free_tables.simps [simp del]

fun dynarr_shrink ::
  "nat \<Rightarrow> nat \<Rightarrow> nat \<Rightarrow> ('a) vsf_dynarr_t_scheme \<Rightarrow> vsf_heap_t \<Rightarrow> (('a) vsf_dynarr_t_scheme \<times> vsf_heap_t) option" where
  "dynarr_shrink 0 buf_idx table d h = Some (d, h)"
| "dynarr_shrink (Suc buf_num_diff) buf_idx table d h =
     (let buf_idx = buf_idx + 1
      in if buf_num_per_table d \<le> buf_idx
         then do {
           h \<leftarrow> dynarr_free_tables (buf_num_per_table d) (Suc buf_num_diff) (drop table (table_list d)) h;
           Some (d\<lparr>table_list := take table (table_list d)\<rparr>, h)}
         else if 0 < table \<and> table \<le> length (table_list d)
         then do {
           p \<leftarrow> t_buffer (table_list d ! (table - 1)) buf_idx;
           h \<leftarrow> vsf_heap_free_imp p h;
           d \<leftarrow> dynarr_set_buffer table buf_idx null d;
           dynarr_shrink buf_num_diff buf_idx table d h}
         else None)"

text \<open>The entry and the table of a buffer; for \<open>- 1\<close> those in front of the first buffer.\<close>

definition dynarr_locate :: "('a) vsf_dynarr_t_scheme \<Rightarrow> int \<Rightarrow> nat \<times> nat option" where
  "dynarr_locate d buf_idx =
     (let table = p_vsf_dynarr_get_table d (nat (buf_idx mod 2 ^ 32))
      in if buf_idx < 0 then (buf_num_per_table d - 1, Some 0)
         else (nat buf_idx mod buf_num_per_table d, map_option Suc table))"

definition vsf_dynarr_set_size ::
  "nat \<Rightarrow> ('a) vsf_dynarr_t_scheme \<Rightarrow> vsf_heap_t \<Rightarrow> (vsf_err_t \<times> ('a) vsf_dynarr_t_scheme \<times> vsf_heap_t) option" where
  "vsf_dynarr_set_size sz d h =
     (let buf_num = buf_num_of d sz;
          buf_num_orig = buf_num_of d (da_length d);
          buf_num_diff = int buf_num - int buf_num_orig
      in if buf_num_diff = 0 then Some (VSF_ERR_NONE, d\<lparr>da_length := sz\<rparr>, h)
         else
           let buf_idx = (if 0 < buf_num_diff then int buf_num_orig - 1 else int buf_num - 1);
               d = d\<lparr>da_length := buf_num_orig * item_num_per_buf d\<rparr>;
               (buf_idx, table) = dynarr_locate d buf_idx
           in do {
                table \<leftarrow> table;
                (if 0 < buf_num_diff
                 then do {
                   (err, d, h) \<leftarrow> dynarr_grow (nat buf_num_diff) (buf_idx + 1) table d h;
                   Some (if err = VSF_ERR_NONE then (VSF_ERR_NONE, d\<lparr>da_length := sz\<rparr>, h) else (err, d, h))}
                 else do {
                   (d, h) \<leftarrow> dynarr_shrink (nat (- buf_num_diff)) buf_idx table d h;
                   Some (VSF_ERR_NONE, d\<lparr>da_length := sz\<rparr>, h)})})"

definition vsf_dynarr_get :: "('a) vsf_dynarr_t_scheme \<Rightarrow> nat \<Rightarrow> ptr option" where
  "vsf_dynarr_get d pos =
     (if pos < da_length d
      then let item_idx = pos mod item_num_per_buf d;
               pos = pos div item_num_per_buf d
           in case p_vsf_dynarr_get_table d pos of
                None \<Rightarrow> Some null
              | Some table \<Rightarrow> do {
                  p \<leftarrow> t_buffer (table_list d ! table) (pos mod buf_num_per_table d);
                  Some (p + 4 * (item_idx * item_size d div 4))}
      else Some null)"

definition vsf_dynarr_init :: "('a) vsf_dynarr_t_scheme \<Rightarrow> ('a) vsf_dynarr_t_scheme" where
  "vsf_dynarr_init d = d\<lparr>item_size := (item_size d + 3) div 4 * 4 mod 2 ^ 16, table_list := [], da_length := 0\<rparr>"

text \<open>Buffers are freed from the last entry of a table on.\<close>

fun dynarr_fini_bufs :: "vsf_dynarr_table_t \<Rightarrow> nat \<Rightarrow> vsf_heap_t \<Rightarrow> vsf_heap_t option" where
  "dynarr_fini_bufs t 0 h = Some h"
| "dynarr_fini_bufs t (Suc i) h = do {
     p \<leftarrow> t_buffer t i;
     h \<leftarrow> vsf_heap_free_imp p h;
     dynarr_fini_bufs t i h}"

fun dynarr_fini_tables :: "nat \<Rightarrow> nat \<Rightarrow> vsf_dynarr_table_t list \<Rightarrow> vsf_heap_t \<Rightarrow> vsf_heap_t option" where
  "dynarr_fini_tables per_table buf_num [] h = Some h"
| "dynarr_fini_tables per_table buf_num (t # ts) h = do {
     let k = min buf_num per_table;
     h \<leftarrow> dynarr_fini_bufs t k h;
     h \<leftarrow> vsf_heap_free_imp (t_addr t) h;
     dynarr_fini_tables per_table (buf_num - k) ts h}"

definition vsf_dynarr_fini :: "('a) vsf_dynarr_t_scheme \<Rightarrow> vsf_heap_t \<Rightarrow> (('a) vsf_dynarr_t_scheme \<times> vsf_heap_t) option" where
  "vsf_dynarr_fini d h = do {
     h \<leftarrow> dynarr_fini_tables (buf_num_per_table d) (buf_num_of d (da_length d)) (table_list d) h;
     Some (vsf_dynarr_init d, h)}"

section \<open>Stacks\<close>

record vsf_dynstack_t = vsf_dynarr_t +
  sp :: nat

definition vsf_dynstack_init :: "vsf_dynstack_t \<Rightarrow> vsf_dynstack_t" where
  "vsf_dynstack_init s = vsf_dynarr_init (s\<lparr>sp := 0\<rparr>)"

definition vsf_dynstack_reset :: "vsf_dynstack_t \<Rightarrow> vsf_heap_t \<Rightarrow> (vsf_dynstack_t \<times> vsf_heap_t) option" where
  "vsf_dynstack_reset s h = vsf_dynarr_fini (s\<lparr>sp := 0\<rparr>) h"

definition vsf_dynstack_fini :: "vsf_dynstack_t \<Rightarrow> vsf_heap_t \<Rightarrow> (vsf_dynstack_t \<times> vsf_heap_t) option" where
  "vsf_dynstack_fini s h = vsf_dynstack_reset s h"

definition vsf_dynstack_get :: "vsf_dynstack_t \<Rightarrow> nat \<Rightarrow> ptr option" where
  "vsf_dynstack_get s offset = (if sp s \<le> offset then Some null else vsf_dynarr_get s (sp s - offset - 1))"

definition vsf_dynstack_pop :: "vsf_dynstack_t \<Rightarrow> nat \<Rightarrow> (ptr \<times> vsf_dynstack_t) option" where
  "vsf_dynstack_pop s num =
     (if num \<le> sp s \<and> 0 < num
      then do {out \<leftarrow> vsf_dynstack_get s (num - 1); Some (out, s\<lparr>sp := sp s - num\<rparr>)}
      else Some (null, s))"

text \<open>
  The memory an item is copied from is the list of the bytes that can be read from the pointer on; a copy of more bytes
  or to a null pointer is an error.
\<close>

fun dynstack_fill :: "u8 list \<Rightarrow> vsf_dynstack_t \<Rightarrow> nat \<Rightarrow> vsf_heap_t \<Rightarrow> vsf_heap_t option" where
  "dynstack_fill item s 0 h = Some h"
| "dynstack_fill item s (Suc num) h = do {
     p \<leftarrow> vsf_dynstack_get s num;
     (if p = null \<or> length item < item_size s then None
      else dynstack_fill item s num (put_bytes p (take (item_size s) item) h))}"

definition vsf_dynstack_push ::
  "u8 list \<Rightarrow> nat \<Rightarrow> vsf_dynstack_t \<Rightarrow> vsf_heap_t \<Rightarrow> (vsf_err_t \<times> vsf_dynstack_t \<times> vsf_heap_t) option" where
  "vsf_dynstack_push item num s h = do {
     let stack_size = vsf_dynarr_get_size s;
     let need = (sp s + num) mod 2 ^ 32;
     (err, s, h) \<leftarrow> (if stack_size < need then vsf_dynarr_set_size need s h else Some (VSF_ERR_NONE, s, h));
     (if err \<noteq> VSF_ERR_NONE then Some (VSF_ERR_FAIL, s, h)
      else do {
        let s = s\<lparr>sp := need\<rparr>;
        h \<leftarrow> dynstack_fill item s num h;
        Some (VSF_ERR_NONE, s, h)})}"

fun dynstack_push_items ::
  "u8 list \<Rightarrow> nat \<Rightarrow> vsf_dynstack_t \<Rightarrow> vsf_heap_t \<Rightarrow> (vsf_err_t \<times> vsf_dynstack_t \<times> vsf_heap_t) option" where
  "dynstack_push_items item 0 s h = Some (VSF_ERR_NONE, s, h)"
| "dynstack_push_items item (Suc num) s h = do {
     (err, s, h) \<leftarrow> vsf_dynstack_push item 1 s h;
     (if err \<noteq> VSF_ERR_NONE then Some (VSF_ERR_FAIL, s, h)
      else dynstack_push_items (drop (4 * (item_size s div 4)) item) num s h)}"

definition vsf_dynstack_push_ext ::
  "u8 list \<Rightarrow> nat \<Rightarrow> vsf_dynstack_t \<Rightarrow> vsf_heap_t \<Rightarrow> (vsf_err_t \<times> vsf_dynstack_t \<times> vsf_heap_t) option" where
  "vsf_dynstack_push_ext buf len s h =
     (let num = (len + 3) div 4; words = item_size s div 4
      in if words = 0 then None else dynstack_push_items buf ((num + words - 1) div words) s h)"

text \<open>
  The words that are popped are written from the end of the destination on: the accumulator has the bytes that are
  written already. An item gives its words from \<open>i\<close> down to 0.
\<close>

definition get_bytes :: "vsf_heap_t \<Rightarrow> ptr \<Rightarrow> nat \<Rightarrow> u8 list" where
  "get_bytes h p n = map (hp_bytes h) [p..<p + n]"

function dynstack_pop_words ::
  "nat \<Rightarrow> nat \<Rightarrow> u8 list \<Rightarrow> vsf_heap_t \<Rightarrow> vsf_dynstack_t \<Rightarrow> (vsf_err_t \<times> u8 list \<times> vsf_dynstack_t) option" where
  "dynstack_pop_words words num acc h s =
     (if num = 0 then Some (VSF_ERR_NONE, acc, s)
      else do {
        (out, s) \<leftarrow> vsf_dynstack_pop s 1;
        (if out = null then Some (VSF_ERR_FAIL, acc, s)
         else if words = 0 then None
         else let k = (if num mod words \<noteq> 0 then num mod words else words)
              in dynstack_pop_words words (num - k) (get_bytes h out (4 * k) @ acc) h s)})"
  by pat_completeness auto
termination by (relation "measure (\<lambda>(_, num, _). num)") (auto split: if_splits)

declare dynstack_pop_words.simps [simp del]

definition vsf_dynstack_pop_ext :: "nat \<Rightarrow> vsf_dynstack_t \<Rightarrow> vsf_heap_t \<Rightarrow> (vsf_err_t \<times> u8 list \<times> vsf_dynstack_t) option" where
  "vsf_dynstack_pop_ext len s h = dynstack_pop_words (item_size s div 4) ((len + 3) div 4) [] h s"

end
