(* ===== verification/VSF_Dynarr_Correct.thy ===== *)
theory VSF_Dynarr_Correct
  imports VSF_Dynarr "HOL-Library.Multiset"
begin

text \<open>
  Correctness of the dynamic arrays and stacks: an array owns its tables and buffers among the blocks of the heap, every
  change of the size keeps this and the items, and a stack on top of it gives back what was pushed.
\<close>

section \<open>Tables and the blocks they own\<close>

text \<open>Freeing a list of blocks.\<close>

fun free_all :: "ptr list \<Rightarrow> vsf_heap_t \<Rightarrow> vsf_heap_t option" where
  "free_all [] h = Some h"
| "free_all (p # ps) h = do {h \<leftarrow> vsf_heap_free_imp p h; free_all ps h}"

lemma free_all_append: "free_all (xs @ ys) h = do {h \<leftarrow> free_all xs h; free_all ys h}"
  by (induction xs arbitrary: h) (auto split: Option.bind_splits)

lemma heap_rep_unique: "heap_rep a h L \<Longrightarrow> (b, n) \<in> L \<Longrightarrow> (b, m) \<in> L \<Longrightarrow> n = m"
proof -
  assume "heap_rep a h L" and b: "(b, n) \<in> L" "(b, m) \<in> L"
  then obtain xs where xs: "heap_wf h a xs" "L = usable ` lives a xs" unfolding heap_rep_def by blast
  then obtain x k y l where "(x, k) \<in> lives a xs" "(y, l) \<in> lives a xs" "b = x + 12" "b = y + 12" "n = 4 * k - 12" "m = 4 * l - 12"
    using b by (auto simp: usable_def)
  moreover from this have "k = l" using lives_size [OF xs(1)] by (metis add_right_cancel)
  ultimately show "n = m" by simp
qed

lemma free_all_ok:
  assumes "heap_rep a h L" "distinct ps" "set ps \<subseteq> fst ` L"
  shows "\<exists>h'. free_all ps h = Some h' \<and> heap_rep a h' {x \<in> L. fst x \<notin> set ps} \<and> hp_bytes h' = hp_bytes h"
  using assms
proof (induction ps arbitrary: h L)
  case (Cons p ps)
  then obtain n where n: "(p, n) \<in> L" by auto
  obtain h1 where h1: "vsf_heap_free_imp p h = Some h1" "heap_rep a h1 (L - {(p, n)})" "hp_bytes h1 = hp_bytes h"
    using heap_rep_free [OF Cons.prems(1) n] by blast
  have L: "L - {(p, n)} = {x \<in> L. fst x \<noteq> p}"
  proof (rule set_eqI)
    fix x show "(x \<in> L - {(p, n)}) = (x \<in> {x \<in> L. fst x \<noteq> p})"
      using heap_rep_unique [OF Cons.prems(1) n, of "snd x"] by (cases x) auto
  qed
  have "set ps \<subseteq> fst ` (L - {(p, n)})" 
  proof
    fix q assume q: "q \<in> set ps"
    then obtain k where "(q, k) \<in> L" using Cons.prems(3) by auto
    moreover have "q \<noteq> p" using q Cons.prems(2) by auto
    ultimately show "q \<in> fst ` (L - {(p, n)})" by (intro image_eqI [of _ _ "(q, k)"]) auto
  qed
  then obtain h2 where "free_all ps h1 = Some h2" "heap_rep a h2 {x \<in> L - {(p, n)}. fst x \<notin> set ps}" "hp_bytes h2 = hp_bytes h1"
    using Cons.IH [OF h1(2)] Cons.prems(2) by auto
  moreover have "{x \<in> L - {(p, n)}. fst x \<notin> set ps} = {x \<in> L. fst x \<notin> set (p # ps)}" unfolding L by auto
  ultimately show ?case using h1 by auto
qed simp

text \<open>The address of the buffer with a number, the blocks of the tables and of the first \<open>n\<close> buffers, and the blocks of others.\<close>

definition tb_entry :: "nat \<Rightarrow> vsf_dynarr_table_t list \<Rightarrow> nat \<Rightarrow> ptr option" where
  "tb_entry P ts i = (if i div P < length ts then t_buffer (ts ! (i div P)) (i mod P) else None)"

definition tb_ptrs :: "nat \<Rightarrow> nat \<Rightarrow> vsf_dynarr_table_t list \<Rightarrow> ptr list" where
  "tb_ptrs P n ts = map t_addr ts @ map (the \<circ> tb_entry P ts) [0..<n]"

definition tb_rest :: "(ptr \<times> nat) set \<Rightarrow> nat \<Rightarrow> nat \<Rightarrow> vsf_dynarr_table_t list \<Rightarrow> (ptr \<times> nat) set" where
  "tb_rest L P n ts = {x \<in> L. fst x \<notin> set (tb_ptrs P n ts)}"

text \<open>
  The invariant for \<open>n\<close> buffers of at least \<open>bs\<close> bytes: there are just enough tables, the entries are written, and tables
  and buffers are blocks of the heap that differ from each other.
\<close>

definition tb_own :: "nat \<Rightarrow> (ptr \<times> nat) set \<Rightarrow> nat \<Rightarrow> nat \<Rightarrow> vsf_dynarr_table_t list \<Rightarrow> bool" where
  "tb_own bs L P n ts \<longleftrightarrow> n \<le> length ts * P \<and> length ts * P < n + P \<and> (\<forall>i < n. tb_entry P ts i \<noteq> None)
     \<and> distinct (tb_ptrs P n ts) \<and> (\<forall>t \<in> set ts. t_addr t \<in> fst ` L) \<and> (\<forall>i < n. \<exists>m. (the (tb_entry P ts i), m) \<in> L \<and> bs \<le> m)"

lemma tb_index:
  fixes P :: nat
  assumes "n = k * P + j" "j < P"
  shows "n div P = k" "n mod P = j"
  using assms by auto

lemma tb_entry_Cons:
  assumes "0 < P"
  shows "tb_entry P (t # ts) i = (if i < P then t_buffer t i else tb_entry P ts (i - P))"
proof (cases "i < P")
  case False
  then have "i div P = Suc ((i - P) div P)" "(i - P) mod P = i mod P" using assms by (simp_all add: le_div_geq le_mod_geq)
  then show ?thesis using False by (simp add: tb_entry_def)
qed (simp add: tb_entry_def)

lemma tb_entry_drop:
  assumes "0 < P" "k \<le> length ts"
  shows "tb_entry P (drop k ts) i = tb_entry P ts (k * P + i)"
  using assms by (auto simp: tb_entry_def less_diff_conv add.commute)

lemma tb_entry_append:
  assumes "i < length ts * P"
  shows "tb_entry P (ts @ us) i = tb_entry P ts i"
  using assms less_mult_imp_div_less [OF assms] by (simp add: tb_entry_def nth_append)

lemma tb_entry_take:
  assumes "i < k * P" "k \<le> length ts"
  shows "tb_entry P (take k ts) i = tb_entry P ts i"
  using tb_entry_append [of i "take k ts" P "drop k ts"] assms by simp

lemma tb_entry_update:
  assumes "k < length ts" "j < P"
  shows "tb_entry P (ts[k := t\<lparr>t_buffer := (t_buffer (ts ! k))(j \<mapsto> p)\<rparr>]) i = (if i = k * P + j then Some p else tb_entry P ts i)"
proof (cases "i div P = k")
  case True
  then have "(i = k * P + j) = (i mod P = j)" using assms(2) by (metis div_mult_mod_eq mod_mult_self3 mod_less)
  then show ?thesis using True assms(1) by (simp add: tb_entry_def)
next
  case False
  then have "i \<noteq> k * P + j" using tb_index [of i k P j] assms(2) by auto
  then show ?thesis using False by (simp add: tb_entry_def nth_list_update)
qed

lemma set_tb_ptrs: "set (tb_ptrs P n ts) = t_addr ` set ts \<union> (the \<circ> tb_entry P ts) ` {..<n}"
  by (auto simp: tb_ptrs_def)

lemma tb_own_sub: "tb_own bs L P n ts \<Longrightarrow> set (tb_ptrs P n ts) \<subseteq> fst ` L"
  unfolding tb_own_def set_tb_ptrs by force

lemma tb_own_mono: "tb_own bs L P n ts \<Longrightarrow> L \<subseteq> L' \<Longrightarrow> tb_own bs L' P n ts"
  unfolding tb_own_def by blast


lemma tb_own_step:
  assumes own: "tb_own bs L P n ts" and addrs: "map t_addr ts' = map t_addr ts @ us"
    and old: "\<forall>i < n. tb_entry P ts' i = tb_entry P ts i" and new: "tb_entry P ts' n = Some b"
    and len: "Suc n \<le> length ts' * P" "length ts' * P < Suc n + P"
    and N: "fst ` N = set (b # us)" "(b, m) \<in> N" "bs \<le> m" and fresh: "distinct (b # us)" "set (b # us) \<inter> fst ` L = {}"
  shows "tb_own bs (L \<union> N) P (Suc n) ts'" "tb_rest (L \<union> N) P (Suc n) ts' = tb_rest L P n ts"
proof -
  have "map (the \<circ> tb_entry P ts') [0..<n] = map (the \<circ> tb_entry P ts) [0..<n]" using old by simp
  then have ptrs: "tb_ptrs P (Suc n) ts' = map t_addr ts @ us @ map (the \<circ> tb_entry P ts) [0..<n] @ [b]"
    using new by (simp add: tb_ptrs_def addrs)
  have ps: "set (tb_ptrs P (Suc n) ts') = set (tb_ptrs P n ts) \<union> set (b # us)" by (subst ptrs) (auto simp: tb_ptrs_def)
  have sub: "set (tb_ptrs P n ts) \<subseteq> fst ` L" by (rule tb_own_sub [OF own])
  have d: "distinct (tb_ptrs P n ts)" using own by (simp add: tb_own_def)
  have "set (b # us) \<inter> set (tb_ptrs P n ts) = {}" using sub fresh(2) by blast
  then have d': "distinct (tb_ptrs P (Suc n) ts')" using d fresh(1) by (subst ptrs) (auto simp: tb_ptrs_def)
  have "t_addr t \<in> fst ` (L \<union> N)" if "t \<in> set ts'" for t
  proof -
    have "t_addr t \<in> set (map t_addr ts @ us)" using that unfolding addrs [symmetric] by simp
    then show ?thesis using own N(1) unfolding tb_own_def image_Un by auto
  qed
  moreover have "tb_entry P ts' i \<noteq> None \<and> (\<exists>m. (the (tb_entry P ts' i), m) \<in> L \<union> N \<and> bs \<le> m)" if "i < Suc n" for i
    using that old new N(2,3) own unfolding tb_own_def by (cases "i = n") (auto simp: less_Suc_eq)
  ultimately show "tb_own bs (L \<union> N) P (Suc n) ts'" using len d' unfolding tb_own_def by blast
  have "fst x \<in> set (b # us)" if "x \<in> N" for x using N(1) that by blast
  moreover have "fst x \<notin> set (b # us)" if "x \<in> L" for x using fresh(2) that by blast
  ultimately show "tb_rest (L \<union> N) P (Suc n) ts' = tb_rest L P n ts" unfolding tb_rest_def ps by blast
qed

text \<open>The blocks of the first \<open>k\<close> buffers and of the tables, table by table.\<close>

fun tab_list :: "nat \<Rightarrow> nat \<Rightarrow> vsf_dynarr_table_t list \<Rightarrow> ptr list" where
  "tab_list P k [] = []"
| "tab_list P k (t # ts) = map (the \<circ> t_buffer t) [0..<min k P] @ t_addr t # tab_list P (k - min k P) ts"

lemma tab_list_mset:
  assumes "0 < P" "k \<le> length ts * P"
  shows "mset (tab_list P k ts) = mset (tb_ptrs P k ts)"
  using assms(2)
proof (induction ts arbitrary: k)
  case (Cons t ts)
  have "map (the \<circ> tb_entry P (t # ts)) [0..<min k P] = map (the \<circ> t_buffer t) [0..<min k P]"
    using assms(1) by (simp add: tb_entry_Cons)
  moreover have "map (the \<circ> tb_entry P (t # ts)) [min k P..<k] = map (the \<circ> tb_entry P ts) [0..<k - min k P]"
    using assms(1) by (intro nth_equalityI) (auto simp: tb_entry_Cons min_def)
  moreover have "[0..<k] = [0..<min k P] @ [min k P..<k]" by (metis min.cobounded1 upt_add_eq_append zero_le le_add_diff_inverse add_0)
  ultimately have "map (the \<circ> tb_entry P (t # ts)) [0..<k] = map (the \<circ> t_buffer t) [0..<min k P] @ map (the \<circ> tb_entry P ts) [0..<k - min k P]"
    by simp
  moreover have "k - min k P \<le> length ts * P" using Cons.prems by simp
  ultimately show ?case using Cons.IH [of "k - min k P"] by (simp add: tb_ptrs_def)
qed (simp add: tb_ptrs_def)

lemma free_bufs_all:
  assumes "\<forall>j. i \<le> j \<and> j < i + k \<longrightarrow> t_buffer t j \<noteq> None"
  shows "dynarr_free_bufs t i k h = free_all (map (the \<circ> t_buffer t) [i..<i + k]) h"
  using assms
proof (induction k arbitrary: i h)
  case (Suc k)
  obtain p where "t_buffer t i = Some p" using Suc.prems by (metis le_refl less_add_same_cancel1 not_None_eq zero_less_Suc)
  moreover have "dynarr_free_bufs t (i + 1) k h = free_all (map (the \<circ> t_buffer t) [i + 1..<i + 1 + k]) h" for h
    using Suc.prems by (intro Suc.IH) auto
  moreover have "[i..<i + Suc k] = i # [i + 1..<i + 1 + k]" by (simp add: upt_conv_Cons)
  ultimately show ?case by (cases "vsf_heap_free_imp p h") (simp_all add: comp_def del: upt_Suc)
qed simp

lemma fini_bufs_all:
  assumes "\<forall>j < k. t_buffer t j \<noteq> None"
  shows "dynarr_fini_bufs t k h = free_all (map (the \<circ> t_buffer t) (rev [0..<k])) h"
  using assms
proof (induction k arbitrary: h)
  case (Suc k)
  moreover obtain p where "t_buffer t k = Some p" using Suc.prems by blast
  ultimately show ?case by (cases "vsf_heap_free_imp p h") simp_all
qed simp

lemma tb_entries_Cons:
  assumes "0 < P" "\<forall>i < k. tb_entry P (t # ts) i \<noteq> None"
  shows "\<forall>j < min k P. t_buffer t j \<noteq> None" "\<forall>i < k - min k P. tb_entry P ts i \<noteq> None"
proof -
  show "\<forall>j < min k P. t_buffer t j \<noteq> None" using assms by (metis min_less_iff_conj tb_entry_Cons)
  have "tb_entry P ts i \<noteq> None" if "i < k - min k P" for i
    using assms(2) [rule_format, of "i + P"] assms(1) that by (simp add: tb_entry_Cons min_def split: if_splits)
  then show "\<forall>i < k - min k P. tb_entry P ts i \<noteq> None" by blast
qed

lemma free_tables_all:
  assumes "0 < P" "k \<le> length ts * P" "length ts * P < k + P" "\<forall>i < k. tb_entry P ts i \<noteq> None"
  shows "dynarr_free_tables P k ts h = free_all (tab_list P k ts) h"
  using assms(2-)
proof (induction ts arbitrary: k h)
  case (Cons t ts)
  have k: "0 < k" using Cons.prems(2) assms(1) by (cases k) auto
  note e = tb_entries_Cons [OF assms(1) Cons.prems(3)]
  have "P + length ts * P < k + P" "k \<le> P + length ts * P" using Cons.prems(1,2) by simp_all
  then have "length ts * P < k - min k P + P" "k - min k P \<le> length ts * P" by linarith+
  then have "dynarr_free_tables P (k - min k P) ts = free_all (tab_list P (k - min k P) ts)"
    using e(2) by (intro ext Cons.IH)
  then show ?case using k e(1) free_bufs_all [of 0 "min k P" t]
    by (subst dynarr_free_tables.simps) (simp add: free_all_append Let_def)
qed (simp add: dynarr_free_tables.simps)

lemma fini_tables_all:
  assumes "0 < P" "\<forall>i < k. tb_entry P ts i \<noteq> None"
  shows "\<exists>ps. mset ps = mset (tab_list P k ts) \<and> dynarr_fini_tables P k ts = free_all ps"
  using assms(2)
proof (induction ts arbitrary: k)
  case (Cons t ts)
  note e = tb_entries_Cons [OF assms(1) Cons.prems]
  obtain ps where ps: "mset ps = mset (tab_list P (k - min k P) ts)" "dynarr_fini_tables P (k - min k P) ts = free_all ps"
    using Cons.IH [OF e(2)] by blast
  let ?qs = "map (the \<circ> t_buffer t) (rev [0..<min k P]) @ t_addr t # ps"
  have "mset ?qs = mset (tab_list P k (t # ts))" using ps(1) by (simp flip: rev_map)
  moreover have "dynarr_fini_tables P k (t # ts) = free_all ?qs"
    using ps(2) fini_bufs_all [OF e(1)] by (intro ext) (simp add: free_all_append Let_def)
  ultimately show ?case by blast
qed (auto intro: ext)


section \<open>Growing and shrinking\<close>

definition kept :: "(ptr \<times> nat) set \<Rightarrow> vsf_heap_t \<Rightarrow> vsf_heap_t \<Rightarrow> bool" where
  "kept L h h' \<longleftrightarrow> (\<forall>c m i. (c, m) \<in> L \<longrightarrow> c \<le> i \<longrightarrow> i < c + m \<longrightarrow> hp_bytes h' i = hp_bytes h i)"

lemma kept_refl [simp]: "kept L h h"
  by (simp add: kept_def)

lemma kept_trans: "kept L h h1 \<Longrightarrow> kept L' h1 h2 \<Longrightarrow> L \<subseteq> L' \<Longrightarrow> kept L h h2"
  unfolding kept_def by (metis subsetD)

definition sizes_ok :: "('a) vsf_dynarr_t_scheme \<Rightarrow> bool" where
  "sizes_ok d \<longleftrightarrow> dynarr_table_size d + 3 < 2 ^ 32 \<and> dynarr_buffer_size d + 3 < 2 ^ 32"

lemma malloc_cases:
  assumes "heap_rep a h L" "n + 3 < 2 ^ 32"
  obtains (null) "vsf_heap_malloc_imp (of_nat n) h = Some (null, h)"
  | (block) b k h' where "vsf_heap_malloc_imp (of_nat n) h = Some (b, h')" "b \<noteq> null" "b \<notin> fst ` L" "n \<le> k"
      "heap_rep a h' (insert (b, k) L)" "kept L h h'"
proof -
  have "unat (of_nat n :: u32) = n" using assms(2) by (simp add: unsigned_of_nat take_bit_nat_eq_self)
  then show ?thesis using heap.malloc [OF assms(1), of "of_nat n"] assms(2) that unfolding kept_def by auto
qed

text \<open>One round of the loop: it fails and leaves the array as it is, or one buffer has been added.\<close>

definition grown ::
  "ptr \<Rightarrow> ('a) vsf_dynarr_t_scheme \<Rightarrow> nat \<Rightarrow> (ptr \<times> nat) set \<Rightarrow> vsf_heap_t \<Rightarrow> nat \<Rightarrow> vsf_dynarr_table_t list \<Rightarrow> vsf_heap_t \<Rightarrow>
   (ptr \<times> nat) set \<Rightarrow> bool" where
  "grown a d n L h k ts' h' L' \<longleftrightarrow>
     (let P = buf_num_per_table d; ts = table_list d
      in heap_rep a h' L' \<and> tb_own (dynarr_buffer_size d) L' P (n + k) ts' \<and> tb_rest L' P (n + k) ts' = tb_rest L P n ts
         \<and> (\<forall>i < n. tb_entry P ts' i = tb_entry P ts i) \<and> L \<subseteq> L' \<and> kept L h h')"

definition grow_round :: "ptr \<Rightarrow> ('a) vsf_dynarr_t_scheme \<Rightarrow> nat \<Rightarrow> (ptr \<times> nat) set \<Rightarrow> vsf_heap_t \<Rightarrow> nat \<Rightarrow> nat \<Rightarrow> bool" where
  "grow_round a d n L h diff buf_idx \<longleftrightarrow>
     (\<exists>h'. dynarr_grow (Suc diff) buf_idx (length (table_list d)) d h = Some (VSF_ERR_NOT_ENOUGH_RESOURCES, d, h')
        \<and> grown a d n L h 0 (table_list d) h' L)
   \<or> (\<exists>idx ts1 h1 L1. dynarr_grow (Suc diff) buf_idx (length (table_list d)) d h
          = dynarr_grow diff (idx + 1) (length ts1) (d\<lparr>table_list := ts1, da_length := da_length d + item_num_per_buf d\<rparr>) h1
        \<and> idx + length ts1 * buf_num_per_table d = n + buf_num_per_table d \<and> grown a d n L h 1 ts1 h1 L1)"

lemma grow_in_table:
  assumes h: "heap_rep a h L" and own: "tb_own (dynarr_buffer_size d) L (buf_num_per_table d) n (table_list d)" and sz: "sizes_ok d"
    and idx: "buf_idx + length (table_list d) * buf_num_per_table d = n + buf_num_per_table d" "buf_idx \<noteq> buf_num_per_table d"
  shows "grow_round a d n L h diff buf_idx"
proof -
  let ?P = "buf_num_per_table d" and ?ts = "table_list d" and ?bs = "dynarr_buffer_size d"
  have len: "n \<le> length ?ts * ?P" "length ?ts * ?P < n + ?P" using own by (simp_all add: tb_own_def)
  have bs: "?bs + 3 < 2 ^ 32" using sz by (simp add: sizes_ok_def)
  show ?thesis using h bs
  proof (cases rule: malloc_cases)
    case null
    then show ?thesis using idx(2) h own by (simp add: grow_round_def grown_def)
  next
    case (block b k h1)
    define j where "j = length ?ts - 1"
    have "?ts \<noteq> []" using idx len(1) by auto
    then have j: "length ?ts = Suc j" by (simp add: j_def)
    have n: "n = j * ?P + buf_idx" "buf_idx < ?P" using idx len by (simp_all add: j)
    let ?ts1 = "?ts[j := (?ts ! j)\<lparr>t_buffer := (t_buffer (?ts ! j))(buf_idx \<mapsto> b)\<rparr>]"
    have e: "tb_entry ?P ?ts1 i = (if i = n then Some b else tb_entry ?P ?ts i)" for i
      using tb_entry_update [of j ?ts buf_idx ?P] j n by simp
    have addrs: "map t_addr ?ts1 = map t_addr ?ts @ []" using j by (intro nth_equalityI) (auto simp: nth_list_update)
    have old: "\<forall>i < n. tb_entry ?P ?ts1 i = tb_entry ?P ?ts i" and new: "tb_entry ?P ?ts1 n = Some b" using e by simp_all
    note S = tb_own_step [OF own addrs old new, of "{(b, k)}" k]
    have "tb_own ?bs (insert (b, k) L) ?P (Suc n) ?ts1" "tb_rest (insert (b, k) L) ?P (Suc n) ?ts1 = tb_rest L ?P n ?ts"
      using S n j block(3,4) len by simp_all
    then have "grown a d n L h 1 ?ts1 h1 (insert (b, k) L)" using block(5,6) old by (auto simp: grown_def)
    moreover have "dynarr_grow (Suc diff) buf_idx (length ?ts) d h
      = dynarr_grow diff (buf_idx + 1) (length ?ts1) (d\<lparr>table_list := ?ts1, da_length := da_length d + item_num_per_buf d\<rparr>) h1"
      using block(1,2) idx(2) j by (simp add: dynarr_set_buffer_def Let_def)
    ultimately show ?thesis unfolding grow_round_def using idx(1)
      by (intro disjI2 exI [of _ buf_idx] exI [of _ ?ts1] exI [of _ h1] exI [of _ "insert (b, k) L"]) simp
  qed
qed

lemma grow_new_table:
  assumes h: "heap_rep a h L" and own: "tb_own (dynarr_buffer_size d) L (buf_num_per_table d) n (table_list d)" and sz: "sizes_ok d"
    and n: "n = length (table_list d) * buf_num_per_table d"
  shows "grow_round a d n L h diff (buf_num_per_table d)"
proof -
  let ?P = "buf_num_per_table d" and ?ts = "table_list d" and ?bs = "dynarr_buffer_size d"
  have sz: "dynarr_table_size d + 3 < 2 ^ 32" "?bs + 3 < 2 ^ 32" using sz by (simp_all add: sizes_ok_def)
  show ?thesis using h sz(1)
  proof (cases rule: malloc_cases)
    case null
    then show ?thesis using h own by (simp add: grow_round_def grown_def)
  next
    case t: (block t k h1)
    show ?thesis using t(5) sz(2)
    proof (cases rule: malloc_cases)
      case null
      obtain h2 where h2: "vsf_heap_free_imp t h1 = Some h2" "heap_rep a h2 (insert (t, k) L - {(t, k)})" "hp_bytes h2 = hp_bytes h1"
        using heap_rep_free [OF t(5), of t k] by auto
      have "insert (t, k) L - {(t, k)} = L" using t(3) by force
      moreover have "kept L h h2" using t(6) h2(3) by (simp add: kept_def)
      ultimately show ?thesis using h2 t(1,2) null own by (simp add: grow_round_def grown_def)
    next
      case (block b m h2)
      let ?ts1 = "?ts @ [\<lparr>t_addr = t, t_buffer = [0 \<mapsto> b]\<rparr>]" and ?L = "L \<union> {(b, m), (t, k)}"
      have e: "\<forall>i < n. tb_entry ?P ?ts1 i = tb_entry ?P ?ts i" unfolding n by (intro allI impI tb_entry_append)
      have e': "tb_entry ?P ?ts1 n = Some b" by (simp add: tb_entry_def n)
      have addrs: "map t_addr ?ts1 = map t_addr ?ts @ [t]" by simp
      note S = tb_own_step [OF own addrs e e', of "{(b, m), (t, k)}" m]
      have "tb_own ?bs ?L ?P (Suc n) ?ts1" "tb_rest ?L ?P (Suc n) ?ts1 = tb_rest L ?P n ?ts" using S n block(3,4) t(3) by auto
      moreover have "kept L h h2" using kept_trans [OF t(6) block(6)] by blast
      moreover have "heap_rep a h2 ?L" using block(5) by (simp add: insert_commute)
      ultimately have "grown a d n L h 1 ?ts1 h2 ?L" using e by (auto simp: grown_def)
      moreover have "dynarr_grow (Suc diff) ?P (length ?ts) d h
        = dynarr_grow diff (0 + 1) (length ?ts1) (d\<lparr>table_list := ?ts1, da_length := da_length d + item_num_per_buf d\<rparr>) h2"
        using block(1,2) t(1,2) by (simp add: dynarr_set_buffer_def Let_def nth_append)
      ultimately show ?thesis unfolding grow_round_def using n
        by (intro disjI2 exI [of _ 0] exI [of _ ?ts1] exI [of _ h2] exI [of _ ?L]) simp
    qed
  qed
qed

lemma grow_ok:
  assumes "heap_rep a h L" "tb_own (dynarr_buffer_size d) L (buf_num_per_table d) n (table_list d)" "sizes_ok d"
    "buf_idx + length (table_list d) * buf_num_per_table d = n + buf_num_per_table d"
  shows "\<exists>err ts' k h' L'. dynarr_grow diff buf_idx (length (table_list d)) d h
      = Some (err, d\<lparr>table_list := ts', da_length := da_length d + k * item_num_per_buf d\<rparr>, h')
    \<and> (err = VSF_ERR_NONE \<and> k = diff \<or> err = VSF_ERR_NOT_ENOUGH_RESOURCES \<and> k < diff) \<and> grown a d n L h k ts' h' L'"
  using assms
proof (induction diff arbitrary: d h L n buf_idx)
  case 0
  then show ?case
    by (intro exI [of _ VSF_ERR_NONE] exI [of _ "table_list d"] exI [of _ 0] exI [of _ h] exI [of _ L]) (simp add: grown_def)
next
  case (Suc diff)
  have "grow_round a d n L h diff buf_idx"
    using grow_in_table [OF Suc.prems] grow_new_table [OF Suc.prems(1-3)] Suc.prems(4) by (cases "buf_idx = buf_num_per_table d") auto
  then consider h' where "dynarr_grow (Suc diff) buf_idx (length (table_list d)) d h = Some (VSF_ERR_NOT_ENOUGH_RESOURCES, d, h')"
      "grown a d n L h 0 (table_list d) h' L"
    | idx ts1 h1 L1 where "dynarr_grow (Suc diff) buf_idx (length (table_list d)) d h
        = dynarr_grow diff (idx + 1) (length ts1) (d\<lparr>table_list := ts1, da_length := da_length d + item_num_per_buf d\<rparr>) h1"
      "idx + length ts1 * buf_num_per_table d = n + buf_num_per_table d" "grown a d n L h 1 ts1 h1 L1"
    unfolding grow_round_def by blast
  then show ?case
  proof cases
    case 1
    then show ?thesis
      by (intro exI [of _ VSF_ERR_NOT_ENOUGH_RESOURCES] exI [of _ "table_list d"] exI [of _ 0] exI [of _ h'] exI [of _ L]) simp
  next
    case (2 idx ts1 h1 L1)
    let ?d = "d\<lparr>table_list := ts1, da_length := da_length d + item_num_per_buf d\<rparr>"
    have d: "heap_rep a h1 L1" "tb_own (dynarr_buffer_size ?d) L1 (buf_num_per_table ?d) (Suc n) (table_list ?d)" "sizes_ok ?d"
      "idx + 1 + length (table_list ?d) * buf_num_per_table ?d = Suc n + buf_num_per_table ?d"
      using 2(2,3) Suc.prems(3) by (simp_all add: dynarr_buffer_size_def sizes_ok_def dynarr_table_size_def grown_def Let_def)
    obtain err ts' k h' L' where g: "dynarr_grow diff (idx + 1) (length ts1) ?d h1
        = Some (err, ?d\<lparr>table_list := ts', da_length := da_length ?d + k * item_num_per_buf d\<rparr>, h')"
      "err = VSF_ERR_NONE \<and> k = diff \<or> err = VSF_ERR_NOT_ENOUGH_RESOURCES \<and> k < diff" "grown a ?d (Suc n) L1 h1 k ts' h' L'"
      using Suc.IH [OF d] by auto
    have "grown a d n L h (Suc k) ts' h' L'" using g(3) 2(3) kept_trans [of L h h1 L1 h']
      by (auto simp: grown_def dynarr_buffer_size_def Let_def)
    then show ?thesis using 2(1) g
      by (intro exI [of _ err] exI [of _ ts'] exI [of _ "Suc k"] exI [of _ h'] exI [of _ L']) (auto simp: add.assoc)
  qed
qed


lemma shrink_tables:
  assumes P: "0 < P" and len: "table \<le> length ts" "table * P + k \<le> length ts * P" "length ts * P < table * P + k + P"
    and e: "\<forall>i. table * P \<le> i \<and> i < table * P + k \<longrightarrow> tb_entry P ts i \<noteq> None"
  shows "\<exists>ps. dynarr_free_tables P k (drop table ts) = free_all ps
    \<and> mset ps = mset (map (the \<circ> tb_entry P ts) [table * P..<table * P + k] @ map t_addr (drop table ts))"
proof -
  let ?ts = "drop table ts"
  have entry: "tb_entry P ?ts i = tb_entry P ts (table * P + i)" for i using P len(1) by (rule tb_entry_drop)
  have l: "length ?ts * P = length ts * P - table * P" by (simp add: diff_mult_distrib)
  then have c: "k \<le> length ?ts * P" "length ?ts * P < k + P" using len(2,3) P by linarith+
  have "\<forall>i < k. tb_entry P ?ts i \<noteq> None" using e by (simp add: entry)
  then have "dynarr_free_tables P k ?ts = free_all (tab_list P k ?ts)" using free_tables_all [OF P c] by blast
  moreover have "map (the \<circ> tb_entry P ?ts) [0..<k] = map (the \<circ> tb_entry P ts) [table * P..<table * P + k]"
    by (rule nth_equalityI) (simp_all add: entry)
  then have "mset (tab_list P k ?ts) = mset (map (the \<circ> tb_entry P ts) [table * P..<table * P + k] @ map t_addr ?ts)"
    unfolding tab_list_mset [OF P c(1)] tb_ptrs_def by (simp only: mset_append union_commute)
  ultimately show ?thesis by blast
qed

lemma dynarr_shrink_ok:
  assumes "buf_idx + 1 + table * buf_num_per_table d = m + buf_num_per_table d" "buf_idx < buf_num_per_table d" "table \<le> length (table_list d)"
    "m + diff \<le> length (table_list d) * buf_num_per_table d" "length (table_list d) * buf_num_per_table d < m + diff + buf_num_per_table d"
    "\<forall>i. m \<le> i \<and> i < m + diff \<longrightarrow> tb_entry (buf_num_per_table d) (table_list d) i \<noteq> None"
  shows "\<exists>ts' ps. (\<forall>h. dynarr_shrink diff buf_idx table d h = do {h \<leftarrow> free_all ps h; Some (d\<lparr>table_list := ts'\<rparr>, h)})
    \<and> mset ps = mset (map (the \<circ> tb_entry (buf_num_per_table d) (table_list d)) [m..<m + diff] @ map t_addr (drop table (table_list d)))
    \<and> map t_addr ts' = map t_addr (take table (table_list d))
    \<and> (\<forall>i < m. tb_entry (buf_num_per_table d) ts' i = tb_entry (buf_num_per_table d) (table_list d) i)"
  using assms
proof (induction diff arbitrary: d m buf_idx)
  case 0
  then have "length (table_list d) * buf_num_per_table d < Suc table * buf_num_per_table d" by simp
  then have "length (table_list d) < Suc table" by (rule mult_less_cancel2 [THEN iffD1, THEN conjunct2])
  then show ?case using 0 by (intro exI [of _ "table_list d"] exI [of _ "[]"]) simp
next
  case (Suc diff)
  let ?P = "buf_num_per_table d" and ?ts = "table_list d"
  have P: "0 < ?P" by simp
  show ?case
  proof (cases "?P \<le> buf_idx + 1")
    case True
    then have m: "m = table * ?P" using Suc.prems(1,2) by simp
    obtain ps where "dynarr_free_tables ?P (Suc diff) (drop table ?ts) = free_all ps"
      "mset ps = mset (map (the \<circ> tb_entry ?P ?ts) [m..<m + Suc diff] @ map t_addr (drop table ?ts))"
      using shrink_tables [OF P Suc.prems(3), of "Suc diff"] Suc.prems(4-6) unfolding m by blast
    moreover have "\<forall>i < m. tb_entry ?P (take table ?ts) i = tb_entry ?P ?ts i"
      using Suc.prems(3) unfolding m by (intro allI impI tb_entry_take)
    ultimately show ?thesis using True by (intro exI [of _ "take table ?ts"] exI [of _ ps]) (simp add: Let_def comp_def)
  next
    case False
    define j where "j = table - 1"
    have "table \<noteq> 0" using False Suc.prems(1) by (intro notI) simp
    then have j: "table = Suc j" by (simp add: j_def)
    have m: "m = j * ?P + (buf_idx + 1)" using Suc.prems(1) j by simp
    have b: "buf_idx + 1 < ?P" "j < length ?ts" using False Suc.prems(3) j by simp_all
    have "tb_entry ?P ?ts m \<noteq> None" using Suc.prems(6) by simp
    then obtain p where p: "tb_entry ?P ?ts m = Some p" by blast
    then have p': "t_buffer (?ts ! j) (buf_idx + 1) = Some p" using tb_index [OF m b(1)] b(2) by (simp add: tb_entry_def)
    define ts1 where "ts1 = ?ts[j := (?ts ! j)\<lparr>t_buffer := (t_buffer (?ts ! j))(buf_idx + 1 \<mapsto> null)\<rparr>]"
    let ?d = "d\<lparr>table_list := ts1\<rparr>"
    have e: "tb_entry ?P ts1 i = (if i = m then Some null else tb_entry ?P ?ts i)" for i
      using tb_entry_update [OF b(2,1)] m by (simp add: ts1_def)
    have addrs: "map t_addr ts1 = map t_addr ?ts" using b(2) by (intro nth_equalityI) (auto simp: ts1_def nth_list_update)
    have "length ts1 = length ?ts" by (simp add: ts1_def)
    then have prems: "buf_idx + 1 + 1 + table * buf_num_per_table ?d = Suc m + buf_num_per_table ?d" "buf_idx + 1 < buf_num_per_table ?d"
      "table \<le> length (table_list ?d)" "Suc m + diff \<le> length (table_list ?d) * buf_num_per_table ?d"
      "length (table_list ?d) * buf_num_per_table ?d < Suc m + diff + buf_num_per_table ?d"
      "\<forall>i. Suc m \<le> i \<and> i < Suc m + diff \<longrightarrow> tb_entry (buf_num_per_table ?d) (table_list ?d) i \<noteq> None"
      using Suc.prems b(1) by (simp_all add: e)
    obtain ts' ps where r: "\<And>h. dynarr_shrink diff (buf_idx + 1) table ?d h = do {h \<leftarrow> free_all ps h; Some (?d\<lparr>table_list := ts'\<rparr>, h)}"
      "mset ps = mset (map (the \<circ> tb_entry ?P ts1) [Suc m..<Suc m + diff] @ map t_addr (drop table ts1))"
      "map t_addr ts' = map t_addr (take table ts1)" "\<forall>i < Suc m. tb_entry ?P ts' i = tb_entry ?P ts1 i"
      using Suc.IH [OF prems] by (elim exE conjE) (rule that; simp add: comp_def del: upt_Suc)
    have "dynarr_shrink (Suc diff) buf_idx table d h = do {h \<leftarrow> free_all (p # ps) h; Some (d\<lparr>table_list := ts'\<rparr>, h)}" for h
      using False p' b(2) j r(1) by (simp add: dynarr_set_buffer_def Let_def ts1_def)
    moreover have "mset (p # ps) = mset (map (the \<circ> tb_entry ?P ?ts) [m..<m + Suc diff] @ map t_addr (drop table ?ts))"
    proof -
      have u: "[m..<m + Suc diff] = m # [Suc m..<Suc m + diff]" by (simp add: upt_conv_Cons)
      have "map (the \<circ> tb_entry ?P ts1) [Suc m..<Suc m + diff] = map (the \<circ> tb_entry ?P ?ts) [Suc m..<Suc m + diff]" by (simp add: e)
      moreover have "map t_addr (drop table ts1) = map t_addr (drop table ?ts)" using addrs by (simp add: drop_map [symmetric])
      ultimately show ?thesis using r(2) p unfolding u by (simp only: list.map comp_apply option.sel mset.simps append_Cons)
    qed
    moreover have "map t_addr ts' = map t_addr (take table ?ts)" using r(3) addrs by (simp add: take_map [symmetric])
    moreover have "\<forall>i < m. tb_entry ?P ts' i = tb_entry ?P ?ts i" using r(4) by (simp add: e)
    ultimately show ?thesis by blast
  qed
qed


section \<open>The invariant of an array\<close>

definition dynarr_ok :: "(ptr \<times> nat) set \<Rightarrow> ('a) vsf_dynarr_t_scheme \<Rightarrow> bool" where
  "dynarr_ok L d \<longleftrightarrow> sizes_ok d \<and> da_length d + item_num_per_buf d \<le> 2 ^ 31
     \<and> tb_own (dynarr_buffer_size d) L (buf_num_per_table d) (buf_num_of d (da_length d)) (table_list d)"

definition dynarr_rest :: "(ptr \<times> nat) set \<Rightarrow> ('a) vsf_dynarr_t_scheme \<Rightarrow> (ptr \<times> nat) set" where
  "dynarr_rest L d = tb_rest L (buf_num_per_table d) (buf_num_of d (da_length d)) (table_list d)"

lemma buf_num_eq:
  assumes "sz + item_num_per_buf d \<le> 2 ^ 32"
  shows "buf_num_of d sz = (sz + item_num_per_buf d - 1) div item_num_per_buf d"
proof -
  have "0 < item_num_per_buf d" by simp
  then have "sz + item_num_per_buf d - 1 < 2 ^ 32" using assms by linarith
  then show ?thesis by (simp add: buf_num_of_def)
qed

lemma buf_num_bounds:
  assumes "sz + item_num_per_buf d \<le> 2 ^ 31"
  shows "sz \<le> buf_num_of d sz * item_num_per_buf d" "buf_num_of d sz * item_num_per_buf d < sz + item_num_per_buf d"
proof -
  let ?K = "item_num_per_buf d" and ?n = "buf_num_of d sz"
  have K: "0 < ?K" by simp
  have n: "?n = (sz + ?K - 1) div ?K" using assms by (intro buf_num_eq) simp
  have "?n * ?K \<le> sz + ?K - 1" unfolding n by (rule div_times_less_eq_dividend)
  then show "?n * ?K < sz + ?K" using K by linarith
  have "sz + ?K - 1 < ?n * ?K + ?K" unfolding n by (subst add.commute [of _ ?K]) (rule dividend_less_div_times [OF K])
  then show "sz \<le> ?n * ?K" by linarith
qed

lemma buf_num_mult:
  assumes "m * item_num_per_buf d + item_num_per_buf d \<le> 2 ^ 32"
  shows "buf_num_of d (m * item_num_per_buf d) = m"
  unfolding buf_num_eq [OF assms] by (rule tb_index(1) [of _ _ _ "item_num_per_buf d - 1"]) simp_all

lemma buf_count_small:
  assumes "n * 2 ^ k + 2 ^ k \<le> (2 ^ 32 :: nat)"
  shows "n < 2 ^ 32"
proof -
  have "n * 1 \<le> n * 2 ^ k" by (rule mult_le_mono2) simp
  also have "n * 2 ^ k < n * 2 ^ k + 2 ^ k" by simp
  also note assms
  finally show ?thesis by simp
qed

lemma buf_num_mono:
  assumes "x \<le> y" "y + item_num_per_buf d \<le> 2 ^ 31"
  shows "buf_num_of d x \<le> buf_num_of d y"
  using assms by (simp add: buf_num_eq div_le_mono diff_le_mono)

lemma buf_num_upd [simp]: "buf_num_of (d\<lparr>table_list := ts\<rparr>) = buf_num_of d" "buf_num_of (d\<lparr>da_length := l\<rparr>) = buf_num_of d"
  by (rule ext, simp add: buf_num_of_def)+

lemma sizes_upd [simp]:
  "dynarr_buffer_size (d\<lparr>table_list := ts\<rparr>) = dynarr_buffer_size d" "dynarr_buffer_size (d\<lparr>da_length := l\<rparr>) = dynarr_buffer_size d"
  "sizes_ok (d\<lparr>table_list := ts\<rparr>) = sizes_ok d" "sizes_ok (d\<lparr>da_length := l\<rparr>) = sizes_ok d"
  by (simp_all add: sizes_ok_def dynarr_buffer_size_def dynarr_table_size_def)

lemma tb_count_unique:
  fixes P :: nat
  assumes "n \<le> l * P" "l * P < n + P" "n \<le> t * P" "t * P < n + P"
  shows "l = t"
proof -
  have "l * P < Suc t * P" "t * P < Suc l * P" using assms by simp_all
  then show ?thesis by (metis less_antisym mult_less_cancel2 not_less_eq)
qed

text \<open>Where the last of the first \<open>m\<close> buffers is: the entry and the position of its table plus 1.\<close>

lemma locate:
  assumes n: "p_vsf_dynarr_get_buf_num d = n" "n < 2 ^ 32" "n \<le> length (table_list d) * buf_num_per_table d" and m: "m \<le> n"
  obtains idx table where
    "dynarr_locate d (int m - 1) = (idx, Some table)"
    "idx < buf_num_per_table d" "idx + 1 + table * buf_num_per_table d = m + buf_num_per_table d" "table \<le> length (table_list d)"
proof (cases "m = 0")
  case True
  then show ?thesis using that [of "buf_num_per_table d - 1" 0] by (simp add: dynarr_locate_def Let_def)
next
  case False
  let ?P = "buf_num_per_table d"
  have i: "nat (int m - 1) = m - 1" "nat ((int m - 1) mod 2 ^ 32) = m - 1" "\<not> int m - 1 < 0" using False m n(2) by simp_all
  have t: "(m - 1) div ?P < length (table_list d)" using False m n(3) by (intro less_mult_imp_div_less) simp
  then have "p_vsf_dynarr_get_table d (m - 1) = Some ((m - 1) div ?P)" using False m n(1) by (simp add: p_vsf_dynarr_get_table_def)
  moreover have "(m - 1) mod ?P + 1 + Suc ((m - 1) div ?P) * ?P = m + ?P" using False div_mult_mod_eq [of "m - 1" ?P] by simp
  ultimately show ?thesis using that [of "(m - 1) mod ?P" "Suc ((m - 1) div ?P)"] i t by (simp add: dynarr_locate_def Let_def)
qed


lemma array_count:
  assumes "da_length d + item_num_per_buf d \<le> 2 ^ 31" "n = buf_num_of d (da_length d)"
  shows "p_vsf_dynarr_get_buf_num (d\<lparr>da_length := n * item_num_per_buf d\<rparr>) = n" "n < 2 ^ 32"
proof -
  have "n * item_num_per_buf d + item_num_per_buf d \<le> 2 ^ 32" using buf_num_bounds(2) [OF assms(1)] assms by simp
  then show "p_vsf_dynarr_get_buf_num (d\<lparr>da_length := n * item_num_per_buf d\<rparr>) = n" "n < 2 ^ 32"
    using buf_num_mult [of n d] buf_count_small by (simp_all add: p_vsf_dynarr_get_buf_num_def)
qed

text \<open>What a change of the size leaves as it is: the parameters of the array, its first \<open>n\<close> buffers and the blocks of others.\<close>

definition resized ::
  "ptr \<Rightarrow> nat \<Rightarrow> (ptr \<times> nat) set \<Rightarrow> ('a) vsf_dynarr_t_scheme \<Rightarrow> vsf_heap_t \<Rightarrow> (ptr \<times> nat) set \<Rightarrow> ('a) vsf_dynarr_t_scheme \<Rightarrow> vsf_heap_t \<Rightarrow> bool" where
  "resized a n L d h L' d' h' \<longleftrightarrow> d' = d\<lparr>table_list := table_list d', da_length := da_length d'\<rparr>
     \<and> heap_rep a h' L' \<and> dynarr_ok L' d' \<and> dynarr_rest L' d' = dynarr_rest L d \<and> kept (L \<inter> L') h h'
     \<and> (\<forall>i < n. tb_entry (buf_num_per_table d) (table_list d') i = tb_entry (buf_num_per_table d) (table_list d) i)"

lemma set_size_grow:
  assumes h: "heap_rep a h L" and ok: "dynarr_ok L d" and sz: "sz + item_num_per_buf d \<le> 2 ^ 31"
    and more: "buf_num_of d (da_length d) < buf_num_of d sz"
  shows "\<exists>err d' h' L'. vsf_dynarr_set_size sz d h = Some (err, d', h') \<and> da_length d \<le> da_length d'
    \<and> (err = VSF_ERR_NONE \<and> da_length d' = sz \<or> err = VSF_ERR_NOT_ENOUGH_RESOURCES)
    \<and> L \<subseteq> L' \<and> resized a (buf_num_of d (da_length d)) L d h L' d' h'"
proof -
  let ?P = "buf_num_per_table d" and ?K = "item_num_per_buf d" and ?ts = "table_list d"
  define n n2 where "n = buf_num_of d (da_length d)" and "n2 = buf_num_of d sz"
  define d0 where "d0 = d\<lparr>da_length := n * ?K\<rparr>"
  have F: "buf_num_per_table d0 = ?P" "table_list d0 = ?ts" by (simp_all add: d0_def)
  have own: "tb_own (dynarr_buffer_size d) L ?P n ?ts" and l: "da_length d + ?K \<le> 2 ^ 31" and so: "sizes_ok d"
    using ok by (simp_all add: dynarr_ok_def n_def)
  have len: "n \<le> length ?ts * ?P" "length ?ts * ?P < n + ?P" using own by (simp_all add: tb_own_def)
  have B: "da_length d \<le> n * ?K" "n2 * ?K < sz + ?K" "n < n2"
    using buf_num_bounds [OF l] buf_num_bounds [OF sz] more by (simp_all add: n_def n2_def)
  have mult: "m * ?K + ?K \<le> 2 ^ 31" if "m < n2" for m
    using mult_le_mono1 [of "Suc m" n2 ?K] that B(2) sz by simp
  have "p_vsf_dynarr_get_buf_num d0 = n" "n < 2 ^ 32" unfolding d0_def by (rule array_count [OF l n_def])+
  then obtain idx table where T: "dynarr_locate d0 (int n - 1) = (idx, Some table)" "idx < ?P" "idx + 1 + table * ?P = n + ?P"
    using locate [of d0 n n] len(1) unfolding F by blast
  have t: "table = length ?ts" using tb_count_unique [OF _ _ len, of table] T(2,3) by simp
  obtain err ts' k h' L' where g: "dynarr_grow (n2 - n) (idx + 1) table d0 h
      = Some (err, d0\<lparr>table_list := ts', da_length := n * ?K + k * ?K\<rparr>, h')"
    "err = VSF_ERR_NONE \<and> k = n2 - n \<or> err = VSF_ERR_NOT_ENOUGH_RESOURCES \<and> k < n2 - n" "grown a d0 n L h k ts' h' L'"
    using grow_ok [OF h, of d0 n "idx + 1" "n2 - n"] own so T(3) unfolding t by (auto simp: d0_def)
  define l' where "l' = (if err = VSF_ERR_NONE then sz else (n + k) * ?K)"
  have bn: "buf_num_of d l' = n + k" "l' + ?K \<le> 2 ^ 31"
  proof -
    have "(n + k) * ?K + ?K \<le> 2 ^ 31" if "err \<noteq> VSF_ERR_NONE" using mult g(2) that by auto
    moreover from this have "buf_num_of d ((n + k) * ?K) = n + k" if "err \<noteq> VSF_ERR_NONE" using that by (intro buf_num_mult) fastforce
    ultimately show "buf_num_of d l' = n + k" "l' + ?K \<le> 2 ^ 31" using g(2) B(3) sz by (auto simp: l'_def n2_def)
  qed
  have "da_length d \<le> sz" using buf_num_mono [OF _ l, of sz] more by (cases "da_length d \<le> sz") simp_all
  then have "da_length d \<le> l'" using B(1) by (auto simp: l'_def add_mult_distrib)
  moreover have "vsf_dynarr_set_size sz d h = Some (err, d\<lparr>table_list := ts', da_length := l'\<rparr>, h')"
    using T(1) g(1) B(3) unfolding vsf_dynarr_set_size_def n_def [symmetric] n2_def [symmetric] Let_def d0_def [symmetric]
    by (simp add: d0_def l'_def add_mult_distrib nat_diff_distrib')
  moreover have "resized a n L d h L' (d\<lparr>table_list := ts', da_length := l'\<rparr>) h'"
    using g(3) so bn by (auto simp: grown_def resized_def dynarr_ok_def dynarr_rest_def d0_def kept_def n_def [symmetric] Let_def)
  moreover have "L \<subseteq> L'" using g(3) by (simp add: grown_def Let_def)
  ultimately show ?thesis using g(2) unfolding n_def [symmetric] l'_def
    by (intro exI [of _ err] exI [of _ "d\<lparr>table_list := ts', da_length := l'\<rparr>"] exI [of _ h'] exI [of _ L']) (auto simp: l'_def)
qed


lemma tb_own_release:
  assumes h: "heap_rep a h L" and own: "tb_own bs L P n ts" and m: "m \<le> n" "m \<le> length ts' * P" "length ts' * P < m + P" "length ts' \<le> length ts"
    and ps: "mset ps = mset (map (the \<circ> tb_entry P ts) [m..<n] @ map t_addr (drop (length ts') ts))"
    and ts': "map t_addr ts' = map t_addr (take (length ts') ts)" "\<forall>i < m. tb_entry P ts' i = tb_entry P ts i"
  shows "\<exists>h'. free_all ps h = Some h' \<and> heap_rep a h' {x \<in> L. fst x \<notin> set ps} \<and> hp_bytes h' = hp_bytes h
    \<and> tb_own bs {x \<in> L. fst x \<notin> set ps} P m ts' \<and> tb_rest {x \<in> L. fst x \<notin> set ps} P m ts' = tb_rest L P n ts"
proof -
  let ?L = "{x \<in> L. fst x \<notin> set ps}"
  have e: "map (the \<circ> tb_entry P ts') [0..<m] = map (the \<circ> tb_entry P ts) [0..<m]" using ts'(2) by simp
  have "[0..<n] = [0..<m] @ [m..<n]" using m(1) by (metis le_add_diff_inverse upt_add_eq_append zero_le)
  moreover have "map t_addr ts = map t_addr ts' @ map t_addr (drop (length ts') ts)" unfolding ts'(1) by (metis append_take_drop_id map_append)
  ultimately have M: "mset (tb_ptrs P n ts) = mset (tb_ptrs P m ts' @ ps)"
    unfolding tb_ptrs_def mset_append ps e by (simp add: add.assoc add.left_commute add.commute)
  have "distinct (tb_ptrs P n ts)" using own by (simp add: tb_own_def)
  then have D: "distinct (tb_ptrs P m ts' @ ps)" using mset_eq_imp_distinct_iff [OF M] by simp
  have S: "set (tb_ptrs P n ts) = set (tb_ptrs P m ts') \<union> set ps" using mset_eq_setD [OF M] by simp
  then have sub: "set ps \<subseteq> fst ` L" using tb_own_sub [OF own] by blast
  have keep: "(p, k) \<in> ?L" if "(p, k) \<in> L" "p \<in> set (tb_ptrs P m ts')" for p k using that D by auto
  have entry: "the (tb_entry P ts' i) \<in> set (tb_ptrs P m ts')" if "i < m" for i using that by (auto simp: set_tb_ptrs)
  have "t_addr t \<in> fst ` ?L" if "t \<in> set ts'" for t
  proof -
    have "t_addr t \<in> set (tb_ptrs P m ts')" using that by (simp add: set_tb_ptrs)
    moreover from this obtain k where "(t_addr t, k) \<in> L" using tb_own_sub [OF own] S by auto
    ultimately show ?thesis using keep by (intro image_eqI [of _ _ "(t_addr t, k)"]) simp_all
  qed
  moreover have "tb_entry P ts' i \<noteq> None \<and> (\<exists>k. (the (tb_entry P ts' i), k) \<in> ?L \<and> bs \<le> k)" if i: "i < m" for i
  proof -
    obtain k where "tb_entry P ts i \<noteq> None" "(the (tb_entry P ts i), k) \<in> L" "bs \<le> k"
      using own i m(1) unfolding tb_own_def by (meson less_le_trans)
    then show ?thesis using keep [OF _ entry [OF i]] ts'(2) i by auto
  qed
  moreover have "distinct (tb_ptrs P m ts')" using D by simp
  ultimately have "tb_own bs ?L P m ts'" using m(2,3) unfolding tb_own_def by blast
  moreover have "tb_rest ?L P m ts' = tb_rest L P n ts" unfolding tb_rest_def S by auto
  moreover have "distinct ps" using D by simp
  ultimately show ?thesis using free_all_ok [OF h _ sub] by blast
qed

lemma set_size_shrink:
  assumes h: "heap_rep a h L" and ok: "dynarr_ok L d" and sz: "sz + item_num_per_buf d \<le> 2 ^ 31"
    and less: "buf_num_of d sz < buf_num_of d (da_length d)"
  shows "\<exists>d' h' L'. vsf_dynarr_set_size sz d h = Some (VSF_ERR_NONE, d', h') \<and> da_length d' = sz
    \<and> L' \<subseteq> L \<and> resized a (buf_num_of d sz) L d h L' d' h'"
proof -
  let ?P = "buf_num_per_table d" and ?K = "item_num_per_buf d" and ?ts = "table_list d"
  define n n2 where "n = buf_num_of d (da_length d)" and "n2 = buf_num_of d sz"
  define d0 where "d0 = d\<lparr>da_length := n * ?K\<rparr>"
  have F: "buf_num_per_table d0 = ?P" "table_list d0 = ?ts" by (simp_all add: d0_def)
  have own: "tb_own (dynarr_buffer_size d) L ?P n ?ts" and l: "da_length d + ?K \<le> 2 ^ 31" and so: "sizes_ok d"
    using ok by (simp_all add: dynarr_ok_def n_def)
  have len: "n \<le> length ?ts * ?P" "length ?ts * ?P < n + ?P" and e: "\<forall>i < n. tb_entry ?P ?ts i \<noteq> None" using own by (simp_all add: tb_own_def)
  have n: "n2 < n" using less by (simp add: n_def n2_def)
  have "p_vsf_dynarr_get_buf_num d0 = n" "n < 2 ^ 32" unfolding d0_def by (rule array_count [OF l n_def])+
  then obtain idx table where T: "dynarr_locate d0 (int n2 - 1) = (idx, Some table)" "idx < ?P" "idx + 1 + table * ?P = n2 + ?P" "table \<le> length ?ts"
    using locate [of d0 n n2] len(1) n unfolding F by auto
  obtain ts' ps where r: "\<And>h. dynarr_shrink (n - n2) idx table d0 h = do {h \<leftarrow> free_all ps h; Some (d0\<lparr>table_list := ts'\<rparr>, h)}"
    "mset ps = mset (map (the \<circ> tb_entry ?P ?ts) [n2..<n2 + (n - n2)] @ map t_addr (drop table ?ts))"
    "map t_addr ts' = map t_addr (take table ?ts)" "\<forall>i < n2. tb_entry ?P ts' i = tb_entry ?P ?ts i"
    using dynarr_shrink_ok [of idx table d0 n2 "n - n2"] T(2-4) len e n unfolding F by auto
  have t: "length ts' = table" using r(3) T(4) by (metis length_map length_take min.absorb2)
  have m: "n2 \<le> length ts' * ?P" "length ts' * ?P < n2 + ?P" "length ts' \<le> length ?ts" using T(2-4) t by simp_all
  let ?L = "{x \<in> L. fst x \<notin> set ps}" and ?d = "d\<lparr>table_list := ts', da_length := sz\<rparr>"
  obtain h' where h': "free_all ps h = Some h'" "heap_rep a h' ?L" "hp_bytes h' = hp_bytes h"
    "tb_own (dynarr_buffer_size d) ?L ?P n2 ts'" "tb_rest ?L ?P n2 ts' = tb_rest L ?P n ?ts"
    using tb_own_release [OF h own _ m, of ps] r(2-4) n unfolding t by auto
  have "vsf_dynarr_set_size sz d h = Some (VSF_ERR_NONE, ?d, h')"
    using T(1) r(1) h'(1) n unfolding vsf_dynarr_set_size_def n_def [symmetric] n2_def [symmetric] Let_def d0_def [symmetric]
    by (simp add: d0_def nat_diff_distrib')
  moreover have "resized a n2 L d h ?L ?d h'" using h'(2-5) r(4) so sz
    by (auto simp: resized_def dynarr_ok_def dynarr_rest_def kept_def n_def [symmetric] n2_def [symmetric])
  ultimately show ?thesis unfolding n2_def [symmetric] by (intro exI [of _ ?d] exI [of _ h'] exI [of _ ?L]) auto
qed


lemma get_entry:
  assumes ok: "dynarr_ok L d" and i: "i < da_length d"
  shows "i div item_num_per_buf d < buf_num_of d (da_length d)"
    "vsf_dynarr_get d i = map_option (\<lambda>p. p + 4 * (i mod item_num_per_buf d * item_size d div 4))
       (tb_entry (buf_num_per_table d) (table_list d) (i div item_num_per_buf d))"
proof -
  let ?j = "i div item_num_per_buf d" and ?P = "buf_num_per_table d"
  have l: "da_length d + item_num_per_buf d \<le> 2 ^ 31" using ok by (simp add: dynarr_ok_def)
  have "i < buf_num_of d (da_length d) * item_num_per_buf d" using buf_num_bounds(1) [OF l] i by linarith
  then show j: "?j < buf_num_of d (da_length d)" by (rule less_mult_imp_div_less)
  also have "\<dots> \<le> length (table_list d) * ?P" using ok by (simp add: dynarr_ok_def tb_own_def)
  finally have "?j div ?P < length (table_list d)" by (rule less_mult_imp_div_less)
  then show "vsf_dynarr_get d i = map_option (\<lambda>p. p + 4 * (i mod item_num_per_buf d * item_size d div 4)) (tb_entry ?P (table_list d) ?j)"
    using j i by (simp add: vsf_dynarr_get_def Let_def p_vsf_dynarr_get_table_def p_vsf_dynarr_get_buf_num_def tb_entry_def map_option_case
      split: option.splits bind_splits)
qed

lemma get_resized:
  assumes "dynarr_ok L d" "resized a n L d h L' d' h'" "i < da_length d" "i < da_length d'" "i div item_num_per_buf d < n"
  shows "vsf_dynarr_get d' i = vsf_dynarr_get d i"
proof -
  obtain ts l where d': "d' = d\<lparr>table_list := ts, da_length := l\<rparr>" and e: "\<forall>i < n. tb_entry (buf_num_per_table d) (table_list d') i = tb_entry (buf_num_per_table d) (table_list d) i"
    and ok: "dynarr_ok L' d'" using assms(2) unfolding resized_def by blast
  then show ?thesis using get_entry(2) [OF assms(1,3)] get_entry(2) [OF ok assms(4)] assms(5) by simp
qed

lemma set_size_ok:
  assumes "heap_rep a h L" "dynarr_ok L d" "sz + item_num_per_buf d \<le> 2 ^ 31"
  shows "\<exists>err d' h' L' m. vsf_dynarr_set_size sz d h = Some (err, d', h') \<and> resized a m L d h L' d' h'
    \<and> (err = VSF_ERR_NONE \<and> da_length d' = sz \<or> err = VSF_ERR_NOT_ENOUGH_RESOURCES \<and> da_length d \<le> da_length d')
    \<and> (da_length d \<le> sz \<longrightarrow> L \<subseteq> L') \<and> (\<forall>i < min (da_length d) (da_length d'). vsf_dynarr_get d' i = vsf_dynarr_get d i)"
proof -
  let ?n = "buf_num_of d (da_length d)" and ?n2 = "buf_num_of d sz"
  have l: "da_length d + item_num_per_buf d \<le> 2 ^ 31" using assms(2) by (simp add: dynarr_ok_def)
  have div: "i div item_num_per_buf d < buf_num_of d y" if "i < y" "y + item_num_per_buf d \<le> 2 ^ 31" for i y
    using buf_num_bounds(1) [OF that(2)] that(1) by (intro less_mult_imp_div_less) linarith
  have out: ?thesis if r: "vsf_dynarr_set_size sz d h = Some (err, d', h')" "resized a m L d h L' d' h'"
      "err = VSF_ERR_NONE \<and> da_length d' = sz \<or> err = VSF_ERR_NOT_ENOUGH_RESOURCES \<and> da_length d \<le> da_length d'" "m = ?n \<or> m = ?n2 \<and> da_length d' = sz"
      "da_length d \<le> sz \<longrightarrow> L \<subseteq> L'" for err d' h' L' m
  proof -
    have "vsf_dynarr_get d' i = vsf_dynarr_get d i" if "i < min (da_length d) (da_length d')" for i
      using get_resized [OF assms(2) r(2), of i] that r(4) div [of i "da_length d"] div [of i sz] l assms(3) by auto
    then show ?thesis using r by blast
  qed
  consider "?n < ?n2" | "?n2 < ?n" | "?n = ?n2" by linarith
  then show ?thesis
  proof cases
    case 1
    from set_size_grow [OF assms 1] show ?thesis using out by blast
  next
    case 2
    then have "\<not> da_length d \<le> sz" using buf_num_mono [OF _ assms(3), of "da_length d"] by linarith
    then show ?thesis using set_size_shrink [OF assms 2] out by blast
  next
    case 3
    then have "vsf_dynarr_set_size sz d h = Some (VSF_ERR_NONE, d\<lparr>da_length := sz\<rparr>, h)" by (simp add: vsf_dynarr_set_size_def)
    moreover have "resized a ?n L d h L (d\<lparr>da_length := sz\<rparr>) h" using assms 3 by (simp add: resized_def dynarr_ok_def dynarr_rest_def)
    ultimately show ?thesis using out [of VSF_ERR_NONE "d\<lparr>da_length := sz\<rparr>" h ?n L] by simp
  qed
qed

section \<open>The items of an array\<close>

text \<open>The buffers are large enough when a table has at least as many entries as a buffer has items.\<close>

definition slots_ok :: "('a) vsf_dynarr_t_scheme \<Rightarrow> bool" where
  "slots_ok d \<longleftrightarrow> 4 dvd item_size d \<and> 0 < item_size d \<and> item_num_per_buf d \<le> buf_num_per_table d"

lemma heap_rep_pos: "heap_rep a h L \<Longrightarrow> (b, n) \<in> L \<Longrightarrow> 0 < b"
  unfolding heap_rep_def by (auto simp: usable_def)

lemma get_slot:
  assumes "dynarr_ok L d" "slots_ok d" "i < da_length d"
  obtains b n where "tb_entry (buf_num_per_table d) (table_list d) (i div item_num_per_buf d) = Some b" "(b, n) \<in> L"
    "vsf_dynarr_get d i = Some (b + i mod item_num_per_buf d * item_size d)"
    "i mod item_num_per_buf d * item_size d + item_size d \<le> n"
proof -
  let ?P = "buf_num_per_table d" and ?K = "item_num_per_buf d" and ?j = "i div item_num_per_buf d" and ?o = "i mod item_num_per_buf d"
  note g = get_entry [OF assms(1,3)]
  obtain b where b: "tb_entry ?P (table_list d) ?j = Some b" using g(1) assms(1) by (force simp: dynarr_ok_def tb_own_def)
  obtain n where n: "(b, n) \<in> L" "?P * item_size d \<le> n"
    using g(1) b assms(1) by (force simp: dynarr_ok_def tb_own_def dynarr_buffer_size_def)
  have "?o < ?K" by simp
  moreover have "?K \<le> ?P" using assms(2) unfolding slots_ok_def by blast
  ultimately have "Suc ?o \<le> ?P" by linarith
  then have "Suc ?o * item_size d \<le> ?P * item_size d" by (rule mult_le_mono1)
  then have "?o * item_size d + item_size d \<le> n" using n(2) by simp
  moreover have "4 * (?o * item_size d div 4) = ?o * item_size d" using assms(2) by (simp add: slots_ok_def)
  ultimately show ?thesis using that [OF b n(1)] g(2) b by simp
qed

lemma slots_apart:
  assumes h: "heap_rep a h L" and ok: "dynarr_ok L d" "slots_ok d" and i: "i < da_length d" and j: "j < da_length d" "i \<noteq> j"
    and p: "vsf_dynarr_get d i = Some p" and q: "vsf_dynarr_get d j = Some q"
  shows "p + item_size d \<le> q \<or> q + item_size d \<le> p"
proof -
  let ?P = "buf_num_per_table d" and ?K = "item_num_per_buf d" and ?s = "item_size d"
  obtain b n where b: "tb_entry ?P (table_list d) (i div ?K) = Some b" "(b, n) \<in> L" "p = b + i mod ?K * ?s" "i mod ?K * ?s + ?s \<le> n"
    using get_slot [OF ok i] p by (metis option.inject)
  obtain c m where c: "tb_entry ?P (table_list d) (j div ?K) = Some c" "(c, m) \<in> L" "q = c + j mod ?K * ?s" "j mod ?K * ?s + ?s \<le> m"
    using get_slot [OF ok j(1)] q by (metis option.inject)
  show ?thesis
  proof (cases "i div ?K = j div ?K")
    case True
    then have "i mod ?K \<noteq> j mod ?K" using j(2) by (metis div_mult_mod_eq)
    then have "Suc (i mod ?K) \<le> j mod ?K \<or> Suc (j mod ?K) \<le> i mod ?K" by linarith
    then have "Suc (i mod ?K) * ?s \<le> j mod ?K * ?s \<or> Suc (j mod ?K) * ?s \<le> i mod ?K * ?s" using mult_le_mono1 by blast
    then show ?thesis using True b(1,3) c(1,3) by auto
  next
    case False
    have "distinct (tb_ptrs ?P (buf_num_of d (da_length d)) (table_list d))" using ok(1) by (simp add: dynarr_ok_def tb_own_def)
    then have "inj_on (the \<circ> tb_entry ?P (table_list d)) {0..<buf_num_of d (da_length d)}" by (simp add: tb_ptrs_def distinct_map)
    then have "b \<noteq> c" using False b(1) c(1) get_entry(1) [OF ok(1) i] get_entry(1) [OF ok(1) j(1)]
      by (metis (no_types, lifting) atLeastLessThan_iff comp_apply inj_onD option.sel zero_le)
    then have "b + n \<le> c \<or> c + m \<le> b" using heap.apart [OF h b(2) c(2)] by blast
    then show ?thesis using b(3,4) c(3,4) by linarith
  qed
qed

section \<open>The items of a stack\<close>

definition slot :: "('a) vsf_dynarr_t_scheme \<Rightarrow> nat \<Rightarrow> ptr" where
  "slot d i = the (vsf_dynarr_get d i)"

definition stack_items :: "vsf_dynstack_t \<Rightarrow> vsf_heap_t \<Rightarrow> u8 list list" where
  "stack_items s h = map (\<lambda>i. get_bytes h (slot s i) (item_size s)) [0..<sp s]"

definition stack_ok :: "ptr \<Rightarrow> (ptr \<times> nat) set \<Rightarrow> vsf_dynstack_t \<Rightarrow> vsf_heap_t \<Rightarrow> bool" where
  "stack_ok a L s h \<longleftrightarrow> heap_rep a h L \<and> dynarr_ok L s \<and> slots_ok s \<and> sp s \<le> da_length s"

lemma sp_upd [simp]:
  "slot (s\<lparr>sp := n\<rparr>) i = slot s i" "dynarr_ok L (s\<lparr>sp := n\<rparr>) = dynarr_ok L s" "slots_ok (s\<lparr>sp := n\<rparr>) = slots_ok s"
  "dynarr_rest L (s\<lparr>sp := n\<rparr>) = dynarr_rest L s"
proof -
  have b: "buf_num_of (s\<lparr>sp := n\<rparr>) = buf_num_of s" by (rule ext) (simp add: buf_num_of_def)
  show "slot (s\<lparr>sp := n\<rparr>) i = slot s i"
    by (simp add: slot_def vsf_dynarr_get_def p_vsf_dynarr_get_table_def p_vsf_dynarr_get_buf_num_def b Let_def)
  show "dynarr_ok L (s\<lparr>sp := n\<rparr>) = dynarr_ok L s" "slots_ok (s\<lparr>sp := n\<rparr>) = slots_ok s" "dynarr_rest L (s\<lparr>sp := n\<rparr>) = dynarr_rest L s"
    by (simp_all add: dynarr_ok_def slots_ok_def dynarr_rest_def sizes_ok_def dynarr_table_size_def dynarr_buffer_size_def b)
qed

lemma slot_get:
  assumes "stack_ok a L s h" "i < da_length s"
  shows "vsf_dynarr_get s i = Some (slot s i)" "slot s i \<noteq> null" "\<exists>b n. (b, n) \<in> L \<and> b \<le> slot s i \<and> slot s i + item_size s \<le> b + n"
proof -
  have ok: "heap_rep a h L" "dynarr_ok L s" "slots_ok s" using assms(1) by (simp_all add: stack_ok_def)
  obtain b n where b: "(b, n) \<in> L" "vsf_dynarr_get s i = Some (b + i mod item_num_per_buf s * item_size s)"
    "i mod item_num_per_buf s * item_size s + item_size s \<le> n" using get_slot [OF ok(2,3) assms(2)] by metis
  then have "slot s i = b + i mod item_num_per_buf s * item_size s" by (simp add: slot_def)
  then show "vsf_dynarr_get s i = Some (slot s i)" "slot s i \<noteq> null" using b heap_rep_pos [OF ok(1) b(1)] by simp_all
  show "\<exists>b n. (b, n) \<in> L \<and> b \<le> slot s i \<and> slot s i + item_size s \<le> b + n"
    using b by (intro exI [of _ b] exI [of _ n]) (simp add: slot_def)
qed

lemma get_bytes_put:
  "get_bytes (put_bytes p bs h) p (length bs) = bs"
  "q + n \<le> p \<or> p + length bs \<le> q \<Longrightarrow> get_bytes (put_bytes p bs h) q n = get_bytes h q n"
  by (auto simp: get_bytes_def put_bytes_def intro!: nth_equalityI)


lemma put_slot:
  assumes ok: "stack_ok a L s h" and i: "i < da_length s" and bs: "length bs = item_size s"
  shows "stack_ok a L s (put_bytes (slot s i) bs h)"
    "j < da_length s \<Longrightarrow> get_bytes (put_bytes (slot s i) bs h) (slot s j) (item_size s) = (if j = i then bs else get_bytes h (slot s j) (item_size s))"
proof -
  obtain b n where "(b, n) \<in> L" "b \<le> slot s i" "slot s i + length bs \<le> b + n" using slot_get(3) [OF ok i] bs by auto
  then show "stack_ok a L s (put_bytes (slot s i) bs h)" using heap.poke_rep ok unfolding stack_ok_def by blast
  show "get_bytes (put_bytes (slot s i) bs h) (slot s j) (item_size s) = (if j = i then bs else get_bytes h (slot s j) (item_size s))"
    if j: "j < da_length s"
  proof (cases "j = i")
    case True
    then show ?thesis using get_bytes_put(1) [of "slot s i" bs h] bs by simp
  next
    case False
    have "slot s j + item_size s \<le> slot s i \<or> slot s i + item_size s \<le> slot s j"
      using slots_apart [OF _ _ _ j i False] ok slot_get(1) [OF ok i] slot_get(1) [OF ok j] unfolding stack_ok_def by blast
    then show ?thesis using get_bytes_put(2) [of "slot s j" "item_size s" "slot s i" bs h] False bs by auto
  qed
qed

lemma get_bytes_kept:
  assumes "kept L h h'" "(b, n) \<in> L" "b \<le> p" "p + k \<le> b + n"
  shows "get_bytes h' p k = get_bytes h p k"
  using assms unfolding get_bytes_def kept_def by (intro map_cong) auto

text \<open>An array that has grown keeps the items of the stack.\<close>

lemma stack_grown:
  assumes ok: "stack_ok a L s h" and l: "sz + item_num_per_buf s \<le> 2 ^ 31" and more: "da_length s < sz"
  shows "\<exists>err s' h' L'. vsf_dynarr_set_size sz s h = Some (err, s', h') \<and> (err = VSF_ERR_NONE \<and> sz \<le> da_length s' \<or> err \<noteq> VSF_ERR_NONE)
    \<and> stack_ok a L' s' h' \<and> stack_items s' h' = stack_items s h \<and> sp s' = sp s \<and> item_size s' = item_size s
    \<and> item_num_per_buf_bitlen s' = item_num_per_buf_bitlen s \<and> dynarr_rest L' s' = dynarr_rest L s"
proof -
  have s: "heap_rep a h L" "dynarr_ok L s" "slots_ok s" "sp s \<le> da_length s" using ok by (simp_all add: stack_ok_def)
  obtain err s' h' L' m where r: "vsf_dynarr_set_size sz s h = Some (err, s', h')" "resized a m L s h L' s' h'"
    "err = VSF_ERR_NONE \<and> da_length s' = sz \<or> err = VSF_ERR_NOT_ENOUGH_RESOURCES \<and> da_length s \<le> da_length s'" "L \<subseteq> L'"
    "\<forall>i < min (da_length s) (da_length s'). vsf_dynarr_get s' i = vsf_dynarr_get s i"
    using set_size_ok [OF s(1,2) l] more by auto
  obtain ts where s': "s' = s\<lparr>table_list := ts, da_length := da_length s'\<rparr>" using r(2) unfolding resized_def by blast
  have f: "sp s' = sp s" "item_size s' = item_size s" "item_num_per_buf_bitlen s' = item_num_per_buf_bitlen s" "slots_ok s' = slots_ok s"
    by (subst s', simp add: slots_ok_def)+
  have len: "da_length s \<le> da_length s'" using r(3) more by auto
  have "kept L h h'" using r(2,4) unfolding resized_def by (simp add: Int_absorb2)
  then have bytes: "get_bytes h' (slot s i) (item_size s) = get_bytes h (slot s i) (item_size s)" if "i < da_length s" for i
    using slot_get(3) [OF ok that] get_bytes_kept by blast
  have "slot s' i = slot s i" if "i < da_length s" for i using r(5) len that by (simp add: slot_def)
  then have "stack_items s' h' = stack_items s h" using bytes s(4) f by (simp add: stack_items_def)
  moreover have "stack_ok a L' s' h'" using r(2) f s(3,4) len by (simp add: stack_ok_def resized_def)
  moreover have "dynarr_rest L' s' = dynarr_rest L s" using r(2) by (simp add: resized_def)
  moreover have "err = VSF_ERR_NONE \<and> sz \<le> da_length s' \<or> err \<noteq> VSF_ERR_NONE" using r(3) by auto
  ultimately show ?thesis using r(1) f by blast
qed

text \<open>
  Pushing copies of an item: it fails and keeps the items, or the copies are on top.
\<close>

lemma fill_ok:
  assumes "stack_ok a L s h" "num \<le> sp s" "item_size s \<le> length item"
  shows "\<exists>h'. dynstack_fill item s num h = Some h' \<and> stack_ok a L s h'
    \<and> stack_items s h' = take (sp s - num) (stack_items s h) @ replicate num (take (item_size s) item)"
  using assms(1,2)
proof (induction num arbitrary: h)
  case 0
  then show ?case by (simp add: stack_items_def)
next
  case (Suc num)
  define i where "i = sp s - num - 1"
  have i: "i < sp s" "i < da_length s" "sp s - num = Suc i" using Suc.prems by (auto simp: i_def stack_ok_def)
  let ?x = "take (item_size s) item"
  have x: "length ?x = item_size s" using assms(3) by simp
  define h1 where "h1 = put_bytes (slot s i) ?x h"
  have ok1: "stack_ok a L s h1" unfolding h1_def by (rule put_slot(1) [OF Suc.prems(1) i(2) x])
  have g: "vsf_dynstack_get s num = Some (slot s i)" "slot s i \<noteq> null"
    using slot_get(1,2) [OF Suc.prems(1) i(2)] Suc.prems(2) by (simp_all add: vsf_dynstack_get_def i_def)
  have "stack_items s h1 = (stack_items s h)[i := ?x]"
  proof (rule nth_equalityI)
    fix j assume "j < length (stack_items s h1)"
    then have "j < sp s" "j < da_length s" using Suc.prems(1) by (simp_all add: stack_items_def stack_ok_def)
    then show "stack_items s h1 ! j = (stack_items s h)[i := ?x] ! j"
      using put_slot(2) [OF Suc.prems(1) i(2) x, of j] by (simp add: stack_items_def h1_def nth_list_update)
  qed (simp add: stack_items_def)
  then have t: "take (Suc i) (stack_items s h1) = take i (stack_items s h) @ [?x]"
    using i(1) by (simp add: take_Suc_conv_app_nth stack_items_def)
  obtain h' where h': "dynstack_fill item s num h1 = Some h'" "stack_ok a L s h'"
    "stack_items s h' = take (Suc i) (stack_items s h1) @ replicate num ?x"
    using Suc.IH [OF ok1] Suc.prems(2) i(3) by auto
  have "sp s - Suc num = i" using i(3) by simp
  then show ?case using g h' t assms(3) by (simp add: h1_def)
qed

lemma push_ok:
  assumes ok: "stack_ok a L s h" and n: "sp s + num + item_num_per_buf s \<le> 2 ^ 31" and item: "item_size s \<le> length item"
  shows "\<exists>err s' h' L'. vsf_dynstack_push item num s h = Some (err, s', h') \<and> stack_ok a L' s' h' \<and> dynarr_rest L' s' = dynarr_rest L s
    \<and> item_size s' = item_size s \<and> item_num_per_buf_bitlen s' = item_num_per_buf_bitlen s
    \<and> (err = VSF_ERR_NONE \<and> sp s' = sp s + num \<and> stack_items s' h' = stack_items s h @ replicate num (take (item_size s) item)
       \<or> err = VSF_ERR_FAIL \<and> sp s' = sp s \<and> stack_items s' h' = stack_items s h)"
proof -
  have need: "(sp s + num) mod 2 ^ 32 = sp s + num" using n by simp
  define grow where "grow = (if vsf_dynarr_get_size s < sp s + num then vsf_dynarr_set_size (sp s + num) s h else Some (VSF_ERR_NONE, s, h))"
  obtain err s1 h1 L1 where r: "grow = Some (err, s1, h1)" "err = VSF_ERR_NONE \<and> sp s + num \<le> da_length s1 \<or> err \<noteq> VSF_ERR_NONE" "stack_ok a L1 s1 h1"
    "stack_items s1 h1 = stack_items s h" "sp s1 = sp s" "item_size s1 = item_size s" "item_num_per_buf_bitlen s1 = item_num_per_buf_bitlen s"
    "dynarr_rest L1 s1 = dynarr_rest L s"
  proof (cases "da_length s < sp s + num")
    case True
    then have g: "grow = vsf_dynarr_set_size (sp s + num) s h" by (simp add: grow_def vsf_dynarr_get_size_def)
    show ?thesis using stack_grown [OF ok n True, folded g] by (elim exE conjE) (rule that; assumption)
  next
    case False
    then show ?thesis using that [of VSF_ERR_NONE s h L] ok by (simp add: grow_def vsf_dynarr_get_size_def)
  qed
  show ?thesis
  proof (cases "err = VSF_ERR_NONE")
    case False
    then show ?thesis using r need by (intro exI [of _ VSF_ERR_FAIL] exI [of _ s1] exI [of _ h1] exI [of _ L1])
      (simp add: vsf_dynstack_push_def grow_def [symmetric] Let_def)
  next
    case True
    let ?s = "s1\<lparr>sp := sp s + num\<rparr>"
    have "stack_ok a L1 ?s h1" "dynarr_rest L1 ?s = dynarr_rest L1 s1" using r(2,3) True by (simp_all add: stack_ok_def)
    moreover have "take (sp s) (stack_items ?s h1) = stack_items s1 h1" using r(5) by (simp add: stack_items_def take_map)
    ultimately obtain h' where "dynstack_fill item ?s num h1 = Some h'" "stack_ok a L1 ?s h'"
      "stack_items ?s h' = stack_items s1 h1 @ replicate num (take (item_size s) item)" "dynarr_rest L1 ?s = dynarr_rest L1 s1"
      using fill_ok [of a L1 ?s h1 num item] item r(6) by auto
    then show ?thesis using True r need by (intro exI [of _ VSF_ERR_NONE] exI [of _ ?s] exI [of _ h'] exI [of _ L1])
      (simp add: vsf_dynstack_push_def grow_def [symmetric] Let_def)
  qed
qed


lemma pop_one:
  assumes ok: "stack_ok a L s h" and x: "stack_items s h = xs @ [x]"
  obtains p s' where "vsf_dynstack_pop s 1 = Some (p, s')" "p \<noteq> null" "get_bytes h p (item_size s) = x" "stack_ok a L s' h" "stack_items s' h = xs"
    "s' = s\<lparr>sp := sp s - 1\<rparr>" "dynarr_rest L s' = dynarr_rest L s"
proof -
  have "length (stack_items s h) = Suc (length xs)" using x by simp
  then have n: "sp s = Suc (length xs)" by (simp add: stack_items_def)
  define s' where "s' = s\<lparr>sp := length xs\<rparr>"
  have i: "length xs < da_length s" using ok n by (simp add: stack_ok_def)
  have pop: "vsf_dynstack_pop s 1 = Some (slot s (length xs), s')"
    using slot_get(1) [OF ok i] n by (simp add: vsf_dynstack_pop_def vsf_dynstack_get_def s'_def)
  have items: "stack_items s h = stack_items s' h @ [get_bytes h (slot s (length xs)) (item_size s)]"
    using n by (simp add: stack_items_def s'_def)
  have "stack_ok a L s' h" "dynarr_rest L s' = dynarr_rest L s" using ok n by (simp_all add: s'_def stack_ok_def)
  then show ?thesis using that [OF pop slot_get(2) [OF ok i]] x items n by (simp add: s'_def)
qed

text \<open>A sequence of items that are pushed one by one, and the words of the topmost items.\<close>

definition chunks :: "nat \<Rightarrow> nat \<Rightarrow> u8 list \<Rightarrow> u8 list list" where
  "chunks n k bs = map (\<lambda>i. take n (drop (i * n) bs)) [0..<k]"

lemma chunks_Suc: "chunks n (Suc k) bs = take n bs # chunks n k (drop n bs)"
  by (simp add: chunks_def upt_conv_Cons map_Suc_upt [symmetric] add.commute del: upt_Suc)

lemma concat_chunks: "k * n \<le> length bs \<Longrightarrow> concat (chunks n k bs) = take (k * n) bs"
  by (induction k arbitrary: bs) (simp_all add: chunks_Suc take_add add.commute, simp add: chunks_def)

lemma push_items_ok:
  assumes "stack_ok a L s h" "sp s + num + item_num_per_buf s \<le> 2 ^ 31" "num * item_size s \<le> length item"
  shows "\<exists>err s' h' L' k. dynstack_push_items item num s h = Some (err, s', h') \<and> stack_ok a L' s' h' \<and> dynarr_rest L' s' = dynarr_rest L s
    \<and> item_size s' = item_size s \<and> sp s' = sp s + k \<and> stack_items s' h' = stack_items s h @ chunks (item_size s) k item
    \<and> (err = VSF_ERR_NONE \<and> k = num \<or> err = VSF_ERR_FAIL \<and> k < num)"
  using assms
proof (induction num arbitrary: item s h L)
  case 0
  then show ?case by (intro exI [of _ VSF_ERR_NONE] exI [of _ s] exI [of _ h] exI [of _ L] exI [of _ 0]) (simp add: chunks_def)
next
  case (Suc num)
  have i: "item_size s \<le> length item" "num * item_size s \<le> length (drop (item_size s) item)" using Suc.prems(3) by simp_all
  have d: "4 * (item_size s div 4) = item_size s" using Suc.prems(1) by (simp add: stack_ok_def slots_ok_def)
  obtain err s1 h1 L1 where p: "vsf_dynstack_push item 1 s h = Some (err, s1, h1)" "stack_ok a L1 s1 h1" "dynarr_rest L1 s1 = dynarr_rest L s"
    "item_size s1 = item_size s" "item_num_per_buf_bitlen s1 = item_num_per_buf_bitlen s"
    "err = VSF_ERR_NONE \<and> sp s1 = sp s + 1 \<and> stack_items s1 h1 = stack_items s h @ [take (item_size s) item]
      \<or> err = VSF_ERR_FAIL \<and> sp s1 = sp s \<and> stack_items s1 h1 = stack_items s h"
    using push_ok [OF Suc.prems(1) _ i(1), of 1] Suc.prems(2) by auto
  show ?case
  proof (cases "err = VSF_ERR_NONE")
    case False
    then show ?thesis using p
      by (intro exI [of _ VSF_ERR_FAIL] exI [of _ s1] exI [of _ h1] exI [of _ L1] exI [of _ 0]) (auto simp: chunks_def)
  next
    case True
    have "sp s1 + num + item_num_per_buf s1 \<le> 2 ^ 31" "num * item_size s1 \<le> length (drop (item_size s) item)"
      using True p(4-6) Suc.prems(2) i(2) by auto
    from Suc.IH [OF p(2) this] obtain err' s' h' L' k where
      r: "dynstack_push_items (drop (item_size s) item) num s1 h1 = Some (err', s', h')" "stack_ok a L' s' h'" "dynarr_rest L' s' = dynarr_rest L1 s1"
      "item_size s' = item_size s1" "sp s' = sp s1 + k" "stack_items s' h' = stack_items s1 h1 @ chunks (item_size s1) k (drop (item_size s) item)"
      "err' = VSF_ERR_NONE \<and> k = num \<or> err' = VSF_ERR_FAIL \<and> k < num" by (elim exE conjE) (rule that; assumption)
    have "stack_items s' h' = stack_items s h @ chunks (item_size s) (Suc k) item" "sp s' = sp s + Suc k"
      using True p(4,6) r(5,6) by (auto simp: chunks_Suc)
    moreover have "dynstack_push_items item (Suc num) s h = Some (err', s', h')" using True p(1,4) r(1) d by simp
    ultimately show ?thesis using r p(3,4)
      by (intro exI [of _ err'] exI [of _ s'] exI [of _ h'] exI [of _ L'] exI [of _ "Suc k"]) auto
  qed
qed


lemma pop_words_ok:
  assumes "stack_ok a L s h" "stack_items s h = its @ cs" "item_size s = 4 * w" "num \<le> length cs * w" "length cs * w < num + w"
  shows "\<exists>s'. dynstack_pop_words w num acc h s = Some (VSF_ERR_NONE, take (4 * num) (concat cs) @ acc, s') \<and> stack_ok a L s' h
    \<and> stack_items s' h = its \<and> dynarr_rest L s' = dynarr_rest L s"
  using assms
proof (induction cs arbitrary: s num acc rule: rev_induct)
  case Nil
  then show ?case by (simp add: dynstack_pop_words.simps)
next
  case (snoc c cs)
  obtain p s1 where p: "vsf_dynstack_pop s 1 = Some (p, s1)" "p \<noteq> null" "get_bytes h p (item_size s) = c" "stack_ok a L s1 h"
    "stack_items s1 h = its @ cs" "s1 = s\<lparr>sp := sp s - 1\<rparr>" "dynarr_rest L s1 = dynarr_rest L s"
    using pop_one [OF snoc.prems(1), of "its @ cs" c] snoc.prems(2) by auto
  define k where "k = num - length cs * w"
  have k: "num = length cs * w + k" "0 < k" "k \<le> w" using snoc.prems(4,5) by (simp_all add: k_def)
  have kk: "num mod w = (if k = w then 0 else k)" using k(2,3) by (simp add: k(1))
  have c: "get_bytes h p (4 * k) = take (4 * k) c" unfolding p(3) [symmetric] get_bytes_def using k(3) snoc.prems(3)
    by (simp add: take_map)
  have "\<forall>x \<in> set (stack_items s1 h). length x = 4 * w" using p(6) snoc.prems(3) by (auto simp: stack_items_def get_bytes_def)
  then have len: "length (concat cs) = 4 * (length cs * w)" unfolding p(5) by (induction cs) auto
  obtain s' where s': "dynstack_pop_words w (length cs * w) (take (4 * k) c @ acc) h s1 =
      Some (VSF_ERR_NONE, take (4 * (length cs * w)) (concat cs) @ take (4 * k) c @ acc, s')"
    "stack_ok a L s' h" "stack_items s' h = its" "dynarr_rest L s' = dynarr_rest L s1"
    using snoc.IH [OF p(4,5), of "length cs * w" "take (4 * k) c @ acc"] p(6) snoc.prems(3) k by auto
  have "dynstack_pop_words w num acc h s = dynstack_pop_words w (length cs * w) (take (4 * k) c @ acc) h s1"
    using p(1,2) k(2,3) c by (subst dynstack_pop_words.simps) (cases "k = w"; simp add: kk, simp add: k(1))
  moreover have "take (4 * num) (concat (cs @ [c])) = take (4 * (length cs * w)) (concat cs) @ take (4 * k) c" using len k(1) by simp
  ultimately show ?case using s' p(7) by simp
qed

section \<open>Properties\<close>

text \<open>An empty array and an empty stack with items of 8 bytes, two in a buffer and two buffers in a table.\<close>

definition demo_stack :: vsf_dynstack_t where
  "demo_stack = vsf_dynstack_init \<lparr>item_size = 6, item_num_per_buf_bitlen = 1, buf_num_per_table_bitlen = 1, table_list = [], da_length = 0, sp = 0\<rparr>"

lemma demo_stack_fields: "demo_stack = \<lparr>item_size = 8, item_num_per_buf_bitlen = 1, buf_num_per_table_bitlen = 1, table_list = [], da_length = 0, sp = 0\<rparr>"
  by (simp add: demo_stack_def vsf_dynstack_init_def vsf_dynarr_init_def)

lemma demo_stack_ok: "dynarr_ok {} demo_stack" "slots_ok demo_stack" "sp demo_stack = 0" "dynarr_rest {} demo_stack = {}" "stack_items demo_stack h = []"
  "item_size demo_stack = 8" "item_num_per_buf_bitlen demo_stack = 1" "da_length demo_stack = 0"
  by (simp_all add: demo_stack_fields dynarr_ok_def slots_ok_def sizes_ok_def dynarr_table_size_def dynarr_buffer_size_def buf_num_of_def
    tb_own_def tb_ptrs_def dynarr_rest_def tb_rest_def stack_items_def)

text \<open>The heap with one region of memory.\<close>

definition demo_heap :: "vsf_heap_t option" where
  "demo_heap = vsf_heap_add_buffer 4096 400 (vsf_heap_init heap_empty)"

lemma demo_heap_rep: "\<exists>h. demo_heap = Some h \<and> heap_rep 4096 h {}"
  unfolding demo_heap_def by (rule heap_init_rep) simp_all

text \<open>
  C26. A change of the size of a dynamic array on the default heap never fails an assertion of the heap. It gives the
  new size, or for lack of memory an error with an array that is not smaller than before. In both cases the items that
  both sizes have are where they were, with their contents, and the array owns its tables and buffers and nothing else: the
  other blocks of the heap are the same as before.
\<close>

theorem dynarr_set_size_spec:
  assumes "heap_rep a h L" "dynarr_ok L d" "sz + item_num_per_buf d \<le> 2 ^ 31"
  shows "\<exists>err d' h' L'. vsf_dynarr_set_size sz d h = Some (err, d', h')
    \<and> (err = VSF_ERR_NONE \<and> da_length d' = sz \<or> err = VSF_ERR_NOT_ENOUGH_RESOURCES \<and> da_length d \<le> da_length d')
    \<and> heap_rep a h' L' \<and> dynarr_ok L' d' \<and> dynarr_rest L' d' = dynarr_rest L d \<and> kept (L \<inter> L') h h'
    \<and> (\<forall>i < min (da_length d) (da_length d'). vsf_dynarr_get d' i = vsf_dynarr_get d i)"
  using set_size_ok [OF assms] unfolding resized_def by blast

theorem dynarr_set_size_spec_witness:
  "\<exists>h err d' h' L'. demo_heap = Some h \<and> vsf_dynarr_set_size 5 demo_stack h = Some (err, d', h')
    \<and> (err = VSF_ERR_NONE \<and> da_length d' = 5 \<or> err = VSF_ERR_NOT_ENOUGH_RESOURCES) \<and> heap_rep 4096 h' L' \<and> dynarr_ok L' d' \<and> dynarr_rest L' d' = {}"
proof -
  obtain h where h: "demo_heap = Some h" "heap_rep 4096 h {}" using demo_heap_rep by blast
  have "5 + item_num_per_buf demo_stack \<le> 2 ^ 31" by (simp add: demo_stack_ok)
  from dynarr_set_size_spec [OF h(2) demo_stack_ok(1) this] h(1) show ?thesis unfolding demo_stack_ok(4) by blast
qed

text \<open>The end of an array gives every block back to the heap that the array has.\<close>

theorem dynarr_fini_frees:
  assumes "heap_rep a h L" "dynarr_ok L d"
  shows "\<exists>h'. vsf_dynarr_fini d h = Some (vsf_dynarr_init d, h') \<and> heap_rep a h' (dynarr_rest L d) \<and> hp_bytes h' = hp_bytes h"
proof -
  let ?P = "buf_num_per_table d" and ?n = "buf_num_of d (da_length d)"
  have own: "tb_own (dynarr_buffer_size d) L ?P ?n (table_list d)" using assms(2) by (simp add: dynarr_ok_def)
  then obtain ps where ps: "mset ps = mset (tab_list ?P ?n (table_list d))" "dynarr_fini_tables ?P ?n (table_list d) = free_all ps"
    using fini_tables_all [of ?P ?n "table_list d"] by (auto simp: tb_own_def)
  have M: "mset ps = mset (tb_ptrs ?P ?n (table_list d))" using ps(1) tab_list_mset [of ?P ?n "table_list d"] own by (simp add: tb_own_def)
  have "distinct ps" using mset_eq_imp_distinct_iff [OF M] own by (simp add: tb_own_def)
  moreover have "set ps = set (tb_ptrs ?P ?n (table_list d))" by (rule mset_eq_setD [OF M])
  ultimately show ?thesis using free_all_ok [OF assms(1), of ps] tb_own_sub [OF own] ps(2)
    by (auto simp: vsf_dynarr_fini_def dynarr_rest_def tb_rest_def)
qed



theorem dynarr_fini_frees_witness:
  "\<exists>h err d' h' h''. demo_heap = Some h \<and> vsf_dynarr_set_size 5 demo_stack h = Some (err, d', h')
    \<and> vsf_dynarr_fini d' h' = Some (vsf_dynarr_init d', h'') \<and> heap_rep 4096 h'' {}"
proof -
  obtain h where h: "demo_heap = Some h" "heap_rep 4096 h {}" using demo_heap_rep by blast
  have "5 + item_num_per_buf demo_stack \<le> 2 ^ 31" by (simp add: demo_stack_ok)
  from set_size_ok [OF h(2) demo_stack_ok(1) this] obtain err d' h' L'
    where r: "vsf_dynarr_set_size 5 demo_stack h = Some (err, d', h')" "heap_rep 4096 h' L'" "dynarr_ok L' d'" "dynarr_rest L' d' = {}"
    unfolding resized_def demo_stack_ok(4) by blast
  from dynarr_fini_frees [OF r(2,3)] h(1) r(1,4) show ?thesis by auto
qed

text \<open>
  A buffer is requested with the size of \<open>buf_num_per_table\<close> items instead of \<open>item_num_per_buf\<close> items: when a buffer has more items
  than a table has entries, the item with the number \<open>buf_num_per_table\<close> starts where the requested memory ends.
\<close>

theorem dynarr_buffer_too_small:
  assumes "dynarr_ok L d" "4 dvd item_size d" "buf_num_per_table d < item_num_per_buf d" "buf_num_per_table d < da_length d"
  shows "\<exists>b. vsf_dynarr_get d 0 = Some b \<and> vsf_dynarr_get d (buf_num_per_table d) = Some (b + dynarr_buffer_size d)"
proof -
  let ?P = "buf_num_per_table d"
  have P: "?P div item_num_per_buf d = 0" "?P mod item_num_per_buf d = ?P" using assms(3) by (simp_all only: div_less mod_less)
  have z: "0 < da_length d" using assms(4) by simp
  have "0 < buf_num_of d (da_length d)" using get_entry(1) [OF assms(1) z] by simp
  then obtain b where "tb_entry ?P (table_list d) 0 = Some b" using assms(1) by (auto simp: dynarr_ok_def tb_own_def)
  then show ?thesis using get_entry(2) [OF assms(1) z] get_entry(2) [OF assms(1,4)] assms(2) unfolding P by (simp add: dynarr_buffer_size_def)
qed

definition demo_array :: vsf_dynarr_t where
  "demo_array = \<lparr>item_size = 4, item_num_per_buf_bitlen = 1, buf_num_per_table_bitlen = 0,
     table_list = [\<lparr>t_addr = 4096, t_buffer = [0 \<mapsto> 4112]\<rparr>], da_length = 2\<rparr>"

theorem dynarr_buffer_too_small_witness:
  "dynarr_buffer_size demo_array = 4 \<and> vsf_dynarr_get demo_array 0 = Some 4112 \<and> vsf_dynarr_get demo_array 1 = Some 4116"
proof -
  have "dynarr_ok {(4096, 8), (4112, 4)} demo_array"
    by (simp add: dynarr_ok_def sizes_ok_def dynarr_table_size_def dynarr_buffer_size_def buf_num_of_def tb_own_def tb_ptrs_def tb_entry_def demo_array_def)
  then obtain b where "vsf_dynarr_get demo_array 0 = Some b" "vsf_dynarr_get demo_array 1 = Some (b + dynarr_buffer_size demo_array)"
    using dynarr_buffer_too_small [of "{(4096, 8), (4112, 4)}" demo_array] by (elim exE conjE meta_impE) (simp_all add: demo_array_def)
  moreover have "vsf_dynarr_get demo_array 0 = Some 4112" "dynarr_buffer_size demo_array = 4"
    by (simp_all add: demo_array_def vsf_dynarr_get_def p_vsf_dynarr_get_table_def p_vsf_dynarr_get_buf_num_def buf_num_of_def dynarr_buffer_size_def)
  ultimately show ?thesis by simp
qed

text \<open>
  What \<open>vsf_dynstack_push_ext\<close> puts on a stack, \<open>vsf_dynstack_pop_ext\<close> of the same length takes off: the bytes, up to the next
  multiple of 4, come back in their order and the stack has the items it had before. A push that fails has left some of
  the first items on the stack, above those that were there. (The source has to have whole items that can be read.)
\<close>

theorem dynstack_ext_roundtrip:
  assumes "stack_ok a L s h" and n: "n = ((len + 3) div 4 + item_size s div 4 - 1) div (item_size s div 4)"
    and "sp s + n + item_num_per_buf s \<le> 2 ^ 31" "n * item_size s \<le> length buf"
  shows "\<exists>err s' h' L'. vsf_dynstack_push_ext buf len s h = Some (err, s', h') \<and> stack_ok a L' s' h'
    \<and> (err = VSF_ERR_NONE \<and> (\<exists>s''. vsf_dynstack_pop_ext len s' h' = Some (VSF_ERR_NONE, take (4 * ((len + 3) div 4)) buf, s'')
          \<and> stack_items s'' h' = stack_items s h)
       \<or> err = VSF_ERR_FAIL \<and> (\<exists>k < n. stack_items s' h' = stack_items s h @ chunks (item_size s) k buf))"
proof -
  define w num where "w = item_size s div 4" and "num = (len + 3) div 4"
  have w: "item_size s = 4 * w" "0 < w" using assms(1) by (auto simp: w_def stack_ok_def slots_ok_def)
  have n': "n = (num + w - 1) div w" using n by (simp add: w_def num_def)
  have nw: "num \<le> n * w" "n * w < num + w"
    using div_times_less_eq_dividend [of "num + w - 1" w] dividend_less_div_times [OF w(2), of "num + w - 1"] w(2) unfolding n' by linarith+
  obtain err s' h' L' k where p: "dynstack_push_items buf n s h = Some (err, s', h')" "stack_ok a L' s' h'" "item_size s' = item_size s"
    "stack_items s' h' = stack_items s h @ chunks (item_size s) k buf" "err = VSF_ERR_NONE \<and> k = n \<or> err = VSF_ERR_FAIL \<and> k < n"
    using push_items_ok [OF assms(1,3,4)] by (elim exE conjE) (rule that; assumption)
  have push: "vsf_dynstack_push_ext buf len s h = Some (err, s', h')"
    using p(1) w(2) unfolding n' vsf_dynstack_push_ext_def Let_def w_def [symmetric] num_def [symmetric] by simp
  show ?thesis
  proof (cases "err = VSF_ERR_NONE")
    case True
    then have k: "k = n" using p(5) by simp
    obtain s'' where "dynstack_pop_words w num [] h' s' = Some (VSF_ERR_NONE, take (4 * num) (concat (chunks (item_size s) n buf)) @ [], s'')"
      "stack_items s'' h' = stack_items s h"
      using pop_words_ok [OF p(2) p(4), of w num "[]"] p(3) w(1) nw k by (auto simp: chunks_def)
    moreover have "take (4 * num) (concat (chunks (item_size s) n buf)) = take (4 * num) buf"
      using concat_chunks [OF assms(4)] nw(1) w(1) by (simp add: min_def)
    ultimately show ?thesis using True push p(2,3) by (auto simp: vsf_dynstack_pop_ext_def w_def num_def)
  next
    case False
    then show ?thesis using push p(2,4,5) by blast
  qed
qed


theorem dynstack_ext_roundtrip_witness:
  "\<exists>h err s' h'. demo_heap = Some h \<and> vsf_dynstack_push_ext [1, 2, 3, 4, 5, 6, 7, 8, 9, 10, 11, 12, 13, 14, 15, 16] 10 demo_stack h = Some (err, s', h')
    \<and> (err = VSF_ERR_NONE \<and> (\<exists>s''. vsf_dynstack_pop_ext 10 s' h' = Some (VSF_ERR_NONE, [1, 2, 3, 4, 5, 6, 7, 8, 9, 10, 11, 12], s'') \<and> stack_items s'' h' = [])
      \<or> err = VSF_ERR_FAIL)"
proof -
  obtain h where h: "demo_heap = Some h" "heap_rep 4096 h {}" using demo_heap_rep by blast
  let ?buf = "[1, 2, 3, 4, 5, 6, 7, 8, 9, 10, 11, 12, 13, 14, 15, 16] :: u8 list"
  have ok: "stack_ok 4096 {} demo_stack h" using h(2) by (simp add: stack_ok_def demo_stack_ok)
  have n: "2 = ((10 + 3) div 4 + item_size demo_stack div 4 - 1) div (item_size demo_stack div 4)" by (simp add: demo_stack_ok)
  have "sp demo_stack + 2 + item_num_per_buf demo_stack \<le> 2 ^ 31" "2 * item_size demo_stack \<le> length ?buf" by (simp_all add: demo_stack_ok)
  from dynstack_ext_roundtrip [OF ok n this] h(1) show ?thesis by (auto simp: demo_stack_ok)
qed

end
