(* ===== verification/VSF_Usbd.thy ===== *)
theory VSF_Usbd
  imports VSF_Prelude "HOL-Library.Monad_Syntax"
begin

unbundle bit_operations_syntax

text \<open>
  The core of the USB device stack, \<open>src/source/component/usb/device/vsf_usbd.c\<close>: transfers over endpoints, the requests of chapter
  9 of the USB specification on endpoint 0 and the state machine of the events, with the automatic set-up of the
  endpoints and on a task of the kernel, without the streams over endpoints.

  The driver of the controller is unknown: every call of it is recorded, and its answers are functions of the calls so
  far. Classes, configurations, the vendor handler and the hooks of the user are functions of the environment as well.
  Error codes are integers with the sign they have in C; only 0 and \<open>VSF_ERR_FAIL\<close>, \<open>- 7\<close>, are made here.
\<close>

section \<open>Data\<close>

datatype usb_evt_t = USB_ON_ATTACH | USB_ON_DETACH | USB_ON_RESET | USB_ON_SETUP | USB_ON_ERROR | USB_ON_SUSPEND | USB_ON_RESUME
  | USB_ON_SOF | USB_ON_IN | USB_ON_NAK | USB_ON_OUT | USB_ON_STATUS | USB_ON_UNDERFLOW | USB_ON_OVERFLOW
  | USB_ON_INIT | USB_ON_FINI | USB_ON_STATUS_QUERY

record usb_ctrlrequest_t =
  bRequestType :: nat
  bRequest :: nat
  wValue :: nat
  wIndex :: nat
  wLength :: nat

datatype usbd_call = Drv_Init | Drv_Reset | Drv_Fini | Drv_Connect | Drv_Disconnect | Drv_Wakeup bool | Drv_Set_Address nat
  | Drv_Get_Setup | Drv_Status_Stage bool | Drv_Ep_Add nat nat nat | Drv_Ep_Get_Feature nat nat | Drv_Ep_Get_Size nat
  | Drv_Ep_Set_Stall nat | Drv_Ep_Is_Stalled nat | Drv_Ep_Clear_Stall nat | Drv_Ep_Get_Data_Size nat | Drv_Ep_Read_Buffer nat nat
  | Drv_Ep_Enable_Out nat | Drv_Ep_Set_Data_Size nat nat | Drv_Ep_Write_Buffer nat "u8 list" | Drv_Ep_Transfer_Recv nat nat
  | Drv_Ep_Transfer_Send nat "u8 list" bool | Set_Timer_Ms nat

record vk_usbd_desc_t =
  d_type :: nat
  d_index :: nat
  d_langid :: nat
  d_size :: nat
  d_buffer :: "u8 list"

text \<open>What happens at the end of a transfer: nothing, the status stage of endpoint 0, a function of the user, or a message to a task.\<close>

datatype trans_end = No_End | Status_End | User_End nat | Eda_End nat

record vk_usbd_trans_t =
  t_ep :: nat
  t_feature :: nat
  t_zlp :: bool
  t_buffer :: "u8 list option"
  t_size :: nat
  t_cur :: nat
  t_on_finish :: trans_end

text \<open>A class is named by a number; its functions are in the environment.\<close>

record vk_usbd_ifs_t =
  class_op :: "nat option"
  alternate_setting :: nat
  is_inited :: bool

record vk_usbd_cfg_t =
  cfg_ifs :: "vk_usbd_ifs_t list"
  configuration_value :: nat
  ep_ifs_map :: "int list"

text \<open>Transfers are named by numbers, that of endpoint 0 is 0. \<open>u_user\<close> is the state of the classes and of the user.\<close>

record 'x vk_usbd_dev_t =
  u_desc :: "vk_usbd_desc_t list"
  u_config :: "vk_usbd_cfg_t list"
  u_request :: usb_ctrlrequest_t
  u_trans :: "nat \<Rightarrow> vk_usbd_trans_t"
  u_address :: nat
  u_configuration :: nat
  u_feature :: nat
  u_configured :: bool
  u_trans_list :: "nat list"
  u_wakeup_pending :: bool
  u_calls :: "usbd_call list"
  u_user :: 'x

record 'x usbd_env =
  drv_num :: "usbd_call list \<Rightarrow> usbd_call \<Rightarrow> int"
  drv_bytes :: "usbd_call list \<Rightarrow> usbd_call \<Rightarrow> u8 list"
  drv_setup :: "usbd_call list \<Rightarrow> usb_ctrlrequest_t"
  notify_user :: "usb_evt_t \<Rightarrow> 'x vk_usbd_dev_t \<Rightarrow> (int \<times> 'x vk_usbd_dev_t) option"
  class_get_desc :: "nat \<Rightarrow> ('x vk_usbd_dev_t \<Rightarrow> nat \<Rightarrow> nat \<Rightarrow> vk_usbd_desc_t option) option"
  class_request_prepare :: "nat \<Rightarrow> (nat \<Rightarrow> 'x vk_usbd_dev_t \<Rightarrow> (int \<times> 'x vk_usbd_dev_t) option) option"
  class_request_process :: "nat \<Rightarrow> (nat \<Rightarrow> 'x vk_usbd_dev_t \<Rightarrow> (int \<times> 'x vk_usbd_dev_t) option) option"
  class_init :: "nat \<Rightarrow> (nat \<Rightarrow> 'x vk_usbd_dev_t \<Rightarrow> (int \<times> 'x vk_usbd_dev_t) option) option"
  class_fini :: "nat \<Rightarrow> (nat \<Rightarrow> 'x vk_usbd_dev_t \<Rightarrow> (int \<times> 'x vk_usbd_dev_t) option) option"
  config_init :: "nat \<Rightarrow> ('x vk_usbd_dev_t \<Rightarrow> (int \<times> 'x vk_usbd_dev_t) option) option"
  vendor_prepare :: "('x vk_usbd_dev_t \<Rightarrow> (int \<times> 'x vk_usbd_dev_t) option) option"
  vendor_process :: "('x vk_usbd_dev_t \<Rightarrow> 'x vk_usbd_dev_t option) option"
  user_end :: "nat \<Rightarrow> 'x vk_usbd_dev_t \<Rightarrow> 'x vk_usbd_dev_t option"
  post_msg :: "nat \<Rightarrow> nat \<Rightarrow> 'x vk_usbd_dev_t \<Rightarrow> 'x vk_usbd_dev_t option"

definition call :: "'x usbd_env \<Rightarrow> usbd_call \<Rightarrow> 'x vk_usbd_dev_t \<Rightarrow> int \<times> 'x vk_usbd_dev_t" where
  "call e c d = (drv_num e (u_calls d) c, d\<lparr>u_calls := u_calls d @ [c]\<rparr>)"

definition tell :: "'x usbd_env \<Rightarrow> usbd_call \<Rightarrow> 'x vk_usbd_dev_t \<Rightarrow> 'x vk_usbd_dev_t" where
  "tell e c d = snd (call e c d)"

definition upd_trans :: "nat \<Rightarrow> (vk_usbd_trans_t \<Rightarrow> vk_usbd_trans_t) \<Rightarrow> 'x vk_usbd_dev_t \<Rightarrow> 'x vk_usbd_dev_t" where
  "upd_trans t f d = d\<lparr>u_trans := (u_trans d)(t := f (u_trans d t))\<rparr>"

definition upd_cfg :: "nat \<Rightarrow> (vk_usbd_cfg_t \<Rightarrow> vk_usbd_cfg_t) \<Rightarrow> 'x vk_usbd_dev_t \<Rightarrow> 'x vk_usbd_dev_t" where
  "upd_cfg c f d = (if c < length (u_config d) then d\<lparr>u_config := (u_config d)[c := f (u_config d ! c)]\<rparr> else d)"

definition upd_ifs :: "nat \<Rightarrow> nat \<Rightarrow> (vk_usbd_ifs_t \<Rightarrow> vk_usbd_ifs_t) \<Rightarrow> 'x vk_usbd_dev_t \<Rightarrow> 'x vk_usbd_dev_t" where
  "upd_ifs c i f d =
     upd_cfg c (\<lambda>g. if i < length (cfg_ifs g) then g\<lparr>cfg_ifs := (cfg_ifs g)[i := f (cfg_ifs g ! i)]\<rparr> else g) d"

text \<open>A loop over a list that may fail.\<close>

fun each :: "('a \<Rightarrow> 'b \<Rightarrow> 'b option) \<Rightarrow> 'a list \<Rightarrow> 'b \<Rightarrow> 'b option" where
  "each f [] d = Some d"
| "each f (x # xs) d = do {d \<leftarrow> f x d; each f xs d}"

section \<open>Descriptors and interfaces\<close>

definition vk_usbd_get_descriptor :: "vk_usbd_desc_t list \<Rightarrow> nat \<Rightarrow> nat \<Rightarrow> nat \<Rightarrow> vk_usbd_desc_t option" where
  "vk_usbd_get_descriptor descs type index langid =
     List.find (\<lambda>x. d_type x = type \<and> d_index x = index \<and> d_langid x = langid) descs"

definition vk_usbd_get_cur_cfg :: "'x vk_usbd_dev_t \<Rightarrow> vk_usbd_cfg_t option" where
  "vk_usbd_get_cur_cfg d = (if u_configuration d < length (u_config d) then Some (u_config d ! u_configuration d) else None)"

text \<open>An interface is given by its number.\<close>

definition vk_usbd_get_ifs :: "'x vk_usbd_dev_t \<Rightarrow> nat \<Rightarrow> nat option option" where
  "vk_usbd_get_ifs d ifs_no = do {
     config \<leftarrow> vk_usbd_get_cur_cfg d;
     Some (if ifs_no < length (cfg_ifs config) then Some ifs_no else None)}"

definition vk_usbd_get_ifs_no :: "'x vk_usbd_dev_t \<Rightarrow> nat option \<Rightarrow> nat option" where
  "vk_usbd_get_ifs_no d ifs = do {
     config \<leftarrow> vk_usbd_get_cur_cfg d;
     i \<leftarrow> ifs;
     (if i < length (cfg_ifs config) then Some i else None)}"

definition ep_slot :: "nat \<Rightarrow> nat" where
  "ep_slot ep = (ep AND 0x0F) OR drop_bit 3 (ep AND 0x80)"

definition p_vk_usbd_get_ifs_byep :: "vk_usbd_cfg_t \<Rightarrow> nat \<Rightarrow> nat option" where
  "p_vk_usbd_get_ifs_byep config ep =
     (let i = ep_ifs_map config ! ep_slot ep in if 0 \<le> i then Some (nat i) else None)"

definition vk_usbd_ifs_add_ep ::
  "'x usbd_env \<Rightarrow> nat option \<Rightarrow> nat \<Rightarrow> nat \<Rightarrow> nat \<Rightarrow> 'x vk_usbd_dev_t \<Rightarrow> (int \<times> 'x vk_usbd_dev_t) option" where
  "vk_usbd_ifs_add_ep e ifs ep type sz d =
     (let (err, d) = call e (Drv_Ep_Add ep type sz) d
      in if err \<noteq> 0 then Some (- 7, d)
         else do {
           i \<leftarrow> vk_usbd_get_ifs_no d ifs;
           Some (0, upd_cfg (u_configuration d) (\<lambda>c. c\<lparr>ep_ifs_map := (ep_ifs_map c)[ep_slot ep := int i]\<rparr>) d)})"

definition p_vk_usbd_cfg_fini :: "'x usbd_env \<Rightarrow> 'x vk_usbd_dev_t \<Rightarrow> 'x vk_usbd_dev_t option" where
  "p_vk_usbd_cfg_fini e d = do {
     config \<leftarrow> vk_usbd_get_cur_cfg d;
     each (\<lambda>i d. do {
         config \<leftarrow> vk_usbd_get_cur_cfg d;
         let ifs = cfg_ifs config ! i;
         (if is_inited ifs
          then let d = upd_ifs (u_configuration d) i (\<lambda>x. x\<lparr>is_inited := False\<rparr>) d
               in case Option.bind (class_op ifs) (class_fini e) of None \<Rightarrow> Some d | Some f \<Rightarrow> map_option snd (f i d)
          else Some d)}) [0..<length (cfg_ifs config)] d}"

section \<open>Transfers\<close>

definition p_vk_usbd_get_trans :: "'x vk_usbd_dev_t \<Rightarrow> nat \<Rightarrow> nat option" where
  "p_vk_usbd_get_trans d ep = List.find (\<lambda>t. t_ep (u_trans d t) = ep) (u_trans_list d)"

text \<open>A transfer that is in the list already cannot be added again: the list would get a cycle.\<close>

definition trans_add :: "nat \<Rightarrow> 'x vk_usbd_dev_t \<Rightarrow> 'x vk_usbd_dev_t option" where
  "trans_add t d = (if t \<in> set (u_trans_list d) then None else Some (d\<lparr>u_trans_list := t # u_trans_list d\<rparr>))"

definition trans_remove :: "nat \<Rightarrow> 'x vk_usbd_dev_t \<Rightarrow> 'x vk_usbd_dev_t" where
  "trans_remove t d = d\<lparr>u_trans_list := remove1 t (u_trans_list d)\<rparr>"

definition vk_usbd_ep_stall :: "'x usbd_env \<Rightarrow> nat \<Rightarrow> 'x vk_usbd_dev_t \<Rightarrow> int \<times> 'x vk_usbd_dev_t" where
  "vk_usbd_ep_stall e ep d = call e (Drv_Ep_Set_Stall ep) d"

definition trans_mode :: "'x usbd_env \<Rightarrow> nat \<Rightarrow> 'x vk_usbd_dev_t \<Rightarrow> bool \<times> 'x vk_usbd_dev_t" where
  "trans_mode e t d =
     (let (f, d') = call e (Drv_Ep_Get_Feature (t_ep (u_trans d t)) (t_feature (u_trans d t))) d in (f AND 1 \<noteq> 0, d'))"

definition vk_usbd_ep_recv :: "'x usbd_env \<Rightarrow> nat \<Rightarrow> 'x vk_usbd_dev_t \<Rightarrow> (int \<times> 'x vk_usbd_dev_t) option" where
  "vk_usbd_ep_recv e t d = do {
     let d = upd_trans t (\<lambda>x. x\<lparr>t_ep := t_ep x AND 0x7F\<rparr>) d;
     d \<leftarrow> trans_add t d;
     let (whole, d) = trans_mode e t d;
     let ep = t_ep (u_trans d t);
     let (err, d) =
       (if whole then call e (Drv_Ep_Transfer_Recv ep (t_size (u_trans d t))) d
        else call e (Drv_Ep_Enable_Out ep) (upd_trans t (\<lambda>x. x\<lparr>t_cur := 0\<rparr>) d));
     Some (err, if err \<noteq> 0 then trans_remove t d else d)}"

text \<open>The bytes of the buffer from the current position on.\<close>

definition trans_data :: "vk_usbd_trans_t \<Rightarrow> nat \<Rightarrow> u8 list" where
  "trans_data x n = (case t_buffer x of None \<Rightarrow> [] | Some bs \<Rightarrow> take n (drop (t_cur x) bs))"

definition p_vk_usbd_ep_send_imp :: "'x usbd_env \<Rightarrow> nat \<Rightarrow> 'x vk_usbd_dev_t \<Rightarrow> int \<times> 'x vk_usbd_dev_t" where
  "p_vk_usbd_ep_send_imp e t d =
     (let ep = t_ep (u_trans d t);
          (s, d) = call e (Drv_Ep_Get_Size ep) d;
          ep_size = nat s;
          pkg_size = min ep_size (t_size (u_trans d t));
          d = tell e (Drv_Ep_Write_Buffer ep (trans_data (u_trans d t) pkg_size)) d;
          d = upd_trans t (\<lambda>x. x\<lparr>t_cur := t_cur x + pkg_size, t_size := t_size x - pkg_size\<rparr>) d;
          d = (if t_size (u_trans d t) = 0 \<and> pkg_size < ep_size then upd_trans t (\<lambda>x. x\<lparr>t_zlp := False\<rparr>) d else d)
      in call e (Drv_Ep_Set_Data_Size ep pkg_size) d)"

definition vk_usbd_ep_send :: "'x usbd_env \<Rightarrow> nat \<Rightarrow> 'x vk_usbd_dev_t \<Rightarrow> (int \<times> 'x vk_usbd_dev_t) option" where
  "vk_usbd_ep_send e t d = do {
     let d = upd_trans t (\<lambda>x. x\<lparr>t_ep := t_ep x OR 0x80\<rparr>) d;
     d \<leftarrow> trans_add t d;
     let (whole, d) = trans_mode e t d;
     let x = u_trans d t;
     let (err, d) =
       (if whole
        then call e (Drv_Ep_Transfer_Send (t_ep x) (case t_buffer x of None \<Rightarrow> [] | Some bs \<Rightarrow> take (t_size x) bs) (t_zlp x))
               (upd_trans t (\<lambda>x. x\<lparr>t_size := 0, t_zlp := False\<rparr>) d)
        else p_vk_usbd_ep_send_imp e t (upd_trans t (\<lambda>x. x\<lparr>t_cur := 0\<rparr>) d));
     Some (err, if err \<noteq> 0 then trans_remove t d else d)}"

section \<open>Control requests\<close>

definition p_vk_usbd_get_config :: "'x vk_usbd_dev_t \<Rightarrow> nat \<Rightarrow> nat option" where
  "p_vk_usbd_get_config d value = List.find (\<lambda>i. configuration_value (u_config d ! i) = value) [0..<length (u_config d)]"

definition byte :: "u8 list \<Rightarrow> nat \<Rightarrow> nat option" where
  "byte bs i = (if i < length bs then Some (unat (bs ! i)) else None)"

definition le16 :: "u8 list \<Rightarrow> nat \<Rightarrow> nat option" where
  "le16 bs i = do {lo \<leftarrow> byte bs i; hi \<leftarrow> byte bs (i + 1); Some (lo + 256 * hi)}"

text \<open>The walk over the descriptors behind that of the configuration: every endpoint is added to the interface in front of it.\<close>

function auto_init_walk ::
  "'x usbd_env \<Rightarrow> vk_usbd_desc_t \<Rightarrow> nat \<Rightarrow> nat \<Rightarrow> 'x vk_usbd_dev_t \<Rightarrow> (int \<times> 'x vk_usbd_dev_t) option" where
  "auto_init_walk e desc pos cur_ifs d =
     (if d_size desc \<le> pos then Some (0, d)
      else do {
        bLength \<leftarrow> byte (d_buffer desc) pos;
        (if bLength \<le> 2 \<or> d_size desc < pos + bLength then None
         else do {
           type \<leftarrow> byte (d_buffer desc) (pos + 1);
           (if type = 4
            then do {
              cur_ifs \<leftarrow> byte (d_buffer desc) (pos + 2);
              auto_init_walk e desc (pos + bLength) cur_ifs d}
            else if type = 5
            then do {
              ep_addr \<leftarrow> byte (d_buffer desc) (pos + 2);
              ep_attr \<leftarrow> byte (d_buffer desc) (pos + 3);
              ep_size \<leftarrow> le16 (d_buffer desc) (pos + 4);
              ifs \<leftarrow> vk_usbd_get_ifs d cur_ifs;
              (err, d) \<leftarrow> vk_usbd_ifs_add_ep e ifs ep_addr (ep_attr AND 3) ep_size d;
              (if err \<noteq> 0 then Some (- 7, d) else auto_init_walk e desc (pos + bLength) cur_ifs d)}
            else auto_init_walk e desc (pos + bLength) cur_ifs d)})})"
  by pat_completeness auto
termination by (relation "measure (\<lambda>(_, desc, pos, _). d_size desc - pos)") auto

declare auto_init_walk.simps [simp del]

definition config_desc_ok :: "vk_usbd_desc_t \<Rightarrow> nat \<Rightarrow> bool" where
  "config_desc_ok desc num_of_ifs \<longleftrightarrow> le16 (d_buffer desc) 2 = Some (d_size desc) \<and> byte (d_buffer desc) 0 = Some 9
     \<and> byte (d_buffer desc) 1 = Some 2 \<and> byte (d_buffer desc) 4 = Some num_of_ifs"

definition p_vk_usbd_auto_init :: "'x usbd_env \<Rightarrow> 'x vk_usbd_dev_t \<Rightarrow> (int \<times> 'x vk_usbd_dev_t) option" where
  "p_vk_usbd_auto_init e d = do {
     desc \<leftarrow> vk_usbd_get_descriptor (u_desc d) 2 (u_configuration d) 0;
     config \<leftarrow> vk_usbd_get_cur_cfg d;
     (if config_desc_ok desc (length (cfg_ifs config)) then auto_init_walk e desc 9 (2 ^ 32 - 1) d else None)}"


text \<open>The interfaces of a new configuration.\<close>

fun ifs_init :: "'x usbd_env \<Rightarrow> nat list \<Rightarrow> 'x vk_usbd_dev_t \<Rightarrow> (int \<times> 'x vk_usbd_dev_t) option" where
  "ifs_init e [] d = Some (0, d)"
| "ifs_init e (i # is) d = do {
     let d = upd_ifs (u_configuration d) i (\<lambda>x. x\<lparr>alternate_setting := 0\<rparr>) d;
     config \<leftarrow> vk_usbd_get_cur_cfg d;
     (err, d) \<leftarrow> (case Option.bind (class_op (cfg_ifs config ! i)) (class_init e) of None \<Rightarrow> Some (0, d) | Some f \<Rightarrow> f i d);
     (if err \<noteq> 0 then Some (- 7, d)
      else ifs_init e is (upd_ifs (u_configuration d) i (\<lambda>x. x\<lparr>is_inited := True\<rparr>) d))}"

definition set_configuration :: "'x usbd_env \<Rightarrow> 'x vk_usbd_dev_t \<Rightarrow> (int \<times> 'x vk_usbd_dev_t) option" where
  "set_configuration e d =
     (let request = u_request d
      in if wIndex request \<noteq> 0 \<or> p_vk_usbd_get_config d (wValue request) = None then Some (- 7, d)
         else do {
           let d = d\<lparr>u_configured := False\<rparr>;
           config_idx \<leftarrow> p_vk_usbd_get_config d (wValue request);
           d \<leftarrow> p_vk_usbd_cfg_fini e d;
           let d = d\<lparr>u_configuration := config_idx mod 2 ^ 8\<rparr>;
           (err, d) \<leftarrow> p_vk_usbd_auto_init e d;
           (if err \<noteq> 0 then Some (- 7, d)
            else do {
              (err, d) \<leftarrow> (case config_init e (u_configuration d) of None \<Rightarrow> Some (0, d) | Some f \<Rightarrow> f d);
              (if err \<noteq> 0 then Some (- 7, d)
               else do {
                 config \<leftarrow> vk_usbd_get_cur_cfg d;
                 ifs_init e [0..<length (cfg_ifs config)] d})})})"

text \<open>
  The first stage of the standard requests, for a device, an interface and an endpoint: an error code and the answer, its buffer and
  its size.
\<close>

type_synonym 'x prepared = "(int \<times> (u8 list \<times> nat) \<times> 'x vk_usbd_dev_t) option"

definition stdctrl_device :: "'x usbd_env \<Rightarrow> 'x vk_usbd_dev_t \<Rightarrow> 'x prepared" where
  "stdctrl_device e d =
     (let r = u_request d; fail = Some (- 7, ([], 0), d)
      in if bRequest r = 0x00
         then if wValue r \<noteq> 0 \<or> wIndex r \<noteq> 0 then fail else Some (0, ([of_nat (u_feature d), 0], 2), d)
         else if bRequest r = 0x01
         then if wIndex r \<noteq> 0 \<or> wValue r \<noteq> 1 then fail
              else Some (0, ([], 0), d\<lparr>u_feature := u_feature d AND 0xDF\<rparr>)
         else if bRequest r = 0x03
         then if wIndex r \<noteq> 0 \<or> wValue r \<noteq> 1 then fail
              else Some (0, ([], 0), d\<lparr>u_feature := u_feature d OR 0x20\<rparr>)
         else if bRequest r = 0x05
         then if 127 < wValue r \<or> wIndex r \<noteq> 0 \<or> u_configuration d \<noteq> 0 then fail else Some (0, ([], 0), d)
         else if bRequest r = 0x06
         then case vk_usbd_get_descriptor (u_desc d) (wValue r div 256 mod 256) (wValue r mod 256) (wIndex r) of
                None \<Rightarrow> fail
              | Some desc \<Rightarrow> Some (0, (d_buffer desc, d_size desc), d)
         else if bRequest r = 0x08
         then if wValue r \<noteq> 0 \<or> wIndex r \<noteq> 0 then fail
              else do {
                config \<leftarrow> vk_usbd_get_cur_cfg d;
                Some (0, ([of_nat (configuration_value config)], 1), d)}
         else if bRequest r = 0x09
         then do {
           (err, d) \<leftarrow> set_configuration e d;
           Some (err, ([], 0), d)}
         else fail)"

definition stdctrl_interface :: "'x usbd_env \<Rightarrow> 'x vk_usbd_dev_t \<Rightarrow> 'x prepared" where
  "stdctrl_interface e d = do {
     let r = u_request d;
     let fail = Some (- 7, ([], 0), d);
     config \<leftarrow> vk_usbd_get_cur_cfg d;
     let ifs_idx = wIndex r;
     (if length (cfg_ifs config) \<le> ifs_idx then fail
      else
        let ifs = cfg_ifs config ! ifs_idx
        in if bRequest r = 0x00
           then if wValue r \<noteq> 0 \<or> length (cfg_ifs config) \<le> wIndex r then fail else Some (0, ([0, 0], 2), d)
           else if bRequest r = 0x01 then Some (0, ([], 0), d)
           else if bRequest r = 0x03 then Some (0, ([], 0), d)
           else if bRequest r = 0x06
           then case Option.bind (class_op ifs) (class_get_desc e) of
                  None \<Rightarrow> fail
                | Some f \<Rightarrow> (case f d (wValue r div 256 mod 256) (wValue r mod 256) of None \<Rightarrow> fail
                             | Some desc \<Rightarrow> Some (0, (d_buffer desc, d_size desc), d))
           else if bRequest r = 0x0A
           then if wValue r \<noteq> 0 then fail else Some (0, ([of_nat (alternate_setting ifs)], 1), d)
           else if bRequest r = 0x0B
           then do {
             let d = upd_ifs (u_configuration d) ifs_idx (\<lambda>x. x\<lparr>alternate_setting := wValue r mod 2 ^ 8\<rparr>) d;
             d \<leftarrow> (case Option.bind (class_op ifs) (class_request_prepare e) of None \<Rightarrow> Some d | Some f \<Rightarrow> map_option snd (f ifs_idx d));
             Some (0, ([], 0), d)}
           else fail)}"

definition stdctrl_endpoint :: "'x usbd_env \<Rightarrow> 'x vk_usbd_dev_t \<Rightarrow> 'x prepared" where
  "stdctrl_endpoint e d =
     (let r = u_request d; fail = Some (- 7, ([], 0), d); ep = wIndex r mod 256
      in if bRequestType r AND 0x80 = 0x80 then fail
         else if bRequest r = 0x00
         then if wValue r \<noteq> 0 then fail
              else let (stalled, d) = call e (Drv_Ep_Is_Stalled ep) d in Some (0, ([if stalled \<noteq> 0 then 1 else 0, 0], 2), d)
         else if bRequest r = 0x01
         then if wValue r \<noteq> 0 then fail
              else if ep = 0 then Some (0, ([], 0), d)
              else do {
                config \<leftarrow> vk_usbd_get_cur_cfg d;
                i \<leftarrow> p_vk_usbd_get_ifs_byep config ep;
                let d = tell e (Drv_Ep_Clear_Stall ep) d;
                d \<leftarrow> (case Option.bind (class_op (cfg_ifs config ! i)) (class_request_prepare e) of None \<Rightarrow> Some d
                     | Some f \<Rightarrow> map_option snd (f i d));
                Some (0, ([], 0), d)}
         else fail)"

definition p_vk_usbd_stdctrl_prepare :: "'x usbd_env \<Rightarrow> 'x vk_usbd_dev_t \<Rightarrow> (int \<times> 'x vk_usbd_dev_t) option" where
  "p_vk_usbd_stdctrl_prepare e d = do {
     let recip = bRequestType (u_request d) AND 0x1F;
     (err, (buffer, sz), d) \<leftarrow>
       (if recip = 0 then stdctrl_device e d
        else if recip = 1 then stdctrl_interface e d
        else if recip = 2 then stdctrl_endpoint e d
        else Some (- 7, ([], 0), d));
     (if err \<noteq> 0 then Some (err, d)
      else Some (0, upd_trans 0 (\<lambda>x. x\<lparr>t_buffer := (if sz = 0 then None else Some buffer), t_size := sz\<rparr>) d))}"

definition p_vk_usbd_stdctrl_process :: "'x usbd_env \<Rightarrow> 'x vk_usbd_dev_t \<Rightarrow> (int \<times> 'x vk_usbd_dev_t) option" where
  "p_vk_usbd_stdctrl_process e d =
     (let r = u_request d; recip = bRequestType r AND 0x1F
      in if recip = 0
         then if bRequest r = 0x05
              then let d = d\<lparr>u_address := wValue r mod 2 ^ 8\<rparr> in Some (0, tell e (Drv_Set_Address (u_address d)) d)
              else if bRequest r = 0x09 then Some (0, d\<lparr>u_configured := True\<rparr>)
              else Some (0, d)
         else if recip = 1
         then do {
           config \<leftarrow> vk_usbd_get_cur_cfg d;
           (if length (cfg_ifs config) \<le> wIndex r then Some (- 7, d)
            else if bRequest r = 0x0B
            then case Option.bind (class_op (cfg_ifs config ! wIndex r)) (class_request_process e) of
                   None \<Rightarrow> Some (0, d)
                 | Some f \<Rightarrow> do {(_, d) \<leftarrow> f (wIndex r) d; Some (0, d)}
            else Some (0, d))}
         else Some (0, d))"

text \<open>Requests of classes and of the vendor go to the interface they are for.\<close>

definition request_ifs :: "usb_ctrlrequest_t \<Rightarrow> vk_usbd_cfg_t \<Rightarrow> nat option" where
  "request_ifs r config =
     (let tmp = wIndex r mod 256; recip = bRequestType r AND 0x1F
      in if recip = 1 then if tmp < length (cfg_ifs config) then Some tmp else None
         else if recip = 2 then p_vk_usbd_get_ifs_byep config tmp
         else None)"

definition p_vk_usbd_ctrl_prepare :: "'x usbd_env \<Rightarrow> 'x vk_usbd_dev_t \<Rightarrow> (int \<times> 'x vk_usbd_dev_t) option" where
  "p_vk_usbd_ctrl_prepare e d = do {
     config \<leftarrow> vk_usbd_get_cur_cfg d;
     let r = u_request d;
     let type = bRequestType r AND 0x60;
     let recip = bRequestType r AND 0x1F;
     (if type = 0 then p_vk_usbd_stdctrl_prepare e d
      else if recip \<noteq> 1 \<and> recip \<noteq> 2
      then if type = 0x40 then case vendor_prepare e of None \<Rightarrow> None | Some f \<Rightarrow> f d else None
      else case request_ifs r config of
             None \<Rightarrow> Some (- 7, d)
           | Some i \<Rightarrow> (case Option.bind (class_op (cfg_ifs config ! i)) (class_request_prepare e) of
                          None \<Rightarrow> Some (- 7, d)
                        | Some f \<Rightarrow> f i d))}"

definition p_vk_usbd_ctrl_process :: "'x usbd_env \<Rightarrow> 'x vk_usbd_dev_t \<Rightarrow> 'x vk_usbd_dev_t option" where
  "p_vk_usbd_ctrl_process e d = do {
     config \<leftarrow> vk_usbd_get_cur_cfg d;
     let r = u_request d;
     let type = bRequestType r AND 0x60;
     let recip = bRequestType r AND 0x1F;
     (if type = 0 then map_option snd (p_vk_usbd_stdctrl_process e d)
      else if recip \<noteq> 1 \<and> recip \<noteq> 2
      then if type = 0x40 then case vendor_process e of None \<Rightarrow> Some d | Some f \<Rightarrow> f d else None
      else case request_ifs r config of
             None \<Rightarrow> Some d
           | Some i \<Rightarrow> (case Option.bind (class_op (cfg_ifs config ! i)) (class_request_process e) of
                          None \<Rightarrow> Some d
                        | Some f \<Rightarrow> map_option snd (f i d)))}"

definition vk_usbd_stdreq_status_stage :: "'x usbd_env \<Rightarrow> 'x vk_usbd_dev_t \<Rightarrow> 'x vk_usbd_dev_t" where
  "vk_usbd_stdreq_status_stage e d = tell e (Drv_Status_Stage (bRequestType (u_request d) AND 0x80 = 0)) d"

definition stall_ep0 :: "'x usbd_env \<Rightarrow> 'x vk_usbd_dev_t \<Rightarrow> 'x vk_usbd_dev_t" where
  "stall_ep0 e d = tell e (Drv_Ep_Set_Stall 0x80) (tell e (Drv_Ep_Set_Stall 0x00) d)"

definition p_vk_usbd_setup_status_callback :: "'x usbd_env \<Rightarrow> 'x vk_usbd_dev_t \<Rightarrow> 'x vk_usbd_dev_t option" where
  "p_vk_usbd_setup_status_callback e d = do {
     (err, d) \<leftarrow> notify_user e USB_ON_STATUS_QUERY d;
     Some (if 0 < err then d else if err < 0 then stall_ep0 e d else vk_usbd_stdreq_status_stage e d)}"

definition vk_usbd_stdreq_data_stage :: "'x usbd_env \<Rightarrow> 'x vk_usbd_dev_t \<Rightarrow> 'x vk_usbd_dev_t option" where
  "vk_usbd_stdreq_data_stage e d =
     (let r = u_request d;
          d = (if wLength r < t_size (u_trans d 0) then upd_trans 0 (\<lambda>x. x\<lparr>t_size := wLength r\<rparr>) d else d)
      in if bRequestType r AND 0x80 = 0
         then if wLength r = 0 then p_vk_usbd_setup_status_callback e d
              else map_option snd (vk_usbd_ep_recv e 0 (upd_trans 0 (\<lambda>x. x\<lparr>t_on_finish := Status_End\<rparr>) d))
         else map_option snd (vk_usbd_ep_send e 0 (upd_trans 0 (\<lambda>x. x\<lparr>t_on_finish := Status_End,
                t_zlp := (0 < t_size x \<and> t_size x < wLength r)\<rparr>) d)))"

definition p_vk_usbd_trans_finish :: "'x usbd_env \<Rightarrow> nat \<Rightarrow> 'x vk_usbd_dev_t \<Rightarrow> 'x vk_usbd_dev_t option" where
  "p_vk_usbd_trans_finish e t d = do {
     (_, d) \<leftarrow> notify_user e (if t_ep (u_trans d t) AND 0x80 \<noteq> 0 then USB_ON_IN else USB_ON_OUT) d;
     let d = trans_remove t d;
     (case t_on_finish (u_trans d t) of
        Eda_End eda \<Rightarrow> post_msg e eda t d
      | Status_End \<Rightarrow> p_vk_usbd_setup_status_callback e d
      | User_End k \<Rightarrow> user_end e k d
      | No_End \<Rightarrow> Some d)}"

section \<open>Events\<close>

definition usbd_reset :: "'x usbd_env \<Rightarrow> usb_evt_t \<Rightarrow> 'x vk_usbd_dev_t \<Rightarrow> 'x vk_usbd_dev_t option" where
  "usbd_reset e evt d = do {
     d \<leftarrow> p_vk_usbd_cfg_fini e d;
     let d = d\<lparr>u_config := map (\<lambda>c. c\<lparr>ep_ifs_map := replicate 32 (- 1)\<rparr>) (u_config d),
               u_configured := False, u_configuration := 0, u_feature := 0\<rparr>;
     (bad, d) \<leftarrow>
       (if evt = USB_ON_RESET
        then do {
          let d = tell e Drv_Reset d;
          desc \<leftarrow> vk_usbd_get_descriptor (u_desc d) 1 0 0;
          (if d_size desc = 18 \<and> byte (d_buffer desc) 0 = Some 18 \<and> byte (d_buffer desc) 1 = Some 1
              \<and> byte (d_buffer desc) 17 = Some (length (u_config d))
           then do {
             ep_size \<leftarrow> byte (d_buffer desc) 7;
             let (err, d) = call e (Drv_Ep_Add 0x00 0 ep_size) d;
             (if err \<noteq> 0 then Some (True, d)
              else let (err, d) = call e (Drv_Ep_Add 0x80 0 ep_size) d in Some (err \<noteq> 0, d))}
           else None)}
        else Some (False, d));
     (if bad then Some d
      else do {
        (_, d) \<leftarrow> notify_user e evt d;
        Some (tell e (Drv_Set_Address 0) d)})}"

definition usbd_on_setup :: "'x usbd_env \<Rightarrow> 'x vk_usbd_dev_t \<Rightarrow> 'x vk_usbd_dev_t option" where
  "usbd_on_setup e d = do {
     let d = tell e Drv_Get_Setup (d\<lparr>u_request := drv_setup e (u_calls d)\<rparr>);
     (err, d) \<leftarrow> notify_user e USB_ON_SETUP d;
     (if 0 < err then Some d
      else if err < 0 then Some (stall_ep0 e d)
      else do {
        (err, d) \<leftarrow> p_vk_usbd_ctrl_prepare e d;
        (if 0 < err then Some d
         else if err < 0 then Some (stall_ep0 e d)
         else vk_usbd_stdreq_data_stage e d)})}"

definition usbd_on_in :: "'x usbd_env \<Rightarrow> nat \<Rightarrow> 'x vk_usbd_dev_t \<Rightarrow> 'x vk_usbd_dev_t option" where
  "usbd_on_in e value d = do {
     let ep = value OR 0x80;
     t \<leftarrow> p_vk_usbd_get_trans d ep;
     (if t_size (u_trans d t) \<noteq> 0 then Some (snd (p_vk_usbd_ep_send_imp e t d))
      else if t_zlp (u_trans d t)
      then Some (tell e (Drv_Ep_Set_Data_Size ep 0) (upd_trans t (\<lambda>x. x\<lparr>t_zlp := False\<rparr>) d))
      else p_vk_usbd_trans_finish e t d)}"

text \<open>In the mode for whole transfers the controller has stored the data itself.\<close>

definition usbd_on_out :: "'x usbd_env \<Rightarrow> nat \<Rightarrow> 'x vk_usbd_dev_t \<Rightarrow> 'x vk_usbd_dev_t option" where
  "usbd_on_out e value d = do {
     let ep = value OR 0x00;
     t \<leftarrow> p_vk_usbd_get_trans d ep;
     (case t_buffer (u_trans d t) of
        None \<Rightarrow> p_vk_usbd_trans_finish e t d
      | Some bs \<Rightarrow>
          let (n, d) = call e (Drv_Ep_Get_Data_Size ep) d;
              pkg_size = nat n;
              (whole, d) = trans_mode e t d
          in if whole
             then if t_size (u_trans d t) < pkg_size then None
                  else p_vk_usbd_trans_finish e t (upd_trans t (\<lambda>x. x\<lparr>t_size := t_size x - pkg_size\<rparr>) d)
             else
               let (s, d) = call e (Drv_Ep_Get_Size ep) d;
                   pkg_size = min pkg_size (t_size (u_trans d t));
                   data = take pkg_size (drv_bytes e (u_calls d) (Drv_Ep_Read_Buffer ep pkg_size));
                   d = tell e (Drv_Ep_Read_Buffer ep pkg_size) d;
                   d = upd_trans t (\<lambda>x. x\<lparr>t_buffer := Some (take (t_cur x) bs @ data @ drop (t_cur x + length data) bs),
                         t_cur := t_cur x + pkg_size, t_size := t_size x - pkg_size\<rparr>) d
               in if 0 < t_size (u_trans d t) \<and> pkg_size = nat s then Some (tell e (Drv_Ep_Enable_Out ep) d)
                  else p_vk_usbd_trans_finish e t d)}"

definition usbd_event :: "'x usbd_env \<Rightarrow> usb_evt_t \<Rightarrow> nat \<Rightarrow> 'x vk_usbd_dev_t \<Rightarrow> 'x vk_usbd_dev_t option" where
  "usbd_event e evt value d =
     (case evt of
        USB_ON_DETACH \<Rightarrow> usbd_reset e evt d
      | USB_ON_RESET \<Rightarrow> usbd_reset e evt d
      | USB_ON_SETUP \<Rightarrow> usbd_on_setup e d
      | USB_ON_STATUS \<Rightarrow> do {(_, d) \<leftarrow> notify_user e evt d; p_vk_usbd_ctrl_process e d}
      | USB_ON_IN \<Rightarrow> usbd_on_in e value d
      | USB_ON_OUT \<Rightarrow> usbd_on_out e value d
      | USB_ON_INIT \<Rightarrow> Some d
      | USB_ON_FINI \<Rightarrow> Some d
      | USB_ON_STATUS_QUERY \<Rightarrow> Some d
      | _ \<Rightarrow> map_option snd (notify_user e evt d))"

text \<open>
  The events of the controller reach the task of the device as numbers of 16 bits with a sign, \<open>vsf_evt_t\<close>. \<open>VSF_EVT_USER\<close> is 266 and
  \<open>VSF_EVT_TIMER\<close> is smaller.
\<close>

definition usb_evt_list :: "usb_evt_t list" where
  "usb_evt_list = [USB_ON_ATTACH, USB_ON_DETACH, USB_ON_RESET, USB_ON_SETUP, USB_ON_ERROR, USB_ON_SUSPEND, USB_ON_RESUME, USB_ON_SOF,
     USB_ON_IN, USB_ON_NAK, USB_ON_OUT, USB_ON_STATUS, USB_ON_UNDERFLOW, USB_ON_OVERFLOW, USB_ON_INIT, USB_ON_FINI, USB_ON_STATUS_QUERY]"

definition p_vk_usbd_hal_evthandler :: "nat \<Rightarrow> nat \<Rightarrow> int" where
  "p_vk_usbd_hal_evthandler evt value = signed_take_bit 15 (266 + int (evt OR push_bit 8 value))"

definition p_vk_usbd_evthandler :: "'x usbd_env \<Rightarrow> bool \<Rightarrow> int \<Rightarrow> 'x vk_usbd_dev_t \<Rightarrow> 'x vk_usbd_dev_t option" where
  "p_vk_usbd_evthandler e timer evt_eda d =
     (if timer
      then Some (if u_wakeup_pending d then tell e (Drv_Wakeup False) (d\<lparr>u_wakeup_pending := False\<rparr>) else d)
      else if evt_eda < 266 then Some d
      else
        let n = nat (evt_eda - 266); value = n div 256; evt = n mod 256
        in if evt < length usb_evt_list then usbd_event e (usb_evt_list ! evt) value d else Some d)"

definition vk_usbd_connect :: "'x usbd_env \<Rightarrow> 'x vk_usbd_dev_t \<Rightarrow> 'x vk_usbd_dev_t" where
  "vk_usbd_connect e d = tell e Drv_Connect d"

definition vk_usbd_disconnect :: "'x usbd_env \<Rightarrow> 'x vk_usbd_dev_t \<Rightarrow> 'x vk_usbd_dev_t option" where
  "vk_usbd_disconnect e d = do {
     d \<leftarrow> p_vk_usbd_cfg_fini e d;
     Some (tell e Drv_Disconnect d)}"

definition vk_usbd_wakeup :: "'x usbd_env \<Rightarrow> 'x vk_usbd_dev_t \<Rightarrow> 'x vk_usbd_dev_t" where
  "vk_usbd_wakeup e d =
     (if u_feature d AND 0x20 = 0 then d
      else tell e (Set_Timer_Ms 5) (tell e (Drv_Wakeup True) (d\<lparr>u_wakeup_pending := True\<rparr>)))"

definition vk_usbd_init :: "'x usbd_env \<Rightarrow> 'x vk_usbd_dev_t \<Rightarrow> 'x vk_usbd_dev_t option" where
  "vk_usbd_init e d = do {
     let d = upd_trans 0 (\<lambda>x. x\<lparr>t_ep := 0\<rparr>) (d\<lparr>u_configured := False, u_configuration := 0, u_feature := 0\<rparr>);
     d \<leftarrow> each (\<lambda>i d. do {
         desc \<leftarrow> vk_usbd_get_descriptor (u_desc d) 2 i 0;
         value \<leftarrow> byte (d_buffer desc) 5;
         (if config_desc_ok desc (length (cfg_ifs (u_config d ! i)))
          then Some (upd_cfg i (\<lambda>c. c\<lparr>configuration_value := value, cfg_ifs := map (\<lambda>x. x\<lparr>is_inited := False\<rparr>) (cfg_ifs c)\<rparr>) d)
          else None)}) [0..<length (u_config d)] d;
     (_, d) \<leftarrow> notify_user e USB_ON_INIT (tell e Drv_Init (d\<lparr>u_wakeup_pending := False\<rparr>));
     Some d}"

definition vk_usbd_fini :: "'x usbd_env \<Rightarrow> 'x vk_usbd_dev_t \<Rightarrow> 'x vk_usbd_dev_t option" where
  "vk_usbd_fini e d = do {
     d \<leftarrow> vk_usbd_disconnect e d;
     (_, d) \<leftarrow> notify_user e USB_ON_FINI (tell e Drv_Fini d);
     Some d}"

end
