(* ===== verification/VSF_Usbd_Correct.thy ===== *)
theory VSF_Usbd_Correct
  imports VSF_Usbd
begin

unbundle bit_operations_syntax

text \<open>
  Correctness of the USB device core: the packets of a transfer to the host, a control transfer from its request to its status
  stage, and the invariant that every event keeps.
\<close>

section \<open>Packets of a transfer to the host\<close>

text \<open>
  What the specification of USB asks for: packets of the size of the endpoint, and at the end a shorter one, if need be an
  empty one, when the host is to see the end of the transfer.
\<close>

function packets :: "nat \<Rightarrow> u8 list \<Rightarrow> bool \<Rightarrow> u8 list list" where
  "packets n bs zlp =
     (if length bs < n \<or> n = 0 then [bs]
      else if length bs = n then bs # (if zlp then [[]] else [])
      else take n bs # packets n (drop n bs) zlp)"
  by pat_completeness auto
termination by (relation "measure (\<lambda>(_, bs, _). length bs)") auto

declare packets.simps [simp del]

lemma packets_concat: "concat (packets n bs zlp) = bs"
  by (induction n bs zlp rule: packets.induct) (simp add: packets.simps)

lemma packets_le:
  assumes "0 < n"
  shows "\<forall>p \<in> set (packets n bs zlp). length p \<le> n"
  using assms by (induction n bs zlp rule: packets.induct) (subst packets.simps, auto)

lemma packets_short:
  assumes "0 < n" "zlp"
  shows "length (last (packets n bs zlp)) < n"
  using assms
proof (induction n bs zlp rule: packets.induct)
  case (1 n bs zlp)
  have "packets n (drop n bs) zlp \<noteq> []" by (subst packets.simps) auto
  then show ?case using 1 by (subst packets.simps) auto
qed

text \<open>The packets that the calls of the driver hand over to an endpoint.\<close>

fun sent :: "nat \<Rightarrow> u8 list \<Rightarrow> usbd_call list \<Rightarrow> u8 list list" where
  "sent ep cur [] = []"
| "sent ep cur (Drv_Ep_Write_Buffer a bs # cs) = sent ep (if a = ep then bs else cur) cs"
| "sent ep cur (Drv_Ep_Set_Data_Size a k # cs) = (if a = ep then take k cur # sent ep [] cs else sent ep cur cs)"
| "sent ep cur (_ # cs) = sent ep cur cs"

text \<open>A controller that works packet by packet on an endpoint and takes every packet, and the default hook of the user.\<close>

definition packet_env :: "nat \<Rightarrow> nat \<Rightarrow> 'x usbd_env \<Rightarrow> bool" where
  "packet_env ep n e \<longleftrightarrow> (\<forall>cs. drv_num e cs (Drv_Ep_Get_Size ep) = int n) \<and> (\<forall>cs k. drv_num e cs (Drv_Ep_Set_Data_Size ep k) = 0)
     \<and> (\<forall>cs f. drv_num e cs (Drv_Ep_Get_Feature ep f) = 0)"

definition quiet_env :: "'x usbd_env \<Rightarrow> bool" where
  "quiet_env e \<longleftrightarrow> (\<forall>evt d. notify_user e evt d = Some (0, d))"

fun in_events :: "'x usbd_env \<Rightarrow> nat \<Rightarrow> nat \<Rightarrow> 'x vk_usbd_dev_t \<Rightarrow> 'x vk_usbd_dev_t option" where
  "in_events e v 0 d = Some d"
| "in_events e v (Suc k) d = do {d \<leftarrow> usbd_event e USB_ON_IN v d; in_events e v k d}"

text \<open>The device behind the calls \<open>cs\<close>, with the first \<open>k\<close> bytes of the rest of a transfer gone.\<close>

definition advanced :: "nat \<Rightarrow> nat \<Rightarrow> bool \<Rightarrow> usbd_call list \<Rightarrow> 'x vk_usbd_dev_t \<Rightarrow> 'x vk_usbd_dev_t" where
  "advanced t k z cs d =
     upd_trans t (\<lambda>x. x\<lparr>t_cur := t_cur x + k, t_size := t_size x - k, t_zlp := z\<rparr>) (d\<lparr>u_calls := u_calls d @ cs\<rparr>)"

lemma send_imp_eq:
  assumes "packet_env (t_ep (u_trans d t)) n e"
  shows "p_vk_usbd_ep_send_imp e t d =
    (let x = u_trans d t; k = min n (t_size x)
     in (0, advanced t k (t_zlp x \<and> \<not> (t_size x < n))
          [Drv_Ep_Get_Size (t_ep x), Drv_Ep_Write_Buffer (t_ep x) (trans_data x k), Drv_Ep_Set_Data_Size (t_ep x) k] d))"
  using assms by (auto simp: p_vk_usbd_ep_send_imp_def packet_env_def call_def tell_def upd_trans_def advanced_def Let_def min_def fun_eq_iff)

lemma advanced_advanced: "advanced t k z cs (advanced t k' z' cs' d) = advanced t (k' + k) z (cs' @ cs) d"
  by (simp add: advanced_def upd_trans_def add.assoc fun_eq_iff)

lemma advanced_simps [simp]:
  "u_trans_list (advanced t k z cs d) = u_trans_list d"
  "u_calls (advanced t k z cs d) = u_calls d @ cs"
  "t_ep (u_trans (advanced t k z cs d) s) = t_ep (u_trans d s)"
  "t_on_finish (u_trans (advanced t k z cs d) s) = t_on_finish (u_trans d s)"
  "t_size (u_trans (advanced t k z cs d) t) = t_size (u_trans d t) - k"
  "t_zlp (u_trans (advanced t k z cs d) t) = z"
  "u_request (advanced t k z cs d) = u_request d"
  by (simp_all add: advanced_def upd_trans_def)

lemma get_trans_advanced [simp]: "p_vk_usbd_get_trans (advanced t k z cs d) = p_vk_usbd_get_trans d"
  by (simp add: p_vk_usbd_get_trans_def fun_eq_iff)

lemma trans_data_advanced:
  "trans_data (u_trans (advanced t k z cs d) t) m = drop k (trans_data (u_trans d t) (k + m))"
  by (simp add: trans_data_def advanced_def upd_trans_def drop_take add.commute split: option.split)

lemma trans_data_take: "k \<le> m \<Longrightarrow> trans_data x k = take k (trans_data x m)"
  by (simp add: trans_data_def min_absorb1 split: option.split)

lemma in_events_none [simp]: "in_events e v 0 = Some"
  by (simp add: fun_eq_iff)

text \<open>One event after another, a transfer hands over its packets and then ends.\<close>

lemma in_event_end:
  assumes "p_vk_usbd_get_trans d (v OR 0x80) = Some t" "t_size (u_trans d t) = 0" "\<not> t_zlp (u_trans d t)"
  shows "usbd_event e USB_ON_IN v d = p_vk_usbd_trans_finish e t d"
  using assms by (simp add: usbd_event_def usbd_on_in_def)

lemma in_event_zlp:
  assumes "p_vk_usbd_get_trans d (v OR 0x80) = Some t" "t_size (u_trans d t) = 0" "t_zlp (u_trans d t)"
  shows "usbd_event e USB_ON_IN v d = Some (advanced t 0 False [Drv_Ep_Set_Data_Size (v OR 0x80) 0] d)"
  using assms by (simp add: usbd_event_def usbd_on_in_def advanced_def upd_trans_def tell_def call_def)

lemma in_event_more:
  assumes "p_vk_usbd_get_trans d (v OR 0x80) = Some t" "0 < t_size (u_trans d t)"
  shows "usbd_event e USB_ON_IN v d = Some (snd (p_vk_usbd_ep_send_imp e t d))"
  using assms by (simp add: usbd_event_def usbd_on_in_def)

lemma send_packets:
  assumes "packet_env (v OR 0x80) n e" "0 < n" "p_vk_usbd_get_trans d (v OR 0x80) = Some t"
    and "t_ep (u_trans d t) = v OR 0x80" "length (trans_data (u_trans d t) (t_size (u_trans d t))) = t_size (u_trans d t)"
  shows "\<exists>cs. in_events e v (length (packets n (trans_data (u_trans d t) (t_size (u_trans d t))) (t_zlp (u_trans d t))))
             (snd (p_vk_usbd_ep_send_imp e t d)) = p_vk_usbd_trans_finish e t (advanced t (t_size (u_trans d t)) False cs d)
           \<and> sent (v OR 0x80) [] cs = packets n (trans_data (u_trans d t) (t_size (u_trans d t))) (t_zlp (u_trans d t))"
  using assms(3-5)
proof (induction "t_size (u_trans d t)" arbitrary: d rule: less_induct)
  case less
  define x where "x = u_trans d t"
  define ds where "ds = trans_data x (t_size x)"
  have len: "length ds = t_size x" using less.prems by (simp add: ds_def x_def)
  have imp: "snd (p_vk_usbd_ep_send_imp e t d) =
      (let k = min n (t_size x) in advanced t k (t_zlp x \<and> \<not> t_size x < n)
         [Drv_Ep_Get_Size (v OR 0x80), Drv_Ep_Write_Buffer (v OR 0x80) (take k ds), Drv_Ep_Set_Data_Size (v OR 0x80) k] d)"
    using assms(1) less.prems(2) send_imp_eq [of d t n e] trans_data_take [of "min n (t_size x)" "t_size x" x]
    by (simp add: x_def ds_def Let_def)
  consider "t_size x < n" | "t_size x = n" | "n < t_size x" by linarith
  then show ?case
  proof cases
    case 1
    then show ?thesis using less.prems len imp in_event_end [of _ v t e]
      by (intro exI [of _ "[Drv_Ep_Get_Size (v OR 0x80), Drv_Ep_Write_Buffer (v OR 0x80) ds, Drv_Ep_Set_Data_Size (v OR 0x80) (t_size x)]"])
        (simp add: packets.simps Let_def flip: x_def ds_def)
  next
    case 2
    then have "trans_data x n = ds" by (simp add: ds_def)
    then show ?thesis using 2 assms(2) less.prems len imp in_event_end [of _ v t e] in_event_zlp [of _ v t e]
      by (intro exI [of _ "[Drv_Ep_Get_Size (v OR 0x80), Drv_Ep_Write_Buffer (v OR 0x80) ds, Drv_Ep_Set_Data_Size (v OR 0x80) n]
             @ (if t_zlp x then [Drv_Ep_Set_Data_Size (v OR 0x80) 0] else [])"])
        (simp add: packets.simps Let_def advanced_advanced flip: x_def ds_def)
  next
    case 3
    define cs1 where "cs1 = [Drv_Ep_Get_Size (v OR 0x80), Drv_Ep_Write_Buffer (v OR 0x80) (take n ds), Drv_Ep_Set_Data_Size (v OR 0x80) n]"
    define d1 where "d1 = advanced t n (t_zlp x) cs1 d"
    have d1: "snd (p_vk_usbd_ep_send_imp e t d) = d1" using 3 imp by (simp add: d1_def cs1_def Let_def)
    have sz: "t_size (u_trans d1 t) = t_size x - n" "t_zlp (u_trans d1 t) = t_zlp x" by (simp_all add: d1_def x_def)
    have rest: "trans_data (u_trans d1 t) (t_size x - n) = drop n ds"
      using 3 by (simp add: d1_def trans_data_advanced ds_def x_def)
    obtain cs where cs: "in_events e v (length (packets n (drop n ds) (t_zlp x))) (snd (p_vk_usbd_ep_send_imp e t d1))
          = p_vk_usbd_trans_finish e t (advanced t (t_size x - n) False cs d1)"
        "sent (v OR 0x80) [] cs = packets n (drop n ds) (t_zlp x)"
      using less.hyps [of d1] 3 assms(2) less.prems rest sz len by (auto simp: d1_def x_def)
    have ps: "packets n ds (t_zlp x) = take n ds # packets n (drop n ds) (t_zlp x)"
      using 3 len assms(2) by (subst packets.simps) simp
    have "usbd_event e USB_ON_IN v d1 = Some (snd (p_vk_usbd_ep_send_imp e t d1))"
      using 3 less.prems sz by (intro in_event_more) (simp_all add: d1_def)
    then have "in_events e v (length (packets n ds (t_zlp x))) d1 = p_vk_usbd_trans_finish e t (advanced t (t_size x) False (cs1 @ cs) d)"
      using cs(1) 3 by (simp add: ps d1_def advanced_advanced)
    moreover have "sent (v OR 0x80) [] (cs1 @ cs) = packets n ds (t_zlp x)" using cs(2) by (simp add: cs1_def ps)
    ultimately show ?thesis unfolding x_def [symmetric] ds_def [symmetric] d1 by blast
  qed
qed

text \<open>The device at the start of the transfer \<open>t\<close> to the host.\<close>

definition started :: "nat \<Rightarrow> 'x vk_usbd_dev_t \<Rightarrow> 'x vk_usbd_dev_t" where
  "started t d = upd_trans t (\<lambda>x. x\<lparr>t_ep := t_ep x OR 0x80, t_cur := 0\<rparr>)
     (d\<lparr>u_trans_list := t # u_trans_list d,
        u_calls := u_calls d @ [Drv_Ep_Get_Feature (t_ep (u_trans d t) OR 0x80) (t_feature (u_trans d t))]\<rparr>)"

lemma ep_send_eq:
  assumes "packet_env (t_ep (u_trans d t) OR 0x80) n e" "t \<notin> set (u_trans_list d)"
  shows "vk_usbd_ep_send e t d = Some (0, snd (p_vk_usbd_ep_send_imp e t (started t d)))"
proof -
  have "fst (p_vk_usbd_ep_send_imp e t (started t d)) = 0"
    using assms(1) by (subst send_imp_eq [of _ _ n]) (simp_all add: Let_def started_def upd_trans_def)
  moreover have "vk_usbd_ep_send e t d =
      (let (err, d) = p_vk_usbd_ep_send_imp e t (started t d) in Some (err, if err \<noteq> 0 then trans_remove t d else d))"
    using assms by (simp add: vk_usbd_ep_send_def trans_add_def trans_mode_def packet_env_def started_def call_def upd_trans_def)
  ultimately show ?thesis by (simp add: case_prod_unfold)
qed

section \<open>A control transfer to the host\<close>

text \<open>The device with the transfer of endpoint 0 that is to answer the request \<open>r\<close>.\<close>

definition answering :: "usb_ctrlrequest_t \<Rightarrow> u8 list \<Rightarrow> usbd_call list \<Rightarrow> 'x vk_usbd_dev_t \<Rightarrow> 'x vk_usbd_dev_t" where
  "answering r bs cs d =
     upd_trans 0 (\<lambda>x. x\<lparr>t_buffer := (if bs = [] then None else Some bs), t_size := min (wLength r) (length bs),
         t_on_finish := Status_End, t_zlp := (0 < min (wLength r) (length bs) \<and> length bs < wLength r),
         t_ep := t_ep x OR 0x80, t_cur := 0\<rparr>)
       (d\<lparr>u_request := r, u_trans_list := 0 # u_trans_list d, u_calls := u_calls d @ cs\<rparr>)"

lemma answering_simps [simp]:
  "p_vk_usbd_get_trans (answering r bs cs d) ep = (if t_ep (u_trans d 0) OR 0x80 = ep then Some 0 else
     List.find (\<lambda>t. t_ep (u_trans (answering r bs cs d) t) = ep) (u_trans_list d))"
  "t_ep (u_trans (answering r bs cs d) 0) = t_ep (u_trans d 0) OR 0x80"
  "t_size (u_trans (answering r bs cs d) 0) = min (wLength r) (length bs)"
  "t_zlp (u_trans (answering r bs cs d) 0) = (0 < min (wLength r) (length bs) \<and> length bs < wLength r)"
  "t_on_finish (u_trans (answering r bs cs d) 0) = Status_End"
  "u_trans_list (answering r bs cs d) = 0 # u_trans_list d"
  "u_calls (answering r bs cs d) = u_calls d @ cs"
  "u_request (answering r bs cs d) = r"
  "trans_data (u_trans (answering r bs cs d) 0) k = take k bs"
  by (simp_all add: answering_def upd_trans_def p_vk_usbd_get_trans_def trans_data_def)

lemma send_answering:
  assumes "packet_env 0x80 n e" "0 \<notin> set (u_trans_list d)" "t_ep (u_trans d 0) OR 0x80 = 0x80" "bRequestType r AND 0x80 \<noteq> 0"
  shows "vk_usbd_stdreq_data_stage e (upd_trans 0 (\<lambda>x. x\<lparr>t_buffer := (if bs = [] then None else Some bs), t_size := length bs\<rparr>)
      (d\<lparr>u_request := r, u_calls := u_calls d @ cs\<rparr>)) =
    Some (snd (p_vk_usbd_ep_send_imp e 0 (answering r bs (cs @ [Drv_Ep_Get_Feature 0x80 (t_feature (u_trans d 0))]) d)))"
    (is "vk_usbd_stdreq_data_stage e ?d = Some (snd (p_vk_usbd_ep_send_imp e 0 ?a))")
proof -
  define d' where "d' = upd_trans 0 (\<lambda>x. x\<lparr>t_on_finish := Status_End, t_zlp := (0 < t_size x \<and> t_size x < wLength r)\<rparr>)
    (if wLength r < length bs then upd_trans 0 (\<lambda>x. x\<lparr>t_size := wLength r\<rparr>) ?d else ?d)"
  have "vk_usbd_stdreq_data_stage e ?d = map_option snd (vk_usbd_ep_send e 0 d')"
    using assms(4) by (simp add: vk_usbd_stdreq_data_stage_def d'_def Let_def upd_trans_def)
  also have "vk_usbd_ep_send e 0 d' = Some (0, snd (p_vk_usbd_ep_send_imp e 0 (started 0 d')))"
    using assms by (intro ep_send_eq) (simp_all add: d'_def upd_trans_def)
  also have "started 0 d' = ?a" using assms(3) by (auto simp: started_def d'_def answering_def upd_trans_def min_def)
  finally show ?thesis by simp
qed

lemma setup_get_descriptor:
  assumes "quiet_env e" "packet_env 0x80 n e" "0 \<notin> set (u_trans_list d)" "t_ep (u_trans d 0) OR 0x80 = 0x80"
    and "u_configuration d < length (u_config d)"
    and "drv_setup e (u_calls d) = r" "bRequestType r = 0x80" "bRequest r = 6"
    and "vk_usbd_get_descriptor (u_desc d) (wValue r div 256 mod 256) (wValue r mod 256) (wIndex r) = Some desc"
    and "length (d_buffer desc) = d_size desc"
  shows "usbd_event e USB_ON_SETUP v d =
    Some (snd (p_vk_usbd_ep_send_imp e 0 (answering r (d_buffer desc)
      [Drv_Get_Setup, Drv_Ep_Get_Feature 0x80 (t_feature (u_trans d 0))] d)))"
proof -
  define d1 where "d1 = d\<lparr>u_request := r, u_calls := u_calls d @ [Drv_Get_Setup]\<rparr>"
  define d2 where "d2 = upd_trans 0 (\<lambda>x. x\<lparr>t_buffer := (if d_buffer desc = [] then None else Some (d_buffer desc)),
    t_size := length (d_buffer desc)\<rparr>) d1"
  have prepare: "p_vk_usbd_ctrl_prepare e d1 = Some (0, d2)"
    using assms(5,7,8,9,10) by (simp add: d1_def d2_def p_vk_usbd_ctrl_prepare_def p_vk_usbd_stdctrl_prepare_def vk_usbd_get_cur_cfg_def
        stdctrl_device_def Let_def flip: length_0_conv)
  have "vk_usbd_stdreq_data_stage e d2 = Some (snd (p_vk_usbd_ep_send_imp e 0 (answering r (d_buffer desc)
      [Drv_Get_Setup, Drv_Ep_Get_Feature 0x80 (t_feature (u_trans d 0))] d)))"
    using assms(2,3,4,7) send_answering [of n e d r "d_buffer desc" "[Drv_Get_Setup]"]
    by (simp add: d2_def d1_def)
  then show ?thesis using assms(1,6) prepare
    by (simp add: usbd_event_def usbd_on_setup_def quiet_env_def tell_def call_def d1_def)
qed

text \<open>The end of the transfer of endpoint 0 is the status stage.\<close>

lemma finish_status:
  assumes "quiet_env e" "t_on_finish (u_trans d t) = Status_End"
  shows "p_vk_usbd_trans_finish e t d = Some (trans_remove t (d\<lparr>u_calls := u_calls d @ [Drv_Status_Stage (bRequestType (u_request d) AND 0x80 = 0)]\<rparr>))"
  using assms by (simp add: p_vk_usbd_trans_finish_def quiet_env_def p_vk_usbd_setup_status_callback_def trans_remove_def
      vk_usbd_stdreq_status_stage_def tell_def call_def)

lemma packets_empty: "packets n [] z = (if n = 0 \<or> 0 < n then [[]] else [])"
  by (subst packets.simps) auto

text \<open>
  C27. A host that asks for a descriptor gets it: on a controller that works packet by packet with packets of \<open>n\<close> bytes on
  endpoint 0, the event of the request and one IN event for each packet hand over, packet by packet, the first \<open>wLength\<close> bytes of
  the descriptor, end with a short packet whenever the descriptor is shorter than the host asked for, and lead to the status stage;
  after that the transfer is not in the list any more.
\<close>

theorem usbd_control_read:
  assumes "quiet_env e" "packet_env 0x80 n e" "0 < n" "0 \<notin> set (u_trans_list d)" "t_ep (u_trans d 0) \<in> {0, 0x80}"
    and "u_configuration d < length (u_config d)"
    and "drv_setup e (u_calls d) = r" "bRequestType r = 0x80" "bRequest r = 6"
    and "vk_usbd_get_descriptor (u_desc d) (wValue r div 256 mod 256) (wValue r mod 256) (wIndex r) = Some desc"
    and "length (d_buffer desc) = d_size desc"
  shows "\<exists>ps d' cs. Option.bind (usbd_event e USB_ON_SETUP 0 d) (in_events e 0 (length ps)) = Some d'
    \<and> u_calls d' = u_calls d @ cs @ [Drv_Status_Stage False] \<and> sent 0x80 [] cs = ps
    \<and> concat ps = take (wLength r) (d_buffer desc) \<and> (\<forall>p \<in> set ps. length p \<le> n)
    \<and> (d_size desc < wLength r \<longrightarrow> length (last ps) < n)
    \<and> u_trans_list d' = u_trans_list d"
proof -
  define a where "a = answering r (d_buffer desc) [Drv_Get_Setup, Drv_Ep_Get_Feature 0x80 (t_feature (u_trans d 0))] d"
  define ds where "ds = take (wLength r) (d_buffer desc)"
  have ep: "t_ep (u_trans d 0) OR 0x80 = 0x80" using assms(5) by auto
  have data: "trans_data (u_trans a 0) (t_size (u_trans a 0)) = ds" by (simp add: a_def ds_def min_def)
  have len: "length ds = t_size (u_trans a 0)" by (simp add: a_def ds_def min.commute)
  define ps where "ps = packets n ds (t_zlp (u_trans a 0))"
  obtain cs where cs: "in_events e 0 (length ps) (snd (p_vk_usbd_ep_send_imp e 0 a))
      = p_vk_usbd_trans_finish e 0 (advanced 0 (t_size (u_trans a 0)) False cs a)" "sent 0x80 [] cs = ps"
    using send_packets [of 0 n e a 0] assms(2,3) ep data len unfolding ps_def by (auto simp: a_def)
  define d' where "d' = trans_remove 0 (advanced 0 (t_size (u_trans a 0)) False (cs @ [Drv_Status_Stage False]) a)"
  have "p_vk_usbd_trans_finish e 0 (advanced 0 (t_size (u_trans a 0)) False cs a) = Some d'"
    using assms(1,8) by (subst finish_status) (simp_all add: d'_def a_def advanced_def trans_remove_def upd_trans_def)
  then have run: "Option.bind (usbd_event e USB_ON_SETUP 0 d) (in_events e 0 (length ps)) = Some d'"
    using cs(1) setup_get_descriptor [OF assms(1,2,4) ep assms(6-11), of 0] by (simp add: a_def)
  have calls: "u_calls d' = u_calls d @ ([Drv_Get_Setup, Drv_Ep_Get_Feature 0x80 (t_feature (u_trans d 0))] @ cs) @ [Drv_Status_Stage False]"
    by (simp add: d'_def a_def trans_remove_def)
  have short: "length (last ps) < n" if "d_size desc < wLength r"
  proof (cases "ds = []")
    case True
    then show ?thesis using assms(3) by (simp add: ps_def packets_empty)
  next
    case False
    then have "0 < length (d_buffer desc)" by (simp add: ds_def)
    then show ?thesis using that assms(3,11) by (auto simp: ps_def a_def ds_def intro!: packets_short)
  qed
  show ?thesis
    by (rule exI [of _ ps], rule exI [of _ d'], rule exI [of _ "[Drv_Get_Setup, Drv_Ep_Get_Feature 0x80 (t_feature (u_trans d 0))] @ cs"])
      (use run calls cs(2) short assms(3) packets_le [of n ds] in \<open>simp add: ps_def packets_concat d'_def a_def trans_remove_def flip: ds_def\<close>)
qed

text \<open>A host that asks for the first 64 bytes of the descriptor of the device gets its 18 bytes in packets of 8, 8 and 2 bytes.\<close>

definition request_env :: "usb_ctrlrequest_t \<Rightarrow> unit usbd_env" where
  "request_env r = \<lparr>drv_num = (\<lambda>_ c. case c of Drv_Ep_Get_Size _ \<Rightarrow> 8 | _ \<Rightarrow> 0), drv_bytes = (\<lambda>_ _. []), drv_setup = (\<lambda>_. r),
     notify_user = (\<lambda>_ d. Some (0, d)), class_get_desc = (\<lambda>_. None), class_request_prepare = (\<lambda>_. None),
     class_request_process = (\<lambda>_. None), class_init = (\<lambda>_. None), class_fini = (\<lambda>_. None), config_init = (\<lambda>_. None),
     vendor_prepare = None, vendor_process = None, user_end = (\<lambda>_ d. Some d), post_msg = (\<lambda>_ _ d. Some d)\<rparr>"

definition sample_dev :: "unit vk_usbd_dev_t" where
  "sample_dev = \<lparr>u_desc = [\<lparr>d_type = 1, d_index = 0, d_langid = 0, d_size = 18, d_buffer = [18, 1, 0, 2, 0, 0, 0, 8, 0x66, 0xA6, 0x11, 0x22, 0, 1, 0, 0, 0, 1]\<rparr>,
       \<lparr>d_type = 2, d_index = 0, d_langid = 0, d_size = 9, d_buffer = [9, 2, 9, 0, 1, 1, 0, 0xC0, 50]\<rparr>],
     u_config = [\<lparr>cfg_ifs = [\<lparr>class_op = None, alternate_setting = 0, is_inited = False\<rparr>], configuration_value = 1,
       ep_ifs_map = replicate 32 (- 1)\<rparr>],
     u_request = \<lparr>bRequestType = 0, bRequest = 0, wValue = 0, wIndex = 0, wLength = 0\<rparr>,
     u_trans = (\<lambda>_. \<lparr>t_ep = 0, t_feature = 0, t_zlp = False, t_buffer = None, t_size = 0, t_cur = 0, t_on_finish = No_End\<rparr>),
     u_address = 0, u_configuration = 0, u_feature = 0, u_configured = False, u_trans_list = [], u_wakeup_pending = False,
     u_calls = [], u_user = ()\<rparr>"

definition device_request :: usb_ctrlrequest_t where
  "device_request = \<lparr>bRequestType = 0x80, bRequest = 6, wValue = 0x100, wIndex = 0, wLength = 64\<rparr>"

lemma request_env_ok: "quiet_env (request_env r)" "packet_env 0x80 8 (request_env r)"
  by (simp_all add: quiet_env_def packet_env_def request_env_def)

lemma sample_dev_simps:
  "u_trans_list sample_dev = []" "u_calls sample_dev = []" "u_configuration sample_dev < length (u_config sample_dev)"
  "t_ep (u_trans sample_dev 0) = 0" "length (d_buffer (u_desc sample_dev ! 0)) = d_size (u_desc sample_dev ! 0)"
  "d_size (u_desc sample_dev ! 0) = 18" "d_buffer (u_desc sample_dev ! 0) = [18, 1, 0, 2, 0, 0, 0, 8, 0x66, 0xA6, 0x11, 0x22, 0, 1, 0, 0, 0, 1]"
  "vk_usbd_get_descriptor (u_desc sample_dev) 1 0 0 = Some (u_desc sample_dev ! 0)"
  by (simp_all add: sample_dev_def vk_usbd_get_descriptor_def)

lemma device_request_simps:
  "bRequestType device_request = 0x80" "bRequest device_request = 6" "wValue device_request = 0x100" "wIndex device_request = 0"
  "wLength device_request = 64" "drv_setup (request_env r) cs = r"
  by (simp_all add: device_request_def request_env_def)

theorem usbd_control_read_witness:
  "\<exists>ps d' cs. Option.bind (usbd_event (request_env device_request) USB_ON_SETUP 0 sample_dev)
       (in_events (request_env device_request) 0 (length ps)) = Some d'
    \<and> u_calls d' = cs @ [Drv_Status_Stage False] \<and> sent 0x80 [] cs = ps \<and> concat ps = [18, 1, 0, 2, 0, 0, 0, 8, 0x66, 0xA6, 0x11, 0x22, 0, 1, 0, 0, 0, 1]
    \<and> length (last ps) < 8 \<and> u_trans_list d' = []"
proof -
  have "\<exists>ps d' cs. Option.bind (usbd_event (request_env device_request) USB_ON_SETUP 0 sample_dev)
      (in_events (request_env device_request) 0 (length ps)) = Some d'
    \<and> u_calls d' = u_calls sample_dev @ cs @ [Drv_Status_Stage False] \<and> sent 0x80 [] cs = ps
    \<and> concat ps = take (wLength device_request) (d_buffer (u_desc sample_dev ! 0)) \<and> (\<forall>p \<in> set ps. length p \<le> 8)
    \<and> (d_size (u_desc sample_dev ! 0) < wLength device_request \<longrightarrow> length (last ps) < 8)
    \<and> u_trans_list d' = u_trans_list sample_dev"
    by (rule usbd_control_read) (use sample_dev_simps in \<open>simp_all add: request_env_ok device_request_simps\<close>)
  moreover have "take 64 [18, 1, 0, 2, 0, 0, 0, 8, 0x66, 0xA6, 0x11, 0x22, 0, 1, 0, 0, 0, 1 :: u8]
    = [18, 1, 0, 2, 0, 0, 0, 8, 0x66, 0xA6, 0x11, 0x22, 0, 1, 0, 0, 0, 1]" by simp
  ultimately show ?thesis unfolding sample_dev_simps device_request_simps by auto
qed

section \<open>Packets of a transfer from the host\<close>

text \<open>The controller with a packet in the buffer of an endpoint, and an OUT event for every packet of a list.\<close>

definition deliver :: "nat \<Rightarrow> u8 list \<Rightarrow> 'x usbd_env \<Rightarrow> 'x usbd_env" where
  "deliver ep p e = e\<lparr>drv_num := (\<lambda>cs c. if c = Drv_Ep_Get_Data_Size ep then int (length p) else drv_num e cs c),
     drv_bytes := (\<lambda>cs c. case c of Drv_Ep_Read_Buffer a k \<Rightarrow> if a = ep then take k p else drv_bytes e cs c | _ \<Rightarrow> drv_bytes e cs c)\<rparr>"

fun out_events :: "'x usbd_env \<Rightarrow> nat \<Rightarrow> u8 list list \<Rightarrow> 'x vk_usbd_dev_t \<Rightarrow> 'x vk_usbd_dev_t option" where
  "out_events e v [] d = Some d"
| "out_events e v (p # ps) d = do {d \<leftarrow> usbd_event (deliver v p e) USB_ON_OUT v d; out_events e v ps d}"

lemma out_events_none [simp]: "out_events e v [] = Some"
  by (simp add: fun_eq_iff)

text \<open>The device behind the calls \<open>cs\<close>, with the bytes \<open>ds\<close> stored at the position of a transfer.\<close>

definition stored :: "nat \<Rightarrow> u8 list \<Rightarrow> usbd_call list \<Rightarrow> 'x vk_usbd_dev_t \<Rightarrow> 'x vk_usbd_dev_t" where
  "stored t ds cs d = upd_trans t (\<lambda>x. x\<lparr>t_buffer := map_option (\<lambda>bs. take (t_cur x) bs @ ds @ drop (t_cur x + length ds) bs) (t_buffer x),
       t_cur := t_cur x + length ds, t_size := t_size x - length ds\<rparr>) (d\<lparr>u_calls := u_calls d @ cs\<rparr>)"

lemma stored_simps [simp]:
  "u_trans_list (stored t ds cs d) = u_trans_list d"
  "u_calls (stored t ds cs d) = u_calls d @ cs"
  "t_ep (u_trans (stored t ds cs d) s) = t_ep (u_trans d s)"
  "t_feature (u_trans (stored t ds cs d) s) = t_feature (u_trans d s)"
  "t_on_finish (u_trans (stored t ds cs d) s) = t_on_finish (u_trans d s)"
  "t_size (u_trans (stored t ds cs d) t) = t_size (u_trans d t) - length ds"
  "t_cur (u_trans (stored t ds cs d) t) = t_cur (u_trans d t) + length ds"
  "u_request (stored t ds cs d) = u_request d"
  by (simp_all add: stored_def upd_trans_def)

lemma stored_buffer:
  "t_buffer (u_trans (stored t ds cs d) t) =
     map_option (\<lambda>bs. take (t_cur (u_trans d t)) bs @ ds @ drop (t_cur (u_trans d t) + length ds) bs) (t_buffer (u_trans d t))"
  by (simp add: stored_def upd_trans_def)

lemma get_trans_stored [simp]: "p_vk_usbd_get_trans (stored t ds cs d) = p_vk_usbd_get_trans d"
  by (simp add: p_vk_usbd_get_trans_def fun_eq_iff)

lemma stored_stored:
  assumes "t_buffer (u_trans d t) = Some bs" "t_cur (u_trans d t) + length a \<le> length bs"
  shows "stored t b cs' (stored t a cs d) = stored t (a @ b) (cs @ cs') d"
  using assms by (simp add: stored_def upd_trans_def ac_simps min_absorb1 min_absorb2)

lemma deliver_simps [simp]:
  "drv_num (deliver ep p e) cs (Drv_Ep_Get_Data_Size ep) = int (length p)"
  "drv_num (deliver ep p e) cs (Drv_Ep_Get_Feature a f) = drv_num e cs (Drv_Ep_Get_Feature a f)"
  "drv_num (deliver ep p e) cs (Drv_Ep_Get_Size a) = drv_num e cs (Drv_Ep_Get_Size a)"
  "drv_bytes (deliver ep p e) cs (Drv_Ep_Read_Buffer ep k) = take k p"
  "notify_user (deliver ep p e) = notify_user e"
  "user_end (deliver ep p e) = user_end e"
  by (simp_all add: deliver_def)

lemma out_event_eq:
  assumes "p_vk_usbd_get_trans d v = Some t" "t_ep (u_trans d t) = v" "packet_env v n e" "t_buffer (u_trans d t) = Some bs"
    and "min (length p) (t_size (u_trans d t)) = k"
    and "cs = [Drv_Ep_Get_Data_Size v, Drv_Ep_Get_Feature v (t_feature (u_trans d t)), Drv_Ep_Get_Size v, Drv_Ep_Read_Buffer v k]"
  shows "usbd_event (deliver v p e) USB_ON_OUT v d =
    (if k < t_size (u_trans d t) \<and> k = n then Some (stored t (take k p) (cs @ [Drv_Ep_Enable_Out v]) d)
     else p_vk_usbd_trans_finish (deliver v p e) t (stored t (take k p) cs d))"
proof -
  have "k \<le> length p" using assms(5) by linarith
  then show ?thesis using assms
    by (simp add: usbd_event_def usbd_on_out_def call_def tell_def trans_mode_def packet_env_def stored_def upd_trans_def Let_def min_absorb1
        min_absorb2)
qed

lemma recv_packets:
  assumes "packet_env v n e" "0 < n"
    and "p_vk_usbd_get_trans d v = Some t" "t_ep (u_trans d t) = v" "t_buffer (u_trans d t) = Some bs"
    and "t_cur (u_trans d t) + t_size (u_trans d t) \<le> length bs" "length ds \<le> t_size (u_trans d t)" "0 < t_size (u_trans d t)"
  shows "\<exists>cs p. out_events e v (packets n ds (length ds < t_size (u_trans d t))) d
    = p_vk_usbd_trans_finish (deliver v p e) t (stored t ds cs d)"
  using assms(3-8)
proof (induction "length ds" arbitrary: d ds bs rule: less_induct)
  case less
  define m where "m = t_size (u_trans d t)"
  define cs0 where "cs0 p = [Drv_Ep_Get_Data_Size v, Drv_Ep_Get_Feature v (t_feature (u_trans d t)), Drv_Ep_Get_Size v, Drv_Ep_Read_Buffer v (length p)]" for p :: "u8 list"
  have one: "usbd_event (deliver v p e) USB_ON_OUT v d =
      (if length p < m \<and> length p = n then Some (stored t p (cs0 p @ [Drv_Ep_Enable_Out v]) d)
       else p_vk_usbd_trans_finish (deliver v p e) t (stored t p (cs0 p) d))" if "length p \<le> m" for p
    using out_event_eq [of d v t n e bs p "length p"] less.prems assms(1) that by (simp add: m_def min_absorb1 cs0_def)
  consider "length ds < n \<or> length ds = n \<and> m = n" | "length ds = n" "n < m" | "n < length ds"
    using less.prems(5) by (fastforce simp: m_def)
  then show ?case
  proof cases
    case 1
    then have "packets n ds (length ds < m) = [ds]" by (subst packets.simps) auto
    moreover have "usbd_event (deliver v ds e) USB_ON_OUT v d = p_vk_usbd_trans_finish (deliver v ds e) t (stored t ds (cs0 ds) d)"
      using 1 one [of ds] less.prems(5) by (auto simp: m_def)
    ultimately show ?thesis by (auto simp: m_def)
  next
    case 2
    define d1 where "d1 = stored t ds (cs0 ds @ [Drv_Ep_Enable_Out v]) d"
    have "packets n ds (length ds < m) = [ds, []]" using 2 assms(2) by (subst packets.simps) auto
    moreover have "usbd_event (deliver v ds e) USB_ON_OUT v d = Some d1" using 2 one [of ds] by (simp add: d1_def)
    moreover have "\<exists>cs. usbd_event (deliver v [] e) USB_ON_OUT v d1 = p_vk_usbd_trans_finish (deliver v [] e) t (stored t [] cs d1)"
      using out_event_eq [of d1 v t n e _ "[]" 0] less.prems assms(1,2) by (auto simp: d1_def stored_buffer)
    moreover have "stored t [] cs d1 = stored t ds (cs0 ds @ [Drv_Ep_Enable_Out v] @ cs) d" for cs
      using stored_stored [of d t bs ds] less.prems(3-5) by (simp add: d1_def)
    ultimately show ?thesis by (auto simp: m_def)
  next
    case 3
    define d1 where "d1 = stored t (take n ds) (cs0 (take n ds) @ [Drv_Ep_Enable_Out v]) d"
    have ps: "packets n ds (length ds < m) = take n ds # packets n (drop n ds) (length (drop n ds) < m - n)"
      using 3 assms(2) by (subst packets.simps) (auto simp: less_diff_conv intro!: arg_cong [of _ _ "packets n (drop n ds)"])
    have len: "length (take n ds) = n" using 3 by simp
    have e1: "usbd_event (deliver v (take n ds) e) USB_ON_OUT v d = Some d1"
      using 3 one [of "take n ds"] less.prems(5) len by (simp add: d1_def m_def)
    obtain bs' where buf: "t_buffer (u_trans d1 t) = Some bs'" "length bs' = length bs"
      using less.prems(3-5) 3 by (simp add: d1_def stored_buffer)
    have d1: "t_size (u_trans d1 t) = m - n" "t_cur (u_trans d1 t) = t_cur (u_trans d t) + n" "t_ep (u_trans d1 t) = v"
        "p_vk_usbd_get_trans d1 v = Some t" using len less.prems(1,2) by (simp_all add: d1_def m_def)
    obtain cs p where "out_events e v (packets n (drop n ds) (length (drop n ds) < m - n)) d1
        = p_vk_usbd_trans_finish (deliver v p e) t (stored t (drop n ds) cs d1)"
      using less.hyps [of "drop n ds" d1 bs'] buf d1 3 assms(2) less.prems(4,5) by (fastforce simp: m_def)
    moreover have "stored t (drop n ds) cs d1 = stored t ds (cs0 (take n ds) @ [Drv_Ep_Enable_Out v] @ cs) d"
      using stored_stored [of d t bs "take n ds"] less.prems(3-5) 3 by (simp add: d1_def)
    ultimately show ?thesis using ps e1 by (auto simp: m_def)
  qed
qed

text \<open>
  C28. A transfer from the host stores what the host sends: once \<open>vk_usbd_ep_recv\<close> has started a transfer of \<open>m\<close> bytes into a
  buffer, a host that sends at most \<open>m\<close> bytes, with a short packet at the end when they are fewer, has its bytes at the start of
  the buffer, the rest of the buffer as it was and the size of the transfer as the number of bytes that are missing, when the function
  of the user is called at the end; by then the transfer is out of the list.
\<close>

theorem usbd_recv_data:
  assumes "quiet_env e" "packet_env v n e" "0 < n" "\<forall>cs. drv_num e cs (Drv_Ep_Enable_Out v) = 0"
    and "t \<notin> set (u_trans_list d)" "t_ep (u_trans d t) AND 0x7F = v" "t_buffer (u_trans d t) = Some bs"
    and "t_size (u_trans d t) = m" "0 < m" "m \<le> length bs" "t_on_finish (u_trans d t) = User_End k" "length ds \<le> m"
  shows "\<exists>d'. Option.bind (vk_usbd_ep_recv e t d) (\<lambda>(err, d). out_events e v (packets n ds (length ds < m)) d) = user_end e k d'
    \<and> t_buffer (u_trans d' t) = Some (ds @ drop (length ds) bs) \<and> t_size (u_trans d' t) = m - length ds
    \<and> u_trans_list d' = u_trans_list d"
proof -
  define d1 where "d1 = upd_trans t (\<lambda>x. x\<lparr>t_ep := t_ep x AND 0x7F, t_cur := 0\<rparr>) (d\<lparr>u_trans_list := t # u_trans_list d,
    u_calls := u_calls d @ [Drv_Ep_Get_Feature v (t_feature (u_trans d t)), Drv_Ep_Enable_Out v]\<rparr>)"
  have recv: "vk_usbd_ep_recv e t d = Some (0, d1)"
    using assms(2,4-6) by (simp add: vk_usbd_ep_recv_def trans_add_def trans_mode_def call_def upd_trans_def d1_def packet_env_def)
  have "p_vk_usbd_get_trans d1 v = Some t" "t_ep (u_trans d1 t) = v" "t_buffer (u_trans d1 t) = Some bs"
      "t_size (u_trans d1 t) = m" "t_cur (u_trans d1 t) = 0"
    using assms(6-8) by (simp_all add: d1_def upd_trans_def p_vk_usbd_get_trans_def)
  then obtain cs p where run: "out_events e v (packets n ds (length ds < m)) d1 = p_vk_usbd_trans_finish (deliver v p e) t (stored t ds cs d1)"
      and buf: "t_buffer (u_trans (stored t ds cs d1) t) = Some (ds @ drop (length ds) bs)"
      and size: "t_size (u_trans (stored t ds cs d1) t) = m - length ds"
    using recv_packets [of v n e d1 t bs ds] assms(2,3,9,10,12) by (auto simp: stored_buffer)
  have "t_on_finish (u_trans (stored t ds cs d1) t) = User_End k" using assms(11) by (simp add: d1_def upd_trans_def)
  then have "p_vk_usbd_trans_finish (deliver v p e) t (stored t ds cs d1) = user_end e k (trans_remove t (stored t ds cs d1))"
    using assms(1) by (simp add: p_vk_usbd_trans_finish_def quiet_env_def trans_remove_def)
  then show ?thesis using run recv buf size
    by (intro exI [of _ "trans_remove t (stored t ds cs d1)"]) (simp add: trans_remove_def d1_def upd_trans_def)
qed

text \<open>A transfer of 12 bytes into a buffer of 16 bytes, to which the host sends 8 bytes and an empty packet.\<close>

definition recv_dev :: "unit vk_usbd_dev_t" where
  "recv_dev = upd_trans 1 (\<lambda>x. x\<lparr>t_ep := 2, t_buffer := Some (replicate 16 0), t_size := 12, t_on_finish := User_End 0\<rparr>) sample_dev"

theorem usbd_recv_data_witness:
  "\<exists>d'. Option.bind (vk_usbd_ep_recv (request_env device_request) 1 recv_dev)
      (\<lambda>(err, d). out_events (request_env device_request) 2 (packets 8 (replicate 8 7) (length (replicate 8 (7 :: u8)) < 12)) d) = Some d'
    \<and> t_buffer (u_trans d' 1) = Some (replicate 8 7 @ replicate 8 0) \<and> t_size (u_trans d' 1) = 4
    \<and> u_trans_list d' = []"
proof -
  have "user_end (request_env device_request) 0 d = Some d" for d by (simp add: request_env_def)
  moreover have "quiet_env (request_env device_request)" "packet_env 2 8 (request_env device_request)"
      "\<forall>cs. drv_num (request_env device_request) cs (Drv_Ep_Enable_Out 2) = 0"
    by (simp_all add: quiet_env_def packet_env_def request_env_def)
  ultimately show ?thesis
    using usbd_recv_data [of "request_env device_request" 2 8 1 recv_dev "replicate 16 0" 12 0 "replicate 8 7"]
    by (simp add: recv_dev_def upd_trans_def sample_dev_def)
qed

section \<open>The invariant of the device\<close>

text \<open>
  The types of the fields and what the tables rely on: the configuration is one of the \<open>n\<close> that there are, a transfer is in the list once, and every entry of the
  map from endpoints to interfaces is \<open>- 1\<close> or names an interface of its configuration.
\<close>

definition cfg_ok :: "vk_usbd_cfg_t \<Rightarrow> bool" where
  "cfg_ok c \<longleftrightarrow> length (ep_ifs_map c) = 32 \<and> length (cfg_ifs c) \<le> 128
     \<and> (\<forall>i \<in> set (ep_ifs_map c). - 1 \<le> i \<and> i < int (length (cfg_ifs c))) \<and> (\<forall>x \<in> set (cfg_ifs c). alternate_setting x < 2 ^ 8)"

definition usbd_ok :: "nat \<Rightarrow> 'x vk_usbd_dev_t \<Rightarrow> bool" where
  "usbd_ok n d \<longleftrightarrow> u_configuration d < length (u_config d) \<and> length (u_config d) = n \<and> n \<le> 2 ^ 8 \<and> distinct (u_trans_list d)
     \<and> (\<forall>c \<in> set (u_config d). cfg_ok c) \<and> u_feature d \<in> {0, 0x20} \<and> u_address d < 2 ^ 8"

text \<open>What a function that may fail returns keeps the invariant.\<close>

definition keeps :: "nat \<Rightarrow> ('r \<Rightarrow> 'x vk_usbd_dev_t) \<Rightarrow> 'r option \<Rightarrow> bool" where
  "keeps n p m \<longleftrightarrow> (\<forall>r. m = Some r \<longrightarrow> usbd_ok n (p r))"

text \<open>Classes, configurations, the vendor handler and the user keep the invariant.\<close>

definition good_env :: "nat \<Rightarrow> 'x usbd_env \<Rightarrow> bool" where
  "good_env n e \<longleftrightarrow>
     (\<forall>evt d. usbd_ok n d \<longrightarrow> keeps n snd (notify_user e evt d))
     \<and> (\<forall>c f i d. class_request_prepare e c = Some f \<longrightarrow> usbd_ok n d \<longrightarrow> keeps n snd (f i d))
     \<and> (\<forall>c f i d. class_request_process e c = Some f \<longrightarrow> usbd_ok n d \<longrightarrow> keeps n snd (f i d))
     \<and> (\<forall>c f i d. class_init e c = Some f \<longrightarrow> usbd_ok n d \<longrightarrow> keeps n snd (f i d))
     \<and> (\<forall>c f i d. class_fini e c = Some f \<longrightarrow> usbd_ok n d \<longrightarrow> keeps n snd (f i d))
     \<and> (\<forall>c f d. config_init e c = Some f \<longrightarrow> usbd_ok n d \<longrightarrow> keeps n snd (f d))
     \<and> (\<forall>f d. vendor_prepare e = Some f \<longrightarrow> usbd_ok n d \<longrightarrow> keeps n snd (f d))
     \<and> (\<forall>f d. vendor_process e = Some f \<longrightarrow> usbd_ok n d \<longrightarrow> keeps n id (f d))
     \<and> (\<forall>k d. usbd_ok n d \<longrightarrow> keeps n id (user_end e k d))
     \<and> (\<forall>k t d. usbd_ok n d \<longrightarrow> keeps n id (post_msg e k t d))"

lemma keepsI_some: "usbd_ok n (p r) \<Longrightarrow> keeps n p (Some r)"
  and keeps_none [simp]: "keeps n p None"
  and keeps_bind: "\<lbrakk>keeps n q m; \<And>r. usbd_ok n (q r) \<Longrightarrow> keeps n p (f r)\<rbrakk> \<Longrightarrow> keeps n p (Option.bind m f)"
  and keeps_map: "keeps n (p \<circ> g) m \<Longrightarrow> keeps n p (map_option g m)"
  by (auto simp: keeps_def bind_eq_Some_conv)

lemma keeps_get: "(\<And>r. m = Some r \<Longrightarrow> keeps n p (f r)) \<Longrightarrow> keeps n p (Option.bind m f)"
  by (auto simp: keeps_def bind_eq_Some_conv)

lemma ok_call [simp]: "usbd_ok n (snd (call e c d)) = usbd_ok n d"
  and ok_tell [simp]: "usbd_ok n (tell e c d) = usbd_ok n d"
  and ok_trans [simp]: "usbd_ok n (upd_trans t f d) = usbd_ok n d"
  by (simp_all add: usbd_ok_def call_def tell_def upd_trans_def)

lemma ok_cfg:
  assumes "usbd_ok n d" "i < length (u_config d) \<Longrightarrow> cfg_ok (u_config d ! i) \<Longrightarrow> cfg_ok (f (u_config d ! i))"
  shows "usbd_ok n (upd_cfg i f d)"
  using assms set_update_subset_insert [of "u_config d" i "f (u_config d ! i)"] by (fastforce simp: usbd_ok_def upd_cfg_def)

lemma ok_ifs:
  assumes "usbd_ok n d" "\<And>x. alternate_setting x < 2 ^ 8 \<Longrightarrow> alternate_setting (f x) < 2 ^ 8"
  shows "usbd_ok n (upd_ifs i j f d)"
  unfolding upd_ifs_def
proof (rule ok_cfg [OF assms(1)])
  let ?c = "u_config d ! i"
  show "cfg_ok (if j < length (cfg_ifs ?c) then ?c\<lparr>cfg_ifs := (cfg_ifs ?c)[j := f (cfg_ifs ?c ! j)]\<rparr> else ?c)" if "cfg_ok ?c"
    using that assms(2) set_update_subset_insert [of "cfg_ifs ?c" j "f (cfg_ifs ?c ! j)"] by (fastforce simp: cfg_ok_def)
qed

lemma ok_add: "usbd_ok n d \<Longrightarrow> keeps n id (trans_add t d)"
  and ok_remove [simp]: "usbd_ok n d \<Longrightarrow> usbd_ok n (trans_remove t d)"
  by (auto simp: usbd_ok_def trans_add_def trans_remove_def keeps_def)

lemma ok_cur: "usbd_ok n d \<Longrightarrow> \<exists>c. vk_usbd_get_cur_cfg d = Some c \<and> cfg_ok c"
  by (simp add: usbd_ok_def vk_usbd_get_cur_cfg_def)

lemma good_notify: "good_env n e \<Longrightarrow> usbd_ok n d \<Longrightarrow> keeps n snd (notify_user e evt d)"
  and good_user_end: "good_env n e \<Longrightarrow> usbd_ok n d \<Longrightarrow> keeps n id (user_end e k d)"
  and good_post: "good_env n e \<Longrightarrow> usbd_ok n d \<Longrightarrow> keeps n id (post_msg e k t d)"
  and good_vendor: "good_env n e \<Longrightarrow> usbd_ok n d \<Longrightarrow> vendor_prepare e = Some f \<Longrightarrow> keeps n snd (f d)"
  and good_vendor_process: "good_env n e \<Longrightarrow> usbd_ok n d \<Longrightarrow> vendor_process e = Some g \<Longrightarrow> keeps n id (g d)"
  and good_config: "good_env n e \<Longrightarrow> usbd_ok n d \<Longrightarrow> config_init e c = Some f \<Longrightarrow> keeps n snd (f d)"
  by (simp_all add: good_env_def)

lemma good_class:
  assumes "good_env n e" "usbd_ok n d"
  shows "Option.bind c (class_request_prepare e) = Some f \<Longrightarrow> keeps n snd (f i d)"
    and "Option.bind c (class_request_process e) = Some f \<Longrightarrow> keeps n snd (f i d)"
    and "Option.bind c (class_init e) = Some f \<Longrightarrow> keeps n snd (f i d)"
    and "Option.bind c (class_fini e) = Some f \<Longrightarrow> keeps n snd (f i d)"
  using assms by (auto simp: good_env_def bind_eq_Some_conv)

lemma ep_slot_less: "ep_slot ep < 32"
proof -
  have "take_bit 5 (ep_slot ep) = ep_slot ep"
    by (simp add: ep_slot_def take_bit_drop_bit) (simp add: take_bit_eq_mask and.assoc mask_eq_exp_minus_1)
  then show ?thesis by (simp add: take_bit_nat_eq_self_iff)
qed

lemma keeps_ifs_add_ep:
  assumes "usbd_ok n d"
  shows "keeps n snd (vk_usbd_ifs_add_ep e ifs ep type sz d)"
proof -
  have "usbd_ok n (upd_cfg (u_configuration d) (\<lambda>c. c\<lparr>ep_ifs_map := (ep_ifs_map c)[ep_slot ep := int i]\<rparr>) d)"
    if "usbd_ok n d" "vk_usbd_get_ifs_no d ifs = Some i" for d :: "'a vk_usbd_dev_t" and i
  proof (rule ok_cfg [OF that(1)])
    let ?c = "u_config d ! u_configuration d"
    have "i < length (cfg_ifs ?c)"
      using that by (auto simp: vk_usbd_get_ifs_no_def vk_usbd_get_cur_cfg_def bind_eq_Some_conv split: if_splits)
    then show "cfg_ok (?c\<lparr>ep_ifs_map := (ep_ifs_map ?c)[ep_slot ep := int i]\<rparr>)" if "cfg_ok ?c"
      using that set_update_subset_insert [of "ep_ifs_map ?c" "ep_slot ep" "int i"] by (fastforce simp: cfg_ok_def)
  qed
  then show ?thesis using assms
    by (auto simp: vk_usbd_ifs_add_ep_def case_prod_unfold Let_def intro!: keepsI_some keeps_get)
qed

lemma keeps_walk:
  assumes "usbd_ok n d"
  shows "keeps n snd (auto_init_walk e desc pos cur_ifs d)"
  using assms
proof (induction "d_size desc - pos" arbitrary: pos cur_ifs d rule: less_induct)
  case less
  have rest: "usbd_ok n (snd r)"
    if "auto_init_walk e desc (pos + k) i d' = Some r" "usbd_ok n d'" "\<not> d_size desc \<le> pos" "\<not> k \<le> 2" for k i d' r
    using that less.hyps [of "pos + k" d' i] by (auto simp: keeps_def)
  have ep: "usbd_ok n d'" if "vk_usbd_ifs_add_ep e ifs ep type sz d = Some (err, d')" for ifs ep type sz err d'
    using that keeps_ifs_add_ep [OF less.prems] by (force simp: keeps_def)
  show ?case unfolding keeps_def
    by (subst auto_init_walk.simps) (auto simp: bind_eq_Some_conv less.prems dest!: rest ep split: if_splits)
qed

lemma ok_fields [simp]:
  "usbd_ok n (d\<lparr>u_configured := b\<rparr>) = usbd_ok n d"
  "usbd_ok n (d\<lparr>u_request := r\<rparr>) = usbd_ok n d"
  "usbd_ok n (d\<lparr>u_wakeup_pending := b\<rparr>) = usbd_ok n d"
  by (simp_all add: usbd_ok_def)

lemma ok_feature:
  "usbd_ok n d \<Longrightarrow> usbd_ok n (d\<lparr>u_feature := u_feature d AND 0xDF\<rparr>)" "usbd_ok n d \<Longrightarrow> usbd_ok n (d\<lparr>u_feature := u_feature d OR 0x20\<rparr>)"
  by (auto simp: usbd_ok_def)

lemma keeps_each:
  assumes "\<And>x d. usbd_ok n d \<Longrightarrow> keeps n id (f x d)" "usbd_ok n d"
  shows "keeps n id (each f xs d)"
  using assms(2) by (induction xs arbitrary: d) (auto intro!: keepsI_some keeps_bind [OF assms(1)])

lemma keeps_snd_id: "keeps n snd m \<Longrightarrow> keeps n id (map_option snd m)"
  by (auto simp: keeps_def)

lemma keeps_cfg_fini:
  assumes "good_env n e" "usbd_ok n d"
  shows "keeps n id (p_vk_usbd_cfg_fini e d)"
  unfolding p_vk_usbd_cfg_fini_def using assms
  by (auto intro!: keeps_get keeps_each keepsI_some ok_ifs keeps_snd_id good_class(4) [OF assms(1)] split: option.split simp: Let_def)

lemma ok_send_imp [simp]: "usbd_ok n (snd (p_vk_usbd_ep_send_imp e t d)) = usbd_ok n d"
  by (simp add: p_vk_usbd_ep_send_imp_def Let_def case_prod_unfold)

lemma ok_mode [simp]: "usbd_ok n (snd (trans_mode e t d)) = usbd_ok n d"
  by (simp add: trans_mode_def case_prod_unfold Let_def)

lemma keeps_ep:
  assumes "usbd_ok n d"
  shows "keeps n snd (vk_usbd_ep_recv e t d)" "keeps n snd (vk_usbd_ep_send e t d)"
  using assms unfolding vk_usbd_ep_recv_def vk_usbd_ep_send_def Let_def case_prod_unfold
  by (auto intro!: keeps_bind [OF ok_add] keepsI_some)

lemma keeps_cur:
  assumes "usbd_ok n d" "\<And>c. cfg_ok c \<Longrightarrow> keeps n p (f c)"
  shows "keeps n p (Option.bind (vk_usbd_get_cur_cfg d) f)"
  using ok_cur [OF assms(1)] assms(2) by auto

lemma keeps_option:
  assumes "keeps n p x" "\<And>r. m = Some r \<Longrightarrow> keeps n p (g r)"
  shows "keeps n p (case m of None \<Rightarrow> x | Some r \<Rightarrow> g r)"
  using assms by (simp split: option.split)

lemma keeps_if: "\<lbrakk>b \<Longrightarrow> keeps n p x; \<not> b \<Longrightarrow> keeps n p y\<rbrakk> \<Longrightarrow> keeps n p (if b then x else y)"
  by simp

text \<open>A function of a class that may be missing.\<close>

lemma keeps_class:
  assumes "good_env n e" "usbd_ok n d"
  shows "keeps n snd (case Option.bind c (class_request_prepare e) of None \<Rightarrow> Some (x, d) | Some f \<Rightarrow> f i d)"
    and "keeps n snd (case Option.bind c (class_request_process e) of None \<Rightarrow> Some (x, d) | Some f \<Rightarrow> f i d)"
    and "keeps n snd (case Option.bind c (class_init e) of None \<Rightarrow> Some (x, d) | Some f \<Rightarrow> f i d)"
    and "keeps n id (case Option.bind c (class_request_prepare e) of None \<Rightarrow> Some d | Some f \<Rightarrow> map_option snd (f i d))"
    and "keeps n id (case Option.bind c (class_request_process e) of None \<Rightarrow> Some d | Some f \<Rightarrow> map_option snd (f i d))"
    and "keeps n id (case Option.bind c (class_fini e) of None \<Rightarrow> Some d | Some f \<Rightarrow> map_option snd (f i d))"
  using good_class [OF assms] assms(2) by (simp_all add: keepsI_some keeps_snd_id split: option.split)

lemma keeps_ifs_init:
  assumes "good_env n e" "usbd_ok n d"
  shows "keeps n snd (ifs_init e is d)"
  using assms(2)
proof (induction "is" arbitrary: d)
  case (Cons i "is")
  show ?case using Cons.prems unfolding ifs_init.simps Let_def case_prod_unfold
    by (intro keeps_cur keeps_bind [OF keeps_class(3) [OF assms(1)]] keeps_if Cons.IH) (auto intro!: ok_ifs keepsI_some)
qed (simp add: keepsI_some)

lemma keeps_auto_init: "usbd_ok n d \<Longrightarrow> keeps n snd (p_vk_usbd_auto_init e d)"
  by (auto simp: p_vk_usbd_auto_init_def intro!: keeps_get keeps_walk)

lemma get_config_less: "p_vk_usbd_get_config d v = Some i \<Longrightarrow> i < length (u_config d)"
  by (auto simp: p_vk_usbd_get_config_def find_Some_iff)

lemma keeps_set_configuration:
  assumes "good_env n e" "usbd_ok n d"
  shows "keeps n snd (set_configuration e d)"
proof -
  have conf: "usbd_ok n (d'\<lparr>u_configuration := i mod 2 ^ 8\<rparr>)" if "usbd_ok n d'" "i < n" for d' :: "'a vk_usbd_dev_t" and i
    using that by (simp add: usbd_ok_def)
  have config: "keeps n snd (case config_init e c of None \<Rightarrow> Some (0, d') | Some f \<Rightarrow> f d')" if "usbd_ok n d'"
    for d' :: "'a vk_usbd_dev_t" and c
    using that good_config [OF assms(1) that] by (simp add: keepsI_some split: option.split)
  have less: "i < n" if "p_vk_usbd_get_config (d\<lparr>u_configured := False\<rparr>) v = Some i" for i v
    using get_config_less [OF that] assms(2) by (simp add: usbd_ok_def)
  show ?thesis unfolding set_configuration_def Let_def case_prod_unfold
    by (intro keeps_if keepsI_some keeps_get keeps_bind [OF keeps_cfg_fini [OF assms(1)]] keeps_bind [OF keeps_auto_init]
        keeps_bind [OF config] keeps_cur keeps_ifs_init assms(1)) (use assms(2) conf less in auto)
qed

lemma keeps_stdctrl:
  assumes "good_env n e" "usbd_ok n d"
  shows "keeps n (\<lambda>r. snd (snd r)) (stdctrl_device e d)"
    and "keeps n (\<lambda>r. snd (snd r)) (stdctrl_interface e d)"
    and "keeps n (\<lambda>r. snd (snd r)) (stdctrl_endpoint e d)"
proof -
  have "keeps n (\<lambda>r. snd (snd r)) (Option.bind (set_configuration e d) (\<lambda>r. Some (fst r, ([], 0), snd r)))"
    by (intro keeps_bind [OF keeps_set_configuration [OF assms]] keepsI_some) simp
  then show "keeps n (\<lambda>r. snd (snd r)) (stdctrl_device e d)" using assms(2) unfolding stdctrl_device_def Let_def case_prod_unfold
    by (intro keeps_if keeps_cur keeps_option keepsI_some) (auto simp: ok_feature)
  show "keeps n (\<lambda>r. snd (snd r)) (stdctrl_interface e d)" using assms(2) unfolding stdctrl_interface_def Let_def
    by (intro keeps_cur keeps_if keeps_option keepsI_some keeps_bind [OF keeps_class(4) [OF assms(1)]]) (auto intro!: ok_ifs)
  show "keeps n (\<lambda>r. snd (snd r)) (stdctrl_endpoint e d)" using assms(2) unfolding stdctrl_endpoint_def Let_def case_prod_unfold
    by (intro keeps_cur keeps_if keepsI_some keeps_get keeps_bind [OF keeps_class(4) [OF assms(1)]]) auto
qed

lemma keeps_stdctrl_prepare:
  assumes "good_env n e" "usbd_ok n d"
  shows "keeps n snd (p_vk_usbd_stdctrl_prepare e d)"
proof -
  have step: "keeps n (\<lambda>r. snd (snd r)) (if r = 0 then stdctrl_device e d else if r = 1 then stdctrl_interface e d
      else if r = 2 then stdctrl_endpoint e d else Some (- 7, ([], 0), d))" for r :: nat
    using keeps_stdctrl [OF assms] assms(2) by (simp add: keepsI_some)
  show ?thesis unfolding p_vk_usbd_stdctrl_prepare_def Let_def case_prod_unfold
    by (rule keeps_bind [OF step]) (auto intro!: keepsI_some)
qed

lemma keeps_stdctrl_process:
  assumes "good_env n e" "usbd_ok n d"
  shows "keeps n snd (p_vk_usbd_stdctrl_process e d)"
proof -
  have "usbd_ok n (d\<lparr>u_address := v mod 2 ^ 8\<rparr>)" for v using assms(2) by (simp add: usbd_ok_def)
  moreover have "keeps n snd (case Option.bind c (class_request_process e) of None \<Rightarrow> Some (0, d)
      | Some f \<Rightarrow> Option.bind (f i d) (\<lambda>r. Some (0, snd r)))" for c i
    using assms(2) good_class(2) [OF assms] by (intro keeps_option keepsI_some keeps_bind [of n snd]) simp_all
  ultimately show ?thesis using assms(2) unfolding p_vk_usbd_stdctrl_process_def Let_def case_prod_unfold
    by (intro keeps_if keeps_cur keepsI_some) auto
qed

lemma keeps_ctrl_prepare:
  assumes "good_env n e" "usbd_ok n d"
  shows "keeps n snd (p_vk_usbd_ctrl_prepare e d)"
proof -
  have "keeps n snd (case Option.bind c (class_request_prepare e) of None \<Rightarrow> Some (- 7, d) | Some f \<Rightarrow> f i d)" for c i
    using keeps_class(1) [OF assms] .
  moreover have "keeps n snd (case vendor_prepare e of None \<Rightarrow> None | Some f \<Rightarrow> f d)"
    using good_vendor [OF assms] by (intro keeps_option) simp_all
  ultimately show ?thesis using assms unfolding p_vk_usbd_ctrl_prepare_def Let_def
    by (intro keeps_if keeps_cur keeps_stdctrl_prepare) (auto intro!: keepsI_some split: option.split)
qed

lemma keeps_ctrl_process:
  assumes "good_env n e" "usbd_ok n d"
  shows "keeps n id (p_vk_usbd_ctrl_process e d)"
proof -
  have "keeps n id (case Option.bind c (class_request_process e) of None \<Rightarrow> Some d | Some f \<Rightarrow> map_option snd (f i d))" for c i
    using keeps_class(5) [OF assms] .
  moreover have "keeps n id (case vendor_process e of None \<Rightarrow> Some d | Some f \<Rightarrow> f d)"
    using good_vendor_process [OF assms] assms(2) by (intro keeps_option keepsI_some) simp_all
  ultimately show ?thesis using assms unfolding p_vk_usbd_ctrl_process_def Let_def
    by (intro keeps_if keeps_cur keeps_snd_id keeps_stdctrl_process) (auto intro!: keepsI_some split: option.split)
qed

lemma keeps_status:
  assumes "good_env n e" "usbd_ok n d"
  shows "keeps n id (p_vk_usbd_setup_status_callback e d)"
  unfolding p_vk_usbd_setup_status_callback_def case_prod_unfold
  by (rule keeps_bind [OF good_notify [OF assms]]) (simp add: keepsI_some stall_ep0_def vk_usbd_stdreq_status_stage_def)

lemma keeps_data_stage:
  assumes "good_env n e" "usbd_ok n d"
  shows "keeps n id (vk_usbd_stdreq_data_stage e d)"
  using assms unfolding vk_usbd_stdreq_data_stage_def Let_def
  by (intro keeps_if keeps_status keeps_snd_id keeps_ep) auto

lemma keeps_finish:
  assumes "good_env n e" "usbd_ok n d"
  shows "keeps n id (p_vk_usbd_trans_finish e t d)"
  unfolding p_vk_usbd_trans_finish_def Let_def case_prod_unfold
  by (rule keeps_bind [OF good_notify [OF assms]])
    (auto intro!: keepsI_some good_post good_user_end keeps_status assms(1) split: trans_end.split)

lemma keeps_reset:
  assumes "good_env n e" "usbd_ok n d"
  shows "keeps n id (usbd_reset e evt d)"
proof -
  have ok: "usbd_ok n (d\<lparr>u_config := map (\<lambda>c. c\<lparr>ep_ifs_map := replicate 32 (- 1)\<rparr>) (u_config d), u_configured := False,
      u_configuration := 0, u_feature := 0\<rparr>)" if "usbd_ok n d" for d :: "'a vk_usbd_dev_t"
    using that by (auto simp: usbd_ok_def cfg_ok_def)
  show ?thesis unfolding usbd_reset_def Let_def case_prod_unfold
    by (intro keeps_bind [OF keeps_cfg_fini [OF assms]] keeps_bind [of n snd] keeps_if keeps_get keepsI_some
        keeps_bind [OF good_notify [OF assms(1)]]) (simp_all add: ok)
qed

lemma keeps_setup:
  assumes "good_env n e" "usbd_ok n d"
  shows "keeps n id (usbd_on_setup e d)"
  unfolding usbd_on_setup_def Let_def case_prod_unfold
  by (intro keeps_bind [OF good_notify [OF assms(1)]] keeps_if keepsI_some keeps_bind [OF keeps_ctrl_prepare [OF assms(1)]]
      keeps_data_stage assms(1)) (use assms(2) in \<open>simp_all add: stall_ep0_def\<close>)

lemma keeps_in:
  assumes "good_env n e" "usbd_ok n d"
  shows "keeps n id (usbd_on_in e v d)"
  unfolding usbd_on_in_def Let_def
  by (intro keeps_get keeps_if keepsI_some keeps_finish assms) (use assms(2) in simp_all)

lemma keeps_out:
  assumes "good_env n e" "usbd_ok n d"
  shows "keeps n id (usbd_on_out e v d)"
  unfolding usbd_on_out_def Let_def case_prod_unfold
  by (intro keeps_get keeps_option keeps_if keepsI_some keeps_none keeps_finish assms(1)) (use assms(2) in simp_all)

lemma keeps_event:
  assumes "good_env n e" "usbd_ok n d"
  shows "keeps n id (usbd_event e evt v d)"
proof -
  have "keeps n id (Option.bind (notify_user e evt d) (\<lambda>r. p_vk_usbd_ctrl_process e (snd r)))"
    by (rule keeps_bind [OF good_notify [OF assms] keeps_ctrl_process [OF assms(1)]])
  then show ?thesis
    using keeps_reset [OF assms] keeps_setup [OF assms] keeps_in [OF assms] keeps_out [OF assms] good_notify [OF assms] assms(2)
    by (cases evt) (simp_all add: usbd_event_def keepsI_some keeps_snd_id case_prod_unfold)
qed

text \<open>A device as the program sets it up: at least one configuration, and maps as they are after a reset or all zero.\<close>

definition usbd_fresh :: "nat \<Rightarrow> 'x vk_usbd_dev_t \<Rightarrow> bool" where
  "usbd_fresh n d \<longleftrightarrow> length (u_config d) = n \<and> 0 < n \<and> n \<le> 2 ^ 8 \<and> distinct (u_trans_list d) \<and> (\<forall>c \<in> set (u_config d). cfg_ok c)
     \<and> u_address d < 2 ^ 8"

lemma keeps_init:
  assumes "good_env n e" "usbd_fresh n d"
  shows "keeps n id (vk_usbd_init e d)"
proof -
  have start: "usbd_ok n (upd_trans 0 (\<lambda>x. x\<lparr>t_ep := 0\<rparr>) (d\<lparr>u_configured := False, u_configuration := 0, u_feature := 0\<rparr>))"
    using assms(2) by (simp add: usbd_fresh_def usbd_ok_def upd_trans_def)
  have config: "usbd_ok n (upd_cfg i (\<lambda>c. c\<lparr>configuration_value := v, cfg_ifs := map (\<lambda>x. x\<lparr>is_inited := False\<rparr>) (cfg_ifs c)\<rparr>) d)"
    if "usbd_ok n d" for i v and d :: "'a vk_usbd_dev_t"
    using that by (intro ok_cfg) (auto simp: cfg_ok_def)
  show ?thesis unfolding vk_usbd_init_def Let_def case_prod_unfold
    by (rule keeps_bind [OF keeps_each [OF _ start]],
        (intro keeps_get keeps_if keepsI_some keeps_none, simp add: config),
        rule keeps_bind [OF good_notify [OF assms(1)]]) (simp_all add: keepsI_some)
qed

lemma get_ifs_byep_less:
  assumes "cfg_ok c" "p_vk_usbd_get_ifs_byep c ep = Some i"
  shows "i < length (cfg_ifs c)"
proof -
  have "ep_ifs_map c ! ep_slot ep \<in> set (ep_ifs_map c)" using assms(1) ep_slot_less by (simp add: cfg_ok_def)
  then show ?thesis using assms by (auto simp: cfg_ok_def p_vk_usbd_get_ifs_byep_def Let_def split: if_splits)
qed


text \<open>A reset and the request for the descriptor of the device.\<close>

lemmas usbd_run_defs = vk_usbd_get_descriptor_def byte_def le16_def config_desc_ok_def upd_cfg_def upd_trans_def tell_def call_def
  usbd_event_def usbd_reset_def p_vk_usbd_cfg_fini_def vk_usbd_get_cur_cfg_def
  usbd_on_setup_def p_vk_usbd_ctrl_prepare_def p_vk_usbd_stdctrl_prepare_def stdctrl_device_def
  vk_usbd_stdreq_data_stage_def vk_usbd_ep_send_def trans_add_def trans_mode_def p_vk_usbd_ep_send_imp_def Let_def

lemma request_env_good: "good_env n (request_env r)"
  by (simp add: good_env_def request_env_def keepsI_some)

lemma sample_dev_fresh: "usbd_fresh 1 sample_dev"
  by (simp add: usbd_fresh_def sample_dev_def cfg_ok_def)


section \<open>Requests that the device does not answer\<close>

text \<open>
  The status of an endpoint is asked for with a transfer to the host, and exactly those are refused for endpoints: the branch that
  would answer is only reached with the wrong direction.
\<close>

theorem usbd_endpoint_status_refused:
  assumes "bRequestType (u_request d) = 0x82" "bRequest (u_request d) = 0" "u_configuration d < length (u_config d)"
  shows "p_vk_usbd_ctrl_prepare e d = Some (- 7, d)"
  using assms by (simp add: p_vk_usbd_ctrl_prepare_def vk_usbd_get_cur_cfg_def p_vk_usbd_stdctrl_prepare_def stdctrl_endpoint_def Let_def)

text \<open>The host can clear the halt of an endpoint that no interface has: the assertion fails, and without it a null pointer is read.\<close>

theorem usbd_clear_halt_unmapped:
  assumes "bRequestType (u_request d) = 0x02" "bRequest (u_request d) = 1" "wValue (u_request d) = 0" "wIndex (u_request d) mod 256 \<noteq> 0"
    and "vk_usbd_get_cur_cfg d = Some c" "p_vk_usbd_get_ifs_byep c (wIndex (u_request d) mod 256) = None"
  shows "p_vk_usbd_ctrl_prepare e d = None"
  using assms by (simp add: p_vk_usbd_ctrl_prepare_def p_vk_usbd_stdctrl_prepare_def stdctrl_endpoint_def Let_def)

text \<open>A class request for the device, not for an interface, fails an assertion.\<close>

theorem usbd_class_request_for_device:
  assumes "bRequestType (u_request d) AND 0x60 = 0x20" "bRequestType (u_request d) AND 0x1F = 0"
  shows "p_vk_usbd_ctrl_prepare e d = None"
  using assms by (simp add: p_vk_usbd_ctrl_prepare_def Let_def bind_eq_None_conv)

text \<open>
  A host may give up a control transfer and send a new request. The transfer of the first one is still in the list, and it is added once
  more: the list gets a cycle. A reset of the bus in between does not help, for it leaves the list alone.
\<close>

theorem usbd_second_setup_cycle:
  assumes "quiet_env e" "0 \<in> set (u_trans_list d)" "u_configuration d < length (u_config d)"
    and "drv_setup e (u_calls d) = r" "bRequestType r = 0x80" "bRequest r = 6"
    and "vk_usbd_get_descriptor (u_desc d) (wValue r div 256 mod 256) (wValue r mod 256) (wIndex r) = Some desc"
  shows "usbd_event e USB_ON_SETUP v d = None"
  using assms by (simp add: usbd_event_def usbd_on_setup_def quiet_env_def tell_def call_def p_vk_usbd_ctrl_prepare_def Let_def
      vk_usbd_get_cur_cfg_def p_vk_usbd_stdctrl_prepare_def stdctrl_device_def vk_usbd_stdreq_data_stage_def vk_usbd_ep_send_def
      trans_add_def upd_trans_def)

theorem usbd_reset_keeps_transfers:
  "Option.bind (vk_usbd_init (request_env device_request) sample_dev)
     (each (\<lambda>(evt, v). usbd_event (request_env device_request) evt v)
       [(USB_ON_RESET, 0), (USB_ON_SETUP, 0), (USB_ON_RESET, 0), (USB_ON_SETUP, 0)]) = None"
  unfolding request_env_def device_request_def sample_dev_def vk_usbd_init_def
  by (simp add: usbd_run_defs)

end
