(* ===== verification/VSF_Pool.thy ===== *)
theory VSF_Pool
  imports VSF_Heap_Api "HOL-Library.Monad_Syntax"
begin

text \<open>
  The pools of \<open>src/source/service/pool/vsf_pool.c\<close>, with statistics, items from the heap and user objects enabled, as they are by
  default. Free items are linked through their first word; the memory is that of the heap, \<open>hp_bytes\<close>, which spans the buffers of
  the user too. An initialisation function of the items may write to the item. A protected region is one step.
\<close>

section \<open>Data\<close>

type_synonym item_init = "ptr \<Rightarrow> ptr \<Rightarrow> nat \<Rightarrow> vsf_heap_t \<Rightarrow> vsf_heap_t"

record vsf_pool_t =
  free_list :: ptr
  free_cnt :: u16
  used_cnt :: u16
  pool_name :: string
  item_size :: nat
  u15_align :: nat
  is_no_feed_on_heap :: bool
  item_init_fn :: "item_init option"
  region_ptr :: ptr
  target_ptr :: ptr

record vsf_pool_cfg_t =
  pool_name_str :: string
  cfg_target_ptr :: ptr
  cfg_region_ptr :: ptr
  cfg_item_init_fn :: "item_init option"

text \<open>The list of all pools, by address, with the alignment and the size of the items of each.\<close>

record pool_statistic_chain =
  pool_list :: "(ptr \<times> nat \<times> nat) list"
  pool_cnt :: u16

text \<open>A pointer in memory, little endian.\<close>

definition get_ptr :: "ptr \<Rightarrow> vsf_heap_t \<Rightarrow> ptr" where
  "get_ptr p h = unat (hp_bytes h p) + 2 ^ 8 * unat (hp_bytes h (p + 1)) + 2 ^ 16 * unat (hp_bytes h (p + 2))
     + 2 ^ 24 * unat (hp_bytes h (p + 3))"

definition put_ptr :: "ptr \<Rightarrow> ptr \<Rightarrow> vsf_heap_t \<Rightarrow> vsf_heap_t" where
  "put_ptr p v h = put_bytes p [of_nat v, of_nat (v div 2 ^ 8), of_nat (v div 2 ^ 16), of_nat (v div 2 ^ 24)] h"

section \<open>Operations\<close>

text \<open>A new pool goes in front of the first pool that has neither larger items nor a larger alignment.\<close>

fun pool_chain_insert :: "ptr \<times> nat \<times> nat \<Rightarrow> (ptr \<times> nat \<times> nat) list \<Rightarrow> (ptr \<times> nat \<times> nat) list" where
  "pool_chain_insert x [] = [x]"
| "pool_chain_insert x (y # ys) =
     (if fst (snd y) \<le> fst (snd x) \<and> snd (snd y) \<le> snd (snd x) then x # y # ys else y # pool_chain_insert x ys)"

text \<open>
  \<open>vsf_protect_region_int\<close> is the default region, a parameter here. Without a configuration the name and the function are
  read through a null pointer. \<open>uint_fast8_t\<close> has 4 bytes.
\<close>

definition vsf_pool_init ::
  "ptr \<Rightarrow> ptr \<Rightarrow> nat \<Rightarrow> nat \<Rightarrow> vsf_pool_cfg_t option \<Rightarrow> pool_statistic_chain \<Rightarrow> (vsf_pool_t \<times> pool_statistic_chain) option" where
  "vsf_pool_init region_int obj sz align cfg chain = do {
     cfg \<leftarrow> cfg;
     let align = (if align = 0 then 4 else align);
     let p = \<lparr>free_list = null, free_cnt = 0, used_cnt = 0, pool_name = pool_name_str cfg, item_size = sz,
       u15_align = align mod 2 ^ 15, is_no_feed_on_heap = False, item_init_fn = cfg_item_init_fn cfg,
       region_ptr = (if cfg_region_ptr cfg = null then region_int else cfg_region_ptr cfg), target_ptr = null\<rparr>;
     Some (p, chain\<lparr>pool_cnt := pool_cnt chain + 1, pool_list := pool_chain_insert (obj, u15_align p, item_size p) (pool_list chain)\<rparr>)}"

text \<open>An item is pushed on the free list and popped from it.\<close>

definition pool_push :: "ptr \<Rightarrow> vsf_pool_t \<Rightarrow> vsf_heap_t \<Rightarrow> vsf_pool_t \<times> vsf_heap_t" where
  "pool_push node p h = (p\<lparr>free_list := node\<rparr>, put_ptr node (free_list p) h)"

definition pool_pop :: "vsf_pool_t \<Rightarrow> vsf_heap_t \<Rightarrow> ptr \<times> vsf_pool_t \<times> vsf_heap_t" where
  "pool_pop p h = (let node = free_list p in (node, p\<lparr>free_list := get_ptr node h\<rparr>, put_ptr node null h))"

definition p_vsf_pool_add_item :: "ptr \<Rightarrow> vsf_pool_t \<Rightarrow> vsf_heap_t \<Rightarrow> vsf_pool_t \<times> vsf_heap_t" where
  "p_vsf_pool_add_item pitem p h =
     (let (p, h) = pool_push pitem p h in (p\<lparr>free_cnt := free_cnt p + 1\<rparr>, h))"

definition run_init :: "item_init option \<Rightarrow> ptr \<Rightarrow> ptr \<Rightarrow> nat \<Rightarrow> vsf_heap_t \<Rightarrow> vsf_heap_t" where
  "run_init f target node sz h = (case f of None \<Rightarrow> h | Some f \<Rightarrow> f target node sz h)"

function pool_add_items ::
  "item_init option \<Rightarrow> nat \<Rightarrow> ptr \<Rightarrow> nat \<Rightarrow> vsf_pool_t \<Rightarrow> vsf_heap_t \<Rightarrow> vsf_pool_t \<times> vsf_heap_t" where
  "pool_add_items f sz node buffer_size p h =
     (let (p, h) = p_vsf_pool_add_item node p h;
          h = run_init f (target_ptr p) node sz h;
          buffer_size = buffer_size - sz
      in if sz \<le> buffer_size \<and> 0 < sz then pool_add_items f sz (node + sz) buffer_size p h else (p, h))"
  by pat_completeness auto
termination by (relation "measure (\<lambda>(_, sz, _, buffer_size, _). buffer_size)") auto

declare pool_add_items.simps [simp del]

definition vsf_pool_add_buffer_ex ::
  "ptr \<Rightarrow> nat \<Rightarrow> nat \<Rightarrow> item_init option \<Rightarrow> vsf_pool_t \<Rightarrow> vsf_heap_t \<Rightarrow> (bool \<times> vsf_pool_t \<times> vsf_heap_t) option" where
  "vsf_pool_add_buffer_ex buffer buffer_size sz f p h =
     (if buffer = null then None
      else if sz < 4 \<or> buffer_size < sz then Some (False, p, h)
      else Some (True, pool_add_items f sz buffer buffer_size (p\<lparr>is_no_feed_on_heap := True\<rparr>) h))"

definition vsf_pool_add_buffer :: "ptr \<Rightarrow> nat \<Rightarrow> nat \<Rightarrow> vsf_pool_t \<Rightarrow> vsf_heap_t \<Rightarrow> (bool \<times> vsf_pool_t \<times> vsf_heap_t) option" where
  "vsf_pool_add_buffer buffer buffer_size sz p h = vsf_pool_add_buffer_ex buffer buffer_size sz None p h"

text \<open>
  When the heap has no memory a function of the user is asked whether to try again; it may change pool and heap. The default one
  asserts, or says no.
\<close>

type_synonym plug_in = "vsf_pool_t \<Rightarrow> vsf_heap_t \<Rightarrow> bool \<times> vsf_pool_t \<times> vsf_heap_t"

definition vsf_plug_in_on_failed_to_feed_pool_on_heap :: plug_in where
  "vsf_plug_in_on_failed_to_feed_pool_on_heap p h = (False, p, h)"

partial_function (option) pool_feed :: "plug_in \<Rightarrow> bool \<Rightarrow> vsf_pool_t \<Rightarrow> vsf_heap_t \<Rightarrow> (ptr \<times> vsf_pool_t \<times> vsf_heap_t) option" where
  "pool_feed plug_in retry p h = do {
     (node, h) \<leftarrow> vsf_heap_malloc_aligned_imp (of_nat (item_size p)) (of_nat (u15_align p)) h;
     (if node \<noteq> null
      then
        let h = run_init (item_init_fn p) (target_ptr p) node (item_size p) h;
            p = p\<lparr>used_cnt := used_cnt p + 1\<rparr>
        in if retry then pool_feed plug_in retry p h else Some (node, p, h)
      else
        let (retry, p, h) = plug_in p h
        in if retry then pool_feed plug_in retry p h else Some (node, p, h))}"

definition vsf_pool_alloc :: "plug_in \<Rightarrow> vsf_pool_t \<Rightarrow> vsf_heap_t \<Rightarrow> (ptr \<times> vsf_pool_t \<times> vsf_heap_t) option" where
  "vsf_pool_alloc plug_in p h =
     (if free_list p \<noteq> null
      then let (node, p, h) = pool_pop p h in Some (node, p\<lparr>free_cnt := free_cnt p - 1, used_cnt := used_cnt p + 1\<rparr>, h)
      else if \<not> is_no_feed_on_heap p then pool_feed plug_in False p h
      else Some (null, p, h))"

definition vsf_pool_free :: "ptr \<Rightarrow> vsf_pool_t \<Rightarrow> vsf_heap_t \<Rightarrow> (vsf_pool_t \<times> vsf_heap_t) option" where
  "vsf_pool_free pItem p h =
     (if pItem = null then None
      else let (p, h) = p_vsf_pool_add_item pItem p h in Some (p\<lparr>used_cnt := used_cnt p - 1\<rparr>, h))"

definition vsf_pool_get_count :: "vsf_pool_t \<Rightarrow> nat" where
  "vsf_pool_get_count p = unat (free_cnt p)"

definition vsf_pool_get_tag :: "vsf_pool_t \<Rightarrow> ptr" where
  "vsf_pool_get_tag p = target_ptr p"

definition vsf_pool_set_tag :: "ptr \<Rightarrow> vsf_pool_t \<Rightarrow> ptr \<times> vsf_pool_t" where
  "vsf_pool_set_tag target p = (let p = p\<lparr>target_ptr := target\<rparr> in (target_ptr p, p))"

definition vsf_pool_get_region :: "vsf_pool_t \<Rightarrow> ptr" where
  "vsf_pool_get_region p = region_ptr p"

section \<open>Typed pools\<close>

text \<open>
  The functions that the macros make for a type: its size and alignment, and the size of the union of the type with a list head, the
  item of a buffer.
\<close>

record pool_type =
  ty_size :: nat
  ty_align :: nat

definition pool_item_bytes :: "pool_type \<Rightarrow> nat" where
  "pool_item_bytes ty = (let a = max 4 (ty_align ty) in (max 4 (ty_size ty) + a - 1) div a * a)"

definition typed_pool_init ::
  "ptr \<Rightarrow> ptr \<Rightarrow> pool_type \<Rightarrow> vsf_pool_cfg_t option \<Rightarrow> pool_statistic_chain \<Rightarrow> (vsf_pool_t \<times> pool_statistic_chain) option" where
  "typed_pool_init region_int obj ty cfg chain = vsf_pool_init region_int obj (ty_size ty) (ty_align ty) cfg chain"

definition typed_pool_init_ex ::
  "ptr \<Rightarrow> ptr \<Rightarrow> pool_type \<Rightarrow> nat \<Rightarrow> vsf_pool_cfg_t option \<Rightarrow> pool_statistic_chain
     \<Rightarrow> (vsf_pool_t \<times> pool_statistic_chain) option" where
  "typed_pool_init_ex region_int obj ty align cfg chain =
     vsf_pool_init region_int obj (ty_size ty) (max align (ty_align ty)) cfg chain"

definition typed_pool_add_buffer ::
  "pool_type \<Rightarrow> ptr \<Rightarrow> nat \<Rightarrow> vsf_pool_t \<Rightarrow> vsf_heap_t \<Rightarrow> (bool \<times> vsf_pool_t \<times> vsf_heap_t) option" where
  "typed_pool_add_buffer ty buffer sz p h = vsf_pool_add_buffer buffer sz (pool_item_bytes ty) p h"

definition typed_pool_add_buffer_ex ::
  "pool_type \<Rightarrow> ptr \<Rightarrow> nat \<Rightarrow> item_init option \<Rightarrow> vsf_pool_t \<Rightarrow> vsf_heap_t \<Rightarrow> (bool \<times> vsf_pool_t \<times> vsf_heap_t) option" where
  "typed_pool_add_buffer_ex ty buffer sz f p h = vsf_pool_add_buffer_ex buffer sz (pool_item_bytes ty) f p h"

text \<open>\<open>VSF_POOL_INIT\<close>: a pool with its own static buffer of \<open>n\<close> items.\<close>

definition VSF_POOL_INIT ::
  "ptr \<Rightarrow> ptr \<Rightarrow> pool_type \<Rightarrow> ptr \<Rightarrow> nat \<Rightarrow> vsf_pool_cfg_t \<Rightarrow> pool_statistic_chain \<Rightarrow> vsf_heap_t
     \<Rightarrow> (vsf_pool_t \<times> pool_statistic_chain \<times> vsf_heap_t) option" where
  "VSF_POOL_INIT region_int obj ty buffer n cfg chain h = do {
     (p, chain) \<leftarrow> typed_pool_init region_int obj ty (Some cfg) chain;
     (_, p, h) \<leftarrow> vsf_pool_add_buffer buffer (n * pool_item_bytes ty) (pool_item_bytes ty) p h;
     Some (p, chain, h)}"

end
