(* ===== verification/VSF_Pool_Correct.thy ===== *)
theory VSF_Pool_Correct
  imports VSF_Pool
begin

text \<open>
  Correctness of the pools: a pool with a buffer of its own fulfils the contract of an allocator, with all items accounted for, and what
  becomes of an allocation that feeds on the heap.
\<close>

section \<open>Pointers in memory\<close>

lemma put_ptr_bytes: "hp_bytes (put_ptr p v h) i = hp_bytes h i" if "i < p \<or> p + 4 \<le> i"
  using that by (auto simp: put_ptr_def put_bytes_def)

lemma get_put_ptr: "get_ptr p (put_ptr p v h) = v" if "v < 2 ^ 32"
proof -
  have 1: "v = v mod 256 + 256 * (v div 256)" by simp
  have 2: "v div 256 = v div 256 mod 256 + 256 * (v div 65536)"
    using mod_mult_div_eq [of "v div 256" 256] by (simp flip: div_mult2_eq)
  have 3: "v div 65536 = v div 65536 mod 256 + 256 * (v div 16777216)"
    using mod_mult_div_eq [of "v div 65536" 256] by (simp flip: div_mult2_eq)
  have 4: "v div 16777216 mod 256 = v div 16777216" using that by (simp add: less_mult_imp_div_less)
  have "get_ptr p (put_ptr p v h) = v mod 256 + 256 * (v div 256 mod 256) + 65536 * (v div 65536 mod 256)
      + 16777216 * (v div 16777216 mod 256)"
    by (simp add: get_ptr_def put_ptr_def put_bytes_def unat_of_nat)
  then show ?thesis using 1 2 3 unfolding 4 by linarith
qed

lemma get_ptr_cong: "(\<And>i. p \<le> i \<Longrightarrow> i < p + 4 \<Longrightarrow> hp_bytes h' i = hp_bytes h i) \<Longrightarrow> get_ptr p h' = get_ptr p h"
  by (simp add: get_ptr_def)

section \<open>The items of a pool\<close>

text \<open>The free list as the list of its items.\<close>

fun plist :: "vsf_heap_t \<Rightarrow> ptr \<Rightarrow> ptr list \<Rightarrow> bool" where
  "plist h p [] \<longleftrightarrow> p = null"
| "plist h p (f # fs) \<longleftrightarrow> p = f \<and> f \<noteq> null \<and> plist h (get_ptr f h) fs"

lemma plist_cong:
  assumes "\<And>f i. f \<in> set fs \<Longrightarrow> f \<le> i \<Longrightarrow> i < f + 4 \<Longrightarrow> hp_bytes h' i = hp_bytes h i"
  shows "plist h' p fs = plist h p fs"
  using assms
proof (induction fs arbitrary: p)
  case (Cons f fs)
  have "get_ptr f h' = get_ptr f h" using Cons.prems [of f] by (intro get_ptr_cong) simp
  moreover have "plist h' q fs = plist h q fs" for q by (rule Cons.IH) (rule Cons.prems, auto)
  ultimately show ?case by simp
qed simp

lemma plist_less: "plist h p fs \<Longrightarrow> \<forall>f \<in> set fs. f < 2 ^ 32 \<Longrightarrow> p < 2 ^ 32"
  by (cases fs) auto

text \<open>The items of a buffer at \<open>b\<close> with \<open>n\<close> items of \<open>sz\<close> bytes.\<close>

definition items :: "ptr \<Rightarrow> nat \<Rightarrow> nat \<Rightarrow> ptr set" where
  "items b sz n = (\<lambda>i. b + i * sz) ` {..<n}"

lemma items_apart:
  assumes "x \<in> items b sz n" "y \<in> items b sz n" "x \<noteq> y"
  shows "x + sz \<le> y \<or> y + sz \<le> x"
proof -
  obtain i j where ij: "x = b + i * sz" "y = b + j * sz" using assms by (auto simp: items_def)
  then consider "Suc i \<le> j" | "Suc j \<le> i" using assms(3) by fastforce
  then show ?thesis
  proof cases
    case 1 then have "Suc i * sz \<le> j * sz" by (rule mult_le_mono1) then show ?thesis using ij by simp
  next
    case 2 then have "Suc j * sz \<le> i * sz" by (rule mult_le_mono1) then show ?thesis using ij by simp
  qed
qed

lemma card_items: "0 < sz \<Longrightarrow> card (items b sz n) = n"
  unfolding items_def by (subst card_image) (auto simp: inj_on_def)

lemma items_bounds: "x \<in> items b sz n \<Longrightarrow> b \<le> x \<and> x + sz \<le> b + n * sz"
proof -
  assume "x \<in> items b sz n"
  then obtain i where i: "x = b + i * sz" "Suc i \<le> n" unfolding items_def image_iff by (auto intro: Suc_leI)
  have "Suc i * sz \<le> n * sz" by (rule mult_le_mono1 [OF i(2)])
  then show ?thesis using i by simp
qed

text \<open>
  The pool holds the items of its buffer, each either in the free list or in use: \<open>L\<close> is the set of items in use with their size. The
  counts are right.
\<close>

definition pool_rep :: "ptr \<Rightarrow> nat \<Rightarrow> nat \<Rightarrow> vsf_pool_t \<times> vsf_heap_t \<Rightarrow> (ptr \<times> nat) set \<Rightarrow> bool" where
  "pool_rep b sz n s L \<longleftrightarrow> (case s of (p, h) \<Rightarrow>
     \<exists>fs. plist h (free_list p) fs \<and> distinct fs \<and> set fs \<union> fst ` L = items b sz n \<and> set fs \<inter> fst ` L = {}
       \<and> snd ` L \<subseteq> {sz} \<and> is_no_feed_on_heap p \<and> unat (free_cnt p) = length fs \<and> unat (used_cnt p) = card L
       \<and> 0 < b \<and> 4 \<le> sz \<and> n < 2 ^ 16 \<and> b + n * sz \<le> 2 ^ 32)"

lemma pool_repI:
  assumes "plist h (free_list p) fs" "distinct fs" "set fs \<union> fst ` L = items b sz n" "set fs \<inter> fst ` L = {}"
    "snd ` L \<subseteq> {sz}" "is_no_feed_on_heap p" "unat (free_cnt p) = length fs" "unat (used_cnt p) = card L"
    "0 < b" "4 \<le> sz" "n < 2 ^ 16" "b + n * sz \<le> 2 ^ 32"
  shows "pool_rep b sz n (p, h) L"
  using assms unfolding pool_rep_def by auto

lemma rep_finite: "pool_rep b sz n (p, h) L \<Longrightarrow> finite L"
proof -
  assume "pool_rep b sz n (p, h) L"
  then have "fst ` L \<subseteq> items b sz n" "snd ` L \<subseteq> {sz}" by (auto simp: pool_rep_def)
  then have "L \<subseteq> items b sz n \<times> {sz}" by force
  moreover have "finite (items b sz n)" by (simp add: items_def)
  ultimately show ?thesis using finite_subset by blast
qed

text \<open>Every item is accounted for.\<close>

lemma pool_count:
  assumes "pool_rep b sz n (p, h) L"
  shows "unat (free_cnt p) + card L = n"
proof -
  obtain fs where fs: "distinct fs" "set fs \<union> fst ` L = items b sz n" "set fs \<inter> fst ` L = {}" "snd ` L \<subseteq> {sz}"
      "unat (free_cnt p) = length fs" "4 \<le> sz"
    using assms by (auto simp: pool_rep_def)
  have fin: "finite L" using rep_finite [OF assms] .
  have inj: "inj_on fst L" using fs(4) by (auto simp: inj_on_def image_subset_iff prod_eq_iff)
  show ?thesis
    using card_Un_disjoint [of "set fs" "fst ` L"] fs fin card_image [OF inj] distinct_card [OF fs(1)] card_items [of sz b n] by simp
qed

lemma pool_rep_cong:
  assumes "pool_rep b sz n (p, h) L" "\<And>f i. f \<in> items b sz n - fst ` L \<Longrightarrow> f \<le> i \<Longrightarrow> i < f + 4 \<Longrightarrow> hp_bytes h' i = hp_bytes h i"
  shows "pool_rep b sz n (p, h') L"
proof -
  have "plist h' (free_list p) fs = plist h (free_list p) fs"
    if "set fs \<union> fst ` L = items b sz n" "set fs \<inter> fst ` L = {}" for fs
    by (rule plist_cong) (use assms(2) that in blast)
  then show ?thesis using assms(1) unfolding pool_rep_def by auto
qed

section \<open>The pool is an allocator\<close>

text \<open>An allocation of at most the size of an item.\<close>

definition pool_malloc :: "nat \<Rightarrow> u32 \<Rightarrow> vsf_pool_t \<times> vsf_heap_t \<Rightarrow> (ptr \<times> vsf_pool_t \<times> vsf_heap_t) option" where
  "pool_malloc sz k s =
     (if unat k \<le> sz then vsf_pool_alloc vsf_plug_in_on_failed_to_feed_pool_on_heap (fst s) (snd s) else Some (null, s))"

definition pool_release :: "ptr \<Rightarrow> vsf_pool_t \<times> vsf_heap_t \<Rightarrow> (vsf_pool_t \<times> vsf_heap_t) option" where
  "pool_release b s = vsf_pool_free b (fst s) (snd s)"

definition pool_poke :: "ptr \<Rightarrow> u8 list \<Rightarrow> vsf_pool_t \<times> vsf_heap_t \<Rightarrow> vsf_pool_t \<times> vsf_heap_t" where
  "pool_poke b bs s = (fst s, put_bytes b bs (snd s))"

lemma pool_rep_alloc:
  assumes "pool_rep b sz n (p, h) L"
  shows "\<exists>x p' h'. vsf_pool_alloc plug_in p h = Some (x, p', h')
    \<and> (if card L = n then x = null \<and> (p', h') = (p, h)
       else x \<noteq> null \<and> x \<notin> fst ` L \<and> pool_rep b sz n (p', h') (insert (x, sz) L)
         \<and> (\<forall>c m i. (c, m) \<in> L \<longrightarrow> c \<le> i \<longrightarrow> i < c + m \<longrightarrow> hp_bytes h' i = hp_bytes h i))"
proof -
  obtain fs where fs: "plist h (free_list p) fs" "distinct fs" "set fs \<union> fst ` L = items b sz n" "set fs \<inter> fst ` L = {}"
      "snd ` L \<subseteq> {sz}" "is_no_feed_on_heap p" "unat (free_cnt p) = length fs" "unat (used_cnt p) = card L"
      "0 < b" "4 \<le> sz" "n < 2 ^ 16" "b + n * sz \<le> 2 ^ 32"
    using assms by (auto simp: pool_rep_def)
  have fin: "finite L" using rep_finite [OF assms] .
  have total: "length fs + card L = n" using pool_count [OF assms] fs(7) by simp
  show ?thesis
  proof (cases fs)
    case Nil
    then show ?thesis using fs(1,6) total by (simp add: vsf_pool_alloc_def)
  next
    case (Cons x gs)
    define h' where "h' = put_ptr x null h"
    define p' where "p' = p\<lparr>free_list := get_ptr x h, free_cnt := free_cnt p - 1, used_cnt := used_cnt p + 1\<rparr>"
    have x: "x \<in> items b sz n" "x \<notin> fst ` L" "x \<notin> set gs" "free_list p = x" "x \<noteq> null"
      using fs(1-4) Cons by auto
    have far: "y + sz \<le> x \<or> x + sz \<le> y" if "y \<in> set gs \<union> fst ` L" for y
      using items_apart [OF x(1), of y] that fs(3) Cons x(2,3) by auto
    have same: "hp_bytes h' i = hp_bytes h i" if "y \<in> set gs \<union> fst ` L" "y \<le> i" "i < y + sz" for y i
      unfolding h'_def using far [OF that(1)] that fs(10) by (intro put_ptr_bytes) linarith
    have "plist h' (get_ptr x h) gs = plist h (get_ptr x h) gs"
      by (rule plist_cong) (use same fs(10) in fastforce)
    then have "plist h' (get_ptr x h) gs" using fs(1) Cons by simp
    moreover have "unat (free_cnt p - 1) = length gs"
      using fs(7) Cons unat_dec [of "free_cnt p"] by (simp add: word_less_nat_alt)
    moreover have "unat (used_cnt p + 1) = card (insert (x, sz) L)"
    proof -
      have "(x, sz) \<notin> L" using x(2) by force
      moreover have "unat (used_cnt p) + 1 < 2 ^ 16" using fs(8,11) total Cons by simp
      ultimately show ?thesis using fs(8) fin unat_add_small [of "used_cnt p" 1] by simp
    qed
    moreover have "set gs \<union> fst ` insert (x, sz) L = items b sz n" "set gs \<inter> fst ` insert (x, sz) L = {}"
      using fs(3,4) Cons x by auto
    ultimately have "pool_rep b sz n (p', h') (insert (x, sz) L)"
      using fs Cons by (intro pool_repI [of _ _ gs]) (simp_all add: p'_def)
    moreover have "\<forall>c m i. (c, m) \<in> L \<longrightarrow> c \<le> i \<longrightarrow> i < c + m \<longrightarrow> hp_bytes h' i = hp_bytes h i"
    proof (intro allI impI)
      fix c m i assume "(c, m) \<in> L" "c \<le> i" "i < c + m"
      moreover from this have "m = sz" "c \<in> fst ` L" using fs(5) by force+
      ultimately show "hp_bytes h' i = hp_bytes h i" using same by blast
    qed
    moreover have "vsf_pool_alloc plug_in p h = Some (x, p', h')"
      using x by (simp add: vsf_pool_alloc_def pool_pop_def p'_def h'_def Let_def)
    ultimately show ?thesis using x total Cons by simp
  qed
qed

lemma pool_rep_free:
  assumes "pool_rep b sz n (p, h) L" "(x, m) \<in> L"
  shows "\<exists>p' h'. vsf_pool_free x p h = Some (p', h') \<and> pool_rep b sz n (p', h') (L - {(x, m)})
    \<and> (\<forall>c m' i. (c, m') \<in> L - {(x, m)} \<longrightarrow> c \<le> i \<longrightarrow> i < c + m' \<longrightarrow> hp_bytes h' i = hp_bytes h i)"
proof -
  obtain fs where fs: "plist h (free_list p) fs" "distinct fs" "set fs \<union> fst ` L = items b sz n" "set fs \<inter> fst ` L = {}"
      "snd ` L \<subseteq> {sz}" "is_no_feed_on_heap p" "unat (free_cnt p) = length fs" "unat (used_cnt p) = card L"
      "0 < b" "4 \<le> sz" "n < 2 ^ 16" "b + n * sz \<le> 2 ^ 32"
    using assms by (auto simp: pool_rep_def)
  have m: "m = sz" using assms(2) fs(5) by force
  have only: "(c, k) \<in> L - {(x, m)} \<Longrightarrow> c \<noteq> x \<and> k = sz \<and> c \<in> fst ` L" for c k using fs(5) m by force
  have total: "length fs + card L = n" using pool_count [OF assms(1)] fs(7) by simp
  define h' where "h' = put_ptr x (free_list p) h"
  define p' where "p' = p\<lparr>free_list := x, free_cnt := free_cnt p + 1, used_cnt := used_cnt p - 1\<rparr>"
  have x: "x \<in> items b sz n" "x \<notin> set fs" "x \<in> fst ` L" using fs(3,4) assms(2) by force+
  have far: "y + sz \<le> x \<or> x + sz \<le> y" if "y \<in> set fs \<union> fst ` L" "y \<noteq> x" for y
    using items_apart [OF x(1), of y] that fs(3) by auto
  have same: "hp_bytes h' i = hp_bytes h i" if "y \<in> set fs \<union> fst ` L" "y \<noteq> x" "y \<le> i" "i < y + sz" for y i
    unfolding h'_def using far [OF that(1,2)] that fs(10) by (intro put_ptr_bytes) linarith
  have small: "y < 2 ^ 32" if "y \<in> items b sz n" for y using items_bounds [OF that] fs(10,12) by linarith
  have "free_list p < 2 ^ 32" using plist_less [OF fs(1)] small fs(3) by blast
  then have "get_ptr x h' = free_list p" by (simp add: h'_def get_put_ptr)
  moreover have "plist h' (free_list p) fs = plist h (free_list p) fs"
    by (rule plist_cong) (use same fs(10) x(2) in fastforce)
  moreover have "x \<noteq> null" using items_bounds [OF x(1)] fs(9) by simp
  ultimately have "plist h' (free_list p') (x # fs)" using fs(1) by (simp add: p'_def)
  moreover have "unat (free_cnt p + 1) = Suc (length fs)"
  proof -
    have "0 < card L" using assms(2) rep_finite [OF assms(1)] by (auto simp: card_gt_0_iff)
    then have "unat (free_cnt p) + 1 < 2 ^ 16" using fs(7,11) total by simp
    then show ?thesis using fs(7) unat_add_small [of "free_cnt p" 1] by simp
  qed
  moreover have "unat (used_cnt p - 1) = card (L - {(x, m)})"
  proof -
    have "0 < card L" using assms(2) rep_finite [OF assms(1)] by (auto simp: card_gt_0_iff)
    then show ?thesis using fs(8) unat_dec [of "used_cnt p"] assms(2) rep_finite [OF assms(1)] by (simp add: word_less_nat_alt)
  qed
  moreover have F: "fst ` (L - {(x, m)}) = fst ` L - {x}" using only by force
  moreover have "set (x # fs) \<union> fst ` (L - {(x, m)}) = items b sz n" "set (x # fs) \<inter> fst ` (L - {(x, m)}) = {}"
      "snd ` (L - {(x, m)}) \<subseteq> {sz}"
    unfolding F using fs(3,4,5) x by auto
  ultimately have "pool_rep b sz n (p', h') (L - {(x, m)})"
    using fs(2,6,9-12) x(2) by (intro pool_repI [of _ _ "x # fs"]) (simp_all add: p'_def)
  moreover have "vsf_pool_free x p h = Some (p', h')"
    using \<open>x \<noteq> null\<close> by (simp add: vsf_pool_free_def p_vsf_pool_add_item_def pool_push_def p'_def h'_def Let_def)
  moreover have "\<forall>c m' i. (c, m') \<in> L - {(x, m)} \<longrightarrow> c \<le> i \<longrightarrow> i < c + m' \<longrightarrow> hp_bytes h' i = hp_bytes h i"
    using only same by blast
  ultimately show ?thesis by blast
qed

lemma pool_rep_poke:
  assumes "pool_rep b sz n (p, h) L" "(x, m) \<in> L" "x \<le> a" "a + length bs \<le> x + m"
  shows "pool_rep b sz n (p, put_bytes a bs h) L"
proof (rule pool_rep_cong [OF assms(1)])
  fix f i assume f: "f \<in> items b sz n - fst ` L" "f \<le> i" "i < f + 4"
  have L: "snd ` L \<subseteq> {sz}" "fst ` L \<subseteq> items b sz n" "4 \<le> sz" using assms(1) by (auto simp: pool_rep_def)
  have "m = sz" "x \<in> fst ` L" using assms(2) L(1) by force+
  moreover have "f + sz \<le> x \<or> x + sz \<le> f" using items_apart [of f b sz n x] f(1) calculation(2) L(2) by blast
  ultimately show "hp_bytes (put_bytes a bs h) i = hp_bytes h i" using f(2,3) assms(3,4) L(3) by (auto simp: put_bytes_def)
qed

interpretation pool: allocator "pool_rep b sz n" "\<lambda>s. hp_bytes (snd s)" "pool_malloc sz" pool_release pool_poke for b sz n
proof (unfold_locales, goal_cases)
  case (1 s L k)
  obtain p h where s: "s = (p, h)" by (cases s)
  show ?case
    using pool_rep_alloc [of b sz n p h L vsf_plug_in_on_failed_to_feed_pool_on_heap] 1
    by (cases "card L = n") (fastforce simp: pool_malloc_def s)+
next
  case (2 s L x m)
  obtain p h where s: "s = (p, h)" by (cases s)
  show ?case using pool_rep_free [of b sz n p h L x m] 2 by (fastforce simp: pool_release_def s)
next
  case (3 s L x m y k)
  obtain p h where s: "s = (p, h)" by (cases s)
  have L: "snd ` L \<subseteq> {sz}" "fst ` L \<subseteq> items b sz n" using 3(1) by (auto simp: pool_rep_def s)
  then have "m = sz" "k = sz" "x \<in> items b sz n" "y \<in> items b sz n" using 3(2,3) by force+
  then show ?case using items_apart [of x b sz n y] 3(4) by auto
next
  case (4 s L x m a bs)
  then show ?case using pool_rep_poke by (cases s) (simp add: pool_poke_def)
next
  case 5
  then show ?case by (simp add: pool_poke_def put_bytes_def)
qed

section \<open>A pool with its own buffer\<close>

lemma pool_add_items_rep:
  assumes "0 < b" "4 \<le> sz" "k < n" "n < 2 ^ 16" "b + n * sz \<le> 2 ^ 32" "(n - k) * sz \<le> m" "m < (n - k + 1) * sz"
    and "plist h (free_list p) fs" "distinct fs" "set fs = items b sz k" "unat (free_cnt p) = length fs"
    and "is_no_feed_on_heap p" "used_cnt p = 0"
  shows "pool_rep b sz n (pool_add_items None sz (b + k * sz) m p h) {}"
  using assms(3,6-)
proof (induction "n - k" arbitrary: k m p h fs)
  case (Suc j)
  let ?x = "b + k * sz"
  define h' where "h' = put_ptr ?x (free_list p) h"
  define p' where "p' = p\<lparr>free_list := ?x, free_cnt := free_cnt p + 1\<rparr>"
  have nk: "n - k = Suc j" "n - Suc k = j" using Suc.hyps(2) by simp_all
  have x: "?x \<in> items b sz n" "?x \<notin> items b sz k" using Suc.prems(1) assms(2) by (auto simp: items_def)
  have sub: "items b sz k \<subseteq> items b sz n" using Suc.prems(1) by (auto simp: items_def)
  have len: "length fs = k" using card_items [of sz b k] assms(2) Suc.prems(5,6) distinct_card [of fs] by simp
  have "free_list p < 2 ^ 32"
    using plist_less [OF Suc.prems(4)] items_bounds [of _ b sz n] sub Suc.prems(6) assms(2,5) by fastforce
  then have link: "get_ptr ?x h' = free_list p" by (simp add: h'_def get_put_ptr)
  have "plist h' (free_list p) fs = plist h (free_list p) fs"
  proof (rule plist_cong)
    fix f i assume f: "f \<in> set fs" "f \<le> i" "i < f + 4"
    have "f + sz \<le> ?x \<or> ?x + sz \<le> f" using items_apart [of f b sz n ?x] f(1) x sub Suc.prems(6) by blast
    then show "hp_bytes h' i = hp_bytes h i" unfolding h'_def using f assms(2) by (intro put_ptr_bytes) linarith
  qed
  then have "plist h' (free_list p') (?x # fs)" using link Suc.prems(4) assms(1) by (simp add: p'_def)
  moreover have d: "distinct (?x # fs)" using x(2) Suc.prems(5,6) by simp
  moreover have "set (?x # fs) = items b sz (Suc k)" using Suc.prems(6) by (auto simp: items_def lessThan_Suc)
  moreover have "unat (free_cnt p') = length (?x # fs)"
    using Suc.prems(1,7) len assms(4) unat_add_small [of "free_cnt p" 1] by (simp add: p'_def)
  moreover have "is_no_feed_on_heap p'" "used_cnt p' = 0" using Suc.prems(8,9) by (simp_all add: p'_def)
  moreover have step: "pool_add_items None sz ?x m p h = (if sz \<le> m - sz then pool_add_items None sz (?x + sz) (m - sz) p' h' else (p', h'))"
    using assms(2) by (subst pool_add_items.simps) (simp add: p_vsf_pool_add_item_def pool_push_def run_init_def p'_def h'_def Let_def)
  ultimately have rep: "pool_rep b sz n (p', h') {}" if "Suc k = n"
    using that assms by (intro pool_repI [of _ _ "?x # fs"]) simp_all
  have more: "pool_rep b sz n (pool_add_items None sz (b + Suc k * sz) (m - sz) p' h') {}" if "Suc k < n"
  proof (rule Suc.hyps(1))
    show "plist h' (free_list p') (?x # fs)" "distinct (?x # fs)" "set (?x # fs) = items b sz (Suc k)"
      "unat (free_cnt p') = length (?x # fs)" "is_no_feed_on_heap p'" "used_cnt p' = 0" by fact+
    have "(n - Suc k) * sz + sz = (n - k) * sz" "(n - Suc k + 1) * sz + sz = (n - k + 1) * sz" using nk by (simp_all add: Suc_diff_Suc add.commute)
    then show "(n - Suc k) * sz \<le> m - sz" "m - sz < (n - Suc k + 1) * sz" using Suc.prems(2,3) by linarith+
  qed (use nk that in simp_all)
  have "sz \<le> m - sz \<longleftrightarrow> Suc k < n"
  proof (cases j)
    case 0
    then have "m < sz + sz" "\<not> Suc k < n" using Suc.prems(3) nk by simp_all
    then show ?thesis using assms(2) by linarith
  next
    case (Suc i)
    then have "sz + sz \<le> m" using \<open>(n - k) * sz \<le> m\<close> nk by simp
    then have "sz \<le> m - sz" by linarith
    moreover have "Suc k < n" using nk(2) Suc by linarith
    ultimately show ?thesis by simp
  qed
  then show ?case using step rep more Suc.prems(1) by (cases "Suc k = n") (simp_all add: algebra_simps)
qed simp

lemma pool_item_bytes_ge: "4 \<le> pool_item_bytes ty"
proof -
  define a where "a = max 4 (ty_align ty)"
  have "1 * a \<le> (max 4 (ty_size ty) + a - 1) div a * a" by (rule mult_le_mono1) (simp add: a_def div_greater_zero_iff Suc_le_eq, linarith)
  then show ?thesis by (simp add: pool_item_bytes_def Let_def a_def)
qed

lemma VSF_POOL_INIT_rep:
  assumes "0 < b" "0 < n" "n < 2 ^ 16" "b + n * pool_item_bytes ty \<le> 2 ^ 32"
  shows "\<exists>p chain' h1. VSF_POOL_INIT region_int obj ty b n cfg chain h = Some (p, chain', h1)
    \<and> pool_rep b (pool_item_bytes ty) n (p, h1) {}"
proof -
  let ?sz = "pool_item_bytes ty"
  obtain p chain' where p: "typed_pool_init region_int obj ty (Some cfg) chain = Some (p, chain')" "free_list p = null" "free_cnt p = 0"
      "used_cnt p = 0"
    by (simp add: typed_pool_init_def vsf_pool_init_def Let_def)
  have sz: "4 \<le> ?sz" by (rule pool_item_bytes_ge)
  have "?sz \<le> n * ?sz" using assms(2) by (cases n) simp_all
  then have add: "vsf_pool_add_buffer b (n * ?sz) ?sz p h = Some (True, pool_add_items None ?sz b (n * ?sz) (p\<lparr>is_no_feed_on_heap := True\<rparr>) h)"
    using assms(1) sz by (simp add: vsf_pool_add_buffer_def vsf_pool_add_buffer_ex_def)
  have "pool_rep b ?sz n (pool_add_items None ?sz (b + 0 * ?sz) (n * ?sz) (p\<lparr>is_no_feed_on_heap := True\<rparr>) h) {}"
    by (rule pool_add_items_rep [where fs = "[]"]) (use assms sz p(2-4) in \<open>simp_all add: items_def\<close>)
  then show ?thesis using p(1) add by (auto simp: VSF_POOL_INIT_def split: prod.split)
qed

text \<open>
  C30. An application on a pool: after \<open>VSF_POOL_INIT\<close> with a buffer of \<open>n\<close> items of a type, any program that takes items, fills them
  and gives them back in any order runs without a failed assertion; at the end every item it still holds is one of the \<open>n\<close> items of the
  buffer, no item is held twice, each contains the bytes that were stored there, and the counts of free and of used items add up to
  \<open>n\<close>.
\<close>

theorem pool_client_contents:
  assumes "0 < b" "0 < n" "n < 2 ^ 16" "b + n * pool_item_bytes ty \<le> 2 ^ 32" "\<forall>bs. Keep bs \<in> set ops \<longrightarrow> length bs + 3 < 2 ^ 32"
  shows "\<exists>p chain' h1 held p' h'. VSF_POOL_INIT region_int obj ty b n cfg chain h = Some (p, chain', h1)
    \<and> allocator.run (pool_malloc (pool_item_bytes ty)) pool_release pool_poke ops [] (p, h1) = Some (held, p', h')
    \<and> distinct (map fst held) \<and> vsf_pool_get_count p' + unat (used_cnt p') = n
    \<and> (\<forall>(x, bs) \<in> set held. x \<in> items b (pool_item_bytes ty) n \<and> length bs \<le> pool_item_bytes ty
         \<and> (\<forall>i < length bs. hp_bytes h' (x + i) = bs ! i))"
proof -
  let ?sz = "pool_item_bytes ty"
  obtain p chain' h1 where I: "VSF_POOL_INIT region_int obj ty b n cfg chain h = Some (p, chain', h1)" "pool_rep b ?sz n (p, h1) {}"
    using VSF_POOL_INIT_rep [OF assms(1-4)] by blast
  have "pool.holds b ?sz n [] (p, h1) {}" using I(2) by (simp add: pool.holds_def)
  from pool.run_holds [OF this assms(5)] obtain held p' h' L where
    R: "pool.run ?sz ops [] (p, h1) = Some (held, p', h')" "pool.holds b ?sz n held (p', h') L" by auto
  have L: "pool_rep b ?sz n (p', h') L" "distinct (map fst held)" "\<forall>(x, bs) \<in> set held. pool.stored (p', h') L x bs"
    using R(2) by (simp_all add: pool.holds_def)
  have S: "snd ` L \<subseteq> {?sz}" "fst ` L \<subseteq> items b ?sz n" "unat (used_cnt p') = card L" using L(1) by (auto simp: pool_rep_def)
  have "x \<in> items b ?sz n \<and> length bs \<le> ?sz \<and> (\<forall>i < length bs. hp_bytes h' (x + i) = bs ! i)" if "(x, bs) \<in> set held" for x bs
  proof -
    have "pool.stored (p', h') L x bs" using L(3) that by blast
    then obtain k where "(x, k) \<in> L" "length bs \<le> k" "\<forall>i < length bs. hp_bytes h' (x + i) = bs ! i"
      unfolding pool.stored_def snd_conv by blast
    moreover from this(1) have "k = ?sz" "x \<in> items b ?sz n" using S(1,2) by force+
    ultimately show ?thesis by simp
  qed
  moreover have "vsf_pool_get_count p' + unat (used_cnt p') = n"
    using pool_count [OF L(1)] S(3) by (simp add: vsf_pool_get_count_def)
  ultimately show ?thesis using I(1) R(1) L(2) by blast
qed

definition sample_pool_cfg :: vsf_pool_cfg_t where
  "sample_pool_cfg = \<lparr>pool_name_str = ''sample'', cfg_target_ptr = null, cfg_region_ptr = null, cfg_item_init_fn = None\<rparr>"

theorem pool_client_contents_witness:
  "\<exists>p chain' h1 held p' h'. VSF_POOL_INIT 64 128 \<lparr>ty_size = 6, ty_align = 2\<rparr> 4096 3 sample_pool_cfg \<lparr>pool_list = [], pool_cnt = 0\<rparr> heap_empty
      = Some (p, chain', h1)
    \<and> allocator.run (pool_malloc (pool_item_bytes \<lparr>ty_size = 6, ty_align = 2\<rparr>)) pool_release pool_poke
        [Keep [1, 2], Keep [3], Drop 0, Keep [4]] [] (p, h1) = Some (held, p', h')
    \<and> distinct (map fst held) \<and> vsf_pool_get_count p' + unat (used_cnt p') = 3"
  using pool_client_contents [of 4096 3 "\<lparr>ty_size = 6, ty_align = 2\<rparr>" "[Keep [1, 2], Keep [3], Drop 0, Keep [4]]" 64 128 sample_pool_cfg
      "\<lparr>pool_list = [], pool_cnt = 0\<rparr>" heap_empty]
  by (fastforce simp: pool_item_bytes_def)

section \<open>Items from the heap\<close>

text \<open>
  Once the function of the user has asked for another try, the loop goes on after an allocation that succeeds: it takes block
  after block until the heap is empty again, and every block that it got is lost. If it returns at all, it returns NULL.
\<close>

lemma pool_retry_null:
  assumes "pool_feed plug_in True p h = Some r"
  shows "fst r = null"
proof -
  have "True \<longrightarrow> fst r = null"
    using assms
  proof (rule pool_feed.raw_induct [where P = "\<lambda>_ retry _ _ r. retry \<longrightarrow> fst r = null", rotated])
    fix feed plug_in retry p h r
    assume IH0: "\<And>plug_in retry p h r. feed plug_in retry p h = Some r \<Longrightarrow> retry \<longrightarrow> fst r = null"
      and body: "Option.bind (vsf_heap_malloc_aligned_imp (of_nat (item_size p)) (of_nat (u15_align p)) h) (\<lambda>(node, h).
        if node \<noteq> null
        then let h = run_init (item_init_fn p) (target_ptr p) node (item_size p) h; p = p\<lparr>used_cnt := used_cnt p + 1\<rparr>
             in if retry then feed plug_in retry p h else Some (node, p, h)
        else let (retry, p, h) = plug_in p h in if retry then feed plug_in retry p h else Some (node, p, h)) = Some r"
    have IH: "fst r = null" if "feed plug_in True p h = Some r" for plug_in p h r using IH0 [OF that] by simp
    show "retry \<longrightarrow> fst r = null"
      using body by (auto simp: bind_eq_Some_conv Let_def dest: IH split: if_splits prod.splits)
  qed
  then show ?thesis by simp
qed

theorem pool_retry_never_serves:
  assumes "free_list p = null" "\<not> is_no_feed_on_heap p"
    and "vsf_heap_malloc_aligned_imp (of_nat (item_size p)) (of_nat (u15_align p)) h = Some (null, h1)"
    and "plug_in p h1 = (True, p1, h2)" "vsf_pool_alloc plug_in p h = Some (x, p', h')"
  shows "x = null"
proof -
  have "pool_feed plug_in False p h = pool_feed plug_in True p1 h2"
    using assms(3,4) by (subst pool_feed.simps) simp
  then show ?thesis using assms(1,2,5) pool_retry_null [of plug_in p1 h2] by (fastforce simp: vsf_pool_alloc_def)
qed

text \<open>
  An initialisation function that writes to the first word of the item overwrites the link of the free list: the function runs when the
  item is in the list already. Two items, the function clears each of them: the second allocation finds the pool empty.
\<close>

theorem pool_init_fn_breaks_list:
  "\<exists>p h x p' h'. vsf_pool_add_buffer_ex 4096 8 4 (Some (\<lambda>_ node sz. put_bytes node (replicate sz 0)))
       \<lparr>free_list = null, free_cnt = 0, used_cnt = 0, pool_name = [], item_size = 4, u15_align = 4, is_no_feed_on_heap = False,
         item_init_fn = None, region_ptr = 64, target_ptr = null\<rparr> heap_empty = Some (True, p, h)
    \<and> vsf_pool_get_count p = 2 \<and> vsf_pool_alloc plug_in p h = Some (x, p', h') \<and> x = 4100
    \<and> vsf_pool_get_count p' = 1 \<and> vsf_pool_alloc plug_in p' h' = Some (null, p', h')"
  by (simp add: vsf_pool_add_buffer_ex_def pool_add_items.simps p_vsf_pool_add_item_def pool_push_def run_init_def Let_def
      vsf_pool_get_count_def vsf_pool_alloc_def pool_pop_def get_ptr_def put_ptr_def put_bytes_def)

text \<open>The tag of the configuration is not stored.\<close>

theorem pool_init_drops_tag:
  "vsf_pool_init region_int obj sz align (Some cfg) chain = Some (p, chain') \<Longrightarrow> vsf_pool_get_tag p = null"
  by (auto simp: vsf_pool_init_def Let_def vsf_pool_get_tag_def)

end
