(* ===== verification/VSF_Mal.thy ===== *)
theory VSF_Mal
  imports VSF_Prelude "HOL-Library.Monad_Syntax"
begin

text \<open>
  The memory abstraction layer, \<open>src/source/component/mal/vsf_mal.c\<close>, and its drivers for plain memory, \<open>driver/mem_mal\<close>, and
  for the shared use of a part of another device (\<open>vk_reentrant_mal_drv\<close>), without streams.

  The operations are handlers of subtasks: a call needs a frame, which it may not get, runs the handler in it and gives back what the handler
  returns. Calls are functions here, \<open>VSF_Frame\<close> shows that a call with its return restores the caller; the number of frames that are
  left is an argument. A handler that ends without a return leaves its caller waiting. \<open>None\<close> is a failed assertion.
\<close>

section \<open>Memory and calls\<close>

type_synonym memory = "nat \<Rightarrow> u8"

definition mem_copy :: "nat \<Rightarrow> nat \<Rightarrow> nat \<Rightarrow> memory \<Rightarrow> memory" where
  "mem_copy dst src n m = (\<lambda>i. if dst \<le> i \<and> i < dst + n then m (src + (i - dst)) else m i)"

definition mem_fill :: "nat \<Rightarrow> u8 \<Rightarrow> nat \<Rightarrow> memory \<Rightarrow> memory" where
  "mem_fill dst v n m = (\<lambda>i. if dst \<le> i \<and> i < dst + n then v else m i)"

datatype 'a reply = NO_FRAME | WAITS | RETURN 'a

definition call_peda :: "nat \<Rightarrow> (nat \<Rightarrow> 'a reply option) \<Rightarrow> 'a reply option" where
  "call_peda frames f = (if frames = 0 then Some NO_FRAME else f (frames - 1))"

text \<open>What a caller does when there is no frame, and when the callee has returned.\<close>

definition await :: "'a reply option \<Rightarrow> 'b reply option \<Rightarrow> ('a \<Rightarrow> 'b reply option) \<Rightarrow> 'b reply option" where
  "await r no_frame k =
     (case r of None \<Rightarrow> None | Some NO_FRAME \<Rightarrow> no_frame | Some WAITS \<Rightarrow> Some WAITS | Some (RETURN x) \<Rightarrow> k x)"

section \<open>Devices\<close>

datatype vsf_mal_op_t = VSF_MAL_OP_ERASE | VSF_MAL_OP_READ | VSF_MAL_OP_WRITE

record vsf_mal_capability_t =
  data_ptr_alignment :: nat
  data_size_alignment :: nat
  read_data_ptr_alignment :: nat
  write_data_ptr_alignment :: nat

record vk_mal_t =
  mal_size :: nat

type_synonym 's mal_result = "(int \<times> 's \<times> memory) reply option"

text \<open>A driver for devices with the state \<open>'s\<close>; functions that a driver need not have are optional.\<close>

record 's vk_mal_drv_t =
  drv_blksz :: "(nat \<Rightarrow> nat \<Rightarrow> vsf_mal_op_t \<Rightarrow> 's \<Rightarrow> nat option) option"
  drv_buffer :: "(nat \<Rightarrow> nat \<Rightarrow> vsf_mal_op_t \<Rightarrow> 's \<Rightarrow> bool \<times> nat \<times> nat) option"
  drv_capability :: "('s \<Rightarrow> vsf_mal_capability_t) option"
  drv_init :: "(nat \<Rightarrow> 's \<Rightarrow> memory \<Rightarrow> 's mal_result) option"
  drv_fini :: "(nat \<Rightarrow> 's \<Rightarrow> memory \<Rightarrow> 's mal_result) option"
  drv_erase :: "(nat \<Rightarrow> nat \<Rightarrow> nat \<Rightarrow> 's \<Rightarrow> memory \<Rightarrow> 's mal_result) option"
  drv_read :: "(nat \<Rightarrow> nat \<Rightarrow> nat \<Rightarrow> nat \<Rightarrow> 's \<Rightarrow> memory \<Rightarrow> 's mal_result) option"
  drv_write :: "(nat \<Rightarrow> nat \<Rightarrow> nat \<Rightarrow> nat \<Rightarrow> 's \<Rightarrow> memory \<Rightarrow> 's mal_result) option"

definition vk_mal_init :: "'s vk_mal_drv_t \<Rightarrow> nat \<Rightarrow> 's \<Rightarrow> memory \<Rightarrow> 's mal_result" where
  "vk_mal_init drv frames s m = do {f \<leftarrow> drv_init drv; call_peda frames (\<lambda>fr. f fr s m)}"

definition vk_mal_fini :: "'s vk_mal_drv_t \<Rightarrow> nat \<Rightarrow> 's \<Rightarrow> memory \<Rightarrow> 's mal_result" where
  "vk_mal_fini drv frames s m = do {f \<leftarrow> drv_fini drv; call_peda frames (\<lambda>fr. f fr s m)}"

definition vk_mal_blksz :: "'s vk_mal_drv_t \<Rightarrow> nat \<Rightarrow> nat \<Rightarrow> vsf_mal_op_t \<Rightarrow> 's \<Rightarrow> nat option" where
  "vk_mal_blksz drv addr sz oper s = do {f \<leftarrow> drv_blksz drv; f addr sz oper s}"

definition vk_mal_prepare_buffer :: "'s vk_mal_drv_t \<Rightarrow> nat \<Rightarrow> nat \<Rightarrow> vsf_mal_op_t \<Rightarrow> 's \<Rightarrow> bool \<times> nat \<times> nat" where
  "vk_mal_prepare_buffer drv addr sz oper s =
     (case drv_buffer drv of None \<Rightarrow> (False, 0, 0) | Some f \<Rightarrow> f addr sz oper s)"

definition vk_mal_capability :: "'s vk_mal_drv_t \<Rightarrow> 's \<Rightarrow> vsf_mal_capability_t" where
  "vk_mal_capability drv s =
     (case drv_capability drv of Some f \<Rightarrow> f s
      | None \<Rightarrow> \<lparr>data_ptr_alignment = 1, data_size_alignment = 1, read_data_ptr_alignment = 0, write_data_ptr_alignment = 0\<rparr>)"

definition vk_mal_erase :: "'s vk_mal_drv_t \<Rightarrow> nat \<Rightarrow> nat \<Rightarrow> nat \<Rightarrow> 's \<Rightarrow> memory \<Rightarrow> 's mal_result" where
  "vk_mal_erase drv frames addr sz s m = do {f \<leftarrow> drv_erase drv; call_peda frames (\<lambda>fr. f fr addr sz s m)}"

definition vk_mal_read :: "'s vk_mal_drv_t \<Rightarrow> nat \<Rightarrow> nat \<Rightarrow> nat \<Rightarrow> nat \<Rightarrow> 's \<Rightarrow> memory \<Rightarrow> 's mal_result" where
  "vk_mal_read drv frames addr sz buff s m = do {f \<leftarrow> drv_read drv; call_peda frames (\<lambda>fr. f fr addr sz buff s m)}"

definition vk_mal_write :: "'s vk_mal_drv_t \<Rightarrow> nat \<Rightarrow> nat \<Rightarrow> nat \<Rightarrow> nat \<Rightarrow> 's \<Rightarrow> memory \<Rightarrow> 's mal_result" where
  "vk_mal_write drv frames addr sz buff s m = do {f \<leftarrow> drv_write drv; call_peda frames (\<lambda>fr. f fr addr sz buff s m)}"

section \<open>Plain memory\<close>

record vk_mem_mal_t = vk_mal_t +
  mem_buffer :: nat
  mem_size :: nat
  mm_blksz :: nat

definition p_vk_mem_mal_blksz :: "nat \<Rightarrow> nat \<Rightarrow> vsf_mal_op_t \<Rightarrow> vk_mem_mal_t \<Rightarrow> nat option" where
  "p_vk_mem_mal_blksz addr sz oper s = Some (mm_blksz s)"

definition p_vk_mem_mal_buffer :: "nat \<Rightarrow> nat \<Rightarrow> vsf_mal_op_t \<Rightarrow> vk_mem_mal_t \<Rightarrow> bool \<times> nat \<times> nat" where
  "p_vk_mem_mal_buffer addr sz oper s = (True, (mem_buffer s + addr) mod 2 ^ 32, sz)"

definition p_vk_mem_mal_init :: "nat \<Rightarrow> vk_mem_mal_t \<Rightarrow> memory \<Rightarrow> vk_mem_mal_t mal_result" where
  "p_vk_mem_mal_init frames s m = Some (RETURN (0, s\<lparr>mal_size := mem_size s\<rparr>, m))"

definition p_vk_mem_mal_fini :: "nat \<Rightarrow> vk_mem_mal_t \<Rightarrow> memory \<Rightarrow> vk_mem_mal_t mal_result" where
  "p_vk_mem_mal_fini frames s m = Some (RETURN (0, s, m))"

text \<open>The address has 64 bits and wraps; a pointer has 32. A return value is a number of 32 bits with a sign.\<close>

definition p_vk_mem_mal_read :: "nat \<Rightarrow> nat \<Rightarrow> nat \<Rightarrow> nat \<Rightarrow> vk_mem_mal_t \<Rightarrow> memory \<Rightarrow> vk_mem_mal_t mal_result" where
  "p_vk_mem_mal_read frames addr sz buff s m =
     (let p = (mem_buffer s + addr) mod 2 ^ 32
      in if sz = 0 \<or> mem_size s < (addr + sz) mod 2 ^ 64 then None
         else Some (RETURN (signed_take_bit 31 (int sz), s, if buff \<noteq> p then mem_copy buff p sz m else m)))"

definition p_vk_mem_mal_write :: "nat \<Rightarrow> nat \<Rightarrow> nat \<Rightarrow> nat \<Rightarrow> vk_mem_mal_t \<Rightarrow> memory \<Rightarrow> vk_mem_mal_t mal_result" where
  "p_vk_mem_mal_write frames addr sz buff s m =
     (let p = (mem_buffer s + addr) mod 2 ^ 32
      in if sz = 0 \<or> mem_size s < (addr + sz) mod 2 ^ 64 then None
         else Some (RETURN (signed_take_bit 31 (int sz), s, if buff \<noteq> p then mem_copy p buff sz m else m)))"

definition p_vk_mem_mal_erase :: "nat \<Rightarrow> nat \<Rightarrow> nat \<Rightarrow> vk_mem_mal_t \<Rightarrow> memory \<Rightarrow> vk_mem_mal_t mal_result" where
  "p_vk_mem_mal_erase frames addr sz s m =
     (if mem_size s < addr then None
      else
        let sz = (if sz = 0 then (mem_size s - addr) mod 2 ^ 32 else sz)
        in if mem_size s < (addr + sz) mod 2 ^ 64 then None
           else Some (RETURN (0, s, mem_fill (mem_buffer s + addr) 0xFF sz m)))"

definition vk_mem_mal_drv :: "vk_mem_mal_t vk_mal_drv_t" where
  "vk_mem_mal_drv = \<lparr>drv_blksz = Some p_vk_mem_mal_blksz, drv_buffer = Some p_vk_mem_mal_buffer, drv_capability = None,
     drv_init = Some p_vk_mem_mal_init, drv_fini = Some p_vk_mem_mal_fini, drv_erase = Some p_vk_mem_mal_erase,
     drv_read = Some p_vk_mem_mal_read, drv_write = Some p_vk_mem_mal_write\<rparr>"

section \<open>Shared devices\<close>

text \<open>
  A part of another device, from \<open>rm_offset\<close> on, under a mutex if there is one. The answer of \<open>vsf_eda_mutex_enter\<close> is an argument:
  0 when the mutex is free, 1 when the task has to wait, in which case the handler goes on when the mutex has been passed to it, and an
  error below 0; then the handler returns and goes on in spite of that, in a frame that it does not have any more. \<open>rm_held\<close> says
  whether the mutex is held.
\<close>

record 's vk_reentrant_mal_t = vk_mal_t +
  rm_mal :: 's
  rm_mutex :: bool
  rm_offset :: nat
  rm_held :: bool

definition p_vk_reentrant_mal_blksz ::
  "'s vk_mal_drv_t \<Rightarrow> nat \<Rightarrow> nat \<Rightarrow> vsf_mal_op_t \<Rightarrow> 's vk_reentrant_mal_t \<Rightarrow> nat option" where
  "p_vk_reentrant_mal_blksz drv addr sz oper s = vk_mal_blksz drv ((addr + rm_offset s) mod 2 ^ 64) sz oper (rm_mal s)"

definition p_vk_reentrant_mal_buffer ::
  "'s vk_mal_drv_t \<Rightarrow> nat \<Rightarrow> nat \<Rightarrow> vsf_mal_op_t \<Rightarrow> 's vk_reentrant_mal_t \<Rightarrow> bool \<times> nat \<times> nat" where
  "p_vk_reentrant_mal_buffer drv addr sz oper s = vk_mal_prepare_buffer drv ((addr + rm_offset s) mod 2 ^ 64) sz oper (rm_mal s)"

definition p_vk_reentrant_mal_capability :: "'s vk_mal_drv_t \<Rightarrow> 's vk_reentrant_mal_t \<Rightarrow> vsf_mal_capability_t" where
  "p_vk_reentrant_mal_capability drv s = vk_mal_capability drv (rm_mal s)"

definition p_vk_reentrant_mal_init :: "nat \<Rightarrow> 's vk_reentrant_mal_t \<Rightarrow> memory \<Rightarrow> 's vk_reentrant_mal_t mal_result" where
  "p_vk_reentrant_mal_init frames s m = Some (RETURN (0, s, m))"

definition p_vk_reentrant_mal_fini :: "nat \<Rightarrow> 's vk_reentrant_mal_t \<Rightarrow> memory \<Rightarrow> 's vk_reentrant_mal_t mal_result" where
  "p_vk_reentrant_mal_fini frames s m = Some (RETURN (0, s, m))"

definition reentrant_io ::
  "int \<Rightarrow> ('s \<Rightarrow> memory \<Rightarrow> 's mal_result) \<Rightarrow> 's vk_reentrant_mal_t \<Rightarrow> memory \<Rightarrow> 's vk_reentrant_mal_t mal_result" where
  "reentrant_io enter io s m =
     (if rm_mutex s \<and> enter < 0 then None
      else
        let s = (if rm_mutex s then s\<lparr>rm_held := True\<rparr> else s)
        in await (io (rm_mal s) m)
             (Some (RETURN (- 6, s, m)))
             (\<lambda>(r, d, m). Some (RETURN (r, (if rm_mutex s then s\<lparr>rm_held := False\<rparr> else s)\<lparr>rm_mal := d\<rparr>, m))))"

definition p_vk_reentrant_mal_read ::
  "int \<Rightarrow> 's vk_mal_drv_t \<Rightarrow> nat \<Rightarrow> nat \<Rightarrow> nat \<Rightarrow> nat \<Rightarrow> 's vk_reentrant_mal_t \<Rightarrow> memory \<Rightarrow> 's vk_reentrant_mal_t mal_result" where
  "p_vk_reentrant_mal_read enter drv frames addr sz buff s m =
     reentrant_io enter (vk_mal_read drv frames ((addr + rm_offset s) mod 2 ^ 64) sz buff) s m"

definition p_vk_reentrant_mal_write ::
  "int \<Rightarrow> 's vk_mal_drv_t \<Rightarrow> nat \<Rightarrow> nat \<Rightarrow> nat \<Rightarrow> nat \<Rightarrow> 's vk_reentrant_mal_t \<Rightarrow> memory \<Rightarrow> 's vk_reentrant_mal_t mal_result" where
  "p_vk_reentrant_mal_write enter drv frames addr sz buff s m =
     reentrant_io enter (vk_mal_write drv frames ((addr + rm_offset s) mod 2 ^ 64) sz buff) s m"

definition vk_reentrant_mal_drv :: "int \<Rightarrow> 's vk_mal_drv_t \<Rightarrow> 's vk_reentrant_mal_t vk_mal_drv_t" where
  "vk_reentrant_mal_drv enter drv = \<lparr>drv_blksz = Some (p_vk_reentrant_mal_blksz drv), drv_buffer = Some (p_vk_reentrant_mal_buffer drv),
     drv_capability = Some (p_vk_reentrant_mal_capability drv), drv_init = Some p_vk_reentrant_mal_init,
     drv_fini = Some p_vk_reentrant_mal_fini, drv_erase = None, drv_read = Some (p_vk_reentrant_mal_read enter drv),
     drv_write = Some (p_vk_reentrant_mal_write enter drv)\<rparr>"

end
