(* ===== verification/VSF_Scsi.thy ===== *)
theory VSF_Scsi
  imports VSF_Mal
begin

unbundle bit_operations_syntax

text \<open>
  SCSI devices: \<open>src/source/component/scsi/vsf_scsi.c\<close>, the commands of a virtual device, \<open>driver/virtual_scsi\<close>, and the device over the
  memory abstraction layer, \<open>driver/mal_scsi\<close>, without streams. A command block has 16 bytes, and the size of a buffer is below
  \<open>2 ^ 31\<close>, so that the signed length of the reply is the size.
\<close>

section \<open>Commands\<close>

definition be :: "u8 list \<Rightarrow> nat \<Rightarrow> nat \<Rightarrow> nat" where
  "be cbd i n = foldl (\<lambda>a b. 256 * a + unat b) 0 (take n (drop i cbd))"

definition be32 :: "nat \<Rightarrow> u8 list" where
  "be32 v = [of_nat (v div 2 ^ 24), of_nat (v div 2 ^ 16), of_nat (v div 2 ^ 8), of_nat v]"

definition group_code :: "u8 list \<Rightarrow> nat" where
  "group_code cbd = unat (cbd ! 0) AND 0xE0"

definition cmd_code :: "u8 list \<Rightarrow> nat" where
  "cmd_code cbd = unat (cbd ! 0) AND 0x1F"

definition vk_scsi_get_command_len :: "u8 list \<Rightarrow> nat option" where
  "vk_scsi_get_command_len cbd =
     (let g = group_code cbd
      in if g = 0x00 then Some 6 else if g = 0x20 \<or> g = 0x40 then Some 10 else if g = 0x80 then Some 16
         else if g = 0xA0 then Some 12 else None)"

text \<open>The address and the number of blocks of a read or write command.\<close>

definition vk_scsi_get_rw_param :: "u8 list \<Rightarrow> (nat \<times> nat) option" where
  "vk_scsi_get_rw_param cbd =
     (let g = group_code cbd
      in if cmd_code cbd \<noteq> 0x08 \<and> cmd_code cbd \<noteq> 0x0A then None
         else if g = 0x00 then Some (be cbd 2 2, unat (cbd ! 4))
         else if g = 0x20 then Some (be cbd 2 4, be cbd 7 2)
         else if g = 0x80 then Some (be cbd 2 8, be cbd 7 4)
         else if g = 0xA0 then Some (be cbd 2 4, be cbd 6 4)
         else None)"

section \<open>The virtual device\<close>

record vk_virtual_scsi_param_t =
  block_size :: nat
  block_num :: nat
  vendor :: "u8 list"
  product :: "u8 list"
  revision :: "u8 list"
  serial :: "u8 list"
  removable :: bool
  pdt :: nat

record vk_virtual_scsi_t =
  param :: vk_virtual_scsi_param_t
  reply_addr :: nat
  sense_key :: nat
  asc :: nat

type_synonym 'v scsi_result = "(int \<times> 'v \<times> memory) reply option"

text \<open>A buffer is its address and its size.\<close>

type_synonym vsf_mem_t = "nat \<times> nat"

datatype 'v vk_virtual_scsi_drv_t =
    VSF_VIRTUAL_SCSI_DRV_NORMAL
      (n_buffer: "(bool \<Rightarrow> nat \<Rightarrow> nat \<Rightarrow> 'v \<Rightarrow> bool \<times> vsf_mem_t) option") (n_init: "'v \<Rightarrow> memory \<Rightarrow> int \<times> 'v \<times> memory")
      (n_read: "nat \<Rightarrow> nat \<Rightarrow> 'v \<Rightarrow> memory \<Rightarrow> int \<times> 'v \<times> memory") (n_write: "nat \<Rightarrow> nat \<Rightarrow> 'v \<Rightarrow> memory \<Rightarrow> int \<times> 'v \<times> memory")
  | VSF_VIRTUAL_SCSI_DRV_PARAM_SUBCALL
      (s_buffer: "(bool \<Rightarrow> nat \<Rightarrow> nat \<Rightarrow> 'v \<Rightarrow> bool \<times> vsf_mem_t) option") (s_init: "nat \<Rightarrow> 'v \<Rightarrow> memory \<Rightarrow> 'v scsi_result")
      (s_read: "nat \<Rightarrow> nat \<Rightarrow> nat \<Rightarrow> vsf_mem_t \<Rightarrow> 'v \<Rightarrow> memory \<Rightarrow> 'v scsi_result")
      (s_write: "nat \<Rightarrow> nat \<Rightarrow> nat \<Rightarrow> vsf_mem_t \<Rightarrow> 'v \<Rightarrow> memory \<Rightarrow> 'v scsi_result")

definition drv_buffer_fn :: "'v vk_virtual_scsi_drv_t \<Rightarrow> (bool \<Rightarrow> nat \<Rightarrow> nat \<Rightarrow> 'v \<Rightarrow> bool \<times> vsf_mem_t) option" where
  "drv_buffer_fn drv = (case drv of VSF_VIRTUAL_SCSI_DRV_NORMAL b _ _ _ \<Rightarrow> b | VSF_VIRTUAL_SCSI_DRV_PARAM_SUBCALL b _ _ _ \<Rightarrow> b)"

definition p_vk_virtual_scsi_buffer ::
  "'x vk_virtual_scsi_t_scheme vk_virtual_scsi_drv_t \<Rightarrow> u8 list \<Rightarrow> vsf_mem_t \<Rightarrow> 'x vk_virtual_scsi_t_scheme \<Rightarrow> (bool \<times> vsf_mem_t) option" where
  "p_vk_virtual_scsi_buffer drv cbd mem v =
     (if cmd_code cbd \<noteq> 0x08 \<and> cmd_code cbd \<noteq> 0x0A then Some (True, reply_addr v, 36)
      else case drv_buffer_fn drv of
             None \<Rightarrow> Some (False, mem)
           | Some f \<Rightarrow> do {
               (addr, sz) \<leftarrow> vk_scsi_get_rw_param cbd;
               Some (f (cmd_code cbd = 0x08) addr sz v)})"

definition p_vk_virtual_scsi_init ::
  "'x vk_virtual_scsi_t_scheme vk_virtual_scsi_drv_t \<Rightarrow> nat \<Rightarrow> 'x vk_virtual_scsi_t_scheme \<Rightarrow> memory
     \<Rightarrow> 'x vk_virtual_scsi_t_scheme scsi_result" where
  "p_vk_virtual_scsi_init drv frames v m =
     (case drv of
        VSF_VIRTUAL_SCSI_DRV_NORMAL _ init _ _ \<Rightarrow> Some (RETURN (init v m))
      | VSF_VIRTUAL_SCSI_DRV_PARAM_SUBCALL _ init _ _ \<Rightarrow>
          await (call_peda frames (\<lambda>fr. init fr v m)) (Some (RETURN (- 6, v, m))) (\<lambda>r. Some (RETURN r)))"

definition p_vk_virtual_scsi_fini :: "nat \<Rightarrow> 'x vk_virtual_scsi_t_scheme \<Rightarrow> memory \<Rightarrow> 'x vk_virtual_scsi_t_scheme scsi_result" where
  "p_vk_virtual_scsi_fini frames v m = Some (RETURN (0, v, m))"

text \<open>A call that gets no frame is not noticed: the handler waits for a return that does not come.\<close>

definition p_vk_virtual_scsi_rw ::
  "'x vk_virtual_scsi_t_scheme vk_virtual_scsi_drv_t \<Rightarrow> nat \<Rightarrow> u8 list \<Rightarrow> vsf_mem_t \<Rightarrow> 'x vk_virtual_scsi_t_scheme \<Rightarrow> memory
     \<Rightarrow> 'x vk_virtual_scsi_t_scheme scsi_result" where
  "p_vk_virtual_scsi_rw drv frames cbd mem v m = do {
     (addr, sz) \<leftarrow> vk_scsi_get_rw_param cbd;
     (case drv of
        VSF_VIRTUAL_SCSI_DRV_NORMAL _ _ read write \<Rightarrow> Some (RETURN (if cmd_code cbd = 0x08 then read addr sz v m else write addr sz v m))
      | VSF_VIRTUAL_SCSI_DRV_PARAM_SUBCALL _ _ read write \<Rightarrow>
          await (call_peda frames (\<lambda>fr. if cmd_code cbd = 0x08 then read fr addr sz mem v m else write fr addr sz mem v m))
            (Some WAITS) (\<lambda>r. Some (RETURN r)))}"

text \<open>Bytes of the reply; there has to be a buffer.\<close>

definition put_reply :: "nat \<Rightarrow> nat \<Rightarrow> u8 list \<Rightarrow> memory \<Rightarrow> memory option" where
  "put_reply reply i bs m =
     (if reply = 0 then None else Some (\<lambda>j. if reply + i \<le> j \<and> j < reply + i + length bs then bs ! (j - (reply + i)) else m j))"

type_synonym 'v scsi_command = "(int \<times> 'v \<times> memory) option"

definition exit_invalid_cmd :: "'x vk_virtual_scsi_t_scheme \<Rightarrow> memory \<Rightarrow> 'x vk_virtual_scsi_t_scheme scsi_command" where
  "exit_invalid_cmd v m = Some (- 7, v\<lparr>sense_key := 5, asc := 0x20\<rparr>, m)"

definition exit_invalid_field_in_cmd :: "'x vk_virtual_scsi_t_scheme \<Rightarrow> memory \<Rightarrow> 'x vk_virtual_scsi_t_scheme scsi_command" where
  "exit_invalid_field_in_cmd v m = Some (- 7, v\<lparr>sense_key := 5, asc := 0x24\<rparr>, m)"

definition scsi_not_present :: "'x vk_virtual_scsi_t_scheme \<Rightarrow> memory \<Rightarrow> 'x vk_virtual_scsi_t_scheme scsi_command" where
  "scsi_not_present v m = Some (- 1, v\<lparr>sense_key := 2, asc := 0x3A\<rparr>, m)"

definition scsi_request_sense ::
  "u8 list \<Rightarrow> vsf_mem_t \<Rightarrow> 'x vk_virtual_scsi_t_scheme \<Rightarrow> memory \<Rightarrow> 'x vk_virtual_scsi_t_scheme scsi_command" where
  "scsi_request_sense cbd mem v m =
     (let len = unat (cbd ! 4)
      in if snd mem < len then None
         else do {
           m \<leftarrow> put_reply (fst mem) 0 [0x70] m;
           m \<leftarrow> put_reply (fst mem) 2 [of_nat (sense_key v)] m;
           m \<leftarrow> put_reply (fst mem) 7 [0x0A] m;
           m \<leftarrow> put_reply (fst mem) 12 [of_nat (asc v)] m;
           Some (int (min len 18), v, m)})"

text \<open>\<open>strncpy\<close>: the characters of the string and zeros up to the length.\<close>

definition scsi_inquiry_vpd ::
  "u8 list \<Rightarrow> vsf_mem_t \<Rightarrow> 'x vk_virtual_scsi_t_scheme \<Rightarrow> memory \<Rightarrow> 'x vk_virtual_scsi_t_scheme scsi_command" where
  "scsi_inquiry_vpd cbd mem v m = do {
     m \<leftarrow> put_reply (fst mem) 0 [of_nat (pdt (param v)), cbd ! 2] m;
     (if cbd ! 2 = 0 then if snd mem < 5 then None else Some (5, v, m)
      else if cbd ! 2 = 0x80
      then do {
        let len = (length (serial (param v)) + 1) mod 2 ^ 8;
        m \<leftarrow> put_reply (fst mem) 3 [of_nat len] m;
        let reply_len = min (snd mem) (len + 4);
        (if reply_len < 4 then None
         else do {
           m \<leftarrow> put_reply (fst mem) 4
                 (take (reply_len - 4) (serial (param v) @ replicate (reply_len - 4 - length (serial (param v))) 0)) m;
           Some (int reply_len, v, m)})}
      else exit_invalid_field_in_cmd v m)}"

definition scsi_inquiry ::
  "u8 list \<Rightarrow> vsf_mem_t \<Rightarrow> 'x vk_virtual_scsi_t_scheme \<Rightarrow> memory \<Rightarrow> 'x vk_virtual_scsi_t_scheme scsi_command" where
  "scsi_inquiry cbd mem v m =
     (if unat (cbd ! 1) AND 1 \<noteq> 0 then scsi_inquiry_vpd cbd mem v m
      else if cbd ! 2 \<noteq> 0 then exit_invalid_field_in_cmd v m
      else if snd mem < 36 then None
      else do {
        m \<leftarrow> put_reply (fst mem) 0 [of_nat (pdt (param v))] m;
        m \<leftarrow> (if removable (param v) then put_reply (fst mem) 1 [0x80] m else Some m);
        m \<leftarrow> put_reply (fst mem) 3 [2, 31] m;
        m \<leftarrow> put_reply (fst mem) 8 (take 8 (vendor (param v))) m;
        m \<leftarrow> put_reply (fst mem) 16 (take 16 (product (param v))) m;
        m \<leftarrow> put_reply (fst mem) 32 (take 4 (revision (param v))) m;
        Some (36, v, m)})"

definition scsi_read_format_capacities ::
  "vsf_mem_t \<Rightarrow> 'x vk_virtual_scsi_t_scheme \<Rightarrow> memory \<Rightarrow> 'x vk_virtual_scsi_t_scheme scsi_command" where
  "scsi_read_format_capacities mem v m =
     (if snd mem < 12 then None
      else do {
        m \<leftarrow> put_reply (fst mem) 3 [8] m;
        m \<leftarrow> put_reply (fst mem) 4 (be32 (block_num (param v))) m;
        m \<leftarrow> put_reply (fst mem) 8 (be32 (block_size (param v))) m;
        m \<leftarrow> put_reply (fst mem) 8 [2] m;
        Some (12, v, m)})"

definition scsi_read_capacity ::
  "vsf_mem_t \<Rightarrow> 'x vk_virtual_scsi_t_scheme \<Rightarrow> memory \<Rightarrow> 'x vk_virtual_scsi_t_scheme scsi_command" where
  "scsi_read_capacity mem v m =
     (if snd mem < 8 then None
      else if block_num (param v) = 0 then scsi_not_present v m
      else do {
        m \<leftarrow> put_reply (fst mem) 0 (be32 (block_num (param v) - 1)) m;
        m \<leftarrow> put_reply (fst mem) 4 (be32 (block_size (param v))) m;
        Some (8, v\<lparr>sense_key := 0, asc := 0\<rparr>, m)})"

text \<open>The commands of the groups, without those that read and write blocks.\<close>

definition scsi_group6 ::
  "u8 list \<Rightarrow> vsf_mem_t \<Rightarrow> 'x vk_virtual_scsi_t_scheme \<Rightarrow> memory \<Rightarrow> 'x vk_virtual_scsi_t_scheme scsi_command" where
  "scsi_group6 cbd mem v m =
     (let c = cmd_code cbd
      in if c = 0x00
         then if block_num (param v) = 0 then scsi_not_present v m else Some (0, v\<lparr>sense_key := 0, asc := 0\<rparr>, m)
         else if c = 0x15 \<or> c = 0x0F \<or> c = 0x04 \<or> c = 0x1B \<or> c = 0x1E then Some (0, v, m)
         else if c = 0x03 then scsi_request_sense cbd mem v m
         else if c = 0x12 then scsi_inquiry cbd mem v m
         else if c = 0x1A
         then if snd mem < 4 then None else do {m \<leftarrow> put_reply (fst mem) 0 [3] m; Some (4, v, m)}
         else exit_invalid_cmd v m)"

definition scsi_group10_1 ::
  "u8 list \<Rightarrow> vsf_mem_t \<Rightarrow> 'x vk_virtual_scsi_t_scheme \<Rightarrow> memory \<Rightarrow> 'x vk_virtual_scsi_t_scheme scsi_command" where
  "scsi_group10_1 cbd mem v m =
     (let c = cmd_code cbd
      in if c = 0x03 then scsi_read_format_capacities mem v m
         else if c = 0x05 then scsi_read_capacity mem v m
         else if c = 0x0F \<or> c = 0x15 then Some (0, v, m)
         else exit_invalid_cmd v m)"

definition scsi_group10_2 ::
  "u8 list \<Rightarrow> vsf_mem_t \<Rightarrow> 'x vk_virtual_scsi_t_scheme \<Rightarrow> memory \<Rightarrow> 'x vk_virtual_scsi_t_scheme scsi_command" where
  "scsi_group10_2 cbd mem v m =
     (let c = cmd_code cbd
      in if c = 0x15 then Some (int (snd mem), v, m)
         else if c = 0x1A
         then if snd mem < 8 then None else do {m \<leftarrow> put_reply (fst mem) 1 [6] m; Some (8, v, m)}
         else exit_invalid_cmd v m)"

definition scsi_ata_pass_through ::
  "vsf_mem_t \<Rightarrow> 'x vk_virtual_scsi_t_scheme \<Rightarrow> memory \<Rightarrow> 'x vk_virtual_scsi_t_scheme scsi_command" where
  "scsi_ata_pass_through mem v m = do {m \<leftarrow> put_reply (fst mem) 0 [2, 2] m; Some (2, v, m)}"

definition scsi_group16 ::
  "u8 list \<Rightarrow> vsf_mem_t \<Rightarrow> 'x vk_virtual_scsi_t_scheme \<Rightarrow> memory \<Rightarrow> 'x vk_virtual_scsi_t_scheme scsi_command" where
  "scsi_group16 cbd mem v m =
     (let c = cmd_code cbd
      in if c = 0x11 then Some (0, v, m)
         else if c = 0x05 then scsi_ata_pass_through mem v m
         else if c = 0x0E then do {m \<leftarrow> put_reply (fst mem) 0 [0x20] m; Some (32, v, m)}
         else exit_invalid_cmd v m)"

definition scsi_group12 ::
  "u8 list \<Rightarrow> vsf_mem_t \<Rightarrow> 'x vk_virtual_scsi_t_scheme \<Rightarrow> memory \<Rightarrow> 'x vk_virtual_scsi_t_scheme scsi_command" where
  "scsi_group12 cbd mem v m =
     (if cmd_code cbd = 0x01 then scsi_ata_pass_through mem v m else exit_invalid_cmd v m)"

definition p_vk_virtual_scsi_execute ::
  "'x vk_virtual_scsi_t_scheme vk_virtual_scsi_drv_t \<Rightarrow> nat \<Rightarrow> u8 list \<Rightarrow> vsf_mem_t \<Rightarrow> 'x vk_virtual_scsi_t_scheme \<Rightarrow> memory
     \<Rightarrow> 'x vk_virtual_scsi_t_scheme scsi_result" where
  "p_vk_virtual_scsi_execute drv frames cbd mem v m =
     (if length cbd < 16 \<or> fst mem = reply_addr v \<and> 36 < snd mem then None
      else
        let m = (if fst mem = reply_addr v then mem_fill (fst mem) 0 (snd mem) m else m);
            g = group_code cbd;
            rw = (cmd_code cbd = 0x08 \<or> cmd_code cbd = 0x0A)
        in if rw \<and> (g = 0x00 \<or> g = 0x20 \<or> g = 0x80 \<or> g = 0xA0) then p_vk_virtual_scsi_rw drv frames cbd mem v m
           else map_option RETURN
             (if g = 0x00 then scsi_group6 cbd mem v m
              else if g = 0x20 then scsi_group10_1 cbd mem v m
              else if g = 0x40 then scsi_group10_2 cbd mem v m
              else if g = 0x80 then scsi_group16 cbd mem v m
              else if g = 0xA0 then scsi_group12 cbd mem v m
              else exit_invalid_cmd v m))"

section \<open>The interface\<close>

text \<open>On the driver \<open>vk_virtual_scsi_drv\<close>.\<close>

definition vk_scsi_init ::
  "'x vk_virtual_scsi_t_scheme vk_virtual_scsi_drv_t \<Rightarrow> nat \<Rightarrow> 'x vk_virtual_scsi_t_scheme \<Rightarrow> memory
     \<Rightarrow> 'x vk_virtual_scsi_t_scheme scsi_result" where
  "vk_scsi_init drv frames v m = call_peda frames (\<lambda>fr. p_vk_virtual_scsi_init drv fr v m)"

definition vk_scsi_fini :: "nat \<Rightarrow> 'x vk_virtual_scsi_t_scheme \<Rightarrow> memory \<Rightarrow> 'x vk_virtual_scsi_t_scheme scsi_result" where
  "vk_scsi_fini frames v m = call_peda frames (\<lambda>fr. p_vk_virtual_scsi_fini fr v m)"

definition vk_scsi_prepare_buffer ::
  "'x vk_virtual_scsi_t_scheme vk_virtual_scsi_drv_t \<Rightarrow> u8 list \<Rightarrow> vsf_mem_t \<Rightarrow> 'x vk_virtual_scsi_t_scheme \<Rightarrow> (bool \<times> vsf_mem_t) option" where
  "vk_scsi_prepare_buffer drv cbd mem v = p_vk_virtual_scsi_buffer drv cbd mem v"

definition vk_scsi_execute ::
  "'x vk_virtual_scsi_t_scheme vk_virtual_scsi_drv_t \<Rightarrow> nat \<Rightarrow> u8 list \<Rightarrow> vsf_mem_t option \<Rightarrow> 'x vk_virtual_scsi_t_scheme \<Rightarrow> memory
     \<Rightarrow> 'x vk_virtual_scsi_t_scheme scsi_result" where
  "vk_scsi_execute drv frames cbd mem v m =
     call_peda frames (\<lambda>fr. p_vk_virtual_scsi_execute drv fr cbd (case mem of None \<Rightarrow> (0, 0) | Some x \<Rightarrow> x) v m)"

section \<open>The device over the memory abstraction layer\<close>

record 's vk_mal_scsi_t = vk_virtual_scsi_t +
  ms_mal :: 's

definition p_vk_mal_scsi_buffer ::
  "'s vk_mal_drv_t \<Rightarrow> bool \<Rightarrow> nat \<Rightarrow> nat \<Rightarrow> 's vk_mal_scsi_t \<Rightarrow> bool \<times> vsf_mem_t" where
  "p_vk_mal_scsi_buffer drv is_read addr sz v =
     vk_mal_prepare_buffer drv (addr * block_size (param v) mod 2 ^ 64) (sz * block_size (param v) mod 2 ^ 32)
       (if is_read then VSF_MAL_OP_READ else VSF_MAL_OP_WRITE) (ms_mal v)"

definition p_vk_mal_scsi_init ::
  "'a vk_mal_t_scheme vk_mal_drv_t \<Rightarrow> nat \<Rightarrow> 'a vk_mal_t_scheme vk_mal_scsi_t \<Rightarrow> memory \<Rightarrow> 'a vk_mal_t_scheme vk_mal_scsi_t scsi_result" where
  "p_vk_mal_scsi_init drv frames v m =
     await (vk_mal_init drv frames (ms_mal v) m) (Some WAITS) (\<lambda>(r, s, m). do {
       bs \<leftarrow> vk_mal_blksz drv 0 0 VSF_MAL_OP_ERASE s;
       (if bs = 0 then None
        else Some (RETURN (r, v\<lparr>ms_mal := s, param := (param v)\<lparr>block_size := bs, block_num := mal_size s div bs mod 2 ^ 32\<rparr>\<rparr>, m)))})"

definition p_vk_mal_scsi_read ::
  "'s vk_mal_drv_t \<Rightarrow> nat \<Rightarrow> nat \<Rightarrow> nat \<Rightarrow> vsf_mem_t \<Rightarrow> 's vk_mal_scsi_t \<Rightarrow> memory \<Rightarrow> 's vk_mal_scsi_t scsi_result" where
  "p_vk_mal_scsi_read drv frames addr sz mem v m =
     await (vk_mal_read drv frames (addr * block_size (param v) mod 2 ^ 64) (sz * block_size (param v) mod 2 ^ 32) (fst mem) (ms_mal v) m)
       (Some WAITS) (\<lambda>(r, s, m). Some (RETURN (r, v\<lparr>ms_mal := s\<rparr>, m)))"

definition p_vk_mal_scsi_write ::
  "'s vk_mal_drv_t \<Rightarrow> nat \<Rightarrow> nat \<Rightarrow> nat \<Rightarrow> vsf_mem_t \<Rightarrow> 's vk_mal_scsi_t \<Rightarrow> memory \<Rightarrow> 's vk_mal_scsi_t scsi_result" where
  "p_vk_mal_scsi_write drv frames addr sz mem v m =
     await (vk_mal_write drv frames (addr * block_size (param v) mod 2 ^ 64) (sz * block_size (param v) mod 2 ^ 32) (fst mem) (ms_mal v) m)
       (Some WAITS) (\<lambda>(r, s, m). Some (RETURN (r, v\<lparr>ms_mal := s\<rparr>, m)))"

definition vk_mal_virtual_scsi_drv :: "'a vk_mal_t_scheme vk_mal_drv_t \<Rightarrow> 'a vk_mal_t_scheme vk_mal_scsi_t vk_virtual_scsi_drv_t" where
  "vk_mal_virtual_scsi_drv drv = VSF_VIRTUAL_SCSI_DRV_PARAM_SUBCALL (Some (p_vk_mal_scsi_buffer drv)) (p_vk_mal_scsi_init drv)
     (p_vk_mal_scsi_read drv) (p_vk_mal_scsi_write drv)"

end
