(* ===== verification/VSF_Mal_Correct.thy ===== *)
theory VSF_Mal_Correct
  imports VSF_Mal
begin

text \<open>
  The contract of a device of the memory abstraction layer: it has a content, reads give parts of it and writes replace parts of it. Plain
  memory keeps the contract, and a part of a device that keeps it, behind \<open>vk_reentrant_mal_drv\<close>, keeps it again.
\<close>

section \<open>Ranges of memory\<close>

definition bytes :: "memory \<Rightarrow> nat \<Rightarrow> nat \<Rightarrow> u8 list" where
  "bytes m b n = map (\<lambda>i. m (b + i)) [0..<n]"

text \<open>The bytes from \<open>a\<close> on replaced by others.\<close>

abbreviation patch :: "nat \<Rightarrow> 'a list \<Rightarrow> 'a list \<Rightarrow> 'a list" where
  "patch a xs D \<equiv> blk_write D a xs"

lemma length_bytes [simp]: "length (bytes m b n) = n"
  by (simp add: bytes_def)

lemma nth_bytes [simp]: "i < n \<Longrightarrow> bytes m b n ! i = m (b + i)"
  by (simp add: bytes_def)

lemma length_patch [simp]: "a + length xs \<le> length D \<Longrightarrow> length (patch a xs D) = length D"
  by (simp add: blk_write_def)

lemma nth_patch:
  "a + length xs \<le> length D \<Longrightarrow> i < length D \<Longrightarrow>
   patch a xs D ! i = (if a \<le> i \<and> i < a + length xs then xs ! (i - a) else D ! i)"
  by (auto simp: blk_write_def nth_append)

lemma take_drop_patch: "a + length xs \<le> length D \<Longrightarrow> take (length xs) (drop a (patch a xs D)) = xs"
  by (simp add: blk_write_def)

lemma bytes_eqI: "(\<And>i. i < n \<Longrightarrow> m (b + i) = m' (c + i)) \<Longrightarrow> bytes m b n = bytes m' c n"
  by (simp add: bytes_def)

lemma take_drop_bytes: "a + k \<le> n \<Longrightarrow> take k (drop a (bytes m b n)) = bytes m (b + a) k"
  by (rule nth_equalityI) (auto simp: add.assoc)

lemma patch_slice:
  "w + n \<le> length D \<Longrightarrow> a + length xs \<le> n \<Longrightarrow>
   take n (drop w (patch (a + w) xs D)) = patch a xs (take n (drop w D))"
  by (rule nth_equalityI) (auto simp: nth_patch)

section \<open>The contract\<close>

text \<open>
  \<open>dev_ok\<close> is the condition on the state of a device, \<open>dev_size\<close> its size, \<open>dev_owned\<close> the memory in which it keeps its content
  \<open>dev_content\<close>, and \<open>need\<close> the number of frames that an operation takes.
\<close>

locale mal_device =
  fixes drv :: "'s vk_mal_drv_t"
    and need :: nat
    and dev_ok :: "'s \<Rightarrow> bool"
    and dev_size :: "'s \<Rightarrow> nat"
    and dev_owned :: "'s \<Rightarrow> nat set"
    and dev_content :: "'s \<Rightarrow> memory \<Rightarrow> u8 list"
  assumes content_length: "dev_ok s \<Longrightarrow> length (dev_content s m) = dev_size s"
    and content_owned: "dev_ok s \<Longrightarrow> \<forall>j\<in>dev_owned s. m j = m' j \<Longrightarrow> dev_content s m = dev_content s m'"
    and read_law: "\<lbrakk>dev_ok s; need \<le> frames; 0 < n; n < 2 ^ 31; a + n \<le> dev_size s; {b..<b + n} \<inter> dev_owned s = {}\<rbrakk> \<Longrightarrow>
      \<exists>s' m'. vk_mal_read drv frames a n b s m = Some (RETURN (int n, s', m')) \<and> dev_ok s' \<and> dev_size s' = dev_size s \<and>
        dev_owned s' = dev_owned s \<and> dev_content s' m' = dev_content s m \<and> bytes m' b n = take n (drop a (dev_content s m)) \<and>
        (\<forall>j. j \<notin> dev_owned s \<and> j \<notin> {b..<b + n} \<longrightarrow> m' j = m j)"
    and write_law: "\<lbrakk>dev_ok s; need \<le> frames; 0 < n; n < 2 ^ 31; a + n \<le> dev_size s; {b..<b + n} \<inter> dev_owned s = {}\<rbrakk> \<Longrightarrow>
      \<exists>s' m'. vk_mal_write drv frames a n b s m = Some (RETURN (int n, s', m')) \<and> dev_ok s' \<and> dev_size s' = dev_size s \<and>
        dev_owned s' = dev_owned s \<and> dev_content s' m' = patch a (bytes m b n) (dev_content s m) \<and>
        (\<forall>j. j \<notin> dev_owned s \<longrightarrow> m' j = m j)"
begin

text \<open>What is written is read again, from the same place.\<close>

lemma write_read:
  assumes "dev_ok s" "need \<le> frames" "0 < n" "n < 2 ^ 31" "a + n \<le> dev_size s"
    and "{b..<b + n} \<inter> dev_owned s = {}" and "{c..<c + n} \<inter> dev_owned s = {}"
  shows "\<exists>s1 m1 s2 m2. vk_mal_write drv frames a n b s m = Some (RETURN (int n, s1, m1)) \<and>
    vk_mal_read drv frames a n c s1 m1 = Some (RETURN (int n, s2, m2)) \<and> bytes m2 c n = bytes m b n \<and> dev_ok s2 \<and>
    dev_content s2 m2 = patch a (bytes m b n) (dev_content s m)"
proof -
  obtain s1 m1 where w: "vk_mal_write drv frames a n b s m = Some (RETURN (int n, s1, m1))" "dev_ok s1" "dev_size s1 = dev_size s"
    "dev_owned s1 = dev_owned s" "dev_content s1 m1 = patch a (bytes m b n) (dev_content s m)"
    using write_law [OF assms(1-6)] by blast
  obtain s2 m2 where r: "vk_mal_read drv frames a n c s1 m1 = Some (RETURN (int n, s2, m2))" "dev_ok s2"
    "dev_content s2 m2 = dev_content s1 m1" "bytes m2 c n = take n (drop a (dev_content s1 m1))"
    using read_law [of s1 frames n a c m1] w assms by auto
  have "bytes m2 c n = bytes m b n"
    using take_drop_patch [of a "bytes m b n" "dev_content s m"] r(4) w(5) assms content_length by simp
  then show ?thesis using w r by auto
qed

end

section \<open>Plain memory\<close>

definition mem_mal_ok :: "vk_mem_mal_t \<Rightarrow> bool" where
  "mem_mal_ok s \<longleftrightarrow> mem_buffer s + mem_size s \<le> 2 ^ 32"

definition mem_mal_owned :: "vk_mem_mal_t \<Rightarrow> nat set" where
  "mem_mal_owned s = {mem_buffer s..<mem_buffer s + mem_size s}"

definition mem_mal_content :: "vk_mem_mal_t \<Rightarrow> memory \<Rightarrow> u8 list" where
  "mem_mal_content s m = bytes m (mem_buffer s) (mem_size s)"

lemma signed_small: "n < 2 ^ 31 \<Longrightarrow> signed_take_bit 31 (int n) = int n"
  by (rule signed_take_bit_int_eq_self) auto

lemma mem_mal_pointer:
  assumes "mem_mal_ok s" "0 < n" "a + n \<le> mem_size s"
  shows "(mem_buffer s + a) mod 2 ^ 32 = mem_buffer s + a" "(a + n) mod 2 ^ 64 = a + n"
  using assms by (auto simp: mem_mal_ok_def)

lemma mem_mal_read:
  assumes "mem_mal_ok s" "1 \<le> frames" "0 < n" "n < 2 ^ 31" "a + n \<le> mem_size s" "{b..<b + n} \<inter> mem_mal_owned s = {}"
  shows "vk_mal_read vk_mem_mal_drv frames a n b s m = Some (RETURN (int n, s, mem_copy b (mem_buffer s + a) n m))"
proof -
  have "b \<noteq> mem_buffer s + a" using assms by (auto simp: mem_mal_owned_def disjoint_iff)
  then show ?thesis using assms mem_mal_pointer [OF assms(1,3,5)]
    by (simp add: vk_mal_read_def vk_mem_mal_drv_def call_peda_def p_vk_mem_mal_read_def signed_small)
qed

lemma mem_mal_write:
  assumes "mem_mal_ok s" "1 \<le> frames" "0 < n" "n < 2 ^ 31" "a + n \<le> mem_size s" "{b..<b + n} \<inter> mem_mal_owned s = {}"
  shows "vk_mal_write vk_mem_mal_drv frames a n b s m = Some (RETURN (int n, s, mem_copy (mem_buffer s + a) b n m))"
proof -
  have "b \<noteq> mem_buffer s + a" using assms by (auto simp: mem_mal_owned_def disjoint_iff)
  then show ?thesis using assms mem_mal_pointer [OF assms(1,3,5)]
    by (simp add: vk_mal_write_def vk_mem_mal_drv_def call_peda_def p_vk_mem_mal_write_def signed_small)
qed

lemma mem_copy_outside: "j \<notin> {d..<d + n} \<Longrightarrow> mem_copy d p n m j = m j"
  by (auto simp: mem_copy_def)

lemma mem_copy_inside: "i < n \<Longrightarrow> mem_copy d p n m (d + i) = m (p + i)"
  by (simp add: mem_copy_def)

lemma mem_mal_copy_in:
  assumes "a + n \<le> mem_size s"
  shows "mem_mal_content s (mem_copy (mem_buffer s + a) b n m) = patch a (bytes m b n) (mem_mal_content s m)"
  by (rule nth_equalityI) (use assms in \<open>auto simp: mem_mal_content_def nth_patch mem_copy_def\<close>)

lemma mem_mal_copy_out:
  assumes "{b..<b + n} \<inter> mem_mal_owned s = {}"
  shows "mem_mal_content s (mem_copy b p n m) = mem_mal_content s m"
  unfolding mem_mal_content_def
  by (rule bytes_eqI) (use assms in \<open>auto simp: mem_mal_owned_def disjoint_iff intro!: mem_copy_outside\<close>)

interpretation mem: mal_device vk_mem_mal_drv 1 mem_mal_ok mem_size mem_mal_owned mem_mal_content
proof
  fix s and m m' :: memory and frames n a b :: nat
  show "length (mem_mal_content s m) = mem_size s" by (simp add: mem_mal_content_def)
  show "mem_mal_content s m = mem_mal_content s m'" if "\<forall>j\<in>mem_mal_owned s. m j = m' j"
    unfolding mem_mal_content_def by (rule bytes_eqI) (use that in \<open>auto simp: mem_mal_owned_def\<close>)
  assume *: "mem_mal_ok s" "1 \<le> frames" "0 < n" "n < 2 ^ 31" "a + n \<le> mem_size s" "{b..<b + n} \<inter> mem_mal_owned s = {}"
  have "bytes (mem_copy b (mem_buffer s + a) n m) b n = take n (drop a (mem_mal_content s m))"
    using *(5) by (auto simp: mem_mal_content_def take_drop_bytes mem_copy_inside intro!: bytes_eqI)
  then show "\<exists>s' m'. vk_mal_read vk_mem_mal_drv frames a n b s m = Some (RETURN (int n, s', m')) \<and> mem_mal_ok s' \<and>
      mem_size s' = mem_size s \<and> mem_mal_owned s' = mem_mal_owned s \<and> mem_mal_content s' m' = mem_mal_content s m \<and>
      bytes m' b n = take n (drop a (mem_mal_content s m)) \<and> (\<forall>j. j \<notin> mem_mal_owned s \<and> j \<notin> {b..<b + n} \<longrightarrow> m' j = m j)"
    using mem_mal_read [OF *] *(1) mem_mal_copy_out [OF *(6)]
    by (intro exI [of _ s] exI [of _ "mem_copy b (mem_buffer s + a) n m"]) (simp add: mem_copy_outside)
  have outside: "j \<notin> mem_mal_owned s \<Longrightarrow> mem_copy (mem_buffer s + a) b n m j = m j" for j
    using *(5) by (auto simp: mem_mal_owned_def intro!: mem_copy_outside)
  show "\<exists>s' m'. vk_mal_write vk_mem_mal_drv frames a n b s m = Some (RETURN (int n, s', m')) \<and> mem_mal_ok s' \<and>
      mem_size s' = mem_size s \<and> mem_mal_owned s' = mem_mal_owned s \<and>
      mem_mal_content s' m' = patch a (bytes m b n) (mem_mal_content s m) \<and> (\<forall>j. j \<notin> mem_mal_owned s \<longrightarrow> m' j = m j)"
    using mem_mal_write [OF *] *(1) mem_mal_copy_in [OF *(5)] outside
    by (intro exI [of _ s] exI [of _ "mem_copy (mem_buffer s + a) b n m"]) simp
qed

section \<open>A part of a device\<close>

text \<open>The part is inside of the device and the mutex can be taken, at once or after a wait.\<close>

locale mal_window = mal_device drv need dev_ok dev_size dev_owned dev_content
  for drv :: "'s vk_mal_drv_t" and need dev_ok dev_size dev_owned dev_content +
  fixes enter :: int
  assumes entered: "0 \<le> enter"
    and size64: "dev_ok s \<Longrightarrow> dev_size s < 2 ^ 64"
begin

definition win_ok :: "'s vk_reentrant_mal_t \<Rightarrow> bool" where
  "win_ok s \<longleftrightarrow> dev_ok (rm_mal s) \<and> rm_offset s + mal_size s \<le> dev_size (rm_mal s) \<and> \<not> rm_held s"

definition win_owned :: "'s vk_reentrant_mal_t \<Rightarrow> nat set" where
  "win_owned s = dev_owned (rm_mal s)"

definition win_content :: "'s vk_reentrant_mal_t \<Rightarrow> memory \<Rightarrow> u8 list" where
  "win_content s m = take (mal_size s) (drop (rm_offset s) (dev_content (rm_mal s) m))"

lemma window_address: "win_ok s \<Longrightarrow> 0 < n \<Longrightarrow> a + n \<le> mal_size s \<Longrightarrow> (a + rm_offset s) mod 2 ^ 64 = a + rm_offset s"
  using size64 [of "rm_mal s"] by (simp add: win_ok_def)

lemma window_calls:
  "vk_mal_read (vk_reentrant_mal_drv enter drv) frames a n b s m = call_peda frames (\<lambda>fr. p_vk_reentrant_mal_read enter drv fr a n b s m)"
  "vk_mal_write (vk_reentrant_mal_drv enter drv) frames a n b s m = call_peda frames (\<lambda>fr. p_vk_reentrant_mal_write enter drv fr a n b s m)"
  by (simp_all add: vk_mal_read_def vk_mal_write_def vk_reentrant_mal_drv_def)

lemma reentrant_io_returns:
  assumes "io (rm_mal s) m = Some (RETURN (r, d, m'))" "\<not> rm_held s"
  shows "reentrant_io enter io s m = Some (RETURN (r, s\<lparr>rm_mal := d\<rparr>, m'))"
  using assms entered by (cases s) (simp add: reentrant_io_def await_def Let_def)

lemma window_read:
  assumes "win_ok s" "need + 1 \<le> frames" "0 < n" "n < 2 ^ 31" "a + n \<le> mal_size s" "{b..<b + n} \<inter> win_owned s = {}"
  shows "\<exists>s' m'. vk_mal_read (vk_reentrant_mal_drv enter drv) frames a n b s m = Some (RETURN (int n, s', m')) \<and> win_ok s' \<and>
    mal_size s' = mal_size s \<and> win_owned s' = win_owned s \<and> win_content s' m' = win_content s m \<and>
    bytes m' b n = take n (drop a (win_content s m)) \<and> (\<forall>j. j \<notin> win_owned s \<and> j \<notin> {b..<b + n} \<longrightarrow> m' j = m j)"
proof -
  obtain d m' where r: "vk_mal_read drv (frames - 1) (a + rm_offset s) n b (rm_mal s) m = Some (RETURN (int n, d, m'))" "dev_ok d"
    "dev_size d = dev_size (rm_mal s)" "dev_owned d = dev_owned (rm_mal s)" "dev_content d m' = dev_content (rm_mal s) m"
    "bytes m' b n = take n (drop (a + rm_offset s) (dev_content (rm_mal s) m))"
    "\<forall>j. j \<notin> dev_owned (rm_mal s) \<and> j \<notin> {b..<b + n} \<longrightarrow> m' j = m j"
    using read_law [of "rm_mal s" "frames - 1" n "a + rm_offset s" b m] le_diff_conv2 [of 1 frames need] assms
    by (auto simp: win_ok_def win_owned_def)
  have "vk_mal_read (vk_reentrant_mal_drv enter drv) frames a n b s m = Some (RETURN (int n, s\<lparr>rm_mal := d\<rparr>, m'))"
    using assms r(1) window_address [OF assms(1,3,5)]
    by (simp add: window_calls call_peda_def p_vk_reentrant_mal_read_def reentrant_io_returns win_ok_def)
  moreover have "take n (drop a (win_content s m)) = take n (drop (a + rm_offset s) (dev_content (rm_mal s) m))"
    using assms(5) by (simp add: win_content_def drop_take add.commute min_def)
  ultimately show ?thesis using assms(1) r(2-) by (auto simp: win_ok_def win_owned_def win_content_def)
qed

lemma window_write:
  assumes "win_ok s" "need + 1 \<le> frames" "0 < n" "n < 2 ^ 31" "a + n \<le> mal_size s" "{b..<b + n} \<inter> win_owned s = {}"
  shows "\<exists>s' m'. vk_mal_write (vk_reentrant_mal_drv enter drv) frames a n b s m = Some (RETURN (int n, s', m')) \<and> win_ok s' \<and>
    mal_size s' = mal_size s \<and> rm_offset s' = rm_offset s \<and> win_owned s' = win_owned s \<and>
    dev_content (rm_mal s') m' = patch (a + rm_offset s) (bytes m b n) (dev_content (rm_mal s) m) \<and>
    win_content s' m' = patch a (bytes m b n) (win_content s m) \<and> (\<forall>j. j \<notin> win_owned s \<longrightarrow> m' j = m j)"
proof -
  obtain d m' where r: "vk_mal_write drv (frames - 1) (a + rm_offset s) n b (rm_mal s) m = Some (RETURN (int n, d, m'))" "dev_ok d"
    "dev_size d = dev_size (rm_mal s)" "dev_owned d = dev_owned (rm_mal s)"
    "dev_content d m' = patch (a + rm_offset s) (bytes m b n) (dev_content (rm_mal s) m)"
    "\<forall>j. j \<notin> dev_owned (rm_mal s) \<longrightarrow> m' j = m j"
    using write_law [of "rm_mal s" "frames - 1" n "a + rm_offset s" b m] le_diff_conv2 [of 1 frames need] assms
    by (auto simp: win_ok_def win_owned_def)
  have "vk_mal_write (vk_reentrant_mal_drv enter drv) frames a n b s m = Some (RETURN (int n, s\<lparr>rm_mal := d\<rparr>, m'))"
    using assms r(1) window_address [OF assms(1,3,5)]
    by (simp add: window_calls call_peda_def p_vk_reentrant_mal_write_def reentrant_io_returns win_ok_def)
  moreover have "win_content (s\<lparr>rm_mal := d\<rparr>) m' = patch a (bytes m b n) (win_content s m)"
    using patch_slice [of "rm_offset s" "mal_size s" "dev_content (rm_mal s) m" a "bytes m b n"] assms(1,5) r(5) content_length
    by (simp add: win_content_def win_ok_def)
  ultimately show ?thesis using assms(1) r(2-) by (auto simp: win_ok_def win_owned_def)
qed

end

sublocale mal_window \<subseteq> win: mal_device "vk_reentrant_mal_drv enter drv" "need + 1" win_ok mal_size win_owned win_content
proof
  fix s m m' frames n a b
  assume ok: "win_ok s"
  show "length (win_content s m) = mal_size s" using ok content_length [of "rm_mal s" m] by (auto simp: win_content_def win_ok_def min_def)
  show "win_content s m = win_content s m'" if "\<forall>j\<in>win_owned s. m j = m' j"
    using content_owned [of "rm_mal s" m m'] ok that by (simp add: win_content_def win_ok_def win_owned_def)
  assume *: "need + 1 \<le> frames" "0 < n" "n < 2 ^ 31" "a + n \<le> mal_size s" "{b..<b + n} \<inter> win_owned s = {}"
  show "\<exists>s' m'. vk_mal_read (vk_reentrant_mal_drv enter drv) frames a n b s m = Some (RETURN (int n, s', m')) \<and> win_ok s' \<and>
    mal_size s' = mal_size s \<and> win_owned s' = win_owned s \<and> win_content s' m' = win_content s m \<and>
    bytes m' b n = take n (drop a (win_content s m)) \<and> (\<forall>j. j \<notin> win_owned s \<and> j \<notin> {b..<b + n} \<longrightarrow> m' j = m j)"
    by (rule window_read [OF ok *])
  show "\<exists>s' m'. vk_mal_write (vk_reentrant_mal_drv enter drv) frames a n b s m = Some (RETURN (int n, s', m')) \<and> win_ok s' \<and>
    mal_size s' = mal_size s \<and> win_owned s' = win_owned s \<and> win_content s' m' = patch a (bytes m b n) (win_content s m) \<and>
    (\<forall>j. j \<notin> win_owned s \<longrightarrow> m' j = m j)"
    using window_write [OF ok *, of m] by blast
qed

interpretation part: mal_window vk_mem_mal_drv 1 mem_mal_ok mem_size mem_mal_owned mem_mal_content 0
  by unfold_locales (auto simp: mem_mal_ok_def)

end
