(* ===== verification/VSF_Scsi_Correct.thy ===== *)
theory VSF_Scsi_Correct
  imports VSF_Scsi VSF_Mal_Correct
begin

unbundle bit_operations_syntax

text \<open>
  The disk that a host sees over SCSI: the commands for blocks act on the content of the device below, over any device that keeps the
  contract \<open>mal_device\<close>, the capacity that is reported can be read, and a command that is refused is explained by the sense data.
\<close>

section \<open>Command blocks\<close>

text \<open>The command blocks that a host sends: READ and WRITE with 10 or 12 bytes, READ CAPACITY(10), REQUEST SENSE.\<close>

definition rw_cdb :: "bool \<Rightarrow> bool \<Rightarrow> nat \<Rightarrow> nat \<Rightarrow> u8 list" where
  "rw_cdb wide is_read lba n =
     (if wide then [if is_read then 0xA8 else 0xAA, 0] @ be32 lba @ be32 n @ replicate 6 0
      else [if is_read then 0x28 else 0x2A, 0] @ be32 lba @ [0, of_nat (n div 256), of_nat n] @ replicate 7 0)"

definition read_capacity_cdb :: "u8 list" where
  "read_capacity_cdb = 0x25 # replicate 15 0"

definition request_sense_cdb :: "nat \<Rightarrow> u8 list" where
  "request_sense_cdb len = [0x03, 0, 0, 0, of_nat len] @ replicate 11 0"

lemma length_be32 [simp]: "length (be32 v) = 4"
  by (simp add: be32_def)

lemma be32_value: "v < 2 ^ 32 \<Longrightarrow> foldl (\<lambda>a b. 256 * a + unat b) 0 (be32 v) = v"
proof -
  assume v: "v < 2 ^ 32"
  have d: "v div 65536 = v div 256 div 256" "v div 16777216 = v div 256 div 256 div 256" by (simp_all add: div_mult2_eq [symmetric])
  have "v div 256 div 256 div 256 mod 256 = v div 256 div 256 div 256" using v by (simp add: div_mult2_eq [symmetric])
  then have "foldl (\<lambda>a b. 256 * a + unat b) 0 (be32 v) =
      256 * (256 * (256 * (v div 256 div 256 div 256) + v div 256 div 256 mod 256) + v div 256 mod 256) + v mod 256"
    by (simp add: be32_def unat_of_nat d)
  also have "\<dots> = v" by (simp only: mult_div_mod_eq)
  finally show ?thesis .
qed

lemma be_be32: "length xs = k \<Longrightarrow> v < 2 ^ 32 \<Longrightarrow> be (xs @ be32 v @ ys) k 4 = v"
  using be32_value [of v] by (simp add: be_def)

lemma rw_cdb_length [simp]: "length (rw_cdb wide is_read lba n) = 16"
  by (simp add: rw_cdb_def be32_def)

lemma rw_cdb_code [simp]: "cmd_code (rw_cdb wide is_read lba n) = (if is_read then 0x08 else 0x0A)"
  by (simp add: rw_cdb_def cmd_code_def)

lemma group_code_rw_cdb: "group_code (rw_cdb wide is_read lba n) = (if wide then 0xA0 else 0x20)"
  by (simp add: rw_cdb_def group_code_def)

lemma rw_cdb_param:
  assumes "lba < 2 ^ 32" "n < (if wide then 2 ^ 32 else 2 ^ 16)"
  shows "vk_scsi_get_rw_param (rw_cdb wide is_read lba n) = Some (lba, n)"
proof (cases wide)
  case True
  have "be (rw_cdb wide is_read lba n) 2 4 = lba"
    using True assms be_be32 [of "[if is_read then 0xA8 else 0xAA, 0]" 2 lba "be32 n @ replicate 6 0"] by (simp add: rw_cdb_def)
  moreover have "be (rw_cdb wide is_read lba n) 6 4 = n"
    using True assms be_be32 [of "[if is_read then 0xA8 else 0xAA, 0] @ be32 lba" 6 n "replicate 6 0"] by (simp add: rw_cdb_def)
  ultimately show ?thesis using True by (simp add: vk_scsi_get_rw_param_def Let_def group_code_rw_cdb)
next
  case False
  have "be (rw_cdb wide is_read lba n) 2 4 = lba"
    using False assms be_be32 [of "[if is_read then 0x28 else 0x2A, 0]" 2 lba "[0, of_nat (n div 256), of_nat n] @ replicate 7 0"]
    by (simp add: rw_cdb_def)
  moreover have "be (rw_cdb wide is_read lba n) 7 2 = n"
    using False assms by (simp add: rw_cdb_def be_def unat_of_nat)
  ultimately show ?thesis using False by (simp add: vk_scsi_get_rw_param_def Let_def group_code_rw_cdb)
qed

section \<open>Commands for blocks\<close>

lemma rw_execute:
  assumes "vk_scsi_get_rw_param cbd = Some p" "length cbd = 16" "b \<noteq> reply_addr v"
  shows "vk_scsi_execute drv frames cbd (Some (b, l)) v m = call_peda frames (\<lambda>fr. p_vk_virtual_scsi_rw drv fr cbd (b, l) v m)"
proof -
  have "cmd_code cbd = 0x08 \<or> cmd_code cbd = 0x0A"
    "group_code cbd = 0x00 \<or> group_code cbd = 0x20 \<or> group_code cbd = 0x80 \<or> group_code cbd = 0xA0"
    using assms(1) by (auto simp: vk_scsi_get_rw_param_def Let_def split: if_splits)
  then show ?thesis using assms(2,3) by (auto simp: vk_scsi_execute_def p_vk_virtual_scsi_execute_def Let_def)
qed

lemma scsi_read_calls:
  assumes "vk_scsi_get_rw_param cbd = Some (lba, n)" "length cbd = 16" "b \<noteq> reply_addr v" "cmd_code cbd = 0x08" "3 \<le> frames"
  shows "vk_scsi_execute (vk_mal_virtual_scsi_drv drv) frames cbd (Some (b, l)) v m =
    await (vk_mal_read drv (frames - 2) (lba * block_size (param v) mod 2 ^ 64) (n * block_size (param v) mod 2 ^ 32) b (ms_mal v) m)
      (Some WAITS) (\<lambda>(r, s, m). Some (RETURN (r, v\<lparr>ms_mal := s\<rparr>, m)))"
  using assms by (simp add: rw_execute call_peda_def p_vk_virtual_scsi_rw_def vk_mal_virtual_scsi_drv_def p_vk_mal_scsi_read_def
      await_def numeral_2_eq_2 split: option.split reply.split)

lemma scsi_write_calls:
  assumes "vk_scsi_get_rw_param cbd = Some (lba, n)" "length cbd = 16" "b \<noteq> reply_addr v" "cmd_code cbd = 0x0A" "3 \<le> frames"
  shows "vk_scsi_execute (vk_mal_virtual_scsi_drv drv) frames cbd (Some (b, l)) v m =
    await (vk_mal_write drv (frames - 2) (lba * block_size (param v) mod 2 ^ 64) (n * block_size (param v) mod 2 ^ 32) b (ms_mal v) m)
      (Some WAITS) (\<lambda>(r, s, m). Some (RETURN (r, v\<lparr>ms_mal := s\<rparr>, m)))"
  using assms by (simp add: rw_execute call_peda_def p_vk_virtual_scsi_rw_def vk_mal_virtual_scsi_drv_def p_vk_mal_scsi_write_def
      await_def numeral_2_eq_2 split: option.split reply.split)

section \<open>The disk over a device\<close>

text \<open>A range of blocks inside of the device, with a size that a return value can hold.\<close>

definition blocks_in :: "nat \<Rightarrow> nat \<Rightarrow> nat \<Rightarrow> nat \<Rightarrow> bool" where
  "blocks_in dsize bs lba n \<longleftrightarrow> 0 < n * bs \<and> n * bs < 2 ^ 31 \<and> lba * bs + n * bs \<le> dsize \<and> dsize < 2 ^ 64"

lemma blocks_in_mod: "blocks_in dsize bs lba n \<Longrightarrow> lba * bs mod 2 ^ 64 = lba * bs \<and> n * bs mod 2 ^ 32 = n * bs"
  by (simp add: blocks_in_def)

locale scsi_disk = mal_device drv need dev_ok dev_size dev_owned dev_content
  for drv :: "'a vk_mal_t_scheme vk_mal_drv_t" and need dev_ok dev_size dev_owned dev_content +
  assumes needs_frame: "1 \<le> need"
begin

lemma disk_read:
  assumes "dev_ok (ms_mal v)" "need + 2 \<le> frames" "blocks_in (dev_size (ms_mal v)) (block_size (param v)) lba n"
    and "{b..<b + n * block_size (param v)} \<inter> dev_owned (ms_mal v) = {}" "b \<noteq> reply_addr v"
    and "vk_scsi_get_rw_param cbd = Some (lba, n)" "length cbd = 16" "cmd_code cbd = 0x08"
  shows "\<exists>s' m'. vk_scsi_execute (vk_mal_virtual_scsi_drv drv) frames cbd (Some (b, l)) v m =
      Some (RETURN (int (n * block_size (param v)), v\<lparr>ms_mal := s'\<rparr>, m')) \<and>
    dev_ok s' \<and> dev_size s' = dev_size (ms_mal v) \<and> dev_owned s' = dev_owned (ms_mal v) \<and> dev_content s' m' = dev_content (ms_mal v) m \<and>
    bytes m' b (n * block_size (param v)) = take (n * block_size (param v)) (drop (lba * block_size (param v)) (dev_content (ms_mal v) m))"
proof -
  have "need \<le> frames - 2" "3 \<le> frames" using assms(2) needs_frame by auto
  then show ?thesis
    using read_law [of "ms_mal v" "frames - 2" "n * block_size (param v)" "lba * block_size (param v)" b m] assms blocks_in_mod [OF assms(3)]
    by (auto simp: scsi_read_calls await_def blocks_in_def)
qed

lemma disk_write:
  assumes "dev_ok (ms_mal v)" "need + 2 \<le> frames" "blocks_in (dev_size (ms_mal v)) (block_size (param v)) lba n"
    and "{b..<b + n * block_size (param v)} \<inter> dev_owned (ms_mal v) = {}" "b \<noteq> reply_addr v"
    and "vk_scsi_get_rw_param cbd = Some (lba, n)" "length cbd = 16" "cmd_code cbd = 0x0A"
  shows "\<exists>s' m'. vk_scsi_execute (vk_mal_virtual_scsi_drv drv) frames cbd (Some (b, l)) v m =
      Some (RETURN (int (n * block_size (param v)), v\<lparr>ms_mal := s'\<rparr>, m')) \<and>
    dev_ok s' \<and> dev_size s' = dev_size (ms_mal v) \<and> dev_owned s' = dev_owned (ms_mal v) \<and>
    dev_content s' m' = patch (lba * block_size (param v)) (bytes m b (n * block_size (param v))) (dev_content (ms_mal v) m)"
proof -
  have "need \<le> frames - 2" "3 \<le> frames" using assms(2) needs_frame by auto
  then show ?thesis
    using write_law [of "ms_mal v" "frames - 2" "n * block_size (param v)" "lba * block_size (param v)" b m] assms blocks_in_mod [OF assms(3)]
    by (auto simp: scsi_write_calls await_def blocks_in_def)
qed

lemma disk_write_read:
  assumes dev: "dev_ok (ms_mal v)" "need + 2 \<le> frames" and bs: "bs = block_size (param v)"
    and blocks: "blocks_in (dev_size (ms_mal v)) bs lba n" "lba < 2 ^ 32" "n < 2 ^ 16"
    and b: "{b..<b + n * bs} \<inter> dev_owned (ms_mal v) = {}" "b \<noteq> reply_addr v"
    and c: "{c..<c + n * bs} \<inter> dev_owned (ms_mal v) = {}" "c \<noteq> reply_addr v"
  shows "\<exists>v1 m1 v2 m2.
    vk_scsi_execute (vk_mal_virtual_scsi_drv drv) frames (rw_cdb wide1 False lba n) (Some (b, n * bs)) v m =
      Some (RETURN (int (n * bs), v1, m1)) \<and>
    vk_scsi_execute (vk_mal_virtual_scsi_drv drv) frames (rw_cdb wide2 True lba n) (Some (c, n * bs)) v1 m1 =
      Some (RETURN (int (n * bs), v2, m2)) \<and>
    bytes m2 c (n * bs) = bytes m b (n * bs) \<and>
    dev_content (ms_mal v2) m2 = patch (lba * bs) (bytes m b (n * bs)) (dev_content (ms_mal v) m)"
proof -
  have p: "vk_scsi_get_rw_param (rw_cdb wide is_read lba n) = Some (lba, n)" for wide is_read
    using blocks by (intro rw_cdb_param) auto
  obtain s1 m1 where w: "vk_scsi_execute (vk_mal_virtual_scsi_drv drv) frames (rw_cdb wide1 False lba n) (Some (b, n * bs)) v m =
      Some (RETURN (int (n * bs), v\<lparr>ms_mal := s1\<rparr>, m1))" "dev_ok s1" "dev_size s1 = dev_size (ms_mal v)"
    "dev_owned s1 = dev_owned (ms_mal v)" "dev_content s1 m1 = patch (lba * bs) (bytes m b (n * bs)) (dev_content (ms_mal v) m)"
    using disk_write [OF dev _ _ _ p, of b wide1 False "n * bs" m] blocks b bs by auto
  obtain s2 m2 where r: "vk_scsi_execute (vk_mal_virtual_scsi_drv drv) frames (rw_cdb wide2 True lba n) (Some (c, n * bs)) (v\<lparr>ms_mal := s1\<rparr>) m1 =
      Some (RETURN (int (n * bs), v\<lparr>ms_mal := s1\<rparr>\<lparr>ms_mal := s2\<rparr>, m2))" "dev_content s2 m2 = dev_content s1 m1"
    "bytes m2 c (n * bs) = take (n * bs) (drop (lba * bs) (dev_content s1 m1))"
    using disk_read [of "v\<lparr>ms_mal := s1\<rparr>" frames lba n c "rw_cdb wide2 True lba n" "n * bs" m1] p w blocks c bs dev by auto
  have "bytes m2 c (n * bs) = bytes m b (n * bs)"
    using take_drop_patch [of "lba * bs" "bytes m b (n * bs)" "dev_content (ms_mal v) m"] r(3) w(5) blocks dev content_length
    by (simp add: blocks_in_def)
  then show ?thesis using w r by auto
qed

end

interpretation ramdisk: scsi_disk vk_mem_mal_drv 1 mem_mal_ok mem_size mem_mal_owned mem_mal_content
  by unfold_locales simp

interpretation partdisk: scsi_disk "vk_reentrant_mal_drv 0 vk_mem_mal_drv" 2 part.win_ok mal_size part.win_owned part.win_content
  using part.win.mal_device_axioms by (auto simp: scsi_disk_def scsi_disk_axioms_def numeral_2_eq_2)

section \<open>Replies\<close>

lemma put_reply_bytes:
  assumes "0 < r" "i + length bs \<le> n"
  shows "\<exists>m'. put_reply r i bs m = Some m' \<and> bytes m' r n = patch i bs (bytes m r n) \<and> (\<forall>j. j \<notin> {r..<r + n} \<longrightarrow> m' j = m j)"
proof -
  let ?m = "\<lambda>j. if r + i \<le> j \<and> j < r + i + length bs then bs ! (j - (r + i)) else m j"
  have "bytes ?m r n = patch i bs (bytes m r n)"
    by (rule nth_equalityI) (use assms in \<open>auto simp: nth_patch\<close>)
  then show ?thesis using assms by (intro exI [of _ ?m]) (auto simp: put_reply_def)
qed

lemma bytes_mem_fill: "bytes (mem_fill r x n m) r n = replicate n x"
  by (rule nth_equalityI) (auto simp: mem_fill_def)

lemma mem_fill_outside: "j \<notin> {r..<r + n} \<Longrightarrow> mem_fill r x n m j = m j"
  by (auto simp: mem_fill_def)

lemma read_capacity_execute:
  assumes "0 < reply_addr v" "0 < frames" "0 < block_num (param v)"
  shows "\<exists>m'. vk_scsi_execute drv frames read_capacity_cdb (Some (reply_addr v, 36)) v m =
      Some (RETURN (8, v\<lparr>sense_key := 0, asc := 0\<rparr>, m')) \<and>
    bytes m' (reply_addr v) 36 = be32 (block_num (param v) - 1) @ be32 (block_size (param v)) @ replicate 28 0 \<and>
    (\<forall>j. j \<notin> {reply_addr v..<reply_addr v + 36} \<longrightarrow> m' j = m j)"
proof -
  let ?r = "reply_addr v" and ?m = "mem_fill (reply_addr v) 0 36 m"
  obtain m1 where m1: "put_reply ?r 0 (be32 (block_num (param v) - 1)) ?m = Some m1"
    "bytes m1 ?r 36 = patch 0 (be32 (block_num (param v) - 1)) (bytes ?m ?r 36)" "\<forall>j. j \<notin> {?r..<?r + 36} \<longrightarrow> m1 j = ?m j"
    using put_reply_bytes [of ?r 0 "be32 (block_num (param v) - 1)" 36 ?m] assms by auto
  obtain m2 where m2: "put_reply ?r 4 (be32 (block_size (param v))) m1 = Some m2"
    "bytes m2 ?r 36 = patch 4 (be32 (block_size (param v))) (bytes m1 ?r 36)" "\<forall>j. j \<notin> {?r..<?r + 36} \<longrightarrow> m2 j = m1 j"
    using put_reply_bytes [of ?r 4 "be32 (block_size (param v))" 36 m1] assms by auto
  have "vk_scsi_execute drv frames read_capacity_cdb (Some (?r, 36)) v m = Some (RETURN (8, v\<lparr>sense_key := 0, asc := 0\<rparr>, m2))"
    using assms m1(1) m2(1)
    by (simp add: vk_scsi_execute_def call_peda_def p_vk_virtual_scsi_execute_def read_capacity_cdb_def group_code_def cmd_code_def
        scsi_group10_1_def scsi_read_capacity_def)
  moreover have "bytes m2 ?r 36 = be32 (block_num (param v) - 1) @ be32 (block_size (param v)) @ replicate 28 0"
    by (simp add: m1(2) m2(2) bytes_mem_fill blk_write_def)
  ultimately show ?thesis using m1(3) m2(3) by (auto simp: mem_fill_outside)
qed

lemma zeros36: "replicate 36 (0::u8) =
  [0, 0, 0, 0, 0, 0, 0, 0, 0, 0, 0, 0, 0, 0, 0, 0, 0, 0, 0, 0, 0, 0, 0, 0, 0, 0, 0, 0, 0, 0, 0, 0, 0, 0, 0, 0]"
  by (simp add: numeral_eq_Suc)

lemma request_sense_execute:
  assumes "0 < reply_addr v" "0 < frames"
  shows "\<exists>m'. vk_scsi_execute drv frames (request_sense_cdb 18) (Some (reply_addr v, 36)) v m = Some (RETURN (18, v, m')) \<and>
    bytes m' (reply_addr v) 18 =
      [0x70, 0, of_nat (sense_key v), 0, 0, 0, 0, 0x0A, 0, 0, 0, 0, of_nat (asc v), 0, 0, 0, 0, 0]"
proof -
  let ?r = "reply_addr v" and ?m = "mem_fill (reply_addr v) 0 36 m"
  obtain m1 where m1: "put_reply ?r 0 [0x70] ?m = Some m1" "bytes m1 ?r 36 = patch 0 [0x70] (bytes ?m ?r 36)"
    using put_reply_bytes [of ?r 0 "[0x70]" 36 ?m] assms by auto
  obtain m2 where m2: "put_reply ?r 2 [of_nat (sense_key v)] m1 = Some m2" "bytes m2 ?r 36 = patch 2 [of_nat (sense_key v)] (bytes m1 ?r 36)"
    using put_reply_bytes [of ?r 2 "[of_nat (sense_key v)]" 36 m1] assms by auto
  obtain m3 where m3: "put_reply ?r 7 [0x0A] m2 = Some m3" "bytes m3 ?r 36 = patch 7 [0x0A] (bytes m2 ?r 36)"
    using put_reply_bytes [of ?r 7 "[0x0A]" 36 m2] assms by auto
  obtain m4 where m4: "put_reply ?r 12 [of_nat (asc v)] m3 = Some m4" "bytes m4 ?r 36 = patch 12 [of_nat (asc v)] (bytes m3 ?r 36)"
    using put_reply_bytes [of ?r 12 "[of_nat (asc v)]" 36 m3] assms by auto
  have "bytes m4 ?r 18 = take 18 (bytes m4 ?r 36)" using take_drop_bytes [of 0 18 36 m4 ?r] by simp
  also have "\<dots> = [0x70, 0, of_nat (sense_key v), 0, 0, 0, 0, 0x0A, 0, 0, 0, 0, of_nat (asc v), 0, 0, 0, 0, 0]"
    by (simp add: m1(2) m2(2) m3(2) m4(2) bytes_mem_fill blk_write_def zeros36)
  finally show ?thesis
    using assms m1(1) m2(1) m3(1) m4(1)
    by (simp add: vk_scsi_execute_def call_peda_def p_vk_virtual_scsi_execute_def request_sense_cdb_def group_code_def cmd_code_def
        scsi_group6_def scsi_request_sense_def)
qed

text \<open>The result of a command explains itself: when it is refused, the sense data says why.\<close>

definition explained :: "'x vk_virtual_scsi_t_scheme \<Rightarrow> 'x vk_virtual_scsi_t_scheme scsi_command \<Rightarrow> bool" where
  "explained v c = (case c of None \<Rightarrow> True | Some (r, v', m') \<Rightarrow>
     (r < 0 \<longrightarrow> (sense_key v', asc v') \<in> {(5, 0x20), (5, 0x24), (2, 0x3A)}) \<and> reply_addr v' = reply_addr v)"

lemma explained_exits [simp]:
  "explained v None" "explained v (exit_invalid_cmd v m)" "explained v (exit_invalid_field_in_cmd v m)" "explained v (scsi_not_present v m)"
  "0 \<le> r \<Longrightarrow> explained v (Some (r, v, m))" "explained v (Some (0, v\<lparr>sense_key := k, asc := a\<rparr>, m))"
  "explained v (Some (8, v\<lparr>sense_key := k, asc := a\<rparr>, m))"
  by (simp_all add: explained_def exit_invalid_cmd_def exit_invalid_field_in_cmd_def scsi_not_present_def)

lemma explained_bind [intro!]: "(\<And>m'. explained v (f m')) \<Longrightarrow> explained v (Option.bind x f)"
  by (cases x) simp_all

lemma explained_if [intro!]: "(b \<Longrightarrow> explained v c) \<Longrightarrow> (\<not> b \<Longrightarrow> explained v d) \<Longrightarrow> explained v (if b then c else d)"
  by simp

lemma explained_commands:
  "explained v (scsi_request_sense cbd mem v m)" "explained v (scsi_inquiry_vpd cbd mem v m)" "explained v (scsi_inquiry cbd mem v m)"
  "explained v (scsi_read_format_capacities mem v m)" "explained v (scsi_read_capacity mem v m)" "explained v (scsi_ata_pass_through mem v m)"
proof -
  show "explained v (scsi_request_sense cbd mem v m)" unfolding scsi_request_sense_def Let_def by (intro explained_bind explained_if) simp_all
  show vpd: "explained v (scsi_inquiry_vpd cbd mem v m)" for m
    unfolding scsi_inquiry_vpd_def Let_def by (intro explained_bind explained_if) simp_all
  show "explained v (scsi_inquiry cbd mem v m)"
    unfolding scsi_inquiry_def by (intro explained_if; (intro explained_bind)?) (simp_all add: vpd)
  show "explained v (scsi_read_format_capacities mem v m)" "explained v (scsi_read_capacity mem v m)"
    unfolding scsi_read_format_capacities_def scsi_read_capacity_def by (intro explained_bind explained_if; simp)+
  show "explained v (scsi_ata_pass_through mem v m)" unfolding scsi_ata_pass_through_def by (intro explained_bind) simp
qed

lemma explained_groups:
  "explained v (scsi_group6 cbd mem v m)" "explained v (scsi_group10_1 cbd mem v m)" "explained v (scsi_group10_2 cbd mem v m)"
  "explained v (scsi_group16 cbd mem v m)" "explained v (scsi_group12 cbd mem v m)"
  unfolding scsi_group6_def scsi_group10_1_def scsi_group10_2_def scsi_group16_def scsi_group12_def Let_def
  by (intro explained_if explained_bind; simp add: explained_commands)+

lemma refused_sense:
  assumes "p_vk_virtual_scsi_execute drv frames cbd mem v m = Some (RETURN (r, v', m'))" "r < 0"
    and "cmd_code cbd \<noteq> 0x08" "cmd_code cbd \<noteq> 0x0A"
  shows "(sense_key v', asc v') \<in> {(5, 0x20), (5, 0x24), (2, 0x3A)} \<and> reply_addr v' = reply_addr v"
proof -
  have "explained v (Some (r, v', m'))"
    using assms(1,3,4)
    by (auto simp: p_vk_virtual_scsi_execute_def Let_def split: if_splits) (metis explained_groups explained_exits(2))+
  then show ?thesis using assms(2) by (simp add: explained_def)
qed

text \<open>The disk over plain memory.\<close>

lemma ramdisk_init:
  fixes v :: "vk_mem_mal_t vk_mal_scsi_t"
  assumes "3 \<le> frames" "0 < mm_blksz (ms_mal v)" "mem_size (ms_mal v) < 2 ^ 32"
  shows "vk_scsi_init (vk_mal_virtual_scsi_drv vk_mem_mal_drv) frames v m =
    Some (RETURN (0, v\<lparr>ms_mal := (ms_mal v)\<lparr>mal_size := mem_size (ms_mal v)\<rparr>,
      param := (param v)\<lparr>block_size := mm_blksz (ms_mal v), block_num := mem_size (ms_mal v) div mm_blksz (ms_mal v)\<rparr>\<rparr>, m))"
proof -
  have "mem_size (ms_mal v) div mm_blksz (ms_mal v) mod 2 ^ 32 = mem_size (ms_mal v) div mm_blksz (ms_mal v)"
    using assms div_le_dividend [of "mem_size (ms_mal v)" "mm_blksz (ms_mal v)"] by (intro mod_less) linarith
  then show ?thesis using assms(1,2)
    by (simp add: vk_scsi_init_def call_peda_def p_vk_virtual_scsi_init_def vk_mal_virtual_scsi_drv_def p_vk_mal_scsi_init_def
        vk_mal_init_def vk_mal_blksz_def vk_mem_mal_drv_def p_vk_mem_mal_init_def p_vk_mem_mal_blksz_def await_def)
qed

lemma ramdisk_read:
  fixes v :: "vk_mem_mal_t vk_mal_scsi_t"
  assumes "mem_mal_ok (ms_mal v)" "3 \<le> frames" "bs = block_size (param v)" "blocks_in (mem_size (ms_mal v)) bs lba n"
    and "{b..<b + n * bs} \<inter> mem_mal_owned (ms_mal v) = {}" "b \<noteq> reply_addr v" "lba < 2 ^ 32" "n < 2 ^ 16"
  shows "\<exists>m'. vk_scsi_execute (vk_mal_virtual_scsi_drv vk_mem_mal_drv) frames (rw_cdb wide True lba n) (Some (b, l)) v m =
      Some (RETURN (int (n * bs), v, m')) \<and>
    bytes m' b (n * bs) = take (n * bs) (drop (lba * bs) (mem_mal_content (ms_mal v) m))"
proof -
  have r: "vk_mal_read vk_mem_mal_drv (frames - 2) (lba * bs) (n * bs) b (ms_mal v) m =
      Some (RETURN (int (n * bs), ms_mal v, mem_copy b (mem_buffer (ms_mal v) + lba * bs) (n * bs) m))"
    using assms by (intro mem_mal_read) (auto simp: blocks_in_def)
  have "vk_scsi_get_rw_param (rw_cdb wide True lba n) = Some (lba, n)" using assms by (intro rw_cdb_param) auto
  then have "vk_scsi_execute (vk_mal_virtual_scsi_drv vk_mem_mal_drv) frames (rw_cdb wide True lba n) (Some (b, l)) v m =
      Some (RETURN (int (n * bs), v, mem_copy b (mem_buffer (ms_mal v) + lba * bs) (n * bs) m))"
    using r assms blocks_in_mod [OF assms(4)] by (simp add: scsi_read_calls await_def)
  moreover have "bytes (mem_copy b (mem_buffer (ms_mal v) + lba * bs) (n * bs) m) b (n * bs) =
      take (n * bs) (drop (lba * bs) (mem_mal_content (ms_mal v) m))"
    using assms(4) by (auto simp: mem_mal_content_def take_drop_bytes blocks_in_def mem_copy_inside intro!: bytes_eqI)
  ultimately show ?thesis by auto
qed

lemma capacity_fits:
  assumes "0 < bs" "dsize < 2 ^ 31" "0 < n" "lba + n \<le> dsize div bs"
  shows "blocks_in dsize bs lba n \<and> lba < 2 ^ 32"
proof -
  have "(lba + n) * bs \<le> dsize div bs * bs" using assms(4) by (rule mult_le_mono1)
  also have "\<dots> \<le> dsize" by simp
  finally have le: "lba * bs + n * bs \<le> dsize" by (simp add: distrib_right)
  moreover have "lba \<le> dsize" using assms(4) div_le_dividend [of dsize bs] by linarith
  ultimately show ?thesis using assms by (simp add: blocks_in_def)
qed

text \<open>A disk of eight blocks with four bytes, for the examples.\<close>

definition ex_mem :: vk_mem_mal_t where
  "ex_mem = \<lparr>mal_size = 32, mem_buffer = 1000, mem_size = 32, mm_blksz = 4\<rparr>"

definition ex_disk :: "vk_mem_mal_t vk_mal_scsi_t" where
  "ex_disk = \<lparr>param = \<lparr>block_size = 4, block_num = 8, vendor = [], product = [], revision = [], serial = [], removable = False, pdt = 0\<rparr>,
     reply_addr = 500, sense_key = 0, asc = 0, ms_mal = ex_mem\<rparr>"

lemma ex_simps: "ms_mal ex_disk = ex_mem" "reply_addr ex_disk = 500" "mem_buffer ex_mem = 1000" "mem_size ex_mem = 32" "mm_blksz ex_mem = 4"
  by (simp_all add: ex_disk_def ex_mem_def)

lemma ex_owned: "mem_mal_owned ex_mem = {1000..<1032}"
  by (simp add: mem_mal_owned_def ex_mem_def)

section \<open>Properties\<close>

text \<open>
  C31. Over plain memory, what a host writes to blocks of the disk with WRITE(10) or WRITE(12) is what it reads from them with READ(10) or
  READ(12): both commands return the number of bytes, the buffer of the read holds the bytes of the buffer of the write, and the
  content of the device has these bytes at the blocks and is unchanged elsewhere.
\<close>

theorem scsi_write_read:
  fixes v :: "vk_mem_mal_t vk_mal_scsi_t"
  assumes "mem_buffer (ms_mal v) + mem_size (ms_mal v) \<le> 2 ^ 32" "3 \<le> frames" "bs = block_size (param v)"
    and "0 < n * bs" "n * bs < 2 ^ 31" "lba * bs + n * bs \<le> mem_size (ms_mal v)" "lba < 2 ^ 32" "n < 2 ^ 16"
    and "{b..<b + n * bs} \<inter> mem_mal_owned (ms_mal v) = {}" "b \<noteq> reply_addr v"
    and "{c..<c + n * bs} \<inter> mem_mal_owned (ms_mal v) = {}" "c \<noteq> reply_addr v"
  shows "\<exists>v1 m1 v2 m2.
    vk_scsi_execute (vk_mal_virtual_scsi_drv vk_mem_mal_drv) frames (rw_cdb wide1 False lba n) (Some (b, n * bs)) v m =
      Some (RETURN (int (n * bs), v1, m1)) \<and>
    vk_scsi_execute (vk_mal_virtual_scsi_drv vk_mem_mal_drv) frames (rw_cdb wide2 True lba n) (Some (c, n * bs)) v1 m1 =
      Some (RETURN (int (n * bs), v2, m2)) \<and>
    bytes m2 c (n * bs) = bytes m b (n * bs) \<and>
    mem_mal_content (ms_mal v2) m2 = patch (lba * bs) (bytes m b (n * bs)) (mem_mal_content (ms_mal v) m)"
  by (rule ramdisk.disk_write_read) (use assms in \<open>auto simp: mem_mal_ok_def blocks_in_def\<close>)

theorem scsi_write_read_witness:
  "\<exists>v1 m1 v2 m2.
    vk_scsi_execute (vk_mal_virtual_scsi_drv vk_mem_mal_drv) 3 (rw_cdb False False 2 3) (Some (100, 12)) ex_disk of_nat = Some (RETURN (12, v1, m1)) \<and>
    vk_scsi_execute (vk_mal_virtual_scsi_drv vk_mem_mal_drv) 3 (rw_cdb True True 2 3) (Some (200, 12)) v1 m1 = Some (RETURN (12, v2, m2)) \<and>
    bytes m2 200 12 = bytes of_nat 100 12 \<and>
    mem_mal_content (ms_mal v2) m2 = patch 8 (bytes of_nat 100 12) (mem_mal_content (ms_mal ex_disk) of_nat)"
proof -
  have "\<exists>v1 m1 v2 m2.
    vk_scsi_execute (vk_mal_virtual_scsi_drv vk_mem_mal_drv) 3 (rw_cdb False False 2 3) (Some (100, 3 * 4)) ex_disk of_nat =
      Some (RETURN (int (3 * 4), v1, m1)) \<and>
    vk_scsi_execute (vk_mal_virtual_scsi_drv vk_mem_mal_drv) 3 (rw_cdb True True 2 3) (Some (200, 3 * 4)) v1 m1 =
      Some (RETURN (int (3 * 4), v2, m2)) \<and>
    bytes m2 200 (3 * 4) = bytes of_nat 100 (3 * 4) \<and>
    mem_mal_content (ms_mal v2) m2 = patch (2 * 4) (bytes of_nat 100 (3 * 4)) (mem_mal_content (ms_mal ex_disk) of_nat)"
    by (rule scsi_write_read) (auto simp: ex_disk_def ex_mem_def mem_mal_owned_def)
  then show ?thesis by simp
qed

text \<open>
  C32. After the initialisation of a disk over plain memory, READ CAPACITY reports the last block and the block size, and every READ(10) of
  blocks up to the reported one ends with all of its bytes: no assertion fails, and no handler is left waiting.
\<close>

theorem scsi_capacity_safe:
  fixes v :: "vk_mem_mal_t vk_mal_scsi_t"
  assumes "mem_buffer (ms_mal v) + mem_size (ms_mal v) \<le> 2 ^ 32" "mem_size (ms_mal v) < 2 ^ 31"
    and "0 < mm_blksz (ms_mal v)" "mm_blksz (ms_mal v) \<le> mem_size (ms_mal v)" "0 < reply_addr v" "3 \<le> frames"
  shows "\<exists>v1 v2 m2. vk_scsi_init (vk_mal_virtual_scsi_drv vk_mem_mal_drv) frames v m = Some (RETURN (0, v1, m)) \<and>
    vk_scsi_execute (vk_mal_virtual_scsi_drv vk_mem_mal_drv) frames read_capacity_cdb (Some (reply_addr v, 36)) v1 m =
      Some (RETURN (8, v2, m2)) \<and>
    (let last = be (bytes m2 (reply_addr v) 8) 0 4; bs = be (bytes m2 (reply_addr v) 8) 4 4
     in bs = mm_blksz (ms_mal v) \<and> last = mem_size (ms_mal v) div bs - 1 \<and>
        (\<forall>lba n b. 0 < n \<and> n < 2 ^ 16 \<and> lba + n \<le> last + 1 \<and> {b..<b + n * bs} \<inter> mem_mal_owned (ms_mal v) = {} \<and>
          b \<noteq> reply_addr v \<longrightarrow>
          (\<exists>m3. vk_scsi_execute (vk_mal_virtual_scsi_drv vk_mem_mal_drv) frames (rw_cdb False True lba n) (Some (b, n * bs)) v2 m2 =
              Some (RETURN (int (n * bs), v2, m3)) \<and>
            bytes m3 b (n * bs) = take (n * bs) (drop (lba * bs) (mem_mal_content (ms_mal v) m2)))))"
proof -
  let ?D = "vk_mal_virtual_scsi_drv vk_mem_mal_drv" and ?r = "reply_addr v" and ?bs = "mm_blksz (ms_mal v)" and ?N = "mem_size (ms_mal v)"
  let ?v = "v\<lparr>ms_mal := (ms_mal v)\<lparr>mal_size := ?N\<rparr>, param := (param v)\<lparr>block_size := ?bs, block_num := ?N div ?bs\<rparr>\<rparr>"
  have init: "vk_scsi_init ?D frames v m = Some (RETURN (0, ?v, m))" using assms by (intro ramdisk_init) auto
  have num: "0 < ?N div ?bs" using assms by (simp add: div_greater_zero_iff)
  have lt: "?N div ?bs - 1 < 2 ^ 32" "?bs < 2 ^ 32" using assms(2,4) le_less_trans [OF div_le_dividend, of ?N "2 ^ 31" ?bs] by auto
  let ?v2 = "?v\<lparr>sense_key := 0, asc := 0\<rparr>"
  obtain m2 where m2: "vk_scsi_execute ?D frames read_capacity_cdb (Some (?r, 36)) ?v m = Some (RETURN (8, ?v2, m2))"
    "bytes m2 ?r 36 = be32 (?N div ?bs - 1) @ be32 ?bs @ replicate 28 0"
    using read_capacity_execute [of ?v frames ?D m] assms num by auto
  have "bytes m2 ?r 8 = take 8 (bytes m2 ?r 36)" using take_drop_bytes [of 0 8 36 m2 ?r] by simp
  then have b8: "bytes m2 ?r 8 = be32 (?N div ?bs - 1) @ be32 ?bs" by (simp add: m2(2))
  have reply: "be (bytes m2 ?r 8) 0 4 = ?N div ?bs - 1" "be (bytes m2 ?r 8) 4 4 = ?bs"
    using be_be32 [of "[]" 0 "?N div ?bs - 1" "be32 ?bs"] be_be32 [of "be32 (?N div ?bs - 1)" 4 ?bs "[]"] lt by (simp_all add: b8)
  have "\<exists>m3. vk_scsi_execute ?D frames (rw_cdb False True lba n) (Some (b, n * ?bs)) ?v2 m2 = Some (RETURN (int (n * ?bs), ?v2, m3)) \<and>
      bytes m3 b (n * ?bs) = take (n * ?bs) (drop (lba * ?bs) (mem_mal_content (ms_mal v) m2))"
    if "0 < n" "n < 2 ^ 16" "lba + n \<le> ?N div ?bs - 1 + 1" "{b..<b + n * ?bs} \<inter> mem_mal_owned (ms_mal v) = {}" "b \<noteq> ?r" for lba n b
    using ramdisk_read [of ?v2 frames ?bs lba n b False "n * ?bs" m2] capacity_fits [of ?bs ?N n lba] that assms num
    by (simp add: mem_mal_ok_def mem_mal_owned_def mem_mal_content_def)
  then show ?thesis using init m2(1) by (auto simp: reply)
qed

theorem scsi_capacity_safe_witness:
  "\<exists>v1 v2 m2. vk_scsi_init (vk_mal_virtual_scsi_drv vk_mem_mal_drv) 3 ex_disk of_nat = Some (RETURN (0, v1, of_nat)) \<and>
    vk_scsi_execute (vk_mal_virtual_scsi_drv vk_mem_mal_drv) 3 read_capacity_cdb (Some (500, 36)) v1 of_nat = Some (RETURN (8, v2, m2)) \<and>
    be (bytes m2 500 8) 0 4 = 7 \<and>
    (\<exists>m3. vk_scsi_execute (vk_mal_virtual_scsi_drv vk_mem_mal_drv) 3 (rw_cdb False True 7 1) (Some (100, 4)) v2 m2 =
        Some (RETURN (4, v2, m3)) \<and> bytes m3 100 4 = take 4 (drop 28 (mem_mal_content ex_mem m2)))"
proof -
  let ?D = "vk_mal_virtual_scsi_drv vk_mem_mal_drv"
  obtain v1 v2 m2 where *: "vk_scsi_init ?D 3 ex_disk of_nat = Some (RETURN (0, v1, of_nat))"
    "vk_scsi_execute ?D 3 read_capacity_cdb (Some (500, 36)) v1 of_nat = Some (RETURN (8, v2, m2))"
    "be (bytes m2 500 8) 0 4 = 7" "be (bytes m2 500 8) 4 4 = 4" and
    all: "\<forall>lba n b. 0 < n \<and> n < 2 ^ 16 \<and> lba + n \<le> 7 + 1 \<and> {b..<b + n * 4} \<inter> mem_mal_owned ex_mem = {} \<and> b \<noteq> 500 \<longrightarrow>
      (\<exists>m3. vk_scsi_execute ?D 3 (rw_cdb False True lba n) (Some (b, n * 4)) v2 m2 = Some (RETURN (int (n * 4), v2, m3)) \<and>
        bytes m3 b (n * 4) = take (n * 4) (drop (lba * 4) (mem_mal_content ex_mem m2)))"
    using scsi_capacity_safe [of ex_disk 3 of_nat] unfolding Let_def ex_simps by (simp del: all_simps ex_simps) (elim exE conjE, simp)
  have "{100..<100 + 1 * 4} \<inter> mem_mal_owned ex_mem = {}" by (simp add: ex_owned)
  then have "\<exists>m3. vk_scsi_execute ?D 3 (rw_cdb False True 7 1) (Some (100, 4)) v2 m2 = Some (RETURN (4, v2, m3)) \<and>
      bytes m3 100 4 = take 4 (drop 28 (mem_mal_content ex_mem m2))"
    using all [rule_format, of 1 7 100] by simp
  then show ?thesis using * by blast
qed



lemma part_window: "0 \<le> enter \<Longrightarrow> mal_window vk_mem_mal_drv 1 mem_mal_ok mem_size mem_mal_owned mem_mal_content enter"
  by unfold_locales (auto simp: mem_mal_ok_def)

text \<open>
  C34. A shared part of a device is a device of its own: a write through \<open>vk_reentrant_mal_drv\<close>, whether the mutex is free or has to be
  waited for, changes the bytes at its address in the part and nothing else of the memory below, the mutex is free again, and a read
  through the part gives the bytes.
\<close>

theorem mal_window_write:
  fixes s :: "vk_mem_mal_t vk_reentrant_mal_t"
  assumes "0 \<le> enter" "mem_buffer (rm_mal s) + mem_size (rm_mal s) \<le> 2 ^ 32" "rm_offset s + mal_size s \<le> mem_size (rm_mal s)"
    and "\<not> rm_held s" "2 \<le> frames" "0 < n" "n < 2 ^ 31" "a + n \<le> mal_size s"
    and "{b..<b + n} \<inter> mem_mal_owned (rm_mal s) = {}" "{c..<c + n} \<inter> mem_mal_owned (rm_mal s) = {}"
  shows "\<exists>s1 m1 s2 m2. vk_mal_write (vk_reentrant_mal_drv enter vk_mem_mal_drv) frames a n b s m = Some (RETURN (int n, s1, m1)) \<and>
    mem_mal_content (rm_mal s1) m1 = patch (rm_offset s + a) (bytes m b n) (mem_mal_content (rm_mal s) m) \<and> \<not> rm_held s1 \<and>
    vk_mal_read (vk_reentrant_mal_drv enter vk_mem_mal_drv) frames a n c s1 m1 = Some (RETURN (int n, s2, m2)) \<and>
    bytes m2 c n = bytes m b n \<and> \<not> rm_held s2"
proof -
  let ?ok = "mal_window.win_ok mem_mal_ok mem_size"
  note w = part_window [OF assms(1)]
  note ok_def = mal_window.win_ok_def [OF w] and owned_def = mal_window.win_owned_def [OF w]
  have ok: "?ok s" using assms by (simp add: ok_def mem_mal_ok_def)
  obtain s1 m1 where 1: "vk_mal_write (vk_reentrant_mal_drv enter vk_mem_mal_drv) frames a n b s m = Some (RETURN (int n, s1, m1))"
    "?ok s1" "mal_size s1 = mal_size s" "mal_window.win_owned mem_mal_owned s1 = mal_window.win_owned mem_mal_owned s"
    "mem_mal_content (rm_mal s1) m1 = patch (a + rm_offset s) (bytes m b n) (mem_mal_content (rm_mal s) m)"
    "mal_window.win_content mem_mal_content s1 m1 = patch a (bytes m b n) (mal_window.win_content mem_mal_content s m)"
    using mal_window.window_write [OF w ok, of frames n a b m] assms by (auto simp: owned_def)
  obtain s2 m2 where 2: "vk_mal_read (vk_reentrant_mal_drv enter vk_mem_mal_drv) frames a n c s1 m1 = Some (RETURN (int n, s2, m2))"
    "?ok s2" "bytes m2 c n = take n (drop a (mal_window.win_content mem_mal_content s1 m1))"
    using mal_window.window_read [OF w 1(2), of frames n a c m1] 1 assms by (auto simp: owned_def)
  have "length (mal_window.win_content mem_mal_content s m) = mal_size s"
    using assms(3) by (auto simp: mal_window.win_content_def [OF w] mem_mal_content_def)
  then have "bytes m2 c n = bytes m b n"
    using 2(3) 1(6) take_drop_patch [of a "bytes m b n" "mal_window.win_content mem_mal_content s m"] assms(8) by simp
  then show ?thesis using 1 2 by (auto simp: ok_def add.commute)
qed

theorem mal_window_write_witness:
  "\<exists>s1 m1 s2 m2. vk_mal_write (vk_reentrant_mal_drv 1 vk_mem_mal_drv) 2 4 8 100
      \<lparr>mal_size = 16, rm_mal = ex_mem, rm_mutex = True, rm_offset = 10, rm_held = False\<rparr> of_nat = Some (RETURN (8, s1, m1)) \<and>
    mem_mal_content (rm_mal s1) m1 = patch 14 (bytes of_nat 100 8) (mem_mal_content ex_mem of_nat) \<and> \<not> rm_held s1 \<and>
    vk_mal_read (vk_reentrant_mal_drv 1 vk_mem_mal_drv) 2 4 8 200 s1 m1 = Some (RETURN (8, s2, m2)) \<and>
    bytes m2 200 8 = bytes of_nat 100 8"
  using mal_window_write [of 1 "\<lparr>mal_size = 16, rm_mal = ex_mem, rm_mutex = True, rm_offset = 10, rm_held = False\<rparr>" 2 8 4 100 200 of_nat]
  by (fastforce simp: ex_mem_def mem_mal_owned_def)

section \<open>Deviations\<close>

text \<open>READ(16) of eight blocks from block 1 on is taken for 256 blocks: the length is read from the byte 7 instead of 10.\<close>

lemma scsi_rw16_length:
  "vk_scsi_get_rw_param [0x88, 0, 0, 0, 0, 0, 0, 0, 0, 1, 0, 0, 0, 8, 0, 0] = Some (1, 256)"
  by (simp add: vk_scsi_get_rw_param_def group_code_def cmd_code_def be_def)

text \<open>READ(6) of 256 blocks (a length of 0) from the block \<open>0x10000\<close> on is taken for no block from 0 on.\<close>

lemma scsi_rw6_length: "vk_scsi_get_rw_param ([0x08, 1, 0, 0, 0, 0] @ replicate 10 0) = Some (0, 0)"
  by (simp add: vk_scsi_get_rw_param_def group_code_def cmd_code_def be_def)

text \<open>A host that reads the block behind the last one gets no error: an assertion fails.\<close>

lemma scsi_read_beyond_end:
  "vk_scsi_execute (vk_mal_virtual_scsi_drv vk_mem_mal_drv) 3 (rw_cdb False True 8 1) (Some (100, 4)) ex_disk m = None"
proof -
  have "vk_scsi_get_rw_param (rw_cdb False True 8 1) = Some (8, 1)" by (rule rw_cdb_param) auto
  then show ?thesis
    by (simp add: scsi_read_calls ex_disk_def ex_mem_def vk_mal_read_def vk_mem_mal_drv_def call_peda_def p_vk_mem_mal_read_def await_def)
qed

text \<open>A read that runs out of frames inside of the handlers never returns.\<close>

lemma scsi_read_no_frame:
  "vk_scsi_execute (vk_mal_virtual_scsi_drv vk_mem_mal_drv) 2 (rw_cdb False True 7 1) (Some (100, 4)) ex_disk m = Some WAITS"
proof -
  have "vk_scsi_get_rw_param (rw_cdb False True 7 1) = Some (7, 1)" by (rule rw_cdb_param) auto
  then show ?thesis
    by (simp add: rw_execute ex_disk_def call_peda_def p_vk_virtual_scsi_rw_def vk_mal_virtual_scsi_drv_def p_vk_mal_scsi_read_def
        vk_mal_read_def vk_mem_mal_drv_def await_def)
qed

text \<open>A read of a part that gets no frame for the device below returns an error and keeps the mutex.\<close>

lemma mal_window_no_frame_keeps_mutex:
  assumes "rm_mutex s" "0 \<le> enter" "drv_read drv \<noteq> None"
  shows "vk_mal_read (vk_reentrant_mal_drv enter drv) 1 a n b s m = Some (RETURN (- 6, s\<lparr>rm_held := True\<rparr>, m))"
  using assms by (auto simp: vk_mal_read_def vk_reentrant_mal_drv_def call_peda_def p_vk_reentrant_mal_read_def reentrant_io_def await_def)

text \<open>A part does not keep to its size: one past its end, the bytes of the next part are changed.\<close>

lemma mal_window_not_checked:
  "vk_mal_write (vk_reentrant_mal_drv 0 vk_mem_mal_drv) 2 16 1 100
     \<lparr>mal_size = 16, rm_mal = ex_mem, rm_mutex = False, rm_offset = 0, rm_held = False\<rparr> m =
   Some (RETURN (1, \<lparr>mal_size = 16, rm_mal = ex_mem, rm_mutex = False, rm_offset = 0, rm_held = False\<rparr>, mem_copy 1016 100 1 m))"
  by (simp add: vk_mal_write_def vk_reentrant_mal_drv_def call_peda_def p_vk_reentrant_mal_write_def reentrant_io_def await_def
      ex_mem_def vk_mem_mal_drv_def p_vk_mem_mal_write_def)

text \<open>A REQUEST SENSE with an allocation length above 36, which a host may send, fails an assertion.\<close>

lemma scsi_request_sense_long:
  "vk_scsi_execute (vk_mal_virtual_scsi_drv vk_mem_mal_drv) 3 (request_sense_cdb 96) (Some (500, 36)) ex_disk m = None"
  by (simp add: vk_scsi_execute_def call_peda_def p_vk_virtual_scsi_execute_def request_sense_cdb_def group_code_def cmd_code_def
      scsi_group6_def scsi_request_sense_def)

end
