(* ===== verification/VSF_Cached_Mal.thy ===== *)
theory VSF_Cached_Mal
  imports VSF_Mal
begin

unbundle bit_operations_syntax

text \<open>
  Two more drivers of the memory abstraction layer: a part of another device with a check of its size, \<open>driver/mim_mal\<close>, and a cache for one
  block of another device, \<open>driver/cached_mal\<close>, for devices whose blocks have to be erased before they are written.
\<close>

section \<open>A device in a device\<close>

record 's vk_mim_mal_t = vk_mal_t +
  mim_host_mal :: 's
  mim_offset :: nat

definition p_vk_mim_mal_blksz :: "'s vk_mal_drv_t \<Rightarrow> nat \<Rightarrow> nat \<Rightarrow> vsf_mal_op_t \<Rightarrow> 's vk_mim_mal_t \<Rightarrow> nat option" where
  "p_vk_mim_mal_blksz drv addr sz oper s = vk_mal_blksz drv addr sz oper (mim_host_mal s)"

definition p_vk_mim_mal_buffer :: "'s vk_mal_drv_t \<Rightarrow> nat \<Rightarrow> nat \<Rightarrow> vsf_mal_op_t \<Rightarrow> 's vk_mim_mal_t \<Rightarrow> bool \<times> nat \<times> nat" where
  "p_vk_mim_mal_buffer drv addr sz oper s = vk_mal_prepare_buffer drv ((addr + mim_offset s) mod 2 ^ 64) sz oper (mim_host_mal s)"

definition p_vk_mim_mal_capability :: "'s vk_mal_drv_t \<Rightarrow> 's vk_mim_mal_t \<Rightarrow> vsf_mal_capability_t" where
  "p_vk_mim_mal_capability drv s = vk_mal_capability drv (mim_host_mal s)"

definition p_vk_mim_mal_init :: "nat \<Rightarrow> 's vk_mim_mal_t \<Rightarrow> memory \<Rightarrow> 's vk_mim_mal_t mal_result" where
  "p_vk_mim_mal_init frames s m = Some (RETURN (0, s, m))"

definition p_vk_mim_mal_fini :: "nat \<Rightarrow> 's vk_mim_mal_t \<Rightarrow> memory \<Rightarrow> 's vk_mim_mal_t mal_result" where
  "p_vk_mim_mal_fini frames s m = Some (RETURN (0, s, m))"

text \<open>The return of the device below is passed on.\<close>

definition mim_io :: "'s mal_result \<Rightarrow> 's vk_mim_mal_t \<Rightarrow> 's vk_mim_mal_t mal_result" where
  "mim_io io s = await io (Some WAITS) (\<lambda>(r, d, m). Some (RETURN (r, s\<lparr>mim_host_mal := d\<rparr>, m)))"

definition p_vk_mim_mal_read ::
  "'s vk_mal_drv_t \<Rightarrow> nat \<Rightarrow> nat \<Rightarrow> nat \<Rightarrow> nat \<Rightarrow> 's vk_mim_mal_t \<Rightarrow> memory \<Rightarrow> 's vk_mim_mal_t mal_result" where
  "p_vk_mim_mal_read drv frames addr sz buff s m =
     (if sz = 0 \<or> mal_size s < (addr + sz) mod 2 ^ 64 then None
      else mim_io (vk_mal_read drv frames ((addr + mim_offset s) mod 2 ^ 64) sz buff (mim_host_mal s) m) s)"

definition p_vk_mim_mal_write ::
  "'s vk_mal_drv_t \<Rightarrow> nat \<Rightarrow> nat \<Rightarrow> nat \<Rightarrow> nat \<Rightarrow> 's vk_mim_mal_t \<Rightarrow> memory \<Rightarrow> 's vk_mim_mal_t mal_result" where
  "p_vk_mim_mal_write drv frames addr sz buff s m =
     (if sz = 0 \<or> mal_size s < (addr + sz) mod 2 ^ 64 then None
      else mim_io (vk_mal_write drv frames ((addr + mim_offset s) mod 2 ^ 64) sz buff (mim_host_mal s) m) s)"

definition p_vk_mim_mal_erase ::
  "'s vk_mal_drv_t \<Rightarrow> nat \<Rightarrow> nat \<Rightarrow> nat \<Rightarrow> 's vk_mim_mal_t \<Rightarrow> memory \<Rightarrow> 's vk_mim_mal_t mal_result" where
  "p_vk_mim_mal_erase drv frames addr sz s m =
     mim_io (vk_mal_erase drv frames ((addr + mim_offset s) mod 2 ^ 64) sz (mim_host_mal s) m) s"

definition vk_mim_mal_drv :: "'s vk_mal_drv_t \<Rightarrow> 's vk_mim_mal_t vk_mal_drv_t" where
  "vk_mim_mal_drv drv = \<lparr>drv_blksz = Some (p_vk_mim_mal_blksz drv), drv_buffer = Some (p_vk_mim_mal_buffer drv),
     drv_capability = Some (p_vk_mim_mal_capability drv), drv_init = Some p_vk_mim_mal_init, drv_fini = Some p_vk_mim_mal_fini,
     drv_erase = Some (p_vk_mim_mal_erase drv), drv_read = Some (p_vk_mim_mal_read drv), drv_write = Some (p_vk_mim_mal_write drv)\<rparr>"

section \<open>The cache\<close>

text \<open>\<open>cm_blocks\<close> has the blocks of the heap that the device got and has not given back.\<close>

record 's vk_cached_mal_t = vk_mal_t +
  cm_host_mal :: 's
  cache :: nat
  cache_size :: nat
  cache_pos :: nat
  cache_addr :: nat
  cache_valid :: bool
  cm_blocks :: "nat set"

definition p_vk_cached_mal_blksz :: "'s vk_mal_drv_t \<Rightarrow> nat \<Rightarrow> nat \<Rightarrow> vsf_mal_op_t \<Rightarrow> 's vk_cached_mal_t \<Rightarrow> nat option" where
  "p_vk_cached_mal_blksz drv addr sz oper s = vk_mal_blksz drv addr sz oper (cm_host_mal s)"

definition p_vk_cached_mal_buffer :: "'s vk_mal_drv_t \<Rightarrow> nat \<Rightarrow> nat \<Rightarrow> vsf_mal_op_t \<Rightarrow> 's vk_cached_mal_t \<Rightarrow> bool \<times> nat \<times> nat" where
  "p_vk_cached_mal_buffer drv addr sz oper s = vk_mal_prepare_buffer drv addr sz oper (cm_host_mal s)"

text \<open>\<open>malloc\<close> is the answer of the heap to a request: an address or 0.\<close>

definition p_vk_cached_mal_init ::
  "(nat \<Rightarrow> nat) \<Rightarrow> 's vk_mal_drv_t \<Rightarrow> nat \<Rightarrow> 's vk_cached_mal_t \<Rightarrow> memory \<Rightarrow> 's vk_cached_mal_t mal_result" where
  "p_vk_cached_mal_init malloc drv frames s m = do {
     bs \<leftarrow> vk_mal_blksz drv 0 0 VSF_MAL_OP_ERASE (cm_host_mal s);
     let s = s\<lparr>cache := 0, cache_size := bs, cache_valid := False\<rparr>;
     (if bs \<noteq> 0
      then if malloc bs = 0 then Some (RETURN (- 6, s, m))
           else Some (RETURN (0, s\<lparr>cache := malloc bs, cm_blocks := insert (malloc bs) (cm_blocks s)\<rparr>, m))
      else Some (RETURN (0, s, m)))}"

text \<open>An operation of the device below; a call without a frame is not noticed.\<close>

definition host_io ::
  "('s \<Rightarrow> memory \<Rightarrow> 's mal_result) \<Rightarrow> 's vk_cached_mal_t \<Rightarrow> memory
     \<Rightarrow> (int \<Rightarrow> 's vk_cached_mal_t \<Rightarrow> memory \<Rightarrow> 's vk_cached_mal_t mal_result) \<Rightarrow> 's vk_cached_mal_t mal_result" where
  "host_io io s m k = await (io (cm_host_mal s) m) (Some WAITS) (\<lambda>(r, d, m). k r (s\<lparr>cm_host_mal := d\<rparr>) m)"

definition p_vk_cached_mal_fini :: "'s vk_mal_drv_t \<Rightarrow> nat \<Rightarrow> 's vk_cached_mal_t \<Rightarrow> memory \<Rightarrow> 's vk_cached_mal_t mal_result" where
  "p_vk_cached_mal_fini drv frames s m =
     (if cache_valid s
      then host_io (vk_mal_erase drv frames (cache_addr s) (cache_size s)) s m
             (\<lambda>_ s m. host_io (vk_mal_write drv frames (cache_addr s) (cache_size s) (cache s)) s m
               (\<lambda>r s m. Some (RETURN (r, s\<lparr>cache := 0, cm_blocks := cm_blocks s - {cache s}\<rparr>, m))))
      else Some (RETURN (0, s, m)))"

text \<open>
  The read: what is before the cache is read from the device, the part in the cache is copied, and the rest is read from the device again.
  The return values of the device are not looked at.
\<close>

definition read_rest ::
  "'s vk_mal_drv_t \<Rightarrow> nat \<Rightarrow> nat \<Rightarrow> nat \<Rightarrow> nat \<Rightarrow> nat \<Rightarrow> 's vk_cached_mal_t \<Rightarrow> memory \<Rightarrow> 's vk_cached_mal_t mal_result" where
  "read_rest drv frames sz addr n buff s m =
     host_io (vk_mal_read drv frames addr n buff) s m (\<lambda>_ s m. Some (RETURN (signed_take_bit 31 (int sz), s, m)))"

definition read_from_cache ::
  "'s vk_mal_drv_t \<Rightarrow> nat \<Rightarrow> nat \<Rightarrow> nat \<Rightarrow> nat \<Rightarrow> nat \<Rightarrow> 's vk_cached_mal_t \<Rightarrow> memory \<Rightarrow> 's vk_cached_mal_t mal_result" where
  "read_from_cache drv frames sz addr remain buff s m =
     (if (cache_addr s + cache_size s) mod 2 ^ 64 \<le> addr then read_rest drv frames sz addr remain buff s m
      else
        let offset = (addr - cache_addr s) mod 2 ^ 32;
            n = min remain (cache_size s - offset);
            m = mem_copy buff (cache s + offset) n m
        in if n < remain then read_rest drv frames sz (addr + n) (remain - n) (buff + n) s m
           else Some (RETURN (signed_take_bit 31 (int sz), s, m)))"

definition p_vk_cached_mal_read ::
  "'s vk_mal_drv_t \<Rightarrow> nat \<Rightarrow> nat \<Rightarrow> nat \<Rightarrow> nat \<Rightarrow> 's vk_cached_mal_t \<Rightarrow> memory \<Rightarrow> 's vk_cached_mal_t mal_result" where
  "p_vk_cached_mal_read drv frames addr sz buff s m =
     (if \<not> cache_valid s then read_rest drv frames sz addr sz buff s m
      else if sz = 0 then Some (RETURN (0, s, m))
      else if addr < cache_addr s
      then
        let n = min sz (cache_addr s - addr)
        in host_io (vk_mal_read drv frames addr n buff) s m
             (\<lambda>_ s m. if sz - n = 0 then Some (RETURN (signed_take_bit 31 (int sz), s, m))
                       else read_from_cache drv frames sz (addr + n) (sz - n) (buff + n) s m)
      else read_from_cache drv frames sz addr sz buff s m)"

text \<open>
  The write, from a return of the device on: \<open>addr\<close>, \<open>remain\<close> and \<open>buff\<close> say what is left, \<open>erasing\<close> that the block has been erased so that
  the cache can be written to it. The mask of the alignment has 32 bits.
\<close>

partial_function (option) cached_write_return ::
  "'s vk_mal_drv_t \<Rightarrow> nat \<Rightarrow> nat \<Rightarrow> nat \<Rightarrow> nat \<Rightarrow> nat \<Rightarrow> bool \<Rightarrow> 's vk_cached_mal_t \<Rightarrow> memory \<Rightarrow> 's vk_cached_mal_t mal_result" where
  "cached_write_return drv frames sz addr remain buff erasing s m =
     (if erasing
      then
        (let s = s\<lparr>cache_valid := False\<rparr>
         in case vk_mal_write drv frames (cache_addr s) (cache_size s) (cache s) (cm_host_mal s) m of
              None \<Rightarrow> None
            | Some NO_FRAME \<Rightarrow> Some WAITS
            | Some WAITS \<Rightarrow> Some WAITS
            | Some (RETURN (r, d, m)) \<Rightarrow> cached_write_return drv frames sz addr remain buff False (s\<lparr>cm_host_mal := d\<rparr>) m)
      else if cache s = 0 \<or> remain = 0 then Some (RETURN (signed_take_bit 31 (int sz), s, m))
      else if cache_valid s
      then
        let here = (addr = (cache_addr s + cache_pos s) mod 2 ^ 64);
            n = (if here then min remain (cache_size s - cache_pos s) else 0);
            m = mem_copy (cache s + cache_pos s) buff n m;
            s = s\<lparr>cache_pos := cache_pos s + n\<rparr>
        in if here \<and> cache_pos s \<noteq> cache_size s then Some (RETURN (signed_take_bit 31 (int sz), s, m))
           else case vk_mal_erase drv frames (cache_addr s) (cache_size s) (cm_host_mal s) m of
                  None \<Rightarrow> None
                | Some NO_FRAME \<Rightarrow> Some WAITS
                | Some WAITS \<Rightarrow> Some WAITS
                | Some (RETURN (r, d, m)) \<Rightarrow>
                    cached_write_return drv frames sz (addr + n) (remain - n) (buff + n) True (s\<lparr>cm_host_mal := d\<rparr>) m
      else if addr mod cache_size s = 0 \<and> cache_size s \<le> remain
      then
        let m = mem_copy (cache s) buff (cache_size s) m;
            s = s\<lparr>cache_addr := addr\<rparr>
        in case vk_mal_erase drv frames (cache_addr s) (cache_size s) (cm_host_mal s) m of
             None \<Rightarrow> None
           | Some NO_FRAME \<Rightarrow> Some WAITS
           | Some WAITS \<Rightarrow> Some WAITS
           | Some (RETURN (r, d, m)) \<Rightarrow>
               cached_write_return drv frames sz (addr + cache_size s) (remain - cache_size s) (buff + cache_size s) True
                 (s\<lparr>cm_host_mal := d\<rparr>) m
      else
        let aligned_addr = addr AND (2 ^ 32 - cache_size s);
            s = s\<lparr>cache_valid := True, cache_pos := (addr - aligned_addr) mod 2 ^ 32, cache_addr := aligned_addr\<rparr>
        in case vk_mal_read drv frames aligned_addr (cache_size s) (cache s) (cm_host_mal s) m of
             None \<Rightarrow> None
           | Some NO_FRAME \<Rightarrow> Some WAITS
           | Some WAITS \<Rightarrow> Some WAITS
           | Some (RETURN (r, d, m)) \<Rightarrow> cached_write_return drv frames sz addr remain buff False (s\<lparr>cm_host_mal := d\<rparr>) m)"

definition p_vk_cached_mal_write ::
  "'s vk_mal_drv_t \<Rightarrow> nat \<Rightarrow> nat \<Rightarrow> nat \<Rightarrow> nat \<Rightarrow> 's vk_cached_mal_t \<Rightarrow> memory \<Rightarrow> 's vk_cached_mal_t mal_result" where
  "p_vk_cached_mal_write drv frames addr sz buff s m =
     (if cache s = 0
      then host_io (vk_mal_write drv frames addr sz buff) s m (\<lambda>_ s m. Some (RETURN (signed_take_bit 31 (int sz), s, m)))
      else cached_write_return drv frames sz addr sz buff False s m)"

definition p_vk_cached_mal_erase ::
  "'s vk_mal_drv_t \<Rightarrow> nat \<Rightarrow> nat \<Rightarrow> nat \<Rightarrow> 's vk_cached_mal_t \<Rightarrow> memory \<Rightarrow> 's vk_cached_mal_t mal_result" where
  "p_vk_cached_mal_erase drv frames addr sz s m =
     (let s = (if cache_valid s \<and> addr = cache_addr s \<and> cache s \<noteq> 0 then s\<lparr>cache_valid := False\<rparr> else s)
      in host_io (vk_mal_erase drv frames addr sz) s m (\<lambda>r s m. Some (RETURN (r, s, m))))"

definition vk_cached_mal_drv :: "(nat \<Rightarrow> nat) \<Rightarrow> 's vk_mal_drv_t \<Rightarrow> 's vk_cached_mal_t vk_mal_drv_t" where
  "vk_cached_mal_drv malloc drv = \<lparr>drv_blksz = Some (p_vk_cached_mal_blksz drv), drv_buffer = Some (p_vk_cached_mal_buffer drv),
     drv_capability = None, drv_init = Some (p_vk_cached_mal_init malloc drv), drv_fini = Some (p_vk_cached_mal_fini drv),
     drv_erase = Some (p_vk_cached_mal_erase drv), drv_read = Some (p_vk_cached_mal_read drv), drv_write = Some (p_vk_cached_mal_write drv)\<rparr>"

end
