(* ===== verification/VSF_Cached_Mal_Correct.thy ===== *)
theory VSF_Cached_Mal_Correct
  imports VSF_Cached_Mal VSF_Mal_Correct
begin

unbundle bit_operations_syntax

text \<open>
  A cache over a device that can be erased is a device with the same content: the block in the cache takes the place of the block of the
  device, reads look into both, and every write ends.
\<close>

section \<open>Patches and masks\<close>

lemma patch_eqI:
  assumes "length D = length E" "a + length xs \<le> length D"
    and "\<And>i. i < length D \<Longrightarrow> \<not> (a \<le> i \<and> i < a + length xs) \<Longrightarrow> D ! i = E ! i"
    and "\<And>i. i < length xs \<Longrightarrow> xs ! i = E ! (a + i)"
  shows "patch a xs D = E"
proof (rule nth_equalityI)
  fix i assume "i < length (patch a xs D)"
  then have "i < length D" using assms(2) by simp
  then show "patch a xs D ! i = E ! i" using assms(2-4) assms(4) [of "i - a"] by (auto simp: nth_patch)
qed (use assms in simp)

lemma patch_over:
  assumes "length xs = length ys" "a + length xs \<le> length D"
  shows "patch a xs (patch a ys D) = patch a xs D"
  by (rule patch_eqI) (use assms in \<open>auto simp: nth_patch\<close>)

lemma patch_append:
  assumes "a + length xs + length ys \<le> length D"
  shows "patch (a + length xs) ys (patch a xs D) = patch a (xs @ ys) D"
  by (rule patch_eqI) (use assms in \<open>auto simp: nth_patch nth_append\<close>)

lemma patch_inside:
  assumes "length B + a \<le> length D" "p + length xs \<le> length B"
  shows "patch a (patch p xs B) D = patch (a + p) xs (patch a B D)"
  by (rule patch_eqI) (use assms in \<open>auto simp: nth_patch\<close>)

lemma patch_same: "a + n \<le> length D \<Longrightarrow> patch a (take n (drop a D)) D = D"
  by (rule patch_eqI) auto

lemma patch_nil [simp]: "patch a [] D = D"
  by (simp add: blk_write_def)

lemma bytes_append: "bytes m b (n + k) = bytes m b n @ bytes m (b + n) k"
  by (rule nth_equalityI) (auto simp: nth_append)

lemma bytes_0 [simp]: "bytes m b 0 = []"
  by (simp add: bytes_def)

lemma bytes_same: "(\<And>j. j \<in> {b..<b + n} \<Longrightarrow> m' j = m j) \<Longrightarrow> bytes m' b n = bytes m b n"
  by (rule bytes_eqI) simp

lemma bytes_mem_copy_part:
  assumes "p + n \<le> cs"
  shows "bytes (mem_copy (c + p) b n m) c cs = patch p (bytes m b n) (bytes m c cs)"
  by (rule nth_equalityI) (use assms in \<open>auto simp: nth_patch mem_copy_def\<close>)

lemma high_mask: "k < 32 \<Longrightarrow> (2 ^ 32 - 2 ^ k :: nat) = push_bit k (mask (32 - k))"
proof -
  assume "k < 32"
  then have "(2 ^ 32 :: nat) = 2 ^ k * 2 ^ (32 - k)" by (simp flip: power_add)
  then show ?thesis by (simp add: push_bit_eq_mult mask_eq_exp_minus_1 diff_mult_distrib2 mult.commute)
qed

lemma aligned_down:
  fixes a :: nat
  assumes "a < 2 ^ 32" "k < 32"
  shows "a AND (2 ^ 32 - 2 ^ k) = a - a mod 2 ^ k"
proof -
  note mask = high_mask [OF assms(2)]
  have take: "take_bit 32 a = a" using assms(1) by (rule take_bit_nat_eq_self)
  have "a AND push_bit k (mask (32 - k)) = push_bit k (drop_bit k a)"
  proof (rule bit_eqI)
    fix i
    have "bit a i \<Longrightarrow> i < 32" using take by (metis bit_take_bit_iff)
    then show "bit (a AND push_bit k (mask (32 - k))) i \<longleftrightarrow> bit (push_bit k (drop_bit k a)) i"
      by (auto simp: bit_simps)
  qed
  then show ?thesis unfolding mask by (simp add: push_bit_eq_mult drop_bit_eq_div minus_mod_eq_div_mult)
qed

section \<open>Calls of the drivers\<close>

lemma cached_calls:
  "vk_mal_read (vk_cached_mal_drv malloc drv) frames a n b s m = call_peda frames (\<lambda>fr. p_vk_cached_mal_read drv fr a n b s m)"
  "vk_mal_write (vk_cached_mal_drv malloc drv) frames a n b s m = call_peda frames (\<lambda>fr. p_vk_cached_mal_write drv fr a n b s m)"
  by (simp_all add: vk_mal_read_def vk_mal_write_def vk_cached_mal_drv_def)

lemma mim_calls:
  "vk_mal_read (vk_mim_mal_drv drv) frames a n b s m = call_peda frames (\<lambda>fr. p_vk_mim_mal_read drv fr a n b s m)"
  "vk_mal_write (vk_mim_mal_drv drv) frames a n b s m = call_peda frames (\<lambda>fr. p_vk_mim_mal_write drv fr a n b s m)"
  "vk_mal_erase (vk_mim_mal_drv drv) frames a n s m = call_peda frames (\<lambda>fr. p_vk_mim_mal_erase drv fr a n s m)"
  by (simp_all add: vk_mal_read_def vk_mal_write_def vk_mal_erase_def vk_mim_mal_drv_def)

section \<open>The contract with erasing\<close>

locale erasable_mal = mal_device drv need dev_ok dev_size dev_owned dev_content
  for drv :: "'s vk_mal_drv_t" and need dev_ok dev_size dev_owned dev_content +
  assumes erase_law: "\<lbrakk>dev_ok s; need \<le> frames; 0 < n; n < 2 ^ 31; a + n \<le> dev_size s\<rbrakk> \<Longrightarrow>
      \<exists>s' m' xs. vk_mal_erase drv frames a n s m = Some (RETURN (0, s', m')) \<and> dev_ok s' \<and> dev_size s' = dev_size s \<and>
        dev_owned s' = dev_owned s \<and> length xs = n \<and> dev_content s' m' = patch a xs (dev_content s m) \<and>
        (\<forall>j. j \<notin> dev_owned s \<longrightarrow> m' j = m j)"
begin

text \<open>The part of the condition on a device with a cache that holds all the time, and the blocks that may be in the cache.\<close>

definition cm_base :: "'s vk_cached_mal_t \<Rightarrow> bool" where
  "cm_base s \<longleftrightarrow> dev_ok (cm_host_mal s) \<and> 0 < cache s \<and> (\<exists>k<31. cache_size s = 2 ^ k) \<and> cache_size s dvd dev_size (cm_host_mal s) \<and>
     dev_size (cm_host_mal s) \<le> 2 ^ 32 \<and> {cache s..<cache s + cache_size s} \<inter> dev_owned (cm_host_mal s) = {}"

definition cm_block :: "'s vk_cached_mal_t \<Rightarrow> bool" where
  "cm_block s \<longleftrightarrow> cache_size s dvd cache_addr s \<and> cache_addr s + cache_size s \<le> dev_size (cm_host_mal s)"

definition cm_ok :: "'s vk_cached_mal_t \<Rightarrow> bool" where
  "cm_ok s \<longleftrightarrow> cm_base s \<and> (cache_valid s \<longrightarrow> cm_block s \<and> cache_pos s < cache_size s)"

definition cm_size :: "'s vk_cached_mal_t \<Rightarrow> nat" where
  "cm_size s = dev_size (cm_host_mal s)"

definition cm_owned :: "'s vk_cached_mal_t \<Rightarrow> nat set" where
  "cm_owned s = dev_owned (cm_host_mal s) \<union> {cache s..<cache s + cache_size s}"

definition cm_bytes :: "'s vk_cached_mal_t \<Rightarrow> memory \<Rightarrow> u8 list" where
  "cm_bytes s m = bytes m (cache s) (cache_size s)"

definition cm_content :: "'s vk_cached_mal_t \<Rightarrow> memory \<Rightarrow> u8 list" where
  "cm_content s m =
     (if cache_valid s then patch (cache_addr s) (cm_bytes s m) (dev_content (cm_host_mal s) m) else dev_content (cm_host_mal s) m)"

text \<open>What no operation changes.\<close>

definition cm_same :: "'s vk_cached_mal_t \<Rightarrow> 's vk_cached_mal_t \<Rightarrow> bool" where
  "cm_same s s' \<longleftrightarrow> cache s' = cache s \<and> cache_size s' = cache_size s \<and> cm_size s' = cm_size s \<and>
     dev_owned (cm_host_mal s') = dev_owned (cm_host_mal s)"

lemma cm_same_refl [simp]: "cm_same s s"
  by (simp add: cm_same_def)

lemma cm_same_trans [trans]: "cm_same s t \<Longrightarrow> cm_same t u \<Longrightarrow> cm_same s u"
  by (simp add: cm_same_def)

lemma cm_same_owned: "cm_same s s' \<Longrightarrow> cm_owned s' = cm_owned s"
  by (simp add: cm_same_def cm_owned_def)

lemma cm_baseD:
  assumes "cm_base s"
  shows "dev_ok (cm_host_mal s)" "0 < cache s" "0 < cache_size s" "cache_size s < 2 ^ 31" "cm_size s \<le> 2 ^ 32"
    "cache_size s dvd cm_size s" "{cache s..<cache s + cache_size s} \<inter> dev_owned (cm_host_mal s) = {}"
    "length (dev_content (cm_host_mal s) m) = cm_size s"
proof -
  obtain k where k: "k < 31" "cache_size s = 2 ^ k" using assms by (auto simp: cm_base_def)
  then show "0 < cache_size s" "cache_size s < 2 ^ 31" using power_strict_increasing [of k 31 "2::nat"] by auto
qed (use assms content_length in \<open>auto simp: cm_base_def cm_size_def\<close>)

lemma cm_base_same: "cm_base s \<Longrightarrow> cm_same s s' \<Longrightarrow> dev_ok (cm_host_mal s') \<Longrightarrow> cm_base s'"
  by (simp add: cm_base_def cm_same_def cm_size_def)

lemma cm_bytes_kept:
  assumes "cm_base s" "cm_same s s'" "\<And>j. j \<notin> dev_owned (cm_host_mal s) \<Longrightarrow> m' j = m j"
  shows "cm_bytes s' m' = cm_bytes s m"
  using assms cm_baseD(7) [OF assms(1)] by (auto simp: cm_bytes_def cm_same_def disjoint_iff intro!: bytes_same)

lemma cm_length [simp]: "length (cm_bytes s m) = cache_size s"
  by (simp add: cm_bytes_def)

text \<open>Erasing the block of the cache and writing the cache to it.\<close>

lemma sync:
  assumes "cm_base s" "cm_block s" "need \<le> frames"
  shows "\<exists>d m1 s' m'. vk_mal_erase drv frames (cache_addr s) (cache_size s) (cm_host_mal s) m = Some (RETURN (0, d, m1)) \<and>
    cached_write_return drv frames sz addr remain buff True (s\<lparr>cm_host_mal := d\<rparr>) m1 =
      cached_write_return drv frames sz addr remain buff False s' m' \<and>
    \<not> cache_valid s' \<and> cm_same s s' \<and> cm_ok s' \<and>
    cm_content s' m' = patch (cache_addr s) (cm_bytes s m) (dev_content (cm_host_mal s) m) \<and>
    (\<forall>j. j \<notin> dev_owned (cm_host_mal s) \<longrightarrow> m' j = m j)"
proof -
  note D = cm_baseD [OF assms(1)]
  have in_dev: "cache_addr s + cache_size s \<le> dev_size (cm_host_mal s)" using assms(2) by (simp add: cm_block_def)
  obtain d m1 xs where e: "vk_mal_erase drv frames (cache_addr s) (cache_size s) (cm_host_mal s) m = Some (RETURN (0, d, m1))"
    "dev_ok d" "dev_size d = dev_size (cm_host_mal s)" "dev_owned d = dev_owned (cm_host_mal s)" "length xs = cache_size s"
    "dev_content d m1 = patch (cache_addr s) xs (dev_content (cm_host_mal s) m)" "\<forall>j. j \<notin> dev_owned (cm_host_mal s) \<longrightarrow> m1 j = m j"
    using erase_law [OF D(1) assms(3) D(3,4) in_dev, of m] by blast
  have dis: "{cache s..<cache s + cache_size s} \<inter> dev_owned d = {}" using D(7) e(4) by simp
  obtain d' m' where w: "vk_mal_write drv frames (cache_addr s) (cache_size s) (cache s) d m1 = Some (RETURN (int (cache_size s), d', m'))"
    "dev_ok d'" "dev_size d' = dev_size d" "dev_owned d' = dev_owned d"
    "dev_content d' m' = patch (cache_addr s) (bytes m1 (cache s) (cache_size s)) (dev_content d m1)" "\<forall>j. j \<notin> dev_owned d \<longrightarrow> m' j = m1 j"
    using write_law [OF e(2) assms(3) D(3,4) _ dis, of "cache_addr s" m1] in_dev e(3) by auto
  let ?s = "s\<lparr>cache_valid := False, cm_host_mal := d'\<rparr>"
  have same: "cm_same s ?s" "cm_same s (s\<lparr>cm_host_mal := d\<rparr>)" using e w by (simp_all add: cm_same_def cm_size_def)
  have "bytes m1 (cache s) (cache_size s) = cm_bytes s m"
    using cm_bytes_kept [OF assms(1) same(2), of m1 m] e(7) by (simp add: cm_bytes_def)
  then have "dev_content d' m' = patch (cache_addr s) (cm_bytes s m) (dev_content (cm_host_mal s) m)"
    using w(5) e(5,6) in_dev D(8) by (simp add: patch_over cm_size_def)
  moreover have "cached_write_return drv frames sz addr remain buff True (s\<lparr>cm_host_mal := d\<rparr>) m1 =
      cached_write_return drv frames sz addr remain buff False ?s m'"
    using w(1) by (subst cached_write_return.simps) (simp add: Let_def)
  ultimately show ?thesis
    using e(1,4,7) w(2,4,6) same(1) cm_base_same [OF assms(1) same(1)]
    by (intro exI [of _ d] exI [of _ m1] exI [of _ ?s] exI [of _ m']) (simp add: cm_ok_def cm_content_def)
qed

text \<open>The result of a write of the bytes of a buffer: it returns, with the bytes in the content and the rest of the memory kept.\<close>

definition cm_written :: "nat \<Rightarrow> nat \<Rightarrow> nat \<Rightarrow> nat \<Rightarrow> 's vk_cached_mal_t \<Rightarrow> memory \<Rightarrow> 's vk_cached_mal_t mal_result \<Rightarrow> bool" where
  "cm_written sz addr n buff s m r \<longleftrightarrow> (\<exists>s' m'. r = Some (RETURN (signed_take_bit 31 (int sz), s', m')) \<and> cm_same s s' \<and> cm_ok s' \<and>
     cm_content s' m' = patch addr (bytes m buff n) (cm_content s m) \<and> (\<forall>j. j \<notin> cm_owned s \<longrightarrow> m' j = m j))"

definition cm_can_write :: "nat \<Rightarrow> nat \<Rightarrow> nat \<Rightarrow> 's vk_cached_mal_t \<Rightarrow> bool" where
  "cm_can_write addr n buff s \<longleftrightarrow> cm_ok s \<and> addr + n \<le> cm_size s \<and> {buff..<buff + n} \<inter> cm_owned s = {}"

lemma cm_content_length: "cm_ok s \<Longrightarrow> length (cm_content s m) = cm_size s"
  using cm_baseD(8) [of s m] by (auto simp: cm_ok_def cm_content_def cm_block_def cm_size_def)

text \<open>A write in two parts: the first one leads to a state in which the second one is done.\<close>

lemma cm_written_step:
  assumes "cm_written sz (addr + k) (n - k) (buff + k) s1 m1 r" "k \<le> n" "cm_same s s1"
    and "cm_content s1 m1 = patch addr (bytes m buff k) (cm_content s m)" "\<forall>j. j \<notin> cm_owned s \<longrightarrow> m1 j = m j"
    and "cm_can_write addr n buff s"
  shows "cm_written sz addr n buff s m r"
proof -
  obtain s' m' where r: "r = Some (RETURN (signed_take_bit 31 (int sz), s', m'))" "cm_same s1 s'" "cm_ok s'"
    "cm_content s' m' = patch (addr + k) (bytes m1 (buff + k) (n - k)) (cm_content s1 m1)" "\<forall>j. j \<notin> cm_owned s1 \<longrightarrow> m' j = m1 j"
    using assms(1) by (auto simp: cm_written_def)
  have dis: "{buff..<buff + n} \<inter> cm_owned s = {}" and len: "addr + n \<le> length (cm_content s m)"
    using assms(6) by (auto simp: cm_can_write_def cm_content_length)
  have "bytes m1 (buff + k) (n - k) = bytes m (buff + k) (n - k)"
    using assms(2,5) dis by (intro bytes_same) (auto simp: disjoint_iff)
  then have "cm_content s' m' = patch addr (bytes m buff k @ bytes m (buff + k) (n - k)) (cm_content s m)"
    using patch_append [of addr "bytes m buff k" "bytes m (buff + k) (n - k)" "cm_content s m"] assms(2) len r(4) assms(4) by simp
  then have "cm_content s' m' = patch addr (bytes m buff n) (cm_content s m)"
    using bytes_append [of m buff k "n - k"] assms(2) by simp
  then show ?thesis
    using r assms(3,5) cm_same_owned [OF assms(3)] cm_same_trans [OF assms(3) r(2)] by (auto simp: cm_written_def)
qed

lemma cm_written_done: "cm_ok s \<Longrightarrow> cm_written sz addr 0 buff s m (Some (RETURN (signed_take_bit 31 (int sz), s, m)))"
  by (auto simp: cm_written_def)

text \<open>The bytes that go to the cache.\<close>

lemma write_at_cache_pos:
  assumes can: "cm_can_write addr n buff s" "cache_valid s" "addr = cache_addr s + cache_pos s" "0 < n" "need \<le> frames"
    and rest: "\<And>k s1 m1. 0 < k \<Longrightarrow> k \<le> n \<Longrightarrow> \<not> cache_valid s1 \<Longrightarrow> cm_can_write (addr + k) (n - k) (buff + k) s1 \<Longrightarrow>
      cm_written sz (addr + k) (n - k) (buff + k) s1 m1 (cached_write_return drv frames sz (addr + k) (n - k) (buff + k) False s1 m1)"
  shows "cm_written sz addr n buff s m (cached_write_return drv frames sz addr n buff False s m)"
proof -
  have ok: "cm_ok s" "cm_base s" "cm_block s" "cache_pos s < cache_size s" using can by (auto simp: cm_can_write_def cm_ok_def)
  note D = cm_baseD [OF ok(2)]
  define k where "k = min n (cache_size s - cache_pos s)"
  define m1 where "m1 = mem_copy (cache s + cache_pos s) buff k m"
  define s1 where "s1 = s\<lparr>cache_pos := cache_pos s + k\<rparr>"
  have k: "0 < k" "k \<le> n" "cache_pos s + k \<le> cache_size s" using ok(4) can(4) by (auto simp: k_def)
  have here: "(cache_addr s + cache_pos s) mod 2 ^ 64 = addr"
    using can(1,3,4) D(5) by (simp add: cm_can_write_def)
  have same: "cm_same s s1" by (simp add: s1_def cm_same_def cm_size_def)
  have kept: "j \<notin> cm_owned s \<Longrightarrow> m1 j = m j" for j
    using k(3) by (auto simp: m1_def cm_owned_def intro!: mem_copy_outside)
  have host: "dev_content (cm_host_mal s) m1 = dev_content (cm_host_mal s) m"
    using D(7) k(3) by (intro content_owned [OF D(1)]) (auto simp: m1_def disjoint_iff intro!: mem_copy_outside)
  have cached: "cm_bytes s1 m1 = patch (cache_pos s) (bytes m buff k) (cm_bytes s m)"
    using k(3) by (simp add: cm_bytes_def s1_def m1_def bytes_mem_copy_part)
  have content: "patch (cache_addr s) (cm_bytes s1 m1) (dev_content (cm_host_mal s) m1) = patch addr (bytes m buff k) (cm_content s m)"
    using patch_inside [of "cm_bytes s m" "cache_addr s" "dev_content (cm_host_mal s) m" "cache_pos s" "bytes m buff k"] k(3) ok(3) can D(8)
    by (simp add: cached host cm_content_def cm_block_def cm_size_def add.commute)
  show ?thesis
  proof (cases "cache_pos s + k = cache_size s")
    case False
    then have "k = n" using ok(4) by (auto simp: k_def min_def split: if_splits)
    have "cached_write_return drv frames sz addr n buff False s m = Some (RETURN (signed_take_bit 31 (int sz), s1, m1))"
      using can(2,4) D(2) False here by (subst cached_write_return.simps) (simp add: Let_def k_def [symmetric] m1_def s1_def)
    moreover have "cm_ok s1" using ok False k(3) by (simp add: s1_def cm_ok_def cm_base_def cm_block_def)
    ultimately show ?thesis using same content kept can(2) \<open>k = n\<close> by (auto simp: cm_written_def cm_content_def s1_def)
  next
    case True
    have b1: "cm_base s1" "cm_block s1" using ok by (simp_all add: s1_def cm_base_def cm_block_def)
    obtain d m2 s3 m3 where e: "vk_mal_erase drv frames (cache_addr s1) (cache_size s1) (cm_host_mal s1) m1 = Some (RETURN (0, d, m2))"
      "cached_write_return drv frames sz (addr + k) (n - k) (buff + k) True (s1\<lparr>cm_host_mal := d\<rparr>) m2 =
        cached_write_return drv frames sz (addr + k) (n - k) (buff + k) False s3 m3"
      "\<not> cache_valid s3" "cm_same s1 s3" "cm_ok s3"
      "cm_content s3 m3 = patch (cache_addr s1) (cm_bytes s1 m1) (dev_content (cm_host_mal s1) m1)"
      "\<forall>j. j \<notin> dev_owned (cm_host_mal s1) \<longrightarrow> m3 j = m1 j"
      using sync [OF b1 can(5), of m1 sz "addr + k" "n - k" "buff + k"] by blast
    have "cached_write_return drv frames sz addr n buff False s m =
        cached_write_return drv frames sz (addr + k) (n - k) (buff + k) False s3 m3"
      using can(2,4) D(2) True e(1,2) here
      by (subst cached_write_return.simps) (simp add: Let_def k_def [symmetric] m1_def [symmetric] s1_def)
    moreover have same3: "cm_same s s3" using same e(4) by (rule cm_same_trans)
    moreover have "cm_can_write (addr + k) (n - k) (buff + k) s3"
      using can(1) e(5) same3 k(2) cm_same_owned [OF same3] by (auto simp: cm_can_write_def cm_same_def disjoint_iff)
    moreover have "cm_content s3 m3 = patch addr (bytes m buff k) (cm_content s m)" using e(6) content by (simp add: s1_def)
    moreover have "\<forall>j. j \<notin> cm_owned s \<longrightarrow> m3 j = m j" using e(7) kept by (simp add: s1_def cm_owned_def)
    ultimately show ?thesis using cm_written_step [OF rest [OF k(1,2) e(3)] k(2)] can(1) by simp
  qed
qed

text \<open>A whole block goes through the cache.\<close>

lemma write_block:
  assumes can: "cm_can_write addr n buff s" "\<not> cache_valid s" "addr mod cache_size s = 0" "cache_size s \<le> n" "need \<le> frames"
    and rest: "\<And>k s1 m1. 0 < k \<Longrightarrow> k \<le> n \<Longrightarrow> \<not> cache_valid s1 \<Longrightarrow> cm_can_write (addr + k) (n - k) (buff + k) s1 \<Longrightarrow>
      cm_written sz (addr + k) (n - k) (buff + k) s1 m1 (cached_write_return drv frames sz (addr + k) (n - k) (buff + k) False s1 m1)"
  shows "cm_written sz addr n buff s m (cached_write_return drv frames sz addr n buff False s m)"
proof -
  have ok: "cm_ok s" "cm_base s" using can by (auto simp: cm_can_write_def cm_ok_def)
  note D = cm_baseD [OF ok(2)]
  let ?k = "cache_size s"
  define m1 where "m1 = mem_copy (cache s) buff ?k m"
  define s1 where "s1 = s\<lparr>cache_addr := addr\<rparr>"
  have b1: "cm_base s1" "cm_block s1" using ok can by (auto simp: s1_def cm_base_def cm_block_def cm_can_write_def cm_size_def)
  have host: "dev_content (cm_host_mal s) m1 = dev_content (cm_host_mal s) m"
    using D(7) by (intro content_owned [OF D(1)]) (auto simp: m1_def disjoint_iff intro!: mem_copy_outside)
  have cached: "cm_bytes s1 m1 = bytes m buff ?k" by (auto simp: cm_bytes_def s1_def m1_def mem_copy_inside intro!: bytes_eqI)
  obtain d m2 s3 m3 where e: "vk_mal_erase drv frames (cache_addr s1) (cache_size s1) (cm_host_mal s1) m1 = Some (RETURN (0, d, m2))"
    "cached_write_return drv frames sz (addr + ?k) (n - ?k) (buff + ?k) True (s1\<lparr>cm_host_mal := d\<rparr>) m2 =
      cached_write_return drv frames sz (addr + ?k) (n - ?k) (buff + ?k) False s3 m3"
    "\<not> cache_valid s3" "cm_same s1 s3" "cm_ok s3"
    "cm_content s3 m3 = patch (cache_addr s1) (cm_bytes s1 m1) (dev_content (cm_host_mal s1) m1)"
    "\<forall>j. j \<notin> dev_owned (cm_host_mal s1) \<longrightarrow> m3 j = m1 j"
    using sync [OF b1 can(5), of m1 sz "addr + ?k" "n - ?k" "buff + ?k"] by blast
  have "cached_write_return drv frames sz addr n buff False s m =
      cached_write_return drv frames sz (addr + ?k) (n - ?k) (buff + ?k) False s3 m3"
    using can D(2,3) e(1,2) by (subst cached_write_return.simps) (simp add: Let_def m1_def [symmetric] s1_def)
  moreover have same3: "cm_same s s3" using e(4) by (simp add: cm_same_def s1_def cm_size_def)
  moreover have "cm_can_write (addr + ?k) (n - ?k) (buff + ?k) s3"
    using can(1,4) e(5) same3 cm_same_owned [OF same3] by (auto simp: cm_can_write_def cm_same_def disjoint_iff)
  moreover have "cm_content s3 m3 = patch addr (bytes m buff ?k) (cm_content s m)"
    using e(6) cached host can(2) by (simp add: s1_def cm_content_def)
  moreover have "\<forall>j. j \<notin> cm_owned s \<longrightarrow> m3 j = m j" using e(7) by (auto simp: s1_def cm_owned_def m1_def intro!: mem_copy_outside)
  ultimately show ?thesis using cm_written_step [OF rest [OF D(3) can(4) e(3)] can(4)] can(1) by simp
qed

text \<open>Another block is read to the cache, and the bytes go there.\<close>

lemma load_block:
  assumes can: "cm_can_write addr n buff s" "\<not> cache_valid s" "\<not> (addr mod cache_size s = 0 \<and> cache_size s \<le> n)" "0 < n" "need \<le> frames"
  shows "\<exists>s1 m1. cached_write_return drv frames sz addr n buff False s m = cached_write_return drv frames sz addr n buff False s1 m1 \<and>
    cache_valid s1 \<and> addr = cache_addr s1 + cache_pos s1 \<and> cm_can_write addr n buff s1 \<and> cm_same s s1 \<and>
    cm_content s1 m1 = cm_content s m \<and> (\<forall>j. j \<notin> cm_owned s \<longrightarrow> m1 j = m j)"
proof -
  have ok: "cm_ok s" "cm_base s" using can by (auto simp: cm_can_write_def cm_ok_def)
  note D = cm_baseD [OF ok(2)]
  obtain k where k: "k < 31" "cache_size s = 2 ^ k" using ok(2) by (auto simp: cm_base_def)
  define a where "a = addr - addr mod cache_size s"
  have addr: "addr < cm_size s" "addr < 2 ^ 32" using can(1,4) D(5) by (auto simp: cm_can_write_def)
  have al: "addr AND (2 ^ 32 - cache_size s) = a" using aligned_down [of addr k] addr(2) k by (simp add: a_def)
  have a: "addr = a + addr mod cache_size s" "addr - a = addr mod cache_size s" by (auto simp: a_def)
  have "a = cache_size s * (addr div cache_size s)" by (simp add: a_def minus_mod_eq_mult_div)
  then have dvd: "cache_size s dvd a" by simp
  obtain q where q: "cm_size s = cache_size s * q" using D(6) by (elim dvdE)
  have "addr div cache_size s < q" using addr(1) D(3) by (simp add: q div_less_iff_less_mult mult.commute)
  then have "cache_size s * (addr div cache_size s) + cache_size s \<le> cache_size s * q"
    by (metis Suc_leI mult_Suc_right mult_le_mono2 add.commute)
  then have in_dev: "a + cache_size s \<le> dev_size (cm_host_mal s)"
    using q by (simp add: a_def minus_mod_eq_mult_div cm_size_def)
  obtain d m1 where r: "vk_mal_read drv frames a (cache_size s) (cache s) (cm_host_mal s) m = Some (RETURN (int (cache_size s), d, m1))"
    "dev_ok d" "dev_size d = dev_size (cm_host_mal s)" "dev_owned d = dev_owned (cm_host_mal s)" "dev_content d m1 = dev_content (cm_host_mal s) m"
    "bytes m1 (cache s) (cache_size s) = take (cache_size s) (drop a (dev_content (cm_host_mal s) m))"
    "\<forall>j. j \<notin> dev_owned (cm_host_mal s) \<and> j \<notin> {cache s..<cache s + cache_size s} \<longrightarrow> m1 j = m j"
    using read_law [OF D(1) can(5) D(3,4) in_dev D(7), of m] by blast
  define s1 where "s1 = s\<lparr>cache_valid := True, cache_pos := addr mod cache_size s, cache_addr := a, cm_host_mal := d\<rparr>"
  have "(addr - a) mod 2 ^ 32 = addr mod cache_size s"
    using a(2) addr(2) mod_less_eq_dividend [of addr "cache_size s"] by simp
  then have "cached_write_return drv frames sz addr n buff False s m = cached_write_return drv frames sz addr n buff False s1 m1"
    using can(2-4) D(2) r(1) al by (subst cached_write_return.simps) (auto simp: Let_def s1_def)
  moreover have same: "cm_same s s1" using r by (simp add: s1_def cm_same_def cm_size_def)
  moreover have "cm_ok s1"
    using cm_base_same [OF ok(2) same] r dvd in_dev D(3) by (simp add: s1_def cm_ok_def cm_block_def)
  then have "cm_can_write addr n buff s1" using can(1) same cm_same_owned [OF same] by (simp add: cm_can_write_def cm_same_def)
  moreover have "cm_content s1 m1 = cm_content s m"
    using r(5,6) can(2) patch_same [of a "cache_size s" "dev_content (cm_host_mal s) m"] in_dev D(8)
    by (simp add: s1_def cm_content_def cm_bytes_def cm_size_def)
  moreover have "\<forall>j. j \<notin> cm_owned s \<longrightarrow> m1 j = m j" using r(7) by (auto simp: cm_owned_def)
  moreover have "cache_valid s1" "addr = cache_addr s1 + cache_pos s1" using a(1) by (simp_all add: s1_def)
  ultimately show ?thesis by blast
qed

lemma cm_written_cong:
  assumes "cm_written sz addr n buff s1 m1 r" "cm_same s s1" "cm_content s1 m1 = cm_content s m" "\<forall>j. j \<notin> cm_owned s \<longrightarrow> m1 j = m j"
    and "cm_can_write addr n buff s"
  shows "cm_written sz addr n buff s m r"
  using cm_written_step [of sz addr 0 n buff s1 m1 r s m] assms by simp

lemma write_invalid:
  assumes "cm_can_write addr n buff s" "\<not> cache_valid s" "need \<le> frames"
  shows "cm_written sz addr n buff s m (cached_write_return drv frames sz addr n buff False s m)"
  using assms
proof (induction n arbitrary: addr buff s m rule: less_induct)
  case (less n)
  have rest: "cm_written sz (addr + k) (n - k) (buff + k) s1 m1 (cached_write_return drv frames sz (addr + k) (n - k) (buff + k) False s1 m1)"
    if "0 < k" "k \<le> n" "\<not> cache_valid s1" "cm_can_write (addr + k) (n - k) (buff + k) s1" for k s1 m1
    using less.IH [OF _ that(4,3) less.prems(3)] that(1,2) by simp
  consider "n = 0" | "0 < n" "addr mod cache_size s = 0 \<and> cache_size s \<le> n" | "0 < n" "\<not> (addr mod cache_size s = 0 \<and> cache_size s \<le> n)"
    by blast
  then show ?case
  proof cases
    case 1
    then have "cached_write_return drv frames sz addr n buff False s m = Some (RETURN (signed_take_bit 31 (int sz), s, m))"
      by (subst cached_write_return.simps) simp
    then show ?thesis using 1 less.prems(1) by (simp add: cm_written_done cm_can_write_def)
  next
    case 2
    then show ?thesis by (intro write_block [OF less.prems(1,2) _ _ less.prems(3)] rest) auto
  next
    case 3
    obtain s1 m1 where l: "cached_write_return drv frames sz addr n buff False s m = cached_write_return drv frames sz addr n buff False s1 m1"
      "cache_valid s1" "addr = cache_addr s1 + cache_pos s1" "cm_can_write addr n buff s1" "cm_same s s1"
      "cm_content s1 m1 = cm_content s m" "\<forall>j. j \<notin> cm_owned s \<longrightarrow> m1 j = m j"
      using load_block [OF less.prems(1,2) 3(2,1) less.prems(3)] by blast
    have "cm_written sz addr n buff s1 m1 (cached_write_return drv frames sz addr n buff False s1 m1)"
      by (intro write_at_cache_pos [OF l(4,2,3) 3(1) less.prems(3)] rest)
    then show ?thesis using cm_written_cong [OF _ l(5-7) less.prems(1)] l(1) by simp
  qed
qed

lemma write_cached:
  assumes "cm_can_write addr n buff s" "0 < n" "need \<le> frames"
  shows "cm_written sz addr n buff s m (cached_write_return drv frames sz addr n buff False s m)"
proof -
  have ok: "cm_ok s" "cm_base s" using assms by (auto simp: cm_can_write_def cm_ok_def)
  note D = cm_baseD [OF ok(2)]
  consider "\<not> cache_valid s" | "cache_valid s" "addr = cache_addr s + cache_pos s" | "cache_valid s" "addr \<noteq> cache_addr s + cache_pos s" by auto
  then show ?thesis
  proof cases
    case 1
    then show ?thesis using write_invalid assms by simp
  next
    case 2
    then show ?thesis using write_at_cache_pos [OF assms(1) _ _ assms(2,3)] write_invalid [OF _ _ assms(3)] by simp
  next
    case 3
    have b: "cm_block s" "cache_pos s < cache_size s" using ok(1) 3(1) by (auto simp: cm_ok_def)
    have "(cache_addr s + cache_pos s) mod 2 ^ 64 = cache_addr s + cache_pos s"
      using b D(5) by (intro mod_less) (auto simp: cm_block_def cm_size_def)
    then have away: "addr \<noteq> (cache_addr s + cache_pos s) mod 2 ^ 64" using 3(2) by simp
    obtain d m1 s' m' where e: "vk_mal_erase drv frames (cache_addr s) (cache_size s) (cm_host_mal s) m = Some (RETURN (0, d, m1))"
      "cached_write_return drv frames sz addr n buff True (s\<lparr>cm_host_mal := d\<rparr>) m1 = cached_write_return drv frames sz addr n buff False s' m'"
      "\<not> cache_valid s'" "cm_same s s'" "cm_ok s'" "cm_content s' m' = patch (cache_addr s) (cm_bytes s m) (dev_content (cm_host_mal s) m)"
      "\<forall>j. j \<notin> dev_owned (cm_host_mal s) \<longrightarrow> m' j = m j"
      using sync [OF ok(2) b(1) assms(3), of m sz addr n buff] by blast
    have "mem_copy p q 0 m = m" for p q by (auto simp: mem_copy_def fun_eq_iff)
    then have "cached_write_return drv frames sz addr n buff False s m = cached_write_return drv frames sz addr n buff False s' m'"
      using assms(2) D(2) 3(1) away e(1,2) by (subst cached_write_return.simps) (simp add: Let_def)
    moreover have "cm_can_write addr n buff s'" using assms(1) e(4,5) cm_same_owned [OF e(4)] by (simp add: cm_can_write_def cm_same_def)
    moreover have "cm_content s' m' = cm_content s m" using e(6) 3(1) by (simp add: cm_content_def)
    moreover have "\<forall>j. j \<notin> cm_owned s \<longrightarrow> m' j = m j" using e(7) by (simp add: cm_owned_def)
    ultimately show ?thesis using cm_written_cong [OF write_invalid [OF _ e(3) assms(3)] e(4)] assms(1) by simp
  qed
qed

text \<open>Reads, in parts: from the device or from the cache.\<close>

definition cm_read :: "nat \<Rightarrow> nat \<Rightarrow> nat \<Rightarrow> 's vk_cached_mal_t \<Rightarrow> memory \<Rightarrow> 's vk_cached_mal_t \<Rightarrow> memory \<Rightarrow> bool" where
  "cm_read addr n buff s m s' m' \<longleftrightarrow> cm_ok s' \<and> cm_same s s' \<and> cache_valid s' = cache_valid s \<and> cache_addr s' = cache_addr s \<and>
     cm_content s' m' = cm_content s m \<and> bytes m' buff n = take n (drop addr (cm_content s m)) \<and>
     (\<forall>j. j \<notin> dev_owned (cm_host_mal s) \<and> j \<notin> {buff..<buff + n} \<longrightarrow> m' j = m j)"

lemma cm_read_append:
  assumes "cm_read addr k buff s m s1 m1" "cm_read (addr + k) n (buff + k) s1 m1 s2 m2" "{buff..<buff + k} \<inter> cm_owned s = {}"
  shows "cm_read addr (k + n) buff s m s2 m2"
proof -
  have "dev_owned (cm_host_mal s1) = dev_owned (cm_host_mal s)" using assms(1) by (simp add: cm_read_def cm_same_def)
  moreover from this have "bytes m2 buff k = bytes m1 buff k"
    using assms(2,3) by (intro bytes_same) (auto simp: cm_read_def cm_owned_def disjoint_iff)
  ultimately show ?thesis
    using assms(1,2) cm_same_trans [of s s1 s2] by (auto simp: cm_read_def bytes_append take_add add.commute)
qed

text \<open>The range is apart from the block in the cache.\<close>

definition cm_apart :: "nat \<Rightarrow> nat \<Rightarrow> 's vk_cached_mal_t \<Rightarrow> bool" where
  "cm_apart addr n s \<longleftrightarrow> (cache_valid s \<longrightarrow> addr + n \<le> cache_addr s \<or> cache_addr s + cache_size s \<le> addr)"

lemma host_read:
  assumes "cm_can_write addr n buff s" "cm_apart addr n s" "0 < n" "n < 2 ^ 31" "need \<le> frames"
  shows "\<exists>d m'. vk_mal_read drv frames addr n buff (cm_host_mal s) m = Some (RETURN (int n, d, m')) \<and>
    cm_read addr n buff s m (s\<lparr>cm_host_mal := d\<rparr>) m'"
proof -
  have ok: "cm_ok s" "cm_base s" and dis: "{buff..<buff + n} \<inter> cm_owned s = {}" and le: "addr + n \<le> cm_size s"
    using assms by (auto simp: cm_can_write_def cm_ok_def)
  note D = cm_baseD [OF ok(2)]
  obtain d m' where r: "vk_mal_read drv frames addr n buff (cm_host_mal s) m = Some (RETURN (int n, d, m'))" "dev_ok d"
    "dev_size d = dev_size (cm_host_mal s)" "dev_owned d = dev_owned (cm_host_mal s)" "dev_content d m' = dev_content (cm_host_mal s) m"
    "bytes m' buff n = take n (drop addr (dev_content (cm_host_mal s) m))"
    "\<forall>j. j \<notin> dev_owned (cm_host_mal s) \<and> j \<notin> {buff..<buff + n} \<longrightarrow> m' j = m j"
    using read_law [OF D(1) assms(5,3,4), of addr buff m] le dis by (auto simp: cm_owned_def cm_size_def)
  let ?s = "s\<lparr>cm_host_mal := d\<rparr>"
  have same: "cm_same s ?s" using r by (simp add: cm_same_def cm_size_def)
  have ok': "cm_ok ?s" using ok cm_base_same [OF ok(2) same] r by (auto simp: cm_ok_def cm_block_def)
  have keep: "m' j = m j" if "j \<in> {cache s..<cache s + cache_size s}" for j
  proof -
    have "j \<notin> dev_owned (cm_host_mal s)" using that D(7) by blast
    moreover have "j \<notin> {buff..<buff + n}" using that dis unfolding cm_owned_def by blast
    ultimately show ?thesis using r(7) by simp
  qed
  have "bytes m' (cache s) (cache_size s) = bytes m (cache s) (cache_size s)" by (rule bytes_same) (rule keep)
  then have "cm_content ?s m' = cm_content s m" using r(5) by (simp add: cm_content_def cm_bytes_def)
  moreover have "take n (drop addr (cm_content s m)) = take n (drop addr (dev_content (cm_host_mal s) m))"
  proof (cases "cache_valid s")
    case True
    then have "cm_block s" using ok(1) by (simp add: cm_ok_def)
    then show ?thesis using True assms(2) le D(8)
      by (intro nth_equalityI) (auto simp: cm_content_def cm_apart_def cm_block_def cm_size_def nth_patch)
  qed (simp add: cm_content_def)
  ultimately show ?thesis using r same ok' by (auto simp: cm_read_def)
qed

lemma cache_read:
  assumes "cm_can_write addr n buff s" "cache_valid s" "cache_addr s \<le> addr" "addr + n \<le> cache_addr s + cache_size s"
  shows "cm_read addr n buff s m s (mem_copy buff (cache s + (addr - cache_addr s)) n m)"
proof -
  let ?m = "mem_copy buff (cache s + (addr - cache_addr s)) n m"
  have ok: "cm_ok s" "cm_base s" "cm_block s" and dis: "{buff..<buff + n} \<inter> cm_owned s = {}"
    using assms by (auto simp: cm_can_write_def cm_ok_def)
  note D = cm_baseD [OF ok(2)]
  have "dev_content (cm_host_mal s) ?m = dev_content (cm_host_mal s) m"
    using dis by (intro content_owned [OF D(1)]) (auto simp: cm_owned_def disjoint_iff intro!: mem_copy_outside)
  moreover have "cm_bytes s ?m = cm_bytes s m"
    using dis by (auto simp: cm_bytes_def cm_owned_def disjoint_iff intro!: bytes_same mem_copy_outside)
  moreover have "bytes ?m buff n = take n (drop addr (cm_content s m))"
  proof -
    obtain e where "addr = cache_addr s + e" using assms(3) le_Suc_ex by blast
    then show ?thesis using assms(2,4) ok(3) D(8)
      by (intro nth_equalityI) (auto simp: cm_content_def cm_block_def cm_size_def nth_patch mem_copy_inside cm_bytes_def add.assoc)
  qed
  ultimately show ?thesis using ok(1) by (auto simp: cm_read_def cm_content_def intro!: mem_copy_outside)
qed

lemma cm_can_write_part:
  assumes "cm_can_write addr n buff s" "k + j \<le> n" "cm_same s s1" "cm_ok s1"
  shows "cm_can_write (addr + k) j (buff + k) s1"
  using assms cm_same_owned [OF assms(3)] by (auto simp: cm_can_write_def cm_same_def disjoint_iff)

lemma read_rest_spec:
  assumes "cm_can_write addr n buff s" "cm_apart addr n s" "0 < n" "n < 2 ^ 31" "need \<le> frames"
  shows "\<exists>s' m'. read_rest drv frames sz addr n buff s m = Some (RETURN (signed_take_bit 31 (int sz), s', m')) \<and> cm_read addr n buff s m s' m'"
  using host_read [OF assms, of m] by (auto simp: read_rest_def host_io_def await_def)

lemma read_from_cache_spec:
  assumes can: "cm_can_write addr n buff s" "cache_valid s" "cache_addr s \<le> addr" "0 < n" "n < 2 ^ 31" "need \<le> frames"
  shows "\<exists>s' m'. read_from_cache drv frames sz addr n buff s m = Some (RETURN (signed_take_bit 31 (int sz), s', m')) \<and>
    cm_read addr n buff s m s' m'"
proof -
  have ok: "cm_ok s" "cm_base s" "cm_block s" using can by (auto simp: cm_can_write_def cm_ok_def)
  note D = cm_baseD [OF ok(2)]
  have wrap: "(cache_addr s + cache_size s) mod 2 ^ 64 = cache_addr s + cache_size s"
    using ok(3) D(5) by (intro mod_less) (auto simp: cm_block_def cm_size_def)
  show ?thesis
  proof (cases "cache_addr s + cache_size s \<le> addr")
    case True
    then have "cm_apart addr n s" by (simp add: cm_apart_def)
    then show ?thesis using read_rest_spec [OF can(1) _ can(4-6)] True wrap by (simp add: read_from_cache_def)
  next
    case False
    define k where "k = min n (cache_size s - (addr - cache_addr s))"
    have off: "(addr - cache_addr s) mod 2 ^ 32 = addr - cache_addr s" using False D(4) can(3) by (intro mod_less) auto
    have k: "k \<le> n" "addr + k \<le> cache_addr s + cache_size s" using False can(3) by (auto simp: k_def)
    let ?m = "mem_copy buff (cache s + (addr - cache_addr s)) k m"
    have "cm_can_write addr k buff s" using cm_can_write_part [OF can(1), of 0 k s] k(1) ok(1) by simp
    then have c: "cm_read addr k buff s m s ?m" using cache_read can(2,3) k(2) by simp
    show ?thesis
    proof (cases "k < n")
      case True
      then have apart: "cm_apart (addr + k) (n - k) s" using False can(3) by (auto simp: cm_apart_def k_def)
      have "cm_can_write (addr + k) (n - k) (buff + k) s" using cm_can_write_part [OF can(1), of k "n - k" s] k(1) ok(1) by simp
      then obtain s' m' where r: "read_rest drv frames sz (addr + k) (n - k) (buff + k) s ?m = Some (RETURN (signed_take_bit 31 (int sz), s', m'))"
        "cm_read (addr + k) (n - k) (buff + k) s ?m s' m'"
        using read_rest_spec [OF _ apart, of "buff + k" frames sz ?m] True can(6) less_imp_diff_less [OF can(5)] by auto
      have "cm_read addr n buff s m s' m'"
        using cm_read_append [OF c r(2)] can(1) k(1) by (auto simp: cm_can_write_def disjoint_iff)
      moreover have "read_from_cache drv frames sz addr n buff s m = read_rest drv frames sz (addr + k) (n - k) (buff + k) s ?m"
        using False True wrap off by (simp add: read_from_cache_def Let_def k_def [symmetric])
      ultimately show ?thesis using r(1) by auto
    next
      case 2: False
      then have "k = n" using k(1) by simp
      then have "read_from_cache drv frames sz addr n buff s m = Some (RETURN (signed_take_bit 31 (int sz), s, ?m))"
        using False wrap off by (simp add: read_from_cache_def Let_def k_def [symmetric])
      then show ?thesis using c \<open>k = n\<close> by auto
    qed
  qed
qed

lemma read_cached:
  assumes can: "cm_can_write addr n buff s" "0 < n" "n < 2 ^ 31" "need \<le> frames"
  shows "\<exists>s' m'. p_vk_cached_mal_read drv frames addr n buff s m = Some (RETURN (signed_take_bit 31 (int n), s', m')) \<and>
    cm_read addr n buff s m s' m'"
proof -
  have ok: "cm_ok s" using can by (auto simp: cm_can_write_def)
  consider "\<not> cache_valid s" | "cache_valid s" "cache_addr s \<le> addr" | "cache_valid s" "addr < cache_addr s" by linarith
  then show ?thesis
  proof cases
    case 1
    then show ?thesis using read_rest_spec [OF can(1) _ can(2-4)] by (simp add: p_vk_cached_mal_read_def cm_apart_def)
  next
    case 2
    then show ?thesis using read_from_cache_spec [OF can(1) 2 can(2-4)] can(2) by (simp add: p_vk_cached_mal_read_def)
  next
    case 3
    define k where "k = min n (cache_addr s - addr)"
    have k: "0 < k" "k \<le> n" "addr + k \<le> cache_addr s" using can(2) 3 by (auto simp: k_def)
    have "cm_can_write addr k buff s" using cm_can_write_part [OF can(1), of 0 k s] k ok by simp
    then obtain d m1 where h: "vk_mal_read drv frames addr k buff (cm_host_mal s) m = Some (RETURN (int k, d, m1))"
      "cm_read addr k buff s m (s\<lparr>cm_host_mal := d\<rparr>) m1"
      using host_read [of addr k buff s frames m] k can(3,4) by (auto simp: cm_apart_def)
    let ?s = "s\<lparr>cm_host_mal := d\<rparr>"
    show ?thesis
    proof (cases "n - k = 0")
      case True
      then show ?thesis using h 3 can(2) k by (simp add: p_vk_cached_mal_read_def Let_def k_def [symmetric] host_io_def await_def)
    next
      case False
      then have "addr + k = cache_addr s" using 3(2) by (auto simp: k_def)
      moreover have "cm_can_write (addr + k) (n - k) (buff + k) ?s"
        using cm_can_write_part [OF can(1), of k "n - k" ?s] h(2) k by (simp add: cm_read_def)
      ultimately obtain s' m' where r: "read_from_cache drv frames n (addr + k) (n - k) (buff + k) ?s m1 =
          Some (RETURN (signed_take_bit 31 (int n), s', m'))" "cm_read (addr + k) (n - k) (buff + k) ?s m1 s' m'"
        using read_from_cache_spec [of "addr + k" "n - k" "buff + k" ?s frames n m1] False 3 can(4) less_imp_diff_less [OF can(3)] by auto
      have "cm_read addr n buff s m s' m'"
        using cm_read_append [OF h(2) r(2)] can(1) k by (auto simp: cm_can_write_def disjoint_iff)
      then show ?thesis using h(1) r(1) False 3 can(2)
        by (auto simp: p_vk_cached_mal_read_def Let_def k_def [symmetric] host_io_def await_def)
    qed
  qed
qed

text \<open>The end of the device: what is in the cache goes to the device below.\<close>

lemma fini_cached:
  assumes "cm_ok s" "need \<le> frames"
  shows "\<exists>r s' m'. p_vk_cached_mal_fini drv frames s m = Some (RETURN (r, s', m')) \<and> dev_ok (cm_host_mal s') \<and>
    dev_content (cm_host_mal s') m' = cm_content s m"
proof (cases "cache_valid s")
  case True
  have ok: "cm_base s" "cm_block s" using assms(1) True by (auto simp: cm_ok_def)
  note D = cm_baseD [OF ok(1)]
  have in_dev: "cache_addr s + cache_size s \<le> dev_size (cm_host_mal s)" using ok(2) by (simp add: cm_block_def)
  obtain d m1 xs where e: "vk_mal_erase drv frames (cache_addr s) (cache_size s) (cm_host_mal s) m = Some (RETURN (0, d, m1))"
    "dev_ok d" "dev_size d = dev_size (cm_host_mal s)" "dev_owned d = dev_owned (cm_host_mal s)" "length xs = cache_size s"
    "dev_content d m1 = patch (cache_addr s) xs (dev_content (cm_host_mal s) m)" "\<forall>j. j \<notin> dev_owned (cm_host_mal s) \<longrightarrow> m1 j = m j"
    using erase_law [OF D(1) assms(2) D(3,4) in_dev, of m] by blast
  have dis: "{cache s..<cache s + cache_size s} \<inter> dev_owned d = {}" using D(7) e(4) by simp
  obtain d' m' where w: "vk_mal_write drv frames (cache_addr s) (cache_size s) (cache s) d m1 = Some (RETURN (int (cache_size s), d', m'))"
    "dev_ok d'" "dev_content d' m' = patch (cache_addr s) (bytes m1 (cache s) (cache_size s)) (dev_content d m1)"
    using write_law [OF e(2) assms(2) D(3,4) _ dis, of "cache_addr s" m1] in_dev e(3) by auto
  have "cm_bytes (s\<lparr>cm_host_mal := d\<rparr>) m1 = cm_bytes s m"
    by (rule cm_bytes_kept [OF ok(1)]) (use e in \<open>auto simp: cm_same_def cm_size_def\<close>)
  then have "dev_content d' m' = cm_content s m"
    using w(3) e(5,6) in_dev D(8) True by (simp add: patch_over cm_size_def cm_content_def cm_bytes_def)
  then show ?thesis using True e(1) w(1,2) by (simp add: p_vk_cached_mal_fini_def host_io_def await_def)
qed (use assms(1) in \<open>simp add: p_vk_cached_mal_fini_def cm_ok_def cm_base_def cm_content_def\<close>)

end

locale cached_mal = erasable_mal drv need dev_ok dev_size dev_owned dev_content
  for drv :: "'s vk_mal_drv_t" and need dev_ok dev_size dev_owned dev_content +
  fixes malloc :: "nat \<Rightarrow> nat"

sublocale cached_mal \<subseteq> cached: mal_device "vk_cached_mal_drv malloc drv" "need + 1" cm_ok cm_size cm_owned cm_content
proof
  fix s and m m' :: memory and frames n a b :: nat
  assume ok: "cm_ok s"
  show "length (cm_content s m) = cm_size s" using ok by (rule cm_content_length)
  show "cm_content s m = cm_content s m'" if "\<forall>j\<in>cm_owned s. m j = m' j"
  proof -
    have "dev_content (cm_host_mal s) m = dev_content (cm_host_mal s) m'"
      using ok that by (intro content_owned) (auto simp: cm_ok_def cm_base_def cm_owned_def)
    moreover have "cm_bytes s m = cm_bytes s m'"
      using that by (auto simp: cm_bytes_def cm_owned_def intro!: bytes_eqI)
    ultimately show ?thesis by (simp add: cm_content_def)
  qed
  assume *: "need + 1 \<le> frames" "0 < n" "n < 2 ^ 31" "a + n \<le> cm_size s" "{b..<b + n} \<inter> cm_owned s = {}"
  have f: "need \<le> frames - 1" "frames \<noteq> 0" and can: "cm_can_write a n b s" using * ok by (auto simp: cm_can_write_def)
  show "\<exists>s' m'. vk_mal_read (vk_cached_mal_drv malloc drv) frames a n b s m = Some (RETURN (int n, s', m')) \<and> cm_ok s' \<and>
      cm_size s' = cm_size s \<and> cm_owned s' = cm_owned s \<and> cm_content s' m' = cm_content s m \<and>
      bytes m' b n = take n (drop a (cm_content s m)) \<and> (\<forall>j. j \<notin> cm_owned s \<and> j \<notin> {b..<b + n} \<longrightarrow> m' j = m j)"
    using read_cached [OF can *(2,3) f(1), of m] f(2) cm_same_owned [of s] *(3)
    by (auto simp: cached_calls call_peda_def signed_small cm_read_def
        cm_same_def [of s] cm_owned_def [of s])
  have "cm_written n a n b s m (p_vk_cached_mal_write drv (frames - 1) a n b s m)"
    using write_cached [OF can *(2) f(1)] cm_baseD(2) [of s] ok by (simp add: p_vk_cached_mal_write_def cm_ok_def)
  then obtain s' m' where w: "p_vk_cached_mal_write drv (frames - 1) a n b s m = Some (RETURN (int n, s', m'))" "cm_same s s'" "cm_ok s'"
    "cm_content s' m' = patch a (bytes m b n) (cm_content s m)" "\<forall>j. j \<notin> cm_owned s \<longrightarrow> m' j = m j"
    unfolding cm_written_def signed_small [OF *(3)] by blast
  have "vk_mal_write (vk_cached_mal_drv malloc drv) frames a n b s m = Some (RETURN (int n, s', m'))"
    using w(1) f(2) by (simp add: cached_calls call_peda_def)
  moreover have "cm_size s' = cm_size s" using w(2) by (simp add: cm_same_def)
  ultimately show "\<exists>s' m'. vk_mal_write (vk_cached_mal_drv malloc drv) frames a n b s m = Some (RETURN (int n, s', m')) \<and> cm_ok s' \<and>
      cm_size s' = cm_size s \<and> cm_owned s' = cm_owned s \<and> cm_content s' m' = patch a (bytes m b n) (cm_content s m) \<and>
      (\<forall>j. j \<notin> cm_owned s \<longrightarrow> m' j = m j)"
    using w(3-5) cm_same_owned [OF w(2)] by blast
qed

section \<open>Parts with a check of their size\<close>

locale mal_part = erasable_mal drv need dev_ok dev_size dev_owned dev_content
  for drv :: "'s vk_mal_drv_t" and need dev_ok dev_size dev_owned dev_content +
  assumes size64: "dev_ok s \<Longrightarrow> dev_size s < 2 ^ 64"
begin

definition mim_ok :: "'s vk_mim_mal_t \<Rightarrow> bool" where
  "mim_ok s \<longleftrightarrow> dev_ok (mim_host_mal s) \<and> mim_offset s + mal_size s \<le> dev_size (mim_host_mal s)"

definition mim_owned :: "'s vk_mim_mal_t \<Rightarrow> nat set" where
  "mim_owned s = dev_owned (mim_host_mal s)"

definition mim_content :: "'s vk_mim_mal_t \<Rightarrow> memory \<Rightarrow> u8 list" where
  "mim_content s m = take (mal_size s) (drop (mim_offset s) (dev_content (mim_host_mal s) m))"

lemma mim_address:
  "mim_ok s \<Longrightarrow> a + n \<le> mal_size s \<Longrightarrow> 0 < n \<Longrightarrow>
   (a + mim_offset s) mod 2 ^ 64 = a + mim_offset s \<and> (a + n) mod 2 ^ 64 = a + n \<and> a + mim_offset s + n \<le> dev_size (mim_host_mal s)"
  using size64 [of "mim_host_mal s"] by (simp add: mim_ok_def)

text \<open>What an operation on the device below means for the part.\<close>

lemma mim_patch:
  assumes "mim_ok s" "a + length xs \<le> mal_size s" "dev_content d m' = patch (a + mim_offset s) xs (dev_content (mim_host_mal s) m)"
  shows "mim_content (s\<lparr>mim_host_mal := d\<rparr>) m' = patch a xs (mim_content s m)"
  using patch_slice [of "mim_offset s" "mal_size s" "dev_content (mim_host_mal s) m" a xs] assms content_length
  by (simp add: mim_content_def mim_ok_def)

lemma mim_slice:
  assumes "a + n \<le> mal_size s"
  shows "take n (drop a (mim_content s m)) = take n (drop (a + mim_offset s) (dev_content (mim_host_mal s) m))"
  using assms by (simp add: mim_content_def drop_take add.commute min_def)

end

sublocale mal_part \<subseteq> mim: erasable_mal "vk_mim_mal_drv drv" "need + 1" mim_ok mal_size mim_owned mim_content
proof
  fix s and m m' :: memory and frames n a b :: nat
  assume ok: "mim_ok s"
  show "length (mim_content s m) = mal_size s" using ok content_length [of "mim_host_mal s" m] by (auto simp: mim_content_def mim_ok_def min_def)
  show "mim_content s m = mim_content s m'" if "\<forall>j\<in>mim_owned s. m j = m' j"
    using content_owned [of "mim_host_mal s" m m'] ok that by (simp add: mim_content_def mim_ok_def mim_owned_def)
  assume *: "need + 1 \<le> frames" "0 < n" "n < 2 ^ 31" "a + n \<le> mal_size s"
  have f: "need \<le> frames - 1" "frames \<noteq> 0" using *(1) by auto
  note h = mim_address [OF ok *(4,2)]
  have hok: "dev_ok (mim_host_mal s)" using ok by (simp add: mim_ok_def)
  show "\<exists>s' m' xs. vk_mal_erase (vk_mim_mal_drv drv) frames a n s m = Some (RETURN (0, s', m')) \<and> mim_ok s' \<and>
      mal_size s' = mal_size s \<and> mim_owned s' = mim_owned s \<and> length xs = n \<and> mim_content s' m' = patch a xs (mim_content s m) \<and>
      (\<forall>j. j \<notin> mim_owned s \<longrightarrow> m' j = m j)"
  proof -
    obtain d m' xs where e: "vk_mal_erase drv (frames - 1) (a + mim_offset s) n (mim_host_mal s) m = Some (RETURN (0, d, m'))" "dev_ok d"
      "dev_size d = dev_size (mim_host_mal s)" "dev_owned d = dev_owned (mim_host_mal s)" "length xs = n"
      "dev_content d m' = patch (a + mim_offset s) xs (dev_content (mim_host_mal s) m)" "\<forall>j. j \<notin> dev_owned (mim_host_mal s) \<longrightarrow> m' j = m j"
      using erase_law [OF hok f(1) *(2,3), of "a + mim_offset s" m] h by auto
    have "vk_mal_erase (vk_mim_mal_drv drv) frames a n s m = Some (RETURN (0, s\<lparr>mim_host_mal := d\<rparr>, m'))"
      using e(1) h f(2) by (simp add: mim_calls call_peda_def p_vk_mim_mal_erase_def mim_io_def await_def)
    then show ?thesis using e ok mim_patch [OF ok _ e(6)] *(4) by (auto simp: mim_ok_def mim_owned_def)
  qed
  assume dis: "{b..<b + n} \<inter> mim_owned s = {}"
  then have hdis: "{b..<b + n} \<inter> dev_owned (mim_host_mal s) = {}" by (simp add: mim_owned_def)
  show "\<exists>s' m'. vk_mal_read (vk_mim_mal_drv drv) frames a n b s m = Some (RETURN (int n, s', m')) \<and> mim_ok s' \<and>
      mal_size s' = mal_size s \<and> mim_owned s' = mim_owned s \<and> mim_content s' m' = mim_content s m \<and>
      bytes m' b n = take n (drop a (mim_content s m)) \<and> (\<forall>j. j \<notin> mim_owned s \<and> j \<notin> {b..<b + n} \<longrightarrow> m' j = m j)"
  proof -
    obtain d m' where r: "vk_mal_read drv (frames - 1) (a + mim_offset s) n b (mim_host_mal s) m = Some (RETURN (int n, d, m'))" "dev_ok d"
      "dev_size d = dev_size (mim_host_mal s)" "dev_owned d = dev_owned (mim_host_mal s)" "dev_content d m' = dev_content (mim_host_mal s) m"
      "bytes m' b n = take n (drop (a + mim_offset s) (dev_content (mim_host_mal s) m))"
      "\<forall>j. j \<notin> dev_owned (mim_host_mal s) \<and> j \<notin> {b..<b + n} \<longrightarrow> m' j = m j"
      using read_law [OF hok f(1) *(2,3) _ hdis, of "a + mim_offset s" m] h by auto
    have "vk_mal_read (vk_mim_mal_drv drv) frames a n b s m = Some (RETURN (int n, s\<lparr>mim_host_mal := d\<rparr>, m'))"
      using r(1) h f(2) *(2,4) by (simp add: mim_calls call_peda_def p_vk_mim_mal_read_def mim_io_def await_def)
    then show ?thesis using r ok mim_slice [OF *(4)] by (auto simp: mim_ok_def mim_owned_def mim_content_def)
  qed
  show "\<exists>s' m'. vk_mal_write (vk_mim_mal_drv drv) frames a n b s m = Some (RETURN (int n, s', m')) \<and> mim_ok s' \<and>
      mal_size s' = mal_size s \<and> mim_owned s' = mim_owned s \<and> mim_content s' m' = patch a (bytes m b n) (mim_content s m) \<and>
      (\<forall>j. j \<notin> mim_owned s \<longrightarrow> m' j = m j)"
  proof -
    obtain d m' where w: "vk_mal_write drv (frames - 1) (a + mim_offset s) n b (mim_host_mal s) m = Some (RETURN (int n, d, m'))" "dev_ok d"
      "dev_size d = dev_size (mim_host_mal s)" "dev_owned d = dev_owned (mim_host_mal s)"
      "dev_content d m' = patch (a + mim_offset s) (bytes m b n) (dev_content (mim_host_mal s) m)" "\<forall>j. j \<notin> dev_owned (mim_host_mal s) \<longrightarrow> m' j = m j"
      using write_law [OF hok f(1) *(2,3) _ hdis, of "a + mim_offset s" m] h by auto
    have "vk_mal_write (vk_mim_mal_drv drv) frames a n b s m = Some (RETURN (int n, s\<lparr>mim_host_mal := d\<rparr>, m'))"
      using w(1) h f(2) *(2,4) by (simp add: mim_calls call_peda_def p_vk_mim_mal_write_def mim_io_def await_def)
    then show ?thesis using w ok mim_patch [OF ok _ w(5)] *(4) by (auto simp: mim_ok_def mim_owned_def)
  qed
qed

section \<open>Over plain memory\<close>

lemma mem_mal_erase:
  assumes "mem_mal_ok s" "1 \<le> frames" "0 < n" "a + n \<le> mem_size s"
  shows "vk_mal_erase vk_mem_mal_drv frames a n s m = Some (RETURN (0, s, mem_fill (mem_buffer s + a) 0xFF n m))"
  using assms mem_mal_pointer [OF assms(1,3,4)]
  by (simp add: vk_mal_erase_def vk_mem_mal_drv_def call_peda_def p_vk_mem_mal_erase_def)

lemma mem_mal_fill:
  assumes "a + n \<le> mem_size s"
  shows "mem_mal_content s (mem_fill (mem_buffer s + a) v n m) = patch a (replicate n v) (mem_mal_content s m)"
  by (rule nth_equalityI) (use assms in \<open>auto simp: mem_mal_content_def nth_patch mem_fill_def\<close>)

interpretation mem_erasable: erasable_mal vk_mem_mal_drv 1 mem_mal_ok mem_size mem_mal_owned mem_mal_content
proof
  fix s and m :: memory and frames n a :: nat
  assume *: "mem_mal_ok s" "1 \<le> frames" "0 < n" "a + n \<le> mem_size s"
  have "\<forall>j. j \<notin> mem_mal_owned s \<longrightarrow> mem_fill (mem_buffer s + a) 0xFF n m j = m j"
    using *(4) by (auto simp: mem_fill_def mem_mal_owned_def)
  then show "\<exists>s' m' xs. vk_mal_erase vk_mem_mal_drv frames a n s m = Some (RETURN (0, s', m')) \<and> mem_mal_ok s' \<and>
      mem_size s' = mem_size s \<and> mem_mal_owned s' = mem_mal_owned s \<and> length xs = n \<and>
      mem_mal_content s' m' = patch a xs (mem_mal_content s m) \<and> (\<forall>j. j \<notin> mem_mal_owned s \<longrightarrow> m' j = m j)"
    using mem_mal_erase [OF *] mem_mal_fill [OF *(4)] *(1)
    by (intro exI [of _ s] exI [of _ "mem_fill (mem_buffer s + a) 0xFF n m"] exI [of _ "replicate n 0xFF"]) simp
qed

interpretation mem_part: mal_part vk_mem_mal_drv 1 mem_mal_ok mem_size mem_mal_owned mem_mal_content
  by unfold_locales (auto simp: mem_mal_ok_def)

interpretation mem_cached: cached_mal vk_mem_mal_drv 1 mem_mal_ok mem_size mem_mal_owned mem_mal_content malloc for malloc
  by unfold_locales

end
