(* ===== verification/VSF_Scsi_Mal.thy ===== *)
theory VSF_Scsi_Mal
  imports VSF_Scsi
begin

text \<open>
  The memory abstraction layer over a SCSI device, \<open>src/source/component/mal/driver/scsi_mal\<close>: the device is asked for its capacity, and reads and
  writes are sent as READ(10) and WRITE(10).
\<close>

text \<open>\<open>sm_buffer\<close> is the address of the union for the replies.\<close>

record 'v vk_scsi_mal_t = vk_mal_t +
  scsi :: 'v
  sm_block_size :: nat
  cbd :: "u8 list"
  sm_mem :: vsf_mem_t
  sm_buffer :: nat

definition be32_at :: "memory \<Rightarrow> nat \<Rightarrow> nat" where
  "be32_at m a = be [m a, m (a + 1), m (a + 2), m (a + 3)] 0 4"

definition put_cbd :: "nat \<Rightarrow> u8 list \<Rightarrow> u8 list \<Rightarrow> u8 list" where
  "put_cbd i bs c = take i c @ bs @ drop (i + length bs) c"

definition be16 :: "nat \<Rightarrow> u8 list" where
  "be16 v = [of_nat (v div 2 ^ 8), of_nat v]"

definition p_vk_scsi_mal_blksz :: "nat \<Rightarrow> nat \<Rightarrow> vsf_mal_op_t \<Rightarrow> 'v vk_scsi_mal_t \<Rightarrow> nat option" where
  "p_vk_scsi_mal_blksz addr sz oper s = Some (sm_block_size s)"

text \<open>The command block of a read or write of blocks.\<close>

definition rw10 :: "u8 \<Rightarrow> nat \<Rightarrow> nat \<Rightarrow> nat \<Rightarrow> u8 list \<Rightarrow> u8 list" where
  "rw10 code addr sz bs c = put_cbd 7 (be16 (sz div bs)) (put_cbd 2 (be32 (addr div bs mod 2 ^ 32)) (put_cbd 0 [code] c))"

definition p_vk_scsi_mal_buffer ::
  "'x vk_virtual_scsi_t_scheme vk_virtual_scsi_drv_t \<Rightarrow> nat \<Rightarrow> nat \<Rightarrow> vsf_mal_op_t \<Rightarrow> vsf_mem_t \<Rightarrow> 'x vk_virtual_scsi_t_scheme vk_scsi_mal_t
     \<Rightarrow> ((bool \<times> vsf_mem_t) \<times> 'x vk_virtual_scsi_t_scheme vk_scsi_mal_t) option" where
  "p_vk_scsi_mal_buffer drv addr sz oper mem s =
     (if sm_block_size s = 0 then None
      else
        let c = rw10 (if oper = VSF_MAL_OP_READ then 0x28 else 0x2A) addr sz (sm_block_size s) (replicate 16 0)
        in map_option (\<lambda>r. (r, s\<lparr>cbd := c\<rparr>)) (vk_scsi_prepare_buffer drv c mem (scsi s)))"

text \<open>A command to the device and what follows its return; a call without a frame is not noticed.\<close>

definition scsi_mal_execute ::
  "'x vk_virtual_scsi_t_scheme vk_virtual_scsi_drv_t \<Rightarrow> nat \<Rightarrow> u8 list \<Rightarrow> vsf_mem_t \<Rightarrow> 'x vk_virtual_scsi_t_scheme vk_scsi_mal_t \<Rightarrow> memory
     \<Rightarrow> (int \<Rightarrow> 'x vk_virtual_scsi_t_scheme vk_scsi_mal_t \<Rightarrow> memory \<Rightarrow> 'x vk_virtual_scsi_t_scheme vk_scsi_mal_t mal_result)
     \<Rightarrow> 'x vk_virtual_scsi_t_scheme vk_scsi_mal_t mal_result" where
  "scsi_mal_execute drv frames c mem s m k =
     await (vk_scsi_execute drv frames c (Some mem) (scsi s) m) (Some WAITS)
       (\<lambda>(r, v, m). k r (s\<lparr>cbd := c, sm_mem := mem, scsi := v\<rparr>) m)"

text \<open>The reply to READ CAPACITY: numbers of 32 bits, and so is their product.\<close>

definition scsi_mal_capacity_done ::
  "'x vk_virtual_scsi_t_scheme vk_scsi_mal_t \<Rightarrow> memory \<Rightarrow> 'x vk_virtual_scsi_t_scheme vk_scsi_mal_t mal_result" where
  "scsi_mal_capacity_done s m =
     (let bs = be32_at m (sm_buffer s + 4)
      in Some (RETURN (0, s\<lparr>cbd := replicate 16 0, sm_block_size := bs, mal_size := bs * be32_at m (sm_buffer s) mod 2 ^ 32\<rparr>, m)))"

text \<open>READ CAPACITY, with the number of the tries that are left after a failure.\<close>

primrec scsi_mal_capacity ::
  "'x vk_virtual_scsi_t_scheme vk_virtual_scsi_drv_t \<Rightarrow> nat \<Rightarrow> nat \<Rightarrow> 'x vk_virtual_scsi_t_scheme vk_scsi_mal_t \<Rightarrow> memory
     \<Rightarrow> 'x vk_virtual_scsi_t_scheme vk_scsi_mal_t mal_result" where
  "scsi_mal_capacity drv frames 0 s m =
     scsi_mal_execute drv frames (0x25 # replicate 15 0) (sm_buffer s, 8) s m
       (\<lambda>r s m. if r < 0 then Some (RETURN (r, s\<lparr>cbd := replicate 16 0\<rparr>, m)) else scsi_mal_capacity_done s m)"
| "scsi_mal_capacity drv frames (Suc tries) s m =
     scsi_mal_execute drv frames (0x25 # replicate 15 0) (sm_buffer s, 8) s m
       (\<lambda>r s m. if r < 0 then scsi_mal_capacity drv frames tries s m else scsi_mal_capacity_done s m)"

definition VSF_SCSI_MAL_CFG_CAPACITY_RETRY :: nat where
  "VSF_SCSI_MAL_CFG_CAPACITY_RETRY = 3"

definition p_vk_scsi_mal_init ::
  "'x vk_virtual_scsi_t_scheme vk_virtual_scsi_drv_t \<Rightarrow> nat \<Rightarrow> 'x vk_virtual_scsi_t_scheme vk_scsi_mal_t \<Rightarrow> memory
     \<Rightarrow> 'x vk_virtual_scsi_t_scheme vk_scsi_mal_t mal_result" where
  "p_vk_scsi_mal_init drv frames s m =
     await (vk_scsi_init drv frames (scsi s) m) (Some WAITS) (\<lambda>(r, v, m).
       let s = s\<lparr>scsi := v, cbd := replicate 16 0\<rparr>
       in if r < 0 then Some (RETURN (r, s, m))
          else scsi_mal_execute drv frames ([0x12, 0, 0, 0, 0x24] @ replicate 11 0) (sm_buffer s, 36) s m (\<lambda>r s m.
            let s = s\<lparr>cbd := replicate 16 0\<rparr>
            in if r < 0 then Some (RETURN (r, s, m))
               else scsi_mal_capacity drv frames VSF_SCSI_MAL_CFG_CAPACITY_RETRY s m))"

definition p_vk_scsi_mal_fini ::
  "nat \<Rightarrow> 'x vk_virtual_scsi_t_scheme vk_scsi_mal_t \<Rightarrow> memory \<Rightarrow> 'x vk_virtual_scsi_t_scheme vk_scsi_mal_t mal_result" where
  "p_vk_scsi_mal_fini frames s m = Some (RETURN (0, s, m))"

definition scsi_mal_rw ::
  "'x vk_virtual_scsi_t_scheme vk_virtual_scsi_drv_t \<Rightarrow> u8 \<Rightarrow> nat \<Rightarrow> nat \<Rightarrow> nat \<Rightarrow> nat \<Rightarrow> 'x vk_virtual_scsi_t_scheme vk_scsi_mal_t \<Rightarrow> memory
     \<Rightarrow> 'x vk_virtual_scsi_t_scheme vk_scsi_mal_t mal_result" where
  "scsi_mal_rw drv code frames addr sz buff s m =
     (if sm_block_size s = 0 then None
      else scsi_mal_execute drv frames (rw10 code addr sz (sm_block_size s) (cbd s)) (buff, sz) s m (\<lambda>r s m. Some (RETURN (r, s, m))))"

definition p_vk_scsi_mal_read ::
  "'x vk_virtual_scsi_t_scheme vk_virtual_scsi_drv_t \<Rightarrow> nat \<Rightarrow> nat \<Rightarrow> nat \<Rightarrow> nat \<Rightarrow> 'x vk_virtual_scsi_t_scheme vk_scsi_mal_t \<Rightarrow> memory
     \<Rightarrow> 'x vk_virtual_scsi_t_scheme vk_scsi_mal_t mal_result" where
  "p_vk_scsi_mal_read drv frames addr sz buff s m = scsi_mal_rw drv 0x28 frames addr sz buff s m"

definition p_vk_scsi_mal_write ::
  "'x vk_virtual_scsi_t_scheme vk_virtual_scsi_drv_t \<Rightarrow> nat \<Rightarrow> nat \<Rightarrow> nat \<Rightarrow> nat \<Rightarrow> 'x vk_virtual_scsi_t_scheme vk_scsi_mal_t \<Rightarrow> memory
     \<Rightarrow> 'x vk_virtual_scsi_t_scheme vk_scsi_mal_t mal_result" where
  "p_vk_scsi_mal_write drv frames addr sz buff s m = scsi_mal_rw drv 0x2A frames addr sz buff s m"

text \<open>The buffer function changes the command block of the device as well; \<open>p_vk_scsi_mal_buffer\<close> has this change.\<close>

definition vk_scsi_mal_drv :: "'x vk_virtual_scsi_t_scheme vk_virtual_scsi_drv_t \<Rightarrow> 'x vk_virtual_scsi_t_scheme vk_scsi_mal_t vk_mal_drv_t" where
  "vk_scsi_mal_drv drv = \<lparr>drv_blksz = Some p_vk_scsi_mal_blksz,
     drv_buffer = Some (\<lambda>addr sz oper s. case p_vk_scsi_mal_buffer drv addr sz oper (0, 0) s of None \<Rightarrow> (False, 0, 0) | Some (r, s) \<Rightarrow> r),
     drv_capability = None, drv_init = Some (p_vk_scsi_mal_init drv), drv_fini = Some p_vk_scsi_mal_fini,
     drv_erase = None, drv_read = Some (p_vk_scsi_mal_read drv), drv_write = Some (p_vk_scsi_mal_write drv)\<rparr>"

end
