(* ===== verification/VSF_Disk_Correct.thy ===== *)
theory VSF_Disk_Correct
  imports VSF_Cached_Mal_Correct VSF_Scsi_Correct VSF_Scsi_Mal
begin

unbundle bit_operations_syntax

text \<open>
  Clients of devices, and devices that stand on each other: a program of reads and writes over any device with the contract \<open>mal_device\<close> sees
  its content; the memory abstraction layer over a SCSI device over a device of the memory abstraction layer is this device.
\<close>

section \<open>Programs of reads and writes\<close>

datatype mal_op = DISK_WRITE nat "u8 list" | DISK_READ nat nat

text \<open>The client puts its bytes to a buffer of its own.\<close>

definition put_bytes :: "nat \<Rightarrow> u8 list \<Rightarrow> memory \<Rightarrow> memory" where
  "put_bytes b xs m = (\<lambda>i. if b \<le> i \<and> i < b + length xs then xs ! (i - b) else m i)"

fun mal_run :: "'s vk_mal_drv_t \<Rightarrow> nat \<Rightarrow> nat \<Rightarrow> mal_op list \<Rightarrow> 's \<Rightarrow> memory \<Rightarrow> ('s \<times> memory \<times> u8 list list) option" where
  "mal_run drv frames b [] s m = Some (s, m, [])"
| "mal_run drv frames b (DISK_WRITE a xs # ops) s m =
     (case vk_mal_write drv frames a (length xs) b s (put_bytes b xs m) of
        Some (RETURN (r, s, m)) \<Rightarrow> if r = int (length xs) then mal_run drv frames b ops s m else None
      | _ \<Rightarrow> None)"
| "mal_run drv frames b (DISK_READ a n # ops) s m =
     (case vk_mal_read drv frames a n b s m of
        Some (RETURN (r, s, m)) \<Rightarrow>
          if r = int n then map_option (\<lambda>(s', m', out). (s', m', bytes m b n # out)) (mal_run drv frames b ops s m) else None
      | _ \<Rightarrow> None)"

text \<open>What the program does to a list of bytes.\<close>

fun content_run :: "mal_op list \<Rightarrow> u8 list \<Rightarrow> u8 list \<times> u8 list list" where
  "content_run [] D = (D, [])"
| "content_run (DISK_WRITE a xs # ops) D = content_run ops (patch a xs D)"
| "content_run (DISK_READ a n # ops) D = (let (E, out) = content_run ops D in (E, take n (drop a D) # out))"

fun op_fits :: "nat \<Rightarrow> nat \<Rightarrow> mal_op \<Rightarrow> bool" where
  "op_fits dsize bsize (DISK_WRITE a xs) \<longleftrightarrow> xs \<noteq> [] \<and> length xs \<le> bsize \<and> a + length xs \<le> dsize"
| "op_fits dsize bsize (DISK_READ a n) \<longleftrightarrow> 0 < n \<and> n \<le> bsize \<and> a + n \<le> dsize"

lemma bytes_put: "bytes (put_bytes b xs m) b (length xs) = xs"
  by (rule nth_equalityI) (auto simp: put_bytes_def)

lemma put_bytes_outside: "j \<notin> {b..<b + length xs} \<Longrightarrow> put_bytes b xs m j = m j"
  by (auto simp: put_bytes_def)

context mal_device
begin

lemma mal_run_content:
  assumes "dev_ok s" "need \<le> frames" "\<forall>x\<in>set ops. op_fits (dev_size s) bsize x" "bsize < 2 ^ 31" "{b..<b + bsize} \<inter> dev_owned s = {}"
  shows "\<exists>s' m' out. mal_run drv frames b ops s m = Some (s', m', out) \<and> dev_ok s' \<and> dev_size s' = dev_size s \<and>
    dev_owned s' = dev_owned s \<and> content_run ops (dev_content s m) = (dev_content s' m', out)"
  using assms
proof (induction ops arbitrary: s m)
  case Nil
  then show ?case by simp
next
  case (Cons x ops)
  show ?case
  proof (cases x)
    case (DISK_WRITE a xs)
    let ?m = "put_bytes b xs m"
    have fits: "0 < length xs" "length xs < 2 ^ 31" "a + length xs \<le> dev_size s" "length xs \<le> bsize"
      using Cons.prems DISK_WRITE by auto
    have dis: "{b..<b + length xs} \<inter> dev_owned s = {}" using Cons.prems(5) fits(4) by (auto simp: disjoint_iff)
    have same: "dev_content s ?m = dev_content s m"
      using dis by (intro content_owned [OF Cons.prems(1)]) (auto simp: disjoint_iff intro!: put_bytes_outside)
    obtain s1 m1 where w: "vk_mal_write drv frames a (length xs) b s ?m = Some (RETURN (int (length xs), s1, m1))" "dev_ok s1"
      "dev_size s1 = dev_size s" "dev_owned s1 = dev_owned s" "dev_content s1 m1 = patch a xs (dev_content s m)"
      using write_law [OF Cons.prems(1,2) fits(1-3) dis, of ?m] by (auto simp: bytes_put same)
    show ?thesis using Cons.IH [of s1 m1] Cons.prems w DISK_WRITE by auto
  next
    case (DISK_READ a n)
    have fits: "0 < n" "n < 2 ^ 31" "a + n \<le> dev_size s" "n \<le> bsize" using Cons.prems DISK_READ by auto
    have dis: "{b..<b + n} \<inter> dev_owned s = {}" using Cons.prems(5) fits(4) by (auto simp: disjoint_iff)
    obtain s1 m1 where r: "vk_mal_read drv frames a n b s m = Some (RETURN (int n, s1, m1))" "dev_ok s1"
      "dev_size s1 = dev_size s" "dev_owned s1 = dev_owned s" "dev_content s1 m1 = dev_content s m"
      "bytes m1 b n = take n (drop a (dev_content s m))"
      using read_law [OF Cons.prems(1,2) fits(1-3) dis, of m] by blast
    obtain s2 m2 out where i: "mal_run drv frames b ops s1 m1 = Some (s2, m2, out)" "dev_ok s2" "dev_size s2 = dev_size s1"
      "dev_owned s2 = dev_owned s1" "content_run ops (dev_content s1 m1) = (dev_content s2 m2, out)"
      using Cons.IH [of s1 m1] Cons.prems r by auto
    show ?thesis using r i DISK_READ by auto
  qed
qed

end

text \<open>A cache over a part of plain memory.\<close>

interpretation part_cached: cached_mal "vk_mim_mal_drv vk_mem_mal_drv" 2 mem_part.mim_ok mal_size mem_part.mim_owned mem_part.mim_content malloc
  for malloc
  using mem_part.mim.erasable_mal_axioms mem_part.mim.mal_device_axioms by (simp add: cached_mal_def erasable_mal_def numeral_2_eq_2)

text \<open>
  C35. A cache over a part of plain memory is not noticed: any program of writes and reads inside of the part runs to its end without a failed
  assertion, each operation returns its number of bytes, the reads give the bytes that the program would read from a list of bytes, and when
  the cache is closed at the end the part of the memory below is this list with all of the bytes that were written.
\<close>

theorem cached_part_run:
  fixes s :: "vk_mem_mal_t vk_mim_mal_t vk_cached_mal_t"
  assumes "mem_buffer (mim_host_mal (cm_host_mal s)) + mem_size (mim_host_mal (cm_host_mal s)) \<le> 2 ^ 32"
    and "mim_offset (cm_host_mal s) + mal_size (cm_host_mal s) \<le> mem_size (mim_host_mal (cm_host_mal s))"
    and "0 < cache s" "\<not> cache_valid s" "cache_size s = 2 ^ k" "k < 31" "cache_size s dvd mal_size (cm_host_mal s)"
    and "{cache s..<cache s + cache_size s} \<inter> mem_mal_owned (mim_host_mal (cm_host_mal s)) = {}"
    and "\<forall>x\<in>set ops. op_fits (mal_size (cm_host_mal s)) bsize x" "bsize < 2 ^ 31" "3 \<le> frames"
    and "{b..<b + bsize} \<inter> (mem_mal_owned (mim_host_mal (cm_host_mal s)) \<union> {cache s..<cache s + cache_size s}) = {}"
  shows "\<exists>s1 m1 out r s2 m2.
    mal_run (vk_cached_mal_drv malloc (vk_mim_mal_drv vk_mem_mal_drv)) frames b ops s m = Some (s1, m1, out) \<and>
    vk_mal_fini (vk_cached_mal_drv malloc (vk_mim_mal_drv vk_mem_mal_drv)) frames s1 m1 = Some (RETURN (r, s2, m2)) \<and>
    content_run ops (mem_part.mim_content (cm_host_mal s) m) = (mem_part.mim_content (cm_host_mal s2) m2, out)"
proof -
  have host: "mem_part.mim_ok (cm_host_mal s)" using assms(1,2) by (simp add: mem_part.mim_ok_def mem_mal_ok_def)
  have "part_cached.cm_ok s"
    using assms host by (auto simp: part_cached.cm_ok_def part_cached.cm_base_def mem_part.mim_owned_def)
  moreover have "part_cached.cm_owned s = mem_mal_owned (mim_host_mal (cm_host_mal s)) \<union> {cache s..<cache s + cache_size s}"
    "part_cached.cm_size s = mal_size (cm_host_mal s)" "part_cached.cm_content s m = mem_part.mim_content (cm_host_mal s) m"
    using assms(4) by (simp_all add: part_cached.cm_owned_def part_cached.cm_size_def part_cached.cm_content_def mem_part.mim_owned_def)
  ultimately obtain s1 m1 out where run: "mal_run (vk_cached_mal_drv malloc (vk_mim_mal_drv vk_mem_mal_drv)) frames b ops s m = Some (s1, m1, out)"
    "part_cached.cm_ok s1" "content_run ops (mem_part.mim_content (cm_host_mal s) m) = (part_cached.cm_content s1 m1, out)"
    using part_cached.cached.mal_run_content [of s frames ops bsize b malloc m] assms(9-12) by auto
  have f: "2 \<le> frames - 1" "frames \<noteq> 0" using assms(11) by auto
  obtain r s2 m2 where fini: "p_vk_cached_mal_fini (vk_mim_mal_drv vk_mem_mal_drv) (frames - 1) s1 m1 = Some (RETURN (r, s2, m2))"
    "mem_part.mim_content (cm_host_mal s2) m2 = part_cached.cm_content s1 m1"
    using part_cached.fini_cached [OF run(2) f(1), of m1] by blast
  have "vk_mal_fini (vk_cached_mal_drv malloc (vk_mim_mal_drv vk_mem_mal_drv)) frames s1 m1 = Some (RETURN (r, s2, m2))"
    using fini(1) f(2) by (simp add: vk_mal_fini_def vk_cached_mal_drv_def call_peda_def)
  then show ?thesis using run(1,3) fini(2) by auto
qed

theorem cached_part_run_witness:
  "\<exists>s1 m1 r s2 m2.
    mal_run (vk_cached_mal_drv (\<lambda>_. 600) (vk_mim_mal_drv vk_mem_mal_drv)) 3 100 [DISK_WRITE 2 [7, 8, 9], DISK_READ 1 3]
      \<lparr>mal_size = 16, cm_host_mal = \<lparr>mal_size = 16, mim_host_mal = ex_mem, mim_offset = 4\<rparr>, cache = 600, cache_size = 4, cache_pos = 0,
       cache_addr = 0, cache_valid = False, cm_blocks = {600}\<rparr> (\<lambda>_. 1) = Some (s1, m1, [[1, 7, 8]]) \<and>
    vk_mal_fini (vk_cached_mal_drv (\<lambda>_. 600) (vk_mim_mal_drv vk_mem_mal_drv)) 3 s1 m1 = Some (RETURN (r, s2, m2)) \<and>
    mem_part.mim_content (cm_host_mal s2) m2 = [1, 1, 7, 8, 9, 1, 1, 1, 1, 1, 1, 1, 1, 1, 1, 1]"
proof -
  let ?s = "\<lparr>mal_size = 16, cm_host_mal = \<lparr>mal_size = 16, mim_host_mal = ex_mem, mim_offset = 4\<rparr>, cache = 600, cache_size = 4, cache_pos = 0,
    cache_addr = 0, cache_valid = False, cm_blocks = {600}\<rparr>"
  have owned: "mem_mal_owned ex_mem = {1000..<1032}" by (rule ex_owned)
  have content: "mem_part.mim_content (cm_host_mal ?s) (\<lambda>_. 1) = replicate 16 1"
    by (rule nth_equalityI) (auto simp: mem_part.mim_content_def mem_mal_content_def ex_simps)
  have "content_run [DISK_WRITE 2 [7, 8, 9], DISK_READ 1 3] (replicate 16 (1::u8)) =
      ([1, 1, 7, 8, 9, 1, 1, 1, 1, 1, 1, 1, 1, 1, 1, 1], [[1, 7, 8]])"
    by (simp add: blk_write_def numeral_eq_Suc)
  then have run: "content_run [DISK_WRITE 2 [7, 8, 9], DISK_READ 1 3] (mem_part.mim_content (cm_host_mal ?s) (\<lambda>_. 1)) =
      ([1, 1, 7, 8, 9, 1, 1, 1, 1, 1, 1, 1, 1, 1, 1, 1], [[1, 7, 8]])"
    unfolding content .
  have "\<exists>s1 m1 out r s2 m2.
    mal_run (vk_cached_mal_drv (\<lambda>_. 600) (vk_mim_mal_drv vk_mem_mal_drv)) 3 100 [DISK_WRITE 2 [7, 8, 9], DISK_READ 1 3] ?s (\<lambda>_. 1) = Some (s1, m1, out) \<and>
    vk_mal_fini (vk_cached_mal_drv (\<lambda>_. 600) (vk_mim_mal_drv vk_mem_mal_drv)) 3 s1 m1 = Some (RETURN (r, s2, m2)) \<and>
    content_run [DISK_WRITE 2 [7, 8, 9], DISK_READ 1 3] (mem_part.mim_content (cm_host_mal ?s) (\<lambda>_. 1)) =
      (mem_part.mim_content (cm_host_mal s2) m2, out)"
    by (rule cached_part_run [where k = 2 and bsize = 10]) (auto simp: ex_simps owned)
  then show ?thesis unfolding run prod.inject by metis
qed

section \<open>The memory abstraction layer over SCSI\<close>

lemma rw10_param:
  assumes "length c = 16" "a div bs < 2 ^ 32" "n div bs < 2 ^ 16" "x = 0x28 \<or> x = 0x2A"
  shows "vk_scsi_get_rw_param (rw10 x a n bs c) = Some (a div bs, n div bs)" "length (rw10 x a n bs c) = 16"
    "cmd_code (rw10 x a n bs c) = (if x = 0x28 then 0x08 else 0x0A)"
proof -
  have "\<exists>c0 c1 c2 c3 c4 c5 c6 c7 c8 d. c = c0 # c1 # c2 # c3 # c4 # c5 # c6 # c7 # c8 # d \<and> length d = 7"
  proof -
    have "length c = Suc (Suc (Suc (Suc (Suc (Suc (Suc (Suc (Suc 7))))))))" using assms(1) by simp
    then show ?thesis unfolding length_Suc_conv by blast
  qed
  then obtain c0 c1 c2 c3 c4 c5 c6 c7 c8 d where c: "c = c0 # c1 # c2 # c3 # c4 # c5 # c6 # c7 # c8 # d" "length d = 7" by blast
  have eq: "rw10 x a n bs c = [x, c1] @ be32 (a div bs) @ [c6] @ be16 (n div bs) @ d"
    using assms(2) by (simp add: c(1) rw10_def put_cbd_def be16_def be32_def)
  have "be (rw10 x a n bs c) 2 4 = a div bs"
    using be_be32 [of "[x, c1]" 2 "a div bs" "[c6] @ be16 (n div bs) @ d"] assms(2) by (simp add: eq)
  moreover have "be (rw10 x a n bs c) 7 2 = n div bs"
    using assms(3) by (simp add: eq be_def be16_def unat_of_nat)
  moreover have "group_code (rw10 x a n bs c) = 0x20" using assms(4) by (auto simp: eq group_code_def)
  moreover show code: "cmd_code (rw10 x a n bs c) = (if x = 0x28 then 0x08 else 0x0A)" using assms(4) by (auto simp: eq cmd_code_def)
  ultimately show "vk_scsi_get_rw_param (rw10 x a n bs c) = Some (a div bs, n div bs)"
    by (simp add: vk_scsi_get_rw_param_def Let_def)
  show "length (rw10 x a n bs c) = 16" using c(2) by (simp add: eq be16_def)
qed

lemma scsi_mal_calls:
  "vk_mal_read (vk_scsi_mal_drv D) frames a n b s m = call_peda frames (\<lambda>fr. p_vk_scsi_mal_read D fr a n b s m)"
  "vk_mal_write (vk_scsi_mal_drv D) frames a n b s m = call_peda frames (\<lambda>fr. p_vk_scsi_mal_write D fr a n b s m)"
  by (simp_all add: vk_mal_read_def vk_mal_write_def vk_scsi_mal_drv_def)

text \<open>
  C36. The memory abstraction layer over a SCSI disk over a device of the memory abstraction layer is this device, for blocks: a read or a write
  of whole blocks, less than 65536, ends as the one of the device does, at the same address and of the same size, with the same return value
  or the same failure, and leaves the same device and memory.
\<close>

theorem scsi_mal_is_mal:
  assumes "bs = sm_block_size s" "bs = block_size (param (scsi s))" "0 < bs" "bs dvd a" "bs dvd n" "a div bs < 2 ^ 32" "n div bs < 2 ^ 16"
    and "a < 2 ^ 64" "n < 2 ^ 32" "length (cbd s) = 16" "b \<noteq> reply_addr (scsi s)" "4 \<le> frames"
  shows "\<exists>c c'. vk_mal_read (vk_scsi_mal_drv (vk_mal_virtual_scsi_drv drv)) frames a n b s m =
      await (vk_mal_read drv (frames - 3) a n b (ms_mal (scsi s)) m) (Some WAITS)
        (\<lambda>(r, d, m). Some (RETURN (r, s\<lparr>cbd := c, sm_mem := (b, n), scsi := (scsi s)\<lparr>ms_mal := d\<rparr>\<rparr>, m))) \<and>
    vk_mal_write (vk_scsi_mal_drv (vk_mal_virtual_scsi_drv drv)) frames a n b s m =
      await (vk_mal_write drv (frames - 3) a n b (ms_mal (scsi s)) m) (Some WAITS)
        (\<lambda>(r, d, m). Some (RETURN (r, s\<lparr>cbd := c', sm_mem := (b, n), scsi := (scsi s)\<lparr>ms_mal := d\<rparr>\<rparr>, m)))"
proof -
  let ?D = "vk_mal_virtual_scsi_drv drv" 
  have whole: "a div bs * block_size (param (scsi s)) mod 2 ^ 64 = a" "n div bs * block_size (param (scsi s)) mod 2 ^ 32 = n"
    using assms(4,5,8,9) by (simp_all flip: assms(2))
  have f: "3 \<le> frames - 1" "frames - 1 - 2 = frames - 3" "frames \<noteq> 0" using assms(12) by auto
  note p = rw10_param [OF assms(10,6,7)]
  have c: "vk_scsi_get_rw_param (rw10 0x28 a n bs (cbd s)) = Some (a div bs, n div bs)" "length (rw10 0x28 a n bs (cbd s)) = 16"
    "cmd_code (rw10 0x28 a n bs (cbd s)) = 0x08"
    using p [of "0x28"] by simp_all
  have c': "vk_scsi_get_rw_param (rw10 0x2A a n bs (cbd s)) = Some (a div bs, n div bs)" "length (rw10 0x2A a n bs (cbd s)) = 16"
    "cmd_code (rw10 0x2A a n bs (cbd s)) = 0x0A"
    using p [of "0x2A"] by simp_all
  note r = scsi_read_calls [OF c(1,2) assms(11) c(3) f(1), of drv n m, unfolded whole f(2)]
  note w = scsi_write_calls [OF c'(1,2) assms(11) c'(3) f(1), of drv n m, unfolded whole f(2)]
  have "vk_mal_read (vk_scsi_mal_drv ?D) frames a n b s m =
      await (vk_mal_read drv (frames - 3) a n b (ms_mal (scsi s)) m) (Some WAITS)
        (\<lambda>(r, d, m). Some (RETURN (r, s\<lparr>cbd := rw10 0x28 a n bs (cbd s), sm_mem := (b, n), scsi := (scsi s)\<lparr>ms_mal := d\<rparr>\<rparr>, m)))"
    using r f(3) assms(1,3)
    by (simp add: scsi_mal_calls call_peda_def p_vk_scsi_mal_read_def scsi_mal_rw_def scsi_mal_execute_def)
      (simp add: await_def split: option.split reply.split)
  moreover have "vk_mal_write (vk_scsi_mal_drv ?D) frames a n b s m =
      await (vk_mal_write drv (frames - 3) a n b (ms_mal (scsi s)) m) (Some WAITS)
        (\<lambda>(r, d, m). Some (RETURN (r, s\<lparr>cbd := rw10 0x2A a n bs (cbd s), sm_mem := (b, n), scsi := (scsi s)\<lparr>ms_mal := d\<rparr>\<rparr>, m)))"
    using w f(3) assms(1,3)
    by (simp add: scsi_mal_calls call_peda_def p_vk_scsi_mal_write_def scsi_mal_rw_def scsi_mal_execute_def)
      (simp add: await_def split: option.split reply.split)
  ultimately show ?thesis by blast
qed

definition ex_scsi_mal :: "vk_mem_mal_t vk_mal_scsi_t vk_scsi_mal_t" where
  "ex_scsi_mal = \<lparr>mal_size = 28, scsi = ex_disk, sm_block_size = 4, cbd = replicate 16 0, sm_mem = (0, 0), sm_buffer = 700\<rparr>"

definition ex_memory :: memory where
  "ex_memory = (\<lambda>_. 1)"

theorem scsi_mal_is_mal_witness:
  "\<exists>c. vk_mal_read (vk_scsi_mal_drv (vk_mal_virtual_scsi_drv vk_mem_mal_drv)) 4 8 4 100 ex_scsi_mal ex_memory =
    Some (RETURN (4, ex_scsi_mal\<lparr>cbd := c, sm_mem := (100, 4)\<rparr>, mem_copy 100 1008 4 ex_memory))"
proof -
  have r: "vk_mal_read vk_mem_mal_drv (4 - 3) 8 4 100 (ms_mal (scsi ex_scsi_mal)) ex_memory = Some (RETURN (4, ex_mem, mem_copy 100 1008 4 ex_memory))"
    using mem_mal_read [of ex_mem 1 4 8 100 ex_memory] by (simp add: ex_scsi_mal_def ex_simps mem_mal_ok_def ex_owned)
  have same: "ex_scsi_mal\<lparr>cbd := c, sm_mem := (100, 4), scsi := (scsi ex_scsi_mal)\<lparr>ms_mal := ex_mem\<rparr>\<rparr> = ex_scsi_mal\<lparr>cbd := c, sm_mem := (100, 4)\<rparr>" for c
    by (simp add: ex_scsi_mal_def ex_disk_def)
  have "\<exists>c c'. vk_mal_read (vk_scsi_mal_drv (vk_mal_virtual_scsi_drv vk_mem_mal_drv)) 4 8 4 100 ex_scsi_mal ex_memory =
      await (vk_mal_read vk_mem_mal_drv (4 - 3) 8 4 100 (ms_mal (scsi ex_scsi_mal)) ex_memory) (Some WAITS)
        (\<lambda>(r, d, m). Some (RETURN (r, ex_scsi_mal\<lparr>cbd := c, sm_mem := (100, 4), scsi := (scsi ex_scsi_mal)\<lparr>ms_mal := d\<rparr>\<rparr>, m))) \<and>
    vk_mal_write (vk_scsi_mal_drv (vk_mal_virtual_scsi_drv vk_mem_mal_drv)) 4 8 4 100 ex_scsi_mal ex_memory =
      await (vk_mal_write vk_mem_mal_drv (4 - 3) 8 4 100 (ms_mal (scsi ex_scsi_mal)) ex_memory) (Some WAITS)
        (\<lambda>(r, d, m). Some (RETURN (r, ex_scsi_mal\<lparr>cbd := c', sm_mem := (100, 4), scsi := (scsi ex_scsi_mal)\<lparr>ms_mal := d\<rparr>\<rparr>, m)))"
    by (rule scsi_mal_is_mal [where bs = 4]) (simp_all add: ex_scsi_mal_def ex_disk_def)
  then show ?thesis unfolding r await_def by (auto simp: same)
qed

section \<open>Deviations\<close>

text \<open>
  The size of a disk behind SCSI is one block short: READ CAPACITY reports the last block, not the number of blocks. Here, of the 32 bytes of
  the disk below 28 are left.
\<close>

lemma scsi_mal_size_short:
  "\<exists>c m'. p_vk_scsi_mal_init (vk_mal_virtual_scsi_drv vk_mem_mal_drv) 3 ex_scsi_mal m =
    Some (RETURN (0, ex_scsi_mal\<lparr>cbd := c, sm_mem := (700, 8), mal_size := 28\<rparr>, m'))"
proof -
  have init: "vk_scsi_init (vk_mal_virtual_scsi_drv vk_mem_mal_drv) 3 ex_disk m = Some (RETURN (0, ex_disk, m))"
    using ramdisk_init [of 3 ex_disk m] by (simp add: ex_simps) (simp add: ex_disk_def ex_mem_def)
  have inquiry: "\<exists>m'. vk_scsi_execute (vk_mal_virtual_scsi_drv vk_mem_mal_drv) 3 ([0x12, 0, 0, 0, 0x24] @ replicate 11 0) (Some (700, 36)) ex_disk m =
      Some (RETURN (36, ex_disk, m'))"
    by (simp add: vk_scsi_execute_def call_peda_def p_vk_virtual_scsi_execute_def Let_def ex_disk_def group_code_def cmd_code_def
        scsi_group6_def scsi_inquiry_def put_reply_def)
  have capacity: "\<exists>m'. vk_scsi_execute (vk_mal_virtual_scsi_drv vk_mem_mal_drv) 3 (0x25 # replicate 15 0) (Some (700, 8)) ex_disk m =
      Some (RETURN (8, ex_disk, m')) \<and> be32_at m' 700 = 7 \<and> be32_at m' 704 = 4" for m
    by (simp add: vk_scsi_execute_def call_peda_def p_vk_virtual_scsi_execute_def Let_def ex_disk_def group_code_def cmd_code_def
        scsi_group10_1_def scsi_read_capacity_def put_reply_def be32_at_def be_def be32_def nth_Cons')
  obtain m1 where m1: "vk_scsi_execute (vk_mal_virtual_scsi_drv vk_mem_mal_drv) 3 ([0x12, 0, 0, 0, 0x24] @ replicate 11 0) (Some (700, 36)) ex_disk m =
      Some (RETURN (36, ex_disk, m1))" using inquiry by blast
  obtain m2 where m2: "vk_scsi_execute (vk_mal_virtual_scsi_drv vk_mem_mal_drv) 3 (0x25 # replicate 15 0) (Some (700, 8)) ex_disk m1 =
      Some (RETURN (8, ex_disk, m2))" "be32_at m2 700 = 7" "be32_at m2 704 = 4" using capacity [of m1] by blast
  have tries: "scsi_mal_capacity D 3 3 s m' = scsi_mal_execute D 3 (0x25 # replicate 15 0) (sm_buffer s, 8) s m'
      (\<lambda>r s m. if r < 0 then scsi_mal_capacity D 3 2 s m else scsi_mal_capacity_done s m)" for D s m'
    using scsi_mal_capacity.simps(2) [of D 3 2 s m'] by simp
  show ?thesis
    using init m1 m2
    by (simp add: p_vk_scsi_mal_init_def ex_scsi_mal_def await_def scsi_mal_execute_def tries VSF_SCSI_MAL_CFG_CAPACITY_RETRY_def scsi_mal_capacity_done_def Let_def)
qed

text \<open>A read of 65536 blocks and more is cut to 16 bits: here no block is read at all.\<close>

lemma scsi_mal_long_read: "vk_scsi_get_rw_param (rw10 0x28 0 (65536 * 512) 512 (replicate 16 0)) = Some (0, 0)"
proof -
  have "replicate 16 (0::u8) = [0, 0, 0, 0, 0, 0, 0, 0, 0, 0, 0, 0, 0, 0, 0, 0]" by (simp add: numeral_eq_Suc)
  then show ?thesis
    by (simp add: rw10_def put_cbd_def be16_def be32_def vk_scsi_get_rw_param_def group_code_def cmd_code_def be_def)
qed

text \<open>
  The mask of the alignment has 32 bits: a block above 4 GB is never the block that is read to the cache for it, so that a write there reads,
  erases and writes blocks below without an end.
\<close>

lemma cached_write_high:
  fixes addr :: nat
  assumes "2 ^ 32 \<le> addr" "k < 32"
  shows "(let aligned_addr = addr AND (2 ^ 32 - 2 ^ k) in aligned_addr + (addr - aligned_addr) mod 2 ^ 32 \<noteq> addr)"
proof -
  define low where "low = addr mod 2 ^ 32"
  have low: "low < 2 ^ 32" "addr = 2 ^ 32 * (addr div 2 ^ 32) + low" by (simp_all add: low_def)
  note mask = high_mask [OF assms(2)]
  have "addr AND (2 ^ 32 - 2 ^ k) = low AND (2 ^ 32 - 2 ^ k)"
    unfolding mask low_def take_bit_eq_mod [symmetric] by (rule bit_eqI) (auto simp: bit_simps)
  then have a: "addr AND (2 ^ 32 - 2 ^ k) = low - low mod 2 ^ k" using aligned_down [OF low(1) assms(2)] by simp
  have "low mod 2 ^ k \<le> low" by (rule mod_less_eq_dividend)
  then have "addr - (low - low mod 2 ^ k) = 2 ^ 32 * (addr div 2 ^ 32) + low mod 2 ^ k" using low(2) by linarith
  then have "(addr - (low - low mod 2 ^ k)) mod 2 ^ 32 = low mod 2 ^ k mod 2 ^ 32" by simp
  also have "\<dots> = low mod 2 ^ k" using low(1) \<open>low mod 2 ^ k \<le> low\<close> by (intro mod_less) linarith
  finally have "low - low mod 2 ^ k + (addr - (low - low mod 2 ^ k)) mod 2 ^ 32 = low" using \<open>low mod 2 ^ k \<le> low\<close> by simp
  then show ?thesis using a low(1) assms(1) by (simp add: Let_def)
qed

text \<open>
  An erase leaves the block in the cache as it is, unless it starts there: here the first two blocks of the device are erased, and the second
  one is read with its old bytes and will be written again.
\<close>

lemma cached_erase_keeps_block:
  assumes "cache_valid s" "cache_addr s = 4" "cache_size s = 4" "cm_host_mal s = ex_mem" "0 < cache s"
  shows "\<exists>s' m'. p_vk_cached_mal_erase vk_mem_mal_drv 1 0 8 s m = Some (RETURN (0, s', m')) \<and> cache_valid s' \<and> cache_addr s' = 4 \<and>
    m' 1004 = 0xFF"
proof -
  have "vk_mal_erase vk_mem_mal_drv 1 0 8 ex_mem m = Some (RETURN (0, ex_mem, mem_fill (mem_buffer ex_mem + 0) 0xFF 8 m))"
    by (rule mem_mal_erase) (simp_all add: ex_simps mem_mal_ok_def)
  then show ?thesis using assms by (simp add: p_vk_cached_mal_erase_def host_io_def await_def mem_fill_def ex_simps)
qed

text \<open>The block of the heap is not given back when nothing is in the cache at the end.\<close>

lemma cached_fini_leaks:
  assumes "\<not> cache_valid s" "cache s \<in> cm_blocks s"
  shows "\<exists>s' m'. p_vk_cached_mal_fini drv frames s m = Some (RETURN (0, s', m')) \<and> cache s \<in> cm_blocks s'"
  using assms by (simp add: p_vk_cached_mal_fini_def)

end
