(* ===== verification/VSF_Input.thy ===== *)
theory VSF_Input
  imports VSF_Prelude "HOL-Library.Monad_Syntax"
begin

unbundle bit_operations_syntax

text \<open>
  The core of the input component, \<open>src/source/component/input/vsf_input.c\<close>: fields of bits in reports, the comparison
  of two reports, the notifiers; and from \<open>protocol\<close> the gamepads, the scan codes of keyboards and the events of mice and
  touch screens.

  A buffer is the list of the bytes that can be accessed through its pointer; \<open>None\<close> is an access behind them, or a
  shift by at least the width of the operand. \<open>uint_fast8_t\<close> and \<open>uint_fast32_t\<close> have 32 bits on the target. Offsets and
  lengths of fields are natural numbers: an offset that wraps around has accessed a byte at \<open>2 ^ 29 - 1\<close> before.
\<close>

section \<open>Fields of bits\<close>

text \<open>A round of each of the loops handles the bits of the field in one byte.\<close>

definition chunk_len :: "nat \<Rightarrow> nat \<Rightarrow> nat \<Rightarrow> nat" where
  "chunk_len offset len result_len = min (len - result_len) (8 - offset mod 8)"

lemma chunk_len_pos: "r < len \<Longrightarrow> 0 < chunk_len offset len r"
  by (simp add: chunk_len_def)

lemma chunk_len_less: "r < len \<Longrightarrow> len - (r + chunk_len offset len r) < len - r"
  using chunk_len_pos [of r len offset] by linarith

definition chunk_mask :: "nat \<Rightarrow> u32" where
  "chunk_mask bitlen = push_bit bitlen 1 - 1"

definition chunk_of :: "u32 \<Rightarrow> nat \<Rightarrow> nat \<Rightarrow> nat \<Rightarrow> u32" where
  "chunk_of x offset len r = push_bit (offset mod 8) (drop_bit r x AND chunk_mask (chunk_len offset len r))"

definition upd_byte :: "u8 list \<Rightarrow> nat \<Rightarrow> (u32 \<Rightarrow> u32) \<Rightarrow> u8 list option" where
  "upd_byte buf i f = (if i < length buf then Some (buf[i := ucast (f (ucast (buf ! i)))]) else None)"

definition shift_ok :: "nat \<Rightarrow> unit option" where
  "shift_ok n = (if n < 32 then Some () else None)"

function p_buf_set :: "u8 list \<Rightarrow> nat \<Rightarrow> nat \<Rightarrow> nat \<Rightarrow> u8 list option" where
  "p_buf_set buf offset len result_len = (if result_len < len then do {
       shift_ok result_len;
       buf \<leftarrow> upd_byte buf (offset div 8) (\<lambda>b. b OR chunk_of (- 1) offset len result_len);
       p_buf_set buf (offset + chunk_len offset len result_len) len (result_len + chunk_len offset len result_len)
     } else Some buf)"
  by pat_completeness auto
termination by (relation "measure (\<lambda>(_, _, len, r). len - r)") (simp_all add: chunk_len_less)

definition vk_input_buf_set :: "u8 list \<Rightarrow> nat \<Rightarrow> nat \<Rightarrow> u8 list option" where
  "vk_input_buf_set buf offset len = p_buf_set buf offset len 0"

function p_buf_clear :: "u8 list \<Rightarrow> nat \<Rightarrow> nat \<Rightarrow> nat \<Rightarrow> u8 list option" where
  "p_buf_clear buf offset len result_len = (if result_len < len then do {
       shift_ok result_len;
       buf \<leftarrow> upd_byte buf (offset div 8) (\<lambda>b. b AND NOT (chunk_of (- 1) offset len result_len));
       p_buf_clear buf (offset + chunk_len offset len result_len) len (result_len + chunk_len offset len result_len)
     } else Some buf)"
  by pat_completeness auto
termination by (relation "measure (\<lambda>(_, _, len, r). len - r)") (simp_all add: chunk_len_less)

definition vk_input_buf_clear :: "u8 list \<Rightarrow> nat \<Rightarrow> nat \<Rightarrow> u8 list option" where
  "vk_input_buf_clear buf offset len = p_buf_clear buf offset len 0"

function p_buf_get_value :: "u8 list \<Rightarrow> nat \<Rightarrow> nat \<Rightarrow> nat \<Rightarrow> u32 \<Rightarrow> u32 option" where
  "p_buf_get_value buf offset len result_len result = (if result_len < len then do {
       shift_ok result_len;
       b \<leftarrow> (if offset div 8 < length buf then Some (ucast (buf ! (offset div 8)) :: u32) else None);
       p_buf_get_value buf (offset + chunk_len offset len result_len) len (result_len + chunk_len offset len result_len)
         (result OR push_bit result_len (drop_bit (offset mod 8) b AND chunk_mask (chunk_len offset len result_len)))
     } else Some result)"
  by pat_completeness auto
termination by (relation "measure (\<lambda>(_, _, len, r, _). len - r)") (simp_all add: chunk_len_less)

definition vk_input_buf_get_value :: "u8 list \<Rightarrow> nat \<Rightarrow> nat \<Rightarrow> u32 option" where
  "vk_input_buf_get_value buf offset len = p_buf_get_value buf offset len 0 0"

function p_buf_set_value :: "u8 list \<Rightarrow> nat \<Rightarrow> nat \<Rightarrow> u32 \<Rightarrow> nat \<Rightarrow> u8 list option" where
  "p_buf_set_value buf offset len x result_len = (if result_len < len then do {
       shift_ok result_len;
       buf \<leftarrow> upd_byte buf (offset div 8) (\<lambda>b. b AND NOT (chunk_of (- 1) offset len result_len));
       buf \<leftarrow> upd_byte buf (offset div 8) (\<lambda>b. b OR chunk_of x offset len result_len);
       p_buf_set_value buf (offset + chunk_len offset len result_len) len x (result_len + chunk_len offset len result_len)
     } else Some buf)"
  by pat_completeness auto
termination by (relation "measure (\<lambda>(_, _, len, _, r). len - r)") (simp_all add: chunk_len_less)

definition vk_input_buf_set_value :: "u8 list \<Rightarrow> nat \<Rightarrow> nat \<Rightarrow> u32 \<Rightarrow> u8 list option" where
  "vk_input_buf_set_value buf offset len x = p_buf_set_value buf offset len x 0"

declare p_buf_set.simps [simp del] p_buf_clear.simps [simp del] p_buf_get_value.simps [simp del] p_buf_set_value.simps [simp del]

section \<open>Reports\<close>

record vk_input_item_info_t =
  i_item :: u8
  i_bitlen :: "7 word"
  i_is_signed :: bool
  i_offset :: "14 word"
  i_config :: bool
  i_endian :: bool

text \<open>A value is a union of 64 bits; a store to its part \<open>valu32\<close> keeps the upper half.\<close>

type_synonym vk_input_value_t = u64

definition set_valu32 :: "vk_input_value_t \<Rightarrow> u32 \<Rightarrow> vk_input_value_t" where
  "set_valu32 v x = push_bit 32 (drop_bit 32 v) OR ucast x"

definition valu32 :: "vk_input_value_t \<Rightarrow> u32" where
  "valu32 v = ucast v"

record vk_input_evt_t =
  evt_dev :: "nat option"
  evt_duration :: u32
  evt_id :: u64
  evt_pre :: vk_input_value_t
  evt_cur :: vk_input_value_t

record vk_input_parser_t =
  ps_info :: "vk_input_item_info_t list"
  ps_num :: u8
  ps_pre :: vk_input_value_t
  ps_cur :: vk_input_value_t

lemma unat_pred_less: "w \<noteq> 0 \<Longrightarrow> unat (w - 1) < unat w"
  for w :: "'a::len word"
  by (metis diff_less unat_gt_0 unat_minus_one zero_less_one)

text \<open>The result is the index of the item whose value differs. The counter goes below zero when there is none.\<close>

function vk_input_parse :: "vk_input_parser_t \<Rightarrow> u8 list \<Rightarrow> u8 list \<Rightarrow> (nat option \<times> vk_input_parser_t) option" where
  "vk_input_parse p pre cur = (if ps_num p = 0 then Some (None, p\<lparr>ps_num := ps_num p - 1\<rparr>) else
     let i = unat (ps_num p - 1); info = ps_info p ! i in
     if length (ps_info p) \<le> i then None else
     do {
       cur_value \<leftarrow> vk_input_buf_get_value cur (unat (i_offset info)) (unat (i_bitlen info));
       pre_value \<leftarrow> vk_input_buf_get_value pre (unat (i_offset info)) (unat (i_bitlen info));
       if cur_value \<noteq> pre_value
       then Some (Some i, p\<lparr>ps_num := ps_num p - 1, ps_cur := set_valu32 (ps_cur p) cur_value, ps_pre := set_valu32 (ps_pre p) pre_value\<rparr>)
       else vk_input_parse (p\<lparr>ps_num := ps_num p - 1\<rparr>) pre cur
     })"
  by pat_completeness auto
termination
  by (relation "measure (\<lambda>(p, _). unat (ps_num p))") (simp_all add: unat_pred_less)

declare vk_input_parse.simps [simp del]

lemma vk_input_parse_num: "vk_input_parse p pre cur = Some (Some i, q) \<Longrightarrow> unat (ps_num q) < unat (ps_num p)"
proof (induction p pre cur rule: vk_input_parse.induct)
  case (1 p pre cur)
  have m: "ps_num p \<noteq> 0 \<Longrightarrow> unat (ps_num p - 1) < unat (ps_num p)" by (rule unat_pred_less)
  have n: "ps_num p \<noteq> 0 \<Longrightarrow> unat (ps_num q) < unat (ps_num p - 1) \<Longrightarrow> unat (ps_num q) < unat (ps_num p)"
    using m by (rule less_trans [rotated])
  note e = "1.prems" [unfolded vk_input_parse.simps [of p pre cur]]
  show ?case
  proof (cases "vk_input_parse (p\<lparr>ps_num := ps_num p - 1\<rparr>) pre cur = Some (Some i, q)")
    case True
    with e m "1.IH" show ?thesis
      by (auto simp: Let_def bind_eq_Some_conv split: if_splits intro: n)
  next
    case False
    with e m show ?thesis
      by (auto simp: Let_def bind_eq_Some_conv split: if_splits)
  qed
qed

definition vk_input_update_timestamp :: "(u32 \<Rightarrow> u32 \<Rightarrow> u32) \<Rightarrow> u32 \<Rightarrow> u32 \<Rightarrow> u32 \<times> u32" where
  "vk_input_update_timestamp duration_of tick timestamp =
     (if 0 < timestamp then duration_of timestamp tick else 0, tick)"

section \<open>Notifiers\<close>

text \<open>
  A notifier has a name; the list has the one registered last in front. A registration or a removal stops the program
  when the notifier is in the list or is not; bits of the mask are types of events.
\<close>

record vk_input_notifier_t =
  nt_name :: nat
  nt_dev :: "nat option"
  nt_mask :: u32

definition vk_input_notifier_register :: "nat \<Rightarrow> vk_input_notifier_t list \<Rightarrow> vk_input_notifier_t \<Rightarrow> vk_input_notifier_t list option" where
  "vk_input_notifier_register type_sync l n =
     (let n = n\<lparr>nt_mask := nt_mask n OR push_bit type_sync 1\<rparr> in
      if nt_name n \<in> set (map nt_name l) then None else Some (n # l))"

definition vk_input_notifier_unregister :: "vk_input_notifier_t list \<Rightarrow> nat \<Rightarrow> vk_input_notifier_t list option" where
  "vk_input_notifier_unregister l n = (if n \<in> set (map nt_name l) then Some (filter (\<lambda>m. nt_name m \<noteq> n) l) else None)"

text \<open>The notifiers that are called with an event of a type and a device, in their order.\<close>

definition vsf_input_on_evt :: "vk_input_notifier_t list \<Rightarrow> nat \<Rightarrow> nat option \<Rightarrow> nat list" where
  "vsf_input_on_evt l type dev =
     map nt_name (filter (\<lambda>n. (nt_dev n = None \<or> nt_dev n = dev) \<and> nt_mask n AND push_bit type 1 \<noteq> 0) l)"

section \<open>Gamepads\<close>

definition GAMEPAD_ID_NUM :: u8 where
  "GAMEPAD_ID_NUM = 28"

record vk_gamepad_evt_t = vk_input_evt_t +
  gp_info :: vk_input_item_info_t

definition p_gamepad_evt :: "nat \<Rightarrow> vk_input_parser_t \<Rightarrow> nat \<Rightarrow> vk_gamepad_evt_t" where
  "p_gamepad_evt dev p i =
     \<lparr>evt_dev = Some dev, evt_duration = 0, evt_id = ucast (i_item (ps_info p ! i)), evt_pre = ps_pre p, evt_cur = ps_cur p,
       gp_info = ps_info p ! i\<rparr>"

function p_gamepad_loop :: "nat \<Rightarrow> vk_input_parser_t \<Rightarrow> u8 list \<Rightarrow> u8 list \<Rightarrow> vk_gamepad_evt_t list option" where
  "p_gamepad_loop dev p pre cur = (case vk_input_parse p pre cur of None \<Rightarrow> None
     | Some (None, q) \<Rightarrow> Some []
     | Some (Some i, q) \<Rightarrow> map_option (\<lambda>es. p_gamepad_evt dev q i # es) (p_gamepad_loop dev q pre cur))"
  by pat_completeness auto
termination by (relation "measure (\<lambda>(_, p, _). unat (ps_num p))") (auto dest: vk_input_parse_num)

declare p_gamepad_loop.simps [simp del]

text \<open>The events for \<open>vsf_input_on_gamepad\<close>; the event \<open>GAMEPAD_ID_DUMMY\<close> ends a report with changes.\<close>

definition vk_gamepad_input_parse :: "nat \<Rightarrow> vk_input_item_info_t list \<Rightarrow> u8 list \<Rightarrow> u8 list \<Rightarrow> vk_gamepad_evt_t list option" where
  "vk_gamepad_input_parse dev item_info pre cur = do {
     es \<leftarrow> p_gamepad_loop dev \<lparr>ps_info = item_info, ps_num = GAMEPAD_ID_NUM, ps_pre = 0, ps_cur = 0\<rparr> pre cur;
     Some (if es = [] then [] else es @ [(last es)\<lparr>evt_id := 0\<rparr>])
   }"

section \<open>Keyboards\<close>

definition VSF_KB_PAUSE :: u8 where
  "VSF_KB_PAUSE = 72"

definition keycode2scancode_0_71 :: "u8 list" where
  "keycode2scancode_0_71 = [
    0, 0, 0, 0, 0x1E, 0x30, 0x2E, 0x20, 0x12, 0x21, 0x22, 0x23,
    0x17, 0x24, 0x25, 0x26, 0x32, 0x31, 0x18, 0x19, 0x10, 0x13, 0x1F, 0x14,
    0x16, 0x2F, 0x11, 0x2D, 0x15, 0x2C, 0x02, 0x03, 0x04, 0x05, 0x06, 0x07,
    0x08, 0x09, 0x0A, 0x0B, 0x1C, 0x01, 0x0E, 0x0F, 0x39, 0x0C, 0x0D, 0x1A,
    0x1B, 0x2B, 0, 0x27, 0x28, 0x29, 0x33, 0x34, 0x35, 0x3A, 0x3B, 0x3C,
    0x3D, 0x3E, 0x3F, 0x40, 0x41, 0x42, 0x43, 0x44, 0x57, 0x58, 0x54, 0x46]"

definition keycode2scancode_72_99 :: "u16 list" where
  "keycode2scancode_72_99 = [
    0xE11D, 0xE052, 0xE047, 0xE049, 0xE053, 0xE04F, 0xE051, 0xE04D, 0xE04B, 0xE050, 0xE048, 0x45,
    0xE035, 0x37, 0x4A, 0x4E, 0xE01C, 0x4F, 0x50, 0x51, 0x4B, 0x4C, 0x4D, 0x47,
    0x48, 0x49, 0x52, 0x53]"

definition keycode2scancode_224_231 :: "u16 list" where
  "keycode2scancode_224_231 = [
    0x1D, 0x2A, 0x38, 0xE05B, 0xE01D, 0x36, 0xE038, 0xE05C]"

definition parse_scancode16 :: "u16 \<Rightarrow> u8 list" where
  "parse_scancode16 x = (if x AND 0xFF00 \<noteq> 0 then [ucast (x AND 0xFF), ucast (drop_bit 8 x)] else [ucast x])"

text \<open>The bytes that are stored in \<open>scancode\<close>.\<close>

definition p_vsf_input_keyboard_get_scancode :: "u8 \<Rightarrow> u8 list" where
  "p_vsf_input_keyboard_get_scancode keycode =
     (if keycode = VSF_KB_PAUSE then [0xE1, 0x1D, 0x45, 0xE1, 0x9D, 0xC5]
      else if keycode < 72 then [keycode2scancode_0_71 ! unat keycode]
      else if keycode < 100 then parse_scancode16 (keycode2scancode_72_99 ! unat (keycode - 72))
      else if keycode < 224 then []
      else if keycode < 232 then parse_scancode16 (keycode2scancode_224_231 ! unat (keycode - 224))
      else [])"

section \<open>Mice and touch screens\<close>

text \<open>The macros for the events of a mouse, with arguments of 32 bits and the flag for relative positions as 0 or 1.\<close>

definition vsf_input_mouse_evt_move_set :: "vk_input_evt_t \<Rightarrow> u32 \<Rightarrow> u32 \<Rightarrow> u32 \<Rightarrow> vk_input_evt_t" where
  "vsf_input_mouse_evt_move_set e x y rel =
     e\<lparr>evt_id := ucast (push_bit 16 rel), evt_cur := set_valu32 (evt_cur e) (x OR push_bit 16 y)\<rparr>"

definition vsf_input_mouse_evt_wheel_set :: "vk_input_evt_t \<Rightarrow> u32 \<Rightarrow> u32 \<Rightarrow> vk_input_evt_t" where
  "vsf_input_mouse_evt_wheel_set e x y =
     e\<lparr>evt_id := 2 OR push_bit 16 1, evt_cur := set_valu32 (evt_cur e) (x OR push_bit 16 y)\<rparr>"

definition vsf_input_mouse_evt_button_set :: "vk_input_evt_t \<Rightarrow> u32 \<Rightarrow> u32 \<Rightarrow> u32 \<Rightarrow> u32 \<Rightarrow> u32 \<Rightarrow> vk_input_evt_t" where
  "vsf_input_mouse_evt_button_set e button down x y rel =
     e\<lparr>evt_id := ucast (1 OR push_bit 8 button OR push_bit 12 down OR push_bit 16 rel),
       evt_cur := set_valu32 (evt_cur e) (x OR push_bit 16 y)\<rparr>"

definition vsf_input_mouse_evt_get :: "vk_input_evt_t \<Rightarrow> u64" where
  "vsf_input_mouse_evt_get e = evt_id e AND 0xFF"

definition vsf_input_mouse_is_relative :: "vk_input_evt_t \<Rightarrow> bool" where
  "vsf_input_mouse_is_relative e \<longleftrightarrow> drop_bit 16 (evt_id e) AND 1 \<noteq> 0"

definition vsf_input_mouse_evt_button_get :: "vk_input_evt_t \<Rightarrow> u32" where
  "vsf_input_mouse_evt_button_get e = ucast (drop_bit 8 (evt_id e) AND 3)"

definition vsf_input_mouse_evt_button_is_down :: "vk_input_evt_t \<Rightarrow> bool" where
  "vsf_input_mouse_evt_button_is_down e \<longleftrightarrow> drop_bit 12 (evt_id e) AND 1 \<noteq> 0"

definition vsf_input_mouse_evt_get_x :: "vk_input_evt_t \<Rightarrow> int" where
  "vsf_input_mouse_evt_get_x e = sint (ucast (valu32 (evt_cur e) AND 0xFFFF) :: u16)"

definition vsf_input_mouse_evt_get_y :: "vk_input_evt_t \<Rightarrow> int" where
  "vsf_input_mouse_evt_get_y e = sint (ucast (drop_bit 16 (valu32 (evt_cur e)) AND 0xFFFF) :: u16)"

record vk_touchscreen_evt_t = vk_input_evt_t +
  ts_width :: u16
  ts_height :: u16

text \<open>The macro for touch events with unsigned coordinates of 32 bits, and with the sign extension of 16-bit ones.\<close>

definition touchscreen_id :: "u32 \<Rightarrow> bool \<Rightarrow> u64" where
  "touchscreen_id i down = ucast (i OR push_bit 8 (of_bool down))"

definition vsf_input_touchscreen_set :: "vk_touchscreen_evt_t \<Rightarrow> u32 \<Rightarrow> bool \<Rightarrow> u32 \<Rightarrow> u32 \<Rightarrow> u32 \<Rightarrow> vk_touchscreen_evt_t" where
  "vsf_input_touchscreen_set e i down pressure x y =
     e\<lparr>evt_id := touchscreen_id i down, evt_cur := ucast (x OR push_bit 16 y) OR push_bit 32 (ucast pressure)\<rparr>"

definition vsf_input_touchscreen_set_u16 :: "vk_touchscreen_evt_t \<Rightarrow> u32 \<Rightarrow> bool \<Rightarrow> u16 \<Rightarrow> u16 \<Rightarrow> u16 \<Rightarrow> vk_touchscreen_evt_t" where
  "vsf_input_touchscreen_set_u16 e i down pressure x y =
     e\<lparr>evt_id := touchscreen_id i down,
       evt_cur := scast (ucast x OR push_bit 16 (ucast y) :: u32) OR push_bit 32 (ucast pressure)\<rparr>"

definition vsf_input_touchscreen_get_id :: "vk_touchscreen_evt_t \<Rightarrow> u8" where
  "vsf_input_touchscreen_get_id e = ucast (evt_id e AND 0xFF)"

definition vsf_input_touchscreen_is_down :: "vk_touchscreen_evt_t \<Rightarrow> bool" where
  "vsf_input_touchscreen_is_down e \<longleftrightarrow> drop_bit 8 (evt_id e) AND 0xFF \<noteq> 0"

definition vsf_input_touchscreen_get_x :: "vk_touchscreen_evt_t \<Rightarrow> u16" where
  "vsf_input_touchscreen_get_x e = ucast (evt_cur e AND 0xFFFF)"

definition vsf_input_touchscreen_get_y :: "vk_touchscreen_evt_t \<Rightarrow> u16" where
  "vsf_input_touchscreen_get_y e = ucast (drop_bit 16 (evt_cur e) AND 0xFFFF)"

definition vsf_input_touchscreen_get_pressure :: "vk_touchscreen_evt_t \<Rightarrow> u16" where
  "vsf_input_touchscreen_get_pressure e = ucast (drop_bit 32 (evt_cur e) AND 0xFFFF)"

end
