(* ===== verification/VSF_Hid.thy ===== *)
theory VSF_Hid
  imports VSF_Input
begin

unbundle bit_operations_syntax

text \<open>
  The driver for human interface devices, \<open>src/source/component/input/driver/hid/vsf_input_hid.c\<close>: the parser of report
  descriptors, the events of input reports, and touch screens.

  Blocks of the heap have names. The environment says which allocation succeeds and lists the blocks that are in use;
  \<open>None\<close> is a second release of a block, an access behind a buffer or an array, an overflow of a signed product or a failed
  assertion. The contents of a new usage are all stored before it is used.
\<close>

section \<open>Data\<close>

datatype hid_hook = On_New_Dev | On_Free_Dev

record hid_env =
  he_live :: "nat list"
  he_next :: nat
  he_ok :: "nat \<Rightarrow> bool"
  he_log :: "hid_hook list"

definition hid_malloc :: "hid_env \<Rightarrow> nat option \<times> hid_env" where
  "hid_malloc e = (let n = he_next e in
     if he_ok e n then (Some n, e\<lparr>he_next := n + 1, he_live := n # he_live e\<rparr>) else (None, e\<lparr>he_next := n + 1\<rparr>))"

definition hid_free :: "hid_env \<Rightarrow> nat \<Rightarrow> hid_env option" where
  "hid_free e n = (if n \<in> set (he_live e) then Some (e\<lparr>he_live := remove1 n (he_live e)\<rparr>) else None)"

fun hid_free_all :: "hid_env \<Rightarrow> nat list \<Rightarrow> hid_env option" where
  "hid_free_all e [] = Some e"
| "hid_free_all e (n # ns) = hid_free e n \<bind> (\<lambda>e. hid_free_all e ns)"

record vk_hid_usage_t =
  us_blk :: nat
  us_generic_usage_page :: u8
  us_generic_usage_id :: u8
  us_data_flag :: u8
  us_usage_page :: u8
  us_usage_min :: u8
  us_usage_max :: u8
  us_logical_min :: u32
  us_logical_max :: u32
  us_bit_offset :: u32
  us_bit_length :: u32
  us_report_size :: u32
  us_report_count :: u32

definition hid_usage_is_var :: "vk_hid_usage_t \<Rightarrow> bool" where
  "hid_usage_is_var u \<longleftrightarrow> us_data_flag u AND 2 \<noteq> 0"

definition hid_usage_is_rel :: "vk_hid_usage_t \<Rightarrow> bool" where
  "hid_usage_is_rel u \<longleftrightarrow> us_data_flag u AND 4 \<noteq> 0"

text \<open>Signed numbers are words; \<open>rp_id\<close> and the bounds of usages in a descriptor are read with their sign.\<close>

record vk_hid_report_t =
  rp_blk :: nat
  rp_type :: u8
  rp_id :: u16
  rp_bitlen :: u16
  rp_value :: "(nat \<times> u8 list) option"
  rp_usages :: "vk_hid_usage_t list"

record vk_input_hid_t =
  hd_reports :: "vk_hid_report_t list"
  hd_timestamp :: u32
  hd_has_id :: bool

record vk_hid_desc_t =
  ds_report_id :: u16
  ds_report_size :: u16
  ds_report_count :: u16
  ds_usage_num :: u16
  ds_generic_usage_page :: u8
  ds_generic_usage_id :: u8
  ds_usage_page :: u8
  ds_collection :: u8
  ds_usage_min :: u16
  ds_usage_max :: u16
  ds_logical_min :: u32
  ds_logical_max :: u32
  ds_usages :: "u8 list"

record hid_parser =
  hp_dev :: vk_input_hid_t
  hp_desc :: vk_hid_desc_t
  hp_env :: hid_env

datatype hid_err = HID_NONE | HID_FAIL | HID_NOT_SUPPORT

definition HID_ITEM_INPUT :: u8 where "HID_ITEM_INPUT = 0x80"
definition HID_ITEM_OUTPUT :: u8 where "HID_ITEM_OUTPUT = 0x90"
definition HID_ITEM_FEATURE :: u8 where "HID_ITEM_FEATURE = 0xB0"

definition HID_ITEM_SIZE :: "u8 \<Rightarrow> nat" where
  "HID_ITEM_SIZE x = (if x AND 3 = 3 then 4 else unat (x AND 3))"

definition HID_ITEM_TAG :: "u8 \<Rightarrow> u8" where
  "HID_ITEM_TAG x = x AND 0xFC"

section \<open>Reports and usages of a descriptor\<close>

fun find_report :: "(vk_hid_report_t \<Rightarrow> bool) \<Rightarrow> vk_hid_report_t list \<Rightarrow> nat option" where
  "find_report P [] = None"
| "find_report P (r # rs) = (if P r then Some 0 else map_option Suc (find_report P rs))"

text \<open>The result is the position of the report in the list; a new one is the first.\<close>

definition p_vk_hid_get_report :: "hid_parser \<Rightarrow> u8 \<Rightarrow> nat option \<times> hid_parser" where
  "p_vk_hid_get_report s type =
     (case find_report (\<lambda>r. rp_type r = type \<and> rp_id r = ds_report_id (hp_desc s)) (hd_reports (hp_dev s)) of
        Some i \<Rightarrow> (Some i, s)
      | None \<Rightarrow> (case hid_malloc (hp_env s) of
          (None, e) \<Rightarrow> (None, s\<lparr>hp_env := e\<rparr>)
        | (Some n, e) \<Rightarrow>
            let r = \<lparr>rp_blk = n, rp_type = type,
              rp_id = (if 0 \<le> sint (ds_report_id (hp_desc s)) then ds_report_id (hp_desc s) else - 1),
              rp_bitlen = 0, rp_value = None, rp_usages = []\<rparr>
            in (Some 0, s\<lparr>hp_env := e, hp_dev := (hp_dev s)\<lparr>hd_reports := r # hd_reports (hp_dev s)\<rparr>\<rparr>)))"

definition upd_report :: "nat \<Rightarrow> (vk_hid_report_t \<Rightarrow> vk_hid_report_t) \<Rightarrow> hid_parser \<Rightarrow> hid_parser" where
  "upd_report i f s = s\<lparr>hp_dev := (hp_dev s)\<lparr>hd_reports := (hd_reports (hp_dev s))[i := f (hd_reports (hp_dev s) ! i)]\<rparr>\<rparr>"

definition upd_desc :: "(vk_hid_desc_t \<Rightarrow> vk_hid_desc_t) \<Rightarrow> hid_parser \<Rightarrow> hid_parser" where
  "upd_desc f s = s\<lparr>hp_desc := f (hp_desc s)\<rparr>"

text \<open>The product of the size and the count of a report is computed as a signed number.\<close>

definition report_bits :: "vk_hid_desc_t \<Rightarrow> nat option" where
  "report_bits d = (let n = uint (ds_report_size d) * uint (ds_report_count d) in if n < 2 ^ 31 then Some (nat n) else None)"

definition add_usage :: "nat \<Rightarrow> vk_hid_usage_t \<Rightarrow> hid_parser \<Rightarrow> hid_parser" where
  "add_usage i u = upd_report i (\<lambda>r. r\<lparr>rp_usages := rp_usages r @ [u]\<rparr>)"

definition has_usage_range :: "vk_hid_desc_t \<Rightarrow> bool" where
  "has_usage_range d \<longleftrightarrow> ds_usage_min d \<noteq> - 1 \<and> ds_usage_max d \<noteq> - 1"

definition range_usage :: "nat \<Rightarrow> u32 \<Rightarrow> u16 \<Rightarrow> nat \<Rightarrow> vk_hid_desc_t \<Rightarrow> vk_hid_usage_t" where
  "range_usage n v bitlen bits d =
     \<lparr>us_blk = n, us_generic_usage_page = ds_generic_usage_page d, us_generic_usage_id = ds_generic_usage_id d, us_data_flag = ucast v,
      us_usage_page = ds_usage_page d, us_usage_min = ucast (ds_usage_min d), us_usage_max = ucast (ds_usage_max d),
      us_logical_min = ds_logical_min d, us_logical_max = ds_logical_max d, us_bit_offset = ucast bitlen, us_bit_length = of_nat bits,
      us_report_size = ucast (ds_report_size d), us_report_count = ucast (ds_report_count d)\<rparr>"

text \<open>One usage for the range of usages, for input and for output reports.\<close>

definition p_hid_range :: "nat \<Rightarrow> u32 \<Rightarrow> hid_parser \<Rightarrow> (hid_err \<times> hid_parser) option" where
  "p_hid_range i v s = (let s = upd_desc (\<lambda>d. d\<lparr>ds_usage_num := ds_usage_max d - ds_usage_min d + 1\<rparr>) s in
     case hid_malloc (hp_env s) of
       (None, e) \<Rightarrow> Some (HID_FAIL, s\<lparr>hp_env := e\<rparr>)
     | (Some n, e) \<Rightarrow> do {
         bits \<leftarrow> report_bits (hp_desc s);
         let u = range_usage n v (rp_bitlen (hd_reports (hp_dev s) ! i)) bits (hp_desc s);
         let s = add_usage i u (s\<lparr>hp_env := e\<rparr>);
         Some (HID_NONE, upd_desc (\<lambda>d. d\<lparr>ds_usage_min := - 1, ds_usage_max := - 1\<rparr>) s)
       })"

definition input_usage :: "nat \<Rightarrow> u32 \<Rightarrow> u16 \<Rightarrow> nat \<Rightarrow> u8 \<Rightarrow> vk_hid_desc_t \<Rightarrow> vk_hid_usage_t" where
  "input_usage n v bitlen k usage d =
     \<lparr>us_blk = n, us_generic_usage_page = ds_generic_usage_page d, us_generic_usage_id = ds_generic_usage_id d, us_data_flag = ucast v,
      us_usage_page = ds_usage_page d, us_usage_min = usage, us_usage_max = usage,
      us_logical_min = ds_logical_min d, us_logical_max = ds_logical_max d,
      us_bit_offset = ucast bitlen + of_nat k * ucast (ds_report_size d), us_bit_length = ucast (ds_report_size d),
      us_report_size = ucast (ds_report_size d), us_report_count = 1\<rparr>"

function p_hid_input_loop :: "nat \<Rightarrow> u32 \<Rightarrow> nat \<Rightarrow> nat \<Rightarrow> hid_parser \<Rightarrow> (hid_err \<times> hid_parser) option" where
  "p_hid_input_loop i v cnt k s = (if k < cnt then
     case hid_malloc (hp_env s) of
       (None, e) \<Rightarrow> Some (HID_FAIL, s\<lparr>hp_env := e\<rparr>)
     | (Some n, e) \<Rightarrow> if length (ds_usages (hp_desc s)) \<le> k then None else
         let u = input_usage n v (rp_bitlen (hd_reports (hp_dev s) ! i)) k (ds_usages (hp_desc s) ! k) (hp_desc s)
         in p_hid_input_loop i v cnt (k + 1) (add_usage i u (s\<lparr>hp_env := e\<rparr>))
   else Some (HID_NONE, s))"
  by pat_completeness auto
termination by (relation "measure (\<lambda>(_, _, cnt, k, _). cnt - k)") auto

declare p_hid_input_loop.simps [simp del]

text \<open>What both kinds of reports do at the end.\<close>

definition p_hid_main_end :: "nat \<Rightarrow> hid_parser \<Rightarrow> (hid_err \<times> hid_parser) option" where
  "p_hid_main_end i s = do {
     bits \<leftarrow> report_bits (hp_desc s);
     Some (HID_NONE, upd_report i (\<lambda>r. r\<lparr>rp_bitlen := rp_bitlen r + of_nat bits\<rparr>) (upd_desc (\<lambda>d. d\<lparr>ds_usage_num := 0\<rparr>) s))
   }"

definition p_hid_input :: "u32 \<Rightarrow> hid_parser \<Rightarrow> (hid_err \<times> hid_parser) option" where
  "p_hid_input v s = (case p_vk_hid_get_report s HID_ITEM_INPUT of
       (None, s) \<Rightarrow> Some (HID_FAIL, s)
     | (Some i, s) \<Rightarrow> do {
         (err, s) \<leftarrow> (if has_usage_range (hp_desc s) then p_hid_range i v s
                   else p_hid_input_loop i v (unat (ds_report_count (hp_desc s))) 0 s);
         if err \<noteq> HID_NONE then Some (err, s) else p_hid_main_end i s
       })"

text \<open>In an output report the value of the item is replaced by the length of a usage, so that later usages have it as their flags.\<close>

definition output_usage :: "nat \<Rightarrow> u32 \<Rightarrow> u16 \<Rightarrow> nat \<Rightarrow> u8 \<Rightarrow> u32 \<Rightarrow> vk_hid_desc_t \<Rightarrow> vk_hid_usage_t" where
  "output_usage n v bitlen k usage w d =
     \<lparr>us_blk = n, us_generic_usage_page = ds_generic_usage_page d, us_generic_usage_id = ds_generic_usage_id d, us_data_flag = ucast v,
      us_usage_page = ds_usage_page d, us_usage_min = usage, us_usage_max = usage,
      us_logical_min = ds_logical_min d, us_logical_max = ds_logical_max d,
      us_bit_offset = ucast bitlen + of_nat k * w, us_bit_length = w,
      us_report_size = ucast (ds_report_size d), us_report_count = ucast (ds_report_count d)\<rparr>"

function p_hid_output_loop :: "nat \<Rightarrow> u32 \<Rightarrow> nat \<Rightarrow> nat \<Rightarrow> hid_parser \<Rightarrow> (hid_err \<times> hid_parser) option" where
  "p_hid_output_loop i v cnt k s = (if k < cnt then
     case hid_malloc (hp_env s) of
       (None, e) \<Rightarrow> Some (HID_FAIL, s\<lparr>hp_env := e\<rparr>)
     | (Some n, e) \<Rightarrow> (case report_bits (hp_desc s) of None \<Rightarrow> None | Some bits \<Rightarrow>
         if length (ds_usages (hp_desc s)) \<le> k then None else
         let w = of_nat (bits div unat (ds_usage_num (hp_desc s)));
             u = output_usage n v (rp_bitlen (hd_reports (hp_dev s) ! i)) k (ds_usages (hp_desc s) ! k) w (hp_desc s)
         in p_hid_output_loop i w cnt (k + 1) (add_usage i u (s\<lparr>hp_env := e\<rparr>)))
   else Some (HID_NONE, s))"
  by pat_completeness auto
termination by (relation "measure (\<lambda>(_, _, cnt, k, _). cnt - k)") auto

declare p_hid_output_loop.simps [simp del]

definition p_hid_output :: "u32 \<Rightarrow> hid_parser \<Rightarrow> (hid_err \<times> hid_parser) option" where
  "p_hid_output v s = (case p_vk_hid_get_report s HID_ITEM_OUTPUT of
       (None, s) \<Rightarrow> Some (HID_FAIL, s)
     | (Some i, s) \<Rightarrow> do {
         (err, s) \<leftarrow> (if has_usage_range (hp_desc s) then p_hid_range i v s
                   else p_hid_output_loop i v (unat (ds_usage_num (hp_desc s))) 0 s);
         if err \<noteq> HID_NONE then Some (err, s) else p_hid_main_end i s
       })"

definition p_hid_feature :: "hid_parser \<Rightarrow> (hid_err \<times> hid_parser) option" where
  "p_hid_feature s = (case p_vk_hid_get_report s HID_ITEM_FEATURE of
       (None, s) \<Rightarrow> Some (HID_FAIL, s) | (Some i, s) \<Rightarrow> Some (HID_NONE, s))"

section \<open>Items\<close>

definition le_bytes :: "nat \<Rightarrow> u8 list \<Rightarrow> u32 option" where
  "le_bytes n bs = (if n \<le> length bs then Some (foldr (\<lambda>b w. push_bit 8 w OR ucast b) (take n bs) 0) else None)"

definition item_value_of :: "nat \<Rightarrow> u8 list \<Rightarrow> u32 option" where
  "item_value_of sz buf = (if sz = 1 \<or> sz = 2 \<or> sz = 4 then le_bytes sz buf else Some 0)"

definition item_signed :: "nat \<Rightarrow> u32 \<Rightarrow> u32 option" where
  "item_signed sz v = (if sz = 1 then Some (scast (ucast v :: u8)) else if sz = 2 then Some (scast (ucast v :: u16))
     else if sz = 4 then Some v else None)"

definition p_hid_usage :: "u32 \<Rightarrow> hid_parser \<Rightarrow> (hid_err \<times> hid_parser) option" where
  "p_hid_usage v s = (let d = hp_desc s in
     if ds_usage_num d < 32
     then Some (HID_NONE, upd_desc (\<lambda>d. d\<lparr>ds_usages := (ds_usages d)[unat (ds_usage_num d) := ucast v], ds_usage_num := ds_usage_num d + 1,
       ds_generic_usage_id := (if ds_generic_usage_id d = 0 \<and> ds_collection d = 0 then ucast v else ds_generic_usage_id d)\<rparr>) s)
     else None)"

definition p_hid_usage_page :: "u32 \<Rightarrow> vk_hid_desc_t \<Rightarrow> vk_hid_desc_t" where
  "p_hid_usage_page v d = d\<lparr>ds_usage_page := ucast v,
     ds_generic_usage_page := (if ds_generic_usage_page d = 0 \<and> ds_collection d = 0 then ucast v else ds_generic_usage_page d)\<rparr>"

text \<open>The changes of the descriptor by the items without reports; those of other tags, and \<open>PUSH\<close> and \<open>POP\<close>, have none.\<close>

definition desc_item :: "u8 \<Rightarrow> u32 \<Rightarrow> vk_hid_desc_t \<Rightarrow> vk_hid_desc_t" where
  "desc_item tag v d =
     (if tag = 0xA0 then d\<lparr>ds_collection := ds_collection d + 1, ds_usage_num := 0\<rparr>
      else if tag = 0xC0 then d\<lparr>ds_collection := ds_collection d - 1\<rparr>
      else if tag = 0x04 then p_hid_usage_page v d
      else if tag = 0x74 then d\<lparr>ds_report_size := ucast v\<rparr>
      else if tag = 0x84 then d\<lparr>ds_report_id := ucast v\<rparr>
      else if tag = 0x94 then d\<lparr>ds_report_count := ucast v\<rparr>
      else if tag = 0x28 then d\<lparr>ds_usage_max := ucast v\<rparr>
      else if tag = 0x18 then d\<lparr>ds_usage_min := ucast v\<rparr>
      else d)"

definition p_vk_hid_parse_item :: "u8 \<Rightarrow> nat \<Rightarrow> u8 list \<Rightarrow> hid_parser \<Rightarrow> (hid_err \<times> hid_parser) option" where
  "p_vk_hid_parse_item tag sz buf s = do {
     v \<leftarrow> item_value_of sz buf;
     if tag = HID_ITEM_INPUT then p_hid_input v s
     else if tag = HID_ITEM_OUTPUT then p_hid_output v s
     else if tag = HID_ITEM_FEATURE then p_hid_feature s
     else if tag = 0x14 then Some (case item_signed sz v of None \<Rightarrow> (HID_NOT_SUPPORT, s)
       | Some w \<Rightarrow> (HID_NONE, upd_desc (\<lambda>d. d\<lparr>ds_logical_min := w\<rparr>) s))
     else if tag = 0x24 then Some (case item_signed sz v of None \<Rightarrow> (HID_NOT_SUPPORT, s)
       | Some w \<Rightarrow> (HID_NONE, upd_desc (\<lambda>d. d\<lparr>ds_logical_max := w\<rparr>) s))
     else if tag = 0x08 then p_hid_usage v s
     else Some (HID_NONE, upd_desc (desc_item tag v)
       (if tag = 0x84 then s\<lparr>hp_dev := (hp_dev s)\<lparr>hd_has_id := True\<rparr>\<rparr> else s))
   }"

section \<open>Descriptors\<close>

definition vk_hid_new_dev :: "hid_env \<Rightarrow> hid_env" where
  "vk_hid_new_dev e = e\<lparr>he_log := he_log e @ [On_New_Dev]\<rparr>"

text \<open>The blocks of a report in the order of their release.\<close>

definition report_blocks :: "vk_hid_report_t \<Rightarrow> nat list" where
  "report_blocks r = map us_blk (rp_usages r) @ (case rp_value r of None \<Rightarrow> [] | Some (n, _) \<Rightarrow> [n]) @ [rp_blk r]"

definition vk_hid_free_dev :: "vk_input_hid_t \<Rightarrow> hid_env \<Rightarrow> (vk_input_hid_t \<times> hid_env) option" where
  "vk_hid_free_dev d e = do {
     e \<leftarrow> hid_free_all (e\<lparr>he_log := he_log e @ [On_Free_Dev]\<rparr>) (concat (map report_blocks (hd_reports d)));
     Some (d\<lparr>hd_reports := []\<rparr>, e)
   }"

definition p_vk_hid_get_max_input_size :: "vk_input_hid_t \<Rightarrow> nat" where
  "p_vk_hid_get_max_input_size d =
     (fold (\<lambda>r m. if m < unat (rp_bitlen r) then unat (rp_bitlen r) else m) (hd_reports d) 0 + 7) div 8 + (if hd_has_id d then 1 else 0)"

function p_hid_parse_loop :: "u8 list \<Rightarrow> nat \<Rightarrow> nat \<Rightarrow> hid_parser \<Rightarrow> (hid_err \<times> hid_parser) option" where
  "p_hid_parse_loop mem len p s = (if p < len then
     if length mem \<le> p then None
     else if mem ! p = 0xFE then
       if length mem \<le> p + 1 then None else p_hid_parse_loop mem len (p + (unat (mem ! (p + 1)) + 1)) s
     else (case p_vk_hid_parse_item (HID_ITEM_TAG (mem ! p)) (HID_ITEM_SIZE (mem ! p)) (drop (p + 1) mem) s of
         None \<Rightarrow> None
       | Some (err, s) \<Rightarrow> if err \<noteq> HID_NONE then Some (err, s) else p_hid_parse_loop mem len (p + (HID_ITEM_SIZE (mem ! p) + 1)) s)
   else Some (HID_NONE, s))"
  by pat_completeness auto
termination by (relation "measure (\<lambda>(_, len, p, _). len - p)") auto

declare p_hid_parse_loop.simps [simp del]

definition hid_desc_start :: vk_hid_desc_t where
  "hid_desc_start = \<lparr>ds_report_id = - 1, ds_report_size = 0, ds_report_count = 0, ds_usage_num = 0, ds_generic_usage_page = 0,
     ds_generic_usage_id = 0, ds_usage_page = 0, ds_collection = 0, ds_usage_min = - 1, ds_usage_max = - 1, ds_logical_min = 0,
     ds_logical_max = 0, ds_usages = replicate 32 0\<rparr>"

definition hid_dev_start :: vk_input_hid_t where
  "hid_dev_start = \<lparr>hd_reports = [], hd_timestamp = 0, hd_has_id = False\<rparr>"

text \<open>\<open>mem\<close> are the bytes from the start of the descriptor on, the first \<open>len\<close> of them belong to it.\<close>

definition vk_hid_parse_desc :: "vk_input_hid_t \<Rightarrow> u8 list \<Rightarrow> nat \<Rightarrow> hid_env \<Rightarrow> (nat \<times> vk_input_hid_t \<times> hid_env) option" where
  "vk_hid_parse_desc d mem len e = (case hid_malloc e of
       (None, e) \<Rightarrow> Some (0, d, e)
     | (Some n, e) \<Rightarrow> do {
         (err, s) \<leftarrow> p_hid_parse_loop mem len 0 \<lparr>hp_dev = hid_dev_start, hp_desc = hid_desc_start, hp_env = e\<rparr>;
         e \<leftarrow> hid_free (hp_env s) n;
         if ds_collection (hp_desc s) \<noteq> 0 \<or> err \<noteq> HID_NONE
         then do { (d, e) \<leftarrow> vk_hid_free_dev (hp_dev s) e; Some (0, d, e) }
         else Some (p_vk_hid_get_max_input_size (hp_dev s), hp_dev s, e)
       })"

section \<open>Input reports\<close>

record vk_hid_evt_t =
  ev_dev :: nat
  ev_duration :: u32
  ev_id :: u64
  ev_pre :: u32
  ev_cur :: u32
  ev_usage :: vk_hid_usage_t

definition hid_evt_id :: "vk_hid_usage_t \<Rightarrow> u32 \<Rightarrow> u64" where
  "hid_evt_id u usage_id = ucast (us_generic_usage_id u) OR push_bit 8 (ucast (us_generic_usage_page u)) OR push_bit 16 (ucast usage_id)
     OR push_bit 24 (ucast (us_usage_page u))"

definition hid_field :: "u8 list \<Rightarrow> vk_hid_usage_t \<Rightarrow> nat \<Rightarrow> u32 option" where
  "hid_field buf u i = vk_input_buf_get_value buf (unat (us_bit_offset u + of_nat i * us_report_size u)) (unat (us_report_size u))"

definition p_hid_field_evt :: "nat \<Rightarrow> u32 \<Rightarrow> u8 list \<Rightarrow> u8 list \<Rightarrow> vk_hid_usage_t \<Rightarrow> nat \<Rightarrow> vk_hid_evt_t list option" where
  "p_hid_field_evt dev duration old buf u i = do {
     cur_value \<leftarrow> hid_field buf u i;
     pre_value \<leftarrow> hid_field old u i;
     Some (if cur_value \<noteq> (if hid_usage_is_rel u then 0 else pre_value)
       then let usage_id = (if hid_usage_is_var u then ucast (us_usage_min u) + of_nat i
                            else if cur_value \<noteq> 0 then cur_value AND 0xFFFF else pre_value AND 0xFFFF)
            in [\<lparr>ev_dev = dev, ev_duration = duration, ev_id = hid_evt_id u usage_id, ev_pre = pre_value, ev_cur = cur_value, ev_usage = u\<rparr>]
       else [])
   }"

fun concat_opt :: "('a \<Rightarrow> 'b list option) \<Rightarrow> 'a list \<Rightarrow> 'b list option" where
  "concat_opt f [] = Some []"
| "concat_opt f (x # xs) = do { ys \<leftarrow> f x; zs \<leftarrow> concat_opt f xs; Some (ys @ zs) }"

definition p_hid_usage_evts :: "nat \<Rightarrow> u32 \<Rightarrow> u8 list \<Rightarrow> u8 list \<Rightarrow> vk_hid_usage_t \<Rightarrow> vk_hid_evt_t list option" where
  "p_hid_usage_evts dev duration old buf u = concat_opt (p_hid_field_evt dev duration old buf u) [0..<nat (sint (us_report_count u))]"

text \<open>\<open>memcpy\<close> of \<open>len\<close> bytes over the stored report.\<close>

definition store_report :: "nat \<Rightarrow> u8 list \<Rightarrow> u8 list \<Rightarrow> u8 list option" where
  "store_report len buf old = (if len \<le> length buf \<and> len \<le> length old then Some (take len buf @ drop len old) else None)"

text \<open>
  \<open>mem\<close> are the bytes that can be read from the start of the report on. The result has the events for
  \<open>vsf_hid_on_report_input\<close> in their order.
\<close>

definition hid_input_id :: "vk_input_hid_t \<Rightarrow> u8 list \<Rightarrow> (int \<times> u8 list) option" where
  "hid_input_id d mem = (if hd_has_id d then (case mem of [] \<Rightarrow> None | b # bs \<Rightarrow> Some (uint b, bs)) else Some (- 1, mem))"

definition hid_report_value :: "vk_hid_report_t \<Rightarrow> nat \<Rightarrow> hid_env \<Rightarrow> (nat \<times> u8 list) option \<times> hid_env" where
  "hid_report_value r len e = (case rp_value r of Some v \<Rightarrow> (Some v, e)
     | None \<Rightarrow> (case hid_malloc e of (None, e) \<Rightarrow> (None, e) | (Some n, e) \<Rightarrow> (Some (n, replicate len 0), e)))"

definition vk_hid_process_input ::
  "(u32 \<Rightarrow> u32 \<Rightarrow> u32) \<Rightarrow> u32 \<Rightarrow> nat \<Rightarrow> vk_input_hid_t \<Rightarrow> u8 list \<Rightarrow> nat \<Rightarrow> hid_env \<Rightarrow> (vk_hid_evt_t list \<times> vk_input_hid_t \<times> hid_env) option" where
  "vk_hid_process_input duration_of tick dev d mem len e = do {
     (rid, buf) \<leftarrow> hid_input_id d mem;
     case find_report (\<lambda>r. rp_type r = HID_ITEM_INPUT \<and> sint (rp_id r) = rid) (hd_reports d) of
       None \<Rightarrow> Some ([], d, e)
     | Some i \<Rightarrow> let r = hd_reports d ! i in (case hid_report_value r len e of
           (None, e) \<Rightarrow> Some ([], d, e)
         | (Some (n, old), e) \<Rightarrow> do {
             let (duration, ts) = vk_input_update_timestamp duration_of tick (hd_timestamp d);
             es \<leftarrow> concat_opt (p_hid_usage_evts dev duration old buf) (rp_usages r);
             new \<leftarrow> store_report len buf old;
             Some (if es = [] then [] else es @ [(last es)\<lparr>ev_id := 0\<rparr>],
               d\<lparr>hd_timestamp := ts, hd_reports := (hd_reports d)[i := r\<lparr>rp_value := Some (n, new)\<rparr>]\<rparr>, e)
           })
   }"

section \<open>Touch screens\<close>

definition hid_get_generic_usage_id :: "vk_hid_evt_t \<Rightarrow> u8" where "hid_get_generic_usage_id ev = ucast (ev_id ev)"
definition hid_get_generic_usage_page :: "vk_hid_evt_t \<Rightarrow> u8" where "hid_get_generic_usage_page ev = ucast (drop_bit 8 (ev_id ev))"
definition hid_get_usage_id :: "vk_hid_evt_t \<Rightarrow> u8" where "hid_get_usage_id ev = ucast (drop_bit 16 (ev_id ev))"
definition hid_get_usage_page :: "vk_hid_evt_t \<Rightarrow> u8" where "hid_get_usage_page ev = ucast (drop_bit 24 (ev_id ev))"

text \<open>The static variables of the function.\<close>

record hid_touch =
  tc_x :: u32
  tc_y :: u32
  tc_height :: u32
  tc_width :: u32
  tc_mask :: u32
  tc_pressure :: u32
  tc_is_down :: bool
  tc_dev :: "nat option"
  tc_id :: u32

definition touch_reset :: "hid_touch \<Rightarrow> hid_touch" where
  "touch_reset t = t\<lparr>tc_mask := 0, tc_pressure := 0, tc_dev := None, tc_id := 0\<rparr>"

definition touch_usage :: "vk_hid_evt_t \<Rightarrow> u32 \<Rightarrow> hid_touch \<Rightarrow> hid_touch" where
  "touch_usage ev v t = (let page = hid_get_usage_page ev; usage = hid_get_usage_id ev; t' = t\<lparr>tc_dev := Some (ev_dev ev)\<rparr> in
     if page = 0x01 then
       if usage = 0x30 then t'\<lparr>tc_mask := tc_mask t OR 1, tc_x := v, tc_width := us_logical_max (ev_usage ev)\<rparr>
       else if usage = 0x31 then t'\<lparr>tc_mask := tc_mask t OR 2, tc_y := v, tc_height := us_logical_max (ev_usage ev)\<rparr>
       else t
     else if page = 0x0D then
       if usage = 0x42 then t'\<lparr>tc_is_down := v \<noteq> 0, tc_mask := (if v = 0 then 3 else tc_mask t)\<rparr>
       else if usage = 0x30 then t'\<lparr>tc_pressure := v\<rparr>
       else if usage = 0x51 then t'\<lparr>tc_id := v\<rparr>
       else t
     else t)"

definition touch_evt :: "hid_touch \<Rightarrow> vk_touchscreen_evt_t" where
  "touch_evt t = vsf_input_touchscreen_set
     \<lparr>evt_dev = None, evt_duration = 0, evt_id = 0, evt_pre = 0, evt_cur = 0, ts_width = ucast (tc_width t), ts_height = ucast (tc_height t)\<rparr>
     (tc_id t) (tc_is_down t) (tc_pressure t) (tc_x t) (tc_y t)"

definition vsf_hid_parse_touch_screen :: "vk_hid_evt_t \<Rightarrow> hid_touch \<Rightarrow> (vk_touchscreen_evt_t option \<times> hid_touch) option" where
  "vsf_hid_parse_touch_screen ev t =
     (if hid_get_generic_usage_page ev = 0x0D \<and> hid_get_generic_usage_id ev = 0x04 then
        if 32 \<le> unat (us_bit_length (ev_usage ev)) then None
        else if tc_dev t \<noteq> None \<and> tc_dev t \<noteq> Some (ev_dev ev) then None
        else let v = ev_cur ev AND (push_bit (unat (us_bit_length (ev_usage ev))) 1 - 1); t = touch_usage ev v t in
          Some (if tc_mask t AND 3 = 3 then (Some (touch_evt t), touch_reset t) else (None, t))
      else Some (None, t))"

text \<open>The default handler of an event passes touches and then the event itself to the notifiers.\<close>

definition hid_evt_of :: "vk_hid_evt_t \<Rightarrow> vk_input_evt_t" where
  "hid_evt_of ev = \<lparr>evt_dev = Some (ev_dev ev), evt_duration = ev_duration ev, evt_id = ev_id ev, evt_pre = ucast (ev_pre ev), evt_cur = ucast (ev_cur ev)\<rparr>"

datatype hid_out = Touch_Out vk_touchscreen_evt_t | Hid_Out vk_input_evt_t

definition vsf_hid_on_report_input :: "vk_hid_evt_t \<Rightarrow> hid_touch \<Rightarrow> (hid_out list \<times> hid_touch) option" where
  "vsf_hid_on_report_input ev t = map_option (\<lambda>(o1, t). ((case o1 of None \<Rightarrow> [] | Some te \<Rightarrow> [Touch_Out te]) @ [Hid_Out (hid_evt_of ev)], t))
     (vsf_hid_parse_touch_screen ev t)"

fun hid_on_reports :: "vk_hid_evt_t list \<Rightarrow> hid_touch \<Rightarrow> (hid_out list \<times> hid_touch) option" where
  "hid_on_reports [] t = Some ([], t)"
| "hid_on_reports (ev # evs) t = do {
     (os1, t) \<leftarrow> vsf_hid_on_report_input ev t;
     (os2, t) \<leftarrow> hid_on_reports evs t;
     Some (os1 @ os2, t)
   }"

end
