(* ===== verification/VSF_Input_Correct.thy ===== *)
theory VSF_Input_Correct
  imports VSF_Input
begin

text \<open>
  Facts about the input component: the loops over fields of bits against a description by bits, the comparison of two
  reports, and the accessors of the events.
\<close>

section \<open>Fields of bits\<close>

definition buf_bit :: "u8 list \<Rightarrow> nat \<Rightarrow> bool" where
  "buf_bit buf j = bit (buf ! (j div 8)) (j mod 8)"

text \<open>A field of bits is replaced by the bits of a value.\<close>

definition field_set :: "u8 list \<Rightarrow> nat \<Rightarrow> nat \<Rightarrow> (nat \<Rightarrow> bool) \<Rightarrow> u8 list \<Rightarrow> bool" where
  "field_set buf offset n f buf' \<longleftrightarrow> length buf' = length buf \<and>
     (\<forall>j < 8 * length buf. buf_bit buf' j = (if offset \<le> j \<and> j < offset + n then f (j - offset) else buf_bit buf j))"

lemma chunk_mask_mask: "chunk_mask n = mask n"
  by (simp add: chunk_mask_def mask_eq_exp_minus_1 push_bit_eq_mult)

lemma bit_chunk_of:
  "bit (chunk_of x offset len r) k \<longleftrightarrow>
     k < 32 \<and> offset mod 8 \<le> k \<and> k - offset mod 8 < chunk_len offset len r \<and> bit x (r + (k - offset mod 8))"
  by (auto simp: chunk_of_def chunk_mask_mask bit_push_bit_iff bit_and_iff bit_drop_bit_eq bit_mask_iff)

lemma field_set_append:
  assumes "field_set buf offset a f buf1" "field_set buf1 (offset + a) b g buf2" "\<And>i. i < b \<Longrightarrow> g i = f (a + i)"
  shows "field_set buf offset (a + b) f buf2"
proof -
  have "g (j - (offset + a)) = f (j - offset)" if "offset + a \<le> j" "j < offset + a + b" for j
    using assms(3) [of "j - (offset + a)"] that by (simp add: le_diff_conv2 less_diff_conv2)
  with assms(1,2) show ?thesis by (auto simp: field_set_def)
qed

lemma field_set_empty: "field_set buf offset 0 f buf"
  by (auto simp: field_set_def)

text \<open>A byte whose bits change only inside of the field changes the field as far as the byte goes.\<close>

lemma upd_byte_field:
  assumes "offset div 8 < length buf" "c \<le> 8 - offset mod 8"
    and "\<And>b k. k < 8 \<Longrightarrow> bit (u (ucast (b :: u8) :: u32)) k \<longleftrightarrow>
      (if offset mod 8 \<le> k \<and> k < offset mod 8 + c then f (k - offset mod 8) else bit b k)"
  shows "\<exists>buf'. upd_byte buf (offset div 8) u = Some buf' \<and> field_set buf offset c f buf'"
proof (intro exI conjI)
  show "upd_byte buf (offset div 8) u = Some (buf[offset div 8 := ucast (u (ucast (buf ! (offset div 8))))])"
    using assms(1) by (simp add: upd_byte_def)
  show "field_set buf offset c f (buf[offset div 8 := ucast (u (ucast (buf ! (offset div 8))))])"
    unfolding field_set_def
  proof (intro conjI allI impI)
    fix j assume "j < 8 * length buf"
    then have l: "j div 8 < length buf" by auto
    show "buf_bit (buf[offset div 8 := ucast (u (ucast (buf ! (offset div 8))))]) j =
      (if offset \<le> j \<and> j < offset + c then f (j - offset) else buf_bit buf j)"
    proof (cases "j div 8 = offset div 8")
      case True
      have "offset = 8 * (offset div 8) + offset mod 8" "j = 8 * (offset div 8) + j mod 8"
        using True by (metis mult_div_mod_eq)+
      then have "j - offset = j mod 8 - offset mod 8" "offset \<le> j \<longleftrightarrow> offset mod 8 \<le> j mod 8"
        "j < offset + c \<longleftrightarrow> j mod 8 < offset mod 8 + c"
        by linarith+
      with True l assms(3) [of "j mod 8" "buf ! (offset div 8)"] show ?thesis
        by (simp add: buf_bit_def bit_unsigned_iff)
    next
      case False
      have "\<not> (offset \<le> j \<and> j < offset + c)"
      proof
        assume "offset \<le> j \<and> j < offset + c"
        then have "offset div 8 \<le> j div 8" by (simp add: div_le_mono)
        moreover have "j < 8 * (offset div 8) + 8"
          using \<open>offset \<le> j \<and> j < offset + c\<close> assms(2) mult_div_mod_eq [of 8 offset] mod_less_divisor [of 8 offset] by linarith
        ultimately show False using False by linarith
      qed
      with False l show ?thesis by (auto simp: buf_bit_def nth_list_update)
    qed
  qed simp
qed

lemma chunk_in_byte: "chunk_len offset len r \<le> 8 - offset mod 8" "chunk_len offset len r \<le> len - r"
  by (simp_all add: chunk_len_def)

lemma upd_byte_twice:
  "upd_byte buf i u \<bind> (\<lambda>b. upd_byte b i v \<bind> h) = upd_byte buf i (\<lambda>b. v (ucast (ucast (u b) :: u8))) \<bind> h"
  by (simp add: upd_byte_def)

lemma put_byte_field:
  assumes "offset div 8 < length buf" "r < len" "len \<le> 32"
  shows "\<exists>buf'. upd_byte buf (offset div 8) (\<lambda>b. ucast (ucast (b AND NOT (chunk_of (- 1) offset len r)) :: u8) OR chunk_of x offset len r)
      = Some buf' \<and> field_set buf offset (chunk_len offset len r) (\<lambda>i. bit x (r + i)) buf'"
  by (rule upd_byte_field) (use assms chunk_in_byte(1,2) [of offset len r] in
      \<open>auto simp: bit_or_iff bit_and_iff bit_not_iff bit_chunk_of bit_unsigned_iff\<close>)

text \<open>The loop stores the bits of the value in the whole of the field; setting and clearing store ones and zeros.\<close>

lemma byte_of_field: "offset + (len - r) \<le> 8 * n \<Longrightarrow> r < len \<Longrightarrow> offset div 8 < n"
  for offset len r n :: nat
  by (simp add: less_mult_imp_div_less mult.commute)

lemma rest_of_field:
  "offset + (len - r) \<le> 8 * n \<Longrightarrow> offset + chunk_len offset len r + (len - (r + chunk_len offset len r)) \<le> 8 * n"
  using chunk_in_byte(2) [of offset len r] by linarith

lemma whole_field: "len - r = chunk_len offset len r + (len - (r + chunk_len offset len r))"
  using chunk_in_byte(2) [of offset len r] by linarith

definition put_chunk :: "u8 list \<Rightarrow> nat \<Rightarrow> nat \<Rightarrow> u32 \<Rightarrow> nat \<Rightarrow> u8 list option" where
  "put_chunk buf offset len x r = upd_byte buf (offset div 8)
     (\<lambda>b. ucast (ucast (b AND NOT (chunk_of (- 1) offset len r)) :: u8) OR chunk_of x offset len r)"

lemma p_buf_set_value_step:
  "r < len \<Longrightarrow> p_buf_set_value buf offset len x r = shift_ok r \<bind> (\<lambda>_. put_chunk buf offset len x r \<bind>
     (\<lambda>buf. p_buf_set_value buf (offset + chunk_len offset len r) len x (r + chunk_len offset len r)))"
  unfolding put_chunk_def by (subst p_buf_set_value.simps) (simp only: upd_byte_twice if_True)

lemma p_buf_set_value_end: "\<not> r < len \<Longrightarrow> p_buf_set_value buf offset len x r = Some buf"
  by (simp add: p_buf_set_value.simps)

lemma p_buf_set_value_field:
  "offset + (len - r) \<le> 8 * length buf \<Longrightarrow> len \<le> 32 \<Longrightarrow>
     \<exists>buf'. p_buf_set_value buf offset len x r = Some buf' \<and> field_set buf offset (len - r) (\<lambda>i. bit x (r + i)) buf'"
proof (induction "len - r" arbitrary: buf offset r rule: less_induct)
  case less
  show ?case
  proof (cases "r < len")
    case True
    let ?c = "chunk_len offset len r"
    obtain buf1 where b: "put_chunk buf offset len x r = Some buf1"
      "field_set buf offset ?c (\<lambda>i. bit x (r + i)) buf1"
      using put_byte_field [OF byte_of_field [OF less.prems(1) True] True less.prems(2)]
      unfolding put_chunk_def by blast
    have s: "shift_ok r = Some ()" using True less.prems(2) by (simp add: shift_ok_def)
    have l: "length buf1 = length buf" using b(2) by (simp add: field_set_def)
    obtain buf' where c: "p_buf_set_value buf1 (offset + ?c) len x (r + ?c) = Some buf'"
      "field_set buf1 (offset + ?c) (len - (r + ?c)) (\<lambda>i. bit x (r + ?c + i)) buf'"
      using less.hyps [OF chunk_len_less [OF True, of offset]] rest_of_field [OF less.prems(1)] less.prems(2) l by metis
    have "p_buf_set_value buf offset len x r = Some buf'"
      using s b(1) c(1) by (simp add: p_buf_set_value_step [OF True])
    moreover have "field_set buf offset (len - r) (\<lambda>i. bit x (r + i)) buf'"
      by (subst whole_field [of len r offset], rule field_set_append [OF b(2) c(2)]) (simp add: add.assoc)
    ultimately show ?thesis by blast
  qed (simp add: p_buf_set_value.simps field_set_empty)
qed

lemma upd_byte_cong: "(\<And>b. ucast (u (ucast (b :: u8))) = (ucast (v (ucast b)) :: u8)) \<Longrightarrow> upd_byte buf i u = upd_byte buf i v"
  by (simp add: upd_byte_def)

lemma p_buf_set_is_set_value: "p_buf_set buf offset len r = p_buf_set_value buf offset len (- 1) r"
proof (induction buf offset len r rule: p_buf_set.induct)
  case (1 buf offset len r)
  have "upd_byte buf (offset div 8) (\<lambda>b. b OR chunk_of (- 1) offset len r) =
    put_chunk buf offset len (- 1) r"
    unfolding put_chunk_def
    by (rule upd_byte_cong, rule bit_word_eqI) (auto simp: bit_unsigned_iff bit_or_iff bit_and_iff bit_not_iff)
  note e = this
  show ?case
  proof (cases "r < len")
    case True
    with "1.IH" show ?thesis
      by (subst p_buf_set.simps, cases "shift_ok r"; cases "put_chunk buf offset len (- 1) r")
        (simp_all only: p_buf_set_value_step [OF True] e if_True bind.simps simp_thms)
  qed (simp add: p_buf_set_value_end p_buf_set.simps)
qed

lemma p_buf_clear_is_set_value: "p_buf_clear buf offset len r = p_buf_set_value buf offset len 0 r"
proof (induction buf offset len r rule: p_buf_clear.induct)
  case (1 buf offset len r)
  have "upd_byte buf (offset div 8) (\<lambda>b. b AND NOT (chunk_of (- 1) offset len r)) =
    put_chunk buf offset len (0) r"
    unfolding put_chunk_def
    by (rule upd_byte_cong, rule bit_word_eqI)
      (auto simp: bit_unsigned_iff bit_or_iff bit_and_iff bit_not_iff bit_chunk_of)
  note e = this
  show ?case
  proof (cases "r < len")
    case True
    with "1.IH" show ?thesis
      by (subst p_buf_clear.simps, cases "shift_ok r"; cases "put_chunk buf offset len (0) r")
        (simp_all only: p_buf_set_value_step [OF True] e if_True bind.simps simp_thms)
  qed (simp add: p_buf_set_value_end p_buf_clear.simps)
qed

lemmas buf_defs = vk_input_buf_set_def vk_input_buf_clear_def vk_input_buf_set_value_def vk_input_buf_get_value_def
  p_buf_set_is_set_value p_buf_clear_is_set_value

lemma set_value_field:
  "offset + len \<le> 8 * length buf \<Longrightarrow> len \<le> 32 \<Longrightarrow>
     \<exists>buf'. vk_input_buf_set_value buf offset len x = Some buf' \<and> field_set buf offset len (bit x) buf'"
  using p_buf_set_value_field [of offset len 0 buf x] by (simp add: buf_defs)

lemma div_mod_in_byte:
  assumes "p mod 8 + d < (8 :: nat)"
  shows "(p + d) div 8 = p div 8" "(p + d) mod 8 = d + p mod 8"
proof -
  have "p + d = (p mod 8 + d) + 8 * (p div 8)" using mult_div_mod_eq [of 8 p] by linarith
  with assms show "(p + d) div 8 = p div 8" "(p + d) mod 8 = d + p mod 8"
    by (metis div_mult_self2 div_less add_0_right zero_neq_numeral, metis mod_mult_self2 mod_less add.commute)
qed

text \<open>Reading collects the bits of the field.\<close>

lemma bit_get_chunk:
  fixes b :: u8
  assumes "k < 32"
  shows "bit (push_bit r (drop_bit p (ucast b :: u32) AND chunk_mask c)) k \<longleftrightarrow> r \<le> k \<and> k < r + c \<and> bit b (k - r + p)"
  using assms by (auto simp: bit_push_bit_iff bit_and_iff bit_drop_bit_eq chunk_mask_mask bit_mask_iff bit_unsigned_iff add.commute
      dest: bit_imp_le_length [where ?'a = 8])

lemma p_buf_get_value_bits:
  "offset + (len - r) \<le> 8 * length buf \<Longrightarrow> len \<le> 32 \<Longrightarrow> (\<And>k. r \<le> k \<Longrightarrow> k < 32 \<Longrightarrow> \<not> bit v k) \<Longrightarrow>
     \<exists>w. p_buf_get_value buf offset len r v = Some w \<and>
       (\<forall>k < 32. bit w k \<longleftrightarrow> (if k < r \<or> len \<le> k then bit v k else buf_bit buf (offset + (k - r))))"
proof (induction buf offset len r v rule: p_buf_get_value.induct)
  case (1 buf offset len r v)
  show ?case
  proof (cases "r < len")
    case True
    let ?c = "chunk_len offset len r"
    let ?b = "ucast (buf ! (offset div 8)) :: u32"
    let ?v = "v OR push_bit r (drop_bit (offset mod 8) ?b AND chunk_mask ?c)"
    have s: "shift_ok r = Some ()" using True "1.prems"(2) by (simp add: shift_ok_def)
    have i: "offset div 8 < length buf" by (rule byte_of_field [OF "1.prems"(1) True])
    have v: "bit ?v k \<longleftrightarrow> (if r \<le> k \<and> k < r + ?c then buf_bit buf (offset + (k - r)) else bit v k)" if "k < 32" for k
    proof (cases "r \<le> k \<and> k < r + ?c")
      case True
      then have m: "offset mod 8 + (k - r) < 8" using chunk_in_byte(1) [of offset len r] by linarith
      have "(offset + (k - r)) div 8 = offset div 8" "(offset + (k - r)) mod 8 = k - r + offset mod 8"
        using m by (rule div_mod_in_byte)+
      with True that "1.prems"(3) [of k] show ?thesis
        by (simp add: bit_or_iff bit_get_chunk buf_bit_def del: push_bit_and)
    qed (use that in \<open>auto simp: bit_or_iff bit_get_chunk simp del: push_bit_and\<close>)
    have z: "\<not> bit ?v k" if "r + ?c \<le> k" "k < 32" for k using v [OF that(2)] that "1.prems"(3) [of k] by auto
    obtain w where w: "p_buf_get_value buf (offset + ?c) len (r + ?c) ?v = Some w"
      "\<And>k. k < 32 \<Longrightarrow> bit w k \<longleftrightarrow> (if k < r + ?c \<or> len \<le> k then bit ?v k else buf_bit buf (offset + ?c + (k - (r + ?c))))"
      using "1.IH" [OF True s, of ?b] i z rest_of_field [OF "1.prems"(1)] "1.prems"(2) by auto
    have "p_buf_get_value buf offset len r v = Some w"
      using True s i w(1) by (subst p_buf_get_value.simps) simp
    moreover have "bit w k \<longleftrightarrow> (if k < r \<or> len \<le> k then bit v k else buf_bit buf (offset + (k - r)))" if "k < 32" for k
      using w(2) [OF that] v [OF that] chunk_in_byte(2) [of offset len r] True by auto
    ultimately show ?thesis by blast
  qed (auto simp: p_buf_get_value.simps)
qed

lemma get_value_bits:
  assumes "offset + len \<le> 8 * length buf" "len \<le> 32"
  shows "\<exists>w. vk_input_buf_get_value buf offset len = Some w \<and> (\<forall>k < 32. bit w k \<longleftrightarrow> k < len \<and> buf_bit buf (offset + k))"
  using p_buf_get_value_bits [of offset len 0 buf 0] assms by (auto simp: buf_defs)

text \<open>Two values of fields are equal when their bits are.\<close>

lemma get_value_eqI:
  assumes "offset + len \<le> 8 * length buf" "len \<le> 32" "\<And>k. k < 32 \<Longrightarrow> bit w k \<longleftrightarrow> k < len \<and> buf_bit buf (offset + k)"
  shows "vk_input_buf_get_value buf offset len = Some w"
proof -
  obtain v where "vk_input_buf_get_value buf offset len = Some v" "\<And>k. k < 32 \<Longrightarrow> bit v k \<longleftrightarrow> k < len \<and> buf_bit buf (offset + k)"
    using get_value_bits [OF assms(1,2)] by blast
  moreover have "v = w" by (rule bit_word_eqI) (use assms(3) calculation(2) in simp)
  ultimately show ?thesis by simp
qed

lemma get_value_cong:
  assumes "offset + len \<le> 8 * length buf" "len \<le> 32" "length buf' = length buf"
    and "\<And>k. k < len \<Longrightarrow> buf_bit buf' (offset + k) = buf_bit buf (offset + k)"
  shows "vk_input_buf_get_value buf' offset len = vk_input_buf_get_value buf offset len"
proof -
  obtain v where v: "vk_input_buf_get_value buf offset len = Some v" "\<And>k. k < 32 \<Longrightarrow> bit v k \<longleftrightarrow> k < len \<and> buf_bit buf (offset + k)"
    using get_value_bits [OF assms(1,2)] by blast
  have "vk_input_buf_get_value buf' offset len = Some v"
    by (rule get_value_eqI) (use assms v(2) in auto)
  with v(1) show ?thesis by simp
qed

text \<open>
  C37. A field of at most 32 bits that lies inside of the buffer can be stored and read back: the store succeeds and keeps the
  length of the buffer, reading gives the low bits of the stored value, and every field apart from it reads as before.
  Setting and clearing the field are the stores of ones and of zeros.
\<close>

theorem input_field_roundtrip:
  assumes "offset + len \<le> 8 * length buf" "len \<le> 32"
  shows "\<exists>buf'. vk_input_buf_set_value buf offset len x = Some buf' \<and> length buf' = length buf \<and>
    vk_input_buf_get_value buf' offset len = Some (take_bit len x) \<and>
    (\<forall>p n. n \<le> 32 \<and> p + n \<le> 8 * length buf \<and> (p + n \<le> offset \<or> offset + len \<le> p) \<longrightarrow>
       vk_input_buf_get_value buf' p n = vk_input_buf_get_value buf p n) \<and>
    vk_input_buf_set buf offset len = vk_input_buf_set_value buf offset len (- 1) \<and>
    vk_input_buf_clear buf offset len = vk_input_buf_set_value buf offset len 0"
proof -
  obtain buf' where b: "vk_input_buf_set_value buf offset len x = Some buf'" "field_set buf offset len (bit x) buf'"
    using set_value_field [OF assms] by blast
  have l: "length buf' = length buf" using b(2) by (simp add: field_set_def)
  have "vk_input_buf_get_value buf' offset len = Some (take_bit len x)"
    by (rule get_value_eqI) (use assms b(2) in \<open>auto simp: field_set_def bit_take_bit_iff\<close>)
  moreover have "vk_input_buf_get_value buf' p n = vk_input_buf_get_value buf p n"
    if "n \<le> 32" "p + n \<le> 8 * length buf" "p + n \<le> offset \<or> offset + len \<le> p" for p n
    by (rule get_value_cong) (use that b(2) in \<open>auto simp: field_set_def\<close>)
  ultimately show ?thesis using b(1) l by (auto simp: buf_defs)
qed

theorem input_field_roundtrip_witness:
  "\<exists>buf'. vk_input_buf_set_value [0xFF, 0, 0] 5 7 0x55 = Some buf' \<and> length buf' = 3 \<and>
    vk_input_buf_get_value buf' 5 7 = Some 0x55 \<and> vk_input_buf_get_value buf' 0 5 = vk_input_buf_get_value [0xFF, 0, 0] 0 5"
  using input_field_roundtrip [of 5 7 "[0xFF, 0, 0]" "0x55"] by auto

section \<open>Comparison of reports\<close>

definition item_value :: "u8 list \<Rightarrow> vk_input_item_info_t \<Rightarrow> u32" where
  "item_value r info = the (vk_input_buf_get_value r (unat (i_offset info)) (unat (i_bitlen info)))"

text \<open>The field of every item lies in the report and has at most 32 bits.\<close>

definition items_fit :: "vk_input_item_info_t list \<Rightarrow> u8 list \<Rightarrow> bool" where
  "items_fit infos r \<longleftrightarrow> (\<forall>info \<in> set infos. unat (i_offset info) + unat (i_bitlen info) \<le> 8 * length r \<and> unat (i_bitlen info) \<le> 32)"

lemma items_fit_value:
  "items_fit infos r \<Longrightarrow> info \<in> set infos \<Longrightarrow>
     vk_input_buf_get_value r (unat (i_offset info)) (unat (i_bitlen info)) = Some (item_value r info)"
  using get_value_bits [of "unat (i_offset info)" "unat (i_bitlen info)" r] by (auto simp: items_fit_def item_value_def)

definition item_changed :: "vk_input_item_info_t list \<Rightarrow> u8 list \<Rightarrow> u8 list \<Rightarrow> nat \<Rightarrow> bool" where
  "item_changed infos pre cur i \<longleftrightarrow> item_value cur (infos ! i) \<noteq> item_value pre (infos ! i)"

definition changed_below :: "vk_input_item_info_t list \<Rightarrow> u8 list \<Rightarrow> u8 list \<Rightarrow> nat \<Rightarrow> nat list" where
  "changed_below infos pre cur n = filter (item_changed infos pre cur) (rev [0..<n])"

text \<open>One call looks for the changed item with the greatest index below the counter.\<close>

lemma vk_input_parse_next:
  assumes "items_fit (ps_info p) pre" "items_fit (ps_info p) cur" "unat (ps_num p) \<le> length (ps_info p)"
  shows "\<exists>q. vk_input_parse p pre cur = Some (case changed_below (ps_info p) pre cur (unat (ps_num p)) of [] \<Rightarrow> None | i # _ \<Rightarrow> Some i, q) \<and>
    ps_info q = ps_info p \<and> (\<forall>i is. changed_below (ps_info p) pre cur (unat (ps_num p)) = i # is \<longrightarrow>
      unat (ps_num q) = i \<and> i < unat (ps_num p) \<and> changed_below (ps_info p) pre cur i = is \<and>
      ps_pre q = set_valu32 (ps_pre p) (item_value pre (ps_info p ! i)) \<and> ps_cur q = set_valu32 (ps_cur p) (item_value cur (ps_info p ! i)))"
  using assms
proof (induction "unat (ps_num p)" arbitrary: p)
  case 0
  then have "ps_num p = 0" by (simp add: unat_eq_0)
  then show ?case by (simp add: vk_input_parse.simps changed_below_def)
next
  case (Suc n)
  let ?q = "p\<lparr>ps_num := ps_num p - 1\<rparr>"
  have nz: "ps_num p \<noteq> 0" using Suc.hyps(2) by auto
  have n: "unat (ps_num p - 1) = n" using Suc.hyps(2) nz by (simp add: unat_minus_one)
  have m: "ps_info p ! n \<in> set (ps_info p)" using Suc.hyps(2) Suc.prems(3) by (intro nth_mem) simp
  have c: "changed_below (ps_info p) pre cur (unat (ps_num p)) =
    (if item_changed (ps_info p) pre cur n then [n] else []) @ changed_below (ps_info p) pre cur n"
    by (simp add: changed_below_def Suc.hyps(2) [symmetric])
  note v = items_fit_value [OF Suc.prems(1) m] items_fit_value [OF Suc.prems(2) m]
  show ?case
  proof (cases "item_changed (ps_info p) pre cur n")
    case True
    then show ?thesis
      using Suc.hyps(2) Suc.prems(3) nz v
      by (subst vk_input_parse.simps) (auto simp: n c Let_def item_changed_def)
  next
    case False
    then have e: "vk_input_parse p pre cur = vk_input_parse ?q pre cur"
      using Suc.hyps(2) Suc.prems(3) nz v
      by (subst vk_input_parse.simps) (auto simp: n Let_def item_changed_def)
    have "n = unat (ps_num ?q)" "unat (ps_num ?q) \<le> length (ps_info ?q)" using n Suc.hyps(2) Suc.prems(3) by simp_all
    from Suc.hyps(1) [OF this(1) _ _ this(2)] Suc.prems(1,2) show ?thesis
      unfolding e c using False n Suc.hyps(2) [symmetric] by (auto split: list.splits)
  qed
qed

lemma set_valu32_again: "set_valu32 (set_valu32 v x) y = set_valu32 v y"
  unfolding set_valu32_def
  by (rule bit_word_eqI) (auto simp: bit_or_iff bit_push_bit_iff bit_drop_bit_eq bit_unsigned_iff dest: bit_imp_le_length [where ?'a = 32])

lemma set_valu32_zero: "set_valu32 0 x = ucast x"
  by (simp add: set_valu32_def)

definition changed_evt :: "nat \<Rightarrow> vk_input_item_info_t list \<Rightarrow> u8 list \<Rightarrow> u8 list \<Rightarrow> nat \<Rightarrow> vk_gamepad_evt_t" where
  "changed_evt dev infos pre cur i =
     \<lparr>evt_dev = Some dev, evt_duration = 0, evt_id = ucast (i_item (infos ! i)), evt_pre = ucast (item_value pre (infos ! i)),
       evt_cur = ucast (item_value cur (infos ! i)), gp_info = infos ! i\<rparr>"

lemma p_gamepad_loop_changed:
  "items_fit (ps_info p) pre \<Longrightarrow> items_fit (ps_info p) cur \<Longrightarrow> unat (ps_num p) \<le> length (ps_info p) \<Longrightarrow>
     set_valu32 (ps_pre p) 0 = 0 \<Longrightarrow> set_valu32 (ps_cur p) 0 = 0 \<Longrightarrow>
     p_gamepad_loop dev p pre cur = Some (map (changed_evt dev (ps_info p) pre cur) (changed_below (ps_info p) pre cur (unat (ps_num p))))"
proof (induction "unat (ps_num p)" arbitrary: p rule: less_induct)
  case less
  have z: "set_valu32 (ps_pre p) x = ucast x" "set_valu32 (ps_cur p) x = ucast x" for x
    using set_valu32_again [of "ps_pre p" 0 x] set_valu32_again [of "ps_cur p" 0 x] less.prems(4,5)
    by (simp_all add: set_valu32_zero)
  obtain q where q: "vk_input_parse p pre cur =
      Some (case changed_below (ps_info p) pre cur (unat (ps_num p)) of [] \<Rightarrow> None | i # _ \<Rightarrow> Some i, q)"
    "ps_info q = ps_info p"
    "\<And>i is. changed_below (ps_info p) pre cur (unat (ps_num p)) = i # is \<Longrightarrow>
      unat (ps_num q) = i \<and> i < unat (ps_num p) \<and> changed_below (ps_info p) pre cur i = is \<and>
      ps_pre q = set_valu32 (ps_pre p) (item_value pre (ps_info p ! i)) \<and> ps_cur q = set_valu32 (ps_cur p) (item_value cur (ps_info p ! i))"
    using vk_input_parse_next [OF less.prems(1-3)] by blast
  show ?case
  proof (cases "changed_below (ps_info p) pre cur (unat (ps_num p))")
    case Nil
    with q(1) show ?thesis by (simp add: p_gamepad_loop.simps [of dev p])
  next
    case (Cons i "is")
    note r = q(3) [OF Cons]
    have "p_gamepad_loop dev q pre cur = Some (map (changed_evt dev (ps_info p) pre cur) is)"
      using less.hyps [of q] less.prems r q(2) by (simp add: z [symmetric] set_valu32_again) 
    with q(1) Cons r show ?thesis
      by (simp add: p_gamepad_loop.simps [of dev p] p_gamepad_evt_def changed_evt_def q(2) z)
  qed
qed

text \<open>
  When the fields of the items lie in both reports, the comparison of two reports of a gamepad reports exactly the items
  whose values differ, each once with its old and its new value, from the last item to the first, and then the dummy
  event when there was any.
\<close>

theorem gamepad_parse_changes:
  assumes "length infos = 28" "items_fit infos pre" "items_fit infos cur"
  shows "vk_gamepad_input_parse dev infos pre cur =
    (let es = map (changed_evt dev infos pre cur) (filter (\<lambda>i. item_value cur (infos ! i) \<noteq> item_value pre (infos ! i)) (rev [0..<28]))
     in Some (if es = [] then [] else es @ [(last es)\<lparr>evt_id := 0\<rparr>]))"
proof -
  let ?p = "\<lparr>ps_info = infos, ps_num = GAMEPAD_ID_NUM, ps_pre = 0, ps_cur = 0\<rparr>"
  have n: "unat (ps_num ?p) = 28" by (simp add: GAMEPAD_ID_NUM_def)
  have "p_gamepad_loop dev ?p pre cur = Some (map (changed_evt dev (ps_info ?p) pre cur) (changed_below (ps_info ?p) pre cur (unat (ps_num ?p))))"
    by (rule p_gamepad_loop_changed) (use assms n in \<open>simp_all add: set_valu32_zero\<close>)
  moreover have "item_changed infos pre cur = (\<lambda>i. item_value cur (infos ! i) \<noteq> item_value pre (infos ! i))"
    by (simp add: fun_eq_iff item_changed_def)
  ultimately show ?thesis
    by (simp add: vk_gamepad_input_parse_def GAMEPAD_ID_NUM_def changed_below_def Let_def)
qed

definition pad_sample :: "vk_input_item_info_t list" where
  "pad_sample = map (\<lambda>i. \<lparr>i_item = of_nat i, i_bitlen = (if i \<in> {1, 2} then 1 else 0), i_is_signed = False, i_offset = of_nat i,
     i_config = False, i_endian = False\<rparr>) [0..<28]"

theorem gamepad_parse_changes_witness:
  "map (map_option (map evt_id)) [vk_gamepad_input_parse 7 pad_sample [2, 0, 0, 0] [4, 0, 0, 0], vk_gamepad_input_parse 7 pad_sample [2, 0, 0, 0] [3, 0, 0, 0]]
     = [Some [2, 1, 0], Some []]"
proof -
  have f: "items_fit pad_sample [b, 0, 0, 0]" for b :: u8
    by (simp add: items_fit_def pad_sample_def upt_rec)
  have "length pad_sample = 28" by (simp add: pad_sample_def)
  note g = gamepad_parse_changes [OF this f f]
  show ?thesis
    unfolding list.map g by (code_simp)
qed

section \<open>Notifiers\<close>

text \<open>
  A notifier that is registered gets the events of the types of its mask and of its device or, without one, of all of them,
  before the notifiers registered earlier; after its removal the list is the old one.
\<close>

lemma notifier_register_unregister:
  assumes "vk_input_notifier_register sync l n = Some l'"
  shows "vk_input_notifier_unregister l' (nt_name n) = Some l"
    and "type \<noteq> sync \<Longrightarrow> type < 32 \<Longrightarrow> sync < 32 \<Longrightarrow> vsf_input_on_evt l' type dev =
      (if (nt_dev n = None \<or> nt_dev n = dev) \<and> bit (nt_mask n) type then [nt_name n] else []) @ vsf_input_on_evt l type dev"
proof -
  have l: "l' = n\<lparr>nt_mask := nt_mask n OR push_bit sync 1\<rparr> # l" "nt_name n \<notin> set (map nt_name l)"
    using assms by (auto simp: vk_input_notifier_register_def Let_def split: if_splits)
  from l(2) have "filter (\<lambda>m. nt_name m \<noteq> nt_name n) l = l"
    by (metis (mono_tags, lifting) filter_True image_eqI list.set_map)
  with l(1) show "vk_input_notifier_unregister l' (nt_name n) = Some l" by (simp add: vk_input_notifier_unregister_def)
  have "m AND push_bit type 1 \<noteq> 0 \<longleftrightarrow> bit m type" if "type < 32" for m :: u32
    using that by (auto simp: bit_eq_iff [where ?'a = u32] bit_and_iff bit_exp_iff)
  moreover assume "type \<noteq> sync" "type < 32" "sync < 32"
  ultimately show "vsf_input_on_evt l' type dev =
      (if (nt_dev n = None \<or> nt_dev n = dev) \<and> bit (nt_mask n) type then [nt_name n] else []) @ vsf_input_on_evt l type dev"
    by (auto simp: l(1) vsf_input_on_evt_def bit_or_iff bit_exp_iff)
qed

section \<open>Events of mice and touch screens\<close>

lemma halfword_parts:
  fixes x y :: u32
  assumes "x = take_bit 16 x"
  shows "ucast (x OR push_bit 16 y AND 0xFFFF) = (ucast x :: u16)"
    and "ucast ((x OR push_bit 16 y) AND 0xFFFF) = (ucast x :: u16)"
    and "ucast (drop_bit 16 (x OR push_bit 16 y) AND 0xFFFF) = (ucast y :: u16)"
proof -
  have m: "(0xFFFF :: u32) = mask 16" by (simp add: mask_eq_exp_minus_1)
  have b: "\<not> bit x k" if "16 \<le> k" for k using assms that by (metis bit_take_bit_iff not_le)
  show "ucast (x OR push_bit 16 y AND 0xFFFF) = (ucast x :: u16)" "ucast ((x OR push_bit 16 y) AND 0xFFFF) = (ucast x :: u16)"
    "ucast (drop_bit 16 (x OR push_bit 16 y) AND 0xFFFF) = (ucast y :: u16)"
    unfolding m by (rule bit_word_eqI; auto simp: bit_unsigned_iff bit_and_iff bit_or_iff bit_push_bit_iff bit_drop_bit_eq bit_mask_iff b)+
qed

lemma valu32_set: "valu32 (set_valu32 v x) = x"
  unfolding set_valu32_def valu32_def
  by (rule bit_word_eqI) (auto simp: bit_or_iff bit_push_bit_iff bit_unsigned_iff)

text \<open>
  The coordinates of the event of a mouse are read back when the first one is not negative. A negative one, as the move of
  a relative device to the left, sets the upper half of the word: the second coordinate is read as \<open>- 1\<close>.
\<close>

lemma mouse_evt_xy:
  assumes "x = take_bit 16 x"
  shows "vsf_input_mouse_evt_get_x (vsf_input_mouse_evt_move_set e x y rel) = sint (ucast x :: u16)"
    "vsf_input_mouse_evt_get_y (vsf_input_mouse_evt_move_set e x y rel) = sint (ucast y :: u16)"
  using halfword_parts(2,3) [OF assms, of y]
  by (simp_all add: vsf_input_mouse_evt_get_x_def vsf_input_mouse_evt_get_y_def vsf_input_mouse_evt_move_set_def valu32_set)

lemma mouse_left_moves_up:
  "(vsf_input_mouse_evt_get_x (vsf_input_mouse_evt_move_set e (- 1) 0 1), vsf_input_mouse_evt_get_y (vsf_input_mouse_evt_move_set e (- 1) 0 1))
    = (- 1, - 1)"
proof -
  have "(- 1 :: u32) AND 0xFFFF = 0xFFFF" "drop_bit 16 (- 1 :: u32) = 0xFFFF" "(sint (0xFFFF :: u16)) = - 1" by code_simp+
  then show ?thesis
    by (simp add: vsf_input_mouse_evt_get_x_def vsf_input_mouse_evt_get_y_def vsf_input_mouse_evt_move_set_def valu32_set)
qed

text \<open>A vertical position of 32768 or more, given as 16 bits, is extended with its sign into the pressure.\<close>

lemma touch_low_pressure:
  "vsf_input_touchscreen_get_pressure (vsf_input_touchscreen_set_u16 e 0 True 1 0 0x7FFF) = 1"
  "vsf_input_touchscreen_get_pressure (vsf_input_touchscreen_set_u16 e 0 True 1 0 0x8000) = 0xFFFF"
  by (simp_all add: vsf_input_touchscreen_get_pressure_def vsf_input_touchscreen_set_u16_def)

section \<open>Scan codes\<close>

text \<open>Every key has one to six bytes, or none where the protocol has no key; the prefix of an extended key comes second.\<close>

lemma scancode_extended_order:
  "p_vsf_input_keyboard_get_scancode 80 = [0x4B, 0xE0]" "p_vsf_input_keyboard_get_scancode VSF_KB_PAUSE = [0xE1, 0x1D, 0x45, 0xE1, 0x9D, 0xC5]"
  by code_simp+

end
