(* ===== verification/VSF_Hid_Correct.thy ===== *)
theory VSF_Hid_Correct
  imports VSF_Hid VSF_Input_Correct "HOL-Library.Multiset"
begin

text \<open>
  Facts about the driver for human interface devices: the blocks of the heap that a device owns, the layout of the input
  reports, the events of input reports, and touch screens.
\<close>

section \<open>Blocks of the heap\<close>

definition dev_blocks :: "vk_input_hid_t \<Rightarrow> nat multiset" where
  "dev_blocks d = (\<Sum>r\<leftarrow>hd_reports d. mset (report_blocks r))"

text \<open>Beside the blocks in \<open>L\<close> exactly those of the device are in use.\<close>

definition hid_owns :: "nat multiset \<Rightarrow> vk_input_hid_t \<Rightarrow> hid_env \<Rightarrow> bool" where
  "hid_owns L d e \<longleftrightarrow> mset (he_live e) = L + dev_blocks d"

lemma hid_malloc_live:
  "hid_malloc e = (Some n, e') \<Longrightarrow> mset (he_live e') = add_mset n (mset (he_live e))"
  "hid_malloc e = (None, e') \<Longrightarrow> mset (he_live e') = mset (he_live e)"
  by (auto simp: hid_malloc_def Let_def split: if_splits)

lemma hid_free_live: "hid_free e n = Some e' \<Longrightarrow> add_mset n (mset (he_live e')) = mset (he_live e)"
  by (auto simp: hid_free_def split: if_splits)

lemma hid_free_owned: "mset (he_live e) = add_mset n M \<Longrightarrow> \<exists>e'. hid_free e n = Some e' \<and> mset (he_live e') = M"
  by (simp add: hid_free_def union_single_eq_member flip: set_mset_mset)

lemma hid_free_all_owned: "mset (he_live e) = M + mset ns \<Longrightarrow> \<exists>e'. hid_free_all e ns = Some e' \<and> mset (he_live e') = M"
proof (induction ns arbitrary: e)
  case (Cons n ns)
  from Cons.prems have "mset (he_live e) = add_mset n (M + mset ns)" by simp
  from hid_free_owned [OF this] obtain e1 where "hid_free e n = Some e1" "mset (he_live e1) = M + mset ns" by blast
  with Cons.IH [OF this(2)] show ?case by simp
qed simp

lemma mset_concat_blocks: "mset (concat (map report_blocks rs)) = (\<Sum>r\<leftarrow>rs. mset (report_blocks r))"
  by (induction rs) auto

text \<open>The end of a device gives back its blocks, and does not fail.\<close>

lemma free_dev_owned:
  assumes "hid_owns L d e"
  shows "\<exists>e'. vk_hid_free_dev d e = Some (d\<lparr>hd_reports := []\<rparr>, e') \<and> mset (he_live e') = L"
proof -
  have "mset (he_live (e\<lparr>he_log := he_log e @ [On_Free_Dev]\<rparr>)) = L + mset (concat (map report_blocks (hd_reports d)))"
    using assms by (simp add: hid_owns_def dev_blocks_def mset_concat_blocks)
  from hid_free_all_owned [OF this] show ?thesis by (auto simp: vk_hid_free_dev_def)
qed

lemma sum_blocks_update:
  "i < length rs \<Longrightarrow> mset (report_blocks r) = M + mset (report_blocks (rs ! i)) \<Longrightarrow>
     (\<Sum>r\<leftarrow>rs[i := r]. mset (report_blocks r)) = M + (\<Sum>r\<leftarrow>rs. mset (report_blocks r))"
  by (induction rs arbitrary: i) (auto split: nat.splits simp: union_ac)

text \<open>A state of the parser: the device owns its blocks, and the report in use is in the list.\<close>

definition parser_owns :: "nat multiset \<Rightarrow> hid_parser \<Rightarrow> bool" where
  "parser_owns L s \<longleftrightarrow> hid_owns L (hp_dev s) (hp_env s)"

lemma upd_desc_fields [simp]:
  "hp_dev (upd_desc f s) = hp_dev s" "hp_env (upd_desc f s) = hp_env s" "hp_desc (upd_desc f s) = f (hp_desc s)"
  by (simp_all add: upd_desc_def)

lemma upd_report_fields [simp]:
  "hp_env (upd_report i f s) = hp_env s" "hp_desc (upd_report i f s) = hp_desc s"
  "hd_reports (hp_dev (upd_report i f s)) = (hd_reports (hp_dev s))[i := f (hd_reports (hp_dev s) ! i)]"
  by (simp_all add: upd_report_def)

lemma parser_owns_desc [simp]: "parser_owns L (upd_desc f s) = parser_owns L s"
  by (simp add: parser_owns_def)

lemma parser_owns_report:
  "(\<And>r. report_blocks (f r) = report_blocks r) \<Longrightarrow> parser_owns L (upd_report i f s) = parser_owns L s"
  by (cases "i < length (hd_reports (hp_dev s))")
    (auto simp: parser_owns_def hid_owns_def dev_blocks_def sum_blocks_update [where M = "{#}"] not_less list_update_beyond)

lemma parser_owns_add_usage:
  assumes "parser_owns L s" "i < length (hd_reports (hp_dev s))" "hid_malloc (hp_env s) = (Some (us_blk u), e)"
  shows "parser_owns L (add_usage i u (s\<lparr>hp_env := e\<rparr>))"
proof -
  let ?r = "hd_reports (hp_dev s) ! i"
  have "mset (report_blocks (?r\<lparr>rp_usages := rp_usages ?r @ [u]\<rparr>)) = {#us_blk u#} + mset (report_blocks ?r)"
    by (simp add: report_blocks_def)
  from sum_blocks_update [OF assms(2) this] assms(1) hid_malloc_live(1) [OF assms(3)] show ?thesis
    by (simp add: parser_owns_def hid_owns_def dev_blocks_def add_usage_def)
qed

lemma add_usage_length [simp]: "length (hd_reports (hp_dev (add_usage i u s))) = length (hd_reports (hp_dev s))"
  by (simp add: add_usage_def)

lemma parser_owns_fail: "parser_owns L s \<Longrightarrow> hid_malloc (hp_env s) = (None, e) \<Longrightarrow> parser_owns L (s\<lparr>hp_env := e\<rparr>)"
  by (simp add: parser_owns_def hid_owns_def hid_malloc_live)

lemma find_report_some: "find_report P rs = Some i \<Longrightarrow> i < length rs \<and> P (rs ! i)"
  by (induction rs arbitrary: i) (auto split: if_splits)

lemma get_report_owns:
  assumes "p_vk_hid_get_report s t = (oi, s')" "parser_owns L s"
  shows "parser_owns L s'" "oi = Some i \<Longrightarrow> i < length (hd_reports (hp_dev s'))"
  using assms find_report_some
  by (auto simp: p_vk_hid_get_report_def Let_def parser_owns_def hid_owns_def dev_blocks_def report_blocks_def
      dest: hid_malloc_live split: option.splits prod.splits)

lemma us_blk_usages [simp]:
  "us_blk (range_usage n v bl bits d) = n" "us_blk (input_usage n v bl k us d) = n" "us_blk (output_usage n v bl k us w d) = n"
  by (simp_all add: range_usage_def input_usage_def output_usage_def)

lemma hid_range_owns:
  assumes "p_hid_range i v s = Some (err, s')" "parser_owns L s" "i < length (hd_reports (hp_dev s))"
  shows "parser_owns L s'"
proof -
  let ?s = "upd_desc (\<lambda>d. d\<lparr>ds_usage_num := ds_usage_max d - ds_usage_min d + 1\<rparr>) s"
  obtain o1 e where m: "hid_malloc (hp_env ?s) = (o1, e)" by (cases "hid_malloc (hp_env ?s)")
  show ?thesis
  proof (cases o1)
    case None
    then show ?thesis using assms m parser_owns_fail [of L ?s e] by (auto simp: p_hid_range_def Let_def)
  next
    case (Some n)
    with m have "parser_owns L (add_usage i (range_usage n v bl bits d) (?s\<lparr>hp_env := e\<rparr>))" for bl bits d
      by (intro parser_owns_add_usage) (use assms in simp_all)
    with assms m Some show ?thesis by (auto simp: p_hid_range_def Let_def bind_eq_Some_conv)
  qed
qed

text \<open>The rounds of the loops.\<close>

lemma input_loop_step:
  assumes "p_hid_input_loop i v cnt k s = Some (err, s')" "k < cnt" "hid_malloc (hp_env s) = (Some n, e)"
  shows "\<exists>us. p_hid_input_loop i v cnt (k + 1)
    (add_usage i (input_usage n v (rp_bitlen (hd_reports (hp_dev s) ! i)) k us (hp_desc s)) (s\<lparr>hp_env := e\<rparr>)) = Some (err, s')"
  using assms by (auto simp: p_hid_input_loop.simps [of i v cnt k s] Let_def split: if_splits)

lemma input_loop_stop:
  assumes "p_hid_input_loop i v cnt k s = Some (err, s')" "\<not> k < cnt \<or> hid_malloc (hp_env s) = (None, e)"
  shows "if k < cnt then err = HID_FAIL \<and> s' = s\<lparr>hp_env := e\<rparr> else err = HID_NONE \<and> s' = s"
  using assms by (auto simp: p_hid_input_loop.simps [of i v cnt k s] split: if_splits)

lemma output_loop_step:
  assumes "p_hid_output_loop i v cnt k s = Some (err, s')" "k < cnt" "hid_malloc (hp_env s) = (Some n, e)"
  shows "\<exists>w us. p_hid_output_loop i w cnt (k + 1)
    (add_usage i (output_usage n v (rp_bitlen (hd_reports (hp_dev s) ! i)) k us w (hp_desc s)) (s\<lparr>hp_env := e\<rparr>)) = Some (err, s')"
  using assms by (auto simp: p_hid_output_loop.simps [of i v cnt k s] Let_def split: if_splits option.splits)

lemma output_loop_stop:
  assumes "p_hid_output_loop i v cnt k s = Some (err, s')" "\<not> k < cnt \<or> hid_malloc (hp_env s) = (None, e)"
  shows "if k < cnt then err = HID_FAIL \<and> s' = s\<lparr>hp_env := e\<rparr> else err = HID_NONE \<and> s' = s"
  using assms by (auto simp: p_hid_output_loop.simps [of i v cnt k s] split: if_splits)

lemma input_loop_owns:
  "p_hid_input_loop i v cnt k s = Some (err, s') \<Longrightarrow> parser_owns L s \<Longrightarrow> i < length (hd_reports (hp_dev s)) \<Longrightarrow> parser_owns L s'"
proof (induction "cnt - k" arbitrary: k s rule: less_induct)
  case less
  obtain o1 e where m: "hid_malloc (hp_env s) = (o1, e)" by (cases "hid_malloc (hp_env s)")
  show ?case
  proof (cases "k < cnt \<and> o1 \<noteq> None")
    case True
    then obtain n us where n: "p_hid_input_loop i v cnt (k + 1)
        (add_usage i (input_usage n v (rp_bitlen (hd_reports (hp_dev s) ! i)) k us (hp_desc s)) (s\<lparr>hp_env := e\<rparr>)) = Some (err, s')"
      "hid_malloc (hp_env s) = (Some n, e)"
      using input_loop_step [OF less.prems(1)] m by auto
    show ?thesis
      by (rule less.hyps [OF _ n(1)]) (use True less.prems n(2) in \<open>auto intro!: parser_owns_add_usage\<close>)
  next
    case False
    with input_loop_stop [OF less.prems(1), of e] m less.prems(2) show ?thesis
      by (auto split: if_splits intro: parser_owns_fail)
  qed
qed

lemma output_loop_owns:
  "p_hid_output_loop i v cnt k s = Some (err, s') \<Longrightarrow> parser_owns L s \<Longrightarrow> i < length (hd_reports (hp_dev s)) \<Longrightarrow> parser_owns L s'"
proof (induction "cnt - k" arbitrary: k s v rule: less_induct)
  case less
  obtain o1 e where m: "hid_malloc (hp_env s) = (o1, e)" by (cases "hid_malloc (hp_env s)")
  show ?case
  proof (cases "k < cnt \<and> o1 \<noteq> None")
    case True
    then obtain n us w where n: "p_hid_output_loop i w cnt (k + 1)
        (add_usage i (output_usage n v (rp_bitlen (hd_reports (hp_dev s) ! i)) k us w (hp_desc s)) (s\<lparr>hp_env := e\<rparr>)) = Some (err, s')"
      "hid_malloc (hp_env s) = (Some n, e)"
      using output_loop_step [OF less.prems(1)] m by auto
    show ?thesis
      by (rule less.hyps [OF _ n(1)]) (use True less.prems n(2) in \<open>auto intro!: parser_owns_add_usage\<close>)
  next
    case False
    with output_loop_stop [OF less.prems(1), of e] m less.prems(2) show ?thesis
      by (auto split: if_splits intro: parser_owns_fail)
  qed
qed

lemma main_end_owns: "p_hid_main_end i s = Some (err, s') \<Longrightarrow> parser_owns L s \<Longrightarrow> parser_owns L s'"
  by (auto simp: p_hid_main_end_def bind_eq_Some_conv parser_owns_report report_blocks_def)

lemma parse_item_owns:
  assumes "p_vk_hid_parse_item tag sz buf s = Some (err, s')" "parser_owns L s"
  shows "parser_owns L s'"
proof -
  have "parser_owns L s'" if "p_hid_input v s = Some (err, s')" for v
    using that assms(2)
    by (auto simp: p_hid_input_def bind_eq_Some_conv split: prod.splits option.splits if_splits
        dest: get_report_owns main_end_owns hid_range_owns input_loop_owns)
  moreover have "parser_owns L s'" if "p_hid_output v s = Some (err, s')" for v
    using that assms(2)
    by (auto simp: p_hid_output_def bind_eq_Some_conv split: prod.splits option.splits if_splits
        dest: get_report_owns main_end_owns hid_range_owns output_loop_owns)
  moreover have "parser_owns L s'" if "p_hid_feature s = Some (err, s')"
    using that assms(2) by (auto simp: p_hid_feature_def split: prod.splits option.splits dest: get_report_owns)
  moreover have "parser_owns L s'" if "p_hid_usage v s = Some (err, s')" for v
    using that assms(2) by (auto simp: p_hid_usage_def Let_def split: if_splits)
  moreover have "parser_owns L (s\<lparr>hp_dev := (hp_dev s)\<lparr>hd_has_id := True\<rparr>\<rparr>)"
    using assms(2) by (simp add: parser_owns_def hid_owns_def dev_blocks_def)
  ultimately show ?thesis
    using assms by (auto simp: p_vk_hid_parse_item_def bind_eq_Some_conv split: if_splits option.splits)
qed

lemma parse_loop_induct:
  assumes "p_hid_parse_loop mem len p s = Some (err, s')" "P s"
    and "\<And>tag sz buf s err s'. p_vk_hid_parse_item tag sz buf s = Some (err, s') \<Longrightarrow> P s \<Longrightarrow> (if err = HID_NONE then P s' else Q s')"
    and "\<And>s. P s \<Longrightarrow> Q s"
  shows "Q s' \<and> (err = HID_NONE \<longrightarrow> P s')"
  using assms(1,2)
proof (induction mem len p s rule: p_hid_parse_loop.induct)
  case (1 mem len p s)
  note r = "1.prems"(1) [unfolded p_hid_parse_loop.simps [of mem len p s]]
  show ?case
  proof (cases "p < len \<and> mem ! p \<noteq> 0xFE")
    case True
    with r obtain err1 s1 where i: "length mem > p"
      "p_vk_hid_parse_item (HID_ITEM_TAG (mem ! p)) (HID_ITEM_SIZE (mem ! p)) (drop (p + 1) mem) s = Some (err1, s1)"
      by (auto split: if_splits option.splits)
    from assms(3) [OF i(2) "1.prems"(2)] r True i show ?thesis
      using "1.IH"(2) [of "(err1, s1)" err1 s1] by (auto split: if_splits)
  next
    case False
    with r "1.prems"(2) assms(4) "1.IH"(1) show ?thesis by (auto split: if_splits)
  qed
qed

lemma parse_desc_owns:
  assumes "vk_hid_parse_desc d mem len e = Some (n, d', e')" "he_ok e (he_next e)"
  shows "hid_owns (mset (he_live e)) d' e'"
proof -
  obtain m e1 where m: "hid_malloc e = (Some m, e1)" using assms(2) by (simp add: hid_malloc_def Let_def)
  let ?s = "\<lparr>hp_dev = hid_dev_start, hp_desc = hid_desc_start, hp_env = e1\<rparr>"
  let ?L = "add_mset m (mset (he_live e))"
  have "parser_owns ?L ?s"
    using hid_malloc_live(1) [OF m] by (simp add: parser_owns_def hid_owns_def dev_blocks_def hid_dev_start_def)
  with assms(1) m obtain err s e2 where s: "p_hid_parse_loop mem len 0 ?s = Some (err, s)" "parser_owns ?L s"
    "hid_free (hp_env s) m = Some e2"
    and r: "if ds_collection (hp_desc s) \<noteq> 0 \<or> err \<noteq> HID_NONE then \<exists>d e3. vk_hid_free_dev (hp_dev s) e2 = Some (d, e3) \<and> d' = d \<and> e' = e3
      else d' = hp_dev s \<and> e' = e2"
    using parse_loop_induct [of mem len 0 ?s _ _ "parser_owns ?L" "parser_owns ?L"]
    by (fastforce simp: vk_hid_parse_desc_def bind_eq_Some_conv dest: parse_item_owns split: if_splits)
  have o: "hid_owns (mset (he_live e)) (hp_dev s) e2"
    using s(2) hid_free_live [OF s(3)] by (simp add: parser_owns_def hid_owns_def)
  from free_dev_owned [OF o] o r show ?thesis by (auto split: if_splits simp: hid_owns_def dev_blocks_def)
qed

text \<open>A report is either ignored, or compared with the stored one and stored.\<close>

lemma process_input_cases:
  assumes "vk_hid_process_input dof tick dev d mem len e = Some (es, d', e')"
  obtains (ignored) "es = []" "d' = d" "mset (he_live e') = mset (he_live e)"
  | (stored) rid buf i n old new ts where "hid_input_id d mem = Some (rid, buf)"
      "find_report (\<lambda>r. rp_type r = HID_ITEM_INPUT \<and> sint (rp_id r) = rid) (hd_reports d) = Some i"
      "hid_report_value (hd_reports d ! i) len e = (Some (n, old), e')" "store_report len buf old = Some new"
      "d' = d\<lparr>hd_timestamp := ts, hd_reports := (hd_reports d)[i := (hd_reports d ! i)\<lparr>rp_value := Some (n, new)\<rparr>]\<rparr>"
proof -
  obtain rid buf where b: "hid_input_id d mem = Some (rid, buf)"
    using assms by (auto simp: vk_hid_process_input_def bind_eq_Some_conv)
  show ?thesis
  proof (cases "find_report (\<lambda>r. rp_type r = HID_ITEM_INPUT \<and> sint (rp_id r) = rid) (hd_reports d)")
    case None
    with assms b show ?thesis by (intro ignored) (simp_all add: vk_hid_process_input_def)
  next
    case f: (Some i)
    obtain ov e1 where v: "hid_report_value (hd_reports d ! i) len e = (ov, e1)" by (cases "hid_report_value (hd_reports d ! i) len e")
    show ?thesis
    proof (cases ov)
      case None
      with v have "mset (he_live e1) = mset (he_live e)"
        by (auto simp: hid_report_value_def dest: hid_malloc_live split: option.splits prod.splits)
      with assms b f v None show ?thesis by (intro ignored) (simp_all add: vk_hid_process_input_def Let_def)
    next
      case (Some nv)
      obtain n old where nv: "nv = (n, old)" by (cases nv)
      with assms b v Some f show ?thesis
        by (auto simp: vk_hid_process_input_def Let_def bind_eq_Some_conv split: prod.splits intro: stored [OF b f])
    qed
  qed
qed

lemma report_value_owns:
  assumes "hid_report_value r len e = (Some (n, old), e')"
  shows "\<exists>M. mset (he_live e') = M + mset (he_live e) \<and> mset (report_blocks (r\<lparr>rp_value := Some (n, new)\<rparr>)) = M + mset (report_blocks r)"
  by (rule exI [where x = "case rp_value r of None \<Rightarrow> {#n#} | Some _ \<Rightarrow> {#}"])
    (use assms in \<open>auto simp: hid_report_value_def report_blocks_def dest: hid_malloc_live split: option.splits prod.splits\<close>)

lemma process_input_owns:
  assumes "vk_hid_process_input dof tick dev d mem len e = Some (es, d', e')" "hid_owns L d e"
  shows "hid_owns L d' e'"
  using assms(1)
proof (cases rule: process_input_cases)
  case ignored
  with assms(2) show ?thesis by (simp add: hid_owns_def)
next
  case (stored rid buf i n old new ts)
  have i: "i < length (hd_reports d)" using find_report_some [OF stored(2)] by simp
  from report_value_owns [OF stored(3)] obtain M where M: "mset (he_live e') = M + mset (he_live e)"
    "mset (report_blocks ((hd_reports d ! i)\<lparr>rp_value := Some (n, new)\<rparr>)) = M + mset (report_blocks (hd_reports d ! i))" by blast
  with assms(2) sum_blocks_update [OF i M(2)] show ?thesis by (simp add: stored(5) hid_owns_def dev_blocks_def)
qed

text \<open>The reports of a device one after the other, each with its time, its bytes and its length.\<close>

fun hid_run :: "(u32 \<Rightarrow> u32 \<Rightarrow> u32) \<Rightarrow> nat \<Rightarrow> (u32 \<times> u8 list \<times> nat) list \<Rightarrow> vk_input_hid_t \<Rightarrow> hid_env \<Rightarrow> (vk_input_hid_t \<times> hid_env) option" where
  "hid_run dof dev [] d e = Some (d, e)"
| "hid_run dof dev ((tick, mem, len) # rs) d e = (case vk_hid_process_input dof tick dev d mem len e of None \<Rightarrow> None
     | Some (es, d, e) \<Rightarrow> hid_run dof dev rs d e)"

lemma hid_run_owns: "hid_run dof dev rs d e = Some (d', e') \<Longrightarrow> hid_owns L d e \<Longrightarrow> hid_owns L d' e'"
proof (induction rs arbitrary: d e)
  case (Cons r rs)
  then show ?case by (cases r) (auto split: option.splits dest: process_input_owns)
qed simp

text \<open>
  C38. The blocks of the heap are balanced. Whatever the descriptor was and whatever allocation failed in its parser, after
  any reports the end of the device does not free a block twice and gives back exactly the blocks that were taken since the
  parser started; and a parser that leaves no report has given back everything at once.
\<close>

theorem hid_heap_balanced:
  assumes "vk_hid_parse_desc d mem len e = Some (n, d', e')" "he_ok e (he_next e)"
    and "hid_run dof dev rs d' e' = Some (d2, e2)"
  shows "(\<exists>e3. vk_hid_free_dev d2 e2 = Some (d2\<lparr>hd_reports := []\<rparr>, e3) \<and> mset (he_live e3) = mset (he_live e)) \<and>
    (hd_reports d' = [] \<longrightarrow> mset (he_live e') = mset (he_live e))"
proof -
  note o = parse_desc_owns [OF assms(1,2)]
  from free_dev_owned [OF hid_run_owns [OF assms(3) o]] o show ?thesis
    by (auto simp: hid_owns_def dev_blocks_def)
qed

text \<open>A mouse with three buttons and two relative axes, in the boot protocol.\<close>

definition mouse_desc :: "u8 list" where
  "mouse_desc = [0x05, 0x01, 0x09, 0x02, 0xA1, 0x01, 0x09, 0x01, 0xA1, 0x00, 0x05, 0x09, 0x19, 0x01, 0x29, 0x03, 0x15, 0x00, 0x25, 0x01,
    0x95, 0x03, 0x75, 0x01, 0x81, 0x02, 0x95, 0x01, 0x75, 0x05, 0x81, 0x01, 0x05, 0x01, 0x09, 0x30, 0x09, 0x31, 0x15, 0x81, 0x25, 0x7F,
    0x75, 0x08, 0x95, 0x02, 0x81, 0x06, 0xC0, 0xC0]"

definition hid_env0 :: hid_env where
  "hid_env0 = \<lparr>he_live = [90], he_next = 100, he_ok = (\<lambda>n. True), he_log = []\<rparr>"

definition mouse_report :: vk_hid_report_t where
  "mouse_report = \<lparr>rp_blk = 101, rp_type = 0x80, rp_id = - 1, rp_bitlen = 24, rp_value = None, rp_usages =
  [\<lparr>us_blk = 102, us_generic_usage_page = 1, us_generic_usage_id = 2, us_data_flag = 2, us_usage_page = 9, us_usage_min = 1, us_usage_max = 3,
     us_logical_min = 0, us_logical_max = 1, us_bit_offset = 0, us_bit_length = 3, us_report_size = 1, us_report_count = 3\<rparr>,
   \<lparr>us_blk = 103, us_generic_usage_page = 1, us_generic_usage_id = 2, us_data_flag = 1, us_usage_page = 9, us_usage_min = 1, us_usage_max = 1,
     us_logical_min = 0, us_logical_max = 1, us_bit_offset = 3, us_bit_length = 5, us_report_size = 5, us_report_count = 1\<rparr>,
   \<lparr>us_blk = 104, us_generic_usage_page = 1, us_generic_usage_id = 2, us_data_flag = 6, us_usage_page = 1, us_usage_min = 48, us_usage_max = 48,
     us_logical_min = - 127, us_logical_max = 127, us_bit_offset = 8, us_bit_length = 8, us_report_size = 8, us_report_count = 1\<rparr>,
   \<lparr>us_blk = 105, us_generic_usage_page = 1, us_generic_usage_id = 2, us_data_flag = 6, us_usage_page = 1, us_usage_min = 49, us_usage_max = 49,
     us_logical_min = - 127, us_logical_max = 127, us_bit_offset = 16, us_bit_length = 8, us_report_size = 8, us_report_count = 1\<rparr>]\<rparr>"

definition mouse_dev :: vk_input_hid_t where
  "mouse_dev = \<lparr>hd_reports = [mouse_report], hd_timestamp = 0, hd_has_id = False\<rparr>"

definition mouse_env :: hid_env where
  "mouse_env = snd (snd (the (vk_hid_parse_desc hid_dev_start mouse_desc 50 hid_env0)))"

lemma mouse_parsed: "map_option (\<lambda>(n, d, e). (n, d, he_next e, he_ok e 106)) (vk_hid_parse_desc hid_dev_start mouse_desc 50 hid_env0)
    = Some (3, mouse_dev, 106, True)"
  by code_simp

lemma mouse_parse: "vk_hid_parse_desc hid_dev_start mouse_desc 50 hid_env0 = Some (3, mouse_dev, mouse_env)"
  using mouse_parsed by (auto simp: mouse_env_def)

lemma mouse_env_malloc: "hid_malloc mouse_env = (Some 106, snd (hid_malloc mouse_env))"
  using mouse_parsed by (auto simp: mouse_env_def hid_malloc_def Let_def)

lemma mouse_run: "\<exists>d e. hid_run (\<lambda>a b. b - a) 1 [(5, [1, 0xFF, 3], 3)] mouse_dev mouse_env = Some (d, e)"
proof -
  obtain e where e: "hid_malloc mouse_env = (Some 106, e)" using mouse_env_malloc by blast
  have "concat_opt (p_hid_usage_evts 1 0 [0, 0, 0] [1, 0xFF, 3]) (rp_usages mouse_report) \<noteq> None" by code_simp
  then obtain es where "concat_opt (p_hid_usage_evts 1 0 [0, 0, 0] [1, 0xFF, 3]) (rp_usages mouse_report) = Some es" by blast
  moreover have "rp_type mouse_report = HID_ITEM_INPUT" "sint (rp_id mouse_report) = - 1" "rp_value mouse_report = None" by code_simp+
  ultimately show ?thesis
    by (simp add: mouse_dev_def vk_hid_process_input_def hid_input_id_def hid_report_value_def e vk_input_update_timestamp_def Let_def
        store_report_def numeral_3_eq_3)
qed

theorem hid_heap_balanced_witness:
  "\<exists>d2 e2 e3. hid_run (\<lambda>a b. b - a) 1 [(5, [1, 0xFF, 3], 3)] mouse_dev mouse_env = Some (d2, e2) \<and>
     vk_hid_free_dev d2 e2 = Some (d2\<lparr>hd_reports := []\<rparr>, e3) \<and> mset (he_live e3) = {#90#}"
proof -
  obtain d e where r: "hid_run (\<lambda>a b. b - a) 1 [(5, [1, 0xFF, 3], 3)] mouse_dev mouse_env = Some (d, e)" using mouse_run by blast
  from hid_heap_balanced [OF mouse_parse _ r] r show ?thesis by (auto simp: hid_env0_def)
qed

section \<open>Layout of input reports\<close>

definition usage_bits :: "vk_hid_usage_t \<Rightarrow> nat" where
  "usage_bits u = unat (us_report_size u) * unat (us_report_count u)"

definition usages_bits :: "vk_hid_usage_t list \<Rightarrow> nat" where
  "usages_bits us = (\<Sum>u\<leftarrow>us. usage_bits u)"

text \<open>Every usage starts where the one before it ends, as far as positions have 16 bits.\<close>

fun laid_out :: "nat \<Rightarrow> vk_hid_usage_t list \<Rightarrow> bool" where
  "laid_out n [] = True"
| "laid_out n (u # us) = ((n < 65536 \<longrightarrow> unat (us_bit_offset u) = n) \<and> unat (us_report_size u) < 65536 \<and>
     unat (us_report_count u) < 65536 \<and> laid_out (n + usage_bits u) us)"

lemma laid_out_append:
  "laid_out n (us @ [u]) \<longleftrightarrow> laid_out n us \<and> (n + usages_bits us < 65536 \<longrightarrow> unat (us_bit_offset u) = n + usages_bits us) \<and>
     unat (us_report_size u) < 65536 \<and> unat (us_report_count u) < 65536"
  by (induction us arbitrary: n) (auto simp: usages_bits_def add.assoc)

definition report_lay :: "vk_hid_report_t \<Rightarrow> bool" where
  "report_lay r \<longleftrightarrow> laid_out 0 (rp_usages r) \<and> rp_bitlen r = of_nat (usages_bits (rp_usages r))"

definition dev_lay :: "vk_input_hid_t \<Rightarrow> bool" where
  "dev_lay d \<longleftrightarrow> (\<forall>r \<in> set (hd_reports d). rp_type r = HID_ITEM_INPUT \<longrightarrow> report_lay r)"

lemma dev_lay_update:
  "dev_lay d \<Longrightarrow> (rp_type r = HID_ITEM_INPUT \<Longrightarrow> report_lay r) \<Longrightarrow> dev_lay (d\<lparr>hd_reports := (hd_reports d)[i := r]\<rparr>)"
  by (auto simp: dev_lay_def dest!: subsetD [OF set_update_subset_insert])

lemma get_report_lay:
  assumes "p_vk_hid_get_report s t = (Some i, s')" "dev_lay (hp_dev s)"
  shows "dev_lay (hp_dev s')" "rp_type (hd_reports (hp_dev s') ! i) = t" "i < length (hd_reports (hp_dev s'))"
    "hp_desc s' = hp_desc s"
  using assms find_report_some
  by (auto simp: p_vk_hid_get_report_def Let_def dev_lay_def report_lay_def usages_bits_def split: option.splits prod.splits)

lemma get_report_fail: "p_vk_hid_get_report s t = (None, s') \<Longrightarrow> hp_dev s' = hp_dev s"
  by (auto simp: p_vk_hid_get_report_def Let_def split: option.splits prod.splits)

lemma upd_report_dev: "hp_dev (upd_report i f s) = (hp_dev s)\<lparr>hd_reports := (hd_reports (hp_dev s))[i := f (hd_reports (hp_dev s) ! i)]\<rparr>"
  by (simp add: upd_report_def)

text \<open>
  While an item is handled the usages of its report may be ahead of its length: \<open>base\<close> is the length and \<open>ahead\<close> the bits
  of the usages that were added.
\<close>

definition lay_ahead :: "nat \<Rightarrow> nat \<Rightarrow> vk_hid_report_t \<Rightarrow> bool" where
  "lay_ahead base ahead r \<longleftrightarrow> laid_out 0 (rp_usages r) \<and> rp_bitlen r = of_nat base \<and> usages_bits (rp_usages r) = base + ahead"

lemma lay_ahead_zero: "report_lay r \<longleftrightarrow> lay_ahead (usages_bits (rp_usages r)) 0 r"
  by (simp add: report_lay_def lay_ahead_def)

lemma lay_ahead_add:
  assumes "lay_ahead base ahead r" "base + ahead < 65536 \<Longrightarrow> unat (us_bit_offset u) = base + ahead"
    "unat (us_report_size u) < 65536" "unat (us_report_count u) < 65536"
  shows "lay_ahead base (ahead + usage_bits u) (r\<lparr>rp_usages := rp_usages r @ [u]\<rparr>)"
  using assms by (simp add: lay_ahead_def laid_out_append usages_bits_def)

lemma unat_up16: "unat (ucast (x :: u16) :: u32) = unat x"
  by transfer (simp add: take_bit_take_bit)

lemma ucast_up16: "(ucast (x :: u16) :: u32) = of_nat (unat x)"
  by (rule word_unat_eq_iff [THEN iffD2]) (simp add: unat_up16 unat_of_nat take_bit_nat_eq_self less_trans [OF unat_u16_less])

lemma unat_of_nat16: "n < 65536 \<Longrightarrow> unat (of_nat n :: u16) = n"
  by (simp add: unat_of_nat take_bit_nat_eq_self)

lemma unat_of_nat32: "n < 65536 \<Longrightarrow> unat (of_nat n :: u32) = n"
  by (simp add: unat_of_nat take_bit_nat_eq_self)

lemma input_usage_ahead:
  assumes "lay_ahead base (k * unat (ds_report_size d)) r"
  shows "lay_ahead base ((k + 1) * unat (ds_report_size d)) (r\<lparr>rp_usages := rp_usages r @ [input_usage n v (rp_bitlen r) k us d]\<rparr>)"
proof -
  let ?u = "input_usage n v (rp_bitlen r) k us d"
  let ?z = "unat (ds_report_size d)"
  have "unat (us_bit_offset ?u) = base + k * ?z" if "base + k * ?z < 65536"
  proof -
    have "us_bit_offset ?u = of_nat (unat (of_nat base :: u16) + k * ?z)"
      using assms by (simp only: input_usage_def lay_ahead_def ucast_up16 vk_hid_usage_t.simps of_nat_add of_nat_mult)
    also have "unat (of_nat base :: u16) = base" by (rule unat_of_nat16) (use that in linarith)
    finally have e: "us_bit_offset ?u = of_nat (base + k * ?z)" by (simp only:)
    show ?thesis unfolding e by (rule unat_of_nat32 [OF that])
  qed
  moreover have "unat (us_report_size ?u) = ?z" "unat (us_report_count ?u) = 1" "usage_bits ?u = ?z"
    by (simp_all add: input_usage_def usage_bits_def unat_up16)
  moreover have "(k + 1) * ?z = k * ?z + ?z" by simp
  ultimately show ?thesis using lay_ahead_add [OF assms, of ?u] unat_u16_less [of "ds_report_size d"] by (simp only:)
qed

lemma range_usage_ahead:
  assumes "lay_ahead base 0 r" "report_bits d = Some bits"
  shows "lay_ahead base bits (r\<lparr>rp_usages := rp_usages r @ [range_usage n v (rp_bitlen r) bits d]\<rparr>)"
proof -
  let ?u = "range_usage n v (rp_bitlen r) bits d"
  have b: "bits = unat (ds_report_size d) * unat (ds_report_count d)"
    using assms(2) by (auto simp: report_bits_def Let_def nat_mult_distrib split: if_splits)
  have "unat (us_bit_offset ?u) = base + 0" if "base + 0 < 65536"
  proof -
    have "unat (us_bit_offset ?u) = unat (of_nat base :: u16)"
      using assms(1) by (simp only: range_usage_def lay_ahead_def unat_up16 vk_hid_usage_t.simps)
    also have "\<dots> = base" by (rule unat_of_nat16) (use that in linarith)
    finally show ?thesis by simp
  qed
  moreover have "unat (us_report_size ?u) < 65536" "unat (us_report_count ?u) < 65536" "usage_bits ?u = bits"
    by (simp_all add: range_usage_def usage_bits_def unat_up16 b)
  ultimately show ?thesis using lay_ahead_add [OF assms(1), of ?u] by (simp only: add_0)
qed

text \<open>Item \<open>i\<close> of the list may be ahead; the other reports are laid out.\<close>

definition dev_ahead :: "nat \<Rightarrow> nat \<Rightarrow> nat \<Rightarrow> hid_parser \<Rightarrow> bool" where
  "dev_ahead i base ahead s \<longleftrightarrow> i < length (hd_reports (hp_dev s)) \<and> rp_type (hd_reports (hp_dev s) ! i) = HID_ITEM_INPUT \<and>
     lay_ahead base ahead (hd_reports (hp_dev s) ! i) \<and>
     (\<forall>j < length (hd_reports (hp_dev s)). j \<noteq> i \<and> rp_type (hd_reports (hp_dev s) ! j) = HID_ITEM_INPUT \<longrightarrow>
        report_lay (hd_reports (hp_dev s) ! j))"

lemma dev_ahead_add:
  assumes "dev_ahead i base a s" "lay_ahead base b ((hd_reports (hp_dev s) ! i)\<lparr>rp_usages := rp_usages (hd_reports (hp_dev s) ! i) @ [u]\<rparr>)"
  shows "dev_ahead i base b (add_usage i u (s\<lparr>hp_env := e\<rparr>))"
  using assms by (auto simp: dev_ahead_def add_usage_def nth_list_update)

lemma dev_ahead_desc [simp]: "dev_ahead i base a (upd_desc f s) = dev_ahead i base a s"
  by (simp add: dev_ahead_def)

lemma input_loop_ahead:
  "p_hid_input_loop i v cnt k s = Some (HID_NONE, s') \<Longrightarrow> k \<le> cnt \<Longrightarrow> dev_ahead i base (k * unat (ds_report_size (hp_desc s))) s \<Longrightarrow>
     dev_ahead i base (cnt * unat (ds_report_size (hp_desc s))) s' \<and> hp_desc s' = hp_desc s"
proof (induction "cnt - k" arbitrary: k s rule: less_induct)
  case less
  obtain o1 e where m: "hid_malloc (hp_env s) = (o1, e)" by (cases "hid_malloc (hp_env s)")
  show ?case
  proof (cases "k < cnt \<and> o1 \<noteq> None")
    case True
    then obtain n us where n: "p_hid_input_loop i v cnt (k + 1)
        (add_usage i (input_usage n v (rp_bitlen (hd_reports (hp_dev s) ! i)) k us (hp_desc s)) (s\<lparr>hp_env := e\<rparr>)) = Some (HID_NONE, s')"
      using input_loop_step [OF less.prems(1)] m by auto
    let ?s = "add_usage i (input_usage n v (rp_bitlen (hd_reports (hp_dev s) ! i)) k us (hp_desc s)) (s\<lparr>hp_env := e\<rparr>)"
    have d: "hp_desc ?s = hp_desc s" by (simp add: add_usage_def)
    have "dev_ahead i base ((k + 1) * unat (ds_report_size (hp_desc s))) ?s"
      by (rule dev_ahead_add [OF less.prems(3)], rule input_usage_ahead) (use less.prems(3) in \<open>simp add: dev_ahead_def\<close>)
    moreover have "cnt - (k + 1) < cnt - k" "k + 1 \<le> cnt" using True by auto
    ultimately show ?thesis using less.hyps [OF _ n] d by metis
  next
    case False
    with input_loop_stop [OF less.prems(1), of e] m less.prems(2,3) show ?thesis by (auto split: if_splits)
  qed
qed

lemma hid_range_ahead:
  assumes "p_hid_range i v s = Some (HID_NONE, s')" "dev_ahead i base 0 s"
  shows "\<exists>bits. report_bits (hp_desc s') = Some bits \<and> dev_ahead i base bits s'"
proof -
  let ?s = "upd_desc (\<lambda>d. d\<lparr>ds_usage_num := ds_usage_max d - ds_usage_min d + 1\<rparr>) s"
  obtain n e bits where s: "report_bits (hp_desc ?s) = Some bits"
    "s' = upd_desc (\<lambda>d. d\<lparr>ds_usage_min := - 1, ds_usage_max := - 1\<rparr>)
       (add_usage i (range_usage n v (rp_bitlen (hd_reports (hp_dev ?s) ! i)) bits (hp_desc ?s)) (?s\<lparr>hp_env := e\<rparr>))"
    using assms(1) by (auto simp: p_hid_range_def Let_def bind_eq_Some_conv split: prod.splits option.splits)
  have a: "dev_ahead i base 0 ?s" using assms(2) by simp
  have "dev_ahead i base bits s'"
    unfolding s(2) dev_ahead_desc
    by (rule dev_ahead_add [OF a], rule range_usage_ahead [OF _ s(1)]) (use a in \<open>simp add: dev_ahead_def\<close>)
  moreover have "report_bits (hp_desc s') = Some bits" using s(1) by (simp add: s(2) report_bits_def add_usage_def)
  ultimately show ?thesis by blast
qed

lemma main_end_lay:
  assumes "p_hid_main_end i s = Some (err, s')" "report_bits (hp_desc s) = Some bits" "dev_ahead i base bits s"
  shows "dev_lay (hp_dev s')"
proof -
  let ?rs = "hd_reports (hp_dev s)"
  let ?r = "(?rs ! i)\<lparr>rp_bitlen := rp_bitlen (?rs ! i) + of_nat bits\<rparr>"
  have s': "hd_reports (hp_dev s') = ?rs[i := ?r]" using assms(1,2) by (auto simp: p_hid_main_end_def)
  have r: "report_lay ?r" using assms(3) by (simp add: dev_ahead_def lay_ahead_def report_lay_def)
  have "report_lay (?rs[i := ?r] ! j)" if "j < length ?rs" "rp_type (?rs[i := ?r] ! j) = HID_ITEM_INPUT" for j
    using assms(3) r that by (cases "j = i") (auto simp: dev_ahead_def)
  then show ?thesis by (auto simp: dev_lay_def s' in_set_conv_nth)
qed

lemma hid_input_lay:
  assumes "p_hid_input v s = Some (HID_NONE, s')" "dev_lay (hp_dev s)"
  shows "dev_lay (hp_dev s')"
proof -
  obtain i s1 where g: "p_vk_hid_get_report s HID_ITEM_INPUT = (Some i, s1)"
    using assms(1) by (auto simp: p_hid_input_def split: prod.splits option.splits)
  note l = get_report_lay [OF g assms(2)]
  define base where "base = usages_bits (rp_usages (hd_reports (hp_dev s1) ! i))"
  have "report_lay (hd_reports (hp_dev s1) ! i)" using l by (simp add: dev_lay_def)
  with l have a: "dev_ahead i base 0 s1" by (simp add: dev_ahead_def base_def lay_ahead_zero [symmetric] dev_lay_def)
  show ?thesis
  proof (cases "has_usage_range (hp_desc s1)")
    case True
    with assms(1) g obtain s2 where "p_hid_range i v s1 = Some (HID_NONE, s2)" "p_hid_main_end i s2 = Some (HID_NONE, s')"
      by (auto simp: p_hid_input_def bind_eq_Some_conv split: if_splits prod.splits)
    with hid_range_ahead [OF this(1) a] main_end_lay show ?thesis by blast
  next
    case False
    with assms(1) g obtain s2 where "p_hid_input_loop i v (unat (ds_report_count (hp_desc s1))) 0 s1 = Some (HID_NONE, s2)"
      "p_hid_main_end i s2 = Some (HID_NONE, s')"
      by (auto simp: p_hid_input_def bind_eq_Some_conv split: if_splits prod.splits)
    moreover obtain bits where "report_bits (hp_desc s2) = Some bits" using calculation(2) by (auto simp: p_hid_main_end_def bind_eq_Some_conv)
    moreover have "bits = unat (ds_report_count (hp_desc s2)) * unat (ds_report_size (hp_desc s2))"
      using calculation(3) by (auto simp: report_bits_def Let_def nat_mult_distrib mult.commute split: if_splits)
    ultimately show ?thesis using input_loop_ahead [of i v _ 0 s1 s2 base] a main_end_lay by fastforce
  qed
qed

text \<open>The other items leave the input reports alone.\<close>

definition other_report :: "nat \<Rightarrow> hid_parser \<Rightarrow> bool" where
  "other_report i s \<longleftrightarrow> dev_lay (hp_dev s) \<and> i < length (hd_reports (hp_dev s)) \<and> rp_type (hd_reports (hp_dev s) ! i) = HID_ITEM_OUTPUT"

lemma other_report_upd:
  assumes "other_report i s" "\<And>r. rp_type (f r) = rp_type r"
  shows "other_report i (upd_report i f (s\<lparr>hp_env := e\<rparr>))" "other_report i (upd_report i f s)"
  using assms by (auto simp: other_report_def upd_report_dev HID_ITEM_INPUT_def HID_ITEM_OUTPUT_def intro!: dev_lay_update)

lemma other_report_add: "other_report i s \<Longrightarrow> other_report i (add_usage i u (s\<lparr>hp_env := e\<rparr>))"
  unfolding add_usage_def by (rule other_report_upd) simp_all

lemma other_report_desc [simp]: "other_report i (upd_desc f s) = other_report i s" "other_report i (s\<lparr>hp_env := e\<rparr>) = other_report i s"
  by (simp_all add: other_report_def)

lemma output_loop_other:
  "p_hid_output_loop i v cnt k s = Some (err, s') \<Longrightarrow> other_report i s \<Longrightarrow> other_report i s'"
proof (induction "cnt - k" arbitrary: k s v rule: less_induct)
  case less
  obtain o1 e where m: "hid_malloc (hp_env s) = (o1, e)" by (cases "hid_malloc (hp_env s)")
  show ?case
  proof (cases "k < cnt \<and> o1 \<noteq> None")
    case True
    then obtain n us w where n: "p_hid_output_loop i w cnt (k + 1)
        (add_usage i (output_usage n v (rp_bitlen (hd_reports (hp_dev s) ! i)) k us w (hp_desc s)) (s\<lparr>hp_env := e\<rparr>)) = Some (err, s')"
      using output_loop_step [OF less.prems(1)] m by auto
    show ?thesis
      by (rule less.hyps [OF _ n]) (use True less.prems in \<open>auto intro!: other_report_add\<close>)
  next
    case False
    with output_loop_stop [OF less.prems(1), of e] m less.prems(2) show ?thesis by (auto split: if_splits)
  qed
qed

lemma hid_range_other: "p_hid_range i v s = Some (err, s') \<Longrightarrow> other_report i s \<Longrightarrow> other_report i s'"
  by (auto simp: p_hid_range_def Let_def bind_eq_Some_conv intro!: other_report_add split: prod.splits option.splits)

lemma main_end_other: "p_hid_main_end i s = Some (err, s') \<Longrightarrow> other_report i s \<Longrightarrow> other_report i s'"
  by (auto simp: p_hid_main_end_def bind_eq_Some_conv intro!: other_report_upd)

lemma hid_output_lay:
  assumes "p_hid_output v s = Some (HID_NONE, s')" "dev_lay (hp_dev s)"
  shows "dev_lay (hp_dev s')"
proof -
  obtain i s1 where g: "p_vk_hid_get_report s HID_ITEM_OUTPUT = (Some i, s1)"
    using assms(1) by (auto simp: p_hid_output_def split: prod.splits option.splits)
  have "other_report i s1" using get_report_lay [OF g assms(2)] by (simp add: other_report_def)
  with assms(1) g have "other_report i s'"
    by (auto simp: p_hid_output_def bind_eq_Some_conv split: if_splits prod.splits dest: hid_range_other output_loop_other main_end_other)
  then show ?thesis by (simp add: other_report_def)
qed

lemma parse_item_lay:
  assumes "p_vk_hid_parse_item tag sz buf s = Some (HID_NONE, s')" "dev_lay (hp_dev s)"
  shows "dev_lay (hp_dev s')"
proof -
  have "dev_lay (hp_dev s')" if "p_hid_feature s = Some (HID_NONE, s')"
    using that assms(2) by (auto simp: p_hid_feature_def split: prod.splits option.splits dest: get_report_lay)
  moreover have "dev_lay (hp_dev s')" if "p_hid_usage v s = Some (HID_NONE, s')" for v
    using that assms(2) by (auto simp: p_hid_usage_def Let_def split: if_splits)
  moreover have "dev_lay ((hp_dev s)\<lparr>hd_has_id := True\<rparr>)" using assms(2) by (simp add: dev_lay_def)
  ultimately show ?thesis
    using assms hid_input_lay hid_output_lay
    by (auto simp: p_vk_hid_parse_item_def bind_eq_Some_conv split: if_splits option.splits)
qed

lemma free_dev_reports: "vk_hid_free_dev d e = Some (d', e') \<Longrightarrow> hd_reports d' = []"
  by (auto simp: vk_hid_free_dev_def bind_eq_Some_conv)

lemma parse_desc_lay:
  assumes "vk_hid_parse_desc d mem len e = Some (n, d', e')" "he_ok e (he_next e)"
  shows "dev_lay d'"
proof -
  obtain m e1 where m: "hid_malloc e = (Some m, e1)" using assms(2) by (simp add: hid_malloc_def Let_def)
  let ?s = "\<lparr>hp_dev = hid_dev_start, hp_desc = hid_desc_start, hp_env = e1\<rparr>"
  obtain err s where s: "p_hid_parse_loop mem len 0 ?s = Some (err, s)"
    "hd_reports d' = [] \<or> err = HID_NONE \<and> d' = hp_dev s"
    using assms(1) m by (auto simp: vk_hid_parse_desc_def bind_eq_Some_conv dest: free_dev_reports split: if_splits)
  have "err = HID_NONE \<longrightarrow> dev_lay (hp_dev s)"
    using parse_loop_induct [OF s(1), of "\<lambda>s. dev_lay (hp_dev s)" "\<lambda>_. True"] parse_item_lay
    by (fastforce simp: dev_lay_def hid_dev_start_def)
  with s(2) show ?thesis by (auto simp: dev_lay_def)
qed

lemma process_input_keeps:
  assumes "vk_hid_process_input dof tick dev d mem len e = Some (es, d', e')" "dev_lay d"
  shows "dev_lay d'"
  using assms(1)
proof (cases rule: process_input_cases)
  case (stored rid buf i n old new ts)
  have "dev_lay (d\<lparr>hd_reports := (hd_reports d)[i := (hd_reports d ! i)\<lparr>rp_value := Some (n, new)\<rparr>]\<rparr>)"
    by (rule dev_lay_update [OF assms(2)]) (use find_report_some [OF stored(2)] assms(2) in \<open>auto simp: dev_lay_def report_lay_def\<close>)
  then show ?thesis by (simp add: stored(5) dev_lay_def)
qed (use assms(2) in simp)

lemma hid_run_lay: "hid_run dof dev rs d e = Some (d', e') \<Longrightarrow> dev_lay d \<Longrightarrow> dev_lay d'"
proof (induction rs arbitrary: d e)
  case (Cons r rs)
  then show ?case by (cases r) (auto split: option.splits dest: process_input_keeps)
qed simp

text \<open>
  Whatever the descriptor was, after its parser and any reports every input report is laid out: its usages follow each other
  without gaps or overlaps from bit 0 on, in the order of the descriptor, and its length is the sum of their lengths, as
  far as the positions have 16 bits.
\<close>

theorem hid_reports_laid_out:
  assumes "vk_hid_parse_desc d mem len e = Some (n, d', e')" "he_ok e (he_next e)"
    and "hid_run dof dev rs d' e' = Some (d2, e2)" "r \<in> set (hd_reports d2)" "rp_type r = HID_ITEM_INPUT"
  shows "laid_out 0 (rp_usages r) \<and> rp_bitlen r = of_nat (usages_bits (rp_usages r))"
  using hid_run_lay [OF assms(3) parse_desc_lay [OF assms(1,2)]] assms(4,5) by (auto simp: dev_lay_def report_lay_def)

theorem hid_reports_laid_out_witness:
  "\<exists>d2 e2. hid_run (\<lambda>a b. b - a) 1 [] mouse_dev mouse_env = Some (d2, e2) \<and> map (laid_out 0 \<circ> rp_usages) (hd_reports d2) = [True]"
proof -
  have r: "hd_reports mouse_dev = [mouse_report]" "rp_type mouse_report = HID_ITEM_INPUT"
    by (simp_all add: mouse_dev_def mouse_report_def HID_ITEM_INPUT_def)
  have h: "hid_run (\<lambda>a b. b - a) 1 [] mouse_dev mouse_env = Some (mouse_dev, mouse_env)" by simp
  from hid_reports_laid_out [OF mouse_parse _ h _ r(2)] r h show ?thesis by (simp add: hid_env0_def)
qed

section \<open>Events of input reports\<close>

lemma nat_sint_small: "unat (w :: u32) < 65536 \<Longrightarrow> nat (sint w) = unat w"
proof -
  assume "unat w < 65536"
  then have "uint w < 65536" by (metis of_nat_less_iff of_nat_numeral uint_nat)
  then have "sint w = uint w" unfolding sint_uint by (intro signed_take_bit_int_eq_self) (auto intro: order_trans [of _ 0])
  then show ?thesis by simp
qed

text \<open>The fields of a report with their positions: the position is the number of bits of the fields before it.\<close>

fun report_fields :: "nat \<Rightarrow> vk_hid_usage_t list \<Rightarrow> (vk_hid_usage_t \<times> nat \<times> nat) list" where
  "report_fields n [] = []"
| "report_fields n (u # us) = map (\<lambda>i. (u, i, n + i * unat (us_report_size u))) [0..<unat (us_report_count u)] @ report_fields (n + usage_bits u) us"

definition bits_at :: "u8 list \<Rightarrow> nat \<Rightarrow> nat \<Rightarrow> u32" where
  "bits_at buf pos n = the (vk_input_buf_get_value buf pos n)"

lemma bits_at_value: "pos + n \<le> 8 * length buf \<Longrightarrow> n \<le> 32 \<Longrightarrow> vk_input_buf_get_value buf pos n = Some (bits_at buf pos n)"
  using get_value_bits [of pos n buf] by (auto simp: bits_at_def)

text \<open>The event of a field: when it has a value that differs from the stored one or, for a relative usage, from zero.\<close>

definition field_evt :: "nat \<Rightarrow> u32 \<Rightarrow> u8 list \<Rightarrow> u8 list \<Rightarrow> vk_hid_usage_t \<times> nat \<times> nat \<Rightarrow> vk_hid_evt_t list" where
  "field_evt dev duration old buf = (\<lambda>(u, i, pos). let c = bits_at buf pos (unat (us_report_size u)); p = bits_at old pos (unat (us_report_size u)) in
     if c = (if hid_usage_is_rel u then 0 else p) then []
     else [\<lparr>ev_dev = dev, ev_duration = duration,
       ev_id = hid_evt_id u (if hid_usage_is_var u then ucast (us_usage_min u) + of_nat i else if c \<noteq> 0 then c AND 0xFFFF else p AND 0xFFFF),
       ev_pre = p, ev_cur = c, ev_usage = u\<rparr>])"

lemma concat_opt_some: "(\<And>x. x \<in> set xs \<Longrightarrow> f x = Some (g x)) \<Longrightarrow> concat_opt f xs = Some (concat (map g xs))"
  by (induction xs) auto

lemma field_position:
  assumes "unat (us_bit_offset u) = n" "i < unat (us_report_count u)" "n + usage_bits u < 65536"
  shows "unat (us_bit_offset u + of_nat i * us_report_size u) = n + i * unat (us_report_size u)"
    "n + i * unat (us_report_size u) + unat (us_report_size u) \<le> n + usage_bits u"
proof -
  have "(i + 1) * unat (us_report_size u) \<le> unat (us_report_count u) * unat (us_report_size u)" using assms(2) by (intro mult_le_mono) auto
  then show l: "n + i * unat (us_report_size u) + unat (us_report_size u) \<le> n + usage_bits u"
    by (simp add: usage_bits_def mult.commute add.commute)
  have "us_bit_offset u + of_nat i * us_report_size u = of_nat (n + i * unat (us_report_size u))"
    using assms(1) by (simp flip: assms(1))
  with l assms(3) show "unat (us_bit_offset u + of_nat i * us_report_size u) = n + i * unat (us_report_size u)"
    by (simp only: unat_of_nat32)
qed

lemma usage_evts_fields:
  assumes "unat (us_bit_offset u) = n" "unat (us_report_count u) < 65536" "n + usage_bits u < 65536" "unat (us_report_size u) \<le> 32"
    and "n + usage_bits u \<le> 8 * length buf" "n + usage_bits u \<le> 8 * length old"
  shows "p_hid_usage_evts dev dur old buf u =
    Some (concat (map (field_evt dev dur old buf) (map (\<lambda>i. (u, i, n + i * unat (us_report_size u))) [0..<unat (us_report_count u)])))"
proof -
  have c: "nat (sint (us_report_count u)) = unat (us_report_count u)"
    using assms(2) by (simp add: nat_sint_small)
  have "p_hid_field_evt dev dur old buf u i = Some (field_evt dev dur old buf (u, i, n + i * unat (us_report_size u)))"
    if "i < unat (us_report_count u)" for i
    using field_position [OF assms(1) that assms(3)] assms(4-6)
    by (simp add: p_hid_field_evt_def hid_field_def bits_at_value field_evt_def Let_def)
  then show ?thesis unfolding p_hid_usage_evts_def c map_map by (subst concat_opt_some) auto
qed

lemma report_evts_fields:
  "laid_out n us \<Longrightarrow> n + usages_bits us < 65536 \<Longrightarrow> \<forall>u \<in> set us. unat (us_report_size u) \<le> 32 \<Longrightarrow>
     n + usages_bits us \<le> 8 * length buf \<Longrightarrow> n + usages_bits us \<le> 8 * length old \<Longrightarrow>
     concat_opt (p_hid_usage_evts dev dur old buf) us = Some (concat (map (field_evt dev dur old buf) (report_fields n us)))"
proof (induction us arbitrary: n)
  case (Cons u us)
  have b: "n + usages_bits (u # us) = n + usage_bits u + usages_bits us" by (simp add: usages_bits_def)
  have "p_hid_usage_evts dev dur old buf u =
    Some (concat (map (field_evt dev dur old buf) (map (\<lambda>i. (u, i, n + i * unat (us_report_size u))) [0..<unat (us_report_count u)])))"
    by (rule usage_evts_fields) (use Cons.prems b in auto)
  moreover have "concat_opt (p_hid_usage_evts dev dur old buf) us =
    Some (concat (map (field_evt dev dur old buf) (report_fields (n + usage_bits u) us)))"
    by (rule Cons.IH) (use Cons.prems b in auto)
  ultimately show ?case by simp
qed simp

lemma report_fields_in:
  "(u, i, pos) \<in> set (report_fields n us) \<Longrightarrow> u \<in> set us \<and> pos + unat (us_report_size u) \<le> n + usages_bits us"
proof (induction us arbitrary: n)
  case (Cons v us)
  show ?case
  proof (cases "(u, i, pos) \<in> set (report_fields (n + usage_bits v) us)")
    case True
    from Cons.IH [OF this] show ?thesis by (simp add: usages_bits_def add.assoc)
  next
    case False
    then have u: "u = v" "pos = n + i * unat (us_report_size v)" "i < unat (us_report_count v)" using Cons.prems by auto
    have "(i + 1) * unat (us_report_size v) \<le> unat (us_report_count v) * unat (us_report_size v)" using u(3) by (intro mult_le_mono) auto
    with u show ?thesis by (simp add: usage_bits_def usages_bits_def mult.commute)
  qed
qed simp

text \<open>Two buffers with the same first bytes have the same fields in them.\<close>

lemma bits_at_take:
  assumes "pos + n \<le> 8 * len" "len \<le> length buf" "n \<le> 32"
  shows "bits_at (take len buf) pos n = bits_at buf pos n"
proof -
  obtain w where w: "vk_input_buf_get_value buf pos n = Some w" "\<And>k. k < 32 \<Longrightarrow> bit w k \<longleftrightarrow> k < n \<and> buf_bit buf (pos + k)"
    using get_value_bits [of pos n buf] assms by auto
  have "vk_input_buf_get_value (take len buf) pos n = Some w"
  proof (rule get_value_eqI)
    fix k :: nat assume k: "k < 32"
    have "buf_bit (take len buf) (pos + k) = buf_bit buf (pos + k)" if "k < n"
      using that assms(1) by (simp add: buf_bit_def less_mult_imp_div_less mult.commute)
    then show "bit w k \<longleftrightarrow> k < n \<and> buf_bit (take len buf) (pos + k)" using w(2) [OF k] by blast
  qed (use assms in simp_all)
  with w(1) show ?thesis by (simp add: bits_at_def)
qed

lemma field_evts_quiet:
  assumes "usages_bits us \<le> 8 * len" "len \<le> length buf" "\<forall>u \<in> set us. unat (us_report_size u) \<le> 32 \<and> \<not> hid_usage_is_rel u"
  shows "concat (map (field_evt dev dur (take len buf) buf) (report_fields 0 us)) = []"
proof -
  have "field_evt dev dur (take len buf) buf x = []" if "x \<in> set (report_fields 0 us)" for x
  proof -
    obtain u i pos where x: "x = (u, i, pos)" by (cases x)
    have "bits_at (take len buf) pos (unat (us_report_size u)) = bits_at buf pos (unat (us_report_size u))"
      using report_fields_in [of u i pos 0 us] that assms by (intro bits_at_take) (auto simp: x)
    with report_fields_in [of u i pos 0 us] that assms(3) show ?thesis by (simp add: x field_evt_def Let_def)
  qed
  then show ?thesis by (simp add: concat_eq_Nil_conv)
qed


definition evt_list :: "(vk_hid_evt_t list \<times> vk_input_hid_t \<times> hid_env) option \<Rightarrow> (u64 \<times> u32) list" where
  "evt_list = case_option [] (\<lambda>(es, _). map (\<lambda>ev. (ev_id ev, ev_cur ev)) es)"


section \<open>Deviations\<close>

text \<open>
  A report with an identifier is read and copied from its second byte on, but with the length of the whole report: the copy
  reads one byte behind a report that ends with its buffer.
\<close>

lemma hid_id_reads_behind:
  assumes "hd_has_id d" "length mem = len" "hid_input_id d mem = Some (rid, buf)"
    and "find_report (\<lambda>r. rp_type r = HID_ITEM_INPUT \<and> sint (rp_id r) = rid) (hd_reports d) = Some i"
    and "hid_report_value (hd_reports d ! i) len e = (Some (n, old), e')"
  shows "vk_hid_process_input dof tick dev d mem len e = None"
proof -
  have "length buf < len" using assms(1-3) by (auto simp: hid_input_id_def split: list.splits)
  then have "store_report len buf old = None" by (simp add: store_report_def)
  with assms(3-5) show ?thesis
    by (cases "concat_opt (p_hid_usage_evts dev (fst (vk_input_update_timestamp dof tick (hd_timestamp d))) old buf) (rp_usages (hd_reports d ! i))")
      (simp_all add: vk_hid_process_input_def Let_def split: prod.splits)
qed

text \<open>An input item without a range of usages reads the array of 32 usages up to the count of the report: here of a vendor with 33 bytes.\<close>

lemma hid_vendor_report_reads_behind:
  "vk_hid_parse_desc hid_dev_start [0x06, 0x00, 0xFF, 0x09, 0x01, 0xA1, 0x01, 0x09, 0x01, 0x75, 0x08, 0x95, 0x21, 0x81, 0x02, 0xC0] 16 hid_env0 = None"
  by code_simp

text \<open>The padding of the mouse is constant and has no usage; a bit of it that changes is reported as button 1.\<close>

lemma hid_padding_reported:
  "map_option (map ev_id) (concat_opt (p_hid_usage_evts 7 0 [0, 0, 0] [8, 0, 0]) (rp_usages mouse_report)) = Some [0x9010102]"
  "map_option (map ev_id) (concat_opt (p_hid_usage_evts 7 0 [0, 0, 0] [1, 0, 0]) (rp_usages mouse_report)) = Some [0x9010102]"
  by code_simp+

text \<open>
  The slots of an array are compared one by one. When the first of two keys is released and the second one moves to its slot, the
  events are a press and then a release of the key that is still held, and none of the released key.
\<close>

definition key_array :: vk_hid_usage_t where
  "key_array = \<lparr>us_blk = 0, us_generic_usage_page = 1, us_generic_usage_id = 6, us_data_flag = 0, us_usage_page = 7, us_usage_min = 0,
     us_usage_max = 101, us_logical_min = 0, us_logical_max = 101, us_bit_offset = 0, us_bit_length = 16, us_report_size = 8, us_report_count = 2\<rparr>"

lemma hid_array_slots:
  "map_option (map (\<lambda>ev. (hid_get_usage_id ev, ev_cur ev))) (p_hid_usage_evts 7 0 [4, 5] [5, 0] key_array) = Some [(5, 5), (5, 0)]"
  by code_simp

text \<open>A long item has three bytes before its data, but one is skipped: its tag and its data are parsed as items.\<close>

lemma hid_long_item:
  "map_option (\<lambda>(err, s). ds_collection (hp_desc s)) (p_hid_parse_loop [0xFE, 1, 0xC0, 0] 4 0 \<lparr>hp_dev = hid_dev_start, hp_desc = hid_desc_start, hp_env = hid_env0\<rparr>)
     = Some 255"
  by code_simp

text \<open>A descriptor that is refused is announced as the end of a device that was never announced as new.\<close>

lemma hid_free_without_new:
  "map_option (\<lambda>(n, d, e). (n, he_log e)) (vk_hid_parse_desc hid_dev_start [0xA1, 1] 2 hid_env0) = Some (0, [On_Free_Dev])"
  by code_simp

text \<open>In an output item with several usages the flags of all but the first are the length of a usage.\<close>

lemma hid_output_flags:
  "map_option (\<lambda>(n, d, e). map (map us_data_flag \<circ> rp_usages) (hd_reports d))
     (vk_hid_parse_desc hid_dev_start [0x09, 1, 0x09, 2, 0x75, 1, 0x95, 2, 0x91, 2] 10 hid_env0) = Some [[2, 1]]"
  by code_simp

text \<open>A usage above 255, as of the consumer page, changes the page of the event.\<close>

lemma hid_usage_overlaps_page:
  "drop_bit 24 (hid_evt_id (key_array\<lparr>us_usage_page := 0x0C\<rparr>) 0x223) = 0x0E" "drop_bit 24 (hid_evt_id (key_array\<lparr>us_usage_page := 0x0C\<rparr>) 0x23) = 0x0C"
  by code_simp+

section \<open>Touch screens\<close>

text \<open>
  The two coordinates together give one touch with the device not set; a release is reported at once with the coordinates
  of before, and again with those of its own report.
\<close>

definition touch_ev :: "u8 \<Rightarrow> u8 \<Rightarrow> u32 \<Rightarrow> vk_hid_evt_t" where
  "touch_ev page usage v = \<lparr>ev_dev = 7, ev_duration = 0, ev_id = 4 OR push_bit 8 0x0D OR push_bit 16 (ucast usage) OR push_bit 24 (ucast page),
     ev_pre = 0, ev_cur = v, ev_usage = key_array\<rparr>"

definition touch_start :: hid_touch where
  "touch_start = \<lparr>tc_x = 0, tc_y = 0, tc_height = 0, tc_width = 0, tc_mask = 0, tc_pressure = 0, tc_is_down = False, tc_dev = None, tc_id = 0\<rparr>"

fun touches :: "vk_hid_evt_t list \<Rightarrow> hid_touch \<Rightarrow> (nat option \<times> bool \<times> u16 \<times> u16) list" where
  "touches [] t = []"
| "touches (ev # evs) t = (case vsf_hid_parse_touch_screen ev t of None \<Rightarrow> []
     | Some (None, t) \<Rightarrow> touches evs t
     | Some (Some te, t) \<Rightarrow> (evt_dev te, vsf_input_touchscreen_is_down te,
         vsf_input_touchscreen_get_x te, vsf_input_touchscreen_get_y te) # touches evs t)"

lemma hid_touch_sequence:
  "touches [touch_ev 0x0D 0x42 1, touch_ev 1 0x30 100, touch_ev 1 0x31 200, touch_ev 0x0D 0x42 0, touch_ev 1 0x30 110, touch_ev 1 0x31 210] touch_start
     = [(None, True, 100, 200), (None, False, 100, 200), (None, False, 110, 210)]"
  by code_simp

text \<open>A touch event carries no device, so that a notifier of one device does not get the touches of its device.\<close>

lemma hid_touch_no_dev:
  "vsf_hid_parse_touch_screen ev t = Some (Some te, t') \<Longrightarrow> evt_dev te = None"
  by (auto simp: vsf_hid_parse_touch_screen_def Let_def touch_evt_def vsf_input_touchscreen_set_def split: if_splits)

end
