(* ===== verification/VSF_Touch.thy ===== *)
theory VSF_Touch
  imports VSF_Input
begin

unbundle bit_operations_syntax

text \<open>
  Touch screens on an I2C bus: the access to registers of \<open>src/source/hal/utilities/i2c_util\<close> and the drivers for the
  controllers GT9xx and CST8xx of \<open>src/source/component/input/driver/touch_screen\<close>.

  The I2C controller is a parameter: it has at most one running request, whose end it signals with the bytes that were read,
  or with a failure. A request that is made while another one runs, a failed assertion and an access outside of the buffer of
  the driver are \<open>None\<close>. Data of a request are named by their place in the buffer of the driver.
\<close>

section \<open>Access to registers\<close>

datatype i2c_cmd = I2C_START | I2C_RESTART | I2C_STOP | I2C_WRITE | I2C_READ

datatype i2c_req = I2c_Write (rq_cmd: "i2c_cmd list") (rq_addr: u8) (rq_bytes: "u8 list")
  | I2c_Read (rq_cmd: "i2c_cmd list") (rq_addr: u8) (rq_place: nat) (rq_len: nat)

record vsf_i2c_regacc_t =
  ra_i2c_addr :: u8
  ra_reg_addr_len :: nat
  ra_reg :: u16
  ra_datalen :: nat
  ra_data :: nat
  ra_is_busy :: bool
  ra_is_read :: bool
  ra_is_regaddr :: bool
  ra_bus :: "i2c_req option"

definition vsf_i2c_master_request :: "i2c_req \<Rightarrow> vsf_i2c_regacc_t \<Rightarrow> vsf_i2c_regacc_t option" where
  "vsf_i2c_master_request rq a = (if ra_bus a = None then Some (a\<lparr>ra_bus := Some rq\<rparr>) else None)"

definition vsf_i2c_regacc :: "u16 \<Rightarrow> bool \<Rightarrow> nat \<Rightarrow> nat \<Rightarrow> vsf_i2c_regacc_t \<Rightarrow> vsf_i2c_regacc_t option" where
  "vsf_i2c_regacc reg is_read data datalen a =
     (if 0 < datalen \<and> \<not> ra_is_busy a \<and> (2 \<le> ra_reg_addr_len a \<or> reg \<le> 0xFF) then
        let a = a\<lparr>ra_is_busy := True, ra_is_regaddr := True, ra_is_read := is_read, ra_data := data, ra_datalen := datalen, ra_reg := reg\<rparr>;
            bytes = (if 2 \<le> ra_reg_addr_len a then [ucast (drop_bit 8 reg), ucast reg] else [ucast reg])
        in vsf_i2c_master_request (I2c_Write [I2C_START, I2C_WRITE] (ra_i2c_addr a) bytes) a
      else None)"

datatype i2c_err = I2C_NONE | I2C_FAIL | I2C_NOT_READY

text \<open>\<open>ok\<close> is the interrupt for the end of a transfer, all other interrupts are failures.\<close>

definition vsf_i2c_regacc_irqhandler :: "u8 list \<Rightarrow> bool \<Rightarrow> vsf_i2c_regacc_t \<Rightarrow> (i2c_err \<times> vsf_i2c_regacc_t) option" where
  "vsf_i2c_regacc_irqhandler buffer ok a =
     (if \<not> ok then Some (I2C_FAIL, a\<lparr>ra_is_busy := False\<rparr>)
      else if ra_is_regaddr a then
        let a = a\<lparr>ra_is_regaddr := False\<rparr> in
        map_option (Pair I2C_NOT_READY) (vsf_i2c_master_request
          (if ra_is_read a then I2c_Read [I2C_RESTART, I2C_READ, I2C_STOP] (ra_i2c_addr a) (ra_data a) (ra_datalen a)
           else I2c_Write [I2C_WRITE, I2C_STOP] (ra_i2c_addr a) (take (ra_datalen a) (drop (ra_data a) buffer))) a)
      else Some (I2C_NONE, a\<lparr>ra_is_busy := False\<rparr>))"

section \<open>GT9xx\<close>

definition GT9XX_MAX_TOUCH :: nat where "GT9XX_MAX_TOUCH = 5"
definition GT9XX_REG_PRODUCT_ID :: u16 where "GT9XX_REG_PRODUCT_ID = 0x8140"
definition GT9XX_REG_READ_STATUS :: u16 where "GT9XX_REG_READ_STATUS = 0x814E"
definition GT9XX_REG_POINTS :: u16 where "GT9XX_REG_POINTS = 0x814F"

definition p_vk_input_gt9xx_addr_tab :: "u8 list" where
  "p_vk_input_gt9xx_addr_tab = [0x5D, 0x14]"

datatype gt9xx_state = GT9XX_STATE_PROBE | GT9XX_STATE_IDLE | GT9XX_STATE_READ | GT9XX_STATE_READ_POINTS | GT9XX_STATE_CLEAR

text \<open>
  \<open>gt_pad\<close> says that the interrupt pad is wired, \<open>gt_armed\<close> that its interrupt is enabled and \<open>gt_timer\<close> that the poll timer
  runs; \<open>gt_out\<close> has the touch events for \<open>vsf_input_on_touchscreen\<close>.
\<close>

record vk_input_gt9xx_t =
  gt_regacc :: vsf_i2c_regacc_t
  gt_pad :: bool
  gt_width :: u16
  gt_height :: u16
  gt_is_ready :: bool
  gt_probe_failed :: bool
  gt_buffer :: "u8 list"
  gt_last_down :: u8
  gt_addr_idx :: nat
  gt_state :: gt9xx_state
  gt_prio :: nat
  gt_armed :: bool
  gt_timer :: bool
  gt_out :: "vk_touchscreen_evt_t list"

definition gt_with_bus :: "(vsf_i2c_regacc_t \<Rightarrow> vsf_i2c_regacc_t option) \<Rightarrow> vk_input_gt9xx_t \<Rightarrow> vk_input_gt9xx_t option" where
  "gt_with_bus f s = map_option (\<lambda>a. s\<lparr>gt_regacc := a\<rparr>) (f (gt_regacc s))"

definition p_vk_input_gt9xx_report :: "u8 \<Rightarrow> bool \<Rightarrow> u16 \<Rightarrow> u16 \<Rightarrow> u16 \<Rightarrow> vk_input_gt9xx_t \<Rightarrow> vk_input_gt9xx_t" where
  "p_vk_input_gt9xx_report i down x y pressure s = s\<lparr>gt_out := gt_out s @ [vsf_input_touchscreen_set_u16
     \<lparr>evt_dev = Some 0, evt_duration = 0, evt_id = 0, evt_pre = 0, evt_cur = 0, ts_width = gt_width s, ts_height = gt_height s\<rparr>
     (ucast i) down pressure x y]\<rparr>"

definition gt_le16 :: "u8 list \<Rightarrow> nat \<Rightarrow> u16" where
  "gt_le16 buffer i = ucast (buffer ! i) OR push_bit 8 (ucast (buffer ! (i + 1)))"

definition gt_point_id :: "u8 list \<Rightarrow> nat \<Rightarrow> u8" where
  "gt_point_id buffer i = buffer ! (1 + i * 8) AND 0x0F"

text \<open>The points of a frame; the bits of the tracked fingers are kept in 8 bits.\<close>

definition gt_point :: "nat \<Rightarrow> vk_input_gt9xx_t \<times> u8 \<Rightarrow> vk_input_gt9xx_t \<times> u8" where
  "gt_point i = (\<lambda>(s, cur_down). let p = 1 + i * 8; pid = gt_point_id (gt_buffer s) i in
     (p_vk_input_gt9xx_report pid True (gt_le16 (gt_buffer s) (p + 1)) (gt_le16 (gt_buffer s) (p + 3)) (gt_le16 (gt_buffer s) (p + 5)) s,
      cur_down OR ucast (push_bit (unat pid) 1 :: u32)))"

definition gt_release :: "u8 \<Rightarrow> nat \<Rightarrow> vk_input_gt9xx_t \<Rightarrow> vk_input_gt9xx_t" where
  "gt_release cur_down i s =
     (if bit (gt_last_down s AND NOT cur_down) i then p_vk_input_gt9xx_report (of_nat i) False 0 0 0 s else s)"

definition gt_status_num :: "vk_input_gt9xx_t \<Rightarrow> nat" where
  "gt_status_num s = unat (gt_buffer s ! 0 AND 0x0F)"

definition p_vk_input_gt9xx_read_touch :: "vk_input_gt9xx_t \<Rightarrow> vk_input_gt9xx_t" where
  "p_vk_input_gt9xx_read_touch s =
     (let (s, cur_down) = (if gt_buffer s ! 0 AND 0x80 \<noteq> 0 \<and> gt_status_num s \<le> GT9XX_MAX_TOUCH
        then fold gt_point [0..<gt_status_num s] (s, 0) else (s, 0));
       s = fold (gt_release cur_down) [0..<GT9XX_MAX_TOUCH] s
     in s\<lparr>gt_last_down := cur_down\<rparr>)"

definition p_vk_input_gt9xx_arm_int :: "vk_input_gt9xx_t \<Rightarrow> vk_input_gt9xx_t" where
  "p_vk_input_gt9xx_arm_int s = s\<lparr>gt_armed := True\<rparr>"

definition p_vk_input_gt9xx_trigger :: "vk_input_gt9xx_t \<Rightarrow> vk_input_gt9xx_t" where
  "p_vk_input_gt9xx_trigger s = (if gt_pad s then p_vk_input_gt9xx_arm_int s else s)"

definition p_vk_input_gt9xx_clear_status :: "vk_input_gt9xx_t \<Rightarrow> vk_input_gt9xx_t option" where
  "p_vk_input_gt9xx_clear_status s =
     (let bytes = [ucast (drop_bit 8 GT9XX_REG_READ_STATUS), ucast GT9XX_REG_READ_STATUS, 0];
          s = s\<lparr>gt_buffer := bytes @ drop 3 (gt_buffer s), gt_state := GT9XX_STATE_CLEAR\<rparr>
      in gt_with_bus (vsf_i2c_master_request (I2c_Write [I2C_START, I2C_WRITE] (ra_i2c_addr (gt_regacc s)) bytes)) s)"

definition p_vk_input_gt9xx_read_status :: "vk_input_gt9xx_t \<Rightarrow> vk_input_gt9xx_t option" where
  "p_vk_input_gt9xx_read_status s =
     gt_with_bus (vsf_i2c_regacc GT9XX_REG_READ_STATUS True 0 9) (s\<lparr>gt_state := GT9XX_STATE_READ\<rparr>)"

definition p_vk_input_gt9xx_on_frame_done :: "vk_input_gt9xx_t \<Rightarrow> vk_input_gt9xx_t" where
  "p_vk_input_gt9xx_on_frame_done s = (let s = s\<lparr>gt_state := GT9XX_STATE_IDLE\<rparr> in if gt_pad s then p_vk_input_gt9xx_arm_int s else s)"

definition p_vk_input_gt9xx_int_isrhandler :: "vk_input_gt9xx_t \<Rightarrow> vk_input_gt9xx_t option" where
  "p_vk_input_gt9xx_int_isrhandler s = p_vk_input_gt9xx_read_status (s\<lparr>gt_armed := False\<rparr>)"

text \<open>The end of a transfer in each of the states.\<close>

definition gt_printable :: "u8 \<Rightarrow> bool" where
  "gt_printable b \<longleftrightarrow> 0x20 \<le> b \<and> b < 0x7F"

definition gt_on_probe :: "vk_input_gt9xx_t \<Rightarrow> vk_input_gt9xx_t" where
  "gt_on_probe s = (if gt_printable (gt_buffer s ! 0) \<and> gt_printable (gt_buffer s ! 1)
     then p_vk_input_gt9xx_trigger (s\<lparr>gt_is_ready := True, gt_last_down := 0, gt_state := GT9XX_STATE_IDLE\<rparr>)
     else s\<lparr>gt_probe_failed := True\<rparr>)"

definition gt_on_read :: "vk_input_gt9xx_t \<Rightarrow> vk_input_gt9xx_t option" where
  "gt_on_read s = (let touch_num = gt_status_num s in
     if gt_buffer s ! 0 AND 0x80 = 0 then Some (p_vk_input_gt9xx_on_frame_done s)
     else if 1 < touch_num \<and> touch_num \<le> GT9XX_MAX_TOUCH
     then gt_with_bus (vsf_i2c_regacc (GT9XX_REG_POINTS + 8) True 9 ((touch_num - 1) * 8)) (s\<lparr>gt_state := GT9XX_STATE_READ_POINTS\<rparr>)
     else p_vk_input_gt9xx_clear_status (p_vk_input_gt9xx_read_touch s))"

definition gt_on_failure :: "vk_input_gt9xx_t \<Rightarrow> vk_input_gt9xx_t option" where
  "gt_on_failure s =
     (if gt_state s = GT9XX_STATE_PROBE then
        let s = s\<lparr>gt_addr_idx := gt_addr_idx s + 1\<rparr> in
        if gt_addr_idx s < length p_vk_input_gt9xx_addr_tab
        then gt_with_bus (\<lambda>a. vsf_i2c_regacc GT9XX_REG_PRODUCT_ID True 0 4 (a\<lparr>ra_i2c_addr := p_vk_input_gt9xx_addr_tab ! gt_addr_idx s\<rparr>)) s
        else Some (s\<lparr>gt_probe_failed := True\<rparr>)
      else Some (p_vk_input_gt9xx_on_frame_done s))"

definition p_vk_input_gt9xx_i2c_isrhandler :: "bool \<Rightarrow> vk_input_gt9xx_t \<Rightarrow> vk_input_gt9xx_t option" where
  "p_vk_input_gt9xx_i2c_isrhandler ok s = do {
     (err, a) \<leftarrow> vsf_i2c_regacc_irqhandler (gt_buffer s) ok (gt_regacc s);
     let s = s\<lparr>gt_regacc := a\<rparr>;
     (case err of I2C_FAIL \<Rightarrow> gt_on_failure s
      | I2C_NOT_READY \<Rightarrow> Some s
      | I2C_NONE \<Rightarrow> (case gt_state s of
          GT9XX_STATE_PROBE \<Rightarrow> Some (gt_on_probe s)
        | GT9XX_STATE_READ \<Rightarrow> gt_on_read s
        | GT9XX_STATE_READ_POINTS \<Rightarrow> p_vk_input_gt9xx_clear_status (p_vk_input_gt9xx_read_touch s)
        | GT9XX_STATE_CLEAR \<Rightarrow> Some (p_vk_input_gt9xx_on_frame_done s)
        | GT9XX_STATE_IDLE \<Rightarrow> Some s))
   }"

definition p_vk_input_gt9xx_on_poll :: "vk_input_gt9xx_t \<Rightarrow> vk_input_gt9xx_t option" where
  "p_vk_input_gt9xx_on_poll s =
     (if gt_pad s then Some s
      else do {
        s \<leftarrow> (if gt_state s = GT9XX_STATE_IDLE \<and> gt_is_ready s then p_vk_input_gt9xx_read_status s else Some s);
        Some (s\<lparr>gt_timer := True\<rparr>)
      })"

definition vk_input_gt9xx_init :: "nat \<Rightarrow> vk_input_gt9xx_t \<Rightarrow> vk_input_gt9xx_t option" where
  "vk_input_gt9xx_init prio s =
     (let s = s\<lparr>gt_prio := prio, gt_state := GT9XX_STATE_PROBE, gt_addr_idx := 0,
        gt_regacc := (gt_regacc s)\<lparr>ra_reg_addr_len := 2, ra_i2c_addr := p_vk_input_gt9xx_addr_tab ! 0\<rparr>\<rparr>;
        s = (if gt_pad s then s\<lparr>gt_armed := False\<rparr> else s\<lparr>gt_timer := True\<rparr>)
      in gt_with_bus (vsf_i2c_regacc GT9XX_REG_PRODUCT_ID True 0 4) s)"

text \<open>
  The environment: the controller ends the running request, an edge arrives at the pad while its interrupt is enabled, or the
  poll timer expires. An event that cannot happen has no effect.
\<close>

datatype gt_evt = Gt_Bus bool "u8 list" | Gt_Pad | Gt_Timer

definition bus_store :: "i2c_req \<Rightarrow> u8 list \<Rightarrow> u8 list \<Rightarrow> u8 list option" where
  "bus_store rq bytes buffer = (case rq of I2c_Write _ _ _ \<Rightarrow> Some buffer
     | I2c_Read _ _ place n \<Rightarrow> if place + n \<le> length buffer then Some (blk_write buffer place (take n (bytes @ replicate n 0))) else None)"

fun gt_step :: "gt_evt \<Rightarrow> vk_input_gt9xx_t \<Rightarrow> vk_input_gt9xx_t option" where
  "gt_step (Gt_Bus ok bytes) s = (case ra_bus (gt_regacc s) of None \<Rightarrow> Some s
     | Some rq \<Rightarrow> do {
         buffer \<leftarrow> (if ok then bus_store rq bytes (gt_buffer s) else Some (gt_buffer s));
         p_vk_input_gt9xx_i2c_isrhandler ok (s\<lparr>gt_buffer := buffer, gt_regacc := (gt_regacc s)\<lparr>ra_bus := None\<rparr>\<rparr>)
       })"
| "gt_step Gt_Pad s = (if gt_armed s then p_vk_input_gt9xx_int_isrhandler s else Some s)"
| "gt_step Gt_Timer s = (if gt_timer s then p_vk_input_gt9xx_on_poll (s\<lparr>gt_timer := False\<rparr>) else Some s)"

fun gt_run :: "gt_evt list \<Rightarrow> vk_input_gt9xx_t \<Rightarrow> vk_input_gt9xx_t option" where
  "gt_run [] s = Some s"
| "gt_run (ev # evs) s = gt_step ev s \<bind> gt_run evs"

section \<open>CST8xx\<close>

text \<open>
  The registers of the buffer are in the order of their addresses, \<open>xpos_h\<close> is \<open>3\<close>, with the event in its upper half. The
  interrupt of the pad is configured with the priority that is in the object before the new one is stored.
\<close>

record vk_input_cst8_t =
  cs_regacc :: vsf_i2c_regacc_t
  cs_width :: u16
  cs_height :: u16
  cs_buffer :: "u8 list"
  cs_prio :: nat
  cs_exti_prio :: nat
  cs_armed :: bool
  cs_out :: "vk_touchscreen_evt_t list"

definition cs_with_bus :: "(vsf_i2c_regacc_t \<Rightarrow> vsf_i2c_regacc_t option) \<Rightarrow> vk_input_cst8_t \<Rightarrow> vk_input_cst8_t option" where
  "cs_with_bus f s = map_option (\<lambda>a. s\<lparr>cs_regacc := a\<rparr>) (f (cs_regacc s))"

definition p_vk_input_cst8_eint_isrhandler :: "vk_input_cst8_t \<Rightarrow> vk_input_cst8_t option" where
  "p_vk_input_cst8_eint_isrhandler s = cs_with_bus (vsf_i2c_regacc 0 True 0 7) (s\<lparr>cs_armed := False\<rparr>)"

definition cs_touch :: "vk_input_cst8_t \<Rightarrow> vk_touchscreen_evt_t" where
  "cs_touch s = (let b = cs_buffer s; evt = b ! 3 AND 0xF0 in
     vsf_input_touchscreen_set_u16
       \<lparr>evt_dev = Some 0, evt_duration = 0, evt_id = 0, evt_pre = 0, evt_cur = 0, ts_width = cs_width s, ts_height = cs_height s\<rparr>
       0 (evt = 0 \<or> evt = 0x80) (push_bit 8 (ucast (b ! 3 AND 0x0F)) OR ucast (b ! 4)) (push_bit 8 (ucast (b ! 5 AND 0x0F)) OR ucast (b ! 6)) 0)"

definition p_vk_input_cst8_i2c_isrhandler :: "bool \<Rightarrow> vk_input_cst8_t \<Rightarrow> vk_input_cst8_t option" where
  "p_vk_input_cst8_i2c_isrhandler ok s = do {
     (err, a) \<leftarrow> vsf_i2c_regacc_irqhandler (cs_buffer s) ok (cs_regacc s);
     let s = s\<lparr>cs_regacc := a\<rparr>;
     (if err \<noteq> I2C_NONE then Some s
      else if ra_reg a = 0xA7 then cs_with_bus (vsf_i2c_regacc 0xA9 True 0 1) s
      else if ra_reg a = 0xA9 then cs_with_bus (vsf_i2c_regacc 0xFA False 0 1) (s\<lparr>cs_buffer := (cs_buffer s)[0 := 0x60]\<rparr>)
      else if ra_reg a = 0xFA then Some (s\<lparr>cs_armed := True\<rparr>)
      else if ra_reg a = 0 then Some (s\<lparr>cs_out := cs_out s @ [cs_touch s], cs_armed := True\<rparr>)
      else Some s)
   }"

definition vk_input_cst8_init :: "nat \<Rightarrow> vk_input_cst8_t \<Rightarrow> vk_input_cst8_t option" where
  "vk_input_cst8_init prio s = cs_with_bus (vsf_i2c_regacc 0xA7 True 0 1)
     (s\<lparr>cs_regacc := (cs_regacc s)\<lparr>ra_reg_addr_len := 1\<rparr>, cs_exti_prio := cs_prio s, cs_prio := prio, cs_armed := False\<rparr>)"

datatype cs_evt = Cs_Bus bool "u8 list" | Cs_Pad

fun cs_step :: "cs_evt \<Rightarrow> vk_input_cst8_t \<Rightarrow> vk_input_cst8_t option" where
  "cs_step (Cs_Bus ok bytes) s = (case ra_bus (cs_regacc s) of None \<Rightarrow> Some s
     | Some rq \<Rightarrow> do {
         buffer \<leftarrow> (if ok then bus_store rq bytes (cs_buffer s) else Some (cs_buffer s));
         p_vk_input_cst8_i2c_isrhandler ok (s\<lparr>cs_buffer := buffer, cs_regacc := (cs_regacc s)\<lparr>ra_bus := None\<rparr>\<rparr>)
       })"
| "cs_step Cs_Pad s = (if cs_armed s then p_vk_input_cst8_eint_isrhandler s else Some s)"

fun cs_run :: "cs_evt list \<Rightarrow> vk_input_cst8_t \<Rightarrow> vk_input_cst8_t option" where
  "cs_run [] s = Some s"
| "cs_run (ev # evs) s = cs_step ev s \<bind> cs_run evs"

end
