(* ===== verification/VSF_Touch_Correct.thy ===== *)
theory VSF_Touch_Correct
  imports VSF_Touch VSF_Input_Correct
begin

text \<open>
  The drivers for touch screens never start a request while another one runs and never leave their buffer, whatever the
  controller answers, and the fingers that are reported as down are the tracked ones.
\<close>

section \<open>Reports of fingers\<close>

lemma touch_id_of:
  "vsf_input_touchscreen_get_id (vsf_input_touchscreen_set_u16 e (ucast (i :: u8)) down p x y) = i"
  "vsf_input_touchscreen_is_down (vsf_input_touchscreen_set_u16 e (ucast (i :: u8)) down p x y) = down"
proof -
  have m: "(0xFF :: u64) = mask 8" by (simp add: mask_eq_exp_minus_1)
  have "ucast (ucast (ucast i OR push_bit 8 (of_bool down) :: u32) AND mask 8 :: u64) = i"
    by (rule bit_word_eqI) (auto simp: bit_unsigned_iff bit_and_iff bit_or_iff bit_push_bit_iff bit_mask_iff)
  then show "vsf_input_touchscreen_get_id (vsf_input_touchscreen_set_u16 e (ucast i) down p x y) = i"
    by (simp add: vsf_input_touchscreen_get_id_def vsf_input_touchscreen_set_u16_def touchscreen_id_def m)
  have "drop_bit 8 (ucast (ucast i OR push_bit 8 (of_bool down) :: u32) :: u64) AND mask 8 = of_bool down"
    by (rule bit_word_eqI) (auto simp: bit_unsigned_iff bit_and_iff bit_or_iff bit_push_bit_iff bit_mask_iff bit_drop_bit_eq bit_1_iff
        dest: bit_imp_le_length [where ?'a = 8])
  then show "vsf_input_touchscreen_is_down (vsf_input_touchscreen_set_u16 e (ucast i) down p x y) = down"
    by (simp add: vsf_input_touchscreen_is_down_def vsf_input_touchscreen_set_u16_def touchscreen_id_def m)
qed

text \<open>The fingers that are down after some events: those whose last event says so. A finger is released only when it is down.\<close>

definition finger_evt :: "vk_touchscreen_evt_t \<Rightarrow> (nat \<Rightarrow> bool) \<Rightarrow> nat \<Rightarrow> bool" where
  "finger_evt e f = f(unat (vsf_input_touchscreen_get_id e) := vsf_input_touchscreen_is_down e)"

definition fingers :: "vk_touchscreen_evt_t list \<Rightarrow> nat \<Rightarrow> bool" where
  "fingers es = fold finger_evt es (\<lambda>_. False)"

fun releases_ok :: "(nat \<Rightarrow> bool) \<Rightarrow> vk_touchscreen_evt_t list \<Rightarrow> bool" where
  "releases_ok f [] = True"
| "releases_ok f (e # es) = ((vsf_input_touchscreen_is_down e \<or> f (unat (vsf_input_touchscreen_get_id e))) \<and> releases_ok (finger_evt e f) es)"

lemma releases_ok_append: "releases_ok f (es @ [e]) \<longleftrightarrow> releases_ok f es \<and>
    (vsf_input_touchscreen_is_down e \<or> fold finger_evt es f (unat (vsf_input_touchscreen_get_id e)))"
  by (induction es arbitrary: f) auto

definition outs_ok :: "vk_input_gt9xx_t \<Rightarrow> bool" where
  "outs_ok s \<longleftrightarrow> releases_ok (\<lambda>_. False) (gt_out s)"

text \<open>Everything but the events.\<close>

definition gt_ctl :: "vk_input_gt9xx_t \<Rightarrow> vk_input_gt9xx_t" where
  "gt_ctl s = s\<lparr>gt_out := []\<rparr>"

lemma gt_ctl_fields:
  "gt_ctl s = gt_ctl t \<Longrightarrow> gt_buffer s = gt_buffer t \<and> gt_last_down s = gt_last_down t \<and> gt_regacc s = gt_regacc t \<and>
     gt_state s = gt_state t \<and> gt_armed s = gt_armed t \<and> gt_pad s = gt_pad t \<and> gt_timer s = gt_timer t \<and> gt_is_ready s = gt_is_ready t"
  by (cases s; cases t) (simp add: gt_ctl_def)

lemma report_ctl: "gt_ctl (p_vk_input_gt9xx_report i d x y p s) = gt_ctl s"
  by (simp add: p_vk_input_gt9xx_report_def gt_ctl_def)

lemma report_fingers:
  "fingers (gt_out (p_vk_input_gt9xx_report i d x y p s)) = (fingers (gt_out s))(unat i := d)"
  "outs_ok (p_vk_input_gt9xx_report i d x y p s) \<longleftrightarrow> outs_ok s \<and> (d \<or> fingers (gt_out s) (unat i))"
  by (simp_all add: p_vk_input_gt9xx_report_def fingers_def finger_evt_def outs_ok_def releases_ok_append touch_id_of)

text \<open>While the points of a frame are reported the fingers that are down are the old ones and those of the points so far.\<close>

definition points_ok :: "u8 \<Rightarrow> vk_input_gt9xx_t \<Rightarrow> u8 \<Rightarrow> bool" where
  "points_ok old s c \<longleftrightarrow> outs_ok s \<and> (\<forall>i < 5. fingers (gt_out s) i \<longleftrightarrow> bit c i \<or> bit old i)"

lemma point_step:
  assumes "points_ok old s c" "gt_point k (s, c) = (s', c')"
  shows "points_ok old s' c' \<and> gt_ctl s' = gt_ctl s"
  using assms
  by (auto simp: points_ok_def gt_point_def Let_def report_fingers report_ctl bit_or_iff bit_unsigned_iff bit_exp_iff)

lemma points_fold:
  "points_ok old s c \<Longrightarrow> fold gt_point ks (s, c) = (s', c') \<Longrightarrow> points_ok old s' c' \<and> gt_ctl s' = gt_ctl s"
proof (induction ks arbitrary: s c)
  case (Cons k ks)
  obtain s1 c1 where 1: "gt_point k (s, c) = (s1, c1)" by fastforce
  from point_step [OF Cons.prems(1) 1] Cons.IH [of s1 c1] Cons.prems(2) 1 show ?case by simp
qed simp

text \<open>The releases report the old fingers below a bound that are not in the frame.\<close>

definition released_ok :: "u8 \<Rightarrow> u8 \<Rightarrow> nat \<Rightarrow> vk_input_gt9xx_t \<Rightarrow> bool" where
  "released_ok old c n s \<longleftrightarrow> outs_ok s \<and> gt_last_down s = old \<and>
     (\<forall>i < 5. fingers (gt_out s) i \<longleftrightarrow> bit c i \<or> n \<le> i \<and> bit old i)"

lemma release_step:
  assumes "released_ok old c n s" "n < 5"
  shows "released_ok old c (Suc n) (gt_release c n s) \<and> gt_ctl (gt_release c n s) = gt_ctl s"
proof -
  have n: "unat (of_nat n :: u8) = n" using assms(2) by (simp add: unat_of_nat take_bit_nat_eq_self)
  show ?thesis
  proof (cases "bit (gt_last_down s AND NOT c) n")
    case True
    have "gt_last_down (gt_release c n s) = gt_last_down s"
      using True gt_ctl_fields [OF report_ctl] by (simp add: gt_release_def)
    with True assms n show ?thesis
      by (auto simp: released_ok_def gt_release_def report_fingers report_ctl bit_and_iff bit_not_iff le_less Suc_le_eq)
  next
    case False
    with assms show ?thesis
      by (auto simp: released_ok_def gt_release_def bit_and_iff bit_not_iff le_less Suc_le_eq)
  qed
qed

lemma release_fold:
  "released_ok old c n s \<Longrightarrow> n \<le> m \<Longrightarrow> m \<le> 5 \<Longrightarrow>
     released_ok old c m (fold (gt_release c) [n..<m] s) \<and> gt_ctl (fold (gt_release c) [n..<m] s) = gt_ctl s"
proof (induction m)
  case (Suc m)
  show ?case
  proof (cases "n = Suc m")
    case False
    then have "n \<le> m" "m < 5" using Suc.prems by auto
    with Suc.IH [OF Suc.prems(1)] release_step [of old c m "fold (gt_release c) [n..<m] s"] show ?thesis by simp
  qed (use Suc.prems in simp)
qed simp

text \<open>After a frame the tracked fingers are those that are down, as far as they have a number below 5.\<close>

definition tracked :: "vk_input_gt9xx_t \<Rightarrow> bool" where
  "tracked s \<longleftrightarrow> outs_ok s \<and> (\<forall>i < 5. fingers (gt_out s) i \<longleftrightarrow> bit (gt_last_down s) i)"

lemma read_touch_tracked:
  assumes "tracked s"
  shows "tracked (p_vk_input_gt9xx_read_touch s) \<and> (\<exists>c. gt_ctl (p_vk_input_gt9xx_read_touch s) = gt_ctl (s\<lparr>gt_last_down := c\<rparr>))"
proof -
  obtain s1 c where 1: "(if gt_buffer s ! 0 AND 0x80 \<noteq> 0 \<and> gt_status_num s \<le> GT9XX_MAX_TOUCH
      then fold gt_point [0..<gt_status_num s] (s, 0) else (s, 0)) = (s1, c)" by fastforce
  have "points_ok (gt_last_down s) s 0" using assms by (simp add: tracked_def points_ok_def)
  with 1 points_fold [OF this] have p: "points_ok (gt_last_down s) s1 c" "gt_ctl s1 = gt_ctl s" by (auto split: if_splits)
  have "released_ok (gt_last_down s) c 0 s1"
    using p(1) gt_ctl_fields [OF p(2)] by (simp add: points_ok_def released_ok_def)
  from release_fold [OF this, of 5] have r: "released_ok (gt_last_down s) c 5 (fold (gt_release c) [0..<5] s1)"
    "gt_ctl (fold (gt_release c) [0..<5] s1) = gt_ctl s" using p(2) by simp_all
  have e: "p_vk_input_gt9xx_read_touch s = (fold (gt_release c) [0..<5] s1)\<lparr>gt_last_down := c\<rparr>"
    using 1 by (simp add: p_vk_input_gt9xx_read_touch_def GT9XX_MAX_TOUCH_def)
  have "gt_ctl (t\<lparr>gt_last_down := c\<rparr>) = (gt_ctl t)\<lparr>gt_last_down := c\<rparr>" for t by (cases t) (simp add: gt_ctl_def)
  then have "gt_ctl ((fold (gt_release c) [0..<5] s1)\<lparr>gt_last_down := c\<rparr>) = gt_ctl (s\<lparr>gt_last_down := c\<rparr>)"
    using r(2) by metis
  moreover have "tracked ((fold (gt_release c) [0..<5] s1)\<lparr>gt_last_down := c\<rparr>)"
    using r(1) by (simp add: tracked_def released_ok_def outs_ok_def)
  ultimately show ?thesis unfolding e by blast
qed

section \<open>Requests on the bus\<close>

text \<open>A running access for reading: the address or the data are transferred, and the data fit into the buffer.\<close>

definition xfer :: "vsf_i2c_regacc_t \<Rightarrow> bool" where
  "xfer a \<longleftrightarrow> ra_is_busy a \<and> ra_is_read a \<and> ra_data a + ra_datalen a \<le> 41 \<and>
     (case ra_bus a of None \<Rightarrow> False | Some (I2c_Write _ _ _) \<Rightarrow> ra_is_regaddr a
      | Some (I2c_Read _ _ place n) \<Rightarrow> \<not> ra_is_regaddr a \<and> place = ra_data a \<and> n = ra_datalen a)"

definition unused :: "vsf_i2c_regacc_t \<Rightarrow> bool" where
  "unused a \<longleftrightarrow> ra_bus a = None \<and> \<not> ra_is_busy a"

lemma regacc_read:
  assumes "unused a" "ra_reg_addr_len a = 2" "0 < n" "place + n \<le> 41"
  shows "\<exists>a'. vsf_i2c_regacc reg True place n a = Some a' \<and> xfer a' \<and> ra_reg_addr_len a' = 2"
  using assms by (simp add: vsf_i2c_regacc_def vsf_i2c_master_request_def Let_def xfer_def unused_def)

lemma irq_xfer:
  assumes "xfer a" "ra_reg_addr_len a = 2"
  shows "\<exists>err a'. vsf_i2c_regacc_irqhandler buffer ok (a\<lparr>ra_bus := None\<rparr>) = Some (err, a') \<and> ra_reg_addr_len a' = 2 \<and>
    (if err = I2C_NOT_READY then xfer a' else unused a' \<and> (err = I2C_NONE \<longrightarrow> \<not> ra_is_regaddr a'))"
proof -
  have x: "ra_is_busy a" "ra_is_read a" "ra_data a + ra_datalen a \<le> 41" using assms(1) by (simp_all add: xfer_def)
  show ?thesis
  proof (cases "ok \<and> ra_is_regaddr a")
    case True
    with x assms(2) show ?thesis
      by (simp add: vsf_i2c_regacc_irqhandler_def vsf_i2c_master_request_def Let_def xfer_def)
  next
    case False
    with assms(2) show ?thesis
      by (cases ok) (simp_all add: vsf_i2c_regacc_irqhandler_def unused_def)
  qed
qed

lemma store_xfer: "xfer a \<Longrightarrow> ra_bus a = Some rq \<Longrightarrow> length buffer = 41 \<Longrightarrow> \<exists>b. bus_store rq bytes buffer = Some b \<and> length b = 41"
  by (auto simp: xfer_def bus_store_def length_blk_write split: i2c_req.splits)

section \<open>GT9xx\<close>

text \<open>The bus in each of the states of the driver.\<close>

definition bus_ok :: "gt9xx_state \<Rightarrow> vsf_i2c_regacc_t \<Rightarrow> bool" where
  "bus_ok st a \<longleftrightarrow> ra_reg_addr_len a = 2 \<and> (case st of
       GT9XX_STATE_IDLE \<Rightarrow> unused a
     | GT9XX_STATE_PROBE \<Rightarrow> unused a \<or> xfer a
     | GT9XX_STATE_CLEAR \<Rightarrow> \<not> ra_is_busy a \<and> \<not> ra_is_regaddr a \<and> (\<exists>c ad bs. ra_bus a = Some (I2c_Write c ad bs))
     | _ \<Rightarrow> xfer a)"

text \<open>
  The pad is enabled exactly while the driver waits for it, the timer runs exactly without a pad, and the events agree with
  the tracked fingers; there are none before the driver is ready.
\<close>

definition gt_ok :: "vk_input_gt9xx_t \<Rightarrow> bool" where
  "gt_ok s \<longleftrightarrow> length (gt_buffer s) = 41 \<and> bus_ok (gt_state s) (gt_regacc s) \<and>
     (gt_armed s \<longleftrightarrow> gt_pad s \<and> gt_state s = GT9XX_STATE_IDLE) \<and> (gt_timer s \<longleftrightarrow> \<not> gt_pad s) \<and>
     (gt_is_ready s \<longleftrightarrow> gt_state s \<noteq> GT9XX_STATE_PROBE) \<and>
     (if gt_state s = GT9XX_STATE_PROBE then gt_out s = [] else tracked s)"

text \<open>The state between the end of a request and the reaction of the driver.\<close>

definition gt_mid :: "vk_input_gt9xx_t \<Rightarrow> bool" where
  "gt_mid s \<longleftrightarrow> length (gt_buffer s) = 41 \<and> unused (gt_regacc s) \<and> ra_reg_addr_len (gt_regacc s) = 2 \<and>
     \<not> gt_armed s \<and> (gt_timer s \<longleftrightarrow> \<not> gt_pad s) \<and>
     (gt_is_ready s \<longleftrightarrow> gt_state s \<noteq> GT9XX_STATE_PROBE) \<and>
     (if gt_state s = GT9XX_STATE_PROBE then gt_out s = [] else tracked s)"

lemma tracked_cong: "gt_out s = gt_out t \<Longrightarrow> gt_last_down s = gt_last_down t \<Longrightarrow> tracked s = tracked t"
  by (simp add: tracked_def outs_ok_def)

lemma frame_done_ok: "gt_mid s \<Longrightarrow> gt_state s \<noteq> GT9XX_STATE_PROBE \<Longrightarrow> gt_ok (p_vk_input_gt9xx_on_frame_done s)"
  by (auto simp: gt_mid_def gt_ok_def bus_ok_def p_vk_input_gt9xx_on_frame_done_def p_vk_input_gt9xx_arm_int_def Let_def tracked_def outs_ok_def)

lemma regacc_ok:
  assumes "gt_mid s" "0 < n" "place + n \<le> 41" "st = GT9XX_STATE_READ \<or> st = GT9XX_STATE_READ_POINTS" "gt_state s \<noteq> GT9XX_STATE_PROBE"
  shows "\<exists>s'. gt_with_bus (vsf_i2c_regacc reg True place n) (s\<lparr>gt_state := st\<rparr>) = Some s' \<and> gt_ok s'"
proof -
  obtain a where "vsf_i2c_regacc reg True place n (gt_regacc s) = Some a" "xfer a" "ra_reg_addr_len a = 2"
    using regacc_read [of "gt_regacc s" n place reg] assms(1-3) by (auto simp: gt_mid_def)
  with assms show ?thesis
    by (auto simp: gt_with_bus_def gt_mid_def gt_ok_def bus_ok_def tracked_def outs_ok_def)
qed

lemma clear_status_ok:
  assumes "gt_mid s" "\<not> ra_is_regaddr (gt_regacc s)" "gt_state s \<noteq> GT9XX_STATE_PROBE"
  shows "\<exists>s'. p_vk_input_gt9xx_clear_status s = Some s' \<and> gt_ok s'"
  using assms
  by (auto simp: p_vk_input_gt9xx_clear_status_def Let_def gt_with_bus_def vsf_i2c_master_request_def gt_mid_def unused_def gt_ok_def
      bus_ok_def tracked_def outs_ok_def)

lemma read_touch_mid:
  assumes "gt_mid s" "gt_state s \<noteq> GT9XX_STATE_PROBE"
  shows "gt_mid (p_vk_input_gt9xx_read_touch s)" "gt_state (p_vk_input_gt9xx_read_touch s) \<noteq> GT9XX_STATE_PROBE"
    "gt_regacc (p_vk_input_gt9xx_read_touch s) = gt_regacc s"
proof -
  have t: "tracked s" using assms by (simp add: gt_mid_def)
  from read_touch_tracked [OF t] obtain c where r: "tracked (p_vk_input_gt9xx_read_touch s)"
    "gt_ctl (p_vk_input_gt9xx_read_touch s) = gt_ctl (s\<lparr>gt_last_down := c\<rparr>)"
    by blast
  from gt_ctl_fields [OF r(2)] r(1) assms show "gt_mid (p_vk_input_gt9xx_read_touch s)"
    "gt_state (p_vk_input_gt9xx_read_touch s) \<noteq> GT9XX_STATE_PROBE" "gt_regacc (p_vk_input_gt9xx_read_touch s) = gt_regacc s"
    by (auto simp: gt_mid_def)
qed

lemma on_read_ok:
  assumes "gt_mid s" "\<not> ra_is_regaddr (gt_regacc s)" "gt_state s = GT9XX_STATE_READ"
  shows "\<exists>s'. gt_on_read s = Some s' \<and> gt_ok s'"
proof -
  have n: "gt_state s \<noteq> GT9XX_STATE_PROBE" using assms(3) by simp
  note c = clear_status_ok [OF read_touch_mid(1) [OF assms(1) n] _ read_touch_mid(2) [OF assms(1) n]] read_touch_mid(3) [OF assms(1) n]
  have p: "\<exists>s'. gt_with_bus (vsf_i2c_regacc (GT9XX_REG_POINTS + 8) True 9 ((gt_status_num s - 1) * 8)) (s\<lparr>gt_state := GT9XX_STATE_READ_POINTS\<rparr>) = Some s' \<and> gt_ok s'"
    if "1 < gt_status_num s" "gt_status_num s \<le> 5" by (rule regacc_ok [OF assms(1)]) (use that n in auto)
  show ?thesis
    using frame_done_ok [OF assms(1) n] p c assms(2) unfolding gt_on_read_def Let_def GT9XX_MAX_TOUCH_def by auto
qed

lemma on_probe_ok: "gt_mid s \<Longrightarrow> gt_state s = GT9XX_STATE_PROBE \<Longrightarrow> gt_ok (gt_on_probe s)"
  by (auto simp: gt_on_probe_def p_vk_input_gt9xx_trigger_def p_vk_input_gt9xx_arm_int_def gt_mid_def gt_ok_def bus_ok_def tracked_def
      outs_ok_def fingers_def)

lemma on_failure_ok:
  assumes "gt_mid s"
  shows "\<exists>s'. gt_on_failure s = Some s' \<and> gt_ok s'"
proof (cases "gt_state s = GT9XX_STATE_PROBE")
  case True
  let ?a = "(gt_regacc s)\<lparr>ra_i2c_addr := p_vk_input_gt9xx_addr_tab ! (gt_addr_idx s + 1)\<rparr>"
  obtain a where "vsf_i2c_regacc GT9XX_REG_PRODUCT_ID True 0 4 ?a = Some a" "xfer a" "ra_reg_addr_len a = 2"
    using regacc_read [of ?a 4 0 GT9XX_REG_PRODUCT_ID] assms by (auto simp: gt_mid_def unused_def)
  with True assms show ?thesis by (auto simp: gt_on_failure_def Let_def gt_with_bus_def gt_mid_def gt_ok_def bus_ok_def)
next
  case False
  with frame_done_ok [OF assms] show ?thesis by (simp add: gt_on_failure_def)
qed

text \<open>The end of a request keeps the invariant.\<close>

lemma isr_ok:
  assumes "gt_ok s" "ra_bus (gt_regacc s) \<noteq> None" "length b = 41"
  shows "\<exists>s'. p_vk_input_gt9xx_i2c_isrhandler ok (s\<lparr>gt_buffer := b, gt_regacc := (gt_regacc s)\<lparr>ra_bus := None\<rparr>\<rparr>) = Some s' \<and> gt_ok s'"
proof -
  let ?a = "(gt_regacc s)\<lparr>ra_bus := None\<rparr>"
  let ?s = "s\<lparr>gt_buffer := b, gt_regacc := ?a\<rparr>"
  have i: "gt_state s \<noteq> GT9XX_STATE_IDLE" using assms(1,2) by (auto simp: gt_ok_def bus_ok_def unused_def)
  have r: "ra_reg_addr_len (gt_regacc s) = 2" using assms(1) by (simp add: gt_ok_def bus_ok_def)
  have m: "gt_mid (?s\<lparr>gt_regacc := a\<rparr>)" if "unused a" "ra_reg_addr_len a = 2" for a
    using assms(1,3) i that by (auto simp: gt_ok_def gt_mid_def tracked_def outs_ok_def)
  have "\<exists>err a. vsf_i2c_regacc_irqhandler b ok ?a = Some (err, a) \<and> ra_reg_addr_len a = 2 \<and>
      (if err = I2C_NOT_READY then xfer a \<and> gt_state s \<noteq> GT9XX_STATE_CLEAR else unused a \<and> (err = I2C_NONE \<longrightarrow> \<not> ra_is_regaddr a))"
  proof (cases "gt_state s = GT9XX_STATE_CLEAR")
    case True
    with assms(1) r show ?thesis by (cases ok) (simp_all add: gt_ok_def bus_ok_def vsf_i2c_regacc_irqhandler_def unused_def)
  next
    case False
    with assms(1,2) i have "xfer (gt_regacc s)" by (auto simp: gt_ok_def bus_ok_def unused_def split: gt9xx_state.splits)
    from irq_xfer [OF this r, of b ok] obtain err a where "vsf_i2c_regacc_irqhandler b ok ?a = Some (err, a)" "ra_reg_addr_len a = 2"
      "if err = I2C_NOT_READY then xfer a else unused a \<and> (err = I2C_NONE \<longrightarrow> \<not> ra_is_regaddr a)" by blast
    with False show ?thesis by (intro exI [of _ err] exI [of _ a]) simp
  qed
  then obtain err a where e: "vsf_i2c_regacc_irqhandler b ok ?a = Some (err, a)" "ra_reg_addr_len a = 2"
    "if err = I2C_NOT_READY then xfer a \<and> gt_state s \<noteq> GT9XX_STATE_CLEAR else unused a \<and> (err = I2C_NONE \<longrightarrow> \<not> ra_is_regaddr a)" by blast
  let ?t = "?s\<lparr>gt_regacc := a\<rparr>"
  show ?thesis
  proof (cases err)
    case I2C_NOT_READY
    with e i assms(1,3) have "gt_ok ?t" by (auto simp: gt_ok_def bus_ok_def tracked_def outs_ok_def split: gt9xx_state.splits)
    with e I2C_NOT_READY show ?thesis by (simp add: p_vk_input_gt9xx_i2c_isrhandler_def)
  next
    case I2C_FAIL
    with e on_failure_ok [OF m] show ?thesis by (simp add: p_vk_input_gt9xx_i2c_isrhandler_def)
  next
    case I2C_NONE
    with e have u: "unused a" "\<not> ra_is_regaddr (gt_regacc ?t)" by simp_all
    note t = m [OF u(1) e(2)]
    note rd = clear_status_ok [OF read_touch_mid(1) [OF t] _ read_touch_mid(2) [OF t]] read_touch_mid(3) [OF t]
    show ?thesis
      using e I2C_NONE u(2) i on_probe_ok [OF t] on_read_ok [OF t u(2)] frame_done_ok [OF t] rd
      by (cases "gt_state s") (simp_all add: p_vk_input_gt9xx_i2c_isrhandler_def)
  qed
qed

lemma gt_step_ok:
  assumes "gt_ok s"
  shows "\<exists>s'. gt_step ev s = Some s' \<and> gt_ok s'"
proof (cases ev)
  case (Gt_Bus ok bytes)
  show ?thesis
  proof (cases "ra_bus (gt_regacc s)")
    case (Some rq)
    have "\<exists>b. bus_store rq bytes (gt_buffer s) = Some b \<and> length b = 41"
    proof (cases "gt_state s = GT9XX_STATE_CLEAR")
      case True
      with assms Some show ?thesis by (auto simp: gt_ok_def bus_ok_def bus_store_def)
    next
      case False
      with assms Some have "xfer (gt_regacc s)" by (auto simp: gt_ok_def bus_ok_def unused_def split: gt9xx_state.splits)
      from store_xfer [OF this Some] assms show ?thesis by (simp add: gt_ok_def)
    qed
    then obtain b where b: "bus_store rq bytes (gt_buffer s) = Some b" "length b = 41" by blast
    have "length (gt_buffer s) = 41" using assms by (simp add: gt_ok_def)
    with isr_ok [OF assms, of b ok] isr_ok [OF assms, of "gt_buffer s" ok] Some b Gt_Bus show ?thesis by (cases ok) simp_all
  qed (use assms Gt_Bus in simp)
next
  case Gt_Pad
  show ?thesis
  proof (cases "gt_armed s")
    case True
    then have "gt_mid (s\<lparr>gt_armed := False\<rparr>)" "gt_state s \<noteq> GT9XX_STATE_PROBE"
      using assms by (auto simp: gt_ok_def gt_mid_def bus_ok_def tracked_def outs_ok_def)
    from regacc_ok [OF this(1), of 9 0 GT9XX_STATE_READ GT9XX_REG_READ_STATUS] this(2) True Gt_Pad show ?thesis
      by (simp add: p_vk_input_gt9xx_int_isrhandler_def p_vk_input_gt9xx_read_status_def)
  qed (use assms Gt_Pad in simp)
next
  case Gt_Timer
  show ?thesis
  proof (cases "gt_timer s")
    case True
    then have p: "\<not> gt_pad s" using assms by (simp add: gt_ok_def)
    show ?thesis
    proof (cases "gt_state s = GT9XX_STATE_IDLE \<and> gt_is_ready s")
      case i: True
      with assms p have m: "gt_mid (s\<lparr>gt_timer := True\<rparr>)"
        by (auto simp: gt_ok_def gt_mid_def bus_ok_def tracked_def outs_ok_def)
      obtain a where a: "vsf_i2c_regacc GT9XX_REG_READ_STATUS True 0 9 (gt_regacc s) = Some a" "xfer a" "ra_reg_addr_len a = 2"
        using regacc_read [of "gt_regacc s" 9 0 GT9XX_REG_READ_STATUS] m by (auto simp: gt_mid_def)
      with i p m True Gt_Timer show ?thesis
        by (auto simp: p_vk_input_gt9xx_on_poll_def p_vk_input_gt9xx_read_status_def gt_with_bus_def gt_mid_def gt_ok_def bus_ok_def tracked_def outs_ok_def)
    next
      case False
      with assms p True Gt_Timer show ?thesis
        by (auto simp: p_vk_input_gt9xx_on_poll_def gt_ok_def tracked_def outs_ok_def)
    qed
  qed (use assms Gt_Timer in simp)
qed

lemma gt_run_ok: "gt_ok s \<Longrightarrow> \<exists>s'. gt_run evs s = Some s' \<and> gt_ok s'"
proof (induction evs arbitrary: s)
  case (Cons ev evs)
  with gt_step_ok [OF Cons.prems, of ev] show ?case by auto
qed simp

text \<open>A driver object before its initialisation.\<close>

definition gt_fresh :: "vk_input_gt9xx_t \<Rightarrow> bool" where
  "gt_fresh s \<longleftrightarrow> length (gt_buffer s) = 41 \<and> unused (gt_regacc s) \<and> \<not> gt_armed s \<and> \<not> gt_timer s \<and> \<not> gt_is_ready s \<and> gt_out s = []"

lemma gt_init_ok:
  assumes "gt_fresh s"
  shows "\<exists>s'. vk_input_gt9xx_init prio s = Some s' \<and> gt_ok s'"
proof -
  let ?a = "(gt_regacc s)\<lparr>ra_reg_addr_len := 2, ra_i2c_addr := p_vk_input_gt9xx_addr_tab ! 0\<rparr>"
  obtain a where "vsf_i2c_regacc GT9XX_REG_PRODUCT_ID True 0 4 ?a = Some a" "xfer a" "ra_reg_addr_len a = 2"
    using regacc_read [of ?a 4 0 GT9XX_REG_PRODUCT_ID] assms by (auto simp: gt_fresh_def unused_def)
  with assms show ?thesis
    by (auto simp: vk_input_gt9xx_init_def Let_def gt_with_bus_def gt_fresh_def gt_ok_def bus_ok_def)
qed

text \<open>
  C40. Whatever the controller of the bus answers, in whatever order its answers, the edges of the pad and the ticks of the timer come, the
  driver never starts a request while one runs, never fails an assertion and never leaves its buffer; a finger is only
  released when it is down; when the driver is ready the tracked fingers below 5 are exactly those that were reported as down;
  and it always waits for the bus, the enabled pad or the timer.
\<close>

theorem gt9xx_safe:
  assumes "gt_fresh s0"
  shows "\<exists>s1 s. vk_input_gt9xx_init prio s0 = Some s1 \<and> gt_run evs s1 = Some s \<and> releases_ok (\<lambda>_. False) (gt_out s) \<and>
    (if gt_is_ready s
     then (\<forall>i. i < 5 \<longrightarrow> fingers (gt_out s) i = bit (gt_last_down s) i) \<and>
       (ra_bus (gt_regacc s) \<noteq> None \<or> gt_state s = GT9XX_STATE_IDLE \<and> (if gt_pad s then gt_armed s else gt_timer s))
     else gt_out s = [])"
proof -
  obtain s1 where 1: "vk_input_gt9xx_init prio s0 = Some s1" "gt_ok s1" using gt_init_ok [OF assms] by blast
  obtain s where 2: "gt_run evs s1 = Some s" "gt_ok s" using gt_run_ok [OF 1(2)] by blast
  have "ra_bus (gt_regacc s) \<noteq> None" if "gt_is_ready s" "gt_state s \<noteq> GT9XX_STATE_IDLE"
    using 2(2) that by (auto simp: gt_ok_def bus_ok_def xfer_def split: gt9xx_state.splits option.splits)
  moreover have "releases_ok (\<lambda>_. False) (gt_out s)"
    using 2(2) by (cases "gt_state s = GT9XX_STATE_PROBE") (auto simp: gt_ok_def tracked_def outs_ok_def)
  ultimately show ?thesis using 1(1) 2 by (auto simp: gt_ok_def tracked_def)
qed

definition gt_sample :: vk_input_gt9xx_t where
  "gt_sample = \<lparr>gt_regacc = \<lparr>ra_i2c_addr = 0, ra_reg_addr_len = 0, ra_reg = 0, ra_datalen = 0, ra_data = 0, ra_is_busy = False, ra_is_read = False,
       ra_is_regaddr = False, ra_bus = None\<rparr>,
     gt_pad = True, gt_width = 480, gt_height = 320, gt_is_ready = False, gt_probe_failed = False, gt_buffer = replicate 41 0, gt_last_down = 0,
     gt_addr_idx = 0, gt_state = GT9XX_STATE_IDLE, gt_prio = 0, gt_armed = False, gt_timer = False, gt_out = []\<rparr>"

text \<open>A probe, a frame with one finger, and a frame without.\<close>

definition gt_sample_evts :: "gt_evt list" where
  "gt_sample_evts = [Gt_Bus True [], Gt_Bus True [0x39, 0x31, 0x31, 0], Gt_Pad, Gt_Bus True [], Gt_Bus True [0x81, 2, 10, 0, 20, 0, 5, 0, 0], Gt_Bus True [],
     Gt_Pad, Gt_Bus True [], Gt_Bus True [0x80, 0, 0, 0, 0, 0, 0, 0, 0], Gt_Bus True []]"

theorem gt9xx_safe_witness:
  "\<exists>s1 s. vk_input_gt9xx_init 3 gt_sample = Some s1 \<and> gt_run gt_sample_evts s1 = Some s \<and> releases_ok (\<lambda>_. False) (gt_out s) \<and>
     (gt_is_ready s, gt_last_down s, gt_armed s,
      map (\<lambda>e. (vsf_input_touchscreen_get_id e, vsf_input_touchscreen_is_down e, vsf_input_touchscreen_get_x e)) (gt_out s))
     = (True, 0, True, [(2, True, 10), (2, False, 0)])"
proof -
  have "gt_fresh gt_sample" by (simp add: gt_fresh_def gt_sample_def unused_def)
  from gt9xx_safe [OF this, of 3 gt_sample_evts] obtain s1 s where s: "vk_input_gt9xx_init 3 gt_sample = Some s1"
    "gt_run gt_sample_evts s1 = Some s" "releases_ok (\<lambda>_. False) (gt_out s)" by blast
  have "map_option (\<lambda>s. (gt_is_ready s, gt_last_down s, gt_armed s,
      map (\<lambda>e. (vsf_input_touchscreen_get_id e, vsf_input_touchscreen_is_down e, vsf_input_touchscreen_get_x e)) (gt_out s)))
    (vk_input_gt9xx_init 3 gt_sample \<bind> gt_run gt_sample_evts) = Some (True, 0, True, [(2, True, 10), (2, False, 0)])"
    by code_simp
  with s show ?thesis by simp
qed

text \<open>A finger with a number of 5 or more is tracked but never released, and one of 8 or more is not tracked.\<close>

lemma gt9xx_high_finger:
  "(let s = gt_sample\<lparr>gt_buffer := [0x81, 6] @ replicate 39 0\<rparr>; s1 = p_vk_input_gt9xx_read_touch s;
       s2 = p_vk_input_gt9xx_read_touch (s1\<lparr>gt_buffer := [0x80] @ replicate 40 0\<rparr>)
     in (gt_last_down s1, fingers (gt_out s1) 6, gt_last_down s2, fingers (gt_out s2) 6)) = (64, True, 0, True)"
  by code_simp

text \<open>A controller that answers at the first address with another product ends the probe; the second address is not tried.\<close>

lemma gt9xx_wrong_product:
  "map_option (\<lambda>s. (gt_probe_failed s, gt_addr_idx s, ra_bus (gt_regacc s)))
     (vk_input_gt9xx_init 3 gt_sample \<bind> gt_run [Gt_Bus True [], Gt_Bus True [0, 0, 0, 0]]) = Some (True, 0, None)"
  by code_simp

section \<open>CST8xx\<close>

text \<open>A failed transfer leaves the interrupt of the pad disabled: without a running request nothing happens any more.\<close>

lemma cst8_failure_stops:
  assumes "\<not> cs_armed s" "ra_bus (cs_regacc s) = Some rq" "cs_step (Cs_Bus False bytes) s = Some s'"
  shows "cs_run evs s' = Some s'"
proof -
  have "\<not> cs_armed s'" "ra_bus (cs_regacc s') = None"
    using assms by (auto simp: p_vk_input_cst8_i2c_isrhandler_def vsf_i2c_regacc_irqhandler_def)
  then have "cs_step ev s' = Some s'" for ev by (cases ev) auto
  then show ?thesis by (induction evs) auto
qed

text \<open>The interrupt of the pad is configured with the priority from before the initialisation.\<close>

lemma cst8_init_prio: "vk_input_cst8_init prio s = Some s' \<Longrightarrow> cs_exti_prio s' = cs_prio s \<and> cs_prio s' = prio"
  by (auto simp: vk_input_cst8_init_def cs_with_bus_def)

end
