(* ===== verification/Spec2Isabelle.thy ===== *)
theory Spec2Isabelle
  imports VSF_Fifo VSF_List VSF_Rng_Buf VSF_Arch VSF_Heap_Api VSF_Eda_Queue VSF_Bmpevt VSF_Frame VSF_Evtq_Array VSF_Json_Correct VSF_Byte_Stream VSF_Dynarr_Correct VSF_Usbd_Correct VSF_Pool_Correct VSF_Scsi_Correct VSF_Disk_Correct VSF_Hid_Correct VSF_Touch_Correct
begin

text \<open>
  A verification development for VSF, a framework of services and an event-driven kernel for embedded
  systems. It covers the kernel under \<open>src/source/kernel\<close>, the services and data structures the kernel
  and the drivers build on (\<open>src/source/service\<close>, \<open>src/source/utilities/template\<close>), the part of the
  architecture layer that gives the kernel its time base (\<open>src/source/hal/arch\<close>), and of the components the core of the
  USB device stack (\<open>src/source/component/usb/device\<close>), disks (\<open>component/mal\<close>, \<open>component/scsi\<close>) and input devices (\<open>component/input\<close>).

  \<^bold>\<open>How the parts work together.\<close> A task (\<open>vsf_eda_t\<close>) is a handler that gets events. An event is posted to
  the event queue of the priority of the task (\<open>vsf_evtq_list.c\<close>), the software interrupt of this priority
  polls the queue, and the poll gives each task its events in order. Timers (\<open>vsf_eda_timer.c\<close>) post an event when
  their tick is due; their time is the system timer of the architecture layer. Semaphores, mutexes,
  message queues and bitmap events (\<open>__eda/\<close>) keep lists of waiting tasks and wake them by posting an event. A
  task can call another handler with a frame of its own (\<open>vsf_eda.c\<close>). Frames and buffers come from the
  heap (\<open>service/heap\<close>); lists, fifos and ring buffers are used throughout.

  \<^bold>\<open>Theories and sources.\<close>
  \<^item> \<open>VSF_Prelude\<close>: types of the target, words and lists, the collections of simplification rules.
  \<^item> \<open>VSF_Ring\<close>: arithmetic of ring buffers and the contract \<open>bounded_queue\<close> of a bounded first-in first-out queue.
  \<^item> \<open>VSF_Fifo\<close>: \<open>service/fifo/vsf_fifo.c\<close>, with an interleaving of one producer and one consumer at the
    borders of the protected regions.
  \<^item> \<open>VSF_Rng_Buf\<close>: \<open>utilities/template/vsf_queue.c\<close> and the typed queues its macros generate.
  \<^item> \<open>VSF_List\<close>: \<open>utilities/template/vsf_list.c\<close> over an explicit store of pointers, with the contract \<open>deque_ops\<close>.
  \<^item> \<open>VSF_Arch\<close>: byte order and bit searches of \<open>hal/arch/vsf_arch_abstraction.c\<close>.
  \<^item> \<open>VSF_Heap\<close>, \<open>VSF_Heap_Layout\<close>, \<open>VSF_Heap_Correct\<close>, \<open>VSF_Heap_Api\<close>: \<open>service/heap/vsf_heap.c\<close>: the operations
    on memory control blocks with their 16-bit links, the invariant as a layout of blocks, the
    correctness of each operation, and the default heap with the contract \<open>allocator\<close>.
  \<^item> \<open>VSF_Systimer\<close>: the system timer over a normal timer (\<open>vsf_arch_abstraction.c\<close>).
  \<^item> \<open>VSF_Kernel\<close>, \<open>VSF_Evtq\<close>: the tasks, the event queues and the poll loop (\<open>vsf_evtq_list.c\<close>, \<open>vsf_os.c\<close>, \<open>vsf_eda.c\<close>).
  \<^item> \<open>VSF_Timer\<close>, \<open>VSF_Timer_Correct\<close>: task timers and callback timers (\<open>vsf_eda_timer.c\<close>, \<open>vsf_timq_dlist.h\<close>).
  \<^item> \<open>VSF_Wake\<close>: the contract \<open>waker\<close> between the kernel and the synchronisation objects.
  \<^item> \<open>VSF_Sync\<close>, \<open>VSF_Eda_Queue\<close>, \<open>VSF_Bmpevt\<close>: \<open>vsf_eda_sync.c\<close>, \<open>vsf_eda_queue.c\<close> with \<open>vsf_eda_slist_queue.c\<close> and the
    contract \<open>queue_backend\<close>, and \<open>vsf_eda_bmpevt.c\<close>.
  \<^item> \<open>VSF_Frame\<close>: start and end of tasks, calls and returns (\<open>vsf_eda.c\<close>).
  \<^item> \<open>VSF_Evtq_Array\<close>: the other implementation of the event queues, over arrays (\<open>vsf_evtq_array.c\<close>).
  \<^item> \<open>VSF_Json\<close>, \<open>VSF_Json_Correct\<close>: the reader and the writer of \<open>service/json/vsf_json.c\<close>.
  \<^item> \<open>VSF_Stream\<close>, \<open>VSF_Byte_Stream\<close>: the streams of \<open>service/simple_stream\<close> with their adapter over the contract
    \<open>stream_backend\<close> of a buffer, and its two implementations, the byte fifo and the memory stream.
  \<^item> \<open>VSF_Dynarr\<close>, \<open>VSF_Dynarr_Correct\<close>: \<open>service/dynarr\<close> and \<open>service/dynstack\<close>, as clients of the default heap.
  \<^item> \<open>VSF_Pool\<close>, \<open>VSF_Pool_Correct\<close>: \<open>service/pool\<close>, which fulfils the contract \<open>allocator\<close> as well.
  \<^item> \<open>VSF_Usbd\<close>, \<open>VSF_Usbd_Correct\<close>: the core of the USB device stack, \<open>component/usb/device/vsf_usbd.c\<close>.
  \<^item> \<open>VSF_Mal\<close>, \<open>VSF_Mal_Correct\<close>: the memory abstraction layer \<open>component/mal/vsf_mal.c\<close> with plain memory and shared parts of a
    device, and the contract \<open>mal_device\<close>, which a part keeps when the whole does (\<open>mal_window\<close>).
  \<^item> \<open>VSF_Scsi\<close>, \<open>VSF_Scsi_Correct\<close>: \<open>component/scsi\<close>, the commands of a virtual SCSI device, over any device that keeps the contract.
  \<^item> \<open>VSF_Cached_Mal\<close>, \<open>VSF_Cached_Mal_Correct\<close>: \<open>component/mal/driver/mim_mal\<close> and \<open>cached_mal\<close>, over the contract \<open>erasable_mal\<close>.
  \<^item> \<open>VSF_Scsi_Mal\<close>, \<open>VSF_Disk_Correct\<close>: \<open>component/mal/driver/scsi_mal\<close>, and the devices on top of each other.
  \<^item> \<open>VSF_Input\<close>, \<open>VSF_Input_Correct\<close>: \<open>component/input/vsf_input.c\<close> and \<open>protocol\<close>: fields of bits, notifiers, gamepads, keyboards, mice.
  \<^item> \<open>VSF_Hid\<close>, \<open>VSF_Hid_Correct\<close>: \<open>component/input/driver/hid\<close>: report descriptors, input reports and the touches in them.
  \<^item> \<open>VSF_Touch\<close>, \<open>VSF_Touch_Correct\<close>: \<open>component/input/driver/touch_screen\<close> over \<open>hal/utilities/i2c_util\<close>.

  \<^bold>\<open>Conventions.\<close> A definition has the name of the C function; the leading \<open>__\<close> of an internal function
  is written \<open>p_\<close>. Structures are records with the names of the members; global variables are fields of
  the record that is passed along (\<open>kernel\<close> for \<open>__vsf_eda\<close> and \<open>__vsf_os\<close>). The target has 32-bit pointers and the
  options have their defaults. Where a width matters the numbers are words or are reduced
  explicitly. \<open>None\<close> as the result of an operation is a failed assertion, a null pointer that is followed
  or a broken list; every theorem that says \<open>= Some \<dots>\<close> therefore also says that none of these
  happens. A protected region is one step; the theories that are about interruptions split the
  operations at the borders of the regions. A list whose nodes have no other use in an operation is
  the list of its addresses; \<open>VSF_List\<close> shows that the pointer operations are the operations on this list.
  Handlers, callbacks and the operations of adapters are parameters.

  \<^bold>\<open>Loops.\<close> Most loops recurse on a list and end for this reason. The poll loop, the searches of the heap
  and the loops on linked lists may run forever on a broken structure; they are partial functions,
  and the theorems show that they return. The loop of the timers ends because each round removes a
  timer from its queue. No definition has a bound of its own.

  \<^bold>\<open>What is shown.\<close> The queues are first-in first-out for every sequence of operations; the heap keeps
  blocks apart and contents unchanged for every program of allocations and releases; the system timer
  counts every tick; posting, polling, priorities and the end of tasks keep the invariant of the
  event queues with every event node accounted for; timers fire when due, in order, and the system
  timer is armed for the next one; the synchronisation objects wake the tasks that they have to; a
  call with its return restores the caller; streams are queues of bytes and their adapter moves what fits; dynamic arrays own
  their blocks of the heap, keep their items when the size changes and give everything back; pools hand out each of their items once and lose none; JSON
  documents are read as they were written; and transfers of the USB device hand over and store the bytes packet by packet, while its
  events keep the tables of configurations, interfaces and endpoints in range; a disk returns what was written to its blocks, can be read
  up to the capacity that it reports, and explains the commands that it refuses; a cache over a part of a device is not noticed by any program of reads and writes; a human
  interface device reports exactly the fields that changed, at the places its descriptor gives them, and gives its memory back; and a touch screen
  driver never overlaps its requests whatever the bus answers. Other theorems pin down behaviour that differs from what
  the comments promise: among them the lookup by index in lists, the cursor of the ring buffer, huge
  requests to the heap, lost wakeups of message queues, the second task that waits for a bitmap event,
  the frame that is freed while it is in use, the USB requests that are not answered, and the report descriptors and reports of
  input devices that are read behind their end.

  \<^bold>\<open>Not modelled.\<close> Drivers and the code of the targets (\<open>hal/driver\<close>, most of \<open>hal/arch\<close>) are register accesses; the other
  components (\<open>component/\<close>: the USB host and classes, file systems, network, graphics and others), the shells and the example
  programs are outside of the core that is treated here, as are vendored libraries. Of the kernel
  threads and protothreads are missing, as their switch of stacks is code of the target; of the services the trace and
  the loaders (formatted output and calls into loaded code), packet buffers, the distributed bus, the streams
  of blocks, queues and sockets, the older streams over packet buffers, and the functions on floating point numbers of JSON.
\<close>

end
